(* ===== verification/Prelude.thy ===== *)
theory Prelude imports Main "HOL-Library.Sublist" "HOL-Library.AList" begin

text \<open>
  What the component theories share: JavaScript strings as lists of characters with the handful
  of \<^verbatim>\<open>String.prototype\<close> operations the code uses, \<^verbatim>\<open>[...new Set(xs)]\<close>, insertion-ordered
  maps (\<^verbatim>\<open>Map\<close> and plain objects) as association lists, and results that are an error or a
  value. The collections \<open>js_string\<close> and \<open>js_map\<close> gather the facts the component
  proofs rewrite with.
\<close>

named_theorems js_string \<open>facts about the JavaScript string operations\<close>
named_theorems js_map \<open>facts about insertion-ordered maps\<close>

section \<open>Strings\<close>

text \<open>
  A JavaScript string is a list of characters. All strings the modelled code inspects
  character by character (program ids, flags, key material) are ASCII, where one character is
  one UTF-16 code unit, so lengths and slices agree with the source's.
\<close>

fun starts_with :: "string \<Rightarrow> string \<Rightarrow> bool" where
  "starts_with s [] = True"
| "starts_with [] (p # ps) = False"
| "starts_with (c # cs) (p # ps) = (c = p \<and> starts_with cs ps)"

lemma starts_with_prefix [js_string]: "starts_with s p \<longleftrightarrow> prefix p s"
  by (induction s p rule: starts_with.induct) auto

definition ends_with :: "string \<Rightarrow> string \<Rightarrow> bool" where
  "ends_with s p = starts_with (rev s) (rev p)"

lemma ends_with_suffix [js_string]: "ends_with s p \<longleftrightarrow> suffix p s"
  by (simp add: ends_with_def starts_with_prefix suffix_to_prefix)

fun str_includes :: "string \<Rightarrow> string \<Rightarrow> bool" where
  "str_includes [] p = (p = [])"
| "str_includes (c # cs) p = (starts_with (c # cs) p \<or> str_includes cs p)"

lemma str_includes_sublist [js_string]: "str_includes s p \<longleftrightarrow> sublist p s"
  by (induction s) (auto simp: starts_with_prefix sublist_Cons_right)

text \<open>A prefix that only appears when a string grows runs over the end of the shorter string.\<close>

lemma prefix_append_new:
  assumes "prefix p (b @ z)" and "\<not> prefix p b"
  shows "prefix b p" and "length b < length p"
proof -
  obtain us where "p = b @ us" using assms by (auto simp: prefix_append)
  moreover have "us \<noteq> []" using assms(2) calculation by auto
  ultimately show "prefix b p" and "length b < length p" by auto
qed

definition char_between :: "char \<Rightarrow> char \<Rightarrow> char \<Rightarrow> bool" where
  "char_between lo hi c \<longleftrightarrow> (of_char lo :: nat) \<le> of_char c \<and> (of_char c :: nat) \<le> of_char hi"

definition is_digit :: "char \<Rightarrow> bool" where
  "is_digit c = char_between (CHR ''0'') (CHR ''9'') c"

definition is_lower :: "char \<Rightarrow> bool" where
  "is_lower c = char_between (CHR ''a'') (CHR ''z'') c"

definition is_upper :: "char \<Rightarrow> bool" where
  "is_upper c = char_between (CHR ''A'') (CHR ''Z'') c"

lemmas char_class_defs = char_between_def is_digit_def is_lower_def is_upper_def

section \<open>Arrays and sets\<close>

text \<open>\<^verbatim>\<open>[...new Set(xs)]\<close>: the first occurrence of each element, in order.\<close>

fun js_dedup :: "'a list \<Rightarrow> 'a list" where
  "js_dedup [] = []"
| "js_dedup (x # xs) = x # filter (\<lambda>y. y \<noteq> x) (js_dedup xs)"

lemma set_js_dedup [simp]: "set (js_dedup xs) = set xs"
  by (induction xs) auto

lemma distinct_js_dedup [simp]: "distinct (js_dedup xs)"
  by (induction xs) auto

section \<open>Results\<close>

text \<open>A computation that may throw: \<open>Inl\<close> carries the error, \<open>Inr\<close> the value.\<close>

definition bindR :: "'e + 'a \<Rightarrow> ('a \<Rightarrow> 'e + 'b) \<Rightarrow> 'e + 'b" where
  "bindR r f = (case r of Inl e \<Rightarrow> Inl e | Inr x \<Rightarrow> f x)"

lemma bindR_simps [simp]: "bindR (Inl e) f = Inl e" "bindR (Inr x) f = f x"
  by (simp_all add: bindR_def)

lemma bindR_Inr [simp]: "bindR r f = Inr y \<longleftrightarrow> (\<exists>x. r = Inr x \<and> f x = Inr y)"
  by (cases r) auto

lemma bindR_cong [fundef_cong]:
  "r = r' \<Longrightarrow> (\<And>x. r' = Inr x \<Longrightarrow> f x = g x) \<Longrightarrow> bindR r f = bindR r' g"
  by (cases r') auto

text \<open>A \<^verbatim>\<open>for\<close> loop whose body may throw, over a state.\<close>

fun foldR :: "('s \<Rightarrow> 'a \<Rightarrow> 'e + 's) \<Rightarrow> 's \<Rightarrow> 'a list \<Rightarrow> 'e + 's" where
  "foldR f s [] = Inr s"
| "foldR f s (x # xs) = bindR (f s x) (\<lambda>s'. foldR f s' xs)"

lemma foldR_append: "foldR f s (xs @ ys) = bindR (foldR f s xs) (\<lambda>s'. foldR f s' ys)"
  by (induction xs arbitrary: s) (auto simp: bindR_def split: sum.splits)

lemma foldR_cong [fundef_cong]:
  "s = s' \<Longrightarrow> xs = xs' \<Longrightarrow> (\<And>s x. x \<in> set xs' \<Longrightarrow> f s x = g s x) \<Longrightarrow> foldR f s xs = foldR g s' xs'"
  by (induction xs' arbitrary: s s' xs) (auto simp: bindR_def split: sum.splits)

lemma foldR_invariant:
  assumes "foldR f s xs = Inr s'" and "I s"
    and "\<And>s x s'. x \<in> set xs \<Longrightarrow> I s \<Longrightarrow> f s x = Inr s' \<Longrightarrow> I s'"
  shows "I s'"
  using assms by (induction xs arbitrary: s) auto

lemma foldR_Inl: "foldR f s xs = Inl e \<Longrightarrow> \<exists>s' x. x \<in> set xs \<and> f s' x = Inl e"
proof (induction xs arbitrary: s)
  case (Cons x xs)
  show ?case
  proof (cases "f s x")
    case (Inr s')
    then have "foldR f s' xs = Inl e" using Cons.prems by simp
    then show ?thesis using Cons.IH by fastforce
  qed (use Cons.prems in auto)
qed simp

text \<open>\<^verbatim>\<open>xs.map(f)\<close> where \<open>f\<close> may throw.\<close>

fun mapR :: "('a \<Rightarrow> 'e + 'b) \<Rightarrow> 'a list \<Rightarrow> 'e + 'b list" where
  "mapR f [] = Inr []"
| "mapR f (x # xs) = bindR (f x) (\<lambda>y. bindR (mapR f xs) (\<lambda>ys. Inr (y # ys)))"

lemma mapR_Inr: "mapR f xs = Inr ys \<longleftrightarrow> list_all2 (\<lambda>x y. f x = Inr y) xs ys"
  by (induction xs arbitrary: ys) (auto simp: list_all2_Cons1)

lemma mapR_length: "mapR f xs = Inr ys \<Longrightarrow> length ys = length xs"
  unfolding mapR_Inr by (drule list_all2_lengthD) simp

lemma mapR_fixed: "(\<And>y. y \<in> set ys \<Longrightarrow> f y = Inr y) \<Longrightarrow> mapR f ys = Inr ys"
  by (induction ys) auto

lemma mapR_cong [fundef_cong]: "xs = ys \<Longrightarrow> (\<And>x. x \<in> set ys \<Longrightarrow> f x = g x) \<Longrightarrow> mapR f xs = mapR g ys"
  by (induction ys arbitrary: xs) auto

lemma bindR_Inl: "bindR r f = Inl e \<longleftrightarrow> r = Inl e \<or> (\<exists>x. r = Inr x \<and> f x = Inl e)"
  by (cases r) auto

section \<open>Operations on a state\<close>

text \<open>A method that may throw and changes a state: the result or the error, and the state it leaves.\<close>

type_synonym ('s, 'e, 'a) act = "'s \<Rightarrow> ('e + 'a) \<times> 's"

definition returnA :: "'a \<Rightarrow> ('s, 'e, 'a) act" where "returnA x = (\<lambda>s. (Inr x, s))"

definition throwA :: "'e \<Rightarrow> ('s, 'e, 'a) act" where "throwA e = (\<lambda>s. (Inl e, s))"

definition liftA :: "'e + 'a \<Rightarrow> ('s, 'e, 'a) act" where "liftA r = (\<lambda>s. (r, s))"

definition getA :: "('s \<Rightarrow> 'a) \<Rightarrow> ('s, 'e, 'a) act" where "getA f = (\<lambda>s. (Inr (f s), s))"

definition modifyA :: "('s \<Rightarrow> 's) \<Rightarrow> ('s, 'e, unit) act" where "modifyA f = (\<lambda>s. (Inr (), f s))"

definition bindA :: "('s, 'e, 'a) act \<Rightarrow> ('a \<Rightarrow> ('s, 'e, 'b) act) \<Rightarrow> ('s, 'e, 'b) act" where
  "bindA m f = (\<lambda>s. case m s of (Inl e, s') \<Rightarrow> (Inl e, s') | (Inr x, s') \<Rightarrow> f x s')"

fun foldA :: "('b \<Rightarrow> 'a \<Rightarrow> ('s, 'e, 'b) act) \<Rightarrow> 'b \<Rightarrow> 'a list \<Rightarrow> ('s, 'e, 'b) act" where
  "foldA f acc [] = returnA acc"
| "foldA f acc (x # xs) = bindA (f acc x) (\<lambda>acc'. foldA f acc' xs)"

lemmas act_defs = returnA_def throwA_def liftA_def getA_def modifyA_def

lemma act_simps [simp]:
  "returnA x s = (Inr x, s)" "throwA e s = (Inl e, s)" "liftA r s = (r, s)" "getA f s = (Inr (f s), s)" "modifyA g s = (Inr (), g s)"
  by (simp_all add: act_defs)

lemma bindA_Inr: "bindA m f s = (Inr y, s'') \<longleftrightarrow> (\<exists>x s'. m s = (Inr x, s') \<and> f x s' = (Inr y, s''))"
  by (auto simp: bindA_def split: prod.splits sum.splits)

lemma bindA_Inl: "bindA m f s = (Inl e, s'') \<longleftrightarrow> m s = (Inl e, s'') \<or> (\<exists>x s'. m s = (Inr x, s') \<and> f x s' = (Inl e, s''))"
  by (auto simp: bindA_def split: prod.splits sum.splits)

lemma bindA_run:
  "m s = (Inr x, s') \<Longrightarrow> bindA m f s = f x s'"
  "m s = (Inl e, s') \<Longrightarrow> bindA m f s = (Inl e, s')"
  by (simp_all add: bindA_def)

lemma bindA_simps [simp]:
  "bindA (returnA x) f s = f x s" "bindA (throwA e) f s = (Inl e, s)" "bindA (getA g) f s = f (g s) s"
  "bindA (modifyA h) k s = k () (h s)" "bindA (liftA (Inr y)) f s = f y s" "bindA (liftA (Inl e')) f s = (Inl e', s)"
  by (simp_all add: bindA_def)

text \<open>A property of the state that every step keeps, whether it throws or not.\<close>

definition keepsA :: "('s \<Rightarrow> bool) \<Rightarrow> ('s, 'e, 'a) act \<Rightarrow> bool" where
  "keepsA P m \<longleftrightarrow> (\<forall>s. P s \<longrightarrow> P (snd (m s)))"

lemma keepsA_simple [intro, simp]:
  "keepsA P (returnA x)" "keepsA P (throwA e)" "keepsA P (liftA r)" "keepsA P (getA f)"
  by (simp_all add: keepsA_def)

lemma keepsA_modify: "(\<And>s. P s \<Longrightarrow> P (f s)) \<Longrightarrow> keepsA P (modifyA f)"
  by (simp add: keepsA_def)

lemma keepsA_bind: "keepsA P m \<Longrightarrow> (\<And>x. keepsA P (f x)) \<Longrightarrow> keepsA P (bindA m f)"
  unfolding keepsA_def bindA_def by (auto split: prod.splits sum.splits)

lemma keepsA_fold: "(\<And>acc x. x \<in> set xs \<Longrightarrow> keepsA P (f acc x)) \<Longrightarrow> keepsA P (foldA f acc xs)"
  by (induction xs arbitrary: acc) (auto intro: keepsA_bind)

text \<open>A state property that a method keeps, and a property of the value it returns.\<close>

definition ensuresA :: "('s \<Rightarrow> bool) \<Rightarrow> ('s, 'e, 'a) act \<Rightarrow> ('a \<Rightarrow> bool) \<Rightarrow> bool" where
  "ensuresA P m Q \<longleftrightarrow> (\<forall>s. P s \<longrightarrow> P (snd (m s)) \<and> (\<forall>x. fst (m s) = Inr x \<longrightarrow> Q x))"

named_theorems ensures \<open>what a method ensures\<close>

lemma ensuresA_simple [ensures]:
  "Q x \<Longrightarrow> ensuresA P (returnA x) Q" "ensuresA P (throwA e) Q" "(\<And>x. r = Inr x \<Longrightarrow> Q x) \<Longrightarrow> ensuresA P (liftA r) Q"
  "(\<And>s. P s \<Longrightarrow> Q (f s)) \<Longrightarrow> ensuresA P (getA f) Q"
  by (auto simp: ensuresA_def)

lemma ensuresA_modify [ensures]: "Q () \<Longrightarrow> (\<And>s. P s \<Longrightarrow> P (g s)) \<Longrightarrow> ensuresA P (modifyA g) Q"
  by (simp add: ensuresA_def)

lemma ensuresA_bind: "ensuresA P m Q \<Longrightarrow> (\<And>x. Q x \<Longrightarrow> ensuresA P (f x) R) \<Longrightarrow> ensuresA P (bindA m f) R"
  unfolding ensuresA_def bindA_def by (fastforce split: prod.splits sum.splits)

lemma ensuresA_seq: "ensuresA P m (\<lambda>_. True) \<Longrightarrow> (\<And>x. ensuresA P (f x) R) \<Longrightarrow> ensuresA P (bindA m f) R"
  by (rule ensuresA_bind)

lemma ensuresA_weaken: "ensuresA P m Q \<Longrightarrow> (\<And>x. Q x \<Longrightarrow> R x) \<Longrightarrow> ensuresA P m R"
  by (auto simp: ensuresA_def)

lemma ensuresA_fold:
  assumes "Q acc" and "\<And>acc x. x \<in> set xs \<Longrightarrow> Q acc \<Longrightarrow> ensuresA P (f acc x) Q"
  shows "ensuresA P (foldA f acc xs) Q"
  using assms
proof (induction xs arbitrary: acc)
  case Nil
  then show ?case by (simp add: ensuresA_def)
next
  case (Cons x xs)
  then show ?case by (auto intro: ensuresA_bind)
qed

text \<open>A relation between the states before and after, from states with a property that it preserves.\<close>

definition relA :: "('s \<Rightarrow> bool) \<Rightarrow> ('s \<Rightarrow> 's \<Rightarrow> bool) \<Rightarrow> ('s, 'e, 'a) act \<Rightarrow> bool" where
  "relA P R m \<longleftrightarrow> (\<forall>s. P s \<longrightarrow> R s (snd (m s)))"

definition step_relation :: "('s \<Rightarrow> bool) \<Rightarrow> ('s \<Rightarrow> 's \<Rightarrow> bool) \<Rightarrow> bool" where
  "step_relation P R \<longleftrightarrow> (\<forall>s. R s s) \<and> (\<forall>s t u. R s t \<longrightarrow> R t u \<longrightarrow> R s u) \<and> (\<forall>s t. P s \<longrightarrow> R s t \<longrightarrow> P t)"

lemma relA_simple:
  "step_relation P R \<Longrightarrow> relA P R (returnA x)" "step_relation P R \<Longrightarrow> relA P R (throwA e)"
  "step_relation P R \<Longrightarrow> relA P R (liftA r)" "step_relation P R \<Longrightarrow> relA P R (getA f)"
  by (simp_all add: relA_def step_relation_def)

lemma relA_bind:
  assumes "step_relation P R" and "relA P R m" and "\<And>x. relA P R (f x)"
  shows "relA P R (bindA m f)"
  unfolding relA_def
proof (intro allI impI)
  fix s assume P: "P s"
  obtain r t where m: "m s = (r, t)" by fastforce
  have 1: "R s t" using assms(2) P m by (metis relA_def snd_conv)
  then have "P t" using assms(1) P by (auto simp: step_relation_def)
  then have "R t (snd (f x t))" for x using assms(3) by (simp add: relA_def)
  then show "R s (snd (bindA m f s))"
    using 1 m assms(1) by (cases r) (auto simp: bindA_def step_relation_def)
qed

text \<open>A first step that establishes the property the rest starts from.\<close>

lemma relA_establish:
  assumes "step_relation P R" and "\<And>s. P' s \<Longrightarrow> R s (snd (m s))" and "\<And>s x t. P' s \<Longrightarrow> m s = (Inr x, t) \<Longrightarrow> P t"
    and "\<And>x. relA P R (f x)"
  shows "relA P' R (bindA m f)"
  unfolding relA_def
proof (intro allI impI)
  fix s assume P': "P' s"
  obtain r t where m: "m s = (r, t)" by fastforce
  have 1: "R s t" using assms(2) [OF P'] m by simp
  show "R s (snd (bindA m f s))"
  proof (cases r)
    case (Inr x)
    then have "R t (snd (f x t))" using assms(3) [OF P'] assms(4) m by (simp add: relA_def)
    then show ?thesis using 1 m Inr assms(1) by (auto simp: bindA_def step_relation_def)
  qed (use 1 m in \<open>simp add: bindA_def\<close>)
qed

lemma relA_fold:
  assumes "step_relation P R" and "\<And>acc x. x \<in> set xs \<Longrightarrow> relA P R (f acc x)"
  shows "relA P R (foldA f acc xs)"
  using assms(2) by (induction xs arbitrary: acc) (auto intro: relA_bind assms(1) relA_simple)

text \<open>A triple: what holds of the state and the value when a method returns, and when it throws.\<close>

definition tripleA :: "('s \<Rightarrow> bool) \<Rightarrow> ('s, 'e, 'a) act \<Rightarrow> ('a \<Rightarrow> 's \<Rightarrow> bool) \<Rightarrow> ('e \<Rightarrow> 's \<Rightarrow> bool) \<Rightarrow> bool" where
  "tripleA P m Q E \<longleftrightarrow> (\<forall>s. P s \<longrightarrow> (case m s of (Inr x, t) \<Rightarrow> Q x t | (Inl e, t) \<Rightarrow> E e t))"

lemma tripleA_simple:
  "(\<And>s. P s \<Longrightarrow> Q x s) \<Longrightarrow> tripleA P (returnA x) Q E" "(\<And>s. P s \<Longrightarrow> E e s) \<Longrightarrow> tripleA P (throwA e) Q E"
  "(\<And>x s. r = Inr x \<Longrightarrow> P s \<Longrightarrow> Q x s) \<Longrightarrow> (\<And>e s. r = Inl e \<Longrightarrow> P s \<Longrightarrow> E e s) \<Longrightarrow> tripleA P (liftA r) Q E"
  by (simp_all add: tripleA_def split: sum.split)

lemma tripleA_bind: "tripleA P m Q E \<Longrightarrow> (\<And>x. tripleA (Q x) (f x) R E) \<Longrightarrow> tripleA P (bindA m f) R E"
  unfolding tripleA_def bindA_def by (fastforce split: prod.splits sum.splits)

lemma tripleA_weaken:
  "tripleA P m Q E \<Longrightarrow> (\<And>s. P' s \<Longrightarrow> P s) \<Longrightarrow> (\<And>x s. Q x s \<Longrightarrow> Q' x s) \<Longrightarrow> (\<And>e s. E e s \<Longrightarrow> E' e s) \<Longrightarrow> tripleA P' m Q' E'"
  unfolding tripleA_def by (fastforce split: prod.splits sum.splits)

lemma tripleA_if: "(b \<Longrightarrow> tripleA P m Q E) \<Longrightarrow> (\<not> b \<Longrightarrow> tripleA P m' Q E) \<Longrightarrow> tripleA P (if b then m else m') Q E"
  by simp

lemma tripleA_run: "tripleA P m Q E \<Longrightarrow> P s \<Longrightarrow> m s = (r, t) \<Longrightarrow> (case r of Inr x \<Rightarrow> Q x t | Inl e \<Rightarrow> E e t)"
  unfolding tripleA_def by (fastforce split: sum.splits)

section \<open>Insertion-ordered maps\<close>

text \<open>
  \<^verbatim>\<open>Map\<close> and object literals keep their keys in the order of first insertion; storing at a
  present key keeps its place. \<open>AList.update\<close> does exactly this.
\<close>

type_synonym ('k, 'v) omap = "('k \<times> 'v) list"

abbreviation om_get :: "('k, 'v) omap \<Rightarrow> 'k \<Rightarrow> 'v option" where
  "om_get m k \<equiv> map_of m k"

abbreviation om_keys :: "('k, 'v) omap \<Rightarrow> 'k list" where
  "om_keys m \<equiv> map fst m"

definition om_has :: "('k, 'v) omap \<Rightarrow> 'k \<Rightarrow> bool" where
  "om_has m k = (map_of m k \<noteq> None)"

abbreviation om_set :: "'k \<Rightarrow> 'v \<Rightarrow> ('k, 'v) omap \<Rightarrow> ('k, 'v) omap" where
  "om_set k v m \<equiv> AList.update k v m"

abbreviation om_delete :: "'k \<Rightarrow> ('k, 'v) omap \<Rightarrow> ('k, 'v) omap" where
  "om_delete k m \<equiv> AList.delete k m"

text \<open>\<^verbatim>\<open>{ ...base, ...patch }\<close>: the patch's entries are stored over the base, in order.\<close>

fun om_spread :: "('k, 'v) omap \<Rightarrow> ('k, 'v) omap \<Rightarrow> ('k, 'v) omap" where
  "om_spread m [] = m"
| "om_spread m ((k, v) # ps) = om_spread (om_set k v m) ps"

lemma om_has_dom [js_map]: "om_has m k \<longleftrightarrow> k \<in> set (om_keys m)"
  by (simp add: om_has_def map_of_eq_None_iff)

lemma om_get_set [js_map]: "om_get (om_set k v m) = (om_get m)(k \<mapsto> v)"
  by (simp add: update_conv' fun_eq_iff)

lemma om_get_delete [js_map]: "om_get (om_delete k m) = (om_get m)(k := None)"
  by (simp add: delete_conv' fun_eq_iff)

lemma om_keys_set [js_map]:
  "om_keys (om_set k v m) = (if k \<in> set (om_keys m) then om_keys m else om_keys m @ [k])"
  by (induction m) auto

lemma om_has_set [js_map]: "om_has (om_set k v m) x \<longleftrightarrow> x = k \<or> om_has m x"
  by (simp add: om_has_def om_get_set)

lemma om_get_spread_notin: "k \<notin> set (om_keys ps) \<Longrightarrow> om_get (om_spread m ps) k = om_get m k"
  by (induction m ps rule: om_spread.induct) (simp_all add: om_get_set)

lemma om_get_spread [js_map]:
  "distinct (om_keys ps) \<Longrightarrow> om_get (om_spread m ps) k = (case om_get ps k of None \<Rightarrow> om_get m k | v \<Rightarrow> v)"
proof (induction m ps rule: om_spread.induct)
  case (2 m k' v ps)
  then have notin: "k' \<notin> set (om_keys ps)" and IH: "om_get (om_spread (om_set k' v m) ps) k =
      (case om_get ps k of None \<Rightarrow> om_get (om_set k' v m) k | v \<Rightarrow> v)"
    by simp_all
  show ?case
  proof (cases "k = k'")
    case True
    then show ?thesis using notin by (simp add: om_get_spread_notin om_get_set)
  next
    case False
    then show ?thesis using IH by (cases "om_get ps k") (simp_all add: om_get_set)
  qed
qed simp

lemma om_set_same [js_map]: "om_get m k = Some v \<Longrightarrow> distinct (om_keys m) \<Longrightarrow> om_set k v m = m"
proof (induction m)
  case (Cons p m)
  then show ?case by (cases p) (auto split: if_splits)
qed simp

lemma set_om_set: "set (om_set k v m) \<subseteq> insert (k, v) (set m)"
  by (induction m) auto

lemma distinct_om_set [simp]: "distinct (om_keys m) \<Longrightarrow> distinct (om_keys (om_set k v m))"
  by (simp add: om_keys_set)

lemma distinct_om_spread [simp]: "distinct (om_keys m) \<Longrightarrow> distinct (om_keys (om_spread m ps))"
  by (induction m ps rule: om_spread.induct) auto

end
