(* ===== verification/Redact.thy ===== *)
theory Redact imports Prelude begin

text \<open>
  Secret redaction (\<^verbatim>\<open>packages/core/src/redact.ts\<close>) and the bounded tail of the Leo runner that
  stores its output (\<^verbatim>\<open>deploy-backend/leo/runner.ts\<close>). \<open>drain_step\<close> is one iteration of
  the loop of \<^verbatim>\<open>drain\<close>; \<open>drain\<close>, \<open>red_push\<close>, \<open>red_flush\<close> and
  \<open>redactSecrets\<close> follow the source. \<open>redact_spec\<close> is the one-pass specification of what is
  replaced, and \<open>masked\<close> the relation between a text and an output from which no key can be
  read. The lemmas show that a step keeps both, whatever the chunks.
\<close>

section \<open>The redactor\<close>

definition MARKER :: string where "MARKER = ''APrivateKey1''"

definition KEY_TAIL_MIN :: nat where "KEY_TAIL_MIN = 40"

definition TRUNCATION_SUFFIX :: string where "TRUNCATION_SUFFIX = ''...''"

definition REDACTED :: string where "REDACTED = ''[REDACTED]''"

definition isAlnum :: "char \<Rightarrow> bool" where
  "isAlnum ch \<longleftrightarrow> is_digit ch \<or> is_lower ch \<or> is_upper ch"

datatype red_state = Scanning | Candidate | Discarding

text \<open>The variables the two closures of \<^verbatim>\<open>createStreamRedactor\<close> share.\<close>

record redactor =
  red_buf :: string
  red_candidate :: string
  red_alnumSeen :: nat
  red_state :: red_state

definition red_init :: redactor where
  "red_init = \<lparr>red_buf = [], red_candidate = [], red_alnumSeen = 0, red_state = Scanning\<rparr>"

text \<open>
  Deduplicated extra secrets of at least eight characters, longest first (the sort is stable),
  then the marker.
\<close>

definition red_secrets :: "string list \<Rightarrow> string list" where
  "red_secrets extra = sort_key (\<lambda>s. - int (length s)) (js_dedup (filter (\<lambda>s. 8 \<le> length s) extra))"

definition needles :: "string list \<Rightarrow> string list" where
  "needles extra = red_secrets extra @ [MARKER]"

definition maxNeedle :: "string list \<Rightarrow> nat" where
  "maxNeedle extra = fold max (map length (needles extra)) 0"

definition needleAt :: "string list \<Rightarrow> string \<Rightarrow> string option" where
  "needleAt extra rest = find (\<lambda>n. starts_with rest n) (needles extra)"

definition mayStartNeedle :: "string list \<Rightarrow> string \<Rightarrow> bool" where
  "mayStartNeedle extra rest = list_ex (\<lambda>n. length rest < length n \<and> starts_with n rest) (needles extra)"

definition startsTruncation :: "string \<Rightarrow> bool" where
  "startsTruncation rest = starts_with TRUNCATION_SUFFIX rest"

text \<open>
  One iteration of the \<^verbatim>\<open>while\<close> loop, over the part of the buffer from index \<^verbatim>\<open>i\<close> on: the text
  it appends to \<^verbatim>\<open>out\<close> and the variables after it, or \<open>None\<close> where the loop ends (the buffer
  is used up, or the iteration breaks to hold input back).
\<close>

fun drain_step :: "string list \<Rightarrow> bool \<Rightarrow> redactor \<Rightarrow> (string \<times> redactor) option" where
  "drain_step extra atEnd r =
    (case red_buf r of
      [] \<Rightarrow> None
    | ch # rest \<Rightarrow>
       (case red_state r of
         Scanning \<Rightarrow>
          (case needleAt extra (ch # rest) of
            None \<Rightarrow>
             if \<not> atEnd \<and> length (ch # rest) < maxNeedle extra \<and> mayStartNeedle extra (ch # rest)
             then None
             else Some ([ch], r\<lparr>red_buf := rest\<rparr>)
          | Some hit \<Rightarrow>
             if hit \<noteq> MARKER then Some (REDACTED, r\<lparr>red_buf := drop (length hit) (ch # rest)\<rparr>)
             else Some ([], r\<lparr>red_state := Candidate, red_candidate := MARKER, red_alnumSeen := 0,
                              red_buf := drop (length MARKER) (ch # rest)\<rparr>))
       | Candidate \<Rightarrow>
          if isAlnum ch then
            (if KEY_TAIL_MIN \<le> Suc (red_alnumSeen r)
             then Some (REDACTED, r\<lparr>red_candidate := [], red_alnumSeen := Suc (red_alnumSeen r),
                                    red_state := Discarding, red_buf := rest\<rparr>)
             else Some ([], r\<lparr>red_candidate := red_candidate r @ [ch],
                              red_alnumSeen := Suc (red_alnumSeen r), red_buf := rest\<rparr>))
          else if 0 < red_alnumSeen r \<and> \<not> atEnd \<and> length (ch # rest) < length TRUNCATION_SUFFIX
                  \<and> startsTruncation (ch # rest) then None
          else if 0 < red_alnumSeen r \<and> starts_with (ch # rest) TRUNCATION_SUFFIX
          then Some (REDACTED, r\<lparr>red_buf := drop (length TRUNCATION_SUFFIX) (ch # rest),
                                 red_candidate := [], red_state := Scanning\<rparr>)
          else Some (red_candidate r, r\<lparr>red_candidate := [], red_state := Scanning\<rparr>)
       | Discarding \<Rightarrow>
          if isAlnum ch then Some ([], r\<lparr>red_buf := rest\<rparr>)
          else Some ([], r\<lparr>red_state := Scanning\<rparr>)))"

declare drain_step.simps [simp del]

lemma needles_nonempty: "n \<in> set (needles extra) \<Longrightarrow> n \<noteq> []"
  by (auto simp: needles_def red_secrets_def MARKER_def)

lemma needleAt_Some:
  "needleAt extra rest = Some n \<Longrightarrow> n \<in> set (needles extra) \<and> prefix n rest \<and> n \<noteq> []"
  by (auto simp: needleAt_def find_Some_iff starts_with_prefix dest: needles_nonempty nth_mem)

lemma needle_shortens:
  assumes "needleAt extra s = Some n"
  shows "length s - length n < length s" "length (dropWhile P (drop (length n) s)) < length s"
proof -
  show "length s - length n < length s"
    using needleAt_Some [OF assms] by (auto dest: prefix_length_le simp: neq_Nil_conv)
  then show "length (dropWhile P (drop (length n) s)) < length s"
    using length_dropWhile_le [of P "drop (length n) s"] by simp
qed

lemma needleAt_None: "needleAt extra rest = None \<longleftrightarrow> (\<forall>n \<in> set (needles extra). \<not> prefix n rest)"
  by (auto simp: needleAt_def find_None_iff starts_with_prefix)

text \<open>The nine ways an iteration can go on.\<close>

lemma drain_step_cases [consumes 1, case_names pass secret marker full count ellipsis stand skip resume]:
  assumes "drain_step extra e r = Some (p, r')"
  obtains
    (pass) ch rest where "red_state r = Scanning" "red_buf r = ch # rest"
      "needleAt extra (ch # rest) = None" "p = [ch]" "r' = r\<lparr>red_buf := rest\<rparr>"
      "e \<or> \<not> (length (ch # rest) < maxNeedle extra \<and> mayStartNeedle extra (ch # rest))"
  | (secret) n where "red_state r = Scanning" "needleAt extra (red_buf r) = Some n" "n \<noteq> MARKER"
      "p = REDACTED" "r' = r\<lparr>red_buf := drop (length n) (red_buf r)\<rparr>"
  | (marker) "red_state r = Scanning" "needleAt extra (red_buf r) = Some MARKER" "p = []"
      "r' = r\<lparr>red_state := Candidate, red_candidate := MARKER, red_alnumSeen := 0,
              red_buf := drop (length MARKER) (red_buf r)\<rparr>"
  | (full) ch rest where "red_state r = Candidate" "red_buf r = ch # rest" "isAlnum ch"
      "KEY_TAIL_MIN \<le> Suc (red_alnumSeen r)" "p = REDACTED"
      "r' = r\<lparr>red_candidate := [], red_alnumSeen := Suc (red_alnumSeen r), red_state := Discarding,
              red_buf := rest\<rparr>"
  | (count) ch rest where "red_state r = Candidate" "red_buf r = ch # rest" "isAlnum ch"
      "Suc (red_alnumSeen r) < KEY_TAIL_MIN" "p = []"
      "r' = r\<lparr>red_candidate := red_candidate r @ [ch], red_alnumSeen := Suc (red_alnumSeen r),
              red_buf := rest\<rparr>"
  | (ellipsis) ch rest where "red_state r = Candidate" "red_buf r = ch # rest" "\<not> isAlnum ch"
      "0 < red_alnumSeen r" "starts_with (red_buf r) TRUNCATION_SUFFIX" "p = REDACTED"
      "r' = r\<lparr>red_buf := drop (length TRUNCATION_SUFFIX) (red_buf r), red_candidate := [],
              red_state := Scanning\<rparr>"
  | (stand) ch rest where "red_state r = Candidate" "red_buf r = ch # rest" "\<not> isAlnum ch"
      "0 < red_alnumSeen r \<Longrightarrow> \<not> starts_with (red_buf r) TRUNCATION_SUFFIX"
      "0 < red_alnumSeen r \<Longrightarrow> e \<or> \<not> (length (red_buf r) < length TRUNCATION_SUFFIX
          \<and> startsTruncation (red_buf r))"
      "p = red_candidate r" "r' = r\<lparr>red_candidate := [], red_state := Scanning\<rparr>"
  | (skip) ch rest where "red_state r = Discarding" "red_buf r = ch # rest" "isAlnum ch"
      "p = []" "r' = r\<lparr>red_buf := rest\<rparr>"
  | (resume) ch rest where "red_state r = Discarding" "red_buf r = ch # rest" "\<not> isAlnum ch"
      "p = []" "r' = r\<lparr>red_state := Scanning\<rparr>"
proof (cases "red_buf r")
  case Nil
  then show ?thesis using assms by (simp add: drain_step.simps)
next
  case (Cons ch rest)
  show ?thesis
  proof (cases "red_state r")
    case Scanning
    then show ?thesis using assms Cons pass secret marker
      by (auto simp: drain_step.simps split: option.splits if_splits)
  next
    case Candidate
    then show ?thesis using assms Cons full count ellipsis stand
      by (auto simp: drain_step.simps not_le split: if_splits)
  next
    case Discarding
    then show ?thesis using assms Cons skip resume
      by (auto simp: drain_step.simps split: if_splits)
  qed
qed

definition red_measure :: "redactor \<Rightarrow> nat" where
  "red_measure r = 2 * length (red_buf r) + (if red_state r = Scanning then 0 else 1)"

lemma drain_step_decreases:
  "drain_step extra atEnd r = Some (p, r') \<Longrightarrow> red_measure r' < red_measure r"
  by (auto simp: drain_step.simps red_measure_def MARKER_def TRUNCATION_SUFFIX_def neq_Nil_conv
      split: list.splits red_state.splits option.splits if_splits dest!: needleAt_Some)

text \<open>The loop: what it appends to \<^verbatim>\<open>out\<close>, and the variables when it ends.\<close>

function drain :: "string list \<Rightarrow> bool \<Rightarrow> redactor \<Rightarrow> string \<times> redactor" where
  "drain extra atEnd r =
    (case drain_step extra atEnd r of
      None \<Rightarrow> ([], r)
    | Some (p, r') \<Rightarrow> (case drain extra atEnd r' of (out, r'') \<Rightarrow> (p @ out, r'')))"
  by pat_completeness auto
termination
  by (relation "measure (\<lambda>(extra, atEnd, r). red_measure r)") (auto dest: drain_step_decreases)

declare drain.simps [simp del]

definition red_push :: "string list \<Rightarrow> redactor \<Rightarrow> string \<Rightarrow> string \<times> redactor" where
  "red_push extra r chunk =
    (if length chunk = 0 then ([], r) else drain extra False (r\<lparr>red_buf := red_buf r @ chunk\<rparr>))"

definition red_flush :: "string list \<Rightarrow> redactor \<Rightarrow> string \<times> redactor" where
  "red_flush extra r =
    (case drain extra True r of (out, r') \<Rightarrow>
      if red_state r' = Candidate
      then (out @ red_candidate r', r'\<lparr>red_candidate := [], red_state := Scanning, red_buf := []\<rparr>)
      else (out, r'\<lparr>red_state := Scanning, red_buf := []\<rparr>))"

definition redactSecrets :: "string list \<Rightarrow> string \<Rightarrow> string" where
  "redactSecrets extra text =
    (case red_push extra red_init text of (out, r) \<Rightarrow> out @ fst (red_flush extra r))"

text \<open>A stream: the chunks are pushed in order and the caller emits every piece, then the flush.\<close>

fun red_pushes :: "string list \<Rightarrow> redactor \<Rightarrow> string list \<Rightarrow> string \<times> redactor" where
  "red_pushes extra r [] = ([], r)"
| "red_pushes extra r (c # cs) =
    (case red_push extra r c of (o1, r1) \<Rightarrow> (case red_pushes extra r1 cs of (o2, r2) \<Rightarrow> (o1 @ o2, r2)))"

definition red_stream :: "string list \<Rightarrow> string list \<Rightarrow> string" where
  "red_stream extra chunks =
    (case red_pushes extra red_init chunks of (out, r) \<Rightarrow> out @ fst (red_flush extra r))"

section \<open>The tail of the Leo runner\<close>

text \<open>
  \<^verbatim>\<open>RedactedTail\<close>: its buffer keeps the last \<^verbatim>\<open>LOG_TAIL_BYTES\<close> of what the redactor emits; \<open>sent\<close>
  is what went to \<^verbatim>\<open>forward\<close>.
\<close>

definition LOG_TAIL_BYTES :: nat where "LOG_TAIL_BYTES = 4 * 1024"

record redacted_tail =
  tail_buffer :: string
  tail_redactor :: redactor
  tail_sent :: string

definition slice_last :: "nat \<Rightarrow> string \<Rightarrow> string" where
  "slice_last n s = drop (length s - n) s"

definition tail_emit :: "redacted_tail \<Rightarrow> string \<Rightarrow> redacted_tail" where
  "tail_emit t text =
    (if length text = 0 then t
     else t\<lparr>tail_sent := tail_sent t @ text,
            tail_buffer := slice_last LOG_TAIL_BYTES (tail_buffer t @ text)\<rparr>)"

definition tail_init :: redacted_tail where
  "tail_init = \<lparr>tail_buffer = [], tail_redactor = red_init, tail_sent = []\<rparr>"

definition tail_push :: "string list \<Rightarrow> redacted_tail \<Rightarrow> string \<Rightarrow> redacted_tail" where
  "tail_push secrets t chunk =
    (case red_push secrets (tail_redactor t) chunk of (out, r) \<Rightarrow> tail_emit (t\<lparr>tail_redactor := r\<rparr>) out)"

definition tail_finish :: "string list \<Rightarrow> redacted_tail \<Rightarrow> redacted_tail" where
  "tail_finish secrets t =
    (case red_flush secrets (tail_redactor t) of (out, r) \<Rightarrow> tail_emit (t\<lparr>tail_redactor := r\<rparr>) out)"

definition tail_run :: "string list \<Rightarrow> string list \<Rightarrow> redacted_tail" where
  "tail_run secrets chunks = tail_finish secrets (fold (\<lambda>c t. tail_push secrets t c) chunks tail_init)"


section \<open>What a redactor is to do\<close>

text \<open>
  One pass over a complete text: the first needle at a position wins. A secret is replaced. The
  marker is replaced with the run of alphanumerics after it if the run has 40 of them, or, with
  the ellipsis, if a nonempty run ends in \<^verbatim>\<open>...\<close>; otherwise it stands.
\<close>

function redact_spec :: "string list \<Rightarrow> string \<Rightarrow> string" where
  "redact_spec extra [] = []"
| "redact_spec extra (c # cs) =
    (case needleAt extra (c # cs) of
      None \<Rightarrow> c # redact_spec extra cs
    | Some n \<Rightarrow>
        (let rest = drop (length n) (c # cs) in
         if n \<noteq> MARKER then REDACTED @ redact_spec extra rest
         else let run = takeWhile isAlnum rest; after = dropWhile isAlnum rest in
           if KEY_TAIL_MIN \<le> length run then REDACTED @ redact_spec extra after
           else if run \<noteq> [] \<and> starts_with after TRUNCATION_SUFFIX
           then REDACTED @ redact_spec extra (drop (length TRUNCATION_SUFFIX) after)
           else MARKER @ run @ redact_spec extra after))"
  by pat_completeness auto
termination
  by (relation "measure (\<lambda>(extra, s). length s)")
    (auto intro: needle_shortens [of _ "_ # _", simplified] less_imp_diff_less)

declare redact_spec.simps(2) [simp del]

text \<open>What the redactor still owes when the stream ends in state \<open>r\<close> after \<open>z\<close> more characters.\<close>

definition owed :: "string list \<Rightarrow> redactor \<Rightarrow> string \<Rightarrow> string" where
  "owed extra r z =
    (let s = red_buf r @ z; run = takeWhile isAlnum s; after = dropWhile isAlnum s in
     case red_state r of
       Scanning \<Rightarrow> redact_spec extra s
     | Discarding \<Rightarrow> redact_spec extra after
     | Candidate \<Rightarrow>
         if KEY_TAIL_MIN \<le> red_alnumSeen r + length run then REDACTED @ redact_spec extra after
         else if 0 < red_alnumSeen r + length run \<and> starts_with after TRUNCATION_SUFFIX
         then REDACTED @ redact_spec extra (drop (length TRUNCATION_SUFFIX) after)
         else red_candidate r @ run @ redact_spec extra after)"

text \<open>The invariant of the state: nothing is buffered outside the candidate state, and a candidate is
  the marker with the fewer than 40 alphanumerics counted so far.\<close>

lemma marker_alnum: "list_all isAlnum MARKER"
  by (simp add: MARKER_def isAlnum_def char_class_defs)

definition red_inv :: "redactor \<Rightarrow> bool" where
  "red_inv r \<longleftrightarrow>
    (if red_state r = Candidate
     then red_alnumSeen r < KEY_TAIL_MIN \<and> starts_with (red_candidate r) MARKER \<and>
          length (red_candidate r) = length MARKER + red_alnumSeen r \<and> list_all isAlnum (red_candidate r)
     else red_candidate r = [])"

lemma red_inv_init: "red_inv red_init"
  by (simp add: red_inv_def red_init_def)

lemma red_inv_buf [simp]: "red_inv (r\<lparr>red_buf := b\<rparr>) = red_inv r"
  by (simp add: red_inv_def)

lemma drain_step_inv:
  assumes "drain_step extra e r = Some (p, r')" and "red_inv r"
  shows "red_inv r'"
  using assms
proof (induction rule: drain_step_cases)
  case marker
  then show ?case by (simp add: red_inv_def KEY_TAIL_MIN_def starts_with_prefix marker_alnum)
next
  case (count ch rest)
  then show ?case by (simp add: red_inv_def starts_with_prefix)
qed (simp_all add: red_inv_def)

text \<open>The needles overlap when one is a proper prefix of another.\<close>

definition prefix_free :: "string list \<Rightarrow> bool" where
  "prefix_free extra \<longleftrightarrow>
    list_all (\<lambda>m. list_all (\<lambda>n. starts_with n m \<longrightarrow> m = n) (needles extra)) (needles extra)"

lemma prefix_freeD:
  "prefix_free extra \<Longrightarrow> m \<in> set (needles extra) \<Longrightarrow> n \<in> set (needles extra) \<Longrightarrow> prefix m n \<Longrightarrow> m = n"
  unfolding prefix_free_def list_all_iff starts_with_prefix by blast

lemma length_le_maxNeedle: "n \<in> set (needles extra) \<Longrightarrow> length n \<le> maxNeedle extra"
  unfolding maxNeedle_def
  by (metis List.finite_set Max.set_eq_fold Max_ge image_eqI list.set_intros(2) list.set_map)

text \<open>A hit stays the hit when more input arrives; a position that is passed over stays passed.\<close>

lemma needleAt_append_Some:
  assumes "needleAt extra b = Some n" and "prefix_free extra"
  shows "needleAt extra (b @ z) = Some n"
proof -
  obtain i where i: "i < length (needles extra)" "needles extra ! i = n" "starts_with b n"
    "\<forall>j<i. \<not> starts_with b (needles extra ! j)"
    using assms(1) by (auto simp: needleAt_def find_Some_iff)
  have "\<not> starts_with (b @ z) (needles extra ! j)" if "j < i" for j
  proof
    assume "starts_with (b @ z) (needles extra ! j)"
    moreover have "prefix n (b @ z)" using i(3) by (simp add: starts_with_prefix)
    ultimately have "prefix (needles extra ! j) n \<or> prefix n (needles extra ! j)"
      using prefix_same_cases by (auto simp: starts_with_prefix)
    then have "needles extra ! j = n"
      using prefix_freeD [OF assms(2)] i(1,2) that by (metis nth_mem order.strict_trans)
    then show False using i(3,4) that by auto
  qed
  then show ?thesis using i by (auto simp: needleAt_def find_Some_iff starts_with_prefix)
qed

lemma needleAt_append_None:
  assumes "needleAt extra b = None"
    and "\<not> (length b < maxNeedle extra \<and> mayStartNeedle extra b)"
  shows "needleAt extra (b @ z) = None"
proof -
  have "\<not> prefix n (b @ z)" if n: "n \<in> set (needles extra)" for n
  proof
    assume "prefix n (b @ z)"
    moreover have "\<not> prefix n b" using assms(1) n by (simp add: needleAt_None)
    ultimately have "prefix b n" "length b < length n"
      using prefix_append_new [of n b z] by simp_all
    then show False
      using assms(2) n length_le_maxNeedle [OF n]
      by (auto simp: mayStartNeedle_def list_ex_iff starts_with_prefix)
  qed
  then show ?thesis by (simp add: needleAt_None)
qed

lemma starts_truncation_append:
  assumes "\<not> (length b < length TRUNCATION_SUFFIX \<and> startsTruncation b)"
  shows "starts_with (b @ z) TRUNCATION_SUFFIX = starts_with b TRUNCATION_SUFFIX"
proof (cases "prefix TRUNCATION_SUFFIX b")
  case False
  then have "\<not> prefix TRUNCATION_SUFFIX (b @ z)"
    using assms prefix_append_new [of TRUNCATION_SUFFIX b z]
    by (metis startsTruncation_def starts_with_prefix)
  with False show ?thesis by (simp add: starts_with_prefix)
qed (simp add: starts_with_prefix)

section \<open>A stream is redacted as the whole text is\<close>

definition stable_input :: "string list \<Rightarrow> bool \<Rightarrow> string \<Rightarrow> bool" where
  "stable_input extra e z \<longleftrightarrow> z = [] \<or> \<not> e \<and> prefix_free extra"

lemma needleAt_stable:
  assumes "stable_input extra e z" and "needleAt extra b = Some n"
  shows "needleAt extra (b @ z) = Some n"
  using assms needleAt_append_Some by (auto simp: stable_input_def)

lemma needleAt_length: "needleAt extra s = Some n \<Longrightarrow> length n \<le> length s"
  by (auto dest: needleAt_Some prefix_length_le)

lemma redact_spec_pass:
  "needleAt extra (c # s) = None \<Longrightarrow> redact_spec extra (c # s) = c # redact_spec extra s"
  by (simp add: redact_spec.simps(2))

lemma redact_spec_secret:
  assumes "needleAt extra s = Some n" and "n \<noteq> MARKER"
  shows "redact_spec extra s = REDACTED @ redact_spec extra (drop (length n) s)"
proof (cases s)
  case Nil
  then show ?thesis using needleAt_Some [OF assms(1)] by simp
next
  case (Cons c cs)
  then show ?thesis using assms by (simp add: redact_spec.simps(2))
qed

lemma redact_spec_marker:
  assumes "needleAt extra s = Some MARKER"
  shows "redact_spec extra s = owed extra \<lparr>red_buf = drop (length MARKER) s, red_candidate = MARKER,
            red_alnumSeen = 0, red_state = Candidate\<rparr> []"
proof (cases s)
  case Nil
  then show ?thesis using needleAt_Some [OF assms(1)] by simp
next
  case (Cons c cs)
  then show ?thesis using assms by (simp add: redact_spec.simps(2) owed_def Let_def)
qed

lemma redact_spec_nonalnum:
  "\<not> isAlnum ch \<Longrightarrow> takeWhile isAlnum (ch # s) = [] \<and> dropWhile isAlnum (ch # s) = ch # s"
  by simp

lemma drain_step_owed:
  assumes "drain_step extra e r = Some (p, r')" and "stable_input extra e z" and "red_inv r"
  shows "owed extra r z = p @ owed extra r' z"
  using assms
proof (induction rule: drain_step_cases)
  case (pass ch rest)
  then have "needleAt extra (red_buf r @ z) = None"
    using needleAt_append_None [of extra "red_buf r" z] by (auto simp: stable_input_def)
  then show ?case using pass by (simp add: owed_def redact_spec_pass)
next
  case (secret n)
  then have "needleAt extra (red_buf r @ z) = Some n" by (simp add: needleAt_stable)
  then show ?case using secret needleAt_length [of extra "red_buf r" n]
    by (simp add: owed_def redact_spec_secret)
next
  case marker
  then have "needleAt extra (red_buf r @ z) = Some MARKER" by (simp add: needleAt_stable)
  then show ?case using marker needleAt_length [of extra "red_buf r" MARKER]
    by (simp add: owed_def redact_spec_marker Let_def)
next
  case (full ch rest)
  then show ?case by (simp add: owed_def Let_def)
next
  case (count ch rest)
  then show ?case by (simp add: owed_def Let_def)
next
  case (ellipsis ch rest)
  then have "starts_with (red_buf r @ z) TRUNCATION_SUFFIX"
      "length TRUNCATION_SUFFIX \<le> length (red_buf r)"
    using prefix_length_le [of TRUNCATION_SUFFIX "red_buf r"]
    by (auto simp only: starts_with_prefix intro: prefix_prefix)
  moreover have "drop (length TRUNCATION_SUFFIX) (ch # rest @ z) =
      drop (length TRUNCATION_SUFFIX) (ch # rest) @ z"
    using calculation(2) ellipsis drop_append [of "length TRUNCATION_SUFFIX" "ch # rest" z] by simp
  ultimately show ?case using ellipsis
    by (simp add: owed_def Let_def red_inv_def not_le)
next
  case (stand ch rest)
  then have "\<not> (0 < red_alnumSeen r \<and> starts_with (red_buf r @ z) TRUNCATION_SUFFIX)"
    using starts_truncation_append [of "red_buf r" z] by (auto simp: stable_input_def)
  then show ?case using stand by (auto simp: owed_def Let_def red_inv_def not_le)
next
  case (skip ch rest)
  then show ?case by (simp add: owed_def Let_def)
next
  case (resume ch rest)
  then show ?case by (simp add: owed_def Let_def)
qed

lemma drain_owed:
  "drain extra e r = (out, r') \<Longrightarrow> stable_input extra e z \<Longrightarrow> red_inv r \<Longrightarrow>
    owed extra r z = out @ owed extra r' z \<and> red_inv r' \<and> drain_step extra e r' = None"
proof (induction extra e r arbitrary: out r' rule: drain.induct)
  case (1 extra e r)
  show ?case
  proof (cases "drain_step extra e r")
    case None
    then show ?thesis using "1.prems" by (simp add: drain.simps)
  next
    case (Some pr)
    obtain p r1 where pr: "pr = (p, r1)" by fastforce
    obtain o1 where d: "drain extra e r1 = (o1, r')" and out: "out = p @ o1"
      using "1.prems"(1) Some pr by (auto simp: drain.simps split: prod.splits)
    have "owed extra r z = p @ owed extra r1 z" "red_inv r1"
      using drain_step_owed drain_step_inv Some pr "1.prems" by blast+
    then show ?thesis using "1.IH" [OF Some _ d] pr d "1.prems" out by simp
  qed
qed

lemma drain_end_True: "drain_step extra True r = None \<longleftrightarrow> red_buf r = []"
  by (auto simp: drain_step.simps split: list.splits red_state.splits option.splits if_splits)

lemma red_flush_owed:
  assumes "red_inv r"
  shows "fst (red_flush extra r) = owed extra r []"
proof -
  obtain out r' where d: "drain extra True r = (out, r')" by fastforce
  have "owed extra r [] = out @ owed extra r' []" "red_inv r'" "red_buf r' = []"
    using drain_owed [OF d _ assms, of "[]"] by (simp_all add: stable_input_def drain_end_True)
  then show ?thesis using d
    by (auto simp: red_flush_def owed_def red_inv_def TRUNCATION_SUFFIX_def split: red_state.splits)
qed

lemma owed_Nil_push: "owed extra r (c @ z) = owed extra (r\<lparr>red_buf := red_buf r @ c\<rparr>) z"
  by (cases "red_state r") (simp_all add: owed_def Let_def)

lemma red_push_owed:
  assumes "red_push extra r c = (out, r')" and "red_inv r" and "z = [] \<or> prefix_free extra"
  shows "owed extra r (c @ z) = out @ owed extra r' z \<and> red_inv r'"
proof (cases "c = []")
  case True
  then show ?thesis using assms by (simp add: red_push_def)
next
  case False
  then have "drain extra False (r\<lparr>red_buf := red_buf r @ c\<rparr>) = (out, r')"
    using assms(1) by (simp add: red_push_def)
  then show ?thesis
    using drain_owed [of extra False _ out r' z] assms by (auto simp: owed_Nil_push stable_input_def)
qed

lemma red_pushes_owed:
  assumes "prefix_free extra"
  shows "red_pushes extra r cs = (out, r') \<Longrightarrow> red_inv r \<Longrightarrow>
    owed extra r (concat cs) = out @ owed extra r' [] \<and> red_inv r'"
proof (induction cs arbitrary: r out)
  case (Cons c cs)
  obtain o1 r1 where p: "red_push extra r c = (o1, r1)" by fastforce
  obtain o2 where q: "red_pushes extra r1 cs = (o2, r')" and out: "out = o1 @ o2"
    using Cons.prems(1) p by (auto split: prod.splits)
  have "owed extra r (c @ concat cs) = o1 @ owed extra r1 (concat cs)" "red_inv r1"
    using red_push_owed [OF p Cons.prems(2)] assms by simp_all
  then show ?case using Cons.IH [OF q] out by simp
qed simp

lemma owed_init: "owed extra red_init z = redact_spec extra z"
  by (simp add: owed_def red_init_def)

lemma redactSecrets_spec: "redactSecrets extra text = redact_spec extra text"
proof -
  obtain out r where p: "red_push extra red_init text = (out, r)" by fastforce
  then show ?thesis
    using red_push_owed [OF p red_inv_init, of "[]"] red_flush_owed [of r extra]
    by (simp add: redactSecrets_def owed_init)
qed

lemma red_stream_spec:
  assumes "prefix_free extra"
  shows "red_stream extra chunks = redact_spec extra (concat chunks)"
proof -
  obtain out r where p: "red_pushes extra red_init chunks = (out, r)" by fastforce
  then show ?thesis
    using red_pushes_owed [OF assms p red_inv_init] red_flush_owed [of r extra]
    by (simp add: red_stream_def owed_init)
qed

section \<open>No key survives, whatever the chunks and secrets\<close>

inductive masked :: "string \<Rightarrow> string \<Rightarrow> bool" where
  masked_end: "masked [] []"
| masked_copy: "\<not> prefix MARKER (c # s) \<Longrightarrow> masked s out \<Longrightarrow> masked (c # s) (c # out)"
| masked_hide: "masked s out \<Longrightarrow> masked (hidden @ s) (REDACTED @ out)"
| masked_stand: "list_all isAlnum run \<Longrightarrow> length run < KEY_TAIL_MIN \<Longrightarrow> (\<forall>c cs. s = c # cs \<longrightarrow> \<not> isAlnum c) \<Longrightarrow>
    masked s out \<Longrightarrow> masked (MARKER @ run @ s) (MARKER @ run @ out)"

lemma redacted_prefix_alnum: "list_all isAlnum p \<Longrightarrow> prefix p (REDACTED @ out) \<Longrightarrow> p = []"
  by (cases p) (simp_all add: REDACTED_def isAlnum_def char_class_defs)

lemma redacted_suffix_alnum:
  assumes "list_all isAlnum p" and "suffix p REDACTED"
  shows "p = []"
proof (cases p rule: rev_cases)
  case (snoc q c)
  then obtain zs where "REDACTED = zs @ q @ [c]" using assms(2) by (auto simp: suffix_def)
  then have "c = last REDACTED" by (metis append.assoc last_snoc)
  then show ?thesis
    using assms(1) snoc by (simp add: REDACTED_def isAlnum_def char_class_defs)
qed

lemma length_redacted: "length REDACTED = 10"
  by (simp add: REDACTED_def)

lemma masked_alnum_prefix:
  "masked s out \<Longrightarrow> list_all isAlnum p \<Longrightarrow> prefix p out \<Longrightarrow> prefix p s"
proof (induction arbitrary: p rule: masked.induct)
  case (masked_copy c s out)
  then show ?case by (cases p) auto
next
  case (masked_hide s out hidden)
  then show ?case using redacted_prefix_alnum by fastforce
next
  case (masked_stand run s out)
  show ?case
  proof (cases "prefix p (MARKER @ run)")
    case True
    then show ?thesis by (metis append.assoc prefix_prefix)
  next
    case False
    then obtain q where "p = (MARKER @ run) @ q" "prefix q out"
      using masked_stand.prems(2) by (metis append.assoc prefix_append)
    then show ?thesis using masked_stand.IH [of q] masked_stand.prems(1) by simp
  qed
qed simp

lemma masked_no_key:
  assumes "masked s out" and "list_all isAlnum key" and "prefix MARKER key"
    and "length MARKER + KEY_TAIL_MIN \<le> length key"
  shows "\<not> sublist key out"
  using assms(1)
proof (induction rule: masked.induct)
  case masked_end
  then show ?case using assms(4) by (auto simp: KEY_TAIL_MIN_def)
next
  case (masked_copy c s out)
  then have "\<not> prefix key (c # out)"
    using masked_alnum_prefix [OF masked.masked_copy assms(2)] assms(3) prefix_order.trans by blast
  then show ?case using masked_copy.IH by (simp add: sublist_Cons_right)
next
  case (masked_hide s out hidden)
  have "\<not> sublist key REDACTED"
    using assms(4) length_redacted by (auto simp: KEY_TAIL_MIN_def dest: sublist_length_le)
  moreover have "sublist key out" if "key = a @ b" "suffix a REDACTED" "prefix b out" for a b
    using that assms(2) redacted_suffix_alnum [of a] by (simp add: prefix_imp_sublist)
  ultimately show ?case
    using masked_hide.IH by (auto simp: sublist_append)
next
  case (masked_stand run s out)
  have short: "length (MARKER @ run) < length key"
    using masked_stand.hyps(2) assms(4) by simp
  have "\<not> sublist key (MARKER @ run)" using short by (auto dest: sublist_length_le)
  moreover have "False" if "key = a @ b" "suffix a (MARKER @ run)" "prefix b out" for a b
  proof -
    have "prefix b s" using masked_alnum_prefix [OF masked_stand.hyps(4) _ that(3)] assms(2) that(1) by simp
    then have "b = []" using masked_stand.hyps(3) assms(2) that(1) by (cases b) (auto simp: prefix_def)
    then show False using that(1,2) short by (auto dest: suffix_length_le)
  qed
  ultimately show ?case
    using masked_stand.IH by (metis append.assoc sublist_append)
qed

text \<open>The outputs that may still follow in state \<open>r\<close> when \<open>s\<close> is still to be read.\<close>

definition masked_from :: "redactor \<Rightarrow> string \<Rightarrow> string \<Rightarrow> bool" where
  "masked_from r s out \<longleftrightarrow>
    (case red_state r of
      Scanning \<Rightarrow> masked s out
    | Candidate \<Rightarrow> masked (red_candidate r @ s) out
    | Discarding \<Rightarrow> (\<exists>d s'. s = d @ s' \<and> masked s' out))"

lemma masked_from_buf [simp]: "masked_from (r\<lparr>red_buf := b\<rparr>) s out = masked_from r s out"
  by (cases "red_state r") (simp_all add: masked_from_def)

lemma marker_in_needles: "MARKER \<in> set (needles extra)"
  by (simp add: needles_def)

lemma prefix_drop: "prefix p s \<Longrightarrow> s = p @ drop (length p) s"
  by (auto simp: prefix_def)

lemma drain_step_masked:
  assumes "drain_step extra e r = Some (p, r')" and "red_inv r" and "e \<longrightarrow> z = []"
    and "masked_from r' (red_buf r' @ z) out"
  shows "masked_from r (red_buf r @ z) (p @ out)"
  using assms
proof (induction rule: drain_step_cases)
  case (pass ch rest)
  then have "needleAt extra ((ch # rest) @ z) = None"
    using needleAt_append_None [of extra "ch # rest" z] by auto
  then have "\<not> prefix MARKER (ch # rest @ z)"
    using marker_in_needles by (simp add: needleAt_None)
  then show ?case using pass by (simp add: masked_from_def masked_copy)
next
  case (secret n)
  then obtain t where "red_buf r = n @ t" using needleAt_Some by (meson prefixE)
  then show ?case using secret masked_hide [of "t @ z" out n] by (simp add: masked_from_def)
next
  case marker
  then have "red_buf r = MARKER @ drop (length MARKER) (red_buf r)"
    using needleAt_Some prefix_drop by blast
  then show ?case using marker by (simp add: masked_from_def) (metis append.assoc)
next
  case (full ch rest)
  then obtain d s' where "rest @ z = d @ s'" "masked s' out" by (auto simp: masked_from_def)
  then show ?case
    using full masked_hide [of s' out "red_candidate r @ ch # d"] by (simp add: masked_from_def)
next
  case (count ch rest)
  then show ?case by (simp add: masked_from_def)
next
  case (ellipsis ch rest)
  then obtain t where t: "red_buf r = TRUNCATION_SUFFIX @ t" by (auto simp only: starts_with_prefix prefix_def)
  then have "red_buf r' = t" using ellipsis(7) by simp
  then show ?case
    using ellipsis(1,6,7) ellipsis.prems(3) t
      masked_hide [of "t @ z" out "red_candidate r @ TRUNCATION_SUFFIX"]
    by (simp add: masked_from_def)
next
  case (stand ch rest)
  then obtain run where "red_candidate r = MARKER @ run" "list_all isAlnum run" "length run < KEY_TAIL_MIN"
    by (auto simp: red_inv_def starts_with_prefix prefix_def)
  then show ?case
    using stand masked_stand [of run "red_buf r @ z" out] by (simp add: masked_from_def)
next
  case (skip ch rest)
  then obtain d s' where "ch # rest @ z = (ch # d) @ s'" "masked s' out" by (auto simp: masked_from_def)
  then have "\<exists>d s'. ch # rest @ z = d @ s' \<and> masked s' out" by blast
  then show ?case using skip(1,2,4) by (simp add: masked_from_def)
next
  case (resume ch rest)
  then show ?case by (auto simp: masked_from_def)
qed

lemma drain_masked:
  "drain extra e r = (o1, r') \<Longrightarrow> red_inv r \<Longrightarrow> e \<longrightarrow> z = [] \<Longrightarrow> masked_from r' (red_buf r' @ z) out \<Longrightarrow>
    masked_from r (red_buf r @ z) (o1 @ out)"
proof (induction extra e r arbitrary: o1 rule: drain.induct)
  case (1 extra e r)
  show ?case
  proof (cases "drain_step extra e r")
    case None
    then show ?thesis using "1.prems" by (simp add: drain.simps)
  next
    case (Some pr)
    obtain p r1 where pr: "pr = (p, r1)" by fastforce
    obtain o2 where d: "drain extra e r1 = (o2, r')" and o1: "o1 = p @ o2"
      using "1.prems"(1) Some pr by (auto simp: drain.simps split: prod.splits)
    have "red_inv r1" using drain_step_inv Some pr "1.prems" by blast
    then have "masked_from r1 (red_buf r1 @ z) (o2 @ out)"
      using "1.IH" [OF Some _ d] pr "1.prems" by simp
    then show ?thesis using drain_step_masked Some pr "1.prems" o1 by simp
  qed
qed


lemma red_push_masked:
  assumes "red_push extra r c = (o1, r')" and "red_inv r"
    and "masked_from r' (red_buf r' @ z) out"
  shows "masked_from r (red_buf r @ c @ z) (o1 @ out)"
  using assms drain_masked [of extra False "r\<lparr>red_buf := red_buf r @ c\<rparr>" o1 r' z out]
  by (auto simp: red_push_def split: if_splits)

lemma red_push_inv: "red_push extra r c = (o1, r') \<Longrightarrow> red_inv r \<Longrightarrow> red_inv r'"
  using drain_owed [of extra False _ o1 r' "[]"]
  by (auto simp: red_push_def stable_input_def split: if_splits)

lemma red_flush_masked:
  assumes "red_inv r"
  shows "masked_from r (red_buf r) (fst (red_flush extra r))"
proof -
  obtain out r' where d: "drain extra True r = (out, r')" by fastforce
  have r': "red_inv r'" "red_buf r' = []"
    using drain_owed [OF d _ assms, of "[]"] by (simp_all add: stable_input_def drain_end_True)
  define last where "last = (if red_state r' = Candidate then red_candidate r' else [])"
  have "masked_from r' (red_buf r' @ []) last"
  proof (cases "red_state r' = Candidate")
    case True
    then obtain run where "red_candidate r' = MARKER @ run" "list_all isAlnum run" "length run < KEY_TAIL_MIN"
      using r'(1) by (auto simp: red_inv_def starts_with_prefix prefix_def)
    then show ?thesis
      using True r'(2) masked_stand [of run "[]" "[]"] masked_end by (simp add: masked_from_def last_def)
  next
    case False
    then show ?thesis using r'(2) masked_end
      by (auto simp: masked_from_def last_def split: red_state.splits)
  qed
  then have "masked_from r (red_buf r @ []) (out @ last)" using drain_masked [OF d assms] by blast
  then show ?thesis using d by (simp add: red_flush_def last_def split: if_splits)
qed

lemma red_pushes_masked:
  "red_pushes extra r cs = (o1, r') \<Longrightarrow> red_inv r \<Longrightarrow> masked_from r' (red_buf r') out \<Longrightarrow>
    masked_from r (red_buf r @ concat cs) (o1 @ out)"
proof (induction cs arbitrary: r o1)
  case (Cons c cs)
  obtain o2 r1 where p: "red_push extra r c = (o2, r1)" by fastforce
  obtain o3 where q: "red_pushes extra r1 cs = (o3, r')" and o1: "o1 = o2 @ o3"
    using Cons.prems(1) p by (auto split: prod.splits)
  have "masked_from r1 (red_buf r1 @ concat cs) (o3 @ out)"
    using Cons.IH q red_push_inv [OF p] Cons.prems by blast
  then show ?case using red_push_masked [OF p Cons.prems(2)] o1 by simp
qed simp

lemma red_pushes_inv: "red_pushes extra r cs = (o1, r') \<Longrightarrow> red_inv r \<Longrightarrow> red_inv r'"
  by (induction cs arbitrary: r o1) (auto dest: red_push_inv split: prod.splits)

lemma red_stream_masked: "masked (concat chunks) (red_stream extra chunks)"
proof -
  obtain out r where p: "red_pushes extra red_init chunks = (out, r)" by fastforce
  then have "masked_from red_init (red_buf red_init @ concat chunks) (out @ fst (red_flush extra r))"
    using red_pushes_masked red_pushes_inv red_inv_init red_flush_masked by blast
  then show ?thesis using p by (simp add: red_stream_def masked_from_def red_init_def)
qed

section \<open>Memory\<close>

definition held_back :: "redactor \<Rightarrow> nat" where
  "held_back r = length (red_buf r) + length (red_candidate r)"

lemma drain_end_held:
  assumes "drain_step extra e r = None" and "red_inv r"
  shows "held_back r \<le> max (maxNeedle extra - 1) (length MARKER + KEY_TAIL_MIN + 1)"
  using assms
  by (auto simp: drain_step.simps red_inv_def held_back_def KEY_TAIL_MIN_def TRUNCATION_SUFFIX_def
      split: list.splits red_state.splits option.splits if_splits)

lemma red_push_held:
  assumes "red_push extra r c = (out, r')" and "red_inv r" and "held_back r \<le> b"
    and "max (maxNeedle extra - 1) (length MARKER + KEY_TAIL_MIN + 1) \<le> b"
  shows "held_back r' \<le> b"
proof (cases "c = []")
  case True
  then show ?thesis using assms(1,3) by (simp add: red_push_def)
next
  case False
  then have "drain extra False (r\<lparr>red_buf := red_buf r @ c\<rparr>) = (out, r')"
    using assms(1) by (simp add: red_push_def)
  then have "drain_step extra False r' = None" "red_inv r'"
    using drain_owed [of extra False _ out r' "[]"] assms(2) by (simp_all add: stable_input_def)
  then show ?thesis using drain_end_held assms(4) le_trans by blast
qed

lemma red_pushes_held:
  "red_pushes extra r cs = (out, r') \<Longrightarrow> red_inv r \<Longrightarrow> held_back r \<le> b \<Longrightarrow>
    max (maxNeedle extra - 1) (length MARKER + KEY_TAIL_MIN + 1) \<le> b \<Longrightarrow> held_back r' \<le> b"
proof (induction cs arbitrary: r out)
  case (Cons c cs)
  obtain o1 r1 where p: "red_push extra r c = (o1, r1)" by fastforce
  then show ?case
    using Cons.IH red_push_inv [OF p] red_push_held [OF p] Cons.prems by (auto split: prod.splits)
qed simp

section \<open>The runner's tail\<close>

lemma tail_emit_sent [simp]: "tail_sent (tail_emit t out) = tail_sent t @ out"
  by (simp add: tail_emit_def)

lemma tail_emit_redactor [simp]: "tail_redactor (tail_emit t out) = tail_redactor t"
  by (simp add: tail_emit_def)

definition tail_ok :: "redacted_tail \<Rightarrow> bool" where
  "tail_ok t \<longleftrightarrow> suffix (tail_buffer t) (tail_sent t) \<and> length (tail_buffer t) \<le> LOG_TAIL_BYTES"

lemma tail_ok_redactor [simp]: "tail_ok (t\<lparr>tail_redactor := r\<rparr>) = tail_ok t"
  by (simp add: tail_ok_def)

lemma tail_emit_ok:
  assumes "tail_ok t"
  shows "tail_ok (tail_emit t out)"
proof -
  have "suffix (tail_buffer t @ out) (tail_sent t @ out)"
    using assms by (auto simp: tail_ok_def suffix_def)
  then have "suffix (slice_last LOG_TAIL_BYTES (tail_buffer t @ out)) (tail_sent t @ out)"
    unfolding slice_last_def using suffix_drop suffix_order.trans by blast
  moreover have "length (slice_last LOG_TAIL_BYTES (tail_buffer t @ out)) \<le> LOG_TAIL_BYTES"
    by (simp add: slice_last_def del: drop_append length_append)
  ultimately show ?thesis using assms by (simp add: tail_ok_def tail_emit_def)
qed

lemma tail_pushes_sent:
  "red_pushes secrets (tail_redactor t) cs = (out, r) \<Longrightarrow> t' = fold (\<lambda>c t. tail_push secrets t c) cs t \<Longrightarrow>
    tail_sent t' = tail_sent t @ out \<and> tail_redactor t' = r"
  by (induction cs arbitrary: t out) (auto simp: tail_push_def split: prod.splits)

lemma tail_push_ok: "tail_ok t \<Longrightarrow> tail_ok (tail_push secrets t c)"
  by (simp add: tail_push_def tail_emit_ok split: prod.splits)

lemma tail_finish_ok: "tail_ok t \<Longrightarrow> tail_ok (tail_finish secrets t)"
  by (simp add: tail_finish_def tail_emit_ok split: prod.splits)

lemma tail_run_ok: "tail_ok (tail_run secrets chunks)"
proof -
  have "tail_ok (fold (\<lambda>c t. tail_push secrets t c) chunks t)" if "tail_ok t" for t
    using that by (induction chunks arbitrary: t) (auto intro: tail_push_ok)
  moreover have "tail_ok tail_init" by (simp add: tail_ok_def tail_init_def)
  ultimately show ?thesis by (simp add: tail_run_def tail_finish_ok)
qed

lemma tail_run_sent: "tail_sent (tail_run secrets chunks) = red_stream secrets chunks"
proof -
  obtain out r where p: "red_pushes secrets red_init chunks = (out, r)" by fastforce
  then show ?thesis
    using tail_pushes_sent [of secrets tail_init chunks out r]
    by (simp add: tail_run_def tail_finish_def red_stream_def tail_init_def split: prod.splits)
qed

section \<open>Properties\<close>

lemma alnum_replicate_q: "list_all isAlnum (replicate n (CHR ''q''))"
proof -
  have "isAlnum (CHR ''q'')" by code_simp
  then show ?thesis by (induction n) simp_all
qed

text \<open>
  C28: no key ever leaves the stream redactor. Whatever the extra secrets and however the output
  of the child process is cut into chunks, the emitted text never holds the marker followed by
  40 alphanumerics.
\<close>

theorem stream_never_leaks_key:
  assumes "list_all isAlnum body" and "KEY_TAIL_MIN \<le> length body"
  shows "\<not> sublist (MARKER @ body) (red_stream extra chunks)"
  using masked_no_key [OF red_stream_masked, of "MARKER @ body"] assms marker_alnum by simp

theorem stream_never_leaks_key_witness:
  "\<not> sublist (MARKER @ replicate 47 (CHR ''q''))
     (red_stream [] [''key: APriv'', ''ateKey1'' @ replicate 20 (CHR ''q''), replicate 27 (CHR ''q'')])"
  by (rule stream_never_leaks_key) (simp_all add: alnum_replicate_q KEY_TAIL_MIN_def)

text \<open>
  C35: a complete text is redacted as the one-pass specification says, for every list of extra
  secrets: the state machine with its held-back input implements it.
\<close>

theorem redactSecrets_refines_spec: "redactSecrets extra text = redact_spec extra text"
  by (rule redactSecrets_spec)

text \<open>
  C39: the streaming path agrees with the one-shot path on every way of cutting a text into
  chunks, provided no needle (a secret or the marker) is a proper prefix of another.
\<close>

theorem stream_agrees_with_whole:
  assumes "prefix_free extra"
  shows "red_stream extra chunks = redactSecrets extra (concat chunks)"
  using assms by (simp add: red_stream_spec redactSecrets_spec)

theorem stream_agrees_with_whole_witness:
  "red_stream [''hunter2hunter2''] [''pw hunter2h'', ''unter2.'']
     = redactSecrets [''hunter2hunter2''] (concat [''pw hunter2h'', ''unter2.''])"
  by (rule stream_agrees_with_whole) code_simp

text \<open>
  The proviso is needed. With two secrets where one starts the other, the longest-first order
  does not help the stream: the shorter one is replaced as soon as a chunk ends with it, and the
  rest of the longer secret is emitted as it is, which the one-shot path never does.
\<close>

lemma stream_differs_on_overlapping_secrets:
  "red_stream [''password'', ''password-42''] [''password'', ''-42''] = ''[REDACTED]-42''
   \<and> redactSecrets [''password'', ''password-42''] (concat [''password'', ''-42'']) = ''[REDACTED]''"
  by code_simp

text \<open>
  The memory of the redactor is bounded: between chunks it holds fewer characters than the
  longest needle, or at most the marker, 40 alphanumerics and one more, whichever is larger.
\<close>

theorem redactor_memory_bounded:
  assumes "red_pushes extra red_init chunks = (out, r)"
  shows "held_back r \<le> max (maxNeedle extra - 1) (length MARKER + KEY_TAIL_MIN + 1)"
  using red_pushes_held [OF assms red_inv_init] by (simp add: held_back_def red_init_def)

theorem redactor_memory_bounded_witness:
  "held_back (snd (red_pushes [] red_init [''APrivateKey1zkp8'', ''..'']))
     \<le> max (maxNeedle [] - 1) (length MARKER + KEY_TAIL_MIN + 1)"
  using redactor_memory_bounded [of "[]" "[''APrivateKey1zkp8'', ''..'']"
    "fst (red_pushes [] red_init [''APrivateKey1zkp8'', ''..''])"
    "snd (red_pushes [] red_init [''APrivateKey1zkp8'', ''..''])"]
  by (simp only: prod.collapse)

text \<open>
  The runner's stored tail never exceeds 4096 characters, is the end of what was forwarded,
  and neither of them contains the signing key, when the key has the shape of an Aleo private key.
\<close>

theorem runner_tail_safe:
  assumes "list_all isAlnum body" and "KEY_TAIL_MIN \<le> length body"
  shows "length (tail_buffer (tail_run secrets chunks)) \<le> LOG_TAIL_BYTES
    \<and> suffix (tail_buffer (tail_run secrets chunks)) (tail_sent (tail_run secrets chunks))
    \<and> \<not> sublist (MARKER @ body) (tail_sent (tail_run secrets chunks))
    \<and> \<not> sublist (MARKER @ body) (tail_buffer (tail_run secrets chunks))"
proof -
  have ok: "tail_ok (tail_run secrets chunks)" by (rule tail_run_ok)
  then have suf: "suffix (tail_buffer (tail_run secrets chunks)) (tail_sent (tail_run secrets chunks))"
    by (simp add: tail_ok_def)
  have sent: "\<not> sublist (MARKER @ body) (tail_sent (tail_run secrets chunks))"
    using masked_no_key [OF red_stream_masked, of "MARKER @ body"] assms marker_alnum
    by (simp add: tail_run_sent)
  have "\<not> sublist (MARKER @ body) (tail_buffer (tail_run secrets chunks))"
    using sent sublist_order.order.trans [OF _ suffix_imp_sublist [OF suf]] by blast
  then show ?thesis using ok sent by (simp add: tail_ok_def)
qed

theorem runner_tail_safe_witness:
  "\<not> sublist (MARKER @ replicate 40 (CHR ''q''))
     (tail_buffer (tail_run [MARKER @ replicate 40 (CHR ''q'')] [MARKER, replicate 40 (CHR ''q'')]))"
  using runner_tail_safe [of "replicate 40 (CHR ''q'')"] alnum_replicate_q by (simp add: KEY_TAIL_MIN_def)

end
