(* ===== verification/Values.thy ===== *)
theory Values imports Prelude Complex_Main begin

text \<open>
  JavaScript values as the modelled code inspects them: the primitives it tests with
  \<^verbatim>\<open>typeof\<close>, arrays, plain objects with their own keys in insertion order, and opaque
  functions. Numbers are exact rationals with the three special values; rounding to a double is
  not modelled, as the code only compares small integers. Keys such as \<^verbatim>\<open>toString\<close> that every
  object inherits are outside the model.
\<close>

section \<open>Values\<close>

datatype jsnum = NaN | PosInf | NegInf | Fin rat

datatype jsval =
    JUndef
  | JNull
  | JBool bool
  | JNum jsnum
  | JBig int
  | JStr string
  | JArr "jsval list"
  | JObj "(string \<times> jsval) list"
  | JFun string

abbreviation jint :: "int \<Rightarrow> jsval" where
  "jint i \<equiv> JNum (Fin (of_int i))"

text \<open>\<^verbatim>\<open>typeof v\<close>\<close>

fun js_typeof :: "jsval \<Rightarrow> string" where
  "js_typeof JUndef = ''undefined''"
| "js_typeof JNull = ''object''"
| "js_typeof (JBool b) = ''boolean''"
| "js_typeof (JNum x) = ''number''"
| "js_typeof (JBig i) = ''bigint''"
| "js_typeof (JStr s) = ''string''"
| "js_typeof (JArr xs) = ''object''"
| "js_typeof (JObj ps) = ''object''"
| "js_typeof (JFun f) = ''function''"

text \<open>Truthiness, as \<^verbatim>\<open>if (v)\<close> and \<^verbatim>\<open>||\<close> test it.\<close>

fun js_truthy :: "jsval \<Rightarrow> bool" where
  "js_truthy JUndef = False"
| "js_truthy JNull = False"
| "js_truthy (JBool b) = b"
| "js_truthy (JNum x) = (x \<noteq> NaN \<and> x \<noteq> Fin 0)"
| "js_truthy (JBig i) = (i \<noteq> 0)"
| "js_truthy (JStr s) = (s \<noteq> [])"
| "js_truthy _ = True"

text \<open>
  \<^verbatim>\<open>obj[key]\<close>: an absent key reads as \<^verbatim>\<open>undefined\<close>; \<open>prop_of\<close> is the same on a value that
  may not be an object, as \<^verbatim>\<open>v?.[key]\<close> reads it.
\<close>

definition js_get :: "(string, jsval) omap \<Rightarrow> string \<Rightarrow> jsval" where
  "js_get m k = (case om_get m k of None \<Rightarrow> JUndef | Some v \<Rightarrow> v)"

fun prop_of :: "jsval \<Rightarrow> string \<Rightarrow> jsval" where
  "prop_of (JObj m) k = js_get m k"
| "prop_of _ k = JUndef"

lemma js_get_set [js_map]: "js_get (om_set k v m) x = (if x = k then v else js_get m x)"
  by (simp add: js_get_def om_get_set)

lemma js_get_has: "js_get m k \<noteq> JUndef \<Longrightarrow> om_has m k"
  by (auto simp: js_get_def om_has_def split: option.splits)

section \<open>Strings to numbers\<close>

text \<open>\<^verbatim>\<open>Number(s)\<close> on a string: the grammar of numeric literals, \<open>NaN\<close> where it does not match.\<close>

definition is_js_space :: "char \<Rightarrow> bool" where
  "is_js_space c \<longleftrightarrow> (of_char c :: nat) \<in> {9, 10, 11, 12, 13, 32}"

definition js_trim :: "string \<Rightarrow> string" where
  "js_trim s = rev (dropWhile is_js_space (rev (dropWhile is_js_space s)))"

definition digit_val :: "char \<Rightarrow> nat" where
  "digit_val c = (if is_digit c then of_char c - 48
                  else if is_lower c then of_char c - 87
                  else if is_upper c then of_char c - 55 else 99)"

definition digits_val :: "nat \<Rightarrow> string \<Rightarrow> nat" where
  "digits_val base s = fold (\<lambda>c n. n * base + digit_val c) s 0"

definition all_digits :: "nat \<Rightarrow> string \<Rightarrow> bool" where
  "all_digits base s \<longleftrightarrow> s \<noteq> [] \<and> list_all (\<lambda>c. digit_val c < base) s"

definition radix_num :: "nat \<Rightarrow> string \<Rightarrow> jsnum" where
  "radix_num base s = (if all_digits base s then Fin (of_nat (digits_val base s)) else NaN)"

definition signed :: "string \<Rightarrow> int \<times> string" where
  "signed s = (case s of c # cs \<Rightarrow> if c = CHR ''-'' then (-1, cs) else if c = CHR ''+'' then (1, cs) else (1, s)
                       | [] \<Rightarrow> (1, []))"

definition exponent_of :: "string \<Rightarrow> int option" where
  "exponent_of s = (case s of
      [] \<Rightarrow> Some 0
    | c # cs \<Rightarrow> if c = CHR ''e'' \<or> c = CHR ''E''
        then (case signed cs of (sg, ds) \<Rightarrow> if all_digits 10 ds then Some (sg * int (digits_val 10 ds)) else None)
        else None)"

definition scale10 :: "rat \<Rightarrow> int \<Rightarrow> rat" where
  "scale10 x e = (if 0 \<le> e then x * 10 ^ nat e else x / 10 ^ nat (- e))"

definition decimal_num :: "string \<Rightarrow> jsnum" where
  "decimal_num s =
    (case signed s of (sg, body) \<Rightarrow>
      if body = ''Infinity'' then (if sg = 1 then PosInf else NegInf)
      else
        let ints = takeWhile is_digit body; rest = dropWhile is_digit body;
            (fracs, rest') = (case rest of c # cs \<Rightarrow>
                if c = CHR ''.'' then (takeWhile is_digit cs, dropWhile is_digit cs) else ([], rest)
              | [] \<Rightarrow> ([], []))
        in if ints = [] \<and> fracs = [] then NaN
           else (case exponent_of rest' of
               None \<Rightarrow> NaN
             | Some e \<Rightarrow> Fin (of_int sg *
                 scale10 (of_nat (digits_val 10 (ints @ fracs))) (e - int (length fracs)))))"

definition js_Number :: "string \<Rightarrow> jsnum" where
  "js_Number s0 =
    (let s = js_trim s0 in
     if s = [] then Fin 0
     else case s of
       z # x # ds \<Rightarrow>
         if z = CHR ''0'' \<and> (x = CHR ''x'' \<or> x = CHR ''X'') then radix_num 16 ds
         else if z = CHR ''0'' \<and> (x = CHR ''o'' \<or> x = CHR ''O'') then radix_num 8 ds
         else if z = CHR ''0'' \<and> (x = CHR ''b'' \<or> x = CHR ''B'') then radix_num 2 ds
         else decimal_num s
     | _ \<Rightarrow> decimal_num s)"

text \<open>Integers as \<^verbatim>\<open>String(n)\<close> prints them.\<close>

fun nat_str :: "nat \<Rightarrow> string" where
  "nat_str n = (if n < 10 then [char_of (48 + n)] else nat_str (n div 10) @ [char_of (48 + n mod 10)])"

declare nat_str.simps [simp del]

definition int_str :: "int \<Rightarrow> string" where
  "int_str i = (if i < 0 then CHR ''-'' # nat_str (nat (- i)) else nat_str (nat i))"

text \<open>\<^verbatim>\<open>Number.isInteger(v)\<close> and \<^verbatim>\<open>Number.isSafeInteger(v)\<close>\<close>

fun js_isInteger :: "jsval \<Rightarrow> bool" where
  "js_isInteger (JNum (Fin q)) = (of_int \<lfloor>q\<rfloor> = q)"
| "js_isInteger _ = False"

fun num_in :: "rat \<Rightarrow> rat \<Rightarrow> jsval \<Rightarrow> bool" where
  "num_in lo hi (JNum (Fin q)) = (lo \<le> q \<and> q \<le> hi)"
| "num_in lo hi _ = False"

lemma js_isInteger_jint [simp]: "js_isInteger (jint i)"
  by simp

end
