(* ===== verification/Tasks.thy ===== *)
theory Tasks imports Values "HOL-Library.Multiset" begin

text \<open>
  Task definitions and their execution: argument names (\<^verbatim>\<open>core/src/arg-names.ts\<close>), the builders
  (\<^verbatim>\<open>task-builder.ts\<close>) and the task runner (\<^verbatim>\<open>task-runner.ts\<close>) with its argument preparation
  and the chain of overridden actions. The builder lemmas give the invariant that every public
  spelling of an argument belongs to one argument; the runner lemmas rest on it.
\<close>

section \<open>Argument names\<close>

definition to_lower :: "char \<Rightarrow> char" where
  "to_lower c = (if is_upper c then char_of (of_char c + (32 :: nat)) else c)"

definition camelToKebab :: "string \<Rightarrow> string" where
  "camelToKebab name = concat (map (\<lambda>ch. if is_upper ch then [CHR ''-'', to_lower ch] else [ch]) name)"

definition getPublicArgumentNames :: "string \<Rightarrow> string list" where
  "getPublicArgumentNames name = js_dedup [name, camelToKebab name]"

definition argumentFlagName :: "string \<Rightarrow> string" where
  "argumentFlagName name = (if length name = 1 then ''-'' @ name else ''--'' @ name)"

definition BUILT_IN_GLOBAL_ARGUMENT_NAMES :: "string list" where
  "BUILT_IN_GLOBAL_ARGUMENT_NAMES = [''config'', ''network'', ''prove'', ''verbose'', ''help'', ''version'']"

definition BUILT_IN_GLOBAL_ARGUMENT_ALIASES :: "(string, string list) omap" where
  "BUILT_IN_GLOBAL_ARGUMENT_ALIASES = [(''help'', [''h'']), (''version'', [''v''])]"

text \<open>The set is built by \<^verbatim>\<open>add\<close> calls; it is kept in insertion order.\<close>

definition getReservedBuiltInGlobalArgumentNames :: "string list" where
  "getReservedBuiltInGlobalArgumentNames =
    js_dedup (concat (map (\<lambda>name. getPublicArgumentNames name @
        (case om_get BUILT_IN_GLOBAL_ARGUMENT_ALIASES name of None \<Rightarrow> [] | Some aliases \<Rightarrow> aliases))
      BUILT_IN_GLOBAL_ARGUMENT_NAMES))"

section \<open>Task definitions\<close>

datatype argument_type = ArgSTRING | ArgINT | ArgBOOLEAN | ArgBIGINT | ArgFILE

text \<open>
  The declared type of an option: \<^verbatim>\<open>string\<close> or \<^verbatim>\<open>number\<close>, or \<^verbatim>\<open>boolean\<close> from an untyped
  caller, which the builder rejects.
\<close>

datatype option_type = TString | TNumber | TBoolean

record task_option =
  opt_name :: string
  opt_type :: option_type
  opt_defaultValue :: jsval
  opt_required :: bool

record task_flag =
  flag_name :: string

record task_positional =
  pos_name :: string
  pos_type :: argument_type
  pos_required :: bool
  pos_variadic :: bool

type_synonym args = "(string, jsval) omap"

datatype arg_kind = KOption | KFlag | KPositional

datatype task_error =
    TaskNotFound string
  | LreNotInitialized
  | BooleanOption string string
  | NameConflict string arg_kind string arg_kind string
  | ReservedName string arg_kind string string
  | NoAction string
  | OverrideNoAction string
  | CannotOverride string
  | AlreadyRegistered string
  | MissingOption string string
  | MissingPositional string string
  | ActionError string

text \<open>
  An action gets the prepared arguments and, when it overrides another one, \<^verbatim>\<open>runSuper\<close>; it
  acts on the state \<open>'s\<close> of the runtime environment.
\<close>

type_synonym 's outcome = "(task_error + jsval) \<times> 's"
type_synonym 's run_super = "args \<Rightarrow> 's \<Rightarrow> 's outcome"
type_synonym 's action = "args \<Rightarrow> 's run_super option \<Rightarrow> 's \<Rightarrow> 's outcome"

record 's task_def =
  td_id :: string
  td_description :: string
  td_action :: "'s action"
  td_options :: "task_option list option"
  td_flags :: "task_flag list option"
  td_positionalArguments :: "task_positional list option"
  td_overrides :: "string option"

definition or_empty :: "'a list option \<Rightarrow> 'a list" where
  "or_empty xs = (case xs of None \<Rightarrow> [] | Some ys \<Rightarrow> ys)"

abbreviation def_options :: "'s task_def \<Rightarrow> task_option list" where
  "def_options d \<equiv> or_empty (td_options d)"

abbreviation def_flags :: "'s task_def \<Rightarrow> task_flag list" where
  "def_flags d \<equiv> or_empty (td_flags d)"

abbreviation def_positionals :: "'s task_def \<Rightarrow> task_positional list" where
  "def_positionals d \<equiv> or_empty (td_positionalArguments d)"

section \<open>The builders\<close>

record 's task_builder =
  tb_id :: string
  tb_description :: string
  tb_action :: "'s action option"
  tb_options :: "task_option list"
  tb_flags :: "task_flag list"
  tb_positionals :: "task_positional list"
  tb_argumentNames :: "(string, arg_kind \<times> string) omap"

definition new_task_builder :: "string \<Rightarrow> string \<Rightarrow> 's task_builder" where
  "new_task_builder id' description = \<lparr>tb_id = id', tb_description = description, tb_action = None,
     tb_options = [], tb_flags = [], tb_positionals = [], tb_argumentNames = []\<rparr>"

definition registerArgumentName ::
    "arg_kind \<Rightarrow> string \<Rightarrow> 's task_builder \<Rightarrow> task_error + 's task_builder" where
  "registerArgumentName kind name b =
    (case List.map_filter (om_get (tb_argumentNames b)) (getPublicArgumentNames name) of
      (ekind, ename) # _ \<Rightarrow> Inl (NameConflict (tb_id b) kind name ekind ename)
    | [] \<Rightarrow> Inr (b\<lparr>tb_argumentNames :=
        fold (\<lambda>publicName m. om_set publicName (kind, name) m) (getPublicArgumentNames name)
          (tb_argumentNames b)\<rparr>))"

definition validateReservedBuiltInGlobalName ::
    "arg_kind \<Rightarrow> string \<Rightarrow> 's task_builder \<Rightarrow> task_error + unit" where
  "validateReservedBuiltInGlobalName kind name b =
    (case find (\<lambda>p. p \<in> set getReservedBuiltInGlobalArgumentNames) (getPublicArgumentNames name) of
      Some publicName \<Rightarrow> Inl (ReservedName (tb_id b) kind name (argumentFlagName publicName))
    | None \<Rightarrow> Inr ())"

definition addOption :: "task_option \<Rightarrow> 's task_builder \<Rightarrow> task_error + 's task_builder" where
  "addOption opt b =
    (if opt_type opt = TBoolean then Inl (BooleanOption (tb_id b) (opt_name opt))
     else bindR (validateReservedBuiltInGlobalName KOption (opt_name opt) b) (\<lambda>_.
          bindR (registerArgumentName KOption (opt_name opt) b) (\<lambda>b'.
          Inr (b'\<lparr>tb_options := tb_options b' @ [opt]\<rparr>))))"

definition addFlag :: "task_flag \<Rightarrow> 's task_builder \<Rightarrow> task_error + 's task_builder" where
  "addFlag flag b =
     bindR (validateReservedBuiltInGlobalName KFlag (flag_name flag) b) (\<lambda>_.
     bindR (registerArgumentName KFlag (flag_name flag) b) (\<lambda>b'.
     Inr (b'\<lparr>tb_flags := tb_flags b' @ [flag]\<rparr>)))"

definition addPositionalArgument ::
    "task_positional \<Rightarrow> 's task_builder \<Rightarrow> task_error + 's task_builder" where
  "addPositionalArgument arg b =
     bindR (registerArgumentName KPositional (pos_name arg) b) (\<lambda>b'.
     Inr (b'\<lparr>tb_positionals := tb_positionals b' @ [arg]\<rparr>))"

definition setAction :: "'s action \<Rightarrow> 's task_builder \<Rightarrow> 's task_builder" where
  "setAction action b = b\<lparr>tb_action := Some action\<rparr>"

definition list_or_undefined :: "'a list \<Rightarrow> 'a list option" where
  "list_or_undefined xs = (if 0 < length xs then Some xs else None)"

definition build_task :: "'s task_builder \<Rightarrow> task_error + 's task_def" where
  "build_task b =
    (case tb_action b of
      None \<Rightarrow> Inl (NoAction (tb_id b))
    | Some action \<Rightarrow> Inr \<lparr>td_id = tb_id b, td_description = tb_description b, td_action = action,
        td_options = list_or_undefined (tb_options b), td_flags = list_or_undefined (tb_flags b),
        td_positionalArguments = list_or_undefined (tb_positionals b), td_overrides = None\<rparr>)"

definition build_override :: "string \<Rightarrow> 's action option \<Rightarrow> task_error + 's task_def" where
  "build_override id' act =
    (case act of
      None \<Rightarrow> Inl (OverrideNoAction id')
    | Some action \<Rightarrow> Inr \<lparr>td_id = id', td_description = [], td_action = action, td_options = None,
        td_flags = None, td_positionalArguments = None, td_overrides = Some id'\<rparr>)"

text \<open>The calls a task file makes on a builder.\<close>

datatype 's builder_call =
  AddOption task_option | AddFlag task_flag | AddPositional task_positional | SetAction "'s action"

fun do_call :: "'s task_builder \<Rightarrow> 's builder_call \<Rightarrow> task_error + 's task_builder" where
  "do_call b (AddOption opt) = addOption opt b"
| "do_call b (AddFlag flag) = addFlag flag b"
| "do_call b (AddPositional arg) = addPositionalArgument arg b"
| "do_call b (SetAction act) = Inr (setAction act b)"

section \<open>Preparing arguments\<close>

record canonical =
  can_name :: string
  can_type :: "option_type option"

definition claim_names :: "string \<Rightarrow> canonical \<Rightarrow> (string, canonical) omap \<Rightarrow> (string, canonical) omap" where
  "claim_names name c m = fold (\<lambda>publicName m. om_set publicName c m) (getPublicArgumentNames name) m"

definition claim_free_names :: "string \<Rightarrow> canonical \<Rightarrow> (string, canonical) omap \<Rightarrow> (string, canonical) omap" where
  "claim_free_names name c m =
    fold (\<lambda>publicName m. if om_has m publicName then m else om_set publicName c m) (getPublicArgumentNames name) m"

definition canonicalMap :: "'s task_def \<Rightarrow> (string, canonical) omap" where
  "canonicalMap d =
    fold (\<lambda>p. claim_free_names (pos_name p) \<lparr>can_name = pos_name p, can_type = None\<rparr>) (def_positionals d)
     (fold (\<lambda>f. claim_names (flag_name f) \<lparr>can_name = flag_name f, can_type = Some TBoolean\<rparr>) (def_flags d)
       (fold (\<lambda>opt. claim_names (opt_name opt) \<lparr>can_name = opt_name opt, can_type = Some (opt_type opt)\<rparr>)
         (def_options d) []))"

fun coerce :: "option_type option \<Rightarrow> jsval \<Rightarrow> jsval" where
  "coerce (Some TNumber) (JStr s) = (let num = js_Number s in if num = NaN then JStr s else JNum num)"
| "coerce _ v = v"

definition normalize_entry :: "'s task_def \<Rightarrow> string \<times> jsval \<Rightarrow> string \<times> jsval" where
  "normalize_entry d kv =
    (case om_get (canonicalMap d) (fst kv) of
      Some c \<Rightarrow> (can_name c, coerce (can_type c) (snd kv))
    | None \<Rightarrow> kv)"

definition normalizeArgs :: "'s task_def \<Rightarrow> args \<Rightarrow> args" where
  "normalizeArgs d args =
    fold (\<lambda>kv m. case normalize_entry d kv of (k, v) \<Rightarrow> om_set k v m) args []"

definition merge_option :: "task_option \<Rightarrow> args \<Rightarrow> args" where
  "merge_option opt merged =
    (if \<not> om_has merged (opt_name opt) \<and> opt_defaultValue opt \<noteq> JUndef
     then om_set (opt_name opt) (opt_defaultValue opt) merged else merged)"

definition merge_flag :: "task_flag \<Rightarrow> args \<Rightarrow> args" where
  "merge_flag flag merged =
    (if \<not> om_has merged (flag_name flag) then om_set (flag_name flag) (JBool False) merged else merged)"

definition mergeDefaults :: "'s task_def \<Rightarrow> args \<Rightarrow> args" where
  "mergeDefaults d args = fold merge_flag (def_flags d) (fold merge_option (def_options d) args)"

definition enforceRequiredOptions :: "'s task_def \<Rightarrow> args \<Rightarrow> task_error + unit" where
  "enforceRequiredOptions d args =
    (case find (\<lambda>opt. opt_required opt \<and> js_get args (opt_name opt) = JUndef) (def_options d) of
      Some opt \<Rightarrow> Inl (MissingOption (td_id d) (argumentFlagName (opt_name opt)))
    | None \<Rightarrow> Inr ())"

definition positional_values :: "args \<Rightarrow> jsval list" where
  "positional_values args = (case js_get args ''_positional'' of JArr xs \<Rightarrow> xs | _ \<Rightarrow> [])"

text \<open>The loop over the declared positionals: the record being filled and the cursor.\<close>

definition bind_positional ::
    "string \<Rightarrow> jsval list \<Rightarrow> args \<times> nat \<Rightarrow> task_positional \<Rightarrow> task_error + args \<times> nat" where
  "bind_positional id' vals st p =
    (case st of (result, cursor) \<Rightarrow>
      let (result', cursor') =
        (if \<not> om_has result (pos_name p) \<and> cursor < length vals
         then (om_set (pos_name p) (if pos_variadic p then JArr (drop cursor vals) else vals ! cursor) result,
               if pos_variadic p then length vals else cursor + 1)
         else (result, cursor))
      in if pos_required p \<and> js_get result' (pos_name p) = JUndef
         then Inl (MissingPositional id' (pos_name p))
         else Inr (result', cursor'))"

definition applyPositionalArguments :: "'s task_def \<Rightarrow> args \<Rightarrow> task_error + args" where
  "applyPositionalArguments d args =
    (case td_positionalArguments d of
      None \<Rightarrow> Inr args
    | Some defs \<Rightarrow>
        if length defs = 0 then Inr args
        else bindR (foldR (bind_positional (td_id d) (positional_values args)) (args, 0) defs)
               (\<lambda>st. Inr (fst st)))"

definition prepareArgs :: "'s task_def \<Rightarrow> args \<Rightarrow> task_error + args" where
  "prepareArgs d args =
    (let merged = mergeDefaults d (normalizeArgs d args) in
     bindR (enforceRequiredOptions d merged) (\<lambda>_. applyPositionalArguments d merged))"

section \<open>The task runner\<close>

record 's registered_task =
  rt_definition :: "'s task_def"
  rt_overrideChain :: "'s action list"

record 's task_runner =
  tr_tasks :: "(string, 's registered_task) omap"
  tr_lre :: bool
  tr_hasStartedTask :: bool
  tr_log :: "string list"

definition new_task_runner :: "'s task_runner" where
  "new_task_runner = \<lparr>tr_tasks = [], tr_lre = False, tr_hasStartedTask = False, tr_log = []\<rparr>"

definition setLre :: "'s task_runner \<Rightarrow> 's task_runner" where
  "setLre tr = tr\<lparr>tr_lre := True\<rparr>"

definition stack_override :: "'s task_def \<Rightarrow> 's registered_task \<Rightarrow> 's registered_task" where
  "stack_override d existing = existing\<lparr>
     rt_overrideChain := td_action (rt_definition existing) # rt_overrideChain existing,
     rt_definition := (rt_definition existing)\<lparr>
       td_action := td_action d,
       td_description := (if td_description d \<noteq> [] then td_description d
                          else td_description (rt_definition existing))\<rparr>\<rparr>"

text \<open>\<^verbatim>\<open>def.overrides\<close> is tested for truth, so an empty string is a new task.\<close>

definition registerTask :: "'s task_runner \<Rightarrow> 's task_def \<Rightarrow> task_error + 's task_runner" where
  "registerTask tr d =
    (case td_overrides d of
      Some target \<Rightarrow>
        if target \<noteq> [] then
          (case om_get (tr_tasks tr) target of
            None \<Rightarrow> Inl (CannotOverride target)
          | Some existing \<Rightarrow> Inr (tr\<lparr>tr_tasks := om_set target (stack_override d existing) (tr_tasks tr)\<rparr>))
        else if om_has (tr_tasks tr) (td_id d) then Inl (AlreadyRegistered (td_id d))
        else Inr (tr\<lparr>tr_tasks := om_set (td_id d) \<lparr>rt_definition = d, rt_overrideChain = []\<rparr> (tr_tasks tr)\<rparr>)
    | None \<Rightarrow>
        if om_has (tr_tasks tr) (td_id d) then Inl (AlreadyRegistered (td_id d))
        else Inr (tr\<lparr>tr_tasks := om_set (td_id d) \<lparr>rt_definition = d, rt_overrideChain = []\<rparr> (tr_tasks tr)\<rparr>))"

definition registerTasks :: "'s task_runner \<Rightarrow> 's task_def list \<Rightarrow> task_error + 's task_runner" where
  "registerTasks tr defs = foldR registerTask tr defs"

definition getTaskIds :: "'s task_runner \<Rightarrow> string list" where
  "getTaskIds tr = om_keys (tr_tasks tr)"

definition getTaskDefinition :: "'s task_runner \<Rightarrow> string \<Rightarrow> 's task_def option" where
  "getTaskDefinition tr taskId = map_option rt_definition (om_get (tr_tasks tr) taskId)"

text \<open>\<^verbatim>\<open>divider\<close> is what \<^verbatim>\<open>shouldRenderDivider()\<close> says of the terminal.\<close>

definition logTaskStart :: "bool \<Rightarrow> string \<Rightarrow> 's task_runner \<Rightarrow> 's task_runner" where
  "logTaskStart divider taskId tr = tr\<lparr>
     tr_log := tr_log tr @ (if tr_hasStartedTask tr \<and> divider then [''divider''] else []) @ [taskId],
     tr_hasStartedTask := True\<rparr>"

text \<open>
  \<^verbatim>\<open>buildRunSuper(chain, index, ..)\<close> on the part of the chain from \<^verbatim>\<open>index\<close> on, which is
  never empty when it is called.
\<close>

fun buildRunSuper :: "'s task_def \<Rightarrow> 's action list \<Rightarrow> 's run_super" where
  "buildRunSuper d [] args s = (Inl (ActionError ''undefined is not a function''), s)"
| "buildRunSuper d (action # chain) args s =
    (case prepareArgs d args of
      Inl e \<Rightarrow> (Inl e, s)
    | Inr prepared \<Rightarrow> action prepared (if chain \<noteq> [] then Some (buildRunSuper d chain) else None) s)"

definition run_task ::
    "bool \<Rightarrow> 's task_runner \<Rightarrow> string \<Rightarrow> args \<Rightarrow> 's \<Rightarrow> 's outcome \<times> 's task_runner" where
  "run_task divider tr taskId args s =
    (case om_get (tr_tasks tr) taskId of
      None \<Rightarrow> ((Inl (TaskNotFound taskId), s), tr)
    | Some registered \<Rightarrow>
        if \<not> tr_lre tr then ((Inl LreNotInitialized, s), tr)
        else (case prepareArgs (rt_definition registered) args of
            Inl e \<Rightarrow> ((Inl e, s), tr)
          | Inr finalArgs \<Rightarrow>
              (if 0 < length (rt_overrideChain registered)
               then td_action (rt_definition registered) finalArgs
                      (Some (buildRunSuper (rt_definition registered) (rt_overrideChain registered))) s
               else td_action (rt_definition registered) finalArgs None s,
               logTaskStart divider taskId tr)))"

section \<open>Public spellings\<close>

lemma public_self [simp]: "name \<in> set (getPublicArgumentNames name)"
  by (simp add: getPublicArgumentNames_def)

lemma public_distinct [simp]: "distinct (getPublicArgumentNames name)"
  by (simp only: getPublicArgumentNames_def distinct_js_dedup)

lemma om_set_fresh: "k \<notin> set (om_keys m) \<Longrightarrow> om_set k v m = m @ [(k, v)]"
  by (induction m) auto

lemma fold_om_set_fresh:
  "distinct (om_keys m @ ps) \<Longrightarrow> fold (\<lambda>p m. om_set p v m) ps m = m @ map (\<lambda>p. (p, v)) ps"
  by (induction ps arbitrary: m) (simp_all add: om_set_fresh)

lemma fold_om_set_free:
  "distinct (om_keys m @ ps) \<Longrightarrow>
    fold (\<lambda>p m. if om_has m p then m else om_set p v m) ps m = m @ map (\<lambda>p. (p, v)) ps"
  by (induction ps arbitrary: m) (simp_all add: om_set_fresh om_has_dom)

definition arg_names :: "'s task_def \<Rightarrow> string list" where
  "arg_names d = map opt_name (def_options d) @ map flag_name (def_flags d) @ map pos_name (def_positionals d)"

text \<open>Every public spelling belongs to one declared argument.\<close>

definition unambiguous :: "'s task_def \<Rightarrow> bool" where
  "unambiguous d \<longleftrightarrow> distinct (concat (map getPublicArgumentNames (arg_names d)))"

definition spellings :: "('x \<Rightarrow> string) \<Rightarrow> ('x \<Rightarrow> canonical) \<Rightarrow> 'x list \<Rightarrow> (string, canonical) omap" where
  "spellings nm c xs = concat (map (\<lambda>x. map (\<lambda>p. (p, c x)) (getPublicArgumentNames (nm x))) xs)"

lemma spellings_keys [simp]: "om_keys (spellings nm c xs) = concat (map (\<lambda>x. getPublicArgumentNames (nm x)) xs)"
  by (simp add: spellings_def map_concat comp_def)

lemma mem_spellings:
  "(\<And>x. can_name (c x) = nm x) \<Longrightarrow>
    (k, c') \<in> set (spellings nm c xs) \<longleftrightarrow> c' \<in> c ` set xs \<and> k \<in> set (getPublicArgumentNames (can_name c'))"
  by (auto simp: spellings_def image_iff)

lemma fold_claim:
  "distinct (om_keys m @ concat (map (\<lambda>x. getPublicArgumentNames (nm x)) xs)) \<Longrightarrow>
    fold (\<lambda>x. claim_names (nm x) (c x)) xs m = m @ spellings nm c xs"
proof (induction xs arbitrary: m)
  case (Cons x xs)
  then have "claim_names (nm x) (c x) m = m @ map (\<lambda>p. (p, c x)) (getPublicArgumentNames (nm x))"
    unfolding claim_names_def by (intro fold_om_set_fresh) auto
  moreover have "distinct (om_keys (m @ map (\<lambda>p. (p, c x)) (getPublicArgumentNames (nm x)))
      @ concat (map (\<lambda>x. getPublicArgumentNames (nm x)) xs))"
    using Cons.prems by (auto simp: comp_def)
  moreover from this have "fold (\<lambda>x. claim_names (nm x) (c x)) xs
      (m @ map (\<lambda>p. (p, c x)) (getPublicArgumentNames (nm x)))
    = (m @ map (\<lambda>p. (p, c x)) (getPublicArgumentNames (nm x))) @ spellings nm c xs"
    by (rule Cons.IH)
  ultimately show ?case by (simp add: spellings_def)
qed (simp add: spellings_def)

lemma fold_claim_free:
  "distinct (om_keys m @ concat (map (\<lambda>x. getPublicArgumentNames (nm x)) xs)) \<Longrightarrow>
    fold (\<lambda>x. claim_free_names (nm x) (c x)) xs m = m @ spellings nm c xs"
proof (induction xs arbitrary: m)
  case (Cons x xs)
  then have "claim_free_names (nm x) (c x) m = m @ map (\<lambda>p. (p, c x)) (getPublicArgumentNames (nm x))"
    unfolding claim_free_names_def by (intro fold_om_set_free) auto
  moreover have "distinct (om_keys (m @ map (\<lambda>p. (p, c x)) (getPublicArgumentNames (nm x)))
      @ concat (map (\<lambda>x. getPublicArgumentNames (nm x)) xs))"
    using Cons.prems by (auto simp: comp_def)
  moreover from this have "fold (\<lambda>x. claim_free_names (nm x) (c x)) xs
      (m @ map (\<lambda>p. (p, c x)) (getPublicArgumentNames (nm x)))
    = (m @ map (\<lambda>p. (p, c x)) (getPublicArgumentNames (nm x))) @ spellings nm c xs"
    by (rule Cons.IH)
  ultimately show ?case by (simp add: spellings_def)
qed (simp add: spellings_def)

abbreviation opt_canonical :: "task_option \<Rightarrow> canonical" where
  "opt_canonical opt \<equiv> \<lparr>can_name = opt_name opt, can_type = Some (opt_type opt)\<rparr>"

abbreviation flag_canonical :: "task_flag \<Rightarrow> canonical" where
  "flag_canonical f \<equiv> \<lparr>can_name = flag_name f, can_type = Some TBoolean\<rparr>"

abbreviation pos_canonical :: "task_positional \<Rightarrow> canonical" where
  "pos_canonical p \<equiv> \<lparr>can_name = pos_name p, can_type = None\<rparr>"

lemma canonicalMap_spellings:
  assumes "unambiguous d"
  shows "canonicalMap d = spellings opt_name opt_canonical (def_options d)
    @ spellings flag_name flag_canonical (def_flags d) @ spellings pos_name pos_canonical (def_positionals d)"
proof -
  have opts: "fold (\<lambda>opt. claim_names (opt_name opt) (opt_canonical opt)) (def_options d) []
      = spellings opt_name opt_canonical (def_options d)"
    using assms by (subst fold_claim) (auto simp: unambiguous_def arg_names_def comp_def)
  have flags: "fold (\<lambda>f. claim_names (flag_name f) (flag_canonical f)) (def_flags d)
      (spellings opt_name opt_canonical (def_options d))
      = spellings opt_name opt_canonical (def_options d) @ spellings flag_name flag_canonical (def_flags d)"
    using assms by (intro fold_claim) (auto simp: unambiguous_def arg_names_def comp_def)
  show ?thesis unfolding canonicalMap_def opts flags
    using assms by (subst fold_claim_free) (auto simp: unambiguous_def arg_names_def comp_def)
qed

text \<open>Under it, an argument's canonical entry is found under each of its spellings, and nothing else is.\<close>

definition canonicals :: "'s task_def \<Rightarrow> canonical set" where
  "canonicals d = opt_canonical ` set (def_options d) \<union> flag_canonical ` set (def_flags d)
    \<union> pos_canonical ` set (def_positionals d)"

lemma canonicalMap_iff:
  assumes "unambiguous d"
  shows "om_get (canonicalMap d) k = Some c \<longleftrightarrow> c \<in> canonicals d \<and> k \<in> set (getPublicArgumentNames (can_name c))"
proof -
  have "distinct (om_keys (canonicalMap d))"
    using assms by (simp add: canonicalMap_spellings unambiguous_def arg_names_def comp_def)
  then have "om_get (canonicalMap d) k = Some c \<longleftrightarrow> (k, c) \<in> set (canonicalMap d)" by simp
  moreover have "(k, c) \<in> set (canonicalMap d)
      \<longleftrightarrow> c \<in> canonicals d \<and> k \<in> set (getPublicArgumentNames (can_name c))"
    unfolding canonicalMap_spellings [OF assms] by (auto simp: mem_spellings canonicals_def)
  ultimately show ?thesis by blast
qed

lemma coerce_idem [simp]: "coerce t (coerce t v) = coerce t v"
  by (cases "(t, v)" rule: coerce.cases) (auto simp: Let_def)

lemma normalize_entry_idem:
  assumes "unambiguous d"
  shows "normalize_entry d (normalize_entry d kv) = normalize_entry d kv"
proof (cases "om_get (canonicalMap d) (fst kv)")
  case None
  then show ?thesis by (simp add: normalize_entry_def)
next
  case (Some c)
  then have "om_get (canonicalMap d) (can_name c) = Some c"
    using assms by (simp add: canonicalMap_iff)
  then show ?thesis using Some by (simp add: normalize_entry_def)
qed


section \<open>Normalisation and defaults\<close>

lemma normalizeArgs_entries:
  "set (normalizeArgs d args) \<subseteq> range (normalize_entry d)"
proof -
  have "set (fold (\<lambda>kv m. case normalize_entry d kv of (k, v) \<Rightarrow> om_set k v m) args m) \<subseteq> range (normalize_entry d)"
    if "set m \<subseteq> range (normalize_entry d)" for m
    using that
  proof (induction args arbitrary: m)
    case (Cons kv args)
    obtain k v where kv: "normalize_entry d kv = (k, v)" by fastforce
    then have "set (om_set k v m) \<subseteq> range (normalize_entry d)"
      using set_om_set [of k v m] Cons.prems rangeI [of "normalize_entry d" kv] by auto
    then show ?case using Cons.IH kv by simp
  qed simp
  then show ?thesis by (simp add: normalizeArgs_def)
qed

lemma normalizeArgs_distinct: "distinct (om_keys (normalizeArgs d args))"
proof -
  have "distinct (om_keys (fold (\<lambda>kv m. case normalize_entry d kv of (k, v) \<Rightarrow> om_set k v m) args m))"
    if "distinct (om_keys m)" for m
    using that
  proof (induction args arbitrary: m)
    case (Cons kv args)
    then show ?case by (cases "normalize_entry d kv") (simp add: distinct_om_set )
  qed simp
  then show ?thesis by (simp add: normalizeArgs_def)
qed

lemma normalizeArgs_fixed:
  assumes "\<And>kv. kv \<in> set args \<Longrightarrow> normalize_entry d kv = kv" and "distinct (om_keys args)"
  shows "normalizeArgs d args = args"
proof -
  have "fold (\<lambda>kv m. case normalize_entry d kv of (k, v) \<Rightarrow> om_set k v m) xs m = m @ xs"
    if "\<And>kv. kv \<in> set xs \<Longrightarrow> normalize_entry d kv = kv" "distinct (om_keys (m @ xs))" for xs m
    using that
  proof (induction xs arbitrary: m)
    case (Cons kv xs)
    obtain k v where kv: "kv = (k, v)" by fastforce
    have "om_set k v m = m @ [(k, v)]" using Cons.prems(2) kv by (intro om_set_fresh) auto
    then show ?case using Cons kv by simp
  qed simp
  then show ?thesis using assms by (simp add: normalizeArgs_def)
qed

text \<open>Steps that only fill absent names: what is there stays.\<close>

definition extends :: "args \<Rightarrow> args \<Rightarrow> bool" where
  "extends m m' \<longleftrightarrow> (\<forall>k. om_has m k \<longrightarrow> om_get m' k = om_get m k)"

lemma extends_refl [simp]: "extends m m"
  by (simp add: extends_def)

lemma extends_trans: "extends m m' \<Longrightarrow> extends m' m'' \<Longrightarrow> extends m m''"
  by (simp add: extends_def om_has_def)

lemma extends_set: "\<not> om_has m k \<Longrightarrow> extends m (om_set k v m)"
  by (auto simp: extends_def om_get_set)

lemma extends_has: "extends m m' \<Longrightarrow> om_has m k \<Longrightarrow> om_has m' k"
  by (simp add: extends_def om_has_def)

lemma extends_get: "extends m m' \<Longrightarrow> js_get m k \<noteq> JUndef \<Longrightarrow> js_get m' k = js_get m k"
  by (auto simp: extends_def js_get_def om_has_def split: option.splits)

lemma extends_fold:
  "(\<And>x m. extends m (f x m)) \<Longrightarrow> extends m (fold f xs m)"
  by (induction xs arbitrary: m) (auto intro: extends_trans)

lemma merge_option_extends: "extends m (merge_option opt m)"
  by (simp add: merge_option_def extends_set)

lemma merge_flag_extends: "extends m (merge_flag flag m)"
  by (simp add: merge_flag_def extends_set)

lemma mergeDefaults_extends: "extends m (mergeDefaults d m)"
  unfolding mergeDefaults_def
  by (blast intro: extends_trans extends_fold merge_option_extends merge_flag_extends)

lemma fold_fills:
  assumes ext: "\<And>x m. extends m (f x m)" and fill: "\<And>m. om_has (f x m) k" and "x \<in> set xs"
  shows "om_has (fold f xs m) k"
  using assms(3)
proof (induction xs arbitrary: m)
  case (Cons y xs)
  then show ?case
    using extends_has [OF extends_fold [OF ext] fill] by (cases "x = y") auto
qed simp

lemma mergeDefaults_flag: "flag \<in> set (def_flags d) \<Longrightarrow> om_has (mergeDefaults d m) (flag_name flag)"
  unfolding mergeDefaults_def
  by (rule fold_fills [OF merge_flag_extends, where x = flag]) (auto simp: merge_flag_def om_has_set)

lemma mergeDefaults_option:
  assumes "opt \<in> set (def_options d)" and "opt_defaultValue opt \<noteq> JUndef"
  shows "om_has (mergeDefaults d m) (opt_name opt)"
proof -
  have "om_has (fold merge_option (def_options d) m) (opt_name opt)"
    by (rule fold_fills [OF merge_option_extends, where x = opt])
      (use assms in \<open>auto simp: merge_option_def om_has_set\<close>)
  then show ?thesis
    unfolding mergeDefaults_def using extends_fold [of merge_flag] merge_flag_extends extends_has by blast
qed

lemma mergeDefaults_id:
  assumes "\<And>opt. opt \<in> set (def_options d) \<Longrightarrow> opt_defaultValue opt \<noteq> JUndef \<Longrightarrow> om_has m (opt_name opt)"
    and "\<And>flag. flag \<in> set (def_flags d) \<Longrightarrow> om_has m (flag_name flag)"
  shows "mergeDefaults d m = m"
proof -
  have "fold merge_option xs m = m" if "set xs \<subseteq> set (def_options d)" for xs
    using that by (induction xs) (auto simp: merge_option_def assms(1))
  moreover have "fold merge_flag xs m = m" if "set xs \<subseteq> set (def_flags d)" for xs
    using that by (induction xs) (auto simp: merge_flag_def assms(2))
  ultimately show ?thesis by (simp add: mergeDefaults_def)
qed

section \<open>Positional arguments\<close>

lemma bind_positional_step:
  assumes "bind_positional id' vals (m, c) p = Inr (m', c')"
  shows "extends m m'" and "pos_required p \<Longrightarrow> js_get m' (pos_name p) \<noteq> JUndef"
    and "set m' \<subseteq> set m \<union> {pos_name p} \<times> UNIV" and "distinct (om_keys m) \<Longrightarrow> distinct (om_keys m')"
  using assms set_om_set [of "pos_name p"]
  by (fastforce simp: bind_positional_def Let_def extends_set distinct_om_set split: if_splits)+

lemma bind_positionals:
  assumes "foldR (bind_positional id' vals) (m, c) ps = Inr (m', c')"
  shows "extends m m'" and "\<And>p. p \<in> set ps \<Longrightarrow> pos_required p \<Longrightarrow> js_get m' (pos_name p) \<noteq> JUndef"
    and "set m' \<subseteq> set m \<union> (pos_name ` set ps) \<times> UNIV" and "distinct (om_keys m) \<Longrightarrow> distinct (om_keys m')"
proof -
  have "extends m m' \<and> (\<forall>p \<in> set ps. pos_required p \<longrightarrow> js_get m' (pos_name p) \<noteq> JUndef)
      \<and> set m' \<subseteq> set m \<union> (pos_name ` set ps) \<times> UNIV \<and> (distinct (om_keys m) \<longrightarrow> distinct (om_keys m'))"
    using assms
  proof (induction ps arbitrary: m c)
    case (Cons p ps)
    then obtain m1 c1 where step: "bind_positional id' vals (m, c) p = Inr (m1, c1)"
      and rest: "foldR (bind_positional id' vals) (m1, c1) ps = Inr (m', c')" by auto
    note IH = Cons.IH [OF rest]
    have "pos_required p \<longrightarrow> js_get m' (pos_name p) \<noteq> JUndef"
      using IH bind_positional_step(2) [OF step] by (auto simp: extends_get)
    moreover have "set m' \<subseteq> set m \<union> (pos_name ` set (p # ps)) \<times> UNIV"
      using IH bind_positional_step(3) [OF step] by fastforce
    ultimately show ?case
      using IH bind_positional_step(1) [OF step] bind_positional_step(4) [OF step] extends_trans by auto
  qed simp
  then show "extends m m'" and "\<And>p. p \<in> set ps \<Longrightarrow> pos_required p \<Longrightarrow> js_get m' (pos_name p) \<noteq> JUndef"
    and "set m' \<subseteq> set m \<union> (pos_name ` set ps) \<times> UNIV" and "distinct (om_keys m) \<Longrightarrow> distinct (om_keys m')"
    by blast+
qed

lemma bind_positionals_id:
  assumes "\<And>p. p \<in> set ps \<Longrightarrow> om_has m (pos_name p) \<or> vals = []"
    and "\<And>p. p \<in> set ps \<Longrightarrow> pos_required p \<Longrightarrow> js_get m (pos_name p) \<noteq> JUndef"
  shows "foldR (bind_positional id' vals) (m, c) ps = Inr (m, c)"
  using assms
proof (induction ps)
  case (Cons p ps)
  have "om_has m (pos_name p) \<or> vals = []" "pos_required p \<Longrightarrow> js_get m (pos_name p) \<noteq> JUndef"
    using Cons.prems by simp_all
  then have "bind_positional id' vals (m, c) p = Inr (m, c)"
    by (auto simp: bind_positional_def Let_def)
  moreover have "foldR (bind_positional id' vals) (m, c) ps = Inr (m, c)"
    using Cons.prems by (intro Cons.IH) simp_all
  ultimately show ?case by simp
qed simp

lemma applyPositionalArguments_foldR:
  "applyPositionalArguments d m =
    bindR (foldR (bind_positional (td_id d) (positional_values m)) (m, 0) (def_positionals d)) (\<lambda>st. Inr (fst st))"
  by (simp add: applyPositionalArguments_def or_empty_def split: option.splits)

lemma applyPositional_facts:
  assumes "applyPositionalArguments d m = Inr r"
  shows "extends m r" and "\<And>p. p \<in> set (def_positionals d) \<Longrightarrow> pos_required p \<Longrightarrow> js_get r (pos_name p) \<noteq> JUndef"
    and "set r \<subseteq> set m \<union> (pos_name ` set (def_positionals d)) \<times> UNIV"
    and "distinct (om_keys m) \<Longrightarrow> distinct (om_keys r)"
proof -
  obtain c where f: "foldR (bind_positional (td_id d) (positional_values m)) (m, 0) (def_positionals d) = Inr (r, c)"
    using assms unfolding applyPositionalArguments_foldR by auto
  show "extends m r" and "\<And>p. p \<in> set (def_positionals d) \<Longrightarrow> pos_required p \<Longrightarrow> js_get r (pos_name p) \<noteq> JUndef"
    and "set r \<subseteq> set m \<union> (pos_name ` set (def_positionals d)) \<times> UNIV"
    and "distinct (om_keys m) \<Longrightarrow> distinct (om_keys r)"
    using bind_positionals [OF f] by blast+
qed

section \<open>Prepared arguments\<close>

lemma enforceRequiredOptions_ok:
  "enforceRequiredOptions d m = Inr u \<longleftrightarrow>
    (\<forall>opt \<in> set (def_options d). opt_required opt \<longrightarrow> js_get m (opt_name opt) \<noteq> JUndef)"
  by (auto simp: enforceRequiredOptions_def find_None_iff find_Some_iff split: option.splits)

lemma prepareArgs_Inr:
  "prepareArgs d args = Inr r \<longleftrightarrow>
    (\<forall>opt \<in> set (def_options d). opt_required opt \<longrightarrow>
       js_get (mergeDefaults d (normalizeArgs d args)) (opt_name opt) \<noteq> JUndef)
    \<and> applyPositionalArguments d (mergeDefaults d (normalizeArgs d args)) = Inr r"
  using enforceRequiredOptions_ok [of d "mergeDefaults d (normalizeArgs d args)"]
  by (auto simp: prepareArgs_def Let_def)

lemma prepareArgs_complete_lemma:
  assumes "prepareArgs d args = Inr r"
  shows "\<And>opt. opt \<in> set (def_options d) \<Longrightarrow> opt_required opt \<Longrightarrow> js_get r (opt_name opt) \<noteq> JUndef"
    and "\<And>opt. opt \<in> set (def_options d) \<Longrightarrow> opt_defaultValue opt \<noteq> JUndef \<Longrightarrow> om_has r (opt_name opt)"
    and "\<And>flag. flag \<in> set (def_flags d) \<Longrightarrow> om_has r (flag_name flag)"
    and "\<And>p. p \<in> set (def_positionals d) \<Longrightarrow> pos_required p \<Longrightarrow> js_get r (pos_name p) \<noteq> JUndef"
    and "extends (normalizeArgs d args) r"
proof -
  let ?m = "mergeDefaults d (normalizeArgs d args)"
  have app: "applyPositionalArguments d ?m = Inr r"
    and req: "\<And>opt. opt \<in> set (def_options d) \<Longrightarrow> opt_required opt \<Longrightarrow> js_get ?m (opt_name opt) \<noteq> JUndef"
    using assms by (auto simp: prepareArgs_Inr)
  note ext = applyPositional_facts(1) [OF app]
  show "\<And>opt. opt \<in> set (def_options d) \<Longrightarrow> opt_required opt \<Longrightarrow> js_get r (opt_name opt) \<noteq> JUndef"
    using req extends_get [OF ext] by simp
  show "\<And>opt. opt \<in> set (def_options d) \<Longrightarrow> opt_defaultValue opt \<noteq> JUndef \<Longrightarrow> om_has r (opt_name opt)"
    using mergeDefaults_option extends_has [OF ext] by blast
  show "\<And>flag. flag \<in> set (def_flags d) \<Longrightarrow> om_has r (flag_name flag)"
    using mergeDefaults_flag extends_has [OF ext] by blast
  show "\<And>p. p \<in> set (def_positionals d) \<Longrightarrow> pos_required p \<Longrightarrow> js_get r (pos_name p) \<noteq> JUndef"
    by (rule applyPositional_facts(2) [OF app])
  show "extends (normalizeArgs d args) r"
    using mergeDefaults_extends ext by (rule extends_trans)
qed

text \<open>The defaults of number options are not numerals written as strings.\<close>

definition settled_defaults :: "'s task_def \<Rightarrow> bool" where
  "settled_defaults d \<longleftrightarrow>
    (\<forall>opt \<in> set (def_options d). coerce (Some (opt_type opt)) (opt_defaultValue opt) = opt_defaultValue opt)"

lemma entries_fold:
  assumes "\<And>x m. x \<in> set xs \<Longrightarrow> set (f x m) \<subseteq> set m \<union> A"
  shows "set (fold f xs m) \<subseteq> set m \<union> A"
  using assms
proof (induction xs arbitrary: m)
  case (Cons x xs)
  have "set (fold f xs (f x m)) \<subseteq> set (f x m) \<union> A"
    using Cons.prems by (intro Cons.IH) simp
  moreover have "set (f x m) \<subseteq> set m \<union> A" using Cons.prems by simp
  ultimately show ?case by auto
qed simp

lemma mergeDefaults_entries:
  "set (mergeDefaults d m) \<subseteq> set m \<union> ((\<lambda>opt. (opt_name opt, opt_defaultValue opt)) ` set (def_options d))
     \<union> ((\<lambda>flag. (flag_name flag, JBool False)) ` set (def_flags d))"
proof -
  have "set (merge_option opt m) \<subseteq> set m \<union> ((\<lambda>opt. (opt_name opt, opt_defaultValue opt)) ` set (def_options d))"
    if "opt \<in> set (def_options d)" for opt m
    using that set_om_set [of "opt_name opt" "opt_defaultValue opt" m] by (auto simp: merge_option_def)
  then have 1: "set (fold merge_option (def_options d) m)
      \<subseteq> set m \<union> ((\<lambda>opt. (opt_name opt, opt_defaultValue opt)) ` set (def_options d))"
    by (rule entries_fold)
  have "set (merge_flag flag m) \<subseteq> set m \<union> ((\<lambda>flag. (flag_name flag, JBool False)) ` set (def_flags d))"
    if "flag \<in> set (def_flags d)" for flag m
    using that set_om_set [of "flag_name flag" "JBool False" m] by (auto simp: merge_flag_def)
  then have "set (fold merge_flag (def_flags d) m')
      \<subseteq> set m' \<union> ((\<lambda>flag. (flag_name flag, JBool False)) ` set (def_flags d))" for m'
    by (rule entries_fold)
  then show ?thesis unfolding mergeDefaults_def using 1 by blast
qed

lemma mergeDefaults_distinct: "distinct (om_keys m) \<Longrightarrow> distinct (om_keys (mergeDefaults d m))"
proof -
  have "distinct (om_keys m) \<Longrightarrow> distinct (om_keys (fold merge_option xs m))" for xs m
    by (induction xs arbitrary: m) (simp_all add: merge_option_def distinct_om_set)
  moreover have "distinct (om_keys m) \<Longrightarrow> distinct (om_keys (fold merge_flag xs m))" for xs m
    by (induction xs arbitrary: m) (simp_all add: merge_flag_def distinct_om_set)
  ultimately show "distinct (om_keys m) \<Longrightarrow> distinct (om_keys (mergeDefaults d m))"
    by (simp add: mergeDefaults_def)
qed

lemma normalize_entry_own:
  assumes "unambiguous d" and "c \<in> canonicals d" and "k = can_name c"
  shows "normalize_entry d (k, v) = (k, coerce (can_type c) v)"
proof -
  have "om_get (canonicalMap d) k = Some c" using assms by (simp add: canonicalMap_iff)
  then show ?thesis using assms(3) by (simp add: normalize_entry_def)
qed

lemma prepared_entries_fixed:
  assumes "unambiguous d" and "settled_defaults d" and "prepareArgs d args = Inr r" and "kv \<in> set r"
  shows "normalize_entry d kv = kv"
proof -
  let ?m = "mergeDefaults d (normalizeArgs d args)"
  have app: "applyPositionalArguments d ?m = Inr r" using assms(3) by (simp add: prepareArgs_Inr)
  obtain k v where kv: "kv = (k, v)" by fastforce
  consider "kv \<in> set (normalizeArgs d args)"
    | opt where "opt \<in> set (def_options d)" "k = opt_name opt" "v = opt_defaultValue opt"
    | flag where "flag \<in> set (def_flags d)" "k = flag_name flag" "v = JBool False"
    | p where "p \<in> set (def_positionals d)" "k = pos_name p"
    using applyPositional_facts(3) [OF app] mergeDefaults_entries [of d "normalizeArgs d args"] assms(4) kv
    by blast
  then show ?thesis
  proof cases
    case 1
    then show ?thesis using normalizeArgs_entries [of d args] normalize_entry_idem [OF assms(1)] by auto
  next
    case 2
    then show ?thesis using assms(2) kv normalize_entry_own [OF assms(1), of "opt_canonical opt"]
      by (simp add: canonicals_def settled_defaults_def)
  next
    case 3
    then show ?thesis using kv normalize_entry_own [OF assms(1), of "flag_canonical flag"]
      by (simp add: canonicals_def)
  next
    case 4
    then show ?thesis using kv normalize_entry_own [OF assms(1), of "pos_canonical p"]
      by (simp add: canonicals_def)
  qed
qed

lemma prepareArgs_idempotent_lemma:
  assumes "unambiguous d" and "settled_defaults d" and prep: "prepareArgs d args = Inr r"
    and bound: "\<And>p. p \<in> set (def_positionals d) \<Longrightarrow> om_has r (pos_name p) \<or> positional_values r = []"
  shows "prepareArgs d r = Inr r"
proof -
  let ?m = "mergeDefaults d (normalizeArgs d args)"
  have app: "applyPositionalArguments d ?m = Inr r" using prep by (simp add: prepareArgs_Inr)
  have "distinct (om_keys r)"
    by (rule applyPositional_facts(4) [OF app mergeDefaults_distinct [OF normalizeArgs_distinct]])
  then have norm: "normalizeArgs d r = r"
    using prepared_entries_fixed [OF assms(1-3)] by (intro normalizeArgs_fixed)
  have merge: "mergeDefaults d r = r"
    using prepareArgs_complete_lemma(2,3) [OF prep] by (intro mergeDefaults_id)
  have "applyPositionalArguments d r = Inr r"
    unfolding applyPositionalArguments_foldR
    using bound prepareArgs_complete_lemma(4) [OF prep] by (subst bind_positionals_id) (blast, simp_all)
  then show ?thesis
    using prepareArgs_complete_lemma(1) [OF prep] by (simp add: prepareArgs_Inr norm merge)
qed


section \<open>What the builder guarantees\<close>

definition builder_names :: "'s task_builder \<Rightarrow> string list" where
  "builder_names b = map opt_name (tb_options b) @ map flag_name (tb_flags b) @ map pos_name (tb_positionals b)"

definition builder_inv :: "'s task_builder \<Rightarrow> bool" where
  "builder_inv b \<longleftrightarrow> distinct (om_keys (tb_argumentNames b))
    \<and> mset (om_keys (tb_argumentNames b)) = mset (concat (map getPublicArgumentNames (builder_names b)))
    \<and> (\<forall>n \<in> set (map opt_name (tb_options b) @ map flag_name (tb_flags b)).
          set (getPublicArgumentNames n) \<inter> set getReservedBuiltInGlobalArgumentNames = {})
    \<and> (\<forall>opt \<in> set (tb_options b). opt_type opt \<noteq> TBoolean)"

lemma fold_om_set_append:
  "set (om_keys m) \<inter> set ps = {} \<Longrightarrow> distinct ps \<Longrightarrow>
    fold (\<lambda>p m. om_set p v m) ps m = m @ map (\<lambda>p. (p, v)) ps"
  by (induction ps arbitrary: m) (simp_all add: om_set_fresh)

lemma map_filter_Nil: "List.map_filter f xs = [] \<longleftrightarrow> (\<forall>x \<in> set xs. f x = None)"
  by (induction xs) (auto simp: List.map_filter_simps split: option.splits)

lemma registerArgumentName_Inr:
  assumes "registerArgumentName kind name b = Inr b'"
  shows "b' = b\<lparr>tb_argumentNames := tb_argumentNames b @ map (\<lambda>p. (p, (kind, name))) (getPublicArgumentNames name)\<rparr>"
    and "distinct (om_keys (tb_argumentNames b)) \<Longrightarrow> distinct (om_keys (tb_argumentNames b'))"
proof -
  have free: "set (om_keys (tb_argumentNames b)) \<inter> set (getPublicArgumentNames name) = {}"
    using assms by (auto simp: registerArgumentName_def map_filter_Nil map_of_eq_None_iff image_iff
        split: list.splits prod.splits)
  have b': "b' = b\<lparr>tb_argumentNames :=
      fold (\<lambda>p m. om_set p (kind, name) m) (getPublicArgumentNames name) (tb_argumentNames b)\<rparr>"
    using assms by (auto simp: registerArgumentName_def split: list.splits prod.splits)
  note all = fold_om_set_append [OF free public_distinct]
  show "b' = b\<lparr>tb_argumentNames := tb_argumentNames b @ map (\<lambda>p. (p, (kind, name))) (getPublicArgumentNames name)\<rparr>"
    unfolding b' all ..
  then show "distinct (om_keys (tb_argumentNames b'))" if "distinct (om_keys (tb_argumentNames b))"
    using free that by (auto simp: comp_def)
qed

lemma validateReserved_Inr:
  "validateReservedBuiltInGlobalName kind name b = Inr u \<Longrightarrow>
    set (getPublicArgumentNames name) \<inter> set getReservedBuiltInGlobalArgumentNames = {}"
  by (auto simp: validateReservedBuiltInGlobalName_def find_None_iff split: option.splits)

lemma builder_inv_new: "builder_inv (new_task_builder id' desc)"
  by (simp add: builder_inv_def new_task_builder_def builder_names_def)

lemma registered_inv:
  assumes "builder_inv b" and "registerArgumentName kind name b = Inr b1"
  shows "distinct (om_keys (tb_argumentNames b1))"
    and "mset (om_keys (tb_argumentNames b1)) = mset (concat (map getPublicArgumentNames (builder_names b)))
           + mset (getPublicArgumentNames name)"
  using assms registerArgumentName_Inr [OF assms(2)] by (simp_all add: builder_inv_def comp_def)

lemma builder_inv_call:
  assumes inv: "builder_inv b" and call: "do_call b c = Inr b'"
  shows "builder_inv b'"
proof (cases c)
  case (AddOption opt)
  then obtain b1 where ty: "opt_type opt \<noteq> TBoolean"
    and res: "validateReservedBuiltInGlobalName KOption (opt_name opt) b = Inr ()"
    and reg: "registerArgumentName KOption (opt_name opt) b = Inr b1"
    and b': "b' = b1\<lparr>tb_options := tb_options b1 @ [opt]\<rparr>"
    using call by (auto simp: addOption_def split: if_splits)
  show ?thesis using registered_inv [OF inv reg] inv ty validateReserved_Inr [OF res]
    unfolding b' registerArgumentName_Inr(1) [OF reg] by (simp add: builder_inv_def builder_names_def)
next
  case (AddFlag flag)
  then obtain b1 where res: "validateReservedBuiltInGlobalName KFlag (flag_name flag) b = Inr ()"
    and reg: "registerArgumentName KFlag (flag_name flag) b = Inr b1"
    and b': "b' = b1\<lparr>tb_flags := tb_flags b1 @ [flag]\<rparr>"
    using call by (auto simp: addFlag_def)
  show ?thesis using registered_inv [OF inv reg] inv validateReserved_Inr [OF res]
    unfolding b' registerArgumentName_Inr(1) [OF reg] by (simp add: builder_inv_def builder_names_def)
next
  case (AddPositional arg)
  then obtain b1 where reg: "registerArgumentName KPositional (pos_name arg) b = Inr b1"
    and b': "b' = b1\<lparr>tb_positionals := tb_positionals b1 @ [arg]\<rparr>"
    using call by (auto simp: addPositionalArgument_def)
  show ?thesis using registered_inv [OF inv reg] inv
    unfolding b' registerArgumentName_Inr(1) [OF reg] by (simp add: builder_inv_def builder_names_def)
next
  case (SetAction act)
  then have "b' = b\<lparr>tb_action := Some act\<rparr>" using call by (simp add: setAction_def)
  then show ?thesis using inv by (simp add: builder_inv_def builder_names_def)
qed

lemma builder_inv_calls: "foldR do_call b cs = Inr b' \<Longrightarrow> builder_inv b \<Longrightarrow> builder_inv b'"
  by (rule foldR_invariant) (auto intro: builder_inv_call)

lemma or_empty_list_or_undefined [simp]: "or_empty (list_or_undefined xs) = xs"
  by (simp add: or_empty_def list_or_undefined_def)

lemma build_task_unambiguous:
  assumes "builder_inv b" and "build_task b = Inr d"
  shows "unambiguous d"
proof -
  have "arg_names d = builder_names b"
    using assms(2) by (auto simp: build_task_def arg_names_def builder_names_def split: option.splits)
  moreover have "distinct (concat (map getPublicArgumentNames (builder_names b)))"
    using assms(1) mset_eq_imp_distinct_iff unfolding builder_inv_def by blast
  ultimately show ?thesis by (simp add: unambiguous_def)
qed

section \<open>The chain of overrides\<close>

text \<open>
  What running a stack of actions means, the latest override first: each action gets prepared
  arguments, and the next action, prepared for again, as its \<^verbatim>\<open>runSuper\<close>.
\<close>

fun run_stack :: "(args \<Rightarrow> task_error + args) \<Rightarrow> 's action list \<Rightarrow> 's run_super option" where
  "run_stack prep [] = None"
| "run_stack prep (a # as) = Some (\<lambda>args s. case prep args of
      Inl e \<Rightarrow> (Inl e, s) | Inr prepared \<Rightarrow> a prepared (run_stack prep as) s)"

lemma buildRunSuper_stack: "chain \<noteq> [] \<Longrightarrow> Some (buildRunSuper d chain) = run_stack (prepareArgs d) chain"
proof (induction chain)
  case (Cons a chain)
  have nxt: "(if chain \<noteq> [] then Some (buildRunSuper d chain) else None) = run_stack (prepareArgs d) chain"
    using Cons.IH by simp
  have "buildRunSuper d (a # chain) = (\<lambda>args s. case prepareArgs d args of
      Inl e \<Rightarrow> (Inl e, s) | Inr prepared \<Rightarrow> a prepared (run_stack (prepareArgs d) chain) s)"
    by (simp only: fun_eq_iff buildRunSuper.simps nxt) simp
  then show ?case by simp
qed simp


definition is_override :: "'s task_def \<Rightarrow> bool" where
  "is_override d \<longleftrightarrow> (\<exists>t. td_overrides d = Some t \<and> t \<noteq> [])"

lemma is_override_code [code]:
  "is_override d = (case td_overrides d of None \<Rightarrow> False | Some t \<Rightarrow> t \<noteq> [])"
  by (simp add: is_override_def split: option.splits)

text \<open>The definition that introduces task \<open>t\<close>, and all actions registered for it, latest first.\<close>

definition introduces :: "string \<Rightarrow> 's task_def \<Rightarrow> bool" where
  "introduces t d \<longleftrightarrow> \<not> is_override d \<and> td_id d = t"

definition concerns :: "string \<Rightarrow> 's task_def \<Rightarrow> bool" where
  "concerns t d \<longleftrightarrow> (if is_override d then td_overrides d = Some t else td_id d = t)"

definition actions_for :: "string \<Rightarrow> 's task_def list \<Rightarrow> 's action list" where
  "actions_for t defs = rev (map td_action (filter (concerns t) defs))"

lemma actions_for_append [simp]:
  "actions_for t (defs @ [d]) = (if concerns t d then td_action d # actions_for t defs else actions_for t defs)"
  by (simp add: actions_for_def)

lemma registerTask_alt:
  "registerTask tr d =
    (if is_override d then
       (case om_get (tr_tasks tr) (the (td_overrides d)) of
          None \<Rightarrow> Inl (CannotOverride (the (td_overrides d)))
        | Some existing \<Rightarrow> Inr (tr\<lparr>tr_tasks := om_set (the (td_overrides d)) (stack_override d existing) (tr_tasks tr)\<rparr>))
     else if om_has (tr_tasks tr) (td_id d) then Inl (AlreadyRegistered (td_id d))
     else Inr (tr\<lparr>tr_tasks := om_set (td_id d) \<lparr>rt_definition = d, rt_overrideChain = []\<rparr> (tr_tasks tr)\<rparr>))"
  by (auto simp: registerTask_def is_override_def split: option.splits)

definition reg_stack :: "'s registered_task \<Rightarrow> 's action list" where
  "reg_stack reg = td_action (rt_definition reg) # rt_overrideChain reg"

text \<open>A registered definition differs from the one that introduced it in its action and description only.\<close>

definition same_params :: "'s task_def \<Rightarrow> 's task_def \<Rightarrow> bool" where
  "same_params d d' \<longleftrightarrow> td_id d = td_id d' \<and> td_options d = td_options d' \<and> td_flags d = td_flags d'
    \<and> td_positionalArguments d = td_positionalArguments d'"

lemma same_params_refl: "same_params d d"
  by (simp add: same_params_def)

lemma prepareArgs_same_params:
  assumes "same_params d d'"
  shows "prepareArgs d = prepareArgs d'"
proof -
  note d = assms [unfolded same_params_def]
  have "canonicalMap d = canonicalMap d'" by (simp add: d canonicalMap_def)
  then have "normalize_entry d = normalize_entry d'" by (intro ext) (simp add: normalize_entry_def)
  then have norm: "normalizeArgs d = normalizeArgs d'" by (intro ext) (simp add: normalizeArgs_def)
  have merge: "mergeDefaults d = mergeDefaults d'" by (intro ext) (simp add: d mergeDefaults_def)
  have enforce: "enforceRequiredOptions d = enforceRequiredOptions d'"
    by (intro ext) (simp add: d enforceRequiredOptions_def split: option.split)
  have "applyPositionalArguments d = applyPositionalArguments d'"
    by (intro ext) (simp add: d applyPositionalArguments_def split: option.split)
  then show ?thesis using norm merge enforce by (simp add: fun_eq_iff prepareArgs_def)
qed

definition registry_ok :: "'s task_def list \<Rightarrow> 's task_runner \<Rightarrow> bool" where
  "registry_ok defs tr \<longleftrightarrow>
    getTaskIds tr = map td_id (filter (\<lambda>d. \<not> is_override d) defs)
    \<and> (\<forall>t. case om_get (tr_tasks tr) t of
         None \<Rightarrow> find (introduces t) defs = None \<and> actions_for t defs = []
       | Some reg \<Rightarrow> reg_stack reg = actions_for t defs
           \<and> (\<exists>base. find (introduces t) defs = Some base \<and> same_params (rt_definition reg) base))"

lemma find_append: "find P (xs @ ys) = (case find P xs of None \<Rightarrow> find P ys | r \<Rightarrow> r)"
  by (induction xs) simp_all

lemma registry_ok_step:
  assumes ok: "registry_ok defs tr" and step: "registerTask tr d = Inr tr'"
  shows "registry_ok (defs @ [d]) tr'"
proof (cases "is_override d")
  case True
  then obtain t0 where t0: "td_overrides d = Some t0" by (auto simp: is_override_def)
  then obtain reg where reg: "om_get (tr_tasks tr) t0 = Some reg"
    and tr': "tr' = tr\<lparr>tr_tasks := om_set t0 (stack_override d reg) (tr_tasks tr)\<rparr>"
    using step True by (auto simp: registerTask_alt split: option.splits)
  have keys: "t0 \<in> set (om_keys (tr_tasks tr))"
    using reg by (metis map_of_eq_None_iff option.distinct(1) set_map)
  show ?thesis
    unfolding registry_ok_def
  proof (intro conjI allI)
    show "getTaskIds tr' = map td_id (filter (\<lambda>d. \<not> is_override d) (defs @ [d]))"
      using ok keys True by (simp add: registry_ok_def getTaskIds_def tr' om_keys_set)
  next
    fix t
    have old: "case om_get (tr_tasks tr) t of None \<Rightarrow> find (introduces t) defs = None \<and> actions_for t defs = []
       | Some reg \<Rightarrow> reg_stack reg = actions_for t defs
           \<and> (\<exists>base. find (introduces t) defs = Some base \<and> same_params (rt_definition reg) base)"
      using ok by (simp add: registry_ok_def)
    have "same_params (rt_definition (stack_override d reg)) base" if "same_params (rt_definition reg) base" for base
      using that by (auto simp: same_params_def stack_override_def)
    then show "case om_get (tr_tasks tr') t of None \<Rightarrow> find (introduces t) (defs @ [d]) = None \<and> actions_for t (defs @ [d]) = []
       | Some reg \<Rightarrow> reg_stack reg = actions_for t (defs @ [d])
           \<and> (\<exists>base. find (introduces t) (defs @ [d]) = Some base \<and> same_params (rt_definition reg) base)"
      using old reg True t0
      by (cases "t = t0") (auto simp: tr' om_get_set find_append introduces_def concerns_def reg_stack_def
          stack_override_def split: option.splits)
  qed
next
  case False
  then have free: "\<not> om_has (tr_tasks tr) (td_id d)"
    and tr': "tr' = tr\<lparr>tr_tasks := om_set (td_id d) \<lparr>rt_definition = d, rt_overrideChain = []\<rparr> (tr_tasks tr)\<rparr>"
    using step by (auto simp: registerTask_alt split: if_splits)
  show ?thesis
    unfolding registry_ok_def
  proof (intro conjI allI)
    show "getTaskIds tr' = map td_id (filter (\<lambda>d. \<not> is_override d) (defs @ [d]))"
      using ok free False by (simp add: registry_ok_def getTaskIds_def tr' om_keys_set om_has_dom)
  next
    fix t
    have old: "case om_get (tr_tasks tr) t of None \<Rightarrow> find (introduces t) defs = None \<and> actions_for t defs = []
       | Some reg \<Rightarrow> reg_stack reg = actions_for t defs
           \<and> (\<exists>base. find (introduces t) defs = Some base \<and> same_params (rt_definition reg) base)"
      using ok by (simp add: registry_ok_def)
    show "case om_get (tr_tasks tr') t of None \<Rightarrow> find (introduces t) (defs @ [d]) = None \<and> actions_for t (defs @ [d]) = []
       | Some reg \<Rightarrow> reg_stack reg = actions_for t (defs @ [d])
           \<and> (\<exists>base. find (introduces t) (defs @ [d]) = Some base \<and> same_params (rt_definition reg) base)"
    proof (cases "t = td_id d")
      case True
      then show ?thesis using old free False
        by (auto simp: tr' om_get_set find_append introduces_def om_has_def same_params_refl reg_stack_def
              concerns_def)
    next
      case other: False
      then show ?thesis using old False
        by (auto simp: tr' om_get_set find_append introduces_def concerns_def split: option.splits)
    qed
  qed
qed


lemma registry_ok_None:
  assumes "registry_ok defs tr" and "om_get (tr_tasks tr) t = None"
  shows "find (introduces t) defs = None"
  using assms(1) [unfolded registry_ok_def, THEN conjunct2, rule_format, of t] assms(2) by simp

lemma registry_ok_Some:
  assumes "registry_ok defs tr" and "om_get (tr_tasks tr) t = Some reg"
  shows "reg_stack reg = actions_for t defs
    \<and> (\<exists>base. find (introduces t) defs = Some base \<and> same_params (rt_definition reg) base)"
  using assms(1) [unfolded registry_ok_def, THEN conjunct2, rule_format, of t] assms(2) by simp

lemma registry_ok_tasks:
  assumes "registerTasks (setLre new_task_runner) defs = Inr tr"
  shows "registry_ok defs tr \<and> tr_lre tr"
proof -
  have "registry_ok (ds @ defs) tr \<and> tr_lre tr"
    if "registry_ok ds tr0 \<and> tr_lre tr0" "foldR registerTask tr0 defs = Inr tr" for ds tr0
    using that
  proof (induction defs arbitrary: ds tr0)
    case (Cons d defs)
    then obtain tr1 where step: "registerTask tr0 d = Inr tr1" and rest: "foldR registerTask tr1 defs = Inr tr"
      by auto
    have "registry_ok (ds @ [d]) tr1" using Cons.prems(1) registry_ok_step step by blast
    moreover have "tr_lre tr1"
      using Cons.prems(1) step by (auto simp: registerTask_alt split: if_splits option.splits)
    ultimately show ?case using Cons.IH [of "ds @ [d]"] rest by simp
  qed simp
  moreover have "registry_ok [] (setLre new_task_runner) \<and> tr_lre (setLre new_task_runner)"
    by (simp add: registry_ok_def new_task_runner_def setLre_def getTaskIds_def actions_for_def)
  ultimately show ?thesis
    using assms unfolding registerTasks_def by (metis append_Nil)
qed

lemma run_task_stack:
  assumes "om_get (tr_tasks tr) t = Some reg" and "tr_lre tr" and "same_params (rt_definition reg) base"
  shows "\<exists>f. run_stack (prepareArgs base) (reg_stack reg) = Some f
    \<and> (\<forall>dv args s. fst (run_task dv tr t args s) = f args s)"
proof -
  have "(if 0 < length (rt_overrideChain reg)
      then Some (buildRunSuper (rt_definition reg) (rt_overrideChain reg)) else None)
     = run_stack (prepareArgs base) (rt_overrideChain reg)"
    using buildRunSuper_stack [of "rt_overrideChain reg" "rt_definition reg"]
      prepareArgs_same_params [OF assms(3)] by simp
  then show ?thesis
    using assms prepareArgs_same_params [OF assms(3)]
    by (simp add: run_task_def reg_stack_def split: sum.splits if_splits)
qed

section \<open>Properties\<close>

text \<open>
  C33: running a task runs the stack of all actions registered for it, the latest override first;
  every layer, base included, gets arguments prepared against the definition that introduced the
  task, whatever other tasks were registered in between. A task nobody introduced is not found.
\<close>

theorem run_follows_override_stack:
  assumes "registerTasks (setLre new_task_runner) defs = Inr tr"
  shows "case find (introduces t) defs of
      None \<Rightarrow> fst (run_task dv tr t args s) = (Inl (TaskNotFound t), s)
    | Some base \<Rightarrow> \<exists>f. run_stack (prepareArgs base) (actions_for t defs) = Some f
        \<and> fst (run_task dv tr t args s) = f args s"
proof -
  have ok: "registry_ok defs tr" and lre: "tr_lre tr" using registry_ok_tasks [OF assms] by simp_all
  show ?thesis
  proof (cases "om_get (tr_tasks tr) t")
    case None
    then have "find (introduces t) defs = None" using registry_ok_None [OF ok] by simp
    then show ?thesis using None by (simp add: run_task_def)
  next
    case (Some reg)
    then obtain base where "reg_stack reg = actions_for t defs" "find (introduces t) defs = Some base"
      "same_params (rt_definition reg) base"
      using registry_ok_Some [OF ok] by blast
    then show ?thesis using run_task_stack [OF Some lre] by fastforce
  qed
qed

text \<open>
  A task built by the fluent builder has no two arguments that share a spelling, so each
  public spelling of an argument leads to that argument; no option or flag takes the name of a
  built-in global option.
\<close>

theorem built_task_unambiguous:
  assumes "foldR do_call (new_task_builder id' desc) calls = Inr b" and "build_task b = Inr d"
  shows "unambiguous d
    \<and> (\<forall>c \<in> canonicals d. \<forall>k \<in> set (getPublicArgumentNames (can_name c)). om_get (canonicalMap d) k = Some c)
    \<and> (\<forall>n \<in> set (map opt_name (def_options d) @ map flag_name (def_flags d)).
          n \<notin> set getReservedBuiltInGlobalArgumentNames)"
proof -
  have inv: "builder_inv b" using builder_inv_calls [OF assms(1) builder_inv_new] .
  have un: "unambiguous d" using build_task_unambiguous [OF inv assms(2)] .
  have "def_options d = tb_options b" "def_flags d = tb_flags b"
    using assms(2) by (auto simp: build_task_def split: option.splits)
  then have "\<forall>n \<in> set (map opt_name (def_options d) @ map flag_name (def_flags d)).
      n \<notin> set getReservedBuiltInGlobalArgumentNames"
    using inv public_self unfolding builder_inv_def by (metis IntI empty_iff)
  then show ?thesis using un by (simp add: canonicalMap_iff)
qed

text \<open>
  Prepared arguments are complete: every flag and every option with a default is present,
  no required option or positional is undefined, and nothing the caller named is overwritten.
\<close>

theorem prepared_args_complete:
  assumes "prepareArgs d args = Inr r"
  shows "(\<forall>flag \<in> set (def_flags d). om_has r (flag_name flag))
    \<and> (\<forall>opt \<in> set (def_options d). (opt_defaultValue opt \<noteq> JUndef \<longrightarrow> om_has r (opt_name opt))
          \<and> (opt_required opt \<longrightarrow> js_get r (opt_name opt) \<noteq> JUndef))
    \<and> (\<forall>p \<in> set (def_positionals d). pos_required p \<longrightarrow> js_get r (pos_name p) \<noteq> JUndef)
    \<and> (\<forall>k. om_has (normalizeArgs d args) k \<longrightarrow> om_get r k = om_get (normalizeArgs d args) k)"
  using prepareArgs_complete_lemma [OF assms] by (simp add: extends_def)

text \<open>
  Preparing prepared arguments again changes nothing, as \<^verbatim>\<open>runSuper\<close> relies on, for a task
  whose spellings are unambiguous and whose numeric defaults are numbers, provided every declared
  positional got a value or no bare values were given.
\<close>

lemma prepareArgs_idempotent:
  assumes "unambiguous d" and "settled_defaults d" and "prepareArgs d args = Inr r"
    and "\<And>p. p \<in> set (def_positionals d) \<Longrightarrow> om_has r (pos_name p) \<or> positional_values r = []"
  shows "prepareArgs d r = Inr r"
  using prepareArgs_idempotent_lemma [OF assms] .


text \<open>Two small tasks the witnesses run on.\<close>

definition ex_option :: task_option where
  "ex_option = \<lparr>opt_name = ''retryCount'', opt_type = TNumber, opt_defaultValue = jint 3, opt_required = False\<rparr>"

definition ex_positional :: "string \<Rightarrow> task_positional" where
  "ex_positional n = \<lparr>pos_name = n, pos_type = ArgSTRING, pos_required = False, pos_variadic = False\<rparr>"

definition ex_task :: "task_positional list \<Rightarrow> unit task_def" where
  "ex_task ps = \<lparr>td_id = ''deploy'', td_description = ''Deploy'',
     td_action = (\<lambda>args sup s. (Inr (JObj args), s)), td_options = Some [ex_option],
     td_flags = Some [\<lparr>flag_name = ''noCompile''\<rparr>], td_positionalArguments = Some ps, td_overrides = None\<rparr>"

definition ex_override :: "unit task_def" where
  "ex_override = \<lparr>td_id = ''deploy'', td_description = [],
     td_action = (\<lambda>args sup s. case sup of None \<Rightarrow> (Inl (ActionError ''no runSuper''), s) | Some f \<Rightarrow> f args s),
     td_options = None, td_flags = None, td_positionalArguments = None, td_overrides = Some ''deploy''\<rparr>"

theorem run_follows_override_stack_witness:
  "\<exists>f. run_stack (prepareArgs (ex_task [])) (actions_for ''deploy'' [ex_task [], ex_override]) = Some f
    \<and> fst (run_task False (projr (registerTasks (setLre new_task_runner) [ex_task [], ex_override])) ''deploy'' [] ())
      = f [] ()"
proof -
  let ?defs = "[ex_task [], ex_override]"
  have "\<not> isl (registerTasks (setLre new_task_runner) ?defs)" by code_simp
  then have "registerTasks (setLre new_task_runner) ?defs
      = Inr (projr (registerTasks (setLre new_task_runner) ?defs))" by simp
  moreover have "find (introduces ''deploy'') ?defs = Some (ex_task [])"
    by (simp add: introduces_def is_override_def ex_task_def)
  ultimately show ?thesis using run_follows_override_stack [where defs = ?defs and t = "''deploy''" and args = "[]" and dv = False and s = "()"] by fastforce
qed

definition ex_calls :: "unit builder_call list" where
  "ex_calls = [AddOption ex_option, AddFlag \<lparr>flag_name = ''noCompile''\<rparr>, AddPositional (ex_positional ''target''),
     SetAction (td_action (ex_task []))]"

theorem built_task_unambiguous_witness:
  "unambiguous (projr (build_task (projr (foldR do_call (new_task_builder ''deploy'' ''Deploy'') ex_calls))))"
proof -
  let ?b = "foldR do_call (new_task_builder ''deploy'' ''Deploy'') ex_calls"
  have "\<not> isl ?b" and "\<not> isl (build_task (projr ?b))" by code_simp+
  then show ?thesis using built_task_unambiguous [of "''deploy''" "''Deploy''" ex_calls "projr ?b"] by simp
qed

theorem prepared_args_complete_witness:
  "list_all (\<lambda>flag. om_has (projr (prepareArgs (ex_task []) [(''retry-count'', JStr ''7'')])) (flag_name flag))
     (def_flags (ex_task []))"
proof -
  have "\<not> isl (prepareArgs (ex_task []) [(''retry-count'', JStr ''7'')])" by code_simp
  then show ?thesis unfolding list_all_iff
    using prepared_args_complete [of "ex_task []" "[(''retry-count'', JStr ''7'')]"] by simp
qed

lemma prepareArgs_idempotent_witness:
  "prepareArgs (ex_task [ex_positional ''target'']) [(''_positional'', JArr [JStr ''x'']), (''retryCount'', jint 7),
      (''noCompile'', JBool False), (''target'', JStr ''x'')]
    = Inr [(''_positional'', JArr [JStr ''x'']), (''retryCount'', jint 7), (''noCompile'', JBool False), (''target'', JStr ''x'')]"
proof (rule prepareArgs_idempotent [of _ "[(''_positional'', JArr [JStr ''x'']), (''retry-count'', JStr ''7'')]"])
  show "unambiguous (ex_task [ex_positional ''target''])" by code_simp
  show "settled_defaults (ex_task [ex_positional ''target''])" by code_simp
  show "prepareArgs (ex_task [ex_positional ''target'']) [(''_positional'', JArr [JStr ''x'']), (''retry-count'', JStr ''7'')]
    = Inr [(''_positional'', JArr [JStr ''x'']), (''retryCount'', jint 7), (''noCompile'', JBool False), (''target'', JStr ''x'')]"
    by code_simp
qed (simp add: ex_task_def ex_positional_def or_empty_def om_has_def)

text \<open>
  Without that proviso preparation is not idempotent: with two optional positionals and one
  bare value, the first pass binds the value to the first positional and a second pass, as
  \<^verbatim>\<open>runSuper\<close> makes it, binds the same value to the second one too.
\<close>

lemma prepareArgs_not_idempotent:
  "prepareArgs (ex_task [ex_positional ''from'', ex_positional ''to'']) [(''_positional'', JArr [JStr ''x''])]
     = Inr [(''_positional'', JArr [JStr ''x'']), (''retryCount'', jint 3), (''noCompile'', JBool False),
         (''from'', JStr ''x'')]
   \<and> prepareArgs (ex_task [ex_positional ''from'', ex_positional ''to''])
        [(''_positional'', JArr [JStr ''x'']), (''retryCount'', jint 3), (''noCompile'', JBool False), (''from'', JStr ''x'')]
     = Inr [(''_positional'', JArr [JStr ''x'']), (''retryCount'', jint 3), (''noCompile'', JBool False),
         (''from'', JStr ''x''), (''to'', JStr ''x'')]"
  by code_simp

end
