(* ===== verification/Toposort.thy ===== *)
theory Toposort imports Prelude begin

text \<open>
  The contract of a depth-first visit with cycle detection, which both the plugin loader and the
  dependency resolver implement. \<open>dfs_visit\<close> states what one call of such a visit promises;
  inside it are proved, once for both clients, that the finished order lists every reachable
  node once and after its successors, that a failure always exhibits a cycle, and that one more
  level of recursion than there are nodes is enough.
\<close>

locale dfs_visit =
  fixes succ :: "'k \<Rightarrow> 'k list"
    and nodes :: "'k set"
    and visit :: "nat \<Rightarrow> 'k list \<Rightarrow> 'k list \<Rightarrow> 'k \<Rightarrow> 'e + 'k list"
    and cycle_error :: "'k list \<Rightarrow> 'k \<Rightarrow> 'e"
  assumes finite_nodes: "finite nodes"
    and closed: "x \<in> nodes \<Longrightarrow> set (succ x) \<subseteq> nodes"
    and visit_done: "x \<in> nodes \<Longrightarrow> x \<in> set ord \<Longrightarrow> visit (Suc f) path ord x = Inr ord"
    and visit_again: "x \<in> nodes \<Longrightarrow> x \<notin> set ord \<Longrightarrow> x \<in> set path \<Longrightarrow>
        visit (Suc f) path ord x = Inl (cycle_error path x)"
    and visit_new: "x \<in> nodes \<Longrightarrow> x \<notin> set ord \<Longrightarrow> x \<notin> set path \<Longrightarrow>
        visit (Suc f) path ord x =
          bindR (foldR (visit f (path @ [x])) ord (succ x)) (\<lambda>ord'. Inr (ord' @ [x]))"
begin

definition edges :: "('k \<times> 'k) set" where
  "edges = {(x, y). x \<in> nodes \<and> y \<in> set (succ x)}"

text \<open>The order so far: no node twice, and each node after all its successors.\<close>

definition ordered :: "'k list \<Rightarrow> bool" where
  "ordered ord \<longleftrightarrow> distinct ord \<and> set ord \<subseteq> nodes
    \<and> (\<forall>ys y zs. ord = ys @ y # zs \<longrightarrow> set (succ y) \<subseteq> set ys)"

text \<open>A walk along edges, and an error that shows one which closes on itself.\<close>

definition walk :: "'k list \<Rightarrow> bool" where
  "walk p \<longleftrightarrow> (\<forall>i. Suc i < length p \<longrightarrow> (p ! i, p ! Suc i) \<in> edges)"

definition shows_cycle :: "'e \<Rightarrow> bool" where
  "shows_cycle e \<longleftrightarrow> (\<exists>p y. e = cycle_error p y \<and> walk p \<and> set p \<subseteq> nodes \<and> y \<in> set p \<and> (last p, y) \<in> edges)"

definition visit_result :: "'k list \<Rightarrow> 'k list \<Rightarrow> 'k set \<Rightarrow> 'e + 'k list \<Rightarrow> bool" where
  "visit_result path ord xs r = (case r of
      Inl e \<Rightarrow> shows_cycle e
    | Inr ord' \<Rightarrow> ordered ord' \<and> prefix ord ord' \<and> xs \<subseteq> set ord'
        \<and> set ord' \<subseteq> set ord \<union> edges\<^sup>* `` xs \<and> set ord' \<inter> set path \<subseteq> set ord)"

lemma ordered_Nil [simp]: "ordered []"
  by (simp add: ordered_def)

lemma ordered_snoc:
  assumes "ordered ord" and "x \<in> nodes" and "x \<notin> set ord" and "set (succ x) \<subseteq> set ord"
  shows "ordered (ord @ [x])"
proof -
  have "set (succ y) \<subseteq> set ys" if "ord @ [x] = ys @ y # zs" for ys y zs
  proof (cases zs rule: rev_cases)
    case Nil
    then show ?thesis using that assms(4) by simp
  next
    case (snoc zs' z)
    then have "ord = ys @ y # zs'" using that by simp
    then show ?thesis using assms(1) by (simp add: ordered_def)
  qed
  then show ?thesis using assms by (auto simp: ordered_def)
qed

lemma walk_snoc:
  assumes "walk p" and "p = [] \<or> (last p, x) \<in> edges"
  shows "walk (p @ [x])"
  unfolding walk_def
proof (intro allI impI)
  fix i
  assume i: "Suc i < length (p @ [x])"
  show "((p @ [x]) ! i, (p @ [x]) ! Suc i) \<in> edges"
  proof (cases "Suc i < length p")
    case True
    then show ?thesis using assms(1) by (simp add: walk_def nth_append)
  next
    case False
    then have "Suc i = length p" using i by simp
    then have "p \<noteq> []" and "i = length p - 1" by auto
    then show ?thesis using assms(2) by (simp add: nth_append last_conv_nth)
  qed
qed

lemma edges_nodes: "(x, y) \<in> edges \<Longrightarrow> x \<in> nodes \<and> y \<in> nodes"
  using closed by (auto simp: edges_def)

text \<open>Visiting a list of nodes, once each single visit is known to behave.\<close>

lemma visit_list:
  assumes "\<And>ord x. ordered ord \<Longrightarrow> x \<in> set xs \<Longrightarrow> visit_result path ord {x} (visit f path ord x)"
    and "ordered ord"
  shows "visit_result path ord (set xs) (foldR (visit f path) ord xs)"
  using assms
proof (induction xs arbitrary: ord)
  case Nil
  then show ?case by (simp add: visit_result_def)
next
  case (Cons x xs)
  have step: "visit_result path ord {x} (visit f path ord x)" using Cons.prems by simp
  show ?case
  proof (cases "visit f path ord x")
    case (Inl e)
    then show ?thesis using step by (simp add: visit_result_def)
  next
    case (Inr ord1)
    then have one: "ordered ord1" "prefix ord ord1" "x \<in> set ord1"
        "set ord1 \<subseteq> set ord \<union> edges\<^sup>* `` {x}" "set ord1 \<inter> set path \<subseteq> set ord"
      using step by (simp_all add: visit_result_def)
    have rest: "visit_result path ord1 (set xs) (foldR (visit f path) ord1 xs)"
      using Cons.prems(1) one(1) by (intro Cons.IH) simp_all
    show ?thesis
    proof (cases "foldR (visit f path) ord1 xs")
      case (Inl e)
      then show ?thesis using rest Inr by (simp add: visit_result_def)
    next
      case r: (Inr ord2)
      then have two: "ordered ord2" "prefix ord1 ord2" "set xs \<subseteq> set ord2"
          "set ord2 \<subseteq> set ord1 \<union> edges\<^sup>* `` set xs" "set ord2 \<inter> set path \<subseteq> set ord1"
        using rest by (simp_all add: visit_result_def)
      have "set ord1 \<subseteq> set ord2" using two(2) by (rule set_mono_prefix)
      moreover have "prefix ord ord2" using one(2) two(2) by (rule prefix_order.order_trans)
      moreover have "set ord2 \<subseteq> set ord \<union> edges\<^sup>* `` set (x # xs)"
        using one(4) two(4) by (simp only: list.set) blast
      moreover have "set ord2 \<inter> set path \<subseteq> set ord" using one(5) two(5) by blast
      ultimately show ?thesis
        using one(3) two(1,3) Inr r by (auto simp: visit_result_def)
    qed
  qed
qed

lemma visit_ok:
  assumes "card nodes < f + length path" and "distinct path" and "set path \<subseteq> nodes" and "x \<in> nodes"
    and "walk path" and "path = [] \<or> (last path, x) \<in> edges" and "ordered ord"
  shows "visit_result path ord {x} (visit f path ord x)"
  using assms
proof (induction f arbitrary: path ord x)
  case 0
  then have "length path \<le> card nodes" by (metis card_mono distinct_card finite_nodes)
  then show ?case using 0 by simp
next
  case (Suc f)
  consider (old_node) "x \<in> set ord" | (closing) "x \<notin> set ord" "x \<in> set path" | (fresh) "x \<notin> set ord" "x \<notin> set path"
    by blast
  then show ?case
  proof cases
    case old_node
    then show ?thesis using Suc.prems by (simp add: visit_done visit_result_def)
  next
    case closing
    then have "path \<noteq> []" by auto
    then show ?thesis
      using closing Suc.prems by (auto simp: visit_again visit_result_def shows_cycle_def)
  next
    case fresh
    let ?path = "path @ [x]"
    have sub: "visit_result ?path ord' {y} (visit f ?path ord' y)" if "ordered ord'" "y \<in> set (succ x)" for ord' y
    proof (rule Suc.IH)
      show "y \<in> nodes" using closed Suc.prems(4) that(2) by blast
      show "?path = [] \<or> (last ?path, y) \<in> edges" using that(2) Suc.prems(4) by (simp add: edges_def)
      show "walk ?path" using Suc.prems walk_snoc by blast
    qed (use Suc.prems fresh that in auto)
    have all: "visit_result ?path ord (set (succ x)) (foldR (visit f ?path) ord (succ x))"
      using sub Suc.prems(7) by (intro visit_list)
    show ?thesis
    proof (cases "foldR (visit f ?path) ord (succ x)")
      case (Inl e)
      then show ?thesis using all fresh Suc.prems by (simp add: visit_new visit_result_def)
    next
      case (Inr ord')
      then have o': "ordered ord'" "prefix ord ord'" "set (succ x) \<subseteq> set ord'"
          "set ord' \<subseteq> set ord \<union> edges\<^sup>* `` set (succ x)" "set ord' \<inter> set ?path \<subseteq> set ord"
        using all by (simp_all add: visit_result_def)
      have x: "x \<notin> set ord'" using o'(5) fresh by auto
      have "edges\<^sup>* `` set (succ x) \<subseteq> edges\<^sup>* `` {x}"
        using Suc.prems(4) by (auto simp: edges_def intro: converse_rtrancl_into_rtrancl)
      then have "set (ord' @ [x]) \<subseteq> set ord \<union> edges\<^sup>* `` {x}" using o'(4)
        by (simp only: set_append list.set) blast
      then show ?thesis
        using Inr fresh Suc.prems o' x ordered_snoc [of ord' x]
        by (auto simp: visit_new visit_result_def intro: prefix_order.order_trans)
    qed
  qed
qed

text \<open>A whole run from a list of roots.\<close>

lemma run_ok:
  assumes "card nodes < f" and "set roots \<subseteq> nodes"
  shows "visit_result [] [] (set roots) (foldR (visit f []) [] roots)"
  using assms by (intro visit_list visit_ok) (auto simp: walk_def)

lemma run_Inr:
  assumes "card nodes < f" and "set roots \<subseteq> nodes" and "foldR (visit f []) [] roots = Inr ord"
  shows "ordered ord" and "set ord = edges\<^sup>* `` set roots"
proof -
  have r: "ordered ord" "set roots \<subseteq> set ord" "set ord \<subseteq> edges\<^sup>* `` set roots"
    using run_ok [OF assms(1,2)] assms(3) by (simp_all add: visit_result_def)
  have "y \<in> set ord" if "(x, y) \<in> edges\<^sup>*" "x \<in> set ord" for x y
    using that
  proof (induction rule: rtrancl_induct)
    case (step y z)
    then obtain ys zs where "ord = ys @ y # zs" using split_list by fast
    moreover have "z \<in> set (succ y)" using step.hyps(2) by (simp add: edges_def)
    ultimately show ?case using r(1) unfolding ordered_def by (metis Un_iff set_append subsetD)
  qed
  then show "ordered ord" and "set ord = edges\<^sup>* `` set roots" using r by blast+
qed

lemma ordered_before:
  assumes "ordered ord" and "(x, y) \<in> edges" and "x \<in> set ord"
  shows "\<exists>ys zs. ord = ys @ x # zs \<and> y \<in> set ys"
  using assms split_list [of x ord] by (fastforce simp: ordered_def edges_def)

text \<open>In an ordered list an edge leads strictly backwards, so no node reaches itself.\<close>

lemma ordered_acyclic:
  assumes "ordered ord" and "(x, y) \<in> edges\<^sup>+" and "x \<in> set ord"
  shows "\<exists>i j. i < j \<and> j < length ord \<and> ord ! j = x \<and> ord ! i = y"
  using assms(2)
proof (induction rule: trancl_induct)
  case (base y)
  then obtain ys zs where "ord = ys @ x # zs" "y \<in> set ys" using ordered_before assms by blast
  then show ?case by (metis in_set_conv_nth length_append less_add_same_cancel1 length_Cons
      nth_append nth_append_length zero_less_Suc)
next
  case (step y z)
  then obtain i j where ij: "i < j" "j < length ord" "ord ! j = x" "ord ! i = y" by blast
  then have "y \<in> set ord" by (auto intro: nth_mem)
  then obtain ys zs where o: "ord = ys @ y # zs" "z \<in> set ys" using ordered_before assms(1) step.hyps(2) by blast
  then obtain k where k: "k < length ys" "ys ! k = z" by (metis in_set_conv_nth)
  have "distinct ord" using assms(1) by (simp add: ordered_def)
  then have "i = length ys"
    using ij o(1) by (metis length_append less_add_same_cancel1 length_Cons less_trans nth_append_length
        nth_eq_iff_index_eq zero_less_Suc)
  then have "k < j" "ord ! k = z" using k ij o(1) by (simp_all add: nth_append)
  then show ?case using ij by blast
qed

lemma ordered_no_cycle: "ordered ord \<Longrightarrow> x \<in> set ord \<Longrightarrow> (x, x) \<notin> edges\<^sup>+"
  using ordered_acyclic [of ord x x] by (fastforce simp: ordered_def nth_eq_iff_index_eq)

lemma walk_reaches:
  assumes "walk p" and "i \<le> j" and "j < length p"
  shows "(p ! i, p ! j) \<in> edges\<^sup>*"
  using assms(2,3)
proof (induction j)
  case (Suc j)
  show ?case
  proof (cases "i = Suc j")
    case False
    then have "(p ! i, p ! j) \<in> edges\<^sup>*" using Suc by simp
    moreover have "(p ! j, p ! Suc j) \<in> edges" using assms(1) Suc.prems by (simp add: walk_def)
    ultimately show ?thesis by simp
  qed simp
qed simp

lemma shows_cycle_real:
  assumes "shows_cycle e"
  shows "\<exists>x \<in> nodes. (x, x) \<in> edges\<^sup>+"
proof -
  obtain p y where p: "walk p" "set p \<subseteq> nodes" "y \<in> set p" "(last p, y) \<in> edges"
    using assms by (auto simp: shows_cycle_def)
  obtain i where i: "i < length p" "p ! i = y" using p(3) by (auto simp: in_set_conv_nth)
  then have "(y, last p) \<in> edges\<^sup>*"
    using walk_reaches [OF p(1), of i "length p - 1"] by (cases p) (auto simp: last_conv_nth)
  then have "(y, y) \<in> edges\<^sup>+" using p(4) by (rule rtrancl_into_trancl1)
  then show ?thesis using p(2,3) by blast
qed

text \<open>The run succeeds exactly when no cycle can be reached, as far as the roots reach every node.\<close>

lemma run_succeeds_iff:
  assumes "card nodes < f" and "set roots \<subseteq> nodes" and "nodes \<subseteq> edges\<^sup>* `` set roots"
  shows "(\<exists>ord. foldR (visit f []) [] roots = Inr ord) \<longleftrightarrow> (\<forall>x \<in> nodes. (x, x) \<notin> edges\<^sup>+)"
proof
  assume "\<exists>ord. foldR (visit f []) [] roots = Inr ord"
  then obtain ord where o: "foldR (visit f []) [] roots = Inr ord" by blast
  show "\<forall>x \<in> nodes. (x, x) \<notin> edges\<^sup>+"
    using run_Inr [OF assms(1,2) o] assms(3) ordered_no_cycle by blast
next
  assume acyclic: "\<forall>x \<in> nodes. (x, x) \<notin> edges\<^sup>+"
  show "\<exists>ord. foldR (visit f []) [] roots = Inr ord"
  proof (cases "foldR (visit f []) [] roots")
    case (Inl e)
    then have "shows_cycle e" using run_ok [OF assms(1,2)] by (simp add: visit_result_def)
    then show ?thesis using acyclic shows_cycle_real by blast
  qed simp
qed

end

end
