(* ===== verification/Plugins.thy ===== *)
theory Plugins imports Tasks Toposort begin

text \<open>
  The plugin loader (\<^verbatim>\<open>core/src/plugin-loader.ts\<close>). Plugins are objects compared by identity, so
  they live on a heap: a reference is an index, and \<^verbatim>\<open>dependencies\<close> holds references, which may
  form cycles. \<open>collect_plugins\<close> is the worklist that gathers all reachable plugins,
  \<open>plugin_visit\<close> the recursive visit, interpreted as a \<open>dfs_visit\<close>.
\<close>

section \<open>The heap of plugins\<close>

record global_option =
  go_name :: string
  go_type :: argument_type
  go_defaultValue :: jsval

type_synonym ref = nat

record plugin =
  pl_id :: string
  pl_dependencies :: "ref list option"
  pl_globalOptions :: "global_option list option"

type_synonym plugin_heap = "plugin list"

datatype plugin_error =
    DuplicatePluginId string
  | CircularPlugin string
  | UnavailablePlugin string string
  | ReservedGlobalOption string string string
  | DuplicateGlobalOption string string string
  | DanglingReference
  | RecursionLimit

definition plugin_deps :: "plugin_heap \<Rightarrow> ref \<Rightarrow> ref list" where
  "plugin_deps heap r = or_empty (pl_dependencies (heap ! r))"

abbreviation plugin_id :: "plugin_heap \<Rightarrow> ref \<Rightarrow> string" where
  "plugin_id heap r \<equiv> pl_id (heap ! r)"

section \<open>Collecting and sorting\<close>

definition uncollected :: "plugin_heap \<Rightarrow> (string, ref) omap \<Rightarrow> nat set" where
  "uncollected heap allP = {r. r < length heap \<and> \<not> om_has allP (plugin_id heap r)}"

lemma finite_uncollected [simp]: "finite (uncollected heap allP)"
  by (simp add: uncollected_def)

lemma uncollected_set:
  assumes "r \<in> uncollected heap allP"
  shows "(\<Sum>i \<in> uncollected heap (om_set (plugin_id heap r) r allP). length (plugin_deps heap i))
       + length (plugin_deps heap r) \<le> (\<Sum>i \<in> uncollected heap allP. length (plugin_deps heap i))"
proof -
  let ?u = "uncollected heap allP" and ?u' = "uncollected heap (om_set (plugin_id heap r) r allP)"
  have "insert r ?u' \<subseteq> ?u" "r \<notin> ?u'" using assms by (auto simp: uncollected_def om_has_set)
  then have "(\<Sum>i \<in> insert r ?u'. length (plugin_deps heap i)) \<le> (\<Sum>i \<in> ?u. length (plugin_deps heap i))"
    by (intro sum_mono2) simp_all
  then show ?thesis using \<open>r \<notin> ?u'\<close> by simp
qed

lemma collect_measure:
  "r < length heap \<Longrightarrow> om_get allP (plugin_id heap r) = None \<Longrightarrow>
    length (plugin_deps heap r) + n
      + (\<Sum>i \<in> uncollected heap (om_set (plugin_id heap r) r allP). length (plugin_deps heap i))
     < Suc (n + (\<Sum>i \<in> uncollected heap allP. length (plugin_deps heap i)))"
  using uncollected_set [of r heap allP] by (simp add: uncollected_def om_has_def)

text \<open>
  The worklist, its top first. A reference always points to an object; the first branch stands
  for the impossible case.
\<close>

function collect_plugins ::
    "plugin_heap \<Rightarrow> ref list \<Rightarrow> (string, ref) omap \<Rightarrow> plugin_error + (string, ref) omap" where
  "collect_plugins heap [] allP = Inr allP"
| "collect_plugins heap (r # toVisit) allP =
    (if \<not> r < length heap then Inl DanglingReference
     else case om_get allP (plugin_id heap r) of
       Some existing \<Rightarrow>
         if existing \<noteq> r then Inl (DuplicatePluginId (plugin_id heap r))
         else collect_plugins heap toVisit allP
     | None \<Rightarrow> collect_plugins heap (rev (plugin_deps heap r) @ toVisit) (om_set (plugin_id heap r) r allP))"
  by pat_completeness auto
termination
  by (relation "measure (\<lambda>(heap, toVisit, allP).
      length toVisit + (\<Sum>i \<in> uncollected heap allP. length (plugin_deps heap i)))")
    (auto dest: collect_measure)

record plugin_sort =
  ps_visited :: "string list"
  ps_visiting :: "string list"
  ps_sorted :: "ref list"

definition plugin_sort_init :: plugin_sort where
  "plugin_sort_init = \<lparr>ps_visited = [], ps_visiting = [], ps_sorted = []\<rparr>"

text \<open>
  The recursive visit. Each nested call has one more id in \<^verbatim>\<open>visiting\<close>, so the depth is bounded
  by the number of collected plugins, which \<open>resolvePluginOrder\<close> allows for.
\<close>

fun plugin_visit ::
    "plugin_heap \<Rightarrow> (string, ref) omap \<Rightarrow> nat \<Rightarrow> plugin_sort \<Rightarrow> ref \<Rightarrow> plugin_error + plugin_sort" where
  "plugin_visit heap allP 0 st r = Inl RecursionLimit"
| "plugin_visit heap allP (Suc depth) st r =
    (if plugin_id heap r \<in> set (ps_visited st) then Inr st
     else if plugin_id heap r \<in> set (ps_visiting st) then Inl (CircularPlugin (plugin_id heap r))
     else bindR
       (foldR (\<lambda>st dep. case om_get allP (plugin_id heap dep) of
            None \<Rightarrow> Inl (UnavailablePlugin (plugin_id heap r) (plugin_id heap dep))
          | Some resolved \<Rightarrow> plugin_visit heap allP depth st resolved)
         (st\<lparr>ps_visiting := ps_visiting st @ [plugin_id heap r]\<rparr>) (plugin_deps heap r))
       (\<lambda>st'. Inr (st'\<lparr>ps_visiting := filter (\<lambda>i. i \<noteq> plugin_id heap r) (ps_visiting st'),
                       ps_visited := ps_visited st' @ [plugin_id heap r],
                       ps_sorted := ps_sorted st' @ [r]\<rparr>)))"

definition resolvePluginOrder :: "plugin_heap \<Rightarrow> ref list \<Rightarrow> plugin_error + ref list" where
  "resolvePluginOrder heap plugins =
    bindR (collect_plugins heap plugins []) (\<lambda>allPlugins.
    bindR (foldR (plugin_visit heap allPlugins (Suc (length allPlugins))) plugin_sort_init (map snd allPlugins))
      (\<lambda>st. Inr (ps_sorted st)))"

section \<open>Global options\<close>

record global_options =
  gs_options :: "(string, string \<times> global_option) omap"
  gs_publicNames :: "(string, string) omap"

text \<open>The check of one public name; an owner with an empty id does not count as one.\<close>

definition check_global_name :: "string \<Rightarrow> string \<Rightarrow> global_options \<Rightarrow> string \<Rightarrow> plugin_error option" where
  "check_global_name pid name gs publicName =
    (if publicName \<in> set getReservedBuiltInGlobalArgumentNames
     then Some (ReservedGlobalOption (argumentFlagName name) pid (argumentFlagName publicName))
     else case om_get (gs_publicNames gs) publicName of
       None \<Rightarrow> None
     | Some owner \<Rightarrow> if owner \<noteq> [] then Some (DuplicateGlobalOption (argumentFlagName name) owner pid) else None)"

definition add_global_option :: "string \<Rightarrow> global_options \<Rightarrow> global_option \<Rightarrow> plugin_error + global_options" where
  "add_global_option pid gs opt =
    (case List.map_filter (check_global_name pid (go_name opt) gs) (getPublicArgumentNames (go_name opt)) of
      e # _ \<Rightarrow> Inl e
    | [] \<Rightarrow> Inr \<lparr>gs_options = om_set (go_name opt) (pid, opt) (gs_options gs),
               gs_publicNames = fold (\<lambda>publicName m. om_set publicName pid m)
                 (getPublicArgumentNames (go_name opt)) (gs_publicNames gs)\<rparr>)"

definition collectGlobalOptions ::
    "plugin list \<Rightarrow> plugin_error + (string, string \<times> global_option) omap" where
  "collectGlobalOptions plugins =
    bindR (foldR (\<lambda>gs p. foldR (add_global_option (pl_id p)) gs (or_empty (pl_globalOptions p)))
        \<lparr>gs_options = [], gs_publicNames = []\<rparr> plugins)
      (\<lambda>gs. Inr (gs_options gs))"

section \<open>What is collected\<close>

definition dep_edges :: "plugin_heap \<Rightarrow> (ref \<times> ref) set" where
  "dep_edges heap = {(r, d). r < length heap \<and> d \<in> set (plugin_deps heap r)}"

definition valid_refs :: "plugin_heap \<Rightarrow> bool" where
  "valid_refs heap \<longleftrightarrow> (\<forall>r < length heap. set (plugin_deps heap r) \<subseteq> {..<length heap})"

abbreviation reachable :: "plugin_heap \<Rightarrow> ref list \<Rightarrow> ref set" where
  "reachable heap plugins \<equiv> (dep_edges heap)\<^sup>* `` set plugins"

text \<open>The worklist invariant: what is collected is reachable, and what it needs is collected or waiting.\<close>

definition accounted :: "plugin_heap \<Rightarrow> ref list \<Rightarrow> (string, ref) omap \<Rightarrow> ref \<Rightarrow> bool" where
  "accounted heap toVisit allP d \<longleftrightarrow> om_get allP (plugin_id heap d) = Some d \<or> d \<in> set toVisit"

definition entry_ok :: "plugin_heap \<Rightarrow> ref list \<Rightarrow> string \<times> ref \<Rightarrow> bool" where
  "entry_ok heap plugins e \<longleftrightarrow> snd e < length heap \<and> plugin_id heap (snd e) = fst e \<and> snd e \<in> reachable heap plugins"

definition collecting :: "plugin_heap \<Rightarrow> ref list \<Rightarrow> ref list \<Rightarrow> (string, ref) omap \<Rightarrow> bool" where
  "collecting heap plugins toVisit allP \<longleftrightarrow>
    distinct (om_keys allP)
    \<and> (\<forall>e \<in> set allP. entry_ok heap plugins e \<and> (\<forall>d \<in> set (plugin_deps heap (snd e)). accounted heap toVisit allP d))
    \<and> (\<forall>r \<in> set plugins. accounted heap toVisit allP r)
    \<and> set toVisit \<subseteq> reachable heap plugins"

lemma accounted_new:
  "om_get allP (plugin_id heap r) = None \<Longrightarrow> accounted heap (r # toVisit) allP d \<Longrightarrow>
    accounted heap (xs @ toVisit) (om_set (plugin_id heap r) r allP) d"
  by (auto simp: accounted_def om_get_set)

lemma collecting_step:
  assumes inv: "collecting heap plugins (r # toVisit) allP" and r: "r < length heap"
    and new: "om_get allP (plugin_id heap r) = None"
  shows "collecting heap plugins (rev (plugin_deps heap r) @ toVisit) (om_set (plugin_id heap r) r allP)"
proof -
  have fresh: "plugin_id heap r \<notin> set (om_keys allP)" using new by (simp add: map_of_eq_None_iff)
  have reach: "r \<in> reachable heap plugins" using inv by (simp add: collecting_def)
  then have deps: "set (plugin_deps heap r) \<subseteq> reachable heap plugins"
    using r by (auto simp: dep_edges_def intro: rtrancl_into_rtrancl)
  have own: "accounted heap (rev (plugin_deps heap r) @ toVisit) allP' d" if "d \<in> set (plugin_deps heap r)" for d allP'
    using that by (simp add: accounted_def)
  have entries: "set (om_set (plugin_id heap r) r allP) = insert (plugin_id heap r, r) (set allP)"
    using fresh by (simp add: om_set_fresh)
  show ?thesis
    unfolding collecting_def entries
    using inv r reach deps own accounted_new [OF new]
    by (auto simp: collecting_def entry_ok_def distinct_om_set)
qed

lemma collecting_skip:
  assumes "collecting heap plugins (r # toVisit) allP" and "om_get allP (plugin_id heap r) = Some r"
  shows "collecting heap plugins toVisit allP"
proof -
  have "accounted heap toVisit allP d" if "accounted heap (r # toVisit) allP d" for d
    using that assms(2) by (auto simp: accounted_def)
  then show ?thesis using assms(1) by (simp add: collecting_def)
qed

lemma collect_plugins_collecting:
  "collect_plugins heap toVisit allP = Inr all' \<Longrightarrow> collecting heap plugins toVisit allP \<Longrightarrow>
    collecting heap plugins [] all'"
proof (induction heap toVisit allP rule: collect_plugins.induct)
  case (2 heap r toVisit allP)
  show ?case
  proof (cases "om_get allP (plugin_id heap r)")
    case None
    then show ?thesis using 2 collecting_step by (auto split: if_splits)
  next
    case (Some existing)
    then show ?thesis using 2 collecting_skip by (auto split: if_splits)
  qed
qed simp

section \<open>The visit as a depth-first visit over ids\<close>

definition resolve_id :: "(string, ref) omap \<Rightarrow> string \<Rightarrow> ref" where
  "resolve_id allP i = the (om_get allP i)"

definition sort_state :: "(string, ref) omap \<Rightarrow> string list \<Rightarrow> string list \<Rightarrow> plugin_sort" where
  "sort_state allP path ord = \<lparr>ps_visited = ord, ps_visiting = path, ps_sorted = map (resolve_id allP) ord\<rparr>"

definition visit_id ::
    "plugin_heap \<Rightarrow> (string, ref) omap \<Rightarrow> nat \<Rightarrow> string list \<Rightarrow> string list \<Rightarrow> string \<Rightarrow> plugin_error + string list" where
  "visit_id heap allP f path ord x =
    map_sum id ps_visited (plugin_visit heap allP f (sort_state allP path ord) (resolve_id allP x))"

definition dep_ids :: "plugin_heap \<Rightarrow> (string, ref) omap \<Rightarrow> string \<Rightarrow> string list" where
  "dep_ids heap allP x = map (plugin_id heap) (plugin_deps heap (resolve_id allP x))"

definition usable :: "plugin_heap \<Rightarrow> (string, ref) omap \<Rightarrow> bool" where
  "usable heap allP \<longleftrightarrow> distinct (om_keys allP)
    \<and> (\<forall>(k, r) \<in> set allP. plugin_id heap r = k \<and> (\<forall>d \<in> set (plugin_deps heap r). om_has allP (plugin_id heap d)))"

definition plugin_nodes :: "plugin_heap \<Rightarrow> (string, ref) omap \<Rightarrow> string set" where
  "plugin_nodes heap allP = (if usable heap allP then set (om_keys allP) else {})"

lemma resolve_node:
  assumes "x \<in> plugin_nodes heap allP"
  shows "om_get allP x = Some (resolve_id allP x)" and "plugin_id heap (resolve_id allP x) = x"
    and "\<And>d. d \<in> set (plugin_deps heap (resolve_id allP x)) \<Longrightarrow> om_has allP (plugin_id heap d)"
    and "\<And>d. d \<in> set (plugin_deps heap (resolve_id allP x)) \<Longrightarrow> plugin_id heap d \<in> plugin_nodes heap allP"
proof -
  have u: "usable heap allP" "x \<in> set (om_keys allP)" using assms by (auto simp: plugin_nodes_def split: if_splits)
  then obtain r where r: "om_get allP x = Some r" by (metis map_of_eq_None_iff not_None_eq set_map)
  then have mem: "(x, r) \<in> set allP" by (rule map_of_SomeD)
  show "om_get allP x = Some (resolve_id allP x)" using r by (simp add: resolve_id_def)
  show "plugin_id heap (resolve_id allP x) = x" using u(1) mem r by (auto simp: usable_def resolve_id_def)
  show has: "om_has allP (plugin_id heap d)" if "d \<in> set (plugin_deps heap (resolve_id allP x))" for d
    using that u(1) mem r by (auto simp: usable_def resolve_id_def)
  show "plugin_id heap d \<in> plugin_nodes heap allP" if "d \<in> set (plugin_deps heap (resolve_id allP x))" for d
    using has [OF that] u(1) by (simp add: plugin_nodes_def om_has_dom)
qed

abbreviation visit_dep :: "plugin_heap \<Rightarrow> (string, ref) omap \<Rightarrow> nat \<Rightarrow> ref \<Rightarrow> plugin_sort \<Rightarrow> ref \<Rightarrow> plugin_error + plugin_sort" where
  "visit_dep heap allP depth r \<equiv> (\<lambda>st dep. case om_get allP (plugin_id heap dep) of
      None \<Rightarrow> Inl (UnavailablePlugin (plugin_id heap r) (plugin_id heap dep))
    | Some resolved \<Rightarrow> plugin_visit heap allP depth st resolved)"

lemma visit_deps_ids:
  assumes "\<And>ord x. x \<in> plugin_nodes heap allP \<Longrightarrow>
      plugin_visit heap allP f (sort_state allP path ord) (resolve_id allP x)
      = map_sum id (sort_state allP path) (visit_id heap allP f path ord x)"
    and "\<And>d. d \<in> set ds \<Longrightarrow> plugin_id heap d \<in> plugin_nodes heap allP"
  shows "foldR (visit_dep heap allP f r) (sort_state allP path ord) ds
    = map_sum id (sort_state allP path) (foldR (visit_id heap allP f path) ord (map (plugin_id heap) ds))"
  using assms(2)
proof (induction ds arbitrary: ord)
  case (Cons d ds)
  then have d: "plugin_id heap d \<in> plugin_nodes heap allP" by simp
  have "visit_dep heap allP f r (sort_state allP path ord) d
      = map_sum id (sort_state allP path) (visit_id heap allP f path ord (plugin_id heap d))"
    using assms(1) [OF d] resolve_node(1) [OF d] by simp
  then show ?case
    using Cons by (cases "visit_id heap allP f path ord (plugin_id heap d)") simp_all
qed simp

lemma filter_path: "x \<notin> set path \<Longrightarrow> filter (\<lambda>i. i \<noteq> x) path = path"
  by (induction path) auto

lemma plugin_visit_ids:
  assumes "x \<in> plugin_nodes heap allP"
  shows "plugin_visit heap allP f (sort_state allP path ord) (resolve_id allP x)
    = map_sum id (sort_state allP path) (visit_id heap allP f path ord x)"
  using assms
proof (induction f arbitrary: path ord x)
  case 0
  then show ?case by (simp add: visit_id_def)
next
  case (Suc f)
  note node = resolve_node [OF Suc.prems]
  show ?case
  proof (cases "x \<in> set ord \<or> x \<in> set path")
    case True
    then show ?thesis using node(2) by (auto simp: visit_id_def sort_state_def)
  next
    case False
    have "foldR (visit_dep heap allP f (resolve_id allP x)) (sort_state allP (path @ [x]) ord)
        (plugin_deps heap (resolve_id allP x))
      = map_sum id (sort_state allP (path @ [x]))
          (foldR (visit_id heap allP f (path @ [x])) ord (map (plugin_id heap) (plugin_deps heap (resolve_id allP x))))"
      using Suc.IH node(4) by (intro visit_deps_ids)
    then show ?thesis
      using False node(2)
      by (cases "foldR (visit_id heap allP f (path @ [x])) ord (map (plugin_id heap) (plugin_deps heap (resolve_id allP x)))")
        (simp_all add: visit_id_def sort_state_def filter_path)
  qed
qed

lemma visit_id_new:
  assumes "x \<in> plugin_nodes heap allP" and "x \<notin> set ord" and "x \<notin> set path"
  shows "visit_id heap allP (Suc f) path ord x
    = bindR (foldR (visit_id heap allP f (path @ [x])) ord (dep_ids heap allP x)) (\<lambda>ord'. Inr (ord' @ [x]))"
proof -
  note node = resolve_node [OF assms(1)]
  have "foldR (visit_dep heap allP f (resolve_id allP x)) (sort_state allP (path @ [x]) ord)
      (plugin_deps heap (resolve_id allP x))
    = map_sum id (sort_state allP (path @ [x]))
        (foldR (visit_id heap allP f (path @ [x])) ord (map (plugin_id heap) (plugin_deps heap (resolve_id allP x))))"
    using plugin_visit_ids node(4) by (intro visit_deps_ids)
  then show ?thesis
    using assms node(2) unfolding dep_ids_def
    by (cases "foldR (visit_id heap allP f (path @ [x])) ord (map (plugin_id heap) (plugin_deps heap (resolve_id allP x)))")
      (simp_all add: visit_id_def sort_state_def)
qed

interpretation pl: dfs_visit "dep_ids heap allP" "plugin_nodes heap allP" "visit_id heap allP" "\<lambda>path x. CircularPlugin x"
  for heap allP
proof
  show "finite (plugin_nodes heap allP)" by (simp add: plugin_nodes_def)
next
  fix x assume "x \<in> plugin_nodes heap allP"
  then show "set (dep_ids heap allP x) \<subseteq> plugin_nodes heap allP" using resolve_node(4) by (auto simp: dep_ids_def)
next
  fix x ord f path assume "x \<in> plugin_nodes heap allP" "x \<in> set ord"
  then show "visit_id heap allP (Suc f) path ord x = Inr ord"
    using resolve_node(2) by (simp add: visit_id_def sort_state_def)
next
  fix x ord f path assume "x \<in> plugin_nodes heap allP" "x \<notin> set ord" "x \<in> set path"
  then show "visit_id heap allP (Suc f) path ord x = Inl (CircularPlugin x)"
    using resolve_node(2) by (simp add: visit_id_def sort_state_def)
qed (rule visit_id_new)

section \<open>The load order\<close>

abbreviation id_edges :: "plugin_heap \<Rightarrow> (string, ref) omap \<Rightarrow> (string \<times> string) set" where
  "id_edges heap allP \<equiv> dfs_visit.edges (dep_ids heap allP) (plugin_nodes heap allP)"

definition collected :: "plugin_heap \<Rightarrow> ref list \<Rightarrow> (string, ref) omap \<Rightarrow> bool" where
  "collected heap plugins allP \<longleftrightarrow> collecting heap plugins [] allP"

lemma collecting_init: "collecting heap plugins plugins []"
  by (auto simp: collecting_def accounted_def)

lemma collect_collected: "collect_plugins heap plugins [] = Inr allP \<Longrightarrow> collected heap plugins allP"
  using collect_plugins_collecting collecting_init unfolding collected_def by blast

lemma collected_entry:
  assumes "collected heap plugins allP" and "(k, r) \<in> set allP"
  shows "r < length heap" and "plugin_id heap r = k" and "r \<in> reachable heap plugins"
    and "\<And>d. d \<in> set (plugin_deps heap r) \<Longrightarrow> om_get allP (plugin_id heap d) = Some d"
  using assms by (fastforce simp: collected_def collecting_def entry_ok_def accounted_def)+

lemma collected_keys: "collected heap plugins allP \<Longrightarrow> distinct (om_keys allP)"
  by (simp add: collected_def collecting_def)

lemma collected_reachable:
  assumes "collected heap plugins allP" and "r \<in> reachable heap plugins"
  shows "om_get allP (plugin_id heap r) = Some r"
proof -
  obtain r0 where r0: "r0 \<in> set plugins" "(r0, r) \<in> (dep_edges heap)\<^sup>*" using assms(2) by blast
  from r0(2) show ?thesis
  proof (induction rule: rtrancl_induct)
    case base
    then show ?case using assms(1) r0(1) by (simp add: collected_def collecting_def accounted_def)
  next
    case (step r d)
    then have "(plugin_id heap r, r) \<in> set allP" by (simp add: map_of_SomeD)
    then show ?case using collected_entry(4) [OF assms(1)] step.hyps(2) by (simp add: dep_edges_def)
  qed
qed

lemma collected_usable: "collected heap plugins allP \<Longrightarrow> usable heap allP"
  using collected_entry collected_keys by (fastforce simp: usable_def om_has_def)

lemma collected_nodes: "collected heap plugins allP \<Longrightarrow> plugin_nodes heap allP = plugin_id heap ` reachable heap plugins"
proof -
  assume c: "collected heap plugins allP"
  have "set (om_keys allP) = plugin_id heap ` reachable heap plugins"
  proof (intro equalityI subsetI)
    fix k assume "k \<in> set (om_keys allP)"
    then obtain r where "(k, r) \<in> set allP" by auto
    then show "k \<in> plugin_id heap ` reachable heap plugins" using collected_entry(2,3) [OF c] by blast
  next
    fix k assume "k \<in> plugin_id heap ` reachable heap plugins"
    then obtain r where "k = plugin_id heap r" "om_get allP (plugin_id heap r) = Some r"
      using collected_reachable [OF c] by blast
    then show "k \<in> set (om_keys allP)" by (force dest: map_of_SomeD)
  qed
  then show ?thesis using collected_usable [OF c] by (simp add: plugin_nodes_def)
qed

lemma collected_resolve: "collected heap plugins allP \<Longrightarrow> r \<in> reachable heap plugins \<Longrightarrow> resolve_id allP (plugin_id heap r) = r"
  by (simp add: resolve_id_def collected_reachable)

lemma collected_inj: "collected heap plugins allP \<Longrightarrow> inj_on (plugin_id heap) (reachable heap plugins)"
  using collected_resolve unfolding inj_on_def by metis

lemma reachable_step: "r \<in> reachable heap plugins \<Longrightarrow> (r, d) \<in> dep_edges heap \<Longrightarrow> d \<in> reachable heap plugins"
  by (auto intro: rtrancl_into_rtrancl)

lemma id_edges_iff:
  assumes "collected heap plugins allP" and "r \<in> reachable heap plugins" and "r < length heap"
  shows "(plugin_id heap r, k) \<in> id_edges heap allP \<longleftrightarrow> (\<exists>d. (r, d) \<in> dep_edges heap \<and> k = plugin_id heap d)"
proof -
  have "plugin_id heap r \<in> plugin_nodes heap allP" using assms(2) by (simp only: collected_nodes [OF assms(1)]) (rule imageI)
  then show ?thesis
    using assms(3) collected_resolve [OF assms(1,2)] by (auto simp: pl.edges_def dep_ids_def dep_edges_def)
qed

lemma collected_below: "collected heap plugins allP \<Longrightarrow> r \<in> reachable heap plugins \<Longrightarrow> r < length heap"
  using collected_reachable collected_entry(1) by (metis map_of_SomeD)

lemma cycle_ids:
  assumes c: "collected heap plugins allP"
  shows "(\<exists>x \<in> plugin_nodes heap allP. (x, x) \<in> (id_edges heap allP)\<^sup>+)
    \<longleftrightarrow> (\<exists>r \<in> reachable heap plugins. (r, r) \<in> (dep_edges heap)\<^sup>+)"
proof
  assume "\<exists>r \<in> reachable heap plugins. (r, r) \<in> (dep_edges heap)\<^sup>+"
  then obtain r where r: "r \<in> reachable heap plugins" "(r, r) \<in> (dep_edges heap)\<^sup>+" by blast
  have "(plugin_id heap r, plugin_id heap d) \<in> (id_edges heap allP)\<^sup>+ \<and> d \<in> reachable heap plugins"
    if "(r, d) \<in> (dep_edges heap)\<^sup>+" for d
    using that
  proof (induction rule: trancl_induct)
    case (base d)
    then show ?case using id_edges_iff [OF c r(1)] collected_below [OF c r(1)] reachable_step r(1) by blast
  next
    case (step d e)
    then have "(plugin_id heap d, plugin_id heap e) \<in> id_edges heap allP"
      using id_edges_iff [OF c] collected_below [OF c] by blast
    then show ?case using step reachable_step by (meson trancl.trancl_into_trancl)
  qed
  then show "\<exists>x \<in> plugin_nodes heap allP. (x, x) \<in> (id_edges heap allP)\<^sup>+"
    using r collected_nodes [OF c] by blast
next
  assume "\<exists>x \<in> plugin_nodes heap allP. (x, x) \<in> (id_edges heap allP)\<^sup>+"
  then obtain r where r: "r \<in> reachable heap plugins" "(plugin_id heap r, plugin_id heap r) \<in> (id_edges heap allP)\<^sup>+"
    using collected_nodes [OF c] by auto
  have "\<exists>d. k = plugin_id heap d \<and> (r, d) \<in> (dep_edges heap)\<^sup>+ \<and> d \<in> reachable heap plugins"
    if "(plugin_id heap r, k) \<in> (id_edges heap allP)\<^sup>+" for k
    using that
  proof (induction rule: trancl_induct)
    case (base k)
    then show ?case using id_edges_iff [OF c r(1)] collected_below [OF c r(1)] reachable_step [OF r(1)] by blast
  next
    case (step k l)
    then obtain d where d: "k = plugin_id heap d" "(r, d) \<in> (dep_edges heap)\<^sup>+" "d \<in> reachable heap plugins" by blast
    then obtain e where e: "(d, e) \<in> dep_edges heap" "l = plugin_id heap e"
      using step.hyps(2) id_edges_iff [OF c d(3)] collected_below [OF c d(3)] by blast
    then have "(r, e) \<in> (dep_edges heap)\<^sup>+" using d(2) by (rule_tac trancl_into_trancl)
    then show ?case using e reachable_step [OF d(3) e(1)] by blast
  qed
  then obtain d where "plugin_id heap r = plugin_id heap d" "(r, d) \<in> (dep_edges heap)\<^sup>+" "d \<in> reachable heap plugins"
    using r(2) by blast
  then show "\<exists>r \<in> reachable heap plugins. (r, r) \<in> (dep_edges heap)\<^sup>+"
    using collected_inj [OF c] r(1) by (metis inj_onD)
qed

lemma visit_all_ids:
  assumes c: "collected heap plugins allP"
  shows "foldR (plugin_visit heap allP f) plugin_sort_init (map snd allP)
    = map_sum id (sort_state allP []) (foldR (visit_id heap allP f []) [] (om_keys allP))"
proof -
  have "foldR (plugin_visit heap allP f) (sort_state allP [] ord) (map snd es)
      = map_sum id (sort_state allP []) (foldR (visit_id heap allP f []) ord (om_keys es))"
    if "set es \<subseteq> set allP" for es ord
    using that
  proof (induction es arbitrary: ord)
    case (Cons e es)
    then have e: "(fst e, snd e) \<in> set allP" by simp
    then have r: "snd e \<in> reachable heap plugins" "plugin_id heap (snd e) = fst e"
      using collected_entry [OF c e] by simp_all
    then have "resolve_id allP (fst e) = snd e" using collected_resolve [OF c r(1)] by simp
    moreover have "fst e \<in> plugin_nodes heap allP"
      unfolding collected_nodes [OF c] using r by (metis imageI)
    ultimately have "plugin_visit heap allP f (sort_state allP [] ord) (snd e)
        = map_sum id (sort_state allP []) (visit_id heap allP f [] ord (fst e))"
      using plugin_visit_ids [of "fst e" heap allP f "[]" ord] by simp
    then show ?case using Cons by (cases "visit_id heap allP f [] ord (fst e)") simp_all
  qed simp
  from this [of allP "[]"] show ?thesis by (simp add: plugin_sort_init_def sort_state_def)
qed

lemma resolve_collected:
  assumes "collect_plugins heap plugins [] = Inr allP"
  shows "resolvePluginOrder heap plugins
    = map_sum id (map (resolve_id allP)) (foldR (visit_id heap allP (Suc (length allP)) []) [] (om_keys allP))"
  using assms visit_all_ids [OF collect_collected [OF assms]]
  by (cases "foldR (visit_id heap allP (Suc (length allP)) []) [] (om_keys allP)")
    (simp_all add: resolvePluginOrder_def sort_state_def)

lemma nodes_bounds:
  assumes "collected heap plugins allP"
  shows "plugin_nodes heap allP = set (om_keys allP)" and "card (plugin_nodes heap allP) < Suc (length allP)"
proof -
  show eq: "plugin_nodes heap allP = set (om_keys allP)"
    using collected_usable [OF assms] by (simp add: plugin_nodes_def)
  show "card (plugin_nodes heap allP) < Suc (length allP)"
    unfolding eq using card_length [of "om_keys allP"] by simp
qed

lemma collect_succeeds:
  assumes "set toVisit \<subseteq> {..<length heap}" and "valid_refs heap" and "inj_on (plugin_id heap) (reachable heap plugins)"
    and "collecting heap plugins toVisit allP"
  shows "\<exists>all'. collect_plugins heap toVisit allP = Inr all'"
  using assms
proof (induction heap toVisit allP rule: collect_plugins.induct)
  case (2 heap r toVisit allP)
  then have r: "r < length heap" "r \<in> reachable heap plugins" by (auto simp: collecting_def)
  show ?case
  proof (cases "om_get allP (plugin_id heap r)")
    case None
    have "set (rev (plugin_deps heap r) @ toVisit) \<subseteq> {..<length heap}"
      using 2(3,4) r(1) by (auto simp: valid_refs_def)
    then show ?thesis using 2 None r collecting_step [OF 2(6) r(1) None] by simp
  next
    case (Some existing)
    then have "(plugin_id heap r, existing) \<in> set allP" by (rule map_of_SomeD)
    then have "plugin_id heap existing = plugin_id heap r" "existing \<in> reachable heap plugins"
      using 2(6) by (fastforce simp: collecting_def entry_ok_def)+
    then have "existing = r" using 2(5) r(2) by (meson inj_onD)
    then show ?thesis using 2 Some r collecting_skip [OF 2(6)] by simp
  qed
qed simp


section \<open>Global option names\<close>

definition option_entries :: "plugin list \<Rightarrow> (string \<times> global_option) list" where
  "option_entries plugins = concat (map (\<lambda>p. map (Pair (pl_id p)) (or_empty (pl_globalOptions p))) plugins)"

definition entry_names :: "(string \<times> global_option) list \<Rightarrow> string list" where
  "entry_names es = concat (map (\<lambda>e. getPublicArgumentNames (go_name (snd e))) es)"

definition globals_inv :: "(string \<times> global_option) list \<Rightarrow> global_options \<Rightarrow> bool" where
  "globals_inv es gs \<longleftrightarrow> gs_options gs = map (\<lambda>e. (go_name (snd e), e)) es
    \<and> om_keys (gs_publicNames gs) = entry_names es \<and> distinct (entry_names es)
    \<and> (\<forall>owner \<in> snd ` set (gs_publicNames gs). owner \<noteq> [])
    \<and> set (entry_names es) \<inter> set getReservedBuiltInGlobalArgumentNames = {}"

lemma add_global_option_inv:
  assumes inv: "globals_inv es gs" and pid: "pid \<noteq> []" and add: "add_global_option pid gs opt = Inr gs'"
  shows "globals_inv (es @ [(pid, opt)]) gs'"
proof -
  let ?ps = "getPublicArgumentNames (go_name opt)"
  have checks: "\<forall>p \<in> set ?ps. check_global_name pid (go_name opt) gs p = None"
    using add by (auto simp: add_global_option_def map_filter_Nil split: list.splits)
  have free: "p \<notin> set getReservedBuiltInGlobalArgumentNames" "p \<notin> set (om_keys (gs_publicNames gs))" if "p \<in> set ?ps" for p
  proof -
    have c: "check_global_name pid (go_name opt) gs p = None" using checks that by blast
    show "p \<notin> set getReservedBuiltInGlobalArgumentNames"
      using c by (auto simp: check_global_name_def split: if_splits)
    have "om_get (gs_publicNames gs) p \<noteq> Some owner" if "owner \<noteq> []" for owner
      using c that by (auto simp: check_global_name_def split: if_splits)
    moreover have "owner \<noteq> []" if "om_get (gs_publicNames gs) p = Some owner" for owner
      using inv map_of_SomeD [OF that] by (force simp: globals_inv_def)
    ultimately have "om_get (gs_publicNames gs) p = None" by (cases "om_get (gs_publicNames gs) p") auto
    then show "p \<notin> set (om_keys (gs_publicNames gs))" by (simp add: map_of_eq_None_iff)
  qed
  have gs': "gs' = \<lparr>gs_options = om_set (go_name opt) (pid, opt) (gs_options gs),
      gs_publicNames = fold (\<lambda>p m. om_set p pid m) ?ps (gs_publicNames gs)\<rparr>"
    using add by (auto simp: add_global_option_def split: list.splits)
  have pub: "fold (\<lambda>p m. om_set p pid m) ?ps (gs_publicNames gs) = gs_publicNames gs @ map (\<lambda>p. (p, pid)) ?ps"
    using free(2) by (intro fold_om_set_append) auto
  have "go_name opt \<notin> set (om_keys (gs_options gs))"
  proof
    assume "go_name opt \<in> set (om_keys (gs_options gs))"
    then have "go_name opt \<in> set (entry_names es)" using inv by (force simp: globals_inv_def entry_names_def)
    then have "go_name opt \<in> set (om_keys (gs_publicNames gs))" using inv by (simp only: globals_inv_def)
    then show False using free(2) [OF public_self] by blast
  qed
  then have "om_set (go_name opt) (pid, opt) (gs_options gs) = gs_options gs @ [(go_name opt, (pid, opt))]"
    by (rule om_set_fresh)
  then show ?thesis
    using inv pid free pub unfolding gs' by (auto simp: globals_inv_def entry_names_def comp_def)
qed

lemma add_plugin_options_inv:
  "foldR (add_global_option pid) gs opts = Inr gs' \<Longrightarrow> globals_inv es gs \<Longrightarrow> pid \<noteq> [] \<Longrightarrow>
    globals_inv (es @ map (Pair pid) opts) gs'"
proof (induction opts arbitrary: es gs)
  case (Cons opt opts)
  then show ?case using add_global_option_inv [of es gs pid opt] by fastforce
qed simp

lemma add_options_inv:
  "foldR (\<lambda>gs p. foldR (add_global_option (pl_id p)) gs (or_empty (pl_globalOptions p))) gs plugins = Inr gs' \<Longrightarrow>
    globals_inv es gs \<Longrightarrow> (\<And>p. p \<in> set plugins \<Longrightarrow> pl_id p \<noteq> []) \<Longrightarrow> globals_inv (es @ option_entries plugins) gs'"
proof (induction plugins arbitrary: es gs)
  case Nil
  then show ?case by (simp add: option_entries_def)
next
  case (Cons p plugins)
  then obtain gs1 where gs1: "foldR (add_global_option (pl_id p)) gs (or_empty (pl_globalOptions p)) = Inr gs1"
    and rest: "foldR (\<lambda>gs p. foldR (add_global_option (pl_id p)) gs (or_empty (pl_globalOptions p))) gs1 plugins = Inr gs'"
    by auto
  have "globals_inv (es @ map (Pair (pl_id p)) (or_empty (pl_globalOptions p))) gs1"
    using add_plugin_options_inv [OF gs1] Cons.prems by simp
  from Cons.IH [OF rest this] show ?case using Cons.prems(3) by (simp add: option_entries_def)
qed

section \<open>Properties\<close>

text \<open>
  C32: the load order holds every plugin reachable from the configured ones exactly once, under
  distinct ids, and each plugin after all the plugins it depends on.
\<close>

theorem plugin_order_sound:
  assumes "resolvePluginOrder heap plugins = Inr order"
  shows "set order = reachable heap plugins \<and> distinct (map (plugin_id heap) order)
    \<and> (\<forall>ys r zs. order = ys @ r # zs \<longrightarrow> set (plugin_deps heap r) \<subseteq> set ys)"
proof -
  obtain allP where coll: "collect_plugins heap plugins [] = Inr allP"
    using assms by (auto simp: resolvePluginOrder_def)
  note c = collect_collected [OF coll]
  obtain ord where ord: "foldR (visit_id heap allP (Suc (length allP)) []) [] (om_keys allP) = Inr ord"
    and order: "order = map (resolve_id allP) ord"
    using assms resolve_collected [OF coll]
    by (cases "foldR (visit_id heap allP (Suc (length allP)) []) [] (om_keys allP)") auto
  have bounds: "card (plugin_nodes heap allP) < Suc (length allP)" "set (om_keys allP) \<subseteq> plugin_nodes heap allP"
    using nodes_bounds [OF c] by auto
  have "dfs_visit.ordered (dep_ids heap allP) (plugin_nodes heap allP) ord" and "set ord = (id_edges heap allP)\<^sup>* `` set (om_keys allP)"
    using pl.run_Inr [OF bounds ord] .
  then have "distinct ord" "set ord \<subseteq> plugin_nodes heap allP" "set (om_keys allP) \<subseteq> set ord"
    and before: "\<And>ys y zs. ord = ys @ y # zs \<Longrightarrow> set (dep_ids heap allP y) \<subseteq> set ys"
    unfolding pl.ordered_def by auto
  then have set_ord: "set ord = plugin_nodes heap allP" using nodes_bounds(1) [OF c] by simp
  have ids: "map (plugin_id heap) order = ord"
    using set_ord resolve_node(2) by (auto simp: order intro!: map_idI)
  have "set order = resolve_id allP ` (plugin_id heap ` reachable heap plugins)"
    by (simp only: order set_map set_ord collected_nodes [OF c])
  also have "\<dots> = reachable heap plugins"
    using collected_resolve [OF c] by (auto simp: image_image)
  finally have set_order: "set order = reachable heap plugins" .
  have "set (plugin_deps heap r) \<subseteq> set ys" if split: "order = ys @ r # zs" for ys r zs
  proof
    fix d assume d: "d \<in> set (plugin_deps heap r)"
    have r: "r \<in> reachable heap plugins" using split set_order by auto
    then have dr: "d \<in> reachable heap plugins"
      using d collected_below [OF c r] by (intro reachable_step [OF r]) (simp add: dep_edges_def)
    have "ord = map (plugin_id heap) ys @ plugin_id heap r # map (plugin_id heap) zs"
      using ids split by simp
    from before [OF this] have "plugin_id heap d \<in> plugin_id heap ` set ys"
      using d collected_resolve [OF c r] by (auto simp: dep_ids_def)
    then obtain e where "e \<in> set ys" "plugin_id heap d = plugin_id heap e" by blast
    then show "d \<in> set ys"
      using collected_inj [OF c] dr set_order split by (metis Un_iff inj_onD set_append)
  qed
  then show ?thesis using set_order ids \<open>distinct ord\<close> by simp
qed

text \<open>Three plugins: the first needs the other two, the second the third.\<close>

definition ex_plugin :: "string \<Rightarrow> ref list \<Rightarrow> plugin" where
  "ex_plugin name deps = \<lparr>pl_id = name, pl_dependencies = Some deps,
     pl_globalOptions = Some [\<lparr>go_name = name, go_type = ArgSTRING, go_defaultValue = JUndef\<rparr>]\<rparr>"

definition ex_heap :: plugin_heap where
  "ex_heap = [ex_plugin ''deploy'' [1, 2], ex_plugin ''leo'' [2], ex_plugin ''core'' []]"

lemma ex_heap_order: "resolvePluginOrder ex_heap [0] = Inr [2, 1, 0]"
  by code_simp

theorem plugin_order_sound_witness:
  "set [2, 1, 0] = reachable ex_heap [0] \<and> distinct (map (plugin_id ex_heap) [2, 1, 0])"
  using plugin_order_sound [OF ex_heap_order] by blast

text \<open>
  The plugin order exists exactly when no two reachable plugins share an id and no reachable
  plugin depends on itself through others; then the visit never runs out of its depth bound.
\<close>

theorem plugin_order_exists:
  assumes "valid_refs heap" and "set plugins \<subseteq> {..<length heap}"
  shows "(\<exists>order. resolvePluginOrder heap plugins = Inr order) \<longleftrightarrow>
    inj_on (plugin_id heap) (reachable heap plugins)
    \<and> (\<forall>r \<in> reachable heap plugins. (r, r) \<notin> (dep_edges heap)\<^sup>+)"
proof -
  have run: "(\<exists>order. resolvePluginOrder heap plugins = Inr order)
      \<longleftrightarrow> (\<forall>r \<in> reachable heap plugins. (r, r) \<notin> (dep_edges heap)\<^sup>+)"
    if coll: "collect_plugins heap plugins [] = Inr allP" for allP
  proof -
    note c = collect_collected [OF coll]
    have bounds: "card (plugin_nodes heap allP) < Suc (length allP)" "set (om_keys allP) \<subseteq> plugin_nodes heap allP"
      "plugin_nodes heap allP \<subseteq> (id_edges heap allP)\<^sup>* `` set (om_keys allP)"
      using nodes_bounds [OF c] by auto
    have "(\<exists>order. resolvePluginOrder heap plugins = Inr order)
        \<longleftrightarrow> (\<exists>ord. foldR (visit_id heap allP (Suc (length allP)) []) [] (om_keys allP) = Inr ord)"
      using resolve_collected [OF coll]
      by (cases "foldR (visit_id heap allP (Suc (length allP)) []) [] (om_keys allP)") simp_all
    then show ?thesis using pl.run_succeeds_iff [OF bounds] cycle_ids [OF c] by blast
  qed
  show ?thesis
  proof
    assume ex: "\<exists>order. resolvePluginOrder heap plugins = Inr order"
    then obtain allP where coll: "collect_plugins heap plugins [] = Inr allP"
      by (auto simp: resolvePluginOrder_def)
    show "inj_on (plugin_id heap) (reachable heap plugins) \<and> (\<forall>r \<in> reachable heap plugins. (r, r) \<notin> (dep_edges heap)\<^sup>+)"
      using ex run [OF coll] collected_inj [OF collect_collected [OF coll]] by blast
  next
    assume ok: "inj_on (plugin_id heap) (reachable heap plugins)
      \<and> (\<forall>r \<in> reachable heap plugins. (r, r) \<notin> (dep_edges heap)\<^sup>+)"
    then obtain allP where "collect_plugins heap plugins [] = Inr allP"
      using collect_succeeds [OF assms(2,1) _ collecting_init] by blast
    then show "\<exists>order. resolvePluginOrder heap plugins = Inr order" using run ok by blast
  qed
qed

theorem plugin_order_exists_witness:
  "inj_on (plugin_id ex_heap) (reachable ex_heap [0])
    \<and> (0, 0) \<notin> (dep_edges ex_heap)\<^sup>+"
proof -
  have "valid_refs ex_heap"
    by (auto simp: valid_refs_def ex_heap_def ex_plugin_def plugin_deps_def or_empty_def All_less_Suc numeral_2_eq_2)
  then have "inj_on (plugin_id ex_heap) (reachable ex_heap [0])
    \<and> (\<forall>r \<in> reachable ex_heap [0]. (r, r) \<notin> (dep_edges ex_heap)\<^sup>+)"
    using plugin_order_exists [of ex_heap "[0]"] ex_heap_order by (simp add: ex_heap_def)
  then show ?thesis by (auto intro: ImageI rtrancl_refl)
qed

text \<open>
  Collected global options keep the order of registration, and no public spelling is shared
  by two of them or taken from a built-in option, as far as plugin ids are not empty.
\<close>

theorem global_options_unambiguous:
  assumes "collectGlobalOptions plugins = Inr opts" and "\<forall>p \<in> set plugins. pl_id p \<noteq> []"
  shows "opts = map (\<lambda>e. (go_name (snd e), e)) (option_entries plugins)
    \<and> distinct (entry_names (option_entries plugins))
    \<and> set (entry_names (option_entries plugins)) \<inter> set getReservedBuiltInGlobalArgumentNames = {}"
proof -
  obtain gs where "foldR (\<lambda>gs p. foldR (add_global_option (pl_id p)) gs (or_empty (pl_globalOptions p)))
      \<lparr>gs_options = [], gs_publicNames = []\<rparr> plugins = Inr gs" and opts: "opts = gs_options gs"
    using assms(1) by (auto simp: collectGlobalOptions_def)
  from add_options_inv [OF this(1), of "[]"] have "globals_inv (option_entries plugins) gs"
    using assms(2) by (simp add: globals_inv_def entry_names_def)
  then show ?thesis by (simp add: globals_inv_def opts)
qed


theorem global_options_unambiguous_witness:
  "distinct (entry_names (option_entries ex_heap))"
proof -
  have "\<not> isl (collectGlobalOptions ex_heap)" by code_simp
  moreover have "\<forall>p \<in> set ex_heap. pl_id p \<noteq> []" by (simp add: ex_heap_def ex_plugin_def)
  ultimately show ?thesis
    using global_options_unambiguous [of ex_heap "projr (collectGlobalOptions ex_heap)"] by simp
qed

end
