(* ===== verification/Scrubber.thy ===== *)
theory Scrubber imports Values begin

text \<open>
  Leo source text: \<^verbatim>\<open>leo-compiler/src/source-scrubber.ts\<close> blanks comments and string literals, and
  the scanners of \<^verbatim>\<open>import-parser.ts\<close> and \<^verbatim>\<open>source-discovery.ts\<close> read program ids in what is
  left. The lemmas show that blanking keeps every position and line, leaves no comment and no
  literal, and changes nothing more when repeated.
\<close>

section \<open>Comments and strings\<close>

definition newline :: char where "newline = char_of (10 :: nat)"

abbreviation space :: char where "space \<equiv> CHR '' ''"
abbreviation slash :: char where "slash \<equiv> CHR ''/''"
abbreviation star :: char where "star \<equiv> CHR ''*''"

definition is_quote :: "char \<Rightarrow> bool" where
  "is_quote c \<longleftrightarrow> c = char_of (34 :: nat) \<or> c = char_of (39 :: nat)"

definition blank :: "char \<Rightarrow> char" where
  "blank c = (if c = newline then newline else space)"

text \<open>The inner loops: what each pushes to \<^verbatim>\<open>out\<close>, and the source from the index it stops at.\<close>

fun scrub_line :: "string \<Rightarrow> string \<times> string" where
  "scrub_line [] = ([], [])"
| "scrub_line (c # cs) = (if c = newline then ([], c # cs) else (case scrub_line cs of (out, rest) \<Rightarrow> (space # out, rest)))"

fun scrub_block :: "string \<Rightarrow> string \<times> string" where
  "scrub_block [] = ([], [])"
| "scrub_block (c # cs) =
    (if c = star \<and> cs \<noteq> [] \<and> hd cs = slash then ([space, space], tl cs)
     else (case scrub_block cs of (out, rest) \<Rightarrow> (blank c # out, rest)))"

fun scrub_string :: "char \<Rightarrow> string \<Rightarrow> string \<times> string" where
  "scrub_string q [] = ([], [])"
| "scrub_string q (c # cs) =
    (if c = q then ([space], cs) else (case scrub_string q cs of (out, rest) \<Rightarrow> (blank c # out, rest)))"

lemma scrub_line_rest: "length (snd (scrub_line cs)) \<le> length cs"
  by (induction cs) (auto split: prod.splits)

lemma scrub_block_rest: "length (snd (scrub_block cs)) \<le> length cs"
  by (induction cs) (auto split: prod.splits)

lemma scrub_string_rest: "length (snd (scrub_string q cs)) \<le> length cs"
  by (induction cs) (auto split: prod.splits)

lemma slash_newline [simp]: "slash \<noteq> newline"
  by code_simp

lemma scrub_shorter:
  "(out, rest) = scrub_line (slash # cs) \<Longrightarrow> length rest < Suc (length cs)"
  "(out, rest) = scrub_block (tl cs) \<Longrightarrow> length rest < Suc (length cs)"
  "(out, rest) = scrub_string q cs \<Longrightarrow> length rest < Suc (length cs)"
proof -
  show "length rest < Suc (length cs)" if "(out, rest) = scrub_line (slash # cs)"
    using that scrub_line_rest [of cs] by (cases "scrub_line cs") simp
  show "length rest < Suc (length cs)" if "(out, rest) = scrub_block (tl cs)"
    using scrub_block_rest [of "tl cs"] by (simp flip: that)
  show "length rest < Suc (length cs)" if "(out, rest) = scrub_string q cs"
    using scrub_string_rest [of q cs] by (simp flip: that)
qed

function stripCommentsAndStrings :: "string \<Rightarrow> string" where
  "stripCommentsAndStrings [] = []"
| "stripCommentsAndStrings (c # cs) =
    (if c = slash \<and> cs \<noteq> [] \<and> hd cs = slash then
       (case scrub_line (slash # cs) of (out, rest) \<Rightarrow> out @ stripCommentsAndStrings rest)
     else if c = slash \<and> cs \<noteq> [] \<and> hd cs = star then
       (case scrub_block (tl cs) of (out, rest) \<Rightarrow> [space, space] @ out @ stripCommentsAndStrings rest)
     else if is_quote c then
       (case scrub_string c cs of (out, rest) \<Rightarrow> [space] @ out @ stripCommentsAndStrings rest)
     else c # stripCommentsAndStrings cs)"
  by pat_completeness auto
termination
  by (relation "measure length")
    (auto dest: scrub_shorter simp del: scrub_line.simps)

section \<open>What scrubbing keeps and removes\<close>

text \<open>Position by position: a character stays, or becomes a space when it is no newline.\<close>

definition blanked :: "char \<Rightarrow> char \<Rightarrow> bool" where
  "blanked a b \<longleftrightarrow> b = a \<or> b = space \<and> a \<noteq> newline"

text \<open>No string delimiter, and no slash before a slash or a star.\<close>

fun clean :: "string \<Rightarrow> bool" where
  "clean [] = True"
| "clean (c # cs) \<longleftrightarrow> \<not> is_quote c \<and> \<not> (c = slash \<and> cs \<noteq> [] \<and> (hd cs = slash \<or> hd cs = star)) \<and> clean cs"

definition plain :: "char \<Rightarrow> bool" where
  "plain c \<longleftrightarrow> c = space \<or> c = newline"

lemma plain_simps [simp]: "plain space" "plain newline" "plain (blank c)" "blanked a a" "blanked c (blank c)"
  by (simp_all add: plain_def blank_def blanked_def)

lemma space_no_quote [simp]: "\<not> is_quote space"
  by code_simp

lemma quote_slash: "is_quote c \<Longrightarrow> c \<noteq> slash"
proof -
  have "\<not> is_quote slash" by code_simp
  then show "is_quote c \<Longrightarrow> c \<noteq> slash" by auto
qed

lemma plain_facts: "plain c \<Longrightarrow> \<not> is_quote c \<and> c \<noteq> slash"
proof -
  have "\<not> is_quote space" "\<not> is_quote newline" "newline \<noteq> slash" by code_simp+
  then show "plain c \<Longrightarrow> \<not> is_quote c \<and> c \<noteq> slash" by (auto simp: plain_def)
qed

lemma blanked_marks: "blanked star space" "blanked slash space" "is_quote c \<Longrightarrow> blanked c space"
proof -
  have n: "newline \<noteq> star" "newline \<noteq> slash" "\<not> is_quote newline" by code_simp+
  then show "blanked star space" "blanked slash space" by (simp_all add: blanked_def)
  show "is_quote c \<Longrightarrow> blanked c space" using n by (auto simp: blanked_def)
qed

lemma clean_append: "list_all plain out \<Longrightarrow> clean (out @ cs) = clean cs"
  by (induction out) (auto dest: plain_facts)

lemma scrub_line_ok:
  "scrub_line cs = (out, rest) \<Longrightarrow> list_all plain out \<and> (\<exists>used. cs = used @ rest \<and> list_all2 blanked used out)"
proof (induction cs arbitrary: out)
  case (Cons c cs)
  show ?case
  proof (cases "c = newline")
    case False
    then obtain out' where o: "scrub_line cs = (out', rest)" "out = space # out'"
      using Cons.prems by (auto split: prod.splits)
    then obtain used where "list_all plain out'" "cs = used @ rest" "list_all2 blanked used out'"
      using Cons.IH by blast
    then show ?thesis using o(2) False by (auto intro!: exI [of _ "c # used"] simp: blanked_def [of c])
  qed (use Cons.prems in auto)
qed simp

lemma scrub_block_ok:
  "scrub_block cs = (out, rest) \<Longrightarrow> list_all plain out \<and> (\<exists>used. cs = used @ rest \<and> list_all2 blanked used out)"
proof (induction cs arbitrary: out)
  case (Cons c cs)
  show ?case
  proof (cases "c = star \<and> cs \<noteq> [] \<and> hd cs = slash")
    case True
    then have "out = [space, space]" "c # cs = [star, slash] @ rest" using Cons.prems by (auto simp: neq_Nil_conv)
    then show ?thesis using blanked_marks by (auto intro!: exI [of _ "[star, slash]"])
  next
    case False
    then obtain out' where o: "scrub_block cs = (out', rest)" "out = blank c # out'"
      using Cons.prems by (auto split: prod.splits if_splits)
    then obtain used where "list_all plain out'" "cs = used @ rest" "list_all2 blanked used out'"
      using Cons.IH by blast
    then show ?thesis using o(2) by (auto intro!: exI [of _ "c # used"])
  qed
qed simp

lemma scrub_string_ok:
  "scrub_string q cs = (out, rest) \<Longrightarrow> is_quote q \<Longrightarrow>
    list_all plain out \<and> (\<exists>used. cs = used @ rest \<and> list_all2 blanked used out)"
proof (induction cs arbitrary: out)
  case (Cons c cs)
  show ?case
  proof (cases "c = q")
    case True
    then have "out = [space]" "c # cs = [q] @ rest" using Cons.prems by auto
    then show ?thesis using blanked_marks(3) [OF Cons.prems(2)] by (auto intro!: exI [of _ "[q]"])
  next
    case False
    then obtain out' where o: "scrub_string q cs = (out', rest)" "out = blank c # out'"
      using Cons.prems by (auto split: prod.splits if_splits)
    then obtain used where "list_all plain out'" "cs = used @ rest" "list_all2 blanked used out'"
      using Cons.IH Cons.prems(2) by blast
    then show ?thesis using o(2) by (auto intro!: exI [of _ "c # used"])
  qed
qed simp


lemma blanked_hd:
  assumes "list_all2 blanked cs out" and "c = slash" and "\<not> (cs \<noteq> [] \<and> (hd cs = slash \<or> hd cs = star))"
  shows "\<not> (out \<noteq> [] \<and> (hd out = slash \<or> hd out = star))"
  using assms by (cases cs; cases out) (auto simp: blanked_def)

lemma strip_ok: "list_all2 blanked s (stripCommentsAndStrings s) \<and> clean (stripCommentsAndStrings s)"
proof (induction s rule: stripCommentsAndStrings.induct)
  case (2 c cs)
  consider (line) "c = slash" "cs \<noteq> []" "hd cs = slash" | (block) "c = slash" "cs \<noteq> []" "hd cs = star"
    | (str) "is_quote c" "\<not> (c = slash \<and> cs \<noteq> [] \<and> hd cs = slash)" "\<not> (c = slash \<and> cs \<noteq> [] \<and> hd cs = star)"
    | (code) "\<not> is_quote c" "\<not> (c = slash \<and> cs \<noteq> [] \<and> hd cs = slash)" "\<not> (c = slash \<and> cs \<noteq> [] \<and> hd cs = star)"
    by blast
  then show ?case
  proof cases
    case line
    obtain out rest where r: "scrub_line (slash # cs) = (out, rest)" by fastforce
    obtain used where u: "list_all plain out" "slash # cs = used @ rest" "list_all2 blanked used out"
      using scrub_line_ok [OF r] by blast
    have eq: "stripCommentsAndStrings (c # cs) = out @ stripCommentsAndStrings rest"
      using line r by (simp del: scrub_line.simps)
    have IH: "list_all2 blanked rest (stripCommentsAndStrings rest) \<and> clean (stripCommentsAndStrings rest)"
      using 2(1) [OF _ r [symmetric]] line by blast
    show ?thesis unfolding eq unfolding line(1) u(2)
      using IH u by (simp add: clean_append list_all2_appendI)
  next
    case block
    obtain out rest where r: "scrub_block (tl cs) = (out, rest)" by fastforce
    obtain used where u: "list_all plain out" "tl cs = used @ rest" "list_all2 blanked used out"
      using scrub_block_ok [OF r] by blast
    have "cs = star # used @ rest" using block u(2) by (cases cs) auto
    then show ?thesis using 2(2) [OF _ _ r [symmetric]] block r u blanked_marks
      clean_append [of "space # space # out"] by (simp add: list_all2_appendI del: scrub_block.simps)
  next
    case str
    obtain out rest where r: "scrub_string c cs = (out, rest)" by fastforce
    obtain used where u: "list_all plain out" "cs = used @ rest" "list_all2 blanked used out"
      using scrub_string_ok [OF r str(1)] by blast
    then show ?thesis using 2(3) [OF _ _ _ r [symmetric]] str r quote_slash [OF str(1)] blanked_marks(3) [OF str(1)]
      clean_append [of "space # out"] by (simp add: list_all2_appendI del: scrub_string.simps)
  next
    case code
    then have "list_all2 blanked cs (stripCommentsAndStrings cs)" "clean (stripCommentsAndStrings cs)"
      using 2(4) by blast+
    then show ?thesis using code blanked_hd [of cs "stripCommentsAndStrings cs" c] by auto
  qed
qed simp

lemma strip_clean: "clean s \<Longrightarrow> stripCommentsAndStrings s = s"
  by (induction s rule: clean.induct) auto

lemma strip_idem: "stripCommentsAndStrings (stripCommentsAndStrings s) = stripCommentsAndStrings s"
  using strip_clean strip_ok by blast


section \<open>Scanning for program ids\<close>

text \<open>
  The expressions the code scans with, as matchers at the head of the text: the captured id and
  the text after the match. A maximal word is always taken: a shorter one is never followed by
  the dot that has to come next.
\<close>

definition is_word :: "char \<Rightarrow> bool" where
  "is_word c \<longleftrightarrow> is_digit c \<or> is_lower c \<or> is_upper c \<or> c = CHR ''_''"

fun strip_prefix :: "string \<Rightarrow> string \<Rightarrow> string option" where
  "strip_prefix [] s = Some s"
| "strip_prefix (p # ps) [] = None"
| "strip_prefix (p # ps) (c # cs) = (if p = c then strip_prefix ps cs else None)"

lemma strip_prefix_Some: "strip_prefix p s = Some r \<longleftrightarrow> s = p @ r"
  by (induction p s rule: strip_prefix.induct) auto

text \<open>\<^verbatim>\<open>([\w]+\.aleo)\<close>\<close>

definition match_id :: "string \<Rightarrow> (string \<times> string) option" where
  "match_id s = (let w = takeWhile is_word s in
     if w = [] then None
     else map_option (Pair (w @ ''.aleo'')) (strip_prefix ''.aleo'' (dropWhile is_word s)))"

definition skip_spaces :: "string \<Rightarrow> string" where
  "skip_spaces s = dropWhile is_js_space s"

definition match_spaces :: "string \<Rightarrow> string option" where
  "match_spaces s = (if s \<noteq> [] \<and> is_js_space (hd s) then Some (skip_spaces s) else None)"

text \<open>\<^verbatim>\<open>import\s+([\w]+\.aleo)\s*;\<close>, \<^verbatim>\<open>([\w]+\.aleo)::\<close> and \<^verbatim>\<open>([\w]+\.aleo)/\<close>\<close>

definition match_import :: "string \<Rightarrow> (string \<times> string) option" where
  "match_import s = Option.bind (strip_prefix ''import'' s) (\<lambda>s1. Option.bind (match_spaces s1) (\<lambda>s2.
     Option.bind (match_id s2) (\<lambda>(n, s3). map_option (Pair n) (strip_prefix '';'' (skip_spaces s3)))))"

definition match_call :: "string \<Rightarrow> string \<Rightarrow> (string \<times> string) option" where
  "match_call sep s = Option.bind (match_id s) (\<lambda>(n, s1). map_option (Pair n) (strip_prefix sep s1))"

lemma match_id_shorter:
  assumes "match_id s = Some (n, r)"
  shows "length r < length s"
proof -
  have w: "dropWhile is_word s = ''.aleo'' @ r"
    using assms by (auto simp: match_id_def Let_def strip_prefix_Some split: if_splits)
  then show ?thesis using length_dropWhile_le [of is_word s] by simp
qed

lemma match_call_shorter: "match_call sep s = Some (n, r) \<Longrightarrow> length r < length s"
  by (auto simp: match_call_def strip_prefix_Some bind_eq_Some_conv dest!: match_id_shorter)

lemma match_import_shorter:
  assumes "match_import s = Some (n, r)"
  shows "length r < length s"
proof -
  obtain s1 s2 s3 where s: "s = ''import'' @ s1" and s2: "match_spaces s1 = Some s2"
    and id: "match_id s2 = Some (n, s3)" and r: "skip_spaces s3 = '';'' @ r"
    using assms by (auto simp: match_import_def strip_prefix_Some bind_eq_Some_conv)
  have "length s2 \<le> length s1"
    using s2 by (auto simp: match_spaces_def skip_spaces_def length_dropWhile_le split: if_splits)
  moreover have "length s3 < length s2" by (rule match_id_shorter [OF id])
  moreover have "Suc (length r) \<le> length s3"
    using length_dropWhile_le [of is_js_space s3] r by (simp add: skip_spaces_def)
  ultimately show ?thesis using s by simp
qed

text \<open>The loop over \<^verbatim>\<open>exec\<close> with the global flag: on from after each match.\<close>

function scan_all :: "(string \<Rightarrow> (string \<times> string) option) \<Rightarrow> string \<Rightarrow> string list" where
  "scan_all m [] = []"
| "scan_all m (c # cs) =
    (case m (c # cs) of
      Some (n, r) \<Rightarrow> if length r \<le> length cs then n # scan_all m r else []
    | None \<Rightarrow> scan_all m cs)"
  by pat_completeness auto
termination by (relation "measure (\<lambda>(m, s). length s)") auto

definition unit_imports :: "string list \<Rightarrow> string list" where
  "unit_imports sources = js_dedup (concat (map (\<lambda>src. let content = stripCommentsAndStrings src in
      scan_all match_import content @ scan_all (match_call ''::'') content @ scan_all (match_call ''/'') content)
    sources))"

text \<open>
  \<^verbatim>\<open>\bprogram\s+([\w]+\.aleo)\s*(?=[:{])\<close>, the first match in the text; \<open>prev\<close> tells whether the
  character before is a word character. The offset and length of the id come with it.
\<close>

definition match_program :: "string \<Rightarrow> (string \<times> nat) option" where
  "match_program s = Option.bind (strip_prefix ''program'' s) (\<lambda>s1. Option.bind (match_spaces s1) (\<lambda>s2.
     Option.bind (match_id s2) (\<lambda>(n, s3).
       (case skip_spaces s3 of c # _ \<Rightarrow> if c = CHR '':'' \<or> c = CHR ''{'' then Some (n, length s - length s2) else None
        | [] \<Rightarrow> None))))"

fun find_program :: "bool \<Rightarrow> string \<Rightarrow> (string \<times> nat) option" where
  "find_program prev [] = None"
| "find_program prev (c # cs) =
    (case (if prev then None else match_program (c # cs)) of
      Some (n, off) \<Rightarrow> Some (n, off)
    | None \<Rightarrow> map_option (\<lambda>(n, off). (n, Suc off)) (find_program (is_word c) cs))"

definition extractProgramId :: "string \<Rightarrow> string option" where
  "extractProgramId src = map_option fst (find_program False (stripCommentsAndStrings src))"

lemma word_marks: "\<not> is_word (CHR ''.'')" "is_word (CHR ''a'')" "is_word (CHR ''l'')" "is_word (CHR ''e'')" "is_word (CHR ''o'')"
  by code_simp+

lemma match_id_word:
  assumes "list_all is_word w" and "w \<noteq> []"
  shows "match_id (w @ ''.aleo'' @ r) = Some (w @ ''.aleo'', r)"
proof -
  have "takeWhile is_word (w @ ''.aleo'' @ r) = w" "dropWhile is_word (w @ ''.aleo'' @ r) = ''.aleo'' @ r"
    using assms(1) word_marks(1) by (simp_all add: takeWhile_append2 dropWhile_append2 list_all_iff)
  then show ?thesis using assms(2) by (simp add: match_id_def strip_prefix_Some Let_def)
qed

lemma match_id_Some:
  assumes "match_id s = Some (n, r)"
  obtains w where "s = w @ ''.aleo'' @ r" "n = w @ ''.aleo''" "w \<noteq> []" "list_all is_word w"
proof
  let ?w = "takeWhile is_word s"
  have d: "dropWhile is_word s = ''.aleo'' @ r" and n: "n = ?w @ ''.aleo''" and ne: "?w \<noteq> []"
    using assms by (auto simp: match_id_def Let_def strip_prefix_Some split: if_splits)
  show "s = ?w @ ''.aleo'' @ r" unfolding d [symmetric] by simp
  show "n = ?w @ ''.aleo''" "?w \<noteq> []" using n ne .
  show "list_all is_word ?w" by (auto simp: list_all_iff dest: set_takeWhileD)
qed

lemma match_call_Some:
  "match_call sep s = Some (n, r) \<Longrightarrow>
    \<exists>w. s = w @ ''.aleo'' @ sep @ r \<and> n = w @ ''.aleo'' \<and> w \<noteq> [] \<and> list_all is_word w"
  by (auto simp: match_call_def bind_eq_Some_conv strip_prefix_Some elim!: match_id_Some)

lemma match_call_word:
  "list_all is_word w \<Longrightarrow> w \<noteq> [] \<Longrightarrow> match_call sep (w @ ''.aleo'' @ sep @ r) = Some (w @ ''.aleo'', r)"
  using match_id_word [of w "sep @ r"] by (simp add: match_call_def strip_prefix_Some)

text \<open>Every scanned id occurs in the text.\<close>

lemma scan_sound:
  "n \<in> set (scan_all (match_call sep) s) \<Longrightarrow>
    \<exists>pre w post. s = pre @ w @ ''.aleo'' @ sep @ post \<and> n = w @ ''.aleo'' \<and> w \<noteq> [] \<and> list_all is_word w"
proof (induction "match_call sep" s rule: scan_all.induct)
  case (2 c cs)
  show ?case
  proof (cases "match_call sep (c # cs)")
    case None
    then have "n \<in> set (scan_all (match_call sep) cs)" using 2 by simp
    then obtain pre w post where "cs = pre @ w @ ''.aleo'' @ sep @ post" "n = w @ ''.aleo''" "w \<noteq> []" "list_all is_word w"
      using 2 None by blast
    then show ?thesis by (metis append_Cons)
  next
    case (Some p)
    obtain n' r where p: "p = (n', r)" by fastforce
    then have m: "match_call sep (c # cs) = Some (n', r)" using Some by simp
    obtain w' where w': "c # cs = w' @ ''.aleo'' @ sep @ r" "n' = w' @ ''.aleo''" "w' \<noteq> []" "list_all is_word w'"
      using match_call_Some [OF m] by blast
    show ?thesis
    proof (cases "n = n'")
      case True
      then show ?thesis using w' by (metis append_Nil)
    next
      case False
      then have "length r \<le> length cs" and n: "n \<in> set (scan_all (match_call sep) r)"
        using 2(3) m by (auto split: if_splits)
      then obtain pre w post where "r = pre @ w @ ''.aleo'' @ sep @ post" "n = w @ ''.aleo''" "w \<noteq> []" "list_all is_word w"
        using 2(1,2) m by blast
      then show ?thesis using w'(1) by (metis append.assoc)
    qed
  qed
qed simp

lemma append_overlap: "xs @ ys = us @ vs \<Longrightarrow> (\<exists>zs. us = xs @ zs) \<or> (\<exists>zs. xs = us @ zs)"
  by (auto simp: append_eq_append_conv2)

text \<open>A word cannot start inside a match, so no call is overlooked.\<close>

lemma word_start_outside:
  assumes eq: "w' @ ''.aleo'' @ sep @ r = pre @ w @ ''.aleo'' @ sep @ post"
    and w': "list_all is_word w'" "w' \<noteq> []" and w: "list_all is_word w" "w \<noteq> []"
    and pre: "pre \<noteq> []" "\<not> is_word (last pre)"
    and sep: "sep \<noteq> []" "list_all (\<lambda>c. \<not> is_word c) sep" "hd sep \<noteq> CHR ''.''"
  shows "\<exists>pre'. pre = w' @ ''.aleo'' @ sep @ pre'"
proof -
  have "\<exists>us. pre = w' @ us"
  proof (rule ccontr)
    assume no: "\<nexists>us. pre = w' @ us"
    then obtain us where "w' = pre @ us" using eq by (auto simp: append_eq_append_conv2)
    then have "last pre \<in> set w'" using pre(1) by simp
    then show False using w'(1) pre(2) by (simp add: list_all_iff)
  qed
  then obtain us where us: "pre = w' @ us" by blast
  then have eq1: "''.aleo'' @ sep @ r = us @ w @ ''.aleo'' @ sep @ post" using eq by simp
  have wd: "hd w \<in> set w" "is_word (hd w)" using w by (simp_all add: list_all_iff)
  have "us \<noteq> []"
    using eq1 wd word_marks(1) w(2) by (cases w) auto
  then obtain us1 where us1: "us = CHR ''.'' # us1" using eq1 by (cases us) auto
  then have eq2: "''aleo'' @ sep @ r = us1 @ w @ ''.aleo'' @ sep @ post" using eq1 by simp
  have "us1 \<noteq> []"
  proof
    assume "us1 = []"
    then have e: "''aleo'' @ sep @ r = w @ ''.aleo'' @ sep @ post" using eq2 by simp
    have "takeWhile is_word (''aleo'' @ sep @ r) = ''aleo''"
      using sep word_marks by (cases sep) (simp_all add: takeWhile_append)
    moreover have "takeWhile is_word (w @ ''.aleo'' @ sep @ post) = w"
      using w(1) word_marks(1) by (simp add: takeWhile_append2 list_all_iff)
    ultimately have "w = ''aleo''" using e by metis
    then have "sep @ r = ''.aleo'' @ sep @ post" using e by simp
    then show False using sep(1,3) by (cases sep) auto
  qed
  moreover have "last us1 = last pre" using us us1 calculation by simp
  ultimately have l1: "us1 \<noteq> []" "\<not> is_word (last us1)" using pre(2) by simp_all
  have "\<exists>vs. us1 = ''aleo'' @ vs"
  proof (rule ccontr)
    assume no: "\<nexists>vs. us1 = ''aleo'' @ vs"
    then obtain vs where "''aleo'' = us1 @ vs" using append_overlap [OF eq2] by blast
    then have "last us1 \<in> set ''aleo''" using l1(1) by (metis Un_iff last_in_set set_append)
    then show False using l1(2) word_marks by auto
  qed
  then obtain vs where vs: "us1 = ''aleo'' @ vs" by blast
  then have eq3: "sep @ r = vs @ w @ ''.aleo'' @ sep @ post" using eq2 by simp
  have "\<exists>pre'. vs = sep @ pre'"
  proof (rule ccontr)
    assume no: "\<nexists>pre'. vs = sep @ pre'"
    then obtain xs where xs: "sep = vs @ xs" using eq3 by (auto simp: append_eq_append_conv2)
    moreover have "xs \<noteq> []" using no xs by auto
    ultimately have "hd xs = hd w" using eq3 w(2) by (cases xs; cases w) auto
    then have "hd w \<in> set sep" using xs \<open>xs \<noteq> []\<close> by (metis Un_iff list.set_sel(1) set_append)
    then show False using wd(2) sep(2) by (simp add: list_all_iff)
  qed
  then show ?thesis using us us1 vs by auto
qed


lemma scan_complete:
  assumes sep: "sep \<noteq> []" "list_all (\<lambda>c. \<not> is_word c) sep" "hd sep \<noteq> CHR ''.''"
    and w: "list_all is_word w" "w \<noteq> []"
  shows "s = pre @ w @ ''.aleo'' @ sep @ post \<Longrightarrow> pre = [] \<or> \<not> is_word (last pre) \<Longrightarrow>
    w @ ''.aleo'' \<in> set (scan_all (match_call sep) s)"
proof (induction "length s" arbitrary: s pre rule: less_induct)
  case less
  show ?case
  proof (cases "pre = []")
    case True
    then have m: "match_call sep s = Some (w @ ''.aleo'', post)"
      using match_call_word [OF w] less.prems(1) by simp
    have "s \<noteq> []" using less.prems(1) w(2) by simp
    then obtain c cs where s: "s = c # cs" by (auto simp: neq_Nil_conv)
    have "length post \<le> length cs" using match_call_shorter [OF m] s by simp
    then show ?thesis using m s by simp
  next
    case False
    then have "s \<noteq> []" using less.prems(1) by simp
    then obtain c cs where s: "s = c # cs" by (auto simp: neq_Nil_conv)
    show ?thesis
    proof (cases "match_call sep s")
      case None
      obtain pre' where pre: "pre = c # pre'" using False less.prems(1) s by (cases pre) auto
      then have "cs = pre' @ w @ ''.aleo'' @ sep @ post" "pre' = [] \<or> \<not> is_word (last pre')"
        using less.prems s by auto
      then have "w @ ''.aleo'' \<in> set (scan_all (match_call sep) cs)" using less.hyps [of cs pre'] s by simp
      then show ?thesis using None s by simp
    next
      case (Some p)
      obtain n r where m: "match_call sep s = Some (n, r)" using Some by (cases p) simp
      obtain w' where w': "s = w' @ ''.aleo'' @ sep @ r" "w' \<noteq> []" "list_all is_word w'"
        using match_call_Some [OF m] by blast
      obtain pre' where pre: "pre = w' @ ''.aleo'' @ sep @ pre'"
        using word_start_outside [OF _ w'(3,2) w _ _ sep] w'(1) less.prems False by metis
      have "last sep \<in> set sep" using sep(1) by simp
      then have "\<not> is_word (last sep)" using sep(2) by (simp add: list_all_iff)
      then have "pre' = [] \<or> \<not> is_word (last pre')" using less.prems(2) pre by (cases "pre' = []") auto
      moreover have "r = pre' @ w @ ''.aleo'' @ sep @ post" using w'(1) less.prems(1) pre by simp
      moreover have "length r < length s" by (rule match_call_shorter [OF m])
      ultimately have "w @ ''.aleo'' \<in> set (scan_all (match_call sep) r)" using less.hyps by blast
      then show ?thesis using m s \<open>length r < length s\<close> by simp
    qed
  qed
qed

section \<open>Properties\<close>

text \<open>
  Blanking comments and strings keeps the length of the source and every newline at its
  place, changes nothing but to spaces, leaves no string delimiter and no comment opener, and is
  idempotent.
\<close>

theorem scrubbing_sound:
  "list_all2 (\<lambda>a b. b = a \<or> b = space \<and> a \<noteq> newline) s (stripCommentsAndStrings s)
    \<and> clean (stripCommentsAndStrings s)
    \<and> stripCommentsAndStrings (stripCommentsAndStrings s) = stripCommentsAndStrings s"
  using strip_ok [of s] strip_idem [of s] by (simp add: blanked_def [abs_def])

text \<open>
  No cross-program call is overlooked: every \<^verbatim>\<open>name.aleo::\<close> or \<^verbatim>\<open>name.aleo/\<close> in the code of
  a source file, at a maximal word, is among the imports of the unit.
\<close>

lemma calls_are_imported:
  assumes "src \<in> set sources" and "sep \<in> {''::'', ''/''}"
    and "stripCommentsAndStrings src = pre @ w @ ''.aleo'' @ sep @ post"
    and "w \<noteq> []" and "list_all is_word w" and "pre = [] \<or> \<not> is_word (last pre)"
  shows "w @ ''.aleo'' \<in> set (unit_imports sources)"
proof -
  have "\<not> is_word (CHR '':'')" "\<not> is_word slash" by code_simp+
  then have "sep \<noteq> []" "list_all (\<lambda>c. \<not> is_word c) sep" "hd sep \<noteq> CHR ''.''" using assms(2) by auto
  from scan_complete [OF this assms(5,4,3,6)] show ?thesis
    using assms(1,2) by (auto simp: unit_imports_def Let_def)
qed

lemma calls_are_imported_witness:
  "''token'' @ ''.aleo'' \<in> set (unit_imports [''a = token.aleo::mint(1);''])"
proof (rule calls_are_imported)
  show "stripCommentsAndStrings ''a = token.aleo::mint(1);'' = ''a = '' @ ''token'' @ ''.aleo'' @ ''::'' @ ''mint(1);''"
    by code_simp
  show "list_all is_word ''token''" by code_simp
  show "''a = '' = [] \<or> \<not> is_word (last ''a = '')" by code_simp
qed simp_all

end
