(* ===== verification/Paths.thy ===== *)
theory Paths imports Prelude begin

text \<open>
  The POSIX path functions of \<^verbatim>\<open>node:path\<close> that the code calls: \<^verbatim>\<open>normalize\<close>, \<^verbatim>\<open>join\<close>,
  \<^verbatim>\<open>resolve\<close>, \<^verbatim>\<open>relative\<close>, \<^verbatim>\<open>isAbsolute\<close>, \<^verbatim>\<open>dirname\<close> and \<^verbatim>\<open>basename\<close>, over segments between
  slashes.
\<close>

section \<open>Segments\<close>

abbreviation path_sep :: char where "path_sep \<equiv> CHR ''/''"

fun split_on :: "char \<Rightarrow> string \<Rightarrow> string list" where
  "split_on d [] = [[]]"
| "split_on d (c # cs) = (if c = d then [] # split_on d cs
     else case split_on d cs of s # ss \<Rightarrow> (c # s) # ss | [] \<Rightarrow> [[c]])"

fun join_with :: "string \<Rightarrow> string list \<Rightarrow> string" where
  "join_with sep [] = []"
| "join_with sep [s] = s"
| "join_with sep (s # t # ss) = s @ sep @ join_with sep (t # ss)"

definition isAbsolute :: "string \<Rightarrow> bool" where
  "isAbsolute p \<longleftrightarrow> p \<noteq> [] \<and> hd p = path_sep"

text \<open>
  \<^verbatim>\<open>normalizeString\<close>: empty and \<^verbatim>\<open>.\<close> segments go, \<^verbatim>\<open>..\<close> takes the segment before it back; where
  there is none it stays in a relative path and is dropped at the root. The result is held in
  reverse.
\<close>

fun norm_segs :: "bool \<Rightarrow> string list \<Rightarrow> string list \<Rightarrow> string list" where
  "norm_segs rel acc [] = rev acc"
| "norm_segs rel acc (s # ss) =
    (if s = [] \<or> s = ''.'' then norm_segs rel acc ss
     else if s = ''..'' then
       (case acc of
          a # acc' \<Rightarrow> if a = ''..'' then norm_segs rel (s # acc) ss else norm_segs rel acc' ss
        | [] \<Rightarrow> norm_segs rel (if rel then [s] else []) ss)
     else norm_segs rel (s # acc) ss)"

definition segments :: "string \<Rightarrow> string list" where
  "segments p = norm_segs (\<not> isAbsolute p) [] (split_on path_sep p)"

definition path_normalize :: "string \<Rightarrow> string" where
  "path_normalize p =
    (if p = [] then ''.''
     else let body = join_with ''/'' (segments p); trail = (last p = path_sep)
       in if body = [] then (if isAbsolute p then ''/'' else if trail then ''./'' else ''.'')
          else (if isAbsolute p then ''/'' else []) @ body @ (if trail then ''/'' else []))"

definition path_join :: "string list \<Rightarrow> string" where
  "path_join parts = (let ps = filter (\<lambda>p. p \<noteq> []) parts
     in if ps = [] then ''.'' else path_normalize (join_with ''/'' ps))"

text \<open>\<^verbatim>\<open>path.resolve(a, .., z)\<close> from the right until the path is absolute, \<open>cwd\<close> last.\<close>

fun resolve_from :: "string list \<Rightarrow> string \<Rightarrow> string" where
  "resolve_from [] acc = acc"
| "resolve_from (p # ps) acc =
    (if p = [] then resolve_from ps acc
     else if isAbsolute p then p @ (if acc = [] then [] else ''/'' @ acc)
     else resolve_from ps (p @ (if acc = [] then [] else ''/'' @ acc)))"

definition path_resolve :: "string \<Rightarrow> string list \<Rightarrow> string" where
  "path_resolve cwd parts =
    ''/'' @ join_with ''/'' (norm_segs False [] (split_on path_sep (resolve_from (rev parts @ [cwd]) [])))"

fun common_prefix_length :: "string list \<Rightarrow> string list \<Rightarrow> nat" where
  "common_prefix_length (a # as) (b # bs) = (if a = b then Suc (common_prefix_length as bs) else 0)"
| "common_prefix_length _ _ = 0"

definition path_relative :: "string \<Rightarrow> string \<Rightarrow> string \<Rightarrow> string" where
  "path_relative cwd from to =
    (let a = segments (path_resolve cwd [from]); b = segments (path_resolve cwd [to]);
         k = common_prefix_length a b
     in join_with ''/'' (replicate (length a - k) ''..'' @ drop k b))"

definition path_basename :: "string \<Rightarrow> string" where
  "path_basename p = (case filter (\<lambda>s. s \<noteq> []) (split_on path_sep p) of [] \<Rightarrow> [] | ss \<Rightarrow> last ss)"

definition path_dirname :: "string \<Rightarrow> string" where
  "path_dirname p =
    (let body = rev (dropWhile (\<lambda>c. c = path_sep) (rev p));
         dir = rev (dropWhile (\<lambda>c. c = path_sep) (dropWhile (\<lambda>c. c \<noteq> path_sep) (rev body)))
     in if path_sep \<notin> set body then (if isAbsolute p then ''/'' else ''.'')
        else if dir = [] then ''/'' else dir)"

section \<open>Facts\<close>

lemma split_on_nonempty [simp]: "split_on d s \<noteq> []"
  by (induction s) (auto split: list.splits)

lemma split_on_no_sep: "x \<in> set (split_on d s) \<Longrightarrow> d \<notin> set x"
proof (induction s arbitrary: x)
  case (Cons c cs)
  then show ?case by (cases "split_on d cs") (auto split: if_splits)
qed simp

lemma split_on_join:
  "ss \<noteq> [] \<Longrightarrow> (\<And>s. s \<in> set ss \<Longrightarrow> d \<notin> set s) \<Longrightarrow> split_on d (join_with [d] ss) = ss"
proof (induction "[d]" ss rule: join_with.induct)
  case (2 s)
  then have "d \<notin> set s" by simp
  then show ?case by (induction s) auto
next
  case (3 s t ss)
  have "split_on d (s @ d # r) = s # split_on d r" if "d \<notin> set s" for r
    using that by (induction s) auto
  then show ?case using 3 by simp
qed simp

text \<open>A normalised list: real segments, after a run of \<^verbatim>\<open>..\<close> that only a relative path has.\<close>

definition real_seg :: "string \<Rightarrow> bool" where
  "real_seg s \<longleftrightarrow> s \<noteq> [] \<and> s \<noteq> ''.'' \<and> s \<noteq> ''..''"

definition normal_segs :: "bool \<Rightarrow> string list \<Rightarrow> bool" where
  "normal_segs rel ss \<longleftrightarrow>
    (\<exists>n rs. ss = replicate n ''..'' @ rs \<and> list_all real_seg rs \<and> (n = 0 \<or> rel))"

lemma normal_segs_snoc: "normal_segs rel ss \<Longrightarrow> real_seg s \<Longrightarrow> normal_segs rel (ss @ [s])"
  unfolding normal_segs_def
proof (elim exE conjE)
  fix n rs assume "ss = replicate n ''..'' @ rs" "list_all real_seg rs" "n = 0 \<or> rel" "real_seg s"
  then have "ss @ [s] = replicate n ''..'' @ (rs @ [s])" "list_all real_seg (rs @ [s])" by simp_all
  then show "\<exists>n rs. ss @ [s] = replicate n ''..'' @ rs \<and> list_all real_seg rs \<and> (n = 0 \<or> rel)"
    using \<open>n = 0 \<or> rel\<close> by blast
qed

lemma norm_segs_normal: "normal_segs rel (rev acc) \<Longrightarrow> normal_segs rel (norm_segs rel acc ss)"
proof (induction rel acc ss rule: norm_segs.induct)
  case (2 rel acc s ss)
  consider (skip) "s = [] \<or> s = ''.''" | (up) "s = ''..''" | (seg) "real_seg s"
    by (auto simp: real_seg_def)
  then show ?case
  proof cases
    case skip
    then show ?thesis using 2 by auto
  next
    case seg
    then have "normal_segs rel (rev (s # acc))" using 2(6) normal_segs_snoc by simp
    then show ?thesis using 2(1-5) seg by (auto simp: real_seg_def)
  next
    case up
    obtain n rs where n: "rev acc = replicate n ''..'' @ rs" "list_all real_seg rs" "n = 0 \<or> rel"
      using 2(6) by (auto simp: normal_segs_def)
    show ?thesis
    proof (cases acc)
      case Nil
      have "normal_segs rel (rev (if rel then [s] else []))"
        using up by (cases rel) (auto simp: normal_segs_def intro: exI [of _ "1::nat"] exI [of _ "0::nat"])
      then show ?thesis using 2(1-5) up Nil by (cases rel) simp_all
    next
      case (Cons a acc')
      show ?thesis
      proof (cases "a = ''..''")
        case True
        then have "rs = []"
          using n(1,2) Cons by (cases rs rule: rev_cases) (auto simp: real_seg_def)
        then have "rev (s # acc) = replicate (Suc n) ''..''" and "rel"
          using n up Cons by (simp_all add: replicate_append_same) (cases n, auto)
        then have "normal_segs rel (rev (s # acc))" unfolding normal_segs_def
          by (intro exI [of _ "Suc n"] exI [of _ "[]"]) simp
        then show ?thesis using 2(1-5) up Cons True by simp
      next
        case False
        have "rs \<noteq> []"
        proof
          assume "rs = []"
          moreover have "a \<in> set (rev acc)" using Cons by simp
          ultimately have "a \<in> set (replicate n ''..'')" using n(1) by simp
          then show False using False by (simp only: set_replicate_conv_if split: if_splits) simp_all
        qed
        then obtain rs' where "rs = rs' @ [a]" "rev acc' = replicate n ''..'' @ rs'"
          using n(1) Cons by (cases rs rule: rev_cases) auto
        then have "normal_segs rel (rev acc')" using n by (auto simp: normal_segs_def)
        then show ?thesis using 2(1-5) up Cons False by simp
      qed
    qed
  qed
qed simp

end
