(* ===== verification/Units.thy ===== *)
theory Units imports Scrubber Toposort Paths begin

text \<open>
  Compilation units: their discovery in the source tree (\<^verbatim>\<open>leo-compiler/src/source-discovery.ts\<close>),
  the dependency graph (\<^verbatim>\<open>dependency-resolver.ts\<close>) and the deployment closure computed from it
  (\<^verbatim>\<open>plugin-deploy/src/deployment-closure.ts\<close>). The recursive visit of the resolver is
  interpreted as a \<open>dfs_visit\<close>.
\<close>

section \<open>Units\<close>

datatype discovered_unit =
    DiscoveredProgram (u_programId: string) (u_sourceDir: string) (u_entryFile: string) (u_allSources: "string list")
  | DiscoveredLibrary (u_name: string) (u_sourceDir: string) (u_entryFile: string) (u_allSources: "string list")

definition unitId :: "discovered_unit \<Rightarrow> string" where
  "unitId u = (case u of DiscoveredProgram programId _ _ _ \<Rightarrow> programId | DiscoveredLibrary name _ _ _ \<Rightarrow> name)"

definition is_library :: "discovered_unit \<Rightarrow> bool" where
  "is_library u = (case u of DiscoveredProgram _ _ _ _ \<Rightarrow> False | DiscoveredLibrary _ _ _ _ \<Rightarrow> True)"

datatype unit_error =
    ProgramFolderNameMismatch string string
  | MissingProgramDeclaration string
  | CircularDependency "string list"
  | UnitNameCollision string discovered_unit discovered_unit
  | ReservedUnitName string discovered_unit
  | CannotRead string
  | RecursionTooDeep

section \<open>Discovery\<close>

text \<open>A directory as \<^verbatim>\<open>readdirSync\<close> lists it.\<close>

datatype fs_entry = FileEntry (fs_name: string) (fs_content: string) | DirEntry (fs_name: string) (fs_entries: "fs_entry list")

fun collectLeoFiles :: "string \<Rightarrow> fs_entry list \<Rightarrow> string list" where
  "collectLeoFiles base [] = []"
| "collectLeoFiles base (FileEntry name content # es) =
    (if ends_with name ''.leo'' then [if base \<noteq> [] then path_join [base, name] else name] else [])
      @ collectLeoFiles base es"
| "collectLeoFiles base (DirEntry name sub # es) =
    collectLeoFiles (if base \<noteq> [] then path_join [base, name] else name) sub @ collectLeoFiles base es"

definition find_entry :: "string \<Rightarrow> fs_entry list \<Rightarrow> fs_entry option" where
  "find_entry name es = find (\<lambda>e. fs_name e = name) es"

text \<open>\<^verbatim>\<open>programId.replace(/\.aleo$/, "")\<close>\<close>

definition drop_aleo :: "string \<Rightarrow> string" where
  "drop_aleo p = (if ends_with p ''.aleo'' then take (length p - 5) p else p)"

definition validateProgramFolderName :: "string \<Rightarrow> string \<Rightarrow> unit_error + unit" where
  "validateProgramFolderName sourceDir programId =
    (if path_basename sourceDir \<noteq> drop_aleo programId then Inl (ProgramFolderNameMismatch sourceDir programId) else Inr ())"

definition discoverProgram :: "string \<Rightarrow> string \<Rightarrow> fs_entry \<Rightarrow> fs_entry list \<Rightarrow> unit_error + discovered_unit" where
  "discoverProgram sourceDir entryFile mainEntry es =
    (case mainEntry of
      DirEntry _ _ \<Rightarrow> Inl (CannotRead entryFile)
    | FileEntry _ src \<Rightarrow>
        (case extractProgramId src of
          None \<Rightarrow> Inl (MissingProgramDeclaration entryFile)
        | Some programId \<Rightarrow> bindR (validateProgramFolderName sourceDir programId)
            (\<lambda>_. Inr (DiscoveredProgram programId sourceDir entryFile (collectLeoFiles [] es)))))"

definition discoverLibrary :: "string \<Rightarrow> string \<Rightarrow> string \<Rightarrow> fs_entry list \<Rightarrow> discovered_unit" where
  "discoverLibrary sourceDir entryFile dirName es = DiscoveredLibrary dirName sourceDir entryFile (collectLeoFiles [] es)"

fun scanDir :: "string \<Rightarrow> string \<Rightarrow> fs_entry list \<Rightarrow> unit_error + discovered_unit list" where
  "scanDir cwd dir [] = Inr []"
| "scanDir cwd dir (FileEntry name content # es) = scanDir cwd dir es"
| "scanDir cwd dir (DirEntry name sub # es) =
    bindR
      (let dirPath = path_resolve cwd [dir, name];
           mainLeo = path_join [dirPath, ''main.leo'']; libLeo = path_join [dirPath, ''lib.leo'']
       in case find_entry ''main.leo'' sub of
         Some mainEntry \<Rightarrow> bindR (discoverProgram dirPath mainLeo mainEntry sub) (\<lambda>u. Inr [u])
       | None \<Rightarrow>
           (case find_entry ''lib.leo'' sub of
             Some _ \<Rightarrow> Inr [discoverLibrary dirPath libLeo name sub]
           | None \<Rightarrow> scanDir cwd dirPath sub))
      (\<lambda>us. bindR (scanDir cwd dir es) (\<lambda>vs. Inr (us @ vs)))"

definition discoverUnits :: "string \<Rightarrow> string \<Rightarrow> fs_entry list option \<Rightarrow> unit_error + discovered_unit list" where
  "discoverUnits cwd programsDir tree = (case tree of None \<Rightarrow> Inr [] | Some es \<Rightarrow> scanDir cwd programsDir es)"

section \<open>The dependency graph\<close>

definition RESERVED_BUILTIN_IDS :: "string list" where
  "RESERVED_BUILTIN_IDS = [''credits.aleo'']"

definition lookupKeys :: "discovered_unit \<Rightarrow> string list" where
  "lookupKeys u = unitId u # (if is_library u then [u_name u @ ''.aleo''] else [])"

text \<open>
  Units are objects told apart by identity; the ones discovered are all different, so their
  position stands for it.
\<close>

definition claim_key ::
    "nat \<times> discovered_unit \<Rightarrow> (string, nat \<times> discovered_unit) omap \<Rightarrow> string
      \<Rightarrow> unit_error + (string, nat \<times> discovered_unit) omap" where
  "claim_key iu claimedBy key =
    (if key \<in> set RESERVED_BUILTIN_IDS then Inl (ReservedUnitName key (snd iu))
     else case om_get claimedBy key of
       Some existing \<Rightarrow> if fst existing \<noteq> fst iu then Inl (UnitNameCollision key (snd existing) (snd iu))
                        else Inr (om_set key iu claimedBy)
     | None \<Rightarrow> Inr (om_set key iu claimedBy))"

definition validateUniqueLookupKeys :: "discovered_unit list \<Rightarrow> unit_error + unit" where
  "validateUniqueLookupKeys units =
    bindR (foldR (\<lambda>claimedBy iu. foldR (claim_key iu) claimedBy (lookupKeys (snd iu))) [] (enumerate 0 units))
      (\<lambda>_. Inr ())"

definition unit_index :: "discovered_unit list \<Rightarrow> (string, discovered_unit) omap" where
  "unit_index units = fold (\<lambda>u m.
     (let m' = om_set (unitId u) u m in if is_library u then om_set (u_name u @ ''.aleo'') u m' else m')) units []"

text \<open>\<^verbatim>\<open>parseImports\<close>: the sources of the unit are read from \<open>read\<close>.\<close>

definition parseImports :: "(string \<Rightarrow> string option) \<Rightarrow> string \<Rightarrow> string list \<Rightarrow> unit_error + string list" where
  "parseImports read sourceDir relativeFiles =
    bindR (foldR (\<lambda>acc f. case read (path_join [sourceDir, f]) of
        None \<Rightarrow> Inl (CannotRead (path_join [sourceDir, f])) | Some src \<Rightarrow> Inr (acc @ [src])) [] relativeFiles)
      (\<lambda>sources. Inr (unit_imports sources))"

record dep_scan =
  dn_normalized :: "string list"
  dn_local :: "string list"
  dn_network :: "string list"

definition classify_import ::
    "(string, discovered_unit) omap \<Rightarrow> string \<Rightarrow> string \<Rightarrow> dep_scan \<Rightarrow> dep_scan" where
  "classify_import unitById id' dep st =
    (case om_get unitById dep of
      Some resolved \<Rightarrow>
        if unitId resolved = id' then st
        else st\<lparr>dn_normalized := dn_normalized st @ [unitId resolved], dn_local := dn_local st @ [unitId resolved]\<rparr>
    | None \<Rightarrow> st\<lparr>dn_normalized := dn_normalized st @ [dep],
                dn_network := (if dep \<in> set (dn_network st) then dn_network st else dn_network st @ [dep])\<rparr>)"

record dep_tables =
  dt_imports :: "(string, string list) omap"
  dt_network :: "string list"
  dt_adj :: "(string, string list) omap"

definition scan_unit ::
    "(string \<Rightarrow> string option) \<Rightarrow> (string, discovered_unit) omap \<Rightarrow> dep_tables \<Rightarrow> discovered_unit
      \<Rightarrow> unit_error + dep_tables" where
  "scan_unit read unitById t u =
    bindR (parseImports read (u_sourceDir u) (u_allSources u)) (\<lambda>rawImports.
      let st = fold (classify_import unitById (unitId u)) rawImports
                 \<lparr>dn_normalized = [], dn_local = [], dn_network = dt_network t\<rparr>
      in Inr \<lparr>dt_imports = om_set (unitId u) (dn_normalized st) (dt_imports t), dt_network = dn_network st,
              dt_adj = om_set (unitId u) (dn_local st) (dt_adj t)\<rparr>)"

record dep_sort =
  ds_visited :: "string list"
  ds_visiting :: "string list"
  ds_order :: "discovered_unit list"

text \<open>The recursive visit; \<open>depth\<close> bounds the recursion, and one more than the units is enough.\<close>

fun unit_visit ::
    "(string, string list) omap \<Rightarrow> (string, discovered_unit) omap \<Rightarrow> nat \<Rightarrow> string list \<Rightarrow> dep_sort \<Rightarrow> string
      \<Rightarrow> unit_error + dep_sort" where
  "unit_visit adj unitById 0 stack st id' = Inl RecursionTooDeep"
| "unit_visit adj unitById (Suc depth) stack st id' =
    (if id' \<in> set (ds_visited st) then Inr st
     else if id' \<in> set (ds_visiting st) then Inl (CircularDependency (dropWhile (\<lambda>x. x \<noteq> id') stack @ [id']))
     else bindR
       (foldR (\<lambda>st dep. unit_visit adj unitById depth (stack @ [id']) st dep)
         (st\<lparr>ds_visiting := ds_visiting st @ [id']\<rparr>) (case om_get adj id' of None \<Rightarrow> [] | Some ds \<Rightarrow> ds))
       (\<lambda>st'. Inr (st'\<lparr>ds_visiting := filter (\<lambda>x. x \<noteq> id') (ds_visiting st'),
                       ds_visited := ds_visited st' @ [id'],
                       ds_order := ds_order st' @ (case om_get unitById id' of None \<Rightarrow> [] | Some u \<Rightarrow> [u])\<rparr>)))"

record dependency_graph =
  dg_order :: "discovered_unit list"
  dg_imports :: "(string, string list) omap"
  dg_networkDeps :: "string list"

definition resolveDependencies ::
    "(string \<Rightarrow> string option) \<Rightarrow> discovered_unit list \<Rightarrow> unit_error + dependency_graph" where
  "resolveDependencies read units =
    bindR (validateUniqueLookupKeys units) (\<lambda>_.
    bindR (foldR (scan_unit read (unit_index units)) \<lparr>dt_imports = [], dt_network = [], dt_adj = []\<rparr> units) (\<lambda>t.
    bindR (foldR (\<lambda>st u. unit_visit (dt_adj t) (unit_index units) (Suc (length units)) [] st (unitId u))
        \<lparr>ds_visited = [], ds_visiting = [], ds_order = []\<rparr> units) (\<lambda>st.
    Inr \<lparr>dg_order = ds_order st, dg_imports = dt_imports t, dg_networkDeps = dt_network t\<rparr>)))"

section \<open>The deployment closure\<close>

record closure_state =
  cs_collected :: "string list"
  cs_visited :: "string list"

text \<open>The recursion of \<^verbatim>\<open>collectTransitiveProgramDeps\<close>, bounded by \<open>depth\<close>.\<close>

fun collectTransitiveProgramDeps ::
    "nat \<Rightarrow> dependency_graph \<Rightarrow> string list \<Rightarrow> closure_state \<Rightarrow> string \<Rightarrow> unit_error + closure_state" where
  "collectTransitiveProgramDeps 0 g programs st id' = Inl RecursionTooDeep"
| "collectTransitiveProgramDeps (Suc depth) g programs st id' =
    (if id' \<in> set (cs_visited st) then Inr st
     else foldR (\<lambda>st dep. if dep \<in> set (dg_networkDeps g) then Inr st
                         else collectTransitiveProgramDeps depth g programs st dep)
       (st\<lparr>cs_visited := cs_visited st @ [id'],
           cs_collected := (if id' \<in> set programs \<and> id' \<notin> set (cs_collected st)
                            then cs_collected st @ [id'] else cs_collected st)\<rparr>)
       (case om_get (dg_imports g) id' of None \<Rightarrow> [] | Some deps \<Rightarrow> deps))"

text \<open>More ids than can be visited: the root and everything imported anywhere.\<close>

definition closure_depth :: "dependency_graph \<Rightarrow> nat" where
  "closure_depth g = Suc (Suc (length (concat (map snd (dg_imports g)))))"

definition collectLocalDeploymentClosure ::
    "string \<Rightarrow> dependency_graph \<Rightarrow> string list \<Rightarrow> unit_error + string list" where
  "collectLocalDeploymentClosure rootId g programs =
    bindR (collectTransitiveProgramDeps (closure_depth g) g programs \<lparr>cs_collected = [], cs_visited = []\<rparr> rootId)
      (\<lambda>st. let ordered = List.map_filter (\<lambda>u. case u of
                  DiscoveredProgram programId _ _ _ \<Rightarrow> if programId \<in> set (cs_collected st) then Some programId else None
                | DiscoveredLibrary _ _ _ _ \<Rightarrow> None) (dg_order g)
            in Inr (if rootId \<in> set ordered then ordered else ordered @ [rootId]))"

section \<open>Unique keys\<close>

definition all_keys :: "discovered_unit list \<Rightarrow> string list" where
  "all_keys units = concat (map lookupKeys units)"

lemma om_set_new: "k \<notin> set (om_keys m) \<Longrightarrow> om_set k v m = m @ [(k, v)]"
  by (induction m) auto

lemma lookupKeys_distinct [simp]: "distinct (lookupKeys u)"
  by (cases u) (auto simp: lookupKeys_def unitId_def is_library_def)

lemma unitId_key [simp]: "unitId u \<in> set (lookupKeys u)"
  by (simp add: lookupKeys_def)

lemma claim_keys_step:
  assumes "\<And>p. p \<in> set claimedBy \<Longrightarrow> fst (snd p) < i" and "distinct ks"
  shows "(\<exists>m. foldR (claim_key (i, u)) claimedBy ks = Inr m) \<longleftrightarrow>
      set ks \<inter> set RESERVED_BUILTIN_IDS = {} \<and> set ks \<inter> set (om_keys claimedBy) = {}"
    and "foldR (claim_key (i, u)) claimedBy ks = Inr m \<Longrightarrow> m = claimedBy @ map (\<lambda>k. (k, i, u)) ks"
proof -
  have *: "set ks \<inter> set RESERVED_BUILTIN_IDS = {} \<and> set ks \<inter> set (om_keys claimedBy) = {}
      \<and> foldR (claim_key (i, u)) (claimedBy @ map (\<lambda>k. (k, i, u)) done) ks
        = Inr (claimedBy @ map (\<lambda>k. (k, i, u)) (done @ ks))
    \<or> \<not> (set ks \<inter> set RESERVED_BUILTIN_IDS = {} \<and> set ks \<inter> set (om_keys claimedBy) = {})
      \<and> isl (foldR (claim_key (i, u)) (claimedBy @ map (\<lambda>k. (k, i, u)) done) ks)"
    if "distinct (done @ ks)" for "done"
    using that
  proof (induction ks arbitrary: "done")
    case (Cons k ks)
    let ?m = "claimedBy @ map (\<lambda>k. (k, i, u)) done"
    have "om_get (map (\<lambda>k. (k, i, u)) done) k = None"
      using Cons.prems by (auto simp: map_of_eq_None_iff)
    then have fresh: "om_get ?m k = om_get claimedBy k" by (simp add: map_add_def split: option.split)
    show ?case
    proof (cases "k \<in> set RESERVED_BUILTIN_IDS \<or> k \<in> set (om_keys claimedBy)")
      case True
      have "isl (claim_key (i, u) ?m k)"
      proof (cases "k \<in> set RESERVED_BUILTIN_IDS")
        case False
        then have "k \<in> set (om_keys claimedBy)" using True by simp
        then obtain v where v: "om_get claimedBy k = Some v" by (metis map_of_eq_None_iff not_None_eq set_map)
        then have "fst v < i" using assms(1) map_of_SomeD [OF v] by fastforce
        then show ?thesis using v fresh False by (simp add: claim_key_def)
      qed (simp add: claim_key_def)
      then obtain e where "claim_key (i, u) ?m k = Inl e" by (auto simp: isl_def)
      then show ?thesis using True by auto
    next
      case False
      then have none: "om_get ?m k = None" using fresh by (simp add: map_of_eq_None_iff)
      then have "om_set k (i, u) ?m = ?m @ [(k, i, u)]" by (intro om_set_new) (auto simp: map_of_eq_None_iff image_Un image_image simp del: map_of_append)
      then have "claim_key (i, u) ?m k = Inr (claimedBy @ map (\<lambda>k. (k, i, u)) (done @ [k]))"
        using False none by (simp add: claim_key_def del: map_of_append)
      then show ?thesis using Cons.IH [of "done @ [k]"] Cons.prems False by auto
    qed
  qed simp
  from this [of "[]"] assms(2)
  show "(\<exists>m. foldR (claim_key (i, u)) claimedBy ks = Inr m) \<longleftrightarrow>
      set ks \<inter> set RESERVED_BUILTIN_IDS = {} \<and> set ks \<inter> set (om_keys claimedBy) = {}"
    and "foldR (claim_key (i, u)) claimedBy ks = Inr m \<Longrightarrow> m = claimedBy @ map (\<lambda>k. (k, i, u)) ks"
    by (auto simp: isl_def)
qed

lemma validate_ok_lemma:
  "(\<exists>m'. foldR (\<lambda>claimedBy iu. foldR (claim_key iu) claimedBy (lookupKeys (snd iu))) m (enumerate i units) = Inr m')
    \<longleftrightarrow> distinct (all_keys units) \<and> set (all_keys units) \<inter> set RESERVED_BUILTIN_IDS = {}
        \<and> set (all_keys units) \<inter> set (om_keys m) = {}"
  if "\<And>p. p \<in> set m \<Longrightarrow> fst (snd p) < i"
  using that
proof (induction units arbitrary: m i)
  case (Cons u units)
  show ?case
  proof (cases "foldR (claim_key (i, u)) m (lookupKeys u)")
    case (Inl e)
    then have "\<not> (set (lookupKeys u) \<inter> set RESERVED_BUILTIN_IDS = {} \<and> set (lookupKeys u) \<inter> set (om_keys m) = {})"
      using claim_keys_step(1) [where claimedBy = m and i = i and u = u and ks = "lookupKeys u", OF Cons.prems lookupKeys_distinct] by simp
    then show ?thesis using Inl by (auto simp: all_keys_def)
  next
    case (Inr m1)
    then have m1: "m1 = m @ map (\<lambda>k. (k, i, u)) (lookupKeys u)"
      and ok: "set (lookupKeys u) \<inter> set RESERVED_BUILTIN_IDS = {}" "set (lookupKeys u) \<inter> set (om_keys m) = {}"
      using claim_keys_step [where claimedBy = m and i = i and u = u and ks = "lookupKeys u", OF Cons.prems lookupKeys_distinct] by auto
    have "\<And>p. p \<in> set m1 \<Longrightarrow> fst (snd p) < Suc i" using Cons.prems m1 by fastforce
    note IH = Cons.IH [OF this]
    have keys: "set (om_keys m1) = set (om_keys m) \<union> set (lookupKeys u)"
      by (simp add: m1 image_Un image_image)
    have "(\<exists>m'. foldR (\<lambda>claimedBy iu. foldR (claim_key iu) claimedBy (lookupKeys (snd iu))) m (enumerate i (u # units)) = Inr m')
        \<longleftrightarrow> (\<exists>m'. foldR (\<lambda>claimedBy iu. foldR (claim_key iu) claimedBy (lookupKeys (snd iu))) m1 (enumerate (Suc i) units) = Inr m')"
      using Inr by simp
    also note IH
    also have "(distinct (all_keys units) \<and> set (all_keys units) \<inter> set RESERVED_BUILTIN_IDS = {}
        \<and> set (all_keys units) \<inter> set (om_keys m1) = {})
      \<longleftrightarrow> distinct (all_keys (u # units)) \<and> set (all_keys (u # units)) \<inter> set RESERVED_BUILTIN_IDS = {}
        \<and> set (all_keys (u # units)) \<inter> set (om_keys m) = {}"
      unfolding keys using ok by (auto simp: all_keys_def)
    finally show ?thesis .
  qed
qed (simp add: all_keys_def)

definition unique_keys :: "discovered_unit list \<Rightarrow> bool" where
  "unique_keys units \<longleftrightarrow> distinct (all_keys units) \<and> set (all_keys units) \<inter> set RESERVED_BUILTIN_IDS = {}"

lemma validate_ok: "(\<exists>u. validateUniqueLookupKeys units = Inr u) \<longleftrightarrow> unique_keys units"
  using validate_ok_lemma [of "[]" 0 units] by (auto simp: validateUniqueLookupKeys_def unique_keys_def)

section \<open>The index of units\<close>

lemma unit_index_entries:
  assumes "distinct (all_keys units)"
  shows "unit_index units = concat (map (\<lambda>u. map (\<lambda>k. (k, u)) (lookupKeys u)) units)"
proof -
  have "fold (\<lambda>u m. (let m' = om_set (unitId u) u m in if is_library u then om_set (u_name u @ ''.aleo'') u m' else m')) units m
      = m @ concat (map (\<lambda>u. map (\<lambda>k. (k, u)) (lookupKeys u)) units)"
    if "distinct (om_keys m @ all_keys units)" for m
    using that
  proof (induction units arbitrary: m)
    case (Cons u units)
    have "(let m' = om_set (unitId u) u m in if is_library u then om_set (u_name u @ ''.aleo'') u m' else m')
        = m @ map (\<lambda>k. (k, u)) (lookupKeys u)"
      using Cons.prems lookupKeys_distinct [of u]
      by (auto simp: Let_def lookupKeys_def all_keys_def om_set_new)
    moreover have "distinct (om_keys (m @ map (\<lambda>k. (k, u)) (lookupKeys u)) @ all_keys units)"
      using Cons.prems by (auto simp: all_keys_def comp_def)
    ultimately have "(let m' = om_set (unitId u) u m in if is_library u then om_set (u_name u @ ''.aleo'') u m' else m')
        = m @ map (\<lambda>k. (k, u)) (lookupKeys u)"
      and "distinct (om_keys (m @ map (\<lambda>k. (k, u)) (lookupKeys u)) @ all_keys units)" .
    from Cons.IH [OF this(2)] this(1) show ?case by simp
  qed simp
  from this [of "[]"] show ?thesis using assms by (simp add: unit_index_def)
qed

lemma unit_index_iff:
  assumes "distinct (all_keys units)"
  shows "om_get (unit_index units) k = Some u \<longleftrightarrow> u \<in> set units \<and> k \<in> set (lookupKeys u)"
proof -
  have "om_keys (unit_index units) = all_keys units"
    by (simp add: unit_index_entries [OF assms] all_keys_def map_concat comp_def)
  then have "distinct (om_keys (unit_index units))" using assms by simp
  then have "om_get (unit_index units) k = Some u \<longleftrightarrow> (k, u) \<in> set (unit_index units)" by simp
  also have "\<dots> \<longleftrightarrow> u \<in> set units \<and> k \<in> set (lookupKeys u)"
    unfolding unit_index_entries [OF assms] by auto
  finally show ?thesis .
qed

lemma distinct_ids: "distinct (all_keys units) \<Longrightarrow> distinct (map unitId units)"
proof (induction units)
  case (Cons u units)
  have "unitId u \<notin> unitId ` set units"
  proof
    assume "unitId u \<in> unitId ` set units"
    then obtain v where "v \<in> set units" "unitId u = unitId v" by blast
    then have "unitId u \<in> set (all_keys units)" unfolding all_keys_def by (auto intro!: bexI [of _ v])
    then show False using Cons.prems unitId_key [of u] by (auto simp: all_keys_def simp del: unitId_key)
  qed
  then show ?case using Cons by (simp add: all_keys_def)
qed simp

lemma ids_inj: "distinct (all_keys units) \<Longrightarrow> u \<in> set units \<Longrightarrow> v \<in> set units \<Longrightarrow> unitId u = unitId v \<Longrightarrow> u = v"
  using distinct_ids by (auto simp: distinct_map dest: inj_onD)

section \<open>The tables\<close>

text \<open>How a list of raw imports is read: canonical ids of other units, and ids left to the network.\<close>

definition normal_of :: "(string, discovered_unit) omap \<Rightarrow> string \<Rightarrow> string list \<Rightarrow> string list" where
  "normal_of idx id' raw = List.map_filter (\<lambda>dep. case om_get idx dep of
     Some v \<Rightarrow> if unitId v = id' then None else Some (unitId v) | None \<Rightarrow> Some dep) raw"

definition local_of :: "(string, discovered_unit) omap \<Rightarrow> string \<Rightarrow> string list \<Rightarrow> string list" where
  "local_of idx id' raw = List.map_filter (\<lambda>dep. case om_get idx dep of
     Some v \<Rightarrow> if unitId v = id' then None else Some (unitId v) | None \<Rightarrow> None) raw"

definition network_of :: "(string, discovered_unit) omap \<Rightarrow> string list \<Rightarrow> string set" where
  "network_of idx raw = {d \<in> set raw. om_get idx d = None}"

lemma classify_all:
  "dn_normalized (fold (classify_import idx id') raw st) = dn_normalized st @ normal_of idx id' raw"
  "dn_local (fold (classify_import idx id') raw st) = dn_local st @ local_of idx id' raw"
  "set (dn_network (fold (classify_import idx id') raw st)) = set (dn_network st) \<union> network_of idx raw"
proof -
  show "dn_normalized (fold (classify_import idx id') raw st) = dn_normalized st @ normal_of idx id' raw"
    by (induction raw arbitrary: st)
      (simp_all add: classify_import_def normal_of_def map_filter_simps split: option.split)
  show "dn_local (fold (classify_import idx id') raw st) = dn_local st @ local_of idx id' raw"
    by (induction raw arbitrary: st)
      (simp_all add: classify_import_def local_of_def map_filter_simps split: option.split)
  show "set (dn_network (fold (classify_import idx id') raw st)) = set (dn_network st) \<union> network_of idx raw"
  proof (induction raw arbitrary: st)
    case (Cons d raw)
    have "set (dn_network (classify_import idx id' d st)) = set (dn_network st) \<union> (if om_get idx d = None then {d} else {})"
      by (auto simp: classify_import_def split: option.split)
    then show ?case using Cons.IH by (auto simp: network_of_def)
  qed (simp add: network_of_def)
qed

lemma normal_split: "set (normal_of idx id' raw) = set (local_of idx id' raw) \<union> network_of idx raw"
proof (induction raw)
  case (Cons d raw)
  have "network_of idx (d # raw) = (if om_get idx d = None then insert d (network_of idx raw) else network_of idx raw)"
    by (auto simp: network_of_def)
  moreover have "normal_of idx id' (d # raw) = (case om_get idx d of
      Some v \<Rightarrow> if unitId v = id' then normal_of idx id' raw else unitId v # normal_of idx id' raw
    | None \<Rightarrow> d # normal_of idx id' raw)"
    by (simp add: normal_of_def map_filter_simps split: option.split)
  moreover have "local_of idx id' (d # raw) = (case om_get idx d of
      Some v \<Rightarrow> if unitId v = id' then local_of idx id' raw else unitId v # local_of idx id' raw
    | None \<Rightarrow> local_of idx id' raw)"
    by (simp add: local_of_def map_filter_simps split: option.split)
  ultimately show ?case using Cons.IH by (simp split: option.split)
qed (simp add: normal_of_def local_of_def network_of_def map_filter_simps)

definition scanned ::
    "(string \<Rightarrow> string option) \<Rightarrow> (string, discovered_unit) omap \<Rightarrow> discovered_unit list \<Rightarrow> dep_tables \<Rightarrow> bool" where
  "scanned read idx units t \<longleftrightarrow> om_keys (dt_adj t) = map unitId units \<and> om_keys (dt_imports t) = map unitId units
    \<and> (\<forall>u \<in> set units. \<exists>raw. parseImports read (u_sourceDir u) (u_allSources u) = Inr raw
        \<and> om_get (dt_adj t) (unitId u) = Some (local_of idx (unitId u) raw)
        \<and> om_get (dt_imports t) (unitId u) = Some (normal_of idx (unitId u) raw)
        \<and> network_of idx raw \<subseteq> set (dt_network t))
    \<and> (\<forall>d \<in> set (dt_network t). om_get idx d = None)"

lemma scan_unit_ok:
  assumes inv: "scanned read idx units t" and step: "scan_unit read idx t u = Inr t'" and new: "unitId u \<notin> unitId ` set units"
  shows "scanned read idx (units @ [u]) t'"
proof -
  obtain raw where raw: "parseImports read (u_sourceDir u) (u_allSources u) = Inr raw"
    using step by (auto simp: scan_unit_def)
  then have t': "dt_adj t' = dt_adj t @ [(unitId u, local_of idx (unitId u) raw)]"
      "dt_imports t' = dt_imports t @ [(unitId u, normal_of idx (unitId u) raw)]"
      "set (dt_network t') = set (dt_network t) \<union> network_of idx raw"
    using step inv new by (auto simp: scan_unit_def scanned_def Let_def classify_all om_set_new)
  show ?thesis
    unfolding scanned_def
  proof (intro conjI ballI)
    fix v assume "v \<in> set (units @ [u])"
    then consider "v \<in> set units" "unitId v \<noteq> unitId u" | "v = u"
      using new by (metis Un_iff empty_iff image_eqI insert_iff list.set(1,2) set_append)
    then show "\<exists>raw. parseImports read (u_sourceDir v) (u_allSources v) = Inr raw
        \<and> om_get (dt_adj t') (unitId v) = Some (local_of idx (unitId v) raw)
        \<and> om_get (dt_imports t') (unitId v) = Some (normal_of idx (unitId v) raw)
        \<and> network_of idx raw \<subseteq> set (dt_network t')"
    proof cases
      case 1
      then show ?thesis using inv unfolding scanned_def t' by (fastforce simp: map_add_def)
    next
      case 2
      have "om_get (dt_adj t) (unitId u) = None" "om_get (dt_imports t) (unitId u) = None"
        using inv new unfolding scanned_def map_of_eq_None_iff by (metis set_map)+
      then show ?thesis using raw 2 unfolding t' by (simp add: map_add_def)
    qed
  next
    fix d assume "d \<in> set (dt_network t')"
    then show "om_get idx d = None" using inv t'(3) by (auto simp: scanned_def network_of_def)
  qed (use inv t' in \<open>simp_all add: scanned_def\<close>)
qed

lemma scan_units_ok:
  assumes "foldR (scan_unit read idx) t units = Inr t'" and "scanned read idx pre t" and "distinct (map unitId (pre @ units))"
  shows "scanned read idx (pre @ units) t'"
  using assms
proof (induction units arbitrary: pre t)
  case (Cons u units)
  then obtain t1 where t1: "scan_unit read idx t u = Inr t1" "foldR (scan_unit read idx) t1 units = Inr t'" by auto
  have "scanned read idx (pre @ [u]) t1" using scan_unit_ok [OF Cons.prems(2) t1(1)] Cons.prems(3) by auto
  then show ?case using Cons.IH [OF t1(2), of "pre @ [u]"] Cons.prems(3) by simp
qed simp

section \<open>The visit as a depth-first visit\<close>

definition dep_state :: "(string, discovered_unit) omap \<Rightarrow> string list \<Rightarrow> string list \<Rightarrow> dep_sort" where
  "dep_state idx path ord = \<lparr>ds_visited = ord, ds_visiting = path, ds_order = List.map_filter (om_get idx) ord\<rparr>"

definition visit_unit ::
    "(string, string list) omap \<Rightarrow> (string, discovered_unit) omap \<Rightarrow> nat \<Rightarrow> string list \<Rightarrow> string list \<Rightarrow> string
      \<Rightarrow> unit_error + string list" where
  "visit_unit adj idx f path ord x = map_sum id ds_visited (unit_visit adj idx f path (dep_state idx path ord) x)"

definition adj_of :: "(string, string list) omap \<Rightarrow> string \<Rightarrow> string list" where
  "adj_of adj x = (case om_get adj x of None \<Rightarrow> [] | Some ds \<Rightarrow> ds)"

definition closed_adj :: "(string, string list) omap \<Rightarrow> bool" where
  "closed_adj adj \<longleftrightarrow> (\<forall>x \<in> set (om_keys adj). set (adj_of adj x) \<subseteq> set (om_keys adj))"

definition adj_nodes :: "(string, string list) omap \<Rightarrow> string set" where
  "adj_nodes adj = (if closed_adj adj then set (om_keys adj) else {})"

lemma unit_visit_list:
  assumes "\<And>ord x. unit_visit adj idx f path (dep_state idx path ord) x
      = map_sum id (dep_state idx path) (visit_unit adj idx f path ord x)"
  shows "foldR (\<lambda>st d. unit_visit adj idx f path st d) (dep_state idx path ord) ds
    = map_sum id (dep_state idx path) (foldR (visit_unit adj idx f path) ord ds)"
proof (induction ds arbitrary: ord)
  case (Cons d ds)
  then show ?case using assms [of ord d] by (cases "visit_unit adj idx f path ord d") simp_all
qed simp

lemma filter_absent: "x \<notin> set path \<Longrightarrow> filter (\<lambda>i. i \<noteq> x) path = path"
  by (induction path) auto

lemma unit_visit_new:
  assumes "\<And>ord y. unit_visit adj idx f (path @ [x]) (dep_state idx (path @ [x]) ord) y
      = map_sum id (dep_state idx (path @ [x])) (visit_unit adj idx f (path @ [x]) ord y)"
    and "x \<notin> set ord" and "x \<notin> set path"
  shows "unit_visit adj idx (Suc f) path (dep_state idx path ord) x
    = map_sum id (dep_state idx path)
        (bindR (foldR (visit_unit adj idx f (path @ [x])) ord (adj_of adj x)) (\<lambda>ord'. Inr (ord' @ [x])))"
proof -
  have start: "(dep_state idx path ord)\<lparr>ds_visiting := ds_visiting (dep_state idx path ord) @ [x]\<rparr> = dep_state idx (path @ [x]) ord"
    by (simp add: dep_state_def)
  have "unit_visit adj idx (Suc f) path (dep_state idx path ord) x
      = bindR (map_sum id (dep_state idx (path @ [x])) (foldR (visit_unit adj idx f (path @ [x])) ord (adj_of adj x)))
       (\<lambda>st'. Inr (st'\<lparr>ds_visiting := filter (\<lambda>y. y \<noteq> x) (ds_visiting st'),
                       ds_visited := ds_visited st' @ [x],
                       ds_order := ds_order st' @ (case om_get idx x of None \<Rightarrow> [] | Some u \<Rightarrow> [u])\<rparr>))"
    using assms(2,3) unit_visit_list [of adj idx f "path @ [x]", OF assms(1), of ord "adj_of adj x"] start
    by (simp add: adj_of_def dep_state_def)
  then show ?thesis using assms(3)
    by (cases "foldR (visit_unit adj idx f (path @ [x])) ord (adj_of adj x)")
      (simp_all add: dep_state_def filter_absent List.map_filter_def split: option.split)
qed

lemma unit_visit_state:
  "unit_visit adj idx f path (dep_state idx path ord) x
    = map_sum id (dep_state idx path) (visit_unit adj idx f path ord x)"
proof (induction f arbitrary: path ord x)
  case 0
  then show ?case by (simp add: visit_unit_def)
next
  case (Suc f)
  show ?case
  proof (cases "x \<in> set ord \<or> x \<in> set path")
    case True
    then show ?thesis by (auto simp: visit_unit_def dep_state_def)
  next
    case False
    then have x: "x \<notin> set ord" "x \<notin> set path" by simp_all
    show ?thesis unfolding visit_unit_def [of adj idx "Suc f"] unit_visit_new [OF Suc.IH x]
      by (cases "foldR (visit_unit adj idx f (path @ [x])) ord (adj_of adj x)") (simp_all add: dep_state_def)
  qed
qed

interpretation du: dfs_visit "adj_of adj" "adj_nodes adj" "visit_unit adj idx"
    "\<lambda>path x. CircularDependency (dropWhile (\<lambda>y. y \<noteq> x) path @ [x])"
  for adj idx
proof
  show "finite (adj_nodes adj)" by (simp add: adj_nodes_def)
next
  fix x assume "x \<in> adj_nodes adj"
  then have c: "closed_adj adj" "x \<in> set (om_keys adj)" unfolding adj_nodes_def by (metis empty_iff)+
  then have "adj_nodes adj = set (om_keys adj)" by (simp only: adj_nodes_def if_True)
  then show "set (adj_of adj x) \<subseteq> adj_nodes adj" using c unfolding closed_adj_def by blast
next
  fix x :: string and ord path :: "string list" and f assume "x \<in> set ord"
  then show "visit_unit adj idx (Suc f) path ord x = Inr ord" by (simp add: visit_unit_def dep_state_def)
next
  fix x :: string and ord path :: "string list" and f assume "x \<notin> set ord" "x \<in> set path"
  then show "visit_unit adj idx (Suc f) path ord x = Inl (CircularDependency (dropWhile (\<lambda>y. y \<noteq> x) path @ [x]))"
    by (simp add: visit_unit_def dep_state_def)
next
  fix x :: string and ord path :: "string list" and f assume "x \<notin> set ord" "x \<notin> set path"
  from unit_visit_new [OF unit_visit_state this]
  show "visit_unit adj idx (Suc f) path ord x =
      bindR (foldR (visit_unit adj idx f (path @ [x])) ord (adj_of adj x)) (\<lambda>ord'. Inr (ord' @ [x]))"
    unfolding visit_unit_def [of adj idx "Suc f"]
    by (cases "foldR (visit_unit adj idx f (path @ [x])) ord (adj_of adj x)") (simp_all add: dep_state_def)
qed

section \<open>The order of units\<close>

abbreviation adj_edges :: "(string, string list) omap \<Rightarrow> (string \<times> string) set" where
  "adj_edges adj \<equiv> dfs_visit.edges (adj_of adj) (adj_nodes adj)"

lemma set_map_filter: "y \<in> set (List.map_filter f xs) \<longleftrightarrow> (\<exists>x \<in> set xs. f x = Some y)"
  by (induction xs) (auto simp: map_filter_simps split: option.split)

lemma local_of_ids:
  assumes "distinct (all_keys units)" and "d \<in> set (local_of (unit_index units) id' raw)"
  shows "d \<in> unitId ` set units \<and> d \<noteq> id'"
  using assms(2)
  by (auto simp: local_of_def set_map_filter unit_index_iff [OF assms(1)] split: option.splits if_splits)

lemma scanned_nodes:
  assumes "distinct (all_keys units)" and "scanned read (unit_index units) units t"
  shows "adj_nodes (dt_adj t) = unitId ` set units"
proof -
  have keys: "set (om_keys (dt_adj t)) = unitId ` set units" using assms(2) by (simp add: scanned_def)
  have "set (adj_of (dt_adj t) (unitId u)) \<subseteq> unitId ` set units" if u: "u \<in> set units" for u
  proof -
    obtain raw where "om_get (dt_adj t) (unitId u) = Some (local_of (unit_index units) (unitId u) raw)"
      using assms(2) u unfolding scanned_def by blast
    then show ?thesis using local_of_ids [OF assms(1)] by (auto simp: adj_of_def)
  qed
  then show ?thesis unfolding adj_nodes_def closed_adj_def keys by auto
qed

lemma order_of_ids:
  assumes "distinct (all_keys units)" and "set ids \<subseteq> unitId ` set units"
  shows "map unitId (List.map_filter (om_get (unit_index units)) ids) = ids"
    and "set (List.map_filter (om_get (unit_index units)) ids) = {u \<in> set units. unitId u \<in> set ids}"
proof -
  have get: "om_get (unit_index units) (unitId u) = Some u" if "u \<in> set units" for u
    using that by (simp add: unit_index_iff [OF assms(1)])
  have "map unitId (List.map_filter (om_get (unit_index units)) ids) = ids
    \<and> set (List.map_filter (om_get (unit_index units)) ids) = {u \<in> set units. unitId u \<in> set ids}"
    using assms(2)
  proof (induction ids)
    case (Cons i ids)
    then obtain u where u: "u \<in> set units" "i = unitId u" by auto
    then have "{v \<in> set units. unitId v \<in> set (i # ids)} = insert u {v \<in> set units. unitId v \<in> set ids}"
      using ids_inj [OF assms(1)] by auto
    then show ?case using Cons get [OF u(1)] u by (simp add: map_filter_simps)
  qed (simp add: map_filter_simps)
  then show "map unitId (List.map_filter (om_get (unit_index units)) ids) = ids"
    and "set (List.map_filter (om_get (unit_index units)) ids) = {u \<in> set units. unitId u \<in> set ids}"
    by blast+
qed

lemma foldR_map: "foldR (\<lambda>s x. f s (g x)) s xs = foldR f s (map g xs)"
  by (induction xs arbitrary: s) simp_all

lemma resolve_parts:
  assumes "resolveDependencies read units = r"
  shows "\<not> unique_keys units \<Longrightarrow> isl r"
    and "unique_keys units \<Longrightarrow> foldR (scan_unit read (unit_index units)) \<lparr>dt_imports = [], dt_network = [], dt_adj = []\<rparr> units = Inr t \<Longrightarrow>
      r = map_sum id (\<lambda>ord. \<lparr>dg_order = List.map_filter (om_get (unit_index units)) ord, dg_imports = dt_imports t, dg_networkDeps = dt_network t\<rparr>)
            (foldR (visit_unit (dt_adj t) (unit_index units) (Suc (length units)) []) [] (map unitId units))"
proof -
  show "isl r" if "\<not> unique_keys units"
    using validate_ok [of units] that assms
    by (cases "validateUniqueLookupKeys units") (auto simp: resolveDependencies_def)
next
  assume uk: "unique_keys units"
    and t: "foldR (scan_unit read (unit_index units)) \<lparr>dt_imports = [], dt_network = [], dt_adj = []\<rparr> units = Inr t"
  obtain v where v: "validateUniqueLookupKeys units = Inr v" using validate_ok uk by blast
  have "foldR (\<lambda>st u. unit_visit (dt_adj t) (unit_index units) (Suc (length units)) [] st (unitId u))
      \<lparr>ds_visited = [], ds_visiting = [], ds_order = []\<rparr> units
    = map_sum id (dep_state (unit_index units) [])
        (foldR (visit_unit (dt_adj t) (unit_index units) (Suc (length units)) []) [] (map unitId units))"
    using unit_visit_list [of "dt_adj t" "unit_index units" "Suc (length units)" "[]", OF unit_visit_state, of "[]" "map unitId units"]
    unfolding foldR_map [of "\<lambda>st d. unit_visit (dt_adj t) (unit_index units) (Suc (length units)) [] st d" unitId]
    by (simp add: dep_state_def map_filter_simps del: unit_visit.simps)
  then show "r = map_sum id (\<lambda>ord. \<lparr>dg_order = List.map_filter (om_get (unit_index units)) ord, dg_imports = dt_imports t, dg_networkDeps = dt_network t\<rparr>)
            (foldR (visit_unit (dt_adj t) (unit_index units) (Suc (length units)) []) [] (map unitId units))"
    using assms v t
    by (cases "foldR (visit_unit (dt_adj t) (unit_index units) (Suc (length units)) []) [] (map unitId units)")
      (auto simp: resolveDependencies_def dep_state_def simp del: unit_visit.simps)
qed


text \<open>Which unit imports which, read off the sources.\<close>

definition unit_edges :: "(string \<Rightarrow> string option) \<Rightarrow> discovered_unit list \<Rightarrow> (string \<times> string) set" where
  "unit_edges read units = {(x, y). \<exists>u \<in> set units. x = unitId u
     \<and> (\<exists>raw. parseImports read (u_sourceDir u) (u_allSources u) = Inr raw
          \<and> y \<in> set (local_of (unit_index units) (unitId u) raw))}"

lemma adj_edges_units:
  assumes "distinct (all_keys units)" and "scanned read (unit_index units) units t"
  shows "adj_edges (dt_adj t) = unit_edges read units"
proof -
  have "y \<in> set (adj_of (dt_adj t) (unitId u)) \<longleftrightarrow> (\<exists>raw. parseImports read (u_sourceDir u) (u_allSources u) = Inr raw
          \<and> y \<in> set (local_of (unit_index units) (unitId u) raw))" if u: "u \<in> set units" for u y
  proof -
    obtain raw where "parseImports read (u_sourceDir u) (u_allSources u) = Inr raw"
      "om_get (dt_adj t) (unitId u) = Some (local_of (unit_index units) (unitId u) raw)"
      using assms(2) u unfolding scanned_def by blast
    then show ?thesis by (simp add: adj_of_def)
  qed
  moreover have "adj_edges (dt_adj t) = {(x, y). x \<in> unitId ` set units \<and> y \<in> set (adj_of (dt_adj t) x)}"
    unfolding du.edges_def unfolding scanned_nodes [OF assms] ..
  ultimately show ?thesis unfolding unit_edges_def by blast
qed

definition all_readable :: "(string \<Rightarrow> string option) \<Rightarrow> discovered_unit list \<Rightarrow> bool" where
  "all_readable read units \<longleftrightarrow> (\<forall>u \<in> set units. \<not> isl (parseImports read (u_sourceDir u) (u_allSources u)))"

abbreviation empty_tables :: dep_tables where
  "empty_tables \<equiv> \<lparr>dt_imports = [], dt_network = [], dt_adj = []\<rparr>"

lemma scan_units_iff: "(\<exists>t'. foldR (scan_unit read idx) t units = Inr t') \<longleftrightarrow> all_readable read units"
proof (induction units arbitrary: t)
  case (Cons u units)
  show ?case
  proof (cases "parseImports read (u_sourceDir u) (u_allSources u)")
    case (Inr raw)
    then obtain t1 where "scan_unit read idx t u = Inr t1" by (simp add: scan_unit_def Let_def)
    then show ?thesis using Cons.IH [of t1] Inr by (simp add: all_readable_def)
  qed (simp add: scan_unit_def all_readable_def)
qed (simp add: all_readable_def)

lemma scan_all_units:
  assumes "unique_keys units" and "foldR (scan_unit read (unit_index units)) empty_tables units = Inr t"
  shows "scanned read (unit_index units) units t"
proof -
  have "scanned read (unit_index units) [] empty_tables" by (simp add: scanned_def)
  from scan_units_ok [OF assms(2) this] show ?thesis
    using distinct_ids [of units] assms(1) by (simp add: unique_keys_def)
qed

lemma unit_nodes_bounds:
  assumes "unique_keys units" and "scanned read (unit_index units) units t"
  shows "card (adj_nodes (dt_adj t)) < Suc (length units)" and "set (map unitId units) = adj_nodes (dt_adj t)"
proof -
  have n: "adj_nodes (dt_adj t) = unitId ` set units"
    using scanned_nodes [OF _ assms(2)] assms(1) by (simp add: unique_keys_def)
  show "card (adj_nodes (dt_adj t)) < Suc (length units)"
    unfolding n using card_image_le [of "set units" unitId] card_length [of units] by simp
  show "set (map unitId units) = adj_nodes (dt_adj t)" by (simp add: n)
qed

lemma resolve_cases:
  assumes "resolveDependencies read units = r"
  obtains (keys) e where "\<not> unique_keys units" "r = Inl e" "validateUniqueLookupKeys units = Inl e"
  | (read) e where "unique_keys units" "\<not> all_readable read units" "r = Inl e"
      "foldR (scan_unit read (unit_index units)) empty_tables units = Inl e"
  | (cycle) t e where "unique_keys units" "all_readable read units" "scanned read (unit_index units) units t"
      "foldR (visit_unit (dt_adj t) (unit_index units) (Suc (length units)) []) [] (map unitId units) = Inl e" "r = Inl e"
  | (ok) t ord where "unique_keys units" "all_readable read units" "scanned read (unit_index units) units t"
      "foldR (visit_unit (dt_adj t) (unit_index units) (Suc (length units)) []) [] (map unitId units) = Inr ord"
      "r = Inr \<lparr>dg_order = List.map_filter (om_get (unit_index units)) ord, dg_imports = dt_imports t,
                dg_networkDeps = dt_network t\<rparr>"
proof (cases "unique_keys units")
  case False
  then obtain e where e: "validateUniqueLookupKeys units = Inl e"
    using validate_ok [of units] by (cases "validateUniqueLookupKeys units") auto
  then have "r = Inl e" using assms by (auto simp: resolveDependencies_def)
  then show ?thesis using keys False e by blast
next
  case uk: True
  then obtain v where v: "validateUniqueLookupKeys units = Inr v" using validate_ok by blast
  show ?thesis
  proof (cases "foldR (scan_unit read (unit_index units)) empty_tables units")
    case (Inl e)
    then have "\<not> all_readable read units" "r = Inl e"
      using scan_units_iff [of read "unit_index units" empty_tables units] assms v by (auto simp: resolveDependencies_def)
    then show ?thesis using read uk Inl by blast
  next
    case (Inr t)
    then have rd: "all_readable read units"
      using scan_units_iff [of read "unit_index units" empty_tables units] by blast
    note sc = scan_all_units [OF uk Inr]
    note r = resolve_parts(2) [OF assms uk Inr]
    show ?thesis
      using r cycle [OF uk rd sc] ok [OF uk rd sc]
      by (cases "foldR (visit_unit (dt_adj t) (unit_index units) (Suc (length units)) []) [] (map unitId units)") simp_all
  qed
qed

section \<open>The closure\<close>

text \<open>One import step that stays local.\<close>

definition local_step :: "dependency_graph \<Rightarrow> (string \<times> string) set" where
  "local_step g = {(x, d). d \<in> set (adj_of (dg_imports g) x) \<and> d \<notin> set (dg_networkDeps g)}"

definition closure_nodes :: "dependency_graph \<Rightarrow> string \<Rightarrow> string set" where
  "closure_nodes g rootId = insert rootId (set (concat (map snd (dg_imports g))))"

lemma adj_of_nodes: "set (adj_of (dg_imports g) x) \<subseteq> closure_nodes g rootId"
proof (cases "om_get (dg_imports g) x")
  case (Some ds)
  then have "(x, ds) \<in> set (dg_imports g)" by (rule map_of_SomeD)
  then show ?thesis using Some by (force simp: adj_of_def closure_nodes_def)
qed (simp add: adj_of_def)

text \<open>
  What a visit from a set of visited ids does: it finishes, keeps what was visited, and every id
  it adds is reachable and has all its local imports visited.
\<close>

definition closure_result ::
    "dependency_graph \<Rightarrow> string list \<Rightarrow> string \<Rightarrow> string set \<Rightarrow> closure_state \<Rightarrow> closure_state \<Rightarrow> bool" where
  "closure_result g programs rootId xs st st' \<longleftrightarrow>
    set (cs_visited st) \<subseteq> set (cs_visited st') \<and> xs \<subseteq> set (cs_visited st')
    \<and> set (cs_visited st') \<subseteq> set (cs_visited st) \<union> (local_step g)\<^sup>* `` xs
    \<and> (\<forall>y \<in> set (cs_visited st') - set (cs_visited st). local_step g `` {y} \<subseteq> set (cs_visited st'))
    \<and> set (cs_visited st') \<subseteq> closure_nodes g rootId
    \<and> set (cs_collected st') = set (cs_visited st') \<inter> set programs"

definition closure_ok :: "dependency_graph \<Rightarrow> string list \<Rightarrow> string \<Rightarrow> closure_state \<Rightarrow> bool" where
  "closure_ok g programs rootId st \<longleftrightarrow> set (cs_visited st) \<subseteq> closure_nodes g rootId
    \<and> set (cs_collected st) = set (cs_visited st) \<inter> set programs"

abbreviation unvisited :: "dependency_graph \<Rightarrow> string \<Rightarrow> closure_state \<Rightarrow> nat" where
  "unvisited g rootId st \<equiv> card (closure_nodes g rootId - set (cs_visited st))"

abbreviation closure_visit :: "nat \<Rightarrow> dependency_graph \<Rightarrow> string list \<Rightarrow> closure_state \<Rightarrow> string \<Rightarrow> unit_error + closure_state" where
  "closure_visit depth g programs st dep \<equiv>
    (if dep \<in> set (dg_networkDeps g) then Inr st else collectTransitiveProgramDeps depth g programs st dep)"

lemma finite_closure_nodes [simp]: "finite (closure_nodes g rootId)"
  by (simp add: closure_nodes_def)

lemma unvisited_mono:
  "set (cs_visited st) \<subseteq> set (cs_visited st') \<Longrightarrow> unvisited g rootId st' \<le> unvisited g rootId st"
  by (intro card_mono) auto

lemma closure_result_Un:
  assumes "closure_result g programs rootId xs st st1" and "closure_result g programs rootId ys st1 st2"
  shows "closure_result g programs rootId (xs \<union> ys) st st2"
proof -
  have reach: "set (cs_visited st2) \<subseteq> set (cs_visited st) \<union> (local_step g)\<^sup>* `` (xs \<union> ys)"
    using assms unfolding closure_result_def Image_Un by blast
  have "set (cs_visited st1) \<subseteq> set (cs_visited st2)" using assms(2) by (simp add: closure_result_def)
  then show ?thesis using assms reach unfolding closure_result_def by blast
qed

lemma closure_list:
  assumes "\<And>st x. closure_ok g programs rootId st \<Longrightarrow> unvisited g rootId st < depth \<Longrightarrow> x \<in> closure_nodes g rootId \<Longrightarrow>
      \<exists>st'. collectTransitiveProgramDeps depth g programs st x = Inr st' \<and> closure_result g programs rootId {x} st st'"
    and "closure_ok g programs rootId st" and "unvisited g rootId st < depth" and "set ds \<subseteq> closure_nodes g rootId"
  shows "\<exists>st'. foldR (closure_visit depth g programs) st ds = Inr st'
    \<and> closure_result g programs rootId (set ds - set (dg_networkDeps g)) st st'"
  using assms(2-)
proof (induction ds arbitrary: st)
  case Nil
  then show ?case by (simp add: closure_result_def closure_ok_def)
next
  case (Cons d ds)
  show ?case
  proof (cases "d \<in> set (dg_networkDeps g)")
    case True
    then show ?thesis using Cons by (auto simp: insert_Diff_if)
  next
    case False
    then obtain st1 where st1: "collectTransitiveProgramDeps depth g programs st d = Inr st1"
      "closure_result g programs rootId {d} st st1"
      using assms(1) Cons.prems by (metis insert_subset list.set(2))
    then have "closure_ok g programs rootId st1" "unvisited g rootId st1 < depth"
      using Cons.prems(2) unvisited_mono [of st st1 g rootId] by (auto simp: closure_result_def closure_ok_def)
    then obtain st2 where st2: "foldR (closure_visit depth g programs) st1 ds = Inr st2"
      "closure_result g programs rootId (set ds - set (dg_networkDeps g)) st1 st2"
      using Cons.IH Cons.prems(3) by (meson insert_subset list.set(2) set_subset_Cons subset_trans)
    have "closure_result g programs rootId (insert d (set ds - set (dg_networkDeps g))) st st2"
      using closure_result_Un [OF st1(2) st2(2)] by simp
    then show ?thesis using st1(1) st2(1) False by (simp add: insert_Diff_if)
  qed
qed

lemma closure_visit_ok:
  assumes "closure_ok g programs rootId st" and "unvisited g rootId st < depth" and "x \<in> closure_nodes g rootId"
  shows "\<exists>st'. collectTransitiveProgramDeps depth g programs st x = Inr st' \<and> closure_result g programs rootId {x} st st'"
  using assms
proof (induction depth arbitrary: st x)
  case (Suc depth)
  show ?case
  proof (cases "x \<in> set (cs_visited st)")
    case True
    then show ?thesis using Suc.prems by (auto simp: closure_result_def closure_ok_def)
  next
    case False
    let ?st = "st\<lparr>cs_visited := cs_visited st @ [x],
        cs_collected := (if x \<in> set programs \<and> x \<notin> set (cs_collected st) then cs_collected st @ [x] else cs_collected st)\<rparr>"
    have "closure_nodes g rootId - set (cs_visited ?st) \<subset> closure_nodes g rootId - set (cs_visited st)"
      using False Suc.prems(3) by auto
    then have "unvisited g rootId ?st < unvisited g rootId st" by (intro psubset_card_mono) simp_all
    then have lt: "unvisited g rootId ?st < depth" using Suc.prems(2) by linarith
    have ok: "closure_ok g programs rootId ?st" using Suc.prems(1,3) by (auto simp: closure_ok_def)
    have "\<exists>st'. foldR (closure_visit depth g programs) ?st (adj_of (dg_imports g) x) = Inr st'
        \<and> closure_result g programs rootId (set (adj_of (dg_imports g) x) - set (dg_networkDeps g)) ?st st'"
      by (rule closure_list [OF _ ok lt adj_of_nodes]) (rule Suc.IH)
    then obtain st' where st': "foldR (closure_visit depth g programs) ?st (adj_of (dg_imports g) x) = Inr st'"
      "closure_result g programs rootId (set (adj_of (dg_imports g) x) - set (dg_networkDeps g)) ?st st'"
      by blast
    have succs: "set (adj_of (dg_imports g) x) - set (dg_networkDeps g) = local_step g `` {x}"
      by (auto simp: local_step_def)
    have "(local_step g)\<^sup>* `` (local_step g `` {x}) \<subseteq> (local_step g)\<^sup>* `` {x}"
      by (auto intro: converse_rtrancl_into_rtrancl)
    then have "closure_result g programs rootId {x} st st'"
      using st'(2) unfolding succs closure_result_def by auto
    moreover have "collectTransitiveProgramDeps (Suc depth) g programs st x = Inr st'"
      using st'(1) False by (simp add: adj_of_def)
    ultimately show ?thesis by blast
  qed
qed simp

lemma closure_nodes_card: "card (closure_nodes g rootId) < closure_depth g"
proof -
  have "card (closure_nodes g rootId) \<le> Suc (card (set (concat (map snd (dg_imports g)))))"
    unfolding closure_nodes_def by (simp add: card_insert_if)
  also have "card (set (concat (map snd (dg_imports g)))) \<le> length (concat (map snd (dg_imports g)))" by (rule card_length)
  finally show ?thesis by (simp add: closure_depth_def)
qed

lemma closure_run:
  "\<exists>st. collectTransitiveProgramDeps (closure_depth g) g programs \<lparr>cs_collected = [], cs_visited = []\<rparr> rootId = Inr st
    \<and> set (cs_collected st) = (local_step g)\<^sup>* `` {rootId} \<inter> set programs"
proof -
  obtain st where st: "collectTransitiveProgramDeps (closure_depth g) g programs \<lparr>cs_collected = [], cs_visited = []\<rparr> rootId = Inr st"
    "closure_result g programs rootId {rootId} \<lparr>cs_collected = [], cs_visited = []\<rparr> st"
    using closure_visit_ok [of g programs rootId "\<lparr>cs_collected = [], cs_visited = []\<rparr>" "closure_depth g" rootId]
      closure_nodes_card [of g rootId] by (auto simp: closure_ok_def closure_nodes_def)
  have "y \<in> set (cs_visited st)" if "(rootId, y) \<in> (local_step g)\<^sup>*" for y
    using that
  proof (induction rule: rtrancl_induct)
    case base
    then show ?case using st(2) by (simp add: closure_result_def)
  next
    case (step y z)
    then have "local_step g `` {y} \<subseteq> set (cs_visited st)" using st(2) by (simp add: closure_result_def)
    then show ?case using step.hyps(2) by blast
  qed
  then have "set (cs_visited st) = (local_step g)\<^sup>* `` {rootId}" using st(2) by (auto simp: closure_result_def)
  then show ?thesis using st by (auto simp: closure_result_def)
qed


lemma dependency_order_lemma:
  assumes "resolveDependencies read units = Inr g"
  shows "set (dg_order g) = set units \<and> distinct (map unitId (dg_order g))
    \<and> (\<forall>u \<in> set units. \<exists>raw. parseImports read (u_sourceDir u) (u_allSources u) = Inr raw
         \<and> om_get (dg_imports g) (unitId u) = Some (normal_of (unit_index units) (unitId u) raw))
    \<and> (\<forall>ys u zs. dg_order g = ys @ u # zs \<longrightarrow> (\<forall>deps d. om_get (dg_imports g) (unitId u) = Some deps \<longrightarrow> d \<in> set deps \<longrightarrow>
         d \<in> set (dg_networkDeps g) \<or> d \<in> unitId ` set ys))
    \<and> (\<forall>d \<in> set (dg_networkDeps g). d \<notin> set (all_keys units))"
  using assms
proof (cases rule: resolve_cases)
  case (ok t ord)
  have dist: "distinct (all_keys units)" using ok(1) by (simp add: unique_keys_def)
  note nodes = unit_nodes_bounds [OF ok(1,3)]
  have "set (map unitId units) \<subseteq> adj_nodes (dt_adj t)" using nodes(2) by simp
  note run = du.run_Inr [OF nodes(1) this ok(4)]
  have ids: "set ord = unitId ` set units"
  proof
    show "set ord \<subseteq> unitId ` set units" using run(1) nodes(2) unfolding du.ordered_def by auto
    show "unitId ` set units \<subseteq> set ord" using run(2) by auto
  qed
  have g: "g = \<lparr>dg_order = List.map_filter (om_get (unit_index units)) ord, dg_imports = dt_imports t,
      dg_networkDeps = dt_network t\<rparr>" using ok(5) by simp
  note order = order_of_ids [OF dist, of ord]
  have order_ids: "map unitId (dg_order g) = ord" "set (dg_order g) = set units" using order ids g by auto
  have before: "d \<in> set (dt_network t) \<or> d \<in> unitId ` set ys"
    if split: "dg_order g = ys @ u # zs" and deps: "om_get (dt_imports t) (unitId u) = Some deps" and d: "d \<in> set deps" for ys u zs deps d
  proof -
    have u: "u \<in> set units" using split order_ids(2) by (metis Un_iff insert_iff list.set(2) set_append)
    then obtain raw where raw: "parseImports read (u_sourceDir u) (u_allSources u) = Inr raw"
      "om_get (dt_adj t) (unitId u) = Some (local_of (unit_index units) (unitId u) raw)"
      "deps = normal_of (unit_index units) (unitId u) raw" "network_of (unit_index units) raw \<subseteq> set (dt_network t)"
      using ok(3) deps unfolding scanned_def by fastforce
    have "ord = map unitId ys @ unitId u # map unitId zs" using order_ids(1) split by auto
    then have "set (adj_of (dt_adj t) (unitId u)) \<subseteq> unitId ` set ys"
      using run(1) unfolding du.ordered_def by (metis set_map)
    moreover have "d \<in> set (local_of (unit_index units) (unitId u) raw) \<union> network_of (unit_index units) raw"
      using d unfolding raw(3) normal_split .
    ultimately show ?thesis using raw(2,4) by (auto simp: adj_of_def)
  qed
  have net: "d \<notin> set (all_keys units)" if "d \<in> set (dt_network t)" for d
    using ok(3) that unit_index_iff [OF dist, of d] unfolding scanned_def all_keys_def by fastforce
  have "distinct ord" using run(1) unfolding du.ordered_def by blast
  moreover have "\<forall>u \<in> set units. \<exists>raw. parseImports read (u_sourceDir u) (u_allSources u) = Inr raw
         \<and> om_get (dt_imports t) (unitId u) = Some (normal_of (unit_index units) (unitId u) raw)"
    using ok(3) unfolding scanned_def by blast
  ultimately show ?thesis using order_ids before net by (simp add: g)
qed simp_all

section \<open>Programs of the closure\<close>

definition program_id :: "discovered_unit \<Rightarrow> string option" where
  "program_id u = (case u of DiscoveredProgram p _ _ _ \<Rightarrow> Some p | DiscoveredLibrary _ _ _ _ \<Rightarrow> None)"

definition program_ids :: "discovered_unit list \<Rightarrow> string list" where
  "program_ids us = List.map_filter program_id us"

lemma program_ids_Nil [simp]: "program_ids [] = []"
  by (simp add: program_ids_def map_filter_simps)

lemma program_ids_Cons [simp]:
  "program_ids (u # us) = (case program_id u of None \<Rightarrow> program_ids us | Some p \<Rightarrow> p # program_ids us)"
  by (simp add: program_ids_def map_filter_simps split: option.split)

lemma program_ids_append [simp]: "program_ids (us @ vs) = program_ids us @ program_ids vs"
  by (induction us) (simp_all split: option.split)

lemma set_program_ids: "p \<in> set (program_ids us) \<longleftrightarrow> (\<exists>u \<in> set us. program_id u = Some p)"
  by (simp add: program_ids_def set_map_filter)

lemma program_id_unitId: "program_id u = Some p \<Longrightarrow> unitId u = p"
  by (simp add: program_id_def unitId_def split: discovered_unit.splits)

lemma distinct_program_ids: "distinct (map unitId us) \<Longrightarrow> distinct (program_ids us)"
proof (induction us)
  case (Cons u us)
  then show ?case
    by (cases "program_id u") (auto simp: set_program_ids image_iff dest!: program_id_unitId)
qed simp

lemma closure_ordered:
  "List.map_filter (\<lambda>u. case u of DiscoveredProgram p _ _ _ \<Rightarrow> if p \<in> A then Some p else None
      | DiscoveredLibrary _ _ _ _ \<Rightarrow> None) us = filter (\<lambda>p. p \<in> A) (program_ids us)"
  by (induction us) (auto simp: map_filter_simps program_id_def split: discovered_unit.split)

lemma closure_is:
  "collectLocalDeploymentClosure rootId g programs =
    Inr (let ordered = filter (\<lambda>p. p \<in> (local_step g)\<^sup>* `` {rootId} \<inter> set programs) (program_ids (dg_order g))
         in if rootId \<in> set ordered then ordered else ordered @ [rootId])"
proof -
  obtain st where "collectTransitiveProgramDeps (closure_depth g) g programs \<lparr>cs_collected = [], cs_visited = []\<rparr> rootId = Inr st"
    "set (cs_collected st) = (local_step g)\<^sup>* `` {rootId} \<inter> set programs"
    using closure_run by blast
  then show ?thesis unfolding collectLocalDeploymentClosure_def closure_ordered by (simp add: Let_def)
qed

lemma takeWhile_neq: "p \<notin> set ys \<Longrightarrow> takeWhile (\<lambda>x. x \<noteq> p) (ys @ p # zs) = ys"
  by (induction ys) auto

lemma split_unique:
  assumes "distinct (ys @ p # zs)" and eq: "ys @ p # zs = as @ p # bs"
  shows "ys = as"
proof -
  have "distinct (as @ p # bs)" using assms by simp
  then have "p \<notin> set ys" "p \<notin> set as" using assms(1) by simp_all
  then show ?thesis using eq takeWhile_neq [of p ys zs] takeWhile_neq [of p as bs] by metis
qed

section \<open>Properties\<close>

text \<open>
  C29: the compile order holds every unit exactly once, each after all the local units it imports;
  the recorded imports of a unit are the ids found in its sources, in canonical spelling, and an
  id counts as a network dependency only when no unit answers to it.
\<close>

theorem dependency_order_sound:
  assumes "resolveDependencies read units = Inr g"
  shows "set (dg_order g) = set units \<and> distinct (map unitId (dg_order g))
    \<and> (\<forall>u \<in> set units. \<exists>raw. parseImports read (u_sourceDir u) (u_allSources u) = Inr raw
         \<and> om_get (dg_imports g) (unitId u) = Some (normal_of (unit_index units) (unitId u) raw))
    \<and> (\<forall>ys u zs. dg_order g = ys @ u # zs \<longrightarrow> (\<forall>deps d. om_get (dg_imports g) (unitId u) = Some deps \<longrightarrow> d \<in> set deps \<longrightarrow>
         d \<in> set (dg_networkDeps g) \<or> d \<in> unitId ` set ys))
    \<and> (\<forall>d \<in> set (dg_networkDeps g). d \<notin> set (all_keys units))"
  using assms by (rule dependency_order_lemma)

text \<open>A library, and two programs of which one calls the other and the library.\<close>

definition ex_units :: "discovered_unit list" where
  "ex_units = [DiscoveredProgram ''a.aleo'' ''/a'' ''/a/main.leo'' [''m''],
     DiscoveredLibrary ''l'' ''/l'' ''/l/lib.leo'' [], DiscoveredProgram ''b.aleo'' ''/b'' ''/b/main.leo'' [''m'']]"

definition ex_read :: "string \<Rightarrow> string option" where
  "ex_read p = (if p = ''/a/m'' then Some ''l.aleo::b.aleo/c.aleo/'' else Some '';'')"

definition ex_graph :: dependency_graph where
  "ex_graph = \<lparr>dg_order = [ex_units ! 1, ex_units ! 2, ex_units ! 0],
     dg_imports = [(''a.aleo'', [''l'', ''b.aleo'', ''c.aleo'']), (''l'', []), (''b.aleo'', [])],
     dg_networkDeps = [''c.aleo'']\<rparr>"

lemma ex_graph_resolved: "resolveDependencies ex_read ex_units = Inr ex_graph"
  by code_simp

theorem dependency_order_sound_witness:
  "set (dg_order ex_graph) = set ex_units \<and> distinct (map unitId (dg_order ex_graph))"
  using dependency_order_sound [OF ex_graph_resolved] by blast

text \<open>
  C37: for units whose lookup keys are unique and whose sources can be read, the graph is built
  exactly when their imports are acyclic; the recursion never exceeds its bound.
\<close>

theorem dependency_graph_exists:
  assumes "unique_keys units" and "all_readable read units"
  shows "(\<exists>g. resolveDependencies read units = Inr g) \<longleftrightarrow> (\<forall>u \<in> set units. (unitId u, unitId u) \<notin> (unit_edges read units)\<^sup>+)"
proof -
  have dist: "distinct (all_keys units)" using assms(1) by (simp add: unique_keys_def)
  obtain t where t: "foldR (scan_unit read (unit_index units)) empty_tables units = Inr t"
    using assms(2) scan_units_iff by blast
  note sc = scan_all_units [OF assms(1) t]
  note nodes = unit_nodes_bounds [OF assms(1) sc]
  have roots: "set (map unitId units) \<subseteq> adj_nodes (dt_adj t)"
    "adj_nodes (dt_adj t) \<subseteq> (adj_edges (dt_adj t))\<^sup>* `` set (map unitId units)" using nodes(2) by auto
  have "(\<exists>g. resolveDependencies read units = Inr g)
      \<longleftrightarrow> (\<exists>ord. foldR (visit_unit (dt_adj t) (unit_index units) (Suc (length units)) []) [] (map unitId units) = Inr ord)"
    using resolve_parts(2) [OF refl assms(1) t]
    by (cases "foldR (visit_unit (dt_adj t) (unit_index units) (Suc (length units)) []) [] (map unitId units)") simp_all
  also have "\<dots> \<longleftrightarrow> (\<forall>x \<in> adj_nodes (dt_adj t). (x, x) \<notin> (adj_edges (dt_adj t))\<^sup>+)"
    by (rule du.run_succeeds_iff [OF nodes(1) roots])
  finally show ?thesis unfolding adj_edges_units [OF dist sc] unfolding nodes(2) [symmetric] by simp
qed

theorem dependency_graph_exists_witness:
  "list_all (\<lambda>u. (unitId u, unitId u) \<notin> (unit_edges ex_read ex_units)\<^sup>+) ex_units"
proof -
  have "unique_keys ex_units" "all_readable ex_read ex_units" by code_simp+
  then show ?thesis unfolding list_all_iff using dependency_graph_exists [of ex_units ex_read] ex_graph_resolved by blast
qed

text \<open>
  A circular-dependency error shows a real cycle: the listed ids start and end with the same
  one, and each imports the next.
\<close>

theorem circular_error_is_cycle:
  assumes "resolveDependencies read units = Inl (CircularDependency ids)"
  shows "2 \<le> length ids \<and> hd ids = last ids
    \<and> (\<forall>i. Suc i < length ids \<longrightarrow> (ids ! i, ids ! Suc i) \<in> unit_edges read units)"
  using assms
proof (cases rule: resolve_cases)
  case (keys e)
  then have "foldR (\<lambda>claimedBy iu. foldR (claim_key iu) claimedBy (lookupKeys (snd iu))) [] (enumerate 0 units)
      = Inl (CircularDependency ids)" by (simp add: validateUniqueLookupKeys_def bindR_Inl)
  from foldR_Inl [OF this] obtain m iu where "foldR (claim_key iu) m (lookupKeys (snd iu)) = Inl (CircularDependency ids)"
    by blast
  from foldR_Inl [OF this] show ?thesis by (auto simp: claim_key_def split: if_splits option.splits)
next
  case (read e)
  then have "foldR (scan_unit read (unit_index units)) empty_tables units = Inl (CircularDependency ids)" by simp
  from foldR_Inl [OF this] obtain t u where "scan_unit read (unit_index units) t u = Inl (CircularDependency ids)"
    by blast
  then show ?thesis
    by (auto simp: scan_unit_def parseImports_def bindR_Inl Let_def dest!: foldR_Inl split: option.splits)
next
  case (cycle t e)
  have dist: "distinct (all_keys units)" using cycle(1) by (simp add: unique_keys_def)
  note nodes = unit_nodes_bounds [OF cycle(1,3)]
  have "set (map unitId units) \<subseteq> adj_nodes (dt_adj t)" using nodes(2) by simp
  from du.run_ok [OF nodes(1) this, of "unit_index units"]
  obtain p y where p: "ids = dropWhile (\<lambda>z. z \<noteq> y) p @ [y]" "dfs_visit.walk (adj_of (dt_adj t)) (adj_nodes (dt_adj t)) p"
    "y \<in> set p" "(last p, y) \<in> adj_edges (dt_adj t)"
    using cycle(4,5) by (auto simp: du.visit_result_def du.shows_cycle_def)
  obtain as bs where as: "p = as @ y # bs" "y \<notin> set as" using p(3) by (metis split_list_first)
  then have "\<forall>x \<in> set as. x \<noteq> y" by blast
  then have "dropWhile (\<lambda>z. z \<noteq> y) p = y # bs" using as(1) by (simp add: dropWhile_append3)
  then have ids: "ids = (y # bs) @ [y]" using p(1) by simp
  have "dfs_visit.walk (adj_of (dt_adj t)) (adj_nodes (dt_adj t)) (p @ [y])"
    using du.walk_snoc [OF p(2)] p(4) by blast
  then have walk: "Suc i < length (p @ [y]) \<Longrightarrow> ((p @ [y]) ! i, (p @ [y]) ! Suc i) \<in> unit_edges read units" for i
    unfolding du.walk_def adj_edges_units [OF dist cycle(3)] by blast
  have "(ids ! i, ids ! Suc i) \<in> unit_edges read units" if "Suc i < length ids" for i
    using walk [of "length as + i"] that unfolding ids as(1) by (simp add: nth_append)
  then show ?thesis using ids by simp
qed simp


theorem circular_error_is_cycle_witness:
  "(''b.aleo'', ''a.aleo'') \<in> unit_edges (\<lambda>p. Some ''b.aleo/a.aleo/'') [ex_units ! 2, ex_units ! 0]"
proof -
  have "resolveDependencies (\<lambda>p. Some ''b.aleo/a.aleo/'') [ex_units ! 2, ex_units ! 0]
      = Inl (CircularDependency [''b.aleo'', ''a.aleo'', ''b.aleo''])"
    by code_simp
  from circular_error_is_cycle [OF this] show ?thesis by force
qed

text \<open>
  C36: the deployment closure of a program is computed for every graph, holds exactly the programs
  it reaches through local imports, itself included, each once, and every program after those of
  them it imports itself.
\<close>

theorem deployment_closure_sound:
  assumes "resolveDependencies read units = Inr g" and "rootId \<in> set (program_ids units)"
  shows "\<exists>ids. collectLocalDeploymentClosure rootId g (program_ids units) = Inr ids \<and> distinct ids
    \<and> set ids = (local_step g)\<^sup>* `` {rootId} \<inter> set (program_ids units)
    \<and> (\<forall>ys p zs d. ids = ys @ p # zs \<longrightarrow> (p, d) \<in> local_step g \<longrightarrow> d \<in> set (program_ids units) \<longrightarrow> d \<in> set ys)"
proof -
  let ?P = "\<lambda>p. p \<in> (local_step g)\<^sup>* `` {rootId} \<inter> set (program_ids units)"
  let ?ids = "filter ?P (program_ids (dg_order g))"
  note order = dependency_order_lemma [OF assms(1)]
  have units: "set (dg_order g) = set units" "distinct (map unitId (dg_order g))" using order by blast+
  have same: "set (program_ids (dg_order g)) = set (program_ids units)"
    by (rule set_eqI) (simp only: set_program_ids units(1))
  have "rootId \<in> set ?ids" using assms(2) same by simp
  then have ids: "collectLocalDeploymentClosure rootId g (program_ids units) = Inr ?ids"
    unfolding closure_is by (simp only: Let_def if_True)
  have dist: "distinct (program_ids (dg_order g))" using distinct_program_ids units(2) by blast
  have "d \<in> set ys" if split: "?ids = ys @ p # zs" and step: "(p, d) \<in> local_step g" and d: "d \<in> set (program_ids units)" for ys p zs d
  proof -
    have "p \<in> set ?ids" using split by simp
    then have "p \<in> {x \<in> set (program_ids (dg_order g)). ?P x}" by (simp only: set_filter)
    then have p: "?P p" "p \<in> set (program_ids (dg_order g))" by blast+
    then obtain u where u: "u \<in> set (dg_order g)" "program_id u = Some p" by (auto simp: set_program_ids)
    then obtain us vs where us: "dg_order g = us @ u # vs" using split_list by fast
    have up: "unitId u = p" using u(2) by (rule program_id_unitId)
    have "d \<in> unitId ` set us"
    proof (cases "om_get (dg_imports g) p")
      case None
      then show ?thesis using step by (simp add: local_step_def adj_of_def)
    next
      case (Some deps)
      then have "d \<in> set deps" "d \<notin> set (dg_networkDeps g)" using step by (simp_all add: local_step_def adj_of_def)
      then show ?thesis using order us Some up by blast
    qed
    then obtain w where w: "w \<in> set us" "unitId w = d" by blast
    obtain w' where w': "w' \<in> set (dg_order g)" "program_id w' = Some d"
      using d unfolding same [symmetric] by (auto simp: set_program_ids)
    have "w \<in> set (dg_order g)" using w(1) us by simp
    moreover have "unitId w' = d" using w'(2) by (rule program_id_unitId)
    ultimately have "w = w'" using w'(1) w(2) units(2) by (metis distinct_map inj_onD)
    then have dus: "d \<in> set (program_ids us)" using w(1) w'(2) by (auto simp: set_program_ids)
    have "?P d" using p(1) step d by (auto intro: rtrancl_into_rtrancl)
    then have "d \<in> set (filter ?P (program_ids us))" using dus by simp
    moreover have "?ids = filter ?P (program_ids us) @ p # filter ?P (program_ids vs)"
      using us u(2) p(1) by simp
    then have "ys = filter ?P (program_ids us)"
      using split split_unique [of ys p zs] distinct_filter [OF dist] by metis
    ultimately show ?thesis by simp
  qed
  then have before: "\<forall>ys p zs d. ?ids = ys @ p # zs \<longrightarrow> (p, d) \<in> local_step g \<longrightarrow> d \<in> set (program_ids units) \<longrightarrow> d \<in> set ys"
    by blast
  have "set ?ids = (local_step g)\<^sup>* `` {rootId} \<inter> set (program_ids units)"
    unfolding set_filter same by blast
  then show ?thesis using ids distinct_filter [OF dist] before by (intro exI [of _ ?ids] conjI)
qed


theorem deployment_closure_sound_witness:
  "\<exists>ids. collectLocalDeploymentClosure ''a.aleo'' ex_graph (program_ids ex_units) = Inr ids \<and> distinct ids"
proof -
  have "''a.aleo'' \<in> set (program_ids ex_units)" by code_simp
  from deployment_closure_sound [OF ex_graph_resolved this] show ?thesis by (elim exE conjE) (intro exI conjI)
qed

end
