(* ===== verification/Cli.thy ===== *)
theory Cli imports Plugins Paths begin

text \<open>
  The command line (\<^verbatim>\<open>cli/src/task-dispatch.ts\<close>, \<^verbatim>\<open>deploy-backend-arg.ts\<close>,
  \<^verbatim>\<open>config-discovery.ts\<close> and the steps of \<^verbatim>\<open>index.ts\<close> that follow the parse): finding the task,
  routing options to the global or task arguments, and the validation before dispatch.
\<close>

section \<open>Tokens\<close>

definition isOptionToken :: "string \<Rightarrow> bool" where
  "isOptionToken token = starts_with token ''-''"

fun split_first :: "char \<Rightarrow> string \<Rightarrow> string \<times> string option" where
  "split_first d [] = ([], None)"
| "split_first d (c # cs) = (if c = d then ([], Some cs) else (case split_first d cs of (a, b) \<Rightarrow> (c # a, b)))"

text \<open>\<^verbatim>\<open>rawName\<close> and \<^verbatim>\<open>inlineValue\<close>\<close>

definition splitOptionToken :: "string \<Rightarrow> string \<times> string option" where
  "splitOptionToken arg = split_first (CHR ''='') (if starts_with arg ''--'' then drop 2 arg else drop 1 arg)"

definition coerceFlagValue :: "string option \<Rightarrow> bool" where
  "coerceFlagValue inlineValue = (case inlineValue of None \<Rightarrow> True | Some v \<Rightarrow> map to_lower v \<noteq> ''false'')"

text \<open>The lookup of registered tasks; without one, no task is known.\<close>

type_synonym 's task_lookup = "string \<Rightarrow> 's task_def option"

definition canConsumeAsValue :: "string option \<Rightarrow> 's task_lookup \<Rightarrow> bool \<Rightarrow> bool" where
  "canConsumeAsValue token getTask allowTaskIdValue =
    (case token of
      None \<Rightarrow> False
    | Some t \<Rightarrow> if isOptionToken t then False
               else if \<not> allowTaskIdValue \<and> getTask t \<noteq> None then False
               else True)"

definition argv_at :: "string list \<Rightarrow> nat \<Rightarrow> string option" where
  "argv_at argv i = (if i < length argv then Some (argv ! i) else None)"

definition hasTaskTokenAfter :: "string list \<Rightarrow> nat \<Rightarrow> 's task_lookup \<Rightarrow> bool" where
  "hasTaskTokenAfter argv fromIndex getTask =
    list_ex (\<lambda>token. \<not> isOptionToken token \<and> getTask token \<noteq> None) (drop (fromIndex + 1) argv)"

section \<open>Argument lookups\<close>

record global_entry =
  ge_name :: string
  ge_type :: argument_type
  ge_builtIn :: bool

record task_entry =
  te_name :: string
  te_type :: option_type

type_synonym plugin_options = "(string, string \<times> global_option) omap"

definition BUILT_IN_GLOBAL_ARGUMENTS :: "(string \<times> argument_type \<times> string list) list" where
  "BUILT_IN_GLOBAL_ARGUMENTS = [(''config'', ArgFILE, []), (''network'', ArgSTRING, []), (''prove'', ArgBOOLEAN, []),
     (''verbose'', ArgBOOLEAN, []), (''help'', ArgBOOLEAN, [''h'']), (''version'', ArgBOOLEAN, [''v''])]"

definition set_all :: "string list \<Rightarrow> 'v \<Rightarrow> (string, 'v) omap \<Rightarrow> (string, 'v) omap" where
  "set_all names v m = fold (\<lambda>n m. om_set n v m) names m"

definition buildGlobalArgumentLookup :: "plugin_options \<Rightarrow> (string, global_entry) omap" where
  "buildGlobalArgumentLookup pluginGlobalOptions =
    fold (\<lambda>(k, pid, opt). set_all (getPublicArgumentNames (go_name opt))
        \<lparr>ge_name = go_name opt, ge_type = go_type opt, ge_builtIn = False\<rparr>) pluginGlobalOptions
     (fold (\<lambda>(name, ty, aliases). set_all (getPublicArgumentNames name @ aliases)
        \<lparr>ge_name = name, ge_type = ty, ge_builtIn = True\<rparr>) BUILT_IN_GLOBAL_ARGUMENTS [])"

definition set_free :: "string list \<Rightarrow> 'v \<Rightarrow> (string, 'v) omap \<Rightarrow> (string, 'v) omap" where
  "set_free names v m = fold (\<lambda>n m. if om_has m n then m else om_set n v m) names m"

definition buildTaskArgumentLookup :: "'s task_def \<Rightarrow> (string, task_entry) omap" where
  "buildTaskArgumentLookup d =
    fold (\<lambda>p. set_free (getPublicArgumentNames (pos_name p)) \<lparr>te_name = pos_name p, te_type = TString\<rparr>) (def_positionals d)
     (fold (\<lambda>opt. set_all (getPublicArgumentNames (opt_name opt)) \<lparr>te_name = opt_name opt, te_type = opt_type opt\<rparr>) (def_options d)
       (fold (\<lambda>f. set_all (getPublicArgumentNames (flag_name f)) \<lparr>te_name = flag_name f, te_type = TBoolean\<rparr>) (def_flags d) []))"

section \<open>Finding the task\<close>

function findTask_from ::
    "string list \<Rightarrow> (string, global_entry) omap \<Rightarrow> 's task_lookup \<Rightarrow> nat \<Rightarrow> (string \<times> nat) option \<Rightarrow> (string \<times> nat) option" where
  "findTask_from argv globals getTask i firstUnclaimed =
    (if \<not> i < length argv then firstUnclaimed
     else let arg = argv ! i in
       if starts_with arg ''--'' \<or> starts_with arg ''-'' then
         (case splitOptionToken arg of (rawName, inlineValue) \<Rightarrow>
            let isValuedOption = (case om_get globals rawName of None \<Rightarrow> True | Some g \<Rightarrow> ge_type g \<noteq> ArgBOOLEAN)
            in if inlineValue = None \<and> isValuedOption
                  \<and> canConsumeAsValue (argv_at argv (i + 1)) getTask (hasTaskTokenAfter argv (i + 1) getTask)
               then findTask_from argv globals getTask (i + 2) firstUnclaimed
               else findTask_from argv globals getTask (i + 1) firstUnclaimed)
       else if getTask arg \<noteq> None then Some (arg, i)
       else findTask_from argv globals getTask (i + 1)
              (if firstUnclaimed = None then Some (arg, i) else firstUnclaimed))"
  by pat_completeness auto
termination by (relation "measure (\<lambda>(argv, globals, getTask, i, first). length argv - i)") auto

declare findTask_from.simps [simp del]

definition findTask :: "string list \<Rightarrow> plugin_options \<Rightarrow> 's task_lookup \<Rightarrow> (string \<times> nat) option" where
  "findTask argv pluginGlobalOptions getTask =
    findTask_from argv (buildGlobalArgumentLookup pluginGlobalOptions) getTask 0 None"

section \<open>Parsing\<close>

datatype cli_error =
    NotAFunction string
  | UnknownTask string
  | UnexpectedBeforeTask string string
  | UnexpectedArgument string string
  | UnknownArgument string "string option"
  | TaskShadowsGlobal string string string
  | UnknownNetwork string "string list"
  | BackendNeedsValue
  | UnknownBackend string
  | ConfigNoDefault string
  | ConfigReturnedUndefined string
  | CliTaskError task_error

record parse_state =
  ps_taskArgs :: args
  ps_preTaskArgs :: "string list"
  ps_globalArgs :: args

record parsed_args =
  pa_taskId :: "string option"
  pa_taskArgs :: args
  pa_preTaskArgs :: "string list"
  pa_globalArgs :: args

definition canConsumeNextAsValue :: "string list \<Rightarrow> nat \<Rightarrow> nat option \<Rightarrow> bool" where
  "canConsumeNextAsValue argv index taskIndex =
    (if Some (index + 1) = taskIndex then False
     else canConsumeAsValue (argv_at argv (index + 1)) (\<lambda>_. None :: unit task_def option) False)"

text \<open>The three sources of a value: inline, the next token, or none. \<open>Some n\<close>: \<open>n\<close> tokens used up.\<close>

definition option_value :: "string list \<Rightarrow> nat \<Rightarrow> nat option \<Rightarrow> string option \<Rightarrow> (jsval \<times> nat) option" where
  "option_value argv i taskIndex inlineValue =
    (case inlineValue of
      Some v \<Rightarrow> Some (JStr v, 1)
    | None \<Rightarrow> if canConsumeNextAsValue argv i taskIndex then Some (JStr (argv ! (i + 1)), 2) else None)"

definition parse_option ::
    "(string, global_entry) omap \<Rightarrow> (string, task_entry) omap \<Rightarrow> string list \<Rightarrow> nat option \<Rightarrow> nat \<Rightarrow> parse_state
      \<Rightarrow> nat \<times> parse_state" where
  "parse_option globals tasks argv taskIndex i st =
    (case splitOptionToken (argv ! i) of (rawName, inlineValue) \<Rightarrow>
      let globalDefinition = om_get globals rawName; taskArg = om_get tasks rawName;
          builtIn = (case globalDefinition of None \<Rightarrow> False | Some g \<Rightarrow> ge_builtIn g);
          val = option_value argv i taskIndex inlineValue
      in case (if builtIn then None else taskArg) of
        Some t \<Rightarrow>
          if te_type t = TBoolean
          then (i + 1, st\<lparr>ps_taskArgs := om_set (te_name t) (JBool (coerceFlagValue inlineValue)) (ps_taskArgs st)\<rparr>)
          else (case val of
              Some (v, n) \<Rightarrow> (i + n, st\<lparr>ps_taskArgs := om_set (te_name t) v (ps_taskArgs st)\<rparr>)
            | None \<Rightarrow> (i + 1, st))
      | None \<Rightarrow>
          (case globalDefinition of
            Some g \<Rightarrow>
              if ge_type g = ArgBOOLEAN
              then (i + 1, st\<lparr>ps_globalArgs := om_set (ge_name g) (JBool (coerceFlagValue inlineValue)) (ps_globalArgs st)\<rparr>)
              else (case val of
                  Some (v, n) \<Rightarrow> (i + n, st\<lparr>ps_globalArgs := om_set (ge_name g) v (ps_globalArgs st)\<rparr>)
                | None \<Rightarrow> (i + 1, st))
          | None \<Rightarrow>
              (case val of
                Some (v, n) \<Rightarrow> (i + n, st\<lparr>ps_taskArgs := om_set rawName v (ps_taskArgs st)\<rparr>)
              | None \<Rightarrow> (i + 1, st\<lparr>ps_taskArgs := om_set rawName (JBool True) (ps_taskArgs st)\<rparr>))))"

text \<open>
  A bare token after the task is pushed to \<^verbatim>\<open>taskArgs._positional\<close>, whatever that key holds: an
  option spelled \<^verbatim>\<open>--_positional\<close> may have stored a string there, which has no \<^verbatim>\<open>push\<close>.
\<close>

definition push_positional :: "string \<Rightarrow> args \<Rightarrow> cli_error + args" where
  "push_positional arg taskArgs =
    (case js_get taskArgs ''_positional'' of
      JArr xs \<Rightarrow> Inr (om_set ''_positional'' (JArr (xs @ [JStr arg])) taskArgs)
    | JUndef \<Rightarrow> Inr (om_set ''_positional'' (JArr [JStr arg]) taskArgs)
    | JNull \<Rightarrow> Inr (om_set ''_positional'' (JArr [JStr arg]) taskArgs)
    | _ \<Rightarrow> Inl (NotAFunction ''positionals.push''))"

definition parse_step ::
    "(string, global_entry) omap \<Rightarrow> (string, task_entry) omap \<Rightarrow> string list \<Rightarrow> nat option \<Rightarrow> nat \<Rightarrow> parse_state
      \<Rightarrow> cli_error + nat \<times> parse_state" where
  "parse_step globals tasks argv taskIndex i st =
    (let arg = argv ! i in
     if Some i = taskIndex then Inr (i + 1, st)
     else if starts_with arg ''--'' \<or> starts_with arg ''-'' then Inr (parse_option globals tasks argv taskIndex i st)
     else case taskIndex of
       None \<Rightarrow> Inr (i + 1, st)
     | Some ti \<Rightarrow>
         if ti < i then bindR (push_positional arg (ps_taskArgs st)) (\<lambda>ta. Inr (i + 1, st\<lparr>ps_taskArgs := ta\<rparr>))
         else Inr (i + 1, st\<lparr>ps_preTaskArgs := ps_preTaskArgs st @ [arg]\<rparr>))"

lemma parse_option_progress: "i < fst (parse_option globals tasks argv taskIndex i st)"
  by (auto simp: parse_option_def option_value_def Let_def split: prod.splits option.splits)

lemma parse_step_progress: "parse_step globals tasks argv taskIndex i st = Inr (j, st') \<Longrightarrow> i < j"
  using parse_option_progress [of i globals tasks argv taskIndex st]
  by (cases "parse_option globals tasks argv taskIndex i st")
    (auto simp: parse_step_def Let_def bindR_def split: if_splits option.splits sum.splits)

function parse_from ::
    "(string, global_entry) omap \<Rightarrow> (string, task_entry) omap \<Rightarrow> string list \<Rightarrow> nat option \<Rightarrow> nat \<Rightarrow> parse_state
      \<Rightarrow> cli_error + parse_state" where
  "parse_from globals tasks argv taskIndex i st =
    (if \<not> i < length argv then Inr st
     else case parse_step globals tasks argv taskIndex i st of
       Inl e \<Rightarrow> Inl e
     | Inr (j, st') \<Rightarrow> parse_from globals tasks argv taskIndex j st')"
  by pat_completeness auto
termination
  by (relation "measure (\<lambda>(globals, tasks, argv, taskIndex, i, st). length argv - i)")
    (auto dest!: sym [of "Inr _"] parse_step_progress intro: diff_less_mono2)

declare parse_from.simps [simp del]

definition task_definition_of :: "'s task_lookup \<Rightarrow> string option \<Rightarrow> 's task_def option" where
  "task_definition_of getTask taskId = (case taskId of None \<Rightarrow> None | Some t \<Rightarrow> if t \<noteq> [] then getTask t else None)"

definition parseArgs :: "string list \<Rightarrow> plugin_options \<Rightarrow> 's task_lookup \<Rightarrow> cli_error + parsed_args" where
  "parseArgs argv pluginGlobalOptions getTask =
    (let found = findTask argv pluginGlobalOptions getTask;
         taskId = map_option fst found; taskIndex = map_option snd found;
         tasks = (case task_definition_of getTask taskId of None \<Rightarrow> [] | Some d \<Rightarrow> buildTaskArgumentLookup d)
     in bindR (parse_from (buildGlobalArgumentLookup pluginGlobalOptions) tasks argv taskIndex 0
           \<lparr>ps_taskArgs = [], ps_preTaskArgs = [], ps_globalArgs = []\<rparr>)
         (\<lambda>st. Inr \<lparr>pa_taskId = taskId, pa_taskArgs = ps_taskArgs st, pa_preTaskArgs = ps_preTaskArgs st,
                   pa_globalArgs = ps_globalArgs st\<rparr>))"

section \<open>Validation and dispatch\<close>

definition validateTaskGlobalOptionCollisions :: "plugin list \<Rightarrow> 's task_runner \<Rightarrow> cli_error + unit" where
  "validateTaskGlobalOptionCollisions plugins tr =
    (let globalNames = getReservedBuiltInGlobalArgumentNames
           @ concat (map (\<lambda>p. concat (map (\<lambda>opt. getPublicArgumentNames (go_name opt)) (or_empty (pl_globalOptions p)))) plugins);
         clashes = concat (map (\<lambda>taskId. case getTaskDefinition tr taskId of None \<Rightarrow> []
           | Some d \<Rightarrow> concat (map (\<lambda>name. map (\<lambda>p. (taskId, name, p))
                 (filter (\<lambda>p. p \<in> set globalNames) (getPublicArgumentNames name)))
               (map opt_name (def_options d) @ map flag_name (def_flags d)))) (getTaskIds tr))
     in case clashes of
       (taskId, name, publicName) # _ \<Rightarrow> Inl (TaskShadowsGlobal taskId name (argumentFlagName publicName))
     | [] \<Rightarrow> Inr ())"

definition validateNoTaskArgs :: "parsed_args \<Rightarrow> cli_error + unit" where
  "validateNoTaskArgs parsed =
    (case filter (\<lambda>k. k \<noteq> ''_positional'') (om_keys (pa_taskArgs parsed)) of
      key # _ \<Rightarrow> Inl (UnknownArgument (argumentFlagName key) None)
    | [] \<Rightarrow> Inr ())"

definition named_positionals :: "'s task_def \<Rightarrow> args \<Rightarrow> task_positional list" where
  "named_positionals d taskArgs =
    filter (\<lambda>p. list_ex (\<lambda>n. om_has taskArgs n) (getPublicArgumentNames (pos_name p))) (def_positionals d)"

definition validateParsedArgs :: "'s task_lookup \<Rightarrow> parsed_args \<Rightarrow> cli_error + unit" where
  "validateParsedArgs getTask parsed =
    (case pa_taskId parsed of
      None \<Rightarrow> validateNoTaskArgs parsed
    | Some taskId \<Rightarrow>
        if taskId = [] then validateNoTaskArgs parsed
        else case getTask taskId of
          None \<Rightarrow> Inl (UnknownTask taskId)
        | Some d \<Rightarrow>
            (case pa_preTaskArgs parsed of
              pre # _ \<Rightarrow> Inl (UnexpectedBeforeTask pre taskId)
            | [] \<Rightarrow>
                let vals = positional_values (pa_taskArgs parsed);
                    defs = def_positionals d;
                    variadic = (0 < length defs \<and> pos_variadic (last defs));
                    bareSlots = length defs - length (named_positionals d (pa_taskArgs parsed))
                in if 0 < length vals \<and> \<not> variadic \<and> bareSlots < length vals
                   then Inl (case vals ! bareSlots of JStr s \<Rightarrow> UnexpectedArgument s taskId | _ \<Rightarrow> UnexpectedArgument [] taskId)
                   else (case filter (\<lambda>k. k \<noteq> ''_positional'' \<and> \<not> om_has (buildTaskArgumentLookup d) k)
                              (om_keys (pa_taskArgs parsed)) of
                      key # _ \<Rightarrow> Inl (UnknownArgument (argumentFlagName key) (Some taskId))
                    | [] \<Rightarrow> Inr ())))"

text \<open>The task run at the end of a command; help is printed when there is none.\<close>

definition dispatchTask ::
    "bool \<Rightarrow> 's task_runner \<Rightarrow> parsed_args \<Rightarrow> 's \<Rightarrow> (cli_error + jsval option) \<times> 's" where
  "dispatchTask divider tr parsed s =
    (case pa_taskId parsed of
      None \<Rightarrow> (Inr None, s)
    | Some taskId \<Rightarrow>
        if taskId = [] then (Inr None, s)
        else if \<not> om_has (tr_tasks tr) taskId then (Inl (UnknownTask taskId), s)
        else case fst (run_task divider tr taskId (pa_taskArgs parsed) s) of
          (Inl e, s') \<Rightarrow> (Inl (CliTaskError e), s')
        | (Inr v, s') \<Rightarrow> (Inr (Some v), s'))"

section \<open>The deploy backend flag\<close>

definition DEPLOY_PROVIDERS :: "string list" where
  "DEPLOY_PROVIDERS = [''sdk'', ''leo'']"

definition FLAG_TOKENS :: "string list" where
  "FLAG_TOKENS = [''--deploy-backend'', ''--deployBackend'']"

definition FLAG_PREFIXES :: "string list" where
  "FLAG_PREFIXES = [''--deploy-backend='', ''--deployBackend='']"

definition sawDeployBackendFlag :: "string list \<Rightarrow> bool" where
  "sawDeployBackendFlag argv = list_ex (\<lambda>a. a \<in> set FLAG_TOKENS \<or> list_ex (\<lambda>p. starts_with a p) FLAG_PREFIXES) argv"

definition assertDeployBackendArg :: "string list \<Rightarrow> jsval \<Rightarrow> cli_error + unit" where
  "assertDeployBackendArg argv parsedValue =
    (if \<not> sawDeployBackendFlag argv then Inr ()
     else case parsedValue of
       JStr v \<Rightarrow> if v = [] then Inl BackendNeedsValue
                 else if v \<notin> set DEPLOY_PROVIDERS then Inl (UnknownBackend v) else Inr ()
     | _ \<Rightarrow> Inl BackendNeedsValue)"

section \<open>After the parse\<close>

text \<open>The network override of \<^verbatim>\<open>--network\<close>: the new default network, if it was given.\<close>

definition override_network :: "string list \<Rightarrow> args \<Rightarrow> cli_error + string option" where
  "override_network networks globalArgs =
    (case js_get globalArgs ''network'' of
      JStr n \<Rightarrow> if n \<in> set networks then Inr (Some n) else Inl (UnknownNetwork n networks)
    | _ \<Rightarrow> Inr None)"

text \<open>Seeding \<^verbatim>\<open>globalOptions\<close> from the task-aware parse, with the plugins' defaults.\<close>

definition seed_global_options :: "plugin_options \<Rightarrow> args \<Rightarrow> args \<Rightarrow> args" where
  "seed_global_options defs globalArgs globalOptions =
    fold (\<lambda>(name, pid, opt) g.
        if om_has globalArgs name then om_set name (js_get globalArgs name) g
        else if go_defaultValue opt \<noteq> JUndef then om_set name (go_defaultValue opt) g else g) defs
      (if om_has globalArgs ''prove'' then om_set ''prove'' (js_get globalArgs ''prove'') globalOptions
       else globalOptions)"

section \<open>The configuration file\<close>

definition CONFIG_FILENAMES :: "string list" where
  "CONFIG_FILENAMES = [''lionden.config.ts'', ''lionden.config.js'', ''lionden.config.mjs'']"

text \<open>Walking up to the root; the fuel is the length of the path, which each step shortens.\<close>

fun find_config_up :: "nat \<Rightarrow> (string \<Rightarrow> bool) \<Rightarrow> string \<Rightarrow> string option" where
  "find_config_up 0 exists' dir = None"
| "find_config_up (Suc fuel) exists' dir =
    (case find exists' (map (\<lambda>f. path_join [dir, f]) CONFIG_FILENAMES) of
      Some candidate \<Rightarrow> Some candidate
    | None \<Rightarrow> if path_dirname dir = dir then None else find_config_up fuel exists' (path_dirname dir))"

definition findConfigFile :: "string \<Rightarrow> (string \<Rightarrow> bool) \<Rightarrow> string \<Rightarrow> string option" where
  "findConfigFile cwd exists' startDir =
    (let dir = path_resolve cwd [startDir] in find_config_up (Suc (length dir)) exists' dir)"

text \<open>What the default export of the file is: a value, a factory with its result, or missing.\<close>

datatype config_export = NoExport | ExportValue jsval | ExportFactory jsval

definition loadConfigFile :: "string \<Rightarrow> (string \<Rightarrow> config_export) \<Rightarrow> string \<Rightarrow> cli_error + jsval \<times> string" where
  "loadConfigFile cwd modules configPath =
    (let absolutePath = path_resolve cwd [configPath]; projectRoot = path_dirname absolutePath
     in case modules absolutePath of
       NoExport \<Rightarrow> Inl (ConfigNoDefault absolutePath)
     | ExportValue v \<Rightarrow> if v = JUndef then Inl (ConfigNoDefault absolutePath) else Inr (v, projectRoot)
     | ExportFactory v \<Rightarrow> if v = JUndef then Inl (ConfigReturnedUndefined absolutePath) else Inr (v, projectRoot))"

section \<open>Inline options\<close>

text \<open>A token \<^verbatim>\<open>--name=value\<close>, which never consumes the next one.\<close>

definition inline_token :: "string \<Rightarrow> bool" where
  "inline_token tok \<longleftrightarrow> starts_with tok ''-'' \<and> snd (splitOptionToken tok) \<noteq> None"

definition apply_inline ::
    "(string, global_entry) omap \<Rightarrow> (string, task_entry) omap \<Rightarrow> string \<Rightarrow> parse_state \<Rightarrow> parse_state" where
  "apply_inline globals tasks tok st = snd (parse_option globals tasks [tok] None 0 st)"

lemma inline_parse_option:
  assumes "inline_token (argv ! i)"
  shows "parse_option globals tasks argv ti i st = (i + 1, apply_inline globals tasks (argv ! i) st)"
proof -
  obtain n v where "splitOptionToken (argv ! i) = (n, Some v)"
    using assms by (cases "splitOptionToken (argv ! i)") (auto simp: inline_token_def)
  then show ?thesis
    by (auto simp: parse_option_def apply_inline_def option_value_def Let_def split: option.splits)
qed

lemma inline_parse_step:
  assumes "inline_token (argv ! i)" and "Some i \<noteq> ti"
  shows "parse_step globals tasks argv ti i st = Inr (i + 1, apply_inline globals tasks (argv ! i) st)"
  using assms inline_parse_option [OF assms(1)] by (auto simp: parse_step_def Let_def inline_token_def)

lemma parse_inlines:
  assumes "\<And>j. i \<le> j \<Longrightarrow> j < length argv \<Longrightarrow> Some j = ti \<or> inline_token (argv ! j)" and "i \<le> length argv"
  shows "parse_from globals tasks argv ti i st
    = Inr (fold (\<lambda>j st. if Some j = ti then st else apply_inline globals tasks (argv ! j) st) [i..<length argv] st)"
  using assms
proof (induction "length argv - i" arbitrary: i st)
  case 0
  then show ?case by (simp add: parse_from.simps)
next
  case (Suc n)
  then have i: "i < length argv" by simp
  let ?st = "if Some i = ti then st else apply_inline globals tasks (argv ! i) st"
  have "parse_step globals tasks argv ti i st = Inr (i + 1, ?st)"
    using Suc.prems(1) [of i] i inline_parse_step [of argv i ti] by (auto simp: parse_step_def Let_def)
  then have "parse_from globals tasks argv ti i st = parse_from globals tasks argv ti (i + 1) ?st"
    using i by (subst parse_from.simps) simp
  also have "\<dots> = Inr (fold (\<lambda>j st. if Some j = ti then st else apply_inline globals tasks (argv ! j) st) [i + 1..<length argv] ?st)"
    using Suc i by (intro Suc.hyps(1)) auto
  finally show ?case using i by (simp add: upt_conv_Cons)
qed

lemma fold_around:
  "fold (\<lambda>j st. if Some j = Some (length xs) then st else f ((xs @ t # ys) ! j) st) [0..<length (xs @ t # ys)] st
    = fold f (xs @ ys) st"
proof -
  have split: "[0..<length (xs @ t # ys)] = [0..<length xs] @ length xs # map (\<lambda>j. j + Suc (length xs)) [0..<length ys]"
  proof -
    have "[0..<length (xs @ t # ys)] = [0..<length xs] @ [length xs..<length xs + Suc (length ys)]"
      using upt_add_eq_append [of 0 "length xs" "Suc (length ys)"] by simp
    also have "[length xs..<length xs + Suc (length ys)] = length xs # [Suc (length xs)..<length xs + Suc (length ys)]"
      by (intro upt_conv_Cons) simp
    also have "[Suc (length xs)..<length xs + Suc (length ys)] = map (\<lambda>j. j + Suc (length xs)) [0..<length ys]"
      by (simp only: map_add_upt) (simp add: add.commute)
    finally show ?thesis .
  qed
  have 1: "fold (\<lambda>j st. if Some j = Some (length xs) then st else f ((xs @ t # ys) ! j) st) [0..<length xs] st = fold f xs st" for st
  proof -
    have "fold (\<lambda>j st. if Some j = Some (length xs) then st else f ((xs @ t # ys) ! j) st) [0..<length xs] st
        = fold (\<lambda>j. f (xs ! j)) [0..<length xs] st"
      by (intro fold_cong) (auto simp: nth_append fun_eq_iff)
    also have "\<dots> = fold f (map (\<lambda>j. xs ! j) [0..<length xs]) st" by (simp add: fold_map comp_def)
    finally show ?thesis by (simp add: map_nth)
  qed
  have 2: "fold (\<lambda>j st. if Some j = Some (length xs) then st else f ((xs @ t # ys) ! j) st)
      (map (\<lambda>j. j + Suc (length xs)) [0..<length ys]) st = fold f ys st" for st
  proof -
    have "fold (\<lambda>j st. if Some j = Some (length xs) then st else f ((xs @ t # ys) ! j) st)
      (map (\<lambda>j. j + Suc (length xs)) [0..<length ys]) st = fold (\<lambda>j. f (ys ! j)) [0..<length ys] st"
      unfolding fold_map by (intro fold_cong) (auto simp: nth_append fun_eq_iff)
    also have "\<dots> = fold f (map (\<lambda>j. ys ! j) [0..<length ys]) st" by (simp add: fold_map comp_def)
    finally show ?thesis by (simp add: map_nth)
  qed
  show ?thesis unfolding split fold_append fold_simps comp_def 1 2 by (simp add: 1)
qed

lemma findTask_inlines:
  assumes "\<And>tok. tok \<in> set xs \<Longrightarrow> inline_token tok" and "\<not> isOptionToken t" and "getTask t \<noteq> None"
  shows "findTask (xs @ t # ys) opts getTask = Some (t, length xs)"
proof -
  have "findTask_from (pre @ xs @ t # ys) globals getTask (length pre) None = Some (t, length (pre @ xs))" for pre globals
    using assms(1)
  proof (induction xs arbitrary: pre)
    case Nil
    have "\<not> starts_with t ''--''" using assms(2) by (auto simp: isOptionToken_def js_string prefix_def)
    then show ?case using assms(2,3) by (subst findTask_from.simps) (auto simp: isOptionToken_def Let_def)
  next
    case (Cons x xs)
    then have "inline_token x" by simp
    then obtain n v where "splitOptionToken x = (n, Some v)" "starts_with x ''-''"
      by (cases "splitOptionToken x") (auto simp: inline_token_def)
    then have "findTask_from (pre @ (x # xs) @ t # ys) globals getTask (length pre) None
        = findTask_from ((pre @ [x]) @ xs @ t # ys) globals getTask (length (pre @ [x])) None"
      by (subst findTask_from.simps) (simp add: Let_def)
    then show ?case using Cons.IH [of "pre @ [x]"] Cons.prems by simp
  qed
  from this [of "[]"] show ?thesis by (simp add: findTask_def)
qed

lemma parseArgs_inlines:
  assumes "\<And>tok. tok \<in> set (xs @ ys) \<Longrightarrow> inline_token tok" and "\<not> isOptionToken t" and "getTask t \<noteq> None"
  shows "parseArgs (xs @ t # ys) opts getTask =
    (let tasks = (case task_definition_of getTask (Some t) of None \<Rightarrow> [] | Some d \<Rightarrow> buildTaskArgumentLookup d);
         st = fold (apply_inline (buildGlobalArgumentLookup opts) tasks) (xs @ ys)
                \<lparr>ps_taskArgs = [], ps_preTaskArgs = [], ps_globalArgs = []\<rparr>
     in Inr \<lparr>pa_taskId = Some t, pa_taskArgs = ps_taskArgs st, pa_preTaskArgs = ps_preTaskArgs st, pa_globalArgs = ps_globalArgs st\<rparr>)"
proof -
  have find: "findTask (xs @ t # ys) opts getTask = Some (t, length xs)"
    using assms by (intro findTask_inlines) auto
  have inl: "Some j = Some (length xs) \<or> inline_token ((xs @ t # ys) ! j)" if "j < length (xs @ t # ys)" for j
    using assms(1) that by (auto simp: nth_append nth_Cons split: nat.splits if_splits)
  have "parse_from globals tasks (xs @ t # ys) (Some (length xs)) 0 st
      = Inr (fold (apply_inline globals tasks) (xs @ ys) st)" for globals tasks st
  proof -
    have "parse_from globals tasks (xs @ t # ys) (Some (length xs)) 0 st = Inr (fold (\<lambda>j st. if Some j = Some (length xs) then st
        else apply_inline globals tasks ((xs @ t # ys) ! j) st) [0..<length (xs @ t # ys)] st)"
      using inl by (intro parse_inlines) auto
    then show ?thesis unfolding fold_around .
  qed
  then show ?thesis unfolding parseArgs_def find by (simp add: Let_def)
qed


section \<open>No bare value is lost\<close>

text \<open>The positionals that are not supplied by name, and how many bare values they can take.\<close>

definition unnamed :: "args \<Rightarrow> task_positional list \<Rightarrow> task_positional list" where
  "unnamed m ps = filter (\<lambda>p. \<not> om_has m (pos_name p)) ps"

lemma bind_positionals_cursor:
  assumes "foldR (bind_positional id' vals) (m, c) ps = Inr (m', c')" and "distinct (map pos_name ps)" and "c \<le> length vals"
    and "(\<exists>p \<in> set (unnamed m ps). pos_variadic p) \<or> length vals \<le> c + length (unnamed m ps)"
  shows "c' = length vals"
  using assms
proof (induction ps arbitrary: m c)
  case Nil
  then show ?case by (simp add: unnamed_def)
next
  case (Cons p ps)
  obtain m1 c1 where step: "bind_positional id' vals (m, c) p = Inr (m1, c1)"
    and rest: "foldR (bind_positional id' vals) (m1, c1) ps = Inr (m', c')"
    using Cons.prems(1) by auto
  have same: "unnamed m1 ps = unnamed m ps"
  proof -
    have "om_has m1 (pos_name q) = om_has m (pos_name q)" if "q \<in> set ps" for q
    proof -
      have "pos_name q \<noteq> pos_name p" using Cons.prems(2) that by (metis distinct.simps(2) image_eqI list.simps(9) set_map)
      then show ?thesis using step
        by (auto simp: bind_positional_def Let_def om_has_set split: if_splits)
    qed
    then show ?thesis by (simp add: unnamed_def cong: filter_cong)
  qed
  have c1: "c1 = (if om_has m (pos_name p) \<or> \<not> c < length vals then c else if pos_variadic p then length vals else c + 1)"
    using step by (auto simp: bind_positional_def Let_def split: if_splits)
  have "(\<exists>q \<in> set (unnamed m1 ps). pos_variadic q) \<or> length vals \<le> c1 + length (unnamed m1 ps)"
    using Cons.prems(3,4) unfolding same c1 by (auto simp: unnamed_def)
  then show ?case using Cons.IH [OF rest] Cons.prems(2,3) c1 by (simp split: if_splits)
qed

lemma normalized_has:
  assumes "unambiguous d" and "c \<in> canonicals d"
  shows "om_has (normalizeArgs d args) (can_name c) \<longleftrightarrow> (\<exists>n \<in> set (getPublicArgumentNames (can_name c)). om_has args n)"
proof -
  have keys: "om_has (fold (\<lambda>kv m. case normalize_entry d kv of (k, v) \<Rightarrow> om_set k v m) es m) x
      \<longleftrightarrow> om_has m x \<or> (\<exists>kv \<in> set es. fst (normalize_entry d kv) = x)" for es m x
    by (induction es arbitrary: m) (auto simp: om_has_set split: prod.splits)
  have "fst (normalize_entry d (k, v)) = can_name c \<longleftrightarrow> k \<in> set (getPublicArgumentNames (can_name c))" for k v
  proof
    assume k: "k \<in> set (getPublicArgumentNames (can_name c))"
    then have "om_get (canonicalMap d) k = Some c" using assms by (simp add: canonicalMap_iff)
    then show "fst (normalize_entry d (k, v)) = can_name c" by (simp add: normalize_entry_def)
  next
    assume e: "fst (normalize_entry d (k, v)) = can_name c"
    show "k \<in> set (getPublicArgumentNames (can_name c))"
    proof (cases "om_get (canonicalMap d) k")
      case None
      then have "k = can_name c" using e by (simp add: normalize_entry_def)
      then show ?thesis by simp
    next
      case (Some c')
      then have "can_name c' = can_name c" using e by (simp add: normalize_entry_def)
      moreover have "k \<in> set (getPublicArgumentNames (can_name c'))" using Some assms(1) by (simp add: canonicalMap_iff)
      ultimately show ?thesis by simp
    qed
  qed
  then show ?thesis
    unfolding normalizeArgs_def keys by (auto simp: om_has_dom om_has_def) (metis prod.collapse fst_conv)+
qed

lemma unambiguous_names: "unambiguous d \<Longrightarrow> distinct (arg_names d)"
proof -
  have "distinct xs" if "distinct (concat (map getPublicArgumentNames xs))" for xs
    using that
  proof (induction xs)
    case (Cons x xs)
    then have "x \<notin> set xs" using public_self [of x] by (auto simp del: public_self)
    then show ?case using Cons by simp
  qed simp
  then show "unambiguous d \<Longrightarrow> distinct (arg_names d)" by (simp add: unambiguous_def)
qed

lemma mergeDefaults_has:
  "om_has (mergeDefaults d m) k \<Longrightarrow> om_has m k \<or> k \<in> set (map opt_name (def_options d) @ map flag_name (def_flags d))"
proof -
  have 1: "om_has (fold merge_option xs m) k \<Longrightarrow> om_has m k \<or> k \<in> opt_name ` set xs" for xs m
    by (induction xs arbitrary: m) (fastforce simp: merge_option_def om_has_set split: if_splits)+
  have 2: "om_has (fold merge_flag xs m) k \<Longrightarrow> om_has m k \<or> k \<in> flag_name ` set xs" for xs m
    by (induction xs arbitrary: m) (fastforce simp: merge_flag_def om_has_set split: if_splits)+
  show "om_has (mergeDefaults d m) k \<Longrightarrow> om_has m k \<or> k \<in> set (map opt_name (def_options d) @ map flag_name (def_flags d))"
    unfolding mergeDefaults_def using 1 2 by fastforce
qed

lemma merged_positional:
  assumes "unambiguous d" and "p \<in> set (def_positionals d)"
  shows "om_has (mergeDefaults d (normalizeArgs d args)) (pos_name p)
    \<longleftrightarrow> (\<exists>n \<in> set (getPublicArgumentNames (pos_name p)). om_has args n)"
proof -
  have "pos_canonical p \<in> canonicals d" using assms(2) by (simp add: canonicals_def)
  from normalized_has [OF assms(1) this, of args]
  have n: "om_has (normalizeArgs d args) (pos_name p) \<longleftrightarrow> (\<exists>n \<in> set (getPublicArgumentNames (pos_name p)). om_has args n)"
    by simp
  have "pos_name p \<notin> set (map opt_name (def_options d) @ map flag_name (def_flags d))"
    using unambiguous_names [OF assms(1)] assms(2) by (auto simp: arg_names_def)
  then show ?thesis
    using n mergeDefaults_has extends_has [OF mergeDefaults_extends] by blast
qed


definition reserved_positional :: "'s task_def \<Rightarrow> bool" where
  "reserved_positional d \<longleftrightarrow> ''_positional'' \<notin> set (concat (map getPublicArgumentNames (arg_names d)))"

lemma canonical_name: "c \<in> canonicals d \<Longrightarrow> can_name c \<in> set (arg_names d)"
  by (auto simp: canonicals_def arg_names_def)

lemma normalize_positional:
  assumes "unambiguous d" and "reserved_positional d"
  shows "normalize_entry d (''_positional'', v) = (''_positional'', v)"
    and "fst (normalize_entry d (k, v)) = ''_positional'' \<Longrightarrow> k = ''_positional''"
proof -
  have "om_get (canonicalMap d) ''_positional'' = None"
  proof (rule ccontr)
    assume "om_get (canonicalMap d) ''_positional'' \<noteq> None"
    then obtain c where "om_get (canonicalMap d) ''_positional'' = Some c" by blast
    then have "c \<in> canonicals d" "''_positional'' \<in> set (getPublicArgumentNames (can_name c))"
      using assms(1) by (simp_all add: canonicalMap_iff)
    then show False using assms(2) canonical_name by (fastforce simp: reserved_positional_def)
  qed
  then show "normalize_entry d (''_positional'', v) = (''_positional'', v)" by (simp add: normalize_entry_def)
  show "k = ''_positional''" if e: "fst (normalize_entry d (k, v)) = ''_positional''"
  proof (cases "om_get (canonicalMap d) k")
    case None
    then show ?thesis using e by (simp add: normalize_entry_def)
  next
    case (Some c)
    have "can_name c = ''_positional''" using Some e by (simp add: normalize_entry_def)
    moreover have "c \<in> canonicals d" using Some assms(1) by (simp add: canonicalMap_iff)
    ultimately have "''_positional'' \<in> set (arg_names d)" using canonical_name by metis
    then have "''_positional'' \<in> set (concat (map getPublicArgumentNames (arg_names d)))"
      by (auto intro!: bexI [of _ "''_positional''"])
    then show ?thesis using assms(2) unfolding reserved_positional_def by blast
  qed
qed

lemma normalized_positional:
  assumes "unambiguous d" and "reserved_positional d" and "distinct (om_keys args)"
  shows "om_get (normalizeArgs d args) ''_positional'' = om_get args ''_positional''"
proof -
  note norm = normalize_positional [OF assms(1,2)]
  have "om_get (fold (\<lambda>kv m. case normalize_entry d kv of (k, v) \<Rightarrow> om_set k v m) es m) ''_positional''
      = (case om_get es ''_positional'' of None \<Rightarrow> om_get m ''_positional'' | Some v \<Rightarrow> Some v)"
    if "distinct (om_keys es)" for es m
    using that
  proof (induction es arbitrary: m)
    case (Cons kv es)
    obtain k v where kv: "kv = (k, v)" by fastforce
    obtain k' v' where n: "normalize_entry d (k, v) = (k', v')" by fastforce
    have IH: "om_get (fold (\<lambda>kv m. case normalize_entry d kv of (k, v) \<Rightarrow> om_set k v m) es (om_set k' v' m)) ''_positional''
      = (case om_get es ''_positional'' of None \<Rightarrow> om_get (om_set k' v' m) ''_positional'' | Some v \<Rightarrow> Some v)"
      using Cons by simp
    show ?case
    proof (cases "k = ''_positional''")
      case True
      then have "om_get es ''_positional'' = None" using Cons.prems kv by (simp add: map_of_eq_None_iff)
      moreover have "k' = ''_positional''" "v' = v" using norm(1) [of v] n True by simp_all
      ultimately show ?thesis using IH kv n True by (simp add: om_get_set)
    next
      case False
      then have "k' \<noteq> ''_positional''" using norm(2) [of k v] n by auto
      then show ?thesis using IH kv n False
        by (cases "om_get es ''_positional''") (simp_all add: om_get_set)
    qed
  qed simp
  from this [OF assms(3), of "[]"] show ?thesis by (simp add: normalizeArgs_def split: option.splits)
qed

lemma merged_positional_values:
  assumes "unambiguous d" and "reserved_positional d" and "distinct (om_keys args)"
  shows "positional_values (mergeDefaults d (normalizeArgs d args)) = positional_values args"
proof -
  let ?n = "normalizeArgs d args"
  have "om_get (mergeDefaults d ?n) ''_positional'' = om_get ?n ''_positional''"
  proof (cases "om_has ?n ''_positional''")
    case True
    then show ?thesis using mergeDefaults_extends [of ?n d] by (simp add: extends_def)
  next
    case False
    have "''_positional'' \<notin> set (arg_names d)"
    proof
      assume "''_positional'' \<in> set (arg_names d)"
      then have "''_positional'' \<in> set (concat (map getPublicArgumentNames (arg_names d)))"
        by (auto intro!: bexI [of _ "''_positional''"])
      then show False using assms(2) unfolding reserved_positional_def by blast
    qed
    then have "\<not> om_has (mergeDefaults d ?n) ''_positional''"
      using False mergeDefaults_has [of d ?n "''_positional''"] by (auto simp: arg_names_def)
    then show ?thesis using False by (simp add: om_has_def)
  qed
  then show ?thesis using normalized_positional [OF assms] by (simp add: positional_values_def js_get_def)
qed

lemma bare_values_lemma:
  assumes un: "unambiguous d" and res: "reserved_positional d" and dist: "distinct (om_keys (pa_taskArgs parsed))"
    and task: "pa_taskId parsed = Some t" "t \<noteq> []" "getTask t = Some d"
    and valid: "validateParsedArgs getTask parsed = Inr ()"
    and variadic: "\<And>p. p \<in> set (named_positionals d (pa_taskArgs parsed)) \<Longrightarrow> \<not> pos_variadic p"
    and prep: "prepareArgs d (pa_taskArgs parsed) = Inr r"
  shows "foldR (bind_positional (td_id d) (positional_values (pa_taskArgs parsed)))
      (mergeDefaults d (normalizeArgs d (pa_taskArgs parsed)), 0) (def_positionals d)
    = Inr (r, length (positional_values (pa_taskArgs parsed)))"
proof -
  let ?m = "mergeDefaults d (normalizeArgs d (pa_taskArgs parsed))" and ?vals = "positional_values (pa_taskArgs parsed)"
  have vals: "positional_values ?m = ?vals" by (rule merged_positional_values [OF un res dist])
  obtain c where run: "foldR (bind_positional (td_id d) ?vals) (?m, 0) (def_positionals d) = Inr (r, c)"
    using prep unfolding prepareArgs_Inr applyPositionalArguments_foldR vals by auto
  have names: "distinct (map pos_name (def_positionals d))"
    using unambiguous_names [OF un] by (simp add: arg_names_def)
  have un_list: "unnamed ?m (def_positionals d) = filter (\<lambda>p. p \<notin> set (named_positionals d (pa_taskArgs parsed))) (def_positionals d)"
    unfolding unnamed_def using merged_positional [OF un]
    by (intro filter_cong) (auto simp: named_positionals_def list_ex_iff)
  have slots: "length (def_positionals d) - length (named_positionals d (pa_taskArgs parsed)) = length (unnamed ?m (def_positionals d))"
  proof -
    have "unnamed ?m (def_positionals d) = filter (\<lambda>p. \<not> list_ex (om_has (pa_taskArgs parsed)) (getPublicArgumentNames (pos_name p))) (def_positionals d)"
      unfolding un_list by (intro filter_cong) (auto simp: named_positionals_def)
    then show ?thesis
      using sum_length_filter_compl [of "\<lambda>p. list_ex (om_has (pa_taskArgs parsed)) (getPublicArgumentNames (pos_name p))" "def_positionals d"]
      by (simp add: named_positionals_def)
  qed
  have ok: "?vals = [] \<or> (0 < length (def_positionals d) \<and> pos_variadic (last (def_positionals d)))
      \<or> length ?vals \<le> length (unnamed ?m (def_positionals d))"
    using valid task slots by (auto simp: validateParsedArgs_def Let_def split: list.splits if_splits)
  have "(\<exists>p \<in> set (unnamed ?m (def_positionals d)). pos_variadic p) \<or> length ?vals \<le> 0 + length (unnamed ?m (def_positionals d))"
  proof (cases "0 < length (def_positionals d) \<and> pos_variadic (last (def_positionals d))")
    case True
    then have "last (def_positionals d) \<in> set (unnamed ?m (def_positionals d))"
      unfolding un_list using variadic by auto
    then show ?thesis using True by blast
  qed (use ok in auto)
  from bind_positionals_cursor [OF run names _ this] show ?thesis using run by simp
qed

lemma bind_positional_keeps:
  assumes "foldR (bind_positional id' vals) (m, c) ps = Inr (m', c')" and "om_get m k = Some v"
  shows "om_get m' k = Some v"
  using assms
proof (induction ps arbitrary: m c)
  case (Cons p ps)
  obtain m1 c1 where "bind_positional id' vals (m, c) p = Inr (m1, c1)"
    "foldR (bind_positional id' vals) (m1, c1) ps = Inr (m', c')" using Cons.prems(1) by auto
  moreover have "om_get m1 k = Some v"
    using calculation(1) Cons.prems(2) by (auto simp: bind_positional_def Let_def om_get_set om_has_def split: if_splits)
  ultimately show ?case using Cons.IH by blast
qed simp

text \<open>A value is given to a positional as its own value, or as part of a variadic one's array.\<close>

definition holds_value :: "jsval list \<Rightarrow> args \<Rightarrow> nat \<Rightarrow> task_positional \<Rightarrow> bool" where
  "holds_value vals r k p \<longleftrightarrow> om_get r (pos_name p) = Some (vals ! k)
     \<or> pos_variadic p \<and> (\<exists>j \<le> k. om_get r (pos_name p) = Some (JArr (drop j vals)))"

lemma bind_positionals_hold:
  assumes "foldR (bind_positional id' vals) (m, c) ps = Inr (m', c')" and "c \<le> k" and "k < c'" and "k < length vals"
  shows "\<exists>p \<in> set ps. holds_value vals m' k p"
  using assms
proof (induction ps arbitrary: m c)
  case (Cons p ps)
  obtain m1 c1 where step: "bind_positional id' vals (m, c) p = Inr (m1, c1)"
    and rest: "foldR (bind_positional id' vals) (m1, c1) ps = Inr (m', c')" using Cons.prems(1) by auto
  show ?case
  proof (cases "c1 \<le> k")
    case True
    then show ?thesis using Cons.IH [OF rest True Cons.prems(3,4)] by auto
  next
    case False
    then have new: "\<not> om_has m (pos_name p)" "c < length vals"
      using step Cons.prems(2) by (auto simp: bind_positional_def Let_def split: if_splits)
    have "om_get m1 (pos_name p) = Some (if pos_variadic p then JArr (drop c vals) else vals ! c)"
      and "pos_variadic p \<or> k = c"
      using step new False Cons.prems(2)
      by (auto simp: bind_positional_def Let_def om_get_set split: if_splits)
    then have "holds_value vals m' k p"
      using bind_positional_keeps [OF rest] Cons.prems(2) by (auto simp: holds_value_def split: if_splits)
    then show ?thesis by auto
  qed
qed simp

section \<open>Properties\<close>

text \<open>
  An option is classified the same whether it stands before or after the task id: moving the
  task id anywhere among option tokens that carry their own value gives the same parse.
\<close>

theorem option_position_irrelevant:
  assumes "\<And>tok. tok \<in> set (xs @ ys) \<Longrightarrow> inline_token tok" and "\<not> isOptionToken t" and "getTask t \<noteq> None"
    and "xs @ ys = xs' @ ys'"
  shows "parseArgs (xs @ t # ys) opts getTask = parseArgs (xs' @ t # ys') opts getTask"
proof -
  let ?out = "\<lambda>zs. let tasks = (case task_definition_of getTask (Some t) of None \<Rightarrow> [] | Some d \<Rightarrow> buildTaskArgumentLookup d);
         st = fold (apply_inline (buildGlobalArgumentLookup opts) tasks) zs \<lparr>ps_taskArgs = [], ps_preTaskArgs = [], ps_globalArgs = []\<rparr>
     in Inr \<lparr>pa_taskId = Some t, pa_taskArgs = ps_taskArgs st, pa_preTaskArgs = ps_preTaskArgs st, pa_globalArgs = ps_globalArgs st\<rparr>"
  have "parseArgs (xs @ t # ys) opts getTask = ?out (xs @ ys)"
    using assms(1-3) by (intro parseArgs_inlines)
  moreover have "parseArgs (xs' @ t # ys') opts getTask = ?out (xs' @ ys')"
    using assms by (intro parseArgs_inlines) auto
  ultimately show ?thesis using assms(4) by simp
qed

definition ex_lookup :: "unit task_lookup" where
  "ex_lookup t = (if t = ''deploy'' then Some (ex_task [ex_positional ''target'']) else None)"

theorem option_position_irrelevant_witness:
  "parseArgs [''--n=7'', ''-t=x'', ''deploy''] [] ex_lookup = parseArgs [''deploy'', ''--n=7'', ''-t=x''] [] ex_lookup"
proof -
  have "inline_token ''--n=7''" "inline_token ''-t=x''" by code_simp+
  then have "\<And>tok. tok \<in> set ([''--n=7'', ''-t=x''] @ []) \<Longrightarrow> inline_token tok" by auto
  from option_position_irrelevant [where xs = "[''--n=7'', ''-t=x'']" and ys = "[]" and xs' = "[]" and ys' = "[''--n=7'', ''-t=x'']" and t = "''deploy''"
    and getTask = ex_lookup and opts = "[]", OF this]
  show ?thesis by (simp add: ex_lookup_def isOptionToken_def)
qed

text \<open>
  A command line that passes the validation loses no bare value: after preparation every one
  is the value of a positional, or an element of a variadic one. Assumed of the task: its names
  are unambiguous, none is spelled \<^verbatim>\<open>_positional\<close>, and no variadic positional is supplied by name.
\<close>

theorem bare_values_all_bound:
  assumes "unambiguous d" and "reserved_positional d" and "distinct (om_keys (pa_taskArgs parsed))"
    and "pa_taskId parsed = Some t" and "t \<noteq> []" and "getTask t = Some d"
    and "validateParsedArgs getTask parsed = Inr ()"
    and "\<And>p. p \<in> set (named_positionals d (pa_taskArgs parsed)) \<Longrightarrow> \<not> pos_variadic p"
    and "prepareArgs d (pa_taskArgs parsed) = Inr r"
    and "k < length (positional_values (pa_taskArgs parsed))"
  shows "\<exists>p \<in> set (def_positionals d). holds_value (positional_values (pa_taskArgs parsed)) r k p"
  using bind_positionals_hold [OF bare_values_lemma [OF assms(1-9)] _ assms(10) assms(10)] by simp

definition ex_parsed :: parsed_args where
  "ex_parsed = \<lparr>pa_taskId = Some ''deploy'', pa_taskArgs = [(''_positional'', JArr [JStr ''x''])],
     pa_preTaskArgs = [], pa_globalArgs = []\<rparr>"

theorem bare_values_all_bound_witness:
  "\<exists>p \<in> set (def_positionals (ex_task [ex_positional ''target''])). holds_value [JStr ''x'']
     (projr (prepareArgs (ex_task [ex_positional ''target'']) (pa_taskArgs ex_parsed))) 0 p"
proof -
  let ?d = "ex_task [ex_positional ''target'']"
  have "unambiguous ?d" and "reserved_positional ?d" by code_simp+
  moreover have "\<not> isl (prepareArgs ?d (pa_taskArgs ex_parsed))" by code_simp
  then have "prepareArgs ?d (pa_taskArgs ex_parsed) = Inr (projr (prepareArgs ?d (pa_taskArgs ex_parsed)))" by simp
  moreover have "validateParsedArgs ex_lookup ex_parsed = Inr ()" by code_simp
  moreover have "positional_values (pa_taskArgs ex_parsed) = [JStr ''x'']" by code_simp
  moreover have "named_positionals ?d (pa_taskArgs ex_parsed) = []" by code_simp
  ultimately show ?thesis
    using bare_values_all_bound [of ?d ex_parsed "''deploy''" ex_lookup "projr (prepareArgs ?d (pa_taskArgs ex_parsed))" 0]
    by (simp add: ex_parsed_def ex_lookup_def)
qed

text \<open>
  The proviso on variadic positionals is needed: validation lets any number of bare values pass
  when the last positional is variadic, even when it is supplied by name, and preparation then
  binds none of them.
\<close>

definition ex_files :: task_positional where
  "ex_files = \<lparr>pos_name = ''files'', pos_type = ArgSTRING, pos_required = False, pos_variadic = True\<rparr>"

theorem named_variadic_drops_bare_values:
  "validateParsedArgs (\<lambda>_. Some (ex_task [ex_files]))
      \<lparr>pa_taskId = Some ''deploy'', pa_taskArgs = [(''files'', JStr ''a''), (''_positional'', JArr [JStr ''b''])],
       pa_preTaskArgs = [], pa_globalArgs = []\<rparr> = Inr ()
   \<and> prepareArgs (ex_task [ex_files]) [(''files'', JStr ''a''), (''_positional'', JArr [JStr ''b''])]
     = Inr [(''files'', JStr ''a''), (''_positional'', JArr [JStr ''b'']), (''retryCount'', jint 3), (''noCompile'', JBool False)]"
  by code_simp

end
