(* ===== verification/Hooks.thy ===== *)
theory Hooks imports Prelude begin

text \<open>
  The hook dispatcher (\<^verbatim>\<open>core/src/hook-system.ts\<close>): registration of eager and lazy handlers, the
  single-flight resolution of a category's factories, and the three dispatch styles. The
  \<^verbatim>\<open>async\<close> methods interleave at their \<^verbatim>\<open>await\<close>s; the interleavings are the runs of the step
  relation \<open>hook_step\<close>. Factories and handlers are plugin code: a factory may return any
  handler map or throw, at any later moment.
\<close>

section \<open>Registration\<close>

text \<open>A handler map: hook names with their functions, \<open>None\<close> where the value is no function.\<close>

type_synonym 'fn handler_map = "(string, 'fn option) omap"

datatype ('f, 'fn) hook_value = HookFalsy | HookFactory 'f | HookHandlers "'fn handler_map"

record ('f, 'fn) hook_plugin =
  hp_id :: string
  hp_hookHandlers :: "(string \<times> ('f, 'fn) hook_value) list option"

record ('f, 'fn) hook_entry =
  he_pluginId :: string
  he_handlers :: "'fn handler_map option"
  he_factory :: "'f option"

type_synonym ('f, 'fn) hook_registry = "(string, ('f, 'fn) hook_entry list) omap"

definition hook_entries :: "('f, 'fn) hook_registry \<Rightarrow> string \<Rightarrow> ('f, 'fn) hook_entry list" where
  "hook_entries registry category = (case om_get registry category of None \<Rightarrow> [] | Some es \<Rightarrow> es)"

definition register_hook ::
    "string \<Rightarrow> string \<times> ('f, 'fn) hook_value \<Rightarrow> ('f, 'fn) hook_registry \<Rightarrow> ('f, 'fn) hook_registry" where
  "register_hook pluginId ch registry =
    (case ch of (category, value') \<Rightarrow> case value' of
      HookFalsy \<Rightarrow> registry
    | HookFactory f \<Rightarrow> om_set category
        (hook_entries registry category @ [\<lparr>he_pluginId = pluginId, he_handlers = None, he_factory = Some f\<rparr>]) registry
    | HookHandlers h \<Rightarrow> om_set category
        (hook_entries registry category @ [\<lparr>he_pluginId = pluginId, he_handlers = Some h, he_factory = None\<rparr>]) registry)"

definition registerPlugins ::
    "('f, 'fn) hook_plugin list \<Rightarrow> ('f, 'fn) hook_registry \<Rightarrow> ('f, 'fn) hook_registry" where
  "registerPlugins plugins registry =
    fold (\<lambda>p r. case hp_hookHandlers p of None \<Rightarrow> r | Some hs \<Rightarrow> fold (register_hook (hp_id p)) hs r) plugins registry"

section \<open>Resolution of a category\<close>

definition unloaded :: "('f, 'fn) hook_entry \<Rightarrow> bool" where
  "unloaded e \<longleftrightarrow> he_handlers e = None \<and> he_factory e \<noteq> None"

text \<open>The loop over the entries from index \<open>i\<close>: the next one whose factory must be called.\<close>

function next_unloaded :: "('f, 'fn) hook_entry list \<Rightarrow> nat \<Rightarrow> nat option" where
  "next_unloaded es i = (if \<not> i < length es then None else if unloaded (es ! i) then Some i else next_unloaded es (i + 1))"
  by pat_completeness auto
termination by (relation "measure (\<lambda>(es, i). length es - i)") auto

declare next_unloaded.simps [simp del]

text \<open>The handler functions of a hook, in registration order.\<close>

definition handler_of :: "string \<Rightarrow> ('f, 'fn) hook_entry \<Rightarrow> 'fn list" where
  "handler_of hookName e =
    (case he_handlers e of
      None \<Rightarrow> []
    | Some hs \<Rightarrow> (case om_get hs hookName of Some (Some fn) \<Rightarrow> [fn] | _ \<Rightarrow> []))"

definition collect_handlers :: "('f, 'fn) hook_registry \<Rightarrow> string \<Rightarrow> string \<Rightarrow> 'fn list" where
  "collect_handlers registry category hookName = concat (map (handler_of hookName) (hook_entries registry category))"

text \<open>
  The promise of a resolution: waiting for the factory of an entry, or settled. A dispatch owns
  the resolution it started, waits for one that was in flight, or has its handlers.
\<close>

datatype promise_status = Pending nat | Fulfilled | Rejected string

datatype 'fn dispatch =
    Calling string string
  | Owner string string nat
  | Waiter string string nat
  | Got string string "'fn list"
  | Failed string

datatype factory_event = Called string nat | Returned string nat | Threw string nat

record ('f, 'fn) hook_state =
  hs_registry :: "('f, 'fn) hook_registry"
  hs_resolved :: "string set"
  hs_resolving :: "string \<Rightarrow> nat option"
  hs_promises :: "(string \<times> promise_status) list"
  hs_dispatches :: "'fn dispatch list"
  hs_log :: "factory_event list"

definition hook_init :: "('f, 'fn) hook_plugin list \<Rightarrow> ('f, 'fn) hook_state" where
  "hook_init plugins = \<lparr>hs_registry = registerPlugins plugins [], hs_resolved = {}, hs_resolving = (\<lambda>_. None),
     hs_promises = [], hs_dispatches = [], hs_log = []\<rparr>"

text \<open>
  The body of the resolution from entry \<open>i\<close> on, up to its next \<^verbatim>\<open>await\<close>: it calls the next
  factory, or marks the category resolved and is done.
\<close>

definition continue_resolution :: "string \<Rightarrow> nat \<Rightarrow> ('f, 'fn) hook_state \<Rightarrow> promise_status \<times> ('f, 'fn) hook_state" where
  "continue_resolution c i st =
    (case next_unloaded (hook_entries (hs_registry st) c) i of
      Some j \<Rightarrow> (Pending j, st\<lparr>hs_log := hs_log st @ [Called c j]\<rparr>)
    | None \<Rightarrow> (Fulfilled, st\<lparr>hs_resolved := insert c (hs_resolved st)\<rparr>))"

definition set_dispatch :: "nat \<Rightarrow> 'fn dispatch \<Rightarrow> ('f, 'fn) hook_state \<Rightarrow> ('f, 'fn) hook_state" where
  "set_dispatch k d st = st\<lparr>hs_dispatches := (hs_dispatches st)[k := d]\<rparr>"

definition set_promise :: "nat \<Rightarrow> string \<times> promise_status \<Rightarrow> ('f, 'fn) hook_state \<Rightarrow> ('f, 'fn) hook_state" where
  "set_promise p v st = st\<lparr>hs_promises := (hs_promises st)[p := v]\<rparr>"

text \<open>\<^verbatim>\<open>this.resolving.set(category, resolution)\<close> after the body ran to its first \<^verbatim>\<open>await\<close>\<close>

definition begin_resolution :: "string \<Rightarrow> ('f, 'fn) hook_state \<Rightarrow> ('f, 'fn) hook_state" where
  "begin_resolution c st =
    (case continue_resolution c 0 st of (status, st') \<Rightarrow>
      st'\<lparr>hs_promises := hs_promises st' @ [(c, status)], hs_resolving := (hs_resolving st')(c \<mapsto> length (hs_promises st'))\<rparr>)"

text \<open>\<^verbatim>\<open>entry.handlers = await entry.factory(); entry.factory = null\<close>\<close>

definition load_entry :: "string \<Rightarrow> nat \<Rightarrow> 'fn handler_map option \<Rightarrow> ('f, 'fn) hook_state \<Rightarrow> ('f, 'fn) hook_state" where
  "load_entry c i h st =
    (let es = hook_entries (hs_registry st) c in
     st\<lparr>hs_registry := om_set c (es[i := (es ! i)\<lparr>he_handlers := h, he_factory := None\<rparr>]) (hs_registry st),
        hs_log := hs_log st @ [Returned c i]\<rparr>)"

definition factory_returns :: "nat \<Rightarrow> string \<Rightarrow> nat \<Rightarrow> 'fn handler_map option \<Rightarrow> ('f, 'fn) hook_state \<Rightarrow> ('f, 'fn) hook_state" where
  "factory_returns p c i h st =
    (case continue_resolution c (i + 1) (load_entry c i h st) of (status, st') \<Rightarrow> set_promise p (c, status) st')"

definition factory_throws :: "nat \<Rightarrow> string \<Rightarrow> nat \<Rightarrow> string \<Rightarrow> ('f, 'fn) hook_state \<Rightarrow> ('f, 'fn) hook_state" where
  "factory_throws p c i e st = set_promise p (c, Rejected e) (st\<lparr>hs_log := hs_log st @ [Threw c i]\<rparr>)"

definition forget_resolution :: "string \<Rightarrow> ('f, 'fn) hook_state \<Rightarrow> ('f, 'fn) hook_state" where
  "forget_resolution c st = st\<lparr>hs_resolving := (hs_resolving st)(c := None)\<rparr>"

definition promise_at :: "('f, 'fn) hook_state \<Rightarrow> nat \<Rightarrow> string \<times> promise_status \<Rightarrow> bool" where
  "promise_at st p v \<longleftrightarrow> p < length (hs_promises st) \<and> hs_promises st ! p = v"

definition dispatch_at :: "('f, 'fn) hook_state \<Rightarrow> nat \<Rightarrow> 'fn dispatch \<Rightarrow> bool" where
  "dispatch_at st k d \<longleftrightarrow> k < length (hs_dispatches st) \<and> hs_dispatches st ! k = d"

inductive hook_step :: "('f, 'fn) hook_state \<Rightarrow> ('f, 'fn) hook_state \<Rightarrow> bool" where
  spawn: "hook_step st (st\<lparr>hs_dispatches := hs_dispatches st @ [Calling c h]\<rparr>)"
| already_resolved: "dispatch_at st k (Calling c h) \<Longrightarrow> c \<in> hs_resolved st \<Longrightarrow>
    hook_step st (set_dispatch k (Got c h (collect_handlers (hs_registry st) c h)) st)"
| join_resolution: "dispatch_at st k (Calling c h) \<Longrightarrow> c \<notin> hs_resolved st \<Longrightarrow> hs_resolving st c = Some p \<Longrightarrow>
    hook_step st (set_dispatch k (Waiter c h p) st)"
| start_resolution: "dispatch_at st k (Calling c h) \<Longrightarrow> c \<notin> hs_resolved st \<Longrightarrow> hs_resolving st c = None \<Longrightarrow>
    hook_step st (set_dispatch k (Owner c h (length (hs_promises st))) (begin_resolution c st))"
| factory_ok: "promise_at st p (c, Pending i) \<Longrightarrow> hook_step st (factory_returns p c i m st)"
| factory_fails: "promise_at st p (c, Pending i) \<Longrightarrow> hook_step st (factory_throws p c i e st)"
| owner_resumes: "dispatch_at st k (Owner c h p) \<Longrightarrow> promise_at st p (c, Fulfilled) \<Longrightarrow>
    hook_step st (set_dispatch k (Got c h (collect_handlers (hs_registry st) c h)) (forget_resolution c st))"
| owner_rethrows: "dispatch_at st k (Owner c h p) \<Longrightarrow> promise_at st p (c, Rejected e) \<Longrightarrow>
    hook_step st (set_dispatch k (Failed e) (forget_resolution c st))"
| waiter_resumes: "dispatch_at st k (Waiter c h p) \<Longrightarrow> promise_at st p (c, Fulfilled) \<Longrightarrow>
    hook_step st (set_dispatch k (Got c h (collect_handlers (hs_registry st) c h)) st)"
| waiter_rethrows: "dispatch_at st k (Waiter c h p) \<Longrightarrow> promise_at st p (c, Rejected e) \<Longrightarrow>
    hook_step st (set_dispatch k (Failed e) st)"

definition hook_reachable :: "('f, 'fn) hook_plugin list \<Rightarrow> ('f, 'fn) hook_state \<Rightarrow> bool" where
  "hook_reachable plugins st = hook_step\<^sup>*\<^sup>* (hook_init plugins) st"

section \<open>Dispatch\<close>

text \<open>A handler on its arguments, in a state: it may throw, or return a value (\<open>None\<close>: \<^verbatim>\<open>undefined\<close>).\<close>

type_synonym ('v, 's) handler_fn = "'v list \<Rightarrow> 's \<Rightarrow> (string + 'v option) \<times> 's"

fun serial_run :: "('v, 's) handler_fn list \<Rightarrow> 'v \<Rightarrow> 's \<Rightarrow> (string + unit) \<times> 's" where
  "serial_run [] context' s = (Inr (), s)"
| "serial_run (f # fs) context' s =
    (case f [context'] s of (Inl e, s') \<Rightarrow> (Inl e, s') | (Inr _, s') \<Rightarrow> serial_run fs context' s')"

fun waterfall_run :: "('v, 's) handler_fn list \<Rightarrow> 'v \<Rightarrow> 'v list \<Rightarrow> 's \<Rightarrow> (string + 'v) \<times> 's" where
  "waterfall_run [] v extra s = (Inr v, s)"
| "waterfall_run (f # fs) v extra s =
    (case f (v # extra) s of
      (Inl e, s') \<Rightarrow> (Inl e, s')
    | (Inr r, s') \<Rightarrow> waterfall_run fs (case r of None \<Rightarrow> v | Some v' \<Rightarrow> v') extra s')"

fun collect_run :: "('v, 's) handler_fn list \<Rightarrow> 'v \<Rightarrow> 'v list \<Rightarrow> 's \<Rightarrow> (string + 'v option list) \<times> 's" where
  "collect_run [] context' extra s = (Inr [], s)"
| "collect_run (f # fs) context' extra s =
    (case f (context' # extra) s of
      (Inl e, s') \<Rightarrow> (Inl e, s')
    | (Inr r, s') \<Rightarrow> (case collect_run fs context' extra s' of
          (Inl e, s'') \<Rightarrow> (Inl e, s'')
        | (Inr rs, s'') \<Rightarrow> (Inr (r # rs), s'')))"

text \<open>The two dispatches that keep the context run the same handlers, in order, up to the first that throws.\<close>

lemma serial_as_collect:
  "serial_run fs v s = (case collect_run fs v [] s of (Inl e, s') \<Rightarrow> (Inl e, s') | (Inr rs, s') \<Rightarrow> (Inr (), s'))"
  by (induction fs arbitrary: s) (auto split: prod.splits sum.splits)

section \<open>The single-flight invariant\<close>

text \<open>What the log says of one factory: not running, running, or loaded; \<open>None\<close> if it was misused.\<close>

datatype call_status = Idle | InFlight | Loaded

fun track :: "string \<times> nat \<Rightarrow> factory_event \<Rightarrow> call_status option \<Rightarrow> call_status option" where
  "track x (Called c i) s = (if x \<noteq> (c, i) then s else if s = Some Idle then Some InFlight else None)"
| "track x (Returned c i) s = (if x \<noteq> (c, i) then s else if s = Some InFlight then Some Loaded else None)"
| "track x (Threw c i) s = (if x \<noteq> (c, i) then s else if s = Some InFlight then Some Idle else None)"

definition log_status :: "string \<times> nat \<Rightarrow> factory_event list \<Rightarrow> call_status option" where
  "log_status x log = fold (track x) log (Some Idle)"

lemma log_status_simps [simp]: "log_status x [] = Some Idle" "log_status x (log @ [e]) = track x e (log_status x log)"
  by (simp_all add: log_status_def)

lemma next_unloaded_Some:
  "next_unloaded es i = Some j \<Longrightarrow> i \<le> j \<and> j < length es \<and> unloaded (es ! j) \<and> (\<forall>k. i \<le> k \<and> k < j \<longrightarrow> \<not> unloaded (es ! k))"
proof (induction es i rule: next_unloaded.induct)
  case (1 es i)
  show ?case
  proof (cases "i < length es \<and> \<not> unloaded (es ! i)")
    case True
    then have "next_unloaded es (i + 1) = Some j" using "1.prems" next_unloaded.simps [of es i] by simp
    then have IH: "i + 1 \<le> j \<and> j < length es \<and> unloaded (es ! j) \<and> (\<forall>k. i + 1 \<le> k \<and> k < j \<longrightarrow> \<not> unloaded (es ! k))"
      using "1.IH" True by simp
    have "\<not> unloaded (es ! k)" if "i \<le> k" "k < j" for k using that IH True by (cases "k = i") auto
    then show ?thesis using IH by simp
  next
    case False
    then have "j = i" "i < length es" "unloaded (es ! i)"
      using "1.prems" next_unloaded.simps [of es i] by (auto split: if_splits)
    then show ?thesis by auto
  qed
qed

lemma next_unloaded_None: "next_unloaded es i = None \<Longrightarrow> i \<le> k \<Longrightarrow> k < length es \<Longrightarrow> \<not> unloaded (es ! k)"
proof (induction es i rule: next_unloaded.induct)
  case (1 es i)
  have i: "i < length es" using "1.prems" by simp
  then have n: "\<not> unloaded (es ! i)" "next_unloaded es (i + 1) = None"
    using "1.prems"(1) next_unloaded.simps [of es i] by (auto split: if_splits)
  show ?case
  proof (cases "k = i")
    case False
    then show ?thesis using "1.IH" [OF _ n] i n "1.prems" by simp
  qed (use n in simp)
qed

text \<open>The invariant in five parts: promises, the table of resolutions, resolved categories, the log, dispatches.\<close>

abbreviation entries_of :: "('f, 'fn) hook_state \<Rightarrow> string \<Rightarrow> ('f, 'fn) hook_entry list" where
  "entries_of st c \<equiv> hook_entries (hs_registry st) c"

definition promises_ok :: "('f, 'fn) hook_state \<Rightarrow> bool" where
  "promises_ok st \<longleftrightarrow>
    (\<forall>p c i. promise_at st p (c, Pending i) \<longrightarrow> hs_resolving st c = Some p \<and> c \<notin> hs_resolved st
       \<and> i < length (entries_of st c) \<and> (\<forall>k < i. \<not> unloaded (entries_of st c ! k)) \<and> unloaded (entries_of st c ! i))
    \<and> (\<forall>p c. promise_at st p (c, Fulfilled) \<longrightarrow> c \<in> hs_resolved st)
    \<and> (\<forall>p c. hs_resolving st c = Some p \<longrightarrow> (\<exists>v. promise_at st p (c, v)))"

definition resolved_ok :: "('f, 'fn) hook_state \<Rightarrow> bool" where
  "resolved_ok st \<longleftrightarrow> (\<forall>c \<in> hs_resolved st. \<forall>k < length (entries_of st c). \<not> unloaded (entries_of st c ! k))"

definition log_ok :: "('f, 'fn) hook_state \<Rightarrow> bool" where
  "log_ok st \<longleftrightarrow> (\<forall>c i. log_status (c, i) (hs_log st) \<noteq> None
     \<and> (log_status (c, i) (hs_log st) = Some InFlight \<longleftrightarrow> (\<exists>p. promise_at st p (c, Pending i)))
     \<and> (log_status (c, i) (hs_log st) = Some Loaded \<longrightarrow> \<not> (i < length (entries_of st c) \<and> unloaded (entries_of st c ! i))))"

fun dispatch_ok :: "('f, 'fn) hook_state \<Rightarrow> 'fn dispatch \<Rightarrow> bool" where
  "dispatch_ok st (Owner c h p) = (hs_resolving st c = Some p)"
| "dispatch_ok st (Waiter c h p) = (\<exists>v. promise_at st p (c, v))"
| "dispatch_ok st (Got c h hs) = (c \<in> hs_resolved st \<and> hs = collect_handlers (hs_registry st) c h)"
| "dispatch_ok st _ = True"

definition dispatches_ok :: "('f, 'fn) hook_state \<Rightarrow> bool" where
  "dispatches_ok st \<longleftrightarrow> (\<forall>k d. dispatch_at st k d \<longrightarrow> dispatch_ok st d)
     \<and> (\<forall>k k' c c' h h' p p'. dispatch_at st k (Owner c h p) \<and> dispatch_at st k' (Owner c' h' p') \<and> c = c' \<longrightarrow> k = k')"

definition hook_inv :: "('f, 'fn) hook_state \<Rightarrow> bool" where
  "hook_inv st \<longleftrightarrow> promises_ok st \<and> resolved_ok st \<and> log_ok st \<and> dispatches_ok st"

lemma hook_inv_init: "hook_inv (hook_init plugins)"
  by (simp add: hook_inv_def promises_ok_def resolved_ok_def log_ok_def dispatches_ok_def hook_init_def
      promise_at_def dispatch_at_def)

text \<open>How a change of one dispatch acts on the invariant.\<close>

lemma dispatch_at_set:
  "dispatch_at (set_dispatch k d st) k' d' \<longleftrightarrow> k' < length (hs_dispatches st) \<and> (if k' = k then d' = d else dispatch_at st k' d')"
  by (auto simp: dispatch_at_def set_dispatch_def)

lemma set_dispatch_fields [simp]:
  "hs_registry (set_dispatch k d st) = hs_registry st" "hs_resolved (set_dispatch k d st) = hs_resolved st"
  "hs_resolving (set_dispatch k d st) = hs_resolving st" "hs_promises (set_dispatch k d st) = hs_promises st"
  "hs_log (set_dispatch k d st) = hs_log st"
  by (simp_all add: set_dispatch_def)

lemma promise_at_dispatch [simp]: "promise_at (set_dispatch k d st) = promise_at st"
  by (simp add: promise_at_def fun_eq_iff)

lemma parts_set_dispatch [simp]:
  "promises_ok (set_dispatch k d st) = promises_ok st" "resolved_ok (set_dispatch k d st) = resolved_ok st"
  "log_ok (set_dispatch k d st) = log_ok st" "dispatch_ok (set_dispatch k d st) d' = dispatch_ok st d'"
  by (simp_all add: promises_ok_def resolved_ok_def log_ok_def) (cases d'; simp)

lemma dispatches_set:
  assumes "dispatches_ok st" and "dispatch_ok st d" and "\<And>c h p. d \<noteq> Owner c h p"
  shows "dispatches_ok (set_dispatch k d st)"
  using assms unfolding dispatches_ok_def dispatch_at_set by (auto split: if_splits) blast+

text \<open>The three promise-changing moves.\<close>

lemma promise_at_append:
  "promise_at (st\<lparr>hs_promises := hs_promises st @ [v]\<rparr>) p w \<longleftrightarrow> promise_at st p w \<or> p = length (hs_promises st) \<and> w = v"
  by (auto simp: promise_at_def nth_append)

lemma promise_at_set: "promise_at st p v \<Longrightarrow> promise_at (set_promise p u st) q w \<longleftrightarrow> (if q = p then w = u else promise_at st q w)"
  by (auto simp: promise_at_def set_promise_def)

lemma promise_at_fun: "promise_at st p v \<Longrightarrow> promise_at st p w \<Longrightarrow> v = w"
  by (simp add: promise_at_def)

lemma pendingD:
  assumes "promises_ok st" and "promise_at st p (c, Pending i)"
  shows "hs_resolving st c = Some p" "c \<notin> hs_resolved st" "i < length (entries_of st c)"
    "k < i \<Longrightarrow> \<not> unloaded (entries_of st c ! k)" "unloaded (entries_of st c ! i)"
  using assms by (auto simp: promises_ok_def)

lemma only_idle: "s \<noteq> None \<Longrightarrow> s \<noteq> Some InFlight \<Longrightarrow> s \<noteq> Some Loaded \<Longrightarrow> s = Some Idle"
proof (cases s)
  case (Some a)
  then show "s \<noteq> Some InFlight \<Longrightarrow> s \<noteq> Some Loaded \<Longrightarrow> s = Some Idle" by (cases a) simp_all
qed simp

lemma promises_okI:
  assumes "\<And>p c i. promise_at st p (c, Pending i) \<Longrightarrow> hs_resolving st c = Some p \<and> c \<notin> hs_resolved st
       \<and> i < length (entries_of st c) \<and> (\<forall>k < i. \<not> unloaded (entries_of st c ! k)) \<and> unloaded (entries_of st c ! i)"
    and "\<And>p c. promise_at st p (c, Fulfilled) \<Longrightarrow> c \<in> hs_resolved st"
    and "\<And>p c. hs_resolving st c = Some p \<Longrightarrow> \<exists>v. promise_at st p (c, v)"
  shows "promises_ok st"
  using assms unfolding promises_ok_def by blast

text \<open>An event changes the status of its own factory only.\<close>

definition entry_log_ok :: "('f, 'fn) hook_state \<Rightarrow> string \<Rightarrow> nat \<Rightarrow> bool" where
  "entry_log_ok st c i \<longleftrightarrow> log_status (c, i) (hs_log st) \<noteq> None
     \<and> (log_status (c, i) (hs_log st) = Some InFlight \<longleftrightarrow> (\<exists>p. promise_at st p (c, Pending i)))
     \<and> (log_status (c, i) (hs_log st) = Some Loaded \<longrightarrow> \<not> (i < length (entries_of st c) \<and> unloaded (entries_of st c ! i)))"

lemma log_ok_entries: "log_ok st \<longleftrightarrow> (\<forall>c i. entry_log_ok st c i)"
  by (simp add: log_ok_def entry_log_ok_def)

lemma entry_log_same:
  assumes "entry_log_ok st c i" and "log_status (c, i) (hs_log st') = log_status (c, i) (hs_log st)"
    and "\<And>p. promise_at st' p (c, Pending i) \<longleftrightarrow> promise_at st p (c, Pending i)"
    and "length (entries_of st' c) = length (entries_of st c)"
    and "unloaded (entries_of st' c ! i) \<longrightarrow> unloaded (entries_of st c ! i)"
  shows "entry_log_ok st' c i"
  using assms unfolding entry_log_ok_def by simp blast

definition core_ok :: "('f, 'fn) hook_state \<Rightarrow> bool" where
  "core_ok st \<longleftrightarrow> promises_ok st \<and> resolved_ok st \<and> log_ok st"

text \<open>
  The state before the loop goes on at entry \<open>i\<close>: its category has no pending promise, the
  entries before \<open>i\<close> are loaded, and the promise \<open>p\<close> is about to get its next status.
\<close>

definition about_to_continue :: "('f, 'fn) hook_state \<Rightarrow> string \<Rightarrow> nat \<Rightarrow> bool" where
  "about_to_continue st c i \<longleftrightarrow> resolved_ok st \<and> c \<notin> hs_resolved st
     \<and> (\<forall>k < i. k < length (entries_of st c) \<longrightarrow> \<not> unloaded (entries_of st c ! k))"

lemma continue_cases:
  assumes "about_to_continue st c i"
  obtains (called) j where "continue_resolution c i st = (Pending j, st\<lparr>hs_log := hs_log st @ [Called c j]\<rparr>)"
      "j < length (entries_of st c)" "unloaded (entries_of st c ! j)" "\<forall>k < j. \<not> unloaded (entries_of st c ! k)"
  | (finished) "continue_resolution c i st = (Fulfilled, st\<lparr>hs_resolved := insert c (hs_resolved st)\<rparr>)"
      "\<forall>k < length (entries_of st c). \<not> unloaded (entries_of st c ! k)"
proof (cases "next_unloaded (entries_of st c) i")
  case None
  have "\<not> unloaded (entries_of st c ! k)" if "k < length (entries_of st c)" for k
    using that next_unloaded_None [OF None, of k] assms by (cases "i \<le> k") (auto simp: about_to_continue_def)
  then show ?thesis using None finished by (simp add: continue_resolution_def)
next
  case (Some j)
  note j = next_unloaded_Some [OF this]
  have "\<not> unloaded (entries_of st c ! k)" if "k < j" for k
    using that j assms by (cases "i \<le> k") (auto simp: about_to_continue_def)
  then show ?thesis using Some j called by (simp add: continue_resolution_def)
qed

text \<open>Continuing with the promise \<open>p\<close>, given how the promises of the next state are read.\<close>

lemma continue_core:
  assumes ready: "about_to_continue st c i" and cont: "continue_resolution c i st = (status, st1)"
    and st': "hs_registry st' = hs_registry st1" "hs_resolved st' = hs_resolved st1" "hs_log st' = hs_log st1"
    and rsv: "hs_resolving st' = (hs_resolving st)(c \<mapsto> p)"
    and pa: "\<And>q v. promise_at st' q v \<longleftrightarrow> (if q = p then v = (c, status) else promise_at st q v)"
    and old_pending: "\<And>q c' j. q \<noteq> p \<Longrightarrow> promise_at st q (c', Pending j) \<Longrightarrow> c' \<noteq> c \<and> hs_resolving st c' = Some q
       \<and> c' \<notin> hs_resolved st \<and> j < length (entries_of st c') \<and> (\<forall>k < j. \<not> unloaded (entries_of st c' ! k))
       \<and> unloaded (entries_of st c' ! j)"
    and old_fulfilled: "\<And>q c'. q \<noteq> p \<Longrightarrow> promise_at st q (c', Fulfilled) \<Longrightarrow> c' \<in> hs_resolved st"
    and old_table: "\<And>q c'. c' \<noteq> c \<Longrightarrow> hs_resolving st c' = Some q \<Longrightarrow> q \<noteq> p \<and> (\<exists>v. promise_at st q (c', v))"
    and logged: "\<And>c' k. log_status (c', k) (hs_log st) \<noteq> None
       \<and> (log_status (c', k) (hs_log st) = Some InFlight \<longleftrightarrow> (\<exists>q. q \<noteq> p \<and> promise_at st q (c', Pending k)))
       \<and> (log_status (c', k) (hs_log st) = Some Loaded \<longrightarrow> \<not> (k < length (entries_of st c') \<and> unloaded (entries_of st c' ! k)))"
  shows "core_ok st'"
  using ready
proof (cases rule: continue_cases)
  case finished
  then have s: "status = Fulfilled" "st1 = st\<lparr>hs_resolved := insert c (hs_resolved st)\<rparr>" using cont by auto
  have "promises_ok st'"
  proof (rule promises_okI)
    show "hs_resolving st' d = Some q \<and> d \<notin> hs_resolved st' \<and> j < length (entries_of st' d)
        \<and> (\<forall>k < j. \<not> unloaded (entries_of st' d ! k)) \<and> unloaded (entries_of st' d ! j)"
      if "promise_at st' q (d, Pending j)" for q d j
      using that old_pending [of q d j] s st' rsv by (simp add: pa split: if_splits)
    show "d \<in> hs_resolved st'" if "promise_at st' q (d, Fulfilled)" for q d
      using that old_fulfilled [of q d] s st' by (auto simp: pa split: if_splits)
    show "\<exists>v. promise_at st' q (d, v)" if "hs_resolving st' d = Some q" for q d
      using that old_table [of d q] rsv by (auto simp: pa split: if_splits)
  qed
  moreover have "resolved_ok st'" using ready finished(2) s st' by (auto simp: resolved_ok_def about_to_continue_def)
  moreover have "log_ok st'" unfolding log_ok_entries entry_log_ok_def
  proof (intro allI)
    fix d k
    have "(\<exists>q. promise_at st' q (d, Pending k)) \<longleftrightarrow> (\<exists>q. q \<noteq> p \<and> promise_at st q (d, Pending k))"
      using s by (auto simp: pa split: if_splits)
    then show "log_status (d, k) (hs_log st') \<noteq> None
        \<and> (log_status (d, k) (hs_log st') = Some InFlight \<longleftrightarrow> (\<exists>q. promise_at st' q (d, Pending k)))
        \<and> (log_status (d, k) (hs_log st') = Some Loaded \<longrightarrow> \<not> (k < length (entries_of st' d) \<and> unloaded (entries_of st' d ! k)))"
      using logged [of d k] s st' by simp
  qed
  ultimately show ?thesis by (simp add: core_ok_def)
next
  case (called j)
  then have s: "status = Pending j" "st1 = st\<lparr>hs_log := hs_log st @ [Called c j]\<rparr>" using cont by auto
  have idle: "log_status (c, j) (hs_log st) = Some Idle"
  proof -
    have "\<not> (\<exists>q. q \<noteq> p \<and> promise_at st q (c, Pending j))" using old_pending by blast
    then show ?thesis using logged [of c j] called(2,3) only_idle by blast
  qed
  have "promises_ok st'"
  proof (rule promises_okI)
    show "hs_resolving st' d = Some q \<and> d \<notin> hs_resolved st' \<and> k < length (entries_of st' d)
        \<and> (\<forall>l < k. \<not> unloaded (entries_of st' d ! l)) \<and> unloaded (entries_of st' d ! k)"
      if "promise_at st' q (d, Pending k)" for q d k
      using that old_pending [of q d k] s st' rsv called(2-4) ready
      by (simp add: pa about_to_continue_def split: if_splits)
    show "d \<in> hs_resolved st'" if "promise_at st' q (d, Fulfilled)" for q d
      using that old_fulfilled [of q d] s st' by (auto simp: pa split: if_splits)
    show "\<exists>v. promise_at st' q (d, v)" if "hs_resolving st' d = Some q" for q d
      using that old_table [of d q] rsv by (auto simp: pa split: if_splits)
  qed
  moreover have "resolved_ok st'" using ready s st' by (auto simp: resolved_ok_def about_to_continue_def)
  moreover have "log_ok st'" unfolding log_ok_entries entry_log_ok_def
  proof (intro allI)
    fix d k
    have e: "(\<exists>q. promise_at st' q (d, Pending k)) \<longleftrightarrow> (d, k) = (c, j) \<or> (\<exists>q. q \<noteq> p \<and> promise_at st q (d, Pending k))"
      using s by (auto simp: pa split: if_splits)
    show "log_status (d, k) (hs_log st') \<noteq> None
        \<and> (log_status (d, k) (hs_log st') = Some InFlight \<longleftrightarrow> (\<exists>q. promise_at st' q (d, Pending k)))
        \<and> (log_status (d, k) (hs_log st') = Some Loaded \<longrightarrow> \<not> (k < length (entries_of st' d) \<and> unloaded (entries_of st' d ! k)))"
      using logged [of d k] idle s st' unfolding e by (cases "(d, k) = (c, j)") auto
  qed
  ultimately show ?thesis by (simp add: core_ok_def)
qed

lemma begin_core:
  assumes core: "core_ok st" and "c \<notin> hs_resolved st" and "hs_resolving st c = None"
  shows "core_ok (begin_resolution c st)"
proof -
  have ok: "promises_ok st" "resolved_ok st" "log_ok st" using core by (simp_all add: core_ok_def)
  obtain status st1 where cont: "continue_resolution c 0 st = (status, st1)" by fastforce
  let ?p = "length (hs_promises st)"
  have none: "\<not> promise_at st p (c, Pending i)" for p i using pendingD(1) [OF ok(1)] assms(3) by fastforce
  have fresh: "\<not> promise_at st ?p v" for v by (simp add: promise_at_def)
  have keep: "hs_promises st1 = hs_promises st" "hs_resolving st1 = hs_resolving st"
    using cont by (auto simp: continue_resolution_def split: option.splits)
  show ?thesis
  proof (rule continue_core [OF _ cont])
    show "about_to_continue st c 0" using ok assms(2) by (simp add: about_to_continue_def)
    show "promise_at (begin_resolution c st) q v \<longleftrightarrow> (if q = ?p then v = (c, status) else promise_at st q v)" for q v
      using cont keep by (auto simp: begin_resolution_def promise_at_def nth_append)
    show "c' \<noteq> c \<and> hs_resolving st c' = Some q \<and> c' \<notin> hs_resolved st \<and> j < length (entries_of st c')
        \<and> (\<forall>k < j. \<not> unloaded (entries_of st c' ! k)) \<and> unloaded (entries_of st c' ! j)"
      if "promise_at st q (c', Pending j)" for q c' j
      using pendingD [OF ok(1) that] none that by blast
    show "c' \<in> hs_resolved st" if "promise_at st q (c', Fulfilled)" for q c'
      using ok(1) that by (auto simp: promises_ok_def)
    show "q \<noteq> ?p \<and> (\<exists>v. promise_at st q (c', v))" if "hs_resolving st c' = Some q" for q c'
      using ok(1) that fresh unfolding promises_ok_def by blast
    show "log_status (c', k) (hs_log st) \<noteq> None
       \<and> (log_status (c', k) (hs_log st) = Some InFlight \<longleftrightarrow> (\<exists>q. q \<noteq> ?p \<and> promise_at st q (c', Pending k)))
       \<and> (log_status (c', k) (hs_log st) = Some Loaded \<longrightarrow> \<not> (k < length (entries_of st c') \<and> unloaded (entries_of st c' ! k)))" for c' k
      using ok(3) fresh unfolding log_ok_def by metis
  qed (use cont keep in \<open>simp_all add: begin_resolution_def\<close>)
qed

lemma load_entry_fields [simp]:
  "hs_resolved (load_entry c i m st) = hs_resolved st" "hs_resolving (load_entry c i m st) = hs_resolving st"
  "hs_promises (load_entry c i m st) = hs_promises st" "hs_dispatches (load_entry c i m st) = hs_dispatches st"
  "hs_log (load_entry c i m st) = hs_log st @ [Returned c i]" "promise_at (load_entry c i m st) = promise_at st"
  by (simp_all add: load_entry_def Let_def promise_at_def fun_eq_iff)

lemma load_entry_entries:
  "entries_of (load_entry c i m st) d =
    (if d = c then (entries_of st c)[i := (entries_of st c ! i)\<lparr>he_handlers := m, he_factory := None\<rparr>] else entries_of st d)"
  by (simp add: load_entry_def Let_def hook_entries_def om_get_set)

lemma load_entry_unloaded:
  "length (entries_of (load_entry c i m st) d) = length (entries_of st d)"
  "k < length (entries_of st d) \<Longrightarrow>
    unloaded (entries_of (load_entry c i m st) d ! k) \<longleftrightarrow> (d, k) \<noteq> (c, i) \<and> unloaded (entries_of st d ! k)"
  by (simp add: load_entry_entries) (cases "d = c"; cases "k = i"; simp add: load_entry_entries unloaded_def)

lemma tableD: "promises_ok st \<Longrightarrow> hs_resolving st c = Some p \<Longrightarrow> \<exists>v. promise_at st p (c, v)"
  unfolding promises_ok_def by blast

lemma returns_core:
  assumes core: "core_ok st" and pend: "promise_at st p (c, Pending i)"
  shows "core_ok (factory_returns p c i m st)"
proof -
  have ok: "promises_ok st" "resolved_ok st" "log_ok st" using core by (simp_all add: core_ok_def)
  note pd = pendingD [OF ok(1) pend]
  let ?l = "load_entry c i m st"
  obtain status st1 where cont: "continue_resolution c (i + 1) ?l = (status, st1)" by fastforce
  have keep: "hs_promises st1 = hs_promises st" "hs_resolving st1 = hs_resolving st"
    using cont by (auto simp: continue_resolution_def split: option.splits)
  have only: "q = p" if "promise_at st q (c, Pending j)" for q j
    using pendingD(1) [OF ok(1) that] pd(1) by simp
  show ?thesis
  proof (rule continue_core [OF _ cont])
    show "about_to_continue ?l c (i + 1)"
      unfolding about_to_continue_def resolved_ok_def load_entry_unloaded(1)
    proof (intro conjI ballI allI impI)
      show "\<not> unloaded (entries_of ?l d ! k)" if "d \<in> hs_resolved ?l" "k < length (entries_of st d)" for d k
        using that ok(2) by (simp add: load_entry_unloaded resolved_ok_def)
      show "c \<notin> hs_resolved ?l" using pd by simp
      show "\<not> unloaded (entries_of ?l c ! k)" if "k < i + 1" "k < length (entries_of st c)" for k
        using that pd(4) [of k] by (cases "k = i") (simp_all add: load_entry_unloaded)
    qed
    show "promise_at (factory_returns p c i m st) q v \<longleftrightarrow> (if q = p then v = (c, status) else promise_at ?l q v)" for q v
      using cont keep pend by (auto simp: factory_returns_def promise_at_def set_promise_def)
    show "c' \<noteq> c \<and> hs_resolving ?l c' = Some q \<and> c' \<notin> hs_resolved ?l \<and> j < length (entries_of ?l c')
        \<and> (\<forall>k < j. \<not> unloaded (entries_of ?l c' ! k)) \<and> unloaded (entries_of ?l c' ! j)"
      if ne: "q \<noteq> p" and at': "promise_at ?l q (c', Pending j)" for q c' j
    proof -
      have at0: "promise_at st q (c', Pending j)" using at' by simp
      then have "c' \<noteq> c" using only ne by blast
      then show ?thesis using pendingD [OF ok(1) at0] by (simp add: load_entry_entries)
    qed
    show "c' \<in> hs_resolved ?l" if "promise_at ?l q (c', Fulfilled)" for q c'
      using ok(1) that by (auto simp: promises_ok_def)
    show "q \<noteq> p \<and> (\<exists>v. promise_at ?l q (c', v))" if other: "c' \<noteq> c" "hs_resolving ?l c' = Some q" for q c'
    proof -
      obtain v where v: "promise_at st q (c', v)" using tableD [OF ok(1), of c' q] other by auto
      then have "q \<noteq> p" using promise_at_fun [OF pend, of "(c', v)"] other(1) by auto
      then show ?thesis using v by auto
    qed
    show "log_status (c', k) (hs_log ?l) \<noteq> None
       \<and> (log_status (c', k) (hs_log ?l) = Some InFlight \<longleftrightarrow> (\<exists>q. q \<noteq> p \<and> promise_at ?l q (c', Pending k)))
       \<and> (log_status (c', k) (hs_log ?l) = Some Loaded \<longrightarrow> \<not> (k < length (entries_of ?l c') \<and> unloaded (entries_of ?l c' ! k)))" for c' k
    proof (cases "(c', k) = (c, i)")
      case True
      have "log_status (c, i) (hs_log st) = Some InFlight" using ok(3) pend unfolding log_ok_def by blast
      moreover have "\<not> (\<exists>q. q \<noteq> p \<and> promise_at st q (c, Pending i))" using only by blast
      ultimately show ?thesis using True pd(3) by (simp add: load_entry_unloaded)
    next
      case False
      have "\<not> promise_at st p (c', Pending k)"
        using False promise_at_fun [OF pend, of "(c', Pending k)"] by auto
      then have "(\<exists>q. q \<noteq> p \<and> promise_at st q (c', Pending k)) \<longleftrightarrow> (\<exists>q. promise_at st q (c', Pending k))" by metis
      moreover have "log_status (c', k) (hs_log ?l) = log_status (c', k) (hs_log st)" using False by auto
      ultimately show ?thesis using ok(3) unfolding log_ok_def
        by (simp add: load_entry_unloaded)
    qed
    show "hs_resolving (factory_returns p c i m st) = (hs_resolving ?l)(c \<mapsto> p)"
      using cont keep pd(1) by (auto simp: factory_returns_def set_promise_def)
  qed (use cont in \<open>simp_all add: factory_returns_def set_promise_def\<close>)
qed

lemma throws_core:
  assumes core: "core_ok st" and pend: "promise_at st p (c, Pending i)"
  shows "core_ok (factory_throws p c i e st)"
proof -
  have ok: "promises_ok st" "resolved_ok st" "log_ok st" using core by (simp_all add: core_ok_def)
  let ?t = "factory_throws p c i e st"
  have f: "hs_registry ?t = hs_registry st" "hs_resolved ?t = hs_resolved st" "hs_resolving ?t = hs_resolving st"
    "hs_log ?t = hs_log st @ [Threw c i]" by (simp_all add: factory_throws_def set_promise_def)
  have pa: "promise_at ?t q v \<longleftrightarrow> (if q = p then v = (c, Rejected e) else promise_at st q v)" for q v
    using pend by (auto simp: factory_throws_def promise_at_def set_promise_def)
  have only: "q = p" if "promise_at st q (c, Pending j)" for q j
    using pendingD(1) [OF ok(1) that] pendingD(1) [OF ok(1) pend] by simp
  have "promises_ok ?t"
  proof (rule promises_okI)
    show "hs_resolving ?t d = Some q \<and> d \<notin> hs_resolved ?t \<and> j < length (entries_of ?t d)
        \<and> (\<forall>k < j. \<not> unloaded (entries_of ?t d ! k)) \<and> unloaded (entries_of ?t d ! j)"
      if at': "promise_at ?t q (d, Pending j)" for q d j
    proof -
      have "promise_at st q (d, Pending j)" using at' by (simp add: pa split: if_splits)
      then show ?thesis using pendingD [OF ok(1)] by (simp add: f)
    qed
    show "d \<in> hs_resolved ?t" if "promise_at ?t q (d, Fulfilled)" for q d
      using that ok(1) by (auto simp: pa f promises_ok_def split: if_splits)
    show "\<exists>v. promise_at ?t q (d, v)" if tab: "hs_resolving ?t d = Some q" for q d
    proof -
      obtain v where "promise_at st q (d, v)" using tableD [OF ok(1), of d q] tab by (auto simp: f)
      then show ?thesis using pend promise_at_fun [of st p] by (cases "q = p") (auto simp: pa)
    qed
  qed
  moreover have "resolved_ok ?t" using ok(2) by (simp add: resolved_ok_def f)
  moreover have "log_ok ?t" unfolding log_ok_entries entry_log_ok_def
  proof (intro allI)
    fix d k
    show "log_status (d, k) (hs_log ?t) \<noteq> None
        \<and> (log_status (d, k) (hs_log ?t) = Some InFlight \<longleftrightarrow> (\<exists>q. promise_at ?t q (d, Pending k)))
        \<and> (log_status (d, k) (hs_log ?t) = Some Loaded \<longrightarrow> \<not> (k < length (entries_of ?t d) \<and> unloaded (entries_of ?t d ! k)))"
    proof (cases "(d, k) = (c, i)")
      case True
      have "log_status (c, i) (hs_log st) = Some InFlight" using ok(3) pend unfolding log_ok_def by blast
      moreover have "\<not> (\<exists>q. promise_at ?t q (c, Pending i))" using only by (auto simp: pa split: if_splits)
      ultimately show ?thesis using True by (simp add: f)
    next
      case False
      have "promise_at ?t q (d, Pending k) \<longleftrightarrow> promise_at st q (d, Pending k)" for q
        using False promise_at_fun [OF pend, of "(d, Pending k)"] by (auto simp: pa)
      then have "(\<exists>q. promise_at ?t q (d, Pending k)) \<longleftrightarrow> (\<exists>q. promise_at st q (d, Pending k))" by simp
      moreover have "log_status (d, k) (hs_log ?t) = log_status (d, k) (hs_log st)" using False by (auto simp: f)
      ultimately show ?thesis using ok(3) unfolding log_ok_def f by metis
    qed
  qed
  ultimately show ?thesis by (simp add: core_ok_def)
qed

lemma forget_fields [simp]:
  "promise_at (forget_resolution c st) = promise_at st" "hs_registry (forget_resolution c st) = hs_registry st"
  "hs_resolved (forget_resolution c st) = hs_resolved st" "hs_log (forget_resolution c st) = hs_log st"
  "hs_resolving (forget_resolution c st) = (hs_resolving st)(c := None)"
  by (simp_all add: forget_resolution_def promise_at_def fun_eq_iff)

lemma forget_core:
  assumes core: "core_ok st" and none: "\<And>q i. \<not> promise_at st q (c, Pending i)"
  shows "core_ok (forget_resolution c st)"
proof -
  have ok: "promises_ok st" "resolved_ok st" "log_ok st" using core by (simp_all add: core_ok_def)
  have "promises_ok (forget_resolution c st)"
  proof (rule promises_okI)
    fix p d i assume "promise_at (forget_resolution c st) p (d, Pending i)"
    then have a: "promise_at st p (d, Pending i)" by simp
    then have "d \<noteq> c" using none by blast
    then show "hs_resolving (forget_resolution c st) d = Some p \<and> d \<notin> hs_resolved (forget_resolution c st)
       \<and> i < length (entries_of (forget_resolution c st) d)
       \<and> (\<forall>k < i. \<not> unloaded (entries_of (forget_resolution c st) d ! k)) \<and> unloaded (entries_of (forget_resolution c st) d ! i)"
      using pendingD [OF ok(1) a] by simp
  next
    show "d \<in> hs_resolved (forget_resolution c st)" if "promise_at (forget_resolution c st) p (d, Fulfilled)" for p d
      using that ok(1) by (auto simp: promises_ok_def)
    show "\<exists>v. promise_at (forget_resolution c st) p (d, v)" if t: "hs_resolving (forget_resolution c st) d = Some p" for p d
    proof -
      have "hs_resolving st d = Some p" using t by (simp split: if_splits)
      then show ?thesis using tableD [OF ok(1)] by simp
    qed
  qed
  moreover have "resolved_ok (forget_resolution c st)" using ok(2) by (simp add: resolved_ok_def)
  moreover have "log_ok (forget_resolution c st)" using ok(3) by (simp add: log_ok_def)
  ultimately show ?thesis by (simp add: core_ok_def)
qed

text \<open>How the dispatches fare when the rest of the state changes.\<close>

lemma dispatches_mono:
  assumes "dispatches_ok st" and "hs_dispatches st' = hs_dispatches st" and "\<And>d. dispatch_ok st d \<Longrightarrow> dispatch_ok st' d"
  shows "dispatches_ok st'"
  using assms unfolding dispatches_ok_def dispatch_at_def by auto

lemma begin_fields:
  "hs_dispatches (begin_resolution c st) = hs_dispatches st" "hs_registry (begin_resolution c st) = hs_registry st"
  "hs_resolving (begin_resolution c st) = (hs_resolving st)(c \<mapsto> length (hs_promises st))"
  "hs_resolved st \<subseteq> hs_resolved (begin_resolution c st)"
  "promise_at st p v \<Longrightarrow> promise_at (begin_resolution c st) p v"
  by (auto simp: begin_resolution_def continue_resolution_def promise_at_def nth_append split: option.splits)

lemma begin_dispatch:
  assumes "hs_resolving st c = None" and "dispatch_ok st d"
  shows "dispatch_ok (begin_resolution c st) d"
  using assms begin_fields [where c = c and st = st] by (cases d) (fastforce simp: collect_handlers_def)+

lemma returns_fields:
  "hs_dispatches (factory_returns p c i m st) = hs_dispatches st"
  "hs_resolving (factory_returns p c i m st) = hs_resolving st"
  "hs_resolved st \<subseteq> hs_resolved (factory_returns p c i m st)"
  "d \<noteq> c \<Longrightarrow> entries_of (factory_returns p c i m st) d = entries_of st d"
  "promise_at st q v \<Longrightarrow> \<exists>w. promise_at (factory_returns p c i m st) q (if q = p then (c, w) else v)"
  using load_entry_entries [of c i m st d]
  by (auto simp: factory_returns_def continue_resolution_def set_promise_def promise_at_def split: option.splits)

lemma returns_dispatch:
  assumes pend: "promise_at st p (c, Pending i)" and "promises_ok st" and "dispatch_ok st d"
  shows "dispatch_ok (factory_returns p c i m st) d"
proof (cases d)
  case (Owner c' h q)
  then show ?thesis using assms(3) by (simp add: returns_fields(2))
next
  case (Waiter c' h q)
  then obtain v where v: "promise_at st q (c', v)" using assms(3) by auto
  show ?thesis
  proof (cases "q = p")
    case True
    then have "c' = c" using promise_at_fun [OF pend, of "(c', v)"] v by auto
    then show ?thesis using returns_fields(5) [OF v, of p c i m] True Waiter by simp
  next
    case False
    then show ?thesis using returns_fields(5) [OF v, of p c i m] Waiter by auto
  qed
next
  case (Got c' h hs)
  then have "c' \<noteq> c" using assms(3) pendingD(2) [OF assms(2) pend] by auto
  then show ?thesis using assms(3) Got returns_fields(3) [of st p c i m] returns_fields(4) [of c' c p i m st]
    by (auto simp: collect_handlers_def)
qed simp_all

lemma throws_dispatch:
  assumes pend: "promise_at st p (c, Pending i)" and "dispatch_ok st d"
  shows "dispatch_ok (factory_throws p c i e st) d"
proof (cases d)
  case (Waiter c' h q)
  then obtain v where v: "promise_at st q (c', v)" using assms(2) by auto
  then have "promise_at (factory_throws p c i e st) q (if q = p then (c, Rejected e) else (c', v))"
    by (auto simp: factory_throws_def set_promise_def promise_at_def)
  moreover have "q = p \<Longrightarrow> c' = c" using promise_at_fun [OF pend, of "(c', v)"] v by auto
  ultimately show ?thesis using Waiter by (cases "q = p") auto
qed (use assms(2) in \<open>simp_all add: factory_throws_def set_promise_def collect_handlers_def\<close>)

lemma forget_dispatches:
  assumes ok: "dispatches_ok st" and own: "dispatch_at st k (Owner c h p)"
    and new: "dispatch_ok st d" "\<And>c h p. d \<noteq> Owner c h p"
  shows "dispatches_ok (set_dispatch k d (forget_resolution c st))"
proof -
  have at': "dispatch_at (set_dispatch k d (forget_resolution c st)) k' d'
      \<longleftrightarrow> k' < length (hs_dispatches st) \<and> (if k' = k then d' = d else dispatch_at st k' d')" for k' d'
    unfolding dispatch_at_set by (simp add: forget_resolution_def dispatch_at_def)
  have keep: "dispatch_ok (forget_resolution c st) d'" if "dispatch_ok st d'" "\<And>h q. d' \<noteq> Owner c h q" for d'
    using that by (cases d') (auto simp: forget_resolution_def promise_at_def)
  have others: "\<And>h' q. d' \<noteq> Owner c h' q" if "dispatch_at st k' d'" "k' \<noteq> k" for k' d'
    using ok own that unfolding dispatches_ok_def by blast
  show ?thesis unfolding dispatches_ok_def
  proof (intro conjI allI impI)
    fix k' d' assume a: "dispatch_at (set_dispatch k d (forget_resolution c st)) k' d'"
    show "dispatch_ok (set_dispatch k d (forget_resolution c st)) d'"
    proof (cases "k' = k")
      case True
      then show ?thesis using a new keep unfolding at' by simp
    next
      case False
      then have d: "dispatch_at st k' d'" using a unfolding at' by simp
      then have "dispatch_ok st d'" using ok unfolding dispatches_ok_def by blast
      then show ?thesis using keep others [OF d False] by simp
    qed
  next
    fix k1 k2 c1 c2 h1 h2 p1 p2
    assume "dispatch_at (set_dispatch k d (forget_resolution c st)) k1 (Owner c1 h1 p1)
      \<and> dispatch_at (set_dispatch k d (forget_resolution c st)) k2 (Owner c2 h2 p2) \<and> c1 = c2"
    then show "k1 = k2" using ok new(2) unfolding at' dispatches_ok_def by (metis (full_types))
  qed
qed

lemma dispatch_okD: "dispatches_ok st \<Longrightarrow> dispatch_at st k d \<Longrightarrow> dispatch_ok st d"
  unfolding dispatches_ok_def by blast

lemma start_dispatches:
  assumes ok: "dispatches_ok st" and fresh: "hs_resolving st c = None"
  shows "dispatches_ok (set_dispatch k (Owner c h (length (hs_promises st))) (begin_resolution c st))"
proof -
  let ?o = "Owner c h (length (hs_promises st))"
  have at': "dispatch_at (set_dispatch k ?o (begin_resolution c st)) k' d'
      \<longleftrightarrow> k' < length (hs_dispatches st) \<and> (if k' = k then d' = ?o else dispatch_at st k' d')" for k' d'
    unfolding dispatch_at_set by (simp add: dispatch_at_def begin_fields(1))
  have none: "\<not> dispatch_at st k' (Owner c h' q)" for k' h' q
    using dispatch_okD [OF ok, of k' "Owner c h' q"] fresh by auto
  have old_ok: "dispatch_ok (begin_resolution c st) d'" if "dispatch_at st k' d'" for k' d'
    using begin_dispatch [OF fresh dispatch_okD [OF ok that]] .
  have unique: "k1 = k2" if "dispatch_at st k1 (Owner c1 h1 p1)" "dispatch_at st k2 (Owner c1 h2 p2)" for k1 k2 c1 h1 h2 p1 p2
    using ok that unfolding dispatches_ok_def by blast
  show ?thesis unfolding dispatches_ok_def
  proof (intro conjI allI impI)
    show "dispatch_ok (set_dispatch k ?o (begin_resolution c st)) d'"
      if "dispatch_at (set_dispatch k ?o (begin_resolution c st)) k' d'" for k' d'
      using that old_ok [of k' d'] unfolding at' by (cases "k' = k") (simp_all add: begin_fields(3))
    show "k1 = k2" if "dispatch_at (set_dispatch k ?o (begin_resolution c st)) k1 (Owner c1 h1 p1)
      \<and> dispatch_at (set_dispatch k ?o (begin_resolution c st)) k2 (Owner c2 h2 p2) \<and> c1 = c2" for k1 k2 c1 c2 h1 h2 p1 p2
      using that none [of k1] none [of k2] unique [of k1 c1 h1 p1 k2 h2 p2] unfolding at' by (auto split: if_splits)
  qed
qed

lemma hook_inv_alt: "hook_inv st \<longleftrightarrow> core_ok st \<and> dispatches_ok st"
  by (auto simp: hook_inv_def core_ok_def)

lemma core_set_dispatch [simp]: "core_ok (set_dispatch k d st) = core_ok st"
  by (simp add: core_ok_def)

lemma settled_not_pending:
  assumes "core_ok st" and "dispatches_ok st" and "dispatch_at st k (Owner c h p)" and "promise_at st p (c, v)"
    and "\<And>i. v \<noteq> Pending i"
  shows "\<not> promise_at st q (c, Pending i)"
proof
  assume q: "promise_at st q (c, Pending i)"
  have "hs_resolving st c = Some p" using dispatch_okD [OF assms(2,3)] by simp
  then have "q = p" using pendingD(1) [OF _ q] assms(1) by (simp add: core_ok_def)
  then have "v = Pending i" using promise_at_fun [OF q, of "(c, v)"] assms(4) by simp
  then show False using assms(5) by blast
qed

theorem hook_inv_step:
  assumes "hook_step st st'" and "hook_inv st"
  shows "hook_inv st'"
  using assms
proof (induction rule: hook_step.induct)
  case (spawn st c h)
  let ?s = "st\<lparr>hs_dispatches := hs_dispatches st @ [Calling c h]\<rparr>"
  have pa: "promise_at ?s = promise_at st" by (simp add: promise_at_def fun_eq_iff)
  have same: "dispatch_ok ?s d = dispatch_ok st d" for d by (cases d) (simp_all add: pa)
  have "core_ok ?s = core_ok st" by (simp add: core_ok_def promises_ok_def resolved_ok_def log_ok_def pa)
  moreover have "dispatch_at ?s k d \<longleftrightarrow> dispatch_at st k d \<or> k = length (hs_dispatches st) \<and> d = Calling c h" for k d
    by (auto simp: dispatch_at_def nth_append)
  then have "dispatches_ok ?s" using spawn unfolding hook_inv_alt dispatches_ok_def same by auto
  ultimately show ?case using spawn by (simp add: hook_inv_alt)
next
  case (already_resolved st k c h)
  then show ?case using dispatches_set [of st "Got c h (collect_handlers (hs_registry st) c h)" k] by (simp add: hook_inv_alt)
next
  case (join_resolution st k c h p)
  then show ?case using dispatches_set [of st "Waiter c h p" k] tableD [of st c p] by (simp add: hook_inv_alt core_ok_def)
next
  case (start_resolution st k c h)
  then show ?case using start_dispatches [of st c k h] begin_core [of st c] by (simp add: hook_inv_alt)
next
  case (factory_ok st p c i m)
  then have ok: "promises_ok st" "core_ok st" "dispatches_ok st" by (simp_all add: hook_inv_alt core_ok_def)
  then show ?case using returns_core [OF _ factory_ok(1)] returns_dispatch [OF factory_ok(1)]
      dispatches_mono [OF ok(3) returns_fields(1)] by (simp add: hook_inv_alt)
next
  case (factory_fails st p c i e)
  then have ok: "core_ok st" "dispatches_ok st" by (simp_all add: hook_inv_alt)
  have "hs_dispatches (factory_throws p c i e st) = hs_dispatches st" by (simp add: factory_throws_def set_promise_def)
  from dispatches_mono [OF ok(2) this throws_dispatch [OF factory_fails(1)]] show ?case
    using throws_core [OF ok(1) factory_fails(1)] by (simp add: hook_inv_alt)
next
  case (owner_resumes st k c h p)
  then have ok: "core_ok st" "dispatches_ok st" by (simp_all add: hook_inv_alt)
  have "c \<in> hs_resolved st" using ok(1) owner_resumes(2) by (auto simp: core_ok_def promises_ok_def)
  then show ?case using forget_dispatches [OF ok(2) owner_resumes(1), of "Got c h (collect_handlers (hs_registry st) c h)"]
      forget_core [OF ok(1) settled_not_pending [OF ok owner_resumes(1,2)]] by (simp add: hook_inv_alt)
next
  case (owner_rethrows st k c h p e)
  then have ok: "core_ok st" "dispatches_ok st" by (simp_all add: hook_inv_alt)
  then show ?case using forget_dispatches [OF ok(2) owner_rethrows(1), of "Failed e"]
      forget_core [OF ok(1) settled_not_pending [OF ok owner_rethrows(1,2)]] by (simp add: hook_inv_alt)
next
  case (waiter_resumes st k c h p)
  then have "c \<in> hs_resolved st" by (auto simp: hook_inv_alt core_ok_def promises_ok_def)
  then show ?case using waiter_resumes dispatches_set [of st "Got c h (collect_handlers (hs_registry st) c h)" k]
    by (simp add: hook_inv_alt)
next
  case (waiter_rethrows st k c h p e)
  then show ?case using dispatches_set [of st "Failed e" k] by (simp add: hook_inv_alt)
qed

lemma hook_inv_reachable: "hook_reachable plugins st \<Longrightarrow> hook_inv st"
  unfolding hook_reachable_def
  by (induction rule: rtranclp_induct) (auto intro: hook_inv_init hook_inv_step)

text \<open>What an accepted log says about the calls of one factory.\<close>

lemma log_counts:
  assumes "log_status (c, i) log = Some s"
  shows "count_list log (Called c i) = count_list log (Threw c i) + (if s = Idle then 0 else 1)
    \<and> count_list log (Returned c i) = (if s = Loaded then 1 else 0)"
  using assms
proof (induction log arbitrary: s rule: rev_induct)
  case (snoc e log)
  then show ?case
    by (cases e; cases "log_status (c, i) log") (auto split: if_splits)
qed simp

section \<open>The registered entries\<close>

text \<open>The entries a plugin registers for a category, and what may become of an entry.\<close>

definition hook_value_entries :: "string \<Rightarrow> string \<Rightarrow> string \<times> ('f, 'fn) hook_value \<Rightarrow> ('f, 'fn) hook_entry list" where
  "hook_value_entries c pid ch = (if fst ch \<noteq> c then [] else case snd ch of
      HookFalsy \<Rightarrow> []
    | HookFactory f \<Rightarrow> [\<lparr>he_pluginId = pid, he_handlers = None, he_factory = Some f\<rparr>]
    | HookHandlers h \<Rightarrow> [\<lparr>he_pluginId = pid, he_handlers = Some h, he_factory = None\<rparr>])"

definition plugin_entries :: "string \<Rightarrow> ('f, 'fn) hook_plugin \<Rightarrow> ('f, 'fn) hook_entry list" where
  "plugin_entries c p = (case hp_hookHandlers p of None \<Rightarrow> [] | Some hs \<Rightarrow> concat (map (hook_value_entries c (hp_id p)) hs))"

lemma register_hook_entries: "hook_entries (register_hook pid ch r) c = hook_entries r c @ hook_value_entries c pid ch"
  by (cases ch; cases "snd ch") (auto simp: register_hook_def hook_entries_def hook_value_entries_def om_get_set)

lemma registerPlugins_entries: "hook_entries (registerPlugins plugins []) c = concat (map (plugin_entries c) plugins)"
proof -
  have hooks: "hook_entries (fold (register_hook pid) hs r) c = hook_entries r c @ concat (map (hook_value_entries c pid) hs)" for pid hs and r :: "('f, 'fn) hook_registry"
    by (induction hs arbitrary: r) (simp_all add: register_hook_entries)
  have "hook_entries (registerPlugins plugins r) c = hook_entries r c @ concat (map (plugin_entries c) plugins)" for r
    by (induction plugins arbitrary: r)
      (simp_all add: registerPlugins_def hooks plugin_entries_def split: option.splits)
  then show ?thesis by (simp add: hook_entries_def)
qed

definition loaded_from :: "('f, 'fn) hook_entry \<Rightarrow> ('f, 'fn) hook_entry \<Rightarrow> bool" where
  "loaded_from e0 e \<longleftrightarrow> he_pluginId e = he_pluginId e0 \<and> (he_factory e0 = None \<longrightarrow> e = e0)"

lemma entries_loaded_from:
  assumes "hook_reachable plugins st"
  shows "list_all2 loaded_from (concat (map (plugin_entries c) plugins)) (entries_of st c)"
  using assms unfolding hook_reachable_def
proof (induction rule: rtranclp_induct)
  case base
  have "list_all2 loaded_from es es" for es :: "('a, 'b) hook_entry list"
    by (simp add: list_all2_conv_all_nth loaded_from_def)
  then show ?case by (simp add: hook_init_def registerPlugins_entries)
next
  case (step st st')
  have inv: "promises_ok st"
    using hook_inv_reachable [of plugins st] step.hyps(1) by (simp add: hook_reachable_def hook_inv_def)
  show ?case using step.hyps(2) step.IH inv
  proof (cases rule: hook_step.cases)
    case (start_resolution k c h)
    then show ?thesis using step.IH by (simp add: begin_fields(2))
  next
    case (factory_fails p c i e)
    then show ?thesis using step.IH by (simp add: factory_throws_def set_promise_def)
  next
    case (factory_ok p d i m)
    have same: "entries_of st' c = entries_of (load_entry d i m st) c"
      using factory_ok by (auto simp: factory_returns_def continue_resolution_def set_promise_def split: option.splits)
    note pd = pendingD [OF inv factory_ok(2)]
    show ?thesis
    proof (cases "c = d")
      case True
      have "list_all2 loaded_from (concat (map (plugin_entries c) plugins))
          ((entries_of st c)[i := (entries_of st c ! i)\<lparr>he_handlers := m, he_factory := None\<rparr>])"
        unfolding list_all2_conv_all_nth
      proof (intro conjI allI impI)
        show "length (concat (map (plugin_entries c) plugins))
            = length ((entries_of st c)[i := (entries_of st c ! i)\<lparr>he_handlers := m, he_factory := None\<rparr>])"
          using step.IH list_all2_lengthD by fastforce
        show "loaded_from (concat (map (plugin_entries c) plugins) ! k)
            ((entries_of st c)[i := (entries_of st c ! i)\<lparr>he_handlers := m, he_factory := None\<rparr>] ! k)"
          if "k < length (concat (map (plugin_entries c) plugins))" for k
        proof -
          have "loaded_from (concat (map (plugin_entries c) plugins) ! k) (entries_of st c ! k)"
            using step.IH that by (simp add: list_all2_conv_all_nth)
          moreover have "unloaded (entries_of st c ! i)" "i < length (entries_of st c)" using pd True by simp_all
          ultimately show ?thesis by (cases "k = i") (auto simp: loaded_from_def unloaded_def)
        qed
      qed
      then show ?thesis using True unfolding same load_entry_entries by simp
    qed (use step.IH same in \<open>simp add: load_entry_entries\<close>)
  qed simp_all
qed

section \<open>Properties\<close>

text \<open>
  C18: however dispatches interleave, a factory is never called while a call of it is running, and
  never again after a call of it succeeded: the log of its calls is accepted, it succeeds at most
  once, and its calls number its failures, plus one if it runs or is loaded.
\<close>

theorem factory_single_flight:
  assumes "hook_reachable plugins st"
  shows "log_status (c, i) (hs_log st) \<noteq> None
    \<and> count_list (hs_log st) (Returned c i) \<le> 1
    \<and> count_list (hs_log st) (Called c i) \<le> count_list (hs_log st) (Threw c i) + 1"
proof -
  have "log_status (c, i) (hs_log st) \<noteq> None"
    using hook_inv_reachable [OF assms] by (simp add: hook_inv_def log_ok_def)
  then obtain s where "log_status (c, i) (hs_log st) = Some s" by blast
  then show ?thesis using log_counts by (auto split: if_splits)
qed

text \<open>
  A dispatch that has its handlers misses none: every entry registered for the category, in
  plugin order, is loaded, eager handlers are as registered, and the handlers are those of the
  hook in that order.
\<close>

theorem dispatch_handlers_complete:
  assumes "hook_reachable plugins st" and "dispatch_at st k (Got c h fns)"
  shows "fns = concat (map (handler_of h) (entries_of st c))
    \<and> list_all2 loaded_from (concat (map (plugin_entries c) plugins)) (entries_of st c)
    \<and> (\<forall>e \<in> set (entries_of st c). he_handlers e \<noteq> None \<or> he_factory e = None)"
proof -
  have "dispatch_ok st (Got c h fns)" and "resolved_ok st"
    using hook_inv_reachable [OF assms(1)] dispatch_okD [OF _ assms(2)] by (simp_all add: hook_inv_def)
  moreover have "he_handlers e \<noteq> None \<or> he_factory e = None" if "e \<in> set (entries_of st c)" for e
    using calculation that unfolding resolved_ok_def unloaded_def in_set_conv_nth by fastforce
  ultimately show ?thesis using entries_loaded_from [OF assms(1)] by (simp add: collect_handlers_def)
qed

text \<open>No interleaving deadlocks: while a dispatch is unfinished some step of a dispatch or a factory is possible.\<close>

theorem hook_dispatch_progress:
  assumes "hook_reachable plugins st" and "dispatch_at st k d" and "\<And>c h fns. d \<noteq> Got c h fns" and "\<And>e. d \<noteq> Failed e"
  shows "\<exists>st'. hook_step st st' \<and> length (hs_dispatches st') = length (hs_dispatches st)"
proof -
  have inv: "promises_ok st" "dispatches_ok st" using hook_inv_reachable [OF assms(1)] by (simp_all add: hook_inv_def)
  have by_promise: "\<exists>st'. hook_step st st' \<and> length (hs_dispatches st') = length (hs_dispatches st)"
    if "promise_at st p (c, v)" "d = Owner c h p \<or> d = Waiter c h p" for p c v h
  proof (cases v)
    case (Pending i)
    then show ?thesis using that factory_ok [of st p c i None] returns_fields(1) [of p c i None st] by auto
  next
    case Fulfilled
    then show ?thesis using that assms(2) owner_resumes [of st k c h p] waiter_resumes [of st k c h p]
      by (fastforce simp: set_dispatch_def forget_resolution_def)
  next
    case (Rejected e)
    then show ?thesis using that assms(2) owner_rethrows [of st k c h p e] waiter_rethrows [of st k c h p e]
      by (fastforce simp: set_dispatch_def forget_resolution_def)
  qed
  show ?thesis
  proof (cases d)
    case (Calling c h)
    then consider "c \<in> hs_resolved st" | p where "c \<notin> hs_resolved st" "hs_resolving st c = Some p"
      | "c \<notin> hs_resolved st" "hs_resolving st c = None" by fastforce
    then show ?thesis
      by cases (use assms(2) Calling already_resolved join_resolution start_resolution in
        \<open>fastforce simp: set_dispatch_def begin_fields(1)\<close>)+
  next
    case (Owner c h p)
    then obtain v where "promise_at st p (c, v)" using dispatch_okD [OF inv(2) assms(2)] tableD [OF inv(1)] by auto
    then show ?thesis using by_promise Owner by blast
  next
    case (Waiter c h p)
    then obtain v where "promise_at st p (c, v)" using dispatch_okD [OF inv(2) assms(2)] by auto
    then show ?thesis using by_promise Waiter by blast
  qed (use assms(3,4) in auto)
qed

text \<open>A run with one lazy plugin, for the properties above.\<close>

definition ex_hook_plugins :: "(unit, nat) hook_plugin list" where
  "ex_hook_plugins = [\<lparr>hp_id = ''p'', hp_hookHandlers = Some [(''n'', HookFactory ())]\<rparr>]"

definition ex_started :: "(unit, nat) hook_state" where
  "ex_started = set_dispatch 0 (Owner ''n'' ''h'' 0)
     (begin_resolution ''n'' ((hook_init ex_hook_plugins)\<lparr>hs_dispatches := [Calling ''n'' ''h'']\<rparr>))"

definition ex_loaded :: "(unit, nat) hook_state" where
  "ex_loaded = factory_returns 0 ''n'' 0 (Some [(''h'', Some 7)]) ex_started"

definition ex_served :: "(unit, nat) hook_state" where
  "ex_served = set_dispatch 0 (Got ''n'' ''h'' (collect_handlers (hs_registry ex_loaded) ''n'' ''h'')) (forget_resolution ''n'' ex_loaded)"

lemma ex_started_reachable: "hook_reachable ex_hook_plugins ex_started"
proof -
  let ?s0 = "hook_init ex_hook_plugins"
  have s1: "hook_step ?s0 (?s0\<lparr>hs_dispatches := hs_dispatches ?s0 @ [Calling ''n'' ''h'']\<rparr>)" by (rule spawn)
  have e: "hs_dispatches ?s0 @ [Calling ''n'' ''h''] = [Calling ''n'' ''h'']" by (simp add: hook_init_def)
  have "hook_step (?s0\<lparr>hs_dispatches := [Calling ''n'' ''h'']\<rparr>) ex_started"
    unfolding ex_started_def
    using start_resolution [of "?s0\<lparr>hs_dispatches := [Calling ''n'' ''h'']\<rparr>" 0 "''n''" "''h''"]
    by (simp add: hook_init_def dispatch_at_def)
  then show ?thesis using s1 unfolding e hook_reachable_def by (meson converse_rtranclp_into_rtranclp r_into_rtranclp)
qed

lemma ex_served_reachable: "hook_reachable ex_hook_plugins ex_served"
proof -
  have "promise_at ex_started 0 (''n'', Pending 0)" by code_simp
  then have s1: "hook_step ex_started ex_loaded" unfolding ex_loaded_def by (rule factory_ok)
  have "dispatch_at ex_loaded 0 (Owner ''n'' ''h'' 0)" and "promise_at ex_loaded 0 (''n'', Fulfilled)" by code_simp+
  then have s2: "hook_step ex_loaded ex_served" unfolding ex_served_def by (rule owner_resumes)
  from ex_started_reachable s1 s2 show ?thesis
    unfolding hook_reachable_def by (meson rtranclp.rtrancl_into_rtrancl)
qed

theorem factory_single_flight_witness: "log_status (''n'', 0) (hs_log ex_served) \<noteq> None"
  using factory_single_flight [OF ex_served_reachable] by blast

theorem dispatch_handlers_complete_witness:
  "list_all2 loaded_from (concat (map (plugin_entries ''n'') ex_hook_plugins)) (entries_of ex_served ''n'')"
proof -
  have "dispatch_at ex_served 0 (Got ''n'' ''h'' [7])" by code_simp
  from dispatch_handlers_complete [OF ex_served_reachable this] show ?thesis by blast
qed

theorem hook_dispatch_progress_witness:
  "\<exists>st'. hook_step ex_started st' \<and> length (hs_dispatches st') = length (hs_dispatches ex_started)"
proof -
  have "dispatch_at ex_started 0 (Owner ''n'' ''h'' 0)" by code_simp
  from hook_dispatch_progress [OF ex_started_reachable this] show ?thesis by blast
qed

end
