(* ===== verification/ConfigValues.thy ===== *)
theory ConfigValues imports Values Paths "HOL-Library.List_Lexorder" "HOL-Library.Char_ord" begin

text \<open>
  The helpers of \<^verbatim>\<open>packages/config/src\<close>: configuration variables, boolean environment values,
  addresses, runtime-import references and the named-account contract. The environment, the home
  directory and the file system are arguments.
\<close>

section \<open>Configuration variables\<close>

text \<open>\<^verbatim>\<open>a ?? b\<close>\<close>

definition nullish :: "jsval \<Rightarrow> bool" where
  "nullish v \<longleftrightarrow> v = JUndef \<or> v = JNull"

definition js_or :: "jsval \<Rightarrow> jsval \<Rightarrow> jsval" where
  "js_or a b = (if nullish a then b else a)"

type_synonym environment = "string \<Rightarrow> string option"

definition configVariable :: "string \<Rightarrow> jsval \<Rightarrow> jsval" where
  "configVariable name defaultValue =
    JObj [(''_type'', JStr ''ConfigVariable''), (''name'', JStr name), (''defaultValue'', defaultValue)]"

definition isConfigVariable :: "jsval \<Rightarrow> bool" where
  "isConfigVariable value' = (case value' of JObj m \<Rightarrow> js_get m ''_type'' = JStr ''ConfigVariable'' | _ \<Rightarrow> False)"

definition env_value :: "environment \<Rightarrow> jsval \<Rightarrow> jsval" where
  "env_value env name = (case name of
      JStr n \<Rightarrow> (case env n of Some v \<Rightarrow> JStr v | None \<Rightarrow> JUndef)
    | _ \<Rightarrow> JUndef)"

text \<open>The name of the variable that is not set is the error.\<close>

definition resolveConfigVariable :: "environment \<Rightarrow> jsval \<Rightarrow> jsval + jsval" where
  "resolveConfigVariable env variable =
    (let value' = js_or (env_value env (prop_of variable ''name'')) (prop_of variable ''defaultValue'')
     in if value' = JUndef then Inl (prop_of variable ''name'') else Inr value')"

section \<open>Boolean environment values\<close>

definition TRUE_TOKENS :: "string list" where
  "TRUE_TOKENS = [''true'', ''t'', ''yes'', ''y'', ''1'', ''on'', ''enabled'']"

definition FALSE_TOKENS :: "string list" where
  "FALSE_TOKENS = [''false'', ''f'', ''no'', ''n'', ''0'', ''off'', ''disabled'']"

definition js_lower :: "string \<Rightarrow> string" where
  "js_lower s = map (\<lambda>c. if is_upper c then char_of ((of_char c :: nat) + 32) else c) s"

text \<open>The value, and the argument of \<^verbatim>\<open>onInvalid\<close> where it is called.\<close>

definition parseBooleanEnv :: "string option \<Rightarrow> bool \<Rightarrow> bool \<times> string option" where
  "parseBooleanEnv value' defaultValue =
    (case value' of
      None \<Rightarrow> (defaultValue, None)
    | Some s \<Rightarrow>
        if s = [] then (defaultValue, None)
        else let v = js_trim (js_lower s) in
          if v \<in> set TRUE_TOKENS then (True, None)
          else if v \<in> set FALSE_TOKENS then (False, None)
          else (defaultValue, Some s))"

section \<open>Addresses\<close>

text \<open>\<^verbatim>\<open>/^aleo1[a-z0-9]{58}$/\<close>\<close>

definition isValidAleoAddress :: "string \<Rightarrow> bool" where
  "isValidAleoAddress address \<longleftrightarrow> starts_with address ''aleo1'' \<and> length address = 63
     \<and> list_all (\<lambda>c. is_lower c \<or> is_digit c) (drop 5 address)"

section \<open>Runtime-import references\<close>

datatype runtime_import_ref = RefProgram string | RefPath string

definition id_start :: "char \<Rightarrow> bool" where
  "id_start c \<longleftrightarrow> is_lower c \<or> is_upper c \<or> c = CHR ''_''"

definition id_char :: "char \<Rightarrow> bool" where
  "id_char c \<longleftrightarrow> id_start c \<or> is_digit c"

text \<open>\<^verbatim>\<open>BARE_NAME_PATTERN\<close>, \<^verbatim>\<open>PROGRAM_ID_PATTERN\<close> and \<^verbatim>\<open>MAP_KEY_PATTERN\<close>\<close>

definition bare_name :: "string \<Rightarrow> bool" where
  "bare_name s \<longleftrightarrow> s \<noteq> [] \<and> id_start (hd s) \<and> list_all id_char (tl s)"

definition program_id :: "string \<Rightarrow> bool" where
  "program_id s \<longleftrightarrow> ends_with s ''.aleo'' \<and> bare_name (take (length s - 5) s)"

definition isValidExecutionImportsMapKey :: "string \<Rightarrow> bool" where
  "isValidExecutionImportsMapKey raw \<longleftrightarrow> bare_name raw \<or> program_id raw"

definition normalizeProgramId :: "string \<Rightarrow> string" where
  "normalizeProgramId raw = (if ends_with raw ''.aleo'' then raw else raw @ ''.aleo'')"

definition backslash :: char where "backslash = char_of (92 :: nat)"

definition looksLikePath :: "string \<Rightarrow> bool" where
  "looksLikePath raw \<longleftrightarrow> path_sep \<in> set raw \<or> backslash \<in> set raw \<or> starts_with raw ''~''"

datatype ref_kind = KindProgram | KindPath | KindInvalid

definition classifyRuntimeImportRef :: "string \<Rightarrow> ref_kind" where
  "classifyRuntimeImportRef raw =
    (if length raw = 0 then KindInvalid
     else if looksLikePath raw then KindPath
     else if program_id raw \<or> bare_name raw then KindProgram
     else KindInvalid)"

definition expandHome :: "string \<Rightarrow> string \<Rightarrow> string" where
  "expandHome home p =
    (if p = ''~'' then home
     else if starts_with p ''~/'' \<or> starts_with p (''~'' @ [backslash]) then path_join [home, drop 2 p]
     else p)"

definition resolveAbsolutePath :: "string \<Rightarrow> string \<Rightarrow> string \<Rightarrow> string \<Rightarrow> string" where
  "resolveAbsolutePath cwd home raw projectRoot =
    (let expanded = expandHome home raw in
     if isAbsolute expanded then expanded else path_resolve cwd [projectRoot, expanded])"

text \<open>The reference, or the raw string that is not one.\<close>

definition normalizeRuntimeImportRef :: "string \<Rightarrow> string \<Rightarrow> string \<Rightarrow> string \<Rightarrow> string + runtime_import_ref" where
  "normalizeRuntimeImportRef cwd home raw projectRoot =
    (case classifyRuntimeImportRef raw of
      KindInvalid \<Rightarrow> Inl raw
    | KindProgram \<Rightarrow> Inr (RefProgram (normalizeProgramId raw))
    | KindPath \<Rightarrow> Inr (RefPath (resolveAbsolutePath cwd home raw projectRoot)))"

text \<open>\<^verbatim>\<open>statSync\<close>: \<open>None\<close> where it throws, else whether the entry is a regular file.\<close>

type_synonym stat_fn = "string \<Rightarrow> bool option"

datatype import_diagnostic = ImportNotFound string | ImportNotFile string

definition checkRuntimeImportRefExists :: "stat_fn \<Rightarrow> runtime_import_ref \<Rightarrow> import_diagnostic option" where
  "checkRuntimeImportRefExists stat ref =
    (case ref of
      RefProgram p \<Rightarrow> None
    | RefPath absolutePath \<Rightarrow>
        (case stat absolutePath of
          None \<Rightarrow> Some (ImportNotFound absolutePath)
        | Some isFile \<Rightarrow> if isFile then None else Some (ImportNotFile absolutePath)))"

section \<open>Named accounts\<close>

record signable_account =
  sa_name :: string
  sa_address :: string
  sa_privateKey :: string

record address_account =
  aa_name :: string
  aa_address :: string

datatype named_account = Signable signable_account | AddressOnly address_account

type_synonym named_accounts = "(string, named_account) omap"

datatype account_role = RoleSigner | RoleAddress

datatype role_failure = NotConfigured string | NotSignable string

datatype account_error =
    ContractFailed string "role_failure list"
  | AccountNotConfigured string
  | AccountAddressOnly string

definition isSignable :: "named_account \<Rightarrow> bool" where
  "isSignable account = (case account of Signable a \<Rightarrow> True | AddressOnly a \<Rightarrow> False)"

definition getRoleFailure :: "named_accounts \<Rightarrow> string \<Rightarrow> account_role \<Rightarrow> role_failure option" where
  "getRoleFailure accounts name role =
    (case om_get accounts name of
      None \<Rightarrow> Some (NotConfigured name)
    | Some account \<Rightarrow> if role = RoleSigner \<and> \<not> isSignable account then Some (NotSignable name) else None)"

definition requireOne :: "named_accounts \<Rightarrow> string \<Rightarrow> string \<Rightarrow> account_role \<Rightarrow> account_error + named_account" where
  "requireOne accounts networkName name role =
    (case getRoleFailure accounts name role of
      Some failure \<Rightarrow> Inl (ContractFailed networkName [failure])
    | None \<Rightarrow> (case om_get accounts name of Some a \<Rightarrow> Inr a | None \<Rightarrow> Inl (AccountNotConfigured name)))"

definition require_step ::
    "named_accounts \<Rightarrow> string \<times> account_role \<Rightarrow> role_failure list \<times> named_accounts \<Rightarrow> role_failure list \<times> named_accounts" where
  "require_step accounts nr st =
    (case (nr, st) of ((name, role), (failures, result)) \<Rightarrow>
      case getRoleFailure accounts name role of
        Some failure \<Rightarrow> (failures @ [failure], result)
      | None \<Rightarrow> (case om_get accounts name of
            Some a \<Rightarrow> (failures, om_set name a result)
          | None \<Rightarrow> (failures, result)))"

definition requireSpec :: "named_accounts \<Rightarrow> string \<Rightarrow> (string, account_role) omap \<Rightarrow> account_error + named_accounts" where
  "requireSpec accounts networkName spec =
    (case fold (require_step accounts) spec ([], []) of (failures, result) \<Rightarrow>
      if 0 < length failures then Inl (ContractFailed networkName failures) else Inr result)"

definition requireNamedAccount :: "named_accounts \<Rightarrow> string \<Rightarrow> account_error + named_account" where
  "requireNamedAccount accounts name =
    (case om_get accounts name of None \<Rightarrow> Inl (AccountNotConfigured name) | Some a \<Rightarrow> Inr a)"

definition requireSignableNamedAccount :: "named_accounts \<Rightarrow> string \<Rightarrow> account_error + signable_account" where
  "requireSignableNamedAccount accounts name =
    bindR (requireNamedAccount accounts name) (\<lambda>account.
      case account of AddressOnly a \<Rightarrow> Inl (AccountAddressOnly name) | Signable a \<Rightarrow> Inr a)"

text \<open>\<^verbatim>\<open>{ privateKey, address }\<close>\<close>

definition asSigner :: "named_account \<Rightarrow> account_error + string \<times> string" where
  "asSigner account =
    (case account of
      AddressOnly a \<Rightarrow> Inl (AccountAddressOnly (aa_name a))
    | Signable a \<Rightarrow> Inr (sa_privateKey a, sa_address a))"

section \<open>Facts\<close>

lemma normalizeProgramId_idem: "normalizeProgramId (normalizeProgramId p) = normalizeProgramId p"
  by (auto simp: normalizeProgramId_def ends_with_suffix suffix_def)

lemma classify_normalizes:
  "classifyRuntimeImportRef raw \<noteq> KindInvalid \<longleftrightarrow> (\<exists>r. normalizeRuntimeImportRef cwd home raw projectRoot = Inr r)"
  by (simp add: normalizeRuntimeImportRef_def split: ref_kind.split)

text \<open>The contract of \<^verbatim>\<open>require\<close>: all roles or every failure, in the order of the specification.\<close>

definition role_met :: "named_accounts \<Rightarrow> string \<Rightarrow> account_role \<Rightarrow> named_account \<Rightarrow> bool" where
  "role_met accounts name role a \<longleftrightarrow> om_get accounts name = Some a \<and> (role = RoleSigner \<longrightarrow> isSignable a)"

lemma no_role_failure: "getRoleFailure accounts name role = None \<longleftrightarrow> (\<exists>a. role_met accounts name role a)"
  by (auto simp: getRoleFailure_def role_met_def split: option.split)

definition spec_failures :: "named_accounts \<Rightarrow> (string, account_role) omap \<Rightarrow> role_failure list" where
  "spec_failures accounts spec = List.map_filter (\<lambda>(name, role). getRoleFailure accounts name role) spec"

lemma require_fold:
  assumes "fold (require_step accounts) spec (fs, m) = (fs', m')" and "distinct (om_keys spec)"
  shows "fs' = fs @ spec_failures accounts spec
    \<and> (\<forall>n. om_get m' n = (case om_get spec n of
          None \<Rightarrow> om_get m n
        | Some role \<Rightarrow> if getRoleFailure accounts n role = None then om_get accounts n else om_get m n))"
  using assms
proof (induction spec arbitrary: fs m)
  case Nil
  then show ?case by (simp add: spec_failures_def map_filter_simps)
next
  case (Cons nr spec)
  obtain name role where nr: "nr = (name, role)" by fastforce
  obtain f1 m1 where step: "require_step accounts nr (fs, m) = (f1, m1)" by fastforce
  then have "fold (require_step accounts) spec (f1, m1) = (fs', m')" using Cons.prems(1) by simp
  then have IH: "fs' = f1 @ spec_failures accounts spec" "\<And>n. om_get m' n = (case om_get spec n of
          None \<Rightarrow> om_get m1 n
        | Some role \<Rightarrow> if getRoleFailure accounts n role = None then om_get accounts n else om_get m1 n)"
    using Cons.IH [of f1 m1] Cons.prems(2) by auto
  have fresh: "om_get spec name = None" using Cons.prems(2) nr by (simp add: map_of_eq_None_iff)
  show ?case
  proof (cases "getRoleFailure accounts name role")
    case None
    then obtain a where a: "om_get accounts name = Some a" by (auto simp: no_role_failure role_met_def)
    have "f1 = fs" "m1 = om_set name a m" using step None a by (simp_all add: require_step_def nr)
    then show ?thesis using IH None a fresh
      by (auto simp: nr spec_failures_def map_filter_simps om_get_set split: option.split)
  next
    case (Some f)
    then have "f1 = fs @ [f]" "m1 = m" using step by (simp_all add: require_step_def nr)
    then show ?thesis using IH Some fresh
      by (auto simp: nr spec_failures_def map_filter_simps split: option.split)
  qed
qed

end
