(* ===== verification/ConfigResolution.thy ===== *)
theory ConfigResolution imports ConfigValues Hooks begin

text \<open>
  Config resolution (\<^verbatim>\<open>core/src/config-resolution.ts\<close>): the four stages, the defaults, the
  classification of named accounts, the normalisation of runtime imports, and the merge of plugin
  partials. A config is the JavaScript object it is at run time; the plugin handlers are
  arguments, as the dispatcher hands them over.
\<close>

section \<open>Errors\<close>

datatype config_issue =
    ImportsNotObject
  | BadImportKey string
  | ImportNotArray string
  | ImportEmpty string
  | RefNotString string nat string
  | RefInvalid string nat string
  | BadLogLevel
  | ImportMissing string nat import_diagnostic
  | PluginIssue jsval

datatype config_error =
    UserConfigInvalid "config_issue list"
  | ResolvedConfigInvalid "config_issue list"
  | AccountKeyMissing string nat
  | UnknownNetworkType string jsval
  | UnsupportedAccountValue string string
  | BadAccountIndex string string jsnum
  | BadAccountAddress string string string
  | UnrecognizedAccount string string string
  | VariableNotSet jsval
  | ConfigTypeError string
  | HookThrew string

record config_env =
  cv_env :: environment
  cv_home :: string
  cv_cwd :: string
  cv_stat :: stat_fn

definition variable_value :: "config_env \<Rightarrow> jsval \<Rightarrow> config_error + jsval" where
  "variable_value e v = (case resolveConfigVariable (cv_env e) v of Inl n \<Rightarrow> Inl (VariableNotSet n) | Inr r \<Rightarrow> Inr r)"

section \<open>Object literals\<close>

text \<open>\<^verbatim>\<open>Object.entries\<close> of an object, and \<^verbatim>\<open>{ ...base, ...patch }\<close>, where a patch that is no object adds nothing.\<close>

definition obj_entries :: "jsval \<Rightarrow> (string, jsval) omap" where
  "obj_entries v = (case v of JObj m \<Rightarrow> m | _ \<Rightarrow> [])"

definition spread2 :: "jsval \<Rightarrow> jsval \<Rightarrow> jsval" where
  "spread2 a b = JObj (om_spread (om_spread [] (obj_entries a)) (obj_entries b))"

definition obj_set :: "string \<Rightarrow> jsval \<Rightarrow> jsval \<Rightarrow> jsval" where
  "obj_set k v ob = JObj (om_set k v (obj_entries ob))"

text \<open>\<^verbatim>\<open>...(v !== undefined ? { [k]: f v } : {})\<close>\<close>

definition opt_field :: "string \<Rightarrow> jsval \<Rightarrow> (string, jsval) omap" where
  "opt_field k v = (if v = JUndef then [] else [(k, v)])"

definition as_path :: "jsval \<Rightarrow> config_error + string" where
  "as_path v = (case v of JStr s \<Rightarrow> Inr s | _ \<Rightarrow> Inl (ConfigTypeError ''path must be a string''))"

definition expandTilde :: "string \<Rightarrow> string \<Rightarrow> string" where
  "expandTilde home p = (if starts_with p ''~/'' then path_join [home, drop 2 p] else p)"

section \<open>Sections of the defaults\<close>

definition resolveSdkEgressConfig :: "jsval \<Rightarrow> jsval" where
  "resolveSdkEgressConfig config =
    (let egress = prop_of (prop_of config ''sdk'') ''egress'' in
     if \<not> js_truthy egress then JUndef
     else JObj ((if js_truthy (prop_of egress ''networkHosts'') then [(''networkHosts'', prop_of egress ''networkHosts'')] else [])
             @ (if js_truthy (prop_of egress ''violation'') then [(''violation'', prop_of egress ''violation'')] else [])))"

definition normalizeAleoKeyCachePath :: "string \<Rightarrow> string" where
  "normalizeAleoKeyCachePath p = (if path_basename p = ''.aleo'' then p else path_join [p, ''.aleo''])"

definition resolveSdkConfig :: "config_env \<Rightarrow> jsval \<Rightarrow> string \<Rightarrow> string \<Rightarrow> config_error + jsval" where
  "resolveSdkConfig e config projectRoot artifactsPath =
    (let keyCache = prop_of (prop_of config ''sdk'') ''keyCache'';
         logLevel = js_or (prop_of (prop_of config ''sdk'') ''logLevel'') (JStr ''warn'');
         storage = js_or (prop_of keyCache ''storage'') (JStr ''filesystem'');
         egress = resolveSdkEgressConfig config
     in if storage = JStr ''memory''
        then Inr (JObj ([(''logLevel'', logLevel), (''keyCache'', JObj [(''storage'', storage)])] @ opt_field ''egress'' egress))
        else bindR (as_path (js_or (prop_of keyCache ''path'') (JStr (path_join [artifactsPath, ''.cache'', ''provable-keys'']))))
          (\<lambda>rawPath. let expandedPath = expandTilde (cv_home e) rawPath;
               absolutePath = (if isAbsolute expandedPath then expandedPath else path_resolve (cv_cwd e) [projectRoot, expandedPath])
             in Inr (JObj ([(''logLevel'', logLevel),
                  (''keyCache'', JObj [(''storage'', storage), (''path'', JStr (normalizeAleoKeyCachePath absolutePath))])]
                @ opt_field ''egress'' egress))))"

definition js_object :: "jsval \<Rightarrow> bool" where
  "js_object v \<longleftrightarrow> (case v of JObj m \<Rightarrow> True | _ \<Rightarrow> False)"

definition string_fields :: "jsval \<Rightarrow> jsval" where
  "string_fields schema = JObj (filter (\<lambda>(k, v). js_typeof v = ''string'') (obj_entries schema))"

definition dynamic_record :: "string \<times> jsval \<Rightarrow> (string \<times> jsval) list" where
  "dynamic_record hv = (case hv of (helperName, helper) \<Rightarrow>
    if \<not> js_object helper then []
    else let sourceRecord = prop_of helper ''sourceRecord''; schema = prop_of helper ''schema'';
             sourceProgram = prop_of helper ''sourceProgram'' in
      if js_typeof sourceRecord \<noteq> ''string'' \<or> \<not> js_object schema then []
      else [(helperName, JObj ([(''helperName'', JStr helperName), (''sourceRecord'', sourceRecord)]
        @ (if js_typeof sourceProgram = ''string'' then [(''sourceProgram'', sourceProgram)] else [])
        @ [(''schema'', string_fields schema)]))])"

definition normalizeDynamicRecords :: "jsval \<Rightarrow> jsval" where
  "normalizeDynamicRecords raw =
    (if \<not> js_object raw then JObj [] else JObj (concat (map dynamic_record (obj_entries raw))))"

section \<open>Networks\<close>

definition resolveStringOrVariable :: "config_env \<Rightarrow> jsval \<Rightarrow> config_error + jsval" where
  "resolveStringOrVariable e value' =
    (if value' = JUndef then Inr JUndef
     else if js_typeof value' = ''string'' then Inr value'
     else if isConfigVariable value' then variable_value e value'
     else Inr JUndef)"

definition array_items :: "jsval \<Rightarrow> jsval list" where
  "array_items v = (case v of JArr xs \<Rightarrow> xs | _ \<Rightarrow> [])"

definition resolve_account :: "config_env \<Rightarrow> string \<Rightarrow> jsval list \<Rightarrow> nat \<times> jsval \<Rightarrow> config_error + jsval list" where
  "resolve_account e networkName acc ia =
    (case ia of (i, a) \<Rightarrow>
      bindR (resolveStringOrVariable e (prop_of a ''privateKey'')) (\<lambda>key.
        if \<not> js_truthy key then Inl (AccountKeyMissing networkName i)
        else Inr (acc @ [JObj [(''privateKey'', key), (''name'', prop_of a ''name'')]])))"

definition tilde_field :: "config_env \<Rightarrow> string \<Rightarrow> jsval \<Rightarrow> config_error + (string, jsval) omap" where
  "tilde_field e k v =
    (if v = JUndef then Inr [] else bindR (as_path v) (\<lambda>p. Inr [(k, JStr (expandTilde (cv_home e) p))]))"

definition resolveNetworkConfig :: "config_env \<Rightarrow> string \<Rightarrow> jsval \<Rightarrow> jsval \<Rightarrow> config_error + jsval" where
  "resolveNetworkConfig e networkName config deployEphemeral =
    (if prop_of config ''type'' = JStr ''devnode'' then
       bindR (foldR (resolve_account e networkName) [] (enumerate 0 (array_items (js_or (prop_of config ''accounts'') (JArr []))))) (\<lambda>accounts.
       bindR (resolveStringOrVariable e (prop_of config ''privateKey'')) (\<lambda>privateKey.
       bindR (tilde_field e ''binary'' (prop_of config ''binary'')) (\<lambda>binary.
       bindR (tilde_field e ''storagePath'' (prop_of config ''storagePath'')) (\<lambda>storagePath.
         Inr (JObj ([(''type'', JStr ''devnode''),
             (''socketAddr'', js_or (prop_of config ''socketAddr'') (JStr ''127.0.0.1:3030'')),
             (''autoBlock'', js_or (prop_of config ''autoBlock'') (JBool True)),
             (''verbosity'', js_or (prop_of config ''verbosity'') (jint 0)),
             (''accounts'', JArr accounts),
             (''genesisPath'', prop_of config ''genesisPath''),
             (''network'', js_or (prop_of config ''network'') (JStr ''testnet'')),
             (''privateKey'', privateKey),
             (''consensusHeights'', prop_of config ''consensusHeights'')]
           @ opt_field ''provider'' (prop_of config ''provider'') @ binary @ storagePath
           @ opt_field ''clearStorageOnStart'' (prop_of config ''clearStorageOnStart'')
           @ [(''ephemeral'', js_or (prop_of config ''ephemeral'') (js_or deployEphemeral (JBool True)))]
           @ opt_field ''deployBackend'' (prop_of config ''deployBackend'')))))))
     else if prop_of config ''type'' = JStr ''http'' then
       bindR (resolveStringOrVariable e (prop_of config ''privateKey'')) (\<lambda>privateKey.
       bindR (resolveStringOrVariable e (prop_of config ''apiKey'')) (\<lambda>apiKey.
         Inr (JObj ([(''type'', JStr ''http''),
             (''endpoint'', prop_of config ''endpoint''), (''network'', prop_of config ''network''),
             (''privateKey'', privateKey), (''apiKey'', apiKey),
             (''ephemeral'', js_or (prop_of config ''ephemeral'') (js_or deployEphemeral (JBool False)))]
           @ opt_field ''deployBackend'' (prop_of config ''deployBackend'')))))
     else Inl (UnknownNetworkType networkName (prop_of config ''type'')))"

section \<open>Named accounts\<close>

definition is_raw_value :: "jsval \<Rightarrow> bool" where
  "is_raw_value v \<longleftrightarrow> js_typeof v = ''number'' \<or> js_typeof v = ''string''"

definition resolveNamedAccountValue :: "config_env \<Rightarrow> string \<Rightarrow> string \<Rightarrow> jsval \<Rightarrow> config_error + jsval" where
  "resolveNamedAccountValue e accountName keyName value' =
    bindR (if is_raw_value value' then Inr value'
           else if isConfigVariable value' then variable_value e value'
           else Inl (UnsupportedAccountValue accountName keyName))
     (\<lambda>raw. case raw of
        JNum x \<Rightarrow> if js_isInteger raw \<and> (case x of Fin q \<Rightarrow> 0 \<le> q | _ \<Rightarrow> False)
                  then Inr (JObj [(''type'', JStr ''index''), (''index'', raw)])
                  else Inl (BadAccountIndex accountName keyName x)
      | JStr s \<Rightarrow>
          if starts_with s ''aleo1'' then
            (if isValidAleoAddress s then Inr (JObj [(''type'', JStr ''address''), (''address'', raw)])
             else Inl (BadAccountAddress accountName keyName s))
          else if starts_with s ''APrivateKey1'' then Inr (JObj [(''type'', JStr ''privateKey''), (''privateKey'', raw)])
          else Inl (UnrecognizedAccount accountName keyName s)
      | _ \<Rightarrow> Inl (ConfigTypeError ''startsWith is not a function''))"

definition account_network :: "config_env \<Rightarrow> string \<Rightarrow> (string, jsval) omap \<Rightarrow> string \<times> jsval \<Rightarrow> config_error + (string, jsval) omap" where
  "account_network e accountName networks kv =
    (case kv of (key, value') \<Rightarrow>
      if value' = JUndef then Inr networks
      else bindR (resolveNamedAccountValue e accountName key value') (\<lambda>resolvedValue.
        if key = ''default'' then Inr networks else Inr (om_set key resolvedValue networks)))"

definition resolve_named_account ::
    "config_env \<Rightarrow> (string, jsval) omap \<Rightarrow> string \<times> jsval \<Rightarrow> config_error + (string, jsval) omap" where
  "resolve_named_account e resolved na =
    (case na of (accountName, accountConfig) \<Rightarrow>
      bindR (foldR (account_network e accountName) [] (obj_entries accountConfig)) (\<lambda>networks.
      bindR (if prop_of accountConfig ''default'' \<noteq> JUndef
             then resolveNamedAccountValue e accountName ''default'' (prop_of accountConfig ''default'')
             else Inr JUndef) (\<lambda>defaultValue.
        Inr (om_set accountName (JObj [(''networks'', JObj networks), (''default'', defaultValue)]) resolved))))"

definition resolveNamedAccountsConfig :: "config_env \<Rightarrow> jsval \<Rightarrow> config_error + jsval" where
  "resolveNamedAccountsConfig e userNamedAccounts =
    bindR (foldR (resolve_named_account e) [] (obj_entries userNamedAccounts)) (\<lambda>resolved. Inr (JObj resolved))"

section \<open>Runtime imports\<close>

definition ref_key :: "runtime_import_ref \<Rightarrow> string" where
  "ref_key ref = (case ref of RefProgram p \<Rightarrow> p | RefPath p \<Rightarrow> p)"

definition ref_seen_key :: "runtime_import_ref \<Rightarrow> string" where
  "ref_seen_key ref = (case ref of RefProgram p \<Rightarrow> ''id:'' @ p | RefPath p \<Rightarrow> ''path:'' @ p)"

fun dedup_refs :: "string list \<Rightarrow> runtime_import_ref list \<Rightarrow> runtime_import_ref list" where
  "dedup_refs seen [] = []"
| "dedup_refs seen (ref # refs) =
    (if ref_seen_key ref \<in> set seen then dedup_refs seen refs else ref # dedup_refs (ref_seen_key ref # seen) refs)"

definition dedupAndSortRuntimeImports :: "runtime_import_ref list \<Rightarrow> runtime_import_ref list" where
  "dedupAndSortRuntimeImports refs = sort_key ref_key (dedup_refs [] refs)"

definition push_ref :: "config_env \<Rightarrow> string \<Rightarrow> jsval \<Rightarrow> runtime_import_ref list" where
  "push_ref e projectRoot raw =
    (case raw of
      JStr s \<Rightarrow> if length s = 0 then []
               else if classifyRuntimeImportRef s = KindInvalid then []
               else (case normalizeRuntimeImportRef (cv_cwd e) (cv_home e) s projectRoot of Inr r \<Rightarrow> [r] | Inl _ \<Rightarrow> [])
    | _ \<Rightarrow> [])"

definition add_import_entry ::
    "config_env \<Rightarrow> string \<Rightarrow> string \<times> jsval \<Rightarrow> (string, runtime_import_ref list) omap \<Rightarrow> (string, runtime_import_ref list) omap" where
  "add_import_entry e projectRoot kv byKey =
    (case kv of (rawKey, refs) \<Rightarrow>
      if \<not> isValidExecutionImportsMapKey rawKey then byKey
      else case refs of
        JArr xs \<Rightarrow>
          (let canonicalKey = normalizeProgramId rawKey;
               refList = (case om_get byKey canonicalKey of None \<Rightarrow> [] | Some l \<Rightarrow> l)
           in om_set canonicalKey (refList @ concat (map (push_ref e projectRoot) xs)) byKey)
      | _ \<Rightarrow> byKey)"

definition ref_value :: "runtime_import_ref \<Rightarrow> jsval" where
  "ref_value ref = (case ref of
      RefProgram p \<Rightarrow> JObj [(''kind'', JStr ''programId''), (''programId'', JStr p)]
    | RefPath p \<Rightarrow> JObj [(''kind'', JStr ''path''), (''absolutePath'', JStr p)])"

definition value_ref :: "jsval \<Rightarrow> runtime_import_ref" where
  "value_ref v = (if prop_of v ''kind'' = JStr ''path''
     then RefPath (case prop_of v ''absolutePath'' of JStr p \<Rightarrow> p | _ \<Rightarrow> [])
     else RefProgram (case prop_of v ''programId'' of JStr p \<Rightarrow> p | _ \<Rightarrow> []))"

definition resolve_imports :: "config_env \<Rightarrow> string \<Rightarrow> jsval \<Rightarrow> (string, runtime_import_ref list) omap" where
  "resolve_imports e projectRoot raw =
    map (\<lambda>(k, refs). (k, dedupAndSortRuntimeImports refs)) (fold (add_import_entry e projectRoot) (obj_entries raw) [])"

definition resolveExecutionConfig :: "config_env \<Rightarrow> jsval \<Rightarrow> string \<Rightarrow> jsval" where
  "resolveExecutionConfig e config projectRoot =
    JObj [(''imports'', JObj (map (\<lambda>(k, refs). (k, JArr (map ref_value refs)))
       (resolve_imports e projectRoot (prop_of (prop_of config ''execution'') ''imports''))))]"

section \<open>Defaults\<close>

definition resolve_networks :: "config_env \<Rightarrow> jsval \<Rightarrow> config_error + jsval" where
  "resolve_networks e config =
    (let userNetworks = obj_entries (js_or (prop_of config ''networks'') (JObj []));
         deployEphemeral = prop_of (prop_of config ''deploy'') ''ephemeral''
     in if length userNetworks = 0 then
          Inr (JObj [(''devnode'', JObj [(''type'', JStr ''devnode''), (''socketAddr'', JStr ''127.0.0.1:3030''),
            (''autoBlock'', JBool True), (''verbosity'', jint 0), (''accounts'', JArr []), (''network'', JStr ''testnet''),
            (''ephemeral'', js_or deployEphemeral (JBool True))])])
        else bindR (foldR (\<lambda>m (name, netConfig). bindR (resolveNetworkConfig e name netConfig deployEphemeral)
                (\<lambda>n. Inr (om_set name n m))) [] userNetworks) (\<lambda>m. Inr (JObj m)))"

definition default_deploy :: "jsval \<Rightarrow> string \<Rightarrow> jsval" where
  "default_deploy config deploymentsDir =
    (let d = prop_of config ''deploy'' in
     JObj [(''defaultPriorityFee'', js_or (prop_of d ''defaultPriorityFee'') (jint 0)),
       (''privateFee'', js_or (prop_of d ''privateFee'') (JBool False)),
       (''confirmTransactions'', js_or (prop_of d ''confirmTransactions'') (JBool True)),
       (''confirmationTimeout'', js_or (prop_of d ''confirmationTimeout'') (jint 60000)),
       (''deploymentsDir'', JStr deploymentsDir),
       (''skipDeployed'', js_or (prop_of d ''skipDeployed'') (JBool True)),
       (''interDeploymentDelay'', prop_of d ''interDeploymentDelay''),
       (''autoExport'', js_or (prop_of d ''autoExport'') (JBool False)),
       (''backend'', js_or (prop_of d ''backend'') (JStr ''sdk'')),
       (''leo'', JObj [(''timeout'', js_or (prop_of (prop_of d ''leo'') ''timeout'') (jint 1800000)),
         (''logMode'', js_or (prop_of (prop_of d ''leo'') ''logMode'') (JStr ''forward''))])])"

definition buildDefaults :: "config_env \<Rightarrow> jsval \<Rightarrow> string \<Rightarrow> config_error + jsval" where
  "buildDefaults e config projectRoot =
    (let compiler = prop_of config ''compiler''; codegen = prop_of config ''codegen''; testing = prop_of config ''testing'';
         dir = (\<lambda>parts. JStr (path_resolve (cv_cwd e) (projectRoot # parts)))
     in
     bindR (as_path (js_or (prop_of config ''programsDir'') (JStr ''programs''))) (\<lambda>programsDir.
     bindR (as_path (js_or (prop_of config ''artifactsDir'') (JStr ''artifacts''))) (\<lambda>artifactsDir.
     bindR (as_path (js_or (prop_of codegen ''outDir'') (js_or (prop_of config ''typechainDir'') (JStr ''typechain'')))) (\<lambda>codegenOutDir.
     bindR (as_path (js_or (prop_of (prop_of config ''deploy'') ''deploymentsDir'') (JStr ''deployments''))) (\<lambda>deploymentsDir.
     bindR (resolveSdkConfig e config projectRoot (path_resolve (cv_cwd e) [projectRoot, artifactsDir])) (\<lambda>sdk.
     bindR (resolve_networks e config) (\<lambda>networks.
     bindR (resolveNamedAccountsConfig e (js_or (prop_of config ''namedAccounts'') (JObj []))) (\<lambda>namedAccounts.
     bindR (as_path (js_or (prop_of config ''leoBinary'') (JStr ''leo''))) (\<lambda>leoBinary.
       Inr (JObj [(''leoVersion'', js_or (prop_of config ''leoVersion'') (JStr ''4.4.2'')),
         (''skipLeoVersionCheck'', js_or (prop_of config ''skipLeoVersionCheck'') (JBool False)),
         (''leoBinary'', JStr (expandTilde (cv_home e) leoBinary)),
         (''paths'', JObj [(''root'', JStr projectRoot), (''programs'', dir [programsDir]), (''artifacts'', dir [artifactsDir]),
            (''typechain'', dir [codegenOutDir]), (''cache'', dir [artifactsDir, ''.cache'']), (''deployments'', dir [deploymentsDir])]),
         (''networks'', networks),
         (''defaultNetwork'', js_or (prop_of config ''defaultNetwork'') (JStr ''devnode'')),
         (''compiler'', JObj [(''enableDce'', js_or (prop_of compiler ''enableDce'') (JBool True)),
            (''conditionalBlockMaxDepth'', js_or (prop_of compiler ''conditionalBlockMaxDepth'') (jint 10)),
            (''buildTests'', js_or (prop_of compiler ''buildTests'') (JBool False)),
            (''extraFlags'', js_or (prop_of compiler ''extraFlags'') (JArr []))]),
         (''codegen'', JObj [(''enabled'', js_or (prop_of codegen ''enabled'') (JBool True)),
            (''outDir'', JStr codegenOutDir), (''dynamicRecords'', normalizeDynamicRecords (prop_of codegen ''dynamicRecords''))]),
         (''testing'', JObj [(''framework'', js_or (prop_of testing ''framework'') (JStr ''vitest'')),
            (''timeout'', js_or (prop_of testing ''timeout'') (jint 120000)),
            (''autoStartDevnode'', js_or (prop_of testing ''autoStartDevnode'') (JBool True))]),
         (''deploy'', default_deploy config deploymentsDir),
         (''sdk'', sdk),
         (''execution'', resolveExecutionConfig e config projectRoot),
         (''namedAccounts'', namedAccounts)]))))))))))"

section \<open>Merging a plugin's partial\<close>

definition or_object :: "jsval \<Rightarrow> jsval" where
  "or_object v = js_or v (JObj [])"

definition mergeSdkConfig :: "jsval \<Rightarrow> jsval \<Rightarrow> jsval" where
  "mergeSdkConfig base partial =
    (let mergedKeyCache = spread2 (prop_of base ''keyCache'') (or_object (prop_of partial ''keyCache''))
     in obj_set ''keyCache'' (if prop_of mergedKeyCache ''storage'' = JStr ''memory''
            then JObj [(''storage'', JStr ''memory'')] else mergedKeyCache)
        (obj_set ''logLevel'' (js_or (prop_of partial ''logLevel'') (prop_of base ''logLevel''))
          (spread2 base (or_object partial))))"

definition merge_section :: "jsval \<Rightarrow> jsval \<Rightarrow> string \<Rightarrow> jsval" where
  "merge_section base partial k = spread2 (prop_of base k) (or_object (prop_of partial k))"

definition merge_imports :: "jsval \<Rightarrow> jsval \<Rightarrow> jsval" where
  "merge_imports base partial = JObj [(''imports'',
     spread2 (prop_of (prop_of base ''execution'') ''imports'') (or_object (prop_of (prop_of partial ''execution'') ''imports'')))]"

definition mergePartial :: "jsval \<Rightarrow> jsval option \<Rightarrow> config_error + jsval" where
  "mergePartial base partial =
    (case partial of
      None \<Rightarrow> Inl (ConfigTypeError ''Cannot read properties of undefined'')
    | Some p \<Rightarrow>
        if nullish p then Inl (ConfigTypeError ''Cannot read properties of null'')
        else Inr (fold (\<lambda>(k, v) ob. obj_set k v ob)
          [(''paths'', merge_section base p ''paths''), (''compiler'', merge_section base p ''compiler''),
           (''codegen'', merge_section base p ''codegen''), (''testing'', merge_section base p ''testing''),
           (''deploy'', merge_section base p ''deploy''), (''sdk'', mergeSdkConfig (prop_of base ''sdk'') (prop_of p ''sdk'')),
           (''execution'', merge_imports base p), (''networks'', merge_section base p ''networks''),
           (''namedAccounts'', merge_section base p ''namedAccounts'')] (spread2 base p)))"

section \<open>Validation\<close>

definition SDK_LOG_LEVELS :: "string list" where
  "SDK_LOG_LEVELS = [''silent'', ''error'', ''warn'', ''info'', ''debug'']"

definition validateSdkUserConfig :: "jsval \<Rightarrow> config_issue list" where
  "validateSdkUserConfig config =
    (let logLevel = prop_of (prop_of config ''sdk'') ''logLevel'' in
     if logLevel \<noteq> JUndef \<and> logLevel \<notin> set (map JStr SDK_LOG_LEVELS) then [BadLogLevel] else [])"

definition ref_issues :: "string \<Rightarrow> nat \<times> jsval \<Rightarrow> config_issue list" where
  "ref_issues key ir = (case ir of (i, raw) \<Rightarrow>
    (case raw of
      JStr s \<Rightarrow> if classifyRuntimeImportRef s = KindInvalid then [RefInvalid key i s] else []
    | _ \<Rightarrow> [RefNotString key i (js_typeof raw)]))"

definition import_entry_issues :: "string \<times> jsval \<Rightarrow> config_issue list" where
  "import_entry_issues kv = (case kv of (key, refs) \<Rightarrow>
    if \<not> isValidExecutionImportsMapKey key then [BadImportKey key]
    else case refs of
      JArr xs \<Rightarrow> if length xs = 0 then [ImportEmpty key] else concat (map (ref_issues key) (enumerate 0 xs))
    | _ \<Rightarrow> [ImportNotArray key])"

definition validateExecutionUserConfig :: "jsval \<Rightarrow> config_issue list" where
  "validateExecutionUserConfig config =
    (let imports = prop_of (prop_of config ''execution'') ''imports'' in
     if imports = JUndef then []
     else if \<not> js_object imports then [ImportsNotObject]
     else concat (map import_entry_issues (obj_entries imports)))"

definition resolved_ref_issues :: "config_env \<Rightarrow> string \<Rightarrow> nat \<times> jsval \<Rightarrow> config_issue list" where
  "resolved_ref_issues e key ir = (case ir of (i, ref) \<Rightarrow>
    (case checkRuntimeImportRefExists (cv_stat e) (value_ref ref) of None \<Rightarrow> [] | Some d \<Rightarrow> [ImportMissing key i d]))"

definition validateExecutionResolvedConfig :: "config_env \<Rightarrow> jsval \<Rightarrow> config_issue list" where
  "validateExecutionResolvedConfig e resolved =
    concat (map (\<lambda>(key, refs). concat (map (resolved_ref_issues e key) (enumerate 0 (array_items refs))))
      (obj_entries (prop_of (prop_of resolved ''execution'') ''imports'')))"

section \<open>The four stages\<close>

record 's config_hooks =
  ch_extendUserConfig :: "(jsval, 's) handler_fn list"
  ch_validateUserConfig :: "(jsval, 's) handler_fn list"
  ch_resolveConfig :: "(jsval, 's) handler_fn list"
  ch_validateResolvedConfig :: "(jsval, 's) handler_fn list"

text \<open>\<^verbatim>\<open>.flat().filter(Boolean)\<close>\<close>

definition plugin_issues :: "jsval option list \<Rightarrow> config_issue list" where
  "plugin_issues rs = map PluginIssue (filter js_truthy
     (concat (map (\<lambda>r. case r of None \<Rightarrow> [JUndef] | Some (JArr xs) \<Rightarrow> xs | Some v \<Rightarrow> [v]) rs)))"

definition resolveConfig ::
    "config_env \<Rightarrow> 's config_hooks \<Rightarrow> jsval \<Rightarrow> string \<Rightarrow> 's \<Rightarrow> (config_error + jsval \<times> jsval) \<times> 's" where
  "resolveConfig e hooks userConfig projectRoot s0 =
    (case waterfall_run (ch_extendUserConfig hooks) userConfig [] s0 of
      (Inl x, s1) \<Rightarrow> (Inl (HookThrew x), s1)
    | (Inr config, s1) \<Rightarrow>
      (case collect_run (ch_validateUserConfig hooks) config [] s1 of
        (Inl x, s2) \<Rightarrow> (Inl (HookThrew x), s2)
      | (Inr rs, s2) \<Rightarrow>
        let userErrors = validateSdkUserConfig config @ validateExecutionUserConfig config @ plugin_issues rs in
        if 0 < length userErrors then (Inl (UserConfigInvalid userErrors), s2)
        else case buildDefaults e config projectRoot of
          Inl x \<Rightarrow> (Inl x, s2)
        | Inr defaults \<Rightarrow>
          (case collect_run (ch_resolveConfig hooks) config [JFun ''resolvedVariable''] s2 of
            (Inl x, s3) \<Rightarrow> (Inl (HookThrew x), s3)
          | (Inr partials, s3) \<Rightarrow>
            (case foldR mergePartial defaults partials of
              Inl x \<Rightarrow> (Inl x, s3)
            | Inr resolved \<Rightarrow>
              (case collect_run (ch_validateResolvedConfig hooks) resolved [] s3 of
                (Inl x, s4) \<Rightarrow> (Inl (HookThrew x), s4)
              | (Inr rs', s4) \<Rightarrow>
                let resolvedErrors = validateExecutionResolvedConfig e resolved @ plugin_issues rs' in
                if 0 < length resolvedErrors then (Inl (ResolvedConfigInvalid resolvedErrors), s4)
                else (Inr (resolved, config), s4))))))"

section \<open>Runtime imports: facts\<close>

lemma ref_seen_key_inj: "ref_seen_key a = ref_seen_key b \<longleftrightarrow> a = b"
  by (cases a; cases b) (simp_all add: ref_seen_key_def)

lemma dedup_refs_set: "set (dedup_refs seen refs) = {r \<in> set refs. ref_seen_key r \<notin> set seen}"
  by (induction seen refs rule: dedup_refs.induct) (auto simp: ref_seen_key_inj)

lemma dedup_refs_distinct: "distinct (dedup_refs seen refs)"
  by (induction seen refs rule: dedup_refs.induct) (auto simp: dedup_refs_set)

lemma dedupAndSort_spec:
  "set (dedupAndSortRuntimeImports refs) = set refs" "distinct (dedupAndSortRuntimeImports refs)"
  "sorted (map ref_key (dedupAndSortRuntimeImports refs))"
  by (simp_all add: dedupAndSortRuntimeImports_def dedup_refs_set dedup_refs_distinct)

text \<open>The references an entry contributes to a canonical program id.\<close>

definition entry_refs :: "config_env \<Rightarrow> string \<Rightarrow> string \<Rightarrow> string \<times> jsval \<Rightarrow> runtime_import_ref set" where
  "entry_refs e projectRoot k kv = (case kv of (rawKey, v) \<Rightarrow>
     if isValidExecutionImportsMapKey rawKey \<and> normalizeProgramId rawKey = k
     then (case v of JArr xs \<Rightarrow> set (concat (map (push_ref e projectRoot) xs)) | _ \<Rightarrow> {}) else {})"

definition entry_counts :: "string \<Rightarrow> string \<times> jsval \<Rightarrow> bool" where
  "entry_counts k kv \<longleftrightarrow> isValidExecutionImportsMapKey (fst kv) \<and> normalizeProgramId (fst kv) = k \<and> (\<exists>xs. snd kv = JArr xs)"

lemma add_import_entry_get:
  "om_get (add_import_entry e pr kv byKey) k =
    (if entry_counts k kv
     then Some ((case om_get byKey k of None \<Rightarrow> [] | Some l \<Rightarrow> l) @ concat (map (push_ref e pr) (array_items (snd kv))))
     else om_get byKey k)"
  by (cases kv; cases "snd kv")
    (auto simp: add_import_entry_def entry_counts_def array_items_def om_get_set Let_def)

lemma fold_import_entries:
  "om_get (fold (add_import_entry e pr) kvs byKey) k =
    (if \<exists>kv \<in> set kvs. entry_counts k kv
     then Some ((case om_get byKey k of None \<Rightarrow> [] | Some l \<Rightarrow> l)
        @ concat (map (\<lambda>kv. concat (map (push_ref e pr) (array_items (snd kv)))) (filter (entry_counts k) kvs)))
     else om_get byKey k)"
proof (induction kvs arbitrary: byKey)
  case (Cons kv kvs)
  show ?case by (simp add: Cons.IH add_import_entry_get)
qed simp

lemma resolve_imports_get:
  "om_get (resolve_imports e pr (JObj m)) k =
    (if \<exists>kv \<in> set m. entry_counts k kv
     then Some (dedupAndSortRuntimeImports
        (concat (map (\<lambda>kv. concat (map (push_ref e pr) (array_items (snd kv)))) (filter (entry_counts k) m))))
     else None)"
proof -
  have "om_get (map (\<lambda>(k, refs). (k, f refs)) l) k = map_option f (om_get l k)" for f :: "runtime_import_ref list \<Rightarrow> runtime_import_ref list" and l
    by (induction l) auto
  then show ?thesis by (simp add: resolve_imports_def obj_entries_def fold_import_entries)
qed

text \<open>What a validated \<^verbatim>\<open>execution.imports\<close> holds.\<close>

lemma validated_imports:
  assumes "validateExecutionUserConfig config = []" and "prop_of (prop_of config ''execution'') ''imports'' = JObj m"
    and "(rawKey, v) \<in> set m"
  shows "isValidExecutionImportsMapKey rawKey \<and> (\<exists>xs. v = JArr xs \<and> xs \<noteq> []
     \<and> (\<forall>x \<in> set xs. \<exists>s. x = JStr s \<and> classifyRuntimeImportRef s \<noteq> KindInvalid))"
proof -
  have "import_entry_issues (rawKey, v) = []"
    using assms by (auto simp: validateExecutionUserConfig_def js_object_def obj_entries_def)
  then obtain xs where xs: "isValidExecutionImportsMapKey rawKey" "v = JArr xs" "xs \<noteq> []"
    and ok: "\<forall>ir \<in> set (enumerate 0 xs). ref_issues rawKey ir = []"
    by (cases v) (auto simp: import_entry_issues_def split: if_splits)
  have "\<exists>s. x = JStr s \<and> classifyRuntimeImportRef s \<noteq> KindInvalid" if "x \<in> set xs" for x
  proof -
    obtain i where "i < length xs" "xs ! i = x" using \<open>x \<in> set xs\<close> by (auto simp: in_set_conv_nth)
    then have "(i, x) \<in> set (enumerate 0 xs)" by (simp add: in_set_enumerate_eq)
    then have "ref_issues rawKey (i, x) = []" using ok by blast
    then show ?thesis by (cases x) (auto simp: ref_issues_def split: if_splits)
  qed
  then show ?thesis using xs by blast
qed

lemma push_ref_valid:
  assumes "classifyRuntimeImportRef s \<noteq> KindInvalid"
  shows "set (push_ref e pr (JStr s)) = {r. normalizeRuntimeImportRef (cv_cwd e) (cv_home e) s pr = Inr r}"
proof -
  have "s \<noteq> []" using assms by (auto simp: classifyRuntimeImportRef_def)
  then show ?thesis using assms by (auto simp: push_ref_def split: sum.split)
qed

lemma validated_imports_resolved:
  assumes valid: "validateExecutionUserConfig config = []" and m: "prop_of (prop_of config ''execution'') ''imports'' = JObj m"
    and k: "k = normalizeProgramId rawKey" and entry: "(rawKey, v) \<in> set m"
  shows "\<exists>refs. om_get (resolve_imports e pr (JObj m)) k = Some refs \<and> sorted (map ref_key refs) \<and> distinct refs
    \<and> (\<forall>r. r \<in> set refs \<longleftrightarrow> (\<exists>rk xs s. (rk, JArr xs) \<in> set m \<and> normalizeProgramId rk = k \<and> JStr s \<in> set xs
          \<and> normalizeRuntimeImportRef (cv_cwd e) (cv_home e) s pr = Inr r))"
proof -
  note val = validated_imports [OF valid m]
  let ?refs = "concat (map (\<lambda>kv. concat (map (push_ref e pr) (array_items (snd kv)))) (filter (entry_counts k) m))"
  have "entry_counts k (rawKey, v)" using val [OF entry] k by (auto simp: entry_counts_def)
  then have "om_get (resolve_imports e pr (JObj m)) k = Some (dedupAndSortRuntimeImports ?refs)"
    using entry by (auto simp: resolve_imports_get)
  moreover have "r \<in> set ?refs \<longleftrightarrow> (\<exists>rk xs s. (rk, JArr xs) \<in> set m \<and> normalizeProgramId rk = k \<and> JStr s \<in> set xs
          \<and> normalizeRuntimeImportRef (cv_cwd e) (cv_home e) s pr = Inr r)" (is "_ \<longleftrightarrow> ?R") for r
  proof
    assume "r \<in> set ?refs"
    then obtain rk v' x where kv: "(rk, v') \<in> set m" "entry_counts k (rk, v')" "x \<in> set (array_items v')" "r \<in> set (push_ref e pr x)"
      by auto
    then obtain xs where xs: "v' = JArr xs" "normalizeProgramId rk = k" by (auto simp: entry_counts_def)
    then obtain s where s: "x = JStr s" "classifyRuntimeImportRef s \<noteq> KindInvalid" "JStr s \<in> set xs"
      using val [OF kv(1)] kv(3) by (fastforce simp: array_items_def)
    then show ?R using kv xs push_ref_valid [OF s(2), of e pr] by auto
  next
    assume ?R
    then obtain rk xs s where r: "(rk, JArr xs) \<in> set m" "normalizeProgramId rk = k" "JStr s \<in> set xs"
      "normalizeRuntimeImportRef (cv_cwd e) (cv_home e) s pr = Inr r" by blast
    then have "entry_counts k (rk, JArr xs)" using val [OF r(1)] by (auto simp: entry_counts_def)
    moreover have "classifyRuntimeImportRef s \<noteq> KindInvalid" using val [OF r(1)] r(3) by auto
    then have "r \<in> set (push_ref e pr (JStr s))" using push_ref_valid r(4) by blast
    ultimately show "r \<in> set ?refs" using r(1,3) by (force simp: array_items_def)
  qed
  ultimately show ?thesis using dedupAndSort_spec [of ?refs] by blast
qed

section \<open>Layering of partials: facts\<close>

lemma prop_of_obj_set: "prop_of (obj_set k v ob) x = (if x = k then v else prop_of (JObj (obj_entries ob)) x)"
  by (simp add: obj_set_def js_get_set)

lemma obj_entries_obj_set [simp]: "obj_entries (obj_set k v ob) = om_set k v (obj_entries ob)"
  by (simp add: obj_set_def obj_entries_def)

lemma prop_of_entries: "prop_of v k = js_get (obj_entries v) k"
  by (cases v) (simp_all add: obj_entries_def js_get_def)

lemma prop_of_spread2:
  assumes "distinct (om_keys (obj_entries a))" and "distinct (om_keys (obj_entries b))"
  shows "prop_of (spread2 a b) k = (if om_has (obj_entries b) k then prop_of b k else prop_of a k)"
proof -
  let ?a = "obj_entries a" and ?b = "obj_entries b"
  have "prop_of (spread2 a b) k = (case om_get (om_spread (om_spread [] ?a) ?b) k of None \<Rightarrow> JUndef | Some v \<Rightarrow> v)"
    by (simp add: spread2_def js_get_def)
  moreover have "om_get (om_spread (om_spread [] ?a) ?b) k = (case om_get ?b k of None \<Rightarrow> om_get ?a k | v \<Rightarrow> v)"
    using om_get_spread [OF assms(2)] om_get_spread [OF assms(1), of "[]" k] by (simp split: option.split)
  ultimately show ?thesis unfolding prop_of_entries [of a] prop_of_entries [of b] js_get_def om_has_def
    by (cases "om_get ?b k") simp_all
qed

lemma distinct_spread2 [simp]: "distinct (om_keys (obj_entries (spread2 a b)))"
  by (simp add: spread2_def obj_entries_def [of "JObj _"])

lemma entries_or_object: "obj_entries (or_object v) = obj_entries v"
  by (cases v) (simp_all add: or_object_def js_or_def nullish_def obj_entries_def)

definition MERGED_SECTIONS :: "string list" where
  "MERGED_SECTIONS = [''paths'', ''compiler'', ''codegen'', ''testing'', ''deploy'', ''networks'', ''namedAccounts'']"

lemma mergePartial_section:
  assumes "mergePartial base (Some p) = Inr r" and "sec \<in> set MERGED_SECTIONS"
  shows "prop_of r sec = merge_section base p sec"
  using assms by (auto simp: mergePartial_def MERGED_SECTIONS_def prop_of_obj_set js_get_set obj_entries_def [of "JObj _"] split: if_splits)

lemma mergePartial_some: "mergePartial base partial = Inr r \<Longrightarrow> \<exists>p. partial = Some p"
  by (cases partial) (simp_all add: mergePartial_def)

definition supplies :: "string \<Rightarrow> string \<Rightarrow> jsval option \<Rightarrow> bool" where
  "supplies sec k partial \<longleftrightarrow> (case partial of None \<Rightarrow> False | Some p \<Rightarrow> om_has (obj_entries (prop_of p sec)) k)"

definition section_keys_distinct :: "string \<Rightarrow> jsval option \<Rightarrow> bool" where
  "section_keys_distinct sec partial \<longleftrightarrow>
    (case partial of None \<Rightarrow> True | Some p \<Rightarrow> distinct (om_keys (obj_entries (prop_of p sec))))"

lemma layered_section:
  assumes "foldR mergePartial base partials = Inr r" and "sec \<in> set MERGED_SECTIONS"
    and "distinct (om_keys (obj_entries (prop_of base sec)))" and "\<And>p. p \<in> set partials \<Longrightarrow> section_keys_distinct sec p"
  shows "prop_of (prop_of r sec) k = (case find (supplies sec k) (rev partials) of
      Some (Some p) \<Rightarrow> prop_of (prop_of p sec) k
    | _ \<Rightarrow> prop_of (prop_of base sec) k)"
  using assms
proof (induction partials arbitrary: base)
  case (Cons partial partials)
  then obtain b1 where step: "mergePartial base partial = Inr b1" and rest: "foldR mergePartial b1 partials = Inr r" by auto
  obtain p where p: "partial = Some p" using mergePartial_some [OF step] by blast
  have sec: "prop_of b1 sec = merge_section base p sec" using mergePartial_section step p Cons.prems(2) by blast
  have dist: "distinct (om_keys (obj_entries (prop_of p sec)))" using Cons.prems(4) [of partial] p by (simp add: section_keys_distinct_def)
  have b1: "prop_of (prop_of b1 sec) k = (if supplies sec k partial then prop_of (prop_of p sec) k else prop_of (prop_of base sec) k)"
    unfolding sec merge_section_def using prop_of_spread2 [OF Cons.prems(3), of "or_object (prop_of p sec)" k] dist
    by (simp add: p supplies_def entries_or_object prop_of_entries)
  have "distinct (om_keys (obj_entries (prop_of b1 sec)))" unfolding sec merge_section_def by simp
  from Cons.IH [OF rest Cons.prems(2) this Cons.prems(4)]
  have IH: "prop_of (prop_of r sec) k = (case find (supplies sec k) (rev partials) of
      Some (Some p) \<Rightarrow> prop_of (prop_of p sec) k | _ \<Rightarrow> prop_of (prop_of b1 sec) k)" by simp
  have find_app: "find P (xs @ ys) = (case find P xs of None \<Rightarrow> find P ys | Some x \<Rightarrow> Some x)" for P :: "jsval option \<Rightarrow> bool" and xs ys
    by (induction xs) auto
  show ?case
  proof (cases "find (supplies sec k) (rev partials)")
    case None
    then show ?thesis using IH b1 p by (simp add: find_app)
  next
    case (Some q)
    then have "supplies sec k q" by (metis find_Some_iff)
    then obtain q' where "q = Some q'" by (cases q) (simp_all add: supplies_def)
    then show ?thesis using IH Some by (simp add: find_app)
  qed
qed simp

section \<open>Named accounts: facts\<close>

definition account_value_ok :: "jsval \<Rightarrow> bool" where
  "account_value_ok v \<longleftrightarrow>
     (\<exists>i. v = JObj [(''type'', JStr ''index''), (''index'', jint (int i))])
   \<or> (\<exists>s. v = JObj [(''type'', JStr ''address''), (''address'', JStr s)] \<and> isValidAleoAddress s)
   \<or> (\<exists>s. v = JObj [(''type'', JStr ''privateKey''), (''privateKey'', JStr s)] \<and> starts_with s ''APrivateKey1'')"

lemma nonneg_integer: "js_isInteger (JNum (Fin q)) \<Longrightarrow> 0 \<le> q \<Longrightarrow> \<exists>i :: nat. q = of_int (int i)"
proof -
  assume q: "js_isInteger (JNum (Fin q))" "0 \<le> q"
  then have "0 \<le> \<lfloor>q\<rfloor>" by simp
  then obtain i where "\<lfloor>q\<rfloor> = int i" using zero_le_imp_eq_int by blast
  then show ?thesis using q by (metis js_isInteger.simps(1))
qed

lemma resolveNamedAccountValue_ok:
  assumes "resolveNamedAccountValue e a k v = Inr r"
  shows "account_value_ok r"
proof -
  obtain raw where raw: "(case raw of
        JNum x \<Rightarrow> if js_isInteger raw \<and> (case x of Fin q \<Rightarrow> 0 \<le> q | _ \<Rightarrow> False)
                  then Inr (JObj [(''type'', JStr ''index''), (''index'', raw)]) else Inl (BadAccountIndex a k x)
      | JStr s \<Rightarrow> if starts_with s ''aleo1'' then
            (if isValidAleoAddress s then Inr (JObj [(''type'', JStr ''address''), (''address'', raw)])
             else Inl (BadAccountAddress a k s))
          else if starts_with s ''APrivateKey1'' then Inr (JObj [(''type'', JStr ''privateKey''), (''privateKey'', raw)])
          else Inl (UnrecognizedAccount a k s)
      | _ \<Rightarrow> Inl (ConfigTypeError ''startsWith is not a function'')) = Inr r"
    using assms by (auto simp: resolveNamedAccountValue_def)
  show ?thesis
  proof (cases raw)
    case (JNum x)
    then obtain q where q: "x = Fin q" "js_isInteger raw" "0 \<le> q" "r = JObj [(''type'', JStr ''index''), (''index'', raw)]"
      using raw by (auto split: if_splits jsnum.splits)
    then show ?thesis using nonneg_integer [of q] JNum by (auto simp: account_value_ok_def)
  next
    case (JStr s)
    then show ?thesis using raw by (auto simp: account_value_ok_def split: if_splits)
  qed (use raw in auto)
qed

definition network_values_ok :: "(string, jsval) omap \<Rightarrow> bool" where
  "network_values_ok networks \<longleftrightarrow> (\<forall>(k, v) \<in> set networks. k \<noteq> ''default'' \<and> account_value_ok v)"

lemma account_network_ok:
  assumes "account_network e a networks kv = Inr networks'" and "network_values_ok networks"
  shows "network_values_ok networks'"
proof -
  obtain k v where kv: "kv = (k, v)" by fastforce
  show ?thesis
  proof (cases "v = JUndef \<or> k = ''default''")
    case True
    then show ?thesis using assms kv by (auto simp: account_network_def split: if_splits)
  next
    case False
    then obtain r where "resolveNamedAccountValue e a k v = Inr r" "networks' = om_set k r networks"
      using assms(1) kv by (auto simp: account_network_def)
    then show ?thesis using assms(2) False resolveNamedAccountValue_ok set_om_set [of k r networks]
      unfolding network_values_ok_def by fastforce
  qed
qed

definition account_entry_ok :: "jsval \<Rightarrow> bool" where
  "account_entry_ok v \<longleftrightarrow> (\<exists>networks d. v = JObj [(''networks'', JObj networks), (''default'', d)]
     \<and> network_values_ok networks \<and> (d = JUndef \<or> account_value_ok d))"

lemma resolve_named_account_ok:
  assumes "resolve_named_account e m na = Inr m'" and "\<forall>(k, v) \<in> set m. account_entry_ok v"
  shows "(\<forall>(k, v) \<in> set m'. account_entry_ok v) \<and> set (om_keys m') = insert (fst na) (set (om_keys m))"
proof -
  obtain name cfg where na: "na = (name, cfg)" by fastforce
  obtain networks d where nets: "foldR (account_network e name) [] (obj_entries cfg) = Inr networks"
    and d: "(if prop_of cfg ''default'' \<noteq> JUndef then resolveNamedAccountValue e name ''default'' (prop_of cfg ''default'')
       else Inr JUndef) = Inr d"
    and m': "m' = om_set name (JObj [(''networks'', JObj networks), (''default'', d)]) m"
    using assms(1) by (auto simp: resolve_named_account_def na)
  have "network_values_ok networks"
    by (rule foldR_invariant [OF nets]) (simp add: network_values_ok_def, erule account_network_ok)
  moreover have "d = JUndef \<or> account_value_ok d" using d resolveNamedAccountValue_ok by (auto split: if_splits)
  ultimately have new: "account_entry_ok (JObj [(''networks'', JObj networks), (''default'', d)])"
    by (auto simp: account_entry_ok_def)
  have "account_entry_ok x" if "(k, x) \<in> set m'" for k x
  proof -
    have "(k, x) = (name, JObj [(''networks'', JObj networks), (''default'', d)]) \<or> (k, x) \<in> set m"
      using that set_om_set [of name _ m] unfolding m' by blast
    then show ?thesis using new assms(2) by auto
  qed
  moreover have "set (om_keys m') = insert name (set (om_keys m))" unfolding m' om_keys_set by auto
  ultimately show ?thesis by (auto simp: na)
qed

lemma named_accounts_lemma:
  assumes "resolveNamedAccountsConfig e v = Inr r"
  shows "\<exists>m. r = JObj m \<and> set (om_keys m) = set (om_keys (obj_entries v)) \<and> (\<forall>(k, x) \<in> set m. account_entry_ok x)"
proof -
  obtain m where fold: "foldR (resolve_named_account e) [] (obj_entries v) = Inr m" and r: "r = JObj m"
    using assms by (auto simp: resolveNamedAccountsConfig_def)
  have "foldR (resolve_named_account e) m0 es = Inr m \<Longrightarrow> \<forall>(k, x) \<in> set m0. account_entry_ok x \<Longrightarrow>
      set (om_keys m) = set (om_keys m0) \<union> set (om_keys es) \<and> (\<forall>(k, x) \<in> set m. account_entry_ok x)" for es m0
  proof (induction es arbitrary: m0)
    case (Cons x es)
    then obtain m1 where "resolve_named_account e m0 x = Inr m1" "foldR (resolve_named_account e) m1 es = Inr m" by auto
    then show ?case using Cons.IH [of m1] Cons.prems(2) resolve_named_account_ok [of e m0 x m1] by auto
  qed simp
  from this [OF fold] show ?thesis using r by auto
qed

section \<open>Properties\<close>

text \<open>
  With a valid \<^verbatim>\<open>execution.imports\<close> no reference is lost and none is invented: under every
  canonical program id stand, sorted and without duplicates, exactly the normal forms of the
  references given under any spelling of that id.
\<close>

theorem imports_resolved_exactly:
  assumes "validateExecutionUserConfig config = []" and "prop_of (prop_of config ''execution'') ''imports'' = JObj m"
    and "(rawKey, v) \<in> set m"
  shows "\<exists>refs. om_get (resolve_imports e pr (JObj m)) (normalizeProgramId rawKey) = Some refs
    \<and> sorted (map ref_key refs) \<and> distinct refs
    \<and> (\<forall>r. r \<in> set refs \<longleftrightarrow> (\<exists>rk xs s. (rk, JArr xs) \<in> set m \<and> normalizeProgramId rk = normalizeProgramId rawKey
          \<and> JStr s \<in> set xs \<and> normalizeRuntimeImportRef (cv_cwd e) (cv_home e) s pr = Inr r))"
  using validated_imports_resolved [OF assms(1,2) refl assms(3)] .

definition ex_env :: config_env where
  "ex_env = \<lparr>cv_env = (\<lambda>n. if n = ''K'' then Some ''APrivateKey1x'' else None), cv_home = ''/h'', cv_cwd = ''/w'',
     cv_stat = (\<lambda>p. Some True)\<rparr>"

definition ex_imports :: "(string, jsval) omap" where
  "ex_imports = [(''gov'', JArr [JStr ''b'', JStr ''a'']), (''gov.aleo'', JArr [JStr ''a.aleo'', JStr ''~/x''])]"

definition ex_config :: jsval where
  "ex_config = JObj [(''execution'', JObj [(''imports'', JObj ex_imports)])]"

theorem imports_resolved_exactly_witness:
  "\<exists>refs. om_get (resolve_imports ex_env ''/p'' (JObj ex_imports)) ''gov.aleo'' = Some refs \<and> distinct refs"
proof -
  have valid: "validateExecutionUserConfig ex_config = []" by code_simp
  have raw: "prop_of (prop_of ex_config ''execution'') ''imports'' = JObj ex_imports"
    by (simp add: ex_config_def js_get_def)
  have entry: "(''gov'', JArr [JStr ''b'', JStr ''a'']) \<in> set ex_imports" by (simp add: ex_imports_def)
  have "normalizeProgramId ''gov'' = ''gov.aleo''" by code_simp
  then show ?thesis using imports_resolved_exactly [OF valid raw entry, of ex_env "''/p''"] by fastforce
qed

text \<open>
  A config that is returned went through all four stages in order: it is the defaults of the
  extended user config with the partials of the plugins merged over them, both user validations
  found nothing, and every local file its runtime imports name is a regular file.
\<close>

theorem resolved_config_checked:
  assumes "resolveConfig e hooks userConfig projectRoot s = (Inr (resolved, config), s')"
  shows "validateSdkUserConfig config = [] \<and> validateExecutionUserConfig config = []
    \<and> (\<exists>defaults partials. buildDefaults e config projectRoot = Inr defaults \<and> foldR mergePartial defaults partials = Inr resolved)
    \<and> (\<forall>key refs p. (key, JArr refs) \<in> set (obj_entries (prop_of (prop_of resolved ''execution'') ''imports''))
          \<and> RefPath p \<in> value_ref ` set refs \<longrightarrow> cv_stat e p = Some True)"
proof -
  obtain defaults partials where user: "validateSdkUserConfig config @ validateExecutionUserConfig config = []"
    and built: "buildDefaults e config projectRoot = Inr defaults" "foldR mergePartial defaults partials = Inr resolved"
    and valid: "validateExecutionResolvedConfig e resolved = []"
    using assms by (auto simp: resolveConfig_def Let_def split: prod.splits sum.splits if_splits)
  have "cv_stat e p = Some True"
    if "(key, JArr refs) \<in> set (obj_entries (prop_of (prop_of resolved ''execution'') ''imports''))"
      and "RefPath p \<in> value_ref ` set refs" for key refs p
  proof -
    obtain i where i: "i < length refs" "value_ref (refs ! i) = RefPath p"
      using \<open>RefPath p \<in> value_ref ` set refs\<close> by (auto simp: in_set_conv_nth)
    then have "(i, refs ! i) \<in> set (enumerate 0 refs)" by (simp add: in_set_enumerate_eq)
    then have "resolved_ref_issues e key (i, refs ! i) = []"
      using valid \<open>(key, JArr refs) \<in> _\<close> by (fastforce simp: validateExecutionResolvedConfig_def array_items_def)
    then show ?thesis using i
      by (auto simp: resolved_ref_issues_def checkRuntimeImportRefExists_def split: option.splits if_splits)
  qed
  then show ?thesis using user built by blast
qed

definition ex_hooks :: "unit config_hooks" where
  "ex_hooks = \<lparr>ch_extendUserConfig = [\<lambda>vs s. (Inr None, s)], ch_validateUserConfig = [\<lambda>vs s. (Inr (Some (JArr [])), s)],
     ch_resolveConfig = [\<lambda>vs s. (Inr (Some (JObj [])), s)], ch_validateResolvedConfig = []\<rparr>"

lemma returned_config: "\<not> isl (fst r) \<Longrightarrow> snd (projr (fst r)) = c \<Longrightarrow> r = (Inr (fst (projr (fst r)), c), snd r)"
  by (cases r; cases "fst r") auto

theorem resolved_config_checked_witness:
  "\<exists>defaults partials. buildDefaults ex_env (JObj []) ''/p'' = Inr defaults
     \<and> foldR mergePartial defaults partials = Inr (fst (projr (fst (resolveConfig ex_env ex_hooks (JObj []) ''/p'' ()))))"
proof -
  let ?r = "resolveConfig ex_env ex_hooks (JObj []) ''/p'' ()"
  have "\<not> isl (fst ?r)" and "snd (projr (fst ?r)) = JObj []" by code_simp+
  from resolved_config_checked [OF returned_config [OF this]] show ?thesis by blast
qed

text \<open>
  Plugin partials are layered: in every merged section a key has the value of the last partial
  that supplies it, and the default's where none does; no partial drops a key.
\<close>

theorem partials_layered:
  assumes "foldR mergePartial base partials = Inr r" and "sec \<in> set MERGED_SECTIONS"
    and "distinct (om_keys (obj_entries (prop_of base sec)))" and "\<And>p. p \<in> set partials \<Longrightarrow> section_keys_distinct sec p"
  shows "prop_of (prop_of r sec) k = (case find (supplies sec k) (rev partials) of
      Some (Some p) \<Rightarrow> prop_of (prop_of p sec) k
    | _ \<Rightarrow> prop_of (prop_of base sec) k)"
  using layered_section [OF assms] .

theorem partials_layered_witness:
  "prop_of (prop_of (projr (foldR mergePartial (JObj [(''deploy'', JObj [(''a'', jint 1), (''b'', jint 2)])])
       [Some (JObj [(''deploy'', JObj [(''a'', jint 3)])]), Some (JObj [])])) ''deploy'') ''a'' = jint 3"
proof -
  let ?b = "JObj [(''deploy'', JObj [(''a'', jint 1), (''b'', jint 2)])]"
  let ?ps = "[Some (JObj [(''deploy'', JObj [(''a'', jint 3)])]), Some (JObj [])]"
  have "\<not> isl (foldR mergePartial ?b ?ps)" by code_simp
  then have "foldR mergePartial ?b ?ps = Inr (projr (foldR mergePartial ?b ?ps))" by simp
  moreover have "''deploy'' \<in> set MERGED_SECTIONS" by (simp add: MERGED_SECTIONS_def)
  moreover have "\<And>p. p \<in> set ?ps \<Longrightarrow> section_keys_distinct ''deploy'' p"
    by (auto simp: section_keys_distinct_def obj_entries_def js_get_def)
  moreover have "distinct (om_keys (obj_entries (prop_of ?b ''deploy'')))" by code_simp
  moreover have "find (supplies ''deploy'' ''a'') (rev ?ps) = Some (Some (JObj [(''deploy'', JObj [(''a'', jint 3)])]))"
    by (simp add: supplies_def obj_entries_def js_get_def om_has_def)
  ultimately show ?thesis
    using partials_layered [of ?b ?ps "projr (foldR mergePartial ?b ?ps)" "''deploy''" "''a''"] by (simp add: js_get_def)
qed

text \<open>
  C38: resolved named accounts are well typed: the same names as configured, no network called
  \<^verbatim>\<open>default\<close>, and every value a non-negative integer index, a well-formed address or a string that
  starts like a private key; any other value is an error.
\<close>

theorem named_accounts_typed:
  assumes "resolveNamedAccountsConfig e v = Inr r"
  shows "\<exists>m. r = JObj m \<and> set (om_keys m) = set (om_keys (obj_entries v)) \<and> (\<forall>(k, x) \<in> set m. account_entry_ok x)"
  using named_accounts_lemma [OF assms] .

theorem named_accounts_typed_witness:
  "\<exists>m. projr (resolveNamedAccountsConfig ex_env (JObj [(''admin'', JObj [(''default'', jint 0), (''live'', configVariable ''K'' JUndef)])]))
      = JObj m \<and> set (om_keys m) = {''admin''}"
proof -
  let ?v = "JObj [(''admin'', JObj [(''default'', jint 0), (''live'', configVariable ''K'' JUndef)])]"
  have "\<not> isl (resolveNamedAccountsConfig ex_env ?v)" by code_simp
  then have "resolveNamedAccountsConfig ex_env ?v = Inr (projr (resolveNamedAccountsConfig ex_env ?v))" by simp
  from named_accounts_typed [OF this] show ?thesis by (auto simp: obj_entries_def)
qed

text \<open>
  The named-account contract is checked as a whole: \<^verbatim>\<open>require\<close> succeeds exactly when every role
  is met, with exactly the accounts of the specification, and otherwise reports every failure in
  the order of the specification.
\<close>

theorem require_checks_contract:
  assumes "distinct (om_keys spec)"
  shows "case requireSpec accounts networkName spec of
      Inl err \<Rightarrow> err = ContractFailed networkName (spec_failures accounts spec) \<and> spec_failures accounts spec \<noteq> []
    | Inr result \<Rightarrow> \<forall>n. case om_get spec n of
          None \<Rightarrow> om_get result n = None
        | Some role \<Rightarrow> \<exists>a. om_get result n = Some a \<and> role_met accounts n role a"
proof -
  obtain fs m where run: "fold (require_step accounts) spec ([], []) = (fs, m)" by fastforce
  note r = require_fold [OF run assms]
  have none: "getRoleFailure accounts n role = None" if "fs = []" "om_get spec n = Some role" for n role
  proof (rule ccontr)
    assume "getRoleFailure accounts n role \<noteq> None"
    then obtain f where "getRoleFailure accounts n role = Some f" by blast
    then have "f \<in> set (spec_failures accounts spec)"
      using map_of_SomeD [OF that(2)] by (force simp: spec_failures_def List.map_filter_def)
    then show False using r that(1) by simp
  qed
  show ?thesis
  proof (cases "fs = []")
    case True
    then have "\<forall>n. case om_get spec n of None \<Rightarrow> om_get m n = None
        | Some role \<Rightarrow> \<exists>a. om_get m n = Some a \<and> role_met accounts n role a"
      using r none no_role_failure by (fastforce simp: role_met_def split: option.split)
    then show ?thesis using True run by (simp add: requireSpec_def)
  next
    case False
    then show ?thesis using r run by (simp add: requireSpec_def)
  qed
qed

theorem require_checks_contract_witness:
  "requireSpec [(''t'', AddressOnly \<lparr>aa_name = ''t'', aa_address = ''aleo1x''\<rparr>)] ''devnode'' [(''t'', RoleSigner), (''d'', RoleAddress)]
    = Inl (ContractFailed ''devnode'' (spec_failures [(''t'', AddressOnly \<lparr>aa_name = ''t'', aa_address = ''aleo1x''\<rparr>)]
        [(''t'', RoleSigner), (''d'', RoleAddress)]))"
proof -
  let ?a = "[(''t'', AddressOnly \<lparr>aa_name = ''t'', aa_address = ''aleo1x''\<rparr>)]" and ?s = "[(''t'', RoleSigner), (''d'', RoleAddress)]"
  have "isl (requireSpec ?a ''devnode'' ?s)" by code_simp
  then obtain err where "requireSpec ?a ''devnode'' ?s = Inl err" by (auto simp: isl_def)
  then show ?thesis using require_checks_contract [where spec = ?s and accounts = ?a and networkName = "''devnode''"] by simp
qed

text \<open>An address has 63 characters, not the 64 the comment above its test states.\<close>

lemma address_length: "isValidAleoAddress a \<Longrightarrow> length a = 63"
  by (simp add: isValidAleoAddress_def)

end
