(* ===== verification/Abi.thy ===== *)
theory Abi imports Values begin

text \<open>
  The ABI parser and the canonical form that is hashed (\<^verbatim>\<open>leo-compiler/src/abi-parser.ts\<close>,
  \<^verbatim>\<open>abi-hash.ts\<close>). A parsed ABI is the plain object it is at run time, with its keys in order, so
  that what is written to a snapshot and hashed is visible. \<^verbatim>\<open>JSON.parse\<close> is outside: the parser
  starts from its value, or from nothing where the text is no JSON. How a double that is no
  integer prints is an argument, and so is SHA-256.
\<close>

section \<open>JavaScript values\<close>

text \<open>\<^verbatim>\<open>k in v\<close> for an object, and \<^verbatim>\<open>typeof v === "object" && v !== null\<close>\<close>

definition in_obj :: "string \<Rightarrow> jsval \<Rightarrow> bool" where
  "in_obj k v = (case v of JObj m \<Rightarrow> om_has m k | _ \<Rightarrow> False)"

definition is_object :: "jsval \<Rightarrow> bool" where
  "is_object v = (case v of JObj m \<Rightarrow> True | JArr xs \<Rightarrow> True | _ \<Rightarrow> False)"

lemma is_object_simps [simp]:
  "is_object (JObj m)" "is_object (JArr xs)" "\<not> is_object JUndef" "\<not> is_object JNull" "\<not> is_object (JBool b)"
  "\<not> is_object (JNum x)" "\<not> is_object (JBig i)" "\<not> is_object (JStr s)" "\<not> is_object (JFun f)"
  by (simp_all add: is_object_def)

definition js_nth :: "jsval list \<Rightarrow> nat \<Rightarrow> jsval" where
  "js_nth xs i = (if i < length xs then xs ! i else JUndef)"

text \<open>\<^verbatim>\<open>String(v)\<close>; \<open>ft\<close> prints the numbers that are no integers.\<close>

lemma size_js_entry [termination_simp]: "(k, v) \<in> set m \<Longrightarrow> size v < Suc (size_list (size_prod (\<lambda>_. 0) size) m)"
  by (induction m) auto

fun js_String :: "(jsnum \<Rightarrow> string) \<Rightarrow> jsval \<Rightarrow> string" where
  "js_String ft JUndef = ''undefined''"
| "js_String ft JNull = ''null''"
| "js_String ft (JBool b) = (if b then ''true'' else ''false'')"
| "js_String ft (JNum x) = (case x of Fin q \<Rightarrow> if of_int \<lfloor>q\<rfloor> = q then int_str \<lfloor>q\<rfloor> else ft x | _ \<Rightarrow> ft x)"
| "js_String ft (JBig i) = int_str i"
| "js_String ft (JStr s) = s"
| "js_String ft (JArr xs) = concat (case map (\<lambda>x. if x = JUndef \<or> x = JNull then [] else js_String ft x) xs of
      [] \<Rightarrow> [] | y # ys \<Rightarrow> y # map (\<lambda>z. CHR '','' # z) ys)"
| "js_String ft (JObj m) = ''[object Object]''"
| "js_String ft (JFun f) = f"

section \<open>References\<close>

datatype abi_error = InvalidJson | AbiNotObject | MissingProgram | NotAnArray string | MissingPath
  | TransitionInvalid string | ViewInvalid string | AbiTypeError string

definition or_null :: "jsval \<Rightarrow> jsval" where
  "or_null v = (if v = JUndef then JNull else v)"

definition canonicalizeRefProgram :: "jsval \<Rightarrow> string \<Rightarrow> jsval" where
  "canonicalizeRefProgram program' programId = (if program' = JStr programId then JNull else program')"

definition full_ref :: "jsval \<Rightarrow> string \<Rightarrow> jsval option" where
  "full_ref raw programId = (case prop_of raw ''path'' of
      JArr path \<Rightarrow> Some (JObj [(''path'', JArr path), (''program'', canonicalizeRefProgram (or_null (prop_of raw ''program'')) programId)])
    | _ \<Rightarrow> None)"

definition name_ref :: "string \<Rightarrow> jsval" where
  "name_ref name = JObj [(''path'', JArr [JStr name]), (''program'', JNull)]"

definition toStructRef :: "(jsnum \<Rightarrow> string) \<Rightarrow> jsval \<Rightarrow> string \<Rightarrow> jsval" where
  "toStructRef ft raw programId =
    (case full_ref raw programId of
      Some r \<Rightarrow> r
    | None \<Rightarrow> (case raw of JStr s \<Rightarrow> name_ref s | _ \<Rightarrow> name_ref (js_String ft raw)))"

definition toRecordRef :: "(jsnum \<Rightarrow> string) \<Rightarrow> jsval \<Rightarrow> string \<Rightarrow> jsval" where
  "toRecordRef ft raw programId =
    (case full_ref raw programId of
      Some r \<Rightarrow> r
    | None \<Rightarrow> (case raw of JStr s \<Rightarrow> name_ref s | _ \<Rightarrow> name_ref (js_String ft raw)))"

section \<open>Types\<close>

lemma size_prop_of: "size (prop_of v k) \<le> size v" "in_obj k v \<Longrightarrow> size (prop_of v k) < size v"
proof -
  have "size x < size (JObj m)" if "om_get m k = Some x" for m x
    using size_js_entry [OF map_of_SomeD [OF that]] by simp
  then show "size (prop_of v k) \<le> size v" "in_obj k v \<Longrightarrow> size (prop_of v k) < size v"
    by (cases v; auto simp: js_get_def in_obj_def om_has_def less_imp_le split: option.splits)+
qed

lemma size_js_nth: "size (js_nth xs i) < size (JArr xs)"
proof -
  have "x \<in> set xs \<Longrightarrow> size x < size (JArr xs)" for x by (induction xs) auto
  then show ?thesis by (simp add: js_nth_def)
qed

function normalizePlaintext :: "(jsnum \<Rightarrow> string) \<Rightarrow> string \<Rightarrow> jsval \<Rightarrow> jsval" where
  "normalizePlaintext ft programId raw =
    (if \<not> is_object raw then raw
     else if in_obj ''Struct'' raw then JObj [(''Struct'', toStructRef ft (prop_of raw ''Struct'') programId)]
     else if in_obj ''Array'' raw \<and> is_object (prop_of raw ''Array'') then
       (case prop_of raw ''Array'' of
         JArr xs \<Rightarrow> JObj [(''Array'', JArr [normalizePlaintext ft programId (js_nth xs 0), js_nth xs 1])]
       | arr \<Rightarrow> JObj [(''Array'', JArr [normalizePlaintext ft programId (prop_of arr ''element''), prop_of arr ''length''])])
     else if in_obj ''Optional'' raw then JObj [(''Optional'', normalizePlaintext ft programId (prop_of raw ''Optional''))]
     else raw)"
  by pat_completeness auto
termination
proof (relation "measure (\<lambda>(ft, pid, raw). size raw)")
  have dec: "size (prop_of (prop_of raw k) j) < size raw" if "in_obj k raw" for raw k j
    using size_prop_of(1) [of "prop_of raw k" j] size_prop_of(2) [OF that] by (rule le_less_trans)
  show "((ft, programId, js_nth xs 0), ft, programId, raw) \<in> measure (\<lambda>(ft, pid, raw). size raw)"
    if "in_obj ''Array'' raw \<and> is_object (prop_of raw ''Array'')" "prop_of raw ''Array'' = JArr xs" for ft programId raw xs
    using that size_prop_of(2) [of "''Array''" raw] size_js_nth [of xs 0] by simp
  show "((ft, programId, prop_of raw ''Optional''), ft, programId, raw) \<in> measure (\<lambda>(ft, pid, raw). size raw)"
    if "in_obj ''Optional'' raw" for ft programId raw
    using that size_prop_of(2) by simp
  show "((ft, programId, prop_of (JObj m) ''element''), ft, programId, raw) \<in> measure (\<lambda>(ft, pid, raw). size raw)"
    if "in_obj ''Array'' raw \<and> is_object (prop_of raw ''Array'')" "prop_of raw ''Array'' = JObj m" for ft programId raw m
    using that dec [of "''Array''" raw "''element''"] by simp
qed (simp_all add: is_object_def)

declare normalizePlaintext.simps [simp del]

definition normalizeAleoType :: "(jsnum \<Rightarrow> string) \<Rightarrow> string \<Rightarrow> jsval \<Rightarrow> jsval" where
  "normalizeAleoType ft programId raw =
    (if raw = JStr ''Final'' \<or> raw = JStr ''Future'' then JObj [(''Future'', JStr programId)]
     else if raw = JStr ''DynamicRecord'' then JStr ''DynamicRecord''
     else if \<not> is_object raw then raw
     else if in_obj ''Record'' raw then JObj [(''Record'', toRecordRef ft (prop_of raw ''Record'') programId)]
     else if in_obj ''Future'' raw then JObj [(''Future'', prop_of raw ''Future'')]
     else if in_obj ''Plaintext'' raw then JObj [(''Plaintext'', normalizePlaintext ft programId (prop_of raw ''Plaintext''))]
     else raw)"

function normalizeStorageType :: "(jsnum \<Rightarrow> string) \<Rightarrow> string \<Rightarrow> jsval \<Rightarrow> jsval" where
  "normalizeStorageType ft programId raw =
    (if \<not> is_object raw then JObj [(''Plaintext'', raw)]
     else if in_obj ''Plaintext'' raw then JObj [(''Plaintext'', normalizePlaintext ft programId (prop_of raw ''Plaintext''))]
     else if in_obj ''Vector'' raw then JObj [(''Vector'', normalizeStorageType ft programId (prop_of raw ''Vector''))]
     else JObj [(''Plaintext'', normalizePlaintext ft programId raw)])"
  by pat_completeness auto
termination by (relation "measure (\<lambda>(ft, pid, raw). size raw)") (simp_all add: size_prop_of(2))

declare normalizeStorageType.simps [simp del]

section \<open>Inputs and outputs\<close>

datatype io_context = InTransition | InView

datatype io_shape = Bare | Wrapper | Positional

definition detectInputShape :: "jsval \<Rightarrow> io_shape" where
  "detectInputShape raw =
    (if js_typeof raw = ''string'' then Bare
     else if \<not> is_object raw then Wrapper
     else if in_obj ''ty'' raw then Wrapper
     else if in_obj ''Plaintext'' raw \<or> in_obj ''Record'' raw \<or> in_obj ''Future'' raw then Positional
     else Wrapper)"

definition is_mode :: "jsval \<Rightarrow> bool" where
  "is_mode m \<longleftrightarrow> m = JStr ''Public'' \<or> m = JStr ''Private'' \<or> m = JStr ''Constant''"

definition canonicalizePlaintextMode :: "jsval \<Rightarrow> io_context \<Rightarrow> jsval" where
  "canonicalizePlaintextMode rawMode ctx =
    (if is_mode rawMode then rawMode else if ctx = InView then JStr ''Public'' else JStr ''Private'')"

definition modeForAleoType :: "jsval \<Rightarrow> jsval \<Rightarrow> io_context \<Rightarrow> jsval" where
  "modeForAleoType ty rawMode ctx =
    (if in_obj ''Plaintext'' ty then canonicalizePlaintextMode rawMode ctx else JStr ''Private'')"

definition isFutureOutput :: "jsval \<Rightarrow> bool" where
  "isFutureOutput ty = in_obj ''Future'' ty"

definition nullish_type :: "jsval \<Rightarrow> bool" where
  "nullish_type v \<longleftrightarrow> v = JUndef \<or> v = JNull"

text \<open>The type and mode of an element, in whichever of the three shapes it comes.\<close>

definition io_type_mode :: "(jsnum \<Rightarrow> string) \<Rightarrow> string \<Rightarrow> io_context \<Rightarrow> jsval \<Rightarrow> abi_error + jsval \<times> jsval" where
  "io_type_mode ft programId ctx raw =
    (case detectInputShape raw of
      Positional \<Rightarrow>
        Inr (if in_obj ''Plaintext'' raw then
            (let inner = prop_of raw ''Plaintext'' in
             (JObj [(''Plaintext'', normalizePlaintext ft programId (prop_of inner ''ty''))],
              canonicalizePlaintextMode (prop_of inner ''mode'') ctx))
          else if in_obj ''Record'' raw then
            (JObj [(''Record'', toRecordRef ft (prop_of raw ''Record'') programId)], JStr ''Private'')
          else (JObj [(''Future'', prop_of raw ''Future'')], JStr ''Private''))
    | Bare \<Rightarrow> Inr (normalizeAleoType ft programId raw, JStr ''Private'')
    | Wrapper \<Rightarrow>
        if nullish_type raw then Inl (AbiTypeError ''ty'')
        else let ty = normalizeAleoType ft programId (prop_of raw ''ty'') in
          Inr (ty, modeForAleoType ty (prop_of raw ''mode'') ctx))"

definition arg_name :: "nat \<Rightarrow> jsval" where
  "arg_name i = JStr (''arg'' @ nat_str i)"

definition input_name :: "jsval \<Rightarrow> nat \<Rightarrow> jsval" where
  "input_name raw i =
    (if detectInputShape raw = Wrapper \<and> js_typeof (prop_of raw ''name'') = ''string'' then prop_of raw ''name'' else arg_name i)"

definition normalizeInput :: "(jsnum \<Rightarrow> string) \<Rightarrow> string \<Rightarrow> io_context \<Rightarrow> nat \<times> jsval \<Rightarrow> abi_error + jsval" where
  "normalizeInput ft programId ctx ir =
    (case ir of (i, raw) \<Rightarrow> bindR (io_type_mode ft programId ctx raw) (\<lambda>(ty, mode).
       Inr (JObj [(''name'', input_name raw i), (''ty'', ty), (''mode'', mode)])))"

definition normalizeOutput :: "(jsnum \<Rightarrow> string) \<Rightarrow> string \<Rightarrow> io_context \<Rightarrow> jsval \<Rightarrow> abi_error + jsval" where
  "normalizeOutput ft programId ctx raw =
    bindR (io_type_mode ft programId ctx raw) (\<lambda>(ty, mode). Inr (JObj [(''ty'', ty), (''mode'', mode)]))"

section \<open>Entries\<close>

definition asArray :: "jsval \<Rightarrow> string \<Rightarrow> abi_error + jsval list" where
  "asArray value' fieldName =
    (case value' of JUndef \<Rightarrow> Inr [] | JNull \<Rightarrow> Inr [] | JArr xs \<Rightarrow> Inr xs | _ \<Rightarrow> Inl (NotAnArray fieldName))"

definition io_list :: "jsval \<Rightarrow> jsval" where
  "io_list v = (if v = JUndef then JArr [] else v)"

definition normalize_inputs :: "(jsnum \<Rightarrow> string) \<Rightarrow> string \<Rightarrow> io_context \<Rightarrow> jsval \<Rightarrow> abi_error + jsval" where
  "normalize_inputs ft programId ctx v =
    (case io_list v of
      JArr xs \<Rightarrow> bindR (mapR (normalizeInput ft programId ctx) (enumerate 0 xs)) (\<lambda>ys. Inr (JArr ys))
    | w \<Rightarrow> Inr w)"

definition normalize_outputs :: "(jsnum \<Rightarrow> string) \<Rightarrow> string \<Rightarrow> io_context \<Rightarrow> jsval \<Rightarrow> abi_error + jsval" where
  "normalize_outputs ft programId ctx v =
    (case io_list v of
      JArr xs \<Rightarrow> bindR (mapR (normalizeOutput ft programId ctx) xs) (\<lambda>ys. Inr (JArr ys))
    | w \<Rightarrow> Inr w)"

definition is_async_of :: "jsval \<Rightarrow> jsval \<Rightarrow> abi_error + bool" where
  "is_async_of raw outputs =
    (if in_obj ''is_async'' raw then Inr (js_truthy (prop_of raw ''is_async''))
     else if in_obj ''is_final'' raw then Inr (js_truthy (prop_of raw ''is_final''))
     else case outputs of
       JArr os \<Rightarrow> Inr (list_ex (\<lambda>ob. isFutureOutput (prop_of ob ''ty'')) os)
     | _ \<Rightarrow> Inl (AbiTypeError ''some''))"

definition const_field :: "jsval list \<Rightarrow> (string, jsval) omap" where
  "const_field cs = (if 0 < length cs then [(''const_parameters'', JArr cs)] else [])"

definition normalizeFunction :: "(jsnum \<Rightarrow> string) \<Rightarrow> string \<Rightarrow> jsval \<Rightarrow> abi_error + jsval" where
  "normalizeFunction ft programId raw =
    (if \<not> is_object raw then Inr raw
     else bindR (normalize_inputs ft programId InTransition (prop_of raw ''inputs'')) (\<lambda>inputs.
       bindR (normalize_outputs ft programId InTransition (prop_of raw ''outputs'')) (\<lambda>outputs.
       bindR (is_async_of raw outputs) (\<lambda>isAsync.
       bindR (asArray (prop_of raw ''const_parameters'') ''function.const_parameters'') (\<lambda>cs.
         Inr (JObj ([(''name'', prop_of raw ''name''), (''is_async'', JBool isAsync), (''inputs'', inputs),
           (''outputs'', outputs)] @ const_field cs)))))))"

definition normalizeView :: "(jsnum \<Rightarrow> string) \<Rightarrow> string \<Rightarrow> jsval \<Rightarrow> abi_error + jsval" where
  "normalizeView ft programId raw =
    (if \<not> is_object raw then Inr raw
     else bindR (normalize_inputs ft programId InView (prop_of raw ''inputs'')) (\<lambda>inputs.
       bindR (normalize_outputs ft programId InView (prop_of raw ''outputs'')) (\<lambda>outputs.
       bindR (asArray (prop_of raw ''const_parameters'') ''view.const_parameters'') (\<lambda>cs.
         Inr (JObj ([(''name'', prop_of raw ''name''), (''inputs'', inputs), (''outputs'', outputs)] @ const_field cs))))))"

definition extractPath :: "jsval \<Rightarrow> abi_error + jsval" where
  "extractPath ob =
    (case prop_of ob ''path'' of
      JArr (x # xs) \<Rightarrow> Inr (JArr (x # xs))
    | _ \<Rightarrow> if js_typeof (prop_of ob ''name'') = ''string'' then Inr (JArr [prop_of ob ''name'']) else Inl MissingPath)"

definition struct_field :: "(jsnum \<Rightarrow> string) \<Rightarrow> string \<Rightarrow> jsval \<Rightarrow> abi_error + jsval" where
  "struct_field ft programId f =
    (if nullish_type f then Inl (AbiTypeError ''name'')
     else Inr (JObj [(''name'', prop_of f ''name''), (''ty'', normalizePlaintext ft programId (prop_of f ''ty''))]))"

definition normalizeStruct :: "(jsnum \<Rightarrow> string) \<Rightarrow> string \<Rightarrow> jsval \<Rightarrow> abi_error + jsval" where
  "normalizeStruct ft programId raw =
    (if \<not> is_object raw then Inr raw
     else bindR (extractPath raw) (\<lambda>path.
       bindR (asArray (prop_of raw ''fields'') ''struct.fields'') (\<lambda>fs.
       bindR (mapR (struct_field ft programId) fs) (\<lambda>fields.
         Inr (JObj [(''path'', path), (''fields'', JArr fields)])))))"

definition canonicalizeRecordFieldMode :: "jsval \<Rightarrow> jsval" where
  "canonicalizeRecordFieldMode rawMode = (if is_mode rawMode then rawMode else JStr ''Private'')"

definition record_field :: "(jsnum \<Rightarrow> string) \<Rightarrow> string \<Rightarrow> jsval \<Rightarrow> abi_error + jsval" where
  "record_field ft programId f =
    (if nullish_type f then Inl (AbiTypeError ''name'')
     else Inr (JObj [(''name'', prop_of f ''name''), (''ty'', normalizePlaintext ft programId (prop_of f ''ty'')),
       (''mode'', canonicalizeRecordFieldMode (prop_of f ''mode''))]))"

definition normalizeRecord :: "(jsnum \<Rightarrow> string) \<Rightarrow> string \<Rightarrow> jsval \<Rightarrow> abi_error + jsval" where
  "normalizeRecord ft programId raw =
    (if \<not> is_object raw then Inr raw
     else bindR (extractPath raw) (\<lambda>path.
       bindR (asArray (prop_of raw ''fields'') ''record.fields'') (\<lambda>fs.
       bindR (mapR (record_field ft programId) fs) (\<lambda>fields.
         Inr (JObj [(''path'', path), (''fields'', JArr fields)])))))"

definition normalizeMapping :: "(jsnum \<Rightarrow> string) \<Rightarrow> string \<Rightarrow> jsval \<Rightarrow> jsval" where
  "normalizeMapping ft programId raw =
    (if \<not> is_object raw then raw
     else JObj [(''name'', prop_of raw ''name''), (''key'', normalizePlaintext ft programId (prop_of raw ''key'')),
       (''value'', normalizePlaintext ft programId (prop_of raw ''value''))])"

definition normalizeStorageVariable :: "(jsnum \<Rightarrow> string) \<Rightarrow> string \<Rightarrow> jsval \<Rightarrow> jsval" where
  "normalizeStorageVariable ft programId raw =
    (if \<not> is_object raw then raw
     else JObj [(''name'', prop_of raw ''name''), (''ty'', normalizeStorageType ft programId (prop_of raw ''ty''))])"

definition normalizeInterfaceRef :: "(jsnum \<Rightarrow> string) \<Rightarrow> jsval \<Rightarrow> jsval" where
  "normalizeInterfaceRef ft raw =
    (if js_typeof raw = ''string'' then raw
     else case prop_of raw ''path'' of
       JArr path \<Rightarrow> JObj [(''path'', JArr (map (\<lambda>x. JStr (js_String ft x)) path)),
         (''program'', if js_typeof (prop_of raw ''program'') = ''string'' then prop_of raw ''program'' else JNull)]
     | _ \<Rightarrow> JStr (js_String ft raw))"

section \<open>The parser\<close>

definition is_array :: "jsval \<Rightarrow> bool" where
  "is_array v = (case v of JArr xs \<Rightarrow> True | _ \<Rightarrow> False)"

definition check_entry :: "(string \<Rightarrow> abi_error) \<Rightarrow> jsval \<Rightarrow> abi_error + unit" where
  "check_entry err t =
    (if nullish_type t then Inl (AbiTypeError ''name'')
     else if js_typeof (prop_of t ''name'') \<noteq> ''string'' then Inl (err ''name'')
     else if \<not> is_array (prop_of t ''inputs'') then Inl (err ''inputs'')
     else if \<not> is_array (prop_of t ''outputs'') then Inl (err ''outputs'')
     else Inr ())"

definition list_field :: "string \<Rightarrow> jsval list \<Rightarrow> (string, jsval) omap" where
  "list_field k xs = (if 0 < length xs then [(k, JArr xs)] else [])"

definition raw_functions :: "jsval \<Rightarrow> jsval" where
  "raw_functions ob = (if nullish_type (prop_of ob ''functions'') then prop_of ob ''transitions'' else prop_of ob ''functions'')"

definition parse_object :: "(jsnum \<Rightarrow> string) \<Rightarrow> jsval \<Rightarrow> string \<Rightarrow> abi_error + jsval" where
  "parse_object ft ob programId =
    bindR (bindR (asArray (prop_of ob ''structs'') ''structs'') (mapR (normalizeStruct ft programId))) (\<lambda>structs.
    bindR (bindR (asArray (prop_of ob ''records'') ''records'') (mapR (normalizeRecord ft programId))) (\<lambda>records.
    bindR (asArray (prop_of ob ''mappings'') ''mappings'') (\<lambda>ms.
    bindR (asArray (prop_of ob ''storage_variables'') ''storage_variables'') (\<lambda>vs.
    bindR (bindR (asArray (raw_functions ob) ''functions/transitions'') (mapR (normalizeFunction ft programId))) (\<lambda>transitions.
    bindR (bindR (asArray (prop_of ob ''views'') ''views'') (mapR (normalizeView ft programId))) (\<lambda>views.
    bindR (asArray (prop_of ob ''implements'') ''implements'') (\<lambda>is.
    bindR (mapR (check_entry TransitionInvalid) transitions) (\<lambda>_.
    bindR (mapR (check_entry ViewInvalid) views) (\<lambda>_.
      Inr (JObj ([(''program'', JStr programId), (''structs'', JArr structs), (''records'', JArr records),
          (''mappings'', JArr (map (normalizeMapping ft programId) ms)),
          (''storage_variables'', JArr (map (normalizeStorageVariable ft programId) vs)),
          (''transitions'', JArr transitions)]
        @ list_field ''views'' views @ list_field ''implements'' (map (normalizeInterfaceRef ft) is))))))))))))"

definition parseAbi :: "(jsnum \<Rightarrow> string) \<Rightarrow> jsval option \<Rightarrow> abi_error + jsval" where
  "parseAbi ft json =
    (case json of
      None \<Rightarrow> Inl InvalidJson
    | Some raw \<Rightarrow>
        if \<not> is_object raw then Inl AbiNotObject
        else case prop_of raw ''program'' of
          JStr programId \<Rightarrow> parse_object ft raw programId
        | _ \<Rightarrow> Inl MissingProgram)"

section \<open>The hash\<close>

definition nonempty_array :: "jsval \<Rightarrow> bool" where
  "nonempty_array v = (case v of JArr (x # xs) \<Rightarrow> True | _ \<Rightarrow> False)"

definition kept_field :: "string \<Rightarrow> jsval \<Rightarrow> (string, jsval) omap" where
  "kept_field k ob = (if nonempty_array (prop_of ob k) then [(k, prop_of ob k)] else [])"

definition canonicalizeTransition :: "jsval \<Rightarrow> jsval" where
  "canonicalizeTransition t = JObj ([(''name'', prop_of t ''name''), (''is_async'', prop_of t ''is_async''),
     (''inputs'', prop_of t ''inputs''), (''outputs'', prop_of t ''outputs'')] @ kept_field ''const_parameters'' t)"

definition canonicalizeView :: "jsval \<Rightarrow> jsval" where
  "canonicalizeView v = JObj ([(''name'', prop_of v ''name''), (''inputs'', prop_of v ''inputs''),
     (''outputs'', prop_of v ''outputs'')] @ kept_field ''const_parameters'' v)"

definition array_elems :: "jsval \<Rightarrow> jsval list" where
  "array_elems v = (case v of JArr xs \<Rightarrow> xs | _ \<Rightarrow> [])"

definition canonicalizeAbiForHash :: "jsval \<Rightarrow> jsval" where
  "canonicalizeAbiForHash abi = JObj ([(''program'', prop_of abi ''program''), (''structs'', prop_of abi ''structs''),
      (''records'', prop_of abi ''records''), (''mappings'', prop_of abi ''mappings''),
      (''storage_variables'', prop_of abi ''storage_variables''),
      (''transitions'', JArr (map canonicalizeTransition (array_elems (prop_of abi ''transitions''))))]
    @ (if nonempty_array (prop_of abi ''views'')
       then [(''views'', JArr (map canonicalizeView (array_elems (prop_of abi ''views''))))] else [])
    @ kept_field ''implements'' abi)"

text \<open>\<^verbatim>\<open>JSON.parse(JSON.stringify(v))\<close>: members that are \<^verbatim>\<open>undefined\<close> go, elements become \<^verbatim>\<open>null\<close>.\<close>

definition json_gone :: "jsval \<Rightarrow> bool" where
  "json_gone v = (case v of JUndef \<Rightarrow> True | JFun f \<Rightarrow> True | _ \<Rightarrow> False)"

fun json_copy :: "jsval \<Rightarrow> jsval" where
  "json_copy (JArr xs) = JArr (map (\<lambda>x. if json_gone x then JNull else json_copy x) xs)"
| "json_copy (JObj m) = JObj (map (\<lambda>kv. (fst kv, json_copy (snd kv))) (filter (\<lambda>kv. \<not> json_gone (snd kv)) m))"
| "json_copy (JNum x) = (case x of Fin q \<Rightarrow> JNum x | _ \<Rightarrow> JNull)"
| "json_copy v = v"

definition normalizeAbiForHash :: "(jsnum \<Rightarrow> string) \<Rightarrow> jsval \<Rightarrow> abi_error + jsval" where
  "normalizeAbiForHash ft abi =
    (if list_all (\<lambda>k. is_array (prop_of abi k)) [''structs'', ''records'', ''mappings'', ''storage_variables'', ''transitions'']
     then Inr abi else parseAbi ft (Some (json_copy abi)))"

definition computeAbiHash :: "(jsnum \<Rightarrow> string) \<Rightarrow> (jsval \<Rightarrow> string) \<Rightarrow> jsval \<Rightarrow> abi_error + string" where
  "computeAbiHash ft sha256 abi = bindR (normalizeAbiForHash ft abi) (\<lambda>n. Inr (sha256 (canonicalizeAbiForHash n)))"

section \<open>Normal forms are fixed\<close>

named_theorems abi_fixed \<open>normalisation of a normal form\<close>

lemmas obj_simps = js_get_def in_obj_def is_object_def om_has_def

lemma or_null_idem [simp]: "or_null (canonicalizeRefProgram (or_null v) p) = canonicalizeRefProgram (or_null v) p"
  by (simp add: or_null_def canonicalizeRefProgram_def)

lemma canonical_program_idem [simp]: "canonicalizeRefProgram (canonicalizeRefProgram v p) p = canonicalizeRefProgram v p"
  by (simp add: canonicalizeRefProgram_def)

lemma full_ref_name [simp]: "full_ref (name_ref s) p = Some (name_ref s)"
  by (simp add: full_ref_def name_ref_def js_get_def or_null_def canonicalizeRefProgram_def)

lemma full_ref_full: "full_ref r p = Some v \<Longrightarrow> full_ref v p = Some v"
  by (auto simp: full_ref_def js_get_def split: jsval.splits)

lemma ref_fixed [abi_fixed]:
  "toStructRef ft (toStructRef ft r p) p = toStructRef ft r p"
  "toRecordRef ft (toRecordRef ft r p) p = toRecordRef ft r p"
proof -
  have "full_ref (toStructRef ft r p) p = Some (toStructRef ft r p)"
    using full_ref_full [of r p] by (simp add: toStructRef_def split: option.split jsval.split)
  moreover have "full_ref (toRecordRef ft r p) p = Some (toRecordRef ft r p)"
    using full_ref_full [of r p] by (simp add: toRecordRef_def split: option.split jsval.split)
  ultimately show "toStructRef ft (toStructRef ft r p) p = toStructRef ft r p"
    "toRecordRef ft (toRecordRef ft r p) p = toRecordRef ft r p"
    unfolding toStructRef_def [of ft "toStructRef ft r p"] toRecordRef_def [of ft "toRecordRef ft r p"] by simp_all
qed

lemma plaintext_forms:
  "normalizePlaintext ft p (JObj [(''Struct'', r)]) = JObj [(''Struct'', toStructRef ft r p)]"
  "normalizePlaintext ft p (JObj [(''Array'', JArr [a, l])]) = JObj [(''Array'', JArr [normalizePlaintext ft p a, l])]"
  "normalizePlaintext ft p (JObj [(''Optional'', a)]) = JObj [(''Optional'', normalizePlaintext ft p a)]"
  by (subst normalizePlaintext.simps; simp add: obj_simps js_nth_def)+

lemma plaintext_fixed [abi_fixed]: "normalizePlaintext ft p (normalizePlaintext ft p raw) = normalizePlaintext ft p raw"
proof (induction ft p raw rule: normalizePlaintext.induct)
  case (1 ft p raw)
  let ?n = "normalizePlaintext ft p"
  consider (leaf) "?n raw = raw"
    | (struct) "?n raw = JObj [(''Struct'', toStructRef ft (prop_of raw ''Struct'') p)]"
    | (tuple) xs where "is_object raw" "\<not> in_obj ''Struct'' raw" "in_obj ''Array'' raw" "prop_of raw ''Array'' = JArr xs"
        "?n raw = JObj [(''Array'', JArr [?n (js_nth xs 0), js_nth xs 1])]"
    | (arr) m where "is_object raw" "\<not> in_obj ''Struct'' raw" "in_obj ''Array'' raw" "prop_of raw ''Array'' = JObj m"
        "?n raw = JObj [(''Array'', JArr [?n (prop_of (JObj m) ''element''), prop_of (JObj m) ''length''])]"
    | (opt) "is_object raw" "\<not> in_obj ''Struct'' raw" "\<not> (in_obj ''Array'' raw \<and> is_object (prop_of raw ''Array''))"
        "in_obj ''Optional'' raw" "?n raw = JObj [(''Optional'', ?n (prop_of raw ''Optional''))]"
    using normalizePlaintext.simps [of ft p raw]
    by (cases "prop_of raw ''Array''") (auto split: if_splits)
  then show ?case
  proof cases
    case tuple
    then show ?thesis using 1 by (simp add: plaintext_forms)
  next
    case arr
    then show ?thesis using 1 by (simp add: plaintext_forms)
  next
    case opt
    then show ?thesis using 1 by (simp add: plaintext_forms)
  qed (simp_all add: plaintext_forms ref_fixed)
qed

lemma aleo_type_fixed [abi_fixed]: "normalizeAleoType ft p (normalizeAleoType ft p raw) = normalizeAleoType ft p raw"
  by (simp add: normalizeAleoType_def obj_simps abi_fixed)

lemma storage_forms:
  "normalizeStorageType ft p (JObj [(''Plaintext'', a)]) = JObj [(''Plaintext'', normalizePlaintext ft p a)]"
  "normalizeStorageType ft p (JObj [(''Vector'', a)]) = JObj [(''Vector'', normalizeStorageType ft p a)]"
  by (subst normalizeStorageType.simps; simp add: obj_simps)+

lemma plaintext_leaf: "\<not> is_object raw \<Longrightarrow> normalizePlaintext ft p raw = raw"
  by (simp add: normalizePlaintext.simps)

lemma storage_fixed [abi_fixed]: "normalizeStorageType ft p (normalizeStorageType ft p raw) = normalizeStorageType ft p raw"
proof (induction ft p raw rule: normalizeStorageType.induct)
  case (1 ft p raw)
  show ?case
    by (subst (2 3) normalizeStorageType.simps)
      (use 1 in \<open>simp add: storage_forms plaintext_fixed plaintext_leaf\<close>)
qed

lemma mode_fixed [abi_fixed]:
  "canonicalizePlaintextMode (canonicalizePlaintextMode m ctx) ctx = canonicalizePlaintextMode m ctx"
  "modeForAleoType ty (modeForAleoType ty m ctx) ctx = modeForAleoType ty m ctx"
  "canonicalizeRecordFieldMode (canonicalizeRecordFieldMode m) = canonicalizeRecordFieldMode m"
  by (auto simp: canonicalizePlaintextMode_def modeForAleoType_def canonicalizeRecordFieldMode_def is_mode_def)

text \<open>A settled type and mode: what the wrapper shape reads back unchanged.\<close>

definition settled_io :: "(jsnum \<Rightarrow> string) \<Rightarrow> string \<Rightarrow> io_context \<Rightarrow> jsval \<times> jsval \<Rightarrow> bool" where
  "settled_io ft p ctx tm \<longleftrightarrow> normalizeAleoType ft p (fst tm) = fst tm \<and> modeForAleoType (fst tm) (snd tm) ctx = snd tm"

lemma aleo_forms:
  "normalizeAleoType ft p (JObj [(''Plaintext'', a)]) = JObj [(''Plaintext'', normalizePlaintext ft p a)]"
  "normalizeAleoType ft p (JObj [(''Record'', a)]) = JObj [(''Record'', toRecordRef ft a p)]"
  "normalizeAleoType ft p (JObj [(''Future'', a)]) = JObj [(''Future'', a)]"
  by (simp_all add: normalizeAleoType_def obj_simps)

lemma bare_mode: "js_typeof raw = ''string'' \<Longrightarrow> modeForAleoType (normalizeAleoType ft p raw) m ctx = JStr ''Private''"
  by (cases raw) (auto simp: normalizeAleoType_def modeForAleoType_def in_obj_def om_has_def)

lemma io_settled: "io_type_mode ft p ctx raw = Inr tm \<Longrightarrow> settled_io ft p ctx tm"
proof (cases "detectInputShape raw")
  case Bare
  then have "js_typeof raw = ''string''" by (simp add: detectInputShape_def split: if_splits)
  moreover assume "io_type_mode ft p ctx raw = Inr tm"
  ultimately show ?thesis using Bare bare_mode by (auto simp: io_type_mode_def settled_io_def aleo_type_fixed)
next
  case Wrapper
  moreover assume "io_type_mode ft p ctx raw = Inr tm"
  ultimately show ?thesis
    by (auto simp: io_type_mode_def settled_io_def aleo_type_fixed mode_fixed Let_def split: if_splits)
next
  case Positional
  moreover assume "io_type_mode ft p ctx raw = Inr tm"
  ultimately show ?thesis
    by (auto simp: io_type_mode_def settled_io_def aleo_forms plaintext_fixed ref_fixed mode_fixed Let_def
        modeForAleoType_def in_obj_def om_has_def split: if_splits)
qed

lemma settled_input:
  "settled_io ft p ctx (ty, mode) \<Longrightarrow>
    normalizeInput ft p ctx (i, JObj [(''name'', JStr n), (''ty'', ty), (''mode'', mode)])
      = Inr (JObj [(''name'', JStr n), (''ty'', ty), (''mode'', mode)])"
  by (simp add: normalizeInput_def io_type_mode_def detectInputShape_def input_name_def settled_io_def obj_simps
      nullish_type_def Let_def)

lemma settled_output:
  "settled_io ft p ctx (ty, mode) \<Longrightarrow>
    normalizeOutput ft p ctx (JObj [(''ty'', ty), (''mode'', mode)]) = Inr (JObj [(''ty'', ty), (''mode'', mode)])"
  by (simp add: normalizeOutput_def io_type_mode_def detectInputShape_def settled_io_def obj_simps nullish_type_def Let_def)

lemma input_fixed: "normalizeInput ft p ctx ir = Inr v \<Longrightarrow> normalizeInput ft p ctx (j, v) = Inr v"
proof -
  assume a: "normalizeInput ft p ctx ir = Inr v"
  obtain i raw where ir: "ir = (i, raw)" by fastforce
  obtain ty mode where io: "io_type_mode ft p ctx raw = Inr (ty, mode)"
    and v: "v = JObj [(''name'', input_name raw i), (''ty'', ty), (''mode'', mode)]"
    using a by (auto simp: normalizeInput_def ir)
  obtain n where "input_name raw i = JStr n"
    by (cases "prop_of raw ''name''"; cases "detectInputShape raw = Wrapper") (auto simp: input_name_def arg_name_def)
  then show ?thesis using settled_input [OF io_settled [OF io]] v by simp
qed

lemma output_fixed: "normalizeOutput ft p ctx raw = Inr v \<Longrightarrow> normalizeOutput ft p ctx v = Inr v"
  using settled_output io_settled by (fastforce simp: normalizeOutput_def)

lemma mapR_fixed_outputs:
  assumes "mapR f xs = Inr ys" and "\<And>x y. f x = Inr y \<Longrightarrow> g y = Inr y"
  shows "mapR g ys = Inr ys"
proof (rule mapR_fixed)
  fix y assume "y \<in> set ys"
  then obtain x where "f x = Inr y" using assms(1) by (auto simp: mapR_Inr list_all2_conv_all_nth in_set_conv_nth)
  then show "g y = Inr y" by (rule assms(2))
qed

lemma mapR_fixed_inputs:
  assumes "mapR f xs = Inr ys" and "\<And>x y j. f x = Inr y \<Longrightarrow> g (j, y) = Inr y"
  shows "mapR g (enumerate k ys) = Inr ys"
proof -
  have "\<exists>x. f x = Inr y" if "y \<in> set ys" for y
    using assms(1) that by (auto simp: mapR_Inr list_all2_conv_all_nth in_set_conv_nth)
  then have "list_all2 (\<lambda>jy y. g jy = Inr y) (enumerate k ys) ys"
    unfolding list_all2_conv_all_nth
  proof (intro conjI allI impI)
    fix n assume "n < length (enumerate k ys)"
    then have n: "n < length ys" by simp
    then obtain x where "f x = Inr (ys ! n)" using \<open>\<And>y. y \<in> set ys \<Longrightarrow> \<exists>x. f x = Inr y\<close> nth_mem by blast
    then show "g (enumerate k ys ! n) = Inr (ys ! n)" using assms(2) n by (simp add: nth_enumerate_eq)
  qed simp
  then show ?thesis by (simp add: mapR_Inr)
qed

lemma inputs_fixed: "normalize_inputs ft p ctx v = Inr w \<Longrightarrow> w \<noteq> JUndef \<and> normalize_inputs ft p ctx w = Inr w"
proof (cases "io_list v")
  case (JArr xs)
  moreover assume "normalize_inputs ft p ctx v = Inr w"
  ultimately obtain ys where ys: "mapR (normalizeInput ft p ctx) (enumerate 0 xs) = Inr ys" "w = JArr ys"
    by (auto simp: normalize_inputs_def)
  then show ?thesis using mapR_fixed_inputs [OF ys(1) input_fixed] by (simp add: normalize_inputs_def io_list_def)
qed (auto simp: normalize_inputs_def io_list_def split: if_splits)

lemma outputs_fixed: "normalize_outputs ft p ctx v = Inr w \<Longrightarrow> w \<noteq> JUndef \<and> normalize_outputs ft p ctx w = Inr w"
proof (cases "io_list v")
  case (JArr xs)
  moreover assume "normalize_outputs ft p ctx v = Inr w"
  ultimately obtain ys where ys: "mapR (normalizeOutput ft p ctx) xs = Inr ys" "w = JArr ys"
    by (auto simp: normalize_outputs_def)
  then show ?thesis using mapR_fixed_outputs [OF ys(1) output_fixed] by (simp add: normalize_outputs_def io_list_def)
qed (auto simp: normalize_outputs_def io_list_def split: if_splits)

lemma const_field_fixed: "asArray (js_get (m @ const_field cs) ''const_parameters'') s = Inr cs"
  if "om_get m ''const_parameters'' = None"
  using that by (simp add: const_field_def js_get_def map_add_def asArray_def)

lemma function_fixed: "normalizeFunction ft p raw = Inr g \<Longrightarrow> normalizeFunction ft p g = Inr g"
proof (cases "is_object raw")
  case True
  moreover assume "normalizeFunction ft p raw = Inr g"
  ultimately obtain inputs outputs b cs where
      i: "normalize_inputs ft p InTransition (prop_of raw ''inputs'') = Inr inputs"
      and ou: "normalize_outputs ft p InTransition (prop_of raw ''outputs'') = Inr outputs"
      and g: "g = JObj ([(''name'', prop_of raw ''name''), (''is_async'', JBool b), (''inputs'', inputs), (''outputs'', outputs)] @ const_field cs)"
    by (auto simp: normalizeFunction_def)
  have props: "prop_of g ''name'' = prop_of raw ''name''" "prop_of g ''is_async'' = JBool b" "in_obj ''is_async'' g"
    "prop_of g ''inputs'' = inputs" "prop_of g ''outputs'' = outputs" "is_object g"
    by (simp_all add: g js_get_def in_obj_def om_has_def)
  have c: "asArray (prop_of g ''const_parameters'') s = Inr cs" for s
    using const_field_fixed [of "[(''name'', prop_of raw ''name''), (''is_async'', JBool b), (''inputs'', inputs), (''outputs'', outputs)]" cs]
    by (simp add: g)
  show ?thesis
    using inputs_fixed [OF i] outputs_fixed [OF ou] c
    by (simp add: normalizeFunction_def props is_async_of_def) (simp add: g)
qed (simp add: normalizeFunction_def)

lemma view_fixed: "normalizeView ft p raw = Inr g \<Longrightarrow> normalizeView ft p g = Inr g"
proof (cases "is_object raw")
  case True
  moreover assume "normalizeView ft p raw = Inr g"
  ultimately obtain inputs outputs cs where
      i: "normalize_inputs ft p InView (prop_of raw ''inputs'') = Inr inputs"
      and ou: "normalize_outputs ft p InView (prop_of raw ''outputs'') = Inr outputs"
      and g: "g = JObj ([(''name'', prop_of raw ''name''), (''inputs'', inputs), (''outputs'', outputs)] @ const_field cs)"
    by (auto simp: normalizeView_def)
  have props: "prop_of g ''name'' = prop_of raw ''name''" "prop_of g ''inputs'' = inputs" "prop_of g ''outputs'' = outputs" "is_object g"
    by (simp_all add: g js_get_def)
  have c: "asArray (prop_of g ''const_parameters'') s = Inr cs" for s
    using const_field_fixed [of "[(''name'', prop_of raw ''name''), (''inputs'', inputs), (''outputs'', outputs)]" cs] by (simp add: g)
  show ?thesis
    using inputs_fixed [OF i] outputs_fixed [OF ou] c by (simp add: normalizeView_def props) (simp add: g)
qed (simp add: normalizeView_def)

lemma struct_field_fixed: "struct_field ft p f = Inr g \<Longrightarrow> struct_field ft p g = Inr g"
  by (auto simp: struct_field_def nullish_type_def js_get_def plaintext_fixed split: if_splits)

lemma record_field_fixed: "record_field ft p f = Inr g \<Longrightarrow> record_field ft p g = Inr g"
  by (auto simp: record_field_def nullish_type_def js_get_def plaintext_fixed mode_fixed split: if_splits)

lemma extractPath_array: "extractPath ob = Inr path \<Longrightarrow> \<exists>x xs. path = JArr (x # xs)"
  by (auto simp: extractPath_def dest: sym split: jsval.splits list.splits if_splits)

lemma struct_fixed: "normalizeStruct ft p raw = Inr g \<Longrightarrow> normalizeStruct ft p g = Inr g"
proof (cases "is_object raw")
  case True
  moreover assume "normalizeStruct ft p raw = Inr g"
  ultimately obtain path fs fields where e: "extractPath raw = Inr path" "mapR (struct_field ft p) fs = Inr fields"
    and g: "g = JObj [(''path'', path), (''fields'', JArr fields)]" by (auto simp: normalizeStruct_def)
  then show ?thesis using extractPath_array [OF e(1)] mapR_fixed_outputs [OF e(2) struct_field_fixed]
    by (auto simp: normalizeStruct_def extractPath_def js_get_def asArray_def)
qed (simp add: normalizeStruct_def)

lemma record_fixed: "normalizeRecord ft p raw = Inr g \<Longrightarrow> normalizeRecord ft p g = Inr g"
proof (cases "is_object raw")
  case True
  moreover assume "normalizeRecord ft p raw = Inr g"
  ultimately obtain path fs fields where e: "extractPath raw = Inr path" "mapR (record_field ft p) fs = Inr fields"
    and g: "g = JObj [(''path'', path), (''fields'', JArr fields)]" by (auto simp: normalizeRecord_def)
  then show ?thesis using extractPath_array [OF e(1)] mapR_fixed_outputs [OF e(2) record_field_fixed]
    by (auto simp: normalizeRecord_def extractPath_def js_get_def asArray_def)
qed (simp add: normalizeRecord_def)

lemma mapping_fixed [abi_fixed]: "normalizeMapping ft p (normalizeMapping ft p raw) = normalizeMapping ft p raw"
  by (simp add: normalizeMapping_def js_get_def plaintext_fixed)

lemma storage_variable_fixed [abi_fixed]:
  "normalizeStorageVariable ft p (normalizeStorageVariable ft p raw) = normalizeStorageVariable ft p raw"
  by (simp add: normalizeStorageVariable_def js_get_def storage_fixed)

lemma interface_fixed [abi_fixed]: "normalizeInterfaceRef ft (normalizeInterfaceRef ft raw) = normalizeInterfaceRef ft raw"
proof (cases "js_typeof raw = ''string'' \<or> \<not> is_array (prop_of raw ''path'')")
  case True
  then have "js_typeof (normalizeInterfaceRef ft raw) = ''string''"
    by (cases "prop_of raw ''path''") (auto simp: normalizeInterfaceRef_def is_array_def)
  then show ?thesis unfolding normalizeInterfaceRef_def [of ft "normalizeInterfaceRef ft raw"] by simp
next
  case False
  then obtain path where "prop_of raw ''path'' = JArr path" by (cases "prop_of raw ''path''") (auto simp: is_array_def)
  then show ?thesis using False by (simp add: normalizeInterfaceRef_def js_get_def comp_def)
qed

lemma asArray_list_field: "om_get m k = None \<Longrightarrow> asArray (js_get (m @ list_field k xs @ ms) k) s = Inr xs"
  if "om_get ms k = None"
  using that by (auto simp: list_field_def js_get_def map_add_def asArray_def)

text \<open>What a parsed ABI looks like.\<close>

lemma parsed_abi:
  assumes "parseAbi ft (Some raw) = Inr abi"
  obtains p structs records ms vs transitions views ims where
    "abi = JObj ([(''program'', JStr p), (''structs'', JArr structs), (''records'', JArr records), (''mappings'', JArr ms),
        (''storage_variables'', JArr vs), (''transitions'', JArr transitions)] @ list_field ''views'' views @ list_field ''implements'' ims)"
    and "\<forall>s \<in> set structs. normalizeStruct ft p s = Inr s" and "\<forall>r \<in> set records. normalizeRecord ft p r = Inr r"
    and "map (normalizeMapping ft p) ms = ms" and "map (normalizeStorageVariable ft p) vs = vs"
    and "\<forall>t \<in> set transitions. \<exists>r. normalizeFunction ft p r = Inr t" and "\<forall>v \<in> set views. \<exists>r. normalizeView ft p r = Inr v"
    and "map (normalizeInterfaceRef ft) ims = ims"
    and "\<forall>t \<in> set transitions. check_entry TransitionInvalid t = Inr ()" and "\<forall>v \<in> set views. check_entry ViewInvalid v = Inr ()"
proof -
  have outs: "\<exists>x. f x = Inr y" if "mapR f xs = Inr ys" "y \<in> set ys" for f :: "'x \<Rightarrow> abi_error + 'y" and xs ys y
    using that by (auto simp: mapR_Inr list_all2_conv_all_nth in_set_conv_nth)
  have units: "f x = Inr ()" if "mapR f xs = Inr ys" "x \<in> set xs" for f :: "'x \<Rightarrow> abi_error + unit" and xs ys x
    using that by (auto simp: mapR_Inr list_all2_conv_all_nth in_set_conv_nth)
  obtain p where "parse_object ft raw p = Inr abi"
    using assms by (auto simp: parseAbi_def split: if_splits jsval.splits)
  then obtain ss rs ms vs fs ws ims structs records transitions views us us' where
    s: "mapR (normalizeStruct ft p) ss = Inr structs" and r: "mapR (normalizeRecord ft p) rs = Inr records"
    and t: "mapR (normalizeFunction ft p) fs = Inr transitions" and v: "mapR (normalizeView ft p) ws = Inr views"
    and ct: "mapR (check_entry TransitionInvalid) transitions = Inr us" and cv: "mapR (check_entry ViewInvalid) views = Inr us'"
    and abi: "abi = JObj ([(''program'', JStr p), (''structs'', JArr structs), (''records'', JArr records),
        (''mappings'', JArr (map (normalizeMapping ft p) ms)), (''storage_variables'', JArr (map (normalizeStorageVariable ft p) vs)),
        (''transitions'', JArr transitions)] @ list_field ''views'' views @ list_field ''implements'' (map (normalizeInterfaceRef ft) ims))"
    unfolding parse_object_def bindR_Inr by blast
  show ?thesis
  proof (rule that [OF abi])
    show "\<forall>x \<in> set structs. normalizeStruct ft p x = Inr x" using outs [OF s] struct_fixed by blast
    show "\<forall>x \<in> set records. normalizeRecord ft p x = Inr x" using outs [OF r] record_fixed by blast
    show "\<forall>x \<in> set transitions. \<exists>r. normalizeFunction ft p r = Inr x" using outs [OF t] by blast
    show "\<forall>x \<in> set views. \<exists>r. normalizeView ft p r = Inr x" using outs [OF v] by blast
    show "\<forall>x \<in> set transitions. check_entry TransitionInvalid x = Inr ()" using units [OF ct] by blast
    show "\<forall>x \<in> set views. check_entry ViewInvalid x = Inr ()" using units [OF cv] by blast
  qed (simp_all add: abi_fixed)
qed

lemma check_entries: "\<forall>t \<in> set ts. check_entry err t = Inr () \<Longrightarrow> \<exists>us. mapR (check_entry err) ts = Inr us"
  by (induction ts) auto

lemma parse_fixed_lemma:
  assumes "parseAbi ft (Some raw) = Inr abi"
  shows "parseAbi ft (Some abi) = Inr abi"
  using assms
proof (rule parsed_abi)
  fix p structs records ms vs transitions views ims
  assume abi: "abi = JObj ([(''program'', JStr p), (''structs'', JArr structs), (''records'', JArr records), (''mappings'', JArr ms),
        (''storage_variables'', JArr vs), (''transitions'', JArr transitions)] @ list_field ''views'' views @ list_field ''implements'' ims)"
    and s: "\<forall>s \<in> set structs. normalizeStruct ft p s = Inr s" and r: "\<forall>r \<in> set records. normalizeRecord ft p r = Inr r"
    and m: "map (normalizeMapping ft p) ms = ms" and sv: "map (normalizeStorageVariable ft p) vs = vs"
    and t: "\<forall>t \<in> set transitions. \<exists>r. normalizeFunction ft p r = Inr t" and v: "\<forall>v \<in> set views. \<exists>r. normalizeView ft p r = Inr v"
    and im: "map (normalizeInterfaceRef ft) ims = ims"
    and ct: "\<forall>t \<in> set transitions. check_entry TransitionInvalid t = Inr ()" and cv: "\<forall>v \<in> set views. check_entry ViewInvalid v = Inr ()"
  let ?m = "[(''program'', JStr p), (''structs'', JArr structs), (''records'', JArr records), (''mappings'', JArr ms),
        (''storage_variables'', JArr vs), (''transitions'', JArr transitions)]"
  have props: "prop_of abi ''program'' = JStr p" "prop_of abi ''structs'' = JArr structs" "prop_of abi ''records'' = JArr records"
    "prop_of abi ''mappings'' = JArr ms" "prop_of abi ''storage_variables'' = JArr vs" "raw_functions abi = JArr transitions"
    by (simp_all add: abi js_get_def raw_functions_def nullish_type_def list_field_def)
  have vi: "asArray (prop_of abi ''views'') s = Inr views" "asArray (prop_of abi ''implements'') s = Inr ims" for s
    by (auto simp: abi js_get_def list_field_def asArray_def)
  obtain us us' where checks: "mapR (check_entry TransitionInvalid) transitions = Inr us" "mapR (check_entry ViewInvalid) views = Inr us'"
    using check_entries [OF ct] check_entries [OF cv] by blast
  have maps: "mapR (normalizeStruct ft p) structs = Inr structs" "mapR (normalizeRecord ft p) records = Inr records"
    "mapR (normalizeFunction ft p) transitions = Inr transitions" "mapR (normalizeView ft p) views = Inr views"
    using s r t v function_fixed view_fixed by (intro mapR_fixed; blast)+
  have arr: "asArray (JArr xs) k = Inr xs" for xs k by (simp add: asArray_def)
  have "parse_object ft abi p = Inr abi"
    unfolding parse_object_def props arr vi by (simp add: maps checks m sv im) (simp add: abi)
  then show ?thesis by (simp add: parseAbi_def props) (simp add: abi)
qed

text \<open>A parsed ABI is its own canonical form.\<close>

lemma kept_const: "kept_field ''const_parameters'' (JObj (m @ const_field cs)) = const_field cs" if "om_get m ''const_parameters'' = None"
  using that by (cases cs) (simp_all add: kept_field_def const_field_def js_get_def nonempty_array_def map_add_def)

lemma canonical_transition:
  assumes "normalizeFunction ft p r = Inr t" and "check_entry TransitionInvalid t = Inr ()"
  shows "canonicalizeTransition t = t"
proof -
  have "is_object r" using assms by (cases r) (auto simp: normalizeFunction_def check_entry_def nullish_type_def)
  then obtain n b i ou cs where t: "t = JObj ([(''name'', n), (''is_async'', b), (''inputs'', i), (''outputs'', ou)] @ const_field cs)"
    using assms(1) by (auto simp: normalizeFunction_def)
  have "kept_field ''const_parameters'' t = const_field cs" unfolding t by (rule kept_const) simp
  then show ?thesis by (simp add: canonicalizeTransition_def) (simp add: t js_get_def)
qed

lemma canonical_view:
  assumes "normalizeView ft p r = Inr t" and "check_entry ViewInvalid t = Inr ()"
  shows "canonicalizeView t = t"
proof -
  have "is_object r" using assms by (cases r) (auto simp: normalizeView_def check_entry_def nullish_type_def)
  then obtain n i ou cs where t: "t = JObj ([(''name'', n), (''inputs'', i), (''outputs'', ou)] @ const_field cs)"
    using assms(1) by (auto simp: normalizeView_def)
  have "kept_field ''const_parameters'' t = const_field cs" unfolding t by (rule kept_const) simp
  then show ?thesis by (simp add: canonicalizeView_def) (simp add: t js_get_def)
qed

lemma canonical_abi_lemma:
  assumes "parseAbi ft (Some raw) = Inr abi"
  shows "canonicalizeAbiForHash abi = abi \<and> normalizeAbiForHash ft abi = Inr abi"
  using assms
proof (rule parsed_abi)
  fix p structs records ms vs transitions views ims
  assume abi: "abi = JObj ([(''program'', JStr p), (''structs'', JArr structs), (''records'', JArr records), (''mappings'', JArr ms),
        (''storage_variables'', JArr vs), (''transitions'', JArr transitions)] @ list_field ''views'' views @ list_field ''implements'' ims)"
    and t: "\<forall>t \<in> set transitions. \<exists>r. normalizeFunction ft p r = Inr t" and v: "\<forall>v \<in> set views. \<exists>r. normalizeView ft p r = Inr v"
    and ct: "\<forall>t \<in> set transitions. check_entry TransitionInvalid t = Inr ()" and cv: "\<forall>v \<in> set views. check_entry ViewInvalid v = Inr ()"
  have tr: "map canonicalizeTransition transitions = transitions" "map canonicalizeView views = views"
    using t v ct cv canonical_transition canonical_view by (intro map_idI; blast)+
  have vi: "prop_of abi ''views'' = (if views = [] then JUndef else JArr views)"
    "prop_of abi ''implements'' = (if ims = [] then JUndef else JArr ims)"
    by (simp_all add: abi js_get_def list_field_def)
  have k: "kept_field ''implements'' abi = list_field ''implements'' ims"
    unfolding kept_field_def vi by (cases ims) (simp_all add: nonempty_array_def list_field_def)
  have vw: "(if nonempty_array (prop_of abi ''views'') then [(''views'', JArr (map canonicalizeView (array_elems (prop_of abi ''views''))))] else [])
      = list_field ''views'' views"
    unfolding vi using tr(2) by (cases views) (simp_all add: nonempty_array_def list_field_def array_elems_def)
  have props: "prop_of abi ''program'' = JStr p" "prop_of abi ''structs'' = JArr structs" "prop_of abi ''records'' = JArr records"
    "prop_of abi ''mappings'' = JArr ms" "prop_of abi ''storage_variables'' = JArr vs" "prop_of abi ''transitions'' = JArr transitions"
    by (simp_all add: abi js_get_def)
  have "canonicalizeAbiForHash abi = abi"
    unfolding canonicalizeAbiForHash_def k vw props by (simp add: array_elems_def tr(1)) (simp add: abi)
  then show ?thesis by (simp add: normalizeAbiForHash_def props is_array_def)
qed

section \<open>Wire formats\<close>

text \<open>
  The element of Leo 4.1, wrapped with its mode, and that of Leo 4.2, a bare variant, have the
  same normal form; a mode that says nothing is the default of the context in both.
\<close>

lemma wire_formats_agree:
  "normalizeOutput ft p ctx (JObj [(''ty'', JObj [(''Plaintext'', t)]), (''mode'', m)])
    = normalizeOutput ft p ctx (JObj [(''Plaintext'', JObj [(''ty'', t), (''mode'', m)])])"
  "normalizeOutput ft p ctx (JObj [(''ty'', JObj [(''Plaintext'', t)]), (''mode'', JStr ''None'')])
    = normalizeOutput ft p ctx (JObj [(''Plaintext'', JObj [(''ty'', t)])])"
  "normalizeOutput ft p ctx (JObj [(''ty'', JStr ''Final''), (''mode'', m)]) = normalizeOutput ft p ctx (JStr ''Final'')"
  by (simp_all add: normalizeOutput_def io_type_mode_def detectInputShape_def obj_simps nullish_type_def Let_def
      aleo_forms modeForAleoType_def canonicalizePlaintextMode_def is_mode_def normalizeAleoType_def)

section \<open>Properties\<close>

text \<open>
  C25: a stored snapshot is a fixed point: a parsed ABI that JSON keeps as it is reads back as
  itself, is its own canonical form, and has the same hash from the snapshot as from memory,
  whichever wire format it came from.
\<close>

theorem abi_snapshot_fixed_point:
  assumes "parseAbi ft (Some raw) = Inr abi" and "json_copy abi = abi"
  shows "parseAbi ft (Some (json_copy abi)) = Inr abi
    \<and> canonicalizeAbiForHash abi = abi
    \<and> computeAbiHash ft sha256 (json_copy abi) = Inr (sha256 abi)"
  using parse_fixed_lemma [OF assms(1)] canonical_abi_lemma [OF assms(1)] assms(2) by (simp add: computeAbiHash_def)

definition ex_abi_raw :: jsval where
  "ex_abi_raw = JObj [(''program'', JStr ''t.aleo''),
     (''structs'', JArr [JObj [(''name'', JStr ''S''), (''fields'', JArr [JObj [(''name'', JStr ''x''),
        (''ty'', JObj [(''Struct'', JObj [(''path'', JArr [JStr ''R'']), (''program'', JStr ''t.aleo'')])])]])]]),
     (''functions'', JArr [JObj [(''name'', JStr ''f''), (''inputs'', JArr [JObj [(''Plaintext'', JObj [(''ty'', JStr ''u8'')])]]),
        (''outputs'', JArr [JStr ''Final''])]])]"

theorem abi_snapshot_fixed_point_witness:
  "parseAbi (\<lambda>_. []) (Some (json_copy (projr (parseAbi (\<lambda>_. []) (Some ex_abi_raw))))) = parseAbi (\<lambda>_. []) (Some ex_abi_raw)"
proof -
  let ?r = "parseAbi (\<lambda>_. []) (Some ex_abi_raw)"
  have "\<not> isl ?r" and j: "json_copy (projr ?r) = projr ?r" by code_simp+
  then have "?r = Inr (projr ?r)" by simp
  from abi_snapshot_fixed_point [OF this j] show ?thesis using \<open>?r = Inr (projr ?r)\<close> by metis
qed

text \<open>
  Without that proviso a snapshot may read back differently: a view output whose type is missing
  is \<^verbatim>\<open>Public\<close> in memory, but the type is not written, and reading back makes it \<^verbatim>\<open>Private\<close>.
\<close>

lemma missing_type_not_fixed:
  "normalizeOutput ft p InView (JObj [(''Plaintext'', JNull)])
     = Inr (JObj [(''ty'', JObj [(''Plaintext'', JUndef)]), (''mode'', JStr ''Public'')])
   \<and> normalizeOutput ft p InView (json_copy (JObj [(''ty'', JObj [(''Plaintext'', JUndef)]), (''mode'', JStr ''Public'')]))
     = Inr (JObj [(''ty'', JObj []), (''mode'', JStr ''Private'')])"
  by (simp add: normalizeOutput_def io_type_mode_def detectInputShape_def obj_simps nullish_type_def Let_def json_gone_def
      canonicalizePlaintextMode_def modeForAleoType_def is_mode_def normalizeAleoType_def plaintext_leaf)

end
