(* ===== verification/DeployStore.thy ===== *)
theory DeployStore imports Abi "HOL-Library.List_Lexorder" "HOL-Library.Char_ord" begin

text \<open>
  Deployment state on disk (\<^verbatim>\<open>plugin-deploy/src/deployment-types.ts\<close>, \<^verbatim>\<open>deployment-state.ts\<close>).
  The directory \<^verbatim>\<open>deploymentsDir\<close> is a map from paths, as segments below it, to what the file
  holds: the value whose JSON it is, or text that does not parse. Writes are lists of disk
  operations, so that what a crash between two of them leaves can be stated.
\<close>

section \<open>Records\<close>

datatype record_status = StComplete | StDegraded | StRecovered

datatype deploy_action = ActDeploy | ActUpgrade

datatype network_type = NetDevnode | NetHttp

record deployment_record =
  dr_status :: record_status
  dr_programId :: string
  dr_sourceProgramId :: "string option"
  dr_network :: string
  dr_endpoint :: string
  dr_updatedAt :: string
  dr_edition :: jsval
  dr_historyCount :: int
  dr_txId :: "string option"
  dr_blockHeight :: "int option"
  dr_deployerAddress :: "string option"
  dr_deployedAt :: "string option"
  dr_feePaid :: "int option"

record history_entry =
  hx_record :: deployment_record
  hx_action :: deploy_action

record network_metadata =
  nm_type :: network_type
  nm_networkId :: string
  nm_endpoint :: string

record pending_deployment =
  pd_programId :: string
  pd_sourceProgramId :: "string option"
  pd_action :: deploy_action
  pd_txId :: "string option"
  pd_blockHeight :: "int option"
  pd_previousEdition :: jsval
  pd_startedAt :: string
  pd_deployerAddress :: string
  pd_priorityFee :: int
  pd_privateFee :: bool
  pd_network :: string
  pd_endpoint :: string

record exported_program =
  ep_programId :: string
  ep_abi :: "jsval option"
  ep_txId :: "string option"
  ep_status :: record_status

record export_bundle =
  eb_network :: string
  eb_type :: network_type
  eb_networkId :: string
  eb_endpoint :: string
  eb_exportedAt :: string
  eb_programs :: "(string, exported_program) omap"

section \<open>The disk\<close>

datatype file_content =
    FRecord deployment_record
  | FAbi jsval
  | FHistory history_entry
  | FMeta network_metadata
  | FPending pending_deployment
  | FExport export_bundle
  | FCorrupt

type_synonym file_path = "string list"

type_synonym disk = "(file_path, file_content) omap"

datatype disk_op = OpWrite file_path file_content | OpRename file_path file_path | OpUnlink file_path

fun run_op :: "disk_op \<Rightarrow> disk \<Rightarrow> disk" where
  "run_op (OpWrite p c) d = om_set p c d"
| "run_op (OpRename p q) d = (case om_get d p of None \<Rightarrow> d | Some c \<Rightarrow> om_set q c (om_delete p d))"
| "run_op (OpUnlink p) d = om_delete p d"

definition run_ops :: "disk_op list \<Rightarrow> disk \<Rightarrow> disk" where
  "run_ops ops d = fold run_op ops d"

text \<open>
  The states a crash may leave: some operations are done, and the write that was under way may
  have left part of its text.
\<close>

inductive crash_state :: "disk_op list \<Rightarrow> disk \<Rightarrow> disk \<Rightarrow> bool" for ops d where
  between: "ops = done' @ rest \<Longrightarrow> crash_state ops d (run_ops done' d)"
| partial_write: "ops = done' @ OpWrite p c # rest \<Longrightarrow> crash_state ops d (om_set p FCorrupt (run_ops done' d))"

section \<open>Paths\<close>

definition json_file :: "string \<Rightarrow> string" where "json_file n = n @ ''.json''"

definition recordPath :: "string \<Rightarrow> string \<Rightarrow> file_path" where "recordPath network programId = [network, json_file programId]"

definition abiSnapshotPath :: "string \<Rightarrow> string \<Rightarrow> file_path" where
  "abiSnapshotPath network programId = [network, programId @ ''.abi.json'']"

definition networkMetaPath :: "string \<Rightarrow> file_path" where "networkMetaPath network = [network, ''.network.json'']"

definition pendingPath :: "string \<Rightarrow> string \<Rightarrow> file_path" where
  "pendingPath network programId = [network, ''.pending'', json_file programId]"

definition historyDir :: "string \<Rightarrow> string \<Rightarrow> file_path" where "historyDir network programId = [network, ''.history'', programId]"

definition exportPath :: "string \<Rightarrow> file_path" where "exportPath network = [''_exports'', json_file network]"

definition tmp_path :: "file_path \<Rightarrow> file_path" where "tmp_path p = butlast p @ [last p @ ''.tmp'']"

definition atomicWrite :: "file_path \<Rightarrow> file_content \<Rightarrow> disk_op list" where
  "atomicWrite p c = [OpWrite (tmp_path p) c, OpRename (tmp_path p) p]"

text \<open>\<^verbatim>\<open>readdirSync\<close>: the names of the files in a directory.\<close>

definition dir_files :: "file_path \<Rightarrow> disk \<Rightarrow> string list" where
  "dir_files dir d = List.map_filter (\<lambda>p. if p \<noteq> [] \<and> butlast p = dir then Some (last p) else None) (om_keys d)"

section \<open>Reads and writes\<close>

datatype state_error = CorruptFile file_path

definition writeDeploymentRecord :: "string \<Rightarrow> deployment_record \<Rightarrow> disk_op list" where
  "writeDeploymentRecord network r = atomicWrite (recordPath network (dr_programId r)) (FRecord r)"

text \<open>A file of another kind, which the code never writes at this path, counts as corrupt.\<close>

definition readDeploymentRecord :: "string \<Rightarrow> string \<Rightarrow> disk \<Rightarrow> state_error + deployment_record option" where
  "readDeploymentRecord network programId d =
    (case om_get d (recordPath network programId) of
      None \<Rightarrow> Inr None
    | Some (FRecord r) \<Rightarrow> Inr (Some r)
    | Some _ \<Rightarrow> Inl (CorruptFile (recordPath network programId)))"

definition readAllDeploymentRecords :: "string \<Rightarrow> disk \<Rightarrow> deployment_record list" where
  "readAllDeploymentRecords network d =
    List.map_filter (\<lambda>name.
      if starts_with name ''.'' \<or> \<not> ends_with name ''.json'' \<or> ends_with name ''.abi.json'' then None
      else case om_get d [network, name] of Some (FRecord r) \<Rightarrow> Some r | _ \<Rightarrow> None) (dir_files [network] d)"

definition writeAbiSnapshot :: "string \<Rightarrow> string \<Rightarrow> jsval \<Rightarrow> disk_op list" where
  "writeAbiSnapshot network programId abi = atomicWrite (abiSnapshotPath network programId) (FAbi (json_copy abi))"

definition readAbiSnapshot :: "(jsnum \<Rightarrow> string) \<Rightarrow> string \<Rightarrow> string \<Rightarrow> disk \<Rightarrow> jsval option" where
  "readAbiSnapshot ft network programId d =
    (case om_get d (abiSnapshotPath network programId) of
      Some (FAbi j) \<Rightarrow> (case parseAbi ft (Some j) of Inr abi \<Rightarrow> Some abi | Inl _ \<Rightarrow> None)
    | _ \<Rightarrow> None)"

definition deleteAbiSnapshot :: "string \<Rightarrow> string \<Rightarrow> disk_op list" where
  "deleteAbiSnapshot network programId = [OpUnlink (abiSnapshotPath network programId)]"

definition pad_start :: "nat \<Rightarrow> char \<Rightarrow> string \<Rightarrow> string" where
  "pad_start n c s = replicate (n - length s) c @ s"

text \<open>The time stamp is the current one, with colons and dots as dashes.\<close>

definition history_stamp :: "string \<Rightarrow> string" where
  "history_stamp now = map (\<lambda>c. if c = CHR '':'' \<or> c = CHR ''.'' then CHR ''-'' else c) now"

definition appendHistory :: "string \<Rightarrow> string \<Rightarrow> string \<Rightarrow> history_entry \<Rightarrow> disk_op list" where
  "appendHistory now network programId entry =
    atomicWrite (historyDir network programId
        @ [pad_start 6 (CHR ''0'') (int_str (dr_historyCount (hx_record entry))) @ ''-'' @ history_stamp now @ ''.json''])
      (FHistory entry)"

definition readHistory :: "string \<Rightarrow> string \<Rightarrow> disk \<Rightarrow> history_entry list" where
  "readHistory network programId d =
    List.map_filter (\<lambda>f. case om_get d (historyDir network programId @ [f]) of Some (FHistory h) \<Rightarrow> Some h | _ \<Rightarrow> None)
      (sort (filter (\<lambda>f. ends_with f ''.json'') (dir_files (historyDir network programId) d)))"

definition writeNetworkMetadata :: "string \<Rightarrow> network_metadata \<Rightarrow> disk_op list" where
  "writeNetworkMetadata network meta = atomicWrite (networkMetaPath network) (FMeta meta)"

definition readNetworkMetadata :: "string \<Rightarrow> disk \<Rightarrow> network_metadata option" where
  "readNetworkMetadata network d = (case om_get d (networkMetaPath network) of Some (FMeta m) \<Rightarrow> Some m | _ \<Rightarrow> None)"

definition writePendingMarker :: "string \<Rightarrow> pending_deployment \<Rightarrow> disk_op list" where
  "writePendingMarker network pending = atomicWrite (pendingPath network (pd_programId pending)) (FPending pending)"

definition readPendingMarker :: "string \<Rightarrow> string \<Rightarrow> disk \<Rightarrow> pending_deployment option" where
  "readPendingMarker network programId d =
    (case om_get d (pendingPath network programId) of Some (FPending p) \<Rightarrow> Some p | _ \<Rightarrow> None)"

definition deletePendingMarker :: "string \<Rightarrow> string \<Rightarrow> disk \<Rightarrow> disk_op list" where
  "deletePendingMarker network programId d =
    (if om_has d (pendingPath network programId) then [OpUnlink (pendingPath network programId)] else [])"

definition listPendingMarkers :: "string \<Rightarrow> disk \<Rightarrow> string list" where
  "listPendingMarkers network d =
    map (\<lambda>f. take (length f - 5) f) (filter (\<lambda>f. ends_with f ''.json'') (dir_files [network, ''.pending''] d))"

definition writeExportBundle :: "string \<Rightarrow> export_bundle \<Rightarrow> disk_op list" where
  "writeExportBundle network bundle = atomicWrite (exportPath network) (FExport bundle)"

section \<open>The store contracts\<close>

text \<open>What a client of a keyed document store relies on, and the extension that can delete.\<close>

locale document_store =
  fixes put :: "'k \<Rightarrow> 'v \<Rightarrow> 's \<Rightarrow> 's" and fetch :: "'k \<Rightarrow> 's \<Rightarrow> 'v option" and key_ok :: "'k \<Rightarrow> bool"
  assumes fetch_put: "key_ok k \<Longrightarrow> fetch k (put k v s) = Some v"
    and fetch_other: "key_ok k \<Longrightarrow> key_ok k' \<Longrightarrow> k \<noteq> k' \<Longrightarrow> fetch k' (put k v s) = fetch k' s"
begin

lemma fetch_puts:
  assumes "\<And>kv. kv \<in> set kvs \<Longrightarrow> key_ok (fst kv)" and "key_ok k"
  shows "fetch k (fold (\<lambda>(k, v). put k v) kvs s) = (case map_of (rev kvs) k of None \<Rightarrow> fetch k s | Some v \<Rightarrow> Some v)"
  using assms
proof (induction kvs arbitrary: s rule: rev_induct)
  case (snoc kv kvs)
  obtain k' v where kv: "kv = (k', v)" by fastforce
  show ?case
  proof (cases "k' = k")
    case True
    then show ?thesis using snoc.prems kv by (simp add: fetch_put)
  next
    case False
    have "key_ok k'" using snoc.prems(1) [of kv] kv by simp
    then have "fetch k (put k' v s') = fetch k s'" for s' using fetch_other False snoc.prems(2) by blast
    then show ?thesis using snoc.IH snoc.prems kv False by simp
  qed
qed simp

lemma put_idem: "key_ok k \<Longrightarrow> fetch k (put k v (put k w s)) = Some v"
  by (rule fetch_put)

end

locale deletable_store = document_store put fetch key_ok
  for put :: "'k \<Rightarrow> 'v \<Rightarrow> 's \<Rightarrow> 's" and fetch key_ok +
  fixes del :: "'k \<Rightarrow> 's \<Rightarrow> 's"
  assumes fetch_del: "key_ok k \<Longrightarrow> fetch k (del k s) = None"
    and fetch_del_other: "key_ok k \<Longrightarrow> key_ok k' \<Longrightarrow> k \<noteq> k' \<Longrightarrow> fetch k' (del k s) = fetch k' s"
begin

lemma put_del: "key_ok k \<Longrightarrow> key_ok k' \<Longrightarrow> fetch k' (del k (put k v s)) = (if k' = k then None else fetch k' s)"
  by (simp add: fetch_del fetch_del_other fetch_other)

end

section \<open>Files\<close>

text \<open>The files the readers look at; the temporary ones of \<^verbatim>\<open>atomicWrite\<close> are none of them.\<close>

definition durable_path :: "file_path \<Rightarrow> bool" where
  "durable_path p \<longleftrightarrow> p \<noteq> [] \<and> \<not> suffix ''.tmp'' (last p)"

lemma tmp_not_durable: "durable_path p \<Longrightarrow> p \<noteq> tmp_path q"
  by (auto simp: durable_path_def tmp_path_def suffix_def)

lemma run_ops_simps [simp]:
  "run_ops [] d = d" "run_ops (x # xs) d = run_ops xs (run_op x d)" "run_ops (xs @ ys) d = run_ops ys (run_ops xs d)"
  by (simp_all add: run_ops_def)

lemma atomicWrite_get:
  "om_get (run_ops (atomicWrite p c) d) q = (if q = p then Some c else if q = tmp_path p then None else om_get d q)"
  by (auto simp: atomicWrite_def om_get_set om_get_delete)

interpretation files: deletable_store "\<lambda>p c. run_ops (atomicWrite p c)" "\<lambda>p d. om_get d p" durable_path "\<lambda>p. run_ops [OpUnlink p]"
proof unfold_locales
  fix k k' :: file_path and v and s :: disk
  show "om_get (run_ops (atomicWrite k v) s) k = Some v" by (simp add: atomicWrite_get)
  show "om_get (run_ops [OpUnlink k] s) k = None" by (simp add: om_get_delete)
  assume "durable_path k'" and "k \<noteq> k'"
  then show "om_get (run_ops (atomicWrite k v) s) k' = om_get s k'"
    and "om_get (run_ops [OpUnlink k] s) k' = om_get s k'"
    using tmp_not_durable [of k' k] by (auto simp: atomicWrite_get om_get_delete)
qed

text \<open>Two disks that the readers cannot tell apart.\<close>

definition same_files :: "disk \<Rightarrow> disk \<Rightarrow> bool" where
  "same_files d d' \<longleftrightarrow> (\<forall>p. durable_path p \<longrightarrow> om_get d p = om_get d' p)"

lemma same_files_refl [simp]: "same_files d d"
  by (simp add: same_files_def)

lemma same_files_trans: "same_files a b \<Longrightarrow> same_files b c \<Longrightarrow> same_files a c"
  by (simp add: same_files_def)

definition writes :: "(file_path \<times> file_content) list \<Rightarrow> disk_op list" where
  "writes ws = concat (map (\<lambda>(p, c). atomicWrite p c) ws)"

lemma run_writes: "run_ops (writes ws) d = fold (\<lambda>(p, c). run_ops (atomicWrite p c)) ws d"
  by (induction ws arbitrary: d) (auto simp: writes_def)

lemma writes_get:
  assumes "\<And>w. w \<in> set ws \<Longrightarrow> durable_path (fst w)" and "durable_path p"
  shows "om_get (run_ops (writes ws) d) p = (case map_of (rev ws) p of None \<Rightarrow> om_get d p | Some c \<Rightarrow> Some c)"
  unfolding run_writes by (rule files.fetch_puts [OF assms])

lemma crash_append:
  "crash_state (a @ b) d d' \<Longrightarrow> crash_state a d d' \<or> crash_state b (run_ops a d) d'"
proof (induction rule: crash_state.induct)
  case (between done' rest)
  then obtain us where "a = done' @ us \<and> us @ b = rest \<or> a @ us = done' \<and> b = us @ rest"
    by (auto simp: append_eq_append_conv2)
  then show ?case
    by (metis crash_state.between run_ops_simps(3))
next
  case (partial_write done' p c rest)
  then obtain us where "a = done' @ us \<and> us @ b = OpWrite p c # rest \<or> a @ us = done' \<and> b = us @ OpWrite p c # rest"
    by (auto simp: append_eq_append_conv2)
  then show ?case
  proof (elim disjE conjE)
    assume a: "a = done' @ us" "us @ b = OpWrite p c # rest"
    then show ?thesis
      by (cases us) (auto intro: crash_state.partial_write [of _ "[]", simplified] crash_state.partial_write)
  next
    assume "a @ us = done'" "b = us @ OpWrite p c # rest"
    then show ?thesis using crash_state.partial_write [of b us p c rest "run_ops a d"] by auto
  qed
qed

lemma crash_atomic:
  assumes "crash_state (atomicWrite p c) d d'" and "durable_path p"
  shows "same_files d d' \<or> same_files (run_ops (atomicWrite p c) d) d'"
  using assms(1)
proof (cases rule: crash_state.cases)
  case (between done' rest)
  then have "done' = [] \<or> done' = [OpWrite (tmp_path p) c] \<or> done' = atomicWrite p c"
    by (cases done'; cases "tl done'") (auto simp: atomicWrite_def)
  then show ?thesis using between(1) tmp_not_durable
    by (auto simp: same_files_def om_get_set)
next
  case (partial_write done' q e rest)
  then have "done' = []" "q = tmp_path p"
    by (cases done'; cases "tl done'"; auto simp: atomicWrite_def Cons_eq_append_conv)+
  then show ?thesis using partial_write(1) tmp_not_durable by (auto simp: same_files_def om_get_set)
qed

lemma crash_nothing: "crash_state [] d d' \<Longrightarrow> d' = d"
  by (cases rule: crash_state.cases) auto

lemma crash_unlink: "crash_state [OpUnlink p] d d' \<Longrightarrow> d' = d \<or> d' = run_ops [OpUnlink p] d"
  by (erule crash_state.cases) (auto simp: Cons_eq_append_conv append_eq_Cons_conv)

text \<open>A crash in a sequence of atomic writes leaves what some number of them leaves.\<close>

lemma crash_writes:
  assumes "crash_state (writes ws) d d'" and "\<And>w. w \<in> set ws \<Longrightarrow> durable_path (fst w)"
  shows "\<exists>n \<le> length ws. same_files (run_ops (writes (take n ws)) d) d'"
  using assms
proof (induction ws arbitrary: d)
  case Nil
  then have "d' = d" using crash_nothing by (simp add: writes_def)
  then show ?case by (intro exI [of _ 0]) (simp add: writes_def)
next
  case (Cons w ws)
  obtain p c where w: "w = (p, c)" by fastforce
  have split: "writes (w # ws) = atomicWrite p c @ writes ws" by (simp add: writes_def w)
  have dur: "durable_path p" using Cons.prems(2) [of w] w by simp
  from Cons.prems(1) consider (now) "crash_state (atomicWrite p c) d d'"
    | (later) "crash_state (writes ws) (run_ops (atomicWrite p c) d) d'"
    unfolding split using crash_append by blast
  then show ?case
  proof cases
    case now
    then consider "same_files d d'" | "same_files (run_ops (atomicWrite p c) d) d'" using crash_atomic dur by blast
    then show ?thesis
    proof cases
      case 1
      then show ?thesis by (intro exI [of _ 0]) (simp add: writes_def)
    next
      case 2
      then show ?thesis by (intro exI [of _ 1]) (simp add: writes_def w)
    qed
  next
    case later
    then obtain n where "n \<le> length ws" "same_files (run_ops (writes (take n ws)) (run_ops (atomicWrite p c) d)) d'"
      using Cons by fastforce
    then show ?thesis by (intro exI [of _ "Suc n"]) (simp add: writes_def w)
  qed
qed

section \<open>Paths do not collide\<close>

named_theorems store_paths \<open>the paths of different documents differ, and the readers see them\<close>

lemma suffix_last: "suffix s x \<Longrightarrow> s \<noteq> [] \<Longrightarrow> last x = last s"
  by (auto simp: suffix_def)

lemma durable_json: "durable_path (dir @ [x @ ''.json''])"
  using suffix_last [of "''.tmp''" "x @ ''.json''"] by (auto simp: durable_path_def)

lemma durable_record [store_paths]: "durable_path (recordPath n p)"
  using durable_json [of "[n]" p] by (simp add: recordPath_def json_file_def)

lemma durable_abi [store_paths]: "durable_path (abiSnapshotPath n p)"
  using durable_json [of "[n]" "p @ ''.abi''"] by (simp add: abiSnapshotPath_def)

lemma durable_meta [store_paths]: "durable_path (networkMetaPath n)"
  using durable_json [of "[n]" "''.network''"] by (simp add: networkMetaPath_def)

lemma durable_pending [store_paths]: "durable_path (pendingPath n p)"
  using durable_json [of "[n, ''.pending'']" p] by (simp add: pendingPath_def json_file_def)

lemma durable_export [store_paths]: "durable_path (exportPath n)"
  using durable_json [of "[''_exports'']" n] by (simp add: exportPath_def json_file_def)

lemma durable_history [store_paths]: "durable_path (historyDir n p @ [x @ ''-'' @ y @ ''.json''])"
  using durable_json [of "historyDir n p" "x @ ''-'' @ y"] by simp

lemma record_path_inj [store_paths, simp]: "recordPath n p = recordPath n' p' \<longleftrightarrow> n = n' \<and> p = p'"
  by (simp add: recordPath_def json_file_def)

lemma pending_path_inj [store_paths, simp]: "pendingPath n p = pendingPath n' p' \<longleftrightarrow> n = n' \<and> p = p'"
  by (simp add: pendingPath_def json_file_def)

lemma abi_path_inj [store_paths, simp]: "abiSnapshotPath n p = abiSnapshotPath n' p' \<longleftrightarrow> n = n' \<and> p = p'"
  by (simp add: abiSnapshotPath_def)

text \<open>Documents of one program, and those of different depth below the directory.\<close>

lemma paths_differ [store_paths, simp]:
  "recordPath n p \<noteq> abiSnapshotPath n' p" "abiSnapshotPath n' p \<noteq> recordPath n p"
  "recordPath n p \<noteq> pendingPath n' p'" "pendingPath n' p' \<noteq> recordPath n p"
  "abiSnapshotPath n p \<noteq> pendingPath n' p'" "pendingPath n' p' \<noteq> abiSnapshotPath n p"
  "networkMetaPath n \<noteq> pendingPath n' p'" "pendingPath n' p' \<noteq> networkMetaPath n"
  "exportPath n \<noteq> pendingPath n' p'" "pendingPath n' p' \<noteq> exportPath n"
  "historyDir n p @ [x] \<noteq> recordPath n' p'" "recordPath n' p' \<noteq> historyDir n p @ [x]"
  "historyDir n p @ [x] \<noteq> abiSnapshotPath n' p'" "abiSnapshotPath n' p' \<noteq> historyDir n p @ [x]"
  "historyDir n p @ [x] \<noteq> pendingPath n' p'" "pendingPath n' p' \<noteq> historyDir n p @ [x]"
  "historyDir n p @ [x] \<noteq> networkMetaPath n'" "networkMetaPath n' \<noteq> historyDir n p @ [x]"
  by (auto simp: recordPath_def abiSnapshotPath_def pendingPath_def networkMetaPath_def exportPath_def historyDir_def json_file_def)

text \<open>The ids of deployed programs end in \<^verbatim>\<open>.aleo\<close>, which keeps them off the other files of a network.\<close>

definition aleo_id :: "string \<Rightarrow> bool" where
  "aleo_id p \<longleftrightarrow> ends_with p ''.aleo''"

lemma aleo_id_paths [store_paths]:
  assumes "aleo_id p"
  shows "recordPath n p \<noteq> abiSnapshotPath n' p'" "abiSnapshotPath n' p' \<noteq> recordPath n p" "recordPath n p \<noteq> networkMetaPath n'" "networkMetaPath n' \<noteq> recordPath n p"
proof -
  have l: "last p = CHR ''o''"
    using suffix_last [of "''.aleo''" p] assms by (simp add: aleo_id_def ends_with_suffix)
  have "p = q @ ''.abi'' \<Longrightarrow> False" "p = ''.network'' \<Longrightarrow> False" for q using l by auto
  moreover have "p @ ''.json'' = q @ ''.abi.json'' \<Longrightarrow> p = q @ ''.abi''" "p @ ''.json'' = ''.network.json'' \<Longrightarrow> p = ''.network''" for q
    using append_same_eq [of p "''.json''" "q @ ''.abi''"] append_same_eq [of p "''.json''" "''.network''"] by simp_all
  ultimately show "recordPath n p \<noteq> abiSnapshotPath n' p'" "abiSnapshotPath n' p' \<noteq> recordPath n p" "recordPath n p \<noteq> networkMetaPath n'" "networkMetaPath n' \<noteq> recordPath n p"
    by (auto simp: recordPath_def abiSnapshotPath_def networkMetaPath_def json_file_def)
qed

lemma record_not_export [store_paths]: "n \<noteq> ''_exports'' \<Longrightarrow> recordPath n p \<noteq> exportPath n' \<and> abiSnapshotPath n p \<noteq> exportPath n'"
  by (auto simp: recordPath_def exportPath_def abiSnapshotPath_def)

end
