(* ===== verification/DeployManager.thy ===== *)
theory DeployManager imports DeployStore begin

text \<open>
  The deployment manager (\<^verbatim>\<open>plugin-deploy/src/deployment-manager.ts\<close>) and the chain checks it
  rests on (\<^verbatim>\<open>on-chain-check.ts\<close>). Every method runs over one state: the record and ABI caches,
  the networks whose metadata was validated, and the disk. The operations done on the disk are
  also kept in order, so that a crash in the middle of a method can be stated.
\<close>

section \<open>The chain\<close>

text \<open>What the manager reads over a connection; either read may throw.\<close>

record chain_connection =
  cn_endpoint :: string
  cn_source :: "string \<Rightarrow> string + string option"
  cn_edition :: "string \<Rightarrow> string + jsval"

datatype manager_error =
    MetadataMismatch string
  | UnverifiableState string
  | EditionUnobserved string string
  | EditionRequired string
  | AbiRequired string
  | ManagerUnavailable string string
  | ReadFailed state_error
  | AbiFailed abi_error
  | ChainFailed string
  | ConnectFailed string
  | EditionTimeout string

datatype on_chain = OnChain string jsval | OffChain

definition chainR :: "string + 'a \<Rightarrow> manager_error + 'a" where
  "chainR r = (case r of Inl e \<Rightarrow> Inl (ChainFailed e) | Inr x \<Rightarrow> Inr x)"

definition checkProgramOnChain :: "chain_connection \<Rightarrow> string \<Rightarrow> manager_error + on_chain" where
  "checkProgramOnChain cn programId =
    bindR (chainR (cn_source cn programId)) (\<lambda>source. case source of
      None \<Rightarrow> Inr OffChain
    | Some src \<Rightarrow> bindR (chainR (cn_edition cn programId)) (\<lambda>edition. Inr (OnChain src edition)))"

definition valid_edition :: "jsval \<Rightarrow> bool" where
  "valid_edition e \<longleftrightarrow> js_isInteger e \<and> (case e of JNum (Fin q) \<Rightarrow> 0 \<le> q | _ \<Rightarrow> False)"

fun edition_less :: "jsval \<Rightarrow> jsval \<Rightarrow> bool" where
  "edition_less (JNum (Fin p)) (JNum (Fin q)) = (p < q)"
| "edition_less _ _ = False"

definition getRequiredProgramEdition :: "chain_connection \<Rightarrow> string \<Rightarrow> string \<Rightarrow> manager_error + jsval" where
  "getRequiredProgramEdition cn programId description =
    bindR (chainR (cn_edition cn programId)) (\<lambda>edition.
      if valid_edition edition then Inr edition else Inl (EditionUnobserved programId description))"

definition createDegradedRecord :: "string \<Rightarrow> string \<Rightarrow> string \<Rightarrow> string \<Rightarrow> jsval \<Rightarrow> int \<Rightarrow> deployment_record" where
  "createDegradedRecord now programId network endpoint edition historyCount =
    \<lparr> dr_status = StDegraded, dr_programId = programId, dr_sourceProgramId = None, dr_network = network,
      dr_endpoint = endpoint, dr_updatedAt = now, dr_edition = edition, dr_historyCount = historyCount,
      dr_txId = None, dr_blockHeight = None, dr_deployerAddress = None, dr_deployedAt = None, dr_feePaid = None \<rparr>"

text \<open>The reads run together; the sources found are stored in the order of the ids.\<close>

definition fetchImportSources :: "chain_connection \<Rightarrow> string list \<Rightarrow> manager_error + (string, string) omap" where
  "fetchImportSources cn importIds =
    bindR (mapR (\<lambda>id. bindR (chainR (cn_source cn id)) (\<lambda>src. Inr (id, src))) importIds) (\<lambda>results.
      Inr (fold (\<lambda>(id, src) m. case src of None \<Rightarrow> m | Some s \<Rightarrow> om_set id s m) results []))"

section \<open>Waiting for an edition\<close>

text \<open>
  Time is in milliseconds. A read started at \<open>t\<close> gives \<open>pl_edition t\<close> after \<open>pl_latency t\<close>; a sleep
  lasts as long as asked and \<open>pl_drift\<close> more.
\<close>

record polled_chain =
  pl_edition :: "int \<Rightarrow> string + jsval"
  pl_latency :: "int \<Rightarrow> nat"
  pl_drift :: "int \<Rightarrow> nat"

function wait_loop :: "polled_chain \<Rightarrow> string \<Rightarrow> jsval \<Rightarrow> int \<Rightarrow> int \<Rightarrow> manager_error + jsval" where
  "wait_loop pl programId previousEdition deadline t =
    (if deadline < t then Inl (EditionTimeout programId)
     else bindR (chainR (pl_edition pl t)) (\<lambda>edition.
       if js_isInteger edition \<and> edition_less previousEdition edition then Inr edition
       else
         let t' = t + int (pl_latency pl t); remaining = deadline - t'
         in if remaining \<le> 0 then Inl (EditionTimeout programId)
            else wait_loop pl programId previousEdition deadline (t' + min 500 remaining + int (pl_drift pl t'))))"
  by pat_completeness auto

termination
  by (relation "measure (\<lambda>(pl, p, e, deadline, t). nat (deadline - t + 1))") (auto simp: Let_def)

declare wait_loop.simps [simp del]

definition waitForProgramEditionAdvance :: "polled_chain \<Rightarrow> string \<Rightarrow> jsval \<Rightarrow> int \<Rightarrow> int \<Rightarrow> manager_error + jsval" where
  "waitForProgramEditionAdvance pl programId previousEdition timeoutMs now =
    wait_loop pl programId previousEdition (now + timeoutMs) now"

section \<open>The manager's state\<close>

text \<open>\<^verbatim>\<open>Map\<close>s of \<^verbatim>\<open>Map\<close>s: by network, then by program.\<close>

type_synonym 'v nested_map = "(string, (string, 'v) omap) omap"

definition nm_get :: "'v nested_map \<Rightarrow> string \<Rightarrow> string \<Rightarrow> 'v option" where
  "nm_get m n p = (case om_get m n of None \<Rightarrow> None | Some nc \<Rightarrow> om_get nc p)"

definition nm_inner :: "'v nested_map \<Rightarrow> string \<Rightarrow> (string, 'v) omap" where
  "nm_inner m n = (case om_get m n of None \<Rightarrow> [] | Some nc \<Rightarrow> nc)"

definition nm_set :: "string \<Rightarrow> string \<Rightarrow> 'v \<Rightarrow> 'v nested_map \<Rightarrow> 'v nested_map" where
  "nm_set n p v m = om_set n (om_set p v (nm_inner m n)) m"

definition nm_delete :: "string \<Rightarrow> string \<Rightarrow> 'v nested_map \<Rightarrow> 'v nested_map" where
  "nm_delete n p m = om_set n (om_delete p (nm_inner m n)) m"

text \<open>\<^verbatim>\<open>networkCache\<close> and \<^verbatim>\<open>networkAbiCache\<close>: the inner map, created when it is missing.\<close>

definition nm_ensure :: "string \<Rightarrow> 'v nested_map \<Rightarrow> 'v nested_map" where
  "nm_ensure n m = (if om_has m n then m else om_set n [] m)"

record manager_state =
  ds_cache :: "deployment_record nested_map"
  ds_abiCache :: "jsval nested_map"
  ds_metadataValidated :: "(string, bool) omap"
  ds_disk :: disk
  ds_trace :: "disk_op list"

record deploy_network =
  dn_type :: network_type
  dn_ephemeral :: "bool option"
  dn_endpoint :: string
  dn_networkId :: string
  dn_socketAddr :: "string option"

text \<open>The network manager: the active connection, and \<^verbatim>\<open>connect(name)\<close>.\<close>

record network_access =
  na_getConnection :: "chain_connection option"
  na_connect :: "string \<Rightarrow> string + chain_connection"

text \<open>The configuration, the artifact store, and what number printing and the clock give.\<close>

record manager_env =
  me_networks :: "(string, deploy_network) omap"
  me_defaultNetwork :: string
  me_manager :: "network_access option"
  me_artifactAbi :: "string \<Rightarrow> jsval option"
  me_ft :: "jsnum \<Rightarrow> string"
  me_now :: string

type_synonym 'a manager_act = "(manager_state, manager_error, 'a) act"

definition diskA :: "disk_op list \<Rightarrow> unit manager_act" where
  "diskA ops = modifyA (\<lambda>s. s\<lparr>ds_disk := run_ops ops (ds_disk s), ds_trace := ds_trace s @ ops\<rparr>)"

definition resolveNetwork :: "manager_env \<Rightarrow> string option \<Rightarrow> string" where
  "resolveNetwork env network = (case network of None \<Rightarrow> me_defaultNetwork env | Some n \<Rightarrow> n)"

definition networkCache :: "string \<Rightarrow> unit manager_act" where
  "networkCache network = modifyA (\<lambda>s. s\<lparr>ds_cache := nm_ensure network (ds_cache s)\<rparr>)"

definition networkAbiCache :: "string \<Rightarrow> unit manager_act" where
  "networkAbiCache network = modifyA (\<lambda>s. s\<lparr>ds_abiCache := nm_ensure network (ds_abiCache s)\<rparr>)"

definition cachedRecord :: "string \<Rightarrow> string \<Rightarrow> manager_state \<Rightarrow> deployment_record option" where
  "cachedRecord network programId s = nm_get (ds_cache s) network programId"

definition cacheSet :: "string \<Rightarrow> string \<Rightarrow> deployment_record \<Rightarrow> unit manager_act" where
  "cacheSet network programId r = modifyA (\<lambda>s. s\<lparr>ds_cache := nm_set network programId r (ds_cache s)\<rparr>)"

definition cacheDelete :: "string \<Rightarrow> string \<Rightarrow> unit manager_act" where
  "cacheDelete network programId = modifyA (\<lambda>s. s\<lparr>ds_cache := nm_delete network programId (ds_cache s)\<rparr>)"

definition isEphemeral :: "manager_env \<Rightarrow> string \<Rightarrow> bool" where
  "isEphemeral env network =
    (case om_get (me_networks env) network of
      None \<Rightarrow> False
    | Some nc \<Rightarrow> (case dn_ephemeral nc of Some e \<Rightarrow> e | None \<Rightarrow> dn_type nc = NetDevnode))"

definition getCachedAbi :: "manager_env \<Rightarrow> string \<Rightarrow> string option \<Rightarrow> manager_state \<Rightarrow> jsval option" where
  "getCachedAbi env programId network s = nm_get (ds_abiCache s) (resolveNetwork env network) programId"

definition requireProgramEdition :: "string \<Rightarrow> jsval \<Rightarrow> string \<Rightarrow> manager_error + jsval" where
  "requireProgramEdition programId edition description =
    (if valid_edition edition then Inr edition else Inl (EditionUnobserved programId description))"

section \<open>Metadata\<close>

definition markValidated :: "string \<Rightarrow> unit manager_act" where
  "markValidated network = modifyA (\<lambda>s. s\<lparr>ds_metadataValidated := om_set network True (ds_metadataValidated s)\<rparr>)"

definition validateHttpMetadata :: "manager_env \<Rightarrow> string \<Rightarrow> unit manager_act" where
  "validateHttpMetadata env network =
    bindA (getA (\<lambda>s. om_get (ds_metadataValidated s) network)) (\<lambda>done'.
    if done' = Some True then returnA ()
    else case om_get (me_networks env) network of
      None \<Rightarrow> returnA ()
    | Some nc \<Rightarrow>
        if dn_type nc \<noteq> NetHttp then returnA ()
        else bindA (getA (\<lambda>s. readNetworkMetadata network (ds_disk s))) (\<lambda>meta. case meta of
            Some m \<Rightarrow>
              if nm_type m \<noteq> NetHttp \<or> nm_networkId m \<noteq> dn_networkId nc \<or> nm_endpoint m \<noteq> dn_endpoint nc
              then throwA (MetadataMismatch network)
              else markValidated network
          | None \<Rightarrow>
              bindA (getA (\<lambda>s. readAllDeploymentRecords network (ds_disk s))) (\<lambda>records.
                if records \<noteq> [] then throwA (UnverifiableState network) else markValidated network)))"

section \<open>Reads\<close>

definition readRecordA :: "string \<Rightarrow> string \<Rightarrow> deployment_record option manager_act" where
  "readRecordA network programId = (\<lambda>s.
    (case readDeploymentRecord network programId (ds_disk s) of Inl e \<Rightarrow> Inl (ReadFailed e) | Inr r \<Rightarrow> Inr r, s))"

text \<open>\<^verbatim>\<open>nc.get(programId) ?? (ephemeral ? null : readDeploymentRecord(...))\<close>\<close>

definition existingRecord :: "manager_env \<Rightarrow> string \<Rightarrow> string \<Rightarrow> deployment_record option manager_act" where
  "existingRecord env net programId =
    bindA (getA (cachedRecord net programId)) (\<lambda>cached. case cached of
      Some r \<Rightarrow> returnA (Some r)
    | None \<Rightarrow> if isEphemeral env net then returnA None else readRecordA net programId)"

definition getDevnodeDeployment :: "manager_env \<Rightarrow> string \<Rightarrow> string \<Rightarrow> deployment_record option manager_act" where
  "getDevnodeDeployment env net programId =
    (case Option.bind (me_manager env) na_getConnection of
      None \<Rightarrow> getA (cachedRecord net programId)
    | Some connection \<Rightarrow>
        bindA (liftA (checkProgramOnChain connection programId)) (\<lambda>onChain. case onChain of
          OffChain \<Rightarrow> bindA (cacheDelete net programId) (\<lambda>_. returnA None)
        | OnChain src edition \<Rightarrow>
            bindA (existingRecord env net programId) (\<lambda>existing. case existing of
              Some r \<Rightarrow> bindA (cacheSet net programId r) (\<lambda>_. returnA (Some r))
            | None \<Rightarrow>
                bindA (liftA (requireProgramEdition programId edition ''create degraded deployment record'')) (\<lambda>observed.
                  let degraded = createDegradedRecord (me_now env) programId net (cn_endpoint connection) observed 0
                  in bindA (cacheSet net programId degraded) (\<lambda>_. returnA (Some degraded))))))"

definition getHttpDeployment :: "manager_env \<Rightarrow> string \<Rightarrow> string \<Rightarrow> deployment_record option manager_act" where
  "getHttpDeployment env net programId =
    bindA (validateHttpMetadata env net) (\<lambda>_.
    bindA (existingRecord env net programId) (\<lambda>existing. case existing of
      None \<Rightarrow> returnA None
    | Some r \<Rightarrow> (case me_manager env of
        None \<Rightarrow> throwA (ManagerUnavailable programId net)
      | Some manager \<Rightarrow>
          bindA (liftA (case na_connect manager net of Inl e \<Rightarrow> Inl (ConnectFailed e) | Inr c \<Rightarrow> Inr c)) (\<lambda>connection.
          bindA (liftA (checkProgramOnChain connection programId)) (\<lambda>onChain. case onChain of
            OffChain \<Rightarrow> bindA (cacheDelete net programId) (\<lambda>_. returnA None)
          | OnChain src edition \<Rightarrow> bindA (cacheSet net programId r) (\<lambda>_. returnA (Some r)))))))"

definition net_type :: "manager_env \<Rightarrow> string \<Rightarrow> network_type option" where
  "net_type env net = map_option dn_type (om_get (me_networks env) net)"

definition getDeployment :: "manager_env \<Rightarrow> string \<Rightarrow> string option \<Rightarrow> deployment_record option manager_act" where
  "getDeployment env programId network =
    (let net = resolveNetwork env network in
     bindA (networkCache net) (\<lambda>_.
       if net_type env net = Some NetDevnode then getDevnodeDeployment env net programId
       else if isEphemeral env net then getA (cachedRecord net programId)
       else getHttpDeployment env net programId))"

text \<open>The loop of both validated listings: the candidates that are still deployed.\<close>

definition validatedRecords :: "manager_env \<Rightarrow> string \<Rightarrow> string list \<Rightarrow> deployment_record list manager_act" where
  "validatedRecords env net ids =
    foldA (\<lambda>records programId. bindA (getDeployment env programId (Some net)) (\<lambda>r.
      returnA (case r of None \<Rightarrow> records | Some r \<Rightarrow> records @ [r]))) [] ids"

definition candidateIds :: "string \<Rightarrow> bool \<Rightarrow> manager_state \<Rightarrow> string list" where
  "candidateIds net disk_too s =
    js_dedup (om_keys (nm_inner (ds_cache s) net)
      @ (if disk_too then map dr_programId (readAllDeploymentRecords net (ds_disk s)) else []))"

definition cachedRecords :: "string \<Rightarrow> manager_state \<Rightarrow> deployment_record list" where
  "cachedRecords net s = map snd (nm_inner (ds_cache s) net)"

definition getAllDeployments :: "manager_env \<Rightarrow> string option \<Rightarrow> deployment_record list manager_act" where
  "getAllDeployments env network =
    (let net = resolveNetwork env network in
     bindA (networkCache net) (\<lambda>_.
       if net_type env net = Some NetDevnode then
         (if Option.bind (me_manager env) na_getConnection = None then getA (cachedRecords net)
          else bindA (getA (candidateIds net (\<not> isEphemeral env net))) (validatedRecords env net))
       else if isEphemeral env net then getA (cachedRecords net)
       else bindA (if net_type env net = Some NetHttp then validateHttpMetadata env net else returnA ()) (\<lambda>_.
         bindA (getA (candidateIds net True)) (validatedRecords env net))))"

definition isDeployed :: "manager_env \<Rightarrow> string \<Rightarrow> string option \<Rightarrow> bool manager_act" where
  "isDeployed env programId network = bindA (getDeployment env programId network) (\<lambda>r. returnA (r \<noteq> None))"

definition getHistory :: "manager_env \<Rightarrow> string \<Rightarrow> string option \<Rightarrow> history_entry list manager_act" where
  "getHistory env programId network =
    (let net = resolveNetwork env network in
     if isEphemeral env net then returnA [] else getA (\<lambda>s. readHistory net programId (ds_disk s)))"

definition getCached :: "manager_env \<Rightarrow> string \<Rightarrow> string option \<Rightarrow> deployment_record option manager_act" where
  "getCached env programId network =
    bindA (networkCache (resolveNetwork env network)) (\<lambda>_. getA (cachedRecord (resolveNetwork env network) programId))"

definition isCachedDeployed :: "manager_env \<Rightarrow> string \<Rightarrow> string option \<Rightarrow> bool manager_act" where
  "isCachedDeployed env programId network = bindA (getCached env programId network) (\<lambda>r. returnA (r \<noteq> None))"

section \<open>Recording\<close>

text \<open>\<^verbatim>\<open>RecordOptions\<close>: the ABI, and what overrides the history entry.\<close>

record record_options =
  ro_abi :: "jsval option"
  ro_record :: "deployment_record option"
  ro_action :: "deploy_action option"

definition no_options :: record_options where
  "no_options = \<lparr> ro_abi = None, ro_record = None, ro_action = None \<rparr>"

definition history_of :: "deployment_record \<Rightarrow> deploy_action \<Rightarrow> record_options \<Rightarrow> history_entry" where
  "history_of r action opts =
    \<lparr> hx_record = (case ro_record opts of None \<Rightarrow> r | Some r' \<Rightarrow> r'),
      hx_action = (case ro_action opts of None \<Rightarrow> action | Some a \<Rightarrow> a) \<rparr>"

definition recordMetadata :: "manager_env \<Rightarrow> string \<Rightarrow> unit manager_act" where
  "recordMetadata env net =
    (case om_get (me_networks env) net of
      None \<Rightarrow> returnA ()
    | Some nc \<Rightarrow>
        if dn_type nc \<noteq> NetHttp then returnA ()
        else bindA (getA (\<lambda>s. readNetworkMetadata net (ds_disk s))) (\<lambda>meta. case meta of
            Some m \<Rightarrow> returnA ()
          | None \<Rightarrow> bindA (diskA (writeNetworkMetadata net
                \<lparr> nm_type = NetHttp, nm_networkId = dn_networkId nc, nm_endpoint = dn_endpoint nc \<rparr>))
              (\<lambda>_. markValidated net)))"

definition persistRecord :: "manager_env \<Rightarrow> deployment_record \<Rightarrow> deploy_action \<Rightarrow> record_options \<Rightarrow> unit manager_act" where
  "persistRecord env r action opts =
    bindA (recordMetadata env (dr_network r)) (\<lambda>_.
    bindA (case ro_abi opts of None \<Rightarrow> returnA () | Some abi \<Rightarrow> diskA (writeAbiSnapshot (dr_network r) (dr_programId r) abi)) (\<lambda>_.
    bindA (diskA (writeDeploymentRecord (dr_network r) r)) (\<lambda>_.
    diskA (appendHistory (me_now env) (dr_network r) (dr_programId r) (history_of r action opts)))))"

definition cacheAbi :: "manager_env \<Rightarrow> string \<Rightarrow> string \<Rightarrow> jsval option \<Rightarrow> unit manager_act" where
  "cacheAbi env net programId abi =
    (case abi of
      None \<Rightarrow> returnA ()
    | Some raw \<Rightarrow>
        bindA (liftA (case parseAbi (me_ft env) (Some (json_copy raw)) of Inl e \<Rightarrow> Inl (AbiFailed e) | Inr a \<Rightarrow> Inr a)) (\<lambda>normalized.
        bindA (networkAbiCache net) (\<lambda>_.
        modifyA (\<lambda>s. s\<lparr>ds_abiCache := nm_set net programId normalized (ds_abiCache s)\<rparr>))))"

definition deletePendingA :: "string \<Rightarrow> string \<Rightarrow> unit manager_act" where
  "deletePendingA network programId = (\<lambda>s. diskA (deletePendingMarker network programId (ds_disk s)) s)"

definition record_deployment :: "manager_env \<Rightarrow> deployment_record \<Rightarrow> deploy_action \<Rightarrow> record_options \<Rightarrow> unit manager_act" where
  "record_deployment env r action opts =
    (let net = dr_network r; programId = dr_programId r; ephemeral = isEphemeral env net in
     if \<not> valid_edition (dr_edition r) then throwA (EditionRequired programId)
     else if dr_status r = StComplete \<and> ro_abi opts = None then throwA (AbiRequired programId)
     else bindA (if ephemeral then returnA () else persistRecord env r action opts) (\<lambda>_.
          bindA (cacheAbi env net programId (ro_abi opts)) (\<lambda>_.
          bindA (networkCache net) (\<lambda>_.
          bindA (cacheSet net programId r) (\<lambda>_.
          if ephemeral then returnA () else deletePendingA net programId)))))"

definition setPending :: "manager_env \<Rightarrow> pending_deployment \<Rightarrow> unit manager_act" where
  "setPending env pending =
    (if isEphemeral env (pd_network pending) then returnA () else diskA (writePendingMarker (pd_network pending) pending))"

definition getPending :: "manager_env \<Rightarrow> string \<Rightarrow> string \<Rightarrow> pending_deployment option manager_act" where
  "getPending env network programId =
    (if isEphemeral env network then returnA None
     else bindA (validateHttpMetadata env network) (\<lambda>_. getA (\<lambda>s. readPendingMarker network programId (ds_disk s))))"

definition clearPending :: "manager_env \<Rightarrow> string \<Rightarrow> string \<Rightarrow> unit manager_act" where
  "clearPending env network programId =
    (if isEphemeral env network then returnA () else deletePendingA network programId)"

section \<open>Recovery\<close>

text \<open>What the chain says about a marker: nothing to recover, wait, or the edition to record.\<close>

datatype recovery = DropMarker | KeepMarker | RecoverAs jsval

definition recovery_of :: "string \<Rightarrow> pending_deployment \<Rightarrow> on_chain \<Rightarrow> manager_error + recovery" where
  "recovery_of programId marker onChain =
    (case onChain of
      OffChain \<Rightarrow> Inr DropMarker
    | OnChain src edition \<Rightarrow>
        (case pd_action marker of
          ActDeploy \<Rightarrow> Inr (RecoverAs (if valid_edition edition then edition else jint 0))
        | ActUpgrade \<Rightarrow>
            bindR (requireProgramEdition programId edition ''recover pending deployment'') (\<lambda>recovered.
              if \<not> valid_edition (pd_previousEdition marker) then Inr DropMarker
              else if \<not> edition_less (pd_previousEdition marker) recovered
              then Inr (if pd_blockHeight marker = None then DropMarker else KeepMarker)
              else Inr (RecoverAs recovered))))"

definition recovered_record :: "manager_env \<Rightarrow> string \<Rightarrow> chain_connection \<Rightarrow> string \<Rightarrow> pending_deployment \<Rightarrow> jsval
    \<Rightarrow> deployment_record option \<Rightarrow> deployment_record" where
  "recovered_record env network connection programId marker edition existing =
    \<lparr> dr_status = StRecovered, dr_programId = programId, dr_sourceProgramId = pd_sourceProgramId marker,
      dr_network = network, dr_endpoint = cn_endpoint connection, dr_updatedAt = me_now env, dr_edition = edition,
      dr_historyCount = (case existing of None \<Rightarrow> 0 | Some r \<Rightarrow> dr_historyCount r + 1),
      dr_txId = pd_txId marker, dr_blockHeight = pd_blockHeight marker,
      dr_deployerAddress = Some (pd_deployerAddress marker), dr_deployedAt = Some (pd_startedAt marker), dr_feePaid = None \<rparr>"

definition recover_marker :: "manager_env \<Rightarrow> string \<Rightarrow> chain_connection \<Rightarrow> deployment_record list \<Rightarrow> string
    \<Rightarrow> deployment_record list manager_act" where
  "recover_marker env network connection recovered programId =
    bindA (getA (\<lambda>s. readPendingMarker network programId (ds_disk s))) (\<lambda>found. case found of
      None \<Rightarrow> returnA recovered
    | Some marker \<Rightarrow>
        bindA (liftA (checkProgramOnChain connection programId)) (\<lambda>onChain.
        bindA (liftA (recovery_of programId marker onChain)) (\<lambda>what. case what of
          DropMarker \<Rightarrow> bindA (deletePendingA network programId) (\<lambda>_. returnA recovered)
        | KeepMarker \<Rightarrow> returnA recovered
        | RecoverAs edition \<Rightarrow>
            bindA (networkCache network) (\<lambda>_.
            bindA (existingRecord env network programId) (\<lambda>existing.
              let r = recovered_record env network connection programId marker edition existing
              in bindA (record_deployment env r (pd_action marker) (no_options\<lparr>ro_action := Some (pd_action marker)\<rparr>))
                   (\<lambda>_. returnA (recovered @ [r])))))))"

definition recoverPendingDeployments :: "manager_env \<Rightarrow> string \<Rightarrow> chain_connection \<Rightarrow> deployment_record list manager_act" where
  "recoverPendingDeployments env network connection =
    (if isEphemeral env network then returnA []
     else bindA (validateHttpMetadata env network) (\<lambda>_.
       bindA (getA (\<lambda>s. listPendingMarkers network (ds_disk s))) (\<lambda>ids.
         foldA (recover_marker env network connection) [] ids)))"

section \<open>Export and session\<close>

definition first_some :: "'a option \<Rightarrow> 'a option \<Rightarrow> 'a option" where
  "first_some a b = (case a of None \<Rightarrow> b | Some x \<Rightarrow> Some x)"

definition exported_of :: "manager_env \<Rightarrow> string \<Rightarrow> manager_state \<Rightarrow> deployment_record \<Rightarrow> exported_program" where
  "exported_of env net s r =
    \<lparr> ep_programId = dr_programId r,
      ep_abi = first_some (if isEphemeral env net then None else readAbiSnapshot (me_ft env) net (dr_programId r) (ds_disk s))
        (first_some (getCachedAbi env (dr_programId r) (Some net) s) (me_artifactAbi env (dr_programId r))),
      ep_txId = (if dr_status r = StComplete then dr_txId r else None),
      ep_status = dr_status r \<rparr>"

definition export_endpoint :: "deploy_network option \<Rightarrow> string" where
  "export_endpoint nc =
    (case nc of
      None \<Rightarrow> ''unknown''
    | Some c \<Rightarrow> if dn_type c = NetHttp then dn_endpoint c
        else ''http://'' @ (case dn_socketAddr c of None \<Rightarrow> ''127.0.0.1:3030'' | Some a \<Rightarrow> a))"

definition export_deployments :: "manager_env \<Rightarrow> string option \<Rightarrow> export_bundle manager_act" where
  "export_deployments env network =
    (let net = resolveNetwork env network; nc = om_get (me_networks env) net in
     bindA (getAllDeployments env (Some net)) (\<lambda>records.
     bindA (getA (\<lambda>s. fold (\<lambda>r ps. om_set (dr_programId r) (exported_of env net s r) ps) records [])) (\<lambda>programs.
       let bundle = \<lparr> eb_network = net,
             eb_type = (case nc of None \<Rightarrow> NetDevnode | Some c \<Rightarrow> dn_type c),
             eb_networkId = (case nc of None \<Rightarrow> ''testnet'' | Some c \<Rightarrow> dn_networkId c),
             eb_endpoint = export_endpoint nc, eb_exportedAt = me_now env, eb_programs = programs \<rparr>
       in bindA (diskA (writeExportBundle net bundle)) (\<lambda>_. returnA bundle))))"

definition invalidateSession :: "string \<Rightarrow> unit manager_act" where
  "invalidateSession network = modifyA (\<lambda>s. s\<lparr>ds_cache := om_delete network (ds_cache s),
    ds_abiCache := om_delete network (ds_abiCache s), ds_metadataValidated := om_delete network (ds_metadataValidated s)\<rparr>)"

section \<open>Caches\<close>

lemma nm_get_set [js_map]: "nm_get (nm_set n p v m) n' p' = (if n' = n \<and> p' = p then Some v else nm_get m n' p')"
  by (auto simp: nm_get_def nm_set_def nm_inner_def om_get_set split: option.splits)

lemma nm_get_delete [js_map]: "nm_get (nm_delete n p m) n' p' = (if n' = n \<and> p' = p then None else nm_get m n' p')"
  by (auto simp: nm_get_def nm_delete_def nm_inner_def om_get_set om_get_delete split: option.splits)

lemma nm_get_ensure [simp]: "nm_get (nm_ensure n m) = nm_get m"
  by (auto simp: fun_eq_iff nm_get_def nm_ensure_def om_has_def om_get_set split: option.splits)

lemma nm_inner_get: "om_get (nm_inner m n) p = nm_get m n p"
  by (simp add: nm_inner_def nm_get_def split: option.splits)

interpretation nested: deletable_store "\<lambda>k. nm_set (fst k) (snd k)" "\<lambda>k m. nm_get m (fst k) (snd k)" "\<lambda>_. True"
    "\<lambda>k. nm_delete (fst k) (snd k)"
  by unfold_locales (auto simp: js_map prod_eq_iff)

section \<open>What recording does to the disk\<close>

lemma diskA_run [simp]: "diskA ops s = (Inr (), s\<lparr>ds_disk := run_ops ops (ds_disk s), ds_trace := ds_trace s @ ops\<rparr>)"
  by (simp add: diskA_def)

lemma networkCache_run [simp]: "networkCache n s = (Inr (), s\<lparr>ds_cache := nm_ensure n (ds_cache s)\<rparr>)"
  by (simp add: networkCache_def)

lemma cache_run [simp]:
  "cacheSet n p r s = (Inr (), s\<lparr>ds_cache := nm_set n p r (ds_cache s)\<rparr>)"
  "cacheDelete n p s = (Inr (), s\<lparr>ds_cache := nm_delete n p (ds_cache s)\<rparr>)"
  "markValidated n s = (Inr (), s\<lparr>ds_metadataValidated := om_set n True (ds_metadataValidated s)\<rparr>)"
  by (simp_all add: cacheSet_def cacheDelete_def markValidated_def)

lemma deletePendingA_run:
  "deletePendingA n p s = (Inr (), s\<lparr>ds_disk := run_ops (deletePendingMarker n p (ds_disk s)) (ds_disk s),
    ds_trace := ds_trace s @ deletePendingMarker n p (ds_disk s)\<rparr>)"
  by (simp add: deletePendingA_def)

text \<open>The documents \<^verbatim>\<open>record()\<close> writes, in order.\<close>

definition metadata_docs :: "manager_env \<Rightarrow> string \<Rightarrow> disk \<Rightarrow> (file_path \<times> file_content) list" where
  "metadata_docs env net d =
    (case om_get (me_networks env) net of
      None \<Rightarrow> []
    | Some nc \<Rightarrow> if dn_type nc = NetHttp \<and> readNetworkMetadata net d = None
        then [(networkMetaPath net, FMeta \<lparr> nm_type = NetHttp, nm_networkId = dn_networkId nc, nm_endpoint = dn_endpoint nc \<rparr>)] else [])"

definition history_path :: "manager_env \<Rightarrow> deployment_record \<Rightarrow> deploy_action \<Rightarrow> record_options \<Rightarrow> file_path" where
  "history_path env r action opts = historyDir (dr_network r) (dr_programId r)
    @ [pad_start 6 (CHR ''0'') (int_str (dr_historyCount (hx_record (history_of r action opts)))) @ ''-'' @ history_stamp (me_now env) @ ''.json'']"

definition record_docs :: "manager_env \<Rightarrow> disk \<Rightarrow> deployment_record \<Rightarrow> deploy_action \<Rightarrow> record_options
    \<Rightarrow> (file_path \<times> file_content) list" where
  "record_docs env d r action opts =
    metadata_docs env (dr_network r) d
    @ (case ro_abi opts of None \<Rightarrow> [] | Some abi \<Rightarrow> [(abiSnapshotPath (dr_network r) (dr_programId r), FAbi (json_copy abi))])
    @ [(recordPath (dr_network r) (dr_programId r), FRecord r),
       (history_path env r action opts, FHistory (history_of r action opts))]"

lemma writes_simps [simp]: "writes [] = []" "writes (w # ws) = atomicWrite (fst w) (snd w) @ writes ws" "writes (us @ ws) = writes us @ writes ws"
  by (simp_all add: writes_def split_beta)

lemma recordMetadata_run:
  "\<exists>v. recordMetadata env net s = (Inr (), s\<lparr>ds_disk := run_ops (writes (metadata_docs env net (ds_disk s))) (ds_disk s),
      ds_trace := ds_trace s @ writes (metadata_docs env net (ds_disk s)), ds_metadataValidated := v\<rparr>)"
  by (cases "om_get (me_networks env) net"; cases "readNetworkMetadata net (ds_disk s)")
    (auto simp: recordMetadata_def metadata_docs_def bindA_def writeNetworkMetadata_def intro: exI [of _ "ds_metadataValidated s"])

lemma persistRecord_run:
  "\<exists>v. persistRecord env r action opts s = (Inr (), s\<lparr>ds_disk := run_ops (writes (record_docs env (ds_disk s) r action opts)) (ds_disk s),
      ds_trace := ds_trace s @ writes (record_docs env (ds_disk s) r action opts), ds_metadataValidated := v\<rparr>)"
proof -
  obtain v where v: "recordMetadata env (dr_network r) s = (Inr (), s\<lparr>ds_disk := run_ops (writes (metadata_docs env (dr_network r) (ds_disk s))) (ds_disk s),
      ds_trace := ds_trace s @ writes (metadata_docs env (dr_network r) (ds_disk s)), ds_metadataValidated := v\<rparr>)"
    using recordMetadata_run by blast
  show ?thesis
    by (rule exI [of _ v], cases "ro_abi opts")
      (simp_all add: persistRecord_def bindA_def v record_docs_def writeAbiSnapshot_def writeDeploymentRecord_def appendHistory_def history_path_def)
qed

text \<open>A recording either writes nothing, or all its documents; only then is the marker removed.\<close>

lemma record_deployment_disk:
  assumes "record_deployment env r action opts s = (res, s')" and "\<not> isEphemeral env (dr_network r)"
  shows "ds_trace s' = ds_trace s \<and> ds_disk s' = ds_disk s \<and> isl res
    \<or> ds_trace s' = ds_trace s @ writes (record_docs env (ds_disk s) r action opts)
      \<and> ds_disk s' = run_ops (writes (record_docs env (ds_disk s) r action opts)) (ds_disk s) \<and> isl res
    \<or> (let d = run_ops (writes (record_docs env (ds_disk s) r action opts)) (ds_disk s);
           del = deletePendingMarker (dr_network r) (dr_programId r) d
       in ds_trace s' = ds_trace s @ writes (record_docs env (ds_disk s) r action opts) @ del
        \<and> ds_disk s' = run_ops del d \<and> res = Inr () \<and> cachedRecord (dr_network r) (dr_programId r) s' = Some r)"
proof -
  obtain v where v: "persistRecord env r action opts s = (Inr (), s\<lparr>ds_disk := run_ops (writes (record_docs env (ds_disk s) r action opts)) (ds_disk s),
      ds_trace := ds_trace s @ writes (record_docs env (ds_disk s) r action opts), ds_metadataValidated := v\<rparr>)"
    using persistRecord_run by blast
  show ?thesis
    using assms unfolding record_deployment_def
    by (cases "ro_abi opts")
      (auto simp: Let_def bindA_def v cacheAbi_def networkAbiCache_def deletePendingA_run cachedRecord_def nm_get_set
        split: if_splits sum.splits)
qed

section \<open>Crashes while recording\<close>

lemma history_path_differs [simp]:
  "history_path env r a o' \<noteq> recordPath n p" "recordPath n p \<noteq> history_path env r a o'"
  "history_path env r a o' \<noteq> abiSnapshotPath n p" "abiSnapshotPath n p \<noteq> history_path env r a o'"
  "history_path env r a o' \<noteq> pendingPath n p" "pendingPath n p \<noteq> history_path env r a o'"
  "history_path env r a o' \<noteq> networkMetaPath n" "networkMetaPath n \<noteq> history_path env r a o'"
  by (simp_all add: history_path_def)

lemma durable_history_path [store_paths]: "durable_path (history_path env r a o')"
  unfolding history_path_def by (rule durable_history)

lemma record_docs_durable: "(p, c) \<in> set (record_docs env d r a o') \<Longrightarrow> durable_path p"
  by (auto simp: record_docs_def metadata_docs_def store_paths split: option.splits if_splits)

lemma record_docs_not_pending: "(pendingPath n p, c) \<notin> set (record_docs env d r a o')"
  by (auto simp: record_docs_def metadata_docs_def split: option.splits if_splits)

lemma writes_get_other:
  assumes "\<And>w. w \<in> set ws \<Longrightarrow> durable_path (fst w) \<and> fst w \<noteq> p" and "durable_path p"
  shows "om_get (run_ops (writes ws) d) p = om_get d p"
proof -
  have "map_of (rev ws) p = None" using assms(1) by (force simp: map_of_eq_None_iff)
  then show ?thesis using writes_get [of ws p d] assms by simp
qed

lemma take_record_docs_pending:
  "om_get (run_ops (writes (take n (record_docs env d0 r a o'))) d) (pendingPath m p) = om_get d (pendingPath m p)"
  by (rule writes_get_other) (auto dest!: in_set_takeD simp: record_docs_not_pending durable_pending intro: record_docs_durable)

lemma record_docs_get:
  "durable_path p \<Longrightarrow> om_get (run_ops (writes (record_docs env d r a opts)) d) p
    = (case map_of (rev (record_docs env d r a opts)) p of None \<Rightarrow> om_get d p | Some c \<Rightarrow> Some c)"
  by (rule writes_get) (auto intro: record_docs_durable)

lemma run_record_docs:
  fixes d :: disk
  assumes "aleo_id (dr_programId r)"
  shows "om_get (run_ops (writes (record_docs env d r a opts)) d) (recordPath (dr_network r) (dr_programId r)) = Some (FRecord r)"
    and "om_get (run_ops (writes (record_docs env d r a opts)) d) (history_path env r a opts) = Some (FHistory (history_of r a opts))"
    and "ro_abi opts = Some abi \<Longrightarrow>
      om_get (run_ops (writes (record_docs env d r a opts)) d) (abiSnapshotPath (dr_network r) (dr_programId r)) = Some (FAbi (json_copy abi))"
  using assms
  by (simp_all add: record_docs_get store_paths) (simp_all add: record_docs_def map_add_def)

text \<open>Up to the record itself, the record read back is the earlier one or the new one.\<close>

lemma take_record_docs_record:
  assumes "aleo_id (dr_programId r)"
  shows "om_get (run_ops (writes (take n (record_docs env d r a opts))) d) (recordPath (dr_network r) (dr_programId r))
    \<in> {om_get d (recordPath (dr_network r) (dr_programId r)), Some (FRecord r)}"
proof -
  let ?p = "recordPath (dr_network r) (dr_programId r)"
  have "map_of (rev (take n (record_docs env d r a opts))) ?p \<in> {None, Some (FRecord r)}"
  proof (cases "map_of (rev (take n (record_docs env d r a opts))) ?p")
    case (Some c)
    then have "(?p, c) \<in> set (record_docs env d r a opts)"
      by (auto dest!: map_of_SomeD in_set_takeD)
    then show ?thesis using Some assms
      by (auto simp: record_docs_def metadata_docs_def store_paths split: option.splits if_splits)
  qed simp
  then show ?thesis
    by (subst writes_get) (auto dest!: in_set_takeD simp: durable_record intro: record_docs_durable)
qed

lemma readPending_cong: "om_get d (pendingPath n p) = om_get d' (pendingPath n p) \<Longrightarrow> readPendingMarker n p d = readPendingMarker n p d'"
  by (simp add: readPendingMarker_def)

lemma readRecord_cong: "om_get d (recordPath n p) = om_get d' (recordPath n p) \<Longrightarrow> readDeploymentRecord n p d = readDeploymentRecord n p d'"
  by (simp add: readDeploymentRecord_def)

lemma dir_files_set: "set (dir_files dir d) = last ` {p \<in> set (om_keys d). p \<noteq> [] \<and> butlast p = dir}"
  by (auto simp: dir_files_def map_filter_def)

lemma dir_files_get: "om_get d (dir @ [f]) = Some c \<Longrightarrow> f \<in> set (dir_files dir d)"
proof -
  assume "om_get d (dir @ [f]) = Some c"
  then have "dir @ [f] \<in> set (om_keys d)" by (force dest: map_of_SomeD)
  then have "dir @ [f] \<in> {p \<in> set (om_keys d). p \<noteq> [] \<and> butlast p = dir}" by simp
  then have "last (dir @ [f]) \<in> last ` {p \<in> set (om_keys d). p \<noteq> [] \<and> butlast p = dir}" by (rule imageI)
  then show ?thesis by (simp add: dir_files_set)
qed

lemma readHistory_member:
  assumes "om_get d (historyDir n p @ [x @ ''-'' @ y @ ''.json'']) = Some (FHistory h)"
  shows "h \<in> set (readHistory n p d)"
proof -
  have "ends_with (x @ ''-'' @ y @ ''.json'') ''.json''"
    using suffixI [of "x @ ''-'' @ y @ ''.json''" "x @ ''-'' @ y" "''.json''"] by (simp add: ends_with_suffix)
  then show ?thesis using dir_files_get [OF assms] assms
    by (force simp: readHistory_def map_filter_def)
qed

lemma same_files_get: "same_files d d' \<Longrightarrow> durable_path p \<Longrightarrow> om_get d' p = om_get d p"
  by (simp add: same_files_def)

text \<open>What a reader finds once a recording is complete on disk.\<close>

definition recorded :: "manager_env \<Rightarrow> deployment_record \<Rightarrow> deploy_action \<Rightarrow> record_options \<Rightarrow> disk \<Rightarrow> bool" where
  "recorded env r action opts d \<longleftrightarrow>
    readDeploymentRecord (dr_network r) (dr_programId r) d = Inr (Some r)
    \<and> history_of r action opts \<in> set (readHistory (dr_network r) (dr_programId r) d)
    \<and> (case ro_abi opts of None \<Rightarrow> True
      | Some abi \<Rightarrow> om_get d (abiSnapshotPath (dr_network r) (dr_programId r)) = Some (FAbi (json_copy abi)))"

lemma recorded_get:
  assumes "om_get d (recordPath (dr_network r) (dr_programId r)) = Some (FRecord r)"
    and "om_get d (history_path env r a opts) = Some (FHistory (history_of r a opts))"
    and "\<And>abi. ro_abi opts = Some abi \<Longrightarrow> om_get d (abiSnapshotPath (dr_network r) (dr_programId r)) = Some (FAbi (json_copy abi))"
  shows "recorded env r a opts d"
  using assms readHistory_member by (auto simp: recorded_def readDeploymentRecord_def history_path_def split: option.splits)

lemma crash_record_docs:
  assumes "crash_state (writes (record_docs env d r a opts)) d d'"
  obtains n where "same_files (run_ops (writes (take n (record_docs env d r a opts))) d) d'"
  using crash_writes [OF assms] record_docs_durable by (metis prod.collapse)

lemma deletePending_cases: "deletePendingMarker n p d = [] \<or> deletePendingMarker n p d = [OpUnlink (pendingPath n p)]"
  by (simp add: deletePendingMarker_def)

lemma recorded_after_docs: "aleo_id (dr_programId r) \<Longrightarrow> recorded env r a opts (run_ops (writes (record_docs env d r a opts)) d)"
  by (rule recorded_get) (rule run_record_docs; assumption)+

lemma unlink_get: "om_get (run_ops [OpUnlink q] d) p = (if p = q then None else om_get d p)"
  by (simp add: om_get_delete)

lemma deletePending_get:
  "om_get (run_ops (deletePendingMarker n p d) d) q = (if q = pendingPath n p then None else om_get d q)"
  by (auto simp: deletePendingMarker_def om_has_def om_get_delete)

lemma recorded_after_delete:
  assumes "aleo_id (dr_programId r)"
  defines "d1 \<equiv> \<lambda>env a opts d. run_ops (writes (record_docs env d r a opts)) d"
  shows "recorded env r a opts (run_ops (deletePendingMarker n p (d1 env a opts d)) (d1 env a opts d))"
  unfolding d1_def
  by (rule recorded_get) (simp_all add: deletePending_get run_record_docs [OF assms(1)])

text \<open>
  C13: A crash at any point of \<^verbatim>\<open>record()\<close> on a network that keeps its state leaves either the
  pending marker that the recovery of the next run starts from, or everything the recording
  writes: the record, its history entry and its ABI. The record file itself is never torn: it
  reads as before or as the new record. This holds also when the recording throws.
\<close>

theorem record_crash_safe:
  assumes "record_deployment env r action opts s = (res, s')" and "ds_trace s = []"
    and "\<not> isEphemeral env (dr_network r)" and "aleo_id (dr_programId r)"
    and "crash_state (ds_trace s') (ds_disk s) d'"
  shows "(readPendingMarker (dr_network r) (dr_programId r) d' = readPendingMarker (dr_network r) (dr_programId r) (ds_disk s)
      \<or> recorded env r action opts d')
    \<and> readDeploymentRecord (dr_network r) (dr_programId r) d'
      \<in> {readDeploymentRecord (dr_network r) (dr_programId r) (ds_disk s), Inr (Some r)}"
proof -
  let ?n = "dr_network r" and ?p = "dr_programId r" and ?docs = "record_docs env (ds_disk s) r action opts"
  let ?d = "run_ops (writes ?docs) (ds_disk s)"
  let ?safe = "(readPendingMarker ?n ?p d' = readPendingMarker ?n ?p (ds_disk s) \<or> recorded env r action opts d')
    \<and> readDeploymentRecord ?n ?p d' \<in> {readDeploymentRecord ?n ?p (ds_disk s), Inr (Some r)}"
  have part: ?safe if c: "crash_state (writes ?docs) (ds_disk s) d'"
  proof -
    obtain n where n: "same_files (run_ops (writes (take n ?docs)) (ds_disk s)) d'" using crash_record_docs [OF c] .
    have "readPendingMarker ?n ?p d' = readPendingMarker ?n ?p (ds_disk s)"
      by (rule readPending_cong) (simp add: same_files_get [OF n] durable_pending take_record_docs_pending)
    moreover have "om_get d' (recordPath ?n ?p) \<in> {om_get (ds_disk s) (recordPath ?n ?p), Some (FRecord r)}"
      using take_record_docs_record [OF assms(4)] by (simp add: same_files_get [OF n] durable_record)
    ultimately show ?thesis by (auto simp: readDeploymentRecord_def)
  qed
  have full: ?safe if "d' = run_ops (deletePendingMarker ?n ?p ?d) ?d \<or> d' = ?d"
  proof -
    have "recorded env r action opts d'"
      using that recorded_after_docs [OF assms(4)] recorded_after_delete [OF assms(4)] by auto
    then show ?thesis by (simp add: recorded_def)
  qed
  have rest: "d' = run_ops (deletePendingMarker ?n ?p ?d) ?d \<or> d' = ?d" if "crash_state (deletePendingMarker ?n ?p ?d) ?d d'"
    using that deletePending_cases [of ?n ?p ?d] crash_nothing [of ?d d'] crash_unlink by metis
  show ?safe
    using record_deployment_disk [OF assms(1,3)]
  proof (elim disjE conjE)
    assume "ds_trace s' = ds_trace s"
    then have "d' = ds_disk s" using assms(2,5) crash_nothing by simp
    then show ?thesis by simp
  next
    assume "ds_trace s' = ds_trace s @ writes ?docs"
    then show ?thesis using part assms(2,5) by simp
  next
    assume "let d = ?d; del = deletePendingMarker ?n ?p d in ds_trace s' = ds_trace s @ writes ?docs @ del
      \<and> ds_disk s' = run_ops del d \<and> res = Inr () \<and> cachedRecord ?n ?p s' = Some r"
    then have "ds_trace s' = writes ?docs @ deletePendingMarker ?n ?p ?d" using assms(2) by (simp add: Let_def)
    then show ?thesis using crash_append [of "writes ?docs"] assms(5) part rest full by metis
  qed
qed

text \<open>A concrete network, connection and record for the witnesses.\<close>

definition ex_connection :: chain_connection where
  "ex_connection = \<lparr> cn_endpoint = ''http://n'', cn_source = (\<lambda>p. Inr (if p = ''a.aleo'' then Some ''program a.aleo;'' else None)),
    cn_edition = (\<lambda>p. Inr (jint 0)) \<rparr>"

definition ex_network :: deploy_network where
  "ex_network = \<lparr> dn_type = NetHttp, dn_ephemeral = None, dn_endpoint = ''http://n'', dn_networkId = ''testnet'', dn_socketAddr = None \<rparr>"

definition ex_env :: manager_env where
  "ex_env = \<lparr> me_networks = [(''t'', ex_network)], me_defaultNetwork = ''t'',
    me_manager = Some \<lparr> na_getConnection = None, na_connect = (\<lambda>_. Inr ex_connection) \<rparr>,
    me_artifactAbi = (\<lambda>_. None), me_ft = (\<lambda>_. []), me_now = ''2026-01-01T00:00:00.000Z'' \<rparr>"

definition ex_record :: deployment_record where
  "ex_record = \<lparr> dr_status = StRecovered, dr_programId = ''a.aleo'', dr_sourceProgramId = None, dr_network = ''t'', dr_endpoint = ''http://n'',
    dr_updatedAt = ''now'', dr_edition = jint 0, dr_historyCount = 1, dr_txId = Some ''at1'', dr_blockHeight = Some 7,
    dr_deployerAddress = Some ''aleo1x'', dr_deployedAt = Some ''now'', dr_feePaid = None \<rparr>"

definition ex_pending :: pending_deployment where
  "ex_pending = \<lparr> pd_programId = ''a.aleo'', pd_sourceProgramId = None, pd_action = ActDeploy, pd_txId = Some ''at1'', pd_blockHeight = None,
    pd_previousEdition = JUndef, pd_startedAt = ''now'', pd_deployerAddress = ''aleo1x'', pd_priorityFee = 0, pd_privateFee = False,
    pd_network = ''t'', pd_endpoint = ''http://n'' \<rparr>"

definition fresh_session :: "disk \<Rightarrow> manager_state" where
  "fresh_session d = \<lparr> ds_cache = [], ds_abiCache = [], ds_metadataValidated = [], ds_disk = d, ds_trace = [] \<rparr>"

definition ex_state :: manager_state where
  "ex_state = fresh_session [([''t'', ''.pending'', ''a.aleo.json''], FPending ex_pending)]"

definition ex_after :: manager_state where
  "ex_after = snd (record_deployment ex_env ex_record ActDeploy no_options ex_state)"

lemma ex_recorded: "record_deployment ex_env ex_record ActDeploy no_options ex_state = (Inr (), ex_after)"
proof -
  have "fst (record_deployment ex_env ex_record ActDeploy no_options ex_state) = Inr ()" by code_simp
  then show ?thesis by (simp add: ex_after_def prod_eq_iff)
qed

theorem record_crash_safe_witness:
  "readPendingMarker ''t'' ''a.aleo'' (run_ops (take 1 (ds_trace ex_after)) (ds_disk ex_state)) = Some ex_pending
   \<or> recorded ex_env ex_record ActDeploy no_options (run_ops (take 1 (ds_trace ex_after)) (ds_disk ex_state))"
proof -
  have c: "crash_state (ds_trace ex_after) (ds_disk ex_state) (run_ops (take 1 (ds_trace ex_after)) (ds_disk ex_state))"
    by (rule crash_state.between [of _ _ "drop 1 (ds_trace ex_after)"]) simp
  have "ds_trace ex_state = []" "\<not> isEphemeral ex_env (dr_network ex_record)" "aleo_id (dr_programId ex_record)" by code_simp+
  moreover have "readPendingMarker (dr_network ex_record) (dr_programId ex_record) (ds_disk ex_state) = Some ex_pending" by code_simp
  moreover have "dr_network ex_record = ''t''" "dr_programId ex_record = ''a.aleo''" by (simp_all add: ex_record_def)
  ultimately show ?thesis using record_crash_safe [OF ex_recorded _ _ _ c] by simp
qed

lemma readMeta_cong: "om_get d (networkMetaPath n) = om_get d' (networkMetaPath n) \<Longrightarrow> readNetworkMetadata n d = readNetworkMetadata n d'"
  by (simp add: readNetworkMetadata_def)

lemma record_docs_meta:
  assumes "aleo_id (dr_programId r)" and "om_get (me_networks env) (dr_network r) = Some nc" and "dn_type nc = NetHttp"
  shows "readNetworkMetadata (dr_network r) (run_ops (writes (record_docs env d r a opts)) d)
    = Some (case readNetworkMetadata (dr_network r) d of Some m \<Rightarrow> m
        | None \<Rightarrow> \<lparr> nm_type = NetHttp, nm_networkId = dn_networkId nc, nm_endpoint = dn_endpoint nc \<rparr>)"
proof -
  have ne: "networkMetaPath n \<noteq> abiSnapshotPath n' p" if "aleo_id p" for n n' p
    using that suffix_last [of "''.aleo''" p] by (cases p rule: rev_cases) (auto simp: networkMetaPath_def abiSnapshotPath_def aleo_id_def ends_with_suffix)
  have "om_get (run_ops (writes (record_docs env d r a opts)) d) (networkMetaPath (dr_network r))
    = (case readNetworkMetadata (dr_network r) d of Some m \<Rightarrow> om_get d (networkMetaPath (dr_network r))
        | None \<Rightarrow> Some (FMeta \<lparr> nm_type = NetHttp, nm_networkId = dn_networkId nc, nm_endpoint = dn_endpoint nc \<rparr>))"
    using assms ne [OF assms(1)]
    by (simp add: record_docs_get durable_meta)
      (auto simp: record_docs_def metadata_docs_def store_paths map_add_def split: option.splits)
  then show ?thesis by (auto simp: readNetworkMetadata_def split: option.splits)
qed

definition metadata_agrees :: "deploy_network \<Rightarrow> network_metadata option \<Rightarrow> bool" where
  "metadata_agrees nc meta =
    (case meta of None \<Rightarrow> True | Some m \<Rightarrow> nm_type m = NetHttp \<and> nm_networkId m = dn_networkId nc \<and> nm_endpoint m = dn_endpoint nc)"

lemma validate_metadata_ok:
  assumes "om_get (me_networks env) n = Some nc" "dn_type nc = NetHttp" "readNetworkMetadata n (ds_disk s) = Some m" "metadata_agrees nc (Some m)"
  shows "\<exists>v. validateHttpMetadata env n s = (Inr (), s\<lparr>ds_metadataValidated := v\<rparr>)"
proof (cases "om_get (ds_metadataValidated s) n = Some True")
  case True
  then show ?thesis by (intro exI [of _ "ds_metadataValidated s"]) (simp add: validateHttpMetadata_def)
next
  case False
  then show ?thesis using assms
    by (intro exI [of _ "om_set n True (ds_metadataValidated s)"]) (simp add: validateHttpMetadata_def metadata_agrees_def)
qed

text \<open>
  How a session reaches the chain: a devnode by the connection that is open already, an HTTP network
  by connecting to it.
\<close>

definition session_connection :: "manager_env \<Rightarrow> string \<Rightarrow> chain_connection option" where
  "session_connection env n =
    (case me_manager env of None \<Rightarrow> None
     | Some manager \<Rightarrow> if net_type env n = Some NetDevnode then na_getConnection manager
         else (case na_connect manager n of Inl e \<Rightarrow> None | Inr connection \<Rightarrow> Some connection))"

text \<open>
  C15: What \<^verbatim>\<open>record()\<close> stores on a network that keeps its state survives the process: a later
  session that starts from the disk alone and has a connection to the network finds no pending
  marker, answers \<^verbatim>\<open>getDeployment\<close> for a program the chain still knows with exactly the record
  that was stored, and with \<^verbatim>\<open>null\<close> for one the chain has lost, whatever the disk held before, as
  long as the files of an HTTP network did not belong to another network. (On a devnode without an
  open connection a new session answers \<^verbatim>\<open>null\<close>: lemma \<open>devnode_unconnected\<close>.)
\<close>

theorem record_read_back:
  assumes "record_deployment env r action opts s = (Inr (), s')"
    and "\<not> isEphemeral env (dr_network r)" and "aleo_id (dr_programId r)"
    and "om_get (me_networks env) (dr_network r) = Some nc"
    and agrees: "dn_type nc = NetHttp \<Longrightarrow> metadata_agrees nc (readNetworkMetadata (dr_network r) (ds_disk s))"
    and conn: "session_connection env (dr_network r) = Some connection"
    and "checkProgramOnChain connection (dr_programId r) = Inr found"
  shows "fst (getDeployment env (dr_programId r) (Some (dr_network r)) (fresh_session (ds_disk s')))
      = Inr (case found of OffChain \<Rightarrow> None | OnChain src edition \<Rightarrow> Some r)
    \<and> readPendingMarker (dr_network r) (dr_programId r) (ds_disk s') = None"
proof -
  let ?n = "dr_network r" and ?p = "dr_programId r"
  let ?d = "run_ops (writes (record_docs env (ds_disk s) r action opts)) (ds_disk s)"
  have disk: "ds_disk s' = run_ops (deletePendingMarker ?n ?p ?d) ?d"
    using record_deployment_disk [OF assms(1,2)] by (auto simp: Let_def)
  have gone: "readPendingMarker ?n ?p (ds_disk s') = None"
    by (simp add: disk readPendingMarker_def deletePending_get)
  let ?s = "(fresh_session (ds_disk s'))\<lparr>ds_cache := nm_ensure ?n []\<rparr>"
  have rec: "readDeploymentRecord ?n ?p (ds_disk s') = Inr (Some r)"
    using recorded_after_delete [OF assms(3)] by (simp add: disk recorded_def)
  have existing: "existingRecord env ?n ?p (?s\<lparr>ds_metadataValidated := v\<rparr>) = (Inr (Some r), ?s\<lparr>ds_metadataValidated := v\<rparr>)" for v
  proof -
    have "cachedRecord ?n ?p (?s\<lparr>ds_metadataValidated := v\<rparr>) = None"
      by (simp add: cachedRecord_def) (simp add: nm_get_def)
    then show ?thesis using assms(2) rec by (simp add: existingRecord_def readRecordA_def fresh_session_def)
  qed
  obtain manager where manager: "me_manager env = Some manager" using conn by (auto simp: session_connection_def split: option.splits)
  show "fst (getDeployment env ?p (Some ?n) (fresh_session (ds_disk s')))
      = Inr (case found of OffChain \<Rightarrow> None | OnChain src edition \<Rightarrow> Some r)
    \<and> readPendingMarker ?n ?p (ds_disk s') = None"
  proof (cases "dn_type nc")
    case NetHttp
    have "readNetworkMetadata ?n (ds_disk s') = readNetworkMetadata ?n ?d"
      by (rule readMeta_cong) (simp add: disk deletePending_get)
    then obtain m where m: "readNetworkMetadata ?n (ds_disk s') = Some m" "metadata_agrees nc (Some m)"
      using record_docs_meta [OF assms(3,4) NetHttp] agrees [OF NetHttp] by (auto simp: metadata_agrees_def split: option.splits)
    obtain v where v: "validateHttpMetadata env ?n ?s = (Inr (), ?s\<lparr>ds_metadataValidated := v\<rparr>)"
      using validate_metadata_ok [of env ?n nc ?s m] assms(4) NetHttp m by (auto simp: fresh_session_def)
    have "na_connect manager ?n = Inr connection"
      using conn manager assms(4) NetHttp by (auto simp: session_connection_def net_type_def split: sum.splits)
    then show ?thesis
      using assms(2,4,7) NetHttp manager v gone existing [of v]
      by (cases found)
        (simp_all add: getDeployment_def getHttpDeployment_def resolveNetwork_def net_type_def Let_def bindA_def fresh_session_def)
  next
    case NetDevnode
    then have "na_getConnection manager = Some connection"
      using conn manager assms(4) by (simp add: session_connection_def net_type_def)
    then show ?thesis
      using assms(4,7) NetDevnode manager gone existing [of "[]"]
      by (cases found)
        (simp_all add: getDeployment_def getDevnodeDeployment_def resolveNetwork_def net_type_def Let_def bindA_def fresh_session_def)
  qed
qed

lemma devnode_unconnected:
  assumes "net_type env n = Some NetDevnode" and "session_connection env n = None"
  shows "fst (getDeployment env p (Some n) (fresh_session d)) = Inr None"
proof -
  have "Option.bind (me_manager env) na_getConnection = None"
    using assms by (auto simp: session_connection_def split: option.splits)
  then show ?thesis
    using assms(1) by (simp add: getDeployment_def getDevnodeDeployment_def resolveNetwork_def Let_def bindA_def fresh_session_def
        cachedRecord_def getA_def) (simp add: nm_get_def)
qed

theorem record_read_back_witness:
  "fst (getDeployment ex_env ''a.aleo'' (Some ''t'') (fresh_session (ds_disk ex_after))) = Inr (Some ex_record)
   \<and> readPendingMarker ''t'' ''a.aleo'' (ds_disk ex_after) = None"
proof -
  have d: "dr_network ex_record = ''t''" "dr_programId ex_record = ''a.aleo''" by (simp_all add: ex_record_def)
  have h: "\<not> isEphemeral ex_env (dr_network ex_record)" "aleo_id (dr_programId ex_record)"
    "om_get (me_networks ex_env) (dr_network ex_record) = Some ex_network"
    "metadata_agrees ex_network (readNetworkMetadata (dr_network ex_record) (ds_disk ex_state))"
    "net_type ex_env (dr_network ex_record) \<noteq> Some NetDevnode" by code_simp+
  have m: "session_connection ex_env (dr_network ex_record) = Some ex_connection"
    using h(5) by (simp add: session_connection_def) (simp add: ex_env_def)
  have c: "checkProgramOnChain ex_connection (dr_programId ex_record) = Inr (OnChain ''program a.aleo;'' (jint 0))"
    by (simp add: checkProgramOnChain_def ex_connection_def chainR_def d)
  show ?thesis using record_read_back [OF ex_recorded h(1-3) _ m c] h(4) by (simp add: d)
qed

section \<open>Recovery\<close>

lemma validate_disk: "validateHttpMetadata env n s = (res, s') \<Longrightarrow> \<exists>v. s' = s\<lparr>ds_metadataValidated := v\<rparr>"
  by (cases "om_get (me_networks env) n")
    (auto simp: validateHttpMetadata_def bindA_def throwA_def intro: exI [of _ "ds_metadataValidated s"] split: if_splits option.splits)

lemma existingRecord_state: "existingRecord env n p s = (res, s') \<Longrightarrow> s' = s"
  by (auto simp: existingRecord_def bindA_def readRecordA_def split: option.splits if_splits)

text \<open>The only marker a recovery keeps: a confirmed upgrade whose edition the chain does not show yet.\<close>

definition kept_marker :: "chain_connection \<Rightarrow> string \<Rightarrow> pending_deployment \<Rightarrow> bool" where
  "kept_marker cn p m \<longleftrightarrow> pd_action m = ActUpgrade \<and> pd_blockHeight m \<noteq> None
    \<and> (\<exists>src edition. checkProgramOnChain cn p = Inr (OnChain src edition) \<and> \<not> edition_less (pd_previousEdition m) edition)"

lemma recovery_kept:
  "checkProgramOnChain cn p = Inr c \<Longrightarrow> recovery_of p m c = Inr KeepMarker \<Longrightarrow> kept_marker cn p m"
  by (cases c) (auto simp: recovery_of_def kept_marker_def requireProgramEdition_def bindR_def split: deploy_action.splits if_splits)

lemma recovery_valid: "recovery_of p m c = Inr (RecoverAs e) \<Longrightarrow> valid_edition e"
proof -
  have "valid_edition (jint 0)" by (simp add: valid_edition_def)
  then show "recovery_of p m c = Inr (RecoverAs e) \<Longrightarrow> valid_edition e"
    by (cases c) (auto simp: recovery_of_def requireProgramEdition_def bindR_def split: deploy_action.splits if_splits)
qed

text \<open>One marker of the loop, on a network that keeps its state: the four ways it may end.\<close>

lemma recover_marker_cases:
  assumes "recover_marker env n cn acc p s = (Inr acc', s')" and "\<not> isEphemeral env n"
  obtains (none) "readPendingMarker n p (ds_disk s) = None" "acc' = acc" "s' = s"
  | (keep) m where "readPendingMarker n p (ds_disk s) = Some m" "kept_marker cn p m" "acc' = acc" "s' = s"
  | (drop) "acc' = acc" "ds_disk s' = run_ops (deletePendingMarker n p (ds_disk s)) (ds_disk s)"
  | (recover) r action d where "readPendingMarker n p (ds_disk s) \<noteq> None" "acc' = acc @ [r]" "dr_status r = StRecovered"
      "dr_network r = n" "dr_programId r = p" "d = run_ops (writes (record_docs env (ds_disk s) r action (no_options\<lparr>ro_action := Some action\<rparr>))) (ds_disk s)"
      "ds_disk s' = run_ops (deletePendingMarker n p d) d"
proof (cases "readPendingMarker n p (ds_disk s)")
  case None
  then have "acc' = acc" "s' = s" using assms(1) by (simp_all add: recover_marker_def)
  then show ?thesis using none None by blast
next
  case (Some m)
  with assms(1) obtain c w where c: "checkProgramOnChain cn p = Inr c" and w: "recovery_of p m c = Inr w"
    by (auto simp: recover_marker_def bindA_Inr liftA_def getA_def)
  show ?thesis
  proof (cases w)
    case DropMarker
    then have "acc' = acc" "ds_disk s' = run_ops (deletePendingMarker n p (ds_disk s)) (ds_disk s)"
      using assms(1) Some c w by (auto simp: recover_marker_def deletePendingA_run bindA_def)
    then show ?thesis by (rule drop)
  next
    case KeepMarker
    then have "acc' = acc" "s' = s" using assms(1) Some c w by (simp_all add: recover_marker_def)
    then show ?thesis using keep Some recovery_kept [OF c] w KeepMarker by blast
  next
    case (RecoverAs e)
    let ?s = "s\<lparr>ds_cache := nm_ensure n (ds_cache s)\<rparr>" and ?o = "no_options\<lparr>ro_action := Some (pd_action m)\<rparr>"
    obtain ex s1 where ex: "existingRecord env n p ?s = (Inr ex, s1)" and r: "record_deployment env (recovered_record env n cn p m e ex) (pd_action m) ?o s1 = (Inr (), s')"
      and acc: "acc' = acc @ [recovered_record env n cn p m e ex]"
      using assms(1) Some c w RecoverAs by (auto simp: recover_marker_def bindA_Inr Let_def returnA_def)
    have s1: "s1 = ?s" using existingRecord_state [OF ex] .
    let ?r = "recovered_record env n cn p m e ex"
    have fields: "dr_status ?r = StRecovered" "dr_network ?r = n" "dr_programId ?r = p" by (simp_all add: recovered_record_def)
    have "ds_disk s1 = ds_disk s" by (simp add: s1)
    then have disk: "ds_disk s' = run_ops (deletePendingMarker n p (run_ops (writes (record_docs env (ds_disk s) ?r (pd_action m) ?o)) (ds_disk s)))
        (run_ops (writes (record_docs env (ds_disk s) ?r (pd_action m) ?o)) (ds_disk s))"
      using record_deployment_disk [OF r] assms(2) fields by (simp add: Let_def)
    show ?thesis by (rule recover [OF _ acc fields refl disk]) (simp add: Some)
  qed
qed

lemma record_docs_pending_get: "om_get (run_ops (writes (record_docs env d r a opts)) d') (pendingPath n p) = om_get d' (pendingPath n p)"
  using take_record_docs_pending [of "length (record_docs env d r a opts)" env d r a opts d'] by simp

lemma deletePending_read:
  "readPendingMarker n q (run_ops (deletePendingMarker n p d) d) = (if q = p then None else readPendingMarker n q d)"
  by (auto simp: readPendingMarker_def deletePending_get)

lemma record_docs_pending_read: "readPendingMarker n p (run_ops (writes (record_docs env d r a opts)) d) = readPendingMarker n p d"
  by (rule readPending_cong) (rule record_docs_pending_get)

lemma deletePending_record: "readDeploymentRecord n q (run_ops (deletePendingMarker n' p d) d) = readDeploymentRecord n q d"
  by (rule readRecord_cong) (simp add: deletePending_get)

lemma record_docs_other_record:
  assumes "aleo_id q" and "q \<noteq> dr_programId r" and "ro_abi opts = None"
  shows "readDeploymentRecord n q (run_ops (writes (record_docs env d r a opts)) d) = readDeploymentRecord n q d"
proof (rule readRecord_cong)
  have "map_of (rev (record_docs env d r a opts)) (recordPath n q) = None"
    using assms by (auto simp: map_of_eq_None_iff record_docs_def metadata_docs_def aleo_id_paths split: option.splits if_splits)
  then show "om_get (run_ops (writes (record_docs env d r a opts)) d) (recordPath n q) = om_get d (recordPath n q)"
    by (simp add: record_docs_get durable_record)
qed

text \<open>What the loop leaves, in the words of the readers.\<close>

definition recovers :: "string \<Rightarrow> chain_connection \<Rightarrow> string set \<Rightarrow> disk \<Rightarrow> deployment_record set \<Rightarrow> disk \<Rightarrow> bool" where
  "recovers n cn ids d rs d' \<longleftrightarrow>
    (\<forall>p m. readPendingMarker n p d' = Some m \<longrightarrow> readPendingMarker n p d = Some m \<and> (p \<in> ids \<longrightarrow> kept_marker cn p m))
    \<and> (\<forall>p. readPendingMarker n p d = None \<longrightarrow> aleo_id p \<longrightarrow> readDeploymentRecord n p d' = readDeploymentRecord n p d)
    \<and> (\<forall>r \<in> rs. dr_status r = StRecovered \<and> dr_network r = n \<and> readPendingMarker n (dr_programId r) d \<noteq> None
        \<and> readPendingMarker n (dr_programId r) d' = None
        \<and> (aleo_id (dr_programId r) \<longrightarrow> readDeploymentRecord n (dr_programId r) d' = Inr (Some r)))"

lemma recovers_marker:
  assumes "recover_marker env n cn acc p s = (Inr acc', s')" and "\<not> isEphemeral env n"
  shows "\<exists>rs. acc' = acc @ rs \<and> recovers n cn {p} (ds_disk s) (set rs) (ds_disk s')"
  using assms
proof (cases rule: recover_marker_cases)
  case drop
  then show ?thesis by (intro exI [of _ "[]"]) (auto simp: recovers_def deletePending_read deletePending_record)
next
  case (recover r action d)
  let ?o = "no_options\<lparr>ro_action := Some action\<rparr>"
  have "aleo_id p \<Longrightarrow> readDeploymentRecord n p (ds_disk s') = Inr (Some r)"
    using recorded_after_delete [of r env action ?o] recover by (auto simp: recorded_def)
  moreover have "q \<noteq> p \<Longrightarrow> aleo_id q \<Longrightarrow> readDeploymentRecord n q (ds_disk s') = readDeploymentRecord n q (ds_disk s)" for q
    using recover record_docs_other_record [of q r ?o] by (simp add: deletePending_record no_options_def)
  moreover have "readPendingMarker n q (ds_disk s') = (if q = p then None else readPendingMarker n q (ds_disk s))" for q
    using recover by (simp add: deletePending_read record_docs_pending_read)
  moreover have "q \<noteq> p" if "readPendingMarker n q (ds_disk s) = None" for q using that recover(1) by auto
  ultimately show ?thesis using recover(1-5) by (intro exI [of _ "[r]"]) (simp add: recovers_def)
qed (auto simp: recovers_def)

lemma recovers_trans:
  assumes "recovers n cn A d rs d'" and "recovers n cn B d' rs' d''"
  shows "recovers n cn (A \<union> B) d (rs \<union> rs') d''"
proof -
  have none: "readPendingMarker n p d' = None" if "readPendingMarker n p d = None" for p
    using that assms(1) by (cases "readPendingMarker n p d'") (auto simp: recovers_def)
  have none': "readPendingMarker n p d'' = None" if "readPendingMarker n p d' = None" for p
    using that assms(2) by (cases "readPendingMarker n p d''") (auto simp: recovers_def)
  have "readPendingMarker n p d = Some m \<and> (p \<in> A \<union> B \<longrightarrow> kept_marker cn p m)" if "readPendingMarker n p d'' = Some m" for p m
    using that assms by (auto simp: recovers_def)
  moreover have "readDeploymentRecord n p d'' = readDeploymentRecord n p d" if "readPendingMarker n p d = None" "aleo_id p" for p
    using that none assms by (simp add: recovers_def)
  moreover have "dr_status r = StRecovered \<and> dr_network r = n \<and> readPendingMarker n (dr_programId r) d \<noteq> None
        \<and> readPendingMarker n (dr_programId r) d'' = None
        \<and> (aleo_id (dr_programId r) \<longrightarrow> readDeploymentRecord n (dr_programId r) d'' = Inr (Some r))" if "r \<in> rs \<union> rs'" for r
    using that none none' assms unfolding recovers_def by (metis Un_iff)
  ultimately show ?thesis unfolding recovers_def by blast
qed

lemma recovers_loop:
  assumes "foldA (recover_marker env n cn) acc ids s = (Inr acc', s')" and "\<not> isEphemeral env n"
  shows "\<exists>rs. acc' = acc @ rs \<and> recovers n cn (set ids) (ds_disk s) (set rs) (ds_disk s')"
  using assms(1)
proof (induction ids arbitrary: acc s)
  case Nil
  then show ?case by (auto simp: recovers_def)
next
  case (Cons p ids)
  then obtain acc1 s1 where 1: "recover_marker env n cn acc p s = (Inr acc1, s1)" and 2: "foldA (recover_marker env n cn) acc1 ids s1 = (Inr acc', s')"
    by (auto simp: bindA_Inr)
  obtain rs where rs: "acc1 = acc @ rs" "recovers n cn {p} (ds_disk s) (set rs) (ds_disk s1)" using recovers_marker [OF 1 assms(2)] by blast
  obtain rs' where "acc' = acc1 @ rs'" "recovers n cn (set ids) (ds_disk s1) (set rs') (ds_disk s')" using Cons.IH [OF 2] by blast
  then show ?case using rs recovers_trans [OF rs(2)] by (intro exI [of _ "rs @ rs'"]) auto
qed

lemma pending_listed: "readPendingMarker n p d = Some m \<Longrightarrow> p \<in> set (listPendingMarkers n d)"
proof -
  assume "readPendingMarker n p d = Some m"
  then have "om_get d ([n, ''.pending''] @ [json_file p]) \<noteq> None"
    by (auto simp: readPendingMarker_def pendingPath_def split: option.splits)
  then have "json_file p \<in> set (dir_files [n, ''.pending''] d)" using dir_files_get by fast
  moreover have "ends_with (json_file p) ''.json''" by (simp add: json_file_def ends_with_suffix suffix_def)
  ultimately show ?thesis by (force simp: listPendingMarkers_def json_file_def)
qed

lemma recover_all:
  assumes "recoverPendingDeployments env n cn s = (Inr rs, s')" and "\<not> isEphemeral env n"
  shows "recovers n cn (set (listPendingMarkers n (ds_disk s))) (ds_disk s) (set rs) (ds_disk s')"
proof -
  obtain s1 where 1: "validateHttpMetadata env n s = (Inr (), s1)"
    and 2: "foldA (recover_marker env n cn) [] (listPendingMarkers n (ds_disk s1)) s1 = (Inr rs, s')"
    using assms by (auto simp: recoverPendingDeployments_def bindA_Inr)
  have "ds_disk s1 = ds_disk s" using validate_disk [OF 1] by auto
  then show ?thesis using recovers_loop [OF 2 assms(2)] by auto
qed

text \<open>
  C14: Recovery settles the markers that an interrupted run left: when it returns, no marker is
  new, and the only ones left are those of upgrades the network has confirmed while the chain does
  not show a later edition yet. Every program it reports had a marker, has none any more, and its
  record on disk is the recovered one.
\<close>

theorem recovery_settles:
  assumes "recoverPendingDeployments env n cn s = (Inr rs, s')" and "\<not> isEphemeral env n"
  shows "(\<forall>p m. readPendingMarker n p (ds_disk s') = Some m \<longrightarrow> readPendingMarker n p (ds_disk s) = Some m \<and> kept_marker cn p m)
    \<and> (\<forall>r \<in> set rs. aleo_id (dr_programId r) \<longrightarrow>
      dr_status r = StRecovered \<and> readPendingMarker n (dr_programId r) (ds_disk s) \<noteq> None
      \<and> readPendingMarker n (dr_programId r) (ds_disk s') = None
      \<and> readDeploymentRecord n (dr_programId r) (ds_disk s') = Inr (Some r))"
  using recover_all [OF assms] pending_listed by (auto simp: recovers_def)

definition ex_markers :: disk where
  "ex_markers = [([''t'', ''.pending'', ''a.aleo.json''], FPending ex_pending),
    ([''t'', ''.pending'', ''b.aleo.json''], FPending (ex_pending\<lparr>pd_programId := ''b.aleo''\<rparr>))]"

definition ex_recovery :: "(manager_error + deployment_record list) \<times> manager_state" where
  "ex_recovery = recoverPendingDeployments ex_env ''t'' ex_connection (fresh_session ex_markers)"

theorem recovery_settles_witness:
  "map dr_programId (projr (fst ex_recovery)) = [''a.aleo'']
   \<and> list_all (\<lambda>r. readDeploymentRecord ''t'' (dr_programId r) (ds_disk (snd ex_recovery)) = Inr (Some r)) (projr (fst ex_recovery))"
proof -
  have "\<not> isl (fst ex_recovery)" by code_simp
  then have run: "recoverPendingDeployments ex_env ''t'' ex_connection (fresh_session ex_markers) = (Inr (projr (fst ex_recovery)), snd ex_recovery)"
    by (simp add: ex_recovery_def prod_eq_iff)
  have "\<not> isEphemeral ex_env ''t''" by code_simp
  note settle = recovery_settles [OF run this, THEN conjunct2]
  have ids: "map dr_programId (projr (fst ex_recovery)) = [''a.aleo'']" by code_simp
  then have "aleo_id (dr_programId r)" if "r \<in> set (projr (fst ex_recovery))" for r
    using that by (auto simp: map_eq_Cons_conv) code_simp
  then show ?thesis using ids settle by (auto simp: list_all_iff)
qed

section \<open>What every call keeps\<close>

definition record_wf :: "string \<Rightarrow> string \<Rightarrow> deployment_record \<Rightarrow> bool" where
  "record_wf n p r \<longleftrightarrow> dr_programId r = p \<and> dr_network r = n \<and> valid_edition (dr_edition r)"

text \<open>
  The files of a network: a record lies at its own program's path, has an edition, and when it is
  complete its ABI snapshot is there too. The directory of exports is no network.
\<close>

definition disk_wf :: "disk \<Rightarrow> bool" where
  "disk_wf d \<longleftrightarrow>
    (\<forall>n p r. n \<noteq> ''_exports'' \<longrightarrow> om_get d (recordPath n p) = Some (FRecord r) \<longrightarrow> aleo_id p \<and> record_wf n p r
      \<and> (dr_status r = StComplete \<longrightarrow> (\<exists>abi. om_get d (abiSnapshotPath n p) = Some (FAbi abi))))
    \<and> (\<forall>n p. om_get d (pendingPath n p) \<noteq> None \<longrightarrow> aleo_id p)"

definition cache_wf :: "manager_state \<Rightarrow> bool" where
  "cache_wf s \<longleftrightarrow>
    (\<forall>n p r. n \<noteq> ''_exports'' \<longrightarrow> nm_get (ds_cache s) n p = Some r \<longrightarrow> record_wf n p r)
    \<and> (\<forall>n p abi. nm_get (ds_abiCache s) n p = Some abi \<longrightarrow> (\<exists>ft raw. parseAbi ft (Some raw) = Inr abi))"

inductive safe_ops :: "disk \<Rightarrow> disk_op list \<Rightarrow> bool" where
  safe_none: "safe_ops d []"
| safe_write: "durable_path p \<Longrightarrow> disk_wf (run_ops (atomicWrite p c) d) \<Longrightarrow> safe_ops (run_ops (atomicWrite p c) d) ops
    \<Longrightarrow> safe_ops d (atomicWrite p c @ ops)"
| safe_unlink: "disk_wf (run_ops [OpUnlink p] d) \<Longrightarrow> safe_ops (run_ops [OpUnlink p] d) ops \<Longrightarrow> safe_ops d ([OpUnlink p] @ ops)"

lemma safe_append: "safe_ops d a \<Longrightarrow> safe_ops (run_ops a d) b \<Longrightarrow> safe_ops d (a @ b)"
proof (induction rule: safe_ops.induct)
  case (safe_write p c d ops)
  then show ?case using safe_ops.safe_write [of p c d "ops @ b"] by simp
next
  case (safe_unlink p d ops)
  then show ?case using safe_ops.safe_unlink [of p d "ops @ b"] by simp
qed (simp add: safe_none)

lemma safe_last: "safe_ops d ops \<Longrightarrow> disk_wf d \<Longrightarrow> disk_wf (run_ops ops d)"
  by (induction rule: safe_ops.induct) simp_all

lemma disk_wf_same: "same_files d d' \<Longrightarrow> disk_wf d \<Longrightarrow> disk_wf d'"
  by (simp add: disk_wf_def same_files_def store_paths)

text \<open>A crash among safe operations leaves well-formed files.\<close>

lemma safe_crash: "safe_ops d ops \<Longrightarrow> disk_wf d \<Longrightarrow> crash_state ops d d' \<Longrightarrow> disk_wf d'"
proof (induction rule: safe_ops.induct)
  case (safe_none d)
  then show ?case using crash_nothing by blast
next
  case (safe_write p c d ops)
  then show ?case using crash_append crash_atomic disk_wf_same by metis
next
  case (safe_unlink p d ops)
  then show ?case using crash_append [OF safe_unlink.prems(2)] crash_unlink by metis
qed

lemma disk_wf_write:
  assumes "disk_wf d" and "durable_path p"
    and "\<And>r. c = FRecord r \<Longrightarrow> p = recordPath (dr_network r) (dr_programId r) \<and> aleo_id (dr_programId r) \<and> valid_edition (dr_edition r)
      \<and> (dr_status r = StComplete \<longrightarrow> (\<exists>abi. om_get d (abiSnapshotPath (dr_network r) (dr_programId r)) = Some (FAbi abi)))"
    and "\<And>n q. n \<noteq> ''_exports'' \<Longrightarrow> p = abiSnapshotPath n q \<Longrightarrow> \<exists>abi. c = FAbi abi"
    and "\<And>n q. p = pendingPath n q \<Longrightarrow> aleo_id q"
  shows "disk_wf (run_ops (atomicWrite p c) d)"
proof -
  let ?d = "run_ops (atomicWrite p c) d"
  have get: "om_get ?d q = (if q = p then Some c else om_get d q)" if "durable_path q" for q
    using that tmp_not_durable by (auto simp: atomicWrite_get)
  have abi: "\<exists>abi. om_get ?d (abiSnapshotPath n q) = Some (FAbi abi)" if "n \<noteq> ''_exports''" "\<exists>abi. om_get d (abiSnapshotPath n q) = Some (FAbi abi)" for n q
    using that assms(4) by (auto simp: get durable_abi)
  have "aleo_id q \<and> record_wf n q r \<and> (dr_status r = StComplete \<longrightarrow> (\<exists>abi. om_get ?d (abiSnapshotPath n q) = Some (FAbi abi)))"
    if n: "n \<noteq> ''_exports''" and g: "om_get ?d (recordPath n q) = Some (FRecord r)" for n q r
  proof (cases "recordPath n q = p")
    case True
    then have "c = FRecord r" using g assms(2) by (simp add: get)
    then show ?thesis using assms(3) [of r] True n abi by (auto simp: record_wf_def)
  next
    case False
    then show ?thesis using g assms(1) n abi by (auto simp: get durable_record disk_wf_def)
  qed
  moreover have "aleo_id q" if "om_get ?d (pendingPath n q) \<noteq> None" for n q
    using that assms(1,5) by (cases "pendingPath n q = p") (auto simp: get durable_pending disk_wf_def)
  ultimately show ?thesis by (simp add: disk_wf_def)
qed

lemma disk_wf_unlink: "disk_wf d \<Longrightarrow> disk_wf (run_ops [OpUnlink (pendingPath n p)] d)"
  by (simp add: disk_wf_def om_get_delete)

lemma safe_delete_pending: "disk_wf d \<Longrightarrow> safe_ops d (deletePendingMarker n p d)"
  using safe_unlink [OF disk_wf_unlink safe_none] by (simp add: deletePendingMarker_def safe_none)

lemma safe_one: "durable_path p \<Longrightarrow> disk_wf (run_ops (atomicWrite p c) d) \<Longrightarrow> safe_ops d (atomicWrite p c)"
  using safe_write [OF _ _ safe_none] by fastforce

lemma abi_path_facts [simp]: "networkMetaPath n \<noteq> abiSnapshotPath n' p" "abiSnapshotPath n' p \<noteq> networkMetaPath n"
  by (cases p rule: rev_cases; force simp: networkMetaPath_def abiSnapshotPath_def)+

text \<open>The invariant of a run that started from the files \<open>d0\<close>.\<close>

definition manager_inv :: "disk \<Rightarrow> manager_state \<Rightarrow> bool" where
  "manager_inv d0 s \<longleftrightarrow> disk_wf d0 \<and> safe_ops d0 (ds_trace s) \<and> ds_disk s = run_ops (ds_trace s) d0 \<and> cache_wf s"

lemma manager_inv_disk: "manager_inv d0 s \<Longrightarrow> disk_wf (ds_disk s)"
  by (simp add: manager_inv_def safe_last)

definition found_wf :: "string \<Rightarrow> string \<Rightarrow> deployment_record option \<Rightarrow> bool" where
  "found_wf n p x \<longleftrightarrow> (case x of None \<Rightarrow> True | Some r \<Rightarrow> n \<noteq> ''_exports'' \<longrightarrow> record_wf n p r)"

lemma diskA_inv [ensures]:
  "(\<And>d. disk_wf d \<Longrightarrow> safe_ops d ops) \<Longrightarrow> Q () \<Longrightarrow> ensuresA (manager_inv d0) (diskA ops) Q"
  by (simp add: ensuresA_def manager_inv_def safe_append safe_last cache_wf_def)

lemma inv_cache_update:
  "manager_inv d0 s \<Longrightarrow> cache_wf (s\<lparr>ds_cache := c\<rparr>) \<Longrightarrow> manager_inv d0 (s\<lparr>ds_cache := c\<rparr>)"
  "manager_inv d0 s \<Longrightarrow> cache_wf (s\<lparr>ds_abiCache := a\<rparr>) \<Longrightarrow> manager_inv d0 (s\<lparr>ds_abiCache := a\<rparr>)"
  by (simp_all add: manager_inv_def)

lemma inv_validated [simp]: "manager_inv d0 (s\<lparr>ds_metadataValidated := v\<rparr>) = manager_inv d0 s"
  by (simp add: manager_inv_def cache_wf_def)

lemma inv_cached: "manager_inv d0 s \<Longrightarrow> found_wf n p (cachedRecord n p s)"
  by (auto simp: manager_inv_def cache_wf_def found_wf_def cachedRecord_def split: option.splits)

lemma caches_inv [ensures]:
  "Q () \<Longrightarrow> ensuresA (manager_inv d0) (networkCache n) Q"
  "Q () \<Longrightarrow> ensuresA (manager_inv d0) (networkAbiCache n) Q"
  "Q () \<Longrightarrow> ensuresA (manager_inv d0) (cacheDelete n p) Q"
  "Q () \<Longrightarrow> ensuresA (manager_inv d0) (markValidated n) Q"
  "Q () \<Longrightarrow> found_wf n p (Some r) \<Longrightarrow> ensuresA (manager_inv d0) (cacheSet n p r) Q"
  by (auto simp: ensuresA_def networkAbiCache_def manager_inv_def cache_wf_def nm_get_delete nm_get_set found_wf_def split: if_splits)

lemma validate_inv [ensures]: "Q () \<Longrightarrow> ensuresA (manager_inv d0) (validateHttpMetadata env n) Q"
proof -
  have "manager_inv d0 s \<Longrightarrow> manager_inv d0 (snd (validateHttpMetadata env n s))" for s
    using validate_disk [of env n s "fst (validateHttpMetadata env n s)"] by (auto simp: prod_eq_iff)
  then show "Q () \<Longrightarrow> ?thesis" by (simp add: ensuresA_def)
qed

lemma existing_inv [ensures]: "ensuresA (manager_inv d0) (existingRecord env n p) (found_wf n p)"
proof -
  have "found_wf n p x" if "manager_inv d0 s" "existingRecord env n p s = (Inr x, s)" for s x
    using that manager_inv_disk [OF that(1)] inv_cached [OF that(1), of n p]
    by (auto simp: existingRecord_def bindA_def readRecordA_def readDeploymentRecord_def found_wf_def disk_wf_def
        split: option.splits if_splits sum.splits file_content.splits)
  moreover have "snd (existingRecord env n p s) = s" for s
    using existingRecord_state [of env n p s] by (metis prod.collapse)
  ultimately show ?thesis unfolding ensuresA_def by (metis prod.collapse)
qed

lemma degraded_wf: "valid_edition e \<Longrightarrow> found_wf n p (Some (createDegradedRecord now p n u e c))"
  by (simp add: found_wf_def record_wf_def createDegradedRecord_def)

lemma found_none [simp]: "found_wf n p None"
  by (simp add: found_wf_def)

lemma liftA_inv: "ensuresA P (liftA r) (\<lambda>x. r = Inr x)"
  by (simp add: ensuresA_def)

lemma getDevnode_inv: "ensuresA (manager_inv d0) (getDevnodeDeployment env n p) (found_wf n p)"
proof (cases "Option.bind (me_manager env) na_getConnection")
  case None
  then show ?thesis by (auto simp: getDevnodeDeployment_def intro!: ensures inv_cached)
next
  case (Some cn)
  have degrade: "ensuresA (manager_inv d0) (bindA (liftA (requireProgramEdition p e d))
      (\<lambda>observed. let degraded = createDegradedRecord (me_now env) p n (cn_endpoint cn) observed 0
        in bindA (cacheSet n p degraded) (\<lambda>_. returnA (Some degraded)))) (found_wf n p)" for e d
    by (rule ensuresA_bind [OF liftA_inv])
      (auto simp: Let_def requireProgramEdition_def split: if_splits intro!: ensuresA_bind [where Q = "\<lambda>_. True"] ensures degraded_wf)
  show ?thesis
    unfolding getDevnodeDeployment_def
    by (auto simp: Some split: on_chain.splits option.splits intro!: ensuresA_bind [OF liftA_inv]
        ensuresA_bind [OF existing_inv] degrade ensuresA_bind [where m = "cacheDelete n p" and Q = "\<lambda>_. True"]
        ensuresA_bind [where m = "cacheSet n p r" and Q = "\<lambda>_. True" for r] ensures)
qed

lemma getHttp_inv: "ensuresA (manager_inv d0) (getHttpDeployment env n p) (found_wf n p)"
  unfolding getHttpDeployment_def
  by (auto split: on_chain.splits option.splits intro!: ensuresA_bind [OF liftA_inv] ensuresA_bind [OF existing_inv]
      ensuresA_bind [where m = "validateHttpMetadata env n" and Q = "\<lambda>_. True"]
      ensuresA_bind [where m = "cacheDelete n p" and Q = "\<lambda>_. True"]
      ensuresA_bind [where m = "cacheSet n p r" and Q = "\<lambda>_. True" for r] ensures)

lemma getDeployment_inv [ensures]: "ensuresA (manager_inv d0) (getDeployment env p network) (found_wf (resolveNetwork env network) p)"
  unfolding getDeployment_def Let_def
  by (rule ensuresA_bind [where Q = "\<lambda>_. True"]) (auto intro!: caches_inv ensuresA_simple inv_cached getDevnode_inv getHttp_inv)

abbreviation keeps_inv :: "disk \<Rightarrow> 'a manager_act \<Rightarrow> bool" where
  "keeps_inv d0 m \<equiv> ensuresA (manager_inv d0) m (\<lambda>_. True)"

lemma getDeployment_keeps: "keeps_inv d0 (getDeployment env p network)"
  by (rule ensuresA_weaken [OF getDeployment_inv]) simp

lemma validated_keeps: "keeps_inv d0 (validatedRecords env n ids)"
  unfolding validatedRecords_def
  by (rule ensuresA_fold) (auto intro!: ensuresA_seq getDeployment_keeps ensures)

lemma getAll_keeps: "keeps_inv d0 (getAllDeployments env network)"
  unfolding getAllDeployments_def Let_def
  by (auto intro!: ensuresA_seq validated_keeps ensures)

lemma safe_docs:
  assumes "disk_wf d" and "aleo_id (dr_programId r)" and "valid_edition (dr_edition r)"
    and "dr_status r = StComplete \<longrightarrow> ro_abi opts \<noteq> None"
  shows "safe_ops d (writes (record_docs env d r action opts))"
proof -
  let ?n = "dr_network r" and ?p = "dr_programId r"
  have meta: "safe_ops d' (writes (metadata_docs env n d0))" if "disk_wf d'" for d' d0 n
    using that by (auto simp: metadata_docs_def durable_meta intro!: safe_none safe_one disk_wf_write split: option.splits)
  define d1 where "d1 = run_ops (writes (metadata_docs env ?n d)) d"
  have d1: "disk_wf d1" unfolding d1_def using safe_last [OF meta assms(1)] assms(1) by blast
  define w where "w = (case ro_abi opts of None \<Rightarrow> [] | Some abi \<Rightarrow> [(abiSnapshotPath ?n ?p, FAbi (json_copy abi))])"
  have abi: "safe_ops d1 (writes w)"
    using d1 by (auto simp: w_def durable_abi intro!: safe_none safe_one disk_wf_write split: option.splits)
  define d2 where "d2 = run_ops (writes w) d1"
  have d2: "disk_wf d2" unfolding d2_def using safe_last [OF abi d1] .
  have "\<exists>abi. om_get d2 (abiSnapshotPath ?n ?p) = Some (FAbi abi)" if "dr_status r = StComplete"
    using that assms(4) by (auto simp: d2_def w_def atomicWrite_get)
  then have wr: "disk_wf (run_ops (atomicWrite (recordPath ?n ?p) (FRecord r)) d2)"
    using d2 assms(2,3) by (intro disk_wf_write) (auto simp: durable_record aleo_id_paths)
  have wh: "disk_wf (run_ops (atomicWrite (history_path env r action opts) h) d')" if "disk_wf d'" "h = FHistory e" for d' h e
    using that by (intro disk_wf_write) (auto simp: durable_history_path)
  have "safe_ops d2 (atomicWrite (recordPath ?n ?p) (FRecord r) @ atomicWrite (history_path env r action opts) (FHistory (history_of r action opts)))"
    using wr wh [OF wr refl] by (intro safe_write safe_one) (auto simp: durable_record durable_history_path)
  then show ?thesis
    using meta [OF assms(1)] abi unfolding record_docs_def w_def [symmetric]
    by (auto intro!: safe_append simp: d1_def d2_def)
qed

lemma abi_cache_inv: "keeps_inv d0 (cacheAbi env n p abi)"
proof -
  have set': "keeps_inv d0 (modifyA (\<lambda>s. s\<lparr>ds_abiCache := nm_set n p a (ds_abiCache s)\<rparr>))"
    if "parseAbi ft (Some raw) = Inr a" for a ft raw
    by (rule ensuresA_modify) (use that in \<open>auto simp: manager_inv_def cache_wf_def nm_get_set\<close>)
  then show ?thesis
    by (auto simp: cacheAbi_def split: option.splits sum.splits intro!: ensuresA_bind [OF liftA_inv] ensuresA_seq [where m = "networkAbiCache n"]
        set' ensuresA_simple caches_inv)
qed

lemma persist_inv:
  assumes "aleo_id (dr_programId r)" "valid_edition (dr_edition r)" "dr_status r = StComplete \<longrightarrow> ro_abi opts \<noteq> None"
  shows "keeps_inv d0 (persistRecord env r action opts)"
proof -
  have "manager_inv d0 (snd (persistRecord env r action opts s))" if inv: "manager_inv d0 s" for s
  proof -
    obtain v where "persistRecord env r action opts s = (Inr (), s\<lparr>ds_disk := run_ops (writes (record_docs env (ds_disk s) r action opts)) (ds_disk s),
      ds_trace := ds_trace s @ writes (record_docs env (ds_disk s) r action opts), ds_metadataValidated := v\<rparr>)"
      using persistRecord_run by blast
    moreover have "safe_ops (run_ops (ds_trace s) d0) (writes (record_docs env (ds_disk s) r action opts))"
      using safe_docs [OF manager_inv_disk [OF inv] assms] inv by (simp add: manager_inv_def)
    ultimately show ?thesis using inv by (simp add: manager_inv_def safe_append cache_wf_def)
  qed
  then show ?thesis by (simp add: ensuresA_def)
qed

lemma deletePending_inv: "keeps_inv d0 (deletePendingA n p)"
proof -
  have "manager_inv d0 (snd (deletePendingA n p s))" if inv: "manager_inv d0 s" for s
    using inv safe_delete_pending [OF manager_inv_disk [OF inv], of n p]
    by (simp add: deletePendingA_run manager_inv_def safe_append cache_wf_def)
  then show ?thesis by (simp add: ensuresA_def)
qed

lemma record_keeps:
  assumes "aleo_id (dr_programId r)"
  shows "keeps_inv d0 (record_deployment env r action opts)"
  unfolding record_deployment_def Let_def
  by (auto intro!: ensuresA_seq persist_inv abi_cache_inv deletePending_inv ensures simp: found_wf_def record_wf_def assms)

lemma recover_marker_keeps:
  shows "keeps_inv d0 (recover_marker env n cn acc p)"
proof -
  have "manager_inv d0 (snd (recover_marker env n cn acc p s))" if inv: "manager_inv d0 s" for s
  proof (cases "readPendingMarker n p (ds_disk s)")
    case (Some m)
    then have "om_get (ds_disk s) (pendingPath n p) \<noteq> None" by (auto simp: readPendingMarker_def split: option.splits)
    then have p: "aleo_id p" using manager_inv_disk [OF inv] unfolding disk_wf_def by blast
    have "keeps_inv d0 (bindA (liftA (checkProgramOnChain cn p)) (\<lambda>onChain.
        bindA (liftA (recovery_of p m onChain)) (\<lambda>what. case what of
          DropMarker \<Rightarrow> bindA (deletePendingA n p) (\<lambda>_. returnA acc)
        | KeepMarker \<Rightarrow> returnA acc
        | RecoverAs edition \<Rightarrow>
            bindA (networkCache n) (\<lambda>_.
            bindA (existingRecord env n p) (\<lambda>existing.
              let r = recovered_record env n cn p m edition existing
              in bindA (record_deployment env r (pd_action m) (no_options\<lparr>ro_action := Some (pd_action m)\<rparr>))
                   (\<lambda>_. returnA (acc @ [r])))))))"
      by (auto simp: Let_def split: recovery.splits intro!: ensuresA_seq [where m = "liftA x" for x] ensuresA_seq [where m = "deletePendingA n p"]
          ensuresA_seq [where m = "networkCache n"] ensuresA_bind [OF existing_inv] deletePending_inv
          ensuresA_seq [where m = "record_deployment env r a opts" for r a opts] record_keeps ensures)
        (simp add: recovered_record_def p)
    then show ?thesis using inv Some by (simp add: recover_marker_def ensuresA_def)
  qed (simp add: recover_marker_def inv)
  then show ?thesis by (simp add: ensuresA_def)
qed

lemma recover_keeps: "keeps_inv d0 (recoverPendingDeployments env n cn)"
  unfolding recoverPendingDeployments_def
  by (auto intro!: ensuresA_seq ensuresA_fold recover_marker_keeps ensures)

lemma export_keeps: "keeps_inv d0 (export_deployments env network)"
proof -
  have ne: "m \<noteq> ''_exports'' \<Longrightarrow> exportPath n = abiSnapshotPath m q \<Longrightarrow> False" for n m q
    by (simp add: exportPath_def abiSnapshotPath_def)
  have "safe_ops d (atomicWrite (exportPath n) (FExport b))" if "disk_wf d" for d n b
    using that by (intro safe_one disk_wf_write) (auto simp: durable_export dest: ne)
  then show ?thesis
    unfolding export_deployments_def Let_def writeExportBundle_def
    by (auto intro!: ensuresA_seq getAll_keeps ensures)
qed

lemma setPending_keeps:
  assumes "aleo_id (pd_programId m)"
  shows "keeps_inv d0 (setPending env m)"
proof -
  have "safe_ops d (atomicWrite (pendingPath n (pd_programId m)) (FPending m))" if "disk_wf d" for d n
    using that assms by (intro safe_one disk_wf_write) (auto simp: durable_pending)
  then show ?thesis unfolding setPending_def writePendingMarker_def by (auto intro!: ensures)
qed

section \<open>Sessions\<close>

text \<open>
  The calls of the \<^verbatim>\<open>DeploymentManager\<close> interface, each with the environment it runs in. Of
  \<^verbatim>\<open>preflight\<close> this is what it does to the manager's state, to read the records of its programs, none
  of them when it fails before; the whole of it is \<open>manager_preflight\<close> of the theory of the deploy
  task.
\<close>

datatype manager_call =
    CallGetDeployment string "string option"
  | CallGetAllDeployments "string option"
  | CallIsDeployed string "string option"
  | CallGetHistory string "string option"
  | CallGetCached string "string option"
  | CallIsCachedDeployed string "string option"
  | CallRecord deployment_record deploy_action record_options
  | CallSetPending pending_deployment
  | CallGetPending string string
  | CallClearPending string string
  | CallRecover string chain_connection
  | CallPreflight string "string list"
  | CallExport "string option"
  | CallInvalidateSession string

fun run_call :: "manager_env \<Rightarrow> manager_call \<Rightarrow> manager_state \<Rightarrow> manager_state" where
  "run_call env (CallGetDeployment p n) s = snd (getDeployment env p n s)"
| "run_call env (CallGetAllDeployments n) s = snd (getAllDeployments env n s)"
| "run_call env (CallIsDeployed p n) s = snd (isDeployed env p n s)"
| "run_call env (CallGetHistory p n) s = snd (getHistory env p n s)"
| "run_call env (CallGetCached p n) s = snd (getCached env p n s)"
| "run_call env (CallIsCachedDeployed p n) s = snd (isCachedDeployed env p n s)"
| "run_call env (CallRecord r a opts) s = snd (record_deployment env r a opts s)"
| "run_call env (CallSetPending m) s = snd (setPending env m s)"
| "run_call env (CallGetPending n p) s = snd (getPending env n p s)"
| "run_call env (CallClearPending n p) s = snd (clearPending env n p s)"
| "run_call env (CallRecover n cn) s = snd (recoverPendingDeployments env n cn s)"
| "run_call env (CallPreflight n ids) s = snd (validatedRecords env n ids s)"
| "run_call env (CallExport n) s = snd (export_deployments env n s)"
| "run_call env (CallInvalidateSession n) s = snd (invalidateSession n s :: (manager_error + unit) \<times> manager_state)"

text \<open>What is stored must name a program, as every id that the tasks pass does.\<close>

fun call_ok :: "manager_call \<Rightarrow> bool" where
  "call_ok (CallRecord r a opts) = aleo_id (dr_programId r)"
| "call_ok (CallSetPending m) = aleo_id (pd_programId m)"
| "call_ok _ = True"

definition run_calls :: "(manager_env \<times> manager_call) list \<Rightarrow> manager_state \<Rightarrow> manager_state" where
  "run_calls calls s = fold (\<lambda>(env, c). run_call env c) calls s"

lemma keeps_invD: "keeps_inv d0 m \<Longrightarrow> manager_inv d0 s \<Longrightarrow> manager_inv d0 (snd (m s))"
  by (simp add: ensuresA_def)

lemma getPending_keeps: "keeps_inv d0 (getPending env n p)"
  by (auto simp: getPending_def intro!: ensuresA_seq ensures)

lemma small_calls_keep:
  "keeps_inv d0 (isDeployed env p network)" "keeps_inv d0 (getHistory env p network)" "keeps_inv d0 (getCached env p network)"
  "keeps_inv d0 (isCachedDeployed env p network)" "keeps_inv d0 (clearPending env n p)"
  by (auto simp: isDeployed_def getHistory_def getCached_def isCachedDeployed_def clearPending_def Let_def
      intro!: ensuresA_seq getDeployment_keeps deletePending_inv ensures)

lemma invalidate_keeps: "keeps_inv d0 (invalidateSession n)"
  unfolding invalidateSession_def
  by (rule ensuresA_modify) (auto simp: manager_inv_def cache_wf_def nm_get_def om_get_delete split: if_splits)

lemma run_call_inv: "call_ok c \<Longrightarrow> manager_inv d0 s \<Longrightarrow> manager_inv d0 (run_call env c s)"
  by (cases c) (simp_all add: keeps_invD getDeployment_keeps getAll_keeps validated_keeps small_calls_keep record_keeps setPending_keeps getPending_keeps
      recover_keeps export_keeps invalidate_keeps)

lemma run_calls_inv: "list_all (\<lambda>(env, c). call_ok c) calls \<Longrightarrow> manager_inv d0 s \<Longrightarrow> manager_inv d0 (run_calls calls s)"
  by (induction calls arbitrary: s) (auto simp: run_calls_def run_call_inv)

lemma fresh_inv: "disk_wf d \<Longrightarrow> manager_inv d (fresh_session d)"
  by (simp add: manager_inv_def fresh_session_def cache_wf_def nm_get_def safe_none)

text \<open>
  C12: Whatever a session does - any sequence of calls of the manager's interface, whether they
  return or throw, over any chain, clock and configuration - and wherever the process dies on the
  way, the files it leaves are well formed: a record lies at its own path, has an edition, and a
  complete record is never without its ABI snapshot; while it runs, a cached record is the one of
  the program and network it is filed under, and a cached ABI is a normalised one.
\<close>

theorem session_keeps_files_well_formed:
  assumes "disk_wf d0" and "list_all (\<lambda>(env, c). call_ok c) calls"
    and "crash_state (ds_trace (run_calls calls (fresh_session d0))) d0 d'"
  shows "disk_wf d' \<and> disk_wf (ds_disk (run_calls calls (fresh_session d0))) \<and> cache_wf (run_calls calls (fresh_session d0))"
proof -
  have inv: "manager_inv d0 (run_calls calls (fresh_session d0))"
    using run_calls_inv [OF assms(2) fresh_inv [OF assms(1)]] .
  then have "disk_wf d'" using safe_crash assms(1,3) unfolding manager_inv_def by blast
  then show ?thesis using inv manager_inv_disk [OF inv] by (simp add: manager_inv_def)
qed

definition ex_calls :: "(manager_env \<times> manager_call) list" where
  "ex_calls = [(ex_env, CallSetPending ex_pending), (ex_env, CallRecord ex_record ActDeploy no_options),
    (ex_env, CallGetDeployment ''a.aleo'' None), (ex_env, CallExport None)]"

theorem session_keeps_files_well_formed_witness:
  "disk_wf (run_ops (take 3 (ds_trace (run_calls ex_calls (fresh_session [])))) [])
   \<and> cachedRecord ''t'' ''a.aleo'' (run_calls ex_calls (fresh_session [])) = Some ex_record"
proof -
  have "disk_wf []" by (simp add: disk_wf_def)
  moreover have "list_all (\<lambda>(env, c). call_ok c) ex_calls" by code_simp
  moreover have "crash_state (ds_trace (run_calls ex_calls (fresh_session []))) []
      (run_ops (take 3 (ds_trace (run_calls ex_calls (fresh_session [])))) [])"
    by (rule crash_state.between [of _ _ "drop 3 (ds_trace (run_calls ex_calls (fresh_session [])))"]) simp
  moreover have "cachedRecord ''t'' ''a.aleo'' (run_calls ex_calls (fresh_session [])) = Some ex_record" by code_simp
  ultimately show ?thesis using session_keeps_files_well_formed by blast
qed

section \<open>Waiting is sound and live\<close>

definition advanced :: "jsval \<Rightarrow> jsval \<Rightarrow> bool" where
  "advanced previousEdition e \<longleftrightarrow> js_isInteger e \<and> edition_less previousEdition e"

lemma wait_sound:
  "wait_loop pl p prev deadline t = Inr e \<Longrightarrow> advanced prev e \<and> (\<exists>u. t \<le> u \<and> u \<le> deadline \<and> pl_edition pl u = Inr e)"
proof (induction pl p prev deadline t rule: wait_loop.induct)
  case (1 pl p prev deadline t)
  have in_time: "t \<le> deadline" using "1.prems" by (subst (asm) wait_loop.simps) (auto split: if_splits)
  obtain e' where e': "pl_edition pl t = Inr e'"
    using "1.prems" in_time by (subst (asm) wait_loop.simps) (auto simp: chainR_def split: sum.splits)
  show ?case
  proof (cases "advanced prev e'")
    case True
    then have "e' = e" using "1.prems" in_time e' by (subst (asm) wait_loop.simps) (auto simp: chainR_def advanced_def)
    then show ?thesis using True in_time e' by auto
  next
    case False
    let ?t' = "t + int (pl_latency pl t)"
    let ?next = "?t' + min 500 (deadline - ?t') + int (pl_drift pl ?t')"
    have go: "\<not> deadline - ?t' \<le> 0" and rec: "wait_loop pl p prev deadline ?next = Inr e"
      using "1.prems" in_time e' False
      by (subst (asm) wait_loop.simps, auto simp: chainR_def advanced_def Let_def split: if_splits)+
    have "advanced prev e \<and> (\<exists>u. ?next \<le> u \<and> u \<le> deadline \<and> pl_edition pl u = Inr e)"
      by (rule "1.IH" [OF _ _ _ refl refl go rec]) (use in_time e' False in \<open>auto simp: chainR_def advanced_def\<close>)
    moreover have "t \<le> ?next" using go by linarith
    ultimately show ?thesis by (meson order_trans)
  qed
qed

lemma wait_live:
  assumes "\<And>u. pl_latency pl u \<le> L" and "\<And>u. pl_drift pl u \<le> D"
    and "\<And>u. \<not> isl (pl_edition pl u)" and "\<And>u. T \<le> u \<Longrightarrow> advanced prev (projr (pl_edition pl u))"
    and "T + int L + int D + 500 \<le> deadline"
  shows "t \<le> T + int L + int D + 500 \<Longrightarrow> \<exists>e. wait_loop pl p prev deadline t = Inr e"
proof (induction "nat (T + int L + int D + 500 - t)" arbitrary: t rule: less_induct)
  case less
  obtain e where e: "pl_edition pl t = Inr e" using assms(3) [of t] by (cases "pl_edition pl t") auto
  show ?case
  proof (cases "advanced prev e")
    case True
    then show ?thesis using e less.prems assms(5) by (subst wait_loop.simps) (simp add: chainR_def advanced_def)
  next
    case False
    then have T: "t < T" using assms(4) [of t] e by (cases "T \<le> t") auto
    let ?t' = "t + int (pl_latency pl t)"
    let ?next = "?t' + min 500 (deadline - ?t') + int (pl_drift pl ?t')"
    have lat: "int (pl_latency pl t) \<le> int L" "int (pl_drift pl ?t') \<le> int D" using assms(1,2) by simp_all
    have rem: "0 < deadline - ?t'" using lat T assms(5) by linarith
    have "t < ?next" "?next \<le> T + int L + int D + 500" using lat T rem by linarith+
    then have "\<exists>e. wait_loop pl p prev deadline ?next = Inr e" using less.hyps [of ?next] less.prems by simp
    then show ?thesis using e False rem T assms(5)
      by (subst wait_loop.simps) (simp add: chainR_def advanced_def Let_def)
  qed
qed

text \<open>
  C34: Waiting for an upgrade to show ends, whatever the chain answers: it returns an edition
  only if a read before the deadline gave it and it is later than the previous one. And it does
  return one when the chain shows the new edition early enough: from a time that leaves room for
  one more read, one sleep of half a second and their delays.
\<close>

theorem edition_wait_sound_and_live:
  "(\<forall>e. waitForProgramEditionAdvance pl p prev timeoutMs now = Inr e \<longrightarrow>
      advanced prev e \<and> (\<exists>u. now \<le> u \<and> u \<le> now + timeoutMs \<and> pl_edition pl u = Inr e))
    \<and> ((\<forall>u. pl_latency pl u \<le> L \<and> pl_drift pl u \<le> D \<and> \<not> isl (pl_edition pl u))
        \<and> (\<forall>u. T \<le> u \<longrightarrow> advanced prev (projr (pl_edition pl u))) \<and> now \<le> T \<and> T + int L + int D + 500 \<le> now + timeoutMs
      \<longrightarrow> (\<exists>e. waitForProgramEditionAdvance pl p prev timeoutMs now = Inr e))"
  using wait_sound [of pl p prev "now + timeoutMs" now] wait_live [of pl L D T prev "now + timeoutMs" now p]
  by (simp add: waitForProgramEditionAdvance_def)

definition ex_polled :: polled_chain where
  "ex_polled = \<lparr> pl_edition = (\<lambda>t. Inr (jint (if t < 900 then 3 else 4))), pl_latency = (\<lambda>_. 20), pl_drift = (\<lambda>_. 1) \<rparr>"

theorem edition_wait_sound_and_live_witness:
  "\<exists>e. waitForProgramEditionAdvance ex_polled ''a.aleo'' (jint 3) 2000 0 = Inr e"
  by (rule edition_wait_sound_and_live [where L = 20 and D = 1 and T = 900, THEN conjunct2, THEN mp])
    (auto simp: ex_polled_def advanced_def)

end
