(* ===== verification/LeoVersion.thy ===== *)
theory LeoVersion imports Values begin

text \<open>
  Versions of the Leo CLI: the gates of the deploy plugin (\<^verbatim>\<open>plugin-deploy/src/leo-version.ts\<close>,
  \<^verbatim>\<open>deploy-backend/leo/version-gate.ts\<close>) and the compile preflight (\<^verbatim>\<open>core/src/leo-preflight.ts\<close>),
  both with the memo that keeps a binary from being probed twice. Versions are ordered.
\<close>

section \<open>Versions\<close>

datatype leo_version = Version (v_major: nat) (v_minor: nat) (v_patch: nat)

instantiation leo_version :: linorder
begin

definition less_eq_leo_version :: "leo_version \<Rightarrow> leo_version \<Rightarrow> bool" where
  "less_eq_leo_version v w \<longleftrightarrow> v_major v < v_major w
    \<or> v_major v = v_major w \<and> (v_minor v < v_minor w \<or> v_minor v = v_minor w \<and> v_patch v \<le> v_patch w)"

definition less_leo_version :: "leo_version \<Rightarrow> leo_version \<Rightarrow> bool" where
  "less_leo_version v w \<longleftrightarrow> v \<le> w \<and> \<not> w \<le> v"

instance
proof
  fix u v w :: leo_version
  show "u < v \<longleftrightarrow> u \<le> v \<and> \<not> v \<le> u" by (rule less_leo_version_def)
  show "u \<le> u" by (simp add: less_eq_leo_version_def)
  show "u \<le> v \<Longrightarrow> v \<le> w \<Longrightarrow> u \<le> w" by (auto simp: less_eq_leo_version_def)
  show "u \<le> v \<Longrightarrow> v \<le> u \<Longrightarrow> u = v" by (cases u; cases v) (auto simp: less_eq_leo_version_def)
  show "u \<le> v \<or> v \<le> u" by (auto simp: less_eq_leo_version_def)
qed

end

section \<open>Parsing\<close>

text \<open>
  Three runs of digits with dots between: what \<^verbatim>\<open>(\d+)\.(\d+)\.(\d+)\<close> matches at the start of the
  text, and the text after it. No shorter run can match, as a dot must follow each of the first two.
\<close>

definition after_dot :: "string \<Rightarrow> string option" where
  "after_dot s = (case s of [] \<Rightarrow> None | c # cs \<Rightarrow> if c = CHR ''.'' then Some cs else None)"

definition digit_run :: "string \<Rightarrow> (string \<times> string) option" where
  "digit_run s = (if takeWhile is_digit s = [] then None else Some (takeWhile is_digit s, dropWhile is_digit s))"

definition triple_prefix :: "string \<Rightarrow> (string \<times> string \<times> string \<times> string) option" where
  "triple_prefix s =
    Option.bind (digit_run s) (\<lambda>(a, r). Option.bind (after_dot r) (\<lambda>r.
    Option.bind (digit_run r) (\<lambda>(b, r). Option.bind (after_dot r) (\<lambda>r.
    Option.bind (digit_run r) (\<lambda>(c, r). Some (a, b, c, r))))))"

text \<open>\<^verbatim>\<open>STABLE_LEO_VERSION_RE\<close> and \<^verbatim>\<open>CONFIG_VERSION_RE\<close>: the whole text.\<close>

definition stable_triple :: "string \<Rightarrow> (string \<times> string \<times> string) option" where
  "stable_triple s = (case triple_prefix s of Some (a, b, c, []) \<Rightarrow> Some (a, b, c) | _ \<Rightarrow> None)"

definition decimal :: "string \<Rightarrow> nat" where "decimal s = digits_val 10 s"

definition parseConfigLeoVersion :: "string \<Rightarrow> leo_version option" where
  "parseConfigLeoVersion s = map_option (\<lambda>(a, b, c). Version (decimal a) (decimal b) (decimal c)) (stable_triple s)"

definition version_word :: "char \<Rightarrow> bool" where
  "version_word c \<longleftrightarrow> is_digit c \<or> is_lower c \<or> is_upper c \<or> c = CHR ''_''"

text \<open>
  \<^verbatim>\<open>LEO_VERSION_RE\<close> in a longer text: the first place after a non-word character where three runs
  stand that no \<^verbatim>\<open>-\<close>, \<^verbatim>\<open>+\<close>, dot or word character follows.
\<close>

definition ends_version :: "string \<Rightarrow> bool" where
  "ends_version r = (case r of [] \<Rightarrow> True | c # cs \<Rightarrow> \<not> (version_word c \<or> c = CHR ''-'' \<or> c = CHR ''+'' \<or> c = CHR ''.''))"

fun version_scan :: "bool \<Rightarrow> string \<Rightarrow> (string \<times> string \<times> string) option" where
  "version_scan inword [] = None"
| "version_scan inword (c # cs) =
    (case (if inword then None else triple_prefix (c # cs)) of
      Some (a, b, d, r) \<Rightarrow> if ends_version r then Some (a, b, d) else version_scan (version_word c) cs
    | None \<Rightarrow> version_scan (version_word c) cs)"

record parsed_version =
  pv_version :: leo_version
  pv_text :: string

definition parseLeoVersionOutput :: "string \<Rightarrow> parsed_version option" where
  "parseLeoVersionOutput out = map_option
    (\<lambda>(a, b, c). \<lparr> pv_version = Version (decimal a) (decimal b) (decimal c), pv_text = a @ ''.'' @ b @ ''.'' @ c \<rparr>)
    (version_scan False out)"

section \<open>The supported lines\<close>

definition supportsLeoProgramRename :: "string \<Rightarrow> bool" where
  "supportsLeoProgramRename leoVersion =
    (case stable_triple leoVersion of
      None \<Rightarrow> False
    | Some (a, b, c) \<Rightarrow> 4 < decimal a \<or> decimal a = 4 \<and> 3 \<le> decimal b)"

definition LEO_DEPLOY_BACKEND_LINES :: "string list" where "LEO_DEPLOY_BACKEND_LINES = [''4.3'', ''4.4'']"

definition supportsLeoDeployBackend :: "string \<Rightarrow> bool" where
  "supportsLeoDeployBackend leoVersion =
    (case stable_triple leoVersion of
      None \<Rightarrow> False
    | Some (a, b, c) \<Rightarrow> a @ ''.'' @ b \<in> set LEO_DEPLOY_BACKEND_LINES)"

section \<open>Probing a binary\<close>

datatype version_error =
    ProbeFailed string
  | NoVersion string
  | UnsupportedLine string string
  | NotStable string
  | WrongLine string string

text \<open>What running the binary with \<^verbatim>\<open>--version\<close> prints, or why it could not run.\<close>

type_synonym version_probe = "string \<Rightarrow> string + string"

definition runGate :: "version_probe \<Rightarrow> string \<Rightarrow> version_error + unit" where
  "runGate probe leoBinary =
    (case probe leoBinary of
      Inl e \<Rightarrow> Inl (ProbeFailed leoBinary)
    | Inr out \<Rightarrow> (case parseLeoVersionOutput out of
        None \<Rightarrow> Inl (NoVersion leoBinary)
      | Some parsed \<Rightarrow> if supportsLeoDeployBackend (pv_text parsed) then Inr () else Inl (UnsupportedLine leoBinary (pv_text parsed))))"

text \<open>
  The memo of \<^verbatim>\<open>assertLeoBinaryVersion\<close> keeps the binaries that passed: a failure is removed again.
  Calls run one after another.
\<close>

definition assertLeoBinaryVersion :: "version_probe \<Rightarrow> string \<Rightarrow> (string list, version_error, unit) act" where
  "assertLeoBinaryVersion probe leoBinary =
    bindA (getA (\<lambda>memo. leoBinary \<in> set memo)) (\<lambda>known.
      if known then returnA ()
      else bindA (liftA (runGate probe leoBinary)) (\<lambda>_. modifyA (\<lambda>memo. leoBinary # memo)))"

text \<open>The compile preflight keeps its verdict, failures too, for the binary, the line and the skip flag.\<close>

record leo_config =
  lc_leoBinary :: string
  lc_leoVersion :: string
  lc_skip :: bool

definition runLeoPreflight :: "version_probe \<Rightarrow> leo_config \<Rightarrow> version_error + unit" where
  "runLeoPreflight probe config =
    (case probe (lc_leoBinary config) of
      Inl e \<Rightarrow> Inl (ProbeFailed (lc_leoBinary config))
    | Inr out \<Rightarrow>
        if lc_skip config then Inr ()
        else (case parseConfigLeoVersion (lc_leoVersion config) of
            None \<Rightarrow> Inl (NotStable (lc_leoVersion config))
          | Some expected \<Rightarrow> (case parseLeoVersionOutput out of
              None \<Rightarrow> Inl (NoVersion (lc_leoBinary config))
            | Some actual \<Rightarrow>
                if v_major (pv_version actual) \<noteq> v_major expected \<or> v_minor (pv_version actual) \<noteq> v_minor expected
                then Inl (WrongLine (lc_leoBinary config) (pv_text actual)) else Inr ())))"

definition preflight_key :: "leo_config \<Rightarrow> string \<times> string \<times> bool" where
  "preflight_key config =
    (lc_leoBinary config,
     (case parseConfigLeoVersion (lc_leoVersion config) of
        Some v \<Rightarrow> nat_str (v_major v) @ ''.'' @ nat_str (v_minor v) | None \<Rightarrow> lc_leoVersion config),
     lc_skip config)"

type_synonym preflight_memo = "(string \<times> string \<times> bool, version_error + unit) omap"

definition preflightLeo :: "version_probe \<Rightarrow> leo_config \<Rightarrow> (preflight_memo, version_error, unit) act" where
  "preflightLeo probe config = (\<lambda>memo.
    (case om_get memo (preflight_key config) of
      Some verdict \<Rightarrow> (verdict, memo)
    | None \<Rightarrow> (let verdict = runLeoPreflight probe config in (verdict, om_set (preflight_key config) verdict memo))))"

section \<open>What the gates mean\<close>

lemma rename_supported_from_4_3:
  "supportsLeoProgramRename s \<longleftrightarrow> (\<exists>v. parseConfigLeoVersion s = Some v \<and> Version 4 3 0 \<le> v)"
  by (auto simp: supportsLeoProgramRename_def parseConfigLeoVersion_def less_eq_leo_version_def split: option.splits prod.splits)

lemma digit_run_sound: "digit_run s = Some (a, r) \<Longrightarrow> s = a @ r \<and> a \<noteq> [] \<and> list_all is_digit a"
  by (auto simp: digit_run_def list_all_iff dest: set_takeWhileD split: if_splits)

lemma after_dot_sound: "after_dot s = Some r \<Longrightarrow> s = CHR ''.'' # r"
  by (auto simp: after_dot_def split: list.splits if_splits)

lemma triple_prefix_sound:
  "triple_prefix s = Some (a, b, c, r) \<Longrightarrow> s = a @ ''.'' @ b @ ''.'' @ c @ r
    \<and> list_all is_digit a \<and> list_all is_digit b \<and> list_all is_digit c \<and> a \<noteq> [] \<and> b \<noteq> [] \<and> c \<noteq> []"
  by (auto simp: triple_prefix_def bind_eq_Some_conv dest!: digit_run_sound after_dot_sound)

lemma digit_run_complete:
  "list_all is_digit a \<Longrightarrow> a \<noteq> [] \<Longrightarrow> (case r of [] \<Rightarrow> True | c # cs \<Rightarrow> \<not> is_digit c) \<Longrightarrow> digit_run (a @ r) = Some (a, r)"
proof -
  assume a: "list_all is_digit a" "a \<noteq> []" and r: "case r of [] \<Rightarrow> True | c # cs \<Rightarrow> \<not> is_digit c"
  have "takeWhile is_digit (a @ r) = a @ takeWhile is_digit r" "dropWhile is_digit (a @ r) = dropWhile is_digit r"
    using a(1) by (simp_all add: takeWhile_append2 dropWhile_append2 list_all_iff)
  moreover have "takeWhile is_digit r = []" "dropWhile is_digit r = r" using r by (cases r; simp)+
  ultimately show ?thesis using a(2) by (simp add: digit_run_def)
qed

lemma triple_prefix_complete:
  assumes "list_all is_digit a" "list_all is_digit b" "list_all is_digit c" "a \<noteq> []" "b \<noteq> []" "c \<noteq> []"
    and "case r of [] \<Rightarrow> True | x # xs \<Rightarrow> \<not> is_digit x"
  shows "triple_prefix (a @ ''.'' @ b @ ''.'' @ c @ r) = Some (a, b, c, r)"
  using assms by (simp add: triple_prefix_def digit_run_complete after_dot_def char_class_defs)

lemma version_scan_sound:
  "version_scan inword s = Some (a, b, c) \<Longrightarrow> \<exists>pre post. s = pre @ a @ ''.'' @ b @ ''.'' @ c @ post \<and> ends_version post
    \<and> (if pre = [] then \<not> inword else \<not> version_word (last pre))
    \<and> list_all is_digit a \<and> list_all is_digit b \<and> list_all is_digit c \<and> a \<noteq> [] \<and> b \<noteq> [] \<and> c \<noteq> []"
proof (induction inword s rule: version_scan.induct)
  case (2 inword x xs)
  show ?case
  proof (cases "\<exists>r. \<not> inword \<and> triple_prefix (x # xs) = Some (a, b, c, r) \<and> ends_version r")
    case True
    then obtain r where "\<not> inword" "triple_prefix (x # xs) = Some (a, b, c, r)" "ends_version r" by blast
    then show ?thesis using triple_prefix_sound [of "x # xs"] by (intro exI [of _ "[]"] exI [of _ r]) auto
  next
    case False
    then have later: "version_scan (version_word x) xs = Some (a, b, c)"
      using "2.prems" by (auto split: option.splits if_splits)
    obtain pre post where p: "xs = pre @ a @ ''.'' @ b @ ''.'' @ c @ post" "ends_version post"
      "if pre = [] then \<not> version_word x else \<not> version_word (last pre)"
      "list_all is_digit a \<and> list_all is_digit b \<and> list_all is_digit c \<and> a \<noteq> [] \<and> b \<noteq> [] \<and> c \<noteq> []"
    proof (cases "if inword then None else triple_prefix (x # xs)")
      case None
      then show ?thesis using "2.IH"(1) [OF None later] that by blast
    next
      case (Some t)
      obtain a' b' c' r' where t: "t = (a', b', c', r')" by (cases t)
      have "\<not> ends_version r'"
      proof
        assume e: "ends_version r'"
        then have "(a', b', c') = (a, b, c)" using "2.prems" Some t by simp
        then show False using False Some t e by (auto split: if_splits)
      qed
      then show ?thesis using "2.IH"(2) [OF Some t [symmetric] refl refl _ later] that by blast
    qed
    show ?thesis using p by (intro exI [of _ "x # pre"] exI [of _ post]) auto
  qed
qed simp

text \<open>What a binary prints that passes the gate: a version on a supported line, on its own.\<close>

definition prints_supported :: "string \<Rightarrow> bool" where
  "prints_supported out \<longleftrightarrow> (\<exists>pre l c post. out = pre @ l @ ''.'' @ c @ post \<and> l \<in> set LEO_DEPLOY_BACKEND_LINES
    \<and> c \<noteq> [] \<and> list_all is_digit c \<and> ends_version post \<and> (pre = [] \<or> \<not> version_word (last pre)))"

lemma stable_triple_eq:
  "list_all is_digit a \<Longrightarrow> list_all is_digit b \<Longrightarrow> list_all is_digit c \<Longrightarrow> a \<noteq> [] \<Longrightarrow> b \<noteq> [] \<Longrightarrow> c \<noteq> []
    \<Longrightarrow> stable_triple (a @ ''.'' @ b @ ''.'' @ c) = Some (a, b, c)"
  using triple_prefix_complete [of a b c "[]"] by (simp add: stable_triple_def)

lemma runGate_sound:
  assumes "runGate probe bin = Inr ()"
  shows "\<exists>out. probe bin = Inr out \<and> prints_supported out"
proof -
  obtain out where out: "probe bin = Inr out" using assms by (auto simp: runGate_def split: sum.splits)
  then obtain a b c where abc: "version_scan False out = Some (a, b, c)" and sup: "supportsLeoDeployBackend (a @ ''.'' @ b @ ''.'' @ c)"
    using assms by (auto simp: runGate_def parseLeoVersionOutput_def split: option.splits if_splits)
  obtain pre post where p: "out = pre @ a @ ''.'' @ b @ ''.'' @ c @ post" "ends_version post" "pre = [] \<or> \<not> version_word (last pre)"
    "list_all is_digit a" "list_all is_digit b" "list_all is_digit c" "a \<noteq> []" "b \<noteq> []" "c \<noteq> []"
    using version_scan_sound [OF abc] by (auto split: if_splits)
  have "a @ ''.'' @ b \<in> set LEO_DEPLOY_BACKEND_LINES"
    using sup stable_triple_eq [OF p(4-9)] by (simp add: supportsLeoDeployBackend_def)
  then have "prints_supported out"
    unfolding prints_supported_def using p
    by (intro exI [of _ pre] exI [of _ "a @ ''.'' @ b"] exI [of _ c] exI [of _ post]) auto
  then show ?thesis using out by blast
qed

text \<open>The memo only ever holds binaries that passed.\<close>

lemma gate_sound:
  assumes "assertLeoBinaryVersion probe bin memo = (Inr (), memo')" and "\<And>b. b \<in> set memo \<Longrightarrow> runGate probe b = Inr ()"
  shows "runGate probe bin = Inr ()" and "\<And>b. b \<in> set memo' \<Longrightarrow> runGate probe b = Inr ()" and "bin \<in> set memo'"
  using assms by (auto simp: assertLeoBinaryVersion_def bindA_Inr bindA_def liftA_def split: if_splits sum.splits)

text \<open>The two readings of a version differ on a leading zero.\<close>

lemma leading_zero_versions: "supportsLeoProgramRename ''04.3.0'' \<and> \<not> supportsLeoDeployBackend ''04.3.0''"
  by code_simp

lemma backend_line_renames: "supportsLeoDeployBackend s \<Longrightarrow> supportsLeoProgramRename s"
proof -
  assume "supportsLeoDeployBackend s"
  then obtain a b c where t: "stable_triple s = Some (a, b, c)" and l: "a @ ''.'' @ b = ''4.3'' \<or> a @ ''.'' @ b = ''4.4''"
    by (auto simp: supportsLeoDeployBackend_def LEO_DEPLOY_BACKEND_LINES_def split: option.splits)
  have digits: "list_all is_digit a" "a \<noteq> []" "list_all is_digit b"
    using t triple_prefix_sound [of s a b c "[]"] by (auto simp: stable_triple_def split: option.splits list.splits)
  then have "a = ''4''"
    using l by (cases a; cases "tl a") (auto simp: char_class_defs)
  then have "b = ''3'' \<or> b = ''4''" using l by simp
  then show ?thesis using t \<open>a = ''4''\<close>
    by (auto simp: supportsLeoProgramRename_def decimal_def digits_val_def digit_val_def char_class_defs)
qed

end
