(* ===== verification/LeoBackend.thy ===== *)
theory LeoBackend imports DeployStore LeoVersion begin

text \<open>
  The deploy backends (\<^verbatim>\<open>plugin-deploy/src/deploy-backend/\<close>): which one builds a transaction
  (\<^verbatim>\<open>select.ts\<close>, \<^verbatim>\<open>resolve.ts\<close>), the Leo CLI backend (\<^verbatim>\<open>leo-backend.ts\<close> with \<^verbatim>\<open>leo/argv.ts\<close>,
  \<^verbatim>\<open>leo/env.ts\<close>, \<^verbatim>\<open>leo/outcome.ts\<close>, \<^verbatim>\<open>leo/package.ts\<close>), the SDK backend (\<^verbatim>\<open>sdk-backend.ts\<close>) and the
  signer's address (\<^verbatim>\<open>deployer-address.ts\<close>). What the Leo process does to the files and the chain,
  what the SDK's atomic deploy does to the chain, \<^verbatim>\<open>JSON.parse\<close>, the hash and the SDK's other functions
  are parameters.
\<close>

section \<open>Errors\<close>

datatype leo_stage = StVersionGate | StPackage | StSpawn | StRun | StTimeout | StOutcome

datatype leo_fault =
    Terminated string
  | ExitedWith "int option" "string option"
  | NoTransaction "string list" "string option"
  | ManyTransactions "string list"
  | EmptyTransaction
  | TransactionNotJson
  | TransactionNotObject
  | NotADeployment jsval
  | NoProgramPayload
  | NoProgramDeclaration
  | OtherProgram string
  | TimedOut nat
  | NoPackage
  | NotCompiled
  | OutOfStep
  | Rebuilt

datatype backend_error =
    InvalidBackend jsval string
  | UnknownNetwork string
  | EgressUnsupported
  | ApiKeyUnsupported string
  | LineUnsupported string
  | NoSigningKey string
  | SkipCollision "string list"
  | LeoFault leo_stage leo_fault
  | VersionFault version_error
  | SdkMissing string
  | SdkFailed string
  | SpawnFailed string

section \<open>Selecting the backend\<close>

datatype provider = ProviderSdk | ProviderLeo

fun provider_of :: "jsval \<Rightarrow> provider option" where
  "provider_of (JStr s) = (if s = ''sdk'' then Some ProviderSdk else if s = ''leo'' then Some ProviderLeo else None)"
| "provider_of v = None"

definition readLayer :: "jsval \<Rightarrow> string \<Rightarrow> bool \<Rightarrow> backend_error + provider option" where
  "readLayer value source emptyIsUnset =
    (if value = JUndef then Inr None
     else if emptyIsUnset \<and> value = JStr [] then Inr None
     else (case provider_of value of Some p \<Rightarrow> Inr (Some p) | None \<Rightarrow> Inl (InvalidBackend value source)))"

record backend_network =
  bn_type :: network_type
  bn_network :: string
  bn_socketAddr :: string
  bn_endpoint :: string
  bn_apiKey :: "string option"
  bn_consensusHeights :: "string option"
  bn_deployBackend :: jsval

record leo_settings =
  ls_timeout :: nat
  ls_logMode :: string

record key_cache =
  kc_storage :: string
  kc_path :: "string option"

record backend_config =
  bf_networks :: "(string, backend_network) omap"
  bf_deployBackend :: jsval
  bf_leoBinary :: string
  bf_leoVersion :: string
  bf_leo :: leo_settings
  bf_egress :: "jsval option"
  bf_keyCache :: "key_cache option"
  bf_logLevel :: "string option"
  bf_artifacts :: string
  bf_root :: string

definition or_else :: "backend_error + provider option \<Rightarrow> backend_error + provider \<Rightarrow> backend_error + provider" where
  "or_else layer rest = bindR layer (\<lambda>p. case p of Some p \<Rightarrow> Inr p | None \<Rightarrow> rest)"

text \<open>\<^verbatim>\<open>process.env\<close> has strings only.\<close>

definition resolveDeployBackendFromEnvAndConfig :: "(string, string) omap \<Rightarrow> backend_config \<Rightarrow> string \<Rightarrow> backend_error + provider" where
  "resolveDeployBackendFromEnvAndConfig env config networkName =
    or_else (readLayer (case om_get env ''LIONDEN_DEPLOY_BACKEND'' of None \<Rightarrow> JUndef | Some s \<Rightarrow> JStr s) ''LIONDEN_DEPLOY_BACKEND'' True)
    (or_else (readLayer (case om_get (bf_networks config) networkName of None \<Rightarrow> JUndef | Some n \<Rightarrow> bn_deployBackend n)
        (''networks.'' @ networkName @ ''.deployBackend'') False)
    (or_else (readLayer (bf_deployBackend config) ''deploy.backend'' False) (Inr ProviderSdk)))"

definition resolveDeployBackendOption :: "(string, jsval) omap \<Rightarrow> (string, jsval) omap \<Rightarrow> (string, string) omap \<Rightarrow> backend_config
    \<Rightarrow> string \<Rightarrow> backend_error + provider" where
  "resolveDeployBackendOption args globalOptions env config networkName =
    or_else (readLayer (js_get args ''deployBackend'') ''the deployBackend argument'' False)
    (or_else (readLayer (js_get globalOptions ''deployBackend'') ''--deploy-backend'' False)
    (resolveDeployBackendFromEnvAndConfig env config networkName))"

section \<open>Contexts\<close>

record backend_ctx =
  bc_networkName :: string
  bc_connectionType :: network_type
  bc_networkId :: string
  bc_endpoint :: string
  bc_apiKey :: "string option"
  bc_consensusHeights :: "string option"
  bc_leoBinary :: string
  bc_leoVersion :: string
  bc_leo :: leo_settings
  bc_sdkEgress :: "jsval option"
  bc_keyCache :: "key_cache option"
  bc_logLevel :: "string option"
  bc_artifactsDir :: string
  bc_projectRoot :: string
  bc_privateKey :: "string option"

definition buildPreflightContext :: "backend_config \<Rightarrow> string \<Rightarrow> backend_error + backend_ctx" where
  "buildPreflightContext config networkName =
    (case om_get (bf_networks config) networkName of
      None \<Rightarrow> Inl (UnknownNetwork networkName)
    | Some n \<Rightarrow> Inr \<lparr>
        bc_networkName = networkName, bc_connectionType = bn_type n, bc_networkId = bn_network n,
        bc_endpoint = (if bn_type n = NetDevnode then ''http://'' @ bn_socketAddr n else bn_endpoint n),
        bc_apiKey = (if bn_type n = NetHttp then bn_apiKey n else None),
        bc_consensusHeights = (if bn_type n = NetDevnode then bn_consensusHeights n else None),
        bc_leoBinary = bf_leoBinary config, bc_leoVersion = bf_leoVersion config, bc_leo = bf_leo config,
        bc_sdkEgress = bf_egress config, bc_keyCache = bf_keyCache config, bc_logLevel = bf_logLevel config,
        bc_artifactsDir = bf_artifacts config, bc_projectRoot = bf_root config, bc_privateKey = None \<rparr>)"

record live_connection =
  lv_endpoint :: string
  lv_networkId :: string
  lv_type :: network_type
  lv_privateKey :: "string option"
  lv_apiKey :: "string option"

definition keep_or :: "'a option \<Rightarrow> 'a option \<Rightarrow> 'a option" where
  "keep_or x y = (case x of None \<Rightarrow> y | Some v \<Rightarrow> Some v)"

definition buildBackendContext :: "backend_config \<Rightarrow> live_connection \<Rightarrow> string \<Rightarrow> backend_error + backend_ctx" where
  "buildBackendContext config connection networkName =
    bindR (buildPreflightContext config networkName) (\<lambda>ctx. Inr (ctx\<lparr>
      bc_endpoint := lv_endpoint connection, bc_networkId := lv_networkId connection, bc_connectionType := lv_type connection,
      bc_privateKey := keep_or (lv_privateKey connection) (bc_privateKey ctx),
      bc_apiKey := keep_or (lv_apiKey connection) (bc_apiKey ctx)\<rparr>))"

datatype backend_warning = IgnoresKeyCache "string option" | FeeUnavailable | FeeFailed string

definition assertDeployBackendCompatible :: "provider \<Rightarrow> backend_ctx \<Rightarrow> backend_error + backend_warning list" where
  "assertDeployBackendCompatible p ctx =
    (if p \<noteq> ProviderLeo then Inr []
     else if bc_sdkEgress ctx \<noteq> None then Inl EgressUnsupported
     else if bc_apiKey ctx \<noteq> None then Inl (ApiKeyUnsupported (bc_networkName ctx))
     else if \<not> supportsLeoDeployBackend (bc_leoVersion ctx) then Inl (LineUnsupported (bc_leoVersion ctx))
     else Inr (case bc_keyCache ctx of None \<Rightarrow> []
       | Some kc \<Rightarrow> if kc_storage kc = ''filesystem'' then [IgnoresKeyCache (kc_path kc)] else []))"

record capabilities =
  cb_buildWithoutBroadcast :: bool
  cb_feeEstimation :: bool
  cb_resumableKeySynthesis :: bool

definition leo_capabilities :: capabilities where
  "leo_capabilities = \<lparr> cb_buildWithoutBroadcast = True, cb_feeEstimation = False, cb_resumableKeySynthesis = True \<rparr>"

definition sdk_capabilities :: "network_type \<Rightarrow> capabilities" where
  "sdk_capabilities t = \<lparr> cb_buildWithoutBroadcast = (t = NetDevnode), cb_feeEstimation = True, cb_resumableKeySynthesis = False \<rparr>"

text \<open>The backend is the provider with the connection type its capabilities were fixed for.\<close>

definition resolveDeployBackend :: "provider \<Rightarrow> backend_ctx \<Rightarrow> backend_error + provider \<times> capabilities" where
  "resolveDeployBackend p ctx =
    bindR (assertDeployBackendCompatible p ctx) (\<lambda>_.
      Inr (if p = ProviderLeo then (ProviderLeo, leo_capabilities) else (ProviderSdk, sdk_capabilities (bc_connectionType ctx))))"

record backend_request =
  br_programId :: string
  br_sourceProgramId :: "string option"
  br_aleoSource :: string
  br_localDependencyIds :: "string list"
  br_priorityFee :: int
  br_privateFee :: bool
  br_signerPrivateKey :: "string option"
  br_prove :: bool

datatype backend_result = Broadcast string | Built string

section \<open>Leo's argument vector and environment\<close>

datatype leo_operation = LeoDeploy | LeoUpgrade

fun op_name :: "leo_operation \<Rightarrow> string" where
  "op_name LeoDeploy = ''deploy''"
| "op_name LeoUpgrade = ''upgrade''"

record argv_options =
  ao_operation :: leo_operation
  ao_programId :: string
  ao_packageDir :: string
  ao_saveDir :: string
  ao_jsonOutputPath :: string
  ao_networkId :: string
  ao_endpoint :: string
  ao_connectionType :: network_type
  ao_consensusHeights :: "string option"
  ao_priorityFee :: int
  ao_privateFee :: bool
  ao_localDependencyIds :: "string list"
  ao_prove :: bool
  ao_logLevel :: "string option"

definition assertNoSkipCollision :: "string \<Rightarrow> string list \<Rightarrow> backend_error + unit" where
  "assertNoSkipCollision programId localDependencyIds =
    (let colliding = filter (\<lambda>dep. str_includes programId dep) localDependencyIds
     in if colliding = [] then Inr () else Inl (SkipCollision colliding))"

definition leoVerbosityFlag :: "string option \<Rightarrow> string list" where
  "leoVerbosityFlag logLevel =
    (if logLevel = Some ''silent'' \<or> logLevel = Some ''error'' then [''-q'']
     else if logLevel = Some ''debug'' then [''-d''] else [])"

definition buildLeoArgv :: "argv_options \<Rightarrow> backend_error + string list" where
  "buildLeoArgv opts =
    bindR (assertNoSkipCollision (ao_programId opts) (ao_localDependencyIds opts)) (\<lambda>_.
      let isDevnode = (ao_connectionType opts = NetDevnode) in
      Inr ([''--disable-update-check'', op_name (ao_operation opts), ''--path'', ao_packageDir opts, ''--save'', ao_saveDir opts,
            ''--json-output='' @ ao_jsonOutputPath opts, ''--yes'', ''--network'', ao_networkId opts, ''--endpoint'', ao_endpoint opts]
        @ (if isDevnode then [''--devnet''] else [])
        @ (case ao_consensusHeights opts of None \<Rightarrow> [] | Some h \<Rightarrow> if isDevnode then [''--consensus-heights'', h] else [])
        @ (if 0 < ao_priorityFee opts then [''--priority-fees'', int_str (ao_priorityFee opts)] else [])
        @ (if ao_privateFee opts then [''-f'', ''default''] else [])
        @ concat (map (\<lambda>dep. [''--skip'', dep]) (ao_localDependencyIds opts))
        @ (if isDevnode \<and> \<not> ao_prove opts then [''--skip-deploy-certificate''] else [])
        @ leoVerbosityFlag (ao_logLevel opts)))"

definition buildLeoEnv :: "(string, string) omap \<Rightarrow> string \<Rightarrow> string \<Rightarrow> network_type \<Rightarrow> string option \<Rightarrow> (string, string) omap" where
  "buildLeoEnv parent networkId endpoint connectionType privateKey =
    (let env = om_set ''DEVNET'' (if connectionType = NetDevnode then ''true'' else ''false'')
        (om_set ''ENDPOINT'' endpoint (om_set ''NETWORK'' networkId parent))
     in case privateKey of Some k \<Rightarrow> om_set ''PRIVATE_KEY'' k env | None \<Rightarrow> om_delete ''PRIVATE_KEY'' env)"

section \<open>Reading a finished run\<close>

definition savedTransactionFileName :: "string \<Rightarrow> string" where
  "savedTransactionFileName programId = programId @ ''.deployment.json''"

record leo_stats =
  lt_programSizeBytes :: "jsnum option"
  lt_storageCost :: "jsnum option"
  lt_namespaceCost :: "jsnum option"
  lt_synthesisCost :: "jsnum option"
  lt_constructorCost :: "jsnum option"
  lt_priorityFee :: "jsnum option"
  lt_totalCost :: "jsnum option"

record run_artifacts =
  ra_exitCode :: "int option"
  ra_signal :: "string option"
  ra_stdout :: string
  ra_stderr :: string
  ra_savedFiles :: "(string, string) omap"
  ra_jsonOutput :: "string option"

record leo_outcome =
  lo_transaction :: string
  lo_transactionId :: "string option"
  lo_stats :: "leo_stats option"

definition FAILURE_MARKERS :: "(string \<times> string) list" where
  "FAILURE_MARKERS =
    [(''Transaction rejected.'', ''The network rejected the transaction.''),
     (''Transaction aborted.'', ''The network aborted the transaction.''),
     (''Could not find the transaction.'', ''Leo could not locate the transaction on the network within its search window.''),
     (CHR 39 # '' is not a valid upgrade: '', ''The program'' @ [CHR 39] @ ''s constructor rejected the upgrade.''),
     ('' Failed to upgrade program '', ''The upgrade did not complete.''),
     ('' Deployment skipped.'', ''Leo skipped the deployment.'')]"

definition classifySuffix :: "run_artifacts \<Rightarrow> string option" where
  "classifySuffix a =
    (let haystack = ra_stdout a @ [CHR 10] @ ra_stderr a
     in map_option snd (find (\<lambda>e. str_includes haystack (fst e)) FAILURE_MARKERS))"

text \<open>
  \<^verbatim>\<open>/^program\s+([^\s;]+)\s*;/m\<close>: at the start of a line, \<^verbatim>\<open>program\<close>, white space, an id without white
  space or semicolon, and a semicolon. The first such line gives the id.
\<close>

definition program_line :: "string \<Rightarrow> string option" where
  "program_line s =
    (if \<not> starts_with s ''program'' then None
     else
       let r = drop 7 s; body = dropWhile is_js_space r;
           stop = (\<lambda>c. is_js_space c \<or> c = CHR '';'');
           ident = takeWhile (\<lambda>c. \<not> stop c) body; r' = dropWhile is_js_space (dropWhile (\<lambda>c. \<not> stop c) body)
       in if body = r \<or> ident = [] then None
          else (case r' of [] \<Rightarrow> None | c # cs \<Rightarrow> if c = CHR '';'' then Some ident else None))"

definition is_line_end :: "char \<Rightarrow> bool" where
  "is_line_end c \<longleftrightarrow> c = CHR 10 \<or> c = CHR 13"

fun declared_scan :: "bool \<Rightarrow> string \<Rightarrow> string option" where
  "declared_scan at_start [] = None"
| "declared_scan at_start (c # cs) =
    (case (if at_start then program_line (c # cs) else None) of
      Some ident \<Rightarrow> Some ident
    | None \<Rightarrow> declared_scan (is_line_end c) cs)"

definition declaredProgramId :: "string \<Rightarrow> string option" where
  "declaredProgramId program = declared_scan True program"

fun as_str :: "jsval \<Rightarrow> string option" where
  "as_str (JStr s) = Some s"
| "as_str _ = None"

fun as_num :: "jsval \<Rightarrow> jsnum option" where
  "as_num (JNum n) = Some n"
| "as_num _ = None"

text \<open>The file's members are read only where it parses; the result is the transaction's own id.\<close>

definition verifySavedTransaction :: "(string \<Rightarrow> jsval option) \<Rightarrow> string \<Rightarrow> string \<Rightarrow> leo_fault + string option" where
  "verifySavedTransaction json programId saved =
    (if js_trim saved = [] then Inl EmptyTransaction
     else (case json saved of
        None \<Rightarrow> Inl TransactionNotJson
      | Some (JObj tx) \<Rightarrow>
          if js_get tx ''type'' \<noteq> JStr ''deploy'' then Inl (NotADeployment (js_get tx ''type''))
          else (case as_str (prop_of (js_get tx ''deployment'') ''program'') of
              None \<Rightarrow> Inl NoProgramPayload
            | Some program \<Rightarrow> (case declaredProgramId program of
                None \<Rightarrow> Inl NoProgramDeclaration
              | Some declared \<Rightarrow> if declared \<noteq> programId then Inl (OtherProgram declared) else Inr (as_str (js_get tx ''id''))))
      | Some _ \<Rightarrow> Inl TransactionNotObject))"

definition readStats :: "(string, jsval) omap \<Rightarrow> leo_stats" where
  "readStats raw =
    (let num = (\<lambda>key. as_num (js_get raw key))
     in \<lparr> lt_programSizeBytes = num ''program_size_bytes'', lt_storageCost = num ''storage_cost'', lt_namespaceCost = num ''namespace_cost'',
          lt_synthesisCost = num ''synthesis_cost'', lt_constructorCost = num ''constructor_cost'', lt_priorityFee = num ''priority_fee'',
          lt_totalCost = num ''total_cost'' \<rparr>)"

definition parseJsonOutput :: "(string \<Rightarrow> jsval option) \<Rightarrow> string option \<Rightarrow> string \<Rightarrow> (string option \<times> leo_stats option) option" where
  "parseJsonOutput json raw programId =
    Option.bind (Option.bind raw json) (\<lambda>doc.
      case prop_of doc ''deployments'' of
        JArr deployments \<Rightarrow>
          map_option (\<lambda>entry.
              (as_str (prop_of entry ''transaction_id''),
               case prop_of entry ''stats'' of JObj m \<Rightarrow> Some (readStats m) | JArr xs \<Rightarrow> Some (readStats []) | _ \<Rightarrow> None))
            (find (\<lambda>d. prop_of d ''program_id'' = JStr programId) deployments)
      | _ \<Rightarrow> None)"

definition readLeoOutcome :: "(string \<Rightarrow> jsval option) \<Rightarrow> string \<Rightarrow> run_artifacts \<Rightarrow> backend_error + leo_outcome" where
  "readLeoOutcome json programId a =
    (case ra_signal a of
      Some sig \<Rightarrow> Inl (LeoFault StRun (Terminated sig))
    | None \<Rightarrow>
        if ra_exitCode a \<noteq> Some 0 then Inl (LeoFault StRun (ExitedWith (ra_exitCode a) (classifySuffix a)))
        else
          let expected = savedTransactionFileName programId; others = filter (\<lambda>name. name \<noteq> expected) (om_keys (ra_savedFiles a)) in
          (case om_get (ra_savedFiles a) expected of
            None \<Rightarrow> Inl (LeoFault StOutcome (NoTransaction others (classifySuffix a)))
          | Some saved \<Rightarrow>
              if others \<noteq> [] then Inl (LeoFault StOutcome (ManyTransactions others))
              else (case verifySavedTransaction json programId saved of
                  Inl f \<Rightarrow> Inl (LeoFault StOutcome f)
                | Inr verified \<Rightarrow>
                    let parsed = parseJsonOutput json (ra_jsonOutput a) programId
                    in Inr \<lparr> lo_transaction = saved, lo_transactionId = keep_or verified (Option.bind parsed fst),
                             lo_stats = Option.bind parsed snd \<rparr>)))"

section \<open>One Leo invocation\<close>

text \<open>
  The files one invocation sees: which packages exist, the text of their compiled programs and of
  the recorded artifacts, the directory made for \<^verbatim>\<open>--save\<close>, and the requests the process was
  spawned with so far. The process may change all of the files, and the chain, whose state is
  abstract, when it broadcasts.
\<close>

record run_request =
  rq_binary :: string
  rq_argv :: "string list"
  rq_env :: "(string, string) omap"
  rq_cwd :: string
  rq_timeoutMs :: nat
  rq_logMode :: string
  rq_secrets :: "string list"

record 'c leo_world =
  lw_packages :: "string list"
  lw_built :: "(string, string) omap"
  lw_recorded :: "(string, string) omap"
  lw_saved :: "(string, string) omap"
  lw_spawned :: "run_request list"
  lw_chain :: 'c

record run_result =
  rr_exitCode :: "int option"
  rr_signal :: "string option"
  rr_stdout :: string
  rr_stderr :: string
  rr_timedOut :: bool

text \<open>The process: the files it leaves, and its result or why it could not be spawned.\<close>

type_synonym 'c leo_runner = "run_request \<Rightarrow> 'c leo_world \<Rightarrow> (string + run_result) \<times> 'c leo_world"

type_synonym ('c, 'a) leo_act = "('c leo_world, backend_error, 'a) act"

definition leoPackageDir :: "string \<Rightarrow> string \<Rightarrow> string" where
  "leoPackageDir artifactsDir programId = artifactsDir @ ''/.build/'' @ programId"

definition hashBuiltAleo :: "(string \<Rightarrow> string) \<Rightarrow> string \<Rightarrow> 'c leo_world \<Rightarrow> string option" where
  "hashBuiltAleo sha programId w = map_option sha (om_get (lw_built w) programId)"

definition resolveLeoPackage :: "(string \<Rightarrow> string) \<Rightarrow> string \<Rightarrow> ('c, string) leo_act" where
  "resolveLeoPackage sha programId =
    bindA (getA (\<lambda>w. w)) (\<lambda>w.
      if programId \<notin> set (lw_packages w) then throwA (LeoFault StPackage NoPackage)
      else (case hashBuiltAleo sha programId w of
          None \<Rightarrow> throwA (LeoFault StPackage NotCompiled)
        | Some built \<Rightarrow> (case om_get (lw_recorded w) programId of
            None \<Rightarrow> returnA built
          | Some text \<Rightarrow> if sha text \<noteq> built then throwA (LeoFault StPackage OutOfStep) else returnA built)))"

definition assertPackageUnchanged :: "(string \<Rightarrow> string) \<Rightarrow> string \<Rightarrow> string \<Rightarrow> ('c, unit) leo_act" where
  "assertPackageUnchanged sha programId before =
    bindA (getA (hashBuiltAleo sha programId)) (\<lambda>after. if after = Some before then returnA () else throwA (LeoFault StPackage Rebuilt))"

definition assertSigningKeyPresent :: "string option \<Rightarrow> string \<Rightarrow> backend_error + string" where
  "assertSigningKeyPresent key networkName = (case key of None \<Rightarrow> Inl (NoSigningKey networkName) | Some k \<Rightarrow> Inr k)"

definition effectiveKey :: "backend_request \<Rightarrow> backend_ctx \<Rightarrow> string option" where
  "effectiveKey req ctx = keep_or (br_signerPrivateKey req) (bc_privateKey ctx)"

definition readSavedFiles :: "'c leo_world \<Rightarrow> (string, string) omap" where
  "readSavedFiles w = sort_key fst (filter (\<lambda>f. fst f \<noteq> ''result.json'') (lw_saved w))"

definition spawnA :: "'c leo_runner \<Rightarrow> run_request \<Rightarrow> ('c, run_result) leo_act" where
  "spawnA runner req = (\<lambda>w.
    (case runner req (w\<lparr>lw_spawned := lw_spawned w @ [req]\<rparr>) of
      (Inl e, w') \<Rightarrow> (Inl (SpawnFailed e), w')
    | (Inr r, w') \<Rightarrow> (Inr r, w')))"

text \<open>\<^verbatim>\<open>try \<dots> finally\<close>\<close>

definition finallyA :: "('s, 'e, 'a) act \<Rightarrow> ('s \<Rightarrow> 's) \<Rightarrow> ('s, 'e, 'a) act" where
  "finallyA body cleanup = (\<lambda>s. (case body s of (r, s') \<Rightarrow> (r, cleanup s')))"

definition leo_request :: "backend_request \<Rightarrow> backend_ctx \<Rightarrow> (string, string) omap \<Rightarrow> string \<Rightarrow> string list \<Rightarrow> run_request" where
  "leo_request req ctx env key argv =
    \<lparr> rq_binary = bc_leoBinary ctx, rq_argv = argv,
      rq_env = buildLeoEnv env (bc_networkId ctx) (bc_endpoint ctx) (bc_connectionType ctx) (Some key),
      rq_cwd = bc_projectRoot ctx, rq_timeoutMs = ls_timeout (bc_leo ctx), rq_logMode = ls_logMode (bc_leo ctx), rq_secrets = [key] \<rparr>"

definition leo_argv_options :: "leo_operation \<Rightarrow> backend_request \<Rightarrow> backend_ctx \<Rightarrow> string \<Rightarrow> argv_options" where
  "leo_argv_options op req ctx saveDir =
    \<lparr> ao_operation = op, ao_programId = br_programId req, ao_packageDir = leoPackageDir (bc_artifactsDir ctx) (br_programId req),
      ao_saveDir = saveDir, ao_jsonOutputPath = saveDir @ ''/result.json'', ao_networkId = bc_networkId ctx, ao_endpoint = bc_endpoint ctx,
      ao_connectionType = bc_connectionType ctx, ao_consensusHeights = bc_consensusHeights ctx, ao_priorityFee = br_priorityFee req,
      ao_privateFee = br_privateFee req, ao_localDependencyIds = br_localDependencyIds req, ao_prove = br_prove req,
      ao_logLevel = bc_logLevel ctx \<rparr>"

text \<open>The directory for \<^verbatim>\<open>--save\<close> is new, hence empty, and removed whatever happens.\<close>

definition leo_run :: "'c leo_runner \<Rightarrow> (string \<Rightarrow> string) \<Rightarrow> (string \<Rightarrow> jsval option) \<Rightarrow> (string, string) omap \<Rightarrow> string
    \<Rightarrow> leo_operation \<Rightarrow> backend_request \<Rightarrow> backend_ctx \<Rightarrow> ('c, backend_result) leo_act" where
  "leo_run runner sha json env saveDir op req ctx =
    bindA (liftA (assertSigningKeyPresent (effectiveKey req ctx) (bc_networkName ctx))) (\<lambda>key.
    bindA (resolveLeoPackage sha (br_programId req)) (\<lambda>before.
    bindA (modifyA (\<lambda>w. w\<lparr>lw_saved := []\<rparr>)) (\<lambda>_.
    finallyA
      (bindA (liftA (buildLeoArgv (leo_argv_options op req ctx saveDir))) (\<lambda>argv.
       bindA (spawnA runner (leo_request req ctx env key argv)) (\<lambda>result.
       if rr_timedOut result then throwA (LeoFault StTimeout (TimedOut (ls_timeout (bc_leo ctx))))
       else bindA (getA (\<lambda>w. \<lparr> ra_exitCode = rr_exitCode result, ra_signal = rr_signal result, ra_stdout = rr_stdout result,
              ra_stderr = rr_stderr result, ra_savedFiles = readSavedFiles w, ra_jsonOutput = om_get (lw_saved w) ''result.json'' \<rparr>)) (\<lambda>artifacts.
            bindA (liftA (readLeoOutcome json (br_programId req) artifacts)) (\<lambda>outcome.
            bindA (assertPackageUnchanged sha (br_programId req) before) (\<lambda>_.
            returnA (Built (lo_transaction outcome))))))))
      (\<lambda>w. w\<lparr>lw_saved := []\<rparr>))))"

definition leo_estimate :: "backend_request \<Rightarrow> backend_ctx \<Rightarrow> int option \<times> backend_warning option" where
  "leo_estimate req ctx = (None, Some FeeUnavailable)"

section \<open>The SDK backend\<close>

text \<open>
  The SDK's functions on a program source, fee and fee kind: each may fail, and the two standard
  builders and the estimate may be missing. \<^verbatim>\<open>createSdkObjects\<close> takes the effective key. Only
  \<^verbatim>\<open>deploy\<close> sends anything, so it alone acts on the chain.
\<close>

record 'c sdk_api =
  sa_initConsensus :: "string + unit"
  sa_checkDevnode :: "string + unit"
  sa_create :: "backend_ctx \<Rightarrow> string option \<Rightarrow> string + unit"
  sa_deploy :: "string \<Rightarrow> int \<Rightarrow> bool \<Rightarrow> 'c \<Rightarrow> (string + string) \<times> 'c"
  sa_devnodeDeploy :: "string \<Rightarrow> int \<Rightarrow> bool \<Rightarrow> string + string"
  sa_devnodeUpgrade :: "string \<Rightarrow> int \<Rightarrow> bool \<Rightarrow> string + string"
  sa_buildDeployment :: "(string \<Rightarrow> int \<Rightarrow> bool \<Rightarrow> string + string) option"
  sa_buildUpgrade :: "(string \<Rightarrow> int \<Rightarrow> bool \<Rightarrow> string + string) option"
  sa_estimate :: "(string \<Rightarrow> (string, string) omap option \<Rightarrow> string + int) option"

definition sdkR :: "string + 'a \<Rightarrow> backend_error + 'a" where
  "sdkR r = (case r of Inl e \<Rightarrow> Inl (SdkFailed e) | Inr x \<Rightarrow> Inr x)"

definition buildDeploymentTransactionForMode :: "'c sdk_api \<Rightarrow> backend_request \<Rightarrow> backend_error + string" where
  "buildDeploymentTransactionForMode sdk req =
    (if br_prove req then (case sa_buildDeployment sdk of
        None \<Rightarrow> Inl (SdkMissing (br_programId req))
      | Some build \<Rightarrow> sdkR (build (br_aleoSource req) (br_priorityFee req) (br_privateFee req)))
     else sdkR (sa_devnodeDeploy sdk (br_aleoSource req) (br_priorityFee req) (br_privateFee req)))"

definition sdk_prepare_devnode :: "'c sdk_api \<Rightarrow> backend_request \<Rightarrow> backend_error + unit" where
  "sdk_prepare_devnode sdk req =
    bindR (sdkR (sa_initConsensus sdk)) (\<lambda>_. if br_prove req then Inr () else sdkR (sa_checkDevnode sdk))"

definition sdk_deployA :: "'c sdk_api \<Rightarrow> backend_request \<Rightarrow> ('c, string) leo_act" where
  "sdk_deployA sdk req = (\<lambda>w. (case sa_deploy sdk (br_aleoSource req) (br_priorityFee req) (br_privateFee req) (lw_chain w) of
    (r, c) \<Rightarrow> (sdkR r, w\<lparr>lw_chain := c\<rparr>)))"

definition sdk_buildDeploy :: "'c sdk_api \<Rightarrow> backend_request \<Rightarrow> backend_ctx \<Rightarrow> ('c, backend_result) leo_act" where
  "sdk_buildDeploy sdk req ctx =
    (if bc_connectionType ctx = NetDevnode then
       bindA (liftA (sdk_prepare_devnode sdk req)) (\<lambda>_. bindA (liftA (sdkR (sa_create sdk ctx (effectiveKey req ctx)))) (\<lambda>_.
       bindA (liftA (buildDeploymentTransactionForMode sdk req)) (\<lambda>tx. returnA (Built tx))))
     else bindA (liftA (sdkR (sa_create sdk ctx (effectiveKey req ctx)))) (\<lambda>_.
       bindA (sdk_deployA sdk req) (\<lambda>txId. returnA (Broadcast txId))))"

definition sdk_buildUpgrade :: "'c sdk_api \<Rightarrow> backend_request \<Rightarrow> backend_ctx \<Rightarrow> backend_error + backend_result" where
  "sdk_buildUpgrade sdk req ctx =
    bindR (if bc_connectionType ctx = NetDevnode then sdk_prepare_devnode sdk req else Inr ()) (\<lambda>_.
    bindR (sdkR (sa_create sdk ctx (effectiveKey req ctx))) (\<lambda>_.
    if bc_connectionType ctx = NetDevnode \<and> \<not> br_prove req
    then bindR (sdkR (sa_devnodeUpgrade sdk (br_aleoSource req) (br_priorityFee req) (br_privateFee req))) (\<lambda>tx. Inr (Built tx))
    else (case sa_buildUpgrade sdk of
        None \<Rightarrow> Inl (SdkMissing (br_programId req))
      | Some build \<Rightarrow> bindR (sdkR (build (br_aleoSource req) (br_priorityFee req) (br_privateFee req))) (\<lambda>tx. Inr (Built tx)))))"

text \<open>Estimating never throws: whatever fails is a warning.\<close>

definition sdk_estimate :: "'c sdk_api \<Rightarrow> (string, string) omap \<Rightarrow> backend_request \<Rightarrow> backend_ctx \<Rightarrow> int option \<times> backend_warning option" where
  "sdk_estimate sdk importSources req ctx =
    (case sa_create sdk ctx (effectiveKey req ctx) of
      Inl e \<Rightarrow> (None, Some (FeeFailed e))
    | Inr _ \<Rightarrow> (case sa_estimate sdk of
        None \<Rightarrow> (None, Some FeeUnavailable)
      | Some est \<Rightarrow> (case est (br_aleoSource req) (if importSources = [] then None else Some importSources) of
          Inl e \<Rightarrow> (None, Some (FeeFailed e))
        | Inr n \<Rightarrow> (Some n, None))))"

section \<open>The signer's address\<close>

definition resolveDeployerAddress :: "(string \<Rightarrow> string option) \<Rightarrow> live_connection \<Rightarrow> network_type \<Rightarrow> string list \<Rightarrow> string option \<Rightarrow> string option" where
  "resolveDeployerAddress derive connection netType accounts signerPrivateKey =
    (let privateKey = keep_or signerPrivateKey (keep_or (lv_privateKey connection)
        (if netType = NetDevnode \<and> accounts \<noteq> [] then Some (hd accounts) else None))
     in case privateKey of None \<Rightarrow> None | Some k \<Rightarrow> if k = [] then None else derive k)"

section \<open>What Leo hands over\<close>

text \<open>The text is a deployment transaction whose program declares itself as \<open>programId\<close>.\<close>

definition deploys :: "(string \<Rightarrow> jsval option) \<Rightarrow> string \<Rightarrow> string \<Rightarrow> bool" where
  "deploys json tx programId \<longleftrightarrow> (\<exists>m program. json tx = Some (JObj m) \<and> js_get m ''type'' = JStr ''deploy''
    \<and> prop_of (js_get m ''deployment'') ''program'' = JStr program \<and> declaredProgramId program = Some programId)"

lemma as_str_Some: "as_str v = Some s \<longleftrightarrow> v = JStr s"
  by (cases v) auto

lemma verify_sound: "verifySavedTransaction json p saved = Inr x \<Longrightarrow> deploys json saved p"
  by (auto simp: verifySavedTransaction_def deploys_def as_str_Some split: if_splits option.splits jsval.splits)

lemma outcome_sound:
  assumes "readLeoOutcome json p a = Inr out"
  shows "ra_signal a = None" "ra_exitCode a = Some 0" "deploys json (lo_transaction out) p"
    "om_get (ra_savedFiles a) (savedTransactionFileName p) = Some (lo_transaction out)"
    "\<And>name. name \<in> set (om_keys (ra_savedFiles a)) \<Longrightarrow> name = savedTransactionFileName p"
  using assms verify_sound
  by (auto simp: readLeoOutcome_def Let_def filter_empty_conv split: option.splits if_splits sum.splits)

lemma finallyA_Inr: "finallyA m f s = (Inr x, s') \<longleftrightarrow> (\<exists>s1. m s = (Inr x, s1) \<and> s' = f s1)"
  by (auto simp: finallyA_def split: prod.splits)

lemma readSaved_entry: "om_get (readSavedFiles w) n = Some tx \<Longrightarrow> (n, tx) \<in> set (lw_saved w)"
  by (auto dest!: map_of_SomeD simp: readSavedFiles_def)

lemma readSaved_names: "f \<in> set (lw_saved w) \<Longrightarrow> fst f \<noteq> ''result.json'' \<Longrightarrow> fst f \<in> set (om_keys (readSavedFiles w))"
  by (auto simp: readSavedFiles_def)

lemma resolve_package:
  "resolveLeoPackage sha p w = (Inr b, w') \<Longrightarrow> w' = w \<and> hashBuiltAleo sha p w = Some b
    \<and> (\<forall>text. om_get (lw_recorded w) p = Some text \<longrightarrow> sha text = b)"
  by (auto simp: resolveLeoPackage_def bindA_Inr getA_def throwA_def returnA_def split: if_splits option.splits)

lemma unchanged_Inr: "assertPackageUnchanged sha p b w = (Inr x, w') \<longleftrightarrow> w' = w \<and> hashBuiltAleo sha p w = Some b"
  by (auto simp: assertPackageUnchanged_def bindA_Inr getA_def throwA_def returnA_def split: if_splits)

lemma spawn_Inr:
  "spawnA runner rq w = (Inr r, w') \<longleftrightarrow> runner rq (w\<lparr>lw_spawned := lw_spawned w @ [rq]\<rparr>) = (Inr r, w')"
  by (auto simp: spawnA_def split: prod.splits sum.splits)

text \<open>What must hold when the Leo backend hands a transaction over: \<open>w\<close> is the world before, \<open>w1\<close> the one the process left.\<close>

definition leo_handover :: "'c leo_runner \<Rightarrow> (string \<Rightarrow> string) \<Rightarrow> (string \<Rightarrow> jsval option) \<Rightarrow> backend_request \<Rightarrow> backend_ctx
    \<Rightarrow> 'c leo_world \<Rightarrow> run_request \<Rightarrow> run_result \<Rightarrow> 'c leo_world \<Rightarrow> string \<Rightarrow> bool" where
  "leo_handover runner sha json req ctx w rq result w1 tx \<longleftrightarrow>
    runner rq (w\<lparr>lw_saved := [], lw_spawned := lw_spawned w @ [rq]\<rparr>) = (Inr result, w1)
    \<and> om_get (rq_env rq) ''PRIVATE_KEY'' = effectiveKey req ctx \<and> effectiveKey req ctx \<noteq> None
    \<and> om_get (rq_env rq) ''DEVNET'' = Some (if bc_connectionType ctx = NetDevnode then ''true'' else ''false'')
    \<and> rr_exitCode result = Some 0 \<and> rr_signal result = None \<and> \<not> rr_timedOut result
    \<and> (savedTransactionFileName (br_programId req), tx) \<in> set (lw_saved w1)
    \<and> fst ` set (lw_saved w1) \<subseteq> {savedTransactionFileName (br_programId req), ''result.json''}
    \<and> deploys json tx (br_programId req)
    \<and> hashBuiltAleo sha (br_programId req) w1 = hashBuiltAleo sha (br_programId req) w \<and> hashBuiltAleo sha (br_programId req) w \<noteq> None
    \<and> (\<forall>text. om_get (lw_recorded w) (br_programId req) = Some text \<longrightarrow> hashBuiltAleo sha (br_programId req) w1 = Some (sha text))"

lemma env_pinned:
  "om_get (buildLeoEnv parent nid ep t (Some key)) ''PRIVATE_KEY'' = Some key"
  "om_get (buildLeoEnv parent nid ep t k) ''DEVNET'' = Some (if t = NetDevnode then ''true'' else ''false'')"
  "om_get (buildLeoEnv parent nid ep t k) ''NETWORK'' = Some nid" "om_get (buildLeoEnv parent nid ep t k) ''ENDPOINT'' = Some ep"
  "om_get (buildLeoEnv parent nid ep t None) ''PRIVATE_KEY'' = None"
  by (simp_all add: buildLeoEnv_def Let_def om_get_set om_get_delete split: option.splits)

text \<open>
  C11: A transaction that the Leo backend hands over for broadcasting is the text of the one file
  Leo saved for the requested program, and it parses as a deployment whose program declares that
  very id. Leo ran once, ended by itself with code 0, under the key LionDen selected and with
  \<^verbatim>\<open>DEVNET\<close> pinned to the connection's type; and the compiled program it was built from is the one
  recorded before the run. Afterwards the directory holding the signed transaction is gone.
\<close>

theorem leo_transaction_is_target:
  assumes "leo_run runner sha json env saveDir op req ctx w = (Inr res, w')"
  shows "lw_saved w' = [] \<and> (\<exists>argv key tx result w1. res = Built tx
    \<and> buildLeoArgv (leo_argv_options op req ctx saveDir) = Inr argv
    \<and> leo_handover runner sha json req ctx w (leo_request req ctx env key argv) result w1 tx)"
proof -
  let ?w = "w\<lparr>lw_saved := []\<rparr>" and ?p = "br_programId req"
  obtain key b where key: "effectiveKey req ctx = Some key" and b: "hashBuiltAleo sha ?p w = Some b"
    and rec: "\<forall>text. om_get (lw_recorded w) ?p = Some text \<longrightarrow> sha text = b"
    and body: "finallyA (bindA (liftA (buildLeoArgv (leo_argv_options op req ctx saveDir))) (\<lambda>argv.
       bindA (spawnA runner (leo_request req ctx env key argv)) (\<lambda>result.
       if rr_timedOut result then throwA (LeoFault StTimeout (TimedOut (ls_timeout (bc_leo ctx))))
       else bindA (getA (\<lambda>w. \<lparr> ra_exitCode = rr_exitCode result, ra_signal = rr_signal result, ra_stdout = rr_stdout result,
              ra_stderr = rr_stderr result, ra_savedFiles = readSavedFiles w, ra_jsonOutput = om_get (lw_saved w) ''result.json'' \<rparr>)) (\<lambda>artifacts.
            bindA (liftA (readLeoOutcome json ?p artifacts)) (\<lambda>outcome.
            bindA (assertPackageUnchanged sha ?p b) (\<lambda>_.
            returnA (Built (lo_transaction outcome))))))))
      (\<lambda>w. w\<lparr>lw_saved := []\<rparr>) ?w = (Inr res, w')"
    using assms unfolding leo_run_def assertSigningKeyPresent_def
    by (auto simp: bindA_Inr liftA_def modifyA_def dest!: resolve_package split: option.splits)
  obtain argv result w1 out where argv: "buildLeoArgv (leo_argv_options op req ctx saveDir) = Inr argv"
    and run: "runner (leo_request req ctx env key argv) (?w\<lparr>lw_spawned := lw_spawned ?w @ [leo_request req ctx env key argv]\<rparr>) = (Inr result, w1)"
    and time: "\<not> rr_timedOut result"
    and out: "readLeoOutcome json ?p \<lparr> ra_exitCode = rr_exitCode result, ra_signal = rr_signal result, ra_stdout = rr_stdout result,
              ra_stderr = rr_stderr result, ra_savedFiles = readSavedFiles w1, ra_jsonOutput = om_get (lw_saved w1) ''result.json'' \<rparr> = Inr out"
    and same: "hashBuiltAleo sha ?p w1 = Some b" and res: "res = Built (lo_transaction out)" and w': "w' = w1\<lparr>lw_saved := []\<rparr>"
    using body by (auto simp: finallyA_Inr bindA_Inr liftA_def getA_def throwA_def returnA_def spawn_Inr unchanged_Inr split: if_splits)
  have entry: "(savedTransactionFileName ?p, lo_transaction out) \<in> set (lw_saved w1)"
    using outcome_sound(4) [OF out] by (auto intro: readSaved_entry)
  have names: "fst f \<in> {savedTransactionFileName ?p, ''result.json''}" if "f \<in> set (lw_saved w1)" for f
    using readSaved_names [OF that] outcome_sound(5) [OF out, of "fst f"] by auto
  have "leo_handover runner sha json req ctx w (leo_request req ctx env key argv) result w1 (lo_transaction out)"
    unfolding leo_handover_def
    using run time key b rec same entry names outcome_sound(1-3) [OF out]
    by (intro conjI; force simp: leo_request_def env_pinned)
  then show ?thesis using argv res w' by auto
qed

definition ex_leo_runner :: "string list leo_runner" where
  "ex_leo_runner rq w =
    (Inr \<lparr> rr_exitCode = Some 0, rr_signal = None, rr_stdout = [], rr_stderr = [], rr_timedOut = False \<rparr>,
     w\<lparr>lw_saved := [(''a.aleo.deployment.json'', ''tx''), (''result.json'', ''{}'')]\<rparr>)"

definition ex_json :: "string \<Rightarrow> jsval option" where
  "ex_json s = (if s = ''tx'' then Some (JObj [(''type'', JStr ''deploy''), (''id'', JStr ''at1x''),
      (''deployment'', JObj [(''program'', JStr (''import b.aleo;'' @ [CHR 10] @ ''program a.aleo;''))])])
    else if s = ''{}'' then Some (JObj []) else None)"

definition ex_leo_world :: "string list leo_world" where
  "ex_leo_world = \<lparr> lw_packages = [''a.aleo''], lw_built = [(''a.aleo'', ''code'')], lw_recorded = [(''a.aleo'', ''code'')],
    lw_saved = [], lw_spawned = [], lw_chain = [] \<rparr>"

definition ex_request :: backend_request where
  "ex_request = \<lparr> br_programId = ''a.aleo'', br_sourceProgramId = None, br_aleoSource = ''code'', br_localDependencyIds = [''b.aleo''],
    br_priorityFee = 0, br_privateFee = False, br_signerPrivateKey = Some ''APrivateKey1x'', br_prove = False \<rparr>"

definition ex_ctx :: backend_ctx where
  "ex_ctx = \<lparr> bc_networkName = ''t'', bc_connectionType = NetHttp, bc_networkId = ''testnet'', bc_endpoint = ''http://n'', bc_apiKey = None,
    bc_consensusHeights = None, bc_leoBinary = ''leo'', bc_leoVersion = ''4.3.2'', bc_leo = \<lparr> ls_timeout = 0, ls_logMode = ''forward'' \<rparr>,
    bc_sdkEgress = None, bc_keyCache = None, bc_logLevel = None, bc_artifactsDir = ''/art'', bc_projectRoot = ''/p'', bc_privateKey = None \<rparr>"

definition ex_leo_run :: "(backend_error + backend_result) \<times> string list leo_world" where
  "ex_leo_run = leo_run ex_leo_runner (\<lambda>s. s) ex_json [(''DEVNET'', ''true'')] ''/tmp/x'' LeoDeploy ex_request ex_ctx ex_leo_world"

theorem leo_transaction_is_target_witness:
  "fst ex_leo_run = Inr (Built ''tx'') \<and> lw_saved (snd ex_leo_run) = [] \<and> deploys ex_json ''tx'' ''a.aleo''"
proof -
  have r: "fst ex_leo_run = Inr (Built ''tx'')" by code_simp
  then have "leo_run ex_leo_runner (\<lambda>s. s) ex_json [(''DEVNET'', ''true'')] ''/tmp/x'' LeoDeploy ex_request ex_ctx ex_leo_world
      = (Inr (Built ''tx''), snd ex_leo_run)"
    by (simp add: ex_leo_run_def prod_eq_iff)
  from leo_transaction_is_target [OF this] show ?thesis using r by (auto simp: leo_handover_def ex_request_def)
qed

section \<open>What Leo is asked to do\<close>

text \<open>The values given to a flag: the arguments right after each of its occurrences.\<close>

fun flag_values :: "string \<Rightarrow> string list \<Rightarrow> string list" where
  "flag_values f [] = []"
| "flag_values f (x # xs) = (if x = f then take 1 xs else []) @ flag_values f xs"

text \<open>Leo leaves out every program whose id contains one of the values of \<^verbatim>\<open>--skip\<close>.\<close>

definition skipped_by :: "string list \<Rightarrow> string \<Rightarrow> bool" where
  "skipped_by argv programId \<longleftrightarrow> list_ex (\<lambda>v. str_includes programId v) (flag_values ''--skip'' argv)"

definition plain_value :: "string \<Rightarrow> bool" where
  "plain_value s \<longleftrightarrow> \<not> starts_with s ''-''"

definition plain_options :: "argv_options \<Rightarrow> bool" where
  "plain_options opts \<longleftrightarrow> plain_value (ao_packageDir opts) \<and> plain_value (ao_saveDir opts) \<and> plain_value (ao_networkId opts)
    \<and> plain_value (ao_endpoint opts) \<and> (case ao_consensusHeights opts of None \<Rightarrow> True | Some h \<Rightarrow> plain_value h)
    \<and> list_all plain_value (ao_localDependencyIds opts)"

lemma flag_values_none: "f \<notin> set xs \<Longrightarrow> flag_values f (xs @ ys) = flag_values f ys"
  by (induction xs) auto

lemma flag_values_given: "f \<notin> set ds \<Longrightarrow> flag_values f (concat (map (\<lambda>d. [f, d]) ds) @ ys) = ds @ flag_values f ys"
  by (induction ds) auto

lemma digit_not_dash: "(n :: nat) < 10 \<Longrightarrow> char_of (48 + n) \<noteq> CHR ''-''"
proof
  assume n: "n < 10" and "char_of (48 + n) = CHR ''-''"
  then have "(of_char (char_of (48 + n)) :: nat) = of_char (CHR ''-'')" by simp
  then show False using n by (simp add: of_char_of)
qed

lemma nat_str_plain: "plain_value (nat_str n)"
proof (induction n rule: nat_str.induct)
  case (1 n)
  show ?case
  proof (cases "n < 10")
    case True
    then show ?thesis using digit_not_dash by (simp add: nat_str.simps [of n] plain_value_def)
  next
    case False
    then have "plain_value (nat_str (n div 10))" using 1 by simp
    moreover have "nat_str (n div 10) \<noteq> []" by (simp add: nat_str.simps [of "n div 10"])
    ultimately show ?thesis using False
      by (cases "nat_str (n div 10)") (auto simp: nat_str.simps [of n] plain_value_def)
  qed
qed

lemma dash_not_plain [simp]: "\<not> plain_value (CHR ''-'' # t)"
  by (simp add: plain_value_def)

lemma plain_not_flag: "CHR ''-'' # t = x \<Longrightarrow> \<not> plain_value x"
  by (auto simp: plain_value_def)

lemma fee_plain: "0 < n \<Longrightarrow> plain_value (int_str n)"
  using nat_str_plain by (simp add: int_str_def)

lemma verbosity_values: "set (leoVerbosityFlag l) \<subseteq> {''-q'', ''-d''}"
  by (auto simp: leoVerbosityFlag_def)

lemma leo_skip_values:
  assumes "buildLeoArgv opts = Inr argv" and "plain_options opts"
  shows "flag_values ''--skip'' argv = ao_localDependencyIds opts"
proof -
  let ?deps = "ao_localDependencyIds opts"
  have deps: "''--skip'' \<notin> set ?deps" using assms(2) plain_not_flag by (auto simp: plain_options_def list_all_iff)
  obtain pre post where argv: "argv = pre @ concat (map (\<lambda>dep. [''--skip'', dep]) ?deps) @ post"
    and pre: "''--skip'' \<notin> set pre" and post: "''--skip'' \<notin> set post"
  proof
    let ?dev = "ao_connectionType opts = NetDevnode"
    show "argv = ([''--disable-update-check'', op_name (ao_operation opts), ''--path'', ao_packageDir opts, ''--save'', ao_saveDir opts,
            ''--json-output='' @ ao_jsonOutputPath opts, ''--yes'', ''--network'', ao_networkId opts, ''--endpoint'', ao_endpoint opts]
        @ (if ?dev then [''--devnet''] else [])
        @ (case ao_consensusHeights opts of None \<Rightarrow> [] | Some h \<Rightarrow> if ?dev then [''--consensus-heights'', h] else [])
        @ (if 0 < ao_priorityFee opts then [''--priority-fees'', int_str (ao_priorityFee opts)] else [])
        @ (if ao_privateFee opts then [''-f'', ''default''] else []))
        @ concat (map (\<lambda>dep. [''--skip'', dep]) ?deps)
        @ ((if ?dev \<and> \<not> ao_prove opts then [''--skip-deploy-certificate''] else []) @ leoVerbosityFlag (ao_logLevel opts))"
      using assms(1) by (simp add: buildLeoArgv_def Let_def)
    have ops: "op_name o' \<noteq> ''--skip''" for o' by (cases o') simp_all
    show "''--skip'' \<notin> set ([''--disable-update-check'', op_name (ao_operation opts), ''--path'', ao_packageDir opts, ''--save'', ao_saveDir opts,
            ''--json-output='' @ ao_jsonOutputPath opts, ''--yes'', ''--network'', ao_networkId opts, ''--endpoint'', ao_endpoint opts]
        @ (if ?dev then [''--devnet''] else [])
        @ (case ao_consensusHeights opts of None \<Rightarrow> [] | Some h \<Rightarrow> if ?dev then [''--consensus-heights'', h] else [])
        @ (if 0 < ao_priorityFee opts then [''--priority-fees'', int_str (ao_priorityFee opts)] else [])
        @ (if ao_privateFee opts then [''-f'', ''default''] else []))"
      using assms(2) fee_plain ops [of "ao_operation opts"]
      by (auto simp: plain_options_def dest: plain_not_flag split: option.splits)
    show "''--skip'' \<notin> set ((if ?dev \<and> \<not> ao_prove opts then [''--skip-deploy-certificate''] else []) @ leoVerbosityFlag (ao_logLevel opts))"
      using verbosity_values [of "ao_logLevel opts"] by auto
  qed
  have "flag_values ''--skip'' (post @ []) = []" using flag_values_none [OF post, of "[]"] by simp
  then show ?thesis using flag_values_none [OF pre] flag_values_given [OF deps] argv by simp
qed

definition leo_flags :: "string list" where
  "leo_flags = [''--disable-update-check'', ''--path'', ''--save'', ''--yes'', ''--network'', ''--endpoint'', ''--devnet'', ''--consensus-heights'',
    ''--priority-fees'', ''-f'', ''--skip'', ''--skip-deploy-certificate'', ''-q'', ''-d'']"

lemma leo_flag_simps [simp]:
  "''--disable-update-check'' \<in> set leo_flags"
  "''--path'' \<in> set leo_flags"
  "''--save'' \<in> set leo_flags"
  "''--yes'' \<in> set leo_flags"
  "''--network'' \<in> set leo_flags"
  "''--endpoint'' \<in> set leo_flags"
  "''--devnet'' \<in> set leo_flags"
  "''--consensus-heights'' \<in> set leo_flags"
  "''--priority-fees'' \<in> set leo_flags"
  "''-f'' \<in> set leo_flags"
  "''--skip'' \<in> set leo_flags"
  "''--skip-deploy-certificate'' \<in> set leo_flags"
  "''-q'' \<in> set leo_flags"
  "''-d'' \<in> set leo_flags"
  by (simp_all add: leo_flags_def)

lemma leo_argv_words:
  assumes "buildLeoArgv opts = Inr argv" and "plain_options opts" and "x \<in> set argv"
  shows "plain_value x \<or> x \<in> set leo_flags \<or> starts_with x ''--json-output=''"
proof -
  have op: "plain_value (op_name o')" for o' by (cases o') (simp_all add: plain_value_def)
  have words: "plain_value ''default''" by (simp add: plain_value_def)
  have json: "starts_with (''--json-output='' @ t) ''--json-output=''" for t by simp
  let ?ok = "\<lambda>x. plain_value x \<or> x \<in> set leo_flags \<or> starts_with x ''--json-output=''"
  have verb: "list_all ?ok (leoVerbosityFlag l)" for l by (simp add: leoVerbosityFlag_def)
  have deps: "list_all ?ok (concat (map (\<lambda>dep. [''--skip'', dep]) (ao_localDependencyIds opts)))"
    using assms(2) by (auto simp: list_all_iff plain_options_def)
  have "list_all ?ok argv"
    using assms(1,2) unfolding buildLeoArgv_def plain_options_def Let_def
    by (auto simp del: list_all_append simp: verb deps list_all_append op words fee_plain split: option.splits)
  then show ?thesis using assms(3) by (simp add: list_all_iff)
qed

lemma argv_head:
  assumes "buildLeoArgv opts = Inr argv" and "plain_options opts"
  shows "\<exists>rest. argv = [''--disable-update-check'', op_name (ao_operation opts), ''--path'', ao_packageDir opts, ''--save'', ao_saveDir opts,
      ''--json-output='' @ ao_jsonOutputPath opts, ''--yes'', ''--network'', ao_networkId opts, ''--endpoint'', ao_endpoint opts] @ rest
    \<and> ''--path'' \<notin> set rest \<and> ''--network'' \<notin> set rest \<and> ''--endpoint'' \<notin> set rest"
proof -
  let ?dev = "ao_connectionType opts = NetDevnode" and ?deps = "ao_localDependencyIds opts"
  let ?rest = "(if ?dev then [''--devnet''] else [])
        @ (case ao_consensusHeights opts of None \<Rightarrow> [] | Some h \<Rightarrow> if ?dev then [''--consensus-heights'', h] else [])
        @ (if 0 < ao_priorityFee opts then [''--priority-fees'', int_str (ao_priorityFee opts)] else [])
        @ (if ao_privateFee opts then [''-f'', ''default''] else [])
        @ concat (map (\<lambda>dep. [''--skip'', dep]) ?deps)
        @ (if ?dev \<and> \<not> ao_prove opts then [''--skip-deploy-certificate''] else []) @ leoVerbosityFlag (ao_logLevel opts)"
  have deps: "list_all plain_value ?deps" and heights: "\<And>h. ao_consensusHeights opts = Some h \<Longrightarrow> plain_value h"
    using assms(2) by (auto simp: plain_options_def)
  have rest: "x \<notin> set ?rest" if "x \<in> {''--path'', ''--network'', ''--endpoint''}" for x
  proof -
    have x: "\<not> plain_value x" using that by auto
    then have "x \<notin> set ?deps" using deps by (auto simp: list_all_iff)
    moreover have "x \<noteq> h" if "ao_consensusHeights opts = Some h" for h using heights [OF that] x by auto
    moreover have "x \<noteq> int_str (ao_priorityFee opts)" if "0 < ao_priorityFee opts" using fee_plain [OF that] x by auto
    moreover have "x \<notin> set (leoVerbosityFlag (ao_logLevel opts))" using that verbosity_values [of "ao_logLevel opts"] by auto
    ultimately show ?thesis using that by (auto split: option.splits if_splits)
  qed
  show ?thesis
    by (intro exI [of _ ?rest] conjI; (rule rest; simp)?) (use assms(1) in \<open>simp add: buildLeoArgv_def Let_def\<close>)
qed

lemma argv_values:
  assumes "buildLeoArgv opts = Inr argv" and "plain_options opts"
  shows "flag_values ''--path'' argv = [ao_packageDir opts]" "flag_values ''--network'' argv = [ao_networkId opts]"
    "flag_values ''--endpoint'' argv = [ao_endpoint opts]" "argv ! 1 = op_name (ao_operation opts)"
proof -
  obtain rest where argv: "argv = [''--disable-update-check'', op_name (ao_operation opts), ''--path'', ao_packageDir opts, ''--save'', ao_saveDir opts,
      ''--json-output='' @ ao_jsonOutputPath opts, ''--yes'', ''--network'', ao_networkId opts, ''--endpoint'', ao_endpoint opts] @ rest"
    and rest: "''--path'' \<notin> set rest" "''--network'' \<notin> set rest" "''--endpoint'' \<notin> set rest" using argv_head [OF assms] by blast
  have none: "flag_values f rest = []" if "f \<notin> set rest" for f using flag_values_none [OF that, of "[]"] by simp
  have op: "op_name o' \<noteq> CHR ''-'' # t" for o' t by (cases o') simp_all
  have plain: "ao_packageDir opts \<noteq> CHR ''-'' # t" "ao_saveDir opts \<noteq> CHR ''-'' # t" "ao_networkId opts \<noteq> CHR ''-'' # t"
    "ao_endpoint opts \<noteq> CHR ''-'' # t" for t
    using assms(2) by (auto simp: plain_options_def)
  show "flag_values ''--path'' argv = [ao_packageDir opts]" "flag_values ''--network'' argv = [ao_networkId opts]"
    "flag_values ''--endpoint'' argv = [ao_endpoint opts]" "argv ! 1 = op_name (ao_operation opts)"
    by (simp_all add: argv none rest op plain op [symmetric] plain [symmetric])
qed

lemma argv_never:
  assumes "buildLeoArgv opts = Inr argv" and "plain_options opts"
  shows "set argv \<inter> {''--broadcast'', ''--no-cache'', ''--private-key'', ''--rename'', ''--offline'', ''--no-local'', ''--build-tests''} = {}"
proof -
  have "\<not> (plain_value x \<or> x \<in> set leo_flags \<or> starts_with x ''--json-output='')"
    if "x \<in> {''--broadcast'', ''--no-cache'', ''--private-key'', ''--rename'', ''--offline'', ''--no-local'', ''--build-tests''}" for x
    using that by (auto simp: leo_flags_def)
  then show ?thesis using leo_argv_words [OF assms] by blast
qed

text \<open>
  C30: The command line that LionDen gives to Leo for a request runs the requested operation on one
  program: \<^verbatim>\<open>--path\<close> is given once, with the directory of the target's package, \<^verbatim>\<open>--network\<close> and
  \<^verbatim>\<open>--endpoint\<close> once each, with the connection's; the values of \<^verbatim>\<open>--skip\<close> are the request's local
  dependencies, all of them and nothing else, and none of them makes Leo leave the target out,
  although Leo matches by substring; and nothing on it makes Leo broadcast, drop its key cache or
  take a key from the process list.
\<close>

theorem leo_argv_narrows:
  assumes "buildLeoArgv (leo_argv_options op req ctx saveDir) = Inr argv" and "plain_options (leo_argv_options op req ctx saveDir)"
  shows "argv ! 1 = op_name op \<and> flag_values ''--path'' argv = [bc_artifactsDir ctx @ ''/.build/'' @ br_programId req]
    \<and> flag_values ''--network'' argv = [bc_networkId ctx] \<and> flag_values ''--endpoint'' argv = [bc_endpoint ctx]
    \<and> flag_values ''--skip'' argv = br_localDependencyIds req \<and> \<not> skipped_by argv (br_programId req)
    \<and> set argv \<inter> {''--broadcast'', ''--no-cache'', ''--private-key'', ''--rename'', ''--offline'', ''--no-local'', ''--build-tests''} = {}"
proof -
  let ?o = "leo_argv_options op req ctx saveDir"
  have o: "ao_operation ?o = op" "ao_programId ?o = br_programId req" "ao_localDependencyIds ?o = br_localDependencyIds req"
    "ao_packageDir ?o = bc_artifactsDir ctx @ ''/.build/'' @ br_programId req" "ao_networkId ?o = bc_networkId ctx" "ao_endpoint ?o = bc_endpoint ctx"
    by (simp_all add: leo_argv_options_def leoPackageDir_def)
  have "\<not> str_includes (br_programId req) d" if "d \<in> set (br_localDependencyIds req)" for d
    using assms(1) that by (auto simp: buildLeoArgv_def assertNoSkipCollision_def Let_def filter_empty_conv o split: if_splits)
  then show ?thesis
    using argv_values [OF assms] leo_skip_values [OF assms] argv_never [OF assms] by (auto simp: skipped_by_def list_ex_iff o)
qed

theorem leo_argv_narrows_witness:
  "flag_values ''--path'' (projr (buildLeoArgv (leo_argv_options LeoDeploy ex_request ex_ctx ''/tmp/x''))) = [''/art/.build/a.aleo'']
   \<and> flag_values ''--skip'' (projr (buildLeoArgv (leo_argv_options LeoDeploy ex_request ex_ctx ''/tmp/x''))) = [''b.aleo'']
   \<and> \<not> skipped_by (projr (buildLeoArgv (leo_argv_options LeoDeploy ex_request ex_ctx ''/tmp/x''))) ''a.aleo''"
proof -
  let ?o = "leo_argv_options LeoDeploy ex_request ex_ctx ''/tmp/x''"
  have "\<not> isl (buildLeoArgv ?o)" by code_simp
  then have argv: "buildLeoArgv ?o = Inr (projr (buildLeoArgv ?o))" by simp
  have plain: "plain_options ?o" by code_simp
  have "br_localDependencyIds ex_request = [''b.aleo'']" "br_programId ex_request = ''a.aleo''" "bc_artifactsDir ex_ctx = ''/art''"
    by (simp_all add: ex_request_def ex_ctx_def)
  then show ?thesis using leo_argv_narrows [OF argv plain] by simp
qed

section \<open>Backends that only build\<close>

text \<open>
  What the tasks rely on when they ask a backend for a transaction: one that is ready for it hands
  a transaction back and leaves the chain as it is, whether the build succeeds or not.
\<close>

locale deploy_backend =
  fixes ready :: "leo_operation \<Rightarrow> backend_request \<Rightarrow> 'ctx \<Rightarrow> bool" and chain :: "'s \<Rightarrow> 'c"
    and build :: "leo_operation \<Rightarrow> backend_request \<Rightarrow> 'ctx \<Rightarrow> ('s, backend_error, backend_result) act"
  assumes ready_builds: "ready op req ctx \<Longrightarrow> build op req ctx s \<noteq> (Inr (Broadcast t), s')"
    and ready_silent: "ready op req ctx \<Longrightarrow> chain (snd (build op req ctx s)) = chain s"
begin

lemma hands_back:
  assumes "ready op req ctx" and "build op req ctx s = (r, s')"
  shows "chain s' = chain s \<and> (\<forall>x. r = Inr x \<longrightarrow> (\<exists>tx. x = Built tx))"
proof -
  have "\<exists>tx. x = Built tx" if "r = Inr x" for x using ready_builds [OF assms(1)] assms(2) that by (cases x) auto
  then show ?thesis using ready_silent [OF assms(1), of s] assms(2) by auto
qed

end

fun sdk_build :: "'c sdk_api \<Rightarrow> leo_operation \<Rightarrow> backend_request \<Rightarrow> backend_ctx \<Rightarrow> ('c, backend_result) leo_act" where
  "sdk_build sdk LeoDeploy req ctx = sdk_buildDeploy sdk req ctx"
| "sdk_build sdk LeoUpgrade req ctx = liftA (sdk_buildUpgrade sdk req ctx)"

text \<open>Leo broadcasts only when it is told to; that is what its manual says of \<^verbatim>\<open>--broadcast\<close>.\<close>

definition broadcasts_when_told :: "'c leo_runner \<Rightarrow> bool" where
  "broadcasts_when_told runner \<longleftrightarrow> (\<forall>rq w. ''--broadcast'' \<notin> set (rq_argv rq) \<longrightarrow> lw_chain (snd (runner rq w)) = lw_chain w)"

abbreviation same_chain :: "'c leo_world \<Rightarrow> 'c leo_world \<Rightarrow> bool" where
  "same_chain w w' \<equiv> lw_chain w' = lw_chain w"

lemma same_chain_relation: "step_relation (\<lambda>_. True) same_chain"
  by (simp add: step_relation_def)

lemmas same_chain_rules = relA_bind [OF same_chain_relation] relA_simple [OF same_chain_relation]

lemma leo_run_silent:
  fixes runner :: "'c leo_runner"
  assumes "broadcasts_when_told runner" and "plain_options (leo_argv_options op req ctx saveDir)"
  shows "relA (\<lambda>_. True) same_chain (leo_run runner sha json env saveDir op req ctx)"
proof -
  have spawn: "relA (\<lambda>_. True) same_chain (spawnA runner (leo_request req ctx env key argv))"
    if "buildLeoArgv (leo_argv_options op req ctx saveDir) = Inr argv" for key argv
  proof -
    have "''--broadcast'' \<notin> set (rq_argv (leo_request req ctx env key argv))"
      using argv_never [OF that assms(2)] by (auto simp: leo_request_def)
    then have "lw_chain (snd (runner (leo_request req ctx env key argv) w)) = lw_chain w" for w
      using assms(1) by (simp add: broadcasts_when_told_def)
    then have quiet: "lw_chain w' = lw_chain w" if "runner (leo_request req ctx env key argv) (w\<lparr>lw_spawned := sp\<rparr>) = (r, w')" for w w' sp r
      using that by (metis leo_world.select_convs(6) leo_world.surjective leo_world.update_convs(5) snd_conv)
    show ?thesis by (auto simp: relA_def spawnA_def quiet split: prod.splits sum.splits)
  qed
  have argv: "relA (\<lambda>_. True) same_chain (bindA (liftA (buildLeoArgv (leo_argv_options op req ctx saveDir))) k)"
    if "\<And>argv. buildLeoArgv (leo_argv_options op req ctx saveDir) = Inr argv \<Longrightarrow> relA (\<lambda>_. True) same_chain (k argv)"
    for k :: "string list \<Rightarrow> ('c, backend_result) leo_act"
    using that by (cases "buildLeoArgv (leo_argv_options op req ctx saveDir)") (simp_all add: relA_def bindA_def liftA_def)
  have clean: "relA (\<lambda>_. True) same_chain (finallyA m (\<lambda>w. w\<lparr>lw_saved := []\<rparr>))" if "relA (\<lambda>_. True) same_chain m"
    for m :: "('c, backend_result) leo_act"
    using that by (simp add: relA_def finallyA_def case_prod_beta)
  have package: "relA (\<lambda>_. True) same_chain (resolveLeoPackage sha p)" "relA (\<lambda>_. True) same_chain (assertPackageUnchanged sha p b)" for p b
    unfolding resolveLeoPackage_def assertPackageUnchanged_def by (auto intro!: same_chain_rules split: option.split)
  have reset: "relA (\<lambda>_. True) same_chain (modifyA (\<lambda>w. w\<lparr>lw_saved := []\<rparr>))" by (simp add: relA_def modifyA_def)
  show ?thesis
    unfolding leo_run_def by (intro same_chain_rules clean argv package reset) (auto intro!: same_chain_rules spawn package)
qed

interpretation leo: deploy_backend
  "\<lambda>op req ctx. broadcasts_when_told runner \<and> plain_options (leo_argv_options op req ctx saveDir)" lw_chain
  "leo_run runner sha json env saveDir" for runner sha json env saveDir
proof unfold_locales
  show "leo_run runner sha json env saveDir op req ctx s \<noteq> (Inr (Broadcast t), s')" for op req ctx s t s'
    by (auto simp: leo_run_def bindA_Inr finallyA_Inr returnA_def throwA_def split: if_splits)
  show "lw_chain (snd (leo_run runner sha json env saveDir op req ctx s)) = lw_chain s"
    if "broadcasts_when_told runner \<and> plain_options (leo_argv_options op req ctx saveDir)" for op req ctx s
    using leo_run_silent [of runner op req ctx saveDir sha json env] that by (simp add: relA_def)
qed

interpretation sdk: deploy_backend "\<lambda>op req ctx. bc_connectionType ctx = NetDevnode \<or> op = LeoUpgrade" lw_chain "sdk_build api" for api
proof unfold_locales
  fix ctx :: backend_ctx and op req s s' t
  assume ready: "bc_connectionType ctx = NetDevnode \<or> op = LeoUpgrade"
  have up: "sdk_buildUpgrade api req ctx \<noteq> Inr (Broadcast t)"
    by (auto simp: sdk_buildUpgrade_def split: if_splits option.splits)
  then show "sdk_build api op req ctx s \<noteq> (Inr (Broadcast t), s')"
    using ready by (cases op) (auto simp: sdk_buildDeploy_def liftA_def bindA_Inr returnA_def)
  have "relA (\<lambda>_. True) same_chain (sdk_build api op req ctx)"
    using ready by (cases op) (auto simp: sdk_buildDeploy_def intro!: same_chain_rules)
  then show "lw_chain (snd (sdk_build api op req ctx s)) = lw_chain s" by (simp add: relA_def)
qed

text \<open>The backend that was resolved, run on a request.\<close>

definition run_backend :: "'c leo_runner \<Rightarrow> (string \<Rightarrow> string) \<Rightarrow> (string \<Rightarrow> jsval option) \<Rightarrow> (string, string) omap \<Rightarrow> string \<Rightarrow> 'c sdk_api
    \<Rightarrow> provider \<Rightarrow> leo_operation \<Rightarrow> backend_request \<Rightarrow> backend_ctx \<Rightarrow> ('c, backend_result) leo_act" where
  "run_backend runner sha json env saveDir api p op req ctx =
    (if p = ProviderLeo then leo_run runner sha json env saveDir op req ctx else sdk_build api op req ctx)"

text \<open>
  A backend keeps the capability it was resolved with: when it says it can build without
  broadcasting, no build of a deployment sends anything - it fails or hands a transaction back -
  and no build of an upgrade ever does, on either provider and any connection of that type.
\<close>

theorem capable_backend_hands_back:
  assumes "resolveDeployBackend p ctx = Inr (q, caps)" and "bc_connectionType ctx' = bc_connectionType ctx"
    and "cb_buildWithoutBroadcast caps \<or> op = LeoUpgrade"
    and "broadcasts_when_told runner" and "plain_options (leo_argv_options op req ctx' saveDir)"
    and "run_backend runner sha json env saveDir api q op req ctx' w = (r, w')"
  shows "lw_chain w' = lw_chain w \<and> (\<forall>x. r = Inr x \<longrightarrow> (\<exists>tx. x = Built tx))"
proof (cases "q = ProviderLeo")
  case True
  then show ?thesis using assms(4-6) leo.hands_back [of runner op req ctx' saveDir sha json env w r w'] by (simp add: run_backend_def)
next
  case False
  then have "caps = sdk_capabilities (bc_connectionType ctx)" using assms(1) by (auto simp: resolveDeployBackend_def split: if_splits)
  then show ?thesis
    using assms(2,3,6) False sdk.hands_back [of ctx' op api req w r w'] by (auto simp: run_backend_def sdk_capabilities_def)
qed

definition ex_sdk :: "string list sdk_api" where
  "ex_sdk = \<lparr> sa_initConsensus = Inr (), sa_checkDevnode = Inr (), sa_create = (\<lambda>_ _. Inr ()), sa_deploy = (\<lambda>src _ _ c. (Inr ''at1'', src # c)),
    sa_devnodeDeploy = (\<lambda>_ _ _. Inr ''tx''), sa_devnodeUpgrade = (\<lambda>_ _ _. Inr ''tx''), sa_buildDeployment = None, sa_buildUpgrade = None,
    sa_estimate = None \<rparr>"

theorem capable_backend_hands_back_witness:
  "lw_chain (snd (run_backend ex_leo_runner (\<lambda>s. s) ex_json [] ''/tmp/x'' ex_sdk ProviderSdk LeoDeploy ex_request
    (ex_ctx\<lparr>bc_connectionType := NetDevnode\<rparr>) ex_leo_world)) = []
   \<and> lw_chain (snd (run_backend ex_leo_runner (\<lambda>s. s) ex_json [] ''/tmp/x'' ex_sdk ProviderSdk LeoDeploy ex_request ex_ctx ex_leo_world)) = [''code'']"
proof
  let ?ctx = "ex_ctx\<lparr>bc_connectionType := NetDevnode\<rparr>"
  let ?run = "run_backend ex_leo_runner (\<lambda>s. s) ex_json [] ''/tmp/x'' ex_sdk ProviderSdk LeoDeploy ex_request ?ctx ex_leo_world"
  have r: "resolveDeployBackend ProviderSdk ?ctx = Inr (ProviderSdk, sdk_capabilities NetDevnode)"
    by (simp add: resolveDeployBackend_def assertDeployBackendCompatible_def)
  have told: "broadcasts_when_told ex_leo_runner" by (simp add: broadcasts_when_told_def ex_leo_runner_def)
  have plain: "plain_options (leo_argv_options LeoDeploy ex_request ?ctx ''/tmp/x'')" by code_simp
  have run: "?run = (fst ?run, snd ?run)" by simp
  from capable_backend_hands_back [OF r refl _ told plain run] show "lw_chain (snd ?run) = []"
    by (simp add: sdk_capabilities_def ex_leo_world_def)
  show "lw_chain (snd (run_backend ex_leo_runner (\<lambda>s. s) ex_json [] ''/tmp/x'' ex_sdk ProviderSdk LeoDeploy ex_request ex_ctx ex_leo_world)) = [''code'']"
    by code_simp
qed

end
