(* ===== verification/Preflight.thy ===== *)
theory Preflight imports Units DeployManager LeoBackend begin

text \<open>
  Pre-flight validation of a deployment (\<^verbatim>\<open>plugin-deploy/src/preflight.ts\<close>): which programs are
  deployed already, whether their imports are available, what they cost. Nothing is written; a
  read that throws ends it. Balances and fees are \<^verbatim>\<open>bigint\<close>.
\<close>

section \<open>Results\<close>

datatype preflight_error =
    AlreadyDeployed string
  | MissingArtifacts string
  | MissingImport string string
  | InsufficientBalance int int
  | DependencyResolutionFailed unit_error

datatype preflight_warning = LowBalance int int | FeeWarning backend_warning

datatype outcome_action = OutDeploy | OutSkip

datatype skip_reason = ReasonDeployed | ReasonInState

record program_outcome =
  po_programId :: string
  po_action :: outcome_action
  po_reason :: "skip_reason option"
  po_record :: "deployment_record option"
  po_feeEstimate :: "int option"

record preflight_result =
  pr_warnings :: "preflight_warning list"
  pr_errors :: "preflight_error list"
  pr_programs :: "program_outcome list"
  pr_totalFeeEstimate :: "int option"

definition pr_passed :: "preflight_result \<Rightarrow> bool" where "pr_passed r \<longleftrightarrow> pr_errors r = []"

record preflight_program =
  pp_programId :: string
  pp_aleoSource :: "string option"
  pp_existingRecord :: "deployment_record option"

text \<open>What the checks read: the chain, a balance, the backend's estimate and an address derivation.\<close>

record preflight_env =
  pf_connection :: chain_connection
  pf_balance :: "string option \<Rightarrow> string + int"
  pf_estimate :: "string \<Rightarrow> string \<Rightarrow> (string, string) omap \<Rightarrow> string option \<Rightarrow> int option \<times> backend_warning option"
  pf_deriveAddress :: "string \<Rightarrow> string option"
  pf_isDevnode :: bool
  pf_skipDeployed :: bool
  pf_deployTargets :: "string list"
  pf_localSources :: "(string, string) omap"
  pf_graph :: dependency_graph
  pf_signerPrivateKey :: "string option"

section \<open>Checks\<close>

definition deploy_outcome :: "string \<Rightarrow> int option \<Rightarrow> program_outcome" where
  "deploy_outcome programId fee =
    \<lparr> po_programId = programId, po_action = OutDeploy, po_reason = None, po_record = None, po_feeEstimate = fee \<rparr>"

definition skip_outcome :: "string \<Rightarrow> skip_reason \<Rightarrow> deployment_record option \<Rightarrow> program_outcome" where
  "skip_outcome programId reason existing =
    \<lparr> po_programId = programId, po_action = OutSkip, po_reason = Some reason, po_record = existing, po_feeEstimate = None \<rparr>"

definition checkAlreadyDeployed :: "chain_connection \<Rightarrow> string \<Rightarrow> deployment_record option \<Rightarrow> bool
    \<Rightarrow> manager_error + program_outcome \<times> preflight_error option" where
  "checkAlreadyDeployed cn programId existing skipDeployed =
    bindR (checkProgramOnChain cn programId) (\<lambda>found. case found of
      OffChain \<Rightarrow> Inr (deploy_outcome programId None, None)
    | OnChain src edition \<Rightarrow>
        if \<not> skipDeployed then Inr (skip_outcome programId ReasonDeployed existing, Some (AlreadyDeployed programId))
        else Inr (skip_outcome programId (if existing = None then ReasonDeployed else ReasonInState) existing, None))"

definition graph_imports :: "dependency_graph \<Rightarrow> string \<Rightarrow> string list" where
  "graph_imports g programId = (case om_get (dg_imports g) programId of None \<Rightarrow> [] | Some deps \<Rightarrow> deps)"

definition checkImportsAvailable :: "chain_connection \<Rightarrow> dependency_graph \<Rightarrow> string \<Rightarrow> string list \<Rightarrow> (string, string) omap
    \<Rightarrow> manager_error + preflight_error list" where
  "checkImportsAvailable cn g programId deployTargets localSources =
    foldR (\<lambda>errors importId.
      if importId \<in> set deployTargets then Inr errors
      else if om_has localSources importId then Inr errors
      else bindR (checkProgramOnChain cn importId) (\<lambda>found. case found of
          OffChain \<Rightarrow> Inr (errors @ [MissingImport programId importId])
        | OnChain src edition \<Rightarrow> Inr errors)) [] (graph_imports g programId)"

definition checkBalanceSufficient :: "(string option \<Rightarrow> string + int) \<Rightarrow> int \<Rightarrow> string option
    \<Rightarrow> manager_error + preflight_warning option \<times> preflight_error option" where
  "checkBalanceSufficient getBalance totalEstimate signerAddress =
    (if totalEstimate = 0 then Inr (None, None)
     else bindR (chainR (getBalance signerAddress)) (\<lambda>balance.
       let bufferThreshold = (totalEstimate * 3) div 2 in
       if balance < totalEstimate then Inr (None, Some (InsufficientBalance balance totalEstimate))
       else if balance < bufferThreshold then Inr (Some (LowBalance balance totalEstimate), None)
       else Inr (None, None)))"

section \<open>The pipeline\<close>

record preflight_state =
  ps_warnings :: "preflight_warning list"
  ps_errors :: "preflight_error list"
  ps_outcomes :: "program_outcome list"
  ps_targets :: "string list"
  ps_total :: "int option"

text \<open>
  The sources an estimate needs: a local source that is not empty is used, the rest is fetched.
\<close>

definition fee_imports :: "preflight_env \<Rightarrow> string \<Rightarrow> manager_error + (string, string) omap" where
  "fee_imports env programId =
    (let ids = graph_imports (pf_graph env) programId;
         local_src = (\<lambda>i. case om_get (pf_localSources env) i of Some s \<Rightarrow> if s = [] then None else Some s | None \<Rightarrow> None);
         known = fold (\<lambda>i m. case local_src i of None \<Rightarrow> m | Some s \<Rightarrow> om_set i s m) ids [];
         onChain = filter (\<lambda>i. local_src i = None) ids
     in if onChain = [] then Inr known
        else bindR (fetchImportSources (pf_connection env) onChain) (\<lambda>fetched. Inr (om_spread known fetched)))"

definition add_outcome :: "program_outcome \<Rightarrow> preflight_state \<Rightarrow> preflight_state" where
  "add_outcome out st = st\<lparr>ps_outcomes := ps_outcomes st @ [out]\<rparr>"

definition add_errors :: "preflight_error list \<Rightarrow> preflight_state \<Rightarrow> preflight_state" where
  "add_errors es st = st\<lparr>ps_errors := ps_errors st @ es\<rparr>"

definition preflight_deploying :: "preflight_env \<Rightarrow> preflight_state \<Rightarrow> preflight_program \<Rightarrow> manager_error + preflight_state" where
  "preflight_deploying env st prog =
    (let programId = pp_programId prog in
     if pf_isDevnode env then Inr (add_outcome (deploy_outcome programId None) st)
     else (case pp_aleoSource prog of
        None \<Rightarrow> Inr (add_outcome (deploy_outcome programId None) (add_errors [MissingArtifacts programId] st))
      | Some aleoSource \<Rightarrow>
          bindR (checkImportsAvailable (pf_connection env) (pf_graph env) programId (ps_targets st) (pf_localSources env)) (\<lambda>importErrors.
          if importErrors \<noteq> [] then Inr (add_outcome (deploy_outcome programId None) (add_errors importErrors st))
          else bindR (fee_imports env programId) (\<lambda>importSources.
            case pf_estimate env programId aleoSource importSources (pf_signerPrivateKey env) of (estimate, feeWarning) \<Rightarrow>
              Inr (add_outcome (deploy_outcome programId estimate)
                (st\<lparr>ps_warnings := ps_warnings st @ (case feeWarning of None \<Rightarrow> [] | Some w \<Rightarrow> [FeeWarning w]),
                    ps_total := (case estimate of None \<Rightarrow> ps_total st
                      | Some e \<Rightarrow> Some ((case ps_total st of None \<Rightarrow> 0 | Some t \<Rightarrow> t) + e))\<rparr>))))))"

definition preflight_step :: "preflight_env \<Rightarrow> preflight_state \<Rightarrow> preflight_program \<Rightarrow> manager_error + preflight_state" where
  "preflight_step env st prog =
    bindR (checkAlreadyDeployed (pf_connection env) (pp_programId prog) (pp_existingRecord prog) (pf_skipDeployed env)) (\<lambda>(out, err).
      case err of
        Some e \<Rightarrow> Inr (add_outcome out (add_errors [e] st))
      | None \<Rightarrow>
          if po_action out = OutSkip
          then Inr (add_outcome out (st\<lparr>ps_targets := filter (\<lambda>t. t \<noteq> pp_programId prog) (ps_targets st)\<rparr>))
          else preflight_deploying env st prog)"

definition runDeployPreflight :: "preflight_env \<Rightarrow> preflight_program list \<Rightarrow> manager_error + preflight_result" where
  "runDeployPreflight env programs =
    bindR (foldR (preflight_step env)
        \<lparr> ps_warnings = [], ps_errors = [], ps_outcomes = [], ps_targets = pf_deployTargets env, ps_total = None \<rparr> programs) (\<lambda>st.
    bindR (case ps_total st of
        None \<Rightarrow> Inr (None, None)
      | Some fees \<Rightarrow>
          if pf_isDevnode env \<or> fees \<le> 0 then Inr (None, None)
          else checkBalanceSufficient (pf_balance env) fees
            (case pf_signerPrivateKey env of None \<Rightarrow> None | Some k \<Rightarrow> if k = [] then None else pf_deriveAddress env k)) (\<lambda>(warn, err).
    Inr \<lparr> pr_warnings = ps_warnings st @ (case warn of None \<Rightarrow> [] | Some w \<Rightarrow> [w]),
          pr_errors = ps_errors st @ (case err of None \<Rightarrow> [] | Some e \<Rightarrow> [e]),
          pr_programs = ps_outcomes st, pr_totalFeeEstimate = ps_total st \<rparr>))"

section \<open>Outcomes\<close>

text \<open>One outcome per program, in order; it skips exactly the programs the chain has.\<close>

definition on_chain_now :: "chain_connection \<Rightarrow> string \<Rightarrow> bool" where
  "on_chain_now cn p \<longleftrightarrow> (\<exists>src e. checkProgramOnChain cn p = Inr (OnChain src e))"

lemma add_simps [simp]:
  "ps_outcomes (add_outcome out st) = ps_outcomes st @ [out]" "ps_errors (add_outcome out st) = ps_errors st"
  "ps_outcomes (add_errors es st) = ps_outcomes st" "ps_errors (add_errors es st) = ps_errors st @ es"
  by (simp_all add: add_outcome_def add_errors_def)

lemma check_deployed_cases:
  assumes "checkAlreadyDeployed cn p existing skip = Inr (out, err)"
  shows "po_programId out = p" "po_action out = (if on_chain_now cn p then OutSkip else OutDeploy)"
    "err = (if on_chain_now cn p \<and> \<not> skip then Some (AlreadyDeployed p) else None)"
    "po_action out = OutSkip \<Longrightarrow> po_record out = existing \<and> (po_reason out = Some ReasonInState \<longrightarrow> existing \<noteq> None)"
proof -
  obtain x where "checkProgramOnChain cn p = Inr x" using assms by (auto simp: checkAlreadyDeployed_def)
  then show "po_programId out = p" "po_action out = (if on_chain_now cn p then OutSkip else OutDeploy)"
    "err = (if on_chain_now cn p \<and> \<not> skip then Some (AlreadyDeployed p) else None)"
    "po_action out = OutSkip \<Longrightarrow> po_record out = existing \<and> (po_reason out = Some ReasonInState \<longrightarrow> existing \<noteq> None)"
    using assms
    by (cases x; auto simp: checkAlreadyDeployed_def on_chain_now_def deploy_outcome_def skip_outcome_def split: if_splits)+
qed

lemma deploying_outcome:
  "preflight_deploying env st prog = Inr st' \<Longrightarrow> \<exists>fee. ps_outcomes st' = ps_outcomes st @ [deploy_outcome (pp_programId prog) fee]"
  by (cases "pp_aleoSource prog") (auto simp: preflight_deploying_def Let_def case_prod_beta split: if_splits)

definition outcome_ok :: "preflight_env \<Rightarrow> preflight_program \<Rightarrow> program_outcome \<Rightarrow> bool" where
  "outcome_ok env prog out \<longleftrightarrow> po_programId out = pp_programId prog
    \<and> po_action out = (if on_chain_now (pf_connection env) (pp_programId prog) then OutSkip else OutDeploy)
    \<and> (po_action out = OutSkip \<longrightarrow> po_record out = pp_existingRecord prog)"

lemma step_outcome:
  assumes "preflight_step env st prog = Inr st'"
  shows "\<exists>out. ps_outcomes st' = ps_outcomes st @ [out] \<and> outcome_ok env prog out"
proof -
  obtain out err where c: "checkAlreadyDeployed (pf_connection env) (pp_programId prog) (pp_existingRecord prog) (pf_skipDeployed env) = Inr (out, err)"
    using assms by (auto simp: preflight_step_def)
  note facts = check_deployed_cases [OF c]
  show ?thesis
  proof (cases "err = None \<and> po_action out = OutDeploy")
    case True
    then have "preflight_deploying env st prog = Inr st'" using assms c by (simp add: preflight_step_def)
    then obtain fee where "ps_outcomes st' = ps_outcomes st @ [deploy_outcome (pp_programId prog) fee]" using deploying_outcome by blast
    then show ?thesis using facts True by (auto simp: outcome_ok_def deploy_outcome_def split: if_splits)
  next
    case False
    then have "ps_outcomes st' = ps_outcomes st @ [out]"
      using assms c facts(2) by (cases "po_action out") (auto simp: preflight_step_def split: option.splits)
    then show ?thesis using facts by (auto simp: outcome_ok_def)
  qed
qed

lemma steps_outcomes:
  "foldR (preflight_step env) st progs = Inr st' \<Longrightarrow> \<exists>outs. ps_outcomes st' = ps_outcomes st @ outs \<and> list_all2 (outcome_ok env) progs outs"
proof (induction progs arbitrary: st)
  case (Cons p progs)
  then obtain st1 where 1: "preflight_step env st p = Inr st1" and 2: "foldR (preflight_step env) st1 progs = Inr st'" by auto
  obtain out where "ps_outcomes st1 = ps_outcomes st @ [out]" "outcome_ok env p out" using step_outcome [OF 1] by blast
  moreover obtain outs where "ps_outcomes st' = ps_outcomes st1 @ outs" "list_all2 (outcome_ok env) progs outs"
    using Cons.IH [OF 2] by blast
  ultimately show ?case by (intro exI [of _ "out # outs"]) simp
qed simp

lemma preflight_outcomes:
  "runDeployPreflight env progs = Inr r \<Longrightarrow> list_all2 (outcome_ok env) progs (pr_programs r)"
  unfolding runDeployPreflight_def by (auto dest!: steps_outcomes split: prod.splits)

end
