(* ===== verification/DeployTask.thy ===== *)
theory DeployTask imports ConfigValues Preflight begin

text \<open>
  The deploy and upgrade tasks (\<^verbatim>\<open>plugin-deploy/src/deploy-task.ts\<close>, \<^verbatim>\<open>upgrade-task.ts\<close>). A run is a
  method over the deployment manager's state, the chain's state and a log of what was done to
  the chain and of the hooks. Building a transaction, broadcasting and confirming it, compiling
  and reading provenance are parameters; the chain's state is abstract.
\<close>

section \<open>Options and environment\<close>

record deploy_options =
  do_program :: "string option"
  do_priorityFee :: "int option"
  do_skipConfirm :: bool
  do_network :: "string option"
  do_noCompile :: bool
  do_preflight :: bool
  do_dryRun :: bool
  do_noSkipDeployed :: bool
  do_export :: bool
  do_prove :: bool
  do_rename :: "string option"

record deploy_config =
  dk_defaultNetwork :: string
  dk_confirmTransactions :: bool
  dk_confirmationTimeout :: int
  dk_defaultPriorityFee :: int
  dk_privateFee :: bool
  dk_skipDeployed :: bool
  dk_autoExport :: bool
  dk_interDeploymentDelay :: "nat option"
  dk_leoVersion :: string
  dk_buildTests :: bool

record artifact_store =
  ar_programIds :: "string list"
  ar_aleoSource :: "string \<Rightarrow> string option"
  ar_abi :: "string \<Rightarrow> jsval option"

datatype confirmation = Rejected | Accepted int

text \<open>\<^verbatim>\<open>None\<close> as compile arguments stands for a run that did not compile.\<close>

record 'c deploy_env =
  dv_config :: deploy_config
  dv_networkType :: "string \<Rightarrow> network_type option"
  dv_accounts :: "string \<Rightarrow> string list"
  dv_backend :: "string \<Rightarrow> backend_error + capabilities"
  dv_compile :: "(string, string) omap \<Rightarrow> string + unit"
  dv_artifacts :: "(string, string) omap option \<Rightarrow> artifact_store"
  dv_units :: "unit_error + discovered_unit list"
  dv_read :: "string \<Rightarrow> string option"
  dv_provenance :: "string \<Rightarrow> string + (string \<times> string) option"
  dv_hasManager :: bool
  dv_manager :: "'c \<Rightarrow> manager_env"
  dv_connect :: "string \<Rightarrow> string + live_connection"
  dv_named :: named_accounts
  dv_chain :: "'c \<Rightarrow> chain_connection"
  dv_balance :: "'c \<Rightarrow> string option \<Rightarrow> string + int"
  dv_estimate :: "string \<Rightarrow> string \<Rightarrow> (string, string) omap \<Rightarrow> string option \<Rightarrow> int option \<times> backend_warning option"
  dv_derive :: "string \<Rightarrow> string option"
  dv_build :: "leo_operation \<Rightarrow> backend_request \<Rightarrow> 'c \<Rightarrow> (backend_error + backend_result) \<times> 'c"
  dv_broadcast :: "string \<Rightarrow> 'c \<Rightarrow> (string + string) \<times> 'c"
  dv_confirm :: "string \<Rightarrow> 'c \<Rightarrow> (string + confirmation) \<times> 'c"
  dv_poll :: "'c \<Rightarrow> polled_chain"
  dv_hook :: "string \<Rightarrow> string \<Rightarrow> string + unit"
  dv_now :: string

datatype deploy_error =
    ExportUnconfirmed
  | NetworkNotFound string
  | BackendFailed backend_error
  | CompileFailed string
  | UnitsFailed unit_error
  | RenameUnsupported string
  | RenameBuildTests
  | RenameNeedsProgram
  | RenameConflict string
  | NothingCompiled
  | ProgramNotFound string
  | ProvenanceInvalid string
  | ProvenanceMissing string
  | ProvenanceMismatch string string
  | ConnectionFailed string
  | AddressOnlySigner string
  | ManagerFailed manager_error
  | RenamedElsewhere string string
  | RenamedUnknown string
  | PlainRenamed string string
  | PreflightFailed "preflight_error list"
  | CannotDryRun
  | DryRunBroadcast string
  | NoSource string
  | NoAbi string
  | BroadcastFailed string
  | ConfirmFailed string
  | RejectedOnChain string
  | HookFailed string
  | NoDeployment string
  | MissingProgramOption
  | NoNetworkManager

text \<open>What was done, with the files as they were at that moment.\<close>

datatype deploy_event =
    EvBuild leo_operation string disk
  | EvBroadcast string disk
  | EvHook string string
  | EvDelay nat

record 'c deploy_state =
  dy_manager :: manager_state
  dy_chain :: 'c
  dy_log :: "deploy_event list"

type_synonym ('c, 'a) deploy_act = "('c deploy_state, deploy_error, 'a) act"

definition liftE :: "('e \<Rightarrow> deploy_error) \<Rightarrow> 'e + 'a \<Rightarrow> deploy_error + 'a" where
  "liftE f r = (case r of Inl e \<Rightarrow> Inl (f e) | Inr x \<Rightarrow> Inr x)"

text \<open>A manager method, over the chain as it is now.\<close>

definition managerA :: "'c deploy_env \<Rightarrow> (manager_env \<Rightarrow> 'a manager_act) \<Rightarrow> ('c, 'a) deploy_act" where
  "managerA env m = (\<lambda>s. (case m (dv_manager env (dy_chain s)) (dy_manager s) of
    (r, ms) \<Rightarrow> (liftE ManagerFailed r, s\<lparr>dy_manager := ms\<rparr>)))"

definition whenManager :: "'c deploy_env \<Rightarrow> ('c, unit) deploy_act \<Rightarrow> ('c, unit) deploy_act" where
  "whenManager env m = (if dv_hasManager env then m else returnA ())"

definition logA :: "(disk \<Rightarrow> deploy_event) \<Rightarrow> ('c, unit) deploy_act" where
  "logA ev = modifyA (\<lambda>s. s\<lparr>dy_log := dy_log s @ [ev (ds_disk (dy_manager s))]\<rparr>)"

definition chainA :: "('e \<Rightarrow> deploy_error) \<Rightarrow> ('c \<Rightarrow> ('e + 'a) \<times> 'c) \<Rightarrow> ('c, 'a) deploy_act" where
  "chainA f op = (\<lambda>s. (case op (dy_chain s) of (r, c) \<Rightarrow> (liftE f r, s\<lparr>dy_chain := c\<rparr>)))"

definition readChainA :: "('c \<Rightarrow> manager_error + 'a) \<Rightarrow> ('c, 'a) deploy_act" where
  "readChainA f = (\<lambda>s. (liftE ManagerFailed (f (dy_chain s)), s))"

section \<open>Targets and renames\<close>

definition resolveDeployTargets :: "string list \<Rightarrow> string list \<Rightarrow> dependency_graph \<Rightarrow> string option \<Rightarrow> deploy_error + string list" where
  "resolveDeployTargets compiledIds programs g targetProgram =
    (case (case targetProgram of Some p \<Rightarrow> if p = [] then None else Some p | None \<Rightarrow> None) of
      None \<Rightarrow>
        let ordered = filter (\<lambda>p. p \<in> set compiledIds) (program_ids (dg_order g))
        in Inr (ordered @ js_dedup (filter (\<lambda>p. p \<notin> set ordered) compiledIds))
    | Some p \<Rightarrow>
        let normalized = normalizeProgramId p in
        if normalized \<notin> set compiledIds then Inl (ProgramNotFound p)
        else liftE UnitsFailed (collectLocalDeploymentClosure normalized g programs))"

definition localLookupKeys :: "discovered_unit \<Rightarrow> string list" where
  "localLookupKeys u = (if is_library u then [unitId u, unitId u @ ''.aleo''] else [unitId u])"

definition bareProgramName :: "string \<Rightarrow> string" where
  "bareProgramName p = (if ends_with p ''.aleo'' then take (length p - 5) p else p)"

record rename_plan =
  rn_source :: string
  rn_target :: string

definition validateDeployRename :: "deploy_options \<Rightarrow> deploy_config \<Rightarrow> dependency_graph \<Rightarrow> deploy_error + rename_plan option" where
  "validateDeployRename opts config g =
    (let raw = (case do_rename opts of None \<Rightarrow> [] | Some r \<Rightarrow> js_trim r) in
     if raw = [] then Inr None
     else if \<not> supportsLeoProgramRename (dk_leoVersion config) then Inl (RenameUnsupported (dk_leoVersion config))
     else if dk_buildTests config then Inl RenameBuildTests
     else (case (case do_program opts of Some p \<Rightarrow> if p = [] then None else Some p | None \<Rightarrow> None) of
        None \<Rightarrow> Inl RenameNeedsProgram
      | Some p \<Rightarrow>
          let src = normalizeProgramId p; tgt = normalizeProgramId raw;
              keys = concat (map localLookupKeys (filter (\<lambda>u. is_library u \<or> unitId u \<noteq> src) (dg_order g)))
          in if tgt \<in> set keys \<or> bareProgramName tgt \<in> set keys then Inl (RenameConflict tgt)
             else Inr (Some \<lparr> rn_source = src, rn_target = tgt \<rparr>)))"

definition graphWithRenamedPrimary :: "dependency_graph \<Rightarrow> rename_plan \<Rightarrow> dependency_graph" where
  "graphWithRenamedPrimary g rn = g\<lparr>dg_imports := om_set (rn_target rn) (graph_imports g (rn_source rn)) (dg_imports g)\<rparr>"

definition validateRenamedNoCompileArtifactProvenance :: "'c deploy_env \<Rightarrow> rename_plan \<Rightarrow> deploy_error + unit" where
  "validateRenamedNoCompileArtifactProvenance env rn =
    (case dv_provenance env (rn_target rn) of
      Inl e \<Rightarrow> Inl (ProvenanceInvalid (rn_target rn))
    | Inr None \<Rightarrow> Inl (ProvenanceMissing (rn_target rn))
    | Inr (Some (p, src)) \<Rightarrow>
        if src = [] then Inl (ProvenanceMissing (rn_target rn))
        else if p \<noteq> rn_target rn \<or> src \<noteq> rn_source rn then Inl (ProvenanceMismatch p src) else Inr ())"

definition outcome_source :: "program_outcome \<Rightarrow> string option" where
  "outcome_source out = Option.bind (po_record out) (\<lambda>r. case dr_sourceProgramId r of None \<Rightarrow> None | Some s \<Rightarrow> if s = [] then None else Some s)"

definition validateRenamedPreflightReuse :: "preflight_result \<Rightarrow> rename_plan \<Rightarrow> deploy_error + unit" where
  "validateRenamedPreflightReuse r rn =
    (case find (\<lambda>out. po_programId out = rn_target rn) (pr_programs r) of
      None \<Rightarrow> Inr ()
    | Some out \<Rightarrow>
        if po_action out \<noteq> OutSkip then Inr ()
        else if Option.bind (po_record out) dr_sourceProgramId = Some (rn_source rn) then Inr ()
        else (case outcome_source out of Some s \<Rightarrow> Inl (RenamedElsewhere (rn_target rn) s) | None \<Rightarrow> Inl (RenamedUnknown (rn_target rn))))"

definition validatePlainPreflightReuse :: "preflight_result \<Rightarrow> string list \<Rightarrow> deploy_error + unit" where
  "validatePlainPreflightReuse r programs =
    foldR (\<lambda>_ out.
      if po_action out \<noteq> OutSkip \<or> po_programId out \<notin> set programs then Inr ()
      else (case outcome_source out of
          Some s \<Rightarrow> if s \<noteq> po_programId out then Inl (PlainRenamed (po_programId out) s) else Inr ()
        | None \<Rightarrow> Inr ())) () (pr_programs r)"

section \<open>Planning a deployment\<close>

text \<open>Steps 0 to 5b: everything that is settled before the manager is asked.\<close>

record deploy_plan =
  dp_network :: string
  dp_type :: network_type
  dp_capabilities :: capabilities
  dp_store :: artifact_store
  dp_programs :: "string list"
  dp_graph :: dependency_graph
  dp_rename :: "rename_plan option"
  dp_targets :: "string list"
  dp_connection :: live_connection
  dp_signer :: "string option"
  dp_shouldConfirm :: bool
  dp_fee :: int

definition deploy_compile_args :: "deploy_options \<Rightarrow> string \<Rightarrow> (string, string) omap" where
  "deploy_compile_args opts networkName =
    (case do_program opts of Some p \<Rightarrow> if p = [] then [] else [(''program'', p)] | None \<Rightarrow> [])
    @ (case do_rename opts of Some r \<Rightarrow> if r = [] then [] else [(''rename'', r)] | None \<Rightarrow> [])
    @ (case do_network opts of Some n \<Rightarrow> if n = [] then [] else [(''network'', networkName)] | None \<Rightarrow> [])"

definition signer_of :: "named_account option \<Rightarrow> string \<Rightarrow> deploy_error + string option" where
  "signer_of named role =
    (case named of None \<Rightarrow> Inr None | Some (AddressOnly a) \<Rightarrow> Inl (AddressOnlySigner role)
    | Some (Signable a) \<Rightarrow> Inr (Some (sa_privateKey a)))"

definition plan_deployment :: "'c deploy_env \<Rightarrow> deploy_options \<Rightarrow> deploy_error + deploy_plan" where
  "plan_deployment env opts =
    (let config = dv_config env;
         networkName = (case do_network opts of Some n \<Rightarrow> n | None \<Rightarrow> dk_defaultNetwork config);
         shouldConfirm = (\<not> do_skipConfirm opts \<and> dk_confirmTransactions config);
         args = (if \<not> do_noCompile opts \<and> \<not> do_preflight opts then Some (deploy_compile_args opts networkName) else None)
     in if do_export opts \<and> \<not> shouldConfirm then Inl ExportUnconfirmed
        else (case dv_networkType env networkName of
          None \<Rightarrow> Inl (NetworkNotFound networkName)
        | Some netType \<Rightarrow>
            bindR (liftE BackendFailed (dv_backend env networkName)) (\<lambda>caps.
            bindR (case args of None \<Rightarrow> Inr () | Some a \<Rightarrow> liftE CompileFailed (dv_compile env a)) (\<lambda>_.
            bindR (liftE UnitsFailed (dv_units env)) (\<lambda>units.
            bindR (liftE UnitsFailed (resolveDependencies (dv_read env) units)) (\<lambda>g.
            bindR (validateDeployRename opts config g) (\<lambda>rename.
            let programs = program_ids units; store = dv_artifacts env args;
                candidates = (if do_preflight opts then programs else if rename \<noteq> None then programs
                  else filter (\<lambda>p. p \<in> set programs) (ar_programIds store))
            in if \<not> do_preflight opts \<and> candidates = [] then Inl NothingCompiled
               else bindR (resolveDeployTargets candidates programs g (do_program opts)) (\<lambda>targets.
            bindR (case rename of Some rn \<Rightarrow> if do_noCompile opts then validateRenamedNoCompileArtifactProvenance env rn else Inr ()
                     | None \<Rightarrow> Inr ()) (\<lambda>_.
            bindR (liftE ConnectionFailed (dv_connect env networkName)) (\<lambda>connection.
            bindR (signer_of (om_get (dv_named env) ''deployer'') ''deployer'') (\<lambda>signer.
            Inr \<lparr> dp_network = networkName, dp_type = netType, dp_capabilities = caps, dp_store = store, dp_programs = programs,
                  dp_graph = (case rename of None \<Rightarrow> g | Some rn \<Rightarrow> graphWithRenamedPrimary g rn), dp_rename = rename,
                  dp_targets = map (\<lambda>p. case rename of Some rn \<Rightarrow> if p = rn_source rn then rn_target rn else p | None \<Rightarrow> p) targets,
                  dp_connection = connection, dp_signer = signer, dp_shouldConfirm = shouldConfirm,
                  dp_fee = (case do_priorityFee opts of Some f \<Rightarrow> f | None \<Rightarrow> dk_defaultPriorityFee config) \<rparr>)))))))))))"

section \<open>Preflight of the run\<close>

definition nonempty_source :: "artifact_store \<Rightarrow> string \<Rightarrow> string option" where
  "nonempty_source store p = (case ar_aleoSource store p of Some s \<Rightarrow> if s = [] then None else Some s | None \<Rightarrow> None)"

definition preflight_entry :: "'c deploy_env \<Rightarrow> deploy_plan \<Rightarrow> string \<Rightarrow> ('c, preflight_program) deploy_act" where
  "preflight_entry env plan programId =
    bindA (if \<not> dv_hasManager env then returnA None
      else (\<lambda>s. managerA env (\<lambda>me.
        if lv_type (dp_connection plan) = NetDevnode \<and> (dp_rename plan = None \<or> isEphemeral me (dp_network plan))
        then getCached me programId (Some (dp_network plan))
        else getDeployment me programId (Some (dp_network plan))) s)) (\<lambda>existing.
    returnA \<lparr> pp_programId = programId, pp_aleoSource = ar_aleoSource (dp_store plan) programId, pp_existingRecord = existing \<rparr>)"

definition deploy_preflight :: "'c deploy_env \<Rightarrow> deploy_options \<Rightarrow> deploy_plan \<Rightarrow> preflight_program list \<Rightarrow> ('c, preflight_result) deploy_act" where
  "deploy_preflight env opts plan programs =
    readChainA (\<lambda>c. runDeployPreflight
      \<lparr> pf_connection = dv_chain env c, pf_balance = dv_balance env c, pf_estimate = dv_estimate env, pf_deriveAddress = dv_derive env,
        pf_isDevnode = (dp_type plan = NetDevnode), pf_skipDeployed = (\<not> do_noSkipDeployed opts \<and> dk_skipDeployed (dv_config env)),
        pf_deployTargets = js_dedup (dp_targets plan),
        pf_localSources = fold (\<lambda>p m. case nonempty_source (dp_store plan) p of None \<Rightarrow> m | Some s \<Rightarrow> om_set p s m) (dp_targets plan) [],
        pf_graph = dp_graph plan, pf_signerPrivateKey = dp_signer plan \<rparr> programs)"

section \<open>Building, reconciling, deploying\<close>

definition is_renamed :: "deploy_plan \<Rightarrow> string \<Rightarrow> bool" where
  "is_renamed plan programId \<longleftrightarrow> (case dp_rename plan of None \<Rightarrow> False | Some rn \<Rightarrow> rn_target rn = programId)"

definition source_id :: "deploy_plan \<Rightarrow> string \<Rightarrow> string option" where
  "source_id plan programId = (if is_renamed plan programId then map_option rn_source (dp_rename plan) else None)"

definition buildDeployRequest :: "deploy_options \<Rightarrow> 'c deploy_env \<Rightarrow> deploy_plan \<Rightarrow> string \<Rightarrow> string \<Rightarrow> deploy_error + backend_request" where
  "buildDeployRequest opts env plan programId aleoSource =
    (let rootId = (case source_id plan programId of Some s \<Rightarrow> s | None \<Rightarrow> programId)
     in bindR (liftE UnitsFailed (collectLocalDeploymentClosure rootId (dp_graph plan) (dp_programs plan))) (\<lambda>ids.
        Inr \<lparr> br_programId = programId, br_sourceProgramId = source_id plan programId, br_aleoSource = aleoSource,
              br_localDependencyIds = filter (\<lambda>p. p \<noteq> rootId) ids, br_priorityFee = dp_fee plan,
              br_privateFee = dk_privateFee (dv_config env), br_signerPrivateKey = dp_signer plan, br_prove = do_prove opts \<rparr>))"

definition buildA :: "'c deploy_env \<Rightarrow> leo_operation \<Rightarrow> backend_request \<Rightarrow> ('c, backend_result) deploy_act" where
  "buildA env op req = bindA (logA (EvBuild op (br_programId req))) (\<lambda>_. chainA BackendFailed (dv_build env op req))"

definition dry_run_one :: "'c deploy_env \<Rightarrow> deploy_options \<Rightarrow> deploy_plan \<Rightarrow> (string \<times> string) list \<Rightarrow> string
    \<Rightarrow> ('c, (string \<times> string) list) deploy_act" where
  "dry_run_one env opts plan results programId =
    (case nonempty_source (dp_store plan) programId of
      None \<Rightarrow> returnA results
    | Some aleoSource \<Rightarrow>
        bindA (liftA (buildDeployRequest opts env plan programId aleoSource)) (\<lambda>req.
        bindA (buildA env LeoDeploy req) (\<lambda>built. case built of
            Built tx \<Rightarrow> returnA (results @ [(programId, tx)])
          | Broadcast txId \<Rightarrow> throwA (DryRunBroadcast txId))))"

definition dry_run :: "'c deploy_env \<Rightarrow> deploy_options \<Rightarrow> deploy_plan \<Rightarrow> string list \<Rightarrow> ('c, (string \<times> string) list) deploy_act" where
  "dry_run env opts plan ids =
    (if \<not> cb_buildWithoutBroadcast (dp_capabilities plan) then throwA CannotDryRun
     else foldA (dry_run_one env opts plan) [] ids)"

fun is_number :: "jsval \<Rightarrow> bool" where
  "is_number (JNum n) = True"
| "is_number _ = False"

text \<open>A program that is deployed but has no record gets a degraded one.\<close>

definition observed_edition :: "chain_connection \<Rightarrow> string \<Rightarrow> jsval \<Rightarrow> manager_error + jsval" where
  "observed_edition cn programId edition =
    (if is_number edition then Inr edition
     else getRequiredProgramEdition cn programId ''create degraded deployment record'')"

definition reconcile_one :: "'c deploy_env \<Rightarrow> deploy_plan \<Rightarrow> program_outcome \<Rightarrow> ('c, unit) deploy_act" where
  "reconcile_one env plan out =
    (if po_action out = OutSkip \<and> po_reason out = Some ReasonDeployed \<and> po_record out = None then
       bindA (readChainA (\<lambda>c. checkProgramOnChain (dv_chain env c) (po_programId out))) (\<lambda>found. case found of
          OffChain \<Rightarrow> returnA ()
        | OnChain src edition \<Rightarrow>
            bindA (readChainA (\<lambda>c. observed_edition (dv_chain env c) (po_programId out) edition)) (\<lambda>observed.
            managerA env (\<lambda>me. record_deployment me
              (createDegradedRecord (dv_now env) (po_programId out) (dp_network plan) (lv_endpoint (dp_connection plan)) observed 0)
              ActDeploy no_options)))
     else returnA ())"

record deploy_result =
  dz_programId :: string
  dz_txId :: string
  dz_blockHeight :: int

definition deploy_pending :: "'c deploy_env \<Rightarrow> deploy_plan \<Rightarrow> string \<Rightarrow> string option \<Rightarrow> pending_deployment" where
  "deploy_pending env plan programId address =
    \<lparr> pd_programId = programId, pd_sourceProgramId = source_id plan programId, pd_action = ActDeploy, pd_txId = None, pd_blockHeight = None,
      pd_previousEdition = JUndef, pd_startedAt = dv_now env,
      pd_deployerAddress = (case address of Some a \<Rightarrow> a | None \<Rightarrow> ''unknown''), pd_priorityFee = dp_fee plan,
      pd_privateFee = dk_privateFee (dv_config env), pd_network = dp_network plan, pd_endpoint = lv_endpoint (dp_connection plan) \<rparr>"

definition deploy_record :: "'c deploy_env \<Rightarrow> deploy_plan \<Rightarrow> string \<Rightarrow> string option \<Rightarrow> string \<Rightarrow> int \<Rightarrow> deployment_record" where
  "deploy_record env plan programId address txId blockHeight =
    \<lparr> dr_status = StComplete, dr_programId = programId, dr_sourceProgramId = source_id plan programId, dr_network = dp_network plan,
      dr_endpoint = lv_endpoint (dp_connection plan), dr_updatedAt = dv_now env, dr_edition = jint 0, dr_historyCount = 1,
      dr_txId = Some txId, dr_blockHeight = Some blockHeight,
      dr_deployerAddress = Some (case address of Some a \<Rightarrow> a | None \<Rightarrow> ''unknown''), dr_deployedAt = Some (dv_now env), dr_feePaid = Some (dp_fee plan) \<rparr>"

text \<open>A backend that broadcast hands back the id; a transaction is broadcast here.\<close>

definition submitA :: "'c deploy_env \<Rightarrow> string \<Rightarrow> backend_result \<Rightarrow> ('c, string) deploy_act" where
  "submitA env programId built =
    (case built of
      Broadcast txId \<Rightarrow> returnA txId
    | Built tx \<Rightarrow> bindA (logA (EvBroadcast programId)) (\<lambda>_. chainA BroadcastFailed (dv_broadcast env tx)))"

definition deploy_one :: "'c deploy_env \<Rightarrow> deploy_options \<Rightarrow> deploy_plan \<Rightarrow> string \<Rightarrow> ('c, deploy_result) deploy_act" where
  "deploy_one env opts plan programId =
    (case nonempty_source (dp_store plan) programId of
      None \<Rightarrow> throwA (NoSource programId)
    | Some aleoSource \<Rightarrow> (case ar_abi (dp_store plan) programId of
        None \<Rightarrow> throwA (NoAbi programId)
      | Some abi \<Rightarrow>
          let address = resolveDeployerAddress (dv_derive env) (dp_connection plan) (dp_type plan) (dv_accounts env (dp_network plan)) (dp_signer plan) in
          bindA (whenManager env (managerA env (\<lambda>me. setPending me (deploy_pending env plan programId address)))) (\<lambda>_.
          bindA (liftA (buildDeployRequest opts env plan programId aleoSource)) (\<lambda>req.
          bindA (buildA env LeoDeploy req) (\<lambda>built.
          bindA (submitA env programId built) (\<lambda>txId.
          bindA (if \<not> dp_shouldConfirm plan then returnA 0
              else bindA (chainA ConfirmFailed (dv_confirm env txId)) (\<lambda>confirmed. case confirmed of
                  Rejected \<Rightarrow> throwA (RejectedOnChain txId)
                | Accepted height \<Rightarrow> returnA height)) (\<lambda>blockHeight.
          bindA (whenManager env (managerA env (\<lambda>me.
              record_deployment me (deploy_record env plan programId address txId blockHeight) ActDeploy (no_options\<lparr>ro_abi := Some abi\<rparr>)))) (\<lambda>_.
          bindA (logA (\<lambda>_. EvHook ''programDeployed'' programId)) (\<lambda>_.
          bindA (liftA (liftE HookFailed (dv_hook env ''programDeployed'' programId))) (\<lambda>_.
          returnA \<lparr> dz_programId = programId, dz_txId = txId, dz_blockHeight = blockHeight \<rparr>))))))))))"

definition inter_delay :: "'c deploy_env \<Rightarrow> deploy_plan \<Rightarrow> nat" where
  "inter_delay env plan =
    (case dk_interDeploymentDelay (dv_config env) of Some n \<Rightarrow> n | None \<Rightarrow> if dp_type plan = NetHttp then 12000 else 0)"

definition delayA :: "'c deploy_env \<Rightarrow> deploy_plan \<Rightarrow> string list \<Rightarrow> string list \<Rightarrow> ('c, unit) deploy_act" where
  "delayA env plan deployedSoFar rest =
    (case rest of
      [] \<Rightarrow> returnA ()
    | nextProgramId # _ \<Rightarrow>
        if dp_type plan = NetHttp \<and> 0 < inter_delay env plan
          \<and> list_ex (\<lambda>dep. dep \<in> set deployedSoFar) (graph_imports (dp_graph plan) nextProgramId)
        then logA (\<lambda>_. EvDelay (inter_delay env plan)) else returnA ())"

fun deploy_loop :: "'c deploy_env \<Rightarrow> deploy_options \<Rightarrow> deploy_plan \<Rightarrow> string list \<Rightarrow> string list \<Rightarrow> ('c, deploy_result list) deploy_act" where
  "deploy_loop env opts plan deployedSoFar [] = returnA []"
| "deploy_loop env opts plan deployedSoFar (programId # rest) =
    bindA (deploy_one env opts plan programId) (\<lambda>r.
    bindA (delayA env plan (deployedSoFar @ [programId]) rest) (\<lambda>_.
    bindA (deploy_loop env opts plan (deployedSoFar @ [programId]) rest) (\<lambda>rs.
    returnA (r # rs))))"

section \<open>The deploy action\<close>

datatype deploy_task_result = ModeDeploy "deploy_result list" | ModePreflight preflight_result | ModeDryRun "(string \<times> string) list"

text \<open>Steps 6 to 10.\<close>

definition prepare_deployment :: "'c deploy_env \<Rightarrow> deploy_options \<Rightarrow> deploy_plan \<Rightarrow> ('c, preflight_result) deploy_act" where
  "prepare_deployment env opts plan =
    bindA (whenManager env (\<lambda>s. bindA (managerA env (\<lambda>me. recoverPendingDeployments me (dp_network plan) (dv_chain env (dy_chain s))))
        (\<lambda>_. returnA ()) s)) (\<lambda>_.
    bindA (foldA (\<lambda>entries p. bindA (preflight_entry env plan p) (\<lambda>e. returnA (entries @ [e]))) [] (dp_targets plan)) (\<lambda>entries.
    bindA (deploy_preflight env opts plan entries) (\<lambda>result.
    bindA (liftA (case dp_rename plan of
        Some rn \<Rightarrow> validateRenamedPreflightReuse result rn
      | None \<Rightarrow> validatePlainPreflightReuse result (dp_programs plan))) (\<lambda>_.
    returnA result))))"

text \<open>Steps 14 to 16.\<close>

definition perform_deployment :: "'c deploy_env \<Rightarrow> deploy_options \<Rightarrow> deploy_plan \<Rightarrow> preflight_result \<Rightarrow> string list
    \<Rightarrow> ('c, deploy_task_result) deploy_act" where
  "perform_deployment env opts plan result toDeployIds =
    bindA (whenManager env (foldA (\<lambda>_ out. reconcile_one env plan out) () (pr_programs result))) (\<lambda>_.
    bindA (deploy_loop env opts plan [] toDeployIds) (\<lambda>results.
    bindA (if dv_hasManager env \<and> (do_export opts \<or> dk_autoExport (dv_config env)) \<and> dp_shouldConfirm plan
        then bindA (managerA env (\<lambda>me. export_deployments me (Some (dp_network plan)))) (\<lambda>_. returnA ()) else returnA ()) (\<lambda>_.
    returnA (ModeDeploy results))))"

definition deployAction :: "'c deploy_env \<Rightarrow> deploy_options \<Rightarrow> ('c, deploy_task_result) deploy_act" where
  "deployAction env opts =
    bindA (liftA (plan_deployment env opts)) (\<lambda>plan.
    bindA (prepare_deployment env opts plan) (\<lambda>result.
    if do_preflight opts then returnA (ModePreflight result)
    else if \<not> pr_passed result then throwA (PreflightFailed (pr_errors result))
    else
      let toDeployIds = map po_programId (filter (\<lambda>out. po_action out = OutDeploy) (pr_programs result)) in
      if do_dryRun opts then bindA (dry_run env opts plan toDeployIds) (\<lambda>rs. returnA (ModeDryRun rs))
      else perform_deployment env opts plan result toDeployIds))"

section \<open>The manager's preflight\<close>

text \<open>
  \<^verbatim>\<open>DeploymentManager.preflight\<close>: the checks alone, for the given programs. A graph that cannot be
  built is a failed result, not an exception.
\<close>

definition unresolved_result :: "string list \<Rightarrow> unit_error \<Rightarrow> preflight_result" where
  "unresolved_result ids e =
    \<lparr> pr_warnings = [], pr_errors = [DependencyResolutionFailed e], pr_programs = map (\<lambda>p. deploy_outcome p None) ids, pr_totalFeeEstimate = None \<rparr>"

definition manager_entry :: "'c deploy_env \<Rightarrow> artifact_store \<Rightarrow> string \<Rightarrow> string \<Rightarrow> ('c, preflight_program) deploy_act" where
  "manager_entry env store network programId =
    bindA (managerA env (\<lambda>me. getDeployment me programId (Some network))) (\<lambda>existing.
    returnA \<lparr> pp_programId = programId, pp_aleoSource = ar_aleoSource store programId, pp_existingRecord = existing \<rparr>)"

definition manager_preflight :: "'c deploy_env \<Rightarrow> string list \<Rightarrow> string option \<Rightarrow> bool option \<Rightarrow> ('c, preflight_result) deploy_act" where
  "manager_preflight env programIds networkOpt skipOpt =
    (let network = (case networkOpt of Some n \<Rightarrow> n | None \<Rightarrow> dk_defaultNetwork (dv_config env));
         skipDeployed = (case skipOpt of Some b \<Rightarrow> b | None \<Rightarrow> dk_skipDeployed (dv_config env));
         ids = map normalizeProgramId programIds; store = dv_artifacts env None
     in case dv_networkType env network of
          None \<Rightarrow> throwA (NetworkNotFound network)
        | Some netType \<Rightarrow>
            bindA (getA (\<lambda>s. me_manager (dv_manager env (dy_chain s)) = None)) (\<lambda>missing.
            if missing then throwA NoNetworkManager
            else bindA (liftA (liftE BackendFailed (dv_backend env network))) (\<lambda>_.
            bindA (liftA (liftE ConnectionFailed (dv_connect env network))) (\<lambda>_.
            bindA (liftA (liftE UnitsFailed (dv_units env))) (\<lambda>units.
            case resolveDependencies (dv_read env) units of
              Inl e \<Rightarrow> returnA (unresolved_result ids e)
            | Inr g \<Rightarrow>
                bindA (foldA (\<lambda>entries p. bindA (manager_entry env store network p) (\<lambda>e. returnA (entries @ [e]))) [] ids) (\<lambda>programs.
                readChainA (\<lambda>c. runDeployPreflight
                  \<lparr> pf_connection = dv_chain env c, pf_balance = dv_balance env c, pf_estimate = dv_estimate env, pf_deriveAddress = dv_derive env,
                    pf_isDevnode = (netType = NetDevnode), pf_skipDeployed = skipDeployed, pf_deployTargets = js_dedup ids,
                    pf_localSources = fold (\<lambda>p m. case pp_aleoSource p of None \<Rightarrow> m | Some s \<Rightarrow> om_set (pp_programId p) s m) programs [],
                    pf_graph = g, pf_signerPrivateKey = None \<rparr> programs)))))))"

text \<open>To the manager's state the check is the interface's call: it reads the records of its programs.\<close>

lemma manager_entries_read:
  "snd (foldA (\<lambda>entries p. bindA (manager_entry env store n p) (\<lambda>e. returnA (entries @ [e]))) acc ids s)
    = s\<lparr>dy_manager := snd (foldA (\<lambda>records p. bindA (getDeployment (dv_manager env (dy_chain s)) p (Some n)) (\<lambda>r.
        returnA (case r of None \<Rightarrow> records | Some r \<Rightarrow> records @ [r]))) acc' ids (dy_manager s))\<rparr>"
proof (induction ids arbitrary: s acc acc')
  case Nil
  show ?case by (simp add: returnA_def)
next
  case (Cons p ids)
  obtain r t where g: "getDeployment (dv_manager env (dy_chain s)) p (Some n) (dy_manager s) = (r, t)" by fastforce
  then show ?case
  proof (cases r)
    case (Inr x)
    let ?acc' = "case x of None \<Rightarrow> acc' | Some r \<Rightarrow> acc' @ [r]"
    show ?thesis
      using Cons.IH [of "acc @ [\<lparr>pp_programId = p, pp_aleoSource = ar_aleoSource store p, pp_existingRecord = x\<rparr>]" "s\<lparr>dy_manager := t\<rparr>" ?acc'] g Inr
      by (simp add: manager_entry_def managerA_def bindA_def returnA_def liftE_def)
  qed (simp add: manager_entry_def managerA_def bindA_def liftE_def)
qed

lemma manager_preflight_call:
  fixes env :: "'c deploy_env"
  shows "\<exists>n ids. dy_manager (snd (manager_preflight env programIds networkOpt skipOpt s)) = run_call (dv_manager env (dy_chain s)) (CallPreflight n ids) (dy_manager s)"
  (is "\<exists>n ids. dy_manager ?end = ?read n ids")
proof -
  let ?n = "case networkOpt of Some n \<Rightarrow> n | None \<Rightarrow> dk_defaultNetwork (dv_config env)" and ?ids = "map normalizeProgramId programIds"
  let ?fold = "foldA (\<lambda>entries p. bindA (manager_entry env (dv_artifacts env None) ?n p) (\<lambda>e. returnA (entries @ [e]))) [] ?ids"
  have read: "snd (?fold s) = s\<lparr>dy_manager := ?read ?n ?ids\<rparr>"
    using manager_entries_read [of env "dv_artifacts env None" ?n "[]" ?ids s "[]"] by (simp add: validatedRecords_def)
  have after: "dy_manager (snd (bindA ?fold (\<lambda>programs. readChainA (f programs)) s)) = ?read ?n ?ids" for f
    using read by (cases "?fold s"; cases "fst (?fold s)") (auto simp: bindA_def readChainA_def)
  have stays: "snd (returnA x t) = t" for x and t :: "'c deploy_state" by (simp add: returnA_def)
  have steps: "bindA (liftA (Inr x)) f t = f x t" "bindA (getA g) f t = f (g t) t" for x f g and t :: "'c deploy_state"
    by (simp_all add: bindA_def liftA_def getA_def)
  have "dy_manager ?end = dy_manager s \<or> dy_manager ?end = ?read ?n ?ids"
  proof (cases "dv_networkType env ?n")
    case None
    then show ?thesis by (simp add: manager_preflight_def Let_def throwA_def)
  next
    case (Some netType)
    let ?missing = "me_manager (dv_manager env (dy_chain s)) = None"
    show ?thesis
    proof (cases "?missing \<or> isl (dv_backend env ?n) \<or> isl (dv_connect env ?n) \<or> isl (dv_units env)")
      case True
      then show ?thesis
        by (cases "dv_backend env ?n"; cases "dv_connect env ?n"; cases "dv_units env")
          (auto simp: manager_preflight_def Let_def bindA_def getA_def liftA_def throwA_def returnA_def liftE_def Some)
    next
      case False
      then obtain x y units where ok: "dv_backend env ?n = Inr x" "dv_connect env ?n = Inr y" "dv_units env = Inr units"
        by (auto simp: isl_def) (metis sum.exhaust)
      have run: "?end = snd ((case resolveDependencies (dv_read env) units of Inl e \<Rightarrow> returnA (unresolved_result ?ids e)
          | Inr g \<Rightarrow> bindA ?fold (\<lambda>programs. readChainA (preflight_of g netType programs))) s)"
        if "preflight_of = (\<lambda>g netType programs c. runDeployPreflight
                  \<lparr> pf_connection = dv_chain env c, pf_balance = dv_balance env c, pf_estimate = dv_estimate env, pf_deriveAddress = dv_derive env,
                    pf_isDevnode = (netType = NetDevnode), pf_skipDeployed = (case skipOpt of Some b \<Rightarrow> b | None \<Rightarrow> dk_skipDeployed (dv_config env)),
                    pf_deployTargets = js_dedup ?ids,
                    pf_localSources = fold (\<lambda>p m. case pp_aleoSource p of None \<Rightarrow> m | Some s \<Rightarrow> om_set (pp_programId p) s m) programs [],
                    pf_graph = g, pf_signerPrivateKey = None \<rparr> programs)" for preflight_of
        unfolding that using False by (auto simp: manager_preflight_def Let_def steps liftE_def Some ok)
      show ?thesis
        unfolding run [OF refl] by (cases "resolveDependencies (dv_read env) units") (simp_all add: after stays)
    qed
  qed
  moreover have "?read ?n [] = dy_manager s" by (simp add: validatedRecords_def returnA_def)
  ultimately show ?thesis by metis
qed

section \<open>What reads leave alone\<close>

definition same_disk :: "manager_state \<Rightarrow> manager_state \<Rightarrow> bool" where
  "same_disk s t \<longleftrightarrow> ds_disk t = ds_disk s \<and> ds_trace t = ds_trace s"

lemma same_disk_relation: "step_relation (\<lambda>_. True) same_disk"
  by (simp add: step_relation_def same_disk_def)

abbreviation reads_only :: "'a manager_act \<Rightarrow> bool" where
  "reads_only \<equiv> relA (\<lambda>_. True) same_disk"

lemmas reads_only_rules = relA_bind [OF same_disk_relation] relA_simple [OF same_disk_relation] relA_fold [OF same_disk_relation]

lemma reads_only_simple [simp, intro]:
  "reads_only (networkCache n)" "reads_only (cacheDelete n p)" "reads_only (cacheSet n p r)" "reads_only (markValidated n)"
  by (simp_all add: relA_def same_disk_def)

lemma reads_only_validate [simp, intro]: "reads_only (validateHttpMetadata env n)"
proof -
  have "same_disk s (snd (validateHttpMetadata env n s))" for s
    using validate_disk [of env n s "fst (validateHttpMetadata env n s)"] by (auto simp: same_disk_def prod_eq_iff)
  then show ?thesis by (simp add: relA_def)
qed

lemma reads_only_existing [simp, intro]: "reads_only (existingRecord env n p)"
proof -
  have "snd (existingRecord env n p s) = s" for s using existingRecord_state [of env n p s] by (metis prod.collapse)
  then show ?thesis by (simp add: relA_def same_disk_def)
qed

lemma reads_only_getDeployment [simp, intro]: "reads_only (getDeployment env p network)"
  unfolding getDeployment_def getDevnodeDeployment_def getHttpDeployment_def Let_def
  by (auto intro!: reads_only_rules split: option.splits on_chain.splits)

lemma reads_only_validated [simp, intro]: "reads_only (validatedRecords env n ids)"
  unfolding validatedRecords_def by (auto intro!: reads_only_rules)

lemma reads_only_getAll [simp, intro]: "reads_only (getAllDeployments env network)"
  unfolding getAllDeployments_def Let_def by (auto intro!: reads_only_rules)

lemma reads_only_getCached [simp, intro]: "reads_only (getCached env p network)"
  unfolding getCached_def by (auto intro!: reads_only_rules)

lemma reads_onlyD: "reads_only m \<Longrightarrow> ds_disk (snd (m s)) = ds_disk s"
  by (simp add: relA_def same_disk_def)

section \<open>No deployment is lost\<close>

text \<open>The files know of a program's deployment: by a pending marker or by its complete record.\<close>

definition tracked :: "string \<Rightarrow> string \<Rightarrow> disk \<Rightarrow> bool" where
  "tracked n p d \<longleftrightarrow> readPendingMarker n p d \<noteq> None
    \<or> (case readDeploymentRecord n p d of Inr (Some r) \<Rightarrow> dr_status r = StComplete | _ \<Rightarrow> False)"

definition keeps_tracked :: "string \<Rightarrow> disk \<Rightarrow> disk \<Rightarrow> bool" where
  "keeps_tracked n d d' \<longleftrightarrow> (\<forall>p. aleo_id p \<longrightarrow> tracked n p d \<longrightarrow> tracked n p d')"

lemma keeps_tracked_refl [simp]: "keeps_tracked n d d"
  by (simp add: keeps_tracked_def)

lemma keeps_tracked_trans: "keeps_tracked n a b \<Longrightarrow> keeps_tracked n b c \<Longrightarrow> keeps_tracked n a c"
  by (simp add: keeps_tracked_def)

lemma tracked_cong:
  "om_get d (pendingPath n p) = om_get d' (pendingPath n p) \<Longrightarrow> om_get d (recordPath n p) = om_get d' (recordPath n p)
    \<Longrightarrow> tracked n p d = tracked n p d'"
  by (simp add: tracked_def readPendingMarker_def readDeploymentRecord_def)

lemma atomic_other: "durable_path q \<Longrightarrow> q \<noteq> p \<Longrightarrow> om_get (run_ops (atomicWrite p c) d) q = om_get d q"
  using tmp_not_durable by (auto simp: atomicWrite_get)

lemma setPending_run:
  assumes "\<not> isEphemeral env (pd_network m)"
  shows "setPending env m s = (Inr (), s\<lparr>ds_disk := run_ops (writePendingMarker (pd_network m) m) (ds_disk s),
    ds_trace := ds_trace s @ writePendingMarker (pd_network m) m\<rparr>)"
  using assms by (simp add: setPending_def)

lemma pending_written:
  "readPendingMarker (pd_network m) (pd_programId m) (run_ops (writePendingMarker (pd_network m) m) d) = Some m"
  "keeps_tracked (pd_network m) d (run_ops (writePendingMarker (pd_network m) m) d)"
proof -
  show w: "readPendingMarker (pd_network m) (pd_programId m) (run_ops (writePendingMarker (pd_network m) m) d) = Some m"
    by (simp add: readPendingMarker_def writePendingMarker_def atomicWrite_get)
  have "tracked (pd_network m) p (run_ops (writePendingMarker (pd_network m) m) d)" if "tracked (pd_network m) p d" for p
  proof (cases "p = pd_programId m")
    case True
    then show ?thesis using w by (simp add: tracked_def)
  next
    case False
    then have "tracked (pd_network m) p d = tracked (pd_network m) p (run_ops (writePendingMarker (pd_network m) m) d)"
      by (intro tracked_cong) (simp_all add: writePendingMarker_def atomic_other durable_pending durable_record)
    then show ?thesis using that by simp
  qed
  then show "keeps_tracked (pd_network m) d (run_ops (writePendingMarker (pd_network m) m) d)" by (simp add: keeps_tracked_def)
qed

text \<open>Recording another program's complete record, or this one's, keeps what is tracked.\<close>

lemma docs_keep_tracked:
  assumes "aleo_id (dr_programId r)" and "dr_status r = StComplete" and "aleo_id p"
    and "tracked (dr_network r) p d"
  shows "tracked (dr_network r) p (run_ops (writes (record_docs env d r a opts)) d)"
proof (cases "p = dr_programId r")
  case True
  then show ?thesis using recorded_after_docs [OF assms(1)] assms(2) by (auto simp: recorded_def tracked_def)
next
  case False
  have "map_of (rev (record_docs env d r a opts)) (recordPath (dr_network r) p) = None"
    using False assms(3) by (auto simp: map_of_eq_None_iff record_docs_def metadata_docs_def aleo_id_paths split: option.splits if_splits)
  then have "tracked (dr_network r) p d = tracked (dr_network r) p (run_ops (writes (record_docs env d r a opts)) d)"
    by (intro tracked_cong) (simp_all add: record_docs_get durable_record record_docs_pending_get)
  then show ?thesis using assms(4) by simp
qed

lemma record_keeps_tracked:
  assumes "record_deployment env r action opts s = (res, s')" and "aleo_id (dr_programId r)" and "dr_status r = StComplete"
    and "\<not> isEphemeral env (dr_network r)"
  shows "keeps_tracked (dr_network r) (ds_disk s) (ds_disk s')"
proof -
  let ?d = "run_ops (writes (record_docs env (ds_disk s) r action opts)) (ds_disk s)"
  have docs: "keeps_tracked (dr_network r) (ds_disk s) ?d"
    using docs_keep_tracked [OF assms(2,3)] by (simp add: keeps_tracked_def)
  have "tracked (dr_network r) p (run_ops (deletePendingMarker (dr_network r) (dr_programId r) ?d) ?d)"
    if "tracked (dr_network r) p ?d" for p
  proof (cases "p = dr_programId r")
    case True
    then show ?thesis using recorded_after_delete [OF assms(2)] assms(3) by (auto simp: recorded_def tracked_def)
  next
    case False
    then have "tracked (dr_network r) p ?d = tracked (dr_network r) p (run_ops (deletePendingMarker (dr_network r) (dr_programId r) ?d) ?d)"
      by (intro tracked_cong) (simp_all add: deletePending_get)
    then show ?thesis using that by simp
  qed
  then have "keeps_tracked (dr_network r) ?d (run_ops (deletePendingMarker (dr_network r) (dr_programId r) ?d) ?d)"
    by (simp add: keeps_tracked_def)
  then show ?thesis
    using record_deployment_disk [OF assms(1,4)] docs keeps_tracked_trans by (auto simp: Let_def)
qed

lemma export_keeps_tracked:
  assumes "n \<noteq> ''_exports''"
  shows "keeps_tracked n (ds_disk s) (ds_disk (snd (export_deployments env network s)))"
proof -
  have w: "keeps_tracked n d (run_ops (writeExportBundle m b) d)" for d m b
  proof -
    have "tracked n p d = tracked n p (run_ops (writeExportBundle m b) d)" for p
      using assms record_not_export [of n p m]
      by (intro tracked_cong) (simp_all add: writeExportBundle_def atomic_other durable_pending durable_record)
    then show ?thesis by (simp add: keeps_tracked_def)
  qed
  obtain r b where g: "getAllDeployments env (Some (resolveNetwork env network)) s = (r, b)" by fastforce
  then have "ds_disk b = ds_disk s"
    using reads_onlyD [OF reads_only_getAll, of env "Some (resolveNetwork env network)" s] by simp
  then show ?thesis by (cases r) (simp_all add: export_deployments_def Let_def bindA_def g w)
qed

text \<open>
  Along a run the log only grows and tracked programs stay so; what was built or sent was tracked
  in the files of that moment and is tracked in the end.
\<close>

fun sent_program :: "deploy_event \<Rightarrow> (string \<times> disk) option" where
  "sent_program (EvBuild op p d) = Some (p, d)"
| "sent_program (EvBroadcast p d) = Some (p, d)"
| "sent_program _ = None"

definition sent_tracked :: "string \<Rightarrow> disk \<Rightarrow> deploy_event \<Rightarrow> bool" where
  "sent_tracked n final ev \<longleftrightarrow> (case sent_program ev of None \<Rightarrow> True | Some (p, d) \<Rightarrow> aleo_id p \<and> tracked n p d \<and> tracked n p final)"

definition run_tracks :: "string \<Rightarrow> 'c deploy_state \<Rightarrow> 'c deploy_state \<Rightarrow> bool" where
  "run_tracks n s t \<longleftrightarrow> keeps_tracked n (ds_disk (dy_manager s)) (ds_disk (dy_manager t))
    \<and> (\<exists>evs. dy_log t = dy_log s @ evs \<and> list_all (sent_tracked n (ds_disk (dy_manager t))) evs)"

lemma sent_tracked_keeps:
  "keeps_tracked n d d' \<Longrightarrow> list_all (sent_tracked n d) evs \<Longrightarrow> list_all (sent_tracked n d') evs"
  by (auto simp: list_all_iff sent_tracked_def keeps_tracked_def split: option.splits)

lemma run_tracks_trans:
  assumes "run_tracks n s t" and "run_tracks n t u"
  shows "run_tracks n s u"
proof -
  obtain e1 where 1: "dy_log t = dy_log s @ e1" "list_all (sent_tracked n (ds_disk (dy_manager t))) e1"
    using assms(1) by (auto simp: run_tracks_def)
  obtain e2 where 2: "dy_log u = dy_log t @ e2" "list_all (sent_tracked n (ds_disk (dy_manager u))) e2"
    using assms(2) by (auto simp: run_tracks_def)
  have k: "keeps_tracked n (ds_disk (dy_manager t)) (ds_disk (dy_manager u))" using assms(2) by (simp add: run_tracks_def)
  show ?thesis
    using 1(1) 2 sent_tracked_keeps [OF k 1(2)] assms keeps_tracked_trans
    unfolding run_tracks_def by (intro conjI exI [of _ "e1 @ e2"]) auto
qed

definition tracking :: "string \<Rightarrow> string \<Rightarrow> 'c deploy_state \<Rightarrow> bool" where
  "tracking n p s \<longleftrightarrow> tracked n p (ds_disk (dy_manager s))"

lemma run_tracks_refl: "run_tracks n s s"
  by (simp add: run_tracks_def)

lemma run_tracks_relation:
  assumes "aleo_id p"
  shows "step_relation (tracking n p) (run_tracks n)"
proof -
  have "tracking n p t" if "tracking n p s" "run_tracks n s t" for s t :: "'a deploy_state"
    using that assms by (simp add: run_tracks_def tracking_def keeps_tracked_def)
  then show ?thesis unfolding step_relation_def using run_tracks_refl run_tracks_trans by blast
qed

lemma run_tracks_start: "step_relation (\<lambda>_. True) (run_tracks n)"
  unfolding step_relation_def using run_tracks_refl run_tracks_trans by blast

lemma chainA_tracks: "relA P (run_tracks n) (chainA f op)"
  by (auto simp: relA_def chainA_def run_tracks_def split: prod.splits)

lemma log_sent:
  assumes "\<And>d. sent_program (ev d) = Some (p, d)" and "aleo_id p"
  shows "relA (tracking n p) (run_tracks n) (logA ev)"
proof -
  have "run_tracks n s (snd (logA ev s))" if "tracking n p s" for s :: "'a deploy_state"
    using assms that by (auto simp: logA_def run_tracks_def tracking_def sent_tracked_def)
  then show ?thesis by (simp add: relA_def)
qed

lemma log_other:
  assumes "\<And>d. sent_program (ev d) = None"
  shows "relA P (run_tracks n) (logA ev)"
proof -
  have "run_tracks n s (snd (logA ev s))" for s :: "'a deploy_state"
    using assms by (auto simp: logA_def run_tracks_def sent_tracked_def)
  then show ?thesis by (simp add: relA_def)
qed

lemma managerA_tracks:
  assumes "\<And>c ms. keeps_tracked n (ds_disk ms) (ds_disk (snd (m (dv_manager env c) ms)))"
  shows "relA P (run_tracks n) (managerA env m)"
proof -
  have "run_tracks n s (snd (managerA env m s))" for s
    using assms [of "dy_manager s" "dy_chain s"] by (auto simp: managerA_def run_tracks_def split: prod.splits)
  then show ?thesis by (simp add: relA_def)
qed

lemma record_complete_tracks:
  assumes "aleo_id p" and "\<And>c. \<not> isEphemeral (dv_manager env c) (dp_network plan)"
  shows "relA P (run_tracks (dp_network plan)) (managerA env (\<lambda>me. record_deployment me (deploy_record env plan p address txId h) action opts))"
proof (rule managerA_tracks)
  fix c and ms :: manager_state
  let ?r = "deploy_record env plan p address txId h"
  obtain res ms' where "record_deployment (dv_manager env c) ?r action opts ms = (res, ms')" by fastforce
  then show "keeps_tracked (dp_network plan) (ds_disk ms) (ds_disk (snd (record_deployment (dv_manager env c) ?r action opts ms)))"
    using record_keeps_tracked [of "dv_manager env c" ?r action opts ms res ms'] assms by (simp add: deploy_record_def)
qed

text \<open>One program of the loop.\<close>

lemma deploy_one_tracks:
  assumes p: "aleo_id p" and mgr: "dv_hasManager env" and kept: "\<And>c. \<not> isEphemeral (dv_manager env c) (dp_network plan)"
  shows "relA (\<lambda>_. True) (run_tracks (dp_network plan)) (deploy_one env opts plan p)"
proof -
  let ?n = "dp_network plan"
  note rel = run_tracks_relation [OF p, of ?n]
  have set1: "run_tracks ?n s (snd (managerA env (\<lambda>me. setPending me (deploy_pending env plan p address)) s))
      \<and> (managerA env (\<lambda>me. setPending me (deploy_pending env plan p address)) s = (Inr x, t) \<longrightarrow> tracking ?n p t)" for s x t address
    using pending_written [of "deploy_pending env plan p address"] kept [of "dy_chain s"]
    by (auto simp: managerA_def setPending_run deploy_pending_def run_tracks_def tracking_def tracked_def liftE_def)
  have sub: "relA (tracking ?n p) (run_tracks ?n) (submitA env p built)" for built
    by (cases built) (auto simp: submitA_def intro!: relA_bind [OF rel] relA_simple [OF rel] chainA_tracks log_sent p)
  have conf: "relA (tracking ?n p) (run_tracks ?n) (if \<not> dp_shouldConfirm plan then returnA 0
      else bindA (chainA ConfirmFailed (dv_confirm env txId)) (\<lambda>confirmed. case confirmed of
          Rejected \<Rightarrow> throwA (RejectedOnChain txId) | Accepted height \<Rightarrow> returnA height))" for txId
    by (auto intro!: relA_bind [OF rel] relA_simple [OF rel] chainA_tracks split: confirmation.split)
  have bld: "relA (tracking ?n p) (run_tracks ?n) (buildA env LeoDeploy req)" if "br_programId req = p" for req
    unfolding buildA_def that by (intro relA_bind [OF rel] chainA_tracks log_sent p) simp
  have req: "br_programId req = p" if "buildDeployRequest opts env plan p src = Inr req" for req src
    using that by (auto simp: buildDeployRequest_def Let_def)
  have rest: "relA (tracking ?n p) (run_tracks ?n) (bindA (liftA (buildDeployRequest opts env plan p src)) f)"
    if "\<And>req. br_programId req = p \<Longrightarrow> relA (tracking ?n p) (run_tracks ?n) (f req)" for src and f :: "backend_request \<Rightarrow> ('a, 'b) deploy_act"
  proof (cases "buildDeployRequest opts env plan p src")
    case (Inl e)
    then show ?thesis using relA_simple(2) [OF rel] by (simp add: relA_def bindA_def)
  next
    case (Inr r)
    then show ?thesis using that [OF req [OF Inr]] by (simp add: relA_def bindA_def)
  qed
  show ?thesis
  proof (cases "nonempty_source (dp_store plan) p")
    case None
    then show ?thesis by (simp add: deploy_one_def relA_simple [OF run_tracks_start])
  next
    case (Some src)
    show ?thesis
    proof (cases "ar_abi (dp_store plan) p")
      case None
      then show ?thesis using Some by (simp add: deploy_one_def relA_simple [OF run_tracks_start])
    next
      case abi: (Some abi)
      show ?thesis
        unfolding deploy_one_def Let_def whenManager_def
        using mgr Some abi
        by simp (rule relA_establish [OF rel], use set1 in blast, use set1 in blast,
          intro rest relA_bind [OF rel] bld sub conf record_complete_tracks p kept relA_simple [OF rel] log_other; simp)
    qed
  qed
qed

lemma delayA_tracks: "relA P (run_tracks n) (delayA env plan ds rest)"
proof (cases rest)
  case Nil
  then show ?thesis by (simp add: delayA_def relA_def run_tracks_refl)
next
  case (Cons x xs)
  then show ?thesis by (simp add: delayA_def log_other) (simp add: relA_def run_tracks_refl)
qed

lemma deploy_loop_tracks:
  assumes "list_all aleo_id ids" and "dv_hasManager env" and "\<And>c. \<not> isEphemeral (dv_manager env c) (dp_network plan)"
  shows "relA (\<lambda>_. True) (run_tracks (dp_network plan)) (deploy_loop env opts plan ds ids)"
  using assms(1)
proof (induction ids arbitrary: ds)
  case Nil
  then show ?case by (simp add: relA_def run_tracks_refl)
next
  case (Cons p ids)
  then show ?case
    using assms(2,3)
    by (auto intro!: relA_bind [OF run_tracks_start] relA_simple [OF run_tracks_start] deploy_one_tracks delayA_tracks)
qed

text \<open>The steps before the loop write nothing to the log and send nothing.\<close>

definition same_log :: "'c deploy_state \<Rightarrow> 'c deploy_state \<Rightarrow> bool" where
  "same_log s t \<longleftrightarrow> dy_log t = dy_log s \<and> dy_chain t = dy_chain s"

lemma same_log_relation: "step_relation (\<lambda>_. True) same_log"
  by (simp add: step_relation_def same_log_def)

lemmas same_log_rules = relA_bind [OF same_log_relation] relA_simple [OF same_log_relation] relA_fold [OF same_log_relation]

lemma same_log_manager [simp, intro]: "relA P same_log (managerA env m)" "relA P same_log (readChainA f)"
  by (auto simp: relA_def same_log_def managerA_def readChainA_def split: prod.splits)

lemma same_log_state: "(\<And>s. relA (\<lambda>_. True) same_log (f s)) \<Longrightarrow> relA (\<lambda>_. True) same_log (\<lambda>s. f s s)"
  by (simp add: relA_def)

lemma same_log_entry: "relA (\<lambda>_. True) same_log (preflight_entry env plan p)"
proof -
  have "relA (\<lambda>_. True) same_log (\<lambda>s. managerA env m s)" for m :: "manager_env \<Rightarrow> 'b manager_act" by auto
  then show ?thesis unfolding preflight_entry_def by (auto intro!: same_log_rules)
qed

lemma prepare_log: "relA (\<lambda>_. True) same_log (prepare_deployment env opts plan)"
proof -
  have rec: "relA (\<lambda>_. True) same_log (\<lambda>s. bindA (managerA env (\<lambda>me. recoverPendingDeployments me (dp_network plan) (dv_chain env (dy_chain s))))
        (\<lambda>_. returnA ()) s)"
    by (rule same_log_state [where f = "\<lambda>s. bindA (managerA env (\<lambda>me. recoverPendingDeployments me (dp_network plan) (dv_chain env (dy_chain s)))) (\<lambda>_. returnA ())"])
      (intro same_log_rules same_log_manager)
  show ?thesis
    unfolding prepare_deployment_def whenManager_def deploy_preflight_def
    by (cases "dv_hasManager env"; simp only: if_True if_False; intro same_log_rules rec same_log_entry same_log_manager)
qed

lemma reconcile_log: "relA (\<lambda>_. True) same_log (reconcile_one env plan out)"
  unfolding reconcile_one_def by (auto intro!: same_log_rules split: on_chain.split)

lemma reconcile_all_log: "relA (\<lambda>_. True) same_log (whenManager env (foldA (\<lambda>_ out. reconcile_one env plan out) () outs))"
  unfolding whenManager_def by (auto intro!: same_log_rules reconcile_log)

text \<open>Everything a deploy run sent, with the state it ends in.\<close>

lemma perform_tracks:
  assumes "list_all aleo_id ids" and "dv_hasManager env" and "\<And>c. \<not> isEphemeral (dv_manager env c) (dp_network plan)"
    and "dp_network plan \<noteq> ''_exports''"
    and run: "perform_deployment env opts plan result ids s = (res, s')"
  shows "\<exists>evs. dy_log s' = dy_log s @ evs \<and> list_all (sent_tracked (dp_network plan) (ds_disk (dy_manager s'))) evs"
proof -
  let ?n = "dp_network plan"
  let ?fin = "\<lambda>results. bindA (if dv_hasManager env \<and> (do_export opts \<or> dk_autoExport (dv_config env)) \<and> dp_shouldConfirm plan
        then bindA (managerA env (\<lambda>me. export_deployments me (Some ?n))) (\<lambda>_. returnA ()) else returnA ()) (\<lambda>_.
    returnA (ModeDeploy results))"
  have fin: "relA (\<lambda>_. True) (run_tracks ?n) (?fin results)" for results
    using export_keeps_tracked [OF assms(4)]
    by (auto intro!: relA_bind [OF run_tracks_start] relA_simple [OF run_tracks_start] managerA_tracks)
  have body: "relA (\<lambda>_. True) (run_tracks ?n) (bindA (deploy_loop env opts plan [] ids) ?fin)"
    by (intro relA_bind [OF run_tracks_start] deploy_loop_tracks assms(1,2,3) fin)
  obtain r t where rec: "whenManager env (foldA (\<lambda>_ out. reconcile_one env plan out) () (pr_programs result)) s = (r, t)" by fastforce
  then have log: "dy_log t = dy_log s" using reconcile_all_log [of env plan "pr_programs result"] by (auto simp: relA_def same_log_def dest!: spec [of _ s])
  show ?thesis
  proof (cases r)
    case (Inl e)
    then have "s' = t" using run rec by (simp add: perform_deployment_def bindA_def)
    then show ?thesis using log by (intro exI [of _ "[]"]) simp
  next
    case (Inr u)
    then have "bindA (whenManager env (foldA (\<lambda>_ out. reconcile_one env plan out) () (pr_programs result))) g s = g () t" for g :: "unit \<Rightarrow> (_, deploy_task_result) deploy_act"
      using rec by (simp add: bindA_def)
    then have "bindA (deploy_loop env opts plan [] ids) ?fin t = (res, s')"
      using run by (simp only: perform_deployment_def)
    then have "run_tracks ?n t s'" using body by (auto simp: relA_def dest!: spec [of _ t])
    then show ?thesis using log by (auto simp: run_tracks_def)
  qed
qed

section \<open>The deploy action\<close>

text \<open>The outcomes are those of the targets, in their order.\<close>

lemma entry_program:
  "preflight_entry env plan p s = (Inr e, t) \<Longrightarrow> pp_programId e = p"
  unfolding preflight_entry_def by (auto simp: bindA_def returnA_def split: prod.splits sum.splits)

lemma entries_programs:
  "foldA (\<lambda>entries p. bindA (preflight_entry env plan p) (\<lambda>e. returnA (entries @ [e]))) acc ps s = (Inr es, t)
    \<Longrightarrow> map pp_programId es = map pp_programId acc @ ps"
proof (induction ps arbitrary: acc s)
  case Nil
  then show ?case by (simp add: returnA_def)
next
  case (Cons p ps)
  obtain acc' u where step: "bindA (preflight_entry env plan p) (\<lambda>e. returnA (acc @ [e])) s = (Inr acc', u)"
    and rest: "foldA (\<lambda>entries p. bindA (preflight_entry env plan p) (\<lambda>e. returnA (entries @ [e]))) acc' ps u = (Inr es, t)"
    using Cons.prems unfolding foldA.simps bindA_Inr [of "bindA _ _"] by blast
  obtain x where "preflight_entry env plan p s = (Inr x, u)" "acc' = acc @ [x]"
    using step by (auto simp: bindA_Inr)
  then show ?case using Cons.IH [OF rest] entry_program by fastforce
qed

lemma outcome_ids:
  "list_all2 (outcome_ok env) progs outs \<Longrightarrow> map po_programId outs = map pp_programId progs"
  by (induction rule: list_all2_induct) (simp_all add: outcome_ok_def)

lemma prepare_targets:
  assumes "prepare_deployment env opts plan s = (Inr r, t)"
  shows "map po_programId (pr_programs r) = dp_targets plan"
proof -
  obtain u es v where e: "foldA (\<lambda>entries p. bindA (preflight_entry env plan p) (\<lambda>e. returnA (entries @ [e]))) [] (dp_targets plan) u = (Inr es, v)"
    and p: "fst (deploy_preflight env opts plan es v) = Inr r"
    using assms unfolding prepare_deployment_def bindA_def
    by (auto simp: returnA_def split: prod.splits sum.splits)
  show ?thesis
    using p entries_programs [OF e]
    by (auto simp: deploy_preflight_def readChainA_def liftE_def dest!: preflight_outcomes outcome_ids split: sum.splits)
qed

lemma to_deploy_aleo:
  assumes "prepare_deployment env opts plan s = (Inr r, t)" and "list_all aleo_id (dp_targets plan)"
  shows "list_all aleo_id (map po_programId (filter P (pr_programs r)))"
proof -
  have "list_all aleo_id (map po_programId (pr_programs r))" using prepare_targets [OF assms(1)] assms(2) by simp
  then show ?thesis by (auto simp: list_all_iff)
qed

text \<open>A run that is not a dry run, from its plan.\<close>

lemma deploy_run:
  assumes "plan_deployment env opts = Inr plan"
  shows "deployAction env opts s = (case prepare_deployment env opts plan s of
      (Inl e, t) \<Rightarrow> (Inl e, t)
    | (Inr result, t) \<Rightarrow>
        let toDeployIds = map po_programId (filter (\<lambda>out. po_action out = OutDeploy) (pr_programs result)) in
        if do_preflight opts then (Inr (ModePreflight result), t)
        else if \<not> pr_passed result then (Inl (PreflightFailed (pr_errors result)), t)
        else if do_dryRun opts then bindA (dry_run env opts plan toDeployIds) (\<lambda>rs. returnA (ModeDryRun rs)) t
        else perform_deployment env opts plan result toDeployIds t)"
  unfolding deployAction_def assms by (simp add: bindA_def [of "prepare_deployment env opts plan"] Let_def split: prod.splits sum.splits)

text \<open>
  C1: In a deploy run that is not a dry run, every program whose transaction was built or
  broadcast has its pending marker or complete record in the deployment files at that moment, and
  has it when the run ends, however it ends: a crash or a failure never loses a deployment that
  may be on the chain.
\<close>

theorem deploy_loses_nothing:
  assumes "plan_deployment env opts = Inr plan" and "\<not> do_dryRun opts"
    and "dv_hasManager env" and "\<And>c. \<not> isEphemeral (dv_manager env c) (dp_network plan)" and "dp_network plan \<noteq> ''_exports''"
    and "list_all aleo_id (dp_targets plan)"
    and run: "deployAction env opts s = (res, s')"
  shows "\<exists>evs. dy_log s' = dy_log s @ evs \<and> list_all (sent_tracked (dp_network plan) (ds_disk (dy_manager s'))) evs"
proof -
  obtain r t where p: "prepare_deployment env opts plan s = (r, t)" by fastforce
  then have log: "dy_log t = dy_log s" using prepare_log [of env opts plan] by (auto simp: relA_def same_log_def dest!: spec [of _ s])
  show ?thesis
  proof (cases "\<exists>result ids. r = Inr result \<and> list_all aleo_id ids \<and> perform_deployment env opts plan result ids t = (res, s')")
    case True
    then obtain result ids where "list_all aleo_id ids" "perform_deployment env opts plan result ids t = (res, s')" by blast
    from perform_tracks [OF this(1) assms(3-5) this(2)] show ?thesis using log by simp
  next
    case False
    have "s' = t"
    proof (cases r)
      case (Inl e)
      then show ?thesis using run p by (simp add: deploy_run [OF assms(1)])
    next
      case (Inr result)
      have ids: "list_all aleo_id (map po_programId (filter (\<lambda>out. po_action out = OutDeploy) (pr_programs result)))"
        using to_deploy_aleo [OF p [unfolded Inr] assms(6)] .
      show ?thesis
        using run p Inr assms(2) False ids by (auto simp: deploy_run [OF assms(1)] Let_def split: if_splits)
    qed
    then show ?thesis using log by (intro exI [of _ "[]"]) simp
  qed
qed

text \<open>One program on an HTTP network; the chain's state is the list of deployed programs.\<close>

definition ex_deploy_config :: deploy_config where
  "ex_deploy_config = \<lparr> dk_defaultNetwork = ''t'', dk_confirmTransactions = True, dk_confirmationTimeout = 1000, dk_defaultPriorityFee = 0,
    dk_privateFee = False, dk_skipDeployed = True, dk_autoExport = False, dk_interDeploymentDelay = None, dk_leoVersion = ''4.3.0'',
    dk_buildTests = False \<rparr>"

definition ex_chain :: "string list \<Rightarrow> chain_connection" where
  "ex_chain c = \<lparr> cn_endpoint = ''http://n'', cn_source = (\<lambda>p. Inr (if p \<in> set c then Some ''program'' else None)), cn_edition = (\<lambda>p. Inr (jint 0)) \<rparr>"

definition ex_artifacts :: artifact_store where
  "ex_artifacts = \<lparr> ar_programIds = [''a.aleo'', ''b.aleo''], ar_aleoSource = (\<lambda>p. Some ''program''),
    ar_abi = (\<lambda>p. Some (JObj [(''program'', JStr p), (''structs'', JArr []), (''records'', JArr []), (''mappings'', JArr []), (''functions'', JArr [])])) \<rparr>"

definition ex_deploy_env :: "string list deploy_env" where
  "ex_deploy_env = \<lparr> dv_config = ex_deploy_config, dv_networkType = (\<lambda>n. if n = ''t'' then Some NetHttp else None), dv_accounts = (\<lambda>_. []),
    dv_backend = (\<lambda>_. Inr leo_capabilities), dv_compile = (\<lambda>_. Inr ()), dv_artifacts = (\<lambda>_. ex_artifacts), dv_units = Inr [ex_units ! 2],
    dv_read = ex_read, dv_provenance = (\<lambda>_. Inr None), dv_hasManager = True,
    dv_manager = (\<lambda>c. ex_env\<lparr>me_manager := Some \<lparr> na_getConnection = None, na_connect = (\<lambda>_. Inr (ex_chain c)) \<rparr>\<rparr>),
    dv_connect = (\<lambda>_. Inr \<lparr> lv_endpoint = ''http://n'', lv_networkId = ''testnet'', lv_type = NetHttp, lv_privateKey = None, lv_apiKey = None \<rparr>),
    dv_named = [], dv_chain = ex_chain, dv_balance = (\<lambda>_ _. Inr 10), dv_estimate = (\<lambda>_ _ _ _. (Some 2, None)), dv_derive = (\<lambda>_. None),
    dv_build = (\<lambda>op req c. (Inr (Built (br_programId req)), c)), dv_broadcast = (\<lambda>tx c. (Inr tx, tx # c)),
    dv_confirm = (\<lambda>tx c. (Inr (Accepted 5), c)),
    dv_poll = (\<lambda>c. \<lparr> pl_edition = (\<lambda>_. Inr (jint 1)), pl_latency = (\<lambda>_. 0), pl_drift = (\<lambda>_. 0) \<rparr>),
    dv_hook = (\<lambda>_ _. Inr ()), dv_now = ''now'' \<rparr>"

definition ex_options :: deploy_options where
  "ex_options = \<lparr> do_program = None, do_priorityFee = None, do_skipConfirm = False, do_network = None, do_noCompile = False, do_preflight = False,
    do_dryRun = False, do_noSkipDeployed = False, do_export = False, do_prove = False, do_rename = None \<rparr>"

definition ex_start :: "string list deploy_state" where
  "ex_start = \<lparr> dy_manager = fresh_session [], dy_chain = [], dy_log = [] \<rparr>"

definition ex_deploy :: "(deploy_error + deploy_task_result) \<times> string list deploy_state" where
  "ex_deploy = deployAction ex_deploy_env ex_options ex_start"

definition ex_plan :: deploy_plan where
  "ex_plan = projr (plan_deployment ex_deploy_env ex_options)"

lemma ex_plan_made: "plan_deployment ex_deploy_env ex_options = Inr ex_plan"
proof -
  have "\<not> isl (plan_deployment ex_deploy_env ex_options)" by code_simp
  then show ?thesis by (simp add: ex_plan_def)
qed

lemma ex_plan_facts: "dp_network ex_plan = ''t''" "list_all aleo_id (dp_targets ex_plan)" by code_simp+

lemma ex_kept: "\<not> isEphemeral (dv_manager ex_deploy_env c) ''t''"
  by (simp add: ex_deploy_env_def ex_env_def isEphemeral_def ex_network_def)

theorem deploy_loses_nothing_witness:
  "map (map_option fst \<circ> sent_program) (dy_log (snd ex_deploy)) = [Some ''b.aleo'', Some ''b.aleo'', None]
   \<and> list_all (sent_tracked ''t'' (ds_disk (dy_manager (snd ex_deploy)))) (dy_log (snd ex_deploy))"
proof
  show "map (map_option fst \<circ> sent_program) (dy_log (snd ex_deploy)) = [Some ''b.aleo'', Some ''b.aleo'', None]" by code_simp
  have run: "deployAction ex_deploy_env ex_options ex_start = (fst ex_deploy, snd ex_deploy)" by (simp add: ex_deploy_def)
  have "\<not> do_dryRun ex_options" "dv_hasManager ex_deploy_env" "dy_log ex_start = []"
    by (simp_all add: ex_options_def ex_deploy_env_def ex_start_def)
  then show "list_all (sent_tracked ''t'' (ds_disk (dy_manager (snd ex_deploy)))) (dy_log (snd ex_deploy))"
    using deploy_loses_nothing [OF ex_plan_made _ _ _ _ ex_plan_facts(2) run] ex_kept by (simp add: ex_plan_facts)
qed

text \<open>
  The imports of a program include its local libraries, which are no deployment targets, have no
  compiled source of their own and are not on the chain: on an HTTP network the pre-flight of a
  program that uses one fails.
\<close>

lemma http_preflight_rejects_library:
  "fst (deployAction (ex_deploy_env\<lparr>dv_units := Inr ex_units\<rparr>) ex_options (ex_start\<lparr>dy_chain := [''c.aleo'']\<rparr>))
    = Inl (PreflightFailed [MissingImport ''a.aleo'' ''l''])"
  by code_simp

section \<open>Runs that deploy nothing\<close>

text \<open>With nothing to recover, the steps before the decision leave the files and the chain alone.\<close>

definition settled :: "string \<Rightarrow> 'c deploy_state \<Rightarrow> bool" where
  "settled n s \<longleftrightarrow> listPendingMarkers n (ds_disk (dy_manager s)) = []"

definition untouched :: "'c deploy_state \<Rightarrow> 'c deploy_state \<Rightarrow> bool" where
  "untouched s t \<longleftrightarrow> ds_disk (dy_manager t) = ds_disk (dy_manager s) \<and> dy_chain t = dy_chain s"

lemma untouched_relation: "step_relation (settled n) untouched"
  by (auto simp: step_relation_def untouched_def settled_def)

lemmas untouched_rules = relA_bind [OF untouched_relation] relA_simple [OF untouched_relation] relA_fold [OF untouched_relation]

lemma untouched_reads:
  fixes env :: "'c deploy_env"
  assumes "\<And>me. reads_only (m me)"
  shows "relA P untouched (managerA env m)"
  unfolding relA_def
proof (intro allI impI)
  fix s :: "'c deploy_state"
  have "ds_disk (snd (m (dv_manager env (dy_chain s)) (dy_manager s))) = ds_disk (dy_manager s)" by (rule reads_onlyD [OF assms])
  then show "untouched s (snd (managerA env m s))" by (simp add: untouched_def managerA_def case_prod_beta)
qed

lemma untouched_chain: "relA P untouched (readChainA f)"
  by (simp add: relA_def untouched_def readChainA_def)

lemma no_recovery:
  assumes "listPendingMarkers n (ds_disk s) = []"
  shows "ds_disk (snd (recoverPendingDeployments env n cn s)) = ds_disk s"
proof -
  obtain r t where v: "validateHttpMetadata env n s = (r, t)" by fastforce
  then obtain vs where t: "t = s\<lparr>ds_metadataValidated := vs\<rparr>" using validate_disk by blast
  then show ?thesis using v assms by (cases r) (simp_all add: recoverPendingDeployments_def bindA_def)
qed

lemma prepare_untouched:
  fixes env :: "'c deploy_env"
  shows "relA (settled (dp_network plan)) untouched (prepare_deployment env opts plan)"
proof -
  let ?rec = "\<lambda>s. bindA (managerA env (\<lambda>me. recoverPendingDeployments me (dp_network plan) (dv_chain env (dy_chain s)))) (\<lambda>_. returnA ()) s"
  have rec: "relA (settled (dp_network plan)) untouched ?rec"
    unfolding relA_def
  proof (intro allI impI)
    fix s :: "'c deploy_state" assume "settled (dp_network plan) s"
    then have "ds_disk (snd (recoverPendingDeployments (dv_manager env (dy_chain s)) (dp_network plan) (dv_chain env (dy_chain s)) (dy_manager s)))
        = ds_disk (dy_manager s)" by (simp add: no_recovery settled_def)
    then show "untouched s (snd (?rec s))" by (simp add: untouched_def managerA_def bindA_def case_prod_beta split: sum.split)
  qed
  have entry: "relA (settled (dp_network plan)) untouched (preflight_entry env plan p)" for p
  proof -
    let ?m = "\<lambda>me. if lv_type (dp_connection plan) = NetDevnode \<and> (dp_rename plan = None \<or> isEphemeral me (dp_network plan))
        then getCached me p (Some (dp_network plan)) else getDeployment me p (Some (dp_network plan))"
    have "relA (settled (dp_network plan)) untouched (managerA env ?m)" by (rule untouched_reads) simp
    then show ?thesis unfolding preflight_entry_def by (cases "dv_hasManager env") (simp_all, (intro untouched_rules; simp?)+)
  qed
  show ?thesis
    unfolding prepare_deployment_def whenManager_def deploy_preflight_def
    by (cases "dv_hasManager env"; simp only: if_True if_False; intro untouched_rules rec entry untouched_chain)
qed

text \<open>
  A dry run builds, and does nothing else. The backend acts on the chain when it builds, and may
  broadcast there; what the capability \<^verbatim>\<open>buildWithoutBroadcast\<close> promises is that the builds it is
  asked for in this run do not.
\<close>

definition builds_silently :: "'c deploy_env \<Rightarrow> deploy_options \<Rightarrow> deploy_plan \<Rightarrow> bool" where
  "builds_silently env opts plan \<longleftrightarrow>
    (\<forall>p src req c. buildDeployRequest opts env plan p src = Inr req \<longrightarrow> snd (dv_build env LeoDeploy req c) = c)"

definition is_build :: "deploy_event \<Rightarrow> bool" where
  "is_build ev \<longleftrightarrow> (case ev of EvBuild op p d \<Rightarrow> op = LeoDeploy | _ \<Rightarrow> False)"

definition builds_only :: "'c deploy_state \<Rightarrow> 'c deploy_state \<Rightarrow> bool" where
  "builds_only s t \<longleftrightarrow> dy_manager t = dy_manager s \<and> dy_chain t = dy_chain s \<and> (\<exists>evs. dy_log t = dy_log s @ evs \<and> list_all is_build evs)"

lemma builds_only_relation: "step_relation (\<lambda>_. True) builds_only"
  unfolding step_relation_def builds_only_def by fastforce

lemmas builds_only_rules = relA_bind [OF builds_only_relation] relA_simple [OF builds_only_relation] relA_fold [OF builds_only_relation]

lemma buildA_builds:
  assumes "\<And>c. snd (dv_build env LeoDeploy req c) = c"
  shows "relA (\<lambda>_. True) builds_only (buildA env LeoDeploy req)"
  unfolding buildA_def
  by (intro builds_only_rules) (auto simp: relA_def builds_only_def logA_def chainA_def is_build_def case_prod_beta assms)

lemma dry_run_one_builds:
  assumes "builds_silently env opts plan"
  shows "relA (\<lambda>_. True) builds_only (dry_run_one env opts plan results p)"
proof (cases "nonempty_source (dp_store plan) p")
  case (Some src)
  show ?thesis
  proof (cases "buildDeployRequest opts env plan p src")
    case (Inr req)
    have "relA (\<lambda>_. True) builds_only (buildA env LeoDeploy req)"
      by (rule buildA_builds) (use assms Inr in \<open>simp add: builds_silently_def\<close>)
    then show ?thesis
      by (simp add: dry_run_one_def Some Inr bindA_def liftA_def)
        (auto intro!: builds_only_rules simp: bindA_def [symmetric] split: backend_result.split)
  qed (simp add: dry_run_one_def Some bindA_def liftA_def relA_def builds_only_def)
qed (auto simp: dry_run_one_def intro!: builds_only_rules)

lemma dry_run_builds:
  assumes "cb_buildWithoutBroadcast (dp_capabilities plan) \<Longrightarrow> builds_silently env opts plan"
  shows "relA (\<lambda>_. True) builds_only (dry_run env opts plan ids)"
  unfolding dry_run_def using assms by (auto intro!: builds_only_rules dry_run_one_builds)

text \<open>
  C3: A run with \<^verbatim>\<open>--preflight\<close> or \<^verbatim>\<open>--dry-run\<close> leaves the chain as it is and fires no hook,
  whether it succeeds or not: nothing is broadcast, neither by the task nor inside the backend's
  build. It asks for no build but deploy builds, and for those only in a dry run and only of a
  backend that declares it can build without broadcasting - of any other backend nothing is
  assumed. When no earlier run left a pending marker it leaves every deployment file as it was.
\<close>

theorem dry_run_sends_nothing:
  assumes "plan_deployment env opts = Inr plan" and "do_preflight opts \<or> do_dryRun opts"
    and silent: "cb_buildWithoutBroadcast (dp_capabilities plan) \<Longrightarrow> builds_silently env opts plan"
    and run: "deployAction env opts s = (res, s')"
  shows "dy_chain s' = dy_chain s
    \<and> (\<exists>evs. dy_log s' = dy_log s @ evs \<and> list_all is_build evs \<and> (do_preflight opts \<longrightarrow> evs = []))
    \<and> (settled (dp_network plan) s \<longrightarrow> ds_disk (dy_manager s') = ds_disk (dy_manager s))"
proof -
  obtain r t where p: "prepare_deployment env opts plan s = (r, t)" by fastforce
  have log: "dy_log t = dy_log s" "dy_chain t = dy_chain s"
    using prepare_log [of env opts plan] p by (auto simp: relA_def same_log_def dest!: spec [of _ s])
  have same: "untouched s t" if "settled (dp_network plan) s"
    using prepare_untouched [of plan env opts] p that by (auto simp: relA_def dest!: spec [of _ s])
  show ?thesis
  proof (cases "s' = t")
    case True
    then show ?thesis using log same by (auto simp: untouched_def)
  next
    case False
    then obtain result :: preflight_result where dry: "\<not> do_preflight opts"
      "bindA (dry_run env opts plan (map po_programId (filter (\<lambda>out. po_action out = OutDeploy) (pr_programs result)))) (\<lambda>rs. returnA (ModeDryRun rs)) t = (res, s')"
      using run p assms(2) by (cases r) (auto simp: deploy_run [OF assms(1)] Let_def split: if_splits)
    have "builds_only t (snd (bindA (dry_run env opts plan ids) (\<lambda>rs. returnA (ModeDryRun rs)) t))" for ids
      using relA_bind [OF builds_only_relation dry_run_builds [OF silent] relA_simple(1) [OF builds_only_relation], of ids ModeDryRun] by (simp add: relA_def)
    from this [of "map po_programId (filter (\<lambda>out. po_action out = OutDeploy) (pr_programs result))"]
    have "builds_only t s'" by (simp add: dry(2))
    then show ?thesis using log same dry(1) by (auto simp: builds_only_def untouched_def)
  qed
qed

text \<open>The Leo backend's builds stay off the chain; the SDK's on an HTTP network broadcast, and the run refuses them.\<close>

definition ex_dry :: "(deploy_error + deploy_task_result) \<times> string list deploy_state" where
  "ex_dry = deployAction ex_deploy_env (ex_options\<lparr>do_dryRun := True\<rparr>) ex_start"

definition ex_atomic_env :: "string list deploy_env" where
  "ex_atomic_env = ex_deploy_env\<lparr>dv_backend := (\<lambda>_. Inr (sdk_capabilities NetHttp)),
    dv_build := (\<lambda>op req c. (Inr (Broadcast ''at1''), br_programId req # c))\<rparr>"

theorem dry_run_sends_nothing_witness:
  "(case fst ex_dry of Inr (ModeDryRun rs) \<Rightarrow> rs | _ \<Rightarrow> []) = [(''b.aleo'', ''b.aleo'')] \<and> dy_chain (snd ex_dry) = []
   \<and> list_all is_build (dy_log (snd ex_dry)) \<and> ds_disk (dy_manager (snd ex_dry)) = []
   \<and> dy_chain (snd (deployAction ex_atomic_env (ex_options\<lparr>do_dryRun := True\<rparr>) ex_start)) = []"
proof (intro conjI)
  let ?o = "ex_options\<lparr>do_dryRun := True\<rparr>"
  have s: "dy_log ex_start = []" "dy_chain ex_start = []" "ds_disk (dy_manager ex_start) = []" "settled n ex_start" for n
    by (simp_all add: ex_start_def fresh_session_def settled_def listPendingMarkers_def dir_files_def)
  show "(case fst ex_dry of Inr (ModeDryRun rs) \<Rightarrow> rs | _ \<Rightarrow> []) = [(''b.aleo'', ''b.aleo'')]" by code_simp
  let ?plan = "projr (plan_deployment ex_deploy_env ?o)"
  have "\<not> isl (plan_deployment ex_deploy_env ?o)" by code_simp
  then have plan: "plan_deployment ex_deploy_env ?o = Inr ?plan" by simp
  have run: "deployAction ex_deploy_env ?o ex_start = (fst ex_dry, snd ex_dry)" by (simp add: ex_dry_def)
  have silent: "builds_silently ex_deploy_env ?o ?plan" by (simp add: builds_silently_def ex_deploy_env_def)
  note fact = dry_run_sends_nothing [OF plan _ silent run]
  show "dy_chain (snd ex_dry) = []" "list_all is_build (dy_log (snd ex_dry))" "ds_disk (dy_manager (snd ex_dry)) = []"
    using fact s by auto
  let ?atomic = "projr (plan_deployment ex_atomic_env ?o)" and ?run = "deployAction ex_atomic_env ?o ex_start"
  have "\<not> isl (plan_deployment ex_atomic_env ?o)" by code_simp
  then have atomic: "plan_deployment ex_atomic_env ?o = Inr ?atomic" by simp
  have "\<not> cb_buildWithoutBroadcast (dp_capabilities ?atomic)" by code_simp
  then have silent: "builds_silently ex_atomic_env ?o ?atomic" if "cb_buildWithoutBroadcast (dp_capabilities ?atomic)" using that by simp
  have "?run = (fst ?run, snd ?run)" by simp
  note fact = dry_run_sends_nothing [OF atomic _ silent this]
  have "dy_chain (snd ?run) = dy_chain ex_start" using fact by auto
  then show "dy_chain (snd ?run) = []" using s by simp
qed

text \<open>
  The backends of the code keep that promise: whatever backend was resolved for the plan, a build
  that its capability allows leaves the chain alone. Of the Leo process it takes that it
  broadcasts only when told to; the ids and directories on its command line must not look like
  flags.
\<close>

definition backend_build :: "'c leo_runner \<Rightarrow> (string \<Rightarrow> string) \<Rightarrow> (string \<Rightarrow> jsval option) \<Rightarrow> (string, string) omap \<Rightarrow> string \<Rightarrow> 'c sdk_api
    \<Rightarrow> provider \<Rightarrow> backend_ctx \<Rightarrow> 'c leo_world \<Rightarrow> leo_operation \<Rightarrow> backend_request \<Rightarrow> 'c \<Rightarrow> (backend_error + backend_result) \<times> 'c" where
  "backend_build runner sha json penv saveDir api q ctx w op req c =
    (case run_backend runner sha json penv saveDir api q op req ctx (w\<lparr>lw_chain := c\<rparr>) of (r, w') \<Rightarrow> (r, lw_chain w'))"

lemma backends_build_silently:
  assumes "resolveDeployBackend p ctx = Inr (q, dp_capabilities plan)" and "bc_connectionType ctx' = bc_connectionType ctx"
    and build: "dv_build env = backend_build runner sha json penv saveDir api q ctx' w"
    and told: "broadcasts_when_told runner"
    and dirs: "plain_value (bc_artifactsDir ctx' @ ''/'')" "plain_value saveDir" "plain_value (bc_networkId ctx')" "plain_value (bc_endpoint ctx')"
      "\<And>h. bc_consensusHeights ctx' = Some h \<Longrightarrow> plain_value h"
    and ids: "list_all plain_value (program_ids (dg_order (dp_graph plan)))"
    and "cb_buildWithoutBroadcast (dp_capabilities plan)"
  shows "builds_silently env opts plan"
  unfolding builds_silently_def
proof (intro allI impI)
  fix prog src req c
  assume "buildDeployRequest opts env plan prog src = Inr req"
  then have "set (br_localDependencyIds req) \<subseteq> set (program_ids (dg_order (dp_graph plan)))"
    by (auto simp: buildDeployRequest_def Let_def closure_is liftE_def split: if_splits)
  then have deps: "list_all plain_value (br_localDependencyIds req)" using ids by (auto simp: list_all_iff)
  have "plain_value (bc_artifactsDir ctx' @ x)" if "x \<noteq> [] \<and> hd x = CHR ''/''" for x
    using dirs(1) that by (cases "bc_artifactsDir ctx'"; cases x) (auto simp: plain_value_def)
  then have plain: "plain_options (leo_argv_options LeoDeploy req ctx' saveDir)"
    using dirs(2-5) deps by (auto simp: plain_options_def leo_argv_options_def leoPackageDir_def split: option.split)
  let ?run = "run_backend runner sha json penv saveDir api q LeoDeploy req ctx' (w\<lparr>lw_chain := c\<rparr>)"
  have "?run = (fst ?run, snd ?run)" by simp
  from capable_backend_hands_back [OF assms(1,2) _ told plain this] assms(11)
  show "snd (dv_build env LeoDeploy req c) = c" by (simp add: build backend_build_def case_prod_beta)
qed

text \<open>
  Recovery runs before the modes are told apart: a preflight run of a network with a pending marker
  settles it, writing a record and deleting the marker.
\<close>

lemma preflight_recovers:
  "let run = deployAction ex_deploy_env (ex_options\<lparr>do_preflight := True\<rparr>) \<lparr> dy_manager = ex_state, dy_chain = [''a.aleo''], dy_log = [] \<rparr>
   in \<not> isl (fst run) \<and> readPendingMarker ''t'' ''a.aleo'' (ds_disk ex_state) = Some ex_pending
    \<and> readPendingMarker ''t'' ''a.aleo'' (ds_disk (dy_manager (snd run))) = None
    \<and> om_get (ds_disk (dy_manager (snd run))) (recordPath ''t'' ''a.aleo'') \<noteq> None"
  by code_simp

end
