(* ===== verification/UpgradeTask.thy ===== *)
theory UpgradeTask imports DeployTask begin

text \<open>
  The upgrade task (\<^verbatim>\<open>plugin-deploy/src/upgrade-task.ts\<close>), over the same environment and state as
  the deploy task. Editions are numbers; adding one to an edition is exact below \<^verbatim>\<open>2 ^ 53\<close>, and an
  edition is a 16-bit number on the chain.
\<close>

section \<open>Options and plan\<close>

record upgrade_options =
  uo_program :: "string option"
  uo_priorityFee :: "int option"
  uo_skipConfirm :: bool
  uo_network :: "string option"
  uo_prove :: bool

record upgrade_result =
  uz_programId :: string
  uz_txId :: string
  uz_blockHeight :: int

record upgrade_target =
  ut_programArg :: string
  ut_programId :: string
  ut_network :: string
  ut_type :: network_type
  ut_connection :: live_connection
  ut_signer :: "string option"

text \<open>What the steps before the pending marker settle.\<close>

record upgrade_plan =
  ug_target :: upgrade_target
  ug_existing :: deployment_record
  ug_source :: string
  ug_aleoSource :: string
  ug_abi :: jsval
  ug_dependencies :: "string list"
  ug_address :: "string option"
  ug_fee :: int
  ug_shouldConfirm :: bool
  ug_previous :: jsval

text \<open>An address-only \<^verbatim>\<open>admin\<close> selects no key.\<close>

definition admin_key :: "named_account option \<Rightarrow> string option" where
  "admin_key named = (case named of Some (Signable a) \<Rightarrow> Some (sa_privateKey a) | _ \<Rightarrow> None)"

definition resolve_upgrade_target :: "'c deploy_env \<Rightarrow> upgrade_options \<Rightarrow> deploy_error + upgrade_target" where
  "resolve_upgrade_target env opts =
    (case (case uo_program opts of Some p \<Rightarrow> if p = [] then None else Some p | None \<Rightarrow> None) of
      None \<Rightarrow> Inl MissingProgramOption
    | Some programArg \<Rightarrow>
        let networkName = (case uo_network opts of Some n \<Rightarrow> n | None \<Rightarrow> dk_defaultNetwork (dv_config env)) in
        (case dv_networkType env networkName of
          None \<Rightarrow> Inl (BackendFailed (UnknownNetwork networkName))
        | Some netType \<Rightarrow>
            bindR (liftE BackendFailed (dv_backend env networkName)) (\<lambda>_.
            bindR (liftE ConnectionFailed (dv_connect env networkName)) (\<lambda>connection.
            Inr \<lparr> ut_programArg = programArg, ut_programId = normalizeProgramId programArg, ut_network = networkName, ut_type = netType,
                  ut_connection = connection, ut_signer = admin_key (om_get (dv_named env) ''admin'') \<rparr>))))"

section \<open>Provenance, dependencies, editions\<close>

definition resolveUpgradeSourceProgramId :: "'c deploy_env \<Rightarrow> deployment_record \<Rightarrow> string \<Rightarrow> deploy_error + string" where
  "resolveUpgradeSourceProgramId env existing programId =
    (case (case dr_sourceProgramId existing of Some s \<Rightarrow> if s = [] then None else Some s | None \<Rightarrow> None) of
      Some s \<Rightarrow> Inr s
    | None \<Rightarrow> (case dv_provenance env programId of
        Inl e \<Rightarrow> Inl (ProvenanceInvalid programId)
      | Inr None \<Rightarrow> Inr programId
      | Inr (Some (p, src)) \<Rightarrow> if p \<noteq> programId then Inl (ProvenanceMismatch p src) else Inr src))"

definition collectUpgradeDependencyIds :: "'c deploy_env \<Rightarrow> string \<Rightarrow> deploy_error + string list" where
  "collectUpgradeDependencyIds env rootId =
    bindR (liftE UnitsFailed (dv_units env)) (\<lambda>units.
    bindR (liftE UnitsFailed (resolveDependencies (dv_read env) units)) (\<lambda>g.
    bindR (liftE UnitsFailed (collectLocalDeploymentClosure rootId g (program_ids units))) (\<lambda>ids.
    Inr (filter (\<lambda>p. p \<noteq> rootId) ids))))"

definition edition_succ :: "jsval \<Rightarrow> jsval" where
  "edition_succ e = (case e of JNum (Fin q) \<Rightarrow> JNum (Fin (q + 1)) | _ \<Rightarrow> e)"

definition before_upgrade :: string where
  "before_upgrade = ''read current edition before upgrade''"

text \<open>The edition that is live, else the recorded one.\<close>

definition live_edition :: "chain_connection \<Rightarrow> string \<Rightarrow> deployment_record \<Rightarrow> manager_error + jsval" where
  "live_edition cn programId existing =
    (let fallback = (if valid_edition (dr_edition existing) then Inr (dr_edition existing) else Inl (EditionUnobserved programId before_upgrade))
     in case cn_edition cn programId of
          Inl e \<Rightarrow> fallback
        | Inr e \<Rightarrow> if valid_edition e then Inr e else fallback)"

definition previous_edition :: "chain_connection \<Rightarrow> string \<Rightarrow> deployment_record \<Rightarrow> jsval option \<Rightarrow> bool \<Rightarrow> manager_error + jsval" where
  "previous_edition cn programId existing observed shouldConfirm =
    (case observed of
      Some e \<Rightarrow> Inr e
    | None \<Rightarrow> if shouldConfirm then getRequiredProgramEdition cn programId before_upgrade else live_edition cn programId existing)"

text \<open>
  The record to upgrade from: the manager's, or for a program the chain has a degraded one, with
  the edition it was observed at.
\<close>

definition upgrade_existing :: "'c deploy_env \<Rightarrow> upgrade_target \<Rightarrow> ('c, deployment_record \<times> jsval option) deploy_act" where
  "upgrade_existing env ut =
    bindA (if \<not> dv_hasManager env then returnA None
      else managerA env (\<lambda>me. getDeployment me (ut_programId ut) (Some (ut_network ut)))) (\<lambda>existing. case existing of
      Some r \<Rightarrow> returnA (r, None)
    | None \<Rightarrow>
        bindA (readChainA (\<lambda>c. checkProgramOnChain (dv_chain env c) (ut_programId ut))) (\<lambda>found. case found of
          OffChain \<Rightarrow> throwA (NoDeployment (ut_programId ut))
        | OnChain src edition \<Rightarrow>
            bindA (readChainA (\<lambda>c. observed_edition (dv_chain env c) (ut_programId ut) edition)) (\<lambda>observed.
            returnA (createDegradedRecord (dv_now env) (ut_programId ut) (ut_network ut) (lv_endpoint (ut_connection ut)) observed 0, Some observed))))"

text \<open>Compiling under the program's source id, renamed when the record says so.\<close>

definition upgrade_compile_args :: "upgrade_options \<Rightarrow> upgrade_target \<Rightarrow> string \<Rightarrow> (string, string) omap" where
  "upgrade_compile_args opts ut sourceId =
    (if sourceId \<noteq> ut_programId ut then [(''program'', sourceId), (''rename'', ut_programId ut)] else [(''program'', ut_programArg ut)])
    @ (case uo_network opts of Some n \<Rightarrow> if n = [] then [] else [(''network'', n)] | None \<Rightarrow> [])"

definition compile_upgrade :: "'c deploy_env \<Rightarrow> upgrade_options \<Rightarrow> upgrade_target \<Rightarrow> deployment_record
    \<Rightarrow> deploy_error + string \<times> string list \<times> jsval \<times> string" where
  "compile_upgrade env opts ut existing =
    bindR (resolveUpgradeSourceProgramId env existing (ut_programId ut)) (\<lambda>sourceId.
      if sourceId \<noteq> ut_programId ut \<and> \<not> supportsLeoProgramRename (dk_leoVersion (dv_config env))
      then Inl (RenameUnsupported (dk_leoVersion (dv_config env)))
      else if sourceId \<noteq> ut_programId ut \<and> dk_buildTests (dv_config env) then Inl RenameBuildTests
      else
        let args = upgrade_compile_args opts ut sourceId; store = dv_artifacts env (Some args) in
        bindR (liftE CompileFailed (dv_compile env args)) (\<lambda>_.
        bindR (collectUpgradeDependencyIds env sourceId) (\<lambda>deps.
          case ar_abi store (ut_programId ut) of
            None \<Rightarrow> Inl (NoAbi (ut_programId ut))
          | Some abi \<Rightarrow> (case nonempty_source store (ut_programId ut) of
                None \<Rightarrow> Inl (NoSource (ut_programId ut))
              | Some aleoSource \<Rightarrow> Inr (sourceId, deps, abi, aleoSource)))))"

text \<open>Steps 2 to 7.\<close>

definition prepare_upgrade :: "'c deploy_env \<Rightarrow> upgrade_options \<Rightarrow> upgrade_target \<Rightarrow> ('c, upgrade_plan) deploy_act" where
  "prepare_upgrade env opts ut =
    bindA (whenManager env (\<lambda>s. bindA (managerA env (\<lambda>me. recoverPendingDeployments me (ut_network ut) (dv_chain env (dy_chain s))))
        (\<lambda>_. returnA ()) s)) (\<lambda>_.
    bindA (upgrade_existing env ut) (\<lambda>(existing, observed).
    bindA (liftA (compile_upgrade env opts ut existing)) (\<lambda>(sourceId, deps, abi, aleoSource).
      let shouldConfirm = (\<not> uo_skipConfirm opts \<and> dk_confirmTransactions (dv_config env));
          address = resolveDeployerAddress (dv_derive env) (ut_connection ut) (ut_type ut) (dv_accounts env (ut_network ut)) (ut_signer ut);
          fee = (case uo_priorityFee opts of Some f \<Rightarrow> f | None \<Rightarrow> dk_defaultPriorityFee (dv_config env))
      in bindA (readChainA (\<lambda>c. previous_edition (dv_chain env c) (ut_programId ut) existing observed shouldConfirm)) (\<lambda>previous.
         returnA \<lparr> ug_target = ut, ug_existing = existing, ug_source = sourceId, ug_aleoSource = aleoSource, ug_abi = abi,
           ug_dependencies = deps, ug_address = address, ug_fee = fee, ug_shouldConfirm = shouldConfirm, ug_previous = previous \<rparr>))))"

section \<open>The transaction\<close>

definition upgrade_source_id :: "upgrade_plan \<Rightarrow> string option" where
  "upgrade_source_id plan = (if ug_source plan \<noteq> ut_programId (ug_target plan) then Some (ug_source plan) else None)"

definition address_or_unknown :: "string option \<Rightarrow> string" where
  "address_or_unknown address = (case address of Some a \<Rightarrow> a | None \<Rightarrow> ''unknown'')"

definition upgrade_pending :: "'c deploy_env \<Rightarrow> upgrade_plan \<Rightarrow> pending_deployment" where
  "upgrade_pending env plan =
    \<lparr> pd_programId = ut_programId (ug_target plan), pd_sourceProgramId = upgrade_source_id plan, pd_action = ActUpgrade, pd_txId = None,
      pd_blockHeight = None, pd_previousEdition = ug_previous plan, pd_startedAt = dv_now env,
      pd_deployerAddress = address_or_unknown (ug_address plan), pd_priorityFee = ug_fee plan,
      pd_privateFee = dk_privateFee (dv_config env), pd_network = ut_network (ug_target plan), pd_endpoint = lv_endpoint (ut_connection (ug_target plan)) \<rparr>"

definition buildUpgradeRequest :: "'c deploy_env \<Rightarrow> upgrade_options \<Rightarrow> upgrade_plan \<Rightarrow> backend_request" where
  "buildUpgradeRequest env opts plan =
    \<lparr> br_programId = ut_programId (ug_target plan), br_sourceProgramId = upgrade_source_id plan, br_aleoSource = ug_aleoSource plan,
      br_localDependencyIds = ug_dependencies plan, br_priorityFee = ug_fee plan, br_privateFee = dk_privateFee (dv_config env),
      br_signerPrivateKey = ut_signer (ug_target plan), br_prove = uo_prove opts \<rparr>"

definition mark_upgrade :: "'c deploy_env \<Rightarrow> pending_deployment \<Rightarrow> ('c, unit) deploy_act" where
  "mark_upgrade env pending = whenManager env (managerA env (\<lambda>me. setPending me pending))"

text \<open>The height and the edition; waiting starts at time 0 of the polled chain.\<close>

definition confirm_upgrade :: "'c deploy_env \<Rightarrow> upgrade_plan \<Rightarrow> string \<Rightarrow> ('c, int \<times> jsval) deploy_act" where
  "confirm_upgrade env plan txId =
    (let n = ut_network (ug_target plan); p = ut_programId (ug_target plan); timeout = dk_confirmationTimeout (dv_config env)
     in if \<not> ug_shouldConfirm plan then returnA (0, edition_succ (ug_previous plan))
        else bindA (chainA ConfirmFailed (dv_confirm env txId)) (\<lambda>confirmed. case confirmed of
            Rejected \<Rightarrow> bindA (whenManager env (managerA env (\<lambda>me. clearPending me n p))) (\<lambda>_. throwA (RejectedOnChain txId))
          | Accepted height \<Rightarrow>
              bindA (mark_upgrade env ((upgrade_pending env plan)\<lparr>pd_txId := Some txId, pd_blockHeight := Some height\<rparr>)) (\<lambda>_.
              bindA (readChainA (\<lambda>c. waitForProgramEditionAdvance (dv_poll env c) p (ug_previous plan) timeout 0)) (\<lambda>edition.
              returnA (height, edition)))))"

definition old_deployer :: "deployment_record \<Rightarrow> string" where
  "old_deployer r = (if dr_status r = StComplete \<or> dr_status r = StRecovered then address_or_unknown (dr_deployerAddress r) else ''unknown'')"

definition upgrade_record :: "'c deploy_env \<Rightarrow> upgrade_plan \<Rightarrow> string \<Rightarrow> int \<Rightarrow> jsval \<Rightarrow> deployment_record" where
  "upgrade_record env plan txId blockHeight edition =
    \<lparr> dr_status = StComplete, dr_programId = ut_programId (ug_target plan), dr_sourceProgramId = upgrade_source_id plan,
      dr_network = ut_network (ug_target plan), dr_endpoint = lv_endpoint (ut_connection (ug_target plan)), dr_updatedAt = dv_now env,
      dr_edition = edition, dr_historyCount = dr_historyCount (ug_existing plan) + 1, dr_txId = Some txId, dr_blockHeight = Some blockHeight,
      dr_deployerAddress = Some (case ug_address plan of Some a \<Rightarrow> a | None \<Rightarrow> old_deployer (ug_existing plan)),
      dr_deployedAt = Some (dv_now env), dr_feePaid = Some (ug_fee plan) \<rparr>"

text \<open>Steps 7 to 12.\<close>

definition perform_upgrade :: "'c deploy_env \<Rightarrow> upgrade_options \<Rightarrow> upgrade_plan \<Rightarrow> ('c, upgrade_result) deploy_act" where
  "perform_upgrade env opts plan =
    (let n = ut_network (ug_target plan); p = ut_programId (ug_target plan) in
     bindA (mark_upgrade env (upgrade_pending env plan)) (\<lambda>_.
     bindA (buildA env LeoUpgrade (buildUpgradeRequest env opts plan)) (\<lambda>built.
     bindA (submitA env p built) (\<lambda>txId.
     bindA (mark_upgrade env ((upgrade_pending env plan)\<lparr>pd_txId := Some txId\<rparr>)) (\<lambda>_.
     bindA (confirm_upgrade env plan txId) (\<lambda>(blockHeight, edition).
     bindA (whenManager env (managerA env (\<lambda>me.
         record_deployment me (upgrade_record env plan txId blockHeight edition) ActUpgrade (no_options\<lparr>ro_abi := Some (ug_abi plan)\<rparr>)))) (\<lambda>_.
     bindA (logA (\<lambda>_. EvHook ''programUpgraded'' p)) (\<lambda>_.
     bindA (liftA (liftE HookFailed (dv_hook env ''programUpgraded'' p))) (\<lambda>_.
     bindA (if dv_hasManager env \<and> dk_autoExport (dv_config env) \<and> ug_shouldConfirm plan
         then bindA (managerA env (\<lambda>me. export_deployments me (Some n))) (\<lambda>_. returnA ()) else returnA ()) (\<lambda>_.
     returnA \<lparr> uz_programId = p, uz_txId = txId, uz_blockHeight = blockHeight \<rparr>))))))))))"

definition upgradeAction :: "'c deploy_env \<Rightarrow> upgrade_options \<Rightarrow> ('c, upgrade_result) deploy_act" where
  "upgradeAction env opts =
    bindA (liftA (resolve_upgrade_target env opts)) (\<lambda>ut.
    bindA (prepare_upgrade env opts ut) (perform_upgrade env opts))"

section \<open>An upgrade is always accounted for\<close>

text \<open>Everything sent is the upgraded program's, at a moment its upgrade marker was on disk.\<close>

definition sent_marked :: "string \<Rightarrow> string \<Rightarrow> deploy_event \<Rightarrow> bool" where
  "sent_marked n p ev \<longleftrightarrow> (case sent_program ev of
      None \<Rightarrow> True
    | Some (q, d) \<Rightarrow> q = p \<and> (\<exists>m. readPendingMarker n p d = Some m \<and> pd_action m = ActUpgrade))"

definition logged :: "string \<Rightarrow> string \<Rightarrow> deploy_event list \<Rightarrow> 'c deploy_state \<Rightarrow> bool" where
  "logged n p L s \<longleftrightarrow> (\<exists>evs. dy_log s = L @ evs \<and> list_all (sent_marked n p) evs)"

definition upgrading :: "string \<Rightarrow> string \<Rightarrow> deploy_event list \<Rightarrow> 'c deploy_state \<Rightarrow> bool" where
  "upgrading n p L s \<longleftrightarrow> logged n p L s \<and> (\<exists>m. readPendingMarker n p (ds_disk (dy_manager s)) = Some m \<and> pd_action m = ActUpgrade)"

definition upgraded :: "string \<Rightarrow> string \<Rightarrow> deploy_event list \<Rightarrow> string \<Rightarrow> 'c deploy_state \<Rightarrow> bool" where
  "upgraded n p L txId s \<longleftrightarrow> logged n p L s \<and> readPendingMarker n p (ds_disk (dy_manager s)) = None
    \<and> (\<exists>r. readDeploymentRecord n p (ds_disk (dy_manager s)) = Inr (Some r) \<and> dr_status r = StComplete \<and> dr_txId r = Some txId)"

text \<open>A failure: rejected by the chain, or nothing was sent, or the files know of it.\<close>

definition accounted_failure :: "string \<Rightarrow> string \<Rightarrow> deploy_event list \<Rightarrow> deploy_error \<Rightarrow> 'c deploy_state \<Rightarrow> bool" where
  "accounted_failure n p L e s \<longleftrightarrow> logged n p L s
    \<and> ((\<exists>tx. e = RejectedOnChain tx) \<or> dy_log s = L \<or> tracked n p (ds_disk (dy_manager s)))"

lemma logged_start: "dy_log s = L \<Longrightarrow> logged n p L s"
  by (simp add: logged_def)

lemma upgrading_fails: "upgrading n p L s \<Longrightarrow> accounted_failure n p L e s"
  by (auto simp: upgrading_def accounted_failure_def tracked_def)

lemma upgraded_fails: "upgraded n p L tx s \<Longrightarrow> accounted_failure n p L e s"
  by (auto simp: upgraded_def accounted_failure_def tracked_def)

lemma mark_triple:
  assumes "dv_hasManager env" and "\<And>c. \<not> isEphemeral (dv_manager env c) (pd_network m)" and "pd_action m = ActUpgrade"
    and "\<And>s. P s \<Longrightarrow> logged (pd_network m) (pd_programId m) L s"
  shows "tripleA P (mark_upgrade env m) (\<lambda>_. upgrading (pd_network m) (pd_programId m) L) (accounted_failure (pd_network m) (pd_programId m) L)"
  using assms pending_written(1) [of m]
  by (auto simp: tripleA_def mark_upgrade_def whenManager_def managerA_def setPending_run liftE_def upgrading_def logged_def)

lemma upgrading_chain: "upgrading n p L (s\<lparr>dy_chain := c\<rparr>) = upgrading n p L s"
  by (simp add: upgrading_def logged_def)

lemma chain_triple: "tripleA (upgrading n p L) (chainA f op) (\<lambda>_. upgrading n p L) (accounted_failure n p L)"
proof -
  have "case chainA f op s of (Inr x, t) \<Rightarrow> upgrading n p L t | (Inl e, t) \<Rightarrow> accounted_failure n p L e t" if "upgrading n p L s" for s
    using that upgrading_fails [of n p L "s\<lparr>dy_chain := snd (op (dy_chain s))\<rparr>"]
    by (simp add: chainA_def case_prod_beta upgrading_chain split: sum.split)
  then show ?thesis by (simp add: tripleA_def)
qed

lemma read_triple: "tripleA (upgrading n p L) (readChainA f) (\<lambda>_. upgrading n p L) (accounted_failure n p L)"
  using upgrading_fails by (auto simp: tripleA_def readChainA_def split: sum.split)

lemma log_upgrading:
  assumes "\<And>d. sent_program (ev d) = Some (p, d) \<or> sent_program (ev d) = None" and "upgrading n p L s"
  shows "upgrading n p L (s\<lparr>dy_log := dy_log s @ [ev (ds_disk (dy_manager s))]\<rparr>)"
proof -
  have "sent_marked n p (ev (ds_disk (dy_manager s)))"
    using assms(1) [of "ds_disk (dy_manager s)"] assms(2) by (auto simp: sent_marked_def upgrading_def)
  then show ?thesis using assms(2) by (auto simp: upgrading_def logged_def)
qed

lemma log_triple:
  assumes "\<And>d. sent_program (ev d) = Some (p, d) \<or> sent_program (ev d) = None"
  shows "tripleA (upgrading n p L) (logA ev) (\<lambda>_. upgrading n p L) (accounted_failure n p L)"
  using log_upgrading [where ev = ev and p = p] assms by (simp add: tripleA_def logA_def) blast

lemma build_triple:
  assumes "br_programId req = p"
  shows "tripleA (upgrading n p L) (buildA env LeoUpgrade req) (\<lambda>_. upgrading n p L) (accounted_failure n p L)"
  unfolding buildA_def using assms by (intro tripleA_bind [OF log_triple] chain_triple) simp

lemma submit_triple: "tripleA (upgrading n p L) (submitA env p built) (\<lambda>_. upgrading n p L) (accounted_failure n p L)"
proof (cases built)
  case (Broadcast tx)
  then show ?thesis by (simp add: submitA_def tripleA_simple)
next
  case (Built tx)
  have "tripleA (upgrading n p L) (logA (EvBroadcast p)) (\<lambda>_. upgrading n p L) (accounted_failure n p L)"
    by (rule log_triple) simp
  from tripleA_bind [OF this chain_triple] show ?thesis by (simp add: submitA_def Built)
qed

lemma confirm_triple:
  assumes mgr: "dv_hasManager env" and kept: "\<And>c. \<not> isEphemeral (dv_manager env c) n"
    and "n = ut_network (ug_target plan)" and "p = ut_programId (ug_target plan)"
  shows "tripleA (upgrading n p L) (confirm_upgrade env plan txId) (\<lambda>_. upgrading n p L) (accounted_failure n p L)"
proof -
  let ?m = "\<lambda>h. (upgrade_pending env plan)\<lparr>pd_txId := Some txId, pd_blockHeight := Some h\<rparr>"
  have ids: "pd_network (?m h) = n" "pd_programId (?m h) = p" "pd_action (?m h) = ActUpgrade" for h
    using assms(3,4) by (simp_all add: upgrade_pending_def)
  have mark: "tripleA (upgrading n p L) (mark_upgrade env (?m h)) (\<lambda>_. upgrading n p L) (accounted_failure n p L)" for h
    using mark_triple [OF mgr, of "?m h" "upgrading n p L" L] kept ids [of h] by (simp add: upgrading_def)
  have clear: "tripleA (upgrading n p L) (bindA (whenManager env (managerA env (\<lambda>me. clearPending me n p))) (\<lambda>_. throwA (RejectedOnChain txId)))
      Q (accounted_failure n p L)" for Q :: "int \<times> jsval \<Rightarrow> 'a deploy_state \<Rightarrow> bool"
    using mgr kept
    by (auto simp: tripleA_def whenManager_def managerA_def clearPending_def deletePendingA_def diskA_def liftE_def bindA_def
        upgrading_def logged_def accounted_failure_def)
  have acc: "tripleA (upgrading n p L) (bindA (mark_upgrade env (?m h)) (\<lambda>_.
        bindA (readChainA (\<lambda>c. waitForProgramEditionAdvance (dv_poll env c) p (ug_previous plan) timeout 0)) (\<lambda>edition. returnA (h, edition))))
      (\<lambda>_. upgrading n p L) (accounted_failure n p L)" for h timeout
    by (intro tripleA_bind [OF mark] tripleA_bind [OF read_triple] tripleA_simple)
  show ?thesis
    unfolding confirm_upgrade_def Let_def assms(3,4) [symmetric]
    by (intro tripleA_if tripleA_simple tripleA_bind [OF chain_triple]) (auto intro: clear acc split: confirmation.split)
qed

text \<open>Recording: the record is written, then the marker goes.\<close>

lemma record_upgraded:
  assumes "record_deployment env r action opts s = (Inr (), s')" and "aleo_id (dr_programId r)" and "\<not> isEphemeral env (dr_network r)"
  shows "readDeploymentRecord (dr_network r) (dr_programId r) (ds_disk s') = Inr (Some r)
    \<and> readPendingMarker (dr_network r) (dr_programId r) (ds_disk s') = None"
proof -
  let ?d = "run_ops (writes (record_docs env (ds_disk s) r action opts)) (ds_disk s)"
  have "ds_disk s' = run_ops (deletePendingMarker (dr_network r) (dr_programId r) ?d) ?d"
    using record_deployment_disk [OF assms(1,3)] by (auto simp: Let_def)
  then show ?thesis
    using recorded_after_delete [OF assms(2)] by (auto simp: recorded_def readPendingMarker_def deletePending_get)
qed

lemma record_triple:
  assumes mgr: "dv_hasManager env" and kept: "\<And>c. \<not> isEphemeral (dv_manager env c) n" and "aleo_id p"
    and r: "dr_network r = n" "dr_programId r = p" "dr_status r = StComplete" "dr_txId r = Some txId"
  shows "tripleA (upgrading n p L) (whenManager env (managerA env (\<lambda>me. record_deployment me r action opts)))
    (\<lambda>_. upgraded n p L txId) (accounted_failure n p L)"
proof -
  have "case managerA env (\<lambda>me. record_deployment me r action opts) s of
      (Inr x, t) \<Rightarrow> upgraded n p L txId t | (Inl e, t) \<Rightarrow> accounted_failure n p L e t" if up: "upgrading n p L s" for s
  proof -
    obtain res ms where run: "record_deployment (dv_manager env (dy_chain s)) r action opts (dy_manager s) = (res, ms)" by fastforce
    have log: "logged n p L (s\<lparr>dy_manager := ms\<rparr>)" using up by (simp add: upgrading_def logged_def)
    show ?thesis
    proof (cases res)
      case (Inl e)
      have "keeps_tracked n (ds_disk (dy_manager s)) (ds_disk ms)"
        using record_keeps_tracked [OF run] kept assms(3) r by simp
      moreover have "tracked n p (ds_disk (dy_manager s))" using up by (auto simp: upgrading_def tracked_def)
      ultimately have "tracked n p (ds_disk ms)" using assms(3) by (simp add: keeps_tracked_def)
      then show ?thesis using run Inl log by (simp add: managerA_def liftE_def accounted_failure_def)
    next
      case (Inr u)
      then show ?thesis
        using run log record_upgraded [of "dv_manager env (dy_chain s)" r action opts "dy_manager s" ms] kept assms(3) r
        by (auto simp: managerA_def liftE_def upgraded_def)
    qed
  qed
  then show ?thesis using mgr by (simp add: tripleA_def whenManager_def)
qed

text \<open>What follows only adds to the log, or writes the export bundle.\<close>

lemma export_other:
  assumes "n \<noteq> ''_exports''"
  shows "om_get (ds_disk (snd (export_deployments env network s))) (recordPath n p) = om_get (ds_disk s) (recordPath n p)
    \<and> om_get (ds_disk (snd (export_deployments env network s))) (pendingPath n p) = om_get (ds_disk s) (pendingPath n p)"
proof -
  obtain r b where g: "getAllDeployments env (Some (resolveNetwork env network)) s = (r, b)" by fastforce
  then have "ds_disk b = ds_disk s"
    using reads_onlyD [OF reads_only_getAll, of env "Some (resolveNetwork env network)" s] by simp
  then show ?thesis
    using assms record_not_export [of n p]
    by (cases r) (simp_all add: export_deployments_def Let_def bindA_def g writeExportBundle_def atomic_other durable_pending durable_record)
qed

lemma export_triple:
  assumes "n \<noteq> ''_exports''"
  shows "tripleA (upgraded n p L tx) (managerA env (\<lambda>me. export_deployments me network)) (\<lambda>_. upgraded n p L tx) (accounted_failure n p L)"
proof -
  have "upgraded n p L tx (s\<lparr>dy_manager := snd (export_deployments me network (dy_manager s))\<rparr>)" if "upgraded n p L tx s" for me s
    using that export_other [OF assms, of me network "dy_manager s" p]
    by (simp add: upgraded_def logged_def readDeploymentRecord_def readPendingMarker_def)
  then show ?thesis
    using upgraded_fails by (fastforce simp: tripleA_def managerA_def case_prod_beta split: sum.split)
qed

lemma finish_triple:
  assumes "n \<noteq> ''_exports''"
  shows "tripleA (upgraded n p L tx)
    (bindA (logA (\<lambda>_. EvHook ''programUpgraded'' p)) (\<lambda>_.
     bindA (liftA (liftE HookFailed (dv_hook env ''programUpgraded'' p))) (\<lambda>_.
     bindA (if b then bindA (managerA env (\<lambda>me. export_deployments me (Some n))) (\<lambda>_. returnA ()) else returnA ()) (\<lambda>_.
     returnA \<lparr> uz_programId = p, uz_txId = tx, uz_blockHeight = h \<rparr>))))
    (\<lambda>r s. upgraded n p L (uz_txId r) s) (accounted_failure n p L)"
proof -
  have log: "tripleA (upgraded n p L tx) (logA (\<lambda>_. EvHook ''programUpgraded'' p)) (\<lambda>_. upgraded n p L tx) (accounted_failure n p L)"
    by (auto simp: tripleA_def logA_def upgraded_def logged_def sent_marked_def)
  have hook: "tripleA (upgraded n p L tx) (liftA (liftE HookFailed (dv_hook env ''programUpgraded'' p))) (\<lambda>_. upgraded n p L tx)
      (accounted_failure n p L)"
    by (rule tripleA_simple) (simp_all add: upgraded_fails)
  have export: "tripleA (upgraded n p L tx) (if b then bindA (managerA env (\<lambda>me. export_deployments me (Some n))) (\<lambda>_. returnA ()) else returnA ())
      (\<lambda>_. upgraded n p L tx) (accounted_failure n p L)"
    by (intro tripleA_if tripleA_bind [OF export_triple [OF assms]] tripleA_simple)
  show ?thesis
    by (intro tripleA_bind [OF log] tripleA_bind [OF hook] tripleA_bind [OF export] tripleA_simple) simp
qed

lemma perform_triple:
  assumes mgr: "dv_hasManager env" and kept: "\<And>c. \<not> isEphemeral (dv_manager env c) n" and "aleo_id p" and "n \<noteq> ''_exports''"
    and ids: "n = ut_network (ug_target plan)" "p = ut_programId (ug_target plan)"
  shows "tripleA (\<lambda>s. dy_log s = L) (perform_upgrade env opts plan) (\<lambda>r s. upgraded n p L (uz_txId r) s) (accounted_failure n p L)"
proof -
  have pend: "pd_network (upgrade_pending env plan) = n" "pd_programId (upgrade_pending env plan) = p" "pd_action (upgrade_pending env plan) = ActUpgrade"
    using ids by (simp_all add: upgrade_pending_def)
  have mark: "tripleA (\<lambda>s. dy_log s = L) (mark_upgrade env (upgrade_pending env plan)) (\<lambda>_. upgrading n p L) (accounted_failure n p L)"
    using mark_triple [OF mgr, of "upgrade_pending env plan" "\<lambda>s. dy_log s = L" L] kept pend by (simp add: logged_start)
  have mark2: "tripleA (upgrading n p L) (mark_upgrade env ((upgrade_pending env plan)\<lparr>pd_txId := Some tx\<rparr>)) (\<lambda>_. upgrading n p L)
      (accounted_failure n p L)" for tx
    using mark_triple [OF mgr, of "(upgrade_pending env plan)\<lparr>pd_txId := Some tx\<rparr>" "upgrading n p L" L] kept pend by (simp add: upgrading_def)
  have req: "br_programId (buildUpgradeRequest env opts plan) = p" using ids by (simp add: buildUpgradeRequest_def)
  have rec: "tripleA (upgrading n p L) (whenManager env (managerA env (\<lambda>me. record_deployment me (upgrade_record env plan tx h e) ActUpgrade ro)))
      (\<lambda>_. upgraded n p L tx) (accounted_failure n p L)" for tx h e ro
    by (rule record_triple [OF mgr kept assms(3)]) (simp_all add: upgrade_record_def ids)
  show ?thesis
    unfolding perform_upgrade_def Let_def ids [symmetric]
    by (rule tripleA_bind [OF mark], rule tripleA_bind [OF build_triple [OF req]], rule tripleA_bind [OF submit_triple],
        rule tripleA_bind [OF mark2], rule tripleA_bind [OF confirm_triple [OF mgr kept ids]])
      (auto simp only: split_beta intro!: tripleA_bind [OF rec] finish_triple [OF assms(4)])
qed

lemma prepare_upgrade_log: "relA (\<lambda>_. True) same_log (prepare_upgrade env opts ut)"
proof -
  have rec: "relA (\<lambda>_. True) same_log (\<lambda>s. bindA (managerA env (\<lambda>me. recoverPendingDeployments me (ut_network ut) (dv_chain env (dy_chain s))))
        (\<lambda>_. returnA ()) s)"
    by (rule same_log_state [where f = "\<lambda>s. bindA (managerA env (\<lambda>me. recoverPendingDeployments me (ut_network ut) (dv_chain env (dy_chain s)))) (\<lambda>_. returnA ())"])
      (intro same_log_rules same_log_manager)
  have existing: "relA (\<lambda>_. True) same_log (upgrade_existing env ut)"
    unfolding upgrade_existing_def by (auto intro!: same_log_rules split: option.split on_chain.split)
  show ?thesis
    unfolding prepare_upgrade_def whenManager_def Let_def
    by (cases "dv_hasManager env"; simp only: if_True if_False; auto intro!: same_log_rules rec existing)
qed

lemma prepared_target: "prepare_upgrade env opts ut s = (Inr plan, t) \<Longrightarrow> ug_target plan = ut"
  unfolding prepare_upgrade_def Let_def by (auto simp: bindA_Inr)

text \<open>
  C2: An upgrade is accounted for however it ends. Whatever it builds or broadcasts is the program's
  own, at a moment its upgrade marker was on disk. When it succeeds the files hold the complete
  record with the transaction it reports, and no marker; when it fails, the chain rejected the
  transaction, or nothing was sent, or the files still know of the program, so that the next run's
  recovery can settle it.
\<close>

theorem upgrade_accounted:
  assumes target: "resolve_upgrade_target env opts = Inr ut" and "n = ut_network ut" and "p = ut_programId ut"
    and mgr: "dv_hasManager env" and kept: "\<And>c. \<not> isEphemeral (dv_manager env c) n" and "n \<noteq> ''_exports''" and "aleo_id p"
    and run: "upgradeAction env opts s = (res, s')"
  shows "case res of Inr r \<Rightarrow> upgraded n p (dy_log s) (uz_txId r) s' | Inl e \<Rightarrow> accounted_failure n p (dy_log s) e s'"
proof -
  obtain r t where prep: "prepare_upgrade env opts ut s = (r, t)" by fastforce
  then have log: "dy_log t = dy_log s" using prepare_upgrade_log [of env opts ut] by (auto simp: relA_def same_log_def dest!: spec [of _ s])
  show ?thesis
  proof (cases r)
    case (Inl e)
    then have "res = Inl e" "s' = t" using run target prep by (simp_all add: upgradeAction_def bindA_def)
    then show ?thesis using log by (simp add: accounted_failure_def logged_start)
  next
    case (Inr plan)
    have ids: "n = ut_network (ug_target plan)" "p = ut_programId (ug_target plan)"
      using prepared_target [OF prep [unfolded Inr]] assms(2,3) by simp_all
    have "perform_upgrade env opts plan t = (res, s')" using run target prep Inr by (simp add: upgradeAction_def bindA_def)
    from tripleA_run [OF perform_triple [OF mgr kept assms(7,6) ids] log this] show ?thesis by (cases res) simp_all
  qed
qed

text \<open>A program that is on the chain, and in no record, is upgraded from edition 0 to 1.\<close>

definition ex_upgrade_options :: upgrade_options where
  "ex_upgrade_options = \<lparr> uo_program = Some ''b'', uo_priorityFee = None, uo_skipConfirm = True, uo_network = None, uo_prove = False \<rparr>"

definition ex_upgrade :: "(deploy_error + upgrade_result) \<times> string list deploy_state" where
  "ex_upgrade = upgradeAction ex_deploy_env ex_upgrade_options (ex_start\<lparr>dy_chain := [''b.aleo'']\<rparr>)"

theorem upgrade_accounted_witness:
  "\<not> isl (fst ex_upgrade) \<and> upgraded ''t'' ''b.aleo'' [] ''b.aleo'' (snd ex_upgrade)"
proof -
  let ?ut = "projr (resolve_upgrade_target ex_deploy_env ex_upgrade_options)"
  have "\<not> isl (resolve_upgrade_target ex_deploy_env ex_upgrade_options)" by code_simp
  then have target: "resolve_upgrade_target ex_deploy_env ex_upgrade_options = Inr ?ut" by simp
  have ids: "''t'' = ut_network ?ut" "''b.aleo'' = ut_programId ?ut" by code_simp+
  have "(case fst ex_upgrade of Inr r \<Rightarrow> Some (uz_txId r) | Inl e \<Rightarrow> None) = Some ''b.aleo''" by code_simp
  then have ok: "\<not> isl (fst ex_upgrade)" "uz_txId (projr (fst ex_upgrade)) = ''b.aleo''" by (simp_all split: sum.splits)
  have run: "upgradeAction ex_deploy_env ex_upgrade_options (ex_start\<lparr>dy_chain := [''b.aleo'']\<rparr>) = (fst ex_upgrade, snd ex_upgrade)"
    by (simp add: ex_upgrade_def)
  have side: "dv_hasManager ex_deploy_env" "''t'' \<noteq> ''_exports''" "dy_log (ex_start\<lparr>dy_chain := [''b.aleo'']\<rparr>) = []"
    by (simp_all add: ex_deploy_env_def ex_start_def)
  have "aleo_id ''b.aleo''" by code_simp
  from upgrade_accounted [OF target ids side(1) ex_kept side(2) this run] show ?thesis
    using ok side(3) by (cases "fst ex_upgrade") simp_all
qed

end
