(* ===== verification/Network.thy ===== *)
theory Network imports ConfigValues DeployStore begin

text \<open>
  Connections to networks (\<^verbatim>\<open>network/src/network-manager.ts\<close>, \<^verbatim>\<open>named-account-manager.ts\<close>,
  \<^verbatim>\<open>accounts.ts\<close>). Connecting awaits the resolution of the named accounts, so calls interleave:
  the manager is a step relation whose steps are the stretches of code between two awaits. A
  connection is identified by the order of its creation.
\<close>

section \<open>Accounts of a network\<close>

record devnode_account =
  da_privateKey :: string
  da_address :: string

definition DEVNODE_ACCOUNTS :: "devnode_account list" where
  "DEVNODE_ACCOUNTS =
    [\<lparr> da_privateKey = ''APrivateKey1zkp8CZNn3yeCseEtxuVPbDCwSyhGW6yZKUYKfgXmcpoGPWH'',
       da_address = ''aleo1rhgdu77hgyqd3xjj8ucu3jj9r2krwz6mnzyd80gncr5fxcwlh5rsvzp9px'' \<rparr>,
     \<lparr> da_privateKey = ''APrivateKey1zkp2RWGDcde3efb89rjhME1VYA8QMxcxep5DShNBR6n8Yjh'',
       da_address = ''aleo1s3ws5tra87fjycnjrwsjcrnw2qxr8jfqqdugnf0xzqqw29q9m5pqem2u4t'' \<rparr>,
     \<lparr> da_privateKey = ''APrivateKey1zkp2GUmKbVsuc1NSj28pa1WTQuZaK5f1DQJAT6vPcHyWokG'',
       da_address = ''aleo1ashyu96tjwe63u0gtnnv8z5lhapdu4l5pjsl2kha7fv7hvz2eqxs5dz0rg'' \<rparr>,
     \<lparr> da_privateKey = ''APrivateKey1zkpBjpEgLo4arVUkQmcLdKQMiAKGaHAQVVwmF8HQby8vdYs'',
       da_address = ''aleo12ux3gdauck0v60westgcpqj7v8rrcr3v346e4jtq04q7kkt22czsh808v2'' \<rparr>]"

datatype account_value = IndexValue nat | AddressValue string | KeyValue string

record account_entry =
  ae_networks :: "(string, account_value) omap"
  ae_default :: "account_value option"

type_synonym accounts_config = "(string, account_entry) omap"

datatype network_error =
    NoAccountValue string string
  | IndexOnHttp string nat
  | IndexOutOfRange string nat
  | DerivationFailed string
  | NetworkMissing string

text \<open>Deriving an address runs in the SDK and may fail.\<close>

definition resolveValue :: "(string \<Rightarrow> string + string) \<Rightarrow> network_type \<Rightarrow> string \<Rightarrow> account_value \<Rightarrow> network_error + named_account" where
  "resolveValue derive netType accountName value =
    (case value of
      IndexValue i \<Rightarrow>
        if netType = NetHttp then Inl (IndexOnHttp accountName i)
        else if length DEVNODE_ACCOUNTS \<le> i then Inl (IndexOutOfRange accountName i)
        else Inr (Signable \<lparr> sa_name = accountName, sa_address = da_address (DEVNODE_ACCOUNTS ! i), sa_privateKey = da_privateKey (DEVNODE_ACCOUNTS ! i) \<rparr>)
    | AddressValue a \<Rightarrow> Inr (AddressOnly \<lparr> aa_name = accountName, aa_address = a \<rparr>)
    | KeyValue k \<Rightarrow> (case derive k of
        Inl e \<Rightarrow> Inl (DerivationFailed e)
      | Inr address \<Rightarrow> Inr (Signable \<lparr> sa_name = accountName, sa_address = address, sa_privateKey = k \<rparr>)))"

definition account_value_for :: "string \<Rightarrow> account_entry \<Rightarrow> account_value option" where
  "account_value_for networkName entry = (case om_get (ae_networks entry) networkName of Some v \<Rightarrow> Some v | None \<Rightarrow> ae_default entry)"

text \<open>\<^verbatim>\<open>resolveForNetwork\<close> without its cache; the manager's state below holds the cache.\<close>

definition resolve_accounts :: "accounts_config \<Rightarrow> (string \<Rightarrow> string + string) \<Rightarrow> network_type \<Rightarrow> string \<Rightarrow> network_error + named_accounts" where
  "resolve_accounts config derive netType networkName =
    foldR (\<lambda>result (accountName, entry).
      case account_value_for networkName entry of
        None \<Rightarrow> Inl (NoAccountValue accountName networkName)
      | Some value \<Rightarrow> bindR (resolveValue derive netType accountName value) (\<lambda>a. Inr (om_set accountName a result))) [] config"

section \<open>Connections\<close>

record network_setup =
  ns_type :: network_type
  ns_network :: string
  ns_socketAddr :: string
  ns_endpoint :: string
  ns_accountKeys :: "string list"
  ns_privateKey :: "string option"
  ns_apiKey :: "string option"

datatype violation_mode = ViolationBlock | ViolationWarn

record egress_policy =
  ep_allowedHosts :: "string list"
  ep_violation :: violation_mode

record egress_override =
  eo_networkHosts :: "string list option"
  eo_violation :: "violation_mode option"

record connection_options =
  co_type :: network_type
  co_name :: string
  co_endpoint :: string
  co_networkId :: string
  co_privateKey :: "string option"
  co_apiKey :: "string option"
  co_egressPolicy :: egress_policy

text \<open>The host of an endpoint as the URL parser gives it, \<^verbatim>\<open>None\<close> when it throws.\<close>

definition resolveEgressPolicy :: "(string \<Rightarrow> string option) \<Rightarrow> string \<Rightarrow> egress_override option \<Rightarrow> egress_policy" where
  "resolveEgressPolicy url_host endpoint override =
    (let endpointHost = (case url_host endpoint of None \<Rightarrow> [] | Some h \<Rightarrow> h) in
     \<lparr> ep_allowedHosts = js_dedup ((if endpointHost = [] then [] else [endpointHost])
         @ (case Option.bind override eo_networkHosts of None \<Rightarrow> [] | Some hs \<Rightarrow> hs)),
       ep_violation = (case Option.bind override eo_violation of None \<Rightarrow> ViolationBlock | Some v \<Rightarrow> v) \<rparr>)"

definition createConnection :: "(string \<Rightarrow> string option) \<Rightarrow> egress_override option \<Rightarrow> string \<Rightarrow> network_setup \<Rightarrow> connection_options" where
  "createConnection url_host override name c =
    (case ns_type c of
      NetDevnode \<Rightarrow>
        let endpoint = ''http://'' @ ns_socketAddr c in
        \<lparr> co_type = NetDevnode, co_name = name, co_endpoint = endpoint, co_networkId = ns_network c,
          co_privateKey = Some (case ns_accountKeys c of k # _ \<Rightarrow> k | [] \<Rightarrow> da_privateKey (DEVNODE_ACCOUNTS ! 0)),
          co_apiKey = None, co_egressPolicy = resolveEgressPolicy url_host endpoint override \<rparr>
    | NetHttp \<Rightarrow>
        \<lparr> co_type = NetHttp, co_name = name, co_endpoint = ns_endpoint c, co_networkId = ns_network c, co_privateKey = ns_privateKey c,
          co_apiKey = ns_apiKey c, co_egressPolicy = resolveEgressPolicy url_host (ns_endpoint c) override \<rparr>)"

section \<open>The manager\<close>

record network_env =
  ne_networks :: "(string, network_setup) omap"
  ne_defaultNetwork :: string
  ne_accounts :: accounts_config
  ne_egress :: "egress_override option"
  ne_urlHost :: "string \<Rightarrow> string option"

record live_conn =
  lc_options :: connection_options
  lc_closed :: bool

text \<open>
  A connect in flight: awaiting the accounts, about to take over the connection, or settled. The
  accounts are known at once when they are cached.
\<close>

datatype connect_status =
    Awaiting nat "named_accounts option"
  | Resolved nat named_accounts
  | Connected nat
  | ConnectFailed network_error

record network_state =
  nm_conns :: "live_conn list"
  nm_connections :: "(string, nat) omap"
  nm_active :: "nat option"
  nm_activeAccounts :: named_accounts
  nm_accountsCache :: "(string, named_accounts) omap"
  nm_resolverCache :: "(string, named_accounts) omap"
  nm_promises :: "(string \<times> connect_status) list"
  nm_inFlight :: "(string, nat) omap"

definition network_init :: network_state where
  "network_init = \<lparr> nm_conns = [], nm_connections = [], nm_active = None, nm_activeAccounts = [], nm_accountsCache = [],
    nm_resolverCache = [], nm_promises = [], nm_inFlight = [] \<rparr>"

definition conn_name :: "network_state \<Rightarrow> nat \<Rightarrow> string" where
  "conn_name st c = co_name (lc_options (nm_conns st ! c))"

definition is_open :: "network_state \<Rightarrow> nat \<Rightarrow> bool" where
  "is_open st c \<longleftrightarrow> c < length (nm_conns st) \<and> \<not> lc_closed (nm_conns st ! c)"

definition close_conn :: "nat \<Rightarrow> network_state \<Rightarrow> network_state" where
  "close_conn c st = st\<lparr>nm_conns := (nm_conns st)[c := (nm_conns st ! c)\<lparr>lc_closed := True\<rparr>]\<rparr>"

text \<open>What a call of \<^verbatim>\<open>connect\<close> gives at once: an exception, a connection, or a promise to wait for.\<close>

datatype connect_answer = Throws network_error | Gives nat | WaitsFor nat

definition start_connect :: "network_env \<Rightarrow> string \<Rightarrow> network_setup \<Rightarrow> network_state \<Rightarrow> connect_answer \<times> network_state" where
  "start_connect env name c st =
    (let i = length (nm_promises st) in
     (WaitsFor i, st\<lparr>nm_conns := nm_conns st @ [\<lparr> lc_options = createConnection (ne_urlHost env) (ne_egress env) name c, lc_closed = False \<rparr>],
        nm_promises := nm_promises st @ [(name, Awaiting (length (nm_conns st)) (om_get (nm_resolverCache st) name))],
        nm_inFlight := om_set name i (nm_inFlight st)\<rparr>))"

definition join_or_start :: "network_env \<Rightarrow> string \<Rightarrow> network_setup \<Rightarrow> network_state \<Rightarrow> connect_answer \<times> network_state" where
  "join_or_start env name c st =
    (case om_get (nm_inFlight st) name of
      Some i \<Rightarrow> (WaitsFor i, st)
    | None \<Rightarrow> start_connect env name c st)"

definition connect :: "network_env \<Rightarrow> string option \<Rightarrow> network_state \<Rightarrow> connect_answer \<times> network_state" where
  "connect env nameOpt st =
    (let name = (case nameOpt of Some n \<Rightarrow> n | None \<Rightarrow> ne_defaultNetwork env) in
     case om_get (ne_networks env) name of
       None \<Rightarrow> (Throws (NetworkMissing name), st)
     | Some c \<Rightarrow> (case om_get (nm_connections st) name of
           Some existing \<Rightarrow>
             if is_open st existing
             then (Gives existing, st\<lparr>nm_active := Some existing,
                 nm_activeAccounts := (case om_get (nm_accountsCache st) name of Some a \<Rightarrow> a | None \<Rightarrow> [])\<rparr>)
             else join_or_start env name c (st\<lparr>nm_connections := om_delete name (nm_connections st)\<rparr>)
         | None \<Rightarrow> join_or_start env name c st))"

definition set_status :: "nat \<Rightarrow> connect_status \<Rightarrow> network_state \<Rightarrow> network_state" where
  "set_status i s st = st\<lparr>nm_promises := (nm_promises st)[i := (fst (nm_promises st ! i), s)]\<rparr>"

text \<open>\<^verbatim>\<open>resolveForNetwork\<close> returns: accounts it had to resolve are cached.\<close>

definition accounts_ready :: "nat \<Rightarrow> string \<Rightarrow> nat \<Rightarrow> named_accounts \<Rightarrow> network_state \<Rightarrow> network_state" where
  "accounts_ready i name c accounts st = set_status i (Resolved c accounts) (st\<lparr>nm_resolverCache := om_set name accounts (nm_resolverCache st)\<rparr>)"

definition accounts_failed :: "nat \<Rightarrow> nat \<Rightarrow> network_error \<Rightarrow> network_state \<Rightarrow> network_state" where
  "accounts_failed i c e st = set_status i (ConnectFailed e) (close_conn c st)"

definition take_over :: "nat \<Rightarrow> string \<Rightarrow> nat \<Rightarrow> named_accounts \<Rightarrow> network_state \<Rightarrow> network_state" where
  "take_over i name c accounts st = set_status i (Connected c)
    (st\<lparr>nm_connections := om_set name c (nm_connections st), nm_active := Some c,
       nm_accountsCache := om_set name accounts (nm_accountsCache st), nm_activeAccounts := accounts\<rparr>)"

text \<open>The \<^verbatim>\<open>finally\<close> of the call that started it.\<close>

definition forget_connect :: "nat \<Rightarrow> string \<Rightarrow> network_state \<Rightarrow> network_state" where
  "forget_connect i name st = (if om_get (nm_inFlight st) name = Some i then st\<lparr>nm_inFlight := om_delete name (nm_inFlight st)\<rparr> else st)"

definition disconnectAll :: "network_state \<Rightarrow> network_state" where
  "disconnectAll st = fold close_conn (map snd (nm_connections st))
    (st\<lparr>nm_connections := [], nm_active := None, nm_activeAccounts := [], nm_accountsCache := [], nm_resolverCache := []\<rparr>)"

definition getUsableActiveConnection :: "network_state \<Rightarrow> nat option \<times> network_state" where
  "getUsableActiveConnection st =
    (case nm_active st of
      None \<Rightarrow> (None, st)
    | Some c \<Rightarrow>
        if is_open st c then (Some c, st)
        else (None, st\<lparr>nm_active := None, nm_activeAccounts := [],
          nm_connections := (if om_get (nm_connections st) (conn_name st c) = Some c then om_delete (conn_name st c) (nm_connections st)
            else nm_connections st)\<rparr>))"

definition getNamedAccounts :: "network_state \<Rightarrow> named_accounts \<times> network_state" where
  "getNamedAccounts st =
    (case getUsableActiveConnection st of (c, st') \<Rightarrow> (case c of None \<Rightarrow> [] | Some _ \<Rightarrow> nm_activeAccounts st', st'))"

text \<open>Calls that need a connection: \<^verbatim>\<open>execute\<close>, the queries and \<^verbatim>\<open>waitForConfirmation\<close> go to the active one.\<close>

definition requireConnection :: "network_state \<Rightarrow> (unit + nat) \<times> network_state" where
  "requireConnection st = (case getUsableActiveConnection st of (c, st') \<Rightarrow> (case c of None \<Rightarrow> Inl () | Some c \<Rightarrow> Inr c, st'))"

definition net_of :: "network_env \<Rightarrow> string \<Rightarrow> network_type" where
  "net_of env name = (case om_get (ne_networks env) name of Some c \<Rightarrow> ns_type c | None \<Rightarrow> NetDevnode)"

definition promise_is :: "network_state \<Rightarrow> nat \<Rightarrow> string \<times> connect_status \<Rightarrow> bool" where
  "promise_is st i v \<longleftrightarrow> i < length (nm_promises st) \<and> nm_promises st ! i = v"

inductive network_step :: "network_env \<Rightarrow> network_state \<Rightarrow> network_state \<Rightarrow> bool" for env where
  call: "network_step env st (snd (connect env name st))"
| cached: "promise_is st i (name, Awaiting c (Some accounts)) \<Longrightarrow> network_step env st (set_status i (Resolved c accounts) st)"
| resolved: "promise_is st i (name, Awaiting c None) \<Longrightarrow> resolve_accounts (ne_accounts env) derive (net_of env name) name = Inr accounts
    \<Longrightarrow> network_step env st (accounts_ready i name c accounts st)"
| unresolved: "promise_is st i (name, Awaiting c None) \<Longrightarrow> resolve_accounts (ne_accounts env) derive (net_of env name) name = Inl e
    \<Longrightarrow> network_step env st (accounts_failed i c e st)"
| taken: "promise_is st i (name, Resolved c accounts) \<Longrightarrow> network_step env st (take_over i name c accounts st)"
| finished: "promise_is st i (name, Connected c) \<Longrightarrow> network_step env st (forget_connect i name st)"
| failed: "promise_is st i (name, ConnectFailed e) \<Longrightarrow> network_step env st (forget_connect i name st)"
| closed: "c < length (nm_conns st) \<Longrightarrow> network_step env st (close_conn c st)"
| disconnected: "network_step env st (disconnectAll st)"
| queried: "network_step env st (snd (getUsableActiveConnection st))"

definition network_reachable :: "network_env \<Rightarrow> network_state \<Rightarrow> bool" where
  "network_reachable env st \<longleftrightarrow> (network_step env)\<^sup>*\<^sup>* network_init st"

inductive_cases network_stepE: "network_step env st st'"

section \<open>What every interleaving keeps\<close>

fun pending_conn :: "connect_status \<Rightarrow> nat option" where
  "pending_conn (Awaiting c a) = Some c"
| "pending_conn (Resolved c a) = Some c"
| "pending_conn (Connected c) = None"
| "pending_conn (ConnectFailed e) = None"

fun status_accounts :: "connect_status \<Rightarrow> named_accounts option" where
  "status_accounts (Awaiting c a) = a"
| "status_accounts (Resolved c a) = Some a"
| "status_accounts (Connected c) = None"
| "status_accounts (ConnectFailed e) = None"

text \<open>A promise that is not settled yet, of the connection it will hand out.\<close>

definition pends :: "network_state \<Rightarrow> nat \<Rightarrow> string \<Rightarrow> nat \<Rightarrow> bool" where
  "pends st i n c \<longleftrightarrow> i < length (nm_promises st) \<and> fst (nm_promises st ! i) = n \<and> pending_conn (snd (nm_promises st ! i)) = Some c"

definition resolved_for :: "network_env \<Rightarrow> string \<Rightarrow> named_accounts \<Rightarrow> bool" where
  "resolved_for env n a \<longleftrightarrow> (\<exists>derive. resolve_accounts (ne_accounts env) derive (net_of env n) n = Inr a)"

definition conn_of :: "network_state \<Rightarrow> nat \<Rightarrow> string \<Rightarrow> bool" where
  "conn_of st c n \<longleftrightarrow> c < length (nm_conns st) \<and> conn_name st c = n"

definition registered_ok :: "network_state \<Rightarrow> bool" where
  "registered_ok st \<longleftrightarrow> (\<forall>n c. om_get (nm_connections st) n = Some c \<longrightarrow> conn_of st c n \<and> om_get (nm_accountsCache st) n \<noteq> None)"

definition inflight_ok :: "network_state \<Rightarrow> bool" where
  "inflight_ok st \<longleftrightarrow> (\<forall>n i. om_get (nm_inFlight st) n = Some i \<longrightarrow> i < length (nm_promises st) \<and> fst (nm_promises st ! i) = n)"

definition pending_ok :: "network_state \<Rightarrow> bool" where
  "pending_ok st \<longleftrightarrow> (\<forall>i n c. pends st i n c \<longrightarrow> om_get (nm_inFlight st) n = Some i \<and> conn_of st c n
    \<and> (\<forall>c'. om_get (nm_connections st) n = Some c' \<longrightarrow> \<not> is_open st c'))"

definition open_ok :: "network_state \<Rightarrow> bool" where
  "open_ok st \<longleftrightarrow> (\<forall>c. is_open st c \<longrightarrow> om_get (nm_connections st) (conn_name st c) = Some c \<or> (\<exists>i n. pends st i n c))"

definition active_ok :: "network_state \<Rightarrow> bool" where
  "active_ok st \<longleftrightarrow> (\<forall>c. nm_active st = Some c \<longrightarrow> c < length (nm_conns st) \<and> (is_open st c \<longrightarrow> om_get (nm_connections st) (conn_name st c) = Some c
    \<and> om_get (nm_accountsCache st) (conn_name st c) = Some (nm_activeAccounts st)))"

definition accounts_ok :: "network_env \<Rightarrow> network_state \<Rightarrow> bool" where
  "accounts_ok env st \<longleftrightarrow>
    (\<forall>n a. om_get (nm_accountsCache st) n = Some a \<longrightarrow> resolved_for env n a)
    \<and> (\<forall>n a. om_get (nm_resolverCache st) n = Some a \<longrightarrow> resolved_for env n a)
    \<and> (\<forall>i a. i < length (nm_promises st) \<longrightarrow> status_accounts (snd (nm_promises st ! i)) = Some a \<longrightarrow> resolved_for env (fst (nm_promises st ! i)) a)"

definition network_inv :: "network_env \<Rightarrow> network_state \<Rightarrow> bool" where
  "network_inv env st \<longleftrightarrow> registered_ok st \<and> inflight_ok st \<and> pending_ok st \<and> open_ok st \<and> active_ok st \<and> accounts_ok env st"

lemmas inv_parts = network_inv_def registered_ok_def inflight_ok_def pending_ok_def open_ok_def active_ok_def accounts_ok_def

lemma init_inv: "network_inv env network_init"
  by (simp add: inv_parts network_init_def pends_def is_open_def)

lemma nth_updated: "j < length xs \<Longrightarrow> xs[i := x] ! j = (if i = j then x else xs ! j)"
  by (metis nth_list_update_eq nth_list_update_neq)

text \<open>What only the connections and the promises decide.\<close>

lemma frame_simps [simp]:
  "pends (st\<lparr>nm_connections := cs\<rparr>) = pends st" "is_open (st\<lparr>nm_connections := cs\<rparr>) = is_open st"
  "conn_of (st\<lparr>nm_connections := cs\<rparr>) = conn_of st" "conn_name (st\<lparr>nm_connections := cs\<rparr>) = conn_name st"
  "pends (st\<lparr>nm_active := ac\<rparr>) = pends st" "is_open (st\<lparr>nm_active := ac\<rparr>) = is_open st"
  "conn_of (st\<lparr>nm_active := ac\<rparr>) = conn_of st" "conn_name (st\<lparr>nm_active := ac\<rparr>) = conn_name st"
  "pends (st\<lparr>nm_activeAccounts := aa\<rparr>) = pends st" "is_open (st\<lparr>nm_activeAccounts := aa\<rparr>) = is_open st"
  "conn_of (st\<lparr>nm_activeAccounts := aa\<rparr>) = conn_of st" "conn_name (st\<lparr>nm_activeAccounts := aa\<rparr>) = conn_name st"
  "pends (st\<lparr>nm_accountsCache := nc\<rparr>) = pends st" "is_open (st\<lparr>nm_accountsCache := nc\<rparr>) = is_open st"
  "conn_of (st\<lparr>nm_accountsCache := nc\<rparr>) = conn_of st" "conn_name (st\<lparr>nm_accountsCache := nc\<rparr>) = conn_name st"
  "pends (st\<lparr>nm_resolverCache := rc\<rparr>) = pends st" "is_open (st\<lparr>nm_resolverCache := rc\<rparr>) = is_open st"
  "conn_of (st\<lparr>nm_resolverCache := rc\<rparr>) = conn_of st" "conn_name (st\<lparr>nm_resolverCache := rc\<rparr>) = conn_name st"
  "pends (st\<lparr>nm_inFlight := fl\<rparr>) = pends st" "is_open (st\<lparr>nm_inFlight := fl\<rparr>) = is_open st"
  "conn_of (st\<lparr>nm_inFlight := fl\<rparr>) = conn_of st" "conn_name (st\<lparr>nm_inFlight := fl\<rparr>) = conn_name st"
  by (simp_all add: pends_def is_open_def conn_of_def conn_name_def fun_eq_iff)

text \<open>Closing.\<close>

lemma close_simps [simp]:
  "nm_connections (close_conn c st) = nm_connections st" "nm_active (close_conn c st) = nm_active st"
  "nm_activeAccounts (close_conn c st) = nm_activeAccounts st" "nm_accountsCache (close_conn c st) = nm_accountsCache st"
  "nm_resolverCache (close_conn c st) = nm_resolverCache st" "nm_promises (close_conn c st) = nm_promises st"
  "nm_inFlight (close_conn c st) = nm_inFlight st" "length (nm_conns (close_conn c st)) = length (nm_conns st)"
  "is_open (close_conn c st) c' \<longleftrightarrow> is_open st c' \<and> c' \<noteq> c" "conn_of (close_conn c st) c' n \<longleftrightarrow> conn_of st c' n"
  "pends (close_conn c st) i n c' \<longleftrightarrow> pends st i n c'"
  by (auto simp: close_conn_def is_open_def conn_of_def conn_name_def pends_def nth_updated split: if_splits)

lemma close_name [simp]: "is_open st c' \<Longrightarrow> conn_name (close_conn c st) c' = conn_name st c'"
  by (auto simp: close_conn_def is_open_def conn_name_def nth_updated)

lemma close_inv: "network_inv env st \<Longrightarrow> network_inv env (close_conn c st)"
  by (auto simp: inv_parts)

text \<open>A new status of a promise.\<close>

lemma status_simps [simp]:
  "nm_connections (set_status i v st) = nm_connections st" "nm_active (set_status i v st) = nm_active st"
  "nm_activeAccounts (set_status i v st) = nm_activeAccounts st" "nm_accountsCache (set_status i v st) = nm_accountsCache st"
  "nm_resolverCache (set_status i v st) = nm_resolverCache st" "nm_conns (set_status i v st) = nm_conns st"
  "nm_inFlight (set_status i v st) = nm_inFlight st" "length (nm_promises (set_status i v st)) = length (nm_promises st)"
  "is_open (set_status i v st) c \<longleftrightarrow> is_open st c" "conn_of (set_status i v st) c n \<longleftrightarrow> conn_of st c n"
  "conn_name (set_status i v st) c = conn_name st c"
  by (auto simp: set_status_def is_open_def conn_of_def conn_name_def)

lemma status_promise:
  "j < length (nm_promises st) \<Longrightarrow> nm_promises (set_status i v st) ! j = (if j = i then (fst (nm_promises st ! i), v) else nm_promises st ! j)"
  by (simp add: set_status_def nth_updated)

lemma status_parts [simp]:
  "j < length (nm_promises st) \<Longrightarrow> fst (nm_promises (set_status i v st) ! j) = fst (nm_promises st ! j)"
  "j < length (nm_promises st) \<Longrightarrow> snd (nm_promises (set_status i v st) ! j) = (if j = i then v else snd (nm_promises st ! j))"
  by (simp_all add: status_promise)

lemma status_pends:
  "pends (set_status i v st) j n c \<longleftrightarrow> (if j = i then j < length (nm_promises st) \<and> fst (nm_promises st ! i) = n \<and> pending_conn v = Some c else pends st j n c)"
  by (auto simp: pends_def)

lemma promise_pends: "promise_is st i (n, v) \<Longrightarrow> pending_conn v = Some c \<Longrightarrow> pends st i n c"
  by (simp add: promise_is_def pends_def)

lemma same_pending_inv:
  assumes "network_inv env st" and "promise_is st i (n, v)" and "pending_conn v = pending_conn w"
    and "\<And>a. status_accounts w = Some a \<Longrightarrow> resolved_for env n a"
  shows "network_inv env (set_status i w st)"
proof -
  have "pends (set_status i w st) j m c \<longleftrightarrow> pends st j m c" for j m c
    using assms(2,3) by (auto simp: status_pends promise_is_def pends_def [of st])
  then show ?thesis using assms(1,2,4) by (auto simp: inv_parts promise_is_def split: if_splits)
qed

lemma cached_inv:
  assumes "network_inv env st" and "promise_is st i (n, Awaiting c (Some a))"
  shows "network_inv env (set_status i (Resolved c a) st)"
proof -
  have "resolved_for env n a" using assms by (auto simp: inv_parts promise_is_def)
  then show ?thesis by (intro same_pending_inv [OF assms]) simp_all
qed

lemma ready_inv:
  assumes "network_inv env st" and "promise_is st i (n, Awaiting c None)" and "resolved_for env n a"
  shows "network_inv env (accounts_ready i n c a st)"
proof -
  let ?st = "st\<lparr>nm_resolverCache := om_set n a (nm_resolverCache st)\<rparr>"
  have "network_inv env ?st"
    using assms(1,3) by (auto simp: inv_parts om_get_set)
  then show ?thesis
    unfolding accounts_ready_def using assms(2,3) by (intro same_pending_inv) (auto simp: promise_is_def)
qed

lemma failed_inv:
  assumes "network_inv env st" and "promise_is st i (n, Awaiting c None)"
  shows "network_inv env (accounts_failed i c e st)"
proof -
  have c: "network_inv env (close_conn c st)" using close_inv assms(1) by blast
  have p: "pends st i n c" using assms(2) promise_pends by fastforce
  show ?thesis
    unfolding accounts_failed_def using c p
    by (auto simp: inv_parts status_pends split: if_splits) (metis close_simps pends_def option.inject)+
qed

lemma pendsD:
  assumes "network_inv env st" and "pends st i n c"
  shows "om_get (nm_inFlight st) n = Some i" "conn_of st c n" "om_get (nm_connections st) n = Some c' \<Longrightarrow> \<not> is_open st c'"
  using assms by (auto simp: network_inv_def pending_ok_def)

lemma pends_unique:
  assumes "network_inv env st" and "pends st i n c" and "pends st j n c'"
  shows "i = j \<and> c = c'"
proof -
  have "i = j" using pendsD(1) [OF assms(1,2)] pendsD(1) [OF assms(1,3)] by simp
  then show ?thesis using assms(2,3) by (simp add: pends_def)
qed

lemma openD:
  assumes "network_inv env st" and "is_open st c"
  shows "om_get (nm_connections st) (conn_name st c) = Some c \<or> (\<exists>i. pends st i (conn_name st c) c)"
proof -
  have "conn_name st c = n" if "pends st i n c" for i n using pendsD(2) [OF assms(1) that] by (simp add: conn_of_def)
  then show ?thesis using assms by (auto simp: network_inv_def open_ok_def)
qed

lemma taken_inv:
  assumes "network_inv env st" and "promise_is st i (n, Resolved c a)"
  shows "network_inv env (take_over i n c a st)"
proof -
  let ?st = "st\<lparr>nm_connections := om_set n c (nm_connections st), nm_active := Some c, nm_accountsCache := om_set n a (nm_accountsCache st),
    nm_activeAccounts := a\<rparr>"
  have p: "pends st i n c" using assms(2) promise_pends by fastforce
  have c: "conn_of st c n" "resolved_for env n a"
    using pendsD(2) [OF assms(1) p] assms by (auto simp: network_inv_def accounts_ok_def promise_is_def)
  have others: "j = i" if "pends st j n c'" for j c' using pends_unique [OF assms(1) that p] by simp
  have only: "c' = c" if "is_open st c'" "conn_name st c' = n" for c'
    using openD [OF assms(1) that(1)] that pendsD(3) [OF assms(1) p] pends_unique [OF assms(1) p] by auto
  have pend: "pends (take_over i n c a st) j m d \<longleftrightarrow> pends st j m d \<and> j \<noteq> i" for j m d
    unfolding take_over_def status_pends by (auto simp: pends_def)
  have conn: "conn_of (take_over i n c a st) d m = conn_of st d m" "is_open (take_over i n c a st) d = is_open st d"
    "conn_name (take_over i n c a st) d = conn_name st d" for d m
    by (simp_all add: take_over_def conn_of_def is_open_def conn_name_def)
  have parts: "nm_connections (take_over i n c a st) = om_set n c (nm_connections st)" "nm_active (take_over i n c a st) = Some c"
    "nm_accountsCache (take_over i n c a st) = om_set n a (nm_accountsCache st)" "nm_activeAccounts (take_over i n c a st) = a"
    "nm_resolverCache (take_over i n c a st) = nm_resolverCache st" "nm_inFlight (take_over i n c a st) = nm_inFlight st"
    "length (nm_promises (take_over i n c a st)) = length (nm_promises st)" "nm_conns (take_over i n c a st) = nm_conns st"
    by (simp_all add: take_over_def)
  have "registered_ok (take_over i n c a st)" using assms(1) c(1) by (auto simp: inv_parts parts conn om_get_set)
  moreover have "inflight_ok (take_over i n c a st)" using assms(1) by (auto simp: inv_parts parts) (auto simp: take_over_def)
  moreover have "pending_ok (take_over i n c a st)"
    using assms(1) others by (auto simp: inv_parts parts conn pend om_get_set)
  moreover have "open_ok (take_over i n c a st)"
    unfolding open_ok_def conn parts pend om_get_set
  proof (intro allI impI)
    fix d assume d: "is_open st d"
    show "((om_get (nm_connections st))(n \<mapsto> c)) (conn_name st d) = Some d \<or> (\<exists>j m. pends st j m d \<and> j \<noteq> i)"
    proof (cases "conn_name st d = n")
      case True
      then show ?thesis using only [OF d] by simp
    next
      case False
      have "j \<noteq> i" if "pends st j (conn_name st d) d" for j using that False p by (auto simp: pends_def)
      then show ?thesis using False openD [OF assms(1) d] by auto
    qed
  qed
  moreover have "active_ok (take_over i n c a st)" using c(1) by (auto simp: active_ok_def conn parts om_get_set conn_of_def)
  moreover have "accounts_ok env (take_over i n c a st)"
    using assms(1) c(2) by (auto simp: inv_parts parts om_get_set) (auto simp: take_over_def split: if_splits)
  ultimately show ?thesis by (simp add: network_inv_def)
qed

lemma forget_inv:
  assumes "network_inv env st" and "promise_is st i (n, v)" and "pending_conn v = None"
  shows "network_inv env (forget_connect i n st)"
proof (cases "om_get (nm_inFlight st) n = Some i")
  case True
  have "\<not> pends st i m c" for m c using assms(2,3) by (simp add: pends_def promise_is_def)
  then have "pends st j n c \<Longrightarrow> False" for j c using pendsD(1) [OF assms(1)] True by fastforce
  then show ?thesis
    using True assms(1)
    by (auto simp: inv_parts forget_connect_def om_get_delete)
next
  case False
  then show ?thesis using assms(1) by (simp add: forget_connect_def)
qed

text \<open>A closed connection may be forgotten, and so may the active one.\<close>

lemma drop_closed_inv:
  assumes inv: "network_inv env st" and closed: "\<And>c. om_get (nm_connections st) n = Some c \<Longrightarrow> \<not> is_open st c"
  shows "network_inv env (st\<lparr>nm_connections := om_delete n (nm_connections st)\<rparr>)"
proof -
  let ?st = "st\<lparr>nm_connections := om_delete n (nm_connections st)\<rparr>"
  have kept: "om_get (om_delete n (nm_connections st)) (conn_name st c) = Some c"
    if "is_open st c" "om_get (nm_connections st) (conn_name st c) = Some c" for c
    using that closed by (auto simp: om_get_delete)
  have "registered_ok ?st" "inflight_ok ?st" "pending_ok ?st" "accounts_ok env ?st"
    using inv by (auto simp: inv_parts om_get_delete)
  moreover have "open_ok ?st" using inv kept by (auto simp: network_inv_def open_ok_def)
  moreover have "active_ok ?st" using inv kept by (auto simp: network_inv_def active_ok_def)
  ultimately show ?thesis by (simp add: network_inv_def)
qed

lemma set_active_inv:
  assumes "network_inv env st"
    and "\<And>c. a = Some c \<Longrightarrow> c < length (nm_conns st)"
    and "\<And>c. a = Some c \<Longrightarrow> is_open st c \<Longrightarrow> om_get (nm_connections st) (conn_name st c) = Some c \<and> om_get (nm_accountsCache st) (conn_name st c) = Some accs"
  shows "network_inv env (st\<lparr>nm_active := a, nm_activeAccounts := accs\<rparr>)"
  using assms by (simp add: inv_parts)

lemma usable_inv:
  assumes "network_inv env st"
  shows "network_inv env (snd (getUsableActiveConnection st))"
proof (cases "nm_active st")
  case None
  then show ?thesis using assms by (simp add: getUsableActiveConnection_def)
next
  case (Some c)
  have cleared: "network_inv env (st\<lparr>nm_active := None, nm_activeAccounts := []\<rparr>)" using set_active_inv [OF assms, of None] by simp
  have "network_inv env (st\<lparr>nm_active := None, nm_activeAccounts := [], nm_connections := om_delete (conn_name st c) (nm_connections st)\<rparr>)"
    if "\<not> is_open st c" "om_get (nm_connections st) (conn_name st c) = Some c"
    using drop_closed_inv [OF cleared, of "conn_name st c"] that by simp
  then show ?thesis using Some assms cleared by (simp add: getUsableActiveConnection_def)
qed

lemma registeredD: "network_inv env st \<Longrightarrow> om_get (nm_connections st) n = Some c \<Longrightarrow> conn_of st c n \<and> (\<exists>a. om_get (nm_accountsCache st) n = Some a)"
  by (auto simp: network_inv_def registered_ok_def)

text \<open>Starting: the new connection is the one its promise will hand out.\<close>

lemma start_inv:
  assumes inv: "network_inv env st" and "om_get (nm_inFlight st) n = None"
    and free: "\<And>c. om_get (nm_connections st) n = Some c \<Longrightarrow> \<not> is_open st c"
  shows "network_inv env (snd (start_connect env n setup st))"
proof -
  let ?st = "snd (start_connect env n setup st)"
  let ?i = "length (nm_promises st)" and ?c = "length (nm_conns st)"
  have parts: "nm_connections ?st = nm_connections st" "nm_active ?st = nm_active st" "nm_activeAccounts ?st = nm_activeAccounts st"
    "nm_accountsCache ?st = nm_accountsCache st" "nm_resolverCache ?st = nm_resolverCache st" "nm_inFlight ?st = om_set n ?i (nm_inFlight st)"
    "nm_promises ?st = nm_promises st @ [(n, Awaiting ?c (om_get (nm_resolverCache st) n))]"
    by (simp_all add: start_connect_def Let_def)
  have opens: "is_open ?st d \<longleftrightarrow> d = ?c \<or> is_open st d" for d
    by (auto simp: start_connect_def Let_def is_open_def nth_append)
  have old_name: "d < ?c \<Longrightarrow> conn_name ?st d = conn_name st d" for d
    by (simp add: start_connect_def Let_def conn_name_def nth_append)
  have new_name: "conn_name ?st ?c = n"
    by (simp add: start_connect_def Let_def conn_name_def createConnection_def split: network_type.split)
  have convs: "conn_of ?st d m \<longleftrightarrow> d = ?c \<and> m = n \<or> conn_of st d m" for d m
    using old_name new_name by (auto simp: conn_of_def less_Suc_eq start_connect_def Let_def)
  have pend: "pends ?st j m d \<longleftrightarrow> (j = ?i \<and> m = n \<and> d = ?c) \<or> pends st j m d" for j m d
    by (auto simp: pends_def parts nth_append less_Suc_eq)
  have low: "is_open st d \<Longrightarrow> d < ?c" for d by (simp add: is_open_def)
  have no_old: "\<not> pends st j n d" for j d using pendsD(1) [OF inv] assms(2) by fastforce
  have reg: "om_get (nm_connections st) m = Some d \<Longrightarrow> d < ?c" for m d using registeredD [OF inv] by (auto simp: conn_of_def)
  have "registered_ok ?st" using inv by (auto simp: network_inv_def registered_ok_def parts convs)
  moreover have "inflight_ok ?st" using inv by (auto simp: network_inv_def inflight_ok_def parts om_get_set nth_append less_Suc_eq)
  moreover have "pending_ok ?st"
    using inv no_old free reg unfolding network_inv_def pending_ok_def parts pend convs opens om_get_set by fastforce
  moreover have "open_ok ?st"
    unfolding open_ok_def opens parts pend
  proof (intro allI impI)
    fix d assume d: "d = ?c \<or> is_open st d"
    show "om_get (nm_connections st) (conn_name ?st d) = Some d \<or> (\<exists>j m. (j = ?i \<and> m = n \<and> d = ?c) \<or> pends st j m d)"
    proof (cases "d = ?c")
      case False
      then show ?thesis using d openD [OF inv, of d] old_name [OF low] by auto
    qed auto
  qed
  moreover have "active_ok ?st"
    using inv old_name by (auto simp: network_inv_def active_ok_def parts opens) (simp_all add: start_connect_def Let_def)
  moreover have "accounts_ok env ?st"
    using inv by (auto simp: network_inv_def accounts_ok_def parts nth_append less_Suc_eq)
  ultimately show ?thesis by (simp add: network_inv_def)
qed

lemma join_inv:
  assumes "network_inv env st" and "\<And>c. om_get (nm_connections st) n = Some c \<Longrightarrow> \<not> is_open st c"
  shows "network_inv env (snd (join_or_start env n setup st))"
  using assms start_inv by (simp add: join_or_start_def split: option.split)

lemma connect_inv:
  assumes inv: "network_inv env st"
  shows "network_inv env (snd (connect env nameOpt st))"
proof -
  let ?n = "case nameOpt of Some n \<Rightarrow> n | None \<Rightarrow> ne_defaultNetwork env"
  show ?thesis
  proof (cases "om_get (ne_networks env) ?n")
    case None
    then show ?thesis using inv by (simp add: connect_def)
  next
    case net: (Some cfg)
    show ?thesis
    proof (cases "om_get (nm_connections st) ?n")
      case None
      then have "network_inv env (snd (join_or_start env ?n cfg st))" by (intro join_inv [OF inv]) simp
      then show ?thesis using net None by (simp add: connect_def)
    next
      case (Some c)
      have c: "conn_of st c ?n" "om_get (nm_accountsCache st) ?n \<noteq> None" using registeredD [OF inv Some] by auto
      have "network_inv env (st\<lparr>nm_active := Some c, nm_activeAccounts := the (om_get (nm_accountsCache st) ?n)\<rparr>)"
        using c Some by (intro set_active_inv [OF inv]) (auto simp: conn_of_def)
      moreover have "network_inv env (snd (join_or_start env ?n cfg (st\<lparr>nm_connections := om_delete ?n (nm_connections st)\<rparr>)))"
        if "\<not> is_open st c"
        using that Some by (intro join_inv drop_closed_inv [OF inv]) (auto simp: om_get_delete)
      ultimately show ?thesis using net Some c(2) by (auto simp: connect_def Let_def split: option.splits)
    qed
  qed
qed

text \<open>Disconnecting closes what is registered.\<close>

lemma fold_close [simp]:
  "nm_connections (fold close_conn cs st) = nm_connections st" "nm_active (fold close_conn cs st) = nm_active st"
  "nm_activeAccounts (fold close_conn cs st) = nm_activeAccounts st" "nm_accountsCache (fold close_conn cs st) = nm_accountsCache st"
  "nm_resolverCache (fold close_conn cs st) = nm_resolverCache st" "nm_promises (fold close_conn cs st) = nm_promises st"
  "nm_inFlight (fold close_conn cs st) = nm_inFlight st" "length (nm_conns (fold close_conn cs st)) = length (nm_conns st)"
  "is_open (fold close_conn cs st) c' \<longleftrightarrow> is_open st c' \<and> c' \<notin> set cs" "conn_of (fold close_conn cs st) c' n \<longleftrightarrow> conn_of st c' n"
  "pends (fold close_conn cs st) i n c' \<longleftrightarrow> pends st i n c'"
  by (induction cs arbitrary: st) auto

lemma disconnect_inv:
  assumes inv: "network_inv env st"
  shows "network_inv env (disconnectAll st)"
proof -
  have pend: "pends (disconnectAll st) i n c \<longleftrightarrow> pends st i n c" for i n c by (simp add: disconnectAll_def)
  have "\<exists>i n. pends st i n c" if "is_open (disconnectAll st) c" for c
  proof -
    have o: "is_open st c" "c \<notin> snd ` set (nm_connections st)" using that by (simp_all add: disconnectAll_def)
    then have "om_get (nm_connections st) (conn_name st c) \<noteq> Some c" by (force dest: map_of_SomeD)
    then show ?thesis using openD [OF inv o(1)] by blast
  qed
  then have "open_ok (disconnectAll st)" by (simp add: open_ok_def pend)
  then show ?thesis using inv by (auto simp: inv_parts pend) (simp_all add: disconnectAll_def)
qed

lemma resolved_forI: "resolve_accounts (ne_accounts env) derive (net_of env n) n = Inr a \<Longrightarrow> resolved_for env n a"
  by (auto simp: resolved_for_def)

lemma network_reachable_inv: "network_reachable env st \<Longrightarrow> network_inv env st"
  unfolding network_reachable_def
proof (induction rule: rtranclp_induct)
  case base
  then show ?case by (rule init_inv)
next
  case (step st st')
  from step(2) show ?case
    by cases (use step(3) in \<open>auto intro: connect_inv cached_inv ready_inv failed_inv taken_inv forget_inv close_inv disconnect_inv usable_inv
      resolved_forI\<close>)
qed

section \<open>What clients see\<close>

lemma pending_names: "network_inv env st \<Longrightarrow> pends st i n c \<Longrightarrow> conn_name st c = n"
  using pendsD(2) by (simp add: conn_of_def)

lemma open_unique:
  assumes inv: "network_inv env st" and "is_open st c" "is_open st d" "conn_name st c = n" "conn_name st d = n"
  shows "c = d"
proof (cases "\<exists>i e. pends st i n e")
  case True
  then obtain i e where p: "pends st i n e" by blast
  have "x = e" if "is_open st x" "conn_name st x = n" for x
    using openD [OF inv that(1)] pendsD(3) [OF inv p] pends_unique [OF inv p] that by auto
  then have "c = e" "d = e" using assms(2-5) by blast+
  then show ?thesis by simp
next
  case False
  then have "om_get (nm_connections st) n = Some x" if "is_open st x" "conn_name st x = n" for x
    using openD [OF inv that(1)] that(2) by auto
  then have "Some c = Some d" using assms by metis
  then show ?thesis by simp
qed

text \<open>
  C20: In every interleaving of connects, account resolutions, closes and disconnects there is at
  most one open connection per network, and it is the registered one or the one a connect in
  flight is about to register; no two connects of a network are in flight at once.
\<close>

theorem one_connection_per_network:
  assumes "network_reachable env st"
  shows "(\<forall>c d. is_open st c \<and> is_open st d \<and> conn_name st c = conn_name st d \<longrightarrow> c = d)
    \<and> (\<forall>c. is_open st c \<longrightarrow> om_get (nm_connections st) (conn_name st c) = Some c \<or> (\<exists>i. pends st i (conn_name st c) c))
    \<and> (\<forall>i j n c d. pends st i n c \<and> pends st j n d \<longrightarrow> i = j)"
proof -
  note inv = network_reachable_inv [OF assms]
  show ?thesis using open_unique [OF inv] openD [OF inv] pends_unique [OF inv] by blast
qed

text \<open>
  C21: The named accounts a client reads while a connection is active are those the configuration
  gives for that connection's network, resolved in full: whatever connects, closes and disconnects
  happened before, and in whatever order their account resolutions came back.
\<close>

theorem accounts_follow_connection:
  assumes "network_reachable env st" and "getUsableActiveConnection st = (Some c, st')"
  shows "\<exists>derive. resolve_accounts (ne_accounts env) derive (net_of env (conn_name st c)) (conn_name st c) = Inr (fst (getNamedAccounts st))"
proof -
  have c: "nm_active st = Some c" "is_open st c"
    using assms(2) by (auto simp: getUsableActiveConnection_def split: option.splits if_splits)
  then have a: "fst (getNamedAccounts st) = nm_activeAccounts st" by (simp add: getNamedAccounts_def getUsableActiveConnection_def)
  have "om_get (nm_accountsCache st) (conn_name st c) = Some (nm_activeAccounts st)"
    using network_reachable_inv [OF assms(1)] c by (auto simp: network_inv_def active_ok_def)
  then have "resolved_for env (conn_name st c) (nm_activeAccounts st)"
    using network_reachable_inv [OF assms(1)] by (auto simp: network_inv_def accounts_ok_def)
  then show ?thesis by (simp add: resolved_for_def a)
qed

text \<open>A development network with one named account; connecting to it, and a second connect that waits along.\<close>

definition ex_network_env :: network_env where
  "ex_network_env = \<lparr> ne_networks = [(''devnode'', \<lparr> ns_type = NetDevnode, ns_network = ''testnet'', ns_socketAddr = ''127.0.0.1:3030'',
      ns_endpoint = [], ns_accountKeys = [], ns_privateKey = None, ns_apiKey = None \<rparr>)],
    ne_defaultNetwork = ''devnode'', ne_accounts = [(''deployer'', \<lparr> ae_networks = [], ae_default = Some (IndexValue 1) \<rparr>)],
    ne_egress = None, ne_urlHost = (\<lambda>_. Some ''127.0.0.1:3030'') \<rparr>"

definition ex_accounts :: named_accounts where
  "ex_accounts = projr (resolve_accounts (ne_accounts ex_network_env) (\<lambda>_. Inl []) NetDevnode ''devnode'')"

definition ex_connecting :: network_state where
  "ex_connecting = snd (connect ex_network_env None (snd (connect ex_network_env None network_init)))"

definition ex_connected :: network_state where
  "ex_connected = take_over 0 ''devnode'' 0 ex_accounts (accounts_ready 0 ''devnode'' 0 ex_accounts ex_connecting)"

lemma ex_resolves: "resolve_accounts (ne_accounts ex_network_env) (\<lambda>_. Inl []) (net_of ex_network_env ''devnode'') ''devnode'' = Inr ex_accounts"
proof -
  have "\<not> isl (resolve_accounts (ne_accounts ex_network_env) (\<lambda>_. Inl []) NetDevnode ''devnode'')" by code_simp
  moreover have "net_of ex_network_env ''devnode'' = NetDevnode" by code_simp
  ultimately show ?thesis by (simp add: ex_accounts_def)
qed

lemma ex_connecting_reachable: "network_reachable ex_network_env ex_connecting"
proof -
  have "network_step ex_network_env network_init (snd (connect ex_network_env None network_init))" by (rule network_step.call)
  moreover have "network_step ex_network_env (snd (connect ex_network_env None network_init)) ex_connecting"
    unfolding ex_connecting_def by (rule network_step.call)
  ultimately show ?thesis unfolding network_reachable_def by (meson rtranclp.simps)
qed

lemma ex_awaiting: "promise_is ex_connecting 0 (''devnode'', Awaiting 0 None)"
  by code_simp

lemma ex_ready_reachable: "network_reachable ex_network_env (accounts_ready 0 ''devnode'' 0 ex_accounts ex_connecting)"
  using ex_connecting_reachable network_step.resolved [OF ex_awaiting ex_resolves]
  unfolding network_reachable_def by (rule rtranclp.rtrancl_into_rtrancl)

lemma ready_promise: "i < length (nm_promises st) \<Longrightarrow> fst (nm_promises st ! i) = n \<Longrightarrow> promise_is (accounts_ready i n c a st) i (n, Resolved c a)"
  by (simp add: promise_is_def accounts_ready_def set_status_def)

lemma ex_connected_reachable: "network_reachable ex_network_env ex_connected"
proof -
  have "promise_is (accounts_ready 0 ''devnode'' 0 ex_accounts ex_connecting) 0 (''devnode'', Resolved 0 ex_accounts)"
    using ex_awaiting by (intro ready_promise) (auto simp: promise_is_def)
  then have "network_step ex_network_env (accounts_ready 0 ''devnode'' 0 ex_accounts ex_connecting) ex_connected"
    unfolding ex_connected_def by (rule network_step.taken)
  then show ?thesis using ex_ready_reachable unfolding network_reachable_def by (rule rtranclp.rtrancl_into_rtrancl [rotated])
qed

theorem one_connection_per_network_witness:
  "is_open ex_connected 0 \<and> (om_get (nm_connections ex_connected) (conn_name ex_connected 0) = Some 0 \<or> (\<exists>i. pends ex_connected i (conn_name ex_connected 0) 0))"
proof -
  have "is_open ex_connected 0" by code_simp
  then show ?thesis using one_connection_per_network [OF ex_connected_reachable] by blast
qed

theorem accounts_follow_connection_witness:
  "\<exists>derive. resolve_accounts (ne_accounts ex_network_env) derive NetDevnode ''devnode'' = Inr (fst (getNamedAccounts ex_connected))"
proof -
  have "fst (getUsableActiveConnection ex_connected) = Some 0" by code_simp
  then have "getUsableActiveConnection ex_connected = (Some 0, snd (getUsableActiveConnection ex_connected))" by (simp add: prod_eq_iff)
  moreover have "conn_name ex_connected 0 = ''devnode''" "net_of ex_network_env ''devnode'' = NetDevnode" by code_simp+
  ultimately show ?thesis using accounts_follow_connection [OF ex_connected_reachable] by fastforce
qed

text \<open>
  Disconnecting does not reach a connect in flight: when its accounts arrive, it registers an open
  connection and makes it the active one, after everything was disconnected.
\<close>

lemma disconnect_misses_in_flight:
  "let st = take_over 0 ''devnode'' 0 ex_accounts (accounts_ready 0 ''devnode'' 0 ex_accounts (disconnectAll ex_connecting))
   in network_reachable ex_network_env st \<and> nm_active st = Some 0 \<and> is_open st 0"
proof -
  let ?d = "disconnectAll ex_connecting"
  let ?r = "accounts_ready 0 ''devnode'' 0 ex_accounts ?d"
  have p: "promise_is ?d 0 (''devnode'', Awaiting 0 None)" by code_simp
  have "network_step ex_network_env ex_connecting ?d" by (rule network_step.disconnected)
  moreover have "network_step ex_network_env ?d ?r" by (rule network_step.resolved [OF p ex_resolves])
  moreover have "network_step ex_network_env ?r (take_over 0 ''devnode'' 0 ex_accounts ?r)"
    using p by (intro network_step.taken ready_promise) (auto simp: promise_is_def)
  ultimately have "network_reachable ex_network_env (take_over 0 ''devnode'' 0 ex_accounts ?r)"
    using ex_connecting_reachable unfolding network_reachable_def by (meson rtranclp.rtrancl_into_rtrancl)
  moreover have "is_open (take_over 0 ''devnode'' 0 ex_accounts ?r) 0" by code_simp
  moreover have "nm_active (take_over 0 ''devnode'' 0 ex_accounts ?r) = Some 0" by (simp add: take_over_def)
  ultimately show ?thesis by (simp add: Let_def)
qed

end
