(* ===== verification/Confirmation.thy ===== *)
theory Confirmation imports Abi begin

text \<open>
  Following a broadcast transaction until it is confirmed and reading its outputs
  (\<^verbatim>\<open>packages/network/src/connection.ts\<close>, \<^verbatim>\<open>waitForConfirmation\<close> and what it calls, with
  \<^verbatim>\<open>transition-selector.ts\<close>): the three polling phases, the classifiers of their responses, the
  strict parser of the confirmed body, and the selection of the one transition whose outputs are
  returned. The node is a record of its answers over time; \<^verbatim>\<open>JSON.parse\<close> is the argument \<open>json\<close>.
\<close>

section \<open>Responses and errors\<close>

record http_response =
  hr_status :: nat
  hr_text :: "string option"

definition hr_ok :: "http_response \<Rightarrow> bool" where
  "hr_ok r \<longleftrightarrow> 200 \<le> hr_status r \<and> hr_status r \<le> 299"

text \<open>
  What the node answers to a request of a URL, with an authorization key, issued at a time in
  milliseconds: nothing when the transport fails. The answer and its body are there after
  \<open>nd_latency\<close>; a sleep takes as long as asked and \<open>nd_drift\<close> more.
\<close>

record node =
  nd_answer :: "string \<Rightarrow> string option \<Rightarrow> int \<Rightarrow> http_response option"
  nd_latency :: "string \<Rightarrow> int \<Rightarrow> nat"
  nd_drift :: "int \<Rightarrow> nat"

type_synonym json_parser = "string \<Rightarrow> jsval option"

definition body_json :: "json_parser \<Rightarrow> http_response \<Rightarrow> jsval option" where
  "body_json json r = (case hr_text r of None \<Rightarrow> None | Some s \<Rightarrow> json s)"

datatype confirm_stage = StageConfirmed | StageBlockHash | StageBlockHeight

datatype confirm_error =
    ShapeParse string string
  | ConfirmTimeout string confirm_stage int
  | TransitionRejected string string string jsnum
  | TransitionSelection string string nat "string list" "string option"
  | ConfirmClosed

text \<open>One poll attempt's verdict.\<close>

datatype 'a outcome = Confirmed 'a | Retryable | FatalShape confirm_error

section \<open>Polling\<close>

definition CONFIRMATION_POLL_INTERVAL_MS :: int where
  "CONFIRMATION_POLL_INTERVAL_MS = 1000"

definition DEFAULT_CONFIRMATION_TIMEOUT_MS :: int where
  "DEFAULT_CONFIRMATION_TIMEOUT_MS = 60000"

text \<open>The clock is the state: \<^verbatim>\<open>Date.now()\<close> reads it, a request and a sleep advance it.\<close>

function pollPhase :: "node \<Rightarrow> string \<Rightarrow> string option \<Rightarrow> int \<Rightarrow> (http_response option \<Rightarrow> 'a outcome) \<Rightarrow> confirm_error
    \<Rightarrow> (int, confirm_error, 'a) act" where
  "pollPhase nd url key deadline classify onTimeout t =
    (if t < deadline then
       (let t' = t + int (nd_latency nd url t)
        in case classify (nd_answer nd url key t) of
             Confirmed v \<Rightarrow> (Inr v, t')
           | FatalShape e \<Rightarrow> (Inl e, t')
           | Retryable \<Rightarrow>
               pollPhase nd url key deadline classify onTimeout
                 (t' + CONFIRMATION_POLL_INTERVAL_MS + int (nd_drift nd t')))
     else (Inl onTimeout, t))"
  by pat_completeness auto

termination
  by (relation "measure (\<lambda>(nd, url, key, deadline, c, e, t). nat (deadline - t))")
    (auto simp: Let_def CONFIRMATION_POLL_INTERVAL_MS_def)

declare pollPhase.simps [simp del]

section \<open>The classifiers\<close>

definition classifyConfirmedBody :: "json_parser \<Rightarrow> http_response option \<Rightarrow> string \<Rightarrow> jsval outcome" where
  "classifyConfirmedBody json response txId =
    (case response of None \<Rightarrow> Retryable | Some r \<Rightarrow>
       if \<not> hr_ok r then Retryable
       else case body_json json r of
           None \<Rightarrow> FatalShape (ShapeParse txId ''body'')
         | Some parsed \<Rightarrow> if \<not> is_object parsed then FatalShape (ShapeParse txId ''body'') else Confirmed parsed)"

definition dquote :: char where "dquote = CHR 0x22"

text \<open>A text that starts with a double quote parses as a string, if it parses.\<close>

definition classifyBlockHash :: "json_parser \<Rightarrow> http_response option \<Rightarrow> jsval outcome" where
  "classifyBlockHash json response =
    (case response of None \<Rightarrow> Retryable | Some r \<Rightarrow>
       if \<not> hr_ok r then Retryable
       else case hr_text r of
           None \<Rightarrow> Retryable
         | Some body \<Rightarrow>
             (let raw = js_trim body
              in if starts_with raw [dquote] \<and> ends_with raw [dquote]
                 then (case json raw of Some h \<Rightarrow> Confirmed h | None \<Rightarrow> Retryable)
                 else Confirmed (JStr raw)))"

definition classifyBlockHeight :: "json_parser \<Rightarrow> http_response option \<Rightarrow> string \<Rightarrow> jsnum outcome" where
  "classifyBlockHeight json response txId =
    (case response of None \<Rightarrow> Retryable | Some r \<Rightarrow>
       if \<not> hr_ok r then Retryable
       else case body_json json r of
           None \<Rightarrow> FatalShape (ShapeParse txId ''body'')
         | Some parsed \<Rightarrow>
             if \<not> is_object parsed then FatalShape (ShapeParse txId ''body'')
             else (case prop_of (prop_of (prop_of parsed ''header'') ''metadata'') ''height'' of
                 JNum h \<Rightarrow> Confirmed h
               | _ \<Rightarrow> FatalShape (ShapeParse txId ''header.metadata.height'')))"

section \<open>Parsing the confirmed body\<close>

datatype raw_output = OutValue string | IdOnly string string

record confirmed_transition =
  ct_programId :: string
  ct_transitionName :: string
  ct_rawOutputs :: "raw_output list"
  ct_tpk :: string

definition indexed :: "string \<Rightarrow> nat \<Rightarrow> string" where
  "indexed p i = p @ ''['' @ nat_str i @ '']''"

fun has_own :: "jsval \<Rightarrow> string \<Rightarrow> bool" where
  "has_own (JObj m) k = om_has m k"
| "has_own _ k = False"

definition nonempty_string :: "jsval \<Rightarrow> string option" where
  "nonempty_string v = (case v of JStr s \<Rightarrow> if s = [] then None else Some s | _ \<Rightarrow> None)"

definition required_string :: "string \<Rightarrow> string \<Rightarrow> jsval \<Rightarrow> confirm_error + string" where
  "required_string txId field v = (case nonempty_string v of Some s \<Rightarrow> Inr s | None \<Rightarrow> Inl (ShapeParse txId field))"

definition parseOutput :: "string \<Rightarrow> string \<Rightarrow> nat \<times> jsval \<Rightarrow> confirm_error + raw_output" where
  "parseOutput txId path e =
    (let outputIndex = fst e; output = snd e; here = indexed (path @ ''.outputs'') outputIndex
     in if \<not> is_object output then Inl (ShapeParse txId here)
        else if \<not> has_own output ''value'' then
          bindR (required_string txId (here @ ''.id'') (prop_of output ''id'')) (\<lambda>id'.
            Inr (IdOnly id' (case nonempty_string (prop_of output ''type'') of Some ty \<Rightarrow> ty | None \<Rightarrow> ''unknown'')))
        else (case prop_of output ''value'' of
            JStr s \<Rightarrow> Inr (OutValue s)
          | _ \<Rightarrow> Inl (ShapeParse txId (here @ ''.value''))))"

definition parseTransition :: "string \<Rightarrow> nat \<times> jsval \<Rightarrow> confirm_error + confirmed_transition" where
  "parseTransition txId e =
    (let entry = snd e; path = indexed ''transaction.execution.transitions'' (fst e)
     in if \<not> is_object entry then Inl (ShapeParse txId path)
        else
          bindR (required_string txId (path @ ''.program'') (prop_of entry ''program'')) (\<lambda>programId.
          bindR (required_string txId (path @ ''.function'') (prop_of entry ''function'')) (\<lambda>transitionName.
          bindR (required_string txId (path @ ''.tpk'') (prop_of entry ''tpk'')) (\<lambda>tpk.
            case prop_of entry ''outputs'' of
              JUndef \<Rightarrow> Inr \<lparr>ct_programId = programId, ct_transitionName = transitionName, ct_rawOutputs = [], ct_tpk = tpk\<rparr>
            | JNull \<Rightarrow> Inr \<lparr>ct_programId = programId, ct_transitionName = transitionName, ct_rawOutputs = [], ct_tpk = tpk\<rparr>
            | JArr outs \<Rightarrow>
                bindR (mapR (parseOutput txId path) (List.enumerate 0 outs)) (\<lambda>rs.
                  Inr \<lparr>ct_programId = programId, ct_transitionName = transitionName, ct_rawOutputs = rs, ct_tpk = tpk\<rparr>)
            | _ \<Rightarrow> Inl (ShapeParse txId (path @ ''.outputs''))))))"

definition parseConfirmedTransitions :: "jsval \<Rightarrow> string \<Rightarrow> confirm_error + confirmed_transition list" where
  "parseConfirmedTransitions txData txId =
    (if \<not> js_truthy txData then Inr []
     else
       let isExecute = (prop_of txData ''type'' = JStr ''execute''); execution = prop_of txData ''execution''
       in if \<not> js_truthy execution then
            (if isExecute then Inl (ShapeParse txId ''transaction.execution'') else Inr [])
          else (case prop_of execution ''transitions'' of
              JUndef \<Rightarrow> if isExecute then Inl (ShapeParse txId ''transaction.execution.transitions'') else Inr []
            | JNull \<Rightarrow> if isExecute then Inl (ShapeParse txId ''transaction.execution.transitions'') else Inr []
            | JArr entries \<Rightarrow> mapR (parseTransition txId) (List.enumerate 0 entries)
            | _ \<Rightarrow> Inl (ShapeParse txId ''transaction.execution.transitions'')))"

section \<open>Waiting for the confirmation\<close>

record confirmed_transaction =
  cx_txId :: string
  cx_blockHeight :: jsnum
  cx_rejected :: bool
  cx_transitions :: "confirmed_transition list"

record connection_settings =
  cs_endpoint :: string
  cs_networkId :: string
  cs_apiKey :: "string option"

definition url_of :: "connection_settings \<Rightarrow> string \<Rightarrow> string" where
  "url_of cs rest = cs_endpoint cs @ ''/'' @ cs_networkId cs @ ''/'' @ rest"

definition tx_type :: "jsval \<Rightarrow> jsval" where
  "tx_type body =
    (let ty = prop_of (prop_of body ''transaction'') ''type''
     in if ty = JUndef \<or> ty = JNull then prop_of body ''type'' else ty)"

definition bearer :: "connection_settings \<Rightarrow> string option" where
  "bearer cs = (case cs_apiKey cs of Some k \<Rightarrow> if k = [] then None else Some (''Bearer '' @ k) | None \<Rightarrow> None)"

definition confirm_timeout :: "int option \<Rightarrow> int" where
  "confirm_timeout timeout = (case timeout of None \<Rightarrow> DEFAULT_CONFIRMATION_TIMEOUT_MS | Some ms \<Rightarrow> ms)"

text \<open>The three phases; \<open>ms\<close> is the effective timeout.\<close>

definition confirmed_url :: "connection_settings \<Rightarrow> string \<Rightarrow> string" where
  "confirmed_url cs txId = url_of cs (''transaction/confirmed/'' @ txId)"

definition blockHash_url :: "connection_settings \<Rightarrow> string \<Rightarrow> string" where
  "blockHash_url cs txId = url_of cs (''find/blockHash/'' @ txId)"

definition block_url :: "connection_settings \<Rightarrow> string \<Rightarrow> string" where
  "block_url cs blockHash = url_of cs (''block/'' @ blockHash)"

definition confirmed_phase :: "json_parser \<Rightarrow> node \<Rightarrow> connection_settings \<Rightarrow> string \<Rightarrow> int \<Rightarrow> int \<Rightarrow> (int, confirm_error, jsval) act" where
  "confirmed_phase json nd cs txId deadline ms = pollPhase nd (confirmed_url cs txId) (bearer cs) deadline
     (\<lambda>r. classifyConfirmedBody json r txId) (ConfirmTimeout txId StageConfirmed ms)"

definition blockHash_phase :: "json_parser \<Rightarrow> node \<Rightarrow> connection_settings \<Rightarrow> string \<Rightarrow> int \<Rightarrow> int \<Rightarrow> (int, confirm_error, jsval) act" where
  "blockHash_phase json nd cs txId deadline ms = pollPhase nd (blockHash_url cs txId) (bearer cs) deadline
     (classifyBlockHash json) (ConfirmTimeout txId StageBlockHash ms)"

definition blockHeight_phase :: "json_parser \<Rightarrow> node \<Rightarrow> connection_settings \<Rightarrow> string \<Rightarrow> string \<Rightarrow> int \<Rightarrow> int
    \<Rightarrow> (int, confirm_error, jsnum) act" where
  "blockHeight_phase json nd cs txId blockHash deadline ms = pollPhase nd (block_url cs blockHash) (bearer cs) deadline
     (\<lambda>r. classifyBlockHeight json r txId) (ConfirmTimeout txId StageBlockHeight ms)"

definition waitForConfirmation :: "json_parser \<Rightarrow> (jsnum \<Rightarrow> string) \<Rightarrow> node \<Rightarrow> connection_settings \<Rightarrow> bool \<Rightarrow> string \<Rightarrow> int option
    \<Rightarrow> (int, confirm_error, confirmed_transaction) act" where
  "waitForConfirmation json ft nd cs isClosed txId timeout =
    (if isClosed then throwA ConfirmClosed
     else
       let ms = confirm_timeout timeout
       in bindA (getA (\<lambda>now. now + ms)) (\<lambda>deadline.
          bindA (confirmed_phase json nd cs txId deadline ms) (\<lambda>body.
          bindA (liftA (parseConfirmedTransitions (prop_of body ''transaction'') txId)) (\<lambda>transitions.
          bindA (blockHash_phase json nd cs txId deadline ms) (\<lambda>blockHash.
          bindA (blockHeight_phase json nd cs txId (js_String ft blockHash) deadline ms) (\<lambda>blockHeight.
            returnA \<lparr>cx_txId = txId, cx_blockHeight = blockHeight, cx_rejected = (tx_type body = JStr ''fee''),
                     cx_transitions = transitions\<rparr>))))))"

section \<open>The outputs of a transition\<close>

definition selectMatchingTransition :: "string \<Rightarrow> string \<Rightarrow> confirmed_transition list \<Rightarrow> string option
    \<Rightarrow> confirm_error + confirmed_transition" where
  "selectMatchingTransition programId transitionName transitions txId =
    (let matches = filter (\<lambda>t. ct_programId t = programId \<and> ct_transitionName t = transitionName) transitions;
         available = map (\<lambda>t. ct_programId t @ ''/'' @ ct_transitionName t) transitions
     in case matches of
          [] \<Rightarrow> Inl (TransitionSelection programId transitionName 0 available txId)
        | [t] \<Rightarrow> Inr t
        | _ \<Rightarrow> Inl (TransitionSelection programId transitionName (length matches) available txId))"

fun toOutputString :: "raw_output \<Rightarrow> string" where
  "toOutputString (OutValue s) = s"
| "toOutputString (IdOnly i ty) = i"

record call_result =
  cr_outputs :: "string list"
  cr_rawOutputs :: "raw_output list option"
  cr_txId :: "string option"

definition getTransitionOutputs :: "json_parser \<Rightarrow> (jsnum \<Rightarrow> string) \<Rightarrow> node \<Rightarrow> connection_settings \<Rightarrow> bool \<Rightarrow> string
    \<Rightarrow> string \<Rightarrow> string \<Rightarrow> int option \<Rightarrow> (int, confirm_error, call_result) act" where
  "getTransitionOutputs json ft nd cs isClosed txId programId transitionName timeout =
    bindA (waitForConfirmation json ft nd cs isClosed txId timeout) (\<lambda>confirmed.
      if cx_rejected confirmed
      then throwA (TransitionRejected (cx_txId confirmed) programId transitionName (cx_blockHeight confirmed))
      else
        bindA (liftA (selectMatchingTransition programId transitionName (cx_transitions confirmed) (Some (cx_txId confirmed)))) (\<lambda>transition.
          returnA \<lparr>cr_outputs = map toOutputString (ct_rawOutputs transition),
                   cr_rawOutputs = Some (ct_rawOutputs transition), cr_txId = Some (cx_txId confirmed)\<rparr>))"


section \<open>What a polling phase returns, and when\<close>

text \<open>A value was confirmed by an answer to a request issued in time.\<close>

lemma pollPhase_sound:
  assumes "pollPhase nd url key deadline classify onTimeout t = (Inr v, t')"
  shows "\<exists>u. t \<le> u \<and> u < deadline \<and> classify (nd_answer nd url key u) = Confirmed v \<and> t' = u + int (nd_latency nd url u)"
  using assms
proof (induction nd url key deadline classify onTimeout t rule: pollPhase.induct)
  case (1 nd url key deadline classify onTimeout t)
  then have in_time: "t < deadline" by (subst (asm) pollPhase.simps) (simp split: if_splits)
  show ?case
  proof (cases "classify (nd_answer nd url key t)")
    case (Confirmed w)
    then show ?thesis using "1.prems" in_time by (subst (asm) pollPhase.simps) auto
  next
    case Retryable
    then obtain u where "t + int (nd_latency nd url t) + CONFIRMATION_POLL_INTERVAL_MS
        + int (nd_drift nd (t + int (nd_latency nd url t))) \<le> u"
      "u < deadline \<and> classify (nd_answer nd url key u) = Confirmed v \<and> t' = u + int (nd_latency nd url u)"
      using "1.IH" [OF in_time refl Retryable] "1.prems" in_time by (subst (asm) pollPhase.simps) (auto simp: Let_def)
    then show ?thesis by (intro exI [of _ u]) (auto simp: CONFIRMATION_POLL_INTERVAL_MS_def)
  qed (use "1.prems" in_time in \<open>subst (asm) pollPhase.simps, simp add: Let_def\<close>)
qed

text \<open>An error is the timeout, after the deadline, or the fatal verdict on an answer.\<close>

lemma pollPhase_error:
  assumes "pollPhase nd url key deadline classify onTimeout t = (Inl e, t')"
  shows "e = onTimeout \<and> deadline \<le> t' \<or> (\<exists>u. u < deadline \<and> classify (nd_answer nd url key u) = FatalShape e)"
  using assms
proof (induction nd url key deadline classify onTimeout t rule: pollPhase.induct)
  case (1 nd url key deadline classify onTimeout t)
  show ?case
  proof (cases "t < deadline")
    case True
    then show ?thesis using "1.IH" [OF True refl] "1.prems"
      by (subst (asm) pollPhase.simps) (auto simp: Let_def split: outcome.splits)
  next
    case False
    then show ?thesis using "1.prems" by (subst (asm) pollPhase.simps) auto
  qed
qed

text \<open>How far apart two polls can be when requests and sleeps are bounded.\<close>

definition bounded_delays :: "node \<Rightarrow> nat \<Rightarrow> nat \<Rightarrow> bool" where
  "bounded_delays nd L D \<longleftrightarrow> (\<forall>url t. nd_latency nd url t \<le> L) \<and> (\<forall>t. nd_drift nd t \<le> D)"

definition poll_gap :: "nat \<Rightarrow> nat \<Rightarrow> int" where
  "poll_gap L D = int L + CONFIRMATION_POLL_INTERVAL_MS + int D"

lemma next_poll:
  fixes url :: string and t :: int
  assumes "bounded_delays nd L D"
  defines "t' \<equiv> t + int (nd_latency nd url t)"
  shows "t' + CONFIRMATION_POLL_INTERVAL_MS + int (nd_drift nd t') \<le> t + poll_gap L D" and "t' \<le> t + int L"
proof -
  have "nd_latency nd url t \<le> L" "nd_drift nd t' \<le> D" using assms(1) by (simp_all add: bounded_delays_def)
  then show "t' + CONFIRMATION_POLL_INTERVAL_MS + int (nd_drift nd t') \<le> t + poll_gap L D" and "t' \<le> t + int L"
    by (simp_all add: t'_def poll_gap_def)
qed


text \<open>
  An endpoint that answers from a time on, with the same response, and before it either does not
  answer well or already gives that response.
\<close>

definition serves :: "node \<Rightarrow> string \<Rightarrow> string option \<Rightarrow> int \<Rightarrow> http_response \<Rightarrow> bool" where
  "serves nd url key T r \<longleftrightarrow> (\<forall>u. nd_answer nd url key u = Some r
     \<or> u < T \<and> (case nd_answer nd url key u of None \<Rightarrow> True | Some r' \<Rightarrow> \<not> hr_ok r'))"

lemma pollPhase_live:
  assumes "bounded_delays nd L D" and "serves nd url key T r" and "classify (Some r) = Confirmed v"
    and "\<And>a. (case a of None \<Rightarrow> True | Some r' \<Rightarrow> \<not> hr_ok r') \<Longrightarrow> classify a = Retryable"
    and "max t (T + poll_gap L D) < deadline"
  shows "\<exists>t'. pollPhase nd url key deadline classify onTimeout t = (Inr v, t') \<and> t \<le> t' \<and> t' \<le> max t (T + poll_gap L D) + int L"
  using assms
proof (induction nd url key deadline classify onTimeout t rule: pollPhase.induct)
  case (1 nd url key deadline classify onTimeout t)
  note gap = next_poll [OF "1.prems"(1), of t url]
  let ?t = "t + int (nd_latency nd url t)"
  let ?n = "?t + CONFIRMATION_POLL_INTERVAL_MS + int (nd_drift nd ?t)"
  have in_time: "t < deadline" using "1.prems"(5) by simp
  consider "nd_answer nd url key t = Some r" | "t < T" "classify (nd_answer nd url key t) = Retryable"
    using "1.prems"(2,4) by (auto simp: serves_def)
  then show ?case
  proof cases
    case 1
    then show ?thesis using "1.prems"(3) in_time gap by (subst pollPhase.simps) (simp add: Let_def)
  next
    case 2
    have "max ?n (T + poll_gap L D) = T + poll_gap L D" using gap 2 by simp
    moreover have "t \<le> ?n" by (simp add: CONFIRMATION_POLL_INTERVAL_MS_def)
    ultimately have "\<exists>t'. pollPhase nd url key deadline classify onTimeout ?n = (Inr v, t') \<and> t \<le> t'
        \<and> t' \<le> max t (T + poll_gap L D) + int L"
      using "1.IH" [OF in_time refl 2(2) "1.prems"(1-4)] "1.prems"(5) by fastforce
    then show ?thesis using 2 in_time by (subst pollPhase.simps) (simp add: Let_def)
  qed
qed

text \<open>An answer that is missing or not ok never settles a phase.\<close>

lemma classify_retryable:
  assumes "case a of None \<Rightarrow> True | Some r' \<Rightarrow> \<not> hr_ok r'"
  shows "classifyConfirmedBody json a txId = Retryable" "classifyBlockHash json a = Retryable"
    "classifyBlockHeight json a txId = Retryable"
  using assms
  by (auto simp: classifyConfirmedBody_def classifyBlockHash_def classifyBlockHeight_def split: option.splits)


section \<open>What the parser accepts\<close>

text \<open>What a transition entry of the body says, read off the JSON directly.\<close>

definition names_transition :: "string \<Rightarrow> string \<Rightarrow> jsval \<Rightarrow> bool" where
  "names_transition p f entry \<longleftrightarrow> prop_of entry ''program'' = JStr p \<and> prop_of entry ''function'' = JStr f"

fun shows_output :: "jsval \<Rightarrow> raw_output \<Rightarrow> bool" where
  "shows_output x (OutValue s) = (has_own x ''value'' \<and> prop_of x ''value'' = JStr s)"
| "shows_output x (IdOnly i ty) = (\<not> has_own x ''value'' \<and> prop_of x ''id'' = JStr i)"

definition shows_outputs :: "jsval \<Rightarrow> raw_output list \<Rightarrow> bool" where
  "shows_outputs entry outs \<longleftrightarrow>
     (prop_of entry ''outputs'' \<in> {JUndef, JNull} \<and> outs = []
      \<or> (\<exists>xs. prop_of entry ''outputs'' = JArr xs \<and> list_all2 shows_output xs outs))"

definition shows_transition :: "jsval \<Rightarrow> confirmed_transition \<Rightarrow> bool" where
  "shows_transition entry t \<longleftrightarrow> names_transition (ct_programId t) (ct_transitionName t) entry
     \<and> shows_outputs entry (ct_rawOutputs t) \<and> prop_of entry ''tpk'' = JStr (ct_tpk t)"

lemma required_string_Inr [simp]: "required_string txId field v = Inr s \<longleftrightarrow> v = JStr s \<and> s \<noteq> []"
  by (auto simp: required_string_def nonempty_string_def split: jsval.splits)

lemma parseOutput_sound: "parseOutput txId path e = Inr out \<Longrightarrow> shows_output (snd e) out"
  by (auto simp: parseOutput_def Let_def split: if_splits jsval.splits)

lemma mapR_enumerate_sound:
  assumes "mapR f (List.enumerate n xs) = Inr ys" and "\<And>e y. f e = Inr y \<Longrightarrow> P (snd e) y"
  shows "list_all2 P xs ys"
  using assms(1) by (induction xs arbitrary: n ys) (auto dest: assms(2))

lemma parseOutputs_sound:
  "mapR (parseOutput txId path) (List.enumerate 0 xs) = Inr outs \<Longrightarrow> list_all2 shows_output xs outs"
  using mapR_enumerate_sound parseOutput_sound by blast

lemma parseTransition_sound: "parseTransition txId e = Inr t \<Longrightarrow> shows_transition (snd e) t"
  unfolding parseTransition_def Let_def shows_transition_def names_transition_def shows_outputs_def
  by (cases "prop_of (snd e) ''outputs''") (auto split: if_splits dest: parseOutputs_sound)

lemma parseTransitions_sound:
  "mapR (parseTransition txId) (List.enumerate 0 xs) = Inr ts \<Longrightarrow> list_all2 shows_transition xs ts"
  using mapR_enumerate_sound parseTransition_sound by blast

lemma parseConfirmedTransitions_sound:
  assumes "parseConfirmedTransitions txData txId = Inr ts"
  shows "ts = [] \<or> (\<exists>entries. prop_of (prop_of txData ''execution'') ''transitions'' = JArr entries
    \<and> list_all2 shows_transition entries ts)"
  using assms
  by (auto simp: parseConfirmedTransitions_def Let_def split: if_splits jsval.splits dest: parseTransitions_sound)

text \<open>An accepted execution is parsed completely or rejected: its transitions are never dropped.\<close>

lemma execute_not_dropped:
  assumes "parseConfirmedTransitions txData txId = Inr ts" and "prop_of txData ''type'' = JStr ''execute''"
  shows "\<exists>entries. prop_of (prop_of txData ''execution'') ''transitions'' = JArr entries \<and> length ts = length entries"
proof -
  have "js_truthy txData" using assms(2) by (cases txData) auto
  then show ?thesis using assms
    by (auto simp: parseConfirmedTransitions_def Let_def split: if_splits jsval.splits dest!: mapR_length)
qed

lemma names_unique:
  assumes "list_all2 shows_transition entries ts"
    and "filter (\<lambda>t. ct_programId t = p \<and> ct_transitionName t = f) ts = [tr]"
  shows "\<exists>entry. filter (names_transition p f) entries = [entry] \<and> shows_transition entry tr"
proof -
  have "list_all2 shows_transition (filter (names_transition p f) entries)
      (filter (\<lambda>t. ct_programId t = p \<and> ct_transitionName t = f) ts)"
    using assms(1)
    by (induction rule: list_all2_induct) (auto simp: shows_transition_def names_transition_def)
  then show ?thesis unfolding assms(2) by (auto simp: list_all2_Cons2)
qed

lemma select_unique:
  "selectMatchingTransition p f ts tx = Inr tr \<longleftrightarrow> filter (\<lambda>t. ct_programId t = p \<and> ct_transitionName t = f) ts = [tr]"
  by (auto simp: selectMatchingTransition_def Let_def split: list.splits)

section \<open>What waiting for a confirmation returns\<close>

lemma classifyConfirmedBody_Confirmed:
  "classifyConfirmedBody json a txId = Confirmed b \<longleftrightarrow> (\<exists>r. a = Some r \<and> hr_ok r \<and> body_json json r = Some b \<and> is_object b)"
  by (cases a) (auto simp: classifyConfirmedBody_def split: option.splits)

text \<open>A node said, in time, that the transaction is confirmed with this body.\<close>

definition confirmed_by :: "json_parser \<Rightarrow> node \<Rightarrow> connection_settings \<Rightarrow> string \<Rightarrow> int \<Rightarrow> int \<Rightarrow> jsval \<Rightarrow> bool" where
  "confirmed_by json nd cs txId from until body \<longleftrightarrow>
    (\<exists>u r. from \<le> u \<and> u < until \<and> nd_answer nd (confirmed_url cs txId) (bearer cs) u = Some r
      \<and> hr_ok r \<and> body_json json r = Some body)"

lemma confirmed_phase_sound:
  "confirmed_phase json nd cs txId deadline ms now = (Inr body, t) \<Longrightarrow> confirmed_by json nd cs txId now deadline body"
  unfolding confirmed_phase_def confirmed_by_def
  by (drule pollPhase_sound) (auto simp: classifyConfirmedBody_Confirmed)

lemma waitForConfirmation_sound:
  assumes "waitForConfirmation json ft nd cs isClosed txId timeout now = (Inr cx, t')"
  shows "\<exists>body. confirmed_by json nd cs txId now (now + confirm_timeout timeout) body
    \<and> parseConfirmedTransitions (prop_of body ''transaction'') txId = Inr (cx_transitions cx)
    \<and> cx_rejected cx = (tx_type body = JStr ''fee'') \<and> cx_txId cx = txId"
proof -
  have "\<not> isClosed" using assms by (auto simp: waitForConfirmation_def)
  then show ?thesis
    using assms by (auto simp: waitForConfirmation_def Let_def bindA_Inr liftA_def dest!: confirmed_phase_sound)
qed

text \<open>A deploy of errors: an open connection only times out at a phase, or rejects a shape.\<close>

lemma phase_error:
  "pollPhase nd url key deadline classify onTimeout t = (Inl e, t') \<Longrightarrow> (\<And>a e. classify a = FatalShape e \<Longrightarrow> P e) \<Longrightarrow> P onTimeout \<Longrightarrow> P e"
  by (drule pollPhase_error) auto



text \<open>A phase that starts before the good answers settles, leaving room for the phases after it.\<close>

definition settles_at :: "int \<Rightarrow> int \<Rightarrow> nat \<Rightarrow> nat \<Rightarrow> int" where
  "settles_at now T L D = max now (T + poll_gap L D)"

lemma confirmed_phase_live:
  assumes "bounded_delays nd L D" and "serves nd (confirmed_url cs txId) (bearer cs) T r"
    and "hr_ok r" and "body_json json r = Some body" and "is_object body" and "settles_at now T L D < deadline"
  shows "\<exists>t. confirmed_phase json nd cs txId deadline ms now = (Inr body, t) \<and> now \<le> t \<and> t \<le> settles_at now T L D + int L"
  unfolding confirmed_phase_def settles_at_def
  by (rule pollPhase_live [OF assms(1,2)])
    (use assms(3-6) classify_retryable(1) in \<open>auto simp: classifyConfirmedBody_Confirmed settles_at_def\<close>)

lemma blockHash_phase_live:
  assumes "bounded_delays nd L D" and "serves nd (blockHash_url cs txId) (bearer cs) T r"
    and "classifyBlockHash json (Some r) = Confirmed h" and "settles_at now T L D < deadline"
  shows "\<exists>t. blockHash_phase json nd cs txId deadline ms now = (Inr h, t) \<and> now \<le> t \<and> t \<le> settles_at now T L D + int L"
  unfolding blockHash_phase_def settles_at_def
  by (rule pollPhase_live [OF assms(1,2)]) (use assms(3,4) classify_retryable(2) in \<open>auto simp: settles_at_def\<close>)

lemma blockHeight_phase_live:
  assumes "bounded_delays nd L D" and "serves nd (block_url cs b) (bearer cs) T r"
    and "classifyBlockHeight json (Some r) txId = Confirmed h" and "settles_at now T L D < deadline"
  shows "\<exists>t. blockHeight_phase json nd cs txId b deadline ms now = (Inr h, t) \<and> now \<le> t \<and> t \<le> settles_at now T L D + int L"
  unfolding blockHeight_phase_def settles_at_def
  by (rule pollPhase_live [OF assms(1,2)]) (use assms(3,4) classify_retryable(3) in \<open>auto simp: settles_at_def\<close>)

lemma settles_later: "now \<le> t \<Longrightarrow> t \<le> settles_at now T L D + int k \<Longrightarrow> settles_at t T L D \<le> settles_at now T L D + int k"
  by (simp add: settles_at_def)

lemma outputs_name_transaction:
  assumes "getTransitionOutputs json ft nd cs isClosed txId programId transitionName timeout now = (Inr r, t')"
  shows "cr_txId r = Some txId"
proof -
  obtain cx t1 where wait: "waitForConfirmation json ft nd cs isClosed txId timeout now = (Inr cx, t1)" and r: "cr_txId r = Some (cx_txId cx)"
    and "\<not> cx_rejected cx"
    using assms by (auto simp: getTransitionOutputs_def bindA_Inr liftA_def returnA_def throwA_def split: if_splits sum.splits)
  then show ?thesis using waitForConfirmation_sound [OF wait] by auto
qed

text \<open>
  C4: outputs that are returned for a broadcast transaction are those of the one transition of that
  program and function in a body the node confirmed before the deadline, for a transaction that was
  accepted.
\<close>

theorem outputs_come_from_confirmed_transition:
  assumes "getTransitionOutputs json ft nd cs isClosed txId programId transitionName timeout now = (Inr r, t')"
  shows "\<exists>body entries entry outs.
    confirmed_by json nd cs txId now (now + confirm_timeout timeout) body \<and> tx_type body \<noteq> JStr ''fee''
    \<and> prop_of (prop_of (prop_of body ''transaction'') ''execution'') ''transitions'' = JArr entries
    \<and> filter (names_transition programId transitionName) entries = [entry] \<and> shows_outputs entry outs
    \<and> r = \<lparr>cr_outputs = map toOutputString outs, cr_rawOutputs = Some outs, cr_txId = Some txId\<rparr>"
proof -
  obtain cx t1 tr where wait: "waitForConfirmation json ft nd cs isClosed txId timeout now = (Inr cx, t1)"
    and accepted: "\<not> cx_rejected cx"
    and sel: "selectMatchingTransition programId transitionName (cx_transitions cx) (Some (cx_txId cx)) = Inr tr"
    and r: "r = \<lparr>cr_outputs = map toOutputString (ct_rawOutputs tr), cr_rawOutputs = Some (ct_rawOutputs tr), cr_txId = Some (cx_txId cx)\<rparr>"
    using assms by (auto simp: getTransitionOutputs_def bindA_Inr liftA_def split: if_splits)
  from waitForConfirmation_sound [OF wait] obtain body where
      by': "confirmed_by json nd cs txId now (now + confirm_timeout timeout) body"
    and parsed: "parseConfirmedTransitions (prop_of body ''transaction'') txId = Inr (cx_transitions cx)"
    and ty: "tx_type body \<noteq> JStr ''fee''" and txId: "cx_txId cx = txId"
    using accepted by auto
  have one: "filter (\<lambda>t. ct_programId t = programId \<and> ct_transitionName t = transitionName) (cx_transitions cx) = [tr]"
    using sel by (simp add: select_unique)
  then have "cx_transitions cx \<noteq> []" by auto
  then obtain entries where entries: "prop_of (prop_of (prop_of body ''transaction'') ''execution'') ''transitions'' = JArr entries"
    and all: "list_all2 shows_transition entries (cx_transitions cx)"
    using parseConfirmedTransitions_sound [OF parsed] by auto
  from names_unique [OF all one] obtain entry
    where "filter (names_transition programId transitionName) entries = [entry]" "shows_outputs entry (ct_rawOutputs tr)"
    by (auto simp: shows_transition_def)
  then show ?thesis using by' ty entries r txId by blast
qed

text \<open>
  C22: when the node answers the three requests well from some time on, and that leaves enough of
  the timeout, waiting for the confirmation succeeds, with the status, transitions and height the
  node shows, at most three requests after the first poll that can see them.
\<close>

theorem confirmation_settles:
  assumes "bounded_delays nd L D"
    and "serves nd (confirmed_url cs txId) (bearer cs) T r1" and "hr_ok r1" and "body_json json r1 = Some body"
    and "is_object body" and "parseConfirmedTransitions (prop_of body ''transaction'') txId = Inr ts"
    and "serves nd (blockHash_url cs txId) (bearer cs) T r2" and "classifyBlockHash json (Some r2) = Confirmed (JStr b)"
    and "serves nd (block_url cs b) (bearer cs) T r3" and "classifyBlockHeight json (Some r3) txId = Confirmed h"
    and "max now (T + poll_gap L D) + 2 * int L < now + confirm_timeout timeout"
  shows "\<exists>t. waitForConfirmation json ft nd cs False txId timeout now =
      (Inr \<lparr>cx_txId = txId, cx_blockHeight = h, cx_rejected = (tx_type body = JStr ''fee''), cx_transitions = ts\<rparr>, t)
    \<and> t \<le> max now (T + poll_gap L D) + 3 * int L"
proof -
  let ?ms = "confirm_timeout timeout"
  let ?s = "settles_at now T L D"
  have room: "?s + 2 * int L < now + ?ms" using assms(11) by (simp add: settles_at_def)
  then have "?s < now + ?ms" by simp
  from confirmed_phase_live [OF assms(1-5) this, of ?ms] obtain t1 where
      p1: "confirmed_phase json nd cs txId (now + ?ms) ?ms now = (Inr body, t1)" and t1: "now \<le> t1" "t1 \<le> ?s + int L"
    by blast
  have s1: "settles_at t1 T L D \<le> ?s + int L" using settles_later [OF t1] by simp
  then have "settles_at t1 T L D < now + ?ms" using room by simp
  from blockHash_phase_live [OF assms(1,7,8) this, of ?ms] obtain t2 where
      p2: "blockHash_phase json nd cs txId (now + ?ms) ?ms t1 = (Inr (JStr b), t2)" and t2: "t1 \<le> t2" "t2 \<le> settles_at t1 T L D + int L"
    by blast
  have s2: "settles_at t2 T L D \<le> ?s + 2 * int L" using settles_later [OF t2] s1 by simp
  then have "settles_at t2 T L D < now + ?ms" using room by simp
  from blockHeight_phase_live [OF assms(1,9,10) this, of ?ms] obtain t3 where
      p3: "blockHeight_phase json nd cs txId b (now + ?ms) ?ms t2 = (Inr h, t3)" and t3: "t3 \<le> settles_at t2 T L D + int L"
    by blast
  have "waitForConfirmation json ft nd cs False txId timeout now =
      (Inr \<lparr>cx_txId = txId, cx_blockHeight = h, cx_rejected = (tx_type body = JStr ''fee''), cx_transitions = ts\<rparr>, t3)"
    using p1 p2 p3 assms(6) by (simp add: waitForConfirmation_def Let_def bindA_run)
  moreover have "t3 \<le> ?s + 3 * int L" using t3 s2 by linarith
  then have "t3 \<le> max now (T + poll_gap L D) + 3 * int L" by (simp only: settles_at_def)
  ultimately show ?thesis by blast
qed


















section \<open>A confirmed transaction\<close>

definition ex_settings :: connection_settings where
  "ex_settings = \<lparr>cs_endpoint = ''http://n'', cs_networkId = ''testnet'', cs_apiKey = None\<rparr>"

definition ex_transition :: jsval where
  "ex_transition = JObj [(''program'', JStr ''t.aleo''), (''function'', JStr ''mint''), (''tpk'', JStr ''7group''),
     (''outputs'', JArr [JObj [(''type'', JStr ''public''), (''id'', JStr ''1field''), (''value'', JStr ''3u64'')]])]"

definition ex_confirmed_body :: jsval where
  "ex_confirmed_body = JObj [(''transaction'', JObj [(''type'', JStr ''execute''),
     (''execution'', JObj [(''transitions'', JArr [ex_transition])])])]"

definition ex_block :: jsval where
  "ex_block = JObj [(''header'', JObj [(''metadata'', JObj [(''height'', jint 12)])])]"

definition ex_parser :: json_parser where
  "ex_parser s = (if s = ''C'' then Some ex_confirmed_body else if s = ''B'' then Some ex_block else None)"

definition ex_response :: "string \<Rightarrow> http_response" where
  "ex_response s = \<lparr>hr_status = 200, hr_text = Some s\<rparr>"

text \<open>The node knows the transaction from the time 1500 on; a request takes 10 ms.\<close>

definition ex_node :: node where
  "ex_node = \<lparr>nd_answer = (\<lambda>url key t.
       if t < 1500 then Some \<lparr>hr_status = 404, hr_text = Some []\<rparr>
       else if url = ''http://n/testnet/transaction/confirmed/at1'' then Some (ex_response ''C'')
       else if url = ''http://n/testnet/find/blockHash/at1'' then Some (ex_response ''ab1'')
       else if url = ''http://n/testnet/block/ab1'' then Some (ex_response ''B'') else None),
     nd_latency = (\<lambda>url t. 10), nd_drift = (\<lambda>t. 0)\<rparr>"

theorem outputs_come_from_confirmed_transition_witness:
  "\<exists>body entries entry outs.
    confirmed_by ex_parser ex_node ex_settings ''at1'' 0 (0 + confirm_timeout None) body \<and> tx_type body \<noteq> JStr ''fee''
    \<and> prop_of (prop_of (prop_of body ''transaction'') ''execution'') ''transitions'' = JArr entries
    \<and> filter (names_transition ''t.aleo'' ''mint'') entries = [entry] \<and> shows_outputs entry outs
    \<and> map toOutputString outs = [''3u64'']"
proof -
  let ?run = "getTransitionOutputs ex_parser (\<lambda>_. []) ex_node ex_settings False ''at1'' ''t.aleo'' ''mint'' None 0"
  have "case fst ?run of Inr r \<Rightarrow> cr_outputs r = [''3u64''] | Inl e \<Rightarrow> False" by code_simp
  then obtain r t' where run: "?run = (Inr r, t')" and out: "cr_outputs r = [''3u64'']"
    by (cases ?run) (auto split: sum.splits)
  have "map toOutputString outs = [''3u64'']"
    if "r = \<lparr>cr_outputs = map toOutputString outs, cr_rawOutputs = Some outs, cr_txId = Some ''at1''\<rparr>" for outs
    using out that by simp
  with outputs_come_from_confirmed_transition [OF run] show ?thesis by blast
qed

theorem confirmation_settles_witness:
  "\<exists>t. waitForConfirmation ex_parser (\<lambda>_. []) ex_node ex_settings False ''at1'' None 0 =
      (Inr \<lparr>cx_txId = ''at1'', cx_blockHeight = Fin 12, cx_rejected = (tx_type ex_confirmed_body = JStr ''fee''),
         cx_transitions = projr (parseConfirmedTransitions (prop_of ex_confirmed_body ''transaction'') ''at1'')\<rparr>, t)
    \<and> t \<le> max 0 (1500 + poll_gap 10 0) + 3 * int 10"
proof (rule confirmation_settles)
  show "bounded_delays ex_node 10 0" by (simp add: bounded_delays_def ex_node_def)
  show "serves ex_node (confirmed_url ex_settings ''at1'') (bearer ex_settings) 1500 (ex_response ''C'')"
    "serves ex_node (blockHash_url ex_settings ''at1'') (bearer ex_settings) 1500 (ex_response ''ab1'')"
    "serves ex_node (block_url ex_settings ''ab1'') (bearer ex_settings) 1500 (ex_response ''B'')"
    by (simp_all add: serves_def ex_node_def url_of_def ex_settings_def hr_ok_def
        confirmed_url_def blockHash_url_def block_url_def)
  show "hr_ok (ex_response ''C'')" by code_simp
  show "body_json ex_parser (ex_response ''C'') = Some ex_confirmed_body"
    by (simp add: body_json_def ex_parser_def ex_response_def)
  show "is_object ex_confirmed_body" by code_simp
  have "\<not> isl (parseConfirmedTransitions (prop_of ex_confirmed_body ''transaction'') ''at1'')" by code_simp
  then show "parseConfirmedTransitions (prop_of ex_confirmed_body ''transaction'') ''at1'' =
      Inr (projr (parseConfirmedTransitions (prop_of ex_confirmed_body ''transaction'') ''at1''))" by simp
  have "case classifyBlockHash ex_parser (Some (ex_response ''ab1'')) of Confirmed v \<Rightarrow> v = JStr ''ab1'' | _ \<Rightarrow> False" by code_simp
  then show "classifyBlockHash ex_parser (Some (ex_response ''ab1'')) = Confirmed (JStr ''ab1'')" by (auto split: outcome.splits)
  have "case classifyBlockHeight ex_parser (Some (ex_response ''B'')) ''at1'' of Confirmed v \<Rightarrow> v = Fin 12 | _ \<Rightarrow> False" by code_simp
  then show "classifyBlockHeight ex_parser (Some (ex_response ''B'')) ''at1'' = Confirmed (Fin 12)" by (auto split: outcome.splits)
  show "max 0 (1500 + poll_gap 10 0) + 2 * int 10 < 0 + confirm_timeout None" by code_simp
qed


end
