(* ===== verification/KeyArtifacts.thy ===== *)
theory KeyArtifacts imports Abi Paths begin

text \<open>
  Metadata of stored proving and verifying keys (\<^verbatim>\<open>packages/core/src/key-artifacts.ts\<close>): the
  three JSON formats with their strict parsers, fingerprints of key files, references to key files
  below an artifact directory, and the reads and atomic writes. A file is the list of its
  characters or bytes; SHA-256, \<^verbatim>\<open>JSON.parse\<close> and \<^verbatim>\<open>JSON.stringify\<close> are arguments.
\<close>

section \<open>The formats\<close>

record key_fingerprint =
  kf_sha256 :: string
  kf_size :: nat

record key_file_ref =
  kr_path :: string
  kr_fingerprint :: key_fingerprint

record key_function_ref =
  kn_transition :: string
  kn_prover :: "key_file_ref option"
  kn_verifier :: "key_file_ref option"

record key_artifacts_metadata =
  ka_programId :: string
  ka_sourceProgramId :: string
  ka_sourceHash :: string
  ka_importsHash :: string
  ka_functions :: "key_function_ref list option"

record runtime_key_identity =
  ki_network :: string
  ki_programId :: string
  ki_transition :: string
  ki_edition :: "nat option"
  ki_sourceHash :: string
  ki_importsHash :: string
  ki_wasmHash :: string

record key_diagnostics =
  kd_sdkVersion :: "string option"
  kd_wasmVersion :: "string option"

record runtime_key_metadata =
  km_identity :: runtime_key_identity
  km_prover :: key_fingerprint
  km_verifier :: key_fingerprint
  km_diagnostics :: "key_diagnostics option"

record credits_key_metadata =
  kc_locator :: string
  kc_network :: string
  kc_wasmHash :: string
  kc_prover :: key_fingerprint

definition KEY_ARTIFACTS_FORMAT :: string where "KEY_ARTIFACTS_FORMAT = ''lionden.keyArtifacts.v1''"

definition RUNTIME_KEY_CACHE_FORMAT :: string where "RUNTIME_KEY_CACHE_FORMAT = ''lionden.runtimeKeyCache.v1''"

definition CREDITS_KEY_CACHE_FORMAT :: string where "CREDITS_KEY_CACHE_FORMAT = ''lionden.creditsKeyCache.v1''"

text \<open>\<open>BadMetadata\<close> names the file and the member that is wrong.\<close>

datatype key_error =
    BadMetadata string string
  | UnreadableMetadata string
  | AbsoluteKeyRef string
  | EscapingKeyRef string
  | NoSuchFile string

section \<open>Parsing\<close>

definition is_record :: "jsval \<Rightarrow> bool" where
  "is_record v = (case v of JObj m \<Rightarrow> True | _ \<Rightarrow> False)"

definition expectString :: "jsval \<Rightarrow> string \<Rightarrow> string \<Rightarrow> key_error + string" where
  "expectString value key file =
    (case prop_of value key of JStr s \<Rightarrow> if s = [] then Inl (BadMetadata file key) else Inr s | _ \<Rightarrow> Inl (BadMetadata file key))"

definition is_hex_lower :: "char \<Rightarrow> bool" where
  "is_hex_lower c \<longleftrightarrow> is_digit c \<or> char_between (CHR ''a'') (CHR ''f'') c"

definition is_sha256_hex :: "string \<Rightarrow> bool" where
  "is_sha256_hex s \<longleftrightarrow> length s = 64 \<and> list_all is_hex_lower s"

text \<open>A number that is an integer and not negative.\<close>

definition nat_of :: "jsval \<Rightarrow> nat option" where
  "nat_of v = (case v of JNum (Fin q) \<Rightarrow> if of_int \<lfloor>q\<rfloor> = q \<and> 0 \<le> q then Some (nat \<lfloor>q\<rfloor>) else None | _ \<Rightarrow> None)"

definition expectFingerprint :: "jsval \<Rightarrow> string \<Rightarrow> string \<Rightarrow> key_error + key_fingerprint" where
  "expectFingerprint value label file =
    (if \<not> is_record value then Inl (BadMetadata file label)
     else case prop_of value ''sha256'' of
         JStr sha \<Rightarrow>
           if \<not> is_sha256_hex sha then Inl (BadMetadata file (label @ ''.sha256''))
           else (case nat_of (prop_of value ''size'') of
               None \<Rightarrow> Inl (BadMetadata file (label @ ''.size''))
             | Some n \<Rightarrow> Inr \<lparr>kf_sha256 = sha, kf_size = n\<rparr>)
       | _ \<Rightarrow> Inl (BadMetadata file (label @ ''.sha256'')))"

text \<open>A member that may be absent.\<close>

definition optional :: "jsval \<Rightarrow> (jsval \<Rightarrow> key_error + 'a) \<Rightarrow> key_error + 'a option" where
  "optional v f = (if v = JUndef then Inr None else bindR (f v) (\<lambda>x. Inr (Some x)))"

definition expectKeyFileRef :: "jsval \<Rightarrow> string \<Rightarrow> string \<Rightarrow> key_error + key_file_ref" where
  "expectKeyFileRef value label file =
    (if \<not> is_record value then Inl (BadMetadata file label)
     else bindR (expectString value ''path'' file) (\<lambda>p.
          bindR (expectFingerprint (prop_of value ''fingerprint'') (label @ ''.fingerprint'') file) (\<lambda>fp.
            Inr \<lparr>kr_path = p, kr_fingerprint = fp\<rparr>)))"

definition expectFunctionRef :: "string \<Rightarrow> jsval \<Rightarrow> key_error + key_function_ref" where
  "expectFunctionRef file entry =
    (if \<not> is_record entry then Inl (BadMetadata file ''functions[]'')
     else bindR (expectString entry ''transition'' file) (\<lambda>transition.
          bindR (optional (prop_of entry ''prover'') (\<lambda>v. expectKeyFileRef v ''functions[].prover'' file)) (\<lambda>prover.
          bindR (optional (prop_of entry ''verifier'') (\<lambda>v. expectKeyFileRef v ''functions[].verifier'' file)) (\<lambda>verifier.
            Inr \<lparr>kn_transition = transition, kn_prover = prover, kn_verifier = verifier\<rparr>))))"

definition expectFunctionRefs :: "jsval \<Rightarrow> string \<Rightarrow> key_error + key_function_ref list" where
  "expectFunctionRefs value file =
    (case value of JArr entries \<Rightarrow> mapR (expectFunctionRef file) entries | _ \<Rightarrow> Inl (BadMetadata file ''functions''))"

definition expectIdentity :: "jsval \<Rightarrow> string \<Rightarrow> key_error + runtime_key_identity" where
  "expectIdentity value file =
    (if \<not> is_record value then Inl (BadMetadata file ''identity'')
     else let e = prop_of value ''edition''
     in if e \<noteq> JUndef \<and> nat_of e = None then Inl (BadMetadata file ''identity.edition'')
     else
       bindR (expectString value ''network'' file) (\<lambda>network.
       bindR (expectString value ''programId'' file) (\<lambda>programId.
       bindR (expectString value ''transition'' file) (\<lambda>transition.
       bindR (expectString value ''sourceHash'' file) (\<lambda>sourceHash.
       bindR (expectString value ''importsHash'' file) (\<lambda>importsHash.
       bindR (expectString value ''wasmHash'' file) (\<lambda>wasmHash.
         Inr \<lparr>ki_network = network, ki_programId = programId, ki_transition = transition, ki_edition = nat_of e,
              ki_sourceHash = sourceHash, ki_importsHash = importsHash, ki_wasmHash = wasmHash\<rparr>)))))))"

definition expect_version :: "jsval \<Rightarrow> string \<Rightarrow> string \<Rightarrow> key_error + string option" where
  "expect_version value key file = optional (prop_of value key)
     (\<lambda>v. case v of JStr s \<Rightarrow> Inr s | _ \<Rightarrow> Inl (BadMetadata file (''diagnostics.'' @ key)))"

definition expectDiagnostics :: "jsval \<Rightarrow> string \<Rightarrow> key_error + key_diagnostics" where
  "expectDiagnostics value file =
    (if \<not> is_record value then Inl (BadMetadata file ''diagnostics'')
     else bindR (expect_version value ''sdkVersion'' file) (\<lambda>sdk.
          bindR (expect_version value ''wasmVersion'' file) (\<lambda>wasm.
            Inr \<lparr>kd_sdkVersion = sdk, kd_wasmVersion = wasm\<rparr>)))"

definition expect_format :: "jsval \<Rightarrow> string \<Rightarrow> string \<Rightarrow> key_error + unit" where
  "expect_format value format file =
    (if \<not> is_record value then Inl (BadMetadata file ''object'')
     else if prop_of value ''format'' \<noteq> JStr format then Inl (BadMetadata file ''format'') else Inr ())"

definition parseKeyArtifactsMetadata :: "jsval \<Rightarrow> string \<Rightarrow> key_error + key_artifacts_metadata" where
  "parseKeyArtifactsMetadata value file =
    bindR (expect_format value KEY_ARTIFACTS_FORMAT file) (\<lambda>_.
    bindR (expectString value ''programId'' file) (\<lambda>programId.
    bindR (expectString value ''sourceProgramId'' file) (\<lambda>sourceProgramId.
    bindR (expectString value ''sourceHash'' file) (\<lambda>sourceHash.
    bindR (expectString value ''importsHash'' file) (\<lambda>importsHash.
    bindR (optional (prop_of value ''functions'') (\<lambda>v. expectFunctionRefs v file)) (\<lambda>functions.
      Inr \<lparr>ka_programId = programId, ka_sourceProgramId = sourceProgramId, ka_sourceHash = sourceHash,
           ka_importsHash = importsHash, ka_functions = functions\<rparr>))))))"

definition parseRuntimeKeyCacheMetadata :: "jsval \<Rightarrow> string \<Rightarrow> key_error + runtime_key_metadata" where
  "parseRuntimeKeyCacheMetadata value file =
    bindR (expect_format value RUNTIME_KEY_CACHE_FORMAT file) (\<lambda>_.
    bindR (expectIdentity (prop_of value ''identity'') file) (\<lambda>identity.
    bindR (expectFingerprint (prop_of value ''prover'') ''prover'' file) (\<lambda>prover.
    bindR (expectFingerprint (prop_of value ''verifier'') ''verifier'' file) (\<lambda>verifier.
    bindR (optional (prop_of value ''diagnostics'') (\<lambda>v. expectDiagnostics v file)) (\<lambda>diagnostics.
      Inr \<lparr>km_identity = identity, km_prover = prover, km_verifier = verifier, km_diagnostics = diagnostics\<rparr>)))))"

definition parseCreditsKeyCacheMetadata :: "jsval \<Rightarrow> string \<Rightarrow> key_error + credits_key_metadata" where
  "parseCreditsKeyCacheMetadata value file =
    bindR (expect_format value CREDITS_KEY_CACHE_FORMAT file) (\<lambda>_.
    bindR (expectString value ''locator'' file) (\<lambda>locator.
    bindR (expectString value ''network'' file) (\<lambda>network.
    bindR (expectString value ''wasmHash'' file) (\<lambda>wasmHash.
    bindR (expectFingerprint (prop_of value ''prover'') ''prover'' file) (\<lambda>prover.
      Inr \<lparr>kc_locator = locator, kc_network = network, kc_wasmHash = wasmHash, kc_prover = prover\<rparr>)))))"

section \<open>Fingerprints\<close>

definition fingerprintBytes :: "(string \<Rightarrow> string) \<Rightarrow> string \<Rightarrow> key_fingerprint" where
  "fingerprintBytes sha bytes = \<lparr>kf_sha256 = sha bytes, kf_size = length bytes\<rparr>"

definition fingerprintsEqual :: "key_fingerprint \<Rightarrow> key_fingerprint \<Rightarrow> bool" where
  "fingerprintsEqual a b \<longleftrightarrow> kf_sha256 a = kf_sha256 b \<and> kf_size a = kf_size b"

lemma fingerprintsEqual_iff: "fingerprintsEqual a b \<longleftrightarrow> a = b"
  by (cases a; cases b) (simp add: fingerprintsEqual_def)

section \<open>Files\<close>

text \<open>
  The regular files by path. A write goes to a temporary sibling and is renamed; a crash may leave
  any content in the temporary file and the operations after it undone.
\<close>

type_synonym files = "(string, string) omap"

datatype file_op = FileWrite string string | FileRename string string

fun file_run :: "file_op \<Rightarrow> files \<Rightarrow> files" where
  "file_run (FileWrite p c) fs = om_set p c fs"
| "file_run (FileRename p q) fs = (case om_get fs p of None \<Rightarrow> fs | Some c \<Rightarrow> om_set q c (om_delete p fs))"

definition file_runs :: "file_op list \<Rightarrow> files \<Rightarrow> files" where
  "file_runs ops fs = fold file_run ops fs"

inductive file_crash :: "file_op list \<Rightarrow> files \<Rightarrow> files \<Rightarrow> bool" for ops fs where
  between_ops: "ops = done' @ rest \<Longrightarrow> file_crash ops fs (file_runs done' fs)"
| torn_write: "ops = done' @ FileWrite p c # rest \<Longrightarrow> file_crash ops fs (om_set p torn (file_runs done' fs))"

text \<open>The temporary name; \<open>stamp\<close> stands for the process id, the time and the random number.\<close>

definition temp_path :: "string \<Rightarrow> string \<Rightarrow> string" where
  "temp_path stamp p = path_join [path_dirname p, ''.'' @ path_basename p @ ''.'' @ stamp @ ''.tmp'']"

definition writeFileAtomic :: "string \<Rightarrow> string \<Rightarrow> string \<Rightarrow> file_op list" where
  "writeFileAtomic stamp p bytes = [FileWrite (temp_path stamp p) bytes, FileRename (temp_path stamp p) p]"

definition readFileSync :: "files \<Rightarrow> string \<Rightarrow> key_error + string" where
  "readFileSync fs p = (case om_get fs p of None \<Rightarrow> Inl (NoSuchFile p) | Some c \<Rightarrow> Inr c)"

type_synonym parse_json = "string \<Rightarrow> jsval option"

definition readJson :: "parse_json \<Rightarrow> files \<Rightarrow> string \<Rightarrow> key_error + jsval" where
  "readJson json fs p =
    (case om_get fs p of None \<Rightarrow> Inl (UnreadableMetadata p)
     | Some s \<Rightarrow> (case json s of None \<Rightarrow> Inl (UnreadableMetadata p) | Some v \<Rightarrow> Inr v))"

definition read_metadata :: "parse_json \<Rightarrow> (jsval \<Rightarrow> string \<Rightarrow> key_error + 'm) \<Rightarrow> files \<Rightarrow> string \<Rightarrow> key_error + 'm option" where
  "read_metadata json parse fs p =
    (if \<not> om_has fs p then Inr None else bindR (readJson json fs p) (\<lambda>v. bindR (parse v p) (\<lambda>m. Inr (Some m))))"

definition readKeyArtifactsMetadata :: "parse_json \<Rightarrow> files \<Rightarrow> string \<Rightarrow> key_error + key_artifacts_metadata option" where
  "readKeyArtifactsMetadata json = read_metadata json parseKeyArtifactsMetadata"

definition readRuntimeKeyCacheMetadata :: "parse_json \<Rightarrow> files \<Rightarrow> string \<Rightarrow> key_error + runtime_key_metadata option" where
  "readRuntimeKeyCacheMetadata json = read_metadata json parseRuntimeKeyCacheMetadata"

definition readCreditsKeyCacheMetadata :: "parse_json \<Rightarrow> files \<Rightarrow> string \<Rightarrow> key_error + credits_key_metadata option" where
  "readCreditsKeyCacheMetadata json = read_metadata json parseCreditsKeyCacheMetadata"

definition keyArtifactsMetadataPath :: "string \<Rightarrow> string \<Rightarrow> string" where
  "keyArtifactsMetadataPath artifactsDir programId = path_join [artifactsDir, programId, ''lionden-key-artifacts.json'']"

text \<open>The format is constant; the two ids are what provenance adds.\<close>

definition readProgramArtifactProvenance :: "parse_json \<Rightarrow> files \<Rightarrow> string \<Rightarrow> string \<Rightarrow> key_error + (string \<times> string) option" where
  "readProgramArtifactProvenance json fs artifactsDir programId =
    bindR (readKeyArtifactsMetadata json fs (keyArtifactsMetadataPath artifactsDir programId)) (\<lambda>m.
      Inr (map_option (\<lambda>m. (ka_programId m, ka_sourceProgramId m)) m))"

section \<open>References to key files\<close>

definition resolveKeyFileRef :: "string \<Rightarrow> string \<Rightarrow> key_file_ref \<Rightarrow> key_error + string" where
  "resolveKeyFileRef cwd baseDir ref =
    (if isAbsolute (kr_path ref) then Inl (AbsoluteKeyRef (kr_path ref))
     else
       let resolved = path_resolve cwd [baseDir, kr_path ref]; root' = path_resolve cwd [baseDir]
       in if resolved \<noteq> root' \<and> \<not> starts_with resolved (root' @ ''/'') then Inl (EscapingKeyRef (kr_path ref))
          else Inr resolved)"

definition verifyKeyFileRef :: "(string \<Rightarrow> string) \<Rightarrow> files \<Rightarrow> string \<Rightarrow> string \<Rightarrow> key_file_ref \<Rightarrow> key_error + bool" where
  "verifyKeyFileRef sha fs cwd baseDir ref =
    bindR (resolveKeyFileRef cwd baseDir ref) (\<lambda>p.
      case om_get fs p of
        None \<Rightarrow> Inr False
      | Some bytes \<Rightarrow> Inr (fingerprintsEqual (fingerprintBytes sha bytes) (kr_fingerprint ref)))"

section \<open>Writing\<close>

definition fingerprint_value :: "key_fingerprint \<Rightarrow> jsval" where
  "fingerprint_value f = JObj [(''sha256'', JStr (kf_sha256 f)), (''size'', jint (int (kf_size f)))]"

definition opt_member :: "string \<Rightarrow> ('a \<Rightarrow> jsval) \<Rightarrow> 'a option \<Rightarrow> (string, jsval) omap" where
  "opt_member k f x = (case x of None \<Rightarrow> [] | Some v \<Rightarrow> [(k, f v)])"

definition ref_json :: "key_file_ref \<Rightarrow> jsval" where
  "ref_json r = JObj [(''path'', JStr (kr_path r)), (''fingerprint'', fingerprint_value (kr_fingerprint r))]"

definition function_json :: "key_function_ref \<Rightarrow> jsval" where
  "function_json f = JObj ([(''transition'', JStr (kn_transition f))]
     @ opt_member ''prover'' ref_json (kn_prover f) @ opt_member ''verifier'' ref_json (kn_verifier f))"

definition artifacts_json :: "key_artifacts_metadata \<Rightarrow> jsval" where
  "artifacts_json m = JObj ([(''format'', JStr KEY_ARTIFACTS_FORMAT), (''programId'', JStr (ka_programId m)),
      (''sourceProgramId'', JStr (ka_sourceProgramId m)), (''sourceHash'', JStr (ka_sourceHash m)),
      (''importsHash'', JStr (ka_importsHash m))]
     @ opt_member ''functions'' (\<lambda>fs. JArr (map function_json fs)) (ka_functions m))"

definition identity_json :: "runtime_key_identity \<Rightarrow> jsval" where
  "identity_json i = JObj ([(''network'', JStr (ki_network i)), (''programId'', JStr (ki_programId i)),
      (''transition'', JStr (ki_transition i))] @ opt_member ''edition'' (\<lambda>n. jint (int n)) (ki_edition i)
     @ [(''sourceHash'', JStr (ki_sourceHash i)), (''importsHash'', JStr (ki_importsHash i)), (''wasmHash'', JStr (ki_wasmHash i))])"

definition diagnostics_json :: "key_diagnostics \<Rightarrow> jsval" where
  "diagnostics_json d = JObj (opt_member ''sdkVersion'' JStr (kd_sdkVersion d) @ opt_member ''wasmVersion'' JStr (kd_wasmVersion d))"

definition runtime_json :: "runtime_key_metadata \<Rightarrow> jsval" where
  "runtime_json m = JObj ([(''format'', JStr RUNTIME_KEY_CACHE_FORMAT), (''identity'', identity_json (km_identity m)),
      (''prover'', fingerprint_value (km_prover m)), (''verifier'', fingerprint_value (km_verifier m))]
     @ opt_member ''diagnostics'' diagnostics_json (km_diagnostics m))"

definition credits_json :: "credits_key_metadata \<Rightarrow> jsval" where
  "credits_json m = JObj [(''format'', JStr CREDITS_KEY_CACHE_FORMAT), (''locator'', JStr (kc_locator m)),
      (''network'', JStr (kc_network m)), (''wasmHash'', JStr (kc_wasmHash m)), (''prover'', fingerprint_value (kc_prover m))]"

text \<open>Metadata is parsed before it is written, so that only what reads back is.\<close>

definition write_metadata :: "(jsval \<Rightarrow> string) \<Rightarrow> (jsval \<Rightarrow> string \<Rightarrow> key_error + 'm) \<Rightarrow> string \<Rightarrow> string \<Rightarrow> jsval
    \<Rightarrow> key_error + file_op list" where
  "write_metadata stringify parse stamp p value = bindR (parse value p) (\<lambda>_. Inr (writeFileAtomic stamp p (stringify value)))"

definition writeKeyArtifactsMetadata :: "(jsval \<Rightarrow> string) \<Rightarrow> string \<Rightarrow> string \<Rightarrow> key_artifacts_metadata \<Rightarrow> key_error + file_op list" where
  "writeKeyArtifactsMetadata stringify stamp p m = write_metadata stringify parseKeyArtifactsMetadata stamp p (artifacts_json m)"

definition writeRuntimeKeyCacheMetadata :: "(jsval \<Rightarrow> string) \<Rightarrow> string \<Rightarrow> string \<Rightarrow> runtime_key_metadata \<Rightarrow> key_error + file_op list" where
  "writeRuntimeKeyCacheMetadata stringify stamp p m = write_metadata stringify parseRuntimeKeyCacheMetadata stamp p (runtime_json m)"

definition writeCreditsKeyCacheMetadata :: "(jsval \<Rightarrow> string) \<Rightarrow> string \<Rightarrow> string \<Rightarrow> credits_key_metadata \<Rightarrow> key_error + file_op list" where
  "writeCreditsKeyCacheMetadata stringify stamp p m = write_metadata stringify parseCreditsKeyCacheMetadata stamp p (credits_json m)"

section \<open>What is written reads back\<close>

lemma js_get_Cons: "js_get ((k, v) # m) x = (if x = k then v else js_get m x)"
  by (simp add: js_get_def)

lemma js_get_Nil: "js_get [] x = JUndef"
  by (simp add: js_get_def)

lemma js_get_opt: "js_get (opt_member k f x @ m) y = (if y = k \<and> x \<noteq> None then f (the x) else js_get m y)"
  by (cases x) (auto simp: opt_member_def js_get_def)

lemma js_get_opt_last: "js_get (opt_member k f x) y = (if y = k \<and> x \<noteq> None then f (the x) else JUndef)"
  by (cases x) (auto simp: opt_member_def js_get_def)

lemmas js_get_members = js_get_Cons js_get_Nil js_get_opt js_get_opt_last

lemma nat_of_jint [simp]: "nat_of (JNum (Fin (of_nat n))) = Some n"
  by (simp add: nat_of_def)

lemma nat_of_undef [simp]: "nat_of JUndef = None"
  by (simp add: nat_of_def)

definition valid_fingerprint :: "key_fingerprint \<Rightarrow> bool" where
  "valid_fingerprint f \<longleftrightarrow> is_sha256_hex (kf_sha256 f)"

lemma fingerprint_round_trip: "valid_fingerprint f \<Longrightarrow> expectFingerprint (fingerprint_value f) label p = Inr f"
  by (simp add: expectFingerprint_def fingerprint_value_def valid_fingerprint_def is_record_def js_get_members)

lemma expectFingerprint_valid: "expectFingerprint v label p = Inr f \<Longrightarrow> valid_fingerprint f"
  by (auto simp: expectFingerprint_def valid_fingerprint_def split: if_splits jsval.splits option.splits)

definition valid_identity :: "runtime_key_identity \<Rightarrow> bool" where
  "valid_identity i \<longleftrightarrow> ki_network i \<noteq> [] \<and> ki_programId i \<noteq> [] \<and> ki_transition i \<noteq> [] \<and> ki_sourceHash i \<noteq> []
     \<and> ki_importsHash i \<noteq> [] \<and> ki_wasmHash i \<noteq> []"

lemma identity_round_trip: "valid_identity i \<Longrightarrow> expectIdentity (identity_json i) p = Inr i"
  by (cases i; cases "ki_edition i")
    (simp_all add: expectIdentity_def expectString_def identity_json_def valid_identity_def is_record_def js_get_members)

lemma diagnostics_round_trip: "expectDiagnostics (diagnostics_json d) p = Inr d"
  by (cases d) (simp add: expectDiagnostics_def diagnostics_json_def is_record_def expect_version_def optional_def js_get_members)

definition valid_runtime :: "runtime_key_metadata \<Rightarrow> bool" where
  "valid_runtime m \<longleftrightarrow> valid_identity (km_identity m) \<and> valid_fingerprint (km_prover m) \<and> valid_fingerprint (km_verifier m)"

lemma runtime_round_trip: "valid_runtime m \<Longrightarrow> parseRuntimeKeyCacheMetadata (runtime_json m) p = Inr m"
  by (cases m) (simp add: parseRuntimeKeyCacheMetadata_def runtime_json_def valid_runtime_def expect_format_def is_record_def
      js_get_members identity_round_trip fingerprint_round_trip optional_def diagnostics_json_def
      diagnostics_round_trip [unfolded diagnostics_json_def])

definition valid_ref :: "key_file_ref \<Rightarrow> bool" where
  "valid_ref r \<longleftrightarrow> kr_path r \<noteq> [] \<and> valid_fingerprint (kr_fingerprint r)"

definition valid_function :: "key_function_ref \<Rightarrow> bool" where
  "valid_function f \<longleftrightarrow> kn_transition f \<noteq> [] \<and> pred_option valid_ref (kn_prover f) \<and> pred_option valid_ref (kn_verifier f)"

lemma ref_round_trip: "valid_ref r \<Longrightarrow> expectKeyFileRef (ref_json r) label p = Inr r"
  by (cases r) (simp add: expectKeyFileRef_def ref_json_def valid_ref_def is_record_def js_get_members expectString_def fingerprint_round_trip)

lemma ref_json_defined: "ref_json r \<noteq> JUndef"
  by (simp add: ref_json_def)

lemma function_round_trip: "valid_function f \<Longrightarrow> expectFunctionRef p (function_json f) = Inr f"
  by (cases f) (auto simp: expectFunctionRef_def function_json_def valid_function_def is_record_def js_get_members expectString_def
      optional_def ref_round_trip ref_json_defined)

definition valid_artifacts :: "key_artifacts_metadata \<Rightarrow> bool" where
  "valid_artifacts m \<longleftrightarrow> ka_programId m \<noteq> [] \<and> ka_sourceProgramId m \<noteq> [] \<and> ka_sourceHash m \<noteq> [] \<and> ka_importsHash m \<noteq> []
     \<and> pred_option (list_all valid_function) (ka_functions m)"

lemma functions_round_trip: "list_all valid_function fs \<Longrightarrow> mapR (expectFunctionRef p) (map function_json fs) = Inr fs"
  by (induction fs) (simp_all add: function_round_trip)

lemma artifacts_round_trip: "valid_artifacts m \<Longrightarrow> parseKeyArtifactsMetadata (artifacts_json m) p = Inr m"
  by (cases m) (auto simp: parseKeyArtifactsMetadata_def artifacts_json_def valid_artifacts_def expect_format_def is_record_def
      js_get_members expectString_def optional_def expectFunctionRefs_def functions_round_trip)

lemma credits_round_trip:
  "kc_locator m \<noteq> [] \<Longrightarrow> kc_network m \<noteq> [] \<Longrightarrow> kc_wasmHash m \<noteq> [] \<Longrightarrow> valid_fingerprint (kc_prover m)
    \<Longrightarrow> parseCreditsKeyCacheMetadata (credits_json m) p = Inr m"
  by (cases m) (simp add: parseCreditsKeyCacheMetadata_def credits_json_def expect_format_def is_record_def js_get_members
      expectString_def fingerprint_round_trip)

section \<open>References stay inside\<close>

text \<open>A reference that resolves names the directory itself or a path below it.\<close>

lemma resolveKeyFileRef_inside:
  "resolveKeyFileRef cwd base ref = Inr p \<Longrightarrow> p = path_resolve cwd [base] \<or> prefix (path_resolve cwd [base] @ ''/'') p"
  by (auto simp: resolveKeyFileRef_def Let_def starts_with_prefix split: if_splits)

text \<open>A key file that verifies exists and has the recorded hash and size.\<close>

lemma verifyKeyFileRef_true:
  "verifyKeyFileRef sha fs cwd base ref = Inr True \<longleftrightarrow>
    (\<exists>p bytes. resolveKeyFileRef cwd base ref = Inr p \<and> om_get fs p = Some bytes \<and> fingerprintBytes sha bytes = kr_fingerprint ref)"
  by (auto simp: verifyKeyFileRef_def fingerprintsEqual_iff split: option.splits)

section \<open>Names of joined paths\<close>

text \<open>The last part of a joined path is its base name, when it is a name.\<close>

lemma norm_segs_last: "real_seg n \<Longrightarrow> norm_segs rel acc (ss @ [n]) = norm_segs rel acc ss @ [n]"
  by (induction rel acc ss rule: norm_segs.induct) (auto simp: real_seg_def split: list.splits)

lemma split_on_plain: "d \<notin> set n \<Longrightarrow> split_on d n = [n]"
  by (induction n) auto

lemma split_on_append: "d \<notin> set n \<Longrightarrow> split_on d (s @ d # n) = split_on d s @ [n]"
proof (induction s)
  case (Cons c s)
  then show ?case by (cases "split_on d s") auto
qed (simp add: split_on_plain)

definition file_name :: "string \<Rightarrow> bool" where
  "file_name n \<longleftrightarrow> real_seg n \<and> path_sep \<notin> set n"

lemma last_file_name: "file_name n \<Longrightarrow> last n \<noteq> path_sep \<and> n \<noteq> []"
  using last_in_set by (fastforce simp: file_name_def real_seg_def)

lemma join_with_snoc: "ss \<noteq> [] \<Longrightarrow> join_with ''/'' (ss @ [n]) = join_with ''/'' ss @ ''/'' @ n"
  by (induction "''/'' :: string" ss rule: join_with.induct) auto

lemma basename_segments:
  assumes "file_name n"
  shows "path_basename ((if a then ''/'' else []) @ join_with ''/'' (ss @ [n])) = n"
proof -
  have n: "path_sep \<notin> set n" "n \<noteq> []" using assms by (auto simp: file_name_def real_seg_def)
  have "\<exists>xs. split_on path_sep ((if a then ''/'' else []) @ join_with ''/'' (ss @ [n])) = xs @ [n]"
  proof (cases "ss = []")
    case True
    then show ?thesis using n by (cases a) (auto simp: split_on_plain)
  next
    case False
    have "(if a then ''/'' else []) @ join_with ''/'' (ss @ [n]) = ((if a then ''/'' else []) @ join_with ''/'' ss) @ path_sep # n"
      using join_with_snoc [OF False] by simp
    then show ?thesis using split_on_append [OF n(1)] by metis
  qed
  then obtain xs where "split_on path_sep ((if a then ''/'' else []) @ join_with ''/'' (ss @ [n])) = xs @ [n]" by blast
  then show ?thesis using n(2) by (cases "filter (\<lambda>s. s \<noteq> []) xs") (auto simp: path_basename_def)
qed

lemma segments_last:
  assumes "file_name n" and "p = n \<or> (\<exists>d. p = d @ path_sep # n)"
  shows "\<exists>ss. segments p = ss @ [n]"
proof -
  have n: "path_sep \<notin> set n" "real_seg n" using assms(1) by (simp_all add: file_name_def)
  have "\<exists>xs. split_on path_sep p = xs @ [n]"
    using assms(2) split_on_append [OF n(1)] split_on_plain [OF n(1)] by fastforce
  then show ?thesis using norm_segs_last [OF n(2)] by (auto simp: segments_def)
qed

lemma basename_normalize:
  assumes "file_name n" and "p = n \<or> (\<exists>d. p = d @ path_sep # n)"
  shows "path_basename (path_normalize p) = n"
proof -
  have p: "p \<noteq> []" "last p \<noteq> path_sep" using assms last_file_name [OF assms(1)] by auto
  obtain ss where ss: "segments p = ss @ [n]" using segments_last [OF assms] by blast
  have "join_with ''/'' (ss @ [n]) \<noteq> []"
    using last_file_name [OF assms(1)] by (cases "ss = []") (auto simp: join_with_snoc)
  then have "path_normalize p = (if isAbsolute p then ''/'' else []) @ join_with ''/'' (ss @ [n])"
    using p ss by (simp add: path_normalize_def Let_def)
  then show ?thesis using basename_segments [OF assms(1)] by simp
qed

lemma basename_join [simp]: "file_name n \<Longrightarrow> path_basename (path_join [d, n]) = n"
proof -
  assume n: "file_name n"
  show "path_basename (path_join [d, n]) = n"
  proof (cases "d = []")
    case True
    then show ?thesis using basename_normalize [OF n] last_file_name [OF n] by (simp add: path_join_def)
  next
    case False
    have "path_join [d, n] = path_normalize (d @ path_sep # n)" using False last_file_name [OF n] by (simp add: path_join_def)
    then show ?thesis using basename_normalize [OF n] by simp
  qed
qed

text \<open>A temporary file is never one of the files it stands for.\<close>

lemma path_basename_no_sep: "path_sep \<notin> set (path_basename p)"
proof (cases "filter (\<lambda>s. s \<noteq> []) (split_on path_sep p)")
  case (Cons s ss)
  then have "last (s # ss) \<in> set (split_on path_sep p)" using last_in_set [of "s # ss"] by (metis filter_is_subset list.distinct(1) subsetD)
  then show ?thesis using split_on_no_sep Cons by (auto simp: path_basename_def split: list.split)
qed (simp add: path_basename_def)

lemma temp_path_basename:
  assumes "path_sep \<notin> set stamp"
  shows "path_basename (temp_path stamp p) = ''.'' @ path_basename p @ ''.'' @ stamp @ ''.tmp''"
proof -
  have "file_name (''.'' @ path_basename p @ ''.'' @ stamp @ ''.tmp'')"
    using assms path_basename_no_sep [of p] by (auto simp: file_name_def real_seg_def)
  then show ?thesis unfolding temp_path_def by (rule basename_join)
qed

end
