(* ===== verification/KeyCache.thy ===== *)
theory KeyCache imports KeyArtifacts Scrubber ConfigValues begin

text \<open>
  What an execution runs with (\<^verbatim>\<open>packages/network/src/execution-key-cache.ts\<close>): the source of the
  program and of everything it imports, statically or through runtime-import references, and the
  proving keys stored for it, beside the artifact or in the runtime cache. Programs on the network,
  hashing, JSON and the collation of \<^verbatim>\<open>localeCompare\<close> are arguments.
\<close>

section \<open>Sources\<close>

record key_env =
  ke_sha :: "string \<Rightarrow> string"
  ke_json :: parse_json
  ke_stringify :: "jsval \<Rightarrow> string"
  ke_print :: "jsval \<Rightarrow> string"
  ke_collate :: "string list \<Rightarrow> string list"
  ke_cwd :: string
  ke_getProgram :: "string \<Rightarrow> string + string"

datatype import_origin =
    StaticArtifact string
  | StaticNetwork
  | RuntimePath string
  | RuntimeArtifact string
  | RuntimeNetwork string

datatype execution_error =
    KeyFault key_error
  | ImportPathMissing string
  | ImportConflict string import_origin import_origin
  | NoProgramHeader string
  | ProgramUnavailable string string
  | ImportsTooDeep

definition keyR :: "key_error + 'a \<Rightarrow> execution_error + 'a" where
  "keyR r = (case r of Inl e \<Rightarrow> Inl (KeyFault e) | Inr x \<Rightarrow> Inr x)"

definition networkSource :: "key_env \<Rightarrow> string \<Rightarrow> execution_error + string" where
  "networkSource e programId = (case ke_getProgram e programId of Inl m \<Rightarrow> Inl (ProgramUnavailable programId m) | Inr s \<Rightarrow> Inr s)"

text \<open>The source and the directory of a compiled program.\<close>

definition readLocalProgramSource :: "files \<Rightarrow> string option \<Rightarrow> string \<Rightarrow> (string \<times> string) option" where
  "readLocalProgramSource fs artifactsDir programId =
    (case artifactsDir of None \<Rightarrow> None | Some dir \<Rightarrow>
       if dir = [] then None
       else let artifactDir = path_join [dir, programId]
            in map_option (\<lambda>source. (source, artifactDir)) (om_get fs (path_join [artifactDir, ''main.aleo''])))"

definition parseImportIds :: "key_env \<Rightarrow> string \<Rightarrow> string list" where
  "parseImportIds e programSource = ke_collate e (js_dedup (scan_all match_import programSource))"

text \<open>\<^verbatim>\<open>/^\s*program\s+([a-zA-Z_][a-zA-Z0-9_]*\.aleo)\s*;/m\<close>, at a position and in the whole text.\<close>

definition match_header :: "string \<Rightarrow> string option" where
  "match_header s = Option.bind (strip_prefix ''program'' (skip_spaces s)) (\<lambda>s1. Option.bind (match_spaces s1) (\<lambda>s2.
     Option.bind (match_id s2) (\<lambda>(n, s3).
       case skip_spaces s3 of
         c # _ \<Rightarrow> if c = CHR '';'' \<and> \<not> is_digit (hd n) then Some n else None
       | [] \<Rightarrow> None)))"

fun find_header :: "bool \<Rightarrow> string \<Rightarrow> string option" where
  "find_header line_start [] = None"
| "find_header line_start (c # cs) =
    (case (if line_start then match_header (c # cs) else None) of
      Some n \<Rightarrow> Some n
    | None \<Rightarrow> find_header (c = CHR 10 \<or> c = CHR 13) cs)"

definition parseProgramIdFromSource :: "string \<Rightarrow> string \<Rightarrow> execution_error + string" where
  "parseProgramIdFromSource source sourcePath =
    (case find_header True source of None \<Rightarrow> Inl (NoProgramHeader sourcePath) | Some n \<Rightarrow> Inr n)"

section \<open>The import walk\<close>

record import_walk =
  iw_imports :: "(string, string) omap"
  iw_origins :: "(string, import_origin) omap"

definition addImport :: "string \<Rightarrow> string \<Rightarrow> import_origin \<Rightarrow> import_walk \<Rightarrow> execution_error + import_walk" where
  "addImport i source origin w =
    (case om_get (iw_imports w) i of
      Some existing \<Rightarrow>
        if existing = source then Inr w
        else Inl (ImportConflict i (the (om_get (iw_origins w) i)) origin)
    | None \<Rightarrow> Inr (w\<lparr>iw_imports := om_set i source (iw_imports w), iw_origins := om_set i origin (iw_origins w)\<rparr>))"

definition static_source :: "key_env \<Rightarrow> files \<Rightarrow> string option \<Rightarrow> string \<Rightarrow> execution_error + (string \<times> import_origin)" where
  "static_source e fs artifactsDir importId =
    (case readLocalProgramSource fs artifactsDir importId of
      Some (source, dir) \<Rightarrow> Inr (source, StaticArtifact importId)
    | None \<Rightarrow> bindR (networkSource e importId) (\<lambda>source. Inr (source, StaticNetwork)))"

text \<open>The recursion is bounded by the number of nested programs it may enter.\<close>

fun visit_imports :: "nat \<Rightarrow> key_env \<Rightarrow> files \<Rightarrow> string option \<Rightarrow> string \<Rightarrow> string list \<Rightarrow> import_walk
    \<Rightarrow> execution_error + import_walk" where
  "visit_imports 0 e fs artifactsDir programSource ancestry w = Inl ImportsTooDeep"
| "visit_imports (Suc n) e fs artifactsDir programSource ancestry w =
    foldR (\<lambda>w importId.
        if om_has (iw_imports w) importId \<or> importId \<in> set ancestry then Inr w
        else
          bindR (static_source e fs artifactsDir importId) (\<lambda>(source, origin).
          bindR (addImport importId source origin w) (\<lambda>w'.
            visit_imports n e fs artifactsDir source (importId # ancestry) w')))
      w (parseImportIds e programSource)"

definition seedRuntimeImport :: "key_env \<Rightarrow> files \<Rightarrow> string option \<Rightarrow> runtime_import_ref
    \<Rightarrow> execution_error + (string \<times> string \<times> import_origin)" where
  "seedRuntimeImport e fs artifactsDir ref =
    (case ref of
      RefPath p \<Rightarrow>
        (case om_get fs p of
          None \<Rightarrow> Inl (ImportPathMissing p)
        | Some source \<Rightarrow> bindR (parseProgramIdFromSource source p) (\<lambda>i. Inr (i, source, RuntimePath p)))
    | RefProgram i \<Rightarrow>
        (case readLocalProgramSource fs artifactsDir i of
          Some (source, dir) \<Rightarrow> Inr (i, source, RuntimeArtifact i)
        | None \<Rightarrow> bindR (networkSource e i) (\<lambda>source. Inr (i, source, RuntimeNetwork i))))"

definition seed_imports :: "nat \<Rightarrow> key_env \<Rightarrow> files \<Rightarrow> string option \<Rightarrow> runtime_import_ref list \<Rightarrow> import_walk
    \<Rightarrow> execution_error + import_walk" where
  "seed_imports n e fs artifactsDir refs w =
    foldR (\<lambda>w ref.
        bindR (seedRuntimeImport e fs artifactsDir ref) (\<lambda>(i, source, origin).
        bindR (addImport i source origin w) (\<lambda>w'.
          visit_imports n e fs artifactsDir source [i] w'))) w refs"

definition sorted_entries :: "key_env \<Rightarrow> (string, string) omap \<Rightarrow> (string, string) omap" where
  "sorted_entries e m = map (\<lambda>k. (k, the (om_get m k))) (ke_collate e (om_keys m))"

definition resolveProgramImports :: "nat \<Rightarrow> key_env \<Rightarrow> files \<Rightarrow> string option \<Rightarrow> string \<Rightarrow> runtime_import_ref list
    \<Rightarrow> execution_error + (string, string) omap option" where
  "resolveProgramImports n e fs artifactsDir programSource runtimeImports =
    bindR (seed_imports n e fs artifactsDir runtimeImports \<lparr>iw_imports = [], iw_origins = []\<rparr>) (\<lambda>w.
    bindR (visit_imports n e fs artifactsDir programSource [] w) (\<lambda>w'.
      Inr (if iw_imports w' = [] then None else Some (sorted_entries e (iw_imports w')))))"

definition hashImports :: "key_env \<Rightarrow> (string, string) omap option \<Rightarrow> string" where
  "hashImports e imports' =
    ke_sha e (ke_stringify e (JObj [(''imports'', JArr (case imports' of None \<Rightarrow> []
      | Some m \<Rightarrow> map (\<lambda>(i, source). JObj [(''programId'', JStr i), (''sourceHash'', JStr (ke_sha e source))]) (sorted_entries e m)))]))"

section \<open>The artifacts of an execution\<close>

record execution_artifacts =
  xa_source :: string
  xa_local :: bool
  xa_sourceHash :: string
  xa_imports :: "(string, string) omap option"
  xa_importsHash :: string
  xa_artifactDir :: "string option"
  xa_sidecar :: "key_artifacts_metadata option"

definition resolveProgramExecutionArtifacts :: "nat \<Rightarrow> key_env \<Rightarrow> files \<Rightarrow> string option \<Rightarrow> string \<Rightarrow> bool
    \<Rightarrow> runtime_import_ref list \<Rightarrow> execution_error + execution_artifacts" where
  "resolveProgramExecutionArtifacts n e fs artifactsDir programId includeSidecar runtimeImports =
    (let here = readLocalProgramSource fs artifactsDir programId
     in bindR (case here of Some (source, dir) \<Rightarrow> Inr source | None \<Rightarrow> networkSource e programId) (\<lambda>source.
        bindR (resolveProgramImports n e fs artifactsDir source runtimeImports) (\<lambda>imports'.
        bindR (case artifactsDir of
                 None \<Rightarrow> Inr None
               | Some dir \<Rightarrow> if includeSidecar \<and> dir \<noteq> []
                   then keyR (readKeyArtifactsMetadata (ke_json e) fs (keyArtifactsMetadataPath dir programId)) else Inr None) (\<lambda>sidecar.
          Inr \<lparr>xa_source = source, xa_local = (here \<noteq> None), xa_sourceHash = ke_sha e source, xa_imports = imports',
               xa_importsHash = hashImports e imports', xa_artifactDir = map_option snd here, xa_sidecar = sidecar\<rparr>))))"

section \<open>Whether a transition consumes a record\<close>

datatype input_class = ClassRecord | ClassSafe | ClassUnknown

definition classifyInputType :: "jsval \<Rightarrow> input_class" where
  "classifyInputType ty =
    (if ty = JStr ''DynamicRecord'' then ClassRecord
     else case ty of
         JObj m \<Rightarrow> if om_has m ''Record'' then ClassRecord
                   else if om_has m ''Plaintext'' \<or> om_has m ''Future'' then ClassSafe else ClassUnknown
       | _ \<Rightarrow> ClassUnknown)"

fun classify_inputs :: "bool \<Rightarrow> jsval list \<Rightarrow> bool option" where
  "classify_inputs sawUnknown [] = (if sawUnknown then None else Some False)"
| "classify_inputs sawUnknown (i # is) =
    (case classifyInputType (prop_of i ''ty'') of
      ClassRecord \<Rightarrow> Some True
    | ClassUnknown \<Rightarrow> classify_inputs True is
    | ClassSafe \<Rightarrow> classify_inputs sawUnknown is)"

text \<open>The outer option is a \<^verbatim>\<open>TypeError\<close>: \<^verbatim>\<open>null\<close> is JSON, and its members are read outside the \<^verbatim>\<open>try\<close>.\<close>

definition transitionHasRecordInput :: "key_env \<Rightarrow> files \<Rightarrow> execution_artifacts \<Rightarrow> string \<Rightarrow> bool option option" where
  "transitionHasRecordInput e fs artifacts transition =
    (case xa_artifactDir artifacts of None \<Rightarrow> Some None | Some dir \<Rightarrow>
       if dir = [] then Some None
       else case Option.bind (om_get fs (path_join [dir, ''abi.json''])) (ke_json e) of
         None \<Rightarrow> Some None
       | Some parsed \<Rightarrow>
           if parsed = JNull then None
           else case prop_of parsed ''functions'' of
             JArr functions \<Rightarrow>
               (case find (\<lambda>entry. prop_of entry ''name'' = JStr transition) functions of
                 None \<Rightarrow> Some None
               | Some fn \<Rightarrow> (case prop_of fn ''inputs'' of
                   JArr inputs \<Rightarrow> Some (classify_inputs False inputs)
                 | _ \<Rightarrow> Some None))
           | _ \<Rightarrow> Some None)"

section \<open>Stored keys\<close>

record key_pair =
  kp_proving :: string
  kp_verifying :: string

datatype key_source = FromSidecar | FromRuntime

definition readSidecarKeys :: "key_env \<Rightarrow> files \<Rightarrow> execution_artifacts option \<Rightarrow> string \<Rightarrow> key_error + key_pair option" where
  "readSidecarKeys e fs artifacts transition =
    (case artifacts of None \<Rightarrow> Inr None | Some a \<Rightarrow>
     (case (xa_sidecar a, xa_artifactDir a) of
       (Some sidecar, Some dir) \<Rightarrow>
         if ka_sourceHash sidecar \<noteq> xa_sourceHash a then Inr None
         else if ka_importsHash sidecar \<noteq> xa_importsHash a then Inr None
         else (case find (\<lambda>fn. kn_transition fn = transition) (case ka_functions sidecar of None \<Rightarrow> [] | Some fns \<Rightarrow> fns) of
             None \<Rightarrow> Inr None
           | Some entry \<Rightarrow> (case (kn_prover entry, kn_verifier entry) of
               (Some prover, Some verifier) \<Rightarrow>
                 bindR (verifyKeyFileRef (ke_sha e) fs (ke_cwd e) dir prover) (\<lambda>ok.
                 if \<not> ok then Inr None
                 else bindR (verifyKeyFileRef (ke_sha e) fs (ke_cwd e) dir verifier) (\<lambda>ok'.
                 if \<not> ok' then Inr None
                 else bindR (resolveKeyFileRef (ke_cwd e) dir prover) (\<lambda>pp.
                      bindR (readFileSync fs pp) (\<lambda>pk.
                      bindR (resolveKeyFileRef (ke_cwd e) dir verifier) (\<lambda>vp.
                      bindR (readFileSync fs vp) (\<lambda>vk.
                        Inr (Some \<lparr>kp_proving = pk, kp_verifying = vk\<rparr>)))))))
             | _ \<Rightarrow> Inr None))
     | _ \<Rightarrow> Inr None))"

definition runtimeIdentityDir :: "key_env \<Rightarrow> string \<Rightarrow> runtime_key_identity \<Rightarrow> string" where
  "runtimeIdentityDir e cachePath identity =
    path_join [cachePath, ''lionden-runtime'', ke_sha e (ke_stringify e (identity_json identity))]"

definition cache_file :: "key_env \<Rightarrow> string \<Rightarrow> runtime_key_identity \<Rightarrow> string \<Rightarrow> string" where
  "cache_file e cachePath identity name = path_join [runtimeIdentityDir e cachePath identity, name]"

definition readRuntimeKeys :: "key_env \<Rightarrow> files \<Rightarrow> string \<Rightarrow> runtime_key_identity \<Rightarrow> key_pair option" where
  "readRuntimeKeys e fs cachePath identity =
    (let at' = cache_file e cachePath identity
     in case readRuntimeKeyCacheMetadata (ke_json e) fs (at' ''metadata.json'') of
          Inr (Some m) \<Rightarrow>
            if km_identity m \<noteq> identity then None
            else (case (om_get fs (at' ''prover.key''), om_get fs (at' ''verifier.key'')) of
                (Some pk, Some vk) \<Rightarrow>
                  if \<not> fingerprintsEqual (fingerprintBytes (ke_sha e) pk) (km_prover m) then None
                  else if \<not> fingerprintsEqual (fingerprintBytes (ke_sha e) vk) (km_verifier m) then None
                  else Some \<lparr>kp_proving = pk, kp_verifying = vk\<rparr>
              | _ \<Rightarrow> None)
        | _ \<Rightarrow> None)"

definition findCachedExecutionKeys :: "key_env \<Rightarrow> files \<Rightarrow> string \<Rightarrow> runtime_key_identity \<Rightarrow> execution_artifacts option
    \<Rightarrow> key_error + (key_source \<times> key_pair) option" where
  "findCachedExecutionKeys e fs cachePath identity artifacts =
    bindR (readSidecarKeys e fs artifacts (ki_transition identity)) (\<lambda>sidecarHit.
      case sidecarHit of
        Some keys \<Rightarrow> Inr (Some (FromSidecar, keys))
      | None \<Rightarrow> Inr (map_option (Pair FromRuntime) (readRuntimeKeys e fs cachePath identity)))"

record cache_write =
  cw_identity :: runtime_key_identity
  cw_keys :: key_pair
  cw_diagnostics :: "key_diagnostics option"

definition write_meta :: "key_env \<Rightarrow> cache_write \<Rightarrow> runtime_key_metadata" where
  "write_meta e w = \<lparr>km_identity = cw_identity w, km_prover = fingerprintBytes (ke_sha e) (kp_proving (cw_keys w)),
     km_verifier = fingerprintBytes (ke_sha e) (kp_verifying (cw_keys w)), km_diagnostics = cw_diagnostics w\<rparr>"

text \<open>The result, and the disk operations done: the keys are stored before the metadata is checked.\<close>

definition writeCachedExecutionKeys :: "key_env \<Rightarrow> string \<Rightarrow> cache_write \<Rightarrow> string \<Rightarrow> (key_error + unit) \<times> file_op list" where
  "writeCachedExecutionKeys e stamp w cachePath =
    (let at' = cache_file e cachePath (cw_identity w);
         keys = writeFileAtomic stamp (at' ''prover.key'') (kp_proving (cw_keys w))
              @ writeFileAtomic stamp (at' ''verifier.key'') (kp_verifying (cw_keys w))
     in case writeRuntimeKeyCacheMetadata (ke_print e) stamp (at' ''metadata.json'') (write_meta e w) of
          Inl err \<Rightarrow> (Inl err, keys)
        | Inr ops \<Rightarrow> (Inr (), keys @ ops))"

definition buildRuntimeKeyIdentity :: "string \<Rightarrow> string \<Rightarrow> string \<Rightarrow> nat option \<Rightarrow> string \<Rightarrow> string \<Rightarrow> string \<Rightarrow> runtime_key_identity" where
  "buildRuntimeKeyIdentity network programId transition edition sourceHash importsHash wasmHash =
    \<lparr>ki_network = network, ki_programId = programId, ki_transition = transition, ki_edition = edition,
     ki_sourceHash = sourceHash, ki_importsHash = importsHash, ki_wasmHash = wasmHash\<rparr>"

section \<open>Atomic writes under crashes\<close>

definition atomic_ops :: "(string \<times> string \<times> string) list \<Rightarrow> file_op list" where
  "atomic_ops xs = concat (map (\<lambda>(t, p, b). [FileWrite t b, FileRename t p]) xs)"

lemma atomic_get:
  "t \<noteq> p \<Longrightarrow> om_get (file_runs [FileWrite t b, FileRename t p] fs) q
    = (if q = p then Some b else if q = t then None else om_get fs q)"
  by (simp add: file_runs_def om_get_set om_get_delete)

lemma file_runs_append: "file_runs (xs @ ys) fs = file_runs ys (file_runs xs fs)"
  by (simp add: file_runs_def)

lemma crash_two:
  assumes "file_crash (FileWrite t b # FileRename t p # rest) fs fs'"
  shows "fs' = fs \<or> (\<exists>c. fs' = om_set t c fs) \<or> file_crash rest (file_runs [FileWrite t b, FileRename t p] fs) fs'"
  using assms
proof cases
  case (between_ops done' rest')
  consider "done' = []" | "done' = [FileWrite t b]" | d where "done' = FileWrite t b # FileRename t p # d" "rest = d @ rest'"
    using between_ops(2) by (cases done'; cases "tl done'") auto
  then show ?thesis
  proof cases
    case 3
    then have "fs' = file_runs d (file_runs [FileWrite t b, FileRename t p] fs)"
      using between_ops(1) file_runs_append [of "[FileWrite t b, FileRename t p]" d] by simp
    then show ?thesis using 3 file_crash.between_ops by metis
  qed (use between_ops(1) in \<open>auto simp: file_runs_def\<close>)
next
  case (torn_write done' p' c rest' torn)
  consider "done' = []" "p' = t" | d where "done' = FileWrite t b # FileRename t p # d" "rest = d @ FileWrite p' c # rest'"
    using torn_write(2) by (cases done'; cases "tl done'") auto
  then show ?thesis
  proof cases
    case 1
    then show ?thesis using torn_write(1) by (auto simp: file_runs_def)
  next
    case 2
    then have "fs' = om_set p' torn (file_runs d (file_runs [FileWrite t b, FileRename t p] fs))"
      using torn_write(1) file_runs_append [of "[FileWrite t b, FileRename t p]" d] by simp
    then show ?thesis using 2 file_crash.torn_write by metis
  qed
qed

lemma crash_nil: "file_crash [] fs fs' \<Longrightarrow> fs' = fs"
  by (erule file_crash.cases) (auto simp: file_runs_def)

text \<open>A crash leaves each file that is no temporary as it was, or as one of the writes made it.\<close>

lemma atomic_crash:
  assumes "file_crash (atomic_ops xs) fs fs'" and "\<And>x. x \<in> set xs \<Longrightarrow> fst x \<noteq> q \<and> fst x \<noteq> fst (snd x)"
  shows "om_get fs' q = om_get fs q \<or> (\<exists>t b. (t, q, b) \<in> set xs \<and> om_get fs' q = Some b)"
  using assms
proof (induction xs arbitrary: fs)
  case Nil
  then show ?case by (auto simp: atomic_ops_def dest: crash_nil)
next
  case (Cons x xs)
  obtain t p b where x: "x = (t, p, b)" by (cases x)
  have t: "t \<noteq> q" "t \<noteq> p" using Cons.prems(2) [of x] x by auto
  have "atomic_ops (x # xs) = FileWrite t b # FileRename t p # atomic_ops xs" by (simp add: atomic_ops_def x)
  from crash_two [OF Cons.prems(1) [unfolded this]] show ?case
  proof (elim disjE exE)
    let ?fs = "file_runs [FileWrite t b, FileRename t p] fs"
    assume "file_crash (atomic_ops xs) ?fs fs'"
    then have "om_get fs' q = om_get ?fs q \<or> (\<exists>t b. (t, q, b) \<in> set xs \<and> om_get fs' q = Some b)"
      using Cons.IH Cons.prems(2) by auto
    then show ?thesis using atomic_get [OF t(2)] t x by (auto split: if_splits)
  qed (use t in \<open>auto simp: om_get_set\<close>)
qed

lemma atomic_done:
  assumes "(t, q, b) \<in> set xs" and "distinct (map (\<lambda>(t, p, b). p) xs)" and "fst ` set xs \<inter> (\<lambda>(t, p, b). p) ` set xs = {}"
  shows "om_get (file_runs (atomic_ops xs) fs) q = Some b"
  using assms
proof (induction xs arbitrary: fs)
  case (Cons x xs)
  obtain t1 p1 b1 where x: "x = (t1, p1, b1)" by (cases x)
  have ops: "file_runs (atomic_ops (x # xs)) fs = file_runs (atomic_ops xs) (file_runs [FileWrite t1 b1, FileRename t1 p1] fs)"
    using file_runs_append [of "[FileWrite t1 b1, FileRename t1 p1]" "atomic_ops xs"] by (simp add: atomic_ops_def x)
  show ?case
  proof (cases "(t, q, b) \<in> set xs")
    case True
    have "distinct (map (\<lambda>(t, p, b). p) xs)" "fst ` set xs \<inter> (\<lambda>(t, p, b). p) ` set xs = {}" using Cons.prems(2,3) by auto
    then show ?thesis unfolding ops by (rule Cons.IH [OF True])
  next
    case False
    then have here: "t1 = t" "p1 = q" "b1 = b" using Cons.prems(1) x by auto
    let ?fs = "file_runs [FileWrite t b, FileRename t q] fs"
    have t: "t \<noteq> q" using Cons.prems(3) x here by auto
    have crash: "file_crash (atomic_ops xs) ?fs (file_runs (atomic_ops xs) ?fs)"
      by (rule file_crash.between_ops [where rest = "[]"]) simp
    have other: "fst y \<noteq> q \<and> fst y \<noteq> fst (snd y)" if "y \<in> set xs" for y
      using Cons.prems(3) that x here by (cases y) (force simp: image_iff)
    have "(t', q, b') \<notin> set xs" for t' b' using Cons.prems(2) x here by force
    then have "om_get (file_runs (atomic_ops xs) ?fs) q = om_get ?fs q"
      using atomic_crash [OF crash other] by blast
    then show ?thesis using atomic_get [OF t] unfolding ops here by simp
  qed
qed simp

section \<open>The runtime cache\<close>

definition cache_entries :: "string list" where
  "cache_entries = [''prover.key'', ''verifier.key'', ''metadata.json'']"

lemma cache_entry_name: "n \<in> set cache_entries \<Longrightarrow> file_name n \<and> hd n \<noteq> CHR ''.''"
proof -
  have "list_all (\<lambda>n. file_name n \<and> hd n \<noteq> CHR ''.'') cache_entries" by code_simp
  then show "n \<in> set cache_entries \<Longrightarrow> file_name n \<and> hd n \<noteq> CHR ''.''" by (auto simp only: list_all_iff)
qed

lemma cache_file_inj: "n \<in> set cache_entries \<Longrightarrow> m \<in> set cache_entries \<Longrightarrow> cache_file e cp i n = cache_file e cp j m \<Longrightarrow> n = m"
  using cache_entry_name basename_join unfolding cache_file_def by metis

lemma temp_not_cache:
  assumes "path_sep \<notin> set stamp" and "n \<in> set cache_entries"
  shows "temp_path stamp p \<noteq> cache_file e cp i n"
proof
  assume "temp_path stamp p = cache_file e cp i n"
  then have "n = ''.'' @ path_basename p @ ''.'' @ stamp @ ''.tmp''"
    using temp_path_basename [OF assms(1), of p] cache_entry_name [OF assms(2)] unfolding cache_file_def by (metis basename_join)
  then show False using cache_entry_name [OF assms(2)] by simp
qed

text \<open>What a write stores under a name, and the writes of one call with their temporary paths.\<close>

definition written_as :: "key_env \<Rightarrow> cache_write \<Rightarrow> string \<Rightarrow> string" where
  "written_as e w n = (if n = ''prover.key'' then kp_proving (cw_keys w) else if n = ''verifier.key'' then kp_verifying (cw_keys w)
     else ke_print e (runtime_json (write_meta e w)))"

definition cache_writes :: "key_env \<Rightarrow> string \<Rightarrow> cache_write \<Rightarrow> string \<Rightarrow> (string \<times> string \<times> string) list" where
  "cache_writes e stamp w cp =
    (let at' = cache_file e cp (cw_identity w)
     in map (\<lambda>n. (temp_path stamp (at' n), at' n, written_as e w n))
          (if isl (parseRuntimeKeyCacheMetadata (runtime_json (write_meta e w)) (at' ''metadata.json''))
           then take 2 cache_entries else cache_entries))"

lemma cache_writes_ops: "snd (writeCachedExecutionKeys e stamp w cp) = atomic_ops (cache_writes e stamp w cp)"
proof -
  let ?p = "parseRuntimeKeyCacheMetadata (runtime_json (write_meta e w)) (cache_file e cp (cw_identity w) ''metadata.json'')"
  show ?thesis
    by (cases ?p) (simp_all add: writeCachedExecutionKeys_def Let_def writeRuntimeKeyCacheMetadata_def write_metadata_def
        cache_writes_def cache_entries_def written_as_def atomic_ops_def writeFileAtomic_def)
qed

lemma cache_writes_entry:
  "(t, p, b) \<in> set (cache_writes e stamp w cp) \<Longrightarrow>
    \<exists>n \<in> set cache_entries. t = temp_path stamp p \<and> p = cache_file e cp (cw_identity w) n \<and> b = written_as e w n"
  unfolding cache_writes_def Let_def using set_take_subset [of 2 cache_entries] by (auto split: if_splits)

text \<open>What the files of the cache can hold, given the writes that were begun.\<close>

definition holds_written :: "key_env \<Rightarrow> string \<Rightarrow> cache_write list \<Rightarrow> files \<Rightarrow> bool" where
  "holds_written e cp ws fs \<longleftrightarrow> (\<forall>i. \<forall>n \<in> set cache_entries. \<forall>b.
     om_get fs (cache_file e cp i n) = Some b \<longrightarrow> (\<exists>w \<in> set ws. b = written_as e w n))"

text \<open>
  The histories of a cache: it starts without entries, writes run to their end or crash anywhere,
  entries are lost and other files change freely.
\<close>

inductive cache_history :: "key_env \<Rightarrow> string \<Rightarrow> cache_write list \<Rightarrow> files \<Rightarrow> bool" for e cp where
  fresh: "(\<And>i n. n \<in> set cache_entries \<Longrightarrow> om_get fs (cache_file e cp i n) = None) \<Longrightarrow> cache_history e cp [] fs"
| written: "cache_history e cp ws fs \<Longrightarrow> path_sep \<notin> set stamp
    \<Longrightarrow> file_crash (snd (writeCachedExecutionKeys e stamp w cp)) fs fs' \<Longrightarrow> cache_history e cp (w # ws) fs'"
| elsewhere: "cache_history e cp ws fs
    \<Longrightarrow> (\<And>i n. n \<in> set cache_entries \<Longrightarrow> om_get fs' (cache_file e cp i n) \<in> {None, om_get fs (cache_file e cp i n)})
    \<Longrightarrow> cache_history e cp ws fs'"

lemma write_crash_entry:
  assumes "file_crash (snd (writeCachedExecutionKeys e stamp w cp)) fs fs'" and "path_sep \<notin> set stamp"
    and n: "n \<in> set cache_entries" and got: "om_get fs' (cache_file e cp i n) = Some b"
  shows "om_get fs (cache_file e cp i n) = Some b \<or> b = written_as e w n"
proof -
  have other: "fst x \<noteq> cache_file e cp i n \<and> fst x \<noteq> fst (snd x)" if x: "x \<in> set (cache_writes e stamp w cp)" for x
  proof -
    obtain t p c where x': "x = (t, p, c)" by (cases x)
    obtain m where "m \<in> set cache_entries" "t = temp_path stamp p" "p = cache_file e cp (cw_identity w) m"
      using cache_writes_entry [OF x [unfolded x']] by blast
    then show ?thesis using x'
      using temp_not_cache [OF assms(2) n, of p e cp i] temp_not_cache [OF assms(2) \<open>m \<in> _\<close>, of p e cp "cw_identity w"] by simp
  qed
  from atomic_crash [OF assms(1) [unfolded cache_writes_ops] other]
  consider "om_get fs' (cache_file e cp i n) = om_get fs (cache_file e cp i n)"
    | t c where "(t, cache_file e cp i n, c) \<in> set (cache_writes e stamp w cp)" "om_get fs' (cache_file e cp i n) = Some c"
    by blast
  then show ?thesis
  proof cases
    case 2
    then obtain m where m: "m \<in> set cache_entries" "cache_file e cp i n = cache_file e cp (cw_identity w) m" "c = written_as e w m"
      using cache_writes_entry by blast
    then have "m = n" using cache_file_inj [OF n m(1) m(2)] by simp
    then show ?thesis using m(3) 2(2) got by simp
  qed (use got in simp)
qed

lemma history_holds_written: "cache_history e cp ws fs \<Longrightarrow> holds_written e cp ws fs"
proof (induction rule: cache_history.induct)
  case (written ws fs stamp w fs')
  have "\<exists>v \<in> set (w # ws). b = written_as e v n"
    if "n \<in> set cache_entries" "om_get fs' (cache_file e cp i n) = Some b" for i n b
    using write_crash_entry [OF written.hyps(3,2) that] written.IH that(1) by (auto simp: holds_written_def)
  then show ?case unfolding holds_written_def by blast
next
  case (elsewhere ws fs fs')
  have "\<exists>w \<in> set ws. b = written_as e w n" if "n \<in> set cache_entries" "om_get fs' (cache_file e cp i n) = Some b" for i n b
  proof -
    have "om_get fs (cache_file e cp i n) = Some b" using elsewhere.hyps(2) [OF that(1), of i] that(2) by auto
    then show ?thesis using elsewhere.IH that(1) by (auto simp: holds_written_def)
  qed
  then show ?case unfolding holds_written_def by blast
qed (simp add: holds_written_def)

text \<open>Metadata that parses is that of valid keys, and reads back as itself.\<close>

lemma identity_json_valid: "expectIdentity (identity_json i) p = Inr i' \<Longrightarrow> valid_identity i"
  by (cases i; cases "ki_edition i")
    (auto simp: expectIdentity_def expectString_def identity_json_def valid_identity_def is_record_def js_get_members split: if_splits)

lemma fingerprint_json_valid: "expectFingerprint (fingerprint_value f) label p = Inr f' \<Longrightarrow> valid_fingerprint f"
  by (auto simp: expectFingerprint_def fingerprint_value_def valid_fingerprint_def is_record_def js_get_members split: if_splits)

lemma runtime_json_valid: "parseRuntimeKeyCacheMetadata (runtime_json m) p = Inr m' \<Longrightarrow> valid_runtime m \<and> m' = m"
proof -
  assume parsed: "parseRuntimeKeyCacheMetadata (runtime_json m) p = Inr m'"
  then have "valid_runtime m"
    unfolding parseRuntimeKeyCacheMetadata_def runtime_json_def valid_runtime_def
    by (auto simp: js_get_members dest!: identity_json_valid fingerprint_json_valid)
  then show ?thesis using runtime_round_trip parsed by fastforce
qed

text \<open>The assumption on \<^verbatim>\<open>JSON\<close>: what was printed parses to the value it was printed from.\<close>

definition prints_back :: "key_env \<Rightarrow> cache_write \<Rightarrow> bool" where
  "prints_back e w \<longleftrightarrow> ke_json e (ke_print e (runtime_json (write_meta e w))) = Some (runtime_json (write_meta e w))"

text \<open>No two of the keys that were written share hash and size.\<close>

definition no_collision :: "key_env \<Rightarrow> cache_write list \<Rightarrow> bool" where
  "no_collision e ws \<longleftrightarrow>
    inj_on (fingerprintBytes (ke_sha e)) ((\<lambda>w. kp_proving (cw_keys w)) ` set ws \<union> (\<lambda>w. kp_verifying (cw_keys w)) ` set ws)"

lemma cache_entries_mem: "''prover.key'' \<in> set cache_entries" "''verifier.key'' \<in> set cache_entries" "''metadata.json'' \<in> set cache_entries"
  by (simp_all add: cache_entries_def)

lemma holds_writtenD:
  "holds_written e cp ws fs \<Longrightarrow> om_get fs (cache_file e cp i ''prover.key'') = Some b \<Longrightarrow> \<exists>w \<in> set ws. b = kp_proving (cw_keys w)"
  "holds_written e cp ws fs \<Longrightarrow> om_get fs (cache_file e cp i ''verifier.key'') = Some b \<Longrightarrow> \<exists>w \<in> set ws. b = kp_verifying (cw_keys w)"
  "holds_written e cp ws fs \<Longrightarrow> om_get fs (cache_file e cp i ''metadata.json'') = Some b \<Longrightarrow>
    \<exists>w \<in> set ws. b = ke_print e (runtime_json (write_meta e w))"
  using cache_entries_mem unfolding holds_written_def by (fastforce simp: written_as_def)+

lemma readRuntimeKeys_Some:
  "readRuntimeKeys e fs cp i = Some keys \<longleftrightarrow>
    (\<exists>m. readRuntimeKeyCacheMetadata (ke_json e) fs (cache_file e cp i ''metadata.json'') = Inr (Some m) \<and> km_identity m = i
      \<and> om_get fs (cache_file e cp i ''prover.key'') = Some (kp_proving keys) \<and> fingerprintBytes (ke_sha e) (kp_proving keys) = km_prover m
      \<and> om_get fs (cache_file e cp i ''verifier.key'') = Some (kp_verifying keys) \<and> fingerprintBytes (ke_sha e) (kp_verifying keys) = km_verifier m)"
  by (auto simp: readRuntimeKeys_def Let_def fingerprintsEqual_iff split: sum.splits option.splits if_splits)

lemma read_metadata_Some:
  "read_metadata json parse fs p = Inr (Some m) \<longleftrightarrow> (\<exists>s v. om_get fs p = Some s \<and> json s = Some v \<and> parse v p = Inr m)"
  by (auto simp: read_metadata_def readJson_def om_has_def split: option.splits)

text \<open>
  Keys the runtime cache gives for an identity were written for exactly that identity, the pair as
  it was written, whatever writes crashed half-way or mixed, as long as no two written keys collide
  under SHA-256.
\<close>

lemma runtime_keys_written:
  assumes "cache_history e cp ws fs" and "readRuntimeKeys e fs cp i = Some keys"
    and "\<And>w. w \<in> set ws \<Longrightarrow> prints_back e w" and "no_collision e ws"
  shows "\<exists>w \<in> set ws. cw_identity w = i \<and> cw_keys w = keys"
proof -
  note holds = history_holds_written [OF assms(1)]
  obtain m s v where m: "om_get fs (cache_file e cp i ''metadata.json'') = Some s" "ke_json e s = Some v"
      "parseRuntimeKeyCacheMetadata v (cache_file e cp i ''metadata.json'') = Inr m" "km_identity m = i"
    and pk: "om_get fs (cache_file e cp i ''prover.key'') = Some (kp_proving keys)" "fingerprintBytes (ke_sha e) (kp_proving keys) = km_prover m"
    and vk: "om_get fs (cache_file e cp i ''verifier.key'') = Some (kp_verifying keys)" "fingerprintBytes (ke_sha e) (kp_verifying keys) = km_verifier m"
    using assms(2) unfolding readRuntimeKeys_Some readRuntimeKeyCacheMetadata_def read_metadata_Some by blast
  obtain w where w: "w \<in> set ws" "s = ke_print e (runtime_json (write_meta e w))" using holds_writtenD(3) [OF holds m(1)] by blast
  then have "v = runtime_json (write_meta e w)" using assms(3) [OF w(1)] m(2) by (simp add: prints_back_def)
  then have mw: "m = write_meta e w" using runtime_json_valid m(3) by blast
  have "kp_proving keys = kp_proving (cw_keys w)"
    using assms(4) pk(2) mw holds_writtenD(1) [OF holds pk(1)] w(1)
    by (auto simp: no_collision_def write_meta_def dest!: inj_onD)
  moreover have "kp_verifying keys = kp_verifying (cw_keys w)"
    using assms(4) vk(2) mw holds_writtenD(2) [OF holds vk(1)] w(1)
    by (auto simp: no_collision_def write_meta_def dest!: inj_onD)
  ultimately have "cw_keys w = keys" by simp
  then show ?thesis using w(1) m(4) mw by (auto simp: write_meta_def)
qed

text \<open>
  C16: keys that were written completely are found again for their identity, whatever the cache
  held before.
\<close>

theorem cached_keys_read_back:
  assumes "writeCachedExecutionKeys e stamp w cp = (Inr (), ops)" and "path_sep \<notin> set stamp" and "prints_back e w"
  shows "readRuntimeKeys e (file_runs ops fs) cp (cw_identity w) = Some (cw_keys w)"
proof -
  let ?at = "cache_file e cp (cw_identity w)"
  let ?fs = "file_runs (atomic_ops (cache_writes e stamp w cp)) fs"
  have parsed: "\<not> isl (parseRuntimeKeyCacheMetadata (runtime_json (write_meta e w)) (?at ''metadata.json''))"
    using assms(1) by (auto simp: writeCachedExecutionKeys_def Let_def writeRuntimeKeyCacheMetadata_def write_metadata_def bindR_def
        split: sum.splits)
  have writes: "cache_writes e stamp w cp = map (\<lambda>n. (temp_path stamp (?at n), ?at n, written_as e w n)) cache_entries"
    using parsed by (simp add: cache_writes_def Let_def)
  have fs: "file_runs ops fs = ?fs" using assms(1) cache_writes_ops [of e stamp w cp] by simp
  have inj: "inj_on ?at (set cache_entries)" using cache_file_inj by (auto simp: inj_on_def)
  have "distinct cache_entries" by code_simp
  then have dist: "distinct (map (\<lambda>(t, p, b). p) (cache_writes e stamp w cp))"
    using inj by (simp add: writes comp_def distinct_map)
  have temps: "fst ` set (cache_writes e stamp w cp) \<inter> (\<lambda>(t, p, b). p) ` set (cache_writes e stamp w cp) = {}"
    using temp_not_cache [OF assms(2)] by (auto simp: writes)
  have got: "om_get ?fs (?at n) = Some (written_as e w n)" if "n \<in> set cache_entries" for n
    by (rule atomic_done [OF _ dist temps, where t = "temp_path stamp (?at n)"]) (use that in \<open>auto simp: writes\<close>)
  have "parseRuntimeKeyCacheMetadata (runtime_json (write_meta e w)) (?at ''metadata.json'') = Inr (write_meta e w)"
    using parsed runtime_json_valid by (metis isl_def sum.collapse(2))
  then have "readRuntimeKeyCacheMetadata (ke_json e) ?fs (?at ''metadata.json'') = Inr (Some (write_meta e w))"
    using got [OF cache_entries_mem(3)] assms(3)
    by (simp add: readRuntimeKeyCacheMetadata_def read_metadata_Some prints_back_def written_as_def)
  then show ?thesis
    using got [OF cache_entries_mem(1)] got [OF cache_entries_mem(2)]
    unfolding fs readRuntimeKeys_Some by (auto simp: written_as_def write_meta_def)
qed

section \<open>A cache in use\<close>

definition ex_identity :: "string \<Rightarrow> runtime_key_identity" where
  "ex_identity source = buildRuntimeKeyIdentity ''testnet'' ''t.aleo'' ''mint'' (Some 1) source ''i'' ''w''"

definition ex_write :: cache_write where
  "ex_write = \<lparr>cw_identity = ex_identity ''s'', cw_keys = \<lparr>kp_proving = ''PK'', kp_verifying = ''VK''\<rparr>, cw_diagnostics = None\<rparr>"

definition ex_sha :: "string \<Rightarrow> string" where
  "ex_sha s = replicate 64 (if s = ''PK'' then CHR ''a'' else CHR ''b'')"

definition ex_key_env :: key_env where
  "ex_key_env = \<lparr>ke_sha = ex_sha,
     ke_json = (\<lambda>s. if s = ''META'' then Some (runtime_json (write_meta
        \<lparr>ke_sha = ex_sha, ke_json = (\<lambda>_. None), ke_stringify = (\<lambda>_. []), ke_print = (\<lambda>_. []), ke_collate = (\<lambda>xs. xs),
         ke_cwd = ''/'', ke_getProgram = Inl\<rparr> ex_write)) else None),
     ke_stringify = (\<lambda>_. ''{}''), ke_print = (\<lambda>_. ''META''), ke_collate = (\<lambda>xs. xs), ke_cwd = ''/'', ke_getProgram = Inl\<rparr>"

lemma ex_prints_back: "prints_back ex_key_env ex_write"
  by (simp add: prints_back_def ex_key_env_def write_meta_def)

definition ex_cache_ops :: "file_op list" where
  "ex_cache_ops = snd (writeCachedExecutionKeys ex_key_env ''7'' ex_write ''/cache'')"

lemma ex_write_done: "writeCachedExecutionKeys ex_key_env ''7'' ex_write ''/cache'' = (Inr (), ex_cache_ops)"
proof -
  have "\<not> isl (fst (writeCachedExecutionKeys ex_key_env ''7'' ex_write ''/cache''))" by code_simp
  then show ?thesis unfolding ex_cache_ops_def by (metis prod.collapse sum.collapse(2) old.unit.exhaust)
qed

theorem cached_keys_read_back_witness:
  "readRuntimeKeys ex_key_env (file_runs ex_cache_ops []) ''/cache'' (cw_identity ex_write) = Some (cw_keys ex_write)"
  by (rule cached_keys_read_back [OF ex_write_done _ ex_prints_back]) code_simp

section \<open>What the import walk collects\<close>

text \<open>\<^verbatim>\<open>localeCompare\<close> sorting permutes.\<close>

definition collates :: "key_env \<Rightarrow> bool" where
  "collates e \<longleftrightarrow> (\<forall>xs. set (ke_collate e xs) = set xs)"

definition import_ids :: "string \<Rightarrow> string set" where
  "import_ids source = set (scan_all match_import source)"

lemma set_parseImportIds: "collates e \<Longrightarrow> set (parseImportIds e source) = import_ids source"
  by (simp add: parseImportIds_def collates_def import_ids_def)

text \<open>Where the source of an id may come from: a compiled artifact, the network, or a given file.\<close>

definition genuine :: "key_env \<Rightarrow> files \<Rightarrow> string option \<Rightarrow> runtime_import_ref list \<Rightarrow> string \<Rightarrow> string \<Rightarrow> bool" where
  "genuine e fs dir refs i source \<longleftrightarrow>
    (case readLocalProgramSource fs dir i of Some (s, d) \<Rightarrow> s = source | None \<Rightarrow> ke_getProgram e i = Inr source)
    \<or> (\<exists>p. RefPath p \<in> set refs \<and> om_get fs p = Some source \<and> find_header True source = Some i)"

text \<open>
  One step of the walk: sources are only added, each of them genuine, and what every added program
  imports is there as well.
\<close>

definition collects :: "(string \<Rightarrow> string \<Rightarrow> bool) \<Rightarrow> import_walk \<Rightarrow> import_walk \<Rightarrow> bool" where
  "collects G w w' \<longleftrightarrow>
    (\<forall>i s. om_get (iw_imports w) i = Some s \<longrightarrow> om_get (iw_imports w') i = Some s)
    \<and> (\<forall>i s. om_get (iw_imports w') i = Some s \<longrightarrow> om_get (iw_imports w) i = Some s
          \<or> G i s \<and> (\<forall>j \<in> import_ids s. om_has (iw_imports w') j))"

lemma collects_refl [simp]: "collects G w w"
  by (simp add: collects_def)

lemma collects_has: "collects G w w' \<Longrightarrow> om_has (iw_imports w) i \<Longrightarrow> om_has (iw_imports w') i"
  by (auto simp: collects_def om_has_def)

lemma collects_trans:
  assumes "collects G w w1" and "collects G w1 w2"
  shows "collects G w w2"
  using assms collects_has [OF assms(2)] unfolding collects_def by metis

text \<open>Adding an import whose own imports the rest of the step brings in.\<close>

lemma collects_add:
  assumes "addImport i s origin w = Inr w1" and "collects G w1 w2" and "G i s" and "\<And>j. j \<in> import_ids s \<Longrightarrow> om_has (iw_imports w2) j"
  shows "collects G w w2 \<and> om_get (iw_imports w2) i = Some s"
proof (cases "om_get (iw_imports w) i")
  case None
  then have w1: "iw_imports w1 = om_set i s (iw_imports w)" using assms(1) by (auto simp: addImport_def)
  have "om_get (iw_imports w2) i = Some s" using assms(2) by (simp add: collects_def w1 om_get_set)
  moreover have "om_get (iw_imports w2) k = Some t" if "om_get (iw_imports w) k = Some t" for k t
    using assms(2) that None by (cases "k = i") (auto simp: collects_def w1 om_get_set)
  moreover have "om_get (iw_imports w) k = Some t \<or> G k t \<and> (\<forall>j \<in> import_ids t. om_has (iw_imports w2) j)"
    if "om_get (iw_imports w2) k = Some t" for k t
  proof (cases "k = i")
    case True
    then show ?thesis using that calculation(1) assms(3,4) by auto
  next
    case False
    then have "om_get (iw_imports w1) k = om_get (iw_imports w) k" by (simp add: w1 om_get_set)
    then show ?thesis using assms(2) that unfolding collects_def by metis
  qed
  ultimately show ?thesis unfolding collects_def by blast
next
  case (Some t)
  then have "w1 = w" "t = s" using assms(1) by (auto simp: addImport_def split: if_splits)
  then show ?thesis using assms(2) Some by (auto simp: collects_def)
qed

lemma foldR_collects:
  assumes "foldR f w xs = Inr w'"
    and "\<And>x w w'. x \<in> set xs \<Longrightarrow> P w \<Longrightarrow> f w x = Inr w' \<Longrightarrow> collects G w w' \<and> Q x w' \<and> P w'"
    and "\<And>x w w'. Q x w \<Longrightarrow> collects G w w' \<Longrightarrow> Q x w'" and "P w"
  shows "collects G w w' \<and> (\<forall>x \<in> set xs. Q x w') \<and> P w'"
  using assms(1,2,4)
proof (induction xs arbitrary: w)
  case (Cons x xs)
  then obtain w1 where w1: "f w x = Inr w1" "foldR f w1 xs = Inr w'" by auto
  then have step: "collects G w w1" "Q x w1" "P w1" using Cons.prems(2,3) by auto
  then have "collects G w1 w' \<and> (\<forall>x \<in> set xs. Q x w') \<and> P w'" using Cons.IH [OF w1(2)] Cons.prems(2) by auto
  then show ?case using step assms(3) collects_trans by auto
qed simp

lemma static_source_genuine:
  "static_source e fs dir i = Inr (s, origin) \<Longrightarrow> genuine e fs dir refs i s"
  by (auto simp: static_source_def genuine_def networkSource_def split: option.splits sum.splits)

lemma visit_collects:
  assumes "collates e"
  shows "visit_imports n e fs dir source ancestry w = Inr w' \<Longrightarrow> (\<And>a. a \<in> set ancestry \<Longrightarrow> om_has (iw_imports w) a)
    \<Longrightarrow> collects (genuine e fs dir refs) w w' \<and> (\<forall>j \<in> import_ids source. om_has (iw_imports w') j)"
proof (induction n arbitrary: source ancestry w w')
  case (Suc n)
  let ?G = "genuine e fs dir refs" and ?P = "\<lambda>w. \<forall>a \<in> set ancestry. om_has (iw_imports w) a"
  have "collects ?G w w' \<and> (\<forall>i \<in> set (parseImportIds e source). om_has (iw_imports w') i) \<and> ?P w'"
  proof (rule foldR_collects)
    fix i u u'
    assume P: "?P u" and run: "(if om_has (iw_imports u) i \<or> i \<in> set ancestry then Inr u
        else bindR (static_source e fs dir i) (\<lambda>(source, origin).
          bindR (addImport i source origin u) (\<lambda>w'. visit_imports n e fs dir source (i # ancestry) w'))) = Inr u'"
    show "collects ?G u u' \<and> om_has (iw_imports u') i \<and> ?P u'"
    proof (cases "om_has (iw_imports u) i \<or> i \<in> set ancestry")
      case True
      then show ?thesis using run P by auto
    next
      case False
      then obtain s origin u1 where s: "static_source e fs dir i = Inr (s, origin)" and u1: "addImport i s origin u = Inr u1"
        and rec: "visit_imports n e fs dir s (i # ancestry) u1 = Inr u'" using run by auto
      have "iw_imports u1 = om_set i s (iw_imports u)" using u1 False by (auto simp: addImport_def om_has_def split: option.splits)
      then have "om_has (iw_imports u1) a" if "a \<in> set (i # ancestry)" for a using that P by (auto simp: om_has_set)
      from Suc.IH [OF rec this] have rec': "collects ?G u1 u'" "\<forall>j \<in> import_ids s. om_has (iw_imports u') j" by blast+
      then have "collects ?G u u' \<and> om_get (iw_imports u') i = Some s"
        using collects_add [OF u1] static_source_genuine [OF s] by blast
      then show ?thesis using P collects_has by (auto simp: om_has_def)
    qed
  qed (use Suc.prems collects_has in \<open>auto simp: om_has_def\<close>)
  then show ?case using set_parseImportIds [OF assms] by auto
qed simp

text \<open>A seeded reference is in the walk, with the source it stands for.\<close>

definition seeded :: "key_env \<Rightarrow> files \<Rightarrow> string option \<Rightarrow> runtime_import_ref \<Rightarrow> import_walk \<Rightarrow> bool" where
  "seeded e fs dir ref w \<longleftrightarrow>
    (\<exists>i s origin. seedRuntimeImport e fs dir ref = Inr (i, s, origin) \<and> om_get (iw_imports w) i = Some s)"

lemma seed_genuine:
  "seedRuntimeImport e fs dir ref = Inr (i, s, origin) \<Longrightarrow> ref \<in> set refs \<Longrightarrow> genuine e fs dir refs i s"
  by (auto simp: seedRuntimeImport_def genuine_def networkSource_def parseProgramIdFromSource_def
      split: runtime_import_ref.splits option.splits sum.splits)

lemma seed_collects:
  assumes "collates e" and "seed_imports n e fs dir refs w = Inr w'"
  shows "collects (genuine e fs dir refs) w w' \<and> (\<forall>ref \<in> set refs. seeded e fs dir ref w')"
proof -
  let ?G = "genuine e fs dir refs"
  have "collects ?G w w' \<and> (\<forall>ref \<in> set refs. seeded e fs dir ref w') \<and> True"
    using assms(2) unfolding seed_imports_def
  proof (rule foldR_collects)
    fix ref u u'
    assume ref: "ref \<in> set refs" and run: "bindR (seedRuntimeImport e fs dir ref) (\<lambda>(i, source, origin).
        bindR (addImport i source origin u) (\<lambda>w'. visit_imports n e fs dir source [i] w')) = Inr u'"
    then obtain i s origin u1 where s: "seedRuntimeImport e fs dir ref = Inr (i, s, origin)" and u1: "addImport i s origin u = Inr u1"
      and rec: "visit_imports n e fs dir s [i] u1 = Inr u'" by auto
    have "om_has (iw_imports u1) i" using u1 by (auto simp: addImport_def om_has_def om_get_set split: option.splits if_splits)
    then have "collects ?G u1 u'" "\<forall>j \<in> import_ids s. om_has (iw_imports u') j"
      using visit_collects [OF assms(1) rec] by auto
    then show "collects ?G u u' \<and> seeded e fs dir ref u' \<and> True"
      using collects_add [OF u1] seed_genuine [OF s ref] s unfolding seeded_def by blast
  qed (auto simp: seeded_def collects_def)
  then show ?thesis by simp
qed

lemma map_of_tabulate: "map_of (map (\<lambda>k. (k, f k)) ks) k = (if k \<in> set ks then Some (f k) else None)"
  by (induction ks) auto

lemma sorted_entries_get:
  assumes "collates e"
  shows "om_get (sorted_entries e m) k = om_get m k"
proof -
  have keys: "set (ke_collate e (om_keys m)) = set (om_keys m)" using assms by (simp add: collates_def)
  have "k \<in> set (om_keys m) \<longleftrightarrow> om_get m k \<noteq> None" using om_has_dom [of m k] by (simp add: om_has_def)
  then show ?thesis by (simp only: sorted_entries_def map_of_tabulate keys) (cases "om_get m k"; simp)
qed

definition import_map :: "(string, string) omap option \<Rightarrow> (string, string) omap" where
  "import_map imports' = (case imports' of None \<Rightarrow> [] | Some m \<Rightarrow> m)"

text \<open>
  C17: the imports an execution is given are complete and genuine: every static import of the
  program and of every program among them is there, every runtime reference is there with the
  source it stands for, and each source is that of the compiled artifact, of the network where
  there is no artifact, or of a given file that declares the id.
\<close>

theorem execution_imports_complete:
  assumes "collates e" and "resolveProgramImports n e fs dir source refs = Inr imports'"
  shows "(\<forall>j \<in> import_ids source. om_has (import_map imports') j)
    \<and> (\<forall>i s. om_get (import_map imports') i = Some s \<longrightarrow> genuine e fs dir refs i s
          \<and> (\<forall>j \<in> import_ids s. om_has (import_map imports') j))
    \<and> (\<forall>ref \<in> set refs. \<exists>i s origin. seedRuntimeImport e fs dir ref = Inr (i, s, origin) \<and> om_get (import_map imports') i = Some s)"
proof -
  let ?w0 = "\<lparr>iw_imports = [], iw_origins = []\<rparr>"
  obtain w w' where w: "seed_imports n e fs dir refs ?w0 = Inr w" and w': "visit_imports n e fs dir source [] w = Inr w'"
    and result: "imports' = (if iw_imports w' = [] then None else Some (sorted_entries e (iw_imports w')))"
    using assms(2) by (auto simp: resolveProgramImports_def)
  have get: "om_get (import_map imports') i = om_get (iw_imports w') i" for i
    using sorted_entries_get [OF assms(1)] by (simp add: import_map_def result)
  have seeds: "collects (genuine e fs dir refs) ?w0 w" "\<forall>ref \<in> set refs. seeded e fs dir ref w"
    using seed_collects [OF assms(1) w] by blast+
  have walk: "collects (genuine e fs dir refs) w w'" "\<forall>j \<in> import_ids source. om_has (iw_imports w') j"
    using visit_collects [OF assms(1) w'] by auto
  have all: "collects (genuine e fs dir refs) ?w0 w'" using collects_trans [OF seeds(1) walk(1)] .
  have "seeded e fs dir ref w'" if "ref \<in> set refs" for ref
    using seeds(2) walk(1) that by (fastforce simp: seeded_def collects_def)
  then show ?thesis using all walk(2) unfolding collects_def seeded_def om_has_def get by fastforce
qed

text \<open>The walk never exceeds its depth bound when it is above the number of programs it can meet.\<close>

definition import_universe :: "key_env \<Rightarrow> files \<Rightarrow> string option \<Rightarrow> string set \<Rightarrow> bool" where
  "import_universe e fs dir U \<longleftrightarrow> finite U \<and>
    (\<forall>i \<in> U. \<forall>s origin. static_source e fs dir i = Inr (s, origin) \<longrightarrow> import_ids s \<subseteq> U)"

definition walk_keys :: "import_walk \<Rightarrow> string set" where
  "walk_keys w = {i. om_has (iw_imports w) i}"

lemma foldR_safe:
  assumes "\<And>x s. x \<in> set xs \<Longrightarrow> I s \<Longrightarrow> f s x \<noteq> Inl e \<and> (\<forall>s'. f s x = Inr s' \<longrightarrow> I s')" and "I s"
  shows "foldR f s xs \<noteq> Inl e \<and> (\<forall>s'. foldR f s xs = Inr s' \<longrightarrow> I s')"
  using assms
proof (induction xs arbitrary: s)
  case (Cons x xs)
  then show ?case by (cases "f s x") (use Cons.prems(1) [of x s] Cons.prems(2) in auto)
qed simp

lemma addImport_keys: "addImport i s origin w = Inr w1 \<Longrightarrow> walk_keys w1 = insert i (walk_keys w)"
  by (auto simp: addImport_def walk_keys_def om_has_set split: option.splits if_splits) (auto simp: om_has_def)

lemma no_deep: "static_source e fs dir i \<noteq> Inl ImportsTooDeep" "addImport i s origin w \<noteq> Inl ImportsTooDeep"
  "seedRuntimeImport e fs dir ref \<noteq> Inl ImportsTooDeep"
  by (auto simp: static_source_def addImport_def seedRuntimeImport_def networkSource_def bindR_def parseProgramIdFromSource_def
      split: option.splits sum.splits runtime_import_ref.splits)

lemma visit_bounded:
  assumes "collates e" and U: "import_universe e fs dir U"
  shows "import_ids source \<subseteq> U \<Longrightarrow> card (U - walk_keys w) < n
    \<Longrightarrow> visit_imports n e fs dir source ancestry w \<noteq> Inl ImportsTooDeep
      \<and> (\<forall>w'. visit_imports n e fs dir source ancestry w = Inr w' \<longrightarrow> walk_keys w \<subseteq> walk_keys w')"
proof (induction n arbitrary: source ancestry w)
  case (Suc n)
  have fin: "finite U" using U by (simp add: import_universe_def)
  show ?case unfolding visit_imports.simps
  proof (rule foldR_safe)
    fix i u
    assume i: "i \<in> set (parseImportIds e source)" and u: "walk_keys w \<subseteq> walk_keys u"
    let ?step = "if om_has (iw_imports u) i \<or> i \<in> set ancestry then Inr u
        else bindR (static_source e fs dir i) (\<lambda>(source, origin).
          bindR (addImport i source origin u) (\<lambda>w'. visit_imports n e fs dir source (i # ancestry) w'))"
    have iU: "i \<in> U" using i Suc.prems(1) set_parseImportIds [OF assms(1)] by auto
    have deeper: "visit_imports n e fs dir s (i # ancestry) u1 \<noteq> Inl ImportsTooDeep
        \<and> (\<forall>w'. visit_imports n e fs dir s (i # ancestry) u1 = Inr w' \<longrightarrow> walk_keys u1 \<subseteq> walk_keys w')"
      if s: "static_source e fs dir i = Inr (s, origin)" and u1: "addImport i s origin u = Inr u1" and new: "\<not> om_has (iw_imports u) i"
      for s origin u1
    proof (rule Suc.IH)
      show "import_ids s \<subseteq> U" using U iU s by (auto simp: import_universe_def)
      have "U - walk_keys u1 \<subset> U - walk_keys w"
        using addImport_keys [OF u1] iU new u unfolding walk_keys_def by blast
      then have "card (U - walk_keys u1) < card (U - walk_keys w)" using fin by (intro psubset_card_mono) auto
      then show "card (U - walk_keys u1) < n" using Suc.prems(2) by simp
    qed
    show "?step \<noteq> Inl ImportsTooDeep \<and> (\<forall>s'. ?step = Inr s' \<longrightarrow> walk_keys w \<subseteq> walk_keys s')"
    proof (cases "om_has (iw_imports u) i \<or> i \<in> set ancestry")
      case False
      then have step: "?step = bindR (static_source e fs dir i) (\<lambda>(source, origin).
          bindR (addImport i source origin u) (\<lambda>w'. visit_imports n e fs dir source (i # ancestry) w'))" by simp
      have "?step \<noteq> Inl ImportsTooDeep" unfolding step bindR_Inl
        using deeper no_deep(1,2) False by (auto simp: bindR_Inl)
      moreover have "walk_keys w \<subseteq> walk_keys u'" if "?step = Inr u'" for u'
      proof -
        obtain s origin u1 where "static_source e fs dir i = Inr (s, origin)" "addImport i s origin u = Inr u1"
          "visit_imports n e fs dir s (i # ancestry) u1 = Inr u'" using \<open>?step = Inr u'\<close> unfolding step by auto
        then have "walk_keys u1 \<subseteq> walk_keys u'" "walk_keys u1 = insert i (walk_keys u)" using deeper False addImport_keys by auto
        then show ?thesis using u by blast
      qed
      ultimately show ?thesis by blast
    qed (use u in simp)
  qed simp
qed simp

lemma import_walk_ends:
  assumes "collates e" and U: "import_universe e fs dir U" and "import_ids source \<subseteq> U" and "card U < n"
    and "\<And>ref i s origin. ref \<in> set refs \<Longrightarrow> seedRuntimeImport e fs dir ref = Inr (i, s, origin) \<Longrightarrow> import_ids s \<subseteq> U"
  shows "resolveProgramImports n e fs dir source refs \<noteq> Inl ImportsTooDeep"
proof -
  have small: "card (U - walk_keys w) < n" for w
    using U assms(4) card_mono [of U "U - walk_keys w"] by (auto simp: import_universe_def)
  have seeds: "seed_imports n e fs dir refs w \<noteq> Inl ImportsTooDeep \<and> (\<forall>w'. seed_imports n e fs dir refs w = Inr w' \<longrightarrow> True)" for w
    unfolding seed_imports_def
  proof (rule foldR_safe)
    fix ref u assume ref: "ref \<in> set refs"
    let ?step = "bindR (seedRuntimeImport e fs dir ref) (\<lambda>(i, source, origin).
        bindR (addImport i source origin u) (\<lambda>w'. visit_imports n e fs dir source [i] w'))"
    have "?step \<noteq> Inl ImportsTooDeep"
      using visit_bounded [OF assms(1,2) assms(5) [OF ref] small] no_deep(2,3)
      by (cases "seedRuntimeImport e fs dir ref") (force simp: bindR_Inl)+
    then show "?step \<noteq> Inl ImportsTooDeep \<and> (\<forall>s'. ?step = Inr s' \<longrightarrow> True)" by simp
  qed simp
  then show ?thesis
    using visit_bounded [OF assms(1,2,3) small] by (auto simp: resolveProgramImports_def bindR_Inl)
qed


definition ex_import_env :: key_env where
  "ex_import_env = ex_key_env\<lparr>ke_getProgram := (\<lambda>i. if i = ''a.aleo'' then Inr ''import b.aleo; program a.aleo;'' else Inl ''404'')\<rparr>"

definition ex_import_files :: files where
  "ex_import_files = [(''/art/b.aleo/main.aleo'', ''program b.aleo;''), (''/x.aleo'', ''import b.aleo;'' @ CHR 10 # ''program x.aleo;'')]"

theorem execution_imports_complete_witness:
  "\<exists>imports'. resolveProgramImports 5 ex_import_env ex_import_files (Some ''/art'') ''import a.aleo; program m.aleo;'' [RefPath ''/x.aleo''] = Inr imports'
    \<and> om_keys (import_map imports') = [''x.aleo'', ''b.aleo'', ''a.aleo'']
    \<and> list_all (om_has (import_map imports')) (scan_all match_import ''import a.aleo; program m.aleo;'')"
proof -
  let ?run = "resolveProgramImports 5 ex_import_env ex_import_files (Some ''/art'') ''import a.aleo; program m.aleo;'' [RefPath ''/x.aleo'']"
  have "case ?run of Inr m \<Rightarrow> om_keys (import_map m) = [''x.aleo'', ''b.aleo'', ''a.aleo''] | Inl _ \<Rightarrow> False" by code_simp
  then obtain m where run: "?run = Inr m" and keys: "om_keys (import_map m) = [''x.aleo'', ''b.aleo'', ''a.aleo'']"
    by (cases ?run) auto
  have "collates ex_import_env" by (simp add: collates_def ex_import_env_def ex_key_env_def)
  from execution_imports_complete [OF this run] run keys show ?thesis by (auto simp: list_all_iff import_ids_def)
qed

section \<open>Keys beside the artifact\<close>

text \<open>Sidecar keys are those of the same source and imports, from files below the artifact that still have their recorded hash.\<close>

lemma sidecar_keys_verified:
  assumes "readSidecarKeys e fs (Some a) transition = Inr (Some keys)"
  shows "\<exists>sidecar dir fns entry pref vref. xa_sidecar a = Some sidecar \<and> xa_artifactDir a = Some dir
    \<and> ka_functions sidecar = Some fns \<and> entry \<in> set fns
    \<and> ka_sourceHash sidecar = xa_sourceHash a \<and> ka_importsHash sidecar = xa_importsHash a
    \<and> kn_transition entry = transition \<and> kn_prover entry = Some pref \<and> kn_verifier entry = Some vref
    \<and> fingerprintBytes (ke_sha e) (kp_proving keys) = kr_fingerprint pref
    \<and> fingerprintBytes (ke_sha e) (kp_verifying keys) = kr_fingerprint vref"
  using assms
  by (auto simp: readSidecarKeys_def bindR_Inr verifyKeyFileRef_def readFileSync_def fingerprintsEqual_iff find_Some_iff
      split: option.splits if_splits) (metis nth_mem)

text \<open>
  A sidecar that does not parse stops every execution of the program, also those that never look at
  its keys.
\<close>

lemma bad_sidecar_stops_execution:
  assumes "readKeyArtifactsMetadata (ke_json e) fs (keyArtifactsMetadataPath dir programId) = Inl err" and "dir \<noteq> []"
  shows "\<exists>err'. resolveProgramExecutionArtifacts n e fs (Some dir) programId True refs = Inl err'"
  using assms
  by (auto simp: resolveProgramExecutionArtifacts_def Let_def bindR_def keyR_def split: sum.splits option.splits)

text \<open>An \<^verbatim>\<open>abi.json\<close> that holds \<^verbatim>\<open>null\<close> raises an error instead of being unknown.\<close>

lemma null_abi_throws:
  assumes "xa_artifactDir a = Some dir" and "dir \<noteq> []" and "om_get fs (path_join [dir, ''abi.json'']) = Some s" and "ke_json e s = Some JNull"
  shows "transitionHasRecordInput e fs a transition = None"
  using assms by (simp add: transitionHasRecordInput_def)

end
