(* ===== verification/Locks.thy ===== *)
theory Locks imports Prelude begin

text \<open>
  The promise mutex that \<^verbatim>\<open>SdkDiagnostics.runExclusive\<close> (\<^verbatim>\<open>sdk-diagnostics.ts\<close>) and
  \<^verbatim>\<open>runWithLocalWasmTrapCapture\<close> (\<^verbatim>\<open>connection.ts\<close>) share: a call takes the current tail of
  the chain as the promise it waits for and makes its own the tail; it runs once the one before it
  was released, and releases its own when it is done, whether it threw or not. A lock is named by
  a number, calls are numbered as they enter.
\<close>

section \<open>The chain\<close>

datatype lock_phase = LockWaiting | LockHeld | LockReleased

record lock_call =
  lc_key :: nat
  lc_prev :: "nat option"
  lc_phase :: lock_phase

record locks =
  lk_calls :: "lock_call list"
  lk_tail :: "nat \<Rightarrow> nat option"

definition no_locks :: locks where
  "no_locks = \<lparr>lk_calls = [], lk_tail = (\<lambda>_. None)\<rparr>"

definition phase_of :: "locks \<Rightarrow> nat \<Rightarrow> lock_phase" where
  "phase_of s c = lc_phase (lk_calls s ! c)"

definition key_of :: "locks \<Rightarrow> nat \<Rightarrow> nat" where
  "key_of s c = lc_key (lk_calls s ! c)"

text \<open>\<^verbatim>\<open>const previous = this.lock; this.lock = new Promise(..)\<close>\<close>

definition lock_enter :: "nat \<Rightarrow> locks \<Rightarrow> locks" where
  "lock_enter k s = s\<lparr>lk_calls := lk_calls s @ [\<lparr>lc_key = k, lc_prev = lk_tail s k, lc_phase = LockWaiting\<rparr>],
     lk_tail := (lk_tail s)(k := Some (length (lk_calls s)))\<rparr>"

text \<open>\<^verbatim>\<open>await previous\<close> is over when there was none or it was released.\<close>

definition lock_ready :: "nat \<Rightarrow> locks \<Rightarrow> bool" where
  "lock_ready c s \<longleftrightarrow> c < length (lk_calls s) \<and> phase_of s c = LockWaiting
     \<and> (case lc_prev (lk_calls s ! c) of None \<Rightarrow> True | Some p \<Rightarrow> phase_of s p = LockReleased)"

definition set_phase :: "nat \<Rightarrow> lock_phase \<Rightarrow> locks \<Rightarrow> locks" where
  "set_phase c ph s = s\<lparr>lk_calls := (lk_calls s)[c := (lk_calls s ! c)\<lparr>lc_phase := ph\<rparr>]\<rparr>"

definition holds_lock :: "nat \<Rightarrow> locks \<Rightarrow> bool" where
  "holds_lock c s \<longleftrightarrow> c < length (lk_calls s) \<and> phase_of s c = LockHeld"

inductive lock_step :: "locks \<Rightarrow> locks \<Rightarrow> bool" where
  enter: "lock_step s (lock_enter k s)"
| start: "lock_ready c s \<Longrightarrow> lock_step s (set_phase c LockHeld s)"
| release: "holds_lock c s \<Longrightarrow> lock_step s (set_phase c LockReleased s)"

section \<open>Exclusion\<close>

text \<open>
  The call before one in the chain is the latest earlier call of its lock, and the tail is the
  latest of all; a call that no longer waits has only released calls before it.
\<close>

definition latest_before :: "locks \<Rightarrow> nat \<Rightarrow> nat \<Rightarrow> nat option \<Rightarrow> bool" where
  "latest_before s k n r \<longleftrightarrow>
    (case r of None \<Rightarrow> (\<forall>d < n. key_of s d \<noteq> k)
     | Some p \<Rightarrow> p < n \<and> key_of s p = k \<and> (\<forall>d < n. key_of s d = k \<longrightarrow> d \<le> p))"

definition lock_inv :: "locks \<Rightarrow> bool" where
  "lock_inv s \<longleftrightarrow>
    (\<forall>k. latest_before s k (length (lk_calls s)) (lk_tail s k))
    \<and> (\<forall>c < length (lk_calls s). latest_before s (key_of s c) c (lc_prev (lk_calls s ! c)))
    \<and> (\<forall>c < length (lk_calls s). \<forall>d < c. key_of s d = key_of s c \<longrightarrow> phase_of s c \<noteq> LockWaiting \<longrightarrow> phase_of s d = LockReleased)"

lemma lock_calls_simps [simp]:
  "length (lk_calls (set_phase c ph s)) = length (lk_calls s)"
  "length (lk_calls (lock_enter k s)) = Suc (length (lk_calls s))"
  "lk_tail (set_phase c ph s) = lk_tail s"
  by (simp_all add: set_phase_def lock_enter_def)

lemma set_phase_fields:
  assumes "c < length (lk_calls s)"
  shows "key_of (set_phase c ph s) d = key_of s d" "lc_prev (lk_calls (set_phase c ph s) ! d) = lc_prev (lk_calls s ! d)"
    "phase_of (set_phase c ph s) d = (if d = c then ph else phase_of s d)"
  using assms by (auto simp: set_phase_def key_of_def phase_of_def nth_list_update)

lemma lock_enter_fields:
  assumes "d < length (lk_calls s)"
  shows "key_of (lock_enter k s) d = key_of s d" "lk_calls (lock_enter k s) ! d = lk_calls s ! d" "phase_of (lock_enter k s) d = phase_of s d"
  using assms by (auto simp: lock_enter_def key_of_def phase_of_def nth_append)

lemma lock_enter_new:
  "key_of (lock_enter k s) (length (lk_calls s)) = k" "phase_of (lock_enter k s) (length (lk_calls s)) = LockWaiting"
  "lc_prev (lk_calls (lock_enter k s) ! length (lk_calls s)) = lk_tail s k"
  by (simp_all add: lock_enter_def key_of_def phase_of_def)

lemma latest_before_cong:
  "(\<And>d. d < n \<Longrightarrow> key_of s d = key_of s' d) \<Longrightarrow> latest_before s k n r = latest_before s' k n r"
  by (auto simp: latest_before_def split: option.splits)

lemma lock_inv_no_locks [simp]: "lock_inv no_locks"
  by (simp add: lock_inv_def no_locks_def latest_before_def)

lemma lock_inv_enter:
  assumes "lock_inv s"
  shows "lock_inv (lock_enter k s)"
proof -
  let ?n = "length (lk_calls s)" and ?s = "lock_enter k s"
  have same: "latest_before ?s j m r = latest_before s j m r" if "m \<le> ?n" for j m r
    by (rule latest_before_cong) (use that lock_enter_fields in auto)
  have "latest_before ?s j (Suc ?n) (lk_tail ?s j)" for j
  proof (cases "j = k")
    case True
    then show ?thesis using lock_enter_new(1) by (auto simp: latest_before_def lock_enter_def)
  next
    case False
    then have "lk_tail ?s j = lk_tail s j" by (simp add: lock_enter_def)
    moreover have "latest_before s j ?n (lk_tail s j)" using assms by (simp add: lock_inv_def)
    ultimately have old_tail: "latest_before ?s j ?n (lk_tail ?s j)" using same [of ?n j] by simp
    show ?thesis
    proof (cases "lk_tail ?s j")
      case None
      then show ?thesis using old_tail False lock_enter_new(1) [of k s] by (simp add: latest_before_def less_Suc_eq)
    next
      case (Some p)
      then show ?thesis using old_tail False lock_enter_new(1) [of k s] by (simp add: latest_before_def less_Suc_eq)
    qed
  qed
  moreover have "latest_before ?s (key_of ?s c) c (lc_prev (lk_calls ?s ! c))" if "c < Suc ?n" for c
  proof (cases "c = ?n")
    case True
    then show ?thesis using assms same [of ?n] lock_enter_new [of k s] by (simp add: lock_inv_def)
  next
    case False
    then show ?thesis using assms that same [of c] lock_enter_fields [of c s k] by (simp add: lock_inv_def)
  qed
  moreover have "phase_of ?s d = LockReleased"
    if "c < Suc ?n" "d < c" "key_of ?s d = key_of ?s c" "phase_of ?s c \<noteq> LockWaiting" for c d
  proof -
    have "c < ?n" using that lock_enter_new(2) [of k s] by (cases "c = ?n") auto
    then show ?thesis using assms that lock_enter_fields [of c s k] lock_enter_fields [of d s k] by (auto simp: lock_inv_def)
  qed
  ultimately show ?thesis unfolding lock_inv_def by simp
qed

lemma past_before_released:
  "lock_inv s \<Longrightarrow> c < length (lk_calls s) \<Longrightarrow> phase_of s c \<noteq> LockWaiting \<Longrightarrow> d < c \<Longrightarrow> key_of s d = key_of s c
    \<Longrightarrow> phase_of s d = LockReleased"
  unfolding lock_inv_def by blast

lemma ready_before_released:
  assumes "lock_inv s" and "lock_ready c s" and "d < c" and "key_of s d = key_of s c"
  shows "phase_of s d = LockReleased"
proof -
  have c: "c < length (lk_calls s)" using assms(2) by (simp add: lock_ready_def)
  then have "latest_before s (key_of s c) c (lc_prev (lk_calls s ! c))" using assms(1) by (simp add: lock_inv_def)
  then obtain p where p: "lc_prev (lk_calls s ! c) = Some p" "p < c" "key_of s p = key_of s c" "d \<le> p"
    using assms(3,4) by (auto simp: latest_before_def split: option.splits)
  then have rel: "phase_of s p = LockReleased" using assms(2) by (simp add: lock_ready_def)
  then show ?thesis using past_before_released [OF assms(1), of p d] assms(4) p c by (cases "d = p") auto
qed

lemma lock_inv_set_phase:
  assumes "lock_inv s" and "c < length (lk_calls s)" and "ph \<noteq> LockWaiting"
    and "\<And>d. d < c \<Longrightarrow> key_of s d = key_of s c \<Longrightarrow> phase_of s d = LockReleased"
    and "ph \<noteq> LockReleased \<Longrightarrow> phase_of s c = LockWaiting"
  shows "lock_inv (set_phase c ph s)"
proof -
  let ?s = "set_phase c ph s"
  note fields = set_phase_fields [OF assms(2)]
  have same: "latest_before ?s j m r = latest_before s j m r" for j m r
    by (rule latest_before_cong) (simp add: fields)
  have "phase_of ?s d = LockReleased"
    if "e < length (lk_calls s)" "d < e" "key_of ?s d = key_of ?s e" "phase_of ?s e \<noteq> LockWaiting" for d e
  proof (cases "e = c")
    case True
    then show ?thesis using assms(4) [of d] that by (simp add: fields)
  next
    case False
    then have "phase_of s d = LockReleased" using assms(1) that by (simp add: lock_inv_def fields)
    then show ?thesis using assms(5) by (cases "ph = LockReleased") (auto simp: fields)
  qed
  then show ?thesis using assms(1) by (simp add: lock_inv_def same fields)
qed

lemma held_before_released:
  "lock_inv s \<Longrightarrow> holds_lock c s \<Longrightarrow> d < c \<Longrightarrow> key_of s d = key_of s c \<Longrightarrow> phase_of s d = LockReleased"
  by (rule past_before_released) (simp_all add: holds_lock_def)

lemma lock_inv_step: "lock_step s s' \<Longrightarrow> lock_inv s \<Longrightarrow> lock_inv s'"
proof (induction rule: lock_step.induct)
  case (start c s)
  then have "c < length (lk_calls s)" "phase_of s c = LockWaiting" by (simp_all add: lock_ready_def)
  then show ?case using ready_before_released [OF start.prems start.hyps]
    by (intro lock_inv_set_phase [OF start.prems]) simp_all
next
  case (release c s)
  then have "c < length (lk_calls s)" by (simp add: holds_lock_def)
  then show ?case using held_before_released [OF release.prems release.hyps]
    by (intro lock_inv_set_phase [OF release.prems]) simp_all
qed (rule lock_inv_enter)

lemma lock_exclusive:
  assumes "lock_inv s" and "holds_lock c s" and "holds_lock d s" and "key_of s c = key_of s d"
  shows "c = d"
  using held_before_released [OF assms(1,2), of d] held_before_released [OF assms(1,3), of c] assms(2-4)
  by (cases c d rule: linorder_cases) (auto simp: holds_lock_def)

text \<open>Locks are granted in the order of the calls.\<close>

lemma lock_fifo:
  "lock_inv s \<Longrightarrow> lock_ready c s \<or> holds_lock c s \<Longrightarrow> d < c \<Longrightarrow> key_of s d = key_of s c \<Longrightarrow> phase_of s d = LockReleased"
  using ready_before_released held_before_released by blast

text \<open>While a call is unreleased, some call of its lock holds it or can take it.\<close>

lemma lock_progress:
  assumes "lock_inv s" and "c < length (lk_calls s)" and "phase_of s c \<noteq> LockReleased"
  shows "\<exists>d \<le> c. key_of s d = key_of s c \<and> (holds_lock d s \<or> lock_ready d s)"
proof -
  let ?P = "\<lambda>d. d \<le> c \<and> key_of s d = key_of s c \<and> phase_of s d \<noteq> LockReleased"
  define d where "d = (LEAST d. ?P d)"
  have P: "?P d" unfolding d_def by (rule LeastI [of ?P c]) (use assms(3) in simp)
  have least: "phase_of s p = LockReleased" if "p < d" "key_of s p = key_of s c" for p
    using not_less_Least [of p ?P] that P unfolding d_def by (metis le_trans nat_less_le)
  have len: "d < length (lk_calls s)" using P assms(2) by simp
  show ?thesis
  proof (cases "phase_of s d")
    case LockWaiting
    have "latest_before s (key_of s d) d (lc_prev (lk_calls s ! d))" using assms(1) len by (simp add: lock_inv_def)
    then have "lock_ready d s" using least P LockWaiting len
      by (auto simp: lock_ready_def latest_before_def split: option.splits)
    then show ?thesis using P by blast
  qed (use P len in \<open>auto simp: holds_lock_def\<close>)
qed

section \<open>Components that hold locks\<close>

text \<open>
  A component whose steps only move its locks along the chain: its calls are exclusive per lock, in
  the order in which they came, and never all stuck.
\<close>

locale serialized =
  fixes init :: "'s \<Rightarrow> bool" and step :: "'s \<Rightarrow> 's \<Rightarrow> bool" and locks_of :: "'s \<Rightarrow> locks"
  assumes init_locks: "init s \<Longrightarrow> locks_of s = no_locks"
    and step_locks: "step s s' \<Longrightarrow> locks_of s' = locks_of s \<or> lock_step (locks_of s) (locks_of s')"
begin

inductive reached :: "'s \<Rightarrow> bool" where
  first: "init s \<Longrightarrow> reached s"
| next_step: "reached s \<Longrightarrow> step s s' \<Longrightarrow> reached s'"

lemma reached_lock_inv: "reached s \<Longrightarrow> lock_inv (locks_of s)"
proof (induction rule: reached.induct)
  case (next_step s s')
  then show ?case using step_locks lock_inv_step by metis
qed (simp add: init_locks)

lemma reached_exclusive:
  "reached s \<Longrightarrow> holds_lock c (locks_of s) \<Longrightarrow> holds_lock d (locks_of s) \<Longrightarrow> key_of (locks_of s) c = key_of (locks_of s) d \<Longrightarrow> c = d"
  using lock_exclusive reached_lock_inv by blast

lemma reached_progress:
  "reached s \<Longrightarrow> c < length (lk_calls (locks_of s)) \<Longrightarrow> phase_of (locks_of s) c \<noteq> LockReleased
    \<Longrightarrow> \<exists>d \<le> c. key_of (locks_of s) d = key_of (locks_of s) c \<and> (holds_lock d (locks_of s) \<or> lock_ready d (locks_of s))"
  using lock_progress reached_lock_inv by blast

end

end
