(* ===== verification/SdkDiagnostics.thy ===== *)
theory SdkDiagnostics imports Locks Values begin

text \<open>
  Calls into the SDK (\<^verbatim>\<open>packages/network/src/sdk-diagnostics.ts\<close>, and the trap capture of
  \<^verbatim>\<open>connection.ts\<close>): which error a failed call is reported with, the ring buffer of transport
  failures it is explained by, and the interleavings of calls under their two kinds of lock, with
  the process-wide console and exception hooks they install.
\<close>

section \<open>Errors of SDK calls\<close>

record sdk_failure =
  sf_method :: string
  sf_url :: string
  sf_status :: "nat option"
  sf_statusText :: "string option"
  sf_bodyExcerpt :: "string option"
  sf_error :: "string option"
  sf_at :: int

datatype sdk_operation = OpExecute | OpLocal | OpDeploy | OpUpgrade

fun operation_name :: "sdk_operation \<Rightarrow> string" where
  "operation_name OpExecute = ''execute''"
| "operation_name OpLocal = ''local''"
| "operation_name OpDeploy = ''deploy''"
| "operation_name OpUpgrade = ''upgrade''"

record sdk_context =
  sx_operation :: sdk_operation
  sx_programId :: string
  sx_transitionName :: "string option"

text \<open>
  What can be thrown: an error object with its name and message, the trap error, an error that was
  explained before, or a value that is no error, with what \<^verbatim>\<open>String\<close> makes of it.
\<close>

datatype thrown =
    ThrownError string string
  | ThrownTrap string
  | ThrownSdk string sdk_context "sdk_failure list" thrown
  | ThrownValue string

fun errorMessage :: "thrown \<Rightarrow> string" where
  "errorMessage (ThrownError n m) = m"
| "errorMessage (ThrownTrap cause) = ''Provable SDK local-WASM execution trapped outside the SDK call promise: '' @ cause"
| "errorMessage (ThrownSdk m ctx fs cause) = m"
| "errorMessage (ThrownValue s) = s"

definition SDK_DIAGNOSTICS_RING_CAP :: nat where "SDK_DIAGNOSTICS_RING_CAP = 16"

definition record_failure :: "'f \<Rightarrow> 'f list \<Rightarrow> 'f list" where
  "record_failure f fs = (let fs' = fs @ [f] in if SDK_DIAGNOSTICS_RING_CAP < length fs' then tl fs' else fs')"

definition last_with :: "string \<Rightarrow> sdk_failure list \<Rightarrow> sdk_failure option" where
  "last_with needle fs = find (\<lambda>f. str_includes (sf_url f) needle) (rev fs)"

definition pickRelevantFailure :: "sdk_failure list \<Rightarrow> sdk_failure option" where
  "pickRelevantFailure fs =
    (case last_with ''/statePaths'' fs of Some f \<Rightarrow> Some f | None \<Rightarrow> last_with ''/stateRoot'' fs)"

definition isRuntimeUnreachableTrap :: "thrown \<Rightarrow> bool" where
  "isRuntimeUnreachableTrap e \<longleftrightarrow> e = ThrownError ''RuntimeError'' ''unreachable''"

definition isOpaqueWasmError :: "thrown \<Rightarrow> bool" where
  "isOpaqueWasmError e =
    (case e of
      ThrownValue s \<Rightarrow> js_trim s = [] \<or> js_trim s = ''[object Object]''
    | _ \<Rightarrow> str_includes (errorMessage e) ''JS callback Promise rejected'' \<or> isRuntimeUnreachableTrap e)"

definition non_empty :: "string option \<Rightarrow> string \<Rightarrow> string" where
  "non_empty v lead = (case v of None \<Rightarrow> [] | Some s \<Rightarrow> if s = [] then [] else lead @ s)"

definition join_spaces :: "string list \<Rightarrow> string" where
  "join_spaces parts = (case parts of [] \<Rightarrow> [] | p # ps \<Rightarrow> p @ concat (map (\<lambda>q. '' '' @ q) ps))"

definition buildSdkExecutionMessage :: "sdk_context \<Rightarrow> sdk_failure option \<Rightarrow> thrown \<Rightarrow> string" where
  "buildSdkExecutionMessage ctx failure e =
    (let subject = sx_programId ctx @ non_empty (sx_transitionName ctx) ''/'';
         detail = (case failure of
             None \<Rightarrow> ''WASM aborted without a descriptive error and no state-query failure was recorded.''
           | Some f \<Rightarrow> (case sf_status f of
               Some status \<Rightarrow> ''State query '' @ sf_method f @ '' '' @ sf_url f @ '' -> '' @ nat_str status
                 @ non_empty (sf_statusText f) '' '' @ non_empty (sf_bodyExcerpt f) '': '' @ ''.''
             | None \<Rightarrow> ''State query '' @ sf_method f @ '' '' @ sf_url f @ '' failed: ''
                 @ (case sf_error f of Some m \<Rightarrow> m | None \<Rightarrow> ''unknown error'') @ ''.''))
     in join_spaces [subject @ '' '' @ operation_name (sx_operation ctx) @ '' failed during SDK build/prove.'', detail,
          ''Cause: '' @ errorMessage e])"

text \<open>What \<^verbatim>\<open>captureSdkCall\<close> throws for an error of the call, given the failures in the sink.\<close>

definition explain_error :: "sdk_context \<Rightarrow> sdk_failure list \<Rightarrow> thrown \<Rightarrow> thrown" where
  "explain_error ctx failures e =
    (case e of
      ThrownSdk m c fs cause \<Rightarrow> e
    | ThrownTrap cause \<Rightarrow> e
    | _ \<Rightarrow>
        (let relevant = pickRelevantFailure failures
         in if relevant = None \<and> \<not> isOpaqueWasmError e then e
            else ThrownSdk (buildSdkExecutionMessage ctx relevant e) ctx failures e))"

definition isLocalExecutionWasmTrap :: "thrown \<Rightarrow> bool" where
  "isLocalExecutionWasmTrap e \<longleftrightarrow> e = ThrownError ''RuntimeError'' ''unreachable''"

definition isCatchableLocalVmError :: "thrown \<Rightarrow> bool" where
  "isCatchableLocalVmError e \<longleftrightarrow> starts_with (errorMessage e) ''Stack authorization failed:''
     \<or> starts_with (errorMessage e) ''Stack evaluation failed:''"

section \<open>Console noise\<close>

text \<open>
  \<^verbatim>\<open>^Error finding edition/amendment for [A-Za-z][A-Za-z0-9_]*\.aleo\. Network response: '.+'\. Defaulting to edition [0-9]+, amendment 0\.$\<close>,
  read from both ends: the quoted part is what lies between.
\<close>

definition drop_prefix :: "string \<Rightarrow> string \<Rightarrow> string option" where
  "drop_prefix p s = (if starts_with s p then Some (drop (length p) s) else None)"

definition drop_suffix :: "string \<Rightarrow> string \<Rightarrow> string option" where
  "drop_suffix p s = (if ends_with s p then Some (take (length s - length p) s) else None)"

definition is_ident_char :: "char \<Rightarrow> bool" where
  "is_ident_char c \<longleftrightarrow> is_digit c \<or> is_lower c \<or> is_upper c \<or> c = CHR ''_''"

definition squote :: string where "squote = [CHR 39]"

definition edition_tail :: "string \<Rightarrow> bool" where
  "edition_tail s =
    (case drop_suffix '', amendment 0.'' s of None \<Rightarrow> False | Some s1 \<Rightarrow>
       (let digits = takeWhile is_digit (rev s1); s2 = rev (dropWhile is_digit (rev s1))
        in digits \<noteq> [] \<and>
          (case drop_suffix (squote @ ''. Defaulting to edition '') s2 of
            None \<Rightarrow> False
          | Some body \<Rightarrow> body \<noteq> [] \<and> list_all (\<lambda>c. c \<noteq> CHR 10 \<and> c \<noteq> CHR 13) body)))"

definition isSuppressedMessage :: "string \<Rightarrow> bool" where
  "isSuppressedMessage s =
    (case drop_prefix ''Error finding edition/amendment for '' s of None \<Rightarrow> False | Some s1 \<Rightarrow>
       (let name = takeWhile is_ident_char s1; s2 = dropWhile is_ident_char s1
        in name \<noteq> [] \<and> (is_lower (hd name) \<or> is_upper (hd name)) \<and>
          (case drop_prefix (''.aleo. Network response: '' @ squote) s2 of None \<Rightarrow> False | Some s3 \<Rightarrow> edition_tail s3)))"

definition isSuppressedSdkConsoleNoise :: "jsval list \<Rightarrow> bool" where
  "isSuppressedSdkConsoleNoise args = (case args of [JStr s] \<Rightarrow> isSuppressedMessage s | _ \<Rightarrow> False)"

section \<open>Interleaved calls\<close>

text \<open>
  The state that captured calls share: the lock of each sink, the sinks' failures, what failed calls
  were explained with, and the process-wide console methods, original or filtered, with the saved
  ones. A failure is kept with the captured call whose request it was, if it was one's, and the call
  that held the sink when it was recorded.
\<close>

record tagged_failure =
  tf_call :: "nat option"
  tf_during :: "nat option"
  tf_failure :: sdk_failure

record sdk_calls =
  sd_locks :: locks
  sd_failures :: "nat \<Rightarrow> tagged_failure list"
  sd_explained :: "(nat \<times> tagged_failure list) list"
  sd_suppressions :: nat
  sd_filtered :: bool
  sd_saved :: "bool option"

definition no_sdk_calls :: "sdk_calls \<Rightarrow> bool" where
  "no_sdk_calls s \<longleftrightarrow> s = \<lparr>sd_locks = no_locks, sd_failures = (\<lambda>_. []), sd_explained = [], sd_suppressions = 0,
     sd_filtered = False, sd_saved = None\<rparr>"

definition installSdkConsoleSuppression :: "sdk_calls \<Rightarrow> sdk_calls" where
  "installSdkConsoleSuppression s =
    (let s' = (if sd_suppressions s = 0 then s\<lparr>sd_saved := Some (sd_filtered s), sd_filtered := True\<rparr> else s)
     in s'\<lparr>sd_suppressions := sd_suppressions s' + 1\<rparr>)"

definition uninstallSdkConsoleSuppression :: "sdk_calls \<Rightarrow> sdk_calls" where
  "uninstallSdkConsoleSuppression s =
    (let s' = s\<lparr>sd_suppressions := sd_suppressions s - 1\<rparr>
     in if 0 < sd_suppressions s' then s'
        else (case sd_saved s' of None \<Rightarrow> s' | Some original \<Rightarrow> s'\<lparr>sd_filtered := original, sd_saved := None\<rparr>))"

definition key_now :: "sdk_calls \<Rightarrow> nat \<Rightarrow> nat" where
  "key_now s c = key_of (sd_locks s) c"

text \<open>The calls of \<^verbatim>\<open>captureSdkCall\<close> from one await to the next.\<close>

definition capture_enter :: "nat \<Rightarrow> sdk_calls \<Rightarrow> sdk_calls" where
  "capture_enter sink s = s\<lparr>sd_locks := lock_enter sink (sd_locks s)\<rparr>"

definition capture_start :: "nat \<Rightarrow> sdk_calls \<Rightarrow> sdk_calls" where
  "capture_start c s = installSdkConsoleSuppression
     (s\<lparr>sd_locks := set_phase c LockHeld (sd_locks s), sd_failures := (sd_failures s)(key_now s c := [])\<rparr>)"

definition capture_return :: "nat \<Rightarrow> sdk_calls \<Rightarrow> sdk_calls" where
  "capture_return c s = uninstallSdkConsoleSuppression (s\<lparr>sd_locks := set_phase c LockReleased (sd_locks s)\<rparr>)"

definition capture_throw :: "nat \<Rightarrow> sdk_calls \<Rightarrow> sdk_calls" where
  "capture_throw c s = capture_return c (s\<lparr>sd_explained := (c, sd_failures s (key_now s c)) # sd_explained s\<rparr>)"

definition sink_holder :: "nat \<Rightarrow> sdk_calls \<Rightarrow> nat option" where
  "sink_holder sink s = find (\<lambda>c. holds_lock c (sd_locks s) \<and> key_now s c = sink) [0..<length (lk_calls (sd_locks s))]"

definition sink_record :: "nat \<Rightarrow> nat option \<Rightarrow> sdk_failure \<Rightarrow> sdk_calls \<Rightarrow> sdk_calls" where
  "sink_record sink who f s = s\<lparr>sd_failures := (sd_failures s)(sink :=
     record_failure \<lparr>tf_call = who, tf_during = sink_holder sink s, tf_failure = f\<rparr> (sd_failures s sink))\<rparr>"

definition has_started :: "nat \<Rightarrow> locks \<Rightarrow> bool" where
  "has_started c l \<longleftrightarrow> c < length (lk_calls l) \<and> phase_of l c \<noteq> LockWaiting"

text \<open>
  A failure is recorded when a request ends, on the sink of its bundle: a request of a captured call
  while the call runs, or later, when it was still on its way as the call settled; or a request
  outside every captured call.
\<close>

inductive capture_step :: "sdk_calls \<Rightarrow> sdk_calls \<Rightarrow> bool" where
  enter: "capture_step s (capture_enter sink s)"
| start: "lock_ready c (sd_locks s) \<Longrightarrow> capture_step s (capture_start c s)"
| own_failure: "has_started c (sd_locks s) \<Longrightarrow> capture_step s (sink_record (key_now s c) (Some c) f s)"
| other_failure: "capture_step s (sink_record sink None f s)"
| return: "holds_lock c (sd_locks s) \<Longrightarrow> capture_step s (capture_return c s)"
| throw: "holds_lock c (sd_locks s) \<Longrightarrow> capture_step s (capture_throw c s)"

lemma console_fields [simp]:
  "sd_locks (installSdkConsoleSuppression s) = sd_locks s" "sd_failures (installSdkConsoleSuppression s) = sd_failures s"
  "sd_explained (installSdkConsoleSuppression s) = sd_explained s"
  "sd_locks (uninstallSdkConsoleSuppression s) = sd_locks s" "sd_failures (uninstallSdkConsoleSuppression s) = sd_failures s"
  "sd_explained (uninstallSdkConsoleSuppression s) = sd_explained s"
  by (auto simp: installSdkConsoleSuppression_def uninstallSdkConsoleSuppression_def Let_def split: option.split)

interpretation sdk: serialized no_sdk_calls capture_step sd_locks
proof
  show "sd_locks s = no_locks" if "no_sdk_calls s" for s using that by (simp add: no_sdk_calls_def)
  show "sd_locks s' = sd_locks s \<or> lock_step (sd_locks s) (sd_locks s')" if "capture_step s s'" for s s'
    using that
    by cases (auto simp: capture_enter_def capture_start_def capture_return_def capture_throw_def sink_record_def
        intro: lock_step.intros)
qed

section \<open>What a failed call is explained with\<close>

text \<open>
  The failures that explain a call were recorded while it ran, and each was a request of the call
  itself, of an earlier call on its sink, or of no captured call.
\<close>

definition explains :: "locks \<Rightarrow> nat \<Rightarrow> tagged_failure list \<Rightarrow> bool" where
  "explains l c fs \<longleftrightarrow> c < length (lk_calls l) \<and> phase_of l c \<noteq> LockWaiting \<and> length fs \<le> SDK_DIAGNOSTICS_RING_CAP
     \<and> (\<forall>t \<in> set fs. tf_during t = Some c \<and> (\<forall>d. tf_call t = Some d \<longrightarrow> d \<le> c \<and> key_of l d = key_of l c))"

definition sinks_ok :: "sdk_calls \<Rightarrow> bool" where
  "sinks_ok s \<longleftrightarrow> (\<forall>c. holds_lock c (sd_locks s) \<longrightarrow> explains (sd_locks s) c (sd_failures s (key_now s c)))
     \<and> (\<forall>(c, fs) \<in> set (sd_explained s). explains (sd_locks s) c fs)"

lemma record_failure_set: "set (record_failure f fs) \<subseteq> insert f (set fs)"
  by (cases fs) (auto simp: record_failure_def Let_def)

lemma explains_record:
  assumes "explains l c fs" and "tf_during t = Some c" and "\<And>d. tf_call t = Some d \<Longrightarrow> d \<le> c \<and> key_of l d = key_of l c"
  shows "explains l c (record_failure t fs)"
proof -
  have "length (record_failure t fs) \<le> SDK_DIAGNOSTICS_RING_CAP"
    using assms(1) by (auto simp: record_failure_def Let_def explains_def)
  then show ?thesis using assms record_failure_set [of t fs] by (auto simp: explains_def)
qed

lemma explains_enter: "explains l c fs \<Longrightarrow> explains (lock_enter k l) c fs"
  using lock_enter_fields by (auto simp: explains_def)

lemma explains_phase: "c < length (lk_calls l) \<Longrightarrow> ph \<noteq> LockWaiting \<Longrightarrow> explains l d fs \<Longrightarrow> explains (set_phase c ph l) d fs"
  by (auto simp: explains_def set_phase_fields)

lemma sink_holder_is:
  assumes "lock_inv (sd_locks s)" and "holds_lock c (sd_locks s)" and "key_now s c = sink"
  shows "sink_holder sink s = Some c"
proof -
  have c: "c < length (lk_calls (sd_locks s))" using assms(2) by (simp add: holds_lock_def)
  have "find (\<lambda>d. holds_lock d (sd_locks s) \<and> key_now s d = sink) [0..<length (lk_calls (sd_locks s))] \<noteq> None"
    using c assms(2,3) by (auto simp: find_None_iff)
  then obtain d where d: "sink_holder sink s = Some d" by (auto simp: sink_holder_def)
  then have "holds_lock d (sd_locks s)" "key_now s d = sink" by (auto simp: sink_holder_def find_Some_iff)
  then have "d = c" using lock_exclusive [OF assms(1), of d c] assms(2,3) by (simp add: key_now_def)
  then show ?thesis using d by simp
qed

lemma holds_set_phase:
  "c < length (lk_calls l) \<Longrightarrow> holds_lock d (set_phase c ph l) \<longleftrightarrow> (if d = c then ph = LockHeld else holds_lock d l)"
  by (auto simp: holds_lock_def set_phase_fields)

lemma holds_enter: "holds_lock d (lock_enter k l) \<longleftrightarrow> holds_lock d l"
  using lock_enter_fields [of d l k] lock_enter_new(2) [of k l]
  by (cases "d < length (lk_calls l)"; cases "d = length (lk_calls l)") (auto simp: holds_lock_def)

lemma key_enter: "holds_lock d l \<Longrightarrow> key_of (lock_enter k l) d = key_of l d"
  using lock_enter_fields [of d l k] by (simp add: holds_lock_def)

lemma sinks_ok_release:
  assumes "sinks_ok s" and "holds_lock c (sd_locks s)" and "sd_locks s' = set_phase c LockReleased (sd_locks s)"
    and "sd_failures s' = sd_failures s" and "\<And>d fs. (d, fs) \<in> set (sd_explained s') \<Longrightarrow> explains (sd_locks s) d fs"
  shows "sinks_ok s'"
proof -
  have c: "c < length (lk_calls (sd_locks s))" using assms(2) by (simp add: holds_lock_def)
  note keep = explains_phase [OF c, of LockReleased, simplified]
  have "explains (sd_locks s') d (sd_failures s' (key_now s' d))" if "holds_lock d (sd_locks s')" for d
  proof -
    have "holds_lock d (sd_locks s)" using that holds_set_phase [OF c] assms(3) by (auto split: if_splits)
    then show ?thesis using assms(1,3,4) keep set_phase_fields(1) [OF c] by (simp add: sinks_ok_def key_now_def)
  qed
  then show ?thesis using assms(3,5) keep by (auto simp: sinks_ok_def)
qed

lemma sinks_ok_start:
  assumes "lock_ready c (sd_locks s)" and inv: "lock_inv (sd_locks s)" and ok: "sinks_ok s"
  shows "sinks_ok (capture_start c s)"
proof -
  have c: "c < length (lk_calls (sd_locks s))" and waiting: "phase_of (sd_locks s) c = LockWaiting"
    using assms(1) by (simp_all add: lock_ready_def)
  have alone: "key_of (sd_locks s) d \<noteq> key_of (sd_locks s) c" if "holds_lock d (sd_locks s)" for d
  proof (rule ccontr)
    assume "\<not> key_of (sd_locks s) d \<noteq> key_of (sd_locks s) c"
    then have same: "key_of (sd_locks s) d = key_of (sd_locks s) c" by simp
    have "d \<noteq> c" using that waiting by (auto simp: holds_lock_def)
    moreover have "\<not> d < c" using ready_before_released [OF inv assms(1) _ same] that by (auto simp: holds_lock_def)
    moreover have "\<not> c < d" using held_before_released [OF inv that _ same [symmetric]] waiting by auto
    ultimately show False by simp
  qed
  note keep = explains_phase [OF c, of LockHeld, simplified]
  have key: "key_of (set_phase c LockHeld (sd_locks s)) d = key_of (sd_locks s) d" for d by (rule set_phase_fields(1) [OF c])
  have "explains (sd_locks (capture_start c s)) d (sd_failures (capture_start c s) (key_now (capture_start c s) d))"
    if "holds_lock d (sd_locks (capture_start c s))" for d
  proof (cases "d = c")
    case True
    then show ?thesis using c by (simp add: capture_start_def key_now_def key explains_def set_phase_fields)
  next
    case False
    then have held: "holds_lock d (sd_locks s)" using that holds_set_phase [OF c] by (simp add: capture_start_def)
    then show ?thesis using alone [OF held] ok keep by (simp add: capture_start_def key_now_def key sinks_ok_def)
  qed
  then show ?thesis using ok keep by (auto simp: sinks_ok_def capture_start_def)
qed

lemma sinks_ok_record:
  assumes inv: "lock_inv (sd_locks s)" and ok: "sinks_ok s"
    and who: "\<And>d. who = Some d \<Longrightarrow> has_started d (sd_locks s) \<and> key_now s d = sink"
  shows "sinks_ok (sink_record sink who f s)"
proof -
  let ?t = "\<lparr>tf_call = who, tf_during = sink_holder sink s, tf_failure = f\<rparr>"
  have "explains (sd_locks s) c (record_failure ?t (sd_failures s sink))" if c: "holds_lock c (sd_locks s)" "key_now s c = sink" for c
  proof (rule explains_record)
    show "explains (sd_locks s) c (sd_failures s sink)" using ok c by (auto simp: sinks_ok_def)
    show "tf_during ?t = Some c" using sink_holder_is [OF inv c] by simp
    fix d assume "tf_call ?t = Some d"
    then have d: "has_started d (sd_locks s)" "key_of (sd_locks s) d = key_of (sd_locks s) c" using who c(2) by (simp_all add: key_now_def)
    have "\<not> c < d" using past_before_released [OF inv _ _ _ d(2) [symmetric]] d(1) c(1) by (auto simp: has_started_def holds_lock_def)
    then show "d \<le> c \<and> key_of (sd_locks s) d = key_of (sd_locks s) c" using d(2) by simp
  qed
  then show ?thesis using ok by (simp add: sinks_ok_def sink_record_def key_now_def)
qed

lemma sinks_ok_step: "capture_step s s' \<Longrightarrow> lock_inv (sd_locks s) \<Longrightarrow> sinks_ok s \<Longrightarrow> sinks_ok s'"
proof (induction rule: capture_step.induct)
  case (enter s sink)
  then show ?case by (auto simp: sinks_ok_def capture_enter_def key_now_def holds_enter key_enter explains_enter)
next
  case (start c s)
  then show ?case by (intro sinks_ok_start)
next
  case (own_failure c s f)
  then show ?case by (intro sinks_ok_record) auto
next
  case (other_failure s sink f)
  then show ?case by (intro sinks_ok_record) auto
next
  case (return c s)
  show ?case
    by (rule sinks_ok_release [OF return.prems(2) return.hyps]) (use return.prems(2) in \<open>auto simp: capture_return_def sinks_ok_def\<close>)
next
  case (throw c s)
  show ?case
    by (rule sinks_ok_release [OF throw.prems(2) throw.hyps])
      (use throw in \<open>auto simp: capture_throw_def capture_return_def sinks_ok_def\<close>)
qed

section \<open>The console\<close>

definition running_calls :: "sdk_calls \<Rightarrow> nat set" where
  "running_calls s = {c. holds_lock c (sd_locks s)}"

definition console_ok :: "sdk_calls \<Rightarrow> bool" where
  "console_ok s \<longleftrightarrow> sd_suppressions s = card (running_calls s) \<and> sd_filtered s = (sd_suppressions s > 0)
     \<and> sd_saved s = (if sd_suppressions s > 0 then Some False else None)"

lemma finite_running [simp]: "finite (running_calls s)"
  by (rule finite_subset [of _ "{..< length (lk_calls (sd_locks s))}"]) (auto simp: running_calls_def holds_lock_def)

lemma console_start:
  assumes "console_ok s" and "lock_ready c (sd_locks s)"
  shows "console_ok (capture_start c s)"
proof -
  have c: "c < length (lk_calls (sd_locks s))" "c \<notin> running_calls s"
    using assms(2) by (auto simp: lock_ready_def running_calls_def holds_lock_def)
  have "running_calls (capture_start c s) = insert c (running_calls s)"
    using holds_set_phase [OF c(1)] by (auto simp: running_calls_def capture_start_def)
  then have "card (running_calls (capture_start c s)) = Suc (card (running_calls s))" using c(2) by simp
  then show ?thesis using assms(1)
    by (auto simp: console_ok_def capture_start_def installSdkConsoleSuppression_def Let_def)
qed

lemma console_return:
  assumes "console_ok s" and "holds_lock c (sd_locks s)"
  shows "console_ok (capture_return c s)"
proof -
  have c: "c < length (lk_calls (sd_locks s))" "c \<in> running_calls s"
    using assms(2) by (auto simp: running_calls_def holds_lock_def)
  have "running_calls (capture_return c s) = running_calls s - {c}"
    using holds_set_phase [OF c(1)] by (auto simp: running_calls_def capture_return_def)
  then have "card (running_calls (capture_return c s)) = card (running_calls s) - 1" using c(2) by simp
  moreover have "0 < card (running_calls s)" using c(2) by (auto simp: card_gt_0_iff)
  ultimately show ?thesis using assms(1)
    by (auto simp: console_ok_def capture_return_def uninstallSdkConsoleSuppression_def Let_def)
qed

lemma console_step: "capture_step s s' \<Longrightarrow> console_ok s \<Longrightarrow> console_ok s'"
proof (induction rule: capture_step.induct)
  case (throw c s)
  then have "console_ok (s\<lparr>sd_explained := (c, sd_failures s (key_now s c)) # sd_explained s\<rparr>)"
    by (simp add: console_ok_def running_calls_def)
  then show ?case using throw.hyps by (simp add: capture_throw_def console_return)
qed (auto simp: console_start console_return, auto simp: console_ok_def running_calls_def capture_enter_def sink_record_def holds_enter)

lemma reached_calls: "sdk.reached s \<Longrightarrow> sinks_ok s \<and> console_ok s"
proof (induction rule: sdk.reached.induct)
  case (first s)
  then show ?case by (auto simp: no_sdk_calls_def sinks_ok_def console_ok_def running_calls_def holds_lock_def no_locks_def)
next
  case (next_step s s')
  then show ?case using sinks_ok_step console_step sdk.reached_lock_inv by blast
qed

definition sdk_reachable :: "sdk_calls \<Rightarrow> bool" where
  "sdk_reachable s = sdk.reached s"

text \<open>
  C23: however captured calls interleave, one runs per sink at a time; a failed call is explained by
  at most the ring's capacity of failures, all recorded while it ran, and each the failure of one of
  its own requests, of a request that an earlier, finished call on the same sink had left on its
  way, or of a request made outside every captured call: never of another call that was still
  running or of a call on another sink; the console is filtered exactly while some call runs; and an
  unfinished call never waits for nothing.
\<close>

theorem captured_calls_isolated:
  assumes "sdk_reachable s"
  shows "(\<forall>c \<in> running_calls s. \<forall>d \<in> running_calls s. key_now s c = key_now s d \<longrightarrow> c = d)
    \<and> (\<forall>(c, fs) \<in> set (sd_explained s). length fs \<le> SDK_DIAGNOSTICS_RING_CAP
        \<and> (\<forall>t \<in> set fs. tf_during t = Some c \<and> (\<forall>d. tf_call t = Some d \<longrightarrow>
              d = c \<or> d < c \<and> key_now s d = key_now s c \<and> phase_of (sd_locks s) d = LockReleased)))
    \<and> (sd_filtered s \<longleftrightarrow> running_calls s \<noteq> {})
    \<and> (\<forall>c < length (lk_calls (sd_locks s)). phase_of (sd_locks s) c \<noteq> LockReleased \<longrightarrow>
          (\<exists>d \<le> c. key_now s d = key_now s c \<and> (d \<in> running_calls s \<or> lock_ready d (sd_locks s))))"
proof -
  have r: "sdk.reached s" using assms by (simp add: sdk_reachable_def)
  have "sd_filtered s \<longleftrightarrow> running_calls s \<noteq> {}"
    using reached_calls [OF r] by (auto simp: console_ok_def card_gt_0_iff)
  moreover have "length fs \<le> SDK_DIAGNOSTICS_RING_CAP \<and> (\<forall>t \<in> set fs. tf_during t = Some c \<and> (\<forall>d. tf_call t = Some d \<longrightarrow>
              d = c \<or> d < c \<and> key_now s d = key_now s c \<and> phase_of (sd_locks s) d = LockReleased))"
    if "(c, fs) \<in> set (sd_explained s)" for c fs
  proof -
    have e: "explains (sd_locks s) c fs" using reached_calls [OF r] that by (auto simp: sinks_ok_def)
    have "phase_of (sd_locks s) d = LockReleased" if "d < c" "key_of (sd_locks s) d = key_of (sd_locks s) c" for d
      using past_before_released [OF sdk.reached_lock_inv [OF r] _ _ that] e by (simp add: explains_def)
    then show ?thesis using e by (auto simp: explains_def key_now_def le_less)
  qed
  moreover have "c = d" if "c \<in> running_calls s" "d \<in> running_calls s" "key_now s c = key_now s d" for c d
    using sdk.reached_exclusive [OF r] that by (simp add: running_calls_def key_now_def)
  moreover have "\<exists>d \<le> c. key_now s d = key_now s c \<and> (d \<in> running_calls s \<or> lock_ready d (sd_locks s))"
    if "c < length (lk_calls (sd_locks s))" "phase_of (sd_locks s) c \<noteq> LockReleased" for c
    using sdk.reached_progress [OF r that] by (simp add: running_calls_def key_now_def)
  ultimately show ?thesis by blast
qed

definition ex_failure :: sdk_failure where
  "ex_failure = \<lparr>sf_method = ''GET'', sf_url = ''http://n/statePaths'', sf_status = Some 500, sf_statusText = None,
     sf_bodyExcerpt = None, sf_error = None, sf_at = 0\<rparr>"

definition ex_calls_start :: sdk_calls where
  "ex_calls_start = \<lparr>sd_locks = no_locks, sd_failures = (\<lambda>_. []), sd_explained = [], sd_suppressions = 0,
     sd_filtered = False, sd_saved = None\<rparr>"

text \<open>
  Two calls on one sink: the first fails after a failed request of its own; the second fails when
  another request of the first, left on its way, has failed meanwhile.
\<close>

definition ex_call_states :: "sdk_calls list" where
  "ex_call_states =
    (let s1 = capture_enter 0 (capture_enter 0 ex_calls_start); s2 = capture_start 0 s1;
         s3 = sink_record 0 (Some 0) ex_failure s2; s4 = capture_throw 0 s3; s5 = capture_start 1 s4;
         s6 = sink_record 0 (Some 0) ex_failure s5
     in [s1, s2, s3, s4, s5, s6, capture_throw 1 s6])"

definition ex_calls_end :: sdk_calls where
  "ex_calls_end = ex_call_states ! 6"

lemmas ex_call_defs = capture_throw_def capture_return_def sink_record_def capture_start_def capture_enter_def
  ex_calls_start_def key_now_def record_failure_def SDK_DIAGNOSTICS_RING_CAP_def installSdkConsoleSuppression_def
  uninstallSdkConsoleSuppression_def lock_enter_def no_locks_def set_phase_def key_of_def phase_of_def holds_lock_def lock_ready_def has_started_def sink_holder_def

lemma ex_calls_reachable: "sdk_reachable ex_calls_end"
proof -
  let ?s1 = "capture_enter 0 (capture_enter 0 ex_calls_start)"
  let ?s2 = "capture_start 0 ?s1"
  let ?s3 = "sink_record (key_now ?s2 0) (Some 0) ex_failure ?s2"
  let ?s4 = "capture_throw 0 ?s3"
  let ?s5 = "capture_start 1 ?s4"
  let ?s6 = "sink_record (key_now ?s5 0) (Some 0) ex_failure ?s5"
  note defs = ex_call_defs
  have "no_sdk_calls ex_calls_start" by (simp add: no_sdk_calls_def ex_calls_start_def)
  then have "sdk.reached ex_calls_start" by (rule sdk.reached.first)
  from sdk.reached.next_step [OF sdk.reached.next_step [OF this capture_step.enter] capture_step.enter]
  have r1: "sdk.reached ?s1" .
  have "lock_ready 0 (sd_locks ?s1)" by (simp add: defs)
  then have r2: "sdk.reached ?s2" by (rule sdk.reached.next_step [OF r1 capture_step.start])
  have "has_started 0 (sd_locks ?s2)" by (simp add: defs)
  then have r3: "sdk.reached ?s3" by (rule sdk.reached.next_step [OF r2 capture_step.own_failure])
  have "holds_lock 0 (sd_locks ?s3)" by (simp add: defs)
  then have r4: "sdk.reached ?s4" by (rule sdk.reached.next_step [OF r3 capture_step.throw])
  have "lock_ready 1 (sd_locks ?s4)" by (simp add: defs)
  then have r5: "sdk.reached ?s5" by (rule sdk.reached.next_step [OF r4 capture_step.start])
  have "has_started 0 (sd_locks ?s5)" by (simp add: defs)
  then have r6: "sdk.reached ?s6" by (rule sdk.reached.next_step [OF r5 capture_step.own_failure])
  have "holds_lock 1 (sd_locks ?s6)" by (simp add: defs)
  then have "sdk.reached (capture_throw 1 ?s6)" by (rule sdk.reached.next_step [OF r6 capture_step.throw])
  moreover have "key_now ?s2 0 = 0" "key_now ?s5 0 = 0" by (simp_all add: defs)
  ultimately show ?thesis by (simp add: sdk_reachable_def ex_calls_end_def ex_call_states_def Let_def)
qed

lemma ex_calls_explained:
  "sd_explained ex_calls_end = [(1, [\<lparr>tf_call = Some 0, tf_during = Some 1, tf_failure = ex_failure\<rparr>]),
      (0, [\<lparr>tf_call = Some 0, tf_during = Some 0, tf_failure = ex_failure\<rparr>])]"
  "\<not> sd_filtered ex_calls_end"
  by code_simp+

theorem captured_calls_isolated_witness:
  "sd_explained ex_calls_end = [(1, [\<lparr>tf_call = Some 0, tf_during = Some 1, tf_failure = ex_failure\<rparr>]),
      (0, [\<lparr>tf_call = Some 0, tf_during = Some 0, tf_failure = ex_failure\<rparr>])]
    \<and> phase_of (sd_locks ex_calls_end) 0 = LockReleased \<and> running_calls ex_calls_end = {} \<and> \<not> sd_filtered ex_calls_end"
proof -
  note e = ex_calls_explained
  note fact = captured_calls_isolated [OF ex_calls_reachable]
  have "running_calls ex_calls_end = {}" using fact e(2) by blast
  moreover have "phase_of (sd_locks ex_calls_end) 0 = LockReleased" using fact unfolding e(1) by auto
  ultimately show ?thesis using e by simp
qed

text \<open>
  The failure of a request that a finished call left on its way is put down to the call that runs by
  then: it explains the second call, which made no request at all.
\<close>

lemma late_failure_explains_next:
  "sdk_reachable ex_calls_end \<and> (1, [\<lparr>tf_call = Some 0, tf_during = Some 1, tf_failure = ex_failure\<rparr>]) \<in> set (sd_explained ex_calls_end)"
  using ex_calls_reachable by (simp add: ex_calls_explained)

section \<open>Traps that escape the SDK's promise\<close>

text \<open>
  \<^verbatim>\<open>runWithLocalWasmTrapCapture\<close> (\<^verbatim>\<open>connection.ts\<close>) runs one operation at a time, process-wide,
  with hooks for uncaught exceptions and unhandled rejections. The process has one capture slot;
  where it is taken, a monitor is added instead. The state has the hooks, who installed which, the
  operations rejected by a trap, and the errors raised again.
\<close>

datatype capture_slot = SlotEmpty | SlotOurs nat | SlotForeign

record trap_state =
  tp_locks :: locks
  tp_slot :: capture_slot
  tp_monitors :: "nat list"
  tp_rejections :: "nat list"
  tp_monitored :: "nat \<Rightarrow> bool"
  tp_trapped :: "nat list"
  tp_reraised :: "thrown list"

definition no_traps :: "trap_state \<Rightarrow> bool" where
  "no_traps s \<longleftrightarrow> tp_locks s = no_locks \<and> (\<forall>c. tp_slot s \<noteq> SlotOurs c) \<and> tp_monitors s = [] \<and> tp_rejections s = []
     \<and> tp_trapped s = [] \<and> tp_reraised s = []"

definition installUncaughtExceptionTrapHandler :: "nat \<Rightarrow> trap_state \<Rightarrow> trap_state" where
  "installUncaughtExceptionTrapHandler c s =
    (if tp_slot s \<noteq> SlotEmpty
     then s\<lparr>tp_monitors := tp_monitors s @ [c], tp_monitored := (tp_monitored s)(c := True)\<rparr>
     else s\<lparr>tp_slot := SlotOurs c, tp_monitored := (tp_monitored s)(c := False)\<rparr>)"

definition cleanup_exception_handler :: "nat \<Rightarrow> trap_state \<Rightarrow> trap_state" where
  "cleanup_exception_handler c s =
    (if tp_monitored s c then s\<lparr>tp_monitors := remove1 c (tp_monitors s)\<rparr>
     else if tp_slot s \<noteq> SlotEmpty then s\<lparr>tp_slot := SlotEmpty\<rparr> else s)"

definition installUnhandledRejectionTrapHandler :: "nat \<Rightarrow> trap_state \<Rightarrow> trap_state" where
  "installUnhandledRejectionTrapHandler c s = s\<lparr>tp_rejections := tp_rejections s @ [c]\<rparr>"

definition trap_enter :: "trap_state \<Rightarrow> trap_state" where
  "trap_enter s = s\<lparr>tp_locks := lock_enter 0 (tp_locks s)\<rparr>"

definition trap_start :: "nat \<Rightarrow> trap_state \<Rightarrow> trap_state" where
  "trap_start c s = installUnhandledRejectionTrapHandler c (installUncaughtExceptionTrapHandler c
     (s\<lparr>tp_locks := set_phase c LockHeld (tp_locks s)\<rparr>))"

definition trap_finish :: "nat \<Rightarrow> trap_state \<Rightarrow> trap_state" where
  "trap_finish c s = (let s' = cleanup_exception_handler c s
     in s'\<lparr>tp_rejections := remove1 c (tp_rejections s'), tp_locks := set_phase c LockReleased (tp_locks s')\<rparr>)"

text \<open>An uncaught exception reaches the monitors and then the slot; an unhandled rejection its listeners.\<close>

definition uncaught_exception :: "thrown \<Rightarrow> trap_state \<Rightarrow> trap_state" where
  "uncaught_exception e s =
    (let s' = (if isLocalExecutionWasmTrap e then s\<lparr>tp_trapped := tp_trapped s @ tp_monitors s\<rparr> else s)
     in case tp_slot s' of
          SlotOurs c \<Rightarrow> if isLocalExecutionWasmTrap e then s'\<lparr>tp_trapped := tp_trapped s' @ [c]\<rparr>
                        else s'\<lparr>tp_slot := SlotEmpty, tp_reraised := tp_reraised s' @ [e]\<rparr>
        | _ \<Rightarrow> s')"

definition unhandled_rejection :: "thrown \<Rightarrow> trap_state \<Rightarrow> trap_state" where
  "unhandled_rejection e s =
    (if isLocalExecutionWasmTrap e then s\<lparr>tp_trapped := tp_trapped s @ tp_rejections s\<rparr> else s)"

inductive trap_step :: "trap_state \<Rightarrow> trap_state \<Rightarrow> bool" where
  enter: "trap_step s (trap_enter s)"
| start: "lock_ready c (tp_locks s) \<Longrightarrow> trap_step s (trap_start c s)"
| finish: "holds_lock c (tp_locks s) \<Longrightarrow> trap_step s (trap_finish c s)"
| exception: "trap_step s (uncaught_exception e s)"
| rejection: "trap_step s (unhandled_rejection e s)"
| foreign_install: "tp_slot s = SlotEmpty \<Longrightarrow> trap_step s (s\<lparr>tp_slot := SlotForeign\<rparr>)"
| foreign_remove: "tp_slot s = SlotForeign \<Longrightarrow> trap_step s (s\<lparr>tp_slot := SlotEmpty\<rparr>)"

lemma trap_locks [simp]:
  "tp_locks (installUncaughtExceptionTrapHandler c s) = tp_locks s" "tp_locks (installUnhandledRejectionTrapHandler c s) = tp_locks s"
  "tp_locks (cleanup_exception_handler c s) = tp_locks s" "tp_locks (uncaught_exception e s) = tp_locks s"
  "tp_locks (unhandled_rejection e s) = tp_locks s"
  by (auto simp: installUncaughtExceptionTrapHandler_def installUnhandledRejectionTrapHandler_def cleanup_exception_handler_def
      uncaught_exception_def unhandled_rejection_def Let_def split: capture_slot.split)

interpretation traps: serialized no_traps trap_step tp_locks
proof
  show "tp_locks s = no_locks" if "no_traps s" for s using that by (simp add: no_traps_def)
  show "tp_locks s' = tp_locks s \<or> lock_step (tp_locks s) (tp_locks s')" if "trap_step s s'" for s s'
    using that
    by cases (auto simp: trap_enter_def trap_start_def trap_finish_def Let_def intro: lock_step.intros)
qed

text \<open>The hooks there are belong to the running operation, and it always watches rejections.\<close>

definition hooks_of :: "trap_state \<Rightarrow> nat set" where
  "hooks_of s = set (tp_monitors s) \<union> set (tp_rejections s) \<union> {c. tp_slot s = SlotOurs c}"

definition traps_ok :: "trap_state \<Rightarrow> bool" where
  "traps_ok s \<longleftrightarrow> (\<forall>c \<in> hooks_of s. holds_lock c (tp_locks s)) \<and> (\<forall>c. holds_lock c (tp_locks s) \<longrightarrow> c \<in> set (tp_rejections s))
     \<and> (\<forall>c. key_of (tp_locks s) c = 0 \<or> length (lk_calls (tp_locks s)) \<le> c)
     \<and> distinct (tp_monitors s) \<and> distinct (tp_rejections s) \<and> (\<forall>c \<in> set (tp_monitors s). tp_monitored s c)
     \<and> (\<forall>c. tp_slot s = SlotOurs c \<longrightarrow> \<not> tp_monitored s c)"

lemma trap_key: "traps_ok s \<Longrightarrow> c < length (lk_calls (tp_locks s)) \<Longrightarrow> key_of (tp_locks s) c = 0"
  unfolding traps_ok_def by (metis not_less)

lemma trap_exclusive:
  assumes "lock_inv (tp_locks s)" and "traps_ok s" and "holds_lock c (tp_locks s)" and "holds_lock d (tp_locks s)"
  shows "d = c"
  by (rule lock_exclusive [OF assms(1,4,3)]) (use assms(2-4) trap_key in \<open>simp add: holds_lock_def\<close>)

lemma traps_none_held:
  assumes "lock_inv (tp_locks s)" and "lock_ready c (tp_locks s)" and "traps_ok s"
  shows "\<not> holds_lock d (tp_locks s)"
proof
  assume d: "holds_lock d (tp_locks s)"
  then have dl: "d < length (lk_calls (tp_locks s))" "phase_of (tp_locks s) d = LockHeld" by (simp_all add: holds_lock_def)
  have c: "c < length (lk_calls (tp_locks s))" "phase_of (tp_locks s) c = LockWaiting" using assms(2) by (simp_all add: lock_ready_def)
  have key: "key_of (tp_locks s) d = key_of (tp_locks s) c" using trap_key [OF assms(3)] c dl by simp
  have "\<not> d < c" using ready_before_released [OF assms(1,2) _ key] dl by auto
  moreover have "\<not> c < d" using held_before_released [OF assms(1) d _ key [symmetric]] c by auto
  ultimately have "c = d" by simp
  then show False using c dl by simp
qed

lemma hooks_empty:
  assumes "traps_ok s" and "\<And>d. \<not> holds_lock d (tp_locks s)"
  shows "tp_monitors s = []" "tp_rejections s = []" "tp_slot s \<noteq> SlotOurs c"
proof -
  have "hooks_of s = {}" using assms by (auto simp: traps_ok_def)
  then show "tp_monitors s = []" "tp_rejections s = []" "tp_slot s \<noteq> SlotOurs c" by (auto simp: hooks_of_def)
qed

lemma traps_ok_start:
  assumes "lock_inv (tp_locks s)" and "lock_ready c (tp_locks s)" and "traps_ok s"
  shows "traps_ok (trap_start c s)"
proof -
  have c: "c < length (lk_calls (tp_locks s))" using assms(2) by (simp add: lock_ready_def)
  have none: "\<not> holds_lock d (tp_locks s)" for d using traps_none_held [OF assms] .
  have keys: "key_of (tp_locks s) d = 0 \<or> length (lk_calls (tp_locks s)) \<le> d" for d using assms(3) by (simp add: traps_ok_def)
  show ?thesis
    using hooks_empty [OF assms(3) none] none keys
    by (cases "tp_slot s") (auto simp: holds_set_phase [OF c] set_phase_fields(1) [OF c] traps_ok_def hooks_of_def trap_start_def installUncaughtExceptionTrapHandler_def
        installUnhandledRejectionTrapHandler_def)
qed

lemma traps_ok_finish:
  assumes "lock_inv (tp_locks s)" and "holds_lock c (tp_locks s)" and "traps_ok s"
  shows "traps_ok (trap_finish c s)"
proof -
  have c: "c < length (lk_calls (tp_locks s))" using assms(2) by (simp add: holds_lock_def)
  have only: "d = c" if "holds_lock d (tp_locks s)" for d using trap_exclusive [OF assms(1,3,2) that] .
  have hooks: "d = c" if "d \<in> hooks_of s" for d using only that assms(3) by (auto simp: traps_ok_def)
  have held: "\<not> holds_lock d (set_phase c LockReleased (tp_locks s))" for d using only by (auto simp: holds_set_phase [OF c])
  have dist: "distinct (tp_monitors s)" "distinct (tp_rejections s)" "\<And>m. m \<in> set (tp_monitors s) \<Longrightarrow> tp_monitored s m"
      "\<And>m. tp_slot s = SlotOurs m \<Longrightarrow> \<not> tp_monitored s m"
    and keys: "\<And>d. key_of (tp_locks s) d = 0 \<or> length (lk_calls (tp_locks s)) \<le> d"
    using assms(3) by (auto simp: traps_ok_def)
  have "d \<notin> hooks_of (trap_finish c s)" for d
    using hooks dist by (cases "d = c") (auto simp: hooks_of_def trap_finish_def cleanup_exception_handler_def Let_def)
  then have "hooks_of (trap_finish c s) = {}" by blast
  moreover have "set (tp_monitors (trap_finish c s)) = {}" "set (tp_rejections (trap_finish c s)) = {}"
      "\<And>d. tp_slot (trap_finish c s) \<noteq> SlotOurs d"
    using calculation by (auto simp: hooks_of_def)
  moreover have "tp_locks (trap_finish c s) = set_phase c LockReleased (tp_locks s)" by (simp add: trap_finish_def Let_def)
  ultimately show ?thesis using held keys by (auto simp: traps_ok_def set_phase_fields(1) [OF c])
qed

lemma traps_ok_step: "trap_step s s' \<Longrightarrow> lock_inv (tp_locks s) \<Longrightarrow> traps_ok s \<Longrightarrow> traps_ok s'"
proof (induction rule: trap_step.induct)
  case (enter s)
  have "key_of (lock_enter 0 (tp_locks s)) c = 0 \<or> Suc (length (lk_calls (tp_locks s))) \<le> c" for c
    using enter.prems(2) lock_enter_fields [of c "tp_locks s" 0] lock_enter_new(1) [of 0 "tp_locks s"]
    by (cases c "length (lk_calls (tp_locks s))" rule: linorder_cases) (auto simp: traps_ok_def)
  then show ?case using enter.prems(2) by (auto simp: traps_ok_def hooks_of_def trap_enter_def holds_enter)
next
  case (exception s e)
  then show ?case
    by (auto simp: uncaught_exception_def traps_ok_def hooks_of_def Let_def split: capture_slot.splits)
qed (auto simp: traps_ok_start traps_ok_finish, auto simp: unhandled_rejection_def traps_ok_def hooks_of_def)

lemma reached_traps: "traps.reached s \<Longrightarrow> traps_ok s"
proof (induction rule: traps.reached.induct)
  case (first s)
  then show ?case by (auto simp: no_traps_def traps_ok_def hooks_of_def holds_lock_def no_locks_def)
next
  case (next_step s s')
  then show ?case using traps_ok_step traps.reached_lock_inv by blast
qed

definition trap_reachable :: "trap_state \<Rightarrow> bool" where
  "trap_reachable s = traps.reached s"

text \<open>
  A trap rejects the running operation and no other, whichever way it escapes; outside operations
  no hook is left.
\<close>

lemma trap_hits_running_operation:
  assumes "trap_reachable s"
  shows "set (tp_trapped (unhandled_rejection (ThrownError ''RuntimeError'' ''unreachable'') s))
      = set (tp_trapped s) \<union> {c. holds_lock c (tp_locks s)}"
    and "set (tp_trapped (uncaught_exception e s)) \<subseteq> set (tp_trapped s) \<union> {c. holds_lock c (tp_locks s)}"
    and "holds_lock c (tp_locks s) \<Longrightarrow> holds_lock d (tp_locks s) \<Longrightarrow> c = d"
    and "{c. holds_lock c (tp_locks s)} = {} \<Longrightarrow> hooks_of s = {}"
proof -
  have ok: "traps_ok s" and inv: "lock_inv (tp_locks s)"
    using assms reached_traps traps.reached_lock_inv by (auto simp: trap_reachable_def)
  show "set (tp_trapped (unhandled_rejection (ThrownError ''RuntimeError'' ''unreachable'') s))
      = set (tp_trapped s) \<union> {c. holds_lock c (tp_locks s)}"
    using ok by (auto simp: unhandled_rejection_def isLocalExecutionWasmTrap_def traps_ok_def hooks_of_def)
  show "set (tp_trapped (uncaught_exception e s)) \<subseteq> set (tp_trapped s) \<union> {c. holds_lock c (tp_locks s)}"
    using ok by (auto simp: uncaught_exception_def Let_def traps_ok_def hooks_of_def split: capture_slot.splits if_splits)
  show "holds_lock c (tp_locks s) \<Longrightarrow> holds_lock d (tp_locks s) \<Longrightarrow> c = d"
    using trap_exclusive [OF inv ok] by blast
  show "{c. holds_lock c (tp_locks s)} = {} \<Longrightarrow> hooks_of s = {}"
    using ok by (auto simp: traps_ok_def)
qed

text \<open>
  The cleanup empties the slot whoever holds it: after an unrelated exception took the operation's
  own callback away, one that someone else installed meanwhile goes as well.
\<close>

lemma cleanup_drops_foreign_callback:
  assumes "tp_slot s = SlotOurs c" and "\<not> tp_monitored s c" and "\<not> isLocalExecutionWasmTrap e"
  shows "tp_slot (trap_finish c ((uncaught_exception e s)\<lparr>tp_slot := SlotForeign\<rparr>)) = SlotEmpty"
  using assms by (simp add: uncaught_exception_def trap_finish_def cleanup_exception_handler_def Let_def)

end
