(* ===== verification/Connection.thy ===== *)
theory Connection imports Confirmation KeyCache SdkDiagnostics ConfigResolution DeployStore begin

text \<open>
  The methods of a connection (\<^verbatim>\<open>packages/network/src/connection.ts\<close>): queries of mappings,
  storage, balances, programs and views, and the execution of a transition, from the import
  references to the confirmed outputs. The SDK's network client and program manager are records of
  functions; the clock and the log of the SDK calls that were made are the state.
\<close>

section \<open>Numbers in strings\<close>

text \<open>\<^verbatim>\<open>BigInt(s)\<close>: a decimal with an optional sign, or an unsigned literal with a radix.\<close>

definition js_BigInt :: "string \<Rightarrow> int option" where
  "js_BigInt s0 =
    (let s = js_trim s0
     in if s = [] then Some 0
        else case s of
          z # x # ds \<Rightarrow>
            if z = CHR ''0'' \<and> (x = CHR ''x'' \<or> x = CHR ''X'') then (if all_digits 16 ds then Some (int (digits_val 16 ds)) else None)
            else if z = CHR ''0'' \<and> (x = CHR ''o'' \<or> x = CHR ''O'') then (if all_digits 8 ds then Some (int (digits_val 8 ds)) else None)
            else if z = CHR ''0'' \<and> (x = CHR ''b'' \<or> x = CHR ''B'') then (if all_digits 2 ds then Some (int (digits_val 2 ds)) else None)
            else (case signed s of (sg, body) \<Rightarrow> if all_digits 10 body then Some (sg * int (digits_val 10 body)) else None)
        | _ \<Rightarrow> (case signed s of (sg, body) \<Rightarrow> if all_digits 10 body then Some (sg * int (digits_val 10 body)) else None))"

text \<open>\<^verbatim>\<open>value.replace(/u\d+$/i, "")\<close>\<close>

definition strip_unit :: "string \<Rightarrow> string" where
  "strip_unit value =
    (let digits = takeWhile is_digit (rev value); rest = dropWhile is_digit (rev value)
     in case rest of
          c # cs \<Rightarrow> if digits \<noteq> [] \<and> (c = CHR ''u'' \<or> c = CHR ''U'') then rev cs else value
        | [] \<Rightarrow> value)"

text \<open>\<^verbatim>\<open>value.replace(/u32(?:\.(?:public|private))?$/i, "")\<close>\<close>

definition strip_u32 :: "string \<Rightarrow> string" where
  "strip_u32 value =
    (case find (\<lambda>ending. ends_with (js_lower value) ending) [''u32.public'', ''u32.private'', ''u32''] of
      Some ending \<Rightarrow> take (length value - length ending) value
    | None \<Rightarrow> value)"

definition U32_MAX :: int where "U32_MAX = 0xffffffff"

section \<open>The network client\<close>

datatype connection_error =
    ConnectionClosed
  | SdkUnavailable string
  | QueryFailed string string
  | SourceFailed string string
  | ViewFailed string string string
  | BadVectorIndex
  | BadVectorLength string
  | BadBigInt string
  | NoDefaultAddress
  | SubmitFailed string
  | InvalidImportRef string
  | ImportRefNotFound string string
  | ArtifactsFailed execution_error
  | KeysFailed string
  | SdkThrew thrown
  | NoLocalCheck
  | LocalVmExecution string string thrown
  | ConfirmFailed confirm_error
  | HeightFailed string
  | AdvanceFailed "nat option"

record network_client =
  nc_mappingValue :: "string \<Rightarrow> string \<Rightarrow> string \<Rightarrow> string + jsval"
  nc_program :: "string \<Rightarrow> string + jsval"
  nc_edition :: "(string \<Rightarrow> string + jsval) option"
  nc_checksum :: "string \<Rightarrow> string option"
  nc_height :: "string + jsval"

text \<open>An open connection with its SDK objects: \<^verbatim>\<open>assertOpen\<close> and \<^verbatim>\<open>getSdkObjects\<close> before every query.\<close>

definition with_client :: "bool \<Rightarrow> string + network_client \<Rightarrow> (network_client \<Rightarrow> connection_error + 'a) \<Rightarrow> connection_error + 'a" where
  "with_client isClosed sdk f =
    (if isClosed then Inl ConnectionClosed
     else case sdk of Inl m \<Rightarrow> Inl (SdkUnavailable m) | Inr nc \<Rightarrow> f nc)"

definition value_or_null :: "(jsnum \<Rightarrow> string) \<Rightarrow> jsval \<Rightarrow> string option" where
  "value_or_null ft v = (if v = JUndef \<or> v = JNull then None else Some (js_String ft v))"

definition says_missing :: "string \<Rightarrow> bool" where
  "says_missing message \<longleftrightarrow> str_includes message ''404'' \<or> str_includes message ''not found'' \<or> str_includes message ''Not Found''"

definition queryProgramMappingRaw :: "(jsnum \<Rightarrow> string) \<Rightarrow> bool \<Rightarrow> string + network_client \<Rightarrow> string \<Rightarrow> string \<Rightarrow> string \<Rightarrow> string
    \<Rightarrow> connection_error + string option" where
  "queryProgramMappingRaw ft isClosed sdk programId mappingName key failureLabel =
    with_client isClosed sdk (\<lambda>nc. case nc_mappingValue nc programId mappingName key of
        Inr v \<Rightarrow> Inr (value_or_null ft v)
      | Inl message \<Rightarrow> if says_missing message then Inr None else Inl (QueryFailed failureLabel message))"

definition getMappingValue :: "(jsnum \<Rightarrow> string) \<Rightarrow> bool \<Rightarrow> string + network_client \<Rightarrow> string \<Rightarrow> string \<Rightarrow> string
    \<Rightarrow> connection_error + string option" where
  "getMappingValue ft isClosed sdk programId mappingName key =
    queryProgramMappingRaw ft isClosed sdk programId mappingName key (''mapping '' @ programId @ ''/'' @ mappingName)"

definition getStorageValue :: "(jsnum \<Rightarrow> string) \<Rightarrow> bool \<Rightarrow> string + network_client \<Rightarrow> string \<Rightarrow> string \<Rightarrow> connection_error + string option" where
  "getStorageValue ft isClosed sdk programId variableName =
    queryProgramMappingRaw ft isClosed sdk programId (variableName @ ''__'') ''false'' (''storage '' @ programId @ ''/'' @ variableName)"

definition formatStorageVectorIndex :: "jsval \<Rightarrow> connection_error + string" where
  "formatStorageVectorIndex index =
    (case index of
      JNum (Fin q) \<Rightarrow> if of_int \<lfloor>q\<rfloor> = q \<and> 0 \<le> q \<and> q \<le> of_int U32_MAX then Inr (int_str \<lfloor>q\<rfloor> @ ''u32'') else Inl BadVectorIndex
    | _ \<Rightarrow> Inl BadVectorIndex)"

definition parseStorageVectorLength :: "string \<Rightarrow> connection_error + int" where
  "parseStorageVectorLength value =
    (case js_Number (strip_u32 value) of
      Fin q \<Rightarrow> if of_int \<lfloor>q\<rfloor> = q \<and> 0 \<le> q \<and> q \<le> of_int U32_MAX then Inr \<lfloor>q\<rfloor> else Inl (BadVectorLength value)
    | _ \<Rightarrow> Inl (BadVectorLength value))"

definition getStorageVectorLength :: "(jsnum \<Rightarrow> string) \<Rightarrow> bool \<Rightarrow> string + network_client \<Rightarrow> string \<Rightarrow> string \<Rightarrow> connection_error + int" where
  "getStorageVectorLength ft isClosed sdk programId variableName =
    bindR (getMappingValue ft isClosed sdk programId (variableName @ ''__len__'') ''false'') (\<lambda>value.
      case value of None \<Rightarrow> Inr 0 | Some v \<Rightarrow> parseStorageVectorLength v)"

definition getStorageVectorValue :: "(jsnum \<Rightarrow> string) \<Rightarrow> bool \<Rightarrow> string + network_client \<Rightarrow> string \<Rightarrow> string \<Rightarrow> jsval
    \<Rightarrow> connection_error + string option" where
  "getStorageVectorValue ft isClosed sdk programId variableName index =
    bindR (formatStorageVectorIndex index) (\<lambda>key. getMappingValue ft isClosed sdk programId (variableName @ ''__'') key)"

text \<open>\<open>accountAddress\<close> is the address of the default account.\<close>

definition getDefaultAddress :: "string option \<Rightarrow> string + network_client \<Rightarrow> string \<Rightarrow> connection_error + string" where
  "getDefaultAddress privateKey sdk accountAddress =
    (case privateKey of
      Some k \<Rightarrow> if k = [] then Inl NoDefaultAddress else (case sdk of Inl m \<Rightarrow> Inl (SdkUnavailable m) | Inr nc \<Rightarrow> Inr accountAddress)
    | None \<Rightarrow> Inl NoDefaultAddress)"

definition getBalance :: "(jsnum \<Rightarrow> string) \<Rightarrow> bool \<Rightarrow> string + network_client \<Rightarrow> string option \<Rightarrow> string \<Rightarrow> string option \<Rightarrow> connection_error + int" where
  "getBalance ft isClosed sdk privateKey accountAddress address =
    (if isClosed then Inl ConnectionClosed
     else
       bindR (case address of Some a \<Rightarrow> Inr a | None \<Rightarrow> getDefaultAddress privateKey sdk accountAddress) (\<lambda>addr.
       bindR (getMappingValue ft isClosed sdk ''credits.aleo'' ''account'' addr) (\<lambda>value.
         case value of None \<Rightarrow> Inr 0
         | Some v \<Rightarrow> (case js_BigInt (strip_unit v) of Some n \<Rightarrow> Inr n | None \<Rightarrow> Inl (BadBigInt v)))))"

definition getProgramSource :: "(jsnum \<Rightarrow> string) \<Rightarrow> bool \<Rightarrow> string + network_client \<Rightarrow> string \<Rightarrow> connection_error + string option" where
  "getProgramSource ft isClosed sdk programId =
    with_client isClosed sdk (\<lambda>nc. case nc_program nc programId of
        Inr v \<Rightarrow> Inr (value_or_null ft v)
      | Inl message \<Rightarrow> if says_missing message \<or> str_includes message ''500'' then Inr None
                        else Inl (SourceFailed programId message))"

definition getLatestProgramEditionIfAvailable :: "network_client \<Rightarrow> string \<Rightarrow> nat option" where
  "getLatestProgramEditionIfAvailable nc programId =
    (case nc_edition nc of None \<Rightarrow> None
     | Some f \<Rightarrow> (case f programId of Inr edition \<Rightarrow> nat_of edition | Inl m \<Rightarrow> None))"

definition getProgramEdition :: "bool \<Rightarrow> string + network_client \<Rightarrow> string \<Rightarrow> connection_error + nat option" where
  "getProgramEdition isClosed sdk programId = with_client isClosed sdk (\<lambda>nc. Inr (getLatestProgramEditionIfAvailable nc programId))"

definition getProgramChecksum :: "(jsnum \<Rightarrow> string) \<Rightarrow> bool \<Rightarrow> string + network_client \<Rightarrow> string \<Rightarrow> connection_error + string option" where
  "getProgramChecksum ft isClosed sdk programId =
    with_client isClosed sdk (\<lambda>nc. case nc_program nc programId of
        Inl m \<Rightarrow> Inr None
      | Inr v \<Rightarrow> Inr (Option.bind (value_or_null ft v) (nc_checksum nc)))"

definition getBlockHeight :: "bool \<Rightarrow> string + network_client \<Rightarrow> connection_error + jsval" where
  "getBlockHeight isClosed sdk =
    with_client isClosed sdk (\<lambda>nc. case nc_height nc of Inl m \<Rightarrow> Inl (HeightFailed m) | Inr height \<Rightarrow> Inr height)"

text \<open>The answers of the devnode to the requests for one block each, from the \<open>i\<close>-th on.\<close>

primrec advance_from :: "(nat \<Rightarrow> http_response option) \<Rightarrow> nat \<Rightarrow> nat \<Rightarrow> connection_error + unit" where
  "advance_from answer i 0 = Inr ()"
| "advance_from answer i (Suc count) =
    (case answer i of
      None \<Rightarrow> Inl (AdvanceFailed None)
    | Some r \<Rightarrow> if \<not> hr_ok r then Inl (AdvanceFailed (Some (hr_status r))) else advance_from answer (Suc i) count)"

definition advanceBlocks :: "bool \<Rightarrow> (nat \<Rightarrow> http_response option) \<Rightarrow> nat \<Rightarrow> connection_error + unit" where
  "advanceBlocks isClosed answer count = (if isClosed then Inl ConnectionClosed else advance_from answer 0 count)"

lemma advanceBlocks_all:
  "advanceBlocks isClosed answer count = Inr () \<longleftrightarrow> \<not> isClosed \<and> (\<forall>i < count. \<exists>r. answer i = Some r \<and> hr_ok r)"
proof -
  have "advance_from answer i n = Inr () \<longleftrightarrow> (\<forall>j < n. \<exists>r. answer (i + j) = Some r \<and> hr_ok r)" for i n
  proof (induction n arbitrary: i)
    case (Suc n)
    then show ?case by (auto simp: All_less_Suc2 split: option.splits)
  qed simp
  from this [of 0 count] show ?thesis by (simp add: advanceBlocks_def)
qed

text \<open>The body of a view's response: an array of strings, or nothing at all.\<close>

fun as_string_value :: "jsval \<Rightarrow> string option" where
  "as_string_value (JStr s) = Some s"
| "as_string_value _ = None"

definition all_strings :: "jsval list \<Rightarrow> string list option" where
  "all_strings xs = (if list_all (\<lambda>v. js_typeof v = ''string'') xs then Some (List.map_filter as_string_value xs) else None)"

definition queryView :: "json_parser \<Rightarrow> bool \<Rightarrow> http_response option \<Rightarrow> string \<Rightarrow> string \<Rightarrow> connection_error + string list" where
  "queryView json isClosed response programId viewName =
    (if isClosed then Inl ConnectionClosed
     else case response of
         None \<Rightarrow> Inl (ViewFailed programId viewName ''fetch'')
       | Some r \<Rightarrow> (case hr_text r of
           None \<Rightarrow> Inl (ViewFailed programId viewName ''body'')
         | Some body \<Rightarrow>
             if \<not> hr_ok r then Inl (ViewFailed programId viewName (''HTTP '' @ nat_str (hr_status r)))
             else if body = [] then Inr []
             else (case json body of
                 Some (JArr xs) \<Rightarrow> (case all_strings xs of Some ss \<Rightarrow> Inr ss
                     | None \<Rightarrow> Inl (ViewFailed programId viewName ''response body is not an array of Aleo value strings''))
               | Some _ \<Rightarrow> Inl (ViewFailed programId viewName ''response body is not an array of Aleo value strings'')
               | None \<Rightarrow> Inl (ViewFailed programId viewName ''JSON''))))"

section \<open>Executing a transition\<close>

record exec_options =
  xo_local :: bool
  xo_fee :: jsval
  xo_privateFee :: bool
  xo_signer :: "string option"
  xo_prove :: bool
  xo_imports :: "string list"
  xo_awaitConfirmation :: bool

text \<open>What a transaction is built from.\<close>

record exec_request =
  xq_programName :: string
  xq_functionName :: string
  xq_inputs :: "string list"
  xq_priorityFee :: jsval
  xq_privateFee :: bool
  xq_program :: string
  xq_imports :: "(string, string) omap option"

text \<open>
  A call of the SDK resolves, rejects, or leaves its promise pending while its trap escapes to the
  process; with it come the transport failures that were recorded meanwhile.
\<close>

datatype 'a sdk_event = SdkResolves 'a | SdkRejects thrown | SdkTraps thrown

datatype local_result = LocalArray "jsval list" | LocalGetOutputs jsval | LocalObject jsval | LocalOther

record program_manager =
  pm_run :: "string \<Rightarrow> string \<Rightarrow> string list \<Rightarrow> (string, string) omap option \<Rightarrow> local_result sdk_event \<times> sdk_failure list"
  pm_buildDevnode :: "(exec_request \<Rightarrow> string sdk_event \<times> sdk_failure list) option"
  pm_execute :: "exec_request \<Rightarrow> nat option \<Rightarrow> key_pair option \<Rightarrow> string sdk_event \<times> sdk_failure list"
  pm_authorize :: "(exec_request \<Rightarrow> unit sdk_event \<times> sdk_failure list) option"

datatype sdk_call =
    CallRun string string "string list" "(string, string) omap option"
  | CallBuild exec_request
  | CallExecute exec_request "nat option" "key_pair option"
  | CallAuthorize exec_request
  | CallSubmit string

record exec_world =
  xw_now :: int
  xw_calls :: "sdk_call list"

type_synonym 'a exec_act = "(exec_world, connection_error, 'a) act"

record exec_env =
  xe_json :: json_parser
  xe_ft :: "jsnum \<Rightarrow> string"
  xe_node :: node
  xe_settings :: connection_settings
  xe_type :: network_type
  xe_privateKey :: "string option"
  xe_closed :: "int \<Rightarrow> bool"
  xe_keys :: key_env
  xe_files :: files
  xe_artifactsDir :: "string option"
  xe_home :: string
  xe_projectRoot :: string
  xe_executionImports :: "(string, runtime_import_ref list) omap"
  xe_keyCachePath :: "string option"
  xe_wasmHash :: string
  xe_prepareDevnode :: "string + unit"
  xe_manager :: "string option \<Rightarrow> string + program_manager"
  xe_client :: network_client
  xe_submit :: "string \<Rightarrow> string + jsval"
  xe_loadKeys :: "key_pair \<Rightarrow> string + unit"
  xe_duration :: "sdk_call \<Rightarrow> nat"
  xe_depth :: nat

definition assertOpen :: "exec_env \<Rightarrow> unit exec_act" where
  "assertOpen e = bindA (getA (\<lambda>s. xe_closed e (xw_now s))) (\<lambda>c. if c then throwA ConnectionClosed else returnA ())"

definition sdk_answer :: "string + 'a \<Rightarrow> connection_error + 'a" where
  "sdk_answer r = (case r of Inl m \<Rightarrow> Inl (SdkUnavailable m) | Inr x \<Rightarrow> Inr x)"

text \<open>A call is logged and takes its time.\<close>

definition log_call :: "exec_env \<Rightarrow> sdk_call \<Rightarrow> unit exec_act" where
  "log_call e c = modifyA (\<lambda>s. s\<lparr>xw_calls := xw_calls s @ [c], xw_now := xw_now s + int (xe_duration e c)\<rparr>)"

text \<open>\<^verbatim>\<open>runWithLocalWasmTrapCapture\<close>: an escaped trap rejects the call.\<close>

fun trap_captured :: "'a sdk_event \<Rightarrow> thrown + 'a" where
  "trap_captured (SdkResolves x) = Inr x"
| "trap_captured (SdkRejects e) = Inl e"
| "trap_captured (SdkTraps e) = Inl (ThrownTrap (errorMessage e))"

definition captureSdkCall :: "sdk_context \<Rightarrow> 'a sdk_event \<times> sdk_failure list \<Rightarrow> connection_error + 'a" where
  "captureSdkCall ctx outcome =
    (case trap_captured (fst outcome) of Inr x \<Rightarrow> Inr x | Inl err \<Rightarrow> Inl (SdkThrew (explain_error ctx (snd outcome) err)))"

definition effective_signer :: "exec_env \<Rightarrow> string option \<Rightarrow> string option" where
  "effective_signer e signer =
    (case signer of None \<Rightarrow> None | Some k \<Rightarrow> if k = [] \<or> xe_privateKey e = Some k then None else Some k)"

definition getEffectivePm :: "exec_env \<Rightarrow> string option \<Rightarrow> program_manager exec_act" where
  "getEffectivePm e signer = bindA (assertOpen e) (\<lambda>_. liftA (sdk_answer (xe_manager e (effective_signer e signer))))"

definition call_ref :: "exec_env \<Rightarrow> string \<Rightarrow> connection_error + runtime_import_ref" where
  "call_ref e raw =
    (case normalizeRuntimeImportRef (ke_cwd (xe_keys e)) (xe_home e) raw (xe_projectRoot e) of
      Inl bad \<Rightarrow> Inl (InvalidImportRef bad)
    | Inr (RefPath p) \<Rightarrow> if om_has (xe_files e) p then Inr (RefPath p) else Inl (ImportRefNotFound p raw)
    | Inr ref \<Rightarrow> Inr ref)"

definition collectRuntimeImports :: "exec_env \<Rightarrow> string \<Rightarrow> string list \<Rightarrow> connection_error + runtime_import_ref list" where
  "collectRuntimeImports e programId callRefs =
    bindR (mapR (call_ref e) callRefs) (\<lambda>fromCall.
      Inr (dedupAndSortRuntimeImports
        ((case om_get (xe_executionImports e) programId of None \<Rightarrow> [] | Some refs \<Rightarrow> refs) @ fromCall)))"

definition artifactsR :: "execution_error + 'a \<Rightarrow> connection_error + 'a" where
  "artifactsR r = (case r of Inl err \<Rightarrow> Inl (ArtifactsFailed err) | Inr x \<Rightarrow> Inr x)"

definition execution_artifacts_for :: "exec_env \<Rightarrow> string \<Rightarrow> string list \<Rightarrow> connection_error + execution_artifacts" where
  "execution_artifacts_for e programId callRefs =
    bindR (collectRuntimeImports e programId callRefs) (\<lambda>refs.
      artifactsR (resolveProgramExecutionArtifacts (xe_depth e) (xe_keys e) (xe_files e) (xe_artifactsDir e) programId True refs))"

definition execution_identity :: "exec_env \<Rightarrow> string \<Rightarrow> string \<Rightarrow> execution_artifacts \<Rightarrow> runtime_key_identity" where
  "execution_identity e programId transitionName a =
    buildRuntimeKeyIdentity (cs_networkId (xe_settings e)) programId transitionName
      (getLatestProgramEditionIfAvailable (xe_client e) programId) (xa_sourceHash a) (xa_importsHash a) (xe_wasmHash e)"

text \<open>The edition and the keys that an execution is given, both absent without a key cache on disk.\<close>

definition getPersistentExecutionOptions :: "exec_env \<Rightarrow> string \<Rightarrow> string \<Rightarrow> execution_artifacts
    \<Rightarrow> connection_error + (nat option \<times> key_pair option)" where
  "getPersistentExecutionOptions e programId transitionName a =
    (case xe_keyCachePath e of None \<Rightarrow> Inr (None, None)
     | Some cachePath \<Rightarrow>
        (let edition = getLatestProgramEditionIfAvailable (xe_client e) programId
         in case findCachedExecutionKeys (xe_keys e) (xe_files e) cachePath (execution_identity e programId transitionName a) (Some a) of
              Inl err \<Rightarrow> Inl (ArtifactsFailed (KeyFault err))
            | Inr None \<Rightarrow> Inr (edition, None)
            | Inr (Some (src, keys)) \<Rightarrow>
                (case xe_loadKeys e keys of Inl m \<Rightarrow> Inl (KeysFailed m) | Inr _ \<Rightarrow> Inr (edition, Some keys))))"

definition request_for :: "string \<Rightarrow> string \<Rightarrow> string list \<Rightarrow> exec_options \<Rightarrow> execution_artifacts \<Rightarrow> exec_request" where
  "request_for programId transitionName args opts a =
    \<lparr>xq_programName = programId, xq_functionName = transitionName, xq_inputs = args,
     xq_priorityFee = (if xo_fee opts = JUndef \<or> xo_fee opts = JNull then jint 0 else xo_fee opts),
     xq_privateFee = xo_privateFee opts, xq_program = xa_source a, xq_imports = xa_imports a\<rparr>"

definition strings_of :: "(jsnum \<Rightarrow> string) \<Rightarrow> jsval \<Rightarrow> string list" where
  "strings_of ft v = (case v of JArr xs \<Rightarrow> map (js_String ft) xs | _ \<Rightarrow> [])"

fun extractLocalExecutionOutputs :: "(jsnum \<Rightarrow> string) \<Rightarrow> local_result \<Rightarrow> string list" where
  "extractLocalExecutionOutputs ft (LocalArray xs) = map (js_String ft) xs"
| "extractLocalExecutionOutputs ft (LocalGetOutputs v) = strings_of ft v"
| "extractLocalExecutionOutputs ft (LocalObject v) = strings_of ft v"
| "extractLocalExecutionOutputs ft LocalOther = []"

text \<open>\<^verbatim>\<open>txId.replace(/"/g, "")\<close>\<close>

definition broadcastTransaction :: "exec_env \<Rightarrow> string \<Rightarrow> string exec_act" where
  "broadcastTransaction e tx =
    bindA (assertOpen e) (\<lambda>_. bindA (log_call e (CallSubmit tx)) (\<lambda>_.
      case xe_submit e tx of
        Inl m \<Rightarrow> throwA (SubmitFailed m)
      | Inr (JStr s) \<Rightarrow> returnA (filter (\<lambda>c. c \<noteq> dquote) s)
      | Inr v \<Rightarrow> returnA (js_String (xe_ft e) v)))"

definition prepare_devnode :: "exec_env \<Rightarrow> unit exec_act" where
  "prepare_devnode e = (if xe_type e = NetDevnode then liftA (sdk_answer (xe_prepareDevnode e)) else returnA ())"

definition await_outputs :: "exec_env \<Rightarrow> string \<Rightarrow> string \<Rightarrow> string \<Rightarrow> call_result exec_act" where
  "await_outputs e txId programId transitionName = (\<lambda>s.
    (case getTransitionOutputs (xe_json e) (xe_ft e) (xe_node e) (xe_settings e) (xe_closed e (xw_now s)) txId programId
        transitionName None (xw_now s) of
      (Inl err, t) \<Rightarrow> (Inl (ConfirmFailed err), s\<lparr>xw_now := t\<rparr>)
    | (Inr r, t) \<Rightarrow> (Inr r, s\<lparr>xw_now := t\<rparr>)))"

definition build_and_broadcast :: "exec_env \<Rightarrow> program_manager \<Rightarrow> string \<Rightarrow> string \<Rightarrow> exec_options \<Rightarrow> exec_request \<Rightarrow> execution_artifacts
    \<Rightarrow> string exec_act" where
  "build_and_broadcast e pm programId transitionName opts req a =
    (let ctx = \<lparr>sx_operation = OpExecute, sx_programId = programId, sx_transitionName = Some transitionName\<rparr>
     in case (if xe_type e = NetDevnode \<and> \<not> xo_prove opts then pm_buildDevnode pm else None) of
          Some build \<Rightarrow>
            bindA (log_call e (CallBuild req)) (\<lambda>_.
            bindA (liftA (captureSdkCall ctx (build req))) (\<lambda>tx. broadcastTransaction e tx))
        | None \<Rightarrow>
            bindA (liftA (getPersistentExecutionOptions e programId transitionName a)) (\<lambda>(edition, keys).
            bindA (log_call e (CallExecute req edition keys)) (\<lambda>_.
              liftA (captureSdkCall ctx (pm_execute pm req edition keys)))))"

definition execute :: "exec_env \<Rightarrow> string \<Rightarrow> string \<Rightarrow> string list \<Rightarrow> exec_options \<Rightarrow> call_result exec_act" where
  "execute e programId transitionName args opts =
    bindA (assertOpen e) (\<lambda>_.
    bindA (prepare_devnode e) (\<lambda>_.
    bindA (getEffectivePm e (xo_signer opts)) (\<lambda>pm.
    bindA (liftA (execution_artifacts_for e programId (xo_imports opts))) (\<lambda>a.
      let req = request_for programId transitionName args opts a
      in if xo_local opts then
           bindA (log_call e (CallRun (xa_source a) transitionName args (xa_imports a))) (\<lambda>_.
           bindA (liftA (captureSdkCall \<lparr>sx_operation = OpLocal, sx_programId = programId, sx_transitionName = Some transitionName\<rparr>
                (pm_run pm (xa_source a) transitionName args (xa_imports a)))) (\<lambda>r.
             returnA \<lparr>cr_outputs = extractLocalExecutionOutputs (xe_ft e) r, cr_rawOutputs = None, cr_txId = None\<rparr>))
         else
           bindA (build_and_broadcast e pm programId transitionName opts req a) (\<lambda>txId.
             if \<not> xo_awaitConfirmation opts then returnA \<lparr>cr_outputs = [], cr_rawOutputs = None, cr_txId = Some txId\<rparr>
             else await_outputs e txId programId transitionName)))))"

definition checkLocalExecution :: "exec_env \<Rightarrow> string \<Rightarrow> string \<Rightarrow> string list \<Rightarrow> exec_options \<Rightarrow> unit exec_act" where
  "checkLocalExecution e programId transitionName args opts =
    bindA (assertOpen e) (\<lambda>_.
    bindA (prepare_devnode e) (\<lambda>_.
    bindA (getEffectivePm e (xo_signer opts)) (\<lambda>pm.
      case pm_authorize pm of
        None \<Rightarrow> throwA NoLocalCheck
      | Some authorize \<Rightarrow>
          bindA (liftA (execution_artifacts_for e programId (xo_imports opts))) (\<lambda>a.
            let req = (request_for programId transitionName args opts a)\<lparr>xq_priorityFee := JUndef, xq_privateFee := False\<rparr>
            in bindA (log_call e (CallAuthorize req)) (\<lambda>_.
                 case trap_captured (fst (authorize req)) of
                   Inr _ \<Rightarrow> returnA ()
                 | Inl err \<Rightarrow>
                     if isCatchableLocalVmError err \<or> (case err of ThrownTrap cause \<Rightarrow> True | _ \<Rightarrow> False)
                     then throwA (LocalVmExecution programId transitionName err) else throwA (SdkThrew err))))))"

section \<open>Which calls an execution makes\<close>

lemma exec_log_simps [simp]:
  "xw_calls (snd (assertOpen e s)) = xw_calls s" "xw_calls (snd (prepare_devnode e s)) = xw_calls s"
  "xw_calls (snd (getEffectivePm e signer s)) = xw_calls s" "xw_calls (snd (await_outputs e txId p t s)) = xw_calls s"
  by (auto simp: assertOpen_def prepare_devnode_def getEffectivePm_def await_outputs_def bindA_def returnA_def throwA_def liftA_def getA_def
      split: prod.splits sum.splits)

text \<open>A method that appends calls with a property to the log, and the steps before it that make none.\<close>

definition logsA :: "'a exec_act \<Rightarrow> (sdk_call list \<Rightarrow> bool) \<Rightarrow> bool" where
  "logsA m Q \<longleftrightarrow> (\<forall>s r s'. m s = (r, s') \<longrightarrow> (\<exists>calls. xw_calls s' = xw_calls s @ calls \<and> Q calls))"

lemma logsA_quiet:
  assumes "\<And>s. xw_calls (snd (m s)) = xw_calls s" and "Q []" and "\<And>x s t. m s = (Inr x, t) \<Longrightarrow> logsA (f x) Q"
  shows "logsA (bindA m f) Q"
  unfolding logsA_def
proof (intro allI impI)
  fix s r s' assume run: "bindA m f s = (r, s')"
  obtain q t where m: "m s = (q, t)" by fastforce
  then have t: "xw_calls t = xw_calls s" using assms(1) [of s] by simp
  show "\<exists>calls. xw_calls s' = xw_calls s @ calls \<and> Q calls"
  proof (cases q)
    case (Inl err)
    then show ?thesis using run m t assms(2) by (auto simp: bindA_def)
  next
    case (Inr x)
    then have "f x t = (r, s')" using run m by (simp add: bindA_def)
    then show ?thesis using assms(3) m Inr t unfolding logsA_def by metis
  qed
qed

lemma logsA_then_quiet:
  assumes "logsA m Q" and "\<And>x s. xw_calls (snd (f x s)) = xw_calls s"
  shows "logsA (bindA m f) Q"
  unfolding logsA_def
proof (intro allI impI)
  fix s r s' assume run: "bindA m f s = (r, s')"
  obtain q t where m: "m s = (q, t)" by fastforce
  then obtain calls where "xw_calls t = xw_calls s @ calls" "Q calls" using assms(1) unfolding logsA_def by blast
  moreover have "xw_calls s' = xw_calls t" using run m assms(2) by (cases q) (auto simp: bindA_def, metis snd_conv)
  ultimately show "\<exists>calls. xw_calls s' = xw_calls s @ calls \<and> Q calls" by auto
qed

lemma logsA_mono: "logsA m Q \<Longrightarrow> (\<And>l. Q l \<Longrightarrow> R l) \<Longrightarrow> logsA m R"
  unfolding logsA_def by blast

definition sends_with :: "exec_env \<Rightarrow> program_manager \<Rightarrow> string \<Rightarrow> string \<Rightarrow> exec_options \<Rightarrow> exec_request \<Rightarrow> execution_artifacts
    \<Rightarrow> sdk_call list \<Rightarrow> bool" where
  "sends_with e pm p t opts req a calls \<longleftrightarrow>
    calls = []
    \<or> (xe_type e = NetDevnode \<and> \<not> xo_prove opts \<and> (\<exists>build. pm_buildDevnode pm = Some build \<and>
        (calls = [CallBuild req] \<or> (\<exists>tx. calls = [CallBuild req, CallSubmit tx] \<and> fst (build req) = SdkResolves tx))))
    \<or> (\<not> (xe_type e = NetDevnode \<and> \<not> xo_prove opts \<and> pm_buildDevnode pm \<noteq> None) \<and>
        (\<exists>edition keys. calls = [CallExecute req edition keys] \<and> getPersistentExecutionOptions e p t a = Inr (edition, keys)))"

lemma captureSdkCall_Inr: "captureSdkCall ctx outcome = Inr x \<longleftrightarrow> fst outcome = SdkResolves x"
  by (cases "fst outcome") (auto simp: captureSdkCall_def)

lemma broadcast_log: "broadcastTransaction e tx s = (r, s') \<Longrightarrow> xw_calls s' = xw_calls s \<or> xw_calls s' = xw_calls s @ [CallSubmit tx]"
  by (auto simp: broadcastTransaction_def assertOpen_def log_call_def bindA_def getA_def returnA_def throwA_def modifyA_def
      split: if_splits sum.splits jsval.splits)

lemma build_and_broadcast_log:
  assumes "build_and_broadcast e pm p t opts req a s = (r, s')"
  shows "\<exists>calls. xw_calls s' = xw_calls s @ calls \<and> sends_with e pm p t opts req a calls"
proof (cases "if xe_type e = NetDevnode \<and> \<not> xo_prove opts then pm_buildDevnode pm else None")
  case None
  then show ?thesis using assms
    by (auto simp: build_and_broadcast_def Let_def bindA_def liftA_def log_call_def modifyA_def sends_with_def split: sum.splits if_splits)
next
  case (Some build)
  let ?ctx = "\<lparr>sx_operation = OpExecute, sx_programId = p, sx_transitionName = Some t\<rparr>"
  let ?s = "s\<lparr>xw_calls := xw_calls s @ [CallBuild req], xw_now := xw_now s + int (xe_duration e (CallBuild req))\<rparr>"
  have fast: "xe_type e = NetDevnode" "\<not> xo_prove opts" "pm_buildDevnode pm = Some build" using Some by (auto split: if_splits)
  have run: "bindA (liftA (captureSdkCall ?ctx (build req))) (broadcastTransaction e) ?s = (r, s')"
    using assms Some by (simp add: build_and_broadcast_def log_call_def)
  show ?thesis
  proof (cases "captureSdkCall ?ctx (build req)")
    case (Inl err)
    then show ?thesis using run fast by (intro exI [of _ "[CallBuild req]"]) (auto simp: sends_with_def)
  next
    case (Inr tx)
    then have "fst (build req) = SdkResolves tx" by (simp add: captureSdkCall_Inr)
    moreover have "broadcastTransaction e tx ?s = (r, s')" using run Inr by simp
    ultimately show ?thesis using broadcast_log fast unfolding sends_with_def by fastforce
  qed
qed

lemma logsA_run: "logsA (bindA (log_call e c) (\<lambda>_. bindA (liftA r) (\<lambda>x. returnA (g x)))) (\<lambda>calls. calls = [c])"
  by (auto simp: logsA_def log_call_def bindA_def modifyA_def liftA_def returnA_def split: sum.splits)

definition executes :: "exec_env \<Rightarrow> string \<Rightarrow> string \<Rightarrow> string list \<Rightarrow> exec_options \<Rightarrow> sdk_call list \<Rightarrow> bool" where
  "executes e p t args opts calls \<longleftrightarrow> calls = []
    \<or> (\<exists>a pm. execution_artifacts_for e p (xo_imports opts) = Inr a \<and> xe_manager e (effective_signer e (xo_signer opts)) = Inr pm
        \<and> (if xo_local opts then calls = [CallRun (xa_source a) t args (xa_imports a)]
           else sends_with e pm p t opts (request_for p t args opts a) a calls))"

lemma execute_logs: "logsA (execute e p t args opts) (executes e p t args opts)"
  unfolding execute_def
proof (intro logsA_quiet)
  fix pm a s0 s1 s2 s3
  assume pm: "getEffectivePm e (xo_signer opts) s0 = (Inr pm, s1)"
    and a: "liftA (execution_artifacts_for e p (xo_imports opts)) s2 = (Inr a, s3)"
  have pm': "xe_manager e (effective_signer e (xo_signer opts)) = Inr pm"
    using pm by (auto simp: getEffectivePm_def bindA_def sdk_answer_def split: prod.splits sum.splits)
  have a': "execution_artifacts_for e p (xo_imports opts) = Inr a" using a by (simp add: liftA_def)
  let ?req = "request_for p t args opts a"
  show "logsA (let req = ?req in if xo_local opts
      then bindA (log_call e (CallRun (xa_source a) t args (xa_imports a))) (\<lambda>_. bindA (liftA (captureSdkCall
          \<lparr>sx_operation = OpLocal, sx_programId = p, sx_transitionName = Some t\<rparr> (pm_run pm (xa_source a) t args (xa_imports a))))
          (\<lambda>r. returnA \<lparr>cr_outputs = extractLocalExecutionOutputs (xe_ft e) r, cr_rawOutputs = None, cr_txId = None\<rparr>))
      else bindA (build_and_broadcast e pm p t opts req a) (\<lambda>txId. if \<not> xo_awaitConfirmation opts
          then returnA \<lparr>cr_outputs = [], cr_rawOutputs = None, cr_txId = Some txId\<rparr> else await_outputs e txId p t))
      (executes e p t args opts)"
  proof (cases "xo_local opts")
    case True
    have "logsA (bindA (log_call e (CallRun (xa_source a) t args (xa_imports a))) (\<lambda>_. bindA (liftA (captureSdkCall
          \<lparr>sx_operation = OpLocal, sx_programId = p, sx_transitionName = Some t\<rparr> (pm_run pm (xa_source a) t args (xa_imports a))))
          (\<lambda>r. returnA \<lparr>cr_outputs = extractLocalExecutionOutputs (xe_ft e) r, cr_rawOutputs = None, cr_txId = None\<rparr>)))
          (executes e p t args opts)"
      by (rule logsA_mono [OF logsA_run]) (use a' pm' True in \<open>auto simp: executes_def\<close>)
    then show ?thesis using True by (simp add: Let_def)
  next
    case False
    have sent: "sends_with e pm p t opts ?req a l \<Longrightarrow> executes e p t args opts l" for l
      using a' pm' False by (simp add: executes_def)
    have "logsA (build_and_broadcast e pm p t opts ?req a) (sends_with e pm p t opts ?req a)"
      using build_and_broadcast_log unfolding logsA_def by blast
    from logsA_mono [OF this sent]
    have "logsA (bindA (build_and_broadcast e pm p t opts ?req a) (\<lambda>txId. if \<not> xo_awaitConfirmation opts
          then returnA \<lparr>cr_outputs = [], cr_rawOutputs = None, cr_txId = Some txId\<rparr> else await_outputs e txId p t))
      (executes e p t args opts)"
      by (rule logsA_then_quiet) (auto simp: returnA_def)
    then show ?thesis using False by (simp add: Let_def)
  qed
qed (simp_all add: executes_def liftA_def)

text \<open>
  What a successful execution did: the calls it made, which of them were answered, and how the
  result follows from the answer. A transaction that is sent is either proved and sent by the SDK,
  or built by the devnode's fast path and then submitted here.
\<close>

definition tx_id_of :: "exec_env \<Rightarrow> jsval \<Rightarrow> string" where
  "tx_id_of e v = (case v of JStr s \<Rightarrow> filter (\<lambda>c. c \<noteq> dquote) s | _ \<Rightarrow> js_String (xe_ft e) v)"

definition built_and_submitted :: "exec_env \<Rightarrow> program_manager \<Rightarrow> exec_request \<Rightarrow> sdk_call list \<Rightarrow> string \<Rightarrow> bool" where
  "built_and_submitted e pm req calls txId \<longleftrightarrow> (\<exists>build tx v. pm_buildDevnode pm = Some build \<and> fst (build req) = SdkResolves tx
    \<and> calls = [CallBuild req, CallSubmit tx] \<and> xe_submit e tx = Inr v \<and> txId = tx_id_of e v)"

definition proved_and_sent :: "exec_env \<Rightarrow> program_manager \<Rightarrow> string \<Rightarrow> string \<Rightarrow> execution_artifacts \<Rightarrow> exec_request \<Rightarrow> sdk_call list \<Rightarrow> string \<Rightarrow> bool" where
  "proved_and_sent e pm p t a req calls txId \<longleftrightarrow> (\<exists>edition keys. getPersistentExecutionOptions e p t a = Inr (edition, keys)
    \<and> calls = [CallExecute req edition keys] \<and> fst (pm_execute pm req edition keys) = SdkResolves txId)"

definition sent_as :: "exec_env \<Rightarrow> program_manager \<Rightarrow> string \<Rightarrow> string \<Rightarrow> exec_options \<Rightarrow> execution_artifacts \<Rightarrow> exec_request \<Rightarrow> sdk_call list \<Rightarrow> string \<Rightarrow> bool" where
  "sent_as e pm p t opts a req calls txId \<longleftrightarrow>
    (if xe_type e = NetDevnode \<and> \<not> xo_prove opts \<and> pm_buildDevnode pm \<noteq> None
     then built_and_submitted e pm req calls txId else proved_and_sent e pm p t a req calls txId)"

definition ran_locally :: "exec_env \<Rightarrow> program_manager \<Rightarrow> string \<Rightarrow> string list \<Rightarrow> execution_artifacts \<Rightarrow> sdk_call list \<Rightarrow> call_result \<Rightarrow> bool" where
  "ran_locally e pm t args a calls result \<longleftrightarrow> calls = [CallRun (xa_source a) t args (xa_imports a)]
    \<and> (\<exists>r. fst (pm_run pm (xa_source a) t args (xa_imports a)) = SdkResolves r
        \<and> result = \<lparr>cr_outputs = extractLocalExecutionOutputs (xe_ft e) r, cr_rawOutputs = None, cr_txId = None\<rparr>)"

definition executed :: "exec_env \<Rightarrow> string \<Rightarrow> string \<Rightarrow> string list \<Rightarrow> exec_options \<Rightarrow> sdk_call list \<Rightarrow> call_result \<Rightarrow> bool" where
  "executed e p t args opts calls result \<longleftrightarrow>
    (\<exists>a pm. execution_artifacts_for e p (xo_imports opts) = Inr a \<and> xe_manager e (effective_signer e (xo_signer opts)) = Inr pm
      \<and> (if xo_local opts then ran_locally e pm t args a calls result
         else \<exists>txId. sent_as e pm p t opts a (request_for p t args opts a) calls txId \<and> cr_txId result = Some txId
           \<and> (xo_awaitConfirmation opts \<or> cr_outputs result = [])))"

lemma assertOpen_Inr: "assertOpen e s = (Inr x, s') \<longleftrightarrow> s' = s \<and> \<not> xe_closed e (xw_now s)"
  by (auto simp: assertOpen_def bindA_def getA_def returnA_def throwA_def)

lemma log_call_Inr: "log_call e c s = (Inr x, s') \<longleftrightarrow> s' = s\<lparr>xw_calls := xw_calls s @ [c], xw_now := xw_now s + int (xe_duration e c)\<rparr>"
  by (auto simp: log_call_def modifyA_def)

lemma liftA_Inr: "liftA r s = (Inr x, s') \<longleftrightarrow> r = Inr x \<and> s' = s"
  by (auto simp: liftA_def)

lemma submitted_once:
  assumes "broadcastTransaction e tx s = (Inr txId, s')"
  shows "xw_calls s' = xw_calls s @ [CallSubmit tx] \<and> (\<exists>v. xe_submit e tx = Inr v \<and> txId = tx_id_of e v)"
  using assms
  by (auto simp: broadcastTransaction_def bindA_Inr assertOpen_Inr log_call_Inr throwA_def returnA_def tx_id_of_def
      split: sum.splits jsval.splits)

lemma build_and_broadcast_sends:
  assumes "build_and_broadcast e pm p t opts req a s = (Inr txId, s')"
  shows "\<exists>calls. xw_calls s' = xw_calls s @ calls \<and> sent_as e pm p t opts a req calls txId"
proof (cases "if xe_type e = NetDevnode \<and> \<not> xo_prove opts then pm_buildDevnode pm else None")
  case None
  then have slow: "\<not> (xe_type e = NetDevnode \<and> \<not> xo_prove opts \<and> pm_buildDevnode pm \<noteq> None)" by (auto split: if_splits)
  obtain edition keys where k: "getPersistentExecutionOptions e p t a = Inr (edition, keys)"
    "xw_calls s' = xw_calls s @ [CallExecute req edition keys]" "fst (pm_execute pm req edition keys) = SdkResolves txId"
    using assms None by (auto simp: build_and_broadcast_def Let_def bindA_Inr liftA_Inr log_call_Inr captureSdkCall_Inr)
  then have "proved_and_sent e pm p t a req [CallExecute req edition keys] txId" by (simp add: proved_and_sent_def)
  then show ?thesis using k(2) slow by (auto simp: sent_as_def)
next
  case (Some build)
  then have fast: "xe_type e = NetDevnode" "\<not> xo_prove opts" "pm_buildDevnode pm = Some build" by (auto split: if_splits)
  obtain tx u where tx: "fst (build req) = SdkResolves tx" and u: "xw_calls u = xw_calls s @ [CallBuild req]"
    and b: "broadcastTransaction e tx u = (Inr txId, s')"
  proof -
    let ?u = "s\<lparr>xw_calls := xw_calls s @ [CallBuild req], xw_now := xw_now s + int (xe_duration e (CallBuild req))\<rparr>"
    obtain tx where "fst (build req) = SdkResolves tx" "broadcastTransaction e tx ?u = (Inr txId, s')"
      using assms Some by (auto simp: build_and_broadcast_def Let_def bindA_Inr liftA_Inr log_call_Inr captureSdkCall_Inr)
    then show thesis using that [of tx ?u] by simp
  qed
  then have "built_and_submitted e pm req [CallBuild req, CallSubmit tx] txId"
    using submitted_once [OF b] fast(3) by (auto simp: built_and_submitted_def)
  then show ?thesis using submitted_once [OF b] u fast by (auto simp: sent_as_def)
qed

lemma await_txId: "await_outputs e txId p t s = (Inr r, s') \<Longrightarrow> cr_txId r = Some txId \<and> xw_calls s' = xw_calls s"
  by (auto simp: await_outputs_def dest!: outputs_name_transaction split: prod.splits sum.splits)

lemma execute_succeeds:
  assumes "execute e p t args opts s = (Inr result, s')"
  shows "\<exists>calls. xw_calls s' = xw_calls s @ calls \<and> executed e p t args opts calls result"
proof -
  obtain pm a u where pm: "xe_manager e (effective_signer e (xo_signer opts)) = Inr pm"
    and a: "execution_artifacts_for e p (xo_imports opts) = Inr a" and u: "xw_calls u = xw_calls s"
    and run: "(let req = request_for p t args opts a in if xo_local opts
      then bindA (log_call e (CallRun (xa_source a) t args (xa_imports a))) (\<lambda>_. bindA (liftA (captureSdkCall
          \<lparr>sx_operation = OpLocal, sx_programId = p, sx_transitionName = Some t\<rparr> (pm_run pm (xa_source a) t args (xa_imports a))))
          (\<lambda>r. returnA \<lparr>cr_outputs = extractLocalExecutionOutputs (xe_ft e) r, cr_rawOutputs = None, cr_txId = None\<rparr>))
      else bindA (build_and_broadcast e pm p t opts req a) (\<lambda>txId. if \<not> xo_awaitConfirmation opts
          then returnA \<lparr>cr_outputs = [], cr_rawOutputs = None, cr_txId = Some txId\<rparr> else await_outputs e txId p t)) u = (Inr result, s')"
  proof -
    have dev: "s2 = s1" if "prepare_devnode e s1 = (Inr x, s2)" for s1 s2 x
      using that by (auto simp: prepare_devnode_def liftA_def returnA_def split: if_splits)
    have man: "s2 = s1 \<and> xe_manager e (effective_signer e (xo_signer opts)) = Inr pm" if "getEffectivePm e (xo_signer opts) s1 = (Inr pm, s2)" for s1 s2 pm
      using that by (auto simp: getEffectivePm_def bindA_Inr assertOpen_Inr liftA_Inr sdk_answer_def split: sum.splits)
    show thesis
      using assms that unfolding execute_def by (auto simp: bindA_Inr [of "assertOpen e"] bindA_Inr [of "prepare_devnode e"]
          bindA_Inr [of "getEffectivePm e _"] bindA_Inr [of "liftA (execution_artifacts_for _ _ _)"] assertOpen_Inr liftA_Inr dest!: dev man)
  qed
  show ?thesis
  proof (cases "xo_local opts")
    case True
    then have "ran_locally e pm t args a [CallRun (xa_source a) t args (xa_imports a)] result
        \<and> xw_calls s' = xw_calls s @ [CallRun (xa_source a) t args (xa_imports a)]"
      using run u by (auto simp: ran_locally_def Let_def bindA_Inr liftA_Inr log_call_Inr captureSdkCall_Inr returnA_def)
    then show ?thesis using True pm a by (auto simp: executed_def)
  next
    case False
    then obtain txId v where b: "build_and_broadcast e pm p t opts (request_for p t args opts a) a u = (Inr txId, v)"
      and rest: "(if \<not> xo_awaitConfirmation opts then returnA \<lparr>cr_outputs = [], cr_rawOutputs = None, cr_txId = Some txId\<rparr>
          else await_outputs e txId p t) v = (Inr result, s')"
      using run by (auto simp: Let_def bindA_Inr)
    obtain calls where calls: "xw_calls v = xw_calls s @ calls" "sent_as e pm p t opts a (request_for p t args opts a) calls txId"
      using build_and_broadcast_sends [OF b] u by auto
    have "cr_txId result = Some txId \<and> xw_calls s' = xw_calls v \<and> (xo_awaitConfirmation opts \<or> cr_outputs result = [])"
      using rest await_txId by (auto simp: returnA_def split: if_splits)
    then show ?thesis using False pm a calls by (auto simp: executed_def)
  qed
qed

text \<open>
  C8: what one execution asks of the SDK. When it succeeds it made exactly one of three requests,
  settled by its options and what the SDK offers: it ran the transition locally; or, without proving
  on a devnode whose SDK has the fast builder, it built a transaction and submitted that transaction
  and no other, once; or it let the SDK prove and send. The result is the answer to that request: the
  local outputs, or the id of the transaction that was sent. When it fails, the requests it made are
  the beginning of one of these, possibly none. Every request carries the source and the imports that
  were resolved for the program.
\<close>

theorem execute_calls_sound:
  assumes "execute e p t args opts s = (res, s')"
  shows "\<exists>calls. xw_calls s' = xw_calls s @ calls
    \<and> (case res of Inr result \<Rightarrow> executed e p t args opts calls result | Inl err \<Rightarrow> executes e p t args opts calls)"
  using execute_logs [of e p t args opts] execute_succeeds assms unfolding logsA_def by (cases res) auto

text \<open>What a sidecar records of a pair of keys: they are those of this source, these imports, this transition.\<close>

definition sidecar_vouches :: "exec_env \<Rightarrow> execution_artifacts \<Rightarrow> string \<Rightarrow> key_pair \<Rightarrow> bool" where
  "sidecar_vouches e a t keys \<longleftrightarrow> (\<exists>sidecar fns entry pref vref. xa_sidecar a = Some sidecar
    \<and> ka_functions sidecar = Some fns \<and> entry \<in> set fns \<and> kn_transition entry = t
    \<and> ka_sourceHash sidecar = xa_sourceHash a \<and> ka_importsHash sidecar = xa_importsHash a
    \<and> kn_prover entry = Some pref \<and> kn_verifier entry = Some vref
    \<and> fingerprintBytes (ke_sha (xe_keys e)) (kp_proving keys) = kr_fingerprint pref
    \<and> fingerprintBytes (ke_sha (xe_keys e)) (kp_verifying keys) = kr_fingerprint vref)"

lemma sidecar_vouches: "readSidecarKeys (xe_keys e) fs (Some a) t = Inr (Some keys) \<Longrightarrow> sidecar_vouches e a t keys"
  using sidecar_keys_verified unfolding sidecar_vouches_def by fastforce

lemma persistent_keys:
  assumes "getPersistentExecutionOptions e p t a = Inr (edition, Some keys)"
  shows "\<exists>cp. xe_keyCachePath e = Some cp \<and> (readSidecarKeys (xe_keys e) (xe_files e) (Some a) t = Inr (Some keys)
    \<or> readRuntimeKeys (xe_keys e) (xe_files e) cp (execution_identity e p t a) = Some keys)"
proof -
  have t: "ki_transition (execution_identity e p t a) = t" by (simp add: execution_identity_def buildRuntimeKeyIdentity_def)
  let ?side = "readSidecarKeys (xe_keys e) (xe_files e) (Some a) t"
  let ?runtime = "\<lambda>cp. readRuntimeKeys (xe_keys e) (xe_files e) cp (execution_identity e p t a)"
  let ?found = "\<lambda>cp. findCachedExecutionKeys (xe_keys e) (xe_files e) cp (execution_identity e p t a) (Some a)"
  obtain cp src where cp: "xe_keyCachePath e = Some cp" and found: "?found cp = Inr (Some (src, keys))"
    using assms by (auto simp: getPersistentExecutionOptions_def Let_def split: option.splits sum.splits)
  have "?side = Inr (Some keys) \<or> ?runtime cp = Some keys"
  proof (cases ?side)
    case (Inr hit)
    then show ?thesis using found by (cases hit) (auto simp: findCachedExecutionKeys_def t)
  qed (use found in \<open>simp add: findCachedExecutionKeys_def t\<close>)
  then show ?thesis using cp by blast
qed

text \<open>
  C6: an execution proves only with keys of exactly what it executes: the keys it passes to the SDK are
  recorded in the sidecar of the very source and imports it sends, or were written to the runtime cache
  for that source, those imports, this network, program, transition, edition and SDK, whatever writes of
  the cache crashed before.
\<close>

theorem execution_keys_genuine:
  assumes "execute e p t args opts s = (res, s')"
    and call: "xw_calls s' = xw_calls s @ [CallExecute req edition (Some keys)]"
    and cache: "xe_keyCachePath e = Some cp" "cache_history (xe_keys e) cp ws (xe_files e)"
    and "\<And>w. w \<in> set ws \<Longrightarrow> prints_back (xe_keys e) w" and "no_collision (xe_keys e) ws"
  shows "\<exists>a. execution_artifacts_for e p (xo_imports opts) = Inr a \<and> req = request_for p t args opts a
    \<and> (sidecar_vouches e a t keys \<or> (\<exists>w \<in> set ws. cw_identity w = execution_identity e p t a \<and> cw_keys w = keys))"
proof -
  have "executes e p t args opts [CallExecute req edition (Some keys)]"
    using execute_logs [of e p t args opts] assms(1) call unfolding logsA_def by fastforce
  then obtain a where a: "execution_artifacts_for e p (xo_imports opts) = Inr a" "req = request_for p t args opts a"
      "getPersistentExecutionOptions e p t a = Inr (edition, Some keys)"
    by (auto simp: executes_def sends_with_def split: if_splits)
  from persistent_keys [OF a(3)] consider "readSidecarKeys (xe_keys e) (xe_files e) (Some a) t = Inr (Some keys)"
    | "readRuntimeKeys (xe_keys e) (xe_files e) cp (execution_identity e p t a) = Some keys" using cache(1) by auto
  then show ?thesis
  proof cases
    case 1
    then show ?thesis using a(1,2) sidecar_vouches by blast
  next
    case 2
    from runtime_keys_written [OF cache(2) this assms(5,6)] show ?thesis using a(1,2) by blast
  qed
qed

section \<open>An execution on a devnode\<close>

definition ex_exec_keys :: key_env where
  "ex_exec_keys = ex_key_env\<lparr>ke_sha := (\<lambda>s. replicate 64 (if s = ''PK'' then CHR ''a'' else if s = ''{}'' then CHR ''c'' else CHR ''b''))\<rparr>"

definition ex_exec_write :: cache_write where
  "ex_exec_write = \<lparr>cw_identity = buildRuntimeKeyIdentity ''testnet'' ''t.aleo'' ''mint'' None
       (replicate 64 (CHR ''b'')) (replicate 64 (CHR ''c'')) ''w'',
     cw_keys = \<lparr>kp_proving = ''PK'', kp_verifying = ''VK''\<rparr>, cw_diagnostics = None\<rparr>"

definition ex_exec_cache :: key_env where
  "ex_exec_cache = ex_exec_keys\<lparr>ke_json := (\<lambda>s. if s = ''META'' then Some (runtime_json (write_meta ex_exec_keys ex_exec_write)) else None)\<rparr>"

definition ex_exec_files :: files where
  "ex_exec_files = file_runs (snd (writeCachedExecutionKeys ex_exec_cache ''7'' ex_exec_write ''/cache''))
     [(''/art/t.aleo/main.aleo'', ''program t.aleo;'')]"

definition ex_manager :: program_manager where
  "ex_manager = \<lparr>pm_run = (\<lambda>_ _ _ _. (SdkResolves LocalOther, [])), pm_buildDevnode = Some (\<lambda>_. (SdkResolves ''TX'', [])),
     pm_execute = (\<lambda>_ _ _. (SdkResolves ''at1'', [])), pm_authorize = None\<rparr>"

definition ex_exec_env :: exec_env where
  "ex_exec_env = \<lparr>xe_json = (\<lambda>_. None), xe_ft = (\<lambda>_. []), xe_node = \<lparr>nd_answer = (\<lambda>_ _ _. None), nd_latency = (\<lambda>_ _. 1), nd_drift = (\<lambda>_. 0)\<rparr>,
     xe_settings = \<lparr>cs_endpoint = ''http'', cs_networkId = ''testnet'', cs_apiKey = None\<rparr>, xe_type = NetDevnode,
     xe_privateKey = Some ''key'', xe_closed = (\<lambda>_. False), xe_keys = ex_exec_cache, xe_files = ex_exec_files,
     xe_artifactsDir = Some ''/art'', xe_home = ''/home'', xe_projectRoot = ''/p'', xe_executionImports = [],
     xe_keyCachePath = Some ''/cache'', xe_wasmHash = ''w'', xe_prepareDevnode = Inr (), xe_manager = (\<lambda>_. Inr ex_manager),
     xe_client = \<lparr>nc_mappingValue = (\<lambda>_ _ _. Inl ''404''), nc_program = (\<lambda>_. Inl ''404''), nc_edition = None, nc_checksum = (\<lambda>_. None), nc_height = Inl ''404''\<rparr>,
     xe_submit = (\<lambda>_. Inr (JStr ''at1'')), xe_loadKeys = (\<lambda>_. Inr ()), xe_duration = (\<lambda>_. 1), xe_depth = 3\<rparr>"

definition ex_options :: "bool \<Rightarrow> exec_options" where
  "ex_options prove = \<lparr>xo_local = False, xo_fee = JUndef, xo_privateFee = False, xo_signer = None, xo_prove = prove,
     xo_imports = [], xo_awaitConfirmation = False\<rparr>"

definition ex_run :: "bool \<Rightarrow> (connection_error + call_result) \<times> exec_world" where
  "ex_run prove = execute ex_exec_env ''t.aleo'' ''mint'' [''1u64''] (ex_options prove) \<lparr>xw_now = 0, xw_calls = []\<rparr>"

fun call_name :: "sdk_call \<Rightarrow> string" where
  "call_name (CallRun _ _ _ _) = ''run''"
| "call_name (CallBuild _) = ''build''"
| "call_name (CallExecute _ edition keys) = (case keys of None \<Rightarrow> ''execute'' | Some k \<Rightarrow> kp_proving k @ kp_verifying k)"
| "call_name (CallAuthorize _) = ''authorize''"
| "call_name (CallSubmit tx) = tx"

lemma ex_runs:
  "map call_name (xw_calls (snd (ex_run False))) = [''build'', ''TX'']"
  "case xw_calls (snd (ex_run True)) of [CallExecute _ None (Some k)] \<Rightarrow> kp_proving k = ''PK'' \<and> kp_verifying k = ''VK'' | _ \<Rightarrow> False"
  by code_simp+

lemma ex_prove_call: "\<exists>req. xw_calls (snd (ex_run True)) = [] @ [CallExecute req None (Some (cw_keys ex_exec_write))]"
proof -
  obtain c cs where calls: "xw_calls (snd (ex_run True)) = c # cs" using ex_runs(2) by (auto split: list.splits)
  have "cs = []" using ex_runs(2) unfolding calls by (cases cs) (auto split: sdk_call.splits option.splits)
  then show ?thesis using ex_runs(2) unfolding calls
    by (auto simp: ex_exec_write_def split: sdk_call.splits option.splits)
qed

theorem execute_calls_sound_witness:
  "(case fst (ex_run False) of Inr result \<Rightarrow> executed ex_exec_env ''t.aleo'' ''mint'' [''1u64''] (ex_options False) (xw_calls (snd (ex_run False))) result
      \<and> cr_txId result = Some ''at1'' | Inl err \<Rightarrow> False)
    \<and> map call_name (xw_calls (snd (ex_run False))) = [''build'', ''TX'']"
proof -
  have ok: "case fst (ex_run False) of Inr result \<Rightarrow> cr_txId result = Some ''at1'' | Inl err \<Rightarrow> False" by code_simp
  have "execute ex_exec_env ''t.aleo'' ''mint'' [''1u64''] (ex_options False) \<lparr>xw_now = 0, xw_calls = []\<rparr>
      = (fst (ex_run False), snd (ex_run False))" by (simp add: ex_run_def)
  from execute_calls_sound [OF this] show ?thesis using ex_runs(1) ok by (auto split: sum.splits)
qed

theorem execution_keys_genuine_witness:
  "\<exists>a. execution_artifacts_for ex_exec_env ''t.aleo'' [] = Inr a
    \<and> (sidecar_vouches ex_exec_env a ''mint'' \<lparr>kp_proving = ''PK'', kp_verifying = ''VK''\<rparr>
      \<or> cw_identity ex_exec_write = execution_identity ex_exec_env ''t.aleo'' ''mint'' a)"
proof -
  obtain req where call: "xw_calls (snd (ex_run True)) = [] @ [CallExecute req None (Some (cw_keys ex_exec_write))]"
    using ex_prove_call by blast
  have run: "execute ex_exec_env ''t.aleo'' ''mint'' [''1u64''] (ex_options True) \<lparr>xw_now = 0, xw_calls = []\<rparr>
      = (fst (ex_run True), snd (ex_run True))" by (simp add: ex_run_def)
  let ?disk = "[(''/art/t.aleo/main.aleo'', ''program t.aleo;'')] :: files"
  have crash: "file_crash (snd (writeCachedExecutionKeys ex_exec_cache ''7'' ex_exec_write ''/cache'')) ?disk ex_exec_files"
    unfolding ex_exec_files_def by (rule file_crash.between_ops [where rest = "[]"]) simp
  have empty: "om_get ?disk (cache_file ex_exec_cache ''/cache'' i n) = None" if "n \<in> set cache_entries" for i n
  proof -
    have "cache_file ex_exec_cache ''/cache'' i n \<noteq> ''/art/t.aleo/main.aleo''"
    proof
      assume "cache_file ex_exec_cache ''/cache'' i n = ''/art/t.aleo/main.aleo''"
      then have "n = path_basename ''/art/t.aleo/main.aleo''"
        using cache_entry_name [OF that] basename_join unfolding cache_file_def by metis
      also have "\<dots> = ''main.aleo''" by code_simp
      finally show False using that by (simp add: cache_entries_def)
    qed
    then show ?thesis by simp
  qed
  have history: "cache_history ex_exec_cache ''/cache'' [ex_exec_write] ex_exec_files"
    by (rule cache_history.written [OF cache_history.fresh _ crash]) (simp_all only: empty, simp)
  have prints: "prints_back ex_exec_cache w" if "w \<in> set [ex_exec_write]" for w
    using that by (simp add: prints_back_def ex_exec_cache_def ex_exec_keys_def ex_key_env_def write_meta_def)
  have distinct: "no_collision ex_exec_cache [ex_exec_write]"
    by (simp add: no_collision_def inj_on_def ex_exec_write_def ex_exec_cache_def ex_exec_keys_def ex_key_env_def fingerprintBytes_def)
  have e: "xe_keys ex_exec_env = ex_exec_cache" "xe_keyCachePath ex_exec_env = Some ''/cache''" "xe_files ex_exec_env = ex_exec_files"
    "xo_imports (ex_options True) = []" by (simp_all add: ex_exec_env_def ex_options_def)
  have "\<exists>a. execution_artifacts_for ex_exec_env ''t.aleo'' (xo_imports (ex_options True)) = Inr a
      \<and> req = request_for ''t.aleo'' ''mint'' [''1u64''] (ex_options True) a
      \<and> (sidecar_vouches ex_exec_env a ''mint'' (cw_keys ex_exec_write)
        \<or> (\<exists>w \<in> set [ex_exec_write]. cw_identity w = execution_identity ex_exec_env ''t.aleo'' ''mint'' a \<and> cw_keys w = cw_keys ex_exec_write))"
    by (rule execution_keys_genuine [OF run _ e(2)]) (use call history prints distinct in \<open>simp_all add: e\<close>)
  then show ?thesis by (auto simp: e(4)) (simp_all add: ex_exec_write_def)
qed

end
