(* ===== verification/SdkObjects.thy ===== *)
theory SdkObjects imports Prelude "HOL-Library.Multiset" begin

text \<open>
  The SDK objects of a connection (\<^verbatim>\<open>packages/network/src/connection.ts\<close>, \<^verbatim>\<open>getSdkObjects\<close>,
  \<^verbatim>\<open>getEffectivePm\<close> and \<^verbatim>\<open>close\<close>): the default objects, created lazily and once, and those of
  other signers, cached by private key. What matters about them is the account each holds, a
  private key in WASM memory that has to be released. Accounts are numbered as the creations they
  were constructed in settle; a method is split into steps at its awaits. A creation
  (\<^verbatim>\<open>createSdkObjects\<close>, \<^verbatim>\<open>createSignerSdkObjects\<close> of \<^verbatim>\<open>sdk-adapter.ts\<close>) may fail before or after it
  constructed its account, and drops the account then without destroying it.
\<close>

section \<open>State\<close>

datatype init_promise = NoInit | InitPending | InitResolved | InitRejected

record sdk_objects =
  so_closed :: bool
  so_default :: "nat option"
  so_init :: init_promise
  so_signers :: "(string, nat) omap"
  so_inflight :: "(string, nat) omap"
  so_creating :: "(nat \<times> string) list"
  so_next :: nat
  so_created :: nat
  so_destroyed :: "nat list"
  so_leaked :: "nat list"
  so_served :: bool
  so_closes :: nat

definition fresh_objects :: sdk_objects where
  "fresh_objects = \<lparr>so_closed = False, so_default = None, so_init = NoInit, so_signers = [], so_inflight = [],
     so_creating = [], so_next = 0, so_created = 0, so_destroyed = [], so_leaked = [], so_served = False, so_closes = 0\<rparr>"

definition destroyAccounts :: "nat list \<Rightarrow> sdk_objects \<Rightarrow> sdk_objects" where
  "destroyAccounts accounts s = s\<lparr>so_destroyed := so_destroyed s @ accounts\<rparr>"

definition new_account :: "sdk_objects \<Rightarrow> nat \<times> sdk_objects" where
  "new_account s = (so_created s, s\<lparr>so_created := so_created s + 1\<rparr>)"

section \<open>Steps\<close>

datatype objects_answer = ObjectsClosed | ObjectsReady nat | ObjectsAwait | ObjectsFailed

text \<open>\<^verbatim>\<open>getSdkObjects\<close> up to its await: the promise of a failed creation stays.\<close>

definition getSdkObjects :: "sdk_objects \<Rightarrow> objects_answer \<times> sdk_objects" where
  "getSdkObjects s =
    (if so_closed s then (ObjectsClosed, s)
     else (case so_default s of
         Some a \<Rightarrow> (ObjectsReady a, s)
       | None \<Rightarrow> (case so_init s of
           NoInit \<Rightarrow> (ObjectsAwait, s\<lparr>so_init := InitPending\<rparr>)
         | InitPending \<Rightarrow> (ObjectsAwait, s)
         | _ \<Rightarrow> (ObjectsFailed, s))))"

text \<open>What a failed creation leaves: its account, when it was constructed already.\<close>

definition drop_account :: "bool \<Rightarrow> sdk_objects \<Rightarrow> sdk_objects" where
  "drop_account constructed s =
    (if constructed then (case new_account s of (a, s') \<Rightarrow> s'\<lparr>so_leaked := so_leaked s' @ [a]\<rparr>) else s)"

text \<open>\<^verbatim>\<open>createSdkObjects\<close> resolves, with a new account, or rejects.\<close>

definition default_created :: "sdk_objects \<Rightarrow> sdk_objects" where
  "default_created s =
    (case new_account s of (a, s') \<Rightarrow>
      if so_closed s' then destroyAccounts [a] (s'\<lparr>so_init := InitRejected\<rparr>)
      else s'\<lparr>so_default := Some a, so_init := InitResolved, so_served := True\<rparr>)"

definition default_failed :: "bool \<Rightarrow> sdk_objects \<Rightarrow> sdk_objects" where
  "default_failed constructed s = (drop_account constructed s)\<lparr>so_init := InitRejected\<rparr>"

text \<open>\<^verbatim>\<open>getEffectivePm\<close> for another signer, once it has the default objects; it may run on after a close.\<close>

definition getSignerObjects :: "string \<Rightarrow> sdk_objects \<Rightarrow> objects_answer \<times> sdk_objects" where
  "getSignerObjects key s =
    (case om_get (so_signers s) key of
      Some a \<Rightarrow> (ObjectsReady a, s)
    | None \<Rightarrow> (case om_get (so_inflight s) key of
        Some c \<Rightarrow> (ObjectsAwait, s)
      | None \<Rightarrow> (ObjectsAwait, s\<lparr>so_inflight := om_set key (so_next s) (so_inflight s),
            so_creating := so_creating s @ [(so_next s, key)], so_next := so_next s + 1\<rparr>)))"

definition finish_creation :: "nat \<Rightarrow> sdk_objects \<Rightarrow> sdk_objects" where
  "finish_creation c s = s\<lparr>so_creating := filter (\<lambda>(i, k). i \<noteq> c) (so_creating s)\<rparr>"

definition signer_failed :: "bool \<Rightarrow> nat \<Rightarrow> string \<Rightarrow> sdk_objects \<Rightarrow> sdk_objects" where
  "signer_failed constructed c key s = (drop_account constructed (finish_creation c s))\<lparr>so_inflight := om_delete key (so_inflight s)\<rparr>"

definition signer_created :: "nat \<Rightarrow> string \<Rightarrow> sdk_objects \<Rightarrow> sdk_objects" where
  "signer_created c key s =
    (case new_account (finish_creation c s) of (a, s') \<Rightarrow>
      if so_closed s' then (destroyAccounts [a] s')\<lparr>so_inflight := om_delete key (so_inflight s')\<rparr>
      else s'\<lparr>so_signers := om_set key a (so_signers s'), so_inflight := om_delete key (so_inflight s')\<rparr>)"

text \<open>\<^verbatim>\<open>close\<close> up to its await, and what follows once the pending promise has settled.\<close>

definition close_begin :: "sdk_objects \<Rightarrow> sdk_objects" where
  "close_begin s =
    (let s1 = destroyAccounts (map snd (so_signers s)) (s\<lparr>so_closed := True\<rparr>);
         s2 = s1\<lparr>so_signers := [], so_inflight := []\<rparr>
     in case so_default s2 of
          Some a \<Rightarrow> (destroyAccounts [a] s2)\<lparr>so_default := None, so_init := NoInit\<rparr>
        | None \<Rightarrow> if so_init s2 = NoInit then s2 else s2\<lparr>so_closes := so_closes s2 + 1\<rparr>)"

definition close_end :: "sdk_objects \<Rightarrow> sdk_objects" where
  "close_end s = s\<lparr>so_closes := so_closes s - 1, so_default := None, so_init := NoInit\<rparr>"

inductive objects_step :: "sdk_objects \<Rightarrow> sdk_objects \<Rightarrow> bool" where
  request: "objects_step s (snd (getSdkObjects s))"
| created: "so_init s = InitPending \<Longrightarrow> objects_step s (default_created s)"
| failed: "so_init s = InitPending \<Longrightarrow> objects_step s (default_failed constructed s)"
| signer: "so_served s \<Longrightarrow> objects_step s (snd (getSignerObjects key s))"
| signer_ok: "(c, key) \<in> set (so_creating s) \<Longrightarrow> objects_step s (signer_created c key s)"
| signer_no: "(c, key) \<in> set (so_creating s) \<Longrightarrow> objects_step s (signer_failed constructed c key s)"
| close: "objects_step s (close_begin s)"
| closed_now: "0 < so_closes s \<Longrightarrow> so_init s \<noteq> InitPending \<Longrightarrow> objects_step s (close_end s)"

inductive objects_reachable :: "sdk_objects \<Rightarrow> bool" where
  initial: "objects_reachable fresh_objects"
| advance: "objects_reachable s \<Longrightarrow> objects_step s s' \<Longrightarrow> objects_reachable s'"

inductive_cases objects_stepE: "objects_step s s'"

section \<open>Accounts\<close>

text \<open>
  The accounts in use are the default and the cached signers'. Every account that was constructed is
  in use, or was destroyed, once, or was dropped by the creation that failed; the closed connection
  uses none.
\<close>

definition in_use :: "sdk_objects \<Rightarrow> nat list" where
  "in_use s = (case so_default s of None \<Rightarrow> [] | Some a \<Rightarrow> [a]) @ map snd (so_signers s)"

definition accounts_accounted :: "sdk_objects \<Rightarrow> bool" where
  "accounts_accounted s \<longleftrightarrow> mset (in_use s) + mset (so_destroyed s) + mset (so_leaked s) = mset [0..<so_created s]"

definition objects_inv :: "sdk_objects \<Rightarrow> bool" where
  "objects_inv s \<longleftrightarrow> accounts_accounted s
     \<and> (if so_closed s then so_default s = None \<and> so_signers s = [] else so_destroyed s = [] \<and> so_closes s = 0)
     \<and> (so_default s \<noteq> None \<longleftrightarrow> so_init s = InitResolved)
     \<and> distinct (om_keys (so_signers s)) \<and> distinct (map fst (so_creating s))
     \<and> (\<forall>(c, k) \<in> set (so_creating s). c < so_next s \<and> (\<not> so_closed s \<longrightarrow> om_get (so_inflight s) k = Some c))
     \<and> (\<forall>k. \<not> so_closed s \<longrightarrow> om_has (so_signers s) k \<longrightarrow> \<not> om_has (so_inflight s) k)"

lemma mset_set_upto_Suc [simp]: "mset_set {0..<Suc n} = add_mset n (mset_set {0..<n})"
  by (simp add: atLeastLessThanSuc)

lemma om_set_new_values: "\<not> om_has m k \<Longrightarrow> map snd (om_set k v m) = map snd m @ [v]"
  by (induction m) (auto simp: om_has_def)

lemma inv_request: "objects_inv s \<Longrightarrow> objects_inv (snd (getSdkObjects s))"
  by (auto simp: objects_inv_def getSdkObjects_def accounts_accounted_def in_use_def split: option.split init_promise.split)

lemma inv_created: "objects_inv s \<Longrightarrow> so_init s = InitPending \<Longrightarrow> objects_inv (default_created s)"
  by (auto simp: objects_inv_def default_created_def new_account_def destroyAccounts_def accounts_accounted_def in_use_def)

lemma inv_failed: "objects_inv s \<Longrightarrow> so_init s = InitPending \<Longrightarrow> objects_inv (default_failed constructed s)"
  by (auto simp: objects_inv_def default_failed_def drop_account_def new_account_def accounts_accounted_def in_use_def)

lemma inv_close: "objects_inv s \<Longrightarrow> objects_inv (close_begin s)"
  by (auto simp: objects_inv_def close_begin_def destroyAccounts_def accounts_accounted_def in_use_def Let_def
      split: option.splits if_splits)

lemma inv_close_end: "objects_inv s \<Longrightarrow> 0 < so_closes s \<Longrightarrow> objects_inv (close_end s)"
  by (auto simp: objects_inv_def close_end_def accounts_accounted_def in_use_def split: if_splits)

lemma inv_signer: "objects_inv s \<Longrightarrow> objects_inv (snd (getSignerObjects key s))"
  by (auto simp: objects_inv_def getSignerObjects_def accounts_accounted_def in_use_def om_get_set om_has_def
      split: option.split if_splits)

text \<open>The creation of a signer's objects is the one in flight for its key, unless the connection was closed.\<close>

lemma creating_unique:
  "distinct (map fst xs) \<Longrightarrow> (c, k) \<in> set xs \<Longrightarrow> (c, k') \<in> set xs \<Longrightarrow> k = k'"
  by (metis Some_eq_map_of_iff option.inject)

lemma inv_finish:
  assumes "objects_inv s" and "(c, key) \<in> set (so_creating s)"
  shows "objects_inv (signer_failed constructed c key s)" and "objects_inv (signer_created c key s)"
proof -
  have dist: "distinct (map fst (so_creating s))" and fl: "\<And>i k. (i, k) \<in> set (so_creating s) \<Longrightarrow> \<not> so_closed s \<Longrightarrow> om_get (so_inflight s) k = Some i"
    using assms(1) by (auto simp: objects_inv_def)
  have other: "k \<noteq> key" if "(i, k) \<in> set (so_creating s)" "i \<noteq> c" "\<not> so_closed s" for i k
    using fl [OF that(1,3)] fl [OF assms(2) that(3)] that(2) by auto
  have dist': "distinct (map fst (filter (\<lambda>(i, k). i \<noteq> c) (so_creating s)))" using dist by (simp add: distinct_map_filter)
  show "objects_inv (signer_failed constructed c key s)"
    using assms(1) other dist'
    by (auto simp: objects_inv_def signer_failed_def drop_account_def new_account_def finish_creation_def accounts_accounted_def in_use_def om_get_delete om_has_def)
  show "objects_inv (signer_created c key s)"
  proof (cases "so_closed s")
    case True
    then show ?thesis using assms(1) dist'
      by (auto simp: objects_inv_def signer_created_def finish_creation_def new_account_def destroyAccounts_def
          accounts_accounted_def in_use_def)
  next
    case False
    then have "om_has (so_inflight s) key" using fl [OF assms(2)] by (simp add: om_has_def)
    then have new: "\<not> om_has (so_signers s) key" using assms(1) False by (auto simp: objects_inv_def)
    show ?thesis using assms(1) other dist' False om_set_new_values [OF new]
      by (auto simp: objects_inv_def signer_created_def finish_creation_def new_account_def
          accounts_accounted_def in_use_def om_get_delete om_get_set om_has_def simp del: map_map simp flip: mset_map)
  qed
qed

lemma inv_step: "objects_step s s' \<Longrightarrow> objects_inv s \<Longrightarrow> objects_inv s'"
  by (erule objects_stepE) (simp_all add: inv_request inv_created inv_failed inv_close inv_close_end inv_signer inv_finish)

lemma reachable_inv: "objects_reachable s \<Longrightarrow> objects_inv s"
proof (induction rule: objects_reachable.induct)
  case initial
  then show ?case by (simp add: objects_inv_def fresh_objects_def accounts_accounted_def in_use_def om_has_def)
qed (rule inv_step)

text \<open>The only account a step drops is that of a creation that fails in it after constructing the account.\<close>

lemma dropped_by_failure:
  assumes "objects_step s s'"
  shows "so_leaked s' = so_leaked s
    \<or> so_leaked s' = so_leaked s @ [so_created s]
      \<and> (s' = default_failed True s \<or> (\<exists>c key. (c, key) \<in> set (so_creating s) \<and> s' = signer_failed True c key s))"
  using assms
proof cases
  case (failed constructed)
  then show ?thesis by (cases constructed) (simp_all add: default_failed_def drop_account_def new_account_def)
next
  case (signer_no c key constructed)
  then show ?thesis
    by (cases constructed) (auto simp: signer_failed_def drop_account_def new_account_def finish_creation_def)
qed (simp_all add: getSdkObjects_def getSignerObjects_def default_created_def signer_created_def close_begin_def close_end_def
    destroyAccounts_def finish_creation_def new_account_def Let_def split: option.split init_promise.split)

text \<open>
  C24: an account's key is released once and never twice, as far as the connection ever gets hold of
  it: when the connection is closed it uses no account, and every account of a creation that settled
  is destroyed, exactly once, also when the creation was under way at the close; while the connection
  is open none is. What is left undestroyed are the accounts dropped inside a creation that failed
  after constructing them (lemmas \<open>dropped_by_failure\<close> and \<open>failed_creation_leaks\<close>); without such a
  failure none is.
\<close>

theorem accounts_released:
  assumes "objects_reachable s"
  shows "(so_closed s \<longrightarrow> in_use s = [] \<and> mset (so_destroyed s) + mset (so_leaked s) = mset [0..<so_created s])
    \<and> (\<not> so_closed s \<longrightarrow> so_destroyed s = [] \<and> mset (in_use s) + mset (so_leaked s) = mset [0..<so_created s])"
  using reachable_inv [OF assms] by (auto simp: objects_inv_def accounts_accounted_def in_use_def)

text \<open>The default account, a signer's whose creation ends after the close, and the close between.\<close>

definition ex_objects_open :: sdk_objects where
  "ex_objects_open = snd (getSignerObjects ''K'' (default_created (snd (getSdkObjects fresh_objects))))"

lemma ex_objects_reachable: "objects_reachable (signer_created 0 ''K'' (close_begin ex_objects_open))"
proof -
  let ?s1 = "snd (getSdkObjects fresh_objects)"
  have r1: "objects_reachable ?s1" by (rule objects_reachable.advance [OF objects_reachable.initial objects_step.request])
  have "so_init ?s1 = InitPending" by code_simp
  then have r2: "objects_reachable (default_created ?s1)" by (rule objects_reachable.advance [OF r1 objects_step.created])
  have "so_served (default_created ?s1)" by code_simp
  then have "objects_reachable ex_objects_open" unfolding ex_objects_open_def
    by (rule objects_reachable.advance [OF r2 objects_step.signer])
  then have r4: "objects_reachable (close_begin ex_objects_open)" by (rule objects_reachable.advance [OF _ objects_step.close])
  have "(0, ''K'') \<in> set (so_creating (close_begin ex_objects_open))" by code_simp
  then show ?thesis by (rule objects_reachable.advance [OF r4 objects_step.signer_ok])
qed

theorem accounts_released_witness:
  "so_closed (signer_created 0 ''K'' (close_begin ex_objects_open))
    \<and> mset (so_destroyed (signer_created 0 ''K'' (close_begin ex_objects_open))) = mset [0..<2]"
proof -
  let ?s = "signer_created 0 ''K'' (close_begin ex_objects_open)"
  have "so_closed ?s" "so_created ?s = 2" "so_leaked ?s = []" by code_simp+
  then show ?thesis using accounts_released [OF ex_objects_reachable] by simp
qed

text \<open>
  A creation that fails after its account was constructed leaves the key in memory: nobody holds the
  account any more, and the close destroys nothing.
\<close>

lemma failed_creation_leaks:
  "\<exists>s. objects_reachable s \<and> so_closed s \<and> so_init s \<noteq> InitPending \<and> so_creating s = [] \<and> so_created s = 1 \<and> so_destroyed s = [] \<and> so_leaked s = [0]"
proof -
  let ?s1 = "snd (getSdkObjects fresh_objects)"
  let ?s = "close_begin (default_failed True ?s1)"
  have r1: "objects_reachable ?s1" by (rule objects_reachable.advance [OF objects_reachable.initial objects_step.request])
  have "so_init ?s1 = InitPending" by code_simp
  then have "objects_reachable (default_failed True ?s1)" by (rule objects_reachable.advance [OF r1 objects_step.failed])
  then have "objects_reachable ?s" by (rule objects_reachable.advance [OF _ objects_step.close])
  moreover have "so_closed ?s \<and> so_init ?s \<noteq> InitPending \<and> so_creating ?s = [] \<and> so_created ?s = 1 \<and> so_destroyed ?s = [] \<and> so_leaked ?s = [0]"
    by code_simp
  ultimately show ?thesis by blast
qed

text \<open>
  A failed creation of the default objects is never tried again: the rejected promise stays, and
  every later request of the open connection fails with it, unlike a signer's, which is evicted.
\<close>

lemma failed_init_is_kept:
  "\<not> so_closed s \<Longrightarrow> so_default s = None \<Longrightarrow> so_init s = InitRejected \<Longrightarrow> getSdkObjects s = (ObjectsFailed, s)"
  by (simp add: getSdkObjects_def)

lemma failed_signer_retried:
  "(c, key) \<in> set (so_creating s) \<Longrightarrow> om_get (so_signers s) key = None
    \<Longrightarrow> om_get (so_inflight (snd (getSignerObjects key (signer_failed constructed c key s)))) key = Some (so_next s)"
  by (simp add: getSignerObjects_def signer_failed_def drop_account_def new_account_def finish_creation_def om_get_delete om_get_set)

end
