(* ===== verification/Egress.thy ===== *)
theory Egress imports SdkDiagnostics ConfigValues begin

text \<open>
  The transports through which the SDK reaches the network (\<^verbatim>\<open>packages/network/src/sdk-adapter.ts\<close>):
  every hop of a request, redirects included, is checked against an allowlist of hosts before it is
  fetched; downloads of proving parameters have a mirror. The URL parser and \<^verbatim>\<open>fetch\<close> are arguments;
  what the servers answer may depend on everything that was fetched before.
\<close>

section \<open>Requests\<close>

record url =
  u_href :: string
  u_protocol :: string
  u_host :: string
  u_pathname :: string
  u_search :: string

type_synonym headers = "(string \<times> string) list"

record http_request =
  rq_url :: string
  rq_method :: string
  rq_headers :: headers
  rq_body :: "string option"

datatype fetch_input = InString string | InUrl url | InRequest http_request

record request_init =
  ri_method :: "string option"
  ri_headers :: "headers option"
  ri_body :: "string option"
  ri_redirect :: "string option"

record transport_response =
  tr_status :: nat
  tr_statusText :: string
  tr_location :: "string option"
  tr_text :: "string option"

definition tr_ok :: "transport_response \<Rightarrow> bool" where
  "tr_ok r \<longleftrightarrow> 200 \<le> tr_status r \<and> tr_status r \<le> 299"

datatype egress_error =
    FetchFailed string
  | HostBlocked string "string list"
  | RedirectLoop string
  | TooManyRedirects
  | InvalidUrl string
  | UnknownParameterHost string

text \<open>The answer to a request may depend on how many were sent before it.\<close>

record egress_env =
  ee_parse :: "string \<Rightarrow> url option"
  ee_resolve :: "string \<Rightarrow> url \<Rightarrow> url option"
  ee_fetch :: "nat \<Rightarrow> fetch_input \<Rightarrow> request_init \<Rightarrow> string + transport_response"
  ee_clock :: "nat \<Rightarrow> int"
  ee_message :: "egress_error \<Rightarrow> string"

record egress_world =
  ew_fetches :: "(fetch_input \<times> request_init) list"
  ew_warnings :: "string list"
  ew_failures :: "sdk_failure list"

type_synonym 'a egress_act = "(egress_world, egress_error, 'a) act"

definition urlOf :: "egress_env \<Rightarrow> fetch_input \<Rightarrow> url option" where
  "urlOf e input =
    (case input of InRequest r \<Rightarrow> ee_parse e (rq_url r) | InUrl u \<Rightarrow> Some u | InString s \<Rightarrow> ee_parse e s)"

definition input_text :: "fetch_input \<Rightarrow> string" where
  "input_text input = (case input of InRequest r \<Rightarrow> ''[object Request]'' | InUrl u \<Rightarrow> u_href u | InString s \<Rightarrow> s)"

definition js_upper :: "string \<Rightarrow> string" where
  "js_upper s = map (\<lambda>c. if is_lower c then char_of ((of_char c :: nat) - 32) else c) s"

definition send :: "egress_env \<Rightarrow> fetch_input \<Rightarrow> request_init \<Rightarrow> transport_response egress_act" where
  "send e input init = (\<lambda>s.
    (case ee_fetch e (length (ew_fetches s)) input init of Inl m \<Rightarrow> Inl (FetchFailed m) | Inr r \<Rightarrow> Inr r,
     s\<lparr>ew_fetches := ew_fetches s @ [(input, init)]\<rparr>))"

section \<open>Redirects\<close>

definition GUARDED_TRANSPORT_REDIRECT_STATUSES :: "nat list" where
  "GUARDED_TRANSPORT_REDIRECT_STATUSES = [301, 302, 303, 307, 308]"

definition GUARDED_TRANSPORT_MAX_REDIRECTS :: nat where
  "GUARDED_TRANSPORT_MAX_REDIRECTS = 20"

definition redirectAwareInit :: "request_init \<Rightarrow> request_init" where
  "redirectAwareInit init = init\<lparr>ri_redirect := Some ''manual''\<rparr>"

definition content_headers :: "string list" where
  "content_headers = [''content-encoding'', ''content-length'', ''content-type'']"

text \<open>\<^verbatim>\<open>new Headers(h)\<close> has the names in lower case.\<close>

definition without_content :: "headers \<Rightarrow> headers" where
  "without_content hs = filter (\<lambda>(n, v). n \<notin> set content_headers) (map (\<lambda>(n, v). (js_lower n, v)) hs)"

definition nextRedirectInit :: "request_init \<Rightarrow> nat \<Rightarrow> request_init" where
  "nextRedirectInit init status =
    (let verb = map_option js_upper (ri_method init);
         shouldSwitchToGet = (status = 303 \<and> verb \<noteq> Some ''GET'' \<and> verb \<noteq> Some ''HEAD'')
           \<or> ((status = 301 \<or> status = 302) \<and> verb = Some ''POST'')
     in if shouldSwitchToGet
        then init\<lparr>ri_method := Some ''GET'', ri_body := None, ri_headers := map_option without_content (ri_headers init)\<rparr>
        else init)"

function fetch_hops :: "egress_env \<Rightarrow> (url \<Rightarrow> unit egress_act) \<Rightarrow> nat \<Rightarrow> string list \<Rightarrow> fetch_input \<Rightarrow> url \<Rightarrow> request_init
    \<Rightarrow> transport_response egress_act" where
  "fetch_hops e validateUrl redirectCount visited input u init =
    bindA (validateUrl u) (\<lambda>_.
      if u_href u \<in> set visited then throwA (RedirectLoop (u_href u))
      else bindA (send e input (redirectAwareInit init)) (\<lambda>response.
        if tr_status response \<notin> set GUARDED_TRANSPORT_REDIRECT_STATUSES then returnA response
        else if tr_location response = None \<or> tr_location response = Some [] then returnA response
        else if redirectCount \<ge> GUARDED_TRANSPORT_MAX_REDIRECTS then throwA TooManyRedirects
        else (case ee_resolve e (the (tr_location response)) u of
            None \<Rightarrow> throwA (InvalidUrl (the (tr_location response)))
          | Some nextUrl \<Rightarrow> fetch_hops e validateUrl (redirectCount + 1) (u_href u # visited) (InUrl nextUrl) nextUrl
              (nextRedirectInit init (tr_status response)))))"
  by pat_completeness auto
termination
  by (relation "measure (\<lambda>(e, v, n, _). GUARDED_TRANSPORT_MAX_REDIRECTS - n)") auto

declare fetch_hops.simps [simp del]

definition fetchWithEgressGuardedRedirects :: "egress_env \<Rightarrow> fetch_input \<Rightarrow> request_init \<Rightarrow> (url \<Rightarrow> unit egress_act)
    \<Rightarrow> transport_response egress_act" where
  "fetchWithEgressGuardedRedirects e input init validateUrl =
    (case urlOf e input of
      None \<Rightarrow> send e input (redirectAwareInit init)
    | Some u \<Rightarrow> fetch_hops e validateUrl 0 [] input u init)"

section \<open>The network transport\<close>

datatype violation = Block | Warn

definition validateNetworkHost :: "string list \<Rightarrow> violation \<Rightarrow> url \<Rightarrow> unit egress_act" where
  "validateNetworkHost allowed violation u =
    (if u_host u \<in> set allowed then returnA ()
     else if violation = Block then throwA (HostBlocked (u_host u) allowed)
     else modifyA (\<lambda>s. s\<lparr>ew_warnings := ew_warnings s @ [u_host u]\<rparr>))"

definition record_failed :: "sdk_failure \<Rightarrow> egress_world \<Rightarrow> egress_world" where
  "record_failed f s = s\<lparr>ew_failures := record_failure f (ew_failures s)\<rparr>"

text \<open>A request with its diagnostics: a response that is not ok and an error are recorded.\<close>

definition observed :: "egress_env \<Rightarrow> fetch_input \<Rightarrow> request_init \<Rightarrow> transport_response egress_act \<Rightarrow> transport_response egress_act" where
  "observed e input init m = (\<lambda>s.
    let verb = (case ri_method init of None \<Rightarrow> ''GET'' | Some v \<Rightarrow> js_upper v);
        address = (case urlOf e input of Some u \<Rightarrow> u_href u | None \<Rightarrow> input_text input)
    in case m s of
        (Inr r, s') \<Rightarrow>
          (Inr r, if tr_ok r then s'
            else record_failed \<lparr>sf_method = verb, sf_url = address, sf_status = Some (tr_status r), sf_statusText = Some (tr_statusText r),
              sf_bodyExcerpt = map_option (take 512) (tr_text r), sf_error = None, sf_at = ee_clock e (length (ew_fetches s'))\<rparr> s')
      | (Inl err, s') \<Rightarrow>
          (Inl err, record_failed \<lparr>sf_method = verb, sf_url = address, sf_status = None, sf_statusText = None,
              sf_bodyExcerpt = None, sf_error = Some (ee_message e err), sf_at = ee_clock e (length (ew_fetches s'))\<rparr> s'))"

definition makeNetworkTransport :: "egress_env \<Rightarrow> string list \<Rightarrow> violation \<Rightarrow> bool \<Rightarrow> fetch_input \<Rightarrow> request_init
    \<Rightarrow> transport_response egress_act" where
  "makeNetworkTransport e allowed violation diagnostics input init =
    (let guarded = fetchWithEgressGuardedRedirects e input init (validateNetworkHost allowed violation)
     in if diagnostics then observed e input init guarded else guarded)"

section \<open>The parameter transport\<close>

definition KNOWN_SDK_PARAMETER_HOSTS :: "string list" where
  "KNOWN_SDK_PARAMETER_HOSTS = [''parameters.provable.com'', ''s3.us-west-1.amazonaws.com'', ''parameters.aleo.org'']"

definition validateParameterHost :: "url \<Rightarrow> unit egress_act" where
  "validateParameterHost u =
    (if u_host u \<in> set KNOWN_SDK_PARAMETER_HOSTS then returnA () else throwA (UnknownParameterHost (u_host u)))"

definition fetchParameterUrl :: "egress_env \<Rightarrow> fetch_input \<Rightarrow> request_init \<Rightarrow> transport_response egress_act" where
  "fetchParameterUrl e input init = fetchWithEgressGuardedRedirects e input init validateParameterHost"

text \<open>\<^verbatim>\<open>/^\/([^/]+)\/(.+)$/\<close> on a path, which has no line breaks.\<close>

definition split_artifact :: "string \<Rightarrow> (string \<times> string) option" where
  "split_artifact path =
    (case path of [] \<Rightarrow> None
     | c # rest \<Rightarrow>
        (let network = takeWhile (\<lambda>c. c \<noteq> CHR ''/'') rest; tail = drop (length network + 1) rest
         in if c = CHR ''/'' \<and> network \<noteq> [] \<and> length network < length rest \<and> tail \<noteq> [] then Some (network, tail) else None))"

text \<open>No mirror, the mirror's URL, or a text that is no URL.\<close>

definition parameterMirrorUrl :: "egress_env \<Rightarrow> url \<Rightarrow> egress_error + url option" where
  "parameterMirrorUrl e u =
    (if u_protocol u \<noteq> ''https:'' \<or> u_host u \<noteq> ''parameters.provable.com'' then Inr None
     else case split_artifact (u_pathname u) of
         None \<Rightarrow> Inr None
       | Some (network, artifactPath) \<Rightarrow>
          (let text = ''https://s3.us-west-1.amazonaws.com/'' @ network @ ''.parameters/'' @ artifactPath @ u_search u
           in case ee_parse e text of None \<Rightarrow> Inl (InvalidUrl text) | Some mirror \<Rightarrow> Inr (Some mirror)))"

definition tryParameterMirror :: "egress_env \<Rightarrow> url \<Rightarrow> request_init \<Rightarrow> transport_response option egress_act" where
  "tryParameterMirror e mirrorUrl init = (\<lambda>s.
    case fetchParameterUrl e (InUrl mirrorUrl) init s of (Inr r, s') \<Rightarrow> (Inr (Some r), s') | (Inl _, s') \<Rightarrow> (Inr None, s'))"

text \<open>The mirror's response where it is ok, and what the primary host gave otherwise.\<close>

definition prefer_mirror :: "egress_env \<Rightarrow> url \<Rightarrow> request_init \<Rightarrow> egress_error + transport_response \<Rightarrow> transport_response egress_act" where
  "prefer_mirror e mirrorUrl init primary =
    bindA (tryParameterMirror e mirrorUrl init) (\<lambda>m.
      case m of Some r \<Rightarrow> if tr_ok r then returnA r else liftA primary | None \<Rightarrow> liftA primary)"

definition makeParameterTransport :: "egress_env \<Rightarrow> fetch_input \<Rightarrow> request_init \<Rightarrow> transport_response egress_act" where
  "makeParameterTransport e input init =
    (case urlOf e input of
      None \<Rightarrow> fetchParameterUrl e input init
    | Some primaryUrl \<Rightarrow>
        bindA (liftA (parameterMirrorUrl e primaryUrl)) (\<lambda>mirrorUrl s.
          case fetchParameterUrl e input init s of
            (Inr response, s') \<Rightarrow>
              (case mirrorUrl of
                None \<Rightarrow> (Inr response, s')
              | Some mirror \<Rightarrow> if tr_ok response then (Inr response, s') else prefer_mirror e mirror init (Inr response) s')
          | (Inl err, s') \<Rightarrow>
              (case (err, mirrorUrl) of
                (UnknownParameterHost h, _) \<Rightarrow> (Inl err, s')
              | (_, None) \<Rightarrow> (Inl err, s')
              | (_, Some mirror) \<Rightarrow> prefer_mirror e mirror init (Inl err) s')))"

section \<open>What is fetched\<close>

definition target :: "egress_env \<Rightarrow> fetch_input \<times> request_init \<Rightarrow> string option" where
  "target e x = map_option u_href (urlOf e (fst x))"

text \<open>The requests of one guarded call: each was validated, none is repeated.\<close>

definition guarded_fetches :: "egress_env \<Rightarrow> (url \<Rightarrow> bool) \<Rightarrow> (fetch_input \<times> request_init) list \<Rightarrow> bool" where
  "guarded_fetches e allowed ts \<longleftrightarrow> distinct (map (target e) ts)
    \<and> (\<forall>(i, ini) \<in> set ts. ri_redirect ini = Some ''manual'' \<and> (\<exists>u. urlOf e i = Some u \<and> allowed u))"

definition validates :: "(url \<Rightarrow> unit egress_act) \<Rightarrow> (url \<Rightarrow> bool) \<Rightarrow> bool" where
  "validates v allowed \<longleftrightarrow> (\<forall>u s. ew_fetches (snd (v u s)) = ew_fetches s \<and> (\<not> isl (fst (v u s)) \<longrightarrow> allowed u))"

lemma send_simps [simp]: "urlOf e (InUrl u) = Some u" by (simp add: urlOf_def)

lemma send_result: "send e input init s = (r, s') \<Longrightarrow> ew_fetches s' = ew_fetches s @ [(input, init)]"
  by (auto simp: send_def)

lemma hops_fetches:
  "validates v allowed \<Longrightarrow> fetch_hops e v n visited input u init s = (r, s') \<Longrightarrow> urlOf e input = Some u \<Longrightarrow> n \<le> GUARDED_TRANSPORT_MAX_REDIRECTS
    \<Longrightarrow> \<exists>ts. ew_fetches s' = ew_fetches s @ ts \<and> length ts \<le> Suc GUARDED_TRANSPORT_MAX_REDIRECTS - n \<and> guarded_fetches e allowed ts
      \<and> (\<forall>x \<in> set ts. target e x \<notin> Some ` set visited)"
proof (induction e v n visited input u init arbitrary: s r s' rule: fetch_hops.induct)
  case (1 e v n visited input u init)
  let ?one = "[(input, redirectAwareInit init)]"
  obtain q t where q: "v u s = (q, t)" by fastforce
  have "ew_fetches (snd (v u s)) = ew_fetches s" and "\<not> isl (fst (v u s)) \<longrightarrow> allowed u"
    using "1.prems"(1) by (auto simp: validates_def)
  then have t: "ew_fetches t = ew_fetches s" and ok: "q = Inr () \<Longrightarrow> allowed u" by (simp_all add: q)
  have one: "guarded_fetches e allowed ?one" if "q = Inr ()"
    using that ok "1.prems"(3) by (simp add: guarded_fetches_def redirectAwareInit_def)
  have target: "target e (input, redirectAwareInit init) = Some (u_href u)" using "1.prems"(3) by (simp add: target_def)
  show ?case
  proof (cases "isl q \<or> u_href u \<in> set visited")
    case True
    then have "ew_fetches s' = ew_fetches s" using "1.prems"(2) q t
      by (subst (asm) fetch_hops.simps) (cases q; auto simp: bindA_def throwA_def split: if_splits)
    then show ?thesis by (intro exI [of _ "[]"]) (simp add: guarded_fetches_def)
  next
    case False
    then have q': "q = Inr ()" by (cases q) auto
    have new: "u_href u \<notin> set visited" using False by simp
    obtain p w where p: "send e input (redirectAwareInit init) t = (p, w)" by fastforce
    have w: "ew_fetches w = ew_fetches s @ ?one" using send_result [OF p] t by simp
    let ?rest = "\<lambda>response.
        if tr_status response \<notin> set GUARDED_TRANSPORT_REDIRECT_STATUSES then returnA response
        else if tr_location response = None \<or> tr_location response = Some [] then returnA response
        else if n \<ge> GUARDED_TRANSPORT_MAX_REDIRECTS then throwA TooManyRedirects
        else (case ee_resolve e (the (tr_location response)) u of
            None \<Rightarrow> throwA (InvalidUrl (the (tr_location response)))
          | Some nextUrl \<Rightarrow> fetch_hops e v (n + 1) (u_href u # visited) (InUrl nextUrl) nextUrl
              (nextRedirectInit init (tr_status response)))"
    have run: "bindA (\<lambda>_. (p, w)) ?rest t = (r, s')"
      using "1.prems"(2) q q' new p by (subst (asm) fetch_hops.simps) (simp add: bindA_def)
    have stop: ?thesis if "s' = w"
      using that w one [OF q'] target new "1.prems"(4) by (intro exI [of _ ?one]) auto
    show ?thesis
    proof (cases "\<exists>response next'. p = Inr response \<and> tr_status response \<in> set GUARDED_TRANSPORT_REDIRECT_STATUSES
        \<and> \<not> (tr_location response = None \<or> tr_location response = Some []) \<and> n < GUARDED_TRANSPORT_MAX_REDIRECTS
        \<and> ee_resolve e (the (tr_location response)) u = Some next'")
      case True
      then obtain response next' where hop: "p = Inr response" "tr_status response \<in> set GUARDED_TRANSPORT_REDIRECT_STATUSES"
        "\<not> (tr_location response = None \<or> tr_location response = Some [])" "n < GUARDED_TRANSPORT_MAX_REDIRECTS"
        "ee_resolve e (the (tr_location response)) u = Some next'" by blast
      have rest: "fetch_hops e v (n + 1) (u_href u # visited) (InUrl next') next' (nextRedirectInit init (tr_status response)) w = (r, s')"
        using run hop by (simp add: bindA_def)
      have "\<not> GUARDED_TRANSPORT_MAX_REDIRECTS \<le> n" using hop(4) by simp
      from "1.IH" [OF new _ hop(3) this hop(5) "1.prems"(1) rest] hop(2,4)
      obtain ts where ts: "ew_fetches s' = ew_fetches w @ ts" "length ts \<le> Suc GUARDED_TRANSPORT_MAX_REDIRECTS - (n + 1)"
        "guarded_fetches e allowed ts" "\<forall>x \<in> set ts. target e x \<notin> Some ` set (u_href u # visited)" by auto
      show ?thesis
      proof (intro exI [of _ "(input, redirectAwareInit init) # ts"] conjI)
        show "ew_fetches s' = ew_fetches s @ (input, redirectAwareInit init) # ts" using ts(1) w by simp
        show "length ((input, redirectAwareInit init) # ts) \<le> Suc GUARDED_TRANSPORT_MAX_REDIRECTS - n" using ts(2) hop(4) by simp
        show "guarded_fetches e allowed ((input, redirectAwareInit init) # ts)"
          using one [OF q'] ts(3,4) target by (auto simp: guarded_fetches_def)
        show "\<forall>x \<in> set ((input, redirectAwareInit init) # ts). target e x \<notin> Some ` set visited" using ts(4) target new by auto
      qed
    next
      case False
      then have "s' = w" using run
        by (cases p) (auto simp: bindA_def returnA_def throwA_def not_le split: if_splits option.splits)
      then show ?thesis by (rule stop)
    qed
  qed
qed

lemma guarded_call:
  assumes "validates v allowed" and "fetchWithEgressGuardedRedirects e input init v s = (r, s')"
  shows "\<exists>ts. ew_fetches s' = ew_fetches s @ ts \<and> length ts \<le> Suc GUARDED_TRANSPORT_MAX_REDIRECTS
    \<and> (if urlOf e input = None then ts = [(input, redirectAwareInit init)] else guarded_fetches e allowed ts)"
proof (cases "urlOf e input")
  case None
  then have "send e input (redirectAwareInit init) s = (r, s')" using assms(2) by (simp add: fetchWithEgressGuardedRedirects_def)
  from send_result [OF this] show ?thesis using None by simp
next
  case (Some u)
  then have "fetch_hops e v 0 [] input u init s = (r, s')" using assms(2) by (simp add: fetchWithEgressGuardedRedirects_def)
  from hops_fetches [OF assms(1) this Some] show ?thesis using Some by fastforce
qed

lemma network_validates: "validates (validateNetworkHost allowed Block) (\<lambda>u. u_host u \<in> set allowed)"
  by (auto simp: validates_def validateNetworkHost_def returnA_def throwA_def)

lemma parameter_validates: "validates validateParameterHost (\<lambda>u. u_host u \<in> set KNOWN_SDK_PARAMETER_HOSTS)"
  by (auto simp: validates_def validateParameterHost_def returnA_def throwA_def)

lemma observed_run:
  "observed e input init m s = (fst (m s), snd (observed e input init m s))"
  "ew_fetches (snd (observed e input init m s)) = ew_fetches (snd (m s))"
  "ew_warnings (snd (observed e input init m s)) = ew_warnings (snd (m s))"
  by (auto simp: observed_def record_failed_def Let_def split: prod.splits sum.splits)

text \<open>Diagnostics change neither what a call does nor what it returns; exactly the calls that go wrong are recorded.\<close>

lemma diagnostics_transparent:
  "fst (makeNetworkTransport e allowed violation True input init s) = fst (makeNetworkTransport e allowed violation False input init s)"
  "ew_fetches (snd (makeNetworkTransport e allowed violation True input init s))
    = ew_fetches (snd (makeNetworkTransport e allowed violation False input init s))"
  using observed_run(2) [of e input init] by (simp_all add: makeNetworkTransport_def Let_def) (simp add: observed_run(1) [THEN arg_cong [of _ _ fst]])

lemma failures_recorded:
  assumes "makeNetworkTransport e allowed violation False input init s = (res, t)"
  shows "\<exists>f. snd (makeNetworkTransport e allowed violation True input init s)
    = (case res of Inr r \<Rightarrow> if tr_ok r then t else record_failed f t | Inl err \<Rightarrow> record_failed f t)"
  using assms by (cases res) (auto simp: makeNetworkTransport_def observed_def Let_def)

text \<open>
  C9: with the policy that blocks, the SDK's network transport sends requests to allowed hosts only,
  whatever redirects the servers answer with: at most 21 requests per call, no address twice, each
  with redirects left to the guard. An input that is no URL is handed to \<^verbatim>\<open>fetch\<close> once, as it is.
\<close>

theorem egress_stays_on_allowed_hosts:
  assumes "makeNetworkTransport e allowed Block diagnostics input init s = (res, s')"
  shows "\<exists>ts. ew_fetches s' = ew_fetches s @ ts \<and> length ts \<le> 21
    \<and> (if urlOf e input = None then ts = [(input, redirectAwareInit init)]
       else distinct (map (target e) ts)
         \<and> (\<forall>(i, ini) \<in> set ts. ri_redirect ini = Some ''manual'' \<and> (\<exists>u. urlOf e i = Some u \<and> u_host u \<in> set allowed)))"
proof -
  let ?call = "fetchWithEgressGuardedRedirects e input init (validateNetworkHost allowed Block)"
  obtain r t where run: "?call s = (r, t)" by fastforce
  have "ew_fetches s' = ew_fetches t"
    using assms run observed_run(2) [of e input init ?call s] by (auto simp: makeNetworkTransport_def Let_def split: if_splits)
  moreover obtain ts where "ew_fetches t = ew_fetches s @ ts" "length ts \<le> Suc GUARDED_TRANSPORT_MAX_REDIRECTS"
    "if urlOf e input = None then ts = [(input, redirectAwareInit init)] else guarded_fetches e (\<lambda>u. u_host u \<in> set allowed) ts"
    using guarded_call [OF network_validates run] by blast
  ultimately show ?thesis
    by (intro exI [of _ ts]) (auto simp: guarded_fetches_def GUARDED_TRANSPORT_MAX_REDIRECTS_def split: if_splits)
qed

lemma tryParameterMirror_fetches:
  "tryParameterMirror e m init s = (r, s') \<Longrightarrow> \<exists>r0. fetchParameterUrl e (InUrl m) init s = (r0, s')"
  by (auto simp: tryParameterMirror_def split: prod.splits sum.splits)

lemma prefer_mirror_fetches:
  assumes "prefer_mirror e m init primary s = (r, s')"
  shows "\<exists>ts. ew_fetches s' = ew_fetches s @ ts \<and> guarded_fetches e (\<lambda>u. u_host u \<in> set KNOWN_SDK_PARAMETER_HOSTS) ts
    \<and> (r = primary \<or> (\<exists>x. r = Inr x \<and> tr_ok x))"
proof -
  obtain q t where q: "tryParameterMirror e m init s = (q, t)" by fastforce
  then obtain r0 where run: "fetchParameterUrl e (InUrl m) init s = (r0, t)" using tryParameterMirror_fetches by blast
  have "q = Inr (case r0 of Inr x \<Rightarrow> Some x | Inl _ \<Rightarrow> None)" using q run by (cases r0) (simp_all add: tryParameterMirror_def)
  then have "s' = t" "r = primary \<or> (\<exists>x. r = Inr x \<and> tr_ok x)"
    using assms q by (auto simp: prefer_mirror_def bindA_def liftA_def returnA_def split: sum.splits if_splits)
  then show ?thesis using guarded_call [OF parameter_validates run [unfolded fetchParameterUrl_def]] by auto
qed

text \<open>What a call of the parameter transport is made of: the primary request, and the mirror's where it was tried.\<close>

lemma parameter_call:
  assumes "urlOf e input = Some u" and "makeParameterTransport e input init s = (r, s')" and "parameterMirrorUrl e u = Inr mirrorUrl"
    and run: "fetchParameterUrl e input init s = (r0, t)"
  shows "(r = r0 \<and> s' = t) \<or> (u_host u = ''parameters.provable.com'' \<and> (\<exists>m. prefer_mirror e m init r0 t = (r, s')))"
proof -
  have host: "u_host u = ''parameters.provable.com''" if "mirrorUrl = Some m" for m
    using assms(3) that by (auto simp: parameterMirrorUrl_def split: if_splits)
  have "(r = r0 \<and> s' = t) \<or> (\<exists>m. mirrorUrl = Some m \<and> prefer_mirror e m init r0 t = (r, s'))"
  proof (cases r0)
    case (Inl err)
    then show ?thesis using assms run by (cases err; cases mirrorUrl) (auto simp: makeParameterTransport_def)
  next
    case (Inr x)
    then show ?thesis using assms run by (cases mirrorUrl) (auto simp: makeParameterTransport_def split: if_splits)
  qed
  then show ?thesis using host by blast
qed

text \<open>
  Proving parameters are requested from the known parameter hosts only, redirects included; a
  mirror is asked only for a download from the primary host, and then what is returned is a
  response that is ok or what the primary host gave.
\<close>

theorem parameter_downloads_guarded:
  assumes "makeParameterTransport e input init s = (r, s')" and "urlOf e input = Some u"
  shows "\<exists>ts ms. ew_fetches s' = ew_fetches s @ ts @ ms
    \<and> list_all (\<lambda>x. case urlOf e (fst x) of None \<Rightarrow> False | Some w \<Rightarrow> u_host w \<in> set KNOWN_SDK_PARAMETER_HOSTS) (ts @ ms)
    \<and> (ms = [] \<or> u_host u = ''parameters.provable.com'')
    \<and> (r = fst (fetchParameterUrl e input init s) \<or> (\<exists>x. r = Inr x \<and> tr_ok x) \<or> (\<exists>text. r = Inl (InvalidUrl text)))"
proof -
  let ?known = "\<lambda>u. u_host u \<in> set KNOWN_SDK_PARAMETER_HOSTS"
  have known: "list_all (\<lambda>x. case urlOf e (fst x) of None \<Rightarrow> False | Some w \<Rightarrow> ?known w) xs" if "guarded_fetches e ?known xs" for xs
    using that by (auto simp: guarded_fetches_def list_all_iff)
  obtain r0 t where run: "fetchParameterUrl e input init s = (r0, t)" by fastforce
  obtain ts where ts: "ew_fetches t = ew_fetches s @ ts" "guarded_fetches e ?known ts"
    using guarded_call [OF parameter_validates run [unfolded fetchParameterUrl_def]] assms(2) by auto
  show ?thesis
  proof (cases "parameterMirrorUrl e u")
    case (Inl err)
    then have "r = Inl err" "s' = s" using assms by (simp_all add: makeParameterTransport_def)
    moreover have "\<exists>text. err = InvalidUrl text" using Inl by (auto simp: parameterMirrorUrl_def Let_def split: if_splits option.splits)
    ultimately show ?thesis by (intro exI [of _ "[]"]) auto
  next
    case (Inr mirrorUrl)
    from parameter_call [OF assms(2,1) Inr run] consider (plain) "r = r0" "s' = t"
      | (mirror) m where "u_host u = ''parameters.provable.com''" "prefer_mirror e m init r0 t = (r, s')" by blast
    then show ?thesis
    proof cases
      case plain
      then show ?thesis using ts known run by (intro exI [of _ ts] exI [of _ "[]"]) simp
    next
      case mirror
      from prefer_mirror_fetches [OF mirror(2)] obtain ms where "ew_fetches s' = ew_fetches t @ ms" "guarded_fetches e ?known ms"
        "r = r0 \<or> (\<exists>x. r = Inr x \<and> tr_ok x)" by blast
      then show ?thesis using ts known mirror(1) run by (intro exI [of _ ts] exI [of _ ms]) auto
    qed
  qed
qed

text \<open>
  A header that does not describe the body survives every redirect, whatever host and protocol it
  leads to: also the API key in \<^verbatim>\<open>Authorization\<close>, which \<^verbatim>\<open>fetch\<close> drops on a change of origin.
\<close>

lemma redirect_keeps_headers:
  assumes "ri_headers init = Some hs" and "(n, v) \<in> set hs" and "js_lower n \<notin> set content_headers"
  shows "\<exists>hs' n'. ri_headers (nextRedirectInit init status) = Some hs' \<and> (n', v) \<in> set hs' \<and> n' \<in> {n, js_lower n}"
  using assms by (force simp: nextRedirectInit_def Let_def without_content_def)

text \<open>A redirected \<^verbatim>\<open>Request\<close> loses its method: the hops after it are sent with what \<open>init\<close> says, which is \<^verbatim>\<open>GET\<close>.\<close>

lemma request_method_lost:
  assumes "ri_method init = None" and "status \<in> {301, 302, 307, 308}"
  shows "ri_method (nextRedirectInit init status) = None"
  using assms by (auto simp: nextRedirectInit_def)

section \<open>A redirect to another host\<close>

definition ex_url :: "string \<Rightarrow> string \<Rightarrow> url" where
  "ex_url host path = \<lparr>u_href = ''https://'' @ host @ path, u_protocol = ''https:'', u_host = host, u_pathname = path, u_search = []\<rparr>"

definition ex_egress :: egress_env where
  "ex_egress = \<lparr>ee_parse = (\<lambda>s. None), ee_resolve = (\<lambda>loc u. Some (ex_url loc ''/'')),
     ee_fetch = (\<lambda>n input init. Inr \<lparr>tr_status = (if n = 2 then 404 else 302), tr_statusText = [],
        tr_location = Some (if n = 0 then ''node'' else ''evil''), tr_text = None\<rparr>), ee_clock = int, ee_message = (\<lambda>_. [])\<rparr>"

definition ex_init :: request_init where
  "ex_init = \<lparr>ri_method = None, ri_headers = None, ri_body = None, ri_redirect = None\<rparr>"

definition ex_world :: egress_world where
  "ex_world = \<lparr>ew_fetches = [], ew_warnings = [], ew_failures = []\<rparr>"

theorem egress_stays_on_allowed_hosts_witness:
  "\<exists>ts. ew_fetches (snd (makeNetworkTransport ex_egress [''node''] Block True (InUrl (ex_url ''node'' ''/a'')) ex_init ex_world)) = ts
    \<and> length ts = 2 \<and> distinct (map (target ex_egress) ts)"
proof -
  let ?call = "makeNetworkTransport ex_egress [''node''] Block True (InUrl (ex_url ''node'' ''/a'')) ex_init ex_world"
  have "length (ew_fetches (snd ?call)) = 2" by code_simp
  moreover obtain ts where "ew_fetches (snd ?call) = ew_fetches ex_world @ ts" "distinct (map (target ex_egress) ts)"
    using egress_stays_on_allowed_hosts [of ex_egress "[''node'']" True "InUrl (ex_url ''node'' ''/a'')" ex_init ex_world "fst ?call" "snd ?call"]
    by auto
  ultimately show ?thesis by (simp add: ex_world_def)
qed

theorem parameter_downloads_guarded_witness:
  "\<exists>ts. ew_fetches (snd (makeParameterTransport ex_egress (InUrl (ex_url ''parameters.aleo.org'' ''/a'')) ex_init ex_world)) = ts
    \<and> length ts = 1
    \<and> list_all (\<lambda>x. case urlOf ex_egress (fst x) of None \<Rightarrow> False | Some w \<Rightarrow> u_host w \<in> set KNOWN_SDK_PARAMETER_HOSTS) ts"
proof -
  let ?u = "ex_url ''parameters.aleo.org'' ''/a''"
  let ?call = "makeParameterTransport ex_egress (InUrl ?u) ex_init ex_world"
  have "length (ew_fetches (snd ?call)) = 1" by code_simp
  moreover obtain ts ms where "ew_fetches (snd ?call) = ew_fetches ex_world @ ts @ ms"
    "list_all (\<lambda>x. case urlOf ex_egress (fst x) of None \<Rightarrow> False | Some w \<Rightarrow> u_host w \<in> set KNOWN_SDK_PARAMETER_HOSTS) (ts @ ms)"
    using parameter_downloads_guarded [of ex_egress "InUrl ?u" ex_init ex_world "fst ?call" "snd ?call" ?u] by auto
  ultimately show ?thesis by (simp add: ex_world_def)
qed

end
