(* ===== verification/CreditsCache.thy ===== *)
theory CreditsCache imports KeyCache begin

text \<open>
  The disk cache of the proving keys of \<^verbatim>\<open>credits.aleo\<close> (\<^verbatim>\<open>PersistentFunctionKeyProvider\<close> and
  \<^verbatim>\<open>warmupCreditsKeys\<close> in \<^verbatim>\<open>packages/network/src/sdk-adapter.ts\<close>): which calls of the key provider
  store a key, under which name, when a write is skipped, and what the next process loads. The SDK's
  key provider, its table of credits keys, its proving keys and their conversion to and from bytes
  (which fails on bytes that are no key) are arguments.
\<close>

section \<open>Names of files\<close>

text \<open>\<^verbatim>\<open>Buffer.from(s, "utf-8").toString("base64url")\<close>, on ASCII.\<close>

definition base64url_alphabet :: string where
  "base64url_alphabet = ''ABCDEFGHIJKLMNOPQRSTUVWXYZabcdefghijklmnopqrstuvwxyz0123456789-_''"

definition sextet :: "nat \<Rightarrow> char" where
  "sextet n = base64url_alphabet ! (n mod 64)"

fun base64url :: "nat list \<Rightarrow> string" where
  "base64url [] = []"
| "base64url [a] = [sextet (a div 4), sextet (a mod 4 * 16)]"
| "base64url [a, b] = [sextet (a div 4), sextet (a mod 4 * 16 + b div 16), sextet (b mod 16 * 4)]"
| "base64url (a # b # c # xs) =
    [sextet (a div 4), sextet (a mod 4 * 16 + b div 16), sextet (b mod 16 * 4 + c div 64), sextet c] @ base64url xs"

definition safe_locator :: "string \<Rightarrow> string" where
  "safe_locator locator = base64url (map of_char locator)"

definition credits_prover_path :: "string \<Rightarrow> string \<Rightarrow> string \<Rightarrow> string \<Rightarrow> string" where
  "credits_prover_path cachePath wasmHash network locator =
    path_join [path_join [cachePath, ''lionden-credits'', wasmHash, network], safe_locator locator @ ''.prover'']"

definition credits_metadata_path :: "string \<Rightarrow> string \<Rightarrow> string \<Rightarrow> string \<Rightarrow> string" where
  "credits_metadata_path cachePath wasmHash network locator =
    path_join [path_join [cachePath, ''lionden-credits'', wasmHash, network], safe_locator locator @ ''.metadata.json'']"

section \<open>The credits keys of the SDK\<close>

text \<open>An entry of \<^verbatim>\<open>CREDITS_PROGRAM_KEYS\<close>: a key, or a helper such as \<^verbatim>\<open>getKey\<close>.\<close>

datatype credits_value = CreditsKey string string string | CreditsHelper

record credits_config =
  cf_cachePath :: string
  cf_network :: string
  cf_wasmHash :: string
  cf_credits :: "(string, credits_value) omap"

text \<open>The members of the search parameters that are strings.\<close>

record key_search =
  sp_name :: "string option"
  sp_cacheKey :: "string option"
  sp_proverUri :: "string option"

definition given :: "string option \<Rightarrow> string option" where
  "given v = (if v = Some [] then None else v)"

definition entry_of_prover :: "(string, credits_value) omap \<Rightarrow> string \<Rightarrow> string option" where
  "entry_of_prover credits uri =
    map_option fst (find (\<lambda>(entry, value). entry \<noteq> ''getKey'' \<and> (case value of CreditsKey l p v \<Rightarrow> p = uri | CreditsHelper \<Rightarrow> False)) credits)"

definition own_entry :: "(string, credits_value) omap \<Rightarrow> string \<Rightarrow> bool" where
  "own_entry credits entry \<longleftrightarrow> om_has credits entry \<and> entry \<noteq> ''getKey''"

definition creditsEntryFromFunctionKeysParams :: "(string, credits_value) omap \<Rightarrow> key_search option \<Rightarrow> string option" where
  "creditsEntryFromFunctionKeysParams credits params =
    (case params of None \<Rightarrow> None
     | Some p \<Rightarrow>
        (let byName = (case given (sp_name p) of Some n \<Rightarrow> if own_entry credits n then Some n else None | None \<Rightarrow> None);
             byCacheKey = (case given (sp_cacheKey p) of
                 Some k \<Rightarrow> (if starts_with k ''credits.aleo/'' \<and> own_entry credits (drop 13 k) then Some (drop 13 k) else None)
               | None \<Rightarrow> None);
             byProver = (case given (sp_proverUri p) of Some uri \<Rightarrow> entry_of_prover credits uri | None \<Rightarrow> None)
         in case byName of Some n \<Rightarrow> Some n
          | None \<Rightarrow> (case byCacheKey of Some n \<Rightarrow> Some n | None \<Rightarrow> byProver)))"

definition transferKeyNameForVisibility :: "string \<Rightarrow> string option" where
  "transferKeyNameForVisibility visibility =
    (if visibility \<in> set [''private'', ''transfer_private'', ''transferPrivate''] then Some ''transfer_private''
     else if visibility \<in> set [''private_to_public'', ''privateToPublic'', ''transfer_private_to_public'', ''transferPrivateToPublic'']
       then Some ''transfer_private_to_public''
     else if visibility \<in> set [''public'', ''transfer_public'', ''transferPublic''] then Some ''transfer_public''
     else if visibility \<in> set [''public_as_signer'', ''transfer_public_as_signer'', ''transferPublicAsSigner'']
       then Some ''transfer_public_as_signer''
     else if visibility \<in> set [''public_to_private'', ''publicToPrivate'', ''transfer_public_to_private'', ''transferPublicToPrivate'']
       then Some ''transfer_public_to_private''
     else None)"

section \<open>Storing keys\<close>

text \<open>
  The environment: hashing and JSON, the SDK's proving keys of type \<^verbatim>\<open>'k\<close>, and whether the verifying
  key of a locator is given. \<^verbatim>\<open>keyToBytes\<close> gives no bytes for a value without a usable \<^verbatim>\<open>toBytes\<close>, and
  \<^verbatim>\<open>ProvingKey.fromBytes\<close> throws on bytes that encode no key.
\<close>

record 'k credits_env =
  ce_keys :: key_env
  ce_toBytes :: "'k \<Rightarrow> string option"
  ce_fromBytes :: "string \<Rightarrow> 'k option"
  ce_verifyingKey :: "string \<Rightarrow> bool"

definition credits_metadata :: "credits_config \<Rightarrow> string \<Rightarrow> key_fingerprint \<Rightarrow> credits_key_metadata" where
  "credits_metadata cf locator fp =
    \<lparr>kc_locator = locator, kc_network = cf_network cf, kc_wasmHash = cf_wasmHash cf, kc_prover = fp\<rparr>"

definition prover_file :: "credits_config \<Rightarrow> string \<Rightarrow> string" where
  "prover_file cf locator = credits_prover_path (cf_cachePath cf) (cf_wasmHash cf) (cf_network cf) locator"

definition metadata_file :: "credits_config \<Rightarrow> string \<Rightarrow> string" where
  "metadata_file cf locator = credits_metadata_path (cf_cachePath cf) (cf_wasmHash cf) (cf_network cf) locator"

definition isCreditsEntryCurrent :: "'k credits_env \<Rightarrow> files \<Rightarrow> credits_config \<Rightarrow> string \<Rightarrow> key_fingerprint \<Rightarrow> bool" where
  "isCreditsEntryCurrent e fs cf locator fingerprint =
    (case (om_get fs (prover_file cf locator), om_get fs (metadata_file cf locator)) of
      (Some onDisk, Some _) \<Rightarrow>
        (case readCreditsKeyCacheMetadata (ke_json (ce_keys e)) fs (metadata_file cf locator) of
          Inr (Some m) \<Rightarrow> kc_locator m = locator \<and> kc_network m = cf_network cf \<and> kc_wasmHash m = cf_wasmHash cf
            \<and> fingerprintsEqual (kc_prover m) fingerprint
            \<and> fingerprintsEqual (fingerprintBytes (ke_sha (ce_keys e)) onDisk) fingerprint
        | _ \<Rightarrow> False)
    | _ \<Rightarrow> False)"

text \<open>The disk operations of a call; none when the key gives no bytes.\<close>

definition persistCreditsIfMissing :: "'k credits_env \<Rightarrow> string \<Rightarrow> files \<Rightarrow> credits_config option \<Rightarrow> string \<Rightarrow> 'k
    \<Rightarrow> file_op list" where
  "persistCreditsIfMissing e stamp fs config name provingKey =
    (case config of None \<Rightarrow> []
     | Some cf \<Rightarrow>
        (case om_get (cf_credits cf) name of
          Some (CreditsKey locator p v) \<Rightarrow>
            if locator = [] then []
            else (case ce_toBytes e provingKey of None \<Rightarrow> []
              | Some bytes \<Rightarrow>
                  (let fingerprint = fingerprintBytes (ke_sha (ce_keys e)) bytes
                   in if isCreditsEntryCurrent e fs cf locator fingerprint then []
                      else writeFileAtomic stamp (prover_file cf locator) bytes
                        @ (case writeCreditsKeyCacheMetadata (ke_print (ce_keys e)) stamp (metadata_file cf locator)
                               (credits_metadata cf locator fingerprint) of Inl err \<Rightarrow> [] | Inr ops \<Rightarrow> ops)))
        | _ \<Rightarrow> []))"

datatype provider_call =
    BondPublicKeys | BondValidatorKeys | ClaimUnbondPublicKeys | FunctionKeys "key_search option" | FeePrivateKeys
  | FeePublicKeys | InclusionKeys | JoinKeys | SplitKeys | TransferKeys string | UnBondPublicKeys

fun stored_name :: "(string, credits_value) omap \<Rightarrow> provider_call \<Rightarrow> string option" where
  "stored_name credits BondPublicKeys = Some ''bond_public''"
| "stored_name credits BondValidatorKeys = Some ''bond_validator''"
| "stored_name credits ClaimUnbondPublicKeys = Some ''claim_unbond_public''"
| "stored_name credits (FunctionKeys params) = creditsEntryFromFunctionKeysParams credits params"
| "stored_name credits FeePrivateKeys = Some ''fee_private''"
| "stored_name credits FeePublicKeys = Some ''fee_public''"
| "stored_name credits InclusionKeys = Some ''inclusion''"
| "stored_name credits JoinKeys = Some ''join''"
| "stored_name credits SplitKeys = Some ''split''"
| "stored_name credits (TransferKeys visibility) = transferKeyNameForVisibility visibility"
| "stored_name credits UnBondPublicKeys = Some ''unbond_public''"

text \<open>A call of the provider: what the delegate gives, and the operations that store its proving key.\<close>

definition provide :: "'k credits_env \<Rightarrow> string \<Rightarrow> files \<Rightarrow> credits_config option \<Rightarrow> (provider_call \<Rightarrow> string + 'k)
    \<Rightarrow> provider_call \<Rightarrow> (string + 'k) \<times> file_op list" where
  "provide e stamp fs config delegate c =
    (case delegate c of
      Inl err \<Rightarrow> (Inl err, [])
    | Inr key \<Rightarrow> (Inr key,
        (case config of None \<Rightarrow> []
         | Some cf \<Rightarrow> (case stored_name (cf_credits cf) c of None \<Rightarrow> [] | Some name \<Rightarrow> persistCreditsIfMissing e stamp fs (Some cf) name key))))"

section \<open>Loading keys\<close>

definition warm_key :: "'k credits_env \<Rightarrow> files \<Rightarrow> credits_config \<Rightarrow> credits_value \<Rightarrow> (string \<times> 'k) option" where
  "warm_key e fs cf value =
    (case value of CreditsHelper \<Rightarrow> None
     | CreditsKey locator p v \<Rightarrow>
        (case (om_get fs (prover_file cf locator), readCreditsKeyCacheMetadata (ke_json (ce_keys e)) fs (metadata_file cf locator)) of
          (Some bytes, Inr (Some m)) \<Rightarrow>
            if kc_locator m = locator \<and> kc_network m = cf_network cf \<and> kc_wasmHash m = cf_wasmHash cf
              \<and> fingerprintsEqual (fingerprintBytes (ke_sha (ce_keys e)) bytes) (kc_prover m)
            then (case ce_fromBytes e bytes of None \<Rightarrow> None
                  | Some provingKey \<Rightarrow> if ce_verifyingKey e locator then Some (locator, provingKey) else None)
            else None
        | _ \<Rightarrow> None))"

text \<open>The keys given to \<^verbatim>\<open>keyProvider.cacheKeys\<close>, in order.\<close>

definition warmupCreditsKeys :: "'k credits_env \<Rightarrow> files \<Rightarrow> credits_config \<Rightarrow> (string \<times> 'k) list" where
  "warmupCreditsKeys e fs cf = List.map_filter (warm_key e fs cf) (map snd (cf_credits cf))"

section \<open>A stored key is loaded\<close>

lemma base64url_chars: "set (base64url xs) \<subseteq> set base64url_alphabet"
proof -
  have "sextet n \<in> set base64url_alphabet" for n
  proof -
    have "length base64url_alphabet = 64" by code_simp
    then show ?thesis unfolding sextet_def by (intro nth_mem) simp
  qed
  then show ?thesis by (induction xs rule: base64url.induct) auto
qed

lemma credits_names: "file_name (safe_locator l @ ''.prover'')" "file_name (safe_locator l @ ''.metadata.json'')"
proof -
  have "path_sep \<notin> set base64url_alphabet" by code_simp
  then have "path_sep \<notin> set (safe_locator l)" using base64url_chars unfolding safe_locator_def by blast
  then show "file_name (safe_locator l @ ''.prover'')" "file_name (safe_locator l @ ''.metadata.json'')"
    by (auto simp: file_name_def real_seg_def append_eq_Cons_conv)
qed

lemma credits_paths_differ:
  assumes "path_sep \<notin> set stamp"
  shows "prover_file cf l \<noteq> metadata_file cf l" "temp_path stamp p \<noteq> prover_file cf l" "temp_path stamp p \<noteq> metadata_file cf l"
proof -
  have names: "path_basename (prover_file cf l) = safe_locator l @ ''.prover''" "path_basename (metadata_file cf l) = safe_locator l @ ''.metadata.json''"
    "path_basename (temp_path stamp p) = ''.'' @ path_basename p @ ''.'' @ stamp @ ''.tmp''"
    using credits_names temp_path_basename [OF assms] by (simp_all add: prover_file_def metadata_file_def credits_prover_path_def credits_metadata_path_def)
  have "last (path_basename (prover_file cf l)) = CHR ''r''" "last (path_basename (metadata_file cf l)) = CHR ''n''"
    "last (path_basename (temp_path stamp p)) = CHR ''p''" unfolding names by simp_all
  then show "prover_file cf l \<noteq> metadata_file cf l" "temp_path stamp p \<noteq> prover_file cf l" "temp_path stamp p \<noteq> metadata_file cf l"
    by auto
qed

text \<open>The assumption on \<^verbatim>\<open>JSON\<close> for the metadata of a key.\<close>

definition credits_printed :: "'k credits_env \<Rightarrow> credits_config \<Rightarrow> string \<Rightarrow> string \<Rightarrow> bool" where
  "credits_printed e cf locator bytes =
    (let j = credits_json (credits_metadata cf locator (fingerprintBytes (ke_sha (ce_keys e)) bytes))
     in ke_json (ce_keys e) (ke_print (ce_keys e) j) = Some j)"

lemma credits_metadata_written:
  assumes "l \<noteq> []" "cf_network cf \<noteq> []" "cf_wasmHash cf \<noteq> []" "is_sha256_hex (ke_sha (ce_keys e) bytes)"
  shows "parseCreditsKeyCacheMetadata (credits_json (credits_metadata cf l (fingerprintBytes (ke_sha (ce_keys e)) bytes))) p
      = Inr (credits_metadata cf l (fingerprintBytes (ke_sha (ce_keys e)) bytes))"
  by (rule credits_round_trip) (use assms in \<open>simp_all add: credits_metadata_def valid_fingerprint_def fingerprintBytes_def\<close>)

text \<open>An entry loads when its file, its metadata and the SDK agree.\<close>

lemma credits_entry_loads:
  assumes "om_get fs (prover_file cf l) = Some bytes" and "om_get fs (metadata_file cf l) = Some s" and "ke_json (ce_keys e) s = Some v"
    and "parseCreditsKeyCacheMetadata v (metadata_file cf l) = Inr m" and "m = credits_metadata cf l (fingerprintBytes (ke_sha (ce_keys e)) bytes)"
    and "ce_fromBytes e bytes = Some key" and "ce_verifyingKey e l"
  shows "warm_key e fs cf (CreditsKey l p v') = Some (l, key)"
  using assms by (simp add: warm_key_def readCreditsKeyCacheMetadata_def read_metadata_def om_has_def readJson_def credits_metadata_def fingerprintsEqual_iff)

lemma warm_key_locator: "warm_key e fs cf value = Some (l, key) \<Longrightarrow> \<exists>p v. value = CreditsKey l p v"
  by (auto simp: warm_key_def split: credits_value.splits option.splits sum.splits if_splits)

lemma warm_key_uris: "warm_key e fs cf (CreditsKey l p v) = warm_key e fs cf (CreditsKey l p' v')"
  by (simp add: warm_key_def)

lemma warmed_iff:
  assumes "om_get (cf_credits cf) name = Some (CreditsKey l p v)"
  shows "(l, key) \<in> set (warmupCreditsKeys e fs cf) \<longleftrightarrow> warm_key e fs cf (CreditsKey l p v) = Some (l, key)"
proof
  assume "(l, key) \<in> set (warmupCreditsKeys e fs cf)"
  then obtain entry where warm: "warm_key e fs cf entry = Some (l, key)"
    by (auto simp: warmupCreditsKeys_def List.map_filter_def)
  then obtain p' v' where "entry = CreditsKey l p' v'" using warm_key_locator by metis
  then show "warm_key e fs cf (CreditsKey l p v) = Some (l, key)" using warm warm_key_uris by metis
next
  assume warm: "warm_key e fs cf (CreditsKey l p v) = Some (l, key)"
  have "(name, CreditsKey l p v) \<in> set (cf_credits cf)" using assms by (rule map_of_SomeD)
  with warm show "(l, key) \<in> set (warmupCreditsKeys e fs cf)"
    unfolding warmupCreditsKeys_def List.map_filter_def by force
qed

text \<open>An entry that is current for a key holds bytes that load, with the hash and the size of the key's.\<close>

lemma current_entry_loads:
  assumes now: "isCreditsEntryCurrent e fs cf l (fingerprintBytes (ke_sha (ce_keys e)) bytes)"
    and same: "\<And>b. om_get fs (prover_file cf l) = Some b
      \<Longrightarrow> fingerprintBytes (ke_sha (ce_keys e)) b = fingerprintBytes (ke_sha (ce_keys e)) bytes \<Longrightarrow> b = bytes"
    and "ce_fromBytes e bytes = Some key" "ce_verifyingKey e l"
  shows "warm_key e fs cf (CreditsKey l p v) = Some (l, key)"
proof -
  let ?sha = "ke_sha (ce_keys e)"
  obtain onDisk s m where disk: "om_get fs (prover_file cf l) = Some onDisk" "om_get fs (metadata_file cf l) = Some s"
    "readCreditsKeyCacheMetadata (ke_json (ce_keys e)) fs (metadata_file cf l) = Inr (Some m)" "kc_locator m = l"
    "kc_network m = cf_network cf" "kc_wasmHash m = cf_wasmHash cf" "kc_prover m = fingerprintBytes ?sha bytes"
    "fingerprintBytes ?sha onDisk = fingerprintBytes ?sha bytes"
    using now by (auto simp: isCreditsEntryCurrent_def fingerprintsEqual_iff split: option.splits sum.splits)
  moreover have "onDisk = bytes" using disk(1,8) by (rule same)
  ultimately show ?thesis using assms(3,4) by (simp add: warm_key_def fingerprintsEqual_iff)
qed

text \<open>
  C27: a proving key of \<^verbatim>\<open>credits.aleo\<close> that the provider stored is the key the next process loads:
  whatever the disk held before, after the call warm-up gives exactly that key under its locator, and
  no other. When the write is skipped this says that the entry found on disk is one that loading
  accepts and that gives the same key. Of the SDK only this key is assumed to survive \<^verbatim>\<open>toBytes\<close> and
  \<^verbatim>\<open>fromBytes\<close>, which may fail on any other bytes; of SHA-256, that it gives 64 hexadecimal digits and
  that a file already at the key's path with the key's hash and size holds the key's bytes.
\<close>

theorem stored_credits_key_is_loaded:
  assumes entry: "om_get (cf_credits cf) name = Some (CreditsKey l p v)" "l \<noteq> []" and stamp: "path_sep \<notin> set stamp"
    and named: "cf_network cf \<noteq> []" "cf_wasmHash cf \<noteq> []"
    and key: "ce_toBytes e provingKey = Some bytes" "ce_fromBytes e bytes = Some provingKey" "ce_verifyingKey e l"
    and hash: "is_sha256_hex (ke_sha (ce_keys e) bytes)"
      "\<And>b. om_get fs (prover_file cf l) = Some b
        \<Longrightarrow> fingerprintBytes (ke_sha (ce_keys e)) b = fingerprintBytes (ke_sha (ce_keys e)) bytes \<Longrightarrow> b = bytes"
    and printed: "credits_printed e cf l bytes"
  shows "{key. (l, key) \<in> set (warmupCreditsKeys e (file_runs (persistCreditsIfMissing e stamp fs (Some cf) name provingKey) fs) cf)}
    = {provingKey}"
proof -
  let ?P = "prover_file cf l" and ?M = "metadata_file cf l"
  let ?meta = "credits_metadata cf l (fingerprintBytes (ke_sha (ce_keys e)) bytes)"
  let ?ops = "persistCreditsIfMissing e stamp fs (Some cf) name provingKey"
  have "warm_key e (file_runs ?ops fs) cf (CreditsKey l p v) = Some (l, provingKey)"
  proof (cases "isCreditsEntryCurrent e fs cf l (fingerprintBytes (ke_sha (ce_keys e)) bytes)")
    case True
    then have "?ops = []" using entry key(1) by (simp add: persistCreditsIfMissing_def)
    then show ?thesis using current_entry_loads [OF True hash(2) key(2,3)] by (simp add: file_runs_def)
  next
    case False
    let ?text = "ke_print (ce_keys e) (credits_json ?meta)"
    note parsed = credits_metadata_written [OF entry(2) named hash(1)]
    have all: "?ops = writeFileAtomic stamp ?P bytes @ writeFileAtomic stamp ?M ?text"
      using False entry key(1) parsed by (simp add: persistCreditsIfMissing_def Let_def writeCreditsKeyCacheMetadata_def write_metadata_def)
    note differ = credits_paths_differ [OF stamp]
    have fs': "om_get (file_runs ?ops fs) ?P = Some bytes" "om_get (file_runs ?ops fs) ?M = Some ?text"
      unfolding all using differ(1) differ(2,3) [of _ cf l] differ(2) [of ?M cf l, symmetric]
      by (simp_all add: writeFileAtomic_def file_runs_def om_get_set om_get_delete)
    have "ke_json (ce_keys e) ?text = Some (credits_json ?meta)" using printed by (simp add: credits_printed_def Let_def)
    from credits_entry_loads [OF fs' this parsed refl key(2,3)] show ?thesis .
  qed
  then show ?thesis by (simp add: warmed_iff [OF entry(1)])
qed

text \<open>Bytes that encode no key are not loaded: the next process starts without that key.\<close>

lemma undecodable_key_is_skipped:
  assumes "om_get (cf_credits cf) name = Some (CreditsKey l p v)" "om_get fs (prover_file cf l) = Some bytes" "ce_fromBytes e bytes = None"
  shows "(l, key) \<notin> set (warmupCreditsKeys e fs cf)"
  using assms(2,3) by (simp add: warmed_iff [OF assms(1)] warm_key_def split: sum.split option.split)

section \<open>The key of a public fee\<close>

definition ex_credits :: credits_config where
  "ex_credits = \<lparr>cf_cachePath = ''/cache'', cf_network = ''testnet'', cf_wasmHash = ''w'',
     cf_credits = [(''fee_public'', CreditsKey ''credits.aleo/fee_public'' ''https://p'' ''https://v''), (''getKey'', CreditsHelper)]\<rparr>"

text \<open>Keys are numbers; the bytes of a key are a marked block of that many bytes, and other bytes encode no key.\<close>

definition ex_toBytes :: "nat \<Rightarrow> string option" where
  "ex_toBytes n = (if n = 0 then None else Some (''PK'' @ replicate n (CHR ''0'')))"

definition ex_fromBytes :: "string \<Rightarrow> nat option" where
  "ex_fromBytes s = (if take 2 s = ''PK'' \<and> drop 2 s \<noteq> [] \<and> list_all ((=) (CHR ''0'')) (drop 2 s) then Some (length s - 2) else None)"

definition ex_credits_env :: "nat credits_env" where
  "ex_credits_env = \<lparr>ce_keys = ex_key_env\<lparr>ke_json := (\<lambda>s. if s = ''META'' then Some (credits_json (credits_metadata ex_credits
       ''credits.aleo/fee_public'' (fingerprintBytes ex_sha ''PK000''))) else None)\<rparr>,
     ce_toBytes = ex_toBytes, ce_fromBytes = ex_fromBytes, ce_verifyingKey = (\<lambda>l. l = ''credits.aleo/fee_public'')\<rparr>"

text \<open>The disk has the prover of a torn write, with no metadata.\<close>

definition ex_torn :: files where
  "ex_torn = [(prover_file ex_credits ''credits.aleo/fee_public'', ''PK0'')]"

theorem stored_credits_key_is_loaded_witness:
  "{key. (''credits.aleo/fee_public'', key) \<in> set (warmupCreditsKeys ex_credits_env
      (file_runs (persistCreditsIfMissing ex_credits_env ''7'' ex_torn (Some ex_credits) ''fee_public'' 3) ex_torn) ex_credits)} = {3}"
proof (rule stored_credits_key_is_loaded [where bytes = "''PK000''"])
  show "om_get (cf_credits ex_credits) ''fee_public'' = Some (CreditsKey ''credits.aleo/fee_public'' ''https://p'' ''https://v'')"
    by (simp add: ex_credits_def)
  show "credits_printed ex_credits_env ex_credits ''credits.aleo/fee_public'' ''PK000''"
    by (simp add: credits_printed_def ex_credits_env_def ex_key_env_def)
  show "ce_toBytes ex_credits_env 3 = Some ''PK000''" "ce_fromBytes ex_credits_env ''PK000'' = Some 3"
    "is_sha256_hex (ke_sha (ce_keys ex_credits_env) ''PK000'')" by code_simp+
  show "b = ''PK000''" if "om_get ex_torn (prover_file ex_credits ''credits.aleo/fee_public'') = Some b"
    "fingerprintBytes (ke_sha (ce_keys ex_credits_env)) b = fingerprintBytes (ke_sha (ce_keys ex_credits_env)) ''PK000''" for b
    using that by (auto simp: ex_torn_def fingerprintBytes_def)
qed (simp_all add: ex_credits_def ex_credits_env_def)

end
