(* ===== verification/Materialize.thy ===== *)
theory Materialize imports Units Network begin

text \<open>
  The packages handed to the Leo compiler (\<^verbatim>\<open>packages/leo-compiler/src/package-materializer.ts\<close>)
  and the hashes that decide whether one is compiled again (\<^verbatim>\<open>cache.ts\<close>). The directories
  \<^verbatim>\<open>.build/<id>\<close>, the hash files and the cache of network dependencies are maps; a build directory is
  a map from the path of a directory below \<^verbatim>\<open>build/\<close> to its files.
\<close>

section \<open>The disk\<close>

record build_file =
  bf_text :: string
  bf_mtime :: int

type_synonym build_tree = "(string list, (string, build_file) omap) omap"

datatype leo_dep = NetworkDep string | LocalDep string string

record manifest =
  mf_program :: string
  mf_dependencies :: "leo_dep list"

record package =
  pk_sources :: "(string, string) omap"
  pk_imports :: "(string, string) omap"
  pk_manifest :: "manifest option"
  pk_env :: "string option"
  pk_build :: "build_tree option"

type_synonym artifact_dir = "(string list \<times> string, string) omap"

record compile_disk =
  cd_packages :: "(string, package) omap"
  cd_hashes :: "(string, string) omap"
  cd_network :: "(string \<times> string, string) omap"
  cd_artifacts :: "(string, artifact_dir) omap"

record compiler_flags =
  cf_enableDce :: bool
  cf_conditionalBlockMaxDepth :: string
  cf_buildTests :: bool
  cf_extraFlags :: "string list"

record compile_config =
  cc_artifacts :: string
  cc_networks :: "(string, network_setup) omap"
  cc_defaultNetwork :: string
  cc_leoVersion :: string
  cc_leoBinary :: string
  cc_flags :: compiler_flags

record rename_options =
  rn_source :: string
  rn_target :: string

datatype compile_error =
    UnitsFailed unit_error
  | RenameWithoutProgram
  | UnknownNetwork string
  | ProgramNotFound string
  | SourceUnreadable string
  | NotDeclared string string
  | FetchFailedFor string string
  | LeoFailed string string
  | AbiMissing string
  | AleoMissing string
  | AbiUnreadable string
  | AbiForeign string string
  | SidecarInvalid string
  | CopyFailed string

type_synonym 'a compile_act = "(compile_disk, compile_error, 'a) act"

section \<open>A package\<close>

definition effectiveUnitId :: "discovered_unit \<Rightarrow> rename_options option \<Rightarrow> string" where
  "effectiveUnitId u plan =
    (case plan of None \<Rightarrow> unitId u
     | Some r \<Rightarrow> if \<not> is_library u \<and> unitId u = rn_source r then rn_target r else unitId u)"

definition imports_of :: "dependency_graph \<Rightarrow> string \<Rightarrow> string list" where
  "imports_of g i = (case om_get (dg_imports g) i of None \<Rightarrow> [] | Some ds \<Rightarrow> ds)"

definition leo_dep_entry :: "dependency_graph \<Rightarrow> string \<Rightarrow> leo_dep" where
  "leo_dep_entry g dep =
    (if dep \<in> set (dg_networkDeps g) then NetworkDep dep
     else LocalDep (if ends_with dep ''.aleo'' then dep else dep @ ''.aleo'') dep)"

definition buildProgramJson :: "discovered_unit \<Rightarrow> dependency_graph \<Rightarrow> string \<Rightarrow> manifest" where
  "buildProgramJson u g effectiveId =
    \<lparr>mf_program = (if is_library u then unitId u @ ''.aleo'' else effectiveId),
     mf_dependencies = map (leo_dep_entry g) (imports_of g (unitId u))\<rparr>"

text \<open>The text of \<^verbatim>\<open>program.json\<close>: the path of a local dependency is that of its package.\<close>

definition dep_json :: "string \<Rightarrow> leo_dep \<Rightarrow> jsval" where
  "dep_json artifacts d =
    (case d of
      NetworkDep n \<Rightarrow> JObj [(''name'', JStr n), (''location'', JStr ''network'')]
    | LocalDep n i \<Rightarrow> JObj [(''name'', JStr n), (''location'', JStr ''local''), (''path'', JStr (path_join [artifacts, ''.build'', i]))])"

definition manifest_json :: "string \<Rightarrow> manifest \<Rightarrow> jsval" where
  "manifest_json artifacts m = JObj ([(''program'', JStr (mf_program m)), (''version'', JStr ''0.1.0''), (''description'', JStr []),
      (''license'', JStr ''MIT'')]
     @ (if mf_dependencies m = [] then [] else [(''dependencies'', JArr (map (dep_json artifacts) (mf_dependencies m)))]))"

definition rewriteMainProgramDeclaration :: "string \<Rightarrow> rename_options \<Rightarrow> compile_error + string" where
  "rewriteMainProgramDeclaration source r =
    (case find_program False (stripCommentsAndStrings source) of
      Some (declared, idStart) \<Rightarrow>
        if declared = rn_source r then Inr (take idStart source @ rn_target r @ drop (idStart + length declared) source)
        else Inl (NotDeclared (rn_source r) (rn_target r))
    | None \<Rightarrow> Inl (NotDeclared (rn_source r) (rn_target r)))"

definition newline_str :: string where "newline_str = [CHR 10]"

definition DEVNODE_PLACEHOLDER_KEY :: string where
  "DEVNODE_PLACEHOLDER_KEY = ''APrivateKey1zkp8CZNn3yeCseEtxuVPbDCwSyhGW6yZKUYKfgXmcpoGPWH''"

definition buildDotEnv :: "compile_config \<Rightarrow> string \<Rightarrow> string" where
  "buildDotEnv cfg network =
    (let net = om_get (cc_networks cfg) network;
         key = ''PRIVATE_KEY='' @ DEVNODE_PLACEHOLDER_KEY;
         ls = (case net of
            None \<Rightarrow> [''NETWORK=testnet'', key, ''ENDPOINT=http://127.0.0.1:3030'']
          | Some c \<Rightarrow> (case ns_type c of
              NetHttp \<Rightarrow> [''NETWORK='' @ ns_network c, ''ENDPOINT='' @ ns_endpoint c]
            | NetDevnode \<Rightarrow> [''NETWORK='' @ ns_network c, key, ''ENDPOINT=http://'' @ ns_socketAddr c, ''DEVNET=true'']))
     in concat (map (\<lambda>l. l @ newline_str) ls))"

definition rewritten_by :: "discovered_unit \<Rightarrow> rename_options option \<Rightarrow> string \<Rightarrow> rename_options option" where
  "rewritten_by u plan relPath =
    (case plan of Some r \<Rightarrow> if \<not> is_library u \<and> unitId u = rn_source r \<and> relPath = ''main.leo'' then Some r else None | None \<Rightarrow> None)"

text \<open>A source as it is copied into the package, and all of them.\<close>

definition copied_source :: "(string \<Rightarrow> string option) \<Rightarrow> discovered_unit \<Rightarrow> rename_options option \<Rightarrow> string \<Rightarrow> compile_error + string" where
  "copied_source read u plan relPath =
    (case read (path_join [u_sourceDir u, relPath]) of
      None \<Rightarrow> Inl (SourceUnreadable relPath)
    | Some text \<Rightarrow> (case rewritten_by u plan relPath of None \<Rightarrow> Inr text | Some r \<Rightarrow> rewriteMainProgramDeclaration text r))"

text \<open>A source that cannot be copied stops the copying; those before it are there.\<close>

fun copy_sources :: "(string \<Rightarrow> string option) \<Rightarrow> discovered_unit \<Rightarrow> rename_options option \<Rightarrow> (string, string) omap \<Rightarrow> string list
    \<Rightarrow> compile_error option \<times> (string, string) omap" where
  "copy_sources read u plan m [] = (None, m)"
| "copy_sources read u plan m (relPath # rest) =
    (case copied_source read u plan relPath of
      Inl err \<Rightarrow> (Some err, m)
    | Inr text \<Rightarrow> copy_sources read u plan (om_set relPath text m) rest)"

text \<open>
  The package is made anew, its \<^verbatim>\<open>build\<close> directory kept. A source that cannot be copied leaves a
  package without \<^verbatim>\<open>program.json\<close>.
\<close>

definition materializePackage :: "(string \<Rightarrow> string option) \<Rightarrow> compile_config \<Rightarrow> discovered_unit \<Rightarrow> dependency_graph \<Rightarrow> string
    \<Rightarrow> rename_options option \<Rightarrow> unit compile_act" where
  "materializePackage read cfg u g network plan = (\<lambda>d.
    let i = effectiveUnitId u plan;
        build = Option.bind (om_get (cd_packages d) i) pk_build;
        store = (\<lambda>p. d\<lparr>cd_packages := om_set i p (cd_packages d)\<rparr>)
    in case copy_sources read u plan [] (u_allSources u) of
         (Some err, sources) \<Rightarrow> (Inl err, store \<lparr>pk_sources = sources, pk_imports = [], pk_manifest = None, pk_env = None, pk_build = build\<rparr>)
       | (None, sources) \<Rightarrow> (Inr (), store \<lparr>pk_sources = sources, pk_imports = [], pk_manifest = Some (buildProgramJson u g i),
            pk_env = Some (buildDotEnv cfg network), pk_build = build\<rparr>))"

section \<open>Network dependencies\<close>

definition linkNetworkDependency :: "string \<Rightarrow> string \<Rightarrow> string \<Rightarrow> string \<Rightarrow> compile_disk \<Rightarrow> compile_disk" where
  "linkNetworkDependency i dep source scope d =
    d\<lparr>cd_network := om_set (scope, dep) source (cd_network d),
      cd_packages := (case om_get (cd_packages d) i of None \<Rightarrow> cd_packages d
        | Some p \<Rightarrow> om_set i (p\<lparr>pk_imports := om_set dep source (pk_imports p)\<rparr>) (cd_packages d))\<rparr>"

definition getCachedNetworkDep :: "compile_disk \<Rightarrow> string \<Rightarrow> string \<Rightarrow> string option" where
  "getCachedNetworkDep d dep scope = om_get (cd_network d) (scope, dep)"

section \<open>Hashes\<close>

text \<open>What \<^verbatim>\<open>computeUnitHash\<close> feeds to SHA-256, piece by piece.\<close>

datatype hash_piece = SourcePiece string string | ManifestPiece string | VersionPiece string | DepPiece string string | NetworkPiece string string

fun piece_text :: "hash_piece \<Rightarrow> string" where
  "piece_text (SourcePiece rel text) = ''file:'' @ rel @ newline_str @ text"
| "piece_text (ManifestPiece text) = ''program.json'' @ newline_str @ text"
| "piece_text (VersionPiece v) = ''compiler-version:'' @ v @ newline_str"
| "piece_text (DepPiece i h) = ''dep:'' @ i @ '':'' @ h @ newline_str"
| "piece_text (NetworkPiece n text) = ''network-dep:'' @ n @ newline_str @ text"

record hash_env =
  he_sha :: "string \<Rightarrow> string"
  he_print :: "jsval \<Rightarrow> string"
  he_read :: "string \<Rightarrow> string option"

definition manifest_text :: "hash_env \<Rightarrow> string \<Rightarrow> manifest \<Rightarrow> string" where
  "manifest_text h artifacts m = he_print h (manifest_json artifacts m) @ newline_str"

definition unit_pieces :: "hash_env \<Rightarrow> compile_config \<Rightarrow> discovered_unit \<Rightarrow> package option \<Rightarrow> string list
    \<Rightarrow> (string, string) omap \<Rightarrow> string list \<Rightarrow> hash_piece list" where
  "unit_pieces h cfg u pk localDepIds depHashes networkDepIds =
    List.map_filter (\<lambda>rel. map_option (SourcePiece rel) (he_read h (path_join [u_sourceDir u, rel]))) (sort (u_allSources u))
    @ (case Option.bind pk pk_manifest of None \<Rightarrow> [] | Some m \<Rightarrow> [ManifestPiece (manifest_text h (cc_artifacts cfg) m)])
    @ [VersionPiece (cc_leoVersion cfg)]
    @ List.map_filter (\<lambda>dep. case om_get depHashes dep of None \<Rightarrow> None | Some hash \<Rightarrow> if hash = [] then None else Some (DepPiece dep hash))
        (sort localDepIds)
    @ List.map_filter (\<lambda>dep. map_option (NetworkPiece dep) (Option.bind pk (\<lambda>p. om_get (pk_imports p) dep))) (sort networkDepIds)"

definition hash_pieces :: "(string \<Rightarrow> string) \<Rightarrow> hash_piece list \<Rightarrow> string" where
  "hash_pieces sha ps = sha (concat (map piece_text ps))"

definition computeUnitHash :: "hash_env \<Rightarrow> compile_config \<Rightarrow> discovered_unit \<Rightarrow> package option \<Rightarrow> string list
    \<Rightarrow> (string, string) omap \<Rightarrow> string list \<Rightarrow> string" where
  "computeUnitHash h cfg u pk localDepIds depHashes networkDepIds =
    hash_pieces (he_sha h) (unit_pieces h cfg u pk localDepIds depHashes networkDepIds)"

definition isCached :: "compile_disk \<Rightarrow> string \<Rightarrow> string \<Rightarrow> bool" where
  "isCached d cacheId currentHash \<longleftrightarrow> map_option js_trim (om_get (cd_hashes d) cacheId) = Some currentHash"

definition writeCache :: "string \<Rightarrow> string \<Rightarrow> compile_disk \<Rightarrow> compile_disk" where
  "writeCache cacheId hash d = d\<lparr>cd_hashes := om_set cacheId (hash @ newline_str) (cd_hashes d)\<rparr>"

section \<open>Facts\<close>

lemma match_program_at: "match_program s = Some (n, off) \<Longrightarrow> \<exists>a b. s = a @ n @ b \<and> length a = off \<and> list_all (\<lambda>c. c \<noteq> space) n"
proof -
  assume m: "match_program s = Some (n, off)"
  obtain s1 s2 s3 where s1: "s = ''program'' @ s1" and s2: "match_spaces s1 = Some s2" and s3: "match_id s2 = Some (n, s3)"
    and off: "off = length s - length s2"
  proof -
    obtain s1 s2 n' s3 where "s = ''program'' @ s1" "match_spaces s1 = Some s2" "match_id s2 = Some (n', s3)"
      "(case skip_spaces s3 of c # _ \<Rightarrow> if c = CHR '':'' \<or> c = CHR ''{'' then Some (n', length s - length s2) else None | [] \<Rightarrow> None) = Some (n, off)"
      using m unfolding match_program_def bind_eq_Some_conv strip_prefix_Some by auto
    then show thesis using that by (cases "skip_spaces s3") (auto split: if_splits)
  qed
  have "s2 = dropWhile is_js_space s1" using s2 by (auto simp: match_spaces_def skip_spaces_def split: if_splits)
  then obtain sp where sp: "s1 = sp @ s2" using takeWhile_dropWhile_id [of is_js_space s1] by metis
  obtain w where w: "s2 = w @ ''.aleo'' @ s3" "n = w @ ''.aleo''" "list_all is_word w" using match_id_Some [OF s3] by metis
  have "\<not> is_word space" "space \<noteq> CHR ''.''" "space \<noteq> CHR ''a''" "space \<noteq> CHR ''l''" "space \<noteq> CHR ''e''" "space \<noteq> CHR ''o''" by code_simp+
  then have "list_all (\<lambda>c. c \<noteq> space) n" using w(2,3) by (auto simp: list_all_iff)
  then show ?thesis using s1 sp w off by (intro exI [of _ "''program'' @ sp"] exI [of _ s3]) simp
qed

lemma find_program_at: "find_program prev s = Some (n, off) \<Longrightarrow> \<exists>a b. s = a @ n @ b \<and> length a = off \<and> list_all (\<lambda>c. c \<noteq> space) n"
proof (induction prev s arbitrary: off rule: find_program.induct)
  case (2 prev c cs)
  show ?case
  proof (cases "if prev then None else match_program (c # cs)")
    case (Some x)
    then have "match_program (c # cs) = Some (n, off)" using "2.prems" by (cases x) (auto split: if_splits)
    then show ?thesis by (rule match_program_at)
  next
    case None
    then obtain off' where o: "find_program (is_word c) cs = Some (n, off')" "off = Suc off'" using "2.prems" by auto
    from "2.IH" [OF None o(1)] obtain a b where "cs = a @ n @ b" "length a = off'" "list_all (\<lambda>c. c \<noteq> space) n" by blast
    then show ?thesis using o(2) by (intro exI [of _ "c # a"] exI [of _ b]) simp
  qed
qed simp

lemma blanked_same: "list_all2 blanked xs n \<Longrightarrow> list_all (\<lambda>c. c \<noteq> space) n \<Longrightarrow> xs = n"
  by (induction xs n rule: list_all2_induct) (auto simp: blanked_def)

text \<open>A program renamed in its source declares the new id where the old one stood; nothing else changes.\<close>

lemma rewrite_declaration:
  assumes "rewriteMainProgramDeclaration source r = Inr text"
  shows "\<exists>a b. source = a @ rn_source r @ b \<and> text = a @ rn_target r @ b"
proof -
  obtain idStart where found: "find_program False (stripCommentsAndStrings source) = Some (rn_source r, idStart)"
    and new: "text = take idStart source @ rn_target r @ drop (idStart + length (rn_source r)) source"
    using assms by (auto simp: rewriteMainProgramDeclaration_def split: option.splits if_splits)
  obtain a b where s: "stripCommentsAndStrings source = a @ rn_source r @ b" "length a = idStart" "list_all (\<lambda>c. c \<noteq> space) (rn_source r)"
    using find_program_at [OF found] by blast
  have "list_all2 blanked source (a @ rn_source r @ b)" using strip_ok [of source] s(1) by simp
  then obtain xs ys zs where "source = xs @ ys @ zs" "list_all2 blanked xs a" "list_all2 blanked ys (rn_source r)"
    by (auto simp: list_all2_append2)
  moreover from this have "ys = rn_source r" "length xs = idStart" using blanked_same s(2,3) by (auto dest: list_all2_lengthD)
  ultimately show ?thesis using new by auto
qed

text \<open>
  The hashed text does not delimit its parts: two different packages, one with a file whose content
  imitates the header of another, have the same hash.
\<close>

lemma hash_text_ambiguous:
  "concat (map piece_text [SourcePiece ''a.leo'' (''x'' @ ''file:b.leo'' @ newline_str @ ''y'')])
    = concat (map piece_text [SourcePiece ''a.leo'' ''x'', SourcePiece ''b.leo'' ''y''])"
  by simp

text \<open>The flags of the compiler do not enter the hash.\<close>

lemma flags_not_hashed:
  "computeUnitHash h (cfg\<lparr>cc_flags := flags, cc_leoBinary := binary\<rparr>) u pk localDepIds depHashes networkDepIds
    = computeUnitHash h cfg u pk localDepIds depHashes networkDepIds"
  by (cases pk) (auto simp: computeUnitHash_def unit_pieces_def manifest_text_def split: option.splits)

end
