(* ===== verification/BuildArtifacts.thy ===== *)
theory BuildArtifacts imports Materialize KeyArtifacts begin

text \<open>
  What \<^verbatim>\<open>leo build\<close> leaves in a build directory and what the compiler takes from it
  (the second half of \<^verbatim>\<open>packages/leo-compiler/src/compiler.ts\<close>): the ABI, the compiled program, the
  keys, the interfaces, and the sidecar that records the hashes of the keys. A file is named by the
  path of its directory below \<^verbatim>\<open>build/\<close> and its name.
\<close>

type_synonym file_ref = "string list \<times> string"

section \<open>Finding the artifacts\<close>

record build_artifacts =
  ra_abi :: "file_ref option"
  ra_aleo :: "file_ref option"
  ra_keys :: "file_ref list"
  ra_interfaces :: "string list list"

definition dir_files :: "build_tree \<Rightarrow> string list \<Rightarrow> (string, build_file) omap" where
  "dir_files t dir = (case om_get t dir of None \<Rightarrow> [] | Some fs \<Rightarrow> fs)"

definition existingFile :: "build_tree \<Rightarrow> string list \<Rightarrow> string \<Rightarrow> file_ref option" where
  "existingFile t dir name = (if om_has (dir_files t dir) name then Some (dir, name) else None)"

definition file_at :: "build_tree \<Rightarrow> file_ref \<Rightarrow> build_file option" where
  "file_at t f = om_get (dir_files t (fst f)) (snd f)"

definition candidateNames :: "string \<Rightarrow> string list" where
  "candidateNames i = js_dedup [''main.aleo'', if ends_with i ''.aleo'' then i else i @ ''.aleo'', drop_aleo i @ ''.aleo'']"

definition findAleoOutput :: "(string list \<Rightarrow> string list) \<Rightarrow> build_tree \<Rightarrow> string list \<Rightarrow> string \<Rightarrow> file_ref option" where
  "findAleoOutput collate t dir i =
    (case List.map_filter (existingFile t dir) (candidateNames i) of
      f # _ \<Rightarrow> Some f
    | [] \<Rightarrow> (case collate (filter (\<lambda>n. ends_with n ''.aleo'') (om_keys (dir_files t dir))) of [] \<Rightarrow> None | n # _ \<Rightarrow> Some (dir, n)))"

definition preferredBuildUnitDirs :: "build_tree \<Rightarrow> string \<Rightarrow> string list list" where
  "preferredBuildUnitDirs t i = filter (om_has t) (js_dedup [[], [i], [drop_aleo i]])"

definition artifact_age :: "(string list \<Rightarrow> string list) \<Rightarrow> build_tree \<Rightarrow> string \<Rightarrow> string list \<Rightarrow> (string list \<times> int) option" where
  "artifact_age collate t i dir =
    (case (case existingFile t dir ''abi.json'' of Some f \<Rightarrow> Some f | None \<Rightarrow> findAleoOutput collate t dir i) of
      None \<Rightarrow> None
    | Some f \<Rightarrow> map_option (\<lambda>b. (dir, bf_mtime b)) (file_at t f))"

text \<open>The directory with the newest artifact; the sort is stable, so the first of equals.\<close>

definition newestBuildArtifactMatch :: "(string list \<Rightarrow> string list) \<Rightarrow> build_tree \<Rightarrow> string list list \<Rightarrow> string \<Rightarrow> string list option" where
  "newestBuildArtifactMatch collate t dirs i =
    (case sort_key (\<lambda>(dir, mtime). - mtime) (List.map_filter (artifact_age collate t i) dirs) of
      [] \<Rightarrow> None | (dir, _) # _ \<Rightarrow> Some dir)"

definition findBuildUnitDir :: "(string list \<Rightarrow> string list) \<Rightarrow> build_tree \<Rightarrow> string \<Rightarrow> string list" where
  "findBuildUnitDir collate t i =
    (case newestBuildArtifactMatch collate t (preferredBuildUnitDirs t i) i of Some dir \<Rightarrow> dir | None \<Rightarrow> [])"

definition no_artifacts :: build_artifacts where
  "no_artifacts = \<lparr>ra_abi = None, ra_aleo = None, ra_keys = [], ra_interfaces = []\<rparr>"

definition resolveBuildArtifacts :: "(string list \<Rightarrow> string list) \<Rightarrow> build_tree option \<Rightarrow> string \<Rightarrow> build_artifacts" where
  "resolveBuildArtifacts collate build i =
    (case build of None \<Rightarrow> no_artifacts
     | Some t \<Rightarrow>
        (let unitDir = findBuildUnitDir collate t i
         in \<lparr>ra_abi = existingFile t unitDir ''abi.json'', ra_aleo = findAleoOutput collate t unitDir i,
             ra_keys = map (Pair unitDir) (collate (filter (\<lambda>n. ends_with n ''.prover'' \<or> ends_with n ''.verifier'') (om_keys (dir_files t unitDir)))),
             ra_interfaces = filter (om_has t) (js_dedup [unitDir @ [''interfaces''], [''interfaces'']])\<rparr>))"

definition hasRequiredProgramArtifacts :: "(string list \<Rightarrow> string list) \<Rightarrow> build_tree option \<Rightarrow> string \<Rightarrow> bool" where
  "hasRequiredProgramArtifacts collate build i \<longleftrightarrow>
    ra_abi (resolveBuildArtifacts collate build i) \<noteq> None \<and> ra_aleo (resolveBuildArtifacts collate build i) \<noteq> None"

section \<open>Copying them\<close>

definition copy_file :: "build_tree \<Rightarrow> file_ref \<Rightarrow> file_ref \<Rightarrow> artifact_dir \<Rightarrow> artifact_dir" where
  "copy_file t src dest a = (case file_at t src of None \<Rightarrow> a | Some b \<Rightarrow> om_set dest (bf_text b) a)"

text \<open>\<^verbatim>\<open>copyDirectory\<close>: the files of a directory and of those below it.\<close>

definition copyDirectory :: "build_tree \<Rightarrow> string list \<Rightarrow> string list \<Rightarrow> artifact_dir \<Rightarrow> artifact_dir" where
  "copyDirectory t srcDir destDir a =
    fold (\<lambda>(dir, fs) a. fold (\<lambda>(n, b) a. om_set (destDir @ drop (length srcDir) dir, n) (bf_text b) a) fs a)
      (filter (\<lambda>(dir, fs). prefix srcDir dir) t) a"

definition copyArtifacts :: "(string list \<Rightarrow> string list) \<Rightarrow> build_tree option \<Rightarrow> string \<Rightarrow> compile_error + artifact_dir" where
  "copyArtifacts collate build i =
    (let arts = resolveBuildArtifacts collate build i; t = (case build of None \<Rightarrow> [] | Some t \<Rightarrow> t)
     in case (ra_abi arts, ra_aleo arts) of
          (None, _) \<Rightarrow> Inl (AbiMissing i)
        | (_, None) \<Rightarrow> Inl (AleoMissing i)
        | (Some abi, Some aleo) \<Rightarrow>
            Inr (fold (\<lambda>dir. copyDirectory t dir [''interfaces'']) (ra_interfaces arts)
                  (fold (\<lambda>f. copy_file t f ([], snd f)) (ra_keys arts)
                    (copy_file t aleo ([], ''main.aleo'') (copy_file t abi ([], ''abi.json'') [])))))"

section \<open>The sidecar\<close>

definition root_files :: "artifact_dir \<Rightarrow> (string, string) omap" where
  "root_files a = List.map_filter (\<lambda>((dir, n), text). if dir = [] then Some (n, text) else None) a"

definition stems :: "string \<Rightarrow> (string, string) omap \<Rightarrow> string list" where
  "stems ending fs = map (\<lambda>n. take (length n - length ending) n) (filter (\<lambda>n. ends_with n ending) (om_keys fs))"

definition findUnambiguousKeyStem :: "string list \<Rightarrow> string \<Rightarrow> string \<Rightarrow> nat \<Rightarrow> string option" where
  "findUnambiguousKeyStem pairedStems programId transition transitionCount =
    (let base = drop_aleo programId
     in case find (\<lambda>c. c \<in> set pairedStems) [transition, base @ ''.'' @ transition, programId @ ''.'' @ transition, base @ ''_'' @ transition] of
          Some c \<Rightarrow> Some c
        | None \<Rightarrow> if transitionCount = 1 \<and> length pairedStems = 1 then Some (hd pairedStems) else None)"

definition key_ref_of :: "(string \<Rightarrow> string) \<Rightarrow> (string, string) omap \<Rightarrow> string \<Rightarrow> key_file_ref option" where
  "key_ref_of sha fs n = map_option (\<lambda>bytes. \<lparr>kr_path = n, kr_fingerprint = fingerprintBytes sha bytes\<rparr>) (om_get fs n)"

definition collectKeyArtifactFunctionRefs :: "(string list \<Rightarrow> string list) \<Rightarrow> (string \<Rightarrow> string) \<Rightarrow> artifact_dir \<Rightarrow> string \<Rightarrow> string list
    \<Rightarrow> key_function_ref list" where
  "collectKeyArtifactFunctionRefs collate sha a programId transitions =
    (let fs = root_files a;
         paired = collate (filter (\<lambda>s. s \<in> set (stems ''.verifier'' fs)) (stems ''.prover'' fs))
     in if paired = [] then []
        else List.map_filter (\<lambda>transition.
          case findUnambiguousKeyStem paired programId transition (length transitions) of
            None \<Rightarrow> None
          | Some stem \<Rightarrow> if stem = [] then None
              else Some \<lparr>kn_transition = transition, kn_prover = key_ref_of sha fs (stem @ ''.prover''),
                         kn_verifier = key_ref_of sha fs (stem @ ''.verifier'')\<rparr>) transitions)"

text \<open>The files of \<^verbatim>\<open>imports/\<close>, which has no directories.\<close>

definition hashPackageImports :: "(string list \<Rightarrow> string list) \<Rightarrow> (string \<Rightarrow> string) \<Rightarrow> (jsval \<Rightarrow> string) \<Rightarrow> (string, string) omap \<Rightarrow> string" where
  "hashPackageImports collate sha stringify imports' =
    sha (stringify (JObj [(''imports'', JArr (map (\<lambda>n. JObj [(''path'', JStr n),
      (''sourceHash'', JStr (sha (the (om_get imports' n))))]) (collate (om_keys imports'))))]))"

definition transition_names :: "jsval \<Rightarrow> string list" where
  "transition_names abi =
    (case prop_of abi ''transitions'' of JArr ts \<Rightarrow> List.map_filter (\<lambda>t. case prop_of t ''name'' of JStr n \<Rightarrow> Some n | _ \<Rightarrow> None) ts
     | _ \<Rightarrow> [])"

definition buildKeyArtifactsMetadata :: "(string list \<Rightarrow> string list) \<Rightarrow> (string \<Rightarrow> string) \<Rightarrow> (jsval \<Rightarrow> string) \<Rightarrow> (string, string) omap
    \<Rightarrow> artifact_dir \<Rightarrow> string \<Rightarrow> string \<Rightarrow> jsval \<Rightarrow> key_artifacts_metadata" where
  "buildKeyArtifactsMetadata collate sha stringify imports' a programId sourceProgramId abi =
    (let fns = collectKeyArtifactFunctionRefs collate sha a programId (transition_names abi)
     in \<lparr>ka_programId = programId, ka_sourceProgramId = sourceProgramId,
         ka_sourceHash = sha (case om_get a ([], ''main.aleo'') of None \<Rightarrow> [] | Some text \<Rightarrow> text),
         ka_importsHash = hashPackageImports collate sha stringify imports',
         ka_functions = (if fns = [] then None else Some fns)\<rparr>)"

end
