(* ===== verification/Compiler.thy ===== *)
theory Compiler imports BuildArtifacts begin

text \<open>
  The compile pipeline (\<^verbatim>\<open>packages/leo-compiler/src/compiler.ts\<close>): discover, resolve, materialize,
  link the network dependencies, compile in order with the cache. \<^verbatim>\<open>leo build\<close> is an argument: it is
  given its arguments, the \<^verbatim>\<open>.env\<close>, what it reads of the package and of the packages its
  dependencies name, and the build directory as it is, and leaves a build directory.
\<close>

section \<open>The environment\<close>

text \<open>
  What is read of a package: its files, by name, the text of its \<^verbatim>\<open>program.json\<close>, and its local
  dependencies by the paths there. The depth is that of the paths followed.
\<close>

datatype leo_view = LeoView "(string \<times> string) list" "(string \<times> string) list" string "(string \<times> leo_view) list"

definition listed :: "(string, string) omap \<Rightarrow> (string \<times> string) list" where
  "listed m = map (\<lambda>k. (k, the (om_get m k))) (sort (js_dedup (om_keys m)))"

definition local_deps :: "manifest \<Rightarrow> string list" where
  "local_deps m = List.map_filter (\<lambda>d. case d of NetworkDep n \<Rightarrow> None | LocalDep n i \<Rightarrow> Some i) (mf_dependencies m)"

fun package_view :: "(manifest \<Rightarrow> string) \<Rightarrow> nat \<Rightarrow> (string, package) omap \<Rightarrow> string \<Rightarrow> leo_view option" where
  "package_view pr 0 ps i = None"
| "package_view pr (Suc n) ps i =
    (case om_get ps i of
      None \<Rightarrow> None
    | Some p \<Rightarrow> (case pk_manifest p of
        None \<Rightarrow> None
      | Some m \<Rightarrow> Some (LeoView (listed (pk_sources p)) (listed (pk_imports p)) (pr m)
          (List.map_filter (\<lambda>d. map_option (Pair d) (package_view pr n ps d)) (sort (js_dedup (local_deps m)))))))"

record compile_env =
  xc_config :: compile_config
  xc_units :: "unit_error + discovered_unit list"
  xc_hash :: hash_env
  xc_stringify :: "jsval \<Rightarrow> string"
  xc_json :: parse_json
  xc_ft :: "jsnum \<Rightarrow> string"
  xc_collate :: "string list \<Rightarrow> string list"
  xc_fetch :: "string \<Rightarrow> string \<Rightarrow> string option \<Rightarrow> string + string"
  xc_leo :: "string \<Rightarrow> string list \<Rightarrow> string option \<Rightarrow> leo_view option \<Rightarrow> build_tree option \<Rightarrow> string option \<times> build_tree option"

record compile_options =
  co_force :: bool
  co_program :: "string option"
  co_network :: "string option"
  co_rename :: "string option"

definition given_program :: "compile_options \<Rightarrow> string option" where
  "given_program opts = (if co_program opts = Some [] then None else co_program opts)"

section \<open>Fetching a dependency\<close>

text \<open>\<^verbatim>\<open>defaultFetchNetworkDep\<close>: the source that the node gives, on the hinted network or on the first that has it.\<close>

definition fetch_networks :: "string option \<Rightarrow> string list" where
  "fetch_networks hint = (case hint of Some h \<Rightarrow> if h = [] then [''testnet'', ''mainnet'', ''canary''] else [h]
    | None \<Rightarrow> [''testnet'', ''mainnet'', ''canary''])"

definition fetch_url :: "string \<Rightarrow> string \<Rightarrow> string \<Rightarrow> string" where
  "fetch_url endpoint network programId = endpoint @ ''/'' @ network @ ''/program/'' @ programId"

text \<open>An answer: the status and body, or why there is none; a body that cannot be read is like no answer.\<close>

fun try_networks :: "(string \<Rightarrow> string + (nat \<times> (string + string))) \<Rightarrow> string \<Rightarrow> string \<Rightarrow> string list \<Rightarrow> (string \<times> string) list
    \<Rightarrow> (string \<times> string) list + string" where
  "try_networks http endpoint programId [] errors = Inl errors"
| "try_networks http endpoint programId (network # rest) errors =
    (case http (fetch_url endpoint network programId) of
      Inl reason \<Rightarrow> try_networks http endpoint programId rest (errors @ [(network, reason)])
    | Inr (status, body) \<Rightarrow>
        if 200 \<le> status \<and> status \<le> 299
        then (case body of Inr source \<Rightarrow> Inr source
              | Inl reason \<Rightarrow> try_networks http endpoint programId rest (errors @ [(network, reason)]))
        else try_networks http endpoint programId rest (errors @ [(network, ''HTTP '' @ nat_str status)]))"

definition defaultFetchNetworkDep :: "(string \<Rightarrow> string + (nat \<times> (string + string))) \<Rightarrow> string \<Rightarrow> string \<Rightarrow> string option
    \<Rightarrow> (string \<times> string) list + string" where
  "defaultFetchNetworkDep http programId endpoint hint = try_networks http endpoint programId (fetch_networks hint) []"

text \<open>Endpoint, network and the scope of the cache of network dependencies.\<close>

definition networkDepCacheScope :: "(string \<Rightarrow> string) \<Rightarrow> compile_config \<Rightarrow> string \<Rightarrow> string \<times> string option \<times> string" where
  "networkDepCacheScope sha cfg networkName =
    (let net = om_get (cc_networks cfg) networkName;
         endpoint = (case net of None \<Rightarrow> ''http://127.0.0.1:3030''
           | Some c \<Rightarrow> (case ns_type c of NetHttp \<Rightarrow> ns_endpoint c | NetDevnode \<Rightarrow> ''http://'' @ ns_socketAddr c));
         hint = map_option ns_network net
     in (endpoint, hint, (case hint of None \<Rightarrow> ''default'' | Some n \<Rightarrow> n) @ ''-'' @ take 8 (sha endpoint)))"

section \<open>Building\<close>

text \<open>\<^verbatim>\<open>/^(\d+)\.(\d+)\./\<close>\<close>

definition emitsLegacyBuildFlags :: "string \<Rightarrow> bool" where
  "emitsLegacyBuildFlags version =
    (let major = takeWhile is_digit version; rest = drop (length major) version;
         minor = takeWhile is_digit (tl rest); rest' = drop (length minor) (tl rest)
     in major \<noteq> [] \<and> rest \<noteq> [] \<and> hd rest = CHR ''.'' \<and> minor \<noteq> [] \<and> rest' \<noteq> [] \<and> hd rest' = CHR ''.''
        \<and> (digits_val 10 major < 4 \<or> (digits_val 10 major = 4 \<and> digits_val 10 minor < 2)))"

definition leo_args :: "compile_config \<Rightarrow> string \<Rightarrow> string list" where
  "leo_args cfg i =
    (let legacy = emitsLegacyBuildFlags (cc_leoVersion cfg); flags = cc_flags cfg
     in [''--disable-update-check'', ''build'', ''--path'', path_join [cc_artifacts cfg, ''.build'', i]]
      @ (if legacy \<and> cf_enableDce flags then [''--enable-dce''] else [])
      @ (if legacy \<and> cf_conditionalBlockMaxDepth flags \<noteq> ''10''
         then [''--conditional-block-max-depth'', cf_conditionalBlockMaxDepth flags] else [])
      @ (if cf_buildTests flags then [''--build-tests''] else [])
      @ cf_extraFlags flags)"

definition set_build :: "string \<Rightarrow> build_tree option \<Rightarrow> compile_disk \<Rightarrow> compile_disk" where
  "set_build i build d =
    d\<lparr>cd_packages := (case om_get (cd_packages d) i of None \<Rightarrow> cd_packages d
        | Some p \<Rightarrow> om_set i (p\<lparr>pk_build := build\<rparr>) (cd_packages d))\<rparr>"

definition build_of :: "compile_disk \<Rightarrow> string \<Rightarrow> build_tree option" where
  "build_of d i = Option.bind (om_get (cd_packages d) i) pk_build"

definition view_of :: "compile_env \<Rightarrow> compile_disk \<Rightarrow> string \<Rightarrow> leo_view option" where
  "view_of e d i = package_view (manifest_text (xc_hash e) (cc_artifacts (xc_config e))) (Suc (length (cd_packages d))) (cd_packages d) i"

definition runLeoBuild :: "compile_env \<Rightarrow> string \<Rightarrow> unit compile_act" where
  "runLeoBuild e i = (\<lambda>d.
    case xc_leo e (cc_leoBinary (xc_config e)) (leo_args (xc_config e) i) (Option.bind (om_get (cd_packages d) i) pk_env)
        (view_of e d i) (build_of d i) of
      (None, build) \<Rightarrow> (Inr (), set_build i build d)
    | (Some message, build) \<Rightarrow> (Inl (LeoFailed i message), set_build i build d))"

definition readProgramAbi :: "compile_env \<Rightarrow> build_tree option \<Rightarrow> string \<Rightarrow> compile_error + jsval" where
  "readProgramAbi e build i =
    (case ra_abi (resolveBuildArtifacts (xc_collate e) build i) of
      None \<Rightarrow> Inl (AbiMissing i)
    | Some f \<Rightarrow>
        (case file_at (case build of None \<Rightarrow> [] | Some t \<Rightarrow> t) f of
          None \<Rightarrow> Inl (AbiMissing i)
        | Some b \<Rightarrow>
            (case parseAbi (xc_ft e) (xc_json e (bf_text b)) of
              Inl err \<Rightarrow> Inl (AbiUnreadable i)
            | Inr abi \<Rightarrow> if prop_of abi ''program'' = JStr i then Inr abi else Inl (AbiForeign (js_String (xc_ft e) (prop_of abi ''program'')) i))))"

definition storeArtifacts :: "compile_env \<Rightarrow> discovered_unit \<Rightarrow> string \<Rightarrow> jsval \<Rightarrow> unit compile_act" where
  "storeArtifacts e u i abi = (\<lambda>d.
    case copyArtifacts (xc_collate e) (build_of d i) i of
      Inl err \<Rightarrow> (Inl err, d)
    | Inr a \<Rightarrow>
        (let d' = d\<lparr>cd_artifacts := om_set i a (cd_artifacts d)\<rparr>;
             imports' = (case om_get (cd_packages d) i of None \<Rightarrow> [] | Some p \<Rightarrow> pk_imports p);
             sidecar = buildKeyArtifactsMetadata (xc_collate e) (he_sha (xc_hash e)) (xc_stringify e) imports' a i (unitId u) abi
         in case parseKeyArtifactsMetadata (artifacts_json sidecar) (keyArtifactsMetadataPath (cc_artifacts (xc_config e)) i) of
              Inl err \<Rightarrow> (Inl (SidecarInvalid i), d')
            | Inr _ \<Rightarrow> (Inr (), d\<lparr>cd_artifacts := om_set i
                (om_set ([], ''lionden-key-artifacts.json'') (he_print (xc_hash e) (artifacts_json sidecar) @ newline_str) a) (cd_artifacts d)\<rparr>)))"

section \<open>The pipeline\<close>

record unit_result =
  ur_unit :: discovered_unit
  ur_programId :: string
  ur_cached :: bool
  ur_abi :: "jsval option"

record compile_progress =
  cp_hashes :: "(string, string) omap"
  cp_results :: "unit_result list"

definition cache_id :: "discovered_unit \<Rightarrow> rename_options option \<Rightarrow> string" where
  "cache_id u plan =
    (if effectiveUnitId u plan = unitId u then unitId u else unitId u @ ''__as__'' @ effectiveUnitId u plan)"

definition unit_hash :: "compile_env \<Rightarrow> dependency_graph \<Rightarrow> string \<Rightarrow> (string, string) omap \<Rightarrow> discovered_unit \<Rightarrow> compile_disk \<Rightarrow> string" where
  "unit_hash e g i hashes u d =
    (let ds = imports_of g (unitId u)
     in computeUnitHash (xc_hash e) (xc_config e) u (om_get (cd_packages d) i) (filter (\<lambda>x. x \<notin> set (dg_networkDeps g)) ds) hashes
          (filter (\<lambda>x. x \<in> set (dg_networkDeps g)) ds))"

definition compile_unit :: "compile_env \<Rightarrow> compile_options \<Rightarrow> dependency_graph \<Rightarrow> rename_options option \<Rightarrow> compile_progress \<Rightarrow> discovered_unit
    \<Rightarrow> compile_progress compile_act" where
  "compile_unit e opts g plan pr u =
    (let i = effectiveUnitId u plan; cacheId = cache_id u plan
     in bindA (getA (unit_hash e g i (cp_hashes pr) u)) (\<lambda>hash.
        bindA (getA (\<lambda>d. \<not> co_force opts \<and> isCached d cacheId hash
            \<and> (is_library u \<or> hasRequiredProgramArtifacts (xc_collate e) (build_of d i) i))) (\<lambda>cached.
        bindA (if cached then returnA () else runLeoBuild e i) (\<lambda>_.
        bindA (if is_library u then returnA None
               else bindA (getA (\<lambda>d. readProgramAbi e (build_of d i) i)) (\<lambda>r.
                    bindA (liftA r) (\<lambda>abi. bindA (storeArtifacts e u i abi) (\<lambda>_. returnA (Some abi))))) (\<lambda>abi.
        bindA (if cached then returnA () else modifyA (writeCache cacheId hash)) (\<lambda>_.
          returnA (pr\<lparr>cp_hashes := om_set (unitId u) hash (cp_hashes pr),
            cp_results := cp_results pr @ [\<lparr>ur_unit = u, ur_programId = i, ur_cached = cached, ur_abi = abi\<rparr>]\<rparr>)))))))"

text \<open>The recursion of \<^verbatim>\<open>collect\<close>, bounded by the number of ids.\<close>

fun collect_needed :: "nat \<Rightarrow> dependency_graph \<Rightarrow> string list \<Rightarrow> string \<Rightarrow> string list \<Rightarrow> string list" where
  "collect_needed 0 g known i needed = needed"
| "collect_needed (Suc n) g known i needed =
    (if i \<in> set needed then needed
     else fold (\<lambda>dep acc. if dep \<notin> set (dg_networkDeps g) \<and> dep \<in> set known then collect_needed n g known dep acc else acc)
       (imports_of g i) (i # needed))"

definition collectTransitiveDeps :: "string \<Rightarrow> dependency_graph \<Rightarrow> discovered_unit list \<Rightarrow> discovered_unit list" where
  "collectTransitiveDeps target g allUnits =
    (let needed = collect_needed (Suc (length allUnits)) g (map unitId allUnits) target []
     in filter (\<lambda>u. unitId u \<in> set needed) (dg_order g))"

definition find_target :: "dependency_graph \<Rightarrow> string \<Rightarrow> discovered_unit option" where
  "find_target g program = find (\<lambda>u. unitId u = program \<or> unitId u = program @ ''.aleo'') (dg_order g)"

text \<open>What is compiled, in order, and the renaming.\<close>

definition compile_plan :: "compile_options \<Rightarrow> dependency_graph \<Rightarrow> discovered_unit list
    \<Rightarrow> compile_error + (discovered_unit list \<times> rename_options option)" where
  "compile_plan opts g allUnits =
    (case given_program opts of
      None \<Rightarrow> Inr (dg_order g, None)
    | Some program \<Rightarrow>
        (case find_target g program of
          None \<Rightarrow> Inl (ProgramNotFound program)
        | Some target \<Rightarrow> Inr (collectTransitiveDeps (unitId target) g allUnits,
            map_option (\<lambda>r. \<lparr>rn_source = unitId target, rn_target = normalizeProgramId r\<rparr>) (co_rename opts))))"

definition selected_deps :: "dependency_graph \<Rightarrow> discovered_unit list \<Rightarrow> string list" where
  "selected_deps g order =
    js_dedup (filter (\<lambda>dep. dep \<in> set (dg_networkDeps g)) (concat (map (\<lambda>u. imports_of g (unitId u)) order)))"

definition link_dep :: "compile_env \<Rightarrow> compile_options \<Rightarrow> dependency_graph \<Rightarrow> rename_options option \<Rightarrow> discovered_unit list \<Rightarrow> string
    \<Rightarrow> string \<Rightarrow> unit compile_act" where
  "link_dep e opts g plan order network dep =
    (case networkDepCacheScope (he_sha (xc_hash e)) (xc_config e) network of (endpoint, hint, scope) \<Rightarrow>
      bindA (getA (\<lambda>d. if co_force opts then None else getCachedNetworkDep d dep scope)) (\<lambda>cached.
      bindA (case cached of
          Some source \<Rightarrow> if source \<noteq> [] then returnA source
            else liftA (map_sum (FetchFailedFor dep) id (xc_fetch e dep endpoint hint))
        | None \<Rightarrow> liftA (map_sum (FetchFailedFor dep) id (xc_fetch e dep endpoint hint))) (\<lambda>source.
        modifyA (fold (\<lambda>u d. if dep \<in> set (imports_of g (unitId u))
            then linkNetworkDependency (effectiveUnitId u plan) dep source scope d else d) order))))"

definition compilePipeline :: "compile_env \<Rightarrow> compile_options \<Rightarrow> (unit_result list \<times> dependency_graph) compile_act" where
  "compilePipeline e opts =
    (if co_rename opts \<noteq> None \<and> given_program opts = None then throwA RenameWithoutProgram
     else if (case co_network opts of None \<Rightarrow> False | Some n \<Rightarrow> \<not> om_has (cc_networks (xc_config e)) n)
       then throwA (UnknownNetwork (the (co_network opts)))
     else
       let network = (case co_network opts of None \<Rightarrow> cc_defaultNetwork (xc_config e) | Some n \<Rightarrow> n)
       in bindA (liftA (map_sum UnitsFailed id (xc_units e))) (\<lambda>allUnits.
          bindA (liftA (map_sum UnitsFailed id (resolveDependencies (he_read (xc_hash e)) allUnits))) (\<lambda>g.
          bindA (liftA (compile_plan opts g allUnits)) (\<lambda>(order, plan).
          bindA (foldA (\<lambda>_ u. materializePackage (he_read (xc_hash e)) (xc_config e) u g network plan) () order) (\<lambda>_.
          bindA (foldA (\<lambda>_. link_dep e opts g plan order network) () (selected_deps g order)) (\<lambda>_.
          bindA (foldA (compile_unit e opts g plan) \<lparr>cp_hashes = [], cp_results = []\<rparr> order) (\<lambda>pr.
            returnA (cp_results pr, g))))))))"

end
