(* ===== verification/CompileCache.thy ===== *)
theory CompileCache imports Compiler begin

text \<open>
  The compile cache is sound: what a run takes from the cache is what \<^verbatim>\<open>leo build\<close> would leave for
  the sources, the dependencies, the compiler version, the flags and the environment of that run,
  after runs with the same binary, flags and \<^verbatim>\<open>.env\<close> that rename nothing; without these provisos it
  is not (\<^verbatim>\<open>renamed_build_keeps_hash\<close> below, \<^verbatim>\<open>flags_not_hashed\<close> of \<^verbatim>\<open>Materialize\<close>). The proof follows
  the units in the order they are compiled; the hash of a unit denotes what Leo reads of its package.
\<close>

section \<open>What is compiled\<close>















section \<open>What is hashed\<close>





text \<open>A package as it was prepared: everything but its build.\<close>

definition prepared :: "compile_disk \<Rightarrow> string \<Rightarrow> package option" where
  "prepared d i = map_option (\<lambda>p. p\<lparr>pk_build := None\<rparr>) (om_get (cd_packages d) i)"

definition same_packages :: "compile_disk \<Rightarrow> compile_disk \<Rightarrow> bool" where
  "same_packages d d' \<longleftrightarrow> prepared d = prepared d' \<and> length (cd_packages d) = length (cd_packages d')"





section \<open>Texts that delimit their parts\<close>


















section \<open>What a hash stands for\<close>









section \<open>What Leo leaves\<close>









section \<open>The view of a prepared package\<close>






section \<open>One unit\<close>

lemma storeArtifacts_keeps: "storeArtifacts e u i abi d = (r, d') \<Longrightarrow> cd_packages d' = cd_packages d \<and> cd_hashes d' = cd_hashes d"
  by (auto simp: storeArtifacts_def Let_def split: sum.splits)

lemma artifacts_keep:
  assumes "(if is_library u then returnA None
     else bindA (getA (\<lambda>d. readProgramAbi e (build_of d i) i)) (\<lambda>r.
          bindA (liftA r) (\<lambda>abi. bindA (storeArtifacts e u i abi) (\<lambda>_. returnA (Some abi))))) d = (r, d')"
  shows "cd_packages d' = cd_packages d \<and> cd_hashes d' = cd_hashes d"
  using assms by (auto simp: bindA_def act_defs split: if_splits sum.splits prod.splits dest: storeArtifacts_keeps)

lemma runLeoBuild_ok:
  assumes "runLeoBuild e i d = (Inr x, d')"
  shows "\<exists>b. xc_leo e (cc_leoBinary (xc_config e)) (leo_args (xc_config e) i) (Option.bind (om_get (cd_packages d) i) pk_env) (view_of e d i) (build_of d i) = (None, b)
    \<and> d' = set_build i b d"
  using assms by (auto simp: runLeoBuild_def split: prod.splits option.splits)

lemma compile_unit_any:
  assumes "compile_unit e opts g plan pr u d = (Inr pr', d')"
  defines "i \<equiv> effectiveUnitId u plan" and "c \<equiv> cache_id u plan" and "h \<equiv> unit_hash e g (effectiveUnitId u plan) (cp_hashes pr) u d"
  shows "\<exists>r. pr' = pr\<lparr>cp_hashes := om_set (unitId u) h (cp_hashes pr), cp_results := cp_results pr @ [r]\<rparr>
    \<and> ur_unit r = u \<and> ur_programId r = i
    \<and> ((isCached d c h \<and> cd_packages d' = cd_packages d \<and> cd_hashes d' = cd_hashes d)
      \<or> (\<exists>b. xc_leo e (cc_leoBinary (xc_config e)) (leo_args (xc_config e) i) (Option.bind (om_get (cd_packages d) i) pk_env) (view_of e d i) (build_of d i) = (None, b)
          \<and> cd_packages d' = cd_packages (set_build i b d) \<and> cd_hashes d' = om_set c (h @ newline_str) (cd_hashes d)))"
proof -
  have h: "h = unit_hash e g i (cp_hashes pr) u d" by (simp add: h_def i_def)
  define cached where "cached = (\<not> co_force opts \<and> isCached d c h
    \<and> (is_library u \<or> hasRequiredProgramArtifacts (xc_collate e) (build_of d i) i))"
  define arts where "arts = (if is_library u then returnA None
     else bindA (getA (\<lambda>d. readProgramAbi e (build_of d i) i)) (\<lambda>r.
          bindA (liftA r) (\<lambda>abi. bindA (storeArtifacts e u i abi) (\<lambda>_. returnA (Some abi)))))"
  obtain x1 d1 d2 abi x3 where 1: "(if cached then returnA () else runLeoBuild e i) d = (Inr x1, d1)"
    and 2: "arts d1 = (Inr abi, d2)"
    and 3: "(if cached then returnA () else modifyA (writeCache c h)) d2 = (Inr x3 :: compile_error + unit, d')"
    and pr: "pr\<lparr>cp_hashes := om_set (unitId u) h (cp_hashes pr),
      cp_results := cp_results pr @ [\<lparr>ur_unit = u, ur_programId = i, ur_cached = cached, ur_abi = abi\<rparr>]\<rparr> = pr'"
    using assms(1) [unfolded compile_unit_def Let_def, folded i_def c_def, folded arts_def]
    unfolding bindA_simps h [symmetric] cached_def [symmetric] bindA_Inr act_simps(1) prod.inject sum.inject
    by blast
  note keep = artifacts_keep [OF 2 [unfolded arts_def]]
  show ?thesis
  proof (intro exI conjI)
    show "pr' = pr\<lparr>cp_hashes := om_set (unitId u) h (cp_hashes pr),
        cp_results := cp_results pr @ [\<lparr>ur_unit = u, ur_programId = i, ur_cached = cached, ur_abi = abi\<rparr>]\<rparr>" using pr by simp
    show "(isCached d c h \<and> cd_packages d' = cd_packages d \<and> cd_hashes d' = cd_hashes d)
      \<or> (\<exists>b. xc_leo e (cc_leoBinary (xc_config e)) (leo_args (xc_config e) i) (Option.bind (om_get (cd_packages d) i) pk_env) (view_of e d i) (build_of d i) = (None, b)
          \<and> cd_packages d' = cd_packages (set_build i b d) \<and> cd_hashes d' = om_set c (h @ newline_str) (cd_hashes d))"
    proof (cases cached)
      case True
      then have "isCached d c h" "d1 = d" "d' = d2" using 1 3 by (simp_all add: cached_def)
      then show ?thesis using keep by simp
    next
      case False
      then obtain b where leo: "xc_leo e (cc_leoBinary (xc_config e)) (leo_args (xc_config e) i) (Option.bind (om_get (cd_packages d) i) pk_env) (view_of e d i) (build_of d i) = (None, b)"
        and d1: "d1 = set_build i b d" using 1 runLeoBuild_ok by fastforce
      have "cd_packages d' = cd_packages (set_build i b d)" "cd_hashes d' = om_set c (h @ newline_str) (cd_hashes d)"
        using keep 3 False unfolding d1 by (auto simp: writeCache_def set_build_def)
      then show ?thesis using leo by blast
    qed
  qed simp_all
qed


lemma set_build_packages:
  assumes "cd_packages d' = cd_packages (set_build i b d)" and "om_get (cd_packages d) i \<noteq> None"
  shows "same_packages d d' \<and> build_of d' = (build_of d)(i := b)"
proof -
  obtain p where p: "om_get (cd_packages d) i = Some p" using assms(2) by blast
  have new: "cd_packages d' = om_set i (p\<lparr>pk_build := b\<rparr>) (cd_packages d)" using assms(1) p by (simp add: set_build_def)
  have "prepared d = prepared d'" by (rule ext) (simp add: prepared_def new om_get_set p)
  moreover have "om_keys (cd_packages d') = om_keys (cd_packages d)" unfolding new om_keys_set using map_of_SomeD [OF p] by force
  then have "length (cd_packages d) = length (cd_packages d')" by (metis length_map)
  moreover have "build_of d' = (build_of d)(i := b)" by (rule ext) (simp add: build_of_def new om_get_set)
  ultimately show ?thesis by (simp add: same_packages_def)
qed

section \<open>One run\<close>





section \<open>All units in order\<close>






section \<open>Preparing the packages\<close>








section \<open>Runs\<close>









definition ex_lib :: discovered_unit where
  "ex_lib = DiscoveredLibrary ''lib'' ''/p/lib'' ''/p/lib/lib.leo'' [''lib.leo'']"





definition ex_cache_graph :: dependency_graph where
  "ex_cache_graph = \<lparr>dg_order = [ex_lib], dg_imports = [(''lib'', [])], dg_networkDeps = []\<rparr>"


lemma ex_lib_graph: "resolveDependencies (\<lambda>p. Some (''x'' @ newline_str)) [ex_lib] = Inr ex_cache_graph"
  by code_simp





section \<open>What the cache does not protect\<close>

text \<open>A build that fails leaves the hash of the build before it beside what it left itself.\<close>

lemma failed_build_keeps_hash:
  assumes "xc_leo e (cc_leoBinary (xc_config e)) (leo_args (xc_config e) (unitId u)) (Option.bind (om_get (cd_packages d) (unitId u)) pk_env)
      (view_of e d (unitId u)) (build_of d (unitId u)) = (Some message, b)"
    and "\<not> isCached d (unitId u) (unit_hash e g (unitId u) (cp_hashes pr) u d)" and "om_get (cd_packages d) (unitId u) \<noteq> None"
  shows "\<exists>d'. compile_unit e opts g None pr u d = (Inl (LeoFailed (unitId u) message), d') \<and> build_of d' (unitId u) = b \<and> cd_hashes d' = cd_hashes d"
proof -
  have i: "effectiveUnitId u None = unitId u" "cache_id u None = unitId u" by (simp_all add: effectiveUnitId_def cache_id_def)
  have leo: "runLeoBuild e (unitId u) d = (Inl (LeoFailed (unitId u) message), set_build (unitId u) b d)"
    using assms(1) by (simp add: runLeoBuild_def)
  have "compile_unit e opts g None pr u d = (Inl (LeoFailed (unitId u) message), set_build (unitId u) b d)"
    unfolding compile_unit_def i Let_def bindA_simps by (simp add: assms(2) bindA_run(2) [where m = "runLeoBuild e (unitId u)" and s = d, OF leo])
  moreover have "build_of (set_build (unitId u) b d) (unitId u) = b" using set_build_packages [OF refl assms(3)] by simp
  ultimately show ?thesis by (simp add: set_build_def)
qed

text \<open>A renamed build replaces the build of its target and leaves the target's hash as it was.\<close>

lemma renamed_build_keeps_hash:
  assumes run: "compile_unit e opts g (Some \<lparr>rn_source = unitId u, rn_target = t\<rparr>) pr u d = (Inr pr', d')"
    and u: "\<not> is_library u" "t \<noteq> unitId u" and pk: "om_get (cd_packages d) t \<noteq> None"
  shows "om_get (cd_hashes d') t = om_get (cd_hashes d) t
    \<and> (build_of d' t = build_of d t \<or> (\<exists>args env. xc_leo e (cc_leoBinary (xc_config e)) args env (view_of e d t) (build_of d t) = (None, build_of d' t)))"
proof -
  let ?plan = "Some \<lparr>rn_source = unitId u, rn_target = t\<rparr>"
  have i: "effectiveUnitId u ?plan = t" "cache_id u ?plan = unitId u @ ''__as__'' @ t" using u by (simp_all add: effectiveUnitId_def cache_id_def)
  have "unitId u @ ''__as__'' @ t \<noteq> t"
  proof
    assume "unitId u @ ''__as__'' @ t = t"
    then have "length (unitId u @ ''__as__'' @ t) = length t" by (rule arg_cong)
    then show False by simp
  qed
  then have other: "om_get (om_set (unitId u @ ''__as__'' @ t) x m) t = om_get m t" for x and m :: "(string, string) omap" by (simp add: om_get_set)
  consider (cached) "cd_packages d' = cd_packages d" "cd_hashes d' = cd_hashes d"
    | (built) b h where "xc_leo e (cc_leoBinary (xc_config e)) (leo_args (xc_config e) t) (Option.bind (om_get (cd_packages d) t) pk_env) (view_of e d t) (build_of d t) = (None, b)"
      "cd_packages d' = cd_packages (set_build t b d)" "cd_hashes d' = om_set (unitId u @ ''__as__'' @ t) h (cd_hashes d)"
    using compile_unit_any [OF run] unfolding i by blast
  then show ?thesis
  proof cases
    case cached
    then show ?thesis by (simp add: build_of_def)
  next
    case built
    then show ?thesis using set_build_packages [OF built(2) pk] other by auto
  qed
qed

end
