(* ===== verification/ContractValues.thy ===== *)
theory ContractValues imports ConfigValues Abi begin

text \<open>
  The values of generated contracts: the text that the base class of every generated contract
  (the template in \<^verbatim>\<open>leo-compiler/src/codegen/contract-wrapper.ts\<close>) writes for JavaScript values and
  reads back.
\<close>

section \<open>Errors\<close>

record input_context =
  ic_programId :: "string option"
  ic_transition :: "string option"
  ic_input :: "string option"
  ic_path :: "string option"

datatype codec_error =
    InputError string jsval "input_context option" string
  | NotABigInt string
  | NoText
  | NotInitialised string
  | SchemaError string
  | NestedTooDeep

type_synonym 'a codec = "codec_error + 'a"

definition given :: "string option \<Rightarrow> bool" where
  "given s = (s \<noteq> None \<and> s \<noteq> Some [])"

definition describeInput :: "(string \<Rightarrow> string) \<Rightarrow> input_context option \<Rightarrow> string" where
  "describeInput quote ctx =
    (case ctx of None \<Rightarrow> ''transition input'' | Some c \<Rightarrow>
      (let location = (if given (ic_programId c) \<and> given (ic_transition c) then the (ic_programId c) @ ''/'' @ the (ic_transition c)
             else case ic_programId c of None \<Rightarrow> ''transition'' | Some p \<Rightarrow> p)
       in if given (ic_input c) \<and> given (ic_path c) then location @ '' input '' @ quote (the (ic_input c)) @ ''.'' @ the (ic_path c)
          else if given (ic_input c) then location @ '' input '' @ quote (the (ic_input c))
          else if given (ic_path c) then location @ '' input .'' @ the (ic_path c)
          else location @ '' input''))"

definition input_error_message :: "(string \<Rightarrow> string) \<Rightarrow> string \<Rightarrow> jsval \<Rightarrow> input_context option \<Rightarrow> string \<Rightarrow> string" where
  "input_error_message quote expected received ctx hint =
    (let rendered = (case received of JStr s \<Rightarrow> ''string '' @ quote s | JNull \<Rightarrow> ''null'' | JArr xs \<Rightarrow> ''array'' | _ \<Rightarrow> js_typeof received)
     in describeInput quote ctx @ '' expected '' @ expected @ ''. Received '' @ rendered @ ''.'' @ (if hint = [] then [] else '' '' @ hint))"

definition childPath :: "string option \<Rightarrow> string \<Rightarrow> string" where
  "childPath parent segment = (if given parent then the parent @ ''.'' @ segment else segment)"

definition childInputContext :: "input_context option \<Rightarrow> string \<Rightarrow> input_context option" where
  "childInputContext ctx segment = map_option (\<lambda>c. c\<lparr>ic_path := Some (childPath (ic_path c) segment)\<rparr>) ctx"

definition expectInputString :: "jsval \<Rightarrow> string \<Rightarrow> input_context option \<Rightarrow> string \<Rightarrow> string codec" where
  "expectInputString v expected ctx hint = (case v of JStr s \<Rightarrow> Inr (js_trim s) | _ \<Rightarrow> Inl (InputError expected v ctx hint))"

section \<open>Reading primitive values\<close>

definition stripVisibility :: "string \<Rightarrow> string" where
  "stripVisibility s =
    (let t = js_trim s
     in if ends_with (js_lower t) ''.public'' then take (length t - 7) t
        else if ends_with (js_lower t) ''.private'' then take (length t - 8) t else t)"

definition TYPE_SUFFIXES :: "string list" where
  "TYPE_SUFFIXES = [''u8'', ''u16'', ''u32'', ''u64'', ''u128'', ''i8'', ''i16'', ''i32'', ''i64'', ''i128'',
    ''field'', ''group'', ''scalar'', ''bool'', ''address'']"

definition is_type_suffix :: "string \<Rightarrow> bool" where
  "is_type_suffix t = list_ex (\<lambda>w. list_ex (\<lambda>v. js_lower t = w @ v) [[], ''.public'', ''.private'']) TYPE_SUFFIXES"

text \<open>The leftmost place where the rest of the text is a suffix.\<close>

definition stripSuffix :: "string \<Rightarrow> string" where
  "stripSuffix s = (case find (\<lambda>i. is_type_suffix (drop i s)) [0..<length s] of None \<Rightarrow> s | Some i \<Rightarrow> take i s)"

definition radix_int :: "nat \<Rightarrow> string \<Rightarrow> int option" where
  "radix_int base ds = (if all_digits base ds then Some (int (digits_val base ds)) else None)"

text \<open>\<^verbatim>\<open>BigInt(s)\<close>, or nothing where it throws.\<close>

definition js_BigInt :: "string \<Rightarrow> int option" where
  "js_BigInt s0 =
    (let s = js_trim s0; prefix2 = js_lower (take 2 s)
     in if s = [] then Some 0
        else if prefix2 = ''0x'' then radix_int 16 (drop 2 s)
        else if prefix2 = ''0o'' then radix_int 8 (drop 2 s)
        else if prefix2 = ''0b'' then radix_int 2 (drop 2 s)
        else (case signed s of (sg, ds) \<Rightarrow> map_option ((*) sg) (radix_int 10 ds)))"

definition parseBoolean :: "string \<Rightarrow> bool" where
  "parseBoolean s = (stripVisibility s = ''true'')"

definition parseNumber :: "string \<Rightarrow> jsnum" where
  "parseNumber s = js_Number (stripSuffix s)"

definition parseBigInt :: "string \<Rightarrow> int codec" where
  "parseBigInt s = (case js_BigInt (stripSuffix s) of None \<Rightarrow> Inl (NotABigInt s) | Some i \<Rightarrow> Inr i)"

section \<open>Writing primitive values\<close>

definition assertObject :: "jsval \<Rightarrow> input_context option \<Rightarrow> unit codec" where
  "assertObject v ctx = (case v of JObj m \<Rightarrow> Inr () | _ \<Rightarrow> Inl (InputError ''object'' v ctx []))"

definition serializeBoolean :: "jsval \<Rightarrow> input_context option \<Rightarrow> string codec" where
  "serializeBoolean v ctx = (case v of JBool b \<Rightarrow> Inr (if b then ''true'' else ''false'') | _ \<Rightarrow> Inl (InputError ''boolean'' v ctx []))"

definition serializeArray :: "jsval \<Rightarrow> input_context option \<Rightarrow> (jsval \<Rightarrow> input_context option \<Rightarrow> string codec) \<Rightarrow> string codec" where
  "serializeArray v ctx serializeElement =
    (case v of
      JArr xs \<Rightarrow> bindR (mapR (\<lambda>(index, x). serializeElement x (childInputContext ctx (nat_str index))) (enumerate 0 xs))
        (\<lambda>ss. Inr (''['' @ join_with '', '' ss @ '']''))
    | _ \<Rightarrow> Inl (InputError ''array'' v ctx []))"

definition serializeUnsupportedOptionalNone :: "input_context option \<Rightarrow> string codec" where
  "serializeUnsupportedOptionalNone ctx = Inl (InputError ''non-null Optional value'' JNull ctx
    ''This Optional inner type has no generated zero value, so None cannot be represented.'')"

fun js_int :: "jsval \<Rightarrow> int" where
  "js_int (JNum (Fin q)) = \<lfloor>q\<rfloor>"
| "js_int (JBig i) = i"
| "js_int _ = 0"

definition is_bigint :: "jsval \<Rightarrow> bool" where
  "is_bigint v = (case v of JBig i \<Rightarrow> True | _ \<Rightarrow> False)"

text \<open>The integers of at most 32 bits are numbers, the wider ones bigints.\<close>

definition serializeUInt :: "jsval \<Rightarrow> nat \<Rightarrow> input_context option \<Rightarrow> string codec" where
  "serializeUInt v bits ctx =
    (let name = ''u'' @ nat_str bits; max = 2 ^ bits - 1
     in if bits \<le> 32 then
          (if \<not> js_isInteger v then Inl (InputError (name @ '' number'') v ctx [])
           else if js_int v < 0 \<or> js_int v > max then Inl (InputError (name @ '' in range 0..'' @ int_str max) v ctx [])
           else Inr (int_str (js_int v) @ name))
        else
          (if \<not> is_bigint v then Inl (InputError (name @ '' bigint'') v ctx [])
           else if js_int v < 0 \<or> js_int v > max then Inl (InputError (name @ '' in range 0..'' @ int_str max) v ctx [])
           else Inr (int_str (js_int v) @ name)))"

definition serializeInt :: "jsval \<Rightarrow> nat \<Rightarrow> input_context option \<Rightarrow> string codec" where
  "serializeInt v bits ctx =
    (let name = ''i'' @ nat_str bits; min = - (2 ^ (bits - 1)); max = 2 ^ (bits - 1) - 1;
         range = name @ '' in range '' @ int_str min @ ''..'' @ int_str max
     in if bits \<le> 32 then
          (if \<not> js_isInteger v then Inl (InputError (name @ '' number'') v ctx [])
           else if js_int v < min \<or> js_int v > max then Inl (InputError range v ctx [])
           else Inr (int_str (js_int v) @ name))
        else
          (if \<not> is_bigint v then Inl (InputError (name @ '' bigint'') v ctx [])
           else if js_int v < min \<or> js_int v > max then Inl (InputError range v ctx [])
           else Inr (int_str (js_int v) @ name)))"

definition all_decimal :: "string \<Rightarrow> bool" where
  "all_decimal s \<longleftrightarrow> s \<noteq> [] \<and> list_all is_digit s"

definition capital :: "string \<Rightarrow> string" where
  "capital s = (case s of [] \<Rightarrow> [] | c # cs \<Rightarrow> (if is_lower c then char_of ((of_char c :: nat) - 32) else c) # cs)"

definition serializeScalarLike :: "jsval \<Rightarrow> string \<Rightarrow> input_context option \<Rightarrow> string codec" where
  "serializeScalarLike v sfx ctx =
    (let label = capital sfx; expected = label @ '' literal like 99'' @ sfx; hint = ''Use Leo.'' @ sfx @ ''(...).'';
         negative = InputError (label @ '' (non-negative integer)'') v ctx hint
     in case v of
          JBig i \<Rightarrow> if i < 0 then Inl negative else Inr (int_str i @ sfx)
        | JNum x \<Rightarrow> if \<not> js_isInteger v \<or> js_int v < 0 then Inl negative
            else if js_int v > 2 ^ 53 - 1 then Inl (InputError (label @ '' (use bigint or string above 2^53)'') v ctx hint)
            else Inr (int_str (js_int v) @ sfx)
        | _ \<Rightarrow> bindR (expectInputString v expected ctx hint) (\<lambda>literal.
            if ends_with (js_lower literal) sfx \<and> all_decimal (take (length literal - length sfx) literal) then Inr literal
            else if all_decimal literal then Inr (literal @ sfx)
            else Inl (InputError expected v ctx hint)))"

definition is_address_literal :: "string \<Rightarrow> bool" where
  "is_address_literal s \<longleftrightarrow> take 5 (js_lower s) = ''aleo1'' \<and> drop 5 s \<noteq> [] \<and> list_all (\<lambda>c. is_digit c \<or> is_lower c) (js_lower (drop 5 s))"

definition serializeAddress :: "jsval \<Rightarrow> input_context option \<Rightarrow> string codec" where
  "serializeAddress v ctx =
    (let hint = ''Use Leo.address(...) or pass a named/devnode account.'';
         raw = (case v of JStr s \<Rightarrow> v | _ \<Rightarrow> if in_obj ''address'' v then prop_of v ''address'' else v)
     in bindR (expectInputString raw ''Address'' ctx hint) (\<lambda>address.
          if is_address_literal address then Inr (stripVisibility address) else Inl (InputError ''Address'' raw ctx hint)))"

definition parseAddress :: "string \<Rightarrow> string codec" where
  "parseAddress s = serializeAddress (JStr (stripVisibility s)) None"

definition parseScalarLike :: "string \<Rightarrow> string \<Rightarrow> string codec" where
  "parseScalarLike sfx s = serializeScalarLike (JStr (stripVisibility s)) sfx None"

definition is_id_char :: "char \<Rightarrow> bool" where
  "is_id_char c \<longleftrightarrow> is_lower c \<or> is_upper c \<or> is_digit c \<or> c = CHR ''_''"

definition is_identifier_name :: "string \<Rightarrow> bool" where
  "is_identifier_name s \<longleftrightarrow> s \<noteq> [] \<and> list_all is_id_char s \<and> \<not> is_digit (hd s)"

definition assertIdentifierName :: "string \<Rightarrow> input_context option \<Rightarrow> unit codec" where
  "assertIdentifierName s ctx =
    (if is_identifier_name s then Inr ()
     else Inl (InputError ''Identifier matching /^[A-Za-z_][A-Za-z0-9_]*$/'' (JStr s) ctx ''Use Leo.identifier(...).''))"

definition quote_char :: char where "quote_char = CHR 0x27"

definition quoted :: "string \<Rightarrow> bool" where
  "quoted s \<longleftrightarrow> s \<noteq> [] \<and> hd s = quote_char \<and> last s = quote_char"

text \<open>\<^verbatim>\<open>s.slice(1, -1)\<close>\<close>

definition slice_inner :: "string \<Rightarrow> string" where
  "slice_inner s = butlast (tl s)"

definition serializeIdentifier :: "jsval \<Rightarrow> input_context option \<Rightarrow> string codec" where
  "serializeIdentifier v ctx =
    bindR (expectInputString v ''Identifier'' ctx ''Use Leo.identifier(...).'') (\<lambda>trimmed.
      if trimmed = [] then Inl (InputError ''Identifier'' v ctx ''Use Leo.identifier(...).'')
      else let name = (if quoted trimmed then slice_inner trimmed else trimmed)
           in bindR (assertIdentifierName name ctx) (\<lambda>_. Inr ([quote_char] @ name @ [quote_char])))"

definition parseIdentifier :: "string \<Rightarrow> string codec" where
  "parseIdentifier s =
    (let trimmed = stripVisibility s
     in if quoted trimmed then Inr (slice_inner trimmed) else bindR (assertIdentifierName trimmed None) (\<lambda>_. Inr trimmed))"

definition serializeLiteral :: "string \<Rightarrow> string \<Rightarrow> jsval \<Rightarrow> input_context option \<Rightarrow> string codec" where
  "serializeLiteral expected hint v ctx =
    bindR (expectInputString v expected ctx hint) (\<lambda>literal. if literal = [] then Inl (InputError expected v ctx hint) else Inr literal)"

definition serializeDynamicRecord :: "jsval \<Rightarrow> input_context option \<Rightarrow> string codec" where
  "serializeDynamicRecord = serializeLiteral ''DynamicRecord literal'' ''Use Leo.unsafe.dynamicRecord(...).''"

definition serializePlaintext :: "jsval \<Rightarrow> input_context option \<Rightarrow> string codec" where
  "serializePlaintext = serializeLiteral ''Leo plaintext literal'' ''Use Leo.unsafe.plaintext(...).''"

section \<open>Arrays and structs\<close>

definition depth_after :: "int \<Rightarrow> char \<Rightarrow> int" where
  "depth_after depth c = (if c = CHR ''{'' \<or> c = CHR ''['' then depth + 1 else if c = CHR ''}'' \<or> c = CHR '']'' then depth - 1 else depth)"

text \<open>The text between two brackets, or the text itself.\<close>

definition unwrap :: "char \<Rightarrow> char \<Rightarrow> string \<Rightarrow> string" where
  "unwrap opening closing s =
    (let trimmed = js_trim s
     in if trimmed \<noteq> [] \<and> hd trimmed = opening \<and> last trimmed = closing then js_trim (slice_inner trimmed) else trimmed)"

text \<open>The loops of \<^verbatim>\<open>parseArray\<close> and \<^verbatim>\<open>parseStruct\<close>.\<close>

fun array_scan :: "int \<Rightarrow> string \<Rightarrow> string list \<Rightarrow> string \<Rightarrow> string list" where
  "array_scan depth current elements [] = (if js_trim current \<noteq> [] then elements @ [js_trim current] else elements)"
| "array_scan depth current elements (c # cs) =
    (if depth_after depth c = 0 \<and> c = CHR '','' then array_scan (depth_after depth c) [] (elements @ [js_trim current]) cs
     else array_scan (depth_after depth c) (current @ [c]) elements cs)"

definition parseArray :: "string \<Rightarrow> string list" where
  "parseArray s = (let inner = unwrap (CHR ''['') (CHR '']'') s in if inner = [] then [] else array_scan 0 [] [] inner)"

fun struct_scan :: "int \<Rightarrow> string \<Rightarrow> string \<Rightarrow> (string, string) omap \<Rightarrow> string \<Rightarrow> (string, string) omap" where
  "struct_scan depth current key result [] = (if key \<noteq> [] then om_set key (js_trim current) result else result)"
| "struct_scan depth current key result (c # cs) =
    (let depth' = depth_after depth c
     in if depth' = 0 \<and> c = CHR '':'' \<and> key = [] then struct_scan depth' [] (js_trim current) result cs
        else if depth' = 0 \<and> c = CHR '','' then
          struct_scan depth' [] [] (if key \<noteq> [] then om_set key (js_trim current) result else result) cs
        else struct_scan depth' (current @ [c]) key result cs)"

definition parseStruct :: "string \<Rightarrow> (string, string) omap" where
  "parseStruct s = struct_scan 0 [] [] [] (unwrap (CHR ''{'') (CHR ''}'') s)"

text \<open>The text of a struct: its fields, in order.\<close>

definition fields_text :: "(string \<times> string) list \<Rightarrow> string" where
  "fields_text fs = ''{ '' @ join_with '', '' (map (\<lambda>(n, t). n @ '': '' @ t) fs) @ '' }''"

section \<open>Dynamic records\<close>

definition INT_TYPES :: "(string, bool \<times> nat) omap" where
  "INT_TYPES = [(''u8'', True, 8), (''u16'', True, 16), (''u32'', True, 32), (''u64'', True, 64), (''u128'', True, 128),
     (''i8'', False, 8), (''i16'', False, 16), (''i32'', False, 32), (''i64'', False, 64), (''i128'', False, 128)]"

definition serializeDynamicRecordField :: "jsval \<Rightarrow> string \<Rightarrow> input_context option \<Rightarrow> string codec" where
  "serializeDynamicRecordField v leoType ctx =
    (if leoType = ''address'' then serializeAddress v ctx
     else if leoType = ''boolean'' then serializeBoolean v ctx
     else if leoType \<in> {''field'', ''group'', ''scalar''} then serializeScalarLike v leoType ctx
     else (case om_get INT_TYPES leoType of
         Some (True, bits) \<Rightarrow> serializeUInt v bits ctx
       | Some (False, bits) \<Rightarrow> serializeInt v bits ctx
       | None \<Rightarrow> Inl (SchemaError (''unsupported type '' @ leoType))))"

text \<open>\<^verbatim>\<open>s.lastIndexOf(".")\<close>: what is before and after the last dot.\<close>

definition split_last_dot :: "string \<Rightarrow> (string \<times> string) option" where
  "split_last_dot s =
    (if CHR ''.'' \<in> set s
     then let after = rev (takeWhile (\<lambda>c. c \<noteq> CHR ''.'') (rev s)) in Some (take (length s - length after - 1) s, after) else None)"

definition dynamic_field :: "(string, jsval) omap \<Rightarrow> (string, jsval) omap \<Rightarrow> string \<Rightarrow> string codec" where
  "dynamic_field value schema name =
    (case js_get schema name of
      JStr entry \<Rightarrow>
        (case split_last_dot entry of
          None \<Rightarrow> Inl (SchemaError name)
        | Some (ty, viz) \<Rightarrow>
            if ty = [] \<or> viz \<notin> {''public'', ''private''} then Inl (SchemaError name)
            else bindR (serializeDynamicRecordField (js_get value name) ty
                (Some \<lparr>ic_programId = None, ic_transition = None, ic_input = None, ic_path = Some name\<rparr>))
              (\<lambda>t. Inr (t @ ''.'' @ viz)))
    | _ \<Rightarrow> Inl (SchemaError name))"

definition encodeDynamicRecord :: "jsval \<Rightarrow> jsval \<Rightarrow> string codec" where
  "encodeDynamicRecord v schema =
    (case (v, schema) of
      (JObj value, JObj sch) \<Rightarrow>
        (let omitVersion = om_has sch ''_version'' \<and> js_get value ''_version'' = JUndef;
             keep = filter (\<lambda>k. \<not> (omitVersion \<and> k = ''_version''));
             valueKeys = keep (om_keys value); schemaKeys = keep (om_keys sch)
         in if \<not> set schemaKeys \<subseteq> set valueKeys \<or> \<not> set valueKeys \<subseteq> set schemaKeys then Inl (SchemaError ''keys must match exactly'')
            else bindR (mapR (\<lambda>k. bindR (dynamic_field value sch k) (\<lambda>t. Inr (k, t))) schemaKeys) (\<lambda>fs. Inr (fields_text fs)))
    | (JObj value, _) \<Rightarrow> Inl (SchemaError ''expected an object schema'')
    | _ \<Rightarrow> Inl (SchemaError ''expected an object value''))"

section \<open>What the generated functions do\<close>

text \<open>
  The bindings of a program are printed by \<^verbatim>\<open>codegen/typescript-generator.ts\<close>. What follows is what
  the printed expressions compute, by the type they are printed for: a struct is written and read by
  the functions of the module that declares it. The depth bounds the structs inside one another.
\<close>

datatype primitive_type = AddressP | BooleanP | FieldP | GroupP | IdentifierP | ScalarP | SignatureP | UIntP nat | IntP nat

datatype plaintext_type = Primitive primitive_type | Struct "string option" "string list" | Array plaintext_type nat | Optional plaintext_type

type_synonym struct_fields = "(string \<times> plaintext_type) list"

record generation_context =
  gc_programId :: string
  gc_structs :: "(string, struct_fields) omap"
  gc_external :: "(string, string \<times> string) omap"

type_synonym bindings = "string \<Rightarrow> generation_context option"

definition pathKey :: "string list \<Rightarrow> string" where
  "pathKey path = join_with ''::'' path"

definition externalRefKey :: "string option \<Rightarrow> string list \<Rightarrow> string" where
  "externalRefKey program path = (case program of None \<Rightarrow> [] | Some p \<Rightarrow> p) @ '':'' @ pathKey path"

definition isLocalStructRef :: "generation_context \<Rightarrow> string option \<Rightarrow> string list \<Rightarrow> bool" where
  "isLocalStructRef g program path \<longleftrightarrow> (program = None \<or> program = Some (gc_programId g)) \<and> om_has (gc_structs g) (pathKey path)"

definition externalStructInfo :: "generation_context \<Rightarrow> string option \<Rightarrow> string list \<Rightarrow> (string \<times> string) option" where
  "externalStructInfo g program path =
    (if \<not> given program \<or> program = Some (gc_programId g) then None else om_get (gc_external g) (externalRefKey program path))"

text \<open>The module and the fields that a reference is bound to: its own, or those of another program's bindings.\<close>

definition bound_struct :: "bindings \<Rightarrow> generation_context \<Rightarrow> string option \<Rightarrow> string list \<Rightarrow> (generation_context \<times> struct_fields) option" where
  "bound_struct B g program path =
    (if isLocalStructRef g program path then map_option (Pair g) (om_get (gc_structs g) (pathKey path))
     else case externalStructInfo g program path of
       None \<Rightarrow> None
     | Some (p, key) \<Rightarrow> (case B p of None \<Rightarrow> None | Some g' \<Rightarrow> map_option (Pair g') (om_get (gc_structs g') key)))"

definition serializePrimitive :: "primitive_type \<Rightarrow> jsval \<Rightarrow> input_context option \<Rightarrow> string codec" where
  "serializePrimitive p v ctx =
    (case p of AddressP \<Rightarrow> serializeAddress v ctx | BooleanP \<Rightarrow> serializeBoolean v ctx
     | FieldP \<Rightarrow> serializeScalarLike v ''field'' ctx | GroupP \<Rightarrow> serializeScalarLike v ''group'' ctx
     | ScalarP \<Rightarrow> serializeScalarLike v ''scalar'' ctx | IdentifierP \<Rightarrow> serializeIdentifier v ctx
     | SignatureP \<Rightarrow> serializePlaintext v ctx
     | UIntP bits \<Rightarrow> serializeUInt v bits ctx | IntP bits \<Rightarrow> serializeInt v bits ctx)"

definition deserializePrimitive :: "primitive_type \<Rightarrow> string \<Rightarrow> jsval codec" where
  "deserializePrimitive p s =
    (case p of AddressP \<Rightarrow> map_sum id JStr (parseAddress s) | BooleanP \<Rightarrow> Inr (JBool (parseBoolean s))
     | FieldP \<Rightarrow> map_sum id JStr (parseScalarLike ''field'' s) | GroupP \<Rightarrow> map_sum id JStr (parseScalarLike ''group'' s)
     | ScalarP \<Rightarrow> map_sum id JStr (parseScalarLike ''scalar'' s) | IdentifierP \<Rightarrow> map_sum id JStr (parseIdentifier s)
     | SignatureP \<Rightarrow> Inr (JStr s)
     | UIntP bits \<Rightarrow> if 32 < bits then map_sum id JBig (parseBigInt s) else Inr (JNum (parseNumber s))
     | IntP bits \<Rightarrow> if 32 < bits then map_sum id JBig (parseBigInt s) else Inr (JNum (parseNumber s)))"

text \<open>The text of a zero, where \<^verbatim>\<open>None\<close> is written.\<close>

definition zero_primitive :: "primitive_type \<Rightarrow> string option" where
  "zero_primitive p =
    (case p of AddressP \<Rightarrow> Some ''aleo1qqqqqqqqqqqqqqqqqqqqqqqqqqqqqqqqqqqqqqqqqqqqqqqqqqqq3ljyzc'' | BooleanP \<Rightarrow> Some ''false''
     | FieldP \<Rightarrow> Some ''0field'' | GroupP \<Rightarrow> Some ''0group'' | IdentifierP \<Rightarrow> Some ([quote_char] @ ''lionden_zero'' @ [quote_char])
     | ScalarP \<Rightarrow> Some ''0scalar'' | SignatureP \<Rightarrow> None
     | UIntP bits \<Rightarrow> Some (''0u'' @ nat_str bits) | IntP bits \<Rightarrow> Some (''0i'' @ nat_str bits))"

definition all_some :: "'a option list \<Rightarrow> 'a list option" where
  "all_some xs = (if None \<in> set xs then None else Some (map the xs))"

fun zeroLeoValue :: "nat \<Rightarrow> generation_context \<Rightarrow> string list \<Rightarrow> plaintext_type \<Rightarrow> string option" where
  "zeroLeoValue n g seen (Primitive p) = zero_primitive p"
| "zeroLeoValue n g seen (Array ty len) =
    (case zeroLeoValue n g seen ty of None \<Rightarrow> None | Some z \<Rightarrow> Some (''['' @ join_with '', '' (replicate len z) @ '']''))"
| "zeroLeoValue n g seen (Optional ty) =
    (case zeroLeoValue n g seen ty of None \<Rightarrow> None | Some z \<Rightarrow> Some (''{ is_some: false, val: '' @ z @ '' }''))"
| "zeroLeoValue 0 g seen (Struct program path) = None"
| "zeroLeoValue (Suc n) g seen (Struct program path) =
    (if \<not> isLocalStructRef g program path \<or> pathKey path \<in> set seen then None
     else case om_get (gc_structs g) (pathKey path) of
       None \<Rightarrow> None
     | Some fs \<Rightarrow> map_option (\<lambda>zs. fields_text (zip (map fst fs) zs))
         (all_some (map (\<lambda>(name, ty). zeroLeoValue n g (pathKey path # seen) ty) fs)))"

text \<open>No struct is entered twice on the way, so the number of structs bounds the depth.\<close>

definition zero_text :: "generation_context \<Rightarrow> plaintext_type \<Rightarrow> string option" where
  "zero_text g ty = zeroLeoValue (Suc (length (gc_structs g))) g [] ty"

definition nullish :: "jsval \<Rightarrow> bool" where
  "nullish v \<longleftrightarrow> v = JUndef \<or> v = JNull"

fun serialize_value :: "nat \<Rightarrow> bindings \<Rightarrow> generation_context \<Rightarrow> plaintext_type \<Rightarrow> jsval \<Rightarrow> input_context option \<Rightarrow> string codec" where
  "serialize_value n B g (Primitive p) v ctx = serializePrimitive p v ctx"
| "serialize_value n B g (Array ty len) v ctx = serializeArray v ctx (serialize_value n B g ty)"
| "serialize_value n B g (Optional ty) v ctx =
    (if \<not> nullish v then bindR (serialize_value n B g ty v ctx) (\<lambda>t. Inr (''{ is_some: true, val: '' @ t @ '' }''))
     else case zero_text g ty of
       Some z \<Rightarrow> Inr (''{ is_some: false, val: '' @ z @ '' }'')
     | None \<Rightarrow> serializeUnsupportedOptionalNone ctx)"
| "serialize_value 0 B g (Struct program path) v ctx = Inl NestedTooDeep"
| "serialize_value (Suc n) B g (Struct program path) v ctx =
    (case bound_struct B g program path of
      None \<Rightarrow> serializePlaintext v ctx
    | Some (g', fs) \<Rightarrow> bindR (assertObject v ctx) (\<lambda>_.
        bindR (mapR (\<lambda>(name, ty). bindR (serialize_value n B g' ty (prop_of v name) (childInputContext ctx name)) (\<lambda>t. Inr (name, t))) fs)
          (\<lambda>ts. Inr (fields_text ts))))"

definition read_field :: "(string, string) omap \<Rightarrow> string \<Rightarrow> (string \<Rightarrow> jsval codec) \<Rightarrow> jsval codec" where
  "read_field texts name parse = (case om_get texts name of None \<Rightarrow> Inl NoText | Some t \<Rightarrow> parse t)"

fun is_optional :: "plaintext_type \<Rightarrow> bool" where
  "is_optional (Optional ty) = True"
| "is_optional ty = False"

text \<open>
  The code printed for an optional is a function that binds \<^verbatim>\<open>_opt\<close> to the parsed struct. For an
  optional right inside it the initialiser of the inner \<^verbatim>\<open>_opt\<close> reads \<^verbatim>\<open>_opt["val"]\<close>, which is the
  inner binding itself, not initialised yet: a \<^verbatim>\<open>ReferenceError\<close>.
\<close>

fun deserialize_value :: "nat \<Rightarrow> bindings \<Rightarrow> generation_context \<Rightarrow> plaintext_type \<Rightarrow> string \<Rightarrow> jsval codec" where
  "deserialize_value n B g (Primitive p) s = deserializePrimitive p s"
| "deserialize_value n B g (Array ty len) s = map_sum id JArr (mapR (deserialize_value n B g ty) (parseArray s))"
| "deserialize_value n B g (Optional ty) s =
    (case om_get (parseStruct s) ''is_some'' of
      None \<Rightarrow> Inl NoText
    | Some b \<Rightarrow> if \<not> parseBoolean b then Inr JNull
        else if is_optional ty then Inl (NotInitialised ''_opt'')
        else read_field (parseStruct s) ''val'' (deserialize_value n B g ty))"
| "deserialize_value 0 B g (Struct program path) s = Inl NestedTooDeep"
| "deserialize_value (Suc n) B g (Struct program path) s =
    (case bound_struct B g program path of
      None \<Rightarrow> Inr (JStr s)
    | Some (g', fs) \<Rightarrow> map_sum id JObj
        (mapR (\<lambda>(name, ty). bindR (read_field (parseStruct s) name (deserialize_value n B g' ty)) (\<lambda>v. Inr (name, v))) fs))"

text \<open>A record: the text it was read from is kept beside its fields and written again as it was.\<close>

record record_value =
  rv_fields :: jsval
  rv_raw :: "string option"

definition serialize_record :: "nat \<Rightarrow> bindings \<Rightarrow> generation_context \<Rightarrow> struct_fields \<Rightarrow> record_value \<Rightarrow> input_context option \<Rightarrow> string codec" where
  "serialize_record n B g fs r ctx =
    bindR (assertObject (rv_fields r) ctx) (\<lambda>_.
      case rv_raw r of
        Some raw \<Rightarrow> Inr raw
      | None \<Rightarrow>
          bindR (mapR (\<lambda>(name, ty). bindR (serialize_value n B g ty (prop_of (rv_fields r) name) (childInputContext ctx name)) (\<lambda>t. Inr (name, t))) fs) (\<lambda>ts.
          bindR (serializeScalarLike (prop_of (rv_fields r) ''_nonce'') ''group'' (childInputContext ctx ''_nonce'')) (\<lambda>nonce.
            Inr (fields_text (ts @ [(''_nonce'', nonce)])))))"

definition deserialize_record :: "nat \<Rightarrow> bindings \<Rightarrow> generation_context \<Rightarrow> struct_fields \<Rightarrow> string \<Rightarrow> record_value codec" where
  "deserialize_record n B g fs s =
    (let texts = parseStruct s
     in bindR (read_field texts ''owner'' (\<lambda>t. map_sum id JStr (parseAddress t))) (\<lambda>owner.
        bindR (mapR (\<lambda>(name, ty). bindR (read_field texts name (deserialize_value n B g ty)) (\<lambda>v. Inr (name, v)))
            (filter (\<lambda>(name, ty). name \<noteq> ''owner'') fs)) (\<lambda>vs.
        bindR (map_sum id JStr (parseScalarLike ''group'' (case om_get texts ''_nonce'' of None \<Rightarrow> [] | Some t \<Rightarrow> t))) (\<lambda>nonce.
          Inr \<lparr>rv_fields = JObj ([(''owner'', owner)] @ vs @ [(''_nonce'', nonce)]), rv_raw = Some s\<rparr>))))"

end
