(* ===== verification/ContractRoundTrip.thy ===== *)
theory ContractRoundTrip imports ContractValues begin

text \<open>
  What the values of generated contracts promise: an integer is written exactly when it fits its
  type, a text that was written is balanced, and reading it back gives a value that is written as
  the same text.
\<close>

section \<open>Texts without outer space\<close>

definition tidy :: "string \<Rightarrow> bool" where
  "tidy s \<longleftrightarrow> s \<noteq> [] \<and> \<not> is_js_space (hd s) \<and> \<not> is_js_space (last s)"

lemma trim_spaces: "tidy s \<Longrightarrow> list_all is_js_space a \<Longrightarrow> list_all is_js_space b \<Longrightarrow> js_trim (a @ s @ b) = s"
proof -
  assume t: "tidy s" and a: "list_all is_js_space a" and b: "list_all is_js_space b"
  have skip: "dropWhile is_js_space (x @ y) = dropWhile is_js_space y" if "list_all is_js_space x" for x y
    using that by (induction x) auto
  have stop: "dropWhile is_js_space (y @ z) = y @ z" if "y \<noteq> []" "\<not> is_js_space (hd y)" for y z
    using that by (cases y) auto
  have "rev s \<noteq> []" "\<not> is_js_space (hd (rev s))" using t by (simp_all add: tidy_def hd_rev)
  moreover have "list_all is_js_space (rev b)" using b by (simp add: list_all_iff)
  ultimately have "dropWhile is_js_space (rev (s @ b)) = rev s" using skip [of "rev b" "rev s"] stop [of "rev s" "[]"] by simp
  moreover have "dropWhile is_js_space (a @ s @ b) = s @ b" using skip [OF a] stop [of s b] t by (simp add: tidy_def)
  ultimately show ?thesis by (simp add: js_trim_def)
qed

lemma trim_tidy [simp]: "tidy s \<Longrightarrow> js_trim s = s"
  using trim_spaces [of s "[]" "[]"] by simp

lemma tidy_append: "tidy a \<Longrightarrow> tidy b \<Longrightarrow> tidy (a @ m @ b)"
  by (auto simp: tidy_def)

lemma trim_tidy_result: "js_trim s \<noteq> [] \<Longrightarrow> tidy (js_trim s)"
proof -
  assume ne: "js_trim s \<noteq> []"
  define d where "d = dropWhile is_js_space s"
  have t: "js_trim s = rev (dropWhile is_js_space (rev d))" by (simp add: js_trim_def d_def)
  have ne2: "dropWhile is_js_space (rev d) \<noteq> []" using ne t by simp
  then have last: "\<not> is_js_space (last (js_trim s))" using hd_dropWhile [of is_js_space "rev d"] unfolding t last_rev by blast
  obtain sp where sp: "rev d = sp @ dropWhile is_js_space (rev d)" by (metis takeWhile_dropWhile_id)
  then have "d = rev (dropWhile is_js_space (rev d)) @ rev sp" by (metis rev_append rev_rev_ident)
  then have "hd d = hd (js_trim s)" "d \<noteq> []" using ne t by (metis hd_append2, metis append_is_Nil_conv)
  then have "\<not> is_js_space (hd (js_trim s))" using hd_dropWhile [of is_js_space s] d_def by simp
  then show ?thesis using ne last by (simp add: tidy_def)
qed

section \<open>Balanced texts\<close>

text \<open>The depth after a text that starts at a depth, if it never closes more than it opens and has no comma or colon at depth 0.\<close>

fun scan_depth :: "nat \<Rightarrow> string \<Rightarrow> nat option" where
  "scan_depth d [] = Some d"
| "scan_depth d (c # s) =
    (if c = CHR ''{'' \<or> c = CHR ''['' then scan_depth (Suc d) s
     else if c = CHR ''}'' \<or> c = CHR '']'' then (case d of 0 \<Rightarrow> None | Suc d' \<Rightarrow> scan_depth d' s)
     else if d = 0 \<and> (c = CHR '','' \<or> c = CHR '':'') then None else scan_depth d s)"

definition balanced :: "string \<Rightarrow> bool" where
  "balanced s \<longleftrightarrow> tidy s \<and> scan_depth 0 s = Some 0"

lemma scan_append: "scan_depth d (s @ t) = Option.bind (scan_depth d s) (\<lambda>d'. scan_depth d' t)"
  by (induction d s rule: scan_depth.induct) (auto split: nat.splits)

lemma scan_lift: "scan_depth d s = Some d' \<Longrightarrow> scan_depth (d + k) s = Some (d' + k)"
  by (induction d s rule: scan_depth.induct) (auto split: nat.splits if_splits)

lemma balanced_inside: "balanced s \<Longrightarrow> scan_depth (Suc d) s = Some (Suc d)"
  using scan_lift [of 0 s 0 "Suc d"] by (simp add: balanced_def)

lemma scan_separator: "scan_depth (Suc d) '', '' = Some (Suc d)" "scan_depth (Suc d) '': '' = Some (Suc d)"
  by simp_all

lemma scan_joined: "\<forall>s \<in> set ss. scan_depth (Suc d) s = Some (Suc d) \<Longrightarrow> scan_depth (Suc d) (join_with '', '' ss) = Some (Suc d)"
proof (induction ss)
  case (Cons s ss)
  then show ?case by (cases ss) (simp_all add: scan_append)
qed simp

definition plain_char :: "char \<Rightarrow> bool" where
  "plain_char c \<longleftrightarrow> c \<notin> {CHR ''{'', CHR ''}'', CHR ''['', CHR '']'', CHR '','', CHR '':''}"

lemma scan_plain: "list_all plain_char s \<Longrightarrow> scan_depth d s = Some d"
  by (induction s) (auto simp: plain_char_def)

section \<open>Integers\<close>

lemma digit_of: "n < 10 \<Longrightarrow> is_digit (char_of (48 + n)) \<and> digit_val (char_of (48 + n)) = n"
  for n :: nat
proof -
  assume "n < 10"
  then have "n \<in> {0,1,2,3,4,5,6,7,8,9}" by auto
  then show ?thesis by (elim insertE emptyE; hypsubst; code_simp)
qed

lemma nat_str_facts: "nat_str n \<noteq> [] \<and> list_all is_digit (nat_str n) \<and> digits_val 10 (nat_str n) = n"
proof (induction n rule: nat_str.induct)
  case (1 n)
  show ?case
  proof (cases "n < 10")
    case True
    then show ?thesis using digit_of [OF True] by (simp add: nat_str.simps [of n] digits_val_def)
  next
    case False
    have "n mod 10 < 10" by simp
    note d = digit_of [OF this]
    show ?thesis using 1 [OF False] False d by (simp add: nat_str.simps [of n] digits_val_def)
  qed
qed

lemma digit_facts: "is_digit c \<Longrightarrow> \<not> is_js_space c \<and> plain_char c \<and> \<not> is_upper c \<and> \<not> is_lower c \<and> c \<noteq> CHR ''-'' \<and> c \<noteq> CHR ''+'' \<and> c \<noteq> CHR ''.''"
proof -
  assume d: "is_digit c"
  then have n: "48 \<le> (of_char c :: nat)" "(of_char c :: nat) \<le> 57" by (auto simp: is_digit_def char_between_def)
  have "c \<noteq> x" if "(of_char x :: nat) < 48 \<or> 57 < (of_char x :: nat)" for x using that n by auto
  then show ?thesis using n by (auto simp: is_js_space_def plain_char_def is_upper_def is_lower_def char_between_def)
qed

lemma int_str_facts:
  "int_str i \<noteq> []" "list_all (\<lambda>c. is_digit c \<or> c = CHR ''-'') (int_str i)" "is_digit (last (int_str i))" "list_all is_digit (tl (int_str i))"
proof -
  note n = nat_str_facts [of "nat i"] and m = nat_str_facts [of "nat (- i)"]
  have last: "is_digit (last s)" if "s \<noteq> [] \<and> list_all is_digit s \<and> digits_val 10 s = k" for s k using that by (auto simp: list_all_iff)
  show "int_str i \<noteq> []" "list_all (\<lambda>c. is_digit c \<or> c = CHR ''-'') (int_str i)" "is_digit (last (int_str i))" "list_all is_digit (tl (int_str i))"
    using n m last [OF n] last [OF m] by (auto simp: int_str_def list_all_iff dest: list.set_sel(2))
qed

lemma int_char: "is_digit c \<or> c = CHR ''-'' \<Longrightarrow> \<not> is_js_space c \<and> plain_char c \<and> \<not> is_lower c \<and> \<not> is_upper c"
  using digit_facts [of c] by (auto simp: is_js_space_def plain_char_def is_lower_def is_upper_def char_between_def)

lemma int_str_tidy: "tidy (int_str i)"
  using int_str_facts [of i] int_char unfolding tidy_def list_all_iff by (metis hd_in_set last_in_set)

lemma lower_letter: "is_upper c \<Longrightarrow> is_lower (char_of ((of_char c :: nat) + 32))"
proof -
  assume "is_upper c"
  then have "65 \<le> (of_char c :: nat)" "(of_char c :: nat) \<le> 90" by (auto simp: is_upper_def char_between_def)
  then show ?thesis by (simp add: is_lower_def char_between_def)
qed

lemma js_lower_append [simp]: "js_lower (s @ t) = js_lower s @ js_lower t"
  by (simp add: js_lower_def)

lemma js_lower_fixed: "list_all (\<lambda>c. \<not> is_upper c) s \<Longrightarrow> js_lower s = s"
  by (induction s) (auto simp: js_lower_def)

text \<open>A suffix of a type starts with a letter, so none starts inside an integer.\<close>

lemma type_suffix_letter: "is_type_suffix t \<Longrightarrow> t \<noteq> [] \<and> (is_lower (hd t) \<or> is_upper (hd t))"
proof -
  assume s: "is_type_suffix t"
  have letters: "list_all (\<lambda>w. w \<noteq> [] \<and> is_lower (hd w)) TYPE_SUFFIXES" by code_simp
  obtain w v where w: "w \<in> set TYPE_SUFFIXES" "js_lower t = w @ v" using s by (auto simp: is_type_suffix_def list_ex_iff)
  then have "w \<noteq> []" "is_lower (hd w)" using letters by (auto simp: list_all_iff)
  then have "t \<noteq> []" "is_lower (hd (js_lower t))" using w(2) by (auto simp: js_lower_def)
  then show ?thesis by (cases t) (auto simp: js_lower_def split: if_splits)
qed

lemma stripSuffix_number:
  assumes d: "list_all (\<lambda>c. is_digit c \<or> c = CHR ''-'') n" and s: "is_type_suffix t"
  shows "stripSuffix (n @ t) = n"
proof -
  have no: "\<not> is_type_suffix (drop i (n @ t))" if "i < length n" for i
  proof
    assume "is_type_suffix (drop i (n @ t))"
    then have "is_lower (n ! i) \<or> is_upper (n ! i)" using type_suffix_letter that by (fastforce simp: hd_drop_conv_nth hd_append)
    moreover have "is_digit (n ! i) \<or> n ! i = CHR ''-''" using d that by (simp add: list_all_length)
    ultimately show False using int_char by blast
  qed
  have t: "t \<noteq> []" using type_suffix_letter [OF s] by blast
  have "find (\<lambda>i. is_type_suffix (drop i (n @ t))) [0..<length (n @ t)] = Some (length n)"
    unfolding find_Some_iff
    using no s t by (intro exI [of _ "length n"]) auto
  then show ?thesis by (simp add: stripSuffix_def)
qed

lemma digits_all: "list_all is_digit s \<Longrightarrow> s \<noteq> [] \<Longrightarrow> all_digits 10 s"
proof -
  assume s: "list_all is_digit s" "s \<noteq> []"
  have "digit_val c < 10" if "is_digit c" for c
    using that by (auto simp: digit_val_def is_digit_def char_between_def)
  then show ?thesis using s by (auto simp: all_digits_def list_all_iff)
qed

lemma signed_int: "signed (int_str i) = (if i < 0 then (-1, nat_str (nat (- i))) else (1, nat_str (nat i)))"
proof -
  obtain c cs where c: "nat_str (nat i) = c # cs" "is_digit c" using nat_str_facts [of "nat i"] by (cases "nat_str (nat i)") auto
  then show ?thesis using digit_facts [of c] by (simp add: signed_def int_str_def)
qed

lemma second_char_digit: "2 \<le> length (int_str i) \<Longrightarrow> is_digit (int_str i ! 1)"
  using int_str_facts(4) [of i] by (cases "int_str i"; cases "tl (int_str i)") auto

lemma BigInt_int: "js_BigInt (int_str i) = Some i"
proof -
  have radix: "js_lower (take 2 (int_str i)) \<noteq> [CHR ''0'', x]" if "is_lower x" for x
  proof
    assume e: "js_lower (take 2 (int_str i)) = [CHR ''0'', x]"
    then have "length (js_lower (take 2 (int_str i))) = 2" by simp
    then have two: "2 \<le> length (int_str i)" by (simp add: js_lower_def)
    then have "js_lower (take 2 (int_str i)) ! 1 = int_str i ! 1" using digit_facts [OF second_char_digit [OF two]] by (simp add: js_lower_def)
    then have "x = int_str i ! 1" using e by simp
    then show False using that digit_facts [OF second_char_digit [OF two]] by simp
  qed
  have l: "is_lower (CHR ''x'')" "is_lower (CHR ''o'')" "is_lower (CHR ''b'')" by code_simp+
  note n = nat_str_facts [of "nat i"] and m = nat_str_facts [of "nat (- i)"]
  have "radix_int 10 (nat_str k) = Some (int k)" for k using nat_str_facts [of k] digits_all [of "nat_str k"] by (simp add: radix_int_def)
  then show ?thesis using radix [OF l(1)] radix [OF l(2)] radix [OF l(3)] int_str_facts(1) [of i]
    by (simp add: js_BigInt_def Let_def trim_tidy [OF int_str_tidy] signed_int)
qed

lemma js_Number_decimal: "js_trim s = s \<Longrightarrow> s \<noteq> [] \<Longrightarrow> (2 \<le> length s \<Longrightarrow> is_digit (s ! 1)) \<Longrightarrow> js_Number s = decimal_num s"
proof -
  assume t: "js_trim s = s" "s \<noteq> []" and d: "2 \<le> length s \<Longrightarrow> is_digit (s ! 1)"
  have no: "\<not> is_digit (CHR ''x'')" "\<not> is_digit (CHR ''X'')" "\<not> is_digit (CHR ''o'')" "\<not> is_digit (CHR ''O'')" "\<not> is_digit (CHR ''b'')" "\<not> is_digit (CHR ''B'')"
    by code_simp+
  consider z where "s = [z]" | z x xs where "s = z # x # xs" using t(2) by (metis neq_Nil_conv)
  then show ?thesis
  proof cases
    case 1
    then show ?thesis using t by (simp add: js_Number_def Let_def)
  next
    case 2
    then have "is_digit x" using d by simp
    then have "x \<noteq> CHR ''x''" "x \<noteq> CHR ''X''" "x \<noteq> CHR ''o''" "x \<noteq> CHR ''O''" "x \<noteq> CHR ''b''" "x \<noteq> CHR ''B''" using no by metis+
    then show ?thesis using t 2 by (simp add: js_Number_def Let_def)
  qed
qed

lemma Number_int: "js_Number (int_str i) = Fin (of_int i)"
proof -
  have dec: "js_Number (int_str i) = decimal_num (int_str i)"
    using js_Number_decimal [OF trim_tidy [OF int_str_tidy] int_str_facts(1) second_char_digit] .
  have digits: "takeWhile is_digit (nat_str k) = nat_str k" "dropWhile is_digit (nat_str k) = []" "nat_str k \<noteq> ''Infinity''" for k
  proof -
    have d: "list_all is_digit (nat_str k)" using nat_str_facts by blast
    then show "takeWhile is_digit (nat_str k) = nat_str k" "dropWhile is_digit (nat_str k) = []"
      by (auto simp: list_all_iff takeWhile_eq_all_conv)
    have "\<not> list_all is_digit ''Infinity''" by code_simp
    then show "nat_str k \<noteq> ''Infinity''" using d by metis
  qed
  show ?thesis unfolding dec decimal_num_def signed_int
    using nat_str_facts [of "nat i"] nat_str_facts [of "nat (- i)"]
    by (auto simp: digits exponent_of_def scale10_def Let_def)
qed

section \<open>Integer types\<close>

definition VISIBILITIES :: "string list" where "VISIBILITIES = [[], ''.public'', ''.private'']"

definition WIDTHS :: "nat list" where "WIDTHS = [8, 16, 32, 64, 128]"

fun int_type :: "primitive_type \<Rightarrow> bool" where
  "int_type (UIntP bits) = (bits \<in> set WIDTHS)"
| "int_type (IntP bits) = (bits \<in> set WIDTHS)"
| "int_type p = False"

fun int_fits :: "primitive_type \<Rightarrow> int \<Rightarrow> bool" where
  "int_fits (UIntP bits) i = (0 \<le> i \<and> i < 2 ^ bits)"
| "int_fits (IntP bits) i = (- (2 ^ (bits - 1)) \<le> i \<and> i < 2 ^ (bits - 1))"
| "int_fits p i = False"

fun type_width :: "primitive_type \<Rightarrow> nat" where
  "type_width (UIntP bits) = bits" | "type_width (IntP bits) = bits" | "type_width p = 0"

fun type_name :: "primitive_type \<Rightarrow> string" where
  "type_name (UIntP bits) = ''u'' @ nat_str bits" | "type_name (IntP bits) = ''i'' @ nat_str bits" | "type_name p = []"

definition int_value :: "primitive_type \<Rightarrow> int \<Rightarrow> jsval" where
  "int_value p i = (if type_width p \<le> 32 then jint i else JBig i)"

lemma suffix_with_visibility: "w \<in> set TYPE_SUFFIXES \<Longrightarrow> vis \<in> set VISIBILITIES \<Longrightarrow> is_type_suffix (w @ vis)"
proof -
  assume w: "w \<in> set TYPE_SUFFIXES" and v: "vis \<in> set VISIBILITIES"
  have "list_all (\<lambda>w. js_lower w = w) TYPE_SUFFIXES" "list_all (\<lambda>w. js_lower w = w) VISIBILITIES" by code_simp+
  then have "js_lower (w @ vis) = w @ vis" using w v by (simp add: list_all_iff)
  then show ?thesis using w v by (auto simp: is_type_suffix_def list_ex_iff VISIBILITIES_def)
qed

lemma int_type_names: "int_type p \<Longrightarrow> type_name p \<in> set TYPE_SUFFIXES"
proof -
  assume p: "int_type p"
  have "list_all (\<lambda>b. ''u'' @ nat_str b \<in> set TYPE_SUFFIXES \<and> ''i'' @ nat_str b \<in> set TYPE_SUFFIXES) WIDTHS" by code_simp
  then show ?thesis using p by (cases p) (auto simp: list_all_iff)
qed

lemma is_integer_value: "js_isInteger v \<longleftrightarrow> v = jint (js_int v)"
proof (cases v)
  case (JNum x)
  then show ?thesis by (cases x) auto
qed auto

lemma is_bigint_value: "is_bigint v \<longleftrightarrow> v = JBig (js_int v)"
  by (cases v) (auto simp: is_bigint_def)

lemma js_int_value [simp]: "js_int (int_value p i) = i"
  by (simp add: int_value_def)

lemma int_written:
  assumes "int_type p"
  shows "serializePrimitive p v ctx = Inr s \<longleftrightarrow> (\<exists>i. int_fits p i \<and> v = int_value p i \<and> s = int_str i @ type_name p)"
proof -
  have num: "(if type_width p \<le> 32 then js_isInteger v else is_bigint v) \<longleftrightarrow> v = int_value p (js_int v)"
    by (simp add: is_integer_value [of v] is_bigint_value [of v] int_value_def)
  have "serializePrimitive p v ctx = Inr s \<longleftrightarrow> v = int_value p (js_int v) \<and> int_fits p (js_int v) \<and> s = int_str (js_int v) @ type_name p"
    using assms num by (cases p) (auto simp: serializePrimitive_def serializeUInt_def serializeInt_def Let_def split: if_splits)
  then show ?thesis by auto
qed

lemma int_read:
  assumes "int_type p" and "vis \<in> set VISIBILITIES"
  shows "deserializePrimitive p ((int_str i @ type_name p) @ vis) = Inr (int_value p i)"
proof -
  have "stripSuffix ((int_str i @ type_name p) @ vis) = int_str i"
    using stripSuffix_number [OF int_str_facts(2) suffix_with_visibility [OF int_type_names [OF assms(1)] assms(2)], of i] by simp
  then show ?thesis using assms(1)
    by (cases p) (auto simp: deserializePrimitive_def parseBigInt_def parseNumber_def BigInt_int Number_int int_value_def)
qed

text \<open>
  C19: A value is written for an integer type exactly when it is an integer of the type's range, a
  number up to 32 bits and a bigint above; what is written is its decimal text with the type's
  name, and that text reads back as the value, with a visibility after it or without.
\<close>

theorem integers_fit_their_type:
  assumes "int_type p"
  shows "serializePrimitive p v ctx = Inr s \<longleftrightarrow>
    (\<exists>i. int_fits p i \<and> v = int_value p i \<and> s = int_str i @ type_name p
      \<and> list_all (\<lambda>vis. deserializePrimitive p (s @ vis) = Inr v) VISIBILITIES)"
  using int_written [OF assms] int_read [OF assms] by (auto simp: list_all_iff)

theorem integers_fit_their_type_witness:
  "deserializePrimitive (IntP 8) ''-128i8.public'' = Inr (jint (-128)) \<and> (\<nexists>s. serializePrimitive (IntP 8) (jint 128) None = Inr s)"
proof
  have t: "int_type (IntP 8)" by (simp add: WIDTHS_def)
  have "serializePrimitive (IntP 8) (jint (-128)) None = Inr ''-128i8''" by code_simp
  then have "list_all (\<lambda>vis. deserializePrimitive (IntP 8) (''-128i8'' @ vis) = Inr (jint (-128))) VISIBILITIES"
    using integers_fit_their_type [OF t] by blast
  then show "deserializePrimitive (IntP 8) ''-128i8.public'' = Inr (jint (-128))" by (simp add: VISIBILITIES_def)
  have "\<not> (int_fits (IntP 8) i \<and> jint 128 = int_value (IntP 8) i)" for i by (auto simp: int_value_def)
  then show "\<nexists>s. serializePrimitive (IntP 8) (jint 128) None = Inr s" using integers_fit_their_type [OF t] by blast
qed

section \<open>Primitive values\<close>

definition alnum :: "char \<Rightarrow> bool" where
  "alnum c \<longleftrightarrow> is_lower c \<or> is_upper c \<or> is_digit c"

lemma letter_char: "is_lower c \<or> is_upper c \<Longrightarrow> \<not> is_js_space c \<and> plain_char c \<and> c \<noteq> CHR ''.'' \<and> c \<noteq> quote_char"
proof -
  assume "is_lower c \<or> is_upper c"
  then have n: "65 \<le> (of_char c :: nat)" "(of_char c :: nat) \<le> 90 \<or> 97 \<le> (of_char c :: nat)" "(of_char c :: nat) \<le> 122"
    by (auto simp: is_lower_def is_upper_def char_between_def)
  have "c \<noteq> x" if "(of_char x :: nat) < 65 \<or> (90 < (of_char x :: nat) \<and> (of_char x :: nat) < 97) \<or> 122 < (of_char x :: nat)" for x
    using that n by auto
  then show ?thesis using n by (auto simp: is_js_space_def plain_char_def quote_char_def)
qed

lemma alnum_char: "alnum c \<Longrightarrow> \<not> is_js_space c \<and> plain_char c \<and> c \<noteq> CHR ''.''"
  using letter_char digit_facts unfolding alnum_def by blast

lemma id_char: "is_id_char c \<Longrightarrow> \<not> is_js_space c \<and> plain_char c \<and> c \<noteq> CHR ''.'' \<and> c \<noteq> quote_char"
proof -
  assume "is_id_char c"
  moreover have "\<not> is_js_space (CHR ''_'') \<and> plain_char (CHR ''_'') \<and> CHR ''_'' \<noteq> CHR ''.'' \<and> CHR ''_'' \<noteq> quote_char" by code_simp
  moreover have "c \<noteq> quote_char" if "is_digit c" using that by (auto simp: is_digit_def char_between_def quote_char_def)
  ultimately show ?thesis using letter_char [of c] digit_facts [of c] unfolding is_id_char_def by metis
qed

lemma solid_tidy: "s \<noteq> [] \<Longrightarrow> list_all (\<lambda>c. \<not> is_js_space c) s \<Longrightarrow> tidy s"
  by (auto simp: tidy_def list_all_iff)

lemma solid_visibility: "s \<noteq> [] \<Longrightarrow> list_all (\<lambda>c. \<not> is_js_space c \<and> c \<noteq> CHR ''.'') s \<Longrightarrow> stripVisibility s = s"
proof -
  assume s: "s \<noteq> []" "list_all (\<lambda>c. \<not> is_js_space c \<and> c \<noteq> CHR ''.'') s"
  have t: "js_trim s = s" using s by (intro trim_tidy solid_tidy) (auto simp: list_all_iff)
  have dot: "char_of (n + 32) \<noteq> CHR ''.''" if "65 \<le> n" "n \<le> 90" for n :: nat
  proof
    assume "char_of (n + 32) = CHR ''.''"
    then have "(of_char (char_of (n + 32) :: char) :: nat) = of_char (CHR ''.'')" by simp
    then show False using that by simp
  qed
  have "CHR ''.'' \<notin> set (js_lower s)"
  proof
    assume "CHR ''.'' \<in> set (js_lower s)"
    then obtain c where c: "c \<in> set s" "CHR ''.'' = (if is_upper c then char_of ((of_char c :: nat) + 32) else c)" by (auto simp: js_lower_def)
    then show False using s(2) dot [of "of_char c"] by (auto simp: list_all_iff is_upper_def char_between_def split: if_splits)
  qed
  then have "\<not> ends_with (js_lower s) ''.public''" "\<not> ends_with (js_lower s) ''.private''"
    by (auto simp: ends_with_suffix dest!: set_mono_suffix)
  then show ?thesis by (simp add: stripVisibility_def t)
qed

lemma alnum_text: "s \<noteq> [] \<Longrightarrow> list_all alnum s \<Longrightarrow> tidy s \<and> balanced s \<and> stripVisibility s = s"
proof -
  assume s: "s \<noteq> []" "list_all alnum s"
  have "list_all (\<lambda>c. \<not> is_js_space c) s" "list_all plain_char s" "list_all (\<lambda>c. \<not> is_js_space c \<and> c \<noteq> CHR ''.'') s"
    using s(2) alnum_char by (auto simp: list_all_iff)
  then show ?thesis using s solid_tidy solid_visibility scan_plain by (auto simp: balanced_def)
qed

lemma lower_alnum: "is_digit c' \<or> is_lower c' \<Longrightarrow> c' = (if is_upper c then char_of ((of_char c :: nat) + 32) else c) \<Longrightarrow> alnum c"
  by (auto simp: alnum_def split: if_splits)

lemma address_alnum: "is_address_literal a \<Longrightarrow> a \<noteq> [] \<and> list_all alnum a"
proof -
  assume a: "is_address_literal a"
  then have ne: "a \<noteq> []" by (auto simp: is_address_literal_def)
  have "list_all (\<lambda>c. is_digit c \<or> is_lower c) ''aleo1''" by code_simp
  then have "list_all (\<lambda>c. is_digit c \<or> is_lower c) (take 5 (js_lower a) @ drop 5 (js_lower a))"
    using a by (simp add: is_address_literal_def js_lower_def drop_map)
  then have "list_all (\<lambda>c. is_digit c \<or> is_lower c) (js_lower a)" by simp
  then have "list_all alnum a" using lower_alnum by (auto simp: js_lower_def list_all_iff)
  then show ?thesis using ne by blast
qed

definition scalar_text :: "string \<Rightarrow> string \<Rightarrow> bool" where
  "scalar_text sfx s \<longleftrightarrow> ends_with (js_lower s) sfx \<and> all_decimal (take (length s - length sfx) s)"

definition SCALARS :: "string list" where "SCALARS = [''field'', ''group'', ''scalar'']"

lemma scalar_suffix: "sfx \<in> set SCALARS \<Longrightarrow> js_lower sfx = sfx \<and> list_all is_lower sfx"
proof -
  assume s: "sfx \<in> set SCALARS"
  have "list_all (\<lambda>s. js_lower s = s \<and> list_all is_lower s) SCALARS" by code_simp
  then show ?thesis using s by (simp add: list_all_iff)
qed

lemma scalar_text_alnum: "sfx \<in> set SCALARS \<Longrightarrow> scalar_text sfx s \<Longrightarrow> s \<noteq> [] \<and> list_all alnum s"
proof -
  assume sfx: "sfx \<in> set SCALARS" and s: "scalar_text sfx s"
  let ?n = "length s - length sfx"
  have low: "js_lower s = js_lower (take ?n s) @ js_lower (drop ?n s)" by (metis append_take_drop_id js_lower_append)
  have len: "length (js_lower t) = length t" for t by (simp add: js_lower_def)
  obtain p where p: "js_lower s = p @ sfx" using s by (auto simp: scalar_text_def ends_with_suffix suffix_def)
  then have "length p = ?n" using len [of s] by simp
  then have "js_lower (drop ?n s) = sfx" using p low len by (metis append_eq_append_conv length_append length_take min.absorb2 diff_le_self)
  then have "list_all (\<lambda>c. is_digit c \<or> is_lower c) (js_lower (drop ?n s))" using scalar_suffix [OF sfx] by (auto simp: list_all_iff)
  then have "list_all alnum (drop ?n s)" using lower_alnum by (auto simp: js_lower_def list_all_iff)
  moreover have "list_all alnum (take ?n s)" "take ?n s \<noteq> []" using s by (auto simp: scalar_text_def all_decimal_def alnum_def list_all_iff)
  ultimately show ?thesis by (metis append_take_drop_id list_all_append take_Nil)
qed

lemma scalar_written:
  assumes sfx: "sfx \<in> set SCALARS" and s: "serializeScalarLike v sfx ctx = Inr s"
  shows "scalar_text sfx s"
proof -
  note low = scalar_suffix [OF sfx]
  have new: "scalar_text sfx (d @ sfx)" if "d \<noteq> []" "list_all is_digit d" for d
    using that low by (simp add: scalar_text_def all_decimal_def ends_with_suffix suffixI)
  have int: "scalar_text sfx (int_str i @ sfx)" if "0 \<le> i" for i
    using new [of "nat_str (nat i)"] nat_str_facts [of "nat i"] that by (simp add: int_str_def)
  show ?thesis
    using s int new by (cases v) (auto simp: serializeScalarLike_def Let_def expectInputString_def scalar_text_def all_decimal_def split: if_splits)
qed

lemma scalar_read:
  assumes sfx: "sfx \<in> set SCALARS" and s: "scalar_text sfx s"
  shows "serializeScalarLike (JStr s) sfx ctx = Inr s \<and> parseScalarLike sfx s = Inr s"
proof -
  note a = alnum_text [OF conjunct1 [OF scalar_text_alnum [OF assms]] conjunct2 [OF scalar_text_alnum [OF assms]]]
  then show ?thesis using s by (simp add: parseScalarLike_def serializeScalarLike_def expectInputString_def scalar_text_def Let_def)
qed

fun primitive_ok :: "primitive_type \<Rightarrow> bool" where
  "primitive_ok (UIntP bits) = int_type (UIntP bits)"
| "primitive_ok (IntP bits) = int_type (IntP bits)"
| "primitive_ok SignatureP = False"
| "primitive_ok p = True"

lemma identifier_round_trip:
  assumes "serializeIdentifier v ctx = Inr s"
  shows "balanced s \<and> (\<exists>name. parseIdentifier s = Inr name \<and> (\<forall>ctx'. serializeIdentifier (JStr name) ctx' = Inr s))"
proof -
  obtain name where s: "s = [quote_char] @ name @ [quote_char]" and n: "is_identifier_name name"
    using assms by (auto simp: serializeIdentifier_def assertIdentifierName_def Let_def split: if_splits)
  have q: "\<not> is_js_space quote_char" "plain_char quote_char" "quote_char \<noteq> CHR ''.''" by code_simp+
  have chars: "name \<noteq> []" "list_all (\<lambda>c. \<not> is_js_space c \<and> c \<noteq> CHR ''.'') name" "list_all plain_char name" "list_all (\<lambda>c. c \<noteq> quote_char) name"
    using n id_char by (auto simp: is_identifier_name_def list_all_iff)
  have "list_all (\<lambda>c. \<not> is_js_space c \<and> c \<noteq> CHR ''.'') s" "list_all plain_char s" using chars q by (simp_all add: s)
  moreover have "list_all (\<lambda>c. \<not> is_js_space c) s" using chars q by (auto simp: s list_all_iff)
  ultimately have bal: "balanced s" and strip: "stripVisibility s = s"
    using solid_tidy [of s] solid_visibility [of s] scan_plain [of s] by (simp_all add: balanced_def s)
  have "parseIdentifier s = Inr name" using strip by (simp add: parseIdentifier_def quoted_def slice_inner_def s)
  moreover have "tidy name" using chars by (intro solid_tidy) (auto simp: list_all_iff)
  moreover have "\<not> quoted name" using chars(1,4) by (auto simp: quoted_def list_all_iff)
  ultimately have "\<forall>ctx'. serializeIdentifier (JStr name) ctx' = Inr s"
    using chars(1) n by (simp add: serializeIdentifier_def expectInputString_def assertIdentifierName_def s)
  then show ?thesis using bal \<open>parseIdentifier s = Inr name\<close> by blast
qed

lemma primitive_round_trip:
  assumes "serializePrimitive p v ctx = Inr s" and "primitive_ok p"
  shows "balanced s \<and> (\<exists>v'. deserializePrimitive p s = Inr v' \<and> \<not> nullish v' \<and> (\<forall>ctx'. serializePrimitive p v' ctx' = Inr s))"
proof -
  have scalar: "balanced s \<and> parseScalarLike sfx s = Inr s \<and> (\<forall>ctx'. serializeScalarLike (JStr s) sfx ctx' = Inr s)"
    if sfx: "sfx \<in> set SCALARS" and s: "serializeScalarLike v sfx ctx = Inr s" for sfx
    using scalar_read [OF sfx scalar_written [OF sfx s]] scalar_text_alnum [OF sfx scalar_written [OF sfx s]] alnum_text by blast
  have sc: "''field'' \<in> set SCALARS" "''group'' \<in> set SCALARS" "''scalar'' \<in> set SCALARS" by (simp_all add: SCALARS_def)
  have int: "balanced s \<and> (\<exists>v'. deserializePrimitive p s = Inr v' \<and> \<not> nullish v' \<and> (\<forall>ctx'. serializePrimitive p v' ctx' = Inr s))" if p: "int_type p"
  proof -
    obtain i where i: "int_fits p i" "v = int_value p i" "s = int_str i @ type_name p" using assms(1) int_written [OF p] by blast
    have "deserializePrimitive p s = Inr (int_value p i)" using int_read [OF p, of "[]" i] i(3) by (simp add: VISIBILITIES_def)
    moreover have "\<forall>ctx'. serializePrimitive p (int_value p i) ctx' = Inr s" using int_written [OF p] i by blast
    moreover have "list_all (\<lambda>w. w \<noteq> [] \<and> list_all alnum w) TYPE_SUFFIXES" by code_simp
    then have "type_name p \<noteq> []" "list_all alnum (type_name p)" using int_type_names [OF p] by (auto simp: list_all_iff)
    then have "list_all plain_char s" "list_all (\<lambda>c. \<not> is_js_space c) s"
      using int_str_facts(2) [of i] int_char alnum_char by (auto simp: i(3) list_all_iff)
    then have "balanced s" using int_str_facts(1) [of i] solid_tidy [of s] scan_plain [of s] by (simp add: balanced_def i(3))
    moreover have "\<not> nullish (int_value p i)" by (simp add: nullish_def int_value_def)
    ultimately show ?thesis by blast
  qed
  show ?thesis
  proof (cases p)
    case AddressP
    then obtain a where a: "is_address_literal a" "s = stripVisibility a"
      using assms(1) by (auto simp: serializePrimitive_def serializeAddress_def Let_def split: if_splits)
    note al = alnum_text [OF conjunct1 [OF address_alnum [OF a(1)]] conjunct2 [OF address_alnum [OF a(1)]]]
    then have "s = a" using a(2) by simp
    then have "\<forall>ctx'. serializeAddress (JStr s) ctx' = Inr s" using al a(1) by (simp add: serializeAddress_def expectInputString_def)
    then show ?thesis using AddressP al \<open>s = a\<close> by (auto simp: deserializePrimitive_def serializePrimitive_def parseAddress_def nullish_def)
  next
    case BooleanP
    then obtain b where b: "v = JBool b" "s = (if b then ''true'' else ''false'')"
      using assms(1) by (auto simp: serializePrimitive_def serializeBoolean_def split: jsval.splits)
    have t: "list_all alnum ''true''" "list_all alnum ''false''" by code_simp+
    have "tidy s \<and> balanced s \<and> stripVisibility s = s" using alnum_text [of s] t b(2) by (cases b) auto
    then show ?thesis using BooleanP b by (auto simp: deserializePrimitive_def serializePrimitive_def serializeBoolean_def parseBoolean_def nullish_def)
  next
    case FieldP
    then show ?thesis using assms(1) scalar [OF sc(1)] by (auto simp: serializePrimitive_def deserializePrimitive_def nullish_def)
  next
    case GroupP
    then show ?thesis using assms(1) scalar [OF sc(2)] by (auto simp: serializePrimitive_def deserializePrimitive_def nullish_def)
  next
    case ScalarP
    then show ?thesis using assms(1) scalar [OF sc(3)] by (auto simp: serializePrimitive_def deserializePrimitive_def nullish_def)
  next
    case IdentifierP
    then show ?thesis using assms(1) identifier_round_trip [of v ctx s]
      by (auto simp: serializePrimitive_def deserializePrimitive_def nullish_def)
  qed (use int assms(2) in auto)
qed

section \<open>Arrays\<close>

lemma array_scan_text: "scan_depth d x = Some d' \<Longrightarrow> array_scan (int d) cur els (x @ rest) = array_scan (int d') (cur @ x) els rest"
proof (induction d x arbitrary: cur rule: scan_depth.induct)
  case (2 d c s)
  then show ?case by (cases d) (auto simp: depth_after_def split: if_splits)
qed simp

lemma js_space: "is_js_space (CHR '' '')"
  by code_simp

lemma array_scan_joined:
  "\<forall>s \<in> set ss. balanced s \<Longrightarrow> ss \<noteq> [] \<Longrightarrow> list_all is_js_space cur \<Longrightarrow> array_scan 0 cur els (join_with '', '' ss) = els @ ss"
proof (induction ss arbitrary: cur els)
  case (Cons s ss)
  have s: "tidy s" "scan_depth 0 s = Some 0" using Cons.prems(1) by (auto simp: balanced_def)
  have trim: "js_trim (cur @ s) = s" using trim_spaces [OF s(1) Cons.prems(3), of "[]"] by simp
  have "array_scan 0 cur els (s @ rest) = array_scan 0 (cur @ s) els rest" for rest
    using array_scan_text [OF s(2), of cur els rest] by simp
  note step = this
  show ?case
  proof (cases ss)
    case Nil
    then show ?thesis using step [of "[]"] trim s(1) by (simp add: tidy_def)
  next
    case (Cons t ts)
    then have "array_scan 0 cur els (join_with '', '' (s # ss)) = array_scan 0 ('' '') (els @ [s]) (join_with '', '' ss)"
      using step trim by (simp add: depth_after_def)
    then show ?thesis using Cons.IH [of "'' ''" "els @ [s]"] Cons Cons.prems(1) js_space by simp
  qed
qed simp

lemma unwrap_bracketed:
  assumes "\<not> is_js_space opening" "\<not> is_js_space closing" "list_all is_js_space a" "list_all is_js_space b" "tidy m \<or> m = []"
  shows "unwrap opening closing ([opening] @ a @ m @ b @ [closing]) = m"
proof -
  have "tidy ([opening] @ (a @ m @ b) @ [closing])" using assms by (intro tidy_append) (simp_all add: tidy_def)
  then have t: "js_trim ([opening] @ a @ m @ b @ [closing]) = [opening] @ a @ m @ b @ [closing]" using trim_tidy by fastforce
  have "js_trim (a @ m @ b) = m"
  proof (cases "m = []")
    case True
    have "list_all is_js_space (a @ b)" using assms by simp
    then have d: "dropWhile is_js_space (a @ b) = []" by (metis dropWhile_eq_Nil_conv list_all_iff)
    show ?thesis unfolding js_trim_def True append_Nil d by simp
  qed (use assms trim_spaces in blast)
  moreover have "slice_inner ([opening] @ a @ m @ b @ [closing]) = a @ m @ b" by (simp add: slice_inner_def butlast_append)
  ultimately show ?thesis unfolding unwrap_def t Let_def by simp
qed

lemma tidy_joined: "\<forall>s \<in> set ss. tidy s \<Longrightarrow> ss \<noteq> [] \<Longrightarrow> tidy (join_with sep ss)"
proof (induction ss)
  case (Cons s ss)
  then show ?case by (cases ss) (auto intro: tidy_append)
qed simp

lemma array_text:
  assumes "\<forall>s \<in> set ss. balanced s"
  shows "parseArray (''['' @ join_with '', '' ss @ '']'') = ss \<and> balanced (''['' @ join_with '', '' ss @ '']'')"
proof -
  have sp: "\<not> is_js_space (CHR ''['')" "\<not> is_js_space (CHR '']'')" by code_simp+
  have m: "tidy (join_with '', '' ss) \<or> join_with '', '' ss = []" using assms tidy_joined [of ss "'', ''"] by (cases ss) (auto simp: balanced_def)
  have un: "unwrap (CHR ''['') (CHR '']'') (''['' @ join_with '', '' ss @ '']'') = join_with '', '' ss"
    using unwrap_bracketed [OF sp, of "[]" "[]", OF _ _ m] by simp
  have "scan_depth (Suc 0) (join_with '', '' ss) = Some (Suc 0)" using scan_joined [of ss 0] balanced_inside assms by blast
  then have "scan_depth 0 (''['' @ join_with '', '' ss @ '']'') = Some 0" by (simp add: scan_append)
  moreover have "tidy (''['' @ join_with '', '' ss @ '']'')" using sp by (intro tidy_append) (simp_all add: tidy_def)
  ultimately have "balanced (''['' @ join_with '', '' ss @ '']'')" by (simp add: balanced_def)
  moreover have "parseArray (''['' @ join_with '', '' ss @ '']'') = ss"
  proof (cases "ss = []")
    case False
    then have "join_with '', '' ss \<noteq> []" using m tidy_joined [of ss "'', ''"] assms by (auto simp: balanced_def tidy_def)
    then show ?thesis using array_scan_joined [OF assms False, of "[]" "[]"] un by (simp add: parseArray_def)
  qed (use un in \<open>simp add: parseArray_def\<close>)
  ultimately show ?thesis by blast
qed

section \<open>Structs\<close>

definition valid_name :: "string \<Rightarrow> bool" where
  "valid_name n \<longleftrightarrow> n \<noteq> [] \<and> list_all is_id_char n"

definition field_text :: "string \<times> string \<Rightarrow> string" where
  "field_text f = fst f @ '': '' @ snd f"

lemma fields_text_joined: "fields_text fs = ''{ '' @ join_with '', '' (map field_text fs) @ '' }''"
proof -
  have "field_text = (\<lambda>(n, t). n @ '': '' @ t)" by (rule ext) (simp add: field_text_def case_prod_unfold)
  then show ?thesis by (simp add: fields_text_def)
qed

lemma om_set_absent: "n \<notin> set (om_keys m) \<Longrightarrow> om_set n t m = m @ [(n, t)]"
  by (induction m) auto

lemma valid_name_facts: "valid_name n \<Longrightarrow> tidy n \<and> scan_depth d n = Some d"
proof -
  assume n: "valid_name n"
  then have "list_all (\<lambda>c. \<not> is_js_space c) n" "list_all plain_char n" using id_char by (auto simp: valid_name_def list_all_iff)
  then show ?thesis using n solid_tidy scan_plain by (auto simp: valid_name_def)
qed

lemma struct_scan_text: "scan_depth d x = Some d' \<Longrightarrow> struct_scan (int d) cur key res (x @ rest) = struct_scan (int d') (cur @ x) key res rest"
proof (induction d x arbitrary: cur rule: scan_depth.induct)
  case (2 d c s)
  then show ?case by (cases d) (auto simp: depth_after_def Let_def split: if_splits)
qed simp

lemma struct_scan_field:
  assumes "valid_name n" and "balanced t" and "list_all is_js_space cur"
  shows "struct_scan 0 cur [] res (field_text (n, t) @ rest) = struct_scan 0 ('' '' @ t) n res rest"
proof -
  have t: "scan_depth 0 t = Some 0" using assms(2) by (simp add: balanced_def)
  have n: "tidy n" "scan_depth 0 n = Some 0" using valid_name_facts [OF assms(1)] by blast+
  have trim: "js_trim (cur @ n) = n" using trim_spaces [OF n(1) assms(3), of "[]"] by simp
  have "struct_scan 0 cur [] res (n @ '': '' @ t @ rest) = struct_scan 0 (cur @ n) [] res ('': '' @ t @ rest)"
    using struct_scan_text [OF n(2), of cur "[]" res] by simp
  also have "\<dots> = struct_scan 0 ('' '') n res (t @ rest)" using trim by (simp add: depth_after_def)
  also have "\<dots> = struct_scan 0 ('' '' @ t) n res rest" using struct_scan_text [OF t, of "'' ''" n res rest] by simp
  finally show ?thesis by (simp add: field_text_def)
qed

definition good_fields :: "(string \<times> string) list \<Rightarrow> bool" where
  "good_fields fs \<longleftrightarrow> distinct (map fst fs) \<and> (\<forall>(n, t) \<in> set fs. valid_name n \<and> balanced t)"

lemma struct_scan_joined:
  "good_fields fs \<Longrightarrow> list_all is_js_space cur \<Longrightarrow> set (om_keys res) \<inter> set (map fst fs) = {}
    \<Longrightarrow> struct_scan 0 cur [] res (join_with '', '' (map field_text fs)) = res @ fs"
proof (induction fs arbitrary: cur res)
  case (Cons f fs)
  obtain n t where f: "f = (n, t)" by fastforce
  have v: "valid_name n" "balanced t" "n \<noteq> []" using Cons.prems(1) by (auto simp: good_fields_def f valid_name_def)
  have trim: "js_trim ('' '' @ t) = t" using trim_spaces [of t "'' ''" "[]"] v(2) js_space by (simp add: balanced_def)
  have new: "om_set n t res = res @ [(n, t)]" using Cons.prems(3) f by (intro om_set_absent) auto
  note step = struct_scan_field [OF v(1,2) Cons.prems(2), of res]
  show ?case
  proof (cases fs)
    case Nil
    then show ?thesis using step [of "[]"] trim new v(3) f by simp
  next
    case (Cons g gs)
    have rest: "good_fields fs" "set (om_keys (res @ [(n, t)])) \<inter> set (map fst fs) = {}"
      using Cons.prems(1,3) f by (auto simp: good_fields_def)
    have "struct_scan 0 cur [] res (join_with '', '' (map field_text (f # fs)))
        = struct_scan 0 ('' '') [] (om_set n t res) (join_with '', '' (map field_text fs))"
      using step trim v(3) f Cons by (simp add: depth_after_def)
    also have "\<dots> = (res @ [(n, t)]) @ fs" unfolding new using Cons.IH [OF rest(1) _ rest(2), of "'' ''"] js_space by simp
    finally show ?thesis using f by simp
  qed
qed simp

lemma struct_text:
  assumes fs: "good_fields fs"
  shows "parseStruct (fields_text fs) = fs \<and> balanced (fields_text fs)"
proof -
  have sp: "\<not> is_js_space (CHR ''{'')" "\<not> is_js_space (CHR ''}'')" by code_simp+
  have field: "tidy (field_text f)" "scan_depth (Suc d) (field_text f) = Some (Suc d)" if "f \<in> set fs" for f d
  proof -
    have v: "valid_name (fst f)" "balanced (snd f)" using fs that by (auto simp: good_fields_def)
    show "tidy (field_text f)" using valid_name_facts [OF v(1)] v(2) unfolding field_text_def by (intro tidy_append) (simp_all add: balanced_def)
    show "scan_depth (Suc d) (field_text f) = Some (Suc d)"
      using valid_name_facts [OF v(1), of "Suc d"] balanced_inside [OF v(2), of d] by (simp add: field_text_def scan_append)
  qed
  let ?m = "join_with '', '' (map field_text fs)"
  have m: "tidy ?m \<or> ?m = []" using tidy_joined [of "map field_text fs" "'', ''"] field(1) by (cases fs) auto
  have shape: "fields_text fs = [CHR ''{''] @ '' '' @ ?m @ '' '' @ [CHR ''}'']" by (simp add: fields_text_joined)
  have un: "unwrap (CHR ''{'') (CHR ''}'') (fields_text fs) = ?m" unfolding shape using unwrap_bracketed [OF sp _ _ m, of "'' ''" "'' ''"] js_space by simp
  have "scan_depth (Suc 0) ?m = Some (Suc 0)" using scan_joined [of "map field_text fs" 0] field(2) by auto
  then have "scan_depth 0 (fields_text fs) = Some 0" by (simp add: shape scan_append)
  moreover have "tidy ([CHR ''{''] @ ('' '' @ ?m @ '' '') @ [CHR ''}''])" using sp by (intro tidy_append) (simp_all add: tidy_def)
  then have "tidy (fields_text fs)" by (simp add: shape)
  ultimately have "balanced (fields_text fs)" by (simp add: balanced_def)
  moreover have "parseStruct (fields_text fs) = fs" unfolding parseStruct_def un using struct_scan_joined [OF fs, of "[]" "[]"] by simp
  ultimately show ?thesis by blast
qed

section \<open>Zero values\<close>

definition names_ok :: "struct_fields \<Rightarrow> bool" where
  "names_ok fs \<longleftrightarrow> distinct (map fst fs) \<and> (\<forall>f \<in> set fs. valid_name (fst f))"

definition declared_names_ok :: "generation_context \<Rightarrow> bool" where
  "declared_names_ok g \<longleftrightarrow> (\<forall>(key, fs) \<in> set (gc_structs g). names_ok fs)"

lemma balanced_nat: "list_all alnum w \<Longrightarrow> w \<noteq> [] \<Longrightarrow> balanced (w @ nat_str n)"
proof -
  assume w: "list_all alnum w" "w \<noteq> []"
  have "list_all alnum (nat_str n)" using nat_str_facts [of n] by (auto simp: alnum_def list_all_iff)
  then show ?thesis using w alnum_text [of "w @ nat_str n"] by simp
qed

lemma zero_primitive_balanced: "zero_primitive p = Some z \<Longrightarrow> balanced z"
proof -
  assume z: "zero_primitive p = Some z"
  have int: "balanced (''0u'' @ nat_str n)" "balanced (''0i'' @ nat_str n)" for n
    by (rule balanced_nat; code_simp)+
  have "balanced (the (zero_primitive AddressP))" "balanced (the (zero_primitive BooleanP))" "balanced (the (zero_primitive FieldP))"
    "balanced (the (zero_primitive GroupP))" "balanced (the (zero_primitive IdentifierP))" "balanced (the (zero_primitive ScalarP))" by code_simp+
  then show ?thesis using int z by (cases p) (auto simp: zero_primitive_def)
qed

lemma is_some_names: "valid_name ''is_some'' \<and> valid_name ''val''"
  by code_simp

lemma optional_text:
  assumes "balanced t" and "flag = ''true'' \<or> flag = ''false''"
  shows "parseStruct (''{ is_some: '' @ flag @ '', val: '' @ t @ '' }'') = [(''is_some'', flag), (''val'', t)]
    \<and> balanced (''{ is_some: '' @ flag @ '', val: '' @ t @ '' }'')"
proof -
  have "balanced ''true''" "balanced ''false''" by code_simp+
  then have "good_fields [(''is_some'', flag), (''val'', t)]" using assms is_some_names by (auto simp: good_fields_def)
  from struct_text [OF this] show ?thesis by (simp add: fields_text_def)
qed

lemma zero_balanced: "zeroLeoValue n g seen ty = Some z \<Longrightarrow> declared_names_ok g \<Longrightarrow> balanced z"
proof (induction n g seen ty arbitrary: z rule: zeroLeoValue.induct)
  case (2 n g seen ty len)
  then obtain z0 where z0: "zeroLeoValue n g seen ty = Some z0" "z = ''['' @ join_with '', '' (replicate len z0) @ '']''" by (auto split: option.splits)
  then show ?case using 2 array_text [of "replicate len z0"] by auto
next
  case (3 n g seen ty)
  then obtain z0 where z0: "zeroLeoValue n g seen ty = Some z0" "z = ''{ is_some: '' @ ''false'' @ '', val: '' @ z0 @ '' }''" by (auto split: option.splits)
  then show ?case using 3 optional_text [of z0 "''false''"] by auto
next
  case (5 n g seen program path)
  let ?f = "\<lambda>(name, ty). zeroLeoValue n g (pathKey path # seen) ty"
  obtain fs zs where fs: "om_get (gc_structs g) (pathKey path) = Some fs" and zs: "all_some (map ?f fs) = Some zs"
    and z: "z = fields_text (zip (map fst fs) zs)" and new: "\<not> (\<not> isLocalStructRef g program path \<or> pathKey path \<in> set seen)"
    using "5.prems"(1) by (auto split: option.splits if_splits)
  have names: "names_ok fs" using map_of_SomeD [OF fs] "5.prems"(2) by (auto simp: declared_names_ok_def)
  have some: "None \<notin> set (map ?f fs)" and zs': "zs = map the (map ?f fs)" using zs by (auto simp: all_some_def split: if_splits)
  have len: "length zs = length fs" using zs' by simp
  have bal: "balanced t" if mem: "t \<in> set zs" for t
  proof -
    obtain f where f0: "f \<in> set fs" "t = the (?f f)" using mem unfolding zs' set_map image_image by (elim imageE) blast
    obtain name ty where nt: "f = (name, ty)" by fastforce
    have f: "(name, ty) \<in> set fs" "t = the (?f (name, ty))" using f0 nt by simp_all
    have "?f (name, ty) \<noteq> None" using some f(1) by force
    then have "zeroLeoValue n g (pathKey path # seen) ty = Some t" using f(2) by auto
    then show ?thesis using "5.IH" [OF new fs f(1) refl] "5.prems"(2) by blast
  qed
  have valid: "valid_name x" if "x \<in> set (map fst fs)" for x using names that by (auto simp: names_ok_def)
  have each: "valid_name x \<and> balanced t" if "(x, t) \<in> set (zip (map fst fs) zs)" for x t
    using valid [OF set_zip_leftD [OF that]] bal [OF set_zip_rightD [OF that]] by blast
  have "good_fields (zip (map fst fs) zs)"
    using names len each by (auto simp: good_fields_def names_ok_def)
  then show ?case using struct_text z by blast
qed (auto simp: zero_primitive_balanced)

section \<open>Values\<close>

text \<open>What can be written and read: structs that are bound, with the names of Leo, to a depth; no optional right inside another.\<close>

fun supported :: "nat \<Rightarrow> bindings \<Rightarrow> generation_context \<Rightarrow> plaintext_type \<Rightarrow> bool" where
  "supported n B g (Primitive p) = primitive_ok p"
| "supported n B g (Array ty len) = supported n B g ty"
| "supported n B g (Optional ty) = (declared_names_ok g \<and> \<not> is_optional ty \<and> supported n B g ty)"
| "supported 0 B g (Struct program path) = False"
| "supported (Suc n) B g (Struct program path) =
    (case bound_struct B g program path of
      None \<Rightarrow> False
    | Some (g', fs) \<Rightarrow> names_ok fs \<and> list_all (\<lambda>(name, ty). supported n B g' ty) fs)"

definition reads_back :: "nat \<Rightarrow> bindings \<Rightarrow> generation_context \<Rightarrow> plaintext_type \<Rightarrow> jsval \<Rightarrow> string \<Rightarrow> bool" where
  "reads_back n B g ty v s \<longleftrightarrow> balanced s \<and> (\<exists>v'. deserialize_value n B g ty s = Inr v' \<and> (\<not> nullish v \<longrightarrow> \<not> nullish v')
    \<and> (\<forall>ctx. serialize_value n B g ty v' ctx = Inr s))"

lemma mapR_InrI: "length ys = length xs \<Longrightarrow> (\<And>i. i < length xs \<Longrightarrow> f (xs ! i) = Inr (ys ! i)) \<Longrightarrow> mapR f xs = Inr ys"
  unfolding mapR_Inr by (simp add: list_all2_conv_all_nth)

lemma mapR_InrD: "mapR f xs = Inr ys \<Longrightarrow> length ys = length xs \<and> (\<forall>i < length xs. f (xs ! i) = Inr (ys ! i))"
  unfolding mapR_Inr by (simp add: list_all2_conv_all_nth)

lemma array_reads_back:
  assumes s: "serialize_value n B g (Array ty len) v ctx = Inr s"
    and each: "\<And>x ctx t. serialize_value n B g ty x ctx = Inr t \<Longrightarrow> reads_back n B g ty x t"
  shows "reads_back n B g (Array ty len) v s"
proof -
  obtain xs ss where v: "v = JArr xs" and ss: "mapR (\<lambda>(index, x). serialize_value n B g ty x (childInputContext ctx (nat_str index))) (enumerate 0 xs) = Inr ss"
    and t: "s = ''['' @ join_with '', '' ss @ '']''"
    using s by (auto simp: serializeArray_def bindR_Inr split: jsval.splits)
  have len: "length ss = length xs" using mapR_InrD [OF ss] by simp
  have again: "reads_back n B g ty (xs ! i) (ss ! i)" if "i < length xs" for i
    using mapR_InrD [OF ss] that each by (fastforce simp: nth_enumerate_eq)
  then have "\<forall>i. \<exists>v'. i < length xs \<longrightarrow> deserialize_value n B g ty (ss ! i) = Inr v' \<and> (\<forall>ctx. serialize_value n B g ty v' ctx = Inr (ss ! i))"
    unfolding reads_back_def by blast
  then obtain w where w: "\<And>i. i < length xs \<Longrightarrow> deserialize_value n B g ty (ss ! i) = Inr (w i) \<and> (\<forall>ctx. serialize_value n B g ty (w i) ctx = Inr (ss ! i))"
    by metis
  let ?ws = "map w [0..<length xs]"
  have "\<forall>t \<in> set ss. balanced t" using again len by (auto simp: in_set_conv_nth reads_back_def)
  note shape = array_text [OF this]
  have "mapR (deserialize_value n B g ty) ss = Inr ?ws" using w len by (intro mapR_InrI) auto
  moreover have "mapR (\<lambda>(index, x). serialize_value n B g ty x (childInputContext ctx' (nat_str index))) (enumerate 0 ?ws) = Inr ss" for ctx'
    using w len by (intro mapR_InrI) (auto simp: nth_enumerate_eq)
  ultimately show ?thesis using shape t by (auto simp: reads_back_def serializeArray_def nullish_def)
qed

lemma optional_reads_back:
  assumes s: "serialize_value n B g (Optional ty) v ctx = Inr s" and names: "declared_names_ok g" and inner: "\<not> is_optional ty"
    and each: "\<And>x ctx t. serialize_value n B g ty x ctx = Inr t \<Longrightarrow> reads_back n B g ty x t"
  shows "reads_back n B g (Optional ty) v s"
proof (cases "nullish v")
  case True
  then obtain z where z: "zero_text g ty = Some z" "s = ''{ is_some: '' @ ''false'' @ '', val: '' @ z @ '' }''"
    using s by (auto simp: serializeUnsupportedOptionalNone_def split: option.splits)
  have "balanced z" using zero_balanced names z(1) unfolding zero_text_def by blast
  note shape = optional_text [OF this, of "''false''"]
  have "\<not> parseBoolean ''false''" by code_simp
  then show ?thesis using shape z True by (auto simp: reads_back_def nullish_def)
next
  case False
  then obtain t where t: "serialize_value n B g ty v ctx = Inr t" "s = ''{ is_some: '' @ ''true'' @ '', val: '' @ t @ '' }''"
    using s by (auto simp: bindR_Inr)
  obtain v' where v': "deserialize_value n B g ty t = Inr v'" "\<not> nullish v'" "\<And>ctx. serialize_value n B g ty v' ctx = Inr t" "balanced t"
    using each [OF t(1)] False by (auto simp: reads_back_def)
  note shape = optional_text [OF v'(4), of "''true''"]
  have "parseBoolean ''true''" by code_simp
  then show ?thesis using shape t v' inner by (auto simp: reads_back_def read_field_def)
qed

lemma struct_reads_back:
  assumes s: "serialize_value (Suc n) B g (Struct program path) v ctx = Inr s" and b: "bound_struct B g program path = Some (g', fs)"
    and names: "names_ok fs"
    and each: "\<And>name ty x ctx t. (name, ty) \<in> set fs \<Longrightarrow> serialize_value n B g' ty x ctx = Inr t \<Longrightarrow> reads_back n B g' ty x t"
  shows "reads_back (Suc n) B g (Struct program path) v s"
proof -
  let ?one = "\<lambda>v ctx (name, ty). bindR (serialize_value n B g' ty (prop_of v name) (childInputContext ctx name)) (\<lambda>t. Inr (name, t))"
  let ?read = "\<lambda>texts (name, ty). bindR (read_field texts name (deserialize_value n B g' ty)) (\<lambda>v. Inr (name, v))"
  obtain ts where ts: "mapR (?one v ctx) fs = Inr ts" and t: "s = fields_text ts"
    using s b by (auto simp: bindR_Inr)
  note all = mapR_InrD [OF ts]
  have name: "fst (ts ! i) = fst (fs ! i)" and again: "\<exists>x. reads_back n B g' (snd (fs ! i)) x (snd (ts ! i))" if i: "i < length fs" for i
  proof -
    obtain nm ty where f: "fs ! i = (nm, ty)" by fastforce
    then have "(nm, ty) \<in> set fs" using i by (metis nth_mem)
    moreover obtain u where "serialize_value n B g' ty (prop_of v nm) (childInputContext ctx nm) = Inr u" "ts ! i = (nm, u)"
      using all i f by (fastforce simp: bindR_Inr)
    ultimately show "fst (ts ! i) = fst (fs ! i)" "\<exists>x. reads_back n B g' (snd (fs ! i)) x (snd (ts ! i))" using each [of nm ty "prop_of v nm" "childInputContext ctx nm"] f by auto
  qed
  have keys: "map fst ts = map fst fs" using all name by (intro nth_equalityI) auto
  have good: "good_fields ts"
  proof -
    have "balanced (snd p)" if "p \<in> set ts" for p using that again all by (auto simp: in_set_conv_nth reads_back_def)
    moreover have "valid_name (fst p)" if "p \<in> set ts" for p
    proof -
      have "fst p \<in> set (map fst fs)" using that keys by (metis image_eqI set_map)
      then show ?thesis using names by (auto simp: names_ok_def)
    qed
    ultimately show ?thesis using names keys by (auto simp: good_fields_def names_ok_def)
  qed
  note shape = struct_text [OF good]
  have "\<forall>i. \<exists>w. i < length fs \<longrightarrow> deserialize_value n B g' (snd (fs ! i)) (snd (ts ! i)) = Inr w
      \<and> (\<forall>ctx. serialize_value n B g' (snd (fs ! i)) w ctx = Inr (snd (ts ! i)))" using again unfolding reads_back_def by blast
  then obtain w where w: "\<And>i. i < length fs \<Longrightarrow> deserialize_value n B g' (snd (fs ! i)) (snd (ts ! i)) = Inr (w i)"
      "\<And>i ctx. i < length fs \<Longrightarrow> serialize_value n B g' (snd (fs ! i)) (w i) ctx = Inr (snd (ts ! i))" by metis
  let ?m = "map (\<lambda>i. (fst (fs ! i), w i)) [0..<length fs]"
  have dist: "distinct (map fst ts)" "distinct (map fst ?m)"
  proof -
    have "map fst ?m = map fst fs" by (intro nth_equalityI) auto
    then show "distinct (map fst ts)" "distinct (map fst ?m)" using keys names by (simp_all add: names_ok_def)
  qed
  have at_ts: "om_get ts (fst (fs ! i)) = Some (snd (ts ! i))" if "i < length fs" for i
  proof -
    have "(fst (fs ! i), snd (ts ! i)) \<in> set ts" using that all name [OF that] by (metis nth_mem prod.collapse)
    then show ?thesis using dist(1) by simp
  qed
  have at_m: "js_get ?m (fst (fs ! i)) = w i" if "i < length fs" for i
  proof -
    have "(fst (fs ! i), w i) \<in> set ?m" using that by auto
    then have "om_get ?m (fst (fs ! i)) = Some (w i)" using dist(2) by (rule map_of_is_SomeI [rotated])
    then show ?thesis by (simp add: js_get_def)
  qed
  have "mapR (?read ts) fs = Inr ?m"
    using at_ts w(1) by (intro mapR_InrI) (auto simp: read_field_def case_prod_unfold)
  moreover have "mapR (?one (JObj ?m) ctx') fs = Inr ts" for ctx'
  proof (rule mapR_InrI)
    show "length ts = length fs" using all by simp
    show "?one (JObj ?m) ctx' (fs ! i) = Inr (ts ! i)" if "i < length fs" for i
      using at_m [OF that] w(2) [OF that] name [OF that] by (simp add: case_prod_unfold) (metis prod.collapse)
  qed
  ultimately show ?thesis using shape t b
    by (simp add: reads_back_def nullish_def assertObject_def del: map_map)
qed

lemma value_reads_back: "serialize_value n B g ty v ctx = Inr s \<Longrightarrow> supported n B g ty \<Longrightarrow> reads_back n B g ty v s"
proof (induction n B g ty arbitrary: v ctx s rule: supported.induct)
  case (1 n B g p)
  then show ?case using primitive_round_trip [of p v ctx s] by (auto simp: reads_back_def)
next
  case (2 n B g ty len)
  show ?case by (rule array_reads_back [OF "2.prems"(1)], rule "2.IH") (use "2.prems"(2) in simp_all)
next
  case (3 n B g ty)
  have g: "declared_names_ok g" "\<not> is_optional ty" "supported n B g ty" using "3.prems"(2) by simp_all
  show ?case by (rule optional_reads_back [OF "3.prems"(1) g(1,2)], rule "3.IH") (use g in simp_all)
next
  case (5 n B g program path)
  obtain g' fs where b: "bound_struct B g program path = Some (g', fs)" "names_ok fs" "list_all (\<lambda>(name, ty). supported n B g' ty) fs"
    using "5.prems"(2) by (auto split: option.splits)
  have each: "reads_back n B g' ty x t" if "(name, ty) \<in> set fs" "serialize_value n B g' ty x c = Inr t" for name ty x c t
    using "5.IH" [OF b(1) refl that(1) refl that(2)] b(3) that(1) by (auto simp: list_all_iff)
  show ?case by (rule struct_reads_back [OF "5.prems"(1) b(1,2)], rule each)
qed simp

text \<open>
  C10: a value that a generated binding writes is read back by the same binding, and what it reads is
  written as the same text: primitives, arrays, optionals and structs inside one another, of the
  program's own module or of another program's, except an optional right inside another one, which
  is not read back (lemma \<open>nested_optional_throws\<close>).
\<close>

theorem contract_values_round_trip:
  assumes "serialize_value n B g ty v ctx = Inr s" and "supported n B g ty"
  shows "\<exists>v'. deserialize_value n B g ty s = Inr v' \<and> (nullish v' \<longrightarrow> nullish v) \<and> (\<forall>ctx'. serialize_value n B g ty v' ctx' = Inr s)"
  using value_reads_back [OF assms] by (auto simp: reads_back_def)

text \<open>
  An optional of an optional is accepted and written, but reading any value of it that is present
  throws.
\<close>

lemma nested_optional_throws:
  assumes "serialize_value n B g (Optional (Optional ty)) v ctx = Inr s" and "\<not> nullish v"
    and t: "\<And>t. serialize_value n B g (Optional ty) v ctx = Inr t \<Longrightarrow> balanced t"
  shows "deserialize_value n B g (Optional (Optional ty)) s = Inl (NotInitialised ''_opt'')"
proof -
  obtain t where t': "serialize_value n B g (Optional ty) v ctx = Inr t" "s = ''{ is_some: '' @ ''true'' @ '', val: '' @ t @ '' }''"
    using assms(1,2) by (auto simp: bindR_Inr)
  note shape = optional_text [OF t [OF t'(1)], of "''true''"]
  have "parseBoolean ''true''" by code_simp
  then show ?thesis using shape t' by auto
qed

lemma nested_optional_demo:
  "(case serialize_value 0 B g (Optional (Optional (Primitive BooleanP))) (JBool True) None of
      Inr s \<Rightarrow> deserialize_value 0 B g (Optional (Optional (Primitive BooleanP))) s | Inl e \<Rightarrow> Inl e) = Inl (NotInitialised ''_opt'')"
  by code_simp

definition demo_module :: generation_context where
  "demo_module = \<lparr>gc_programId = ''shapes.aleo'', gc_structs = [(''Point'', [(''x'', Primitive (UIntP 8)), (''far'', Optional (Array (Primitive (IntP 64)) 2))])], gc_external = []\<rparr>"

theorem contract_values_round_trip_witness:
  "\<exists>v'. deserialize_value 1 (\<lambda>_. None) demo_module (Array (Struct None [''Point'']) 2)
      ''[{ x: 7u8, far: { is_some: true, val: [-1i64, 2i64] } }, { x: 255u8, far: { is_some: false, val: [0i64, 0i64] } }]'' = Inr v'
    \<and> serialize_value 1 (\<lambda>_. None) demo_module (Array (Struct None [''Point'']) 2) v' None
      = Inr ''[{ x: 7u8, far: { is_some: true, val: [-1i64, 2i64] } }, { x: 255u8, far: { is_some: false, val: [0i64, 0i64] } }]''"
proof -
  let ?v = "JArr [JObj [(''x'', JNum (Fin 7)), (''far'', JArr [JBig (- 1), JBig 2])], JObj [(''x'', JNum (Fin 255)), (''far'', JNull)]]"
  have num: "nat_str 7 = ''7''" "nat_str 8 = ''8''" "nat_str 255 = ''255''" "nat_str 1 = ''1''" "nat_str 2 = ''2''" "nat_str 64 = ''64''" by code_simp+
  have bound: "bound_struct (\<lambda>_. None) demo_module None [''Point''] = Some (demo_module, [(''x'', Primitive (UIntP 8)), (''far'', Optional (Array (Primitive (IntP 64)) 2))])"
    by code_simp
  have fits: "serializeUInt (JNum (Fin 7)) 8 c = Inr ''7u8''" "serializeUInt (JNum (Fin 255)) 8 c = Inr ''255u8''" for c
    using num by (simp_all add: serializeUInt_def int_str_def)
  have wide: "serializeInt (JBig (- 1)) 64 c = Inr ''-1i64''" "serializeInt (JBig 2) 64 c = Inr ''2i64''" for c
    using num by (simp_all add: serializeInt_def is_bigint_def int_str_def)
  have zero: "zero_text demo_module (Array (Primitive (IntP 64)) 2) = Some ''[0i64, 0i64]''" by code_simp
  have w: "serialize_value 1 (\<lambda>_. None) demo_module (Array (Struct None [''Point'']) 2) ?v None
      = Inr ''[{ x: 7u8, far: { is_some: true, val: [-1i64, 2i64] } }, { x: 255u8, far: { is_some: false, val: [0i64, 0i64] } }]''"
    using bound fits wide zero
    by (simp add: serializeArray_def assertObject_def fields_text_def serializePrimitive_def js_get_def nullish_def)
  have "supported 1 (\<lambda>_. None) demo_module (Array (Struct None [''Point'']) 2)" by code_simp
  from contract_values_round_trip [OF w this] show ?thesis by blast
qed

end
