(* ===== verification/ContractCalls.thy ===== *)
theory ContractCalls imports ContractValues Confirmation begin

text \<open>
  The calls of a generated contract (the methods of the base class in
  \<^verbatim>\<open>leo-compiler/src/codegen/contract-wrapper.ts\<close>, and the decryption helpers of
  \<^verbatim>\<open>network/src/sdk-adapter.ts\<close>): local and on-chain transitions, the reads of mappings, storage and
  views, the handles of record outputs and their decryption. The network a contract is connected to is
  a record of methods that change its state; the calls made to it are logged. What is written to the
  console is left out.
\<close>

section \<open>Errors\<close>

datatype resolution_reason = TransitionNotFound | TransitionNotUnique | TransitionIndexOutOfRange | MatchIndexOutOfRange
  | ProgramMismatch | NotACiphertext

datatype typechain_kind = TransitionInputError | LocalTransitionError | UnexpectedLocalSuccessError | TransitionSubmissionError
  | TransactionConfirmationTimeoutError | OnChainRejectedError | UnexpectedTransactionStatusError | TransactionShapeError
  | RecordDecryptionKeyError | LocalRecordDecryptionError | LocalValueDecryptionError
  | IdOnlyRecordResolutionError resolution_reason | MappingKeyNotFoundError | StorageValueNotFoundError

text \<open>What is thrown: an error of the generated code, with its output index and cause, or one from below.\<close>

datatype native_kind = ConfirmationTimeoutKind | LocalVmKind | RecordDecryptionKind | ValueDecryptionKind | OtherKind

datatype contract_thrown = Typechain typechain_kind "nat option" "contract_thrown option" | Native native_kind string

definition is_typechain :: "contract_thrown \<Rightarrow> bool" where
  "is_typechain e = (case e of Typechain k i c \<Rightarrow> True | Native k m \<Rightarrow> False)"

definition shape_error :: contract_thrown where
  "shape_error = Typechain TransactionShapeError None None"

definition isNetworkConfirmationTimeoutError :: "contract_thrown \<Rightarrow> bool" where
  "isNetworkConfirmationTimeoutError e = (case e of Native k m \<Rightarrow> k = ConfirmationTimeoutKind | Typechain k i c \<Rightarrow> False)"

section \<open>The network and the contract\<close>

datatype execution_mode = LocalMode | OnchainMode

record call_options =
  co_fee :: "int option"
  co_privateFee :: "bool option"
  co_prove :: "bool option"
  co_signer :: "string option"
  co_imports :: "string list option"
  co_confirmTimeout :: "int option"

record execution_result =
  er_outputs :: "jsval list"
  er_txId :: "string option"

text \<open>What \<^verbatim>\<open>waitForConfirmation\<close> returns is not trusted to have its declared shape.\<close>

record confirmation =
  cf_txId :: jsval
  cf_blockHeight :: jsval
  cf_status :: jsval
  cf_transitions :: "confirmed_transition list option"

datatype contract_call =
    ExecuteCall string string "string list" execution_mode call_options
  | WaitCall string "int option"
  | CheckLocalCall string string "string list" execution_mode call_options
  | ViewCall string string "string list"
  | MappingCall string string string
  | StorageCall string string
  | VectorLengthCall string string
  | VectorValueCall string string nat

type_synonym ('w, 'a) network_act = "('w, contract_thrown, 'a) act"

record 'w contract_network =
  cn_execute :: "(string \<Rightarrow> string \<Rightarrow> string list \<Rightarrow> execution_mode \<Rightarrow> call_options \<Rightarrow> ('w, execution_result) network_act) option"
  cn_waitForConfirmation :: "(string \<Rightarrow> int option \<Rightarrow> ('w, confirmation option) network_act) option"
  cn_checkLocalExecution :: "(string \<Rightarrow> string \<Rightarrow> string list \<Rightarrow> execution_mode \<Rightarrow> call_options \<Rightarrow> ('w, unit) network_act) option"
  cn_queryView :: "(string \<Rightarrow> string \<Rightarrow> string list \<Rightarrow> ('w, jsval) network_act) option"
  cn_getMappingValue :: "(string \<Rightarrow> string \<Rightarrow> string \<Rightarrow> ('w, string option) network_act) option"
  cn_getStorageValue :: "(string \<Rightarrow> string \<Rightarrow> ('w, string option) network_act) option"
  cn_getStorageVectorLength :: "(string \<Rightarrow> string \<Rightarrow> ('w, nat) network_act) option"
  cn_getStorageVectorValue :: "(string \<Rightarrow> string \<Rightarrow> nat \<Rightarrow> ('w, string option) network_act) option"

text \<open>A contract that is not connected has no runtime environment; an environment may have no network.\<close>

record 'w base_contract =
  bc_sourceProgramId :: string
  bc_programId :: string
  bc_imports :: "string list"
  bc_lre :: "'w contract_network option option"
  bc_signer :: "string option"

record 'w contract_session =
  cs_world :: 'w
  cs_calls :: "contract_call list"

type_synonym ('w, 'a) contract_act = "('w contract_session, contract_thrown, 'a) act"

definition called :: "contract_call \<Rightarrow> ('w, 'a) network_act \<Rightarrow> ('w, 'a) contract_act" where
  "called c m = (\<lambda>s. case m (cs_world s) of (r, w) \<Rightarrow> (r, \<lparr>cs_world = w, cs_calls = cs_calls s @ [c]\<rparr>))"

text \<open>\<^verbatim>\<open>try\<close> and \<^verbatim>\<open>catch\<close>\<close>

definition catchA :: "('s, 'e, 'a) act \<Rightarrow> ('e \<Rightarrow> ('s, 'e, 'a) act) \<Rightarrow> ('s, 'e, 'a) act" where
  "catchA m h = (\<lambda>s. case m s of (Inl e, t) \<Rightarrow> h e t | (Inr x, t) \<Rightarrow> (Inr x, t))"

definition new_contract :: "string \<Rightarrow> string option \<Rightarrow> string list option \<Rightarrow> 'w base_contract" where
  "new_contract source programId runtimeImports =
    \<lparr>bc_sourceProgramId = normalizeProgramId source,
     bc_programId = normalizeProgramId (case programId of None \<Rightarrow> source | Some p \<Rightarrow> p),
     bc_imports = (case runtimeImports of None \<Rightarrow> [] | Some xs \<Rightarrow> xs), bc_lre = None, bc_signer = None\<rparr>"

definition connect_contract :: "'w contract_network option \<Rightarrow> 'w base_contract \<Rightarrow> 'w base_contract" where
  "connect_contract lre c = c\<lparr>bc_lre := Some lre\<rparr>"

definition withSigner :: "string \<Rightarrow> 'w base_contract \<Rightarrow> 'w base_contract" where
  "withSigner signer c =
    (new_contract (bc_sourceProgramId c) (Some (bc_programId c)) (Some (bc_imports c)))\<lparr>bc_lre := bc_lre c, bc_signer := Some signer\<rparr>"

definition getLre :: "'w base_contract \<Rightarrow> contract_thrown + 'w contract_network option" where
  "getLre c = (case bc_lre c of None \<Rightarrow> Inl shape_error | Some n \<Rightarrow> Inr n)"

definition getNetwork :: "'w base_contract \<Rightarrow> contract_thrown + 'w contract_network" where
  "getNetwork c = bindR (getLre c) (\<lambda>network.
    case network of None \<Rightarrow> Inl shape_error
    | Some n \<Rightarrow> if cn_execute n = None then Inl shape_error else Inr n)"

text \<open>A method of the network, or a shape error where there is no network or no such method.\<close>

definition network_method :: "'w base_contract \<Rightarrow> ('w contract_network \<Rightarrow> 'm option) \<Rightarrow> contract_thrown + 'm" where
  "network_method c method = bindR (getLre c) (\<lambda>network.
    case Option.bind network method of None \<Rightarrow> Inl shape_error | Some m \<Rightarrow> Inr m)"

definition buildEffectiveOptions :: "bool \<Rightarrow> 'w base_contract \<Rightarrow> call_options \<Rightarrow> call_options" where
  "buildEffectiveOptions envProve c opts =
    (let merged = bc_imports c @ (case co_imports opts of None \<Rightarrow> [] | Some xs \<Rightarrow> xs)
     in opts\<lparr>co_signer := (if given (bc_signer c) \<and> \<not> given (co_signer opts) then bc_signer c else co_signer opts),
       co_prove := (if co_prove opts = None \<and> envProve then Some True else co_prove opts),
       co_imports := (if merged \<noteq> [] then Some merged else co_imports opts)\<rparr>)"

definition executeRaw :: "bool \<Rightarrow> 'w base_contract \<Rightarrow> string \<Rightarrow> string list \<Rightarrow> execution_mode \<Rightarrow> call_options \<Rightarrow> ('w, execution_result) contract_act" where
  "executeRaw envProve c t args mode opts =
    bindA (liftA (getNetwork c)) (\<lambda>network.
      let options = buildEffectiveOptions envProve c opts
      in called (ExecuteCall (bc_programId c) t args mode options) (the (cn_execute network) (bc_programId c) t args mode options))"

section \<open>Transitions\<close>

definition executeLocal :: "bool \<Rightarrow> 'w base_contract \<Rightarrow> string \<Rightarrow> string list \<Rightarrow> call_options \<Rightarrow> ('w, execution_result) contract_act" where
  "executeLocal envProve c t args opts =
    catchA (executeRaw envProve c t args LocalMode opts)
      (\<lambda>e. if is_typechain e then throwA e else throwA (Typechain LocalTransitionError None (Some e)))"

definition expectLocalFailure :: "bool \<Rightarrow> 'w base_contract \<Rightarrow> string \<Rightarrow> string list \<Rightarrow> call_options \<Rightarrow> ('w, contract_thrown) contract_act" where
  "expectLocalFailure envProve c t args opts =
    bindA (liftA (getNetwork c)) (\<lambda>network.
      case cn_checkLocalExecution network of
        None \<Rightarrow> throwA shape_error
      | Some check \<Rightarrow>
          let options = buildEffectiveOptions envProve c opts
          in bindA (catchA (bindA (called (CheckLocalCall (bc_programId c) t args LocalMode options) (check (bc_programId c) t args LocalMode options))
                (\<lambda>_. returnA None))
              (\<lambda>e. case e of Native LocalVmKind m \<Rightarrow> returnA (Some (Typechain LocalTransitionError None (Some e))) | _ \<Rightarrow> throwA e))
            (\<lambda>failure. case failure of Some e \<Rightarrow> returnA e | None \<Rightarrow> throwA (Typechain UnexpectedLocalSuccessError None None)))"

definition submitTransition :: "bool \<Rightarrow> 'w base_contract \<Rightarrow> string \<Rightarrow> string list \<Rightarrow> call_options \<Rightarrow> ('w, string) contract_act" where
  "submitTransition envProve c t args opts =
    catchA (bindA (executeRaw envProve c t args OnchainMode opts) (\<lambda>result.
        if \<not> given (er_txId result) then throwA shape_error else returnA (the (er_txId result))))
      (\<lambda>e. if is_typechain e then throwA e else throwA (Typechain TransitionSubmissionError None (Some e)))"

definition matching_transitions :: "'w base_contract \<Rightarrow> string \<Rightarrow> confirmed_transition list \<Rightarrow> confirmed_transition list" where
  "matching_transitions c t ts = filter (\<lambda>x. ct_programId x = bc_programId c \<and> ct_transitionName x = t) ts"

definition listed_transitions :: "confirmed_transition list option \<Rightarrow> confirmed_transition list" where
  "listed_transitions ts = (case ts of None \<Rightarrow> [] | Some xs \<Rightarrow> xs)"

definition selectAcceptedTransition :: "'w base_contract \<Rightarrow> string \<Rightarrow> confirmed_transition list option \<Rightarrow> contract_thrown + raw_output list \<times> string" where
  "selectAcceptedTransition c t ts =
    (case matching_transitions c t (listed_transitions ts) of
      [x] \<Rightarrow> Inr (ct_rawOutputs x, ct_tpk x)
    | _ \<Rightarrow> Inl shape_error)"

definition selectRejectedTransitionOutputs :: "'w base_contract \<Rightarrow> string \<Rightarrow> confirmed_transition list option \<Rightarrow> raw_output list" where
  "selectRejectedTransitionOutputs c t ts =
    (case matching_transitions c t (listed_transitions ts) of [] \<Rightarrow> [] | x # xs \<Rightarrow> ct_rawOutputs x)"

record accepted_transition =
  at_txId :: string
  at_blockHeight :: jsval
  at_rawOutputs :: "raw_output list"
  at_tpk :: string
  at_transitions :: "confirmed_transition list"

record rejected_transition =
  rt_txId :: string
  rt_blockHeight :: jsval
  rt_rawOutputs :: "raw_output list"

datatype settled = AcceptedTx accepted_transition | RejectedTx rejected_transition

definition confirms :: "string \<Rightarrow> confirmation \<Rightarrow> bool" where
  "confirms tx cf \<longleftrightarrow> cf_txId cf = JStr tx \<and> js_typeof (cf_blockHeight cf) = ''number''
    \<and> (cf_status cf = JStr ''accepted'' \<or> cf_status cf = JStr ''rejected'')"

definition settle_confirmed :: "'w base_contract \<Rightarrow> string \<Rightarrow> string \<Rightarrow> confirmation option \<Rightarrow> contract_thrown + settled" where
  "settle_confirmed c t tx confirmed =
    (case confirmed of None \<Rightarrow> Inl shape_error
     | Some cf \<Rightarrow>
        if \<not> confirms tx cf then Inl shape_error
        else if cf_status cf = JStr ''accepted'' then
          bindR (selectAcceptedTransition c t (cf_transitions cf)) (\<lambda>(rawOutputs, tpk).
            Inr (AcceptedTx \<lparr>at_txId = tx, at_blockHeight = cf_blockHeight cf, at_rawOutputs = rawOutputs, at_tpk = tpk,
              at_transitions = listed_transitions (cf_transitions cf)\<rparr>))
        else Inr (RejectedTx \<lparr>rt_txId = tx, rt_blockHeight = cf_blockHeight cf,
          rt_rawOutputs = selectRejectedTransitionOutputs c t (cf_transitions cf)\<rparr>))"

definition settleTransition :: "bool \<Rightarrow> 'w base_contract \<Rightarrow> string \<Rightarrow> string list \<Rightarrow> call_options \<Rightarrow> ('w, settled) contract_act" where
  "settleTransition envProve c t args opts =
    bindA (submitTransition envProve c t args opts) (\<lambda>tx.
    bindA (liftA (getNetwork c)) (\<lambda>network.
      case cn_waitForConfirmation network of
        None \<Rightarrow> throwA shape_error
      | Some wait \<Rightarrow>
          catchA (bindA (called (WaitCall tx (co_confirmTimeout opts)) (wait tx (co_confirmTimeout opts))) (\<lambda>confirmed.
              liftA (settle_confirmed c t tx confirmed)))
            (\<lambda>e. if is_typechain e then throwA e
                 else if isNetworkConfirmationTimeoutError e then throwA (Typechain TransactionConfirmationTimeoutError None (Some e))
                 else throwA (Typechain TransactionShapeError None (Some e)))))"

definition expectAccepted :: "bool \<Rightarrow> 'w base_contract \<Rightarrow> string \<Rightarrow> string list \<Rightarrow> call_options \<Rightarrow> ('w, accepted_transition) contract_act" where
  "expectAccepted envProve c t args opts =
    bindA (settleTransition envProve c t args opts) (\<lambda>r. case r of
      AcceptedTx a \<Rightarrow> returnA a
    | RejectedTx x \<Rightarrow> throwA (Typechain OnChainRejectedError None None))"

definition expectRejected :: "bool \<Rightarrow> 'w base_contract \<Rightarrow> string \<Rightarrow> string list \<Rightarrow> call_options \<Rightarrow> ('w, rejected_transition) contract_act" where
  "expectRejected envProve c t args opts =
    bindA (settleTransition envProve c t args opts) (\<lambda>r. case r of
      AcceptedTx a \<Rightarrow> throwA (Typechain UnexpectedTransactionStatusError None None)
    | RejectedTx x \<Rightarrow> returnA x)"

text \<open>The generated projectors read the outputs; what they throw is reported as bad data of the chain.\<close>

type_synonym 'o projector = "raw_output list \<Rightarrow> string \<Rightarrow> confirmed_transition list \<Rightarrow> contract_thrown + 'o"

definition runProjector :: "'o projector \<Rightarrow> accepted_transition \<Rightarrow> contract_thrown + 'o" where
  "runProjector project a =
    (case project (at_rawOutputs a) (at_tpk a) (at_transitions a) of
      Inr out \<Rightarrow> Inr out
    | Inl (Typechain TransactionShapeError i c) \<Rightarrow> Inl (Typechain TransactionShapeError i c)
    | Inl e \<Rightarrow> Inl (Typechain TransactionShapeError None (Some e)))"

definition settleTyped :: "bool \<Rightarrow> 'w base_contract \<Rightarrow> string \<Rightarrow> string list \<Rightarrow> call_options \<Rightarrow> 'o projector
    \<Rightarrow> ('w, (accepted_transition \<times> 'o) + rejected_transition) contract_act" where
  "settleTyped envProve c t args opts project =
    bindA (settleTransition envProve c t args opts) (\<lambda>r. case r of
      AcceptedTx a \<Rightarrow> bindA (liftA (runProjector project a)) (\<lambda>out. returnA (Inl (a, out)))
    | RejectedTx x \<Rightarrow> returnA (Inr x))"

definition expectAcceptedTyped :: "bool \<Rightarrow> 'w base_contract \<Rightarrow> string \<Rightarrow> string list \<Rightarrow> call_options \<Rightarrow> 'o projector
    \<Rightarrow> ('w, accepted_transition \<times> 'o) contract_act" where
  "expectAcceptedTyped envProve c t args opts project =
    bindA (expectAccepted envProve c t args opts) (\<lambda>a.
    bindA (liftA (runProjector project a)) (\<lambda>out. returnA (a, out)))"

section \<open>Reading outputs\<close>

definition outputAt :: "execution_result \<Rightarrow> nat \<Rightarrow> contract_thrown + string" where
  "outputAt r i = (if i < length (er_outputs r) then (case er_outputs r ! i of JStr s \<Rightarrow> Inr s | _ \<Rightarrow> Inl shape_error) else Inl shape_error)"

definition rawOutputAt :: "raw_output list \<Rightarrow> nat \<Rightarrow> contract_thrown + string" where
  "rawOutputAt outs i =
    (if i < length outs then (case outs ! i of OutValue s \<Rightarrow> Inr s | IdOnly ty x \<Rightarrow> Inl (Typechain TransactionShapeError (Some i) None))
     else Inl (Typechain TransactionShapeError (Some i) None))"

definition idOnlyRecordOutputAt :: "raw_output list \<Rightarrow> nat \<Rightarrow> contract_thrown + string \<times> string" where
  "idOnlyRecordOutputAt outs i =
    (if i < length outs then (case outs ! i of IdOnly ty x \<Rightarrow> Inr (ty, x) | OutValue s \<Rightarrow> Inl (Typechain TransactionShapeError (Some i) None))
     else Inl (Typechain TransactionShapeError (Some i) None))"

section \<open>Decryption\<close>

text \<open>The primitives of the SDK: each may fail with a message.\<close>

record sdk_crypto =
  sc_viewKey :: "string \<Rightarrow> string + string"
  sc_decryptRecord :: "string \<Rightarrow> string \<Rightarrow> string + string"
  sc_decryptValue :: "string \<Rightarrow> string \<Rightarrow> string \<Rightarrow> string \<Rightarrow> nat \<Rightarrow> string \<Rightarrow> string + string"

definition sdk_result :: "native_kind \<Rightarrow> string + 'a \<Rightarrow> contract_thrown + 'a" where
  "sdk_result k r = map_sum (Native k) id r"

definition deriveViewKey :: "sdk_crypto \<Rightarrow> string \<Rightarrow> contract_thrown + string" where
  "deriveViewKey crypto privateKey =
    (if \<not> starts_with privateKey ''APrivateKey1'' then Inl (Native RecordDecryptionKind ''not a private key'')
     else sdk_result RecordDecryptionKind (sc_viewKey crypto privateKey))"

definition decryptRecordCiphertext :: "sdk_crypto \<Rightarrow> string \<Rightarrow> string \<Rightarrow> contract_thrown + string" where
  "decryptRecordCiphertext crypto ciphertext viewKey =
    (if ciphertext = [] then Inl (Native RecordDecryptionKind ''empty ciphertext'')
     else if \<not> starts_with ciphertext ''record1'' then Inl (Native RecordDecryptionKind ''not a record'')
     else if \<not> starts_with viewKey ''AViewKey1'' then Inl (Native RecordDecryptionKind ''not a view key'')
     else sdk_result RecordDecryptionKind (sc_decryptRecord crypto viewKey ciphertext))"

definition decryptValueCiphertext :: "sdk_crypto \<Rightarrow> string \<Rightarrow> string \<Rightarrow> string \<Rightarrow> string \<Rightarrow> string \<Rightarrow> nat \<Rightarrow> contract_thrown + string" where
  "decryptValueCiphertext crypto ciphertext viewKey tpk programId transitionName globalIndex =
    (if ciphertext = [] then Inl (Native ValueDecryptionKind ''empty ciphertext'')
     else if \<not> starts_with ciphertext ''ciphertext1'' then Inl (Native ValueDecryptionKind ''not a ciphertext'')
     else if \<not> starts_with viewKey ''AViewKey1'' then Inl (Native ValueDecryptionKind ''not a view key'')
     else if tpk = [] then Inl (Native ValueDecryptionKind ''no transition public key'')
     else sdk_result ValueDecryptionKind (sc_decryptValue crypto viewKey tpk programId transitionName globalIndex ciphertext))"

definition decryption_key_error :: contract_thrown where
  "decryption_key_error = Typechain RecordDecryptionKeyError None None"

definition normalizeRecordDecryptionKey :: "sdk_crypto \<Rightarrow> jsval \<Rightarrow> contract_thrown + string" where
  "normalizeRecordDecryptionKey crypto key =
    (case key of
      JStr s \<Rightarrow>
        (let trimmed = js_trim s
         in if starts_with trimmed ''AViewKey1'' then Inr trimmed
            else if starts_with trimmed ''APrivateKey1'' then deriveViewKey crypto trimmed
            else Inl decryption_key_error)
    | JObj m \<Rightarrow>
        (case js_get m ''viewKey'' of
          JStr (v # vs) \<Rightarrow> if starts_with (v # vs) ''AViewKey1'' then Inr (v # vs) else Inl decryption_key_error
        | _ \<Rightarrow>
            (case js_get m ''privateKey'' of
              JStr (p # ps) \<Rightarrow> if starts_with (p # ps) ''APrivateKey1'' then deriveViewKey crypto (p # ps) else Inl decryption_key_error
            | _ \<Rightarrow> Inl decryption_key_error))
    | _ \<Rightarrow> Inl decryption_key_error)"

definition decryptRecord :: "sdk_crypto \<Rightarrow> string \<Rightarrow> jsval \<Rightarrow> (string \<Rightarrow> contract_thrown + 'a) \<Rightarrow> contract_thrown + 'a" where
  "decryptRecord crypto ciphertext key deserialize =
    (case bindR (normalizeRecordDecryptionKey crypto key) (\<lambda>viewKey. bindR (decryptRecordCiphertext crypto ciphertext viewKey) deserialize) of
      Inr x \<Rightarrow> Inr x
    | Inl (Native RecordDecryptionKind m) \<Rightarrow> Inl (Typechain LocalRecordDecryptionError None (Some (Native RecordDecryptionKind m)))
    | Inl e \<Rightarrow> Inl e)"

text \<open>The handle of a private value: its decryption.\<close>

definition makeEncryptedValue :: "sdk_crypto \<Rightarrow> string \<Rightarrow> string \<Rightarrow> string \<Rightarrow> string \<Rightarrow> nat \<Rightarrow> (string \<Rightarrow> contract_thrown + 'a) \<Rightarrow> jsval \<Rightarrow> contract_thrown + 'a" where
  "makeEncryptedValue crypto ciphertext tpk programId transitionName globalIndex deserialize key =
    (case bindR (normalizeRecordDecryptionKey crypto key) (\<lambda>viewKey.
        bindR (decryptValueCiphertext crypto ciphertext viewKey tpk programId transitionName globalIndex) deserialize) of
      Inr x \<Rightarrow> Inr x
    | Inl (Typechain RecordDecryptionKeyError i c) \<Rightarrow> Inl (Typechain RecordDecryptionKeyError i c)
    | Inl e \<Rightarrow> Inl (Typechain LocalValueDecryptionError (Some globalIndex) (Some e)))"

section \<open>Matchers and record handles\<close>

datatype id_source = AtIndex int nat | ByName string string nat "int option"

definition source_outputIndex :: "id_source \<Rightarrow> nat" where
  "source_outputIndex src = (case src of AtIndex i o' \<Rightarrow> o' | ByName p t o' m \<Rightarrow> o')"

record 'a matcher =
  mr_program :: string
  mr_recordName :: string
  mr_deserialize :: "string \<Rightarrow> contract_thrown + 'a"
  mr_source :: "id_source option"

definition createRecordOutputMatcher :: "string \<Rightarrow> string \<Rightarrow> (string \<Rightarrow> contract_thrown + 'a) \<Rightarrow> 'a matcher" where
  "createRecordOutputMatcher program recordName deserialize =
    \<lparr>mr_program = program, mr_recordName = recordName, mr_deserialize = deserialize, mr_source = None\<rparr>"

definition matcher_from :: "'a matcher \<Rightarrow> string \<Rightarrow> nat \<Rightarrow> int option \<Rightarrow> 'a matcher" where
  "matcher_from m t outputIndex nth_match = m\<lparr>mr_source := Some (ByName (mr_program m) t outputIndex nth_match)\<rparr>"

definition matcher_at :: "'a matcher \<Rightarrow> int \<Rightarrow> nat \<Rightarrow> 'a matcher" where
  "matcher_at m transitionIndex outputIndex = m\<lparr>mr_source := Some (AtIndex transitionIndex outputIndex)\<rparr>"

definition rebindMatcherSource :: "id_source option \<Rightarrow> string \<Rightarrow> string \<Rightarrow> id_source option" where
  "rebindMatcherSource source' fromProgramId toProgramId =
    (case source' of
      Some (ByName p t i m) \<Rightarrow> if p \<noteq> fromProgramId then source' else Some (ByName toProgramId t i m)
    | _ \<Rightarrow> source')"

definition bindRecordOutputMatcherProgram :: "'a matcher \<Rightarrow> string \<Rightarrow> 'a matcher" where
  "bindRecordOutputMatcherProgram m programId =
    (if mr_program m = programId then m
     else m\<lparr>mr_program := programId, mr_source := rebindMatcherSource (mr_source m) (mr_program m) programId\<rparr>)"

definition bindOwnRuntimeMatcher :: "'a matcher \<Rightarrow> string option \<Rightarrow> string option \<Rightarrow> 'a matcher" where
  "bindOwnRuntimeMatcher m sourceProgramId runtimeProgramId =
    (case (sourceProgramId, runtimeProgramId) of
      (Some source', Some runtime) \<Rightarrow> if source' = runtime \<or> mr_program m \<noteq> source' then m else bindRecordOutputMatcherProgram m runtime
    | _ \<Rightarrow> m)"

record 'a encrypted_record =
  en_program :: string
  en_recordName :: string
  en_ciphertext :: string
  en_deserialize :: "string \<Rightarrow> contract_thrown + 'a"
  en_sourceProgramId :: "string option"

definition encrypted_decrypt :: "sdk_crypto \<Rightarrow> 'a encrypted_record \<Rightarrow> jsval \<Rightarrow> contract_thrown + 'a" where
  "encrypted_decrypt crypto h key = decryptRecord crypto (en_ciphertext h) key (en_deserialize h)"

definition encrypted_match :: "sdk_crypto \<Rightarrow> 'a encrypted_record \<Rightarrow> 'b matcher \<Rightarrow> jsval \<Rightarrow> contract_thrown + 'b" where
  "encrypted_match crypto h m key =
    (let runtimeMatcher = (case en_sourceProgramId h of
           Some source' \<Rightarrow> if source' \<noteq> en_program h \<and> mr_program m = source' then bindRecordOutputMatcherProgram m (en_program h) else m
         | None \<Rightarrow> m)
     in if mr_program runtimeMatcher \<noteq> en_program h \<or> mr_recordName runtimeMatcher \<noteq> en_recordName h then Inl shape_error
        else decryptRecord crypto (en_ciphertext h) key (mr_deserialize runtimeMatcher))"

definition resolution_error :: "resolution_reason \<Rightarrow> nat \<Rightarrow> contract_thrown" where
  "resolution_error reason outputIndex = Typechain (IdOnlyRecordResolutionError reason) (Some outputIndex) None"

definition resolveIdOnlySource :: "confirmed_transition list \<Rightarrow> id_source \<Rightarrow> contract_thrown + confirmed_transition \<times> nat" where
  "resolveIdOnlySource ts source' =
    (case source' of
      AtIndex i outputIndex \<Rightarrow>
        if 0 \<le> i \<and> i < int (length ts) then Inr (ts ! nat i, nat i) else Inl (resolution_error TransitionIndexOutOfRange outputIndex)
    | ByName p t outputIndex nth_match \<Rightarrow>
        (let found = filter (\<lambda>(i, x). ct_programId x = p \<and> ct_transitionName x = t) (enumerate 0 ts)
         in if found = [] then Inl (resolution_error TransitionNotFound outputIndex)
            else (case nth_match of
              None \<Rightarrow> if length found > 1 then Inl (resolution_error TransitionNotUnique outputIndex) else Inr (prod.swap (hd found))
            | Some m \<Rightarrow> if 0 \<le> m \<and> m < int (length found) then Inr (prod.swap (found ! nat m))
                else Inl (resolution_error MatchIndexOutOfRange outputIndex))))"

definition resolveAndDecryptIdOnly :: "sdk_crypto \<Rightarrow> confirmed_transition list \<Rightarrow> 'a matcher \<Rightarrow> jsval \<Rightarrow> contract_thrown + 'a" where
  "resolveAndDecryptIdOnly crypto ts m key =
    (case mr_source m of
      None \<Rightarrow> Inl (Native OtherKind ''the matcher has no source'')
    | Some source' \<Rightarrow> bindR (resolveIdOnlySource ts source') (\<lambda>(x, i).
        let k = source_outputIndex source'
        in if ct_programId x \<noteq> mr_program m then Inl (resolution_error ProgramMismatch k)
           else if \<not> k < length (ct_rawOutputs x) then Inl (resolution_error NotACiphertext k)
           else (case ct_rawOutputs x ! k of
             IdOnly ty y \<Rightarrow> Inl (resolution_error NotACiphertext k)
           | OutValue ciphertext \<Rightarrow> decryptRecord crypto ciphertext key (mr_deserialize m))))"

text \<open>The handle of an id-only output, of a dynamic or an external record.\<close>

record id_handle =
  ih_id :: string
  ih_transitions :: "confirmed_transition list"
  ih_sourceProgramId :: "string option"
  ih_runtimeProgramId :: "string option"

definition id_match :: "sdk_crypto \<Rightarrow> id_handle \<Rightarrow> 'a matcher \<Rightarrow> jsval \<Rightarrow> contract_thrown + 'a" where
  "id_match crypto h m key =
    resolveAndDecryptIdOnly crypto (ih_transitions h) (bindOwnRuntimeMatcher m (ih_sourceProgramId h) (ih_runtimeProgramId h)) key"

section \<open>Queries\<close>

definition queryViewRaw :: "'w base_contract \<Rightarrow> string \<Rightarrow> string list \<Rightarrow> nat \<Rightarrow> ('w, string list) contract_act" where
  "queryViewRaw c viewName args expectedOutputs =
    bindA (liftA (network_method c cn_queryView)) (\<lambda>query.
    bindA (called (ViewCall (bc_programId c) viewName args) (query (bc_programId c) viewName args)) (\<lambda>outputs.
      case outputs of
        JArr xs \<Rightarrow>
          if list_ex (\<lambda>x. js_typeof x \<noteq> ''string'') xs then throwA shape_error
          else if length xs \<noteq> expectedOutputs then throwA shape_error
          else returnA (map (\<lambda>x. case x of JStr s \<Rightarrow> s | _ \<Rightarrow> []) xs)
      | _ \<Rightarrow> throwA shape_error))"

definition queryMapping :: "'w base_contract \<Rightarrow> string \<Rightarrow> string \<Rightarrow> ('w, string option) contract_act" where
  "queryMapping c mappingName key =
    bindA (liftA (network_method c cn_getMappingValue)) (\<lambda>get.
      called (MappingCall (bc_programId c) mappingName key) (get (bc_programId c) mappingName key))"

definition mappingContains :: "'w base_contract \<Rightarrow> string \<Rightarrow> string \<Rightarrow> ('w, bool) contract_act" where
  "mappingContains c mappingName key = bindA (queryMapping c mappingName key) (\<lambda>raw. returnA (raw \<noteq> None))"

definition requireMappingRaw :: "'w base_contract \<Rightarrow> string \<Rightarrow> string \<Rightarrow> ('w, string) contract_act" where
  "requireMappingRaw c mappingName key =
    bindA (queryMapping c mappingName key) (\<lambda>raw. case raw of None \<Rightarrow> throwA (Typechain MappingKeyNotFoundError None None) | Some s \<Rightarrow> returnA s)"

definition queryStorage :: "'w base_contract \<Rightarrow> string \<Rightarrow> ('w, string option) contract_act" where
  "queryStorage c variable =
    bindA (liftA (network_method c cn_getStorageValue)) (\<lambda>get.
      called (StorageCall (bc_programId c) variable) (get (bc_programId c) variable))"

definition requireStorageRaw :: "'w base_contract \<Rightarrow> string \<Rightarrow> ('w, string) contract_act" where
  "requireStorageRaw c variable =
    bindA (queryStorage c variable) (\<lambda>raw. case raw of None \<Rightarrow> throwA (Typechain StorageValueNotFoundError None None) | Some s \<Rightarrow> returnA s)"

definition queryStorageVectorLength :: "'w base_contract \<Rightarrow> string \<Rightarrow> ('w, nat) contract_act" where
  "queryStorageVectorLength c variable =
    bindA (liftA (network_method c cn_getStorageVectorLength)) (\<lambda>get.
      called (VectorLengthCall (bc_programId c) variable) (get (bc_programId c) variable))"

text \<open>The index is checked as a \<^verbatim>\<open>u32\<close> before anything is asked.\<close>

definition queryStorageVector :: "'w base_contract \<Rightarrow> string \<Rightarrow> jsval \<Rightarrow> ('w, string option) contract_act" where
  "queryStorageVector c variable index =
    bindA (liftA (map_sum (\<lambda>e. Typechain TransitionInputError None None) id (serializeUInt index 32
        (Some \<lparr>ic_programId = Some (bc_programId c), ic_transition = None, ic_input = Some (variable @ '' index''), ic_path = None\<rparr>)))) (\<lambda>_.
    bindA (queryStorageVectorLength c variable) (\<lambda>n.
      if js_int index \<ge> int n then returnA None
      else bindA (liftA (network_method c cn_getStorageVectorValue)) (\<lambda>get.
        called (VectorValueCall (bc_programId c) variable (nat (js_int index))) (get (bc_programId c) variable (nat (js_int index))))))"

definition requireStorageVectorRaw :: "'w base_contract \<Rightarrow> string \<Rightarrow> jsval \<Rightarrow> ('w, string) contract_act" where
  "requireStorageVectorRaw c variable index =
    bindA (queryStorageVector c variable index) (\<lambda>raw. case raw of None \<Rightarrow> throwA (Typechain StorageValueNotFoundError None None) | Some s \<Rightarrow> returnA s)"

definition read_element :: "'w base_contract \<Rightarrow> string \<Rightarrow> (string \<Rightarrow> string \<Rightarrow> nat \<Rightarrow> ('w, string option) network_act) \<Rightarrow> string list \<Rightarrow> nat
    \<Rightarrow> ('w, string list) contract_act" where
  "read_element c variable get out i =
    bindA (called (VectorValueCall (bc_programId c) variable i) (get (bc_programId c) variable i)) (\<lambda>raw.
      case raw of None \<Rightarrow> throwA (Typechain StorageValueNotFoundError None None) | Some s \<Rightarrow> returnA (out @ [s]))"

definition queryStorageVectorAll :: "'w base_contract \<Rightarrow> string \<Rightarrow> ('w, string list) contract_act" where
  "queryStorageVectorAll c variable =
    bindA (queryStorageVectorLength c variable) (\<lambda>n.
    bindA (liftA (network_method c cn_getStorageVectorValue)) (\<lambda>get.
      foldA (read_element c variable get) [] [0..<n]))"

section \<open>What the calls did\<close>

lemma called_run: "called k m s = (r, t) \<longleftrightarrow> m (cs_world s) = (r, cs_world t) \<and> cs_calls t = cs_calls s @ [k]"
proof -
  obtain r' w where m: "m (cs_world s) = (r', w)" by fastforce
  have "\<lparr>cs_world = w, cs_calls = cs_calls s @ [k]\<rparr> = t \<longleftrightarrow> w = cs_world t \<and> cs_calls t = cs_calls s @ [k]" by (cases t) auto
  then show ?thesis using m by (auto simp: called_def)
qed

lemma catchA_Inr: "catchA m h s = (Inr x, t) \<longleftrightarrow> m s = (Inr x, t) \<or> (\<exists>e s'. m s = (Inl e, s') \<and> h e s' = (Inr x, t))"
  by (auto simp: catchA_def split: prod.splits sum.splits)

lemma catchA_Inl: "catchA m h s = (Inl e', t) \<longleftrightarrow> (\<exists>e s'. m s = (Inl e, s') \<and> h e s' = (Inl e', t))"
  by (auto simp: catchA_def split: prod.splits sum.splits)

lemmas run_simps = called_run catchA_Inr catchA_Inl bindA_Inr bindA_Inl

lemma getNetwork_Inr: "getNetwork c = Inr n \<longleftrightarrow> bc_lre c = Some (Some n) \<and> cn_execute n \<noteq> None"
  by (auto simp: getNetwork_def getLre_def split: option.splits)

lemma getNetwork_Inl: "getNetwork c = Inl e \<Longrightarrow> e = shape_error"
  by (auto simp: getNetwork_def getLre_def bindR_Inl split: option.splits if_splits)

text \<open>The call that a transition makes.\<close>

definition the_call :: "bool \<Rightarrow> 'w base_contract \<Rightarrow> string \<Rightarrow> string list \<Rightarrow> execution_mode \<Rightarrow> call_options \<Rightarrow> contract_call" where
  "the_call envProve c t args mode opts = ExecuteCall (bc_programId c) t args mode (buildEffectiveOptions envProve c opts)"

lemma executeRaw_run:
  "executeRaw envProve c t args mode opts s = (r, s') \<longleftrightarrow>
    (case getNetwork c of
      Inl e \<Rightarrow> r = Inl e \<and> s' = s
    | Inr n \<Rightarrow> the (cn_execute n) (bc_programId c) t args mode (buildEffectiveOptions envProve c opts) (cs_world s) = (r, cs_world s')
        \<and> cs_calls s' = cs_calls s @ [the_call envProve c t args mode opts])"
  by (cases "getNetwork c") (auto simp: executeRaw_def bindA_run called_run Let_def the_call_def)

lemma submitted:
  assumes "submitTransition envProve c t args opts s = (Inr tx, s')"
  shows "\<exists>n r. getNetwork c = Inr n \<and> er_txId r = Some tx \<and> tx \<noteq> []
    \<and> the (cn_execute n) (bc_programId c) t args OnchainMode (buildEffectiveOptions envProve c opts) (cs_world s) = (Inr r, cs_world s')
    \<and> cs_calls s' = cs_calls s @ [the_call envProve c t args OnchainMode opts]"
  using assms
  by (cases "getNetwork c") (auto simp: submitTransition_def catchA_Inr bindA_Inr executeRaw_run given_def split: if_splits)

lemma settle_accepted:
  assumes "settle_confirmed c t tx confirmed = Inr (AcceptedTx a)"
  shows "\<exists>cf x. confirmed = Some cf \<and> cf_txId cf = JStr tx \<and> cf_status cf = JStr ''accepted'' \<and> at_txId a = tx \<and> at_blockHeight a = cf_blockHeight cf
    \<and> at_transitions a = listed_transitions (cf_transitions cf)
    \<and> filter (\<lambda>x. ct_programId x = bc_programId c \<and> ct_transitionName x = t) (at_transitions a) = [x]
    \<and> at_rawOutputs a = ct_rawOutputs x \<and> at_tpk a = ct_tpk x"
proof -
  obtain cf where cf: "confirmed = Some cf" "confirms tx cf" "cf_status cf = JStr ''accepted''"
    using assms by (auto simp: settle_confirmed_def split: option.splits if_splits)
  then obtain outs tpk where sel: "selectAcceptedTransition c t (cf_transitions cf) = Inr (outs, tpk)"
    and a: "a = \<lparr>at_txId = tx, at_blockHeight = cf_blockHeight cf, at_rawOutputs = outs, at_tpk = tpk, at_transitions = listed_transitions (cf_transitions cf)\<rparr>"
    using assms by (auto simp: settle_confirmed_def)
  obtain x where "matching_transitions c t (listed_transitions (cf_transitions cf)) = [x]" "outs = ct_rawOutputs x" "tpk = ct_tpk x"
    using sel by (auto simp: selectAcceptedTransition_def split: list.splits)
  then show ?thesis using cf a by (auto simp: matching_transitions_def confirms_def)
qed

lemma settled_run:
  assumes "settleTransition envProve c t args opts s = (Inr r, s')"
  shows "\<exists>n wait res tx w cf. getNetwork c = Inr n \<and> cn_waitForConfirmation n = Some wait \<and> er_txId res = Some tx
    \<and> the (cn_execute n) (bc_programId c) t args OnchainMode (buildEffectiveOptions envProve c opts) (cs_world s) = (Inr res, w)
    \<and> wait tx (co_confirmTimeout opts) w = (Inr cf, cs_world s') \<and> settle_confirmed c t tx cf = Inr r
    \<and> cs_calls s' = cs_calls s @ [the_call envProve c t args OnchainMode opts, WaitCall tx (co_confirmTimeout opts)]"
proof -
  obtain tx s1 where tx: "submitTransition envProve c t args opts s = (Inr tx, s1)"
    and rest: "bindA (liftA (getNetwork c)) (\<lambda>network.
      case cn_waitForConfirmation network of
        None \<Rightarrow> throwA shape_error
      | Some wait \<Rightarrow>
          catchA (bindA (called (WaitCall tx (co_confirmTimeout opts)) (wait tx (co_confirmTimeout opts))) (\<lambda>confirmed.
              liftA (settle_confirmed c t tx confirmed)))
            (\<lambda>e. if is_typechain e then throwA e
                 else if isNetworkConfirmationTimeoutError e then throwA (Typechain TransactionConfirmationTimeoutError None (Some e))
                 else throwA (Typechain TransactionShapeError None (Some e)))) s1 = (Inr r, s')"
    using assms unfolding settleTransition_def bindA_Inr by blast
  obtain n res where n: "getNetwork c = Inr n" and res: "er_txId res = Some tx"
    and ex: "the (cn_execute n) (bc_programId c) t args OnchainMode (buildEffectiveOptions envProve c opts) (cs_world s) = (Inr res, cs_world s1)"
    and calls: "cs_calls s1 = cs_calls s @ [the_call envProve c t args OnchainMode opts]"
    using submitted [OF tx] by blast
  obtain wait where wait: "cn_waitForConfirmation n = Some wait" using rest n by (cases "cn_waitForConfirmation n") (simp_all add: act_simps)
  obtain cf where "called (WaitCall tx (co_confirmTimeout opts)) (wait tx (co_confirmTimeout opts)) s1 = (Inr cf, s')" "settle_confirmed c t tx cf = Inr r"
    using rest n wait by (auto simp: catchA_Inr bindA_Inr split: if_splits)
  then show ?thesis using n res ex calls wait by (auto simp: called_run)
qed

text \<open>
  C5: the outputs of an accepted transition are those of the one transition of this program and name in the
  transaction that the network confirmed under the id its own execution returned, and the network was
  asked for exactly one execution, with the program, the arguments and the merged options of the call.
\<close>

theorem accepted_outputs_are_the_calls:
  assumes "settleTransition envProve c t args opts s = (Inr (AcceptedTx a), s')"
  shows "\<exists>n wait res w cf x. bc_lre c = Some (Some n) \<and> cn_waitForConfirmation n = Some wait \<and> er_txId res = Some (at_txId a)
    \<and> the (cn_execute n) (bc_programId c) t args OnchainMode (buildEffectiveOptions envProve c opts) (cs_world s) = (Inr res, w)
    \<and> wait (at_txId a) (co_confirmTimeout opts) w = (Inr (Some cf), cs_world s')
    \<and> cf_txId cf = JStr (at_txId a) \<and> cf_status cf = JStr ''accepted'' \<and> at_transitions a = listed_transitions (cf_transitions cf)
    \<and> filter (\<lambda>x. ct_programId x = bc_programId c \<and> ct_transitionName x = t) (at_transitions a) = [x]
    \<and> at_rawOutputs a = ct_rawOutputs x \<and> at_tpk a = ct_tpk x
    \<and> cs_calls s' = cs_calls s @ [ExecuteCall (bc_programId c) t args OnchainMode (buildEffectiveOptions envProve c opts),
          WaitCall (at_txId a) (co_confirmTimeout opts)]"
proof -
  obtain n wait res tx w cf where f: "getNetwork c = Inr n" "cn_waitForConfirmation n = Some wait" "er_txId res = Some tx"
    "the (cn_execute n) (bc_programId c) t args OnchainMode (buildEffectiveOptions envProve c opts) (cs_world s) = (Inr res, w)"
    "wait tx (co_confirmTimeout opts) w = (Inr cf, cs_world s')" "settle_confirmed c t tx cf = Inr (AcceptedTx a)"
    "cs_calls s' = cs_calls s @ [the_call envProve c t args OnchainMode opts, WaitCall tx (co_confirmTimeout opts)]"
    using settled_run [OF assms] by blast
  then show ?thesis using settle_accepted [OF f(6)] by (auto simp: getNetwork_Inr the_call_def)
qed

section \<open>Which error means what\<close>

text \<open>The network throws no error of the generated code.\<close>

definition native_network :: "'w contract_network \<Rightarrow> bool" where
  "native_network n \<longleftrightarrow>
    (\<forall>p t args mode opts w e w'. the (cn_execute n) p t args mode opts w = (Inl e, w') \<longrightarrow> \<not> is_typechain e)
    \<and> (\<forall>wait tx timeout w e w'. cn_waitForConfirmation n = Some wait \<longrightarrow> wait tx timeout w = (Inl e, w') \<longrightarrow> \<not> is_typechain e)"

lemma shape_is_typechain [simp]: "is_typechain shape_error" "is_typechain (Typechain k i x)"
  by (simp_all add: is_typechain_def shape_error_def)

definition native_contract :: "'w base_contract \<Rightarrow> bool" where
  "native_contract c \<longleftrightarrow> (\<forall>n. bc_lre c = Some (Some n) \<longrightarrow> native_network n)"

lemma native_execute:
  assumes "native_contract c" and "getNetwork c = Inr n" and "the (cn_execute n) p t args mode opts w = (Inl e, w')"
  shows "\<not> is_typechain e"
proof -
  have "native_network n" using assms(1,2) by (auto simp: native_contract_def getNetwork_Inr)
  then show ?thesis using assms(3) unfolding native_network_def by blast
qed

lemma native_wait:
  assumes "native_contract c" and "getNetwork c = Inr n" and "cn_waitForConfirmation n = Some wait" and "wait tx timeout w = (Inl e, w')"
  shows "\<not> is_typechain e"
proof -
  have "native_network n" using assms(1,2) by (auto simp: native_contract_def getNetwork_Inr)
  then show ?thesis using assms(3,4) unfolding native_network_def by blast
qed

text \<open>How far a call came, with the kinds of error it may end with there.\<close>

definition ends_with_kind :: "contract_call list \<Rightarrow> contract_call list \<Rightarrow> typechain_kind set \<Rightarrow> contract_thrown \<Rightarrow> contract_call list \<Rightarrow> bool" where
  "ends_with_kind before calls kinds e now \<longleftrightarrow> now = before @ calls \<and> (\<exists>k \<in> kinds. \<exists>cause. e = Typechain k None cause)"

lemma submit_failed:
  assumes f: "submitTransition envProve c t args opts s = (Inl e, s')" and n: "native_contract c"
  shows "ends_with_kind (cs_calls s) [] {TransactionShapeError} e (cs_calls s')
    \<or> ends_with_kind (cs_calls s) [the_call envProve c t args OnchainMode opts] {TransitionSubmissionError, TransactionShapeError} e (cs_calls s')"
proof (cases "getNetwork c")
  case (Inl e0)
  then show ?thesis using f getNetwork_Inl [OF Inl]
    by (auto simp: submitTransition_def catchA_Inl bindA_Inl executeRaw_run ends_with_kind_def shape_error_def)
next
  case (Inr m)
  then show ?thesis using f native_execute [OF n Inr]
    by (auto simp: submitTransition_def catchA_Inl bindA_Inl executeRaw_run ends_with_kind_def shape_error_def split: if_splits)
qed

lemma settle_confirmed_error: "settle_confirmed c t tx cf = Inl e \<Longrightarrow> e = shape_error"
  by (auto simp: settle_confirmed_def selectAcceptedTransition_def bindR_Inl split: option.splits if_splits list.splits)

lemma settle_failed:
  assumes f: "settleTransition envProve c t args opts s = (Inl e, s')" and n: "native_contract c"
  shows "ends_with_kind (cs_calls s) [] {TransactionShapeError} e (cs_calls s')
    \<or> ends_with_kind (cs_calls s) [the_call envProve c t args OnchainMode opts] {TransitionSubmissionError, TransactionShapeError} e (cs_calls s')
    \<or> (\<exists>tx. ends_with_kind (cs_calls s) [the_call envProve c t args OnchainMode opts, WaitCall tx (co_confirmTimeout opts)]
         {TransactionConfirmationTimeoutError, TransactionShapeError} e (cs_calls s'))"
proof (cases "submitTransition envProve c t args opts s")
  case (Pair r s1)
  show ?thesis
  proof (cases r)
    case (Inl e0)
    then show ?thesis using f Pair submit_failed [OF _ n, of envProve t args opts s e s'] by (auto simp: settleTransition_def bindA_run)
  next
    case (Inr tx)
    then have sub: "submitTransition envProve c t args opts s = (Inr tx, s1)" using Pair by simp
    have run: "bindA (submitTransition envProve c t args opts) h s = h tx s1" for h :: "string \<Rightarrow> ('a, settled) contract_act"
      using sub by (rule bindA_run)
    obtain m where m: "getNetwork c = Inr m" and calls: "cs_calls s1 = cs_calls s @ [the_call envProve c t args OnchainMode opts]"
      using submitted [OF sub] by blast
    show ?thesis
    proof (cases "cn_waitForConfirmation m")
      case None
      then have "e = shape_error" "s' = s1" using f m by (simp_all add: settleTransition_def run)
      then show ?thesis using calls by (auto simp: ends_with_kind_def shape_error_def)
    next
      case (Some wait)
      let ?k = "WaitCall tx (co_confirmTimeout opts)"
      let ?body = "bindA (called ?k (wait tx (co_confirmTimeout opts))) (\<lambda>confirmed. liftA (settle_confirmed c t tx confirmed))"
      have "catchA ?body (\<lambda>e. if is_typechain e then throwA e
          else if isNetworkConfirmationTimeoutError e then throwA (Typechain TransactionConfirmationTimeoutError None (Some e))
          else throwA (Typechain TransactionShapeError None (Some e))) s1 = (Inl e, s')"
        using f m Some by (simp add: settleTransition_def run)
      then obtain e1 where e1: "?body s1 = (Inl e1, s')" and e: "e = e1 \<and> is_typechain e1
          \<or> (\<exists>k \<in> {TransactionConfirmationTimeoutError, TransactionShapeError}. \<exists>cause. e = Typechain k None cause)"
        unfolding catchA_Inl by (auto split: if_splits)
      have now: "cs_calls s' = cs_calls s @ [the_call envProve c t args OnchainMode opts, ?k]"
        using e1 calls by (auto simp: bindA_Inl called_run)
      have "is_typechain e1 \<Longrightarrow> e1 = shape_error"
        using e1 native_wait [OF n m Some] settle_confirmed_error by (fastforce simp: bindA_Inl called_run)
      then have "\<exists>k \<in> {TransactionConfirmationTimeoutError, TransactionShapeError}. \<exists>cause. e = Typechain k None cause"
        using e unfolding shape_error_def by blast
      then show ?thesis using now unfolding ends_with_kind_def by blast
    qed
  qed
qed

text \<open>
  C40: an expected acceptance that fails always fails with an error of the generated code, and its kind
  says how far the call came: before a submission only the shape of the network, after one execution a
  submission or shape error, and after waiting for the transaction a timeout, a shape error or the
  rejection. No failure ever executes twice.
\<close>

theorem failed_acceptance_classified:
  assumes f: "expectAccepted envProve c t args opts s = (Inl e, s')" and n: "native_contract c"
  shows "\<exists>k cause calls. e = Typechain k None cause \<and> cs_calls s' = cs_calls s @ calls
    \<and> (calls = [] \<and> k = TransactionShapeError
      \<or> calls = [ExecuteCall (bc_programId c) t args OnchainMode (buildEffectiveOptions envProve c opts)]
          \<and> k \<in> {TransitionSubmissionError, TransactionShapeError}
      \<or> (\<exists>tx. calls = [ExecuteCall (bc_programId c) t args OnchainMode (buildEffectiveOptions envProve c opts), WaitCall tx (co_confirmTimeout opts)])
          \<and> k \<in> {TransactionConfirmationTimeoutError, TransactionShapeError, OnChainRejectedError})"
proof (cases "settleTransition envProve c t args opts s")
  case (Pair r s1)
  show ?thesis
  proof (cases r)
    case (Inl e0)
    then have "settleTransition envProve c t args opts s = (Inl e, s')" using f Pair by (simp add: expectAccepted_def bindA_run)
    from settle_failed [OF this n] show ?thesis unfolding ends_with_kind_def the_call_def by (elim disjE exE conjE bexE) (fastforce+)
  next
    case (Inr x)
    then have "s' = s1" "e = Typechain OnChainRejectedError None None"
      using f Pair by (auto simp: expectAccepted_def bindA_run split: settled.splits)
    then show ?thesis using settled_run [of envProve c t args opts s x s1] Inr Pair unfolding the_call_def by force
  qed
qed

section \<open>Storage vectors\<close>

lemma read_elements:
  assumes "foldA (read_element c v get) out [i..<n] s = (Inr out', s')" and "i \<le> n"
  shows "\<exists>ys. out' = out @ ys \<and> length ys = n - i \<and> cs_calls s' = cs_calls s @ map (VectorValueCall (bc_programId c) v) [i..<n]
    \<and> (\<forall>j < n - i. \<exists>w w'. get (bc_programId c) v (i + j) w = (Inr (Some (ys ! j)), w'))"
  using assms
proof (induction "n - i" arbitrary: i out s)
  case 0
  then show ?case by simp
next
  case (Suc k)
  then have lt: "i < n" by simp
  have k: "k = n - Suc i" using Suc.hyps(2) by arith
  from lt have up: "[i..<n] = i # [Suc i..<n]" by (simp add: upt_conv_Cons)
  obtain y w s1 where y: "get (bc_programId c) v i (cs_world s) = (Inr (Some y), w)" and s1: "cs_calls s1 = cs_calls s @ [VectorValueCall (bc_programId c) v i]"
    and rest: "foldA (read_element c v get) (out @ [y]) [Suc i..<n] s1 = (Inr out', s')"
    using Suc.prems(1) unfolding up by (auto simp: bindA_Inr read_element_def called_run split: option.splits)
  obtain ys where ys: "out' = (out @ [y]) @ ys" "length ys = n - Suc i"
      "cs_calls s' = cs_calls s1 @ map (VectorValueCall (bc_programId c) v) [Suc i..<n]"
      "\<forall>j < n - Suc i. \<exists>w w'. get (bc_programId c) v (Suc i + j) w = (Inr (Some (ys ! j)), w')"
    using Suc.hyps(1) [OF k rest] lt by auto
  have "\<exists>w w'. get (bc_programId c) v (i + j) w = (Inr (Some ((y # ys) ! j)), w')" if "j < n - i" for j
    using that y ys(4) lt by (cases j) auto
  then show ?case using ys(1-3) s1 lt by (intro exI [of _ "y # ys"]) (auto simp: up)
qed

text \<open>
  Reading a whole storage vector asks for its length once and then for each index below it once, in
  order; what is returned are the answers, and none is missing.
\<close>

theorem storage_vector_read_once:
  assumes "queryStorageVectorAll c v s = (Inr out, s')"
  shows "\<exists>n get len w w'. bc_lre c = Some (Some n) \<and> cn_getStorageVectorValue n = Some get \<and> cn_getStorageVectorLength n = Some len
    \<and> len (bc_programId c) v w = (Inr (length out), w')
    \<and> cs_calls s' = cs_calls s @ VectorLengthCall (bc_programId c) v # map (VectorValueCall (bc_programId c) v) [0..<length out]
    \<and> (\<forall>i < length out. \<exists>u u'. get (bc_programId c) v i u = (Inr (Some (out ! i)), u'))"
proof -
  obtain k s1 get where k: "queryStorageVectorLength c v s = (Inr k, s1)" and get: "network_method c cn_getStorageVectorValue = Inr get"
    and fold: "foldA (read_element c v get) [] [0..<k] s1 = (Inr out, s')"
    using assms by (auto simp: queryStorageVectorAll_def bindA_Inr)
  obtain n len where n: "bc_lre c = Some (Some n)" "cn_getStorageVectorValue n = Some get" "cn_getStorageVectorLength n = Some len"
    and len: "len (bc_programId c) v (cs_world s) = (Inr k, cs_world s1)" "cs_calls s1 = cs_calls s @ [VectorLengthCall (bc_programId c) v]"
    using k get by (auto simp: queryStorageVectorLength_def network_method_def getLre_def bindA_Inr called_run split: option.splits bind_splits)
  obtain ys where ys: "out = ys" "length ys = k" "cs_calls s' = cs_calls s1 @ map (VectorValueCall (bc_programId c) v) [0..<k]"
      "\<forall>j < k. \<exists>w w'. get (bc_programId c) v (0 + j) w = (Inr (Some (ys ! j)), w')"
    using read_elements [OF fold] by auto
  then show ?thesis using n len by (intro exI [of _ n] exI [of _ get] exI [of _ len] exI [of _ "cs_world s"] exI [of _ "cs_world s1"]) simp
qed

section \<open>Records of a call graph\<close>

lemma sdk_result_Inr: "sdk_result k r = Inr x \<longleftrightarrow> r = Inr x"
  by (cases r) (simp_all add: sdk_result_def)

lemma decryptRecord_Inr:
  assumes "decryptRecord crypto ciphertext key deserialize = Inr v"
  shows "\<exists>viewKey pt. normalizeRecordDecryptionKey crypto key = Inr viewKey \<and> starts_with ciphertext ''record1'' \<and> starts_with viewKey ''AViewKey1''
    \<and> sc_decryptRecord crypto viewKey ciphertext = Inr pt \<and> deserialize pt = Inr v"
proof -
  have "bindR (normalizeRecordDecryptionKey crypto key) (\<lambda>viewKey. bindR (decryptRecordCiphertext crypto ciphertext viewKey) deserialize) = Inr v"
    using assms by (auto simp: decryptRecord_def split: sum.splits contract_thrown.splits native_kind.splits)
  then obtain viewKey pt where k: "normalizeRecordDecryptionKey crypto key = Inr viewKey" "decryptRecordCiphertext crypto ciphertext viewKey = Inr pt" "deserialize pt = Inr v"
    unfolding bindR_Inr by blast
  then show ?thesis unfolding decryptRecordCiphertext_def by (auto simp: sdk_result_Inr split: if_splits)
qed

text \<open>A failing decryption is never reported by the SDK's own error.\<close>

lemma decryption_errors_wrapped:
  "decryptRecord crypto ciphertext key deserialize = Inl e \<Longrightarrow> e \<noteq> Native RecordDecryptionKind m"
  "makeEncryptedValue crypto ciphertext tpk p t i deserialize' key = Inl e \<Longrightarrow>
    (\<exists>j c. e = Typechain RecordDecryptionKeyError j c) \<or> (\<exists>c. e = Typechain LocalValueDecryptionError (Some i) (Some c))"
  by (auto simp: decryptRecord_def makeEncryptedValue_def split: sum.splits contract_thrown.splits native_kind.splits typechain_kind.splits)

lemma snd_found: "map snd (filter (\<lambda>(i, x). P x) (enumerate k xs)) = filter P xs"
  by (induction xs arbitrary: k) auto

lemma found_nth: "(i, x) \<in> set (filter (\<lambda>(i, x). P x) (enumerate 0 xs)) \<Longrightarrow> i < length xs \<and> xs ! i = x \<and> P x"
  by (auto simp: in_set_enumerate_eq)

lemma resolved_by_name:
  assumes "resolveIdOnlySource ts (ByName p t k j) = Inr (x, i)"
  shows "i < length ts \<and> ts ! i = x \<and> ct_programId x = p \<and> ct_transitionName x = t
    \<and> (case j of None \<Rightarrow> filter (\<lambda>x. ct_programId x = p \<and> ct_transitionName x = t) ts = [x]
       | Some m \<Rightarrow> 0 \<le> m \<and> m < int (length (filter (\<lambda>x. ct_programId x = p \<and> ct_transitionName x = t) ts))
           \<and> filter (\<lambda>x. ct_programId x = p \<and> ct_transitionName x = t) ts ! nat m = x)"
proof -
  define P where "P = (\<lambda>x :: confirmed_transition. ct_programId x = p \<and> ct_transitionName x = t)"
  define found where "found = filter (\<lambda>(i, x). P x) (enumerate 0 ts)"
  have ts: "filter P ts = map snd found" by (simp add: found_def snd_found)
  have r: "(if found = [] then Inl (resolution_error TransitionNotFound k)
      else (case j of
        None \<Rightarrow> if length found > 1 then Inl (resolution_error TransitionNotUnique k) else Inr (prod.swap (hd found))
      | Some m \<Rightarrow> if 0 \<le> m \<and> m < int (length found) then Inr (prod.swap (found ! nat m)) else Inl (resolution_error MatchIndexOutOfRange k))) = Inr (x, i)"
    using assms by (simp only: resolveIdOnlySource_def Let_def found_def P_def id_source.case)
  show ?thesis
  proof (cases j)
    case None
    then have "found \<noteq> []" "\<not> 1 < length found" "prod.swap (hd found) = (x, i)" using r by (auto split: if_splits)
    then have f: "found = [(i, x)]" by (cases found) auto
    then have "(i, x) \<in> set found" by simp
    then show ?thesis using found_nth [of i x P ts] f ts None unfolding found_def [symmetric] by (simp add: P_def)
  next
    case (Some m)
    then have m: "0 \<le> m" "nat m < length found" "found ! nat m = (i, x)" using r by (auto split: if_splits simp: prod.swap_def prod_eq_iff)
    then have "(i, x) \<in> set found" by (metis nth_mem)
    then have "i < length ts \<and> ts ! i = x \<and> P x" using found_nth [of i x P ts] unfolding found_def by blast
    moreover have "filter P ts ! nat m = x" "m < int (length (filter P ts))" using m ts by simp_all
    ultimately show ?thesis using m(1) Some by (simp add: P_def)
  qed
qed

text \<open>A matcher of the source program is, for a contract deployed under another id, that of the other id.\<close>

lemma renamed_matcher:
  "S \<noteq> R \<Longrightarrow> bindOwnRuntimeMatcher (matcher_from (createRecordOutputMatcher S r d) t k j) (Some S) (Some R)
    = matcher_from (createRecordOutputMatcher R r d) t k j"
  by (simp add: bindOwnRuntimeMatcher_def bindRecordOutputMatcherProgram_def rebindMatcherSource_def matcher_from_def createRecordOutputMatcher_def)

lemma id_match_by_name:
  assumes "resolveAndDecryptIdOnly crypto ts m key = Inr v" and "mr_source m = Some (ByName (mr_program m) t k j)"
  shows "\<exists>i x ciphertext viewKey pt. i < length ts \<and> ts ! i = x \<and> ct_programId x = mr_program m \<and> ct_transitionName x = t
    \<and> (case j of None \<Rightarrow> filter (\<lambda>x. ct_programId x = mr_program m \<and> ct_transitionName x = t) ts = [x]
       | Some n \<Rightarrow> filter (\<lambda>x. ct_programId x = mr_program m \<and> ct_transitionName x = t) ts ! nat n = x)
    \<and> k < length (ct_rawOutputs x) \<and> ct_rawOutputs x ! k = OutValue ciphertext
    \<and> sc_decryptRecord crypto viewKey ciphertext = Inr pt \<and> mr_deserialize m pt = Inr v"
proof -
  obtain x i where x: "resolveIdOnlySource ts (ByName (mr_program m) t k j) = Inr (x, i)" "k < length (ct_rawOutputs x)"
    and rest: "(case ct_rawOutputs x ! k of IdOnly ty y \<Rightarrow> Inl (resolution_error NotACiphertext k)
      | OutValue ciphertext \<Rightarrow> decryptRecord crypto ciphertext key (mr_deserialize m)) = Inr v"
    using assms by (auto simp: resolveAndDecryptIdOnly_def source_outputIndex_def Let_def split: if_splits)
  obtain ciphertext where c: "ct_rawOutputs x ! k = OutValue ciphertext" "decryptRecord crypto ciphertext key (mr_deserialize m) = Inr v"
    using rest by (cases "ct_rawOutputs x ! k") auto
  have "case j of None \<Rightarrow> filter (\<lambda>x. ct_programId x = mr_program m \<and> ct_transitionName x = t) ts = [x]
       | Some n \<Rightarrow> filter (\<lambda>x. ct_programId x = mr_program m \<and> ct_transitionName x = t) ts ! nat n = x"
    using resolved_by_name [OF x(1)] by (cases j) auto
  then show ?thesis using resolved_by_name [OF x(1)] decryptRecord_Inr [OF c(2)] c(1) x(2) by blast
qed

text \<open>
  C26: a record read through an id-only handle with the matcher of the contract's own helper is the
  plaintext of a ciphertext that a transition of the name given put out at the index given, in the confirmed
  call graph, under the id the contract is deployed as; without a match number that transition is the only one.
\<close>

theorem own_records_come_from_call_graph:
  assumes "id_match crypto \<lparr>ih_id = h, ih_transitions = ts, ih_sourceProgramId = Some (bc_sourceProgramId c), ih_runtimeProgramId = Some (bc_programId c)\<rparr>
      (matcher_from (createRecordOutputMatcher (bc_sourceProgramId c) recordName deserialize) t k j) key = Inr v"
  shows "\<exists>i x ciphertext viewKey pt. i < length ts \<and> ts ! i = x \<and> ct_programId x = bc_programId c \<and> ct_transitionName x = t
    \<and> (case j of None \<Rightarrow> filter (\<lambda>x. ct_programId x = bc_programId c \<and> ct_transitionName x = t) ts = [x]
       | Some n \<Rightarrow> filter (\<lambda>x. ct_programId x = bc_programId c \<and> ct_transitionName x = t) ts ! nat n = x)
    \<and> k < length (ct_rawOutputs x) \<and> ct_rawOutputs x ! k = OutValue ciphertext
    \<and> sc_decryptRecord crypto viewKey ciphertext = Inr pt \<and> deserialize pt = Inr v"
proof -
  let ?m = "matcher_from (createRecordOutputMatcher (bc_programId c) recordName deserialize) t k j"
  have "bindOwnRuntimeMatcher (matcher_from (createRecordOutputMatcher (bc_sourceProgramId c) recordName deserialize) t k j)
      (Some (bc_sourceProgramId c)) (Some (bc_programId c)) = ?m"
    by (cases "bc_sourceProgramId c = bc_programId c") (simp_all add: renamed_matcher, simp add: bindOwnRuntimeMatcher_def)
  then have "resolveAndDecryptIdOnly crypto ts ?m key = Inr v" using assms by (simp add: id_match_def)
  moreover have m: "mr_program ?m = bc_programId c" "mr_deserialize ?m = deserialize" by (simp_all add: matcher_from_def createRecordOutputMatcher_def)
  moreover have "mr_source ?m = Some (ByName (mr_program ?m) t k j)" by (simp add: matcher_from_def createRecordOutputMatcher_def)
  ultimately show ?thesis using id_match_by_name [of crypto ts ?m key v t k j] unfolding m by blast
qed

section \<open>Witnesses\<close>

definition demo_transition :: confirmed_transition where
  "demo_transition = \<lparr>ct_programId = ''shop_v2.aleo'', ct_transitionName = ''buy'', ct_rawOutputs = [OutValue ''record1abc''], ct_tpk = ''3group''\<rparr>"

definition demo_network :: "bool \<Rightarrow> nat contract_network" where
  "demo_network accepted =
    \<lparr>cn_execute = Some (\<lambda>p t args mode opts w. (Inr \<lparr>er_outputs = [], er_txId = Some ''at1x''\<rparr>, Suc w)),
     cn_waitForConfirmation = Some (\<lambda>tx timeout w. (Inr (Some \<lparr>cf_txId = JStr tx, cf_blockHeight = JNum (Fin 9),
       cf_status = JStr (if accepted then ''accepted'' else ''rejected''), cf_transitions = Some [demo_transition]\<rparr>), w)),
     cn_checkLocalExecution = None, cn_queryView = None, cn_getMappingValue = None, cn_getStorageValue = None,
     cn_getStorageVectorLength = Some (\<lambda>p v w. (Inr 2, w)), cn_getStorageVectorValue = Some (\<lambda>p v i w. (Inr (Some (nat_str i @ ''u8'')), w))\<rparr>"

definition demo_contract :: "bool \<Rightarrow> nat base_contract" where
  "demo_contract accepted = connect_contract (Some (demo_network accepted)) (new_contract ''shop'' (Some ''shop_v2'') None)"

definition demo_options :: call_options where
  "demo_options = \<lparr>co_fee = None, co_privateFee = None, co_prove = None, co_signer = None, co_imports = None, co_confirmTimeout = None\<rparr>"

definition demo_session :: "nat contract_session" where
  "demo_session = \<lparr>cs_world = 0, cs_calls = []\<rparr>"

lemmas demo_defs = demo_transition_def demo_network_def demo_contract_def demo_options_def demo_session_def connect_contract_def new_contract_def

lemma demo_ids: "normalizeProgramId ''shop'' = ''shop.aleo''" "normalizeProgramId ''shop_v2'' = ''shop_v2.aleo''"
  by code_simp+

theorem accepted_outputs_are_the_calls_witness:
  "\<exists>a s'. settleTransition False (demo_contract True) ''buy'' [''1u8''] demo_options demo_session = (Inr (AcceptedTx a), s')
    \<and> at_rawOutputs a = [OutValue ''record1abc''] \<and> at_txId a = ''at1x'' \<and> length (cs_calls s') = 2"
proof -
  let ?a = "\<lparr>at_txId = ''at1x'', at_blockHeight = JNum (Fin 9), at_rawOutputs = [OutValue ''record1abc''], at_tpk = ''3group'', at_transitions = [demo_transition]\<rparr>"
  obtain s' where s': "settleTransition False (demo_contract True) ''buy'' [''1u8''] demo_options demo_session = (Inr (AcceptedTx ?a), s')"
    by (simp add: settleTransition_def submitTransition_def executeRaw_def getNetwork_def getLre_def bindA_def called_def catchA_def given_def
        settle_confirmed_def confirms_def selectAcceptedTransition_def matching_transitions_def listed_transitions_def demo_defs demo_ids)
  have "length (cs_calls s') = 2" using accepted_outputs_are_the_calls [OF s'] by (auto simp: demo_session_def)
  then show ?thesis using s' by fastforce
qed

theorem failed_acceptance_classified_witness:
  "\<exists>k cause s'. expectAccepted False (demo_contract False) ''buy'' [''1u8''] demo_options demo_session = (Inl (Typechain k None cause), s')
    \<and> cs_calls s' \<noteq> []"
proof -
  let ?e = "Typechain OnChainRejectedError None None"
  obtain s' where s': "expectAccepted False (demo_contract False) ''buy'' [''1u8''] demo_options demo_session = (Inl ?e, s')"
    by (simp add: expectAccepted_def settleTransition_def submitTransition_def executeRaw_def getNetwork_def getLre_def bindA_def called_def catchA_def given_def
        settle_confirmed_def confirms_def demo_defs demo_ids)
  have "native_contract (demo_contract False)" by (simp add: native_contract_def native_network_def demo_defs)
  from failed_acceptance_classified [OF s' this] show ?thesis using s' by (auto simp: demo_session_def)
qed

theorem storage_vector_read_once_witness:
  "\<exists>s'. queryStorageVectorAll (demo_contract True) ''v'' demo_session = (Inr [''0u8'', ''1u8''], s') \<and> length (cs_calls s') = 3"
proof -
  have n: "nat_str 0 = ''0''" "nat_str (Suc 0) = ''1''" by code_simp+
  have up: "[0..<2] = [0, Suc 0]" by (simp add: upt_rec)
  obtain s' where s': "queryStorageVectorAll (demo_contract True) ''v'' demo_session = (Inr [''0u8'', ''1u8''], s')"
    by (simp add: queryStorageVectorAll_def queryStorageVectorLength_def network_method_def getLre_def read_element_def bindA_def called_def demo_defs demo_ids up n)
  then show ?thesis using storage_vector_read_once [OF s'] by (auto simp: demo_session_def)
qed

definition demo_crypto :: sdk_crypto where
  "demo_crypto = \<lparr>sc_viewKey = Inr, sc_decryptRecord = (\<lambda>viewKey ciphertext. Inr ''{ owner: aleo1q }''), sc_decryptValue = (\<lambda>viewKey tpk p t i ciphertext. Inr [])\<rparr>"

theorem own_records_come_from_call_graph_witness:
  "\<exists>i pt. i < length [demo_transition] \<and> ct_programId ([demo_transition] ! i) = ''shop_v2.aleo'' \<and> sc_decryptRecord demo_crypto ''AViewKey1x'' ''record1abc'' = Inr pt"
proof -
  have "id_match demo_crypto \<lparr>ih_id = ''7field'', ih_transitions = [demo_transition], ih_sourceProgramId = Some (bc_sourceProgramId (demo_contract True)),
        ih_runtimeProgramId = Some (bc_programId (demo_contract True))\<rparr>
      (matcher_from (createRecordOutputMatcher (bc_sourceProgramId (demo_contract True)) ''Ticket'' Inr) ''buy'' 0 None) (JStr ''AViewKey1x'') = Inr ''{ owner: aleo1q }''"
    by code_simp
  from own_records_come_from_call_graph [OF this] show ?thesis by (auto simp: demo_crypto_def demo_defs demo_ids)
qed

end
