(* ===== verification/Spec2Isabelle.thy ===== *)
theory Spec2Isabelle
  imports Redact Tasks Plugins Scrubber Units Cli Hooks ConfigResolution Abi UpgradeTask Network Connection SdkObjects Egress CreditsCache CompileCache ContractRoundTrip ContractCalls
begin

text \<open>
  A verification development of LionDen, a toolchain for Aleo programs written in Leo. It models the
  TypeScript sources under \<^verbatim>\<open>src/packages\<close> as functions and step relations and proves what makes
  them correct.

  The program. A command line (\<^verbatim>\<open>cli\<close>) finds and loads a configuration, loads plugins and runs one
  task. The core (\<^verbatim>\<open>core\<close>, \<^verbatim>\<open>config\<close>) holds the plugin loader, the task builders and the task runner,
  the hook dispatcher and the resolution of the configuration. The compiler (\<^verbatim>\<open>leo-compiler\<close>) discovers
  the units of a source tree, orders them by their imports, hands packages to \<^verbatim>\<open>leo build\<close> with a cache
  keyed by a hash of the inputs, and prints TypeScript bindings for the parsed ABI. The network package
  (\<^verbatim>\<open>network\<close>) connects to a devnode or a public network, executes transitions through the SDK and follows
  transactions until they are confirmed. The deploy plugin (\<^verbatim>\<open>plugin-deploy\<close>) deploys and upgrades
  programs with the SDK or the Leo CLI, and keeps what it did on disk so that nothing that was sent is lost.

  Theories, from the bottom, with the files they model:

  \<^item> \<^verbatim>\<open>Prelude\<close> (errors as sums, actions over a state, insertion-ordered maps, strings), \<^verbatim>\<open>Values\<close>
    (JavaScript values), \<^verbatim>\<open>Paths\<close> (\<^verbatim>\<open>node:path\<close>) and \<^verbatim>\<open>Toposort\<close> (the locale of a depth-first visit
    with cycle detection, interpreted on the plugin loader and on the dependency resolver).
  \<^item> \<^verbatim>\<open>Redact\<close>: \<^verbatim>\<open>core/src/redact.ts\<close> and the bounded tail of the Leo runner. A stream redactor is
    shown never to leak a key and to agree with the one-shot function; both refine a one-pass specification.
  \<^item> \<^verbatim>\<open>Tasks\<close>, \<^verbatim>\<open>Plugins\<close>, \<^verbatim>\<open>Cli\<close>, \<^verbatim>\<open>Hooks\<close>: \<^verbatim>\<open>arg-names.ts\<close>, \<^verbatim>\<open>task-builder.ts\<close>, \<^verbatim>\<open>task-runner.ts\<close>,
    \<^verbatim>\<open>plugin-loader.ts\<close>, \<^verbatim>\<open>task-dispatch.ts\<close>, \<^verbatim>\<open>config-discovery.ts\<close> and \<^verbatim>\<open>hook-system.ts\<close>. Arguments are
    unambiguous and complete, the override stack is followed, plugins load after their dependencies,
    and in every interleaving of dispatches a factory runs once.
  \<^item> \<^verbatim>\<open>ConfigValues\<close>, \<^verbatim>\<open>ConfigResolution\<close>: the \<^verbatim>\<open>config\<close> package and \<^verbatim>\<open>config-resolution.ts\<close>. A resolved
    configuration passed its validations and holds only well-typed accounts and imports.
  \<^item> \<^verbatim>\<open>Scrubber\<close>, \<^verbatim>\<open>Units\<close>: \<^verbatim>\<open>source-scrubber.ts\<close>, \<^verbatim>\<open>import-parser.ts\<close>, \<^verbatim>\<open>source-discovery.ts\<close>,
    \<^verbatim>\<open>dependency-resolver.ts\<close> and \<^verbatim>\<open>deployment-closure.ts\<close>. The compile order exists exactly for acyclic
    imports, and the deployment closure is the set of reachable programs.
  \<^item> \<^verbatim>\<open>Materialize\<close>, \<^verbatim>\<open>BuildArtifacts\<close>, \<^verbatim>\<open>Compiler\<close>, \<^verbatim>\<open>CompileCache\<close>: \<^verbatim>\<open>package-materializer.ts\<close>,
    \<^verbatim>\<open>cache.ts\<close> and \<^verbatim>\<open>compiler.ts\<close>. What a run takes from the cache is what Leo would build for its inputs,
    as long as every run had the same binary, flags and \<^verbatim>\<open>.env\<close>, which the hash does not cover, and no
    unit was renamed between them.
  \<^item> \<^verbatim>\<open>Abi\<close>, \<^verbatim>\<open>ContractValues\<close>, \<^verbatim>\<open>ContractRoundTrip\<close>: \<^verbatim>\<open>abi-parser.ts\<close>, \<^verbatim>\<open>abi-hash.ts\<close>,
    \<^verbatim>\<open>codegen/contract-wrapper.ts\<close> and what \<^verbatim>\<open>codegen/typescript-generator.ts\<close> prints for values. A
    snapshot of an ABI is a fixed point of the parser, and values written as Leo text read back, except an
    optional directly inside an optional, on which the printed code throws.
  \<^item> \<^verbatim>\<open>Network\<close>, \<^verbatim>\<open>SdkObjects\<close>, \<^verbatim>\<open>Locks\<close>, \<^verbatim>\<open>SdkDiagnostics\<close>, \<^verbatim>\<open>Egress\<close>, \<^verbatim>\<open>KeyArtifacts\<close>, \<^verbatim>\<open>KeyCache\<close>,
    \<^verbatim>\<open>CreditsCache\<close>, \<^verbatim>\<open>Confirmation\<close>, \<^verbatim>\<open>Connection\<close>: the \<^verbatim>\<open>network\<close> package and \<^verbatim>\<open>core/src/key-artifacts.ts\<close>.
    Connections, SDK objects and locks are step relations whose steps are the stretches of code between
    two awaits; the promise mutex is a locale interpreted on its two uses. Execution is one function from
    import references to confirmed outputs, with genuine keys and sources. The accounts of a closed
    connection are released, except one whose creation failed after it was built; a captured call may be
    explained by transport failures that requests of earlier calls report late; a credits key that was
    stored is the key the next process loads.
  \<^item> \<^verbatim>\<open>DeployStore\<close>, \<^verbatim>\<open>DeployManager\<close>, \<^verbatim>\<open>LeoVersion\<close>, \<^verbatim>\<open>LeoBackend\<close>, \<^verbatim>\<open>Preflight\<close>, \<^verbatim>\<open>DeployTask\<close>,
    \<^verbatim>\<open>UpgradeTask\<close>: the \<^verbatim>\<open>plugin-deploy\<close> package. Writes are lists of disk operations, so that a crash
    between any two of them is a state of the model; records, markers and recovery are correct there. The
    backends act on a chain: an SDK whose build broadcasts changes it, so that a dry run is shown to leave
    the chain as it was because of its guard.

  How code becomes definitions. A class or closure is a record of its fields, an operation a function that
  returns the new state or an error; every raise and early return is a branch. A method with awaits is either
  run to its end over its state (the deployment manager, the compiler, an execution) or split at its awaits
  into an inductive step relation (hooks, connections, SDK objects, locks). Files are maps from paths to
  contents. Text is ASCII, numbers are exact rationals, and wide integers are unbounded, as \<^verbatim>\<open>bigint\<close> is.
  Messages of errors are constructors with the arguments the text is built from.

  Bounds and fuel. Loops recurse on data or with a measure: the polling loops on the time left until their
  deadline, a redirected request on the hops left, the stream redactor on its buffer. Recursion on graphs has
  a depth argument: the depth-first visits are given one level more than there are nodes, the closures of
  imports in the compiler the number of units, the import walk of an execution and the packages Leo reads a
  depth that is shown to suffice where the walk ends at all, the zero values the number of structs; the
  theorems on these visits state existence within the bound, not only correctness of results. The depth of
  values is an argument of the serializers, and a value written at a depth is read back at that depth.

  Arguments of the model. Code that is not under \<^verbatim>\<open>src\<close> is an argument: the SDK, \<^verbatim>\<open>leo\<close>, the node and its
  answers over time, \<^verbatim>\<open>fetch\<close>, \<^verbatim>\<open>JSON.parse\<close>, SHA-256, the URL parser, \<^verbatim>\<open>localeCompare\<close>, and the plugins
  and actions of users. Where a theorem relies on what such code promises, the promise is a hypothesis with
  a name, and a witness instantiates it.

  Not modelled. The devnode process and the Leo process (spawning, signals, pipes), the console and the help
  texts, the scaffolding and the helpers for users' tests do nothing but input and output. The printed
  TypeScript is text for \<^verbatim>\<open>tsc\<close>: what its serializers compute is modelled, that it type-checks is not.
  Loading the SDK and wiring its objects only calls the SDK. Two calls of one deployment manager whose awaits
  interleave, rounding of numbers to doubles beyond the safe integers, and characters outside ASCII are
  outside the model. A path exists in the model exactly when it is a regular file or a directory that holds one.
\<close>

end
